(* ===== verification/Garnet_Prelude.thy ===== *)
theory Garnet_Prelude
  imports Main "HOL-Library.Multiset"
begin

text \<open>
  The vocabulary every component shares. C++ code that can stop the simulator (a failed
  \<open>assert\<close>, \<open>fatal\<close>, \<open>panic\<close>, an index outside a \<open>std::vector\<close>, a null
  pointer, an exception nobody catches, a shift that C++ leaves undefined) returns a value of
  \<open>'a res = error + 'a\<close>; \<open>bnd\<close> sequences such computations and \<open>foldM\<close> is a C++ counting loop over a
  state. \<open>at\<close> and \<open>put_at\<close> are vector indexing with the C++ \<open>int\<close> index, \<open>rr_next\<close> is the round-robin
  pointer increment that the allocator and the network interface use. Times are in cycles of the one
  clock domain of the network and are natural numbers (the C++ \<open>Cycles\<close> is a 64-bit counter).
\<close>

section \<open>Errors and sequencing\<close>

datatype error =
    AssertFail
  | Fatal string
  | Panic string
  | OutOfRange
  | DivByZero
  | NullPointer
  | Exception string
  | UndefinedShift

type_synonym 'a res = "error + 'a"
type_synonym cycles = nat
type_synonym port_direction = string

named_theorems net_defs "definitions unfolded by the component proofs"

definition bnd :: "'a res \<Rightarrow> ('a \<Rightarrow> 'b res) \<Rightarrow> 'b res" where
  "bnd m f = (case m of Inl e \<Rightarrow> Inl e | Inr x \<Rightarrow> f x)"

definition assert_that :: "bool \<Rightarrow> unit res" where
  "assert_that b = (if b then Inr () else Inl AssertFail)"

lemma bnd_Inr [simp]: "bnd (Inr x) f = f x"
  by (simp add: bnd_def)

lemma bnd_Inl [simp]: "bnd (Inl e) f = Inl e"
  by (simp add: bnd_def)

lemma bnd_eq_Inr: "bnd m f = Inr y \<longleftrightarrow> (\<exists>x. m = Inr x \<and> f x = Inr y)"
  by (cases m) auto

lemma bnd_InrE [elim!]:
  assumes "bnd m f = Inr y"
  obtains x where "m = Inr x" and "f x = Inr y"
  using assms by (auto simp: bnd_eq_Inr)

lemma bnd_assoc: "bnd (bnd m f) g = bnd m (\<lambda>x. bnd (f x) g)"
  by (cases m) auto

lemma bnd_cong [fundef_cong]:
  assumes "m = m'" and "\<And>x. m' = Inr x \<Longrightarrow> f x = g x"
  shows "bnd m f = bnd m' g"
  using assms by (cases m') auto

lemma assert_that_Inr [simp]: "assert_that b = Inr u \<longleftrightarrow> b"
  by (simp add: assert_that_def)

lemma assert_that_True [simp]: "assert_that True = Inr ()"
  by (simp add: assert_that_def)

lemma assert_that_False [simp]: "assert_that False = Inl AssertFail"
  by (simp add: assert_that_def)

section \<open>Loops over a state\<close>

fun foldM :: "('a \<Rightarrow> 's \<Rightarrow> 's res) \<Rightarrow> 'a list \<Rightarrow> 's \<Rightarrow> 's res" where
  "foldM f [] s = Inr s"
| "foldM f (x # xs) s = bnd (f x s) (foldM f xs)"

lemma foldM_append: "foldM f (xs @ ys) s = bnd (foldM f xs s) (foldM f ys)"
proof (induction xs arbitrary: s)
  case (Cons x xs)
  have "foldM f (xs @ ys) = (\<lambda>t. bnd (foldM f xs t) (foldM f ys))"
    by (rule ext) (rule Cons.IH)
  then show ?case by (simp add: bnd_assoc)
qed simp

text \<open>
  The loop rule every component uses: a predicate on the state that each iteration keeps holds
  after the loop.
\<close>

lemma foldM_invariant:
  assumes "foldM f xs s = Inr s'"
    and "I s"
    and "\<And>x s s'. x \<in> set xs \<Longrightarrow> I s \<Longrightarrow> f x s = Inr s' \<Longrightarrow> I s'"
  shows "I s'"
  using assms
proof (induction xs arbitrary: s)
  case (Cons x xs)
  from Cons.prems(1) obtain t where t: "f x s = Inr t" "foldM f xs t = Inr s'"
    by auto
  have "I t" using Cons.prems(2,3) t(1) by auto
  then show ?case using Cons.IH [OF t(2)] Cons.prems(3) by auto
qed simp

lemma foldM_total:
  assumes "I s" and "\<And>x s. x \<in> set xs \<Longrightarrow> I s \<Longrightarrow> \<exists>s'. f x s = Inr s' \<and> I s'"
  shows "\<exists>s'. foldM f xs s = Inr s' \<and> I s'"
  using assms
proof (induction xs arbitrary: s)
  case (Cons x xs)
  then obtain t where "f x s = Inr t" "I t" by (meson list.set_intros(1))
  moreover from Cons.IH [OF \<open>I t\<close>] Cons.prems(2) have "\<exists>s'. foldM f xs t = Inr s' \<and> I s'"
    by simp
  ultimately show ?case by simp
qed simp

locale conserved =
  fixes step :: "'a \<Rightarrow> 's \<Rightarrow> 's res" and quantity :: "'s \<Rightarrow> 'q"
  assumes step_conserves: "step x s = Inr s' \<Longrightarrow> quantity s' = quantity s"
begin

text \<open>What one iteration of a loop conserves, the whole loop conserves.\<close>

lemma loop_conserves:
  assumes "foldM step xs s = Inr s'"
  shows "quantity s' = quantity s"
  using foldM_invariant [OF assms, of "\<lambda>t. quantity t = quantity s"] step_conserves by simp

end

section \<open>Vectors\<close>

definition at :: "'a list \<Rightarrow> int \<Rightarrow> 'a res" where
  "at xs i = (if 0 \<le> i \<and> i < int (length xs) then Inr (xs ! nat i) else Inl OutOfRange)"

definition put_at :: "'a list \<Rightarrow> int \<Rightarrow> 'a \<Rightarrow> 'a list res" where
  "put_at xs i x =
     (if 0 \<le> i \<and> i < int (length xs) then Inr (xs[nat i := x]) else Inl OutOfRange)"

lemma at_eq_Inr: "at xs i = Inr x \<longleftrightarrow> 0 \<le> i \<and> nat i < length xs \<and> x = xs ! nat i"
  by (auto simp: at_def nat_less_iff)

lemma put_at_eq_Inr: "put_at xs i x = Inr ys \<longleftrightarrow> 0 \<le> i \<and> nat i < length xs \<and> ys = xs[nat i := x]"
  by (auto simp: put_at_def nat_less_iff)

lemma at_int [simp]: "n < length xs \<Longrightarrow> at xs (int n) = Inr (xs ! n)"
  by (simp add: at_def)

lemma put_at_int [simp]: "n < length xs \<Longrightarrow> put_at xs (int n) x = Inr (xs[n := x])"
  by (simp add: put_at_def)

definition count_up :: "'a list \<Rightarrow> nat \<Rightarrow> ('a \<Rightarrow> 'a) \<Rightarrow> 'a list" where
  "count_up xs i f = (if i < length xs then xs[i := f (xs ! i)] else xs)"

lemma length_count_up [simp]: "length (count_up xs i f) = length xs"
  by (simp add: count_up_def)

text \<open>\<open>std::vector::resize\<close>, and the elements of a vector of vectors.\<close>

definition resize :: "nat \<Rightarrow> 'a \<Rightarrow> 'a list \<Rightarrow> 'a list" where
  "resize n d xs = take n xs @ replicate (n - length xs) d"

lemma length_resize [simp]: "length (resize n d xs) = n"
  by (simp add: resize_def)

definition at2 :: "'a list list \<Rightarrow> nat \<Rightarrow> nat \<Rightarrow> 'a res" where
  "at2 xss i j = bnd (at xss (int i)) (\<lambda>xs. at xs (int j))"

definition put_at2 :: "'a list list \<Rightarrow> nat \<Rightarrow> nat \<Rightarrow> 'a \<Rightarrow> 'a list list res" where
  "put_at2 xss i j x = bnd (at xss (int i)) (\<lambda>xs. bnd (put_at xs (int j) x) (\<lambda>ys. Inr (xss[i := ys])))"

lemma at2_eq_Inr: "at2 xss i j = Inr x \<longleftrightarrow> i < length xss \<and> j < length (xss ! i) \<and> x = xss ! i ! j"
  by (auto simp: at2_def bnd_eq_Inr at_eq_Inr)

lemma put_at2_eq_Inr:
  "put_at2 xss i j x = Inr yss \<longleftrightarrow> i < length xss \<and> j < length (xss ! i) \<and> yss = xss[i := (xss ! i)[j := x]]"
  by (auto simp: put_at2_def bnd_eq_Inr at_eq_Inr put_at_eq_Inr)

section \<open>Multisets of lists of containers\<close>

text \<open>
  Ports and virtual channels are vectors of containers. Replacing one container changes the
  multiset of everything they hold by the difference of that container alone.
\<close>

definition contents :: "('c \<Rightarrow> 'a multiset) \<Rightarrow> 'c list \<Rightarrow> 'a multiset" where
  "contents f cs = sum_list (map f cs)"

lemma contents_Nil [simp]: "contents f [] = {#}"
  by (simp add: contents_def)

lemma contents_Cons [simp]: "contents f (c # cs) = f c + contents f cs"
  by (simp add: contents_def)

lemma contents_append [simp]: "contents f (cs @ ds) = contents f cs + contents f ds"
  by (simp add: contents_def)

lemma contents_update:
  "i < length cs \<Longrightarrow> contents f (cs[i := c]) + f (cs ! i) = contents f cs + f c"
proof (induction cs arbitrary: i)
  case (Cons d cs)
  show ?case
  proof (cases i)
    case 0
    then show ?thesis by (simp add: ac_simps)
  next
    case (Suc j)
    with Cons.prems Cons.IH [of j] show ?thesis
      by (simp add: add.assoc)
  qed
qed simp

lemma contents_update_same:
  assumes "i < length cs" and "f c = f (cs ! i)"
  shows "contents f (cs[i := c]) = contents f cs"
  using contents_update [OF assms(1), of f c] assms(2) by simp

lemma contents_update_add:
  assumes "i < length cs" and "f c = add_mset x (f (cs ! i))"
  shows "contents f (cs[i := c]) = add_mset x (contents f cs)"
  using contents_update [OF assms(1), of f c] assms(2) by simp

lemma contents_update_remove:
  assumes "i < length cs" and "add_mset x (f c) = f (cs ! i)"
  shows "add_mset x (contents f (cs[i := c])) = contents f cs"
proof -
  have "contents f (cs[i := c]) + add_mset x (f c) = contents f cs + f c"
    using contents_update [OF assms(1), of f c] assms(2) by simp
  then have "add_mset x (contents f (cs[i := c])) + f c = contents f cs + f c" by simp
  then show ?thesis by (simp only: add_right_cancel)
qed

lemma contents_replicate_empty: "f c = {#} \<Longrightarrow> contents f (replicate n c) = {#}"
  by (induction n) simp_all

section \<open>Round-robin pointers\<close>

definition rr_next :: "nat \<Rightarrow> nat \<Rightarrow> nat" where
  "rr_next n i = (if n \<le> i + 1 then 0 else i + 1)"

lemma rr_next_less [simp]: "0 < n \<Longrightarrow> rr_next n i < n"
  by (simp add: rr_next_def)

lemma rr_next_mod: "i < n \<Longrightarrow> rr_next n i = Suc i mod n"
  by (auto simp: rr_next_def mod_Suc)

fun rr_order :: "nat \<Rightarrow> nat \<Rightarrow> nat \<Rightarrow> nat list" where
  "rr_order n start 0 = []"
| "rr_order n start (Suc k) = start # rr_order n (rr_next n start) k"

lemma length_rr_order [simp]: "length (rr_order n i k) = k"
  by (induction k arbitrary: i) auto

lemma rr_order_nth: "i < n \<Longrightarrow> j < k \<Longrightarrow> rr_order n i k ! j = (i + j) mod n"
proof (induction k arbitrary: i j)
  case (Suc k)
  show ?case
  proof (cases j)
    case 0
    with Suc.prems show ?thesis by simp
  next
    case (Suc m)
    have n0: "0 < n" using \<open>i < n\<close> by simp
    have "rr_order n (rr_next n i) k ! m = (rr_next n i + m) mod n"
      using Suc.IH [of "rr_next n i" m] n0 \<open>j < Suc k\<close> Suc by simp
    then show ?thesis using Suc \<open>i < n\<close> by (simp add: rr_next_mod mod_add_left_eq)
  qed
qed simp

text \<open>One turn of a round-robin loop visits every index once.\<close>

lemma rr_order_set: assumes "i < n" shows "set (rr_order n i n) = {..<n}"
proof -
  have "set (rr_order n i n) = (\<lambda>j. (i + j) mod n) ` {..<n}"
  proof -
    have "rr_order n i n = map (\<lambda>j. (i + j) mod n) [0..<n]"
      using assms by (intro nth_equalityI) (auto simp: rr_order_nth)
    then show ?thesis by (simp add: atLeast0LessThan)
  qed
  also have "\<dots> = {..<n}"
  proof
    show "{..<n} \<subseteq> (\<lambda>j. (i + j) mod n) ` {..<n}"
    proof
      fix m assume m: "m \<in> {..<n}"
      let ?j = "if i \<le> m then m - i else n + m - i"
      have "?j < n" and "(i + ?j) mod n = m" using m assms by auto
      then show "m \<in> (\<lambda>j. (i + j) mod n) ` {..<n}" by (metis (no_types) imageI lessThan_iff)
    qed
  qed (use assms in auto)
  finally show ?thesis .
qed

end
