(* ===== verification/Std_Heap.thy ===== *)
theory Std_Heap
  imports Garnet_Prelude
begin

text \<open>
  The binary heap of the C++ standard library (\<open>std::push_heap\<close>, \<open>std::pop_heap\<close>) that
  \<open>flitBuffer\<close> (src/gem5/src/mem/ruby/network/garnet2.0/flitBuffer.hh) and \<open>MessageBuffer\<close>
  (src/gem5/src/mem/ruby/network/MessageBuffer.cc) keep in a \<open>std::vector\<close>. The model follows the
  hole-moving algorithm of the library: the new element rises from the last slot; on a pop the
  hole sinks from the root to a leaf, taking the child that the comparator does not put behind
  its sibling, and the displaced last element rises from there.

  Locale \<open>heap_order\<close> is the contract: for a comparator that compares by a key in a linear
  order, both operations keep the heap property, permute the elements, and the front is minimal.
\<close>

section \<open>The algorithm\<close>

function push_up :: "('a \<Rightarrow> 'a \<Rightarrow> bool) \<Rightarrow> 'a list \<Rightarrow> nat \<Rightarrow> 'a \<Rightarrow> 'a list" where
  "push_up gt xs hole v =
     (if 0 < hole \<and> gt (xs ! ((hole - 1) div 2)) v
      then push_up gt (xs[hole := xs ! ((hole - 1) div 2)]) ((hole - 1) div 2) v
      else xs[hole := v])"
  by pat_completeness auto
termination
  by (relation "measure (\<lambda>(gt, xs, hole, v). hole)") auto

declare push_up.simps [simp del]

definition push_heap :: "('a \<Rightarrow> 'a \<Rightarrow> bool) \<Rightarrow> 'a list \<Rightarrow> 'a \<Rightarrow> 'a list" where
  "push_heap gt xs v = push_up gt (xs @ [v]) (length xs) v"

definition smaller_child :: "('a \<Rightarrow> 'a \<Rightarrow> bool) \<Rightarrow> 'a list \<Rightarrow> nat \<Rightarrow> nat" where
  "smaller_child gt xs hole =
     (if gt (xs ! (2 * hole + 2)) (xs ! (2 * hole + 1)) then 2 * hole + 1 else 2 * hole + 2)"

lemma smaller_child_bounds:
  assumes "hole < (length xs - 1) div 2"
  shows "smaller_child gt xs hole < length xs" and "hole < smaller_child gt xs hole"
    and "(smaller_child gt xs hole - 1) div 2 = hole" and "smaller_child gt xs hole \<noteq> hole"
proof -
  have "2 * hole + 2 < length xs" using assms by presburger
  then show "smaller_child gt xs hole < length xs" and "hole < smaller_child gt xs hole"
    and "(smaller_child gt xs hole - 1) div 2 = hole" and "smaller_child gt xs hole \<noteq> hole"
    by (simp_all add: smaller_child_def)
qed

function adjust_down :: "('a \<Rightarrow> 'a \<Rightarrow> bool) \<Rightarrow> 'a list \<Rightarrow> nat \<Rightarrow> 'a list \<times> nat" where
  "adjust_down gt xs hole =
     (if hole < (length xs - 1) div 2 then
        adjust_down gt (xs[hole := xs ! smaller_child gt xs hole]) (smaller_child gt xs hole)
      else if even (length xs) \<and> 2 \<le> length xs \<and> hole = (length xs - 2) div 2 then
        (xs[hole := xs ! (2 * hole + 1)], 2 * hole + 1)
      else (xs, hole))"
  by pat_completeness auto
termination
proof (relation "measure (\<lambda>(gt, xs, hole). length xs - hole)")
  fix gt :: "'a \<Rightarrow> 'a \<Rightarrow> bool" and xs :: "'a list" and hole
  assume h: "hole < (length xs - 1) div 2"
  show "((gt, xs[hole := xs ! smaller_child gt xs hole], smaller_child gt xs hole), gt, xs, hole)
        \<in> measure (\<lambda>(gt, xs, hole). length xs - hole)"
    using smaller_child_bounds(1,2) [OF h, of gt] by simp
qed simp

declare adjust_down.simps [simp del]

definition pop_heap :: "('a \<Rightarrow> 'a \<Rightarrow> bool) \<Rightarrow> 'a list \<Rightarrow> 'a list" where
  "pop_heap gt xs =
     (if length xs \<le> 1 then []
      else (case adjust_down gt (butlast xs) 0 of (ys, hole) \<Rightarrow> push_up gt ys hole (last xs)))"

definition is_heap :: "('a \<Rightarrow> 'a \<Rightarrow> bool) \<Rightarrow> 'a list \<Rightarrow> bool" where
  "is_heap gt xs = list_all (\<lambda>i. \<not> gt (xs ! ((i - 1) div 2)) (xs ! i)) [1..<length xs]"

text \<open>What is in the hole does not matter: the front may change before it is taken out.\<close>

lemma push_up_hole: "push_up gt (xs[hole := w]) hole v = push_up gt xs hole v"
proof -
  have "(hole - 1) div 2 \<noteq> hole" if "0 < hole" using that by presburger
  then show ?thesis by (subst (1 2) push_up.simps) auto
qed

lemma adjust_down_hole_value:
  "(case adjust_down gt (xs[hole := w]) hole of (ys, h) \<Rightarrow> push_up gt ys h v) =
     (case adjust_down gt xs hole of (ys, h) \<Rightarrow> push_up gt ys h v)"
  by (subst (1 2) adjust_down.simps) (simp add: smaller_child_def push_up_hole)

lemma pop_heap_front: "pop_heap gt (a # xs) = pop_heap gt (b # xs)"
  using adjust_down_hole_value [where xs = "b # butlast xs" and hole = 0 and w = a and v = "last xs" and gt = gt] by (simp add: pop_heap_def)

section \<open>The elements are permuted\<close>

lemma length_push_up [simp]: "length (push_up gt xs hole v) = length xs"
  by (induction gt xs hole v rule: push_up.induct) (simp add: push_up.simps)

lemma mset_swap_hole:
  assumes "hole < length xs" "p < length xs" "p \<noteq> hole"
  shows "mset ((xs[hole := xs ! p])[p := v]) = mset (xs[hole := v])"
proof -
  have "(xs[hole := xs ! p])[p := v] = (xs[hole := v])[p := xs[hole := v] ! hole, hole := xs[hole := v] ! p]"
    using assms by (intro nth_equalityI) (auto simp: nth_list_update)
  also have "mset \<dots> = mset (xs[hole := v])"
    using assms by (intro mset_swap) auto
  finally show ?thesis .
qed

lemma mset_push_up: "hole < length xs \<Longrightarrow> mset (push_up gt xs hole v) = mset (xs[hole := v])"
proof (induction hole arbitrary: xs rule: less_induct)
  case (less hole)
  let ?p = "(hole - 1) div 2"
  show ?case
  proof (cases "0 < hole \<and> gt (xs ! ?p) v")
    case True
    then have p: "?p < hole" by auto
    have "mset (push_up gt (xs[hole := xs ! ?p]) ?p v) = mset ((xs[hole := xs ! ?p])[?p := v])"
      using less.IH [OF p] p less.prems by simp
    also have "\<dots> = mset (xs[hole := v])"
      using mset_swap_hole [of hole xs ?p v] p less.prems by simp
    finally show ?thesis using True by (subst push_up.simps) simp
  next
    case False
    then show ?thesis by (subst push_up.simps) auto
  qed
qed

lemma adjust_down_cases [consumes 1, case_names sink last leaf]:
  assumes "adjust_down gt xs hole = (ys, h)"
  obtains "hole < (length xs - 1) div 2"
      and "adjust_down gt (xs[hole := xs ! smaller_child gt xs hole]) (smaller_child gt xs hole) = (ys, h)"
    | "\<not> hole < (length xs - 1) div 2" and "even (length xs)" and "length xs = 2 * hole + 2"
      and "ys = xs[hole := xs ! (2 * hole + 1)]" and "h = 2 * hole + 1"
    | "\<not> hole < (length xs - 1) div 2" and "\<not> (even (length xs) \<and> length xs = 2 * hole + 2)"
      and "ys = xs" and "h = hole"
proof -
  have len: "even (length xs) \<and> 2 \<le> length xs \<and> hole = (length xs - 2) div 2 \<longleftrightarrow>
      even (length xs) \<and> length xs = 2 * hole + 2"
    by (auto elim!: evenE)
  note eq = assms [unfolded adjust_down.simps [of gt xs hole] len]
  show thesis
  proof (cases "hole < (length xs - 1) div 2")
    case True
    with eq show thesis by (intro that(1)) simp_all
  next
    case False
    with eq show thesis
      by (cases "even (length xs) \<and> length xs = 2 * hole + 2") (auto intro: that(2,3))
  qed
qed

lemma adjust_down_hole:
  "adjust_down gt xs hole = (ys, h) \<Longrightarrow> hole < length xs \<Longrightarrow> length ys = length xs \<and> h < length xs"
proof (induction gt xs hole arbitrary: ys h rule: adjust_down.induct)
  case (1 gt xs hole)
  from 1(2) show ?case
  proof (cases rule: adjust_down_cases)
    case sink
    then show ?thesis using 1(1) [OF sink] smaller_child_bounds(1) [OF sink(1), of gt] by simp
  qed (use 1(3) in auto)
qed

lemma mset_adjust_down:
  "adjust_down gt xs hole = (ys, h) \<Longrightarrow> hole < length xs \<Longrightarrow> mset (ys[h := v]) = mset (xs[hole := v])"
proof (induction gt xs hole arbitrary: ys h rule: adjust_down.induct)
  case (1 gt xs hole)
  from 1(2) show ?case
  proof (cases rule: adjust_down_cases)
    case sink
    then show ?thesis
      using 1(1) [OF sink] smaller_child_bounds [OF sink(1), of gt] 1(3)
        mset_swap_hole [of hole xs "smaller_child gt xs hole" v] by simp
  next
    case last
    then show ?thesis using 1(3) mset_swap_hole [of hole xs "2 * hole + 1" v] by simp
  qed simp
qed

lemma mset_push_heap [simp]: "mset (push_heap gt xs v) = add_mset v (mset xs)"
  by (simp add: push_heap_def mset_push_up)

lemma length_push_heap [simp]: "length (push_heap gt xs v) = Suc (length xs)"
  by (simp add: push_heap_def)

lemma butlast_hd:
  assumes "1 < length xs"
  shows "butlast xs = hd xs # butlast (tl xs)" and "last xs = last (tl xs)" and "tl xs \<noteq> []"
  using assms by (cases xs; auto)+

lemma mset_pop_heap:
  assumes "xs \<noteq> []"
  shows "add_mset (hd xs) (mset (pop_heap gt xs)) = mset xs"
proof (cases "length xs \<le> 1")
  case True
  with assms show ?thesis by (cases xs) (auto simp: pop_heap_def)
next
  case False
  obtain ys h where a: "adjust_down gt (butlast xs) 0 = (ys, h)" by force
  have h: "length ys = length (butlast xs)" "h < length (butlast xs)"
    using adjust_down_hole [OF a] False by auto
  have "mset (pop_heap gt xs) = mset (ys[h := last xs])"
    using False a h by (simp add: pop_heap_def mset_push_up)
  also have "\<dots> = mset ((butlast xs)[0 := last xs])"
    using mset_adjust_down [OF a] False by simp
  also have "\<dots> = add_mset (last xs) (mset (butlast (tl xs)))"
    using butlast_hd [of xs] False by simp
  also have "\<dots> = mset (tl xs)"
  proof -
    have "tl xs \<noteq> []" and "last xs = last (tl xs)" using butlast_hd(2,3) [of xs] False by auto
    then have "tl xs = butlast (tl xs) @ [last xs]" by simp
    then show ?thesis by (metis mset_append mset.simps add_mset_add_single)
  qed
  finally show ?thesis using assms by (cases xs) auto
qed

lemma length_pop_heap: "length (pop_heap gt xs) = length xs - 1"
proof (cases "xs = []")
  case False
  then show ?thesis using mset_pop_heap [OF False, of gt] by (metis diff_Suc_1 size_add_mset size_mset)
qed (simp add: pop_heap_def)

section \<open>The heap order\<close>

locale heap_order =
  fixes gt :: "'a \<Rightarrow> 'a \<Rightarrow> bool" and key :: "'a \<Rightarrow> 'k::linorder"
  assumes gt_key: "gt x y \<longleftrightarrow> key y < key x"
begin

text \<open>The edge from slot \<open>i\<close> to its parent is in order.\<close>

definition edge :: "'a list \<Rightarrow> nat \<Rightarrow> bool" where
  "edge xs i \<longleftrightarrow> key (xs ! ((i - 1) div 2)) \<le> key (xs ! i)"

lemma is_heap_edges: "is_heap gt xs \<longleftrightarrow> (\<forall>i. 0 < i \<and> i < length xs \<longrightarrow> edge xs i)"
  by (auto simp: is_heap_def list_all_iff edge_def gt_key not_less)

text \<open>
  While an element \<open>v\<close> rises from \<open>hole\<close>, every edge but the one above the hole is in order, and
  the parent of the hole is below the children of the hole.
\<close>

definition rising :: "'a list \<Rightarrow> nat \<Rightarrow> 'a \<Rightarrow> bool" where
  "rising xs hole v \<longleftrightarrow>
     (\<forall>i. 0 < i \<and> i < length xs \<and> i \<noteq> hole \<longrightarrow> edge (xs[hole := v]) i) \<and>
     (\<forall>c. 0 < hole \<and> 0 < c \<and> c < length xs \<and> (c - 1) div 2 = hole \<longrightarrow>
        key (xs ! ((hole - 1) div 2)) \<le> key (xs ! c))"

lemma rising_step:
  assumes r: "rising xs hole v" and h: "hole < length xs" "0 < hole"
    and g: "key v < key (xs ! ((hole - 1) div 2))"
  shows "rising (xs[hole := xs ! ((hole - 1) div 2)]) ((hole - 1) div 2) v"
proof -
  define p where "p = (hole - 1) div 2"
  have p: "p < hole" using h by (auto simp: p_def)
  have e: "key (xs[hole := v] ! ((i - 1) div 2)) \<le> key (xs[hole := v] ! i)"
    if "0 < i" "i < length xs" "i \<noteq> hole" for i
    using r that by (auto simp: rising_def edge_def)
  have gp: "key (xs ! p) \<le> key (xs ! c)" if "0 < c" "c < length xs" "(c - 1) div 2 = hole" for c
    using r that h by (auto simp: rising_def p_def)
  have "edge ((xs[hole := xs ! p])[p := v]) i" if i: "0 < i" "i < length xs" "i \<noteq> p" for i
  proof -
    have g': "key v < key (xs ! p)" using g by (simp add: p_def)
    consider "i = hole" | "i \<noteq> hole" "(i - 1) div 2 = hole" | "i \<noteq> hole" "(i - 1) div 2 = p"
      | "i \<noteq> hole" "(i - 1) div 2 \<noteq> hole" "(i - 1) div 2 \<noteq> p" by auto
    then show ?thesis
    proof cases
      case 1
      then show ?thesis using g' p h p_def by (simp add: edge_def nth_list_update)
    next
      case 2
      then show ?thesis using gp [of i] i p h by (simp add: edge_def nth_list_update)
    next
      case 3
      then have "key (xs ! p) \<le> key (xs ! i)" using e [of i] i p by simp
      then show ?thesis using 3 i p h g' by (simp add: edge_def nth_list_update)
    next
      case 4
      then show ?thesis using e [of i] i p by (simp add: edge_def nth_list_update)
    qed
  qed
  moreover have "key (xs[hole := xs ! p] ! ((p - 1) div 2)) \<le> key (xs[hole := xs ! p] ! c)"
    if c: "0 < p" "0 < c" "c < length xs" "(c - 1) div 2 = p" for c
  proof -
    have pp: "(p - 1) div 2 < p" using c(1) by auto
    have "key (xs ! ((p - 1) div 2)) \<le> key (xs ! p)"
      using e [of p] p h c(1) pp by (simp add: nth_list_update)
    moreover have "c \<noteq> hole \<Longrightarrow> key (xs ! p) \<le> key (xs ! c)"
      using e [of c] c p by (simp add: nth_list_update)
    ultimately show ?thesis using pp p h by (auto simp: nth_list_update)
  qed
  ultimately show ?thesis by (simp add: rising_def p_def)
qed

lemma is_heap_push_up:
  "hole < length xs \<Longrightarrow> rising xs hole v \<Longrightarrow> is_heap gt (push_up gt xs hole v)"
proof (induction hole arbitrary: xs rule: less_induct)
  case (less hole)
  show ?case
  proof (cases "0 < hole \<and> gt (xs ! ((hole - 1) div 2)) v")
    case True
    then have p: "(hole - 1) div 2 < hole" by auto
    have "is_heap gt (push_up gt (xs[hole := xs ! ((hole - 1) div 2)]) ((hole - 1) div 2) v)"
    proof (rule less.IH [OF p])
      show "rising (xs[hole := xs ! ((hole - 1) div 2)]) ((hole - 1) div 2) v"
        using rising_step [OF less.prems(2,1)] True by (simp add: gt_key)
    qed (use p less.prems(1) in simp)
    then show ?thesis using True by (subst push_up.simps) simp
  next
    case False
    have "edge (xs[hole := v]) i" if "0 < i" "i < length xs" for i
    proof (cases "i = hole")
      case True
      with False that have "\<not> gt (xs ! ((i - 1) div 2)) v" and "(i - 1) div 2 < i" by auto
      with True less.prems(1) show ?thesis by (simp add: edge_def gt_key nth_list_update)
    next
      case False
      with less.prems(2) that show ?thesis by (simp add: rising_def)
    qed
    then show ?thesis using False by (subst push_up.simps) (auto simp: is_heap_edges)
  qed
qed

lemma is_heap_push_heap:
  assumes "is_heap gt xs"
  shows "is_heap gt (push_heap gt xs v)"
proof -
  have "rising (xs @ [v]) (length xs) v"
  proof -
    have "edge (xs @ [v]) i" if "0 < i" "i < length xs" for i
    proof -
      have "(i - 1) div 2 < length xs" using that by auto
      with assms that show ?thesis by (auto simp: is_heap_edges edge_def nth_append)
    qed
    moreover have "(c - 1) div 2 \<noteq> length xs" if "c < Suc (length xs)" "0 < c" for c
      using that by auto
    moreover have "(xs @ [v])[length xs := v] = xs @ [v]" by simp
    ultimately show ?thesis by (auto simp: rising_def less_Suc_eq)
  qed
  then show ?thesis by (simp add: push_heap_def is_heap_push_up)
qed

text \<open>
  While the hole sinks, every edge that does not touch the hole is in order, and the parent of
  the hole is below the children of the hole.
\<close>

definition sinking :: "'a list \<Rightarrow> nat \<Rightarrow> bool" where
  "sinking xs hole \<longleftrightarrow>
     (\<forall>i. 0 < i \<and> i < length xs \<and> i \<noteq> hole \<and> (i - 1) div 2 \<noteq> hole \<longrightarrow> edge xs i) \<and>
     (\<forall>c. 0 < hole \<and> 0 < c \<and> c < length xs \<and> (c - 1) div 2 = hole \<longrightarrow>
        key (xs ! ((hole - 1) div 2)) \<le> key (xs ! c))"

lemma sinking_step:
  assumes s: "sinking xs hole" and c: "s < length xs" "0 < s" "(s - 1) div 2 = hole"
    and sib: "\<And>i. 0 < i \<Longrightarrow> i < length xs \<Longrightarrow> (i - 1) div 2 = hole \<Longrightarrow> key (xs ! s) \<le> key (xs ! i)"
  shows "sinking (xs[hole := xs ! s]) s"
proof -
  have hs: "hole < s" using c by auto
  have "edge (xs[hole := xs ! s]) i"
    if i: "0 < i" "i < length xs" "i \<noteq> s" "(i - 1) div 2 \<noteq> s" for i
  proof -
    have pi: "(i - 1) div 2 < i" using i(1) by auto
    consider (hole) "i = hole" | (sibling) "(i - 1) div 2 = hole" "i \<noteq> hole"
      | (other) "i \<noteq> hole" "(i - 1) div 2 \<noteq> hole" by auto
    then show ?thesis
    proof cases
      case hole
      then have "key (xs ! ((hole - 1) div 2)) \<le> key (xs ! s)"
        using s c i(1) by (auto simp: sinking_def)
      then show ?thesis using hole pi i(2) by (simp add: edge_def nth_list_update)
    next
      case sibling
      then have "key (xs ! s) \<le> key (xs ! i)" using sib i by auto
      then show ?thesis using sibling i(2) hs c(1) by (simp add: edge_def nth_list_update)
    next
      case other
      then have "edge xs i" using s i by (auto simp: sinking_def)
      then show ?thesis using other by (simp add: edge_def nth_list_update)
    qed
  qed
  moreover have "key (xs[hole := xs ! s] ! ((s - 1) div 2)) \<le> key (xs[hole := xs ! s] ! d)"
    if d: "0 < d" "d < length xs" "(d - 1) div 2 = s" for d
  proof -
    have "s < d" using d by auto
    then have "edge xs d" using s d hs by (auto simp: sinking_def)
    then show ?thesis using d c hs \<open>s < d\<close> by (simp add: edge_def nth_list_update)
  qed
  ultimately show ?thesis by (auto simp: sinking_def)
qed

lemma child_cases:
  assumes "0 < i" and "(i - 1) div 2 = (hole::nat)"
  shows "i = 2 * hole + 1 \<or> i = 2 * hole + 2"
  using assms by presburger

lemma smaller_child_least:
  assumes "hole < (length xs - 1) div 2" and "0 < i" and "(i - 1) div 2 = hole"
  shows "key (xs ! smaller_child gt xs hole) \<le> key (xs ! i)"
  using child_cases [OF assms(2,3)] by (auto simp: smaller_child_def gt_key)

lemma adjust_down_leaf:
  "adjust_down gt xs hole = (ys, h) \<Longrightarrow> hole < length xs \<Longrightarrow> sinking xs hole \<Longrightarrow>
     sinking ys h \<and> (\<forall>i. 0 < i \<and> i < length ys \<longrightarrow> (i - 1) div 2 \<noteq> h)"
proof (induction "length xs - hole" arbitrary: xs hole rule: less_induct)
  case less
  from less.prems(1) show ?case
  proof (cases rule: adjust_down_cases)
    case sink
    let ?s = "smaller_child gt xs hole"
    note b = smaller_child_bounds [OF sink(1), of gt]
    have "sinking (xs[hole := xs ! ?s]) ?s"
      using sinking_step [OF less.prems(3) b(1) _ b(3)] smaller_child_least [OF sink(1)] b(2) by auto
    then show ?thesis using less.hyps [OF _ sink(2)] b(1,2) by simp
  next
    case last
    have only: "i = 2 * hole + 1" if "0 < i" "i < length xs" "(i - 1) div 2 = hole" for i
      using child_cases [OF that(1,3)] that(2) last(3) by auto
    have "sinking (xs[hole := xs ! (2 * hole + 1)]) (2 * hole + 1)"
    proof (rule sinking_step [OF less.prems(3)])
      fix i assume "0 < i" "i < length xs" "(i - 1) div 2 = hole"
      then show "key (xs ! (2 * hole + 1)) \<le> key (xs ! i)" using only [of i] by simp
    qed (use last(3) in auto)
    then show ?thesis using last by auto
  next
    case leaf
    have "(i - 1) div 2 \<noteq> hole" if "0 < i" "i < length xs" for i
    proof
      assume "(i - 1) div 2 = hole"
      with child_cases [OF that(1)] that leaf(1,2) show False by (auto; presburger)
    qed
    then show ?thesis using leaf less.prems(3) by simp
  qed
qed

lemma is_heap_pop_heap:
  assumes "is_heap gt xs"
  shows "is_heap gt (pop_heap gt xs)"
proof (cases "length xs \<le> 1")
  case True
  then show ?thesis by (simp add: pop_heap_def is_heap_def)
next
  case False
  obtain ys h where a: "adjust_down gt (butlast xs) 0 = (ys, h)" by force
  have len: "0 < length (butlast xs)" using False by simp
  have h: "length ys = length (butlast xs)" "h < length (butlast xs)"
    using adjust_down_hole [OF a len] by auto
  have "edge (butlast xs) i" if "0 < i" "i < length (butlast xs)" for i
  proof -
    have "edge xs i" using assms that by (simp add: is_heap_edges)
    moreover have "(i - 1) div 2 < length (butlast xs)" using that by auto
    ultimately show ?thesis using that by (simp add: edge_def nth_butlast)
  qed
  then have "sinking (butlast xs) 0" by (simp add: sinking_def)
  from adjust_down_leaf [OF a len this] have s: "sinking ys h"
    and nochild: "\<And>i. 0 < i \<Longrightarrow> i < length ys \<Longrightarrow> (i - 1) div 2 \<noteq> h" by auto
  have "edge (ys[h := last xs]) i" if "0 < i" "i < length ys" "i \<noteq> h" for i
    using s nochild [OF that(1,2)] that by (simp add: sinking_def edge_def)
  then have "rising ys h (last xs)" using nochild by (auto simp: rising_def)
  then have "is_heap gt (push_up gt ys h (last xs))" using h by (intro is_heap_push_up) simp_all
  then show ?thesis using False a by (simp add: pop_heap_def)
qed

lemma heap_front_least:
  assumes "is_heap gt xs" and "i < length xs"
  shows "key (xs ! 0) \<le> key (xs ! i)"
  using assms(2)
proof (induction i rule: less_induct)
  case (less i)
  show ?case
  proof (cases "i = 0")
    case False
    then have "key (xs ! 0) \<le> key (xs ! ((i - 1) div 2))" using less by auto
    also have "\<dots> \<le> key (xs ! i)" using assms(1) False less.prems by (simp add: is_heap_edges edge_def)
    finally show ?thesis .
  qed simp
qed

lemma heap_hd_least:
  assumes "is_heap gt xs" and "x \<in> set xs"
  shows "key (hd xs) \<le> key x"
proof -
  from assms(2) obtain i where i: "i < length xs" "x = xs ! i" by (auto simp: in_set_conv_nth)
  then have "hd xs = xs ! 0" by (cases xs) auto
  with heap_front_least [OF assms(1) i(1)] i(2) show ?thesis by simp
qed

end

end
