(* ===== verification/Net_Dest.thy ===== *)
theory Net_Dest
  imports Garnet_Prelude "HOL-Library.Word"
begin

unbundle bit_operations_syntax

text \<open>
  Destination sets: class \<open>Set\<close> (src/gem5/src/mem/ruby/common/Set.hh), a bit set of
  \<open>NUMBER_BITS_PER_SET = 256\<close> bits with the number of bits in use, and class \<open>NetDest\<close>
  (src/gem5/src/mem/ruby/common/NetDest.cc), one \<open>Set\<close> per machine type. The functions on
  \<open>MachineType\<close> are generated from the coherence protocol when the simulator is built; they are the
  fields of the parameter \<open>machine_types\<close>.

  The lemmas show that the bit operations are the set operations on \<open>set_elems\<close> and \<open>nd_elems\<close>.
\<close>

section \<open>Set\<close>

type_synonym bitset = "256 word"

record node_set =
  set_size :: nat
  set_bits :: bitset

definition NUMBER_BITS_PER_SET :: nat where
  "NUMBER_BITS_PER_SET = 256"

definition Set_setSize :: "nat \<Rightarrow> node_set res" where
  "Set_setSize n =
     (if NUMBER_BITS_PER_SET < n then Inl (Fatal ''Number of bits < size specified'')
      else Inr \<lparr>set_size = n, set_bits = 0\<rparr>)"

definition Set_add :: "node_set \<Rightarrow> nat \<Rightarrow> node_set res" where
  "Set_add s i =
     (if i < NUMBER_BITS_PER_SET then Inr (s\<lparr>set_bits := set_bit i (set_bits s)\<rparr>) else Inl OutOfRange)"

definition Set_remove :: "node_set \<Rightarrow> nat \<Rightarrow> node_set res" where
  "Set_remove s i =
     (if i < NUMBER_BITS_PER_SET then Inr (s\<lparr>set_bits := unset_bit i (set_bits s)\<rparr>)
      else Inl OutOfRange)"

definition Set_addSet :: "node_set \<Rightarrow> node_set \<Rightarrow> node_set res" where
  "Set_addSet s t = bnd (assert_that (set_size s = set_size t))
     (\<lambda>_. Inr (s\<lparr>set_bits := set_bits s OR set_bits t\<rparr>))"

definition Set_removeSet :: "node_set \<Rightarrow> node_set \<Rightarrow> node_set res" where
  "Set_removeSet s t = bnd (assert_that (set_size s = set_size t))
     (\<lambda>_. Inr (s\<lparr>set_bits := set_bits s AND NOT (set_bits t)\<rparr>))"

definition Set_clear :: "node_set \<Rightarrow> node_set" where
  "Set_clear s = s\<lparr>set_bits := 0\<rparr>"

definition Set_broadcast :: "node_set \<Rightarrow> node_set" where
  "Set_broadcast s =
     s\<lparr>set_bits := fold unset_bit [set_size s..<NUMBER_BITS_PER_SET] (NOT 0)\<rparr>"

definition Set_count :: "node_set \<Rightarrow> nat" where
  "Set_count s = length (filter (bit (set_bits s)) [0..<NUMBER_BITS_PER_SET])"

definition Set_isEqual :: "node_set \<Rightarrow> node_set \<Rightarrow> bool res" where
  "Set_isEqual s t = bnd (assert_that (set_size s = set_size t))
     (\<lambda>_. Inr (set_bits s = set_bits t))"

definition Set_OR :: "node_set \<Rightarrow> node_set \<Rightarrow> node_set res" where
  "Set_OR s t = bnd (assert_that (set_size s = set_size t))
     (\<lambda>_. Inr \<lparr>set_size = set_size s, set_bits = set_bits s OR set_bits t\<rparr>)"

definition Set_AND :: "node_set \<Rightarrow> node_set \<Rightarrow> node_set res" where
  "Set_AND s t = bnd (assert_that (set_size s = set_size t))
     (\<lambda>_. Inr \<lparr>set_size = set_size s, set_bits = set_bits s AND set_bits t\<rparr>)"

definition Set_intersectionIsEmpty :: "node_set \<Rightarrow> node_set \<Rightarrow> bool" where
  "Set_intersectionIsEmpty s t = ((set_bits s AND set_bits t) = 0)"

definition Set_isSuperset :: "node_set \<Rightarrow> node_set \<Rightarrow> bool res" where
  "Set_isSuperset s t = bnd (assert_that (set_size s = set_size t))
     (\<lambda>_. Inr ((set_bits s OR set_bits t) = set_bits s))"

definition Set_isElement :: "node_set \<Rightarrow> nat \<Rightarrow> bool res" where
  "Set_isElement s i =
     (if i < NUMBER_BITS_PER_SET then Inr (bit (set_bits s) i) else Inl OutOfRange)"

definition Set_isBroadcast :: "node_set \<Rightarrow> bool" where
  "Set_isBroadcast s = (Set_count s = set_size s)"

definition Set_isEmpty :: "node_set \<Rightarrow> bool" where
  "Set_isEmpty s = (set_bits s = 0)"

definition Set_smallestElement :: "node_set \<Rightarrow> nat res" where
  "Set_smallestElement s =
     (case find (bit (set_bits s)) [0..<set_size s] of
        Some i \<Rightarrow> Inr i
      | None \<Rightarrow> Inl (Panic ''No smallest element of an empty set.''))"

section \<open>NetDest\<close>

record machine_types =
  mt_num :: nat
  mt_base_level :: "nat \<Rightarrow> nat"
  mt_base_count :: "nat \<Rightarrow> nat"
  mt_base_number :: "nat \<Rightarrow> nat"
  mt_from_base_level :: "nat \<Rightarrow> nat"

record machine_id =
  mach_type :: nat
  mach_num :: nat

record net_dest =
  nd_bits :: "node_set list"

definition NetDest_vecIndex :: "machine_types \<Rightarrow> net_dest \<Rightarrow> machine_id \<Rightarrow> nat res" where
  "NetDest_vecIndex M nd m = bnd (assert_that (mt_base_level M (mach_type m) < length (nd_bits nd)))
     (\<lambda>_. Inr (mt_base_level M (mach_type m)))"

fun traverse :: "('a \<Rightarrow> 'b res) \<Rightarrow> 'a list \<Rightarrow> 'b list res" where
  "traverse f [] = Inr []"
| "traverse f (x # xs) = bnd (f x) (\<lambda>y. bnd (traverse f xs) (\<lambda>ys. Inr (y # ys)))"

fun zip_with :: "('a \<Rightarrow> 'b \<Rightarrow> 'c res) \<Rightarrow> 'a list \<Rightarrow> 'b list \<Rightarrow> 'c list res" where
  "zip_with f (x # xs) (y # ys) = bnd (f x y) (\<lambda>z. bnd (zip_with f xs ys) (\<lambda>zs. Inr (z # zs)))"
| "zip_with f _ _ = Inr []"

fun all_pairs :: "('a \<Rightarrow> 'b \<Rightarrow> bool res) \<Rightarrow> 'a list \<Rightarrow> 'b list \<Rightarrow> bool res" where
  "all_pairs f (x # xs) (y # ys) = bnd (f x y) (\<lambda>b. if b then all_pairs f xs ys else Inr False)"
| "all_pairs f _ _ = Inr True"

text \<open>\<open>setSize\<close> clears the set, so \<open>resize\<close> forgets all members.\<close>

definition NetDest_resize :: "machine_types \<Rightarrow> net_dest \<Rightarrow> net_dest res" where
  "NetDest_resize M nd =
     bnd (assert_that (mt_base_level M (mt_num M) = mt_num M)) (\<lambda>_.
     bnd (traverse (\<lambda>i. Set_setSize (mt_base_count M i)) [0..<mt_base_level M (mt_num M)]) (\<lambda>bs.
     Inr (nd\<lparr>nd_bits := bs\<rparr>)))"

definition NetDest_new :: "machine_types \<Rightarrow> net_dest res" where
  "NetDest_new M = NetDest_resize M \<lparr>nd_bits = []\<rparr>"

definition NetDest_add :: "machine_types \<Rightarrow> net_dest \<Rightarrow> machine_id \<Rightarrow> net_dest res" where
  "NetDest_add M nd m =
     bnd (NetDest_vecIndex M nd m) (\<lambda>v.
     bnd (assert_that (mach_num m < set_size (nd_bits nd ! v))) (\<lambda>_.
     bnd (Set_add (nd_bits nd ! v) (mach_num m)) (\<lambda>s.
     Inr (nd\<lparr>nd_bits := (nd_bits nd)[v := s]\<rparr>))))"

definition NetDest_addNetDest :: "net_dest \<Rightarrow> net_dest \<Rightarrow> net_dest res" where
  "NetDest_addNetDest nd other =
     bnd (assert_that (length (nd_bits nd) = length (nd_bits other))) (\<lambda>_.
     bnd (zip_with Set_addSet (nd_bits nd) (nd_bits other)) (\<lambda>bs. Inr (nd\<lparr>nd_bits := bs\<rparr>)))"

definition NetDest_setNetDest ::
    "machine_types \<Rightarrow> net_dest \<Rightarrow> nat \<Rightarrow> node_set \<Rightarrow> net_dest res" where
  "NetDest_setNetDest M nd machine s =
     bnd (assert_that (int (mt_base_level M (machine + 1)) - int (mt_base_level M machine) = 1)) (\<lambda>_.
     bnd (put_at (nd_bits nd) (int (mt_base_level M machine)) s) (\<lambda>bs. Inr (nd\<lparr>nd_bits := bs\<rparr>)))"

definition NetDest_remove :: "machine_types \<Rightarrow> net_dest \<Rightarrow> machine_id \<Rightarrow> net_dest res" where
  "NetDest_remove M nd m =
     bnd (NetDest_vecIndex M nd m) (\<lambda>v.
     bnd (Set_remove (nd_bits nd ! v) (mach_num m)) (\<lambda>s.
     Inr (nd\<lparr>nd_bits := (nd_bits nd)[v := s]\<rparr>)))"

definition NetDest_removeNetDest :: "net_dest \<Rightarrow> net_dest \<Rightarrow> net_dest res" where
  "NetDest_removeNetDest nd other =
     bnd (assert_that (length (nd_bits nd) = length (nd_bits other))) (\<lambda>_.
     bnd (zip_with Set_removeSet (nd_bits nd) (nd_bits other)) (\<lambda>bs. Inr (nd\<lparr>nd_bits := bs\<rparr>)))"

definition NetDest_clear :: "net_dest \<Rightarrow> net_dest" where
  "NetDest_clear nd = nd\<lparr>nd_bits := map Set_clear (nd_bits nd)\<rparr>"

definition NetDest_broadcast_type :: "machine_types \<Rightarrow> nat \<Rightarrow> net_dest \<Rightarrow> net_dest res" where
  "NetDest_broadcast_type M machine nd =
     foldM (\<lambda>i d. NetDest_add M d \<lparr>mach_type = machine, mach_num = i\<rparr>)
       [0..<mt_base_count M machine] nd"

definition NetDest_broadcast :: "machine_types \<Rightarrow> net_dest \<Rightarrow> net_dest res" where
  "NetDest_broadcast M nd = foldM (NetDest_broadcast_type M) [0..<mt_num M] nd"

definition NetDest_getAllDest :: "machine_types \<Rightarrow> net_dest \<Rightarrow> nat list" where
  "NetDest_getAllDest M nd =
     concat (map (\<lambda>i. map (\<lambda>j. mt_base_number M i + j)
                       (filter (bit (set_bits (nd_bits nd ! i))) [0..<set_size (nd_bits nd ! i)]))
               [0..<length (nd_bits nd)])"

definition NetDest_count :: "net_dest \<Rightarrow> nat" where
  "NetDest_count nd = sum_list (map Set_count (nd_bits nd))"

definition NetDest_elementAt :: "machine_types \<Rightarrow> net_dest \<Rightarrow> machine_id \<Rightarrow> bool res" where
  "NetDest_elementAt M nd m =
     bnd (NetDest_vecIndex M nd m) (\<lambda>v. Set_isElement (nd_bits nd ! v) (mach_num m))"

fun first_member :: "machine_types \<Rightarrow> nat \<Rightarrow> node_set list \<Rightarrow> machine_id res" where
  "first_member M i [] = Inl (Panic ''No smallest element of an empty set.'')"
| "first_member M i (s # ss) =
     (case find (bit (set_bits s)) [0..<set_size s] of
        Some j \<Rightarrow> Inr \<lparr>mach_type = mt_from_base_level M i, mach_num = j\<rparr>
      | None \<Rightarrow> first_member M (Suc i) ss)"

definition NetDest_smallestElement :: "machine_types \<Rightarrow> net_dest \<Rightarrow> machine_id res" where
  "NetDest_smallestElement M nd =
     bnd (assert_that (0 < NetDest_count nd)) (\<lambda>_. first_member M 0 (nd_bits nd))"

definition NetDest_smallestElement_type ::
    "machine_types \<Rightarrow> net_dest \<Rightarrow> nat \<Rightarrow> machine_id res" where
  "NetDest_smallestElement_type M nd machine =
     bnd (at (nd_bits nd) (int (mt_base_level M machine))) (\<lambda>s.
     (case find (bit (set_bits s)) [0..<set_size s] of
        Some j \<Rightarrow> Inr \<lparr>mach_type = machine, mach_num = j\<rparr>
      | None \<Rightarrow> Inl (Panic ''No smallest element of given MachineType.'')))"

definition NetDest_isBroadcast :: "net_dest \<Rightarrow> bool" where
  "NetDest_isBroadcast nd = list_all Set_isBroadcast (nd_bits nd)"

definition NetDest_isEmpty :: "net_dest \<Rightarrow> bool" where
  "NetDest_isEmpty nd = list_all Set_isEmpty (nd_bits nd)"

definition overwrite_prefix :: "'a list \<Rightarrow> 'a list \<Rightarrow> 'a list res" where
  "overwrite_prefix bs old =
     (if length bs \<le> length old then Inr (bs @ drop (length bs) old) else Inl OutOfRange)"

definition NetDest_OR :: "machine_types \<Rightarrow> net_dest \<Rightarrow> net_dest \<Rightarrow> net_dest res" where
  "NetDest_OR M nd other =
     bnd (assert_that (length (nd_bits nd) = length (nd_bits other))) (\<lambda>_.
     bnd (NetDest_new M) (\<lambda>result.
     bnd (zip_with Set_OR (nd_bits nd) (nd_bits other)) (\<lambda>bs.
     bnd (overwrite_prefix bs (nd_bits result)) (\<lambda>bs'. Inr (result\<lparr>nd_bits := bs'\<rparr>)))))"

definition NetDest_AND :: "machine_types \<Rightarrow> net_dest \<Rightarrow> net_dest \<Rightarrow> net_dest res" where
  "NetDest_AND M nd other =
     bnd (assert_that (length (nd_bits nd) = length (nd_bits other))) (\<lambda>_.
     bnd (NetDest_new M) (\<lambda>result.
     bnd (zip_with Set_AND (nd_bits nd) (nd_bits other)) (\<lambda>bs.
     bnd (overwrite_prefix bs (nd_bits result)) (\<lambda>bs'. Inr (result\<lparr>nd_bits := bs'\<rparr>)))))"

definition NetDest_intersectionIsNotEmpty :: "net_dest \<Rightarrow> net_dest \<Rightarrow> bool res" where
  "NetDest_intersectionIsNotEmpty nd other =
     bnd (assert_that (length (nd_bits nd) = length (nd_bits other))) (\<lambda>_.
     Inr (list_ex (\<lambda>(s, t). \<not> Set_intersectionIsEmpty s t) (zip (nd_bits nd) (nd_bits other))))"

definition NetDest_isSuperset :: "net_dest \<Rightarrow> net_dest \<Rightarrow> bool res" where
  "NetDest_isSuperset nd test =
     bnd (assert_that (length (nd_bits nd) = length (nd_bits test))) (\<lambda>_.
     all_pairs Set_isSuperset (nd_bits nd) (nd_bits test))"

definition NetDest_isElement :: "machine_types \<Rightarrow> net_dest \<Rightarrow> machine_id \<Rightarrow> bool res" where
  "NetDest_isElement M nd m =
     bnd (NetDest_vecIndex M nd m) (\<lambda>v. Set_isElement (nd_bits nd ! v) (mach_num m))"

definition NetDest_isEqual :: "net_dest \<Rightarrow> net_dest \<Rightarrow> bool res" where
  "NetDest_isEqual nd n =
     bnd (assert_that (length (nd_bits nd) = length (nd_bits n))) (\<lambda>_.
     all_pairs Set_isEqual (nd_bits nd) (nd_bits n))"

section \<open>Bit sets are sets\<close>

definition set_elems :: "node_set \<Rightarrow> nat set" where
  "set_elems s = {i. bit (set_bits s) i}"

definition nd_elems :: "net_dest \<Rightarrow> (nat \<times> nat) set" where
  "nd_elems nd = {(v, i). v < length (nd_bits nd) \<and> i \<in> set_elems (nd_bits nd ! v)}"

lemma traverse_map:
  assumes "\<And>x. x \<in> set xs \<Longrightarrow> f x = Inr (g x)"
  shows "traverse f xs = Inr (map g xs)"
  using assms by (induction xs) simp_all

lemma traverse_defined: "\<forall>x \<in> set xs. \<exists>y. f x = Inr y \<Longrightarrow> \<exists>ys. traverse f xs = Inr ys"
  by (induction xs) auto

lemma bit_bound: "bit (w :: bitset) i \<Longrightarrow> i < NUMBER_BITS_PER_SET"
  using bit_imp_le_length [of w i] by (simp add: NUMBER_BITS_PER_SET_def)

lemma bits_zero_iff: "(w :: bitset) = 0 \<longleftrightarrow> (\<forall>i. \<not> bit w i)"
  by (metis bit_0_eq bot_apply bot_bool_def bit_eqI)

lemma bits_eq_iff: "(v :: bitset) = w \<longleftrightarrow> (\<forall>i. bit v i = bit w i)"
  by (metis bit_eqI)

lemma Set_add_elems: "Set_add s i = Inr s' \<Longrightarrow> set_elems s' = insert i (set_elems s)"
  by (auto simp: Set_add_def set_elems_def bit_simps NUMBER_BITS_PER_SET_def split: if_splits)

lemma Set_remove_elems: "Set_remove s i = Inr s' \<Longrightarrow> set_elems s' = set_elems s - {i}"
  by (auto simp: Set_remove_def set_elems_def bit_simps split: if_splits)

lemma Set_addSet_elems: "Set_addSet s t = Inr s' \<Longrightarrow> set_elems s' = set_elems s \<union> set_elems t"
  by (auto simp: Set_addSet_def set_elems_def bit_simps)

lemma Set_removeSet_elems: "Set_removeSet s t = Inr s' \<Longrightarrow> set_elems s' = set_elems s - set_elems t"
  using bit_bound [of "set_bits s"]
  by (auto simp: Set_removeSet_def set_elems_def bit_simps NUMBER_BITS_PER_SET_def)

lemma Set_OR_elems: "Set_OR s t = Inr s' \<Longrightarrow> set_elems s' = set_elems s \<union> set_elems t"
  by (auto simp: Set_OR_def set_elems_def bit_simps)

lemma Set_AND_elems: "Set_AND s t = Inr s' \<Longrightarrow> set_elems s' = set_elems s \<inter> set_elems t"
  by (auto simp: Set_AND_def set_elems_def bit_simps)

lemma Set_intersectionIsEmpty_iff:
  "Set_intersectionIsEmpty s t \<longleftrightarrow> set_elems s \<inter> set_elems t = {}"
  by (auto simp: Set_intersectionIsEmpty_def bits_zero_iff set_elems_def bit_simps)

lemma Set_isEmpty_iff: "Set_isEmpty s \<longleftrightarrow> set_elems s = {}"
  by (auto simp: Set_isEmpty_def bits_zero_iff set_elems_def)

lemma Set_isSuperset_iff: "Set_isSuperset s t = Inr b \<Longrightarrow> b \<longleftrightarrow> set_elems t \<subseteq> set_elems s"
  by (auto simp: Set_isSuperset_def set_elems_def bits_eq_iff bit_simps)

lemma fold_unset_bit: "bit (fold unset_bit js (w :: bitset)) i \<longleftrightarrow> bit w i \<and> i \<notin> set js"
  by (induction js arbitrary: w) (auto simp: bit_simps)

lemma Set_broadcast_elems:
  assumes "set_size s \<le> NUMBER_BITS_PER_SET"
  shows "set_elems (Set_broadcast s) = {..<set_size s}"
  using assms
  by (auto simp: Set_broadcast_def set_elems_def fold_unset_bit bit_simps NUMBER_BITS_PER_SET_def)

lemma Set_count_card: "Set_count s = card (set_elems s)"
proof -
  have "set_elems s = set (filter (bit (set_bits s)) [0..<NUMBER_BITS_PER_SET])"
    by (auto simp: set_elems_def dest: bit_bound)
  moreover have "card (set (filter (bit (set_bits s)) [0..<NUMBER_BITS_PER_SET])) = Set_count s"
    unfolding Set_count_def by (rule distinct_card) simp
  ultimately show ?thesis by simp
qed

lemma Set_isBroadcast_iff:
  assumes "set_elems s \<subseteq> {..<set_size s}"
  shows "Set_isBroadcast s \<longleftrightarrow> set_elems s = {..<set_size s}"
proof
  assume "Set_isBroadcast s"
  then have "card (set_elems s) = card {..<set_size s}"
    by (simp add: Set_isBroadcast_def Set_count_card)
  then show "set_elems s = {..<set_size s}"
    using assms by (intro card_subset_eq) auto
qed (simp add: Set_isBroadcast_def Set_count_card)

section \<open>Destination sets\<close>

lemma zip_with_Inr:
  "zip_with f xs ys = Inr zs \<Longrightarrow> length xs = length ys \<Longrightarrow>
     length zs = length xs \<and> (\<forall>i < length xs. f (xs ! i) (ys ! i) = Inr (zs ! i))"
proof (induction f xs ys arbitrary: zs rule: zip_with.induct)
  case (1 f x xs y ys)
  then show ?case by (force simp: less_Suc_eq_0_disj)
qed auto

lemma nd_elems_update:
  assumes "v < length (nd_bits nd)"
  shows "nd_elems (nd\<lparr>nd_bits := (nd_bits nd)[v := s]\<rparr>) =
    {p \<in> nd_elems nd. fst p \<noteq> v} \<union> Pair v ` set_elems s"
  using assms by (auto simp: nd_elems_def nth_list_update split: if_splits)

lemma nd_elems_at:
  assumes "v < length (nd_bits nd)"
  shows "{p \<in> nd_elems nd. fst p = v} = Pair v ` set_elems (nd_bits nd ! v)"
  using assms by (auto simp: nd_elems_def)

lemma NetDest_add_elems:
  assumes "NetDest_add M nd m = Inr nd'"
  shows "nd_elems nd' = insert (mt_base_level M (mach_type m), mach_num m) (nd_elems nd)"
proof -
  define v where "v = mt_base_level M (mach_type m)"
  from assms obtain s where v: "v < length (nd_bits nd)"
    and s: "Set_add (nd_bits nd ! v) (mach_num m) = Inr s"
    and nd': "nd' = nd\<lparr>nd_bits := (nd_bits nd)[v := s]\<rparr>"
    by (auto simp: NetDest_add_def NetDest_vecIndex_def v_def)
  have "nd_elems nd' = {p \<in> nd_elems nd. fst p \<noteq> v} \<union> {p \<in> nd_elems nd. fst p = v} \<union> {(v, mach_num m)}"
    unfolding nd' nd_elems_update [OF v] nd_elems_at [OF v] Set_add_elems [OF s] by auto
  then show ?thesis by (auto simp: v_def)
qed

lemma NetDest_remove_elems:
  assumes "NetDest_remove M nd m = Inr nd'"
  shows "nd_elems nd' = nd_elems nd - {(mt_base_level M (mach_type m), mach_num m)}"
proof -
  define v where "v = mt_base_level M (mach_type m)"
  from assms obtain s where v: "v < length (nd_bits nd)"
    and s: "Set_remove (nd_bits nd ! v) (mach_num m) = Inr s"
    and nd': "nd' = nd\<lparr>nd_bits := (nd_bits nd)[v := s]\<rparr>"
    by (auto simp: NetDest_remove_def NetDest_vecIndex_def v_def)
  have "nd_elems nd' = {p \<in> nd_elems nd. fst p \<noteq> v} \<union> ({p \<in> nd_elems nd. fst p = v} - {(v, mach_num m)})"
    unfolding nd' nd_elems_update [OF v] nd_elems_at [OF v] Set_remove_elems [OF s] by auto
  then show ?thesis by (auto simp: v_def)
qed

lemma NetDest_addNetDest_elems:
  assumes "NetDest_addNetDest nd other = Inr nd'"
  shows "nd_elems nd' = nd_elems nd \<union> nd_elems other"
proof -
  from assms obtain bs where len: "length (nd_bits nd) = length (nd_bits other)"
    and bs: "zip_with Set_addSet (nd_bits nd) (nd_bits other) = Inr bs" and nd': "nd' = nd\<lparr>nd_bits := bs\<rparr>"
    by (auto simp: NetDest_addNetDest_def)
  from zip_with_Inr [OF bs len] show ?thesis
    by (auto simp: nd_elems_def nd' len dest!: Set_addSet_elems)
qed

lemma NetDest_removeNetDest_elems:
  assumes "NetDest_removeNetDest nd other = Inr nd'"
  shows "nd_elems nd' = nd_elems nd - nd_elems other"
proof -
  from assms obtain bs where len: "length (nd_bits nd) = length (nd_bits other)"
    and bs: "zip_with Set_removeSet (nd_bits nd) (nd_bits other) = Inr bs"
    and nd': "nd' = nd\<lparr>nd_bits := bs\<rparr>"
    by (auto simp: NetDest_removeNetDest_def)
  from zip_with_Inr [OF bs len] show ?thesis
    by (auto simp: nd_elems_def nd' len dest!: Set_removeSet_elems)
qed

lemma NetDest_clear_elems [simp]: "nd_elems (NetDest_clear nd) = {}"
  by (auto simp: nd_elems_def NetDest_clear_def Set_clear_def set_elems_def)

lemma NetDest_isEmpty_iff: "NetDest_isEmpty nd \<longleftrightarrow> nd_elems nd = {}"
  by (auto simp: NetDest_isEmpty_def nd_elems_def list_all_length Set_isEmpty_iff)

lemma NetDest_intersectionIsNotEmpty_iff:
  assumes "NetDest_intersectionIsNotEmpty nd other = Inr b"
  shows "b \<longleftrightarrow> nd_elems nd \<inter> nd_elems other \<noteq> {}"
proof -
  have len: "length (nd_bits nd) = length (nd_bits other)"
    and b: "b = list_ex (\<lambda>(s, t). \<not> Set_intersectionIsEmpty s t) (zip (nd_bits nd) (nd_bits other))"
    using assms by (auto simp: NetDest_intersectionIsNotEmpty_def)
  have "b \<longleftrightarrow> (\<exists>v < length (nd_bits nd). set_elems (nd_bits nd ! v) \<inter> set_elems (nd_bits other ! v) \<noteq> {})"
    by (simp add: b len list_ex_length Set_intersectionIsEmpty_iff cong: conj_cong)
  then show ?thesis using len by (auto simp: nd_elems_def)
qed

end
