(* ===== verification/Flit.thy ===== *)
theory Flit
  imports Std_Heap Net_Dest "HOL-Library.Product_Lexorder"
begin

text \<open>
  The units of flow control of src/gem5/src/mem/ruby/network/garnet2.0: the enumerations and
  \<open>RouteInfo\<close> of \<open>CommonTypes.hh\<close>, \<open>flit\<close> (flit.hh, flit.cc), \<open>Credit\<close> (a flit with a free signal,
  Credit.cc) and \<open>flitBuffer\<close> (flitBuffer.hh, flitBuffer.cc), the time-ordered queue of every link,
  virtual channel and port. A member \<open>m_x\<close> of the class is the field \<open>fl_x\<close> of the record. A
  constructor that leaves a member unset keeps it as it is in the memory \<open>u\<close> it is given.

  A buffer holds flits by value: a flit is in one container at a time, and a write through the
  pointer returned by \<open>peekTopFlit\<close> is an update of the front of the buffer.

  Locale \<open>flit_queue\<close> is the contract the other components rely on: inserting and taking conserve
  the flits, and what is taken is first in the (time, id) order of \<open>flit::greater\<close>. It is
  interpreted by \<open>flitBuffer\<close> on top of the heap lemmas.
\<close>

section \<open>Enumerations and routes\<close>

datatype flit_type = HEAD | BODY | TAIL | HEAD_TAIL | NUM_FLIT_TYPE
datatype VC_state_type = IDLE | VC_AB | ACTIVE | NUM_VC_STATE_TYPE
datatype VNET_type = CTRL_VNET | DATA_VNET | NULL_VNET | NUM_VNET_TYPE
datatype flit_stage = I_stage | VA_stage | SA_stage | ST_stage | LT_stage | NUM_FLIT_STAGE
datatype link_type = EXT_IN | EXT_OUT | INT_link | NUM_LINK_TYPES
datatype RoutingAlgorithm =
  TABLE | XY | RANDOM | ADAPT_RAND | WestFirst | ADAPT_WestFirst | CUSTOM | NUM_ROUTING_ALGORITHM

definition INFINITE :: nat where
  "INFINITE = 10000"

record RouteInfo =
  ri_vnet :: int
  ri_net_dest :: net_dest
  ri_src_ni :: int
  ri_src_router :: int
  ri_dest_ni :: int
  ri_dest_router :: int
  ri_hops_traversed :: int

definition RouteInfo_new :: "machine_types \<Rightarrow> RouteInfo res" where
  "RouteInfo_new M = bnd (NetDest_new M) (\<lambda>nd.
     Inr \<lparr>ri_vnet = -1, ri_net_dest = nd, ri_src_ni = -1, ri_src_router = -1, ri_dest_ni = -1,
          ri_dest_router = -1, ri_hops_traversed = -1\<rparr>)"

section \<open>Flits and credits\<close>

type_synonym msg_ptr = "nat option"

record flit =
  fl_marked :: bool
  fl_request_uturn :: bool
  fl_hops_needed_before_spin :: int
  fl_hops_needed_after_spin :: int
  fl_id :: int
  fl_vnet :: int
  fl_vc :: int
  fl_route :: RouteInfo
  fl_size :: int
  fl_enqueue_time :: cycles
  fl_dequeue_time :: cycles
  fl_time :: cycles
  fl_type :: flit_type
  fl_msg_ptr :: msg_ptr
  fl_outport :: int
  fl_outport_dir :: port_direction
  fl_src_delay :: cycles
  fl_stage :: "flit_stage \<times> cycles"

definition flit_default :: "'a flit_scheme \<Rightarrow> machine_types \<Rightarrow> 'a flit_scheme res" where
  "flit_default u M = bnd (RouteInfo_new M) (\<lambda>route.
     Inr (u\<lparr>fl_size := -1, fl_msg_ptr := None, fl_enqueue_time := 0, fl_dequeue_time := 0,
            fl_time := 0, fl_id := -1, fl_vnet := -1, fl_vc := -1, fl_route := route,
            fl_stage := (I_stage, 0), fl_outport := -1, fl_outport_dir := ''Unknown'',
            fl_hops_needed_before_spin := -1, fl_hops_needed_after_spin := -1\<rparr>))"

definition flit_new ::
    "'a flit_scheme \<Rightarrow> int \<Rightarrow> int \<Rightarrow> int \<Rightarrow> RouteInfo \<Rightarrow> int \<Rightarrow> msg_ptr \<Rightarrow> cycles \<Rightarrow> bool \<Rightarrow>
     'a flit_scheme" where
  "flit_new u fid vc vnet route sz msg curTime marked =
     u\<lparr>fl_size := sz, fl_msg_ptr := msg, fl_enqueue_time := curTime, fl_dequeue_time := curTime,
       fl_time := curTime, fl_id := fid, fl_vnet := vnet, fl_vc := vc, fl_route := route,
       fl_stage := (I_stage, curTime), fl_outport_dir := ''Unknown'',
       fl_hops_needed_before_spin := -1, fl_hops_needed_after_spin := -1,
       fl_marked := marked, fl_request_uturn := False,
       fl_type := (if sz = 1 then HEAD_TAIL
                   else if fid = 0 then HEAD
                   else if fid = sz - 1 then TAIL
                   else BODY)\<rparr>"

definition is_stage :: "'a flit_scheme \<Rightarrow> flit_stage \<Rightarrow> cycles \<Rightarrow> bool" where
  "is_stage f stage time = (stage = fst (fl_stage f) \<and> snd (fl_stage f) \<le> time)"

definition advance_stage :: "flit_stage \<Rightarrow> cycles \<Rightarrow> 'a flit_scheme \<Rightarrow> 'a flit_scheme" where
  "advance_stage t_stage newTime f = f\<lparr>fl_stage := (t_stage, newTime)\<rparr>"

definition set_time :: "cycles \<Rightarrow> 'a flit_scheme \<Rightarrow> 'a flit_scheme" where
  "set_time time f = f\<lparr>fl_time := time\<rparr>"

definition set_outport :: "int \<Rightarrow> 'a flit_scheme \<Rightarrow> 'a flit_scheme" where
  "set_outport port f = f\<lparr>fl_outport := port\<rparr>"

definition set_outport_dir :: "port_direction \<Rightarrow> 'a flit_scheme \<Rightarrow> 'a flit_scheme" where
  "set_outport_dir dir f = f\<lparr>fl_outport_dir := dir\<rparr>"

definition set_vc :: "int \<Rightarrow> 'a flit_scheme \<Rightarrow> 'a flit_scheme" where
  "set_vc vc f = f\<lparr>fl_vc := vc\<rparr>"

definition increment_hops :: "'a flit_scheme \<Rightarrow> 'a flit_scheme" where
  "increment_hops f =
     f\<lparr>fl_route := (fl_route f)\<lparr>ri_hops_traversed := ri_hops_traversed (fl_route f) + 1\<rparr>\<rparr>"

definition flit_greater :: "'a flit_scheme \<Rightarrow> 'a flit_scheme \<Rightarrow> bool" where
  "flit_greater n1 n2 =
     (if fl_time n1 = fl_time n2 then fl_id n2 < fl_id n1 else fl_time n2 < fl_time n1)"

definition is_tail :: "'a flit_scheme \<Rightarrow> bool" where
  "is_tail f = (fl_type f = TAIL \<or> fl_type f = HEAD_TAIL)"

definition is_head :: "'a flit_scheme \<Rightarrow> bool" where
  "is_head f = (fl_type f = HEAD \<or> fl_type f = HEAD_TAIL)"

record credit = flit +
  cr_is_free_signal :: bool

definition Credit_new :: "credit \<Rightarrow> int \<Rightarrow> bool \<Rightarrow> cycles \<Rightarrow> credit" where
  "Credit_new u vc is_free curTime =
     u\<lparr>fl_id := 0, fl_vc := vc, cr_is_free_signal := is_free, fl_time := curTime\<rparr>"

lemmas flit_setters [net_defs] =
  advance_stage_def set_time_def set_outport_def set_outport_dir_def set_vc_def increment_hops_def

section \<open>flitBuffer\<close>

record 'f flit_buffer =
  fb_buffer :: "'f list"
  fb_max_size :: int

definition flitBuffer_new :: "'f flit_buffer" where
  "flitBuffer_new = \<lparr>fb_buffer = [], fb_max_size = int INFINITE\<rparr>"

definition flitBuffer_new_size :: "int \<Rightarrow> 'f flit_buffer" where
  "flitBuffer_new_size maximum = \<lparr>fb_buffer = [], fb_max_size = maximum\<rparr>"

definition isEmpty :: "'f flit_buffer \<Rightarrow> bool" where
  "isEmpty b = (fb_buffer b = [])"

definition getSize :: "'f flit_buffer \<Rightarrow> nat" where
  "getSize b = length (fb_buffer b)"

text \<open>The comparison is between an unsigned 64-bit size and a signed limit converted to unsigned.\<close>

definition isFull :: "'f flit_buffer \<Rightarrow> bool" where
  "isFull b = (fb_max_size b mod 2 ^ 64 \<le> int (length (fb_buffer b)))"

definition setMaxSize :: "int \<Rightarrow> 'f flit_buffer \<Rightarrow> 'f flit_buffer" where
  "setMaxSize maximum b = b\<lparr>fb_max_size := maximum\<rparr>"

definition peekTopFlit :: "'f flit_buffer \<Rightarrow> 'f res" where
  "peekTopFlit b = bnd (assert_that (fb_buffer b \<noteq> [])) (\<lambda>_. Inr (hd (fb_buffer b)))"

definition getTopFlit :: "('a flit_scheme) flit_buffer \<Rightarrow> ('a flit_scheme \<times> ('a flit_scheme) flit_buffer) res" where
  "getTopFlit b =
     (case fb_buffer b of
        [] \<Rightarrow> Inl OutOfRange
      | f # _ \<Rightarrow> Inr (f, b\<lparr>fb_buffer := pop_heap flit_greater (fb_buffer b)\<rparr>))"

definition insert_flit :: "'a flit_scheme \<Rightarrow> ('a flit_scheme) flit_buffer \<Rightarrow> ('a flit_scheme) flit_buffer" where
  "insert_flit f b = b\<lparr>fb_buffer := push_heap flit_greater (fb_buffer b) f\<rparr>"

definition isReady :: "('a flit_scheme) flit_buffer \<Rightarrow> cycles \<Rightarrow> bool" where
  "isReady b curTime = (fb_buffer b \<noteq> [] \<and> fl_time (hd (fb_buffer b)) \<le> curTime)"

text \<open>A write through the pointer that \<open>peekTopFlit\<close> returns.\<close>

definition update_top :: "('f \<Rightarrow> 'f) \<Rightarrow> 'f flit_buffer \<Rightarrow> 'f flit_buffer" where
  "update_top g b = b\<lparr>fb_buffer := (case fb_buffer b of [] \<Rightarrow> [] | f # fs \<Rightarrow> g f # fs)\<rparr>"

definition flitBuffer_functionalWrite ::
    "(msg_ptr \<Rightarrow> bool) \<Rightarrow> ('a flit_scheme) flit_buffer \<Rightarrow> nat" where
  "flitBuffer_functionalWrite fw b = length (filter (\<lambda>f. fw (fl_msg_ptr f)) (fb_buffer b))"

section \<open>The order of a buffer\<close>

abbreviation flit_key :: "'a flit_scheme \<Rightarrow> cycles \<times> int" where
  "flit_key f \<equiv> (fl_time f, fl_id f)"

interpretation fheap: heap_order flit_greater flit_key
  by unfold_locales (auto simp: flit_greater_def less_prod_def)

definition buffer_inv :: "('a flit_scheme) flit_buffer \<Rightarrow> bool" where
  "buffer_inv b = is_heap flit_greater (fb_buffer b)"

definition flits_of :: "'f flit_buffer \<Rightarrow> 'f multiset" where
  "flits_of b = mset (fb_buffer b)"

locale flit_queue =
  fixes ins :: "'f \<Rightarrow> 'q \<Rightarrow> 'q"
    and peek :: "'q \<Rightarrow> 'f res"
    and take_top :: "'q \<Rightarrow> ('f \<times> 'q) res"
    and elems :: "'q \<Rightarrow> 'f multiset"
    and invar :: "'q \<Rightarrow> bool"
    and prio :: "'f \<Rightarrow> 'k::linorder"
  assumes elems_ins: "elems (ins f q) = add_mset f (elems q)"
    and take_Inr: "take_top q = Inr (f, q') \<Longrightarrow> add_mset f (elems q') = elems q"
    and take_defined: "elems q \<noteq> {#} \<Longrightarrow> \<exists>f q'. take_top q = Inr (f, q')"
    and peek_take: "take_top q = Inr (f, q') \<Longrightarrow> peek q = Inr f"
    and invar_ins: "invar q \<Longrightarrow> invar (ins f q)"
    and invar_take: "invar q \<Longrightarrow> take_top q = Inr (f, q') \<Longrightarrow> invar q'"
    and take_least: "invar q \<Longrightarrow> take_top q = Inr (f, q') \<Longrightarrow> g \<in># elems q \<Longrightarrow> prio f \<le> prio g"
begin

text \<open>Moving the front of one queue into another, changed on the way, loses nothing.\<close>

lemma move_conserves:
  assumes "take_top q = Inr (f, q')" and "tag (h f) = tag f"
  shows "image_mset tag (elems q') + image_mset tag (elems (ins (h f) r)) =
    image_mset tag (elems q) + image_mset tag (elems r)"
  using take_Inr [OF assms(1), symmetric] assms(2) by (simp add: elems_ins)

text \<open>Taking everything out of a queue.\<close>

fun drain :: "nat \<Rightarrow> 'q \<Rightarrow> 'f list res" where
  "drain 0 q = Inr []"
| "drain (Suc n) q = bnd (take_top q) (\<lambda>(f, q'). bnd (drain n q') (\<lambda>fs. Inr (f # fs)))"

lemma drain_sorted:
  assumes "invar q"
  shows "\<exists>fs. drain (size (elems q)) q = Inr fs \<and> mset fs = elems q \<and> sorted (map prio fs)"
  using assms
proof (induction "size (elems q)" arbitrary: q)
  case 0
  then show ?case by simp
next
  case (Suc n)
  then obtain f q' where t: "take_top q = Inr (f, q')" using take_defined [of q] by force
  have e: "elems q = add_mset f (elems q')" using take_Inr [OF t] by simp
  with Suc.hyps(2) have n: "n = size (elems q')" by simp
  from Suc.hyps(1) [OF n invar_take [OF Suc.prems t]] obtain fs where
    fs: "drain n q' = Inr fs" "mset fs = elems q'" "sorted (map prio fs)" using n by auto
  have "prio f \<le> prio g" if "g \<in> set fs" for g
  proof -
    have "g \<in># mset fs" using that by simp
    then have "g \<in># elems q" unfolding fs(2) e by simp
    then show ?thesis using take_least [OF Suc.prems t] by simp
  qed
  then have "sorted (map prio (f # fs))" using fs(3) by auto
  moreover have "drain (size (elems q)) q = Inr (f # fs)" using t fs(1) e n by simp
  ultimately show ?case using fs(2) e by (intro exI [of _ "f # fs"]) simp
qed

end

interpretation fbuf: flit_queue insert_flit peekTopFlit getTopFlit flits_of buffer_inv flit_key
proof unfold_locales
  fix q q' :: "('a flit_scheme) flit_buffer" and f g
  show "flits_of (insert_flit f q) = add_mset f (flits_of q)"
    by (simp add: flits_of_def insert_flit_def)
  show "\<exists>f q'. getTopFlit q = Inr (f, q')" if "flits_of q \<noteq> {#}"
    using that by (auto simp: flits_of_def getTopFlit_def split: list.splits)
  show "buffer_inv (insert_flit f q)" if "buffer_inv q"
    using that by (simp add: buffer_inv_def insert_flit_def fheap.is_heap_push_heap)
  assume t: "getTopFlit q = Inr (f, q')"
  then obtain fs where q: "fb_buffer q = f # fs" and q': "q' = q\<lparr>fb_buffer := pop_heap flit_greater (fb_buffer q)\<rparr>"
    by (auto simp: getTopFlit_def split: list.splits)
  show "add_mset f (flits_of q') = flits_of q"
    using mset_pop_heap [of "fb_buffer q" flit_greater] by (simp add: flits_of_def q q')
  show "peekTopFlit q = Inr f" by (simp add: peekTopFlit_def q)
  assume i: "buffer_inv q"
  then show "buffer_inv q'" by (simp add: buffer_inv_def q' fheap.is_heap_pop_heap)
  assume "g \<in># flits_of q"
  then have "g \<in> set (fb_buffer q)" by (simp add: flits_of_def)
  then show "flit_key f \<le> flit_key g"
    using fheap.heap_hd_least [of "fb_buffer q" g] i q by (simp add: buffer_inv_def)
qed

lemmas fbuf_laws = fbuf.elems_ins fbuf.take_Inr fbuf.take_defined fbuf.peek_take
  fbuf.invar_ins fbuf.invar_take fbuf.take_least

lemma flits_of_insert [simp]: "flits_of (insert_flit f b) = add_mset f (flits_of b)"
  by (rule fbuf.elems_ins)

lemma buffer_inv_new [simp]: "buffer_inv flitBuffer_new" "flits_of flitBuffer_new = {#}"
  by (simp_all add: buffer_inv_def flitBuffer_new_def is_heap_def flits_of_def)

lemma isReady_iff:
  assumes "buffer_inv b"
  shows "isReady b t \<longleftrightarrow> (\<exists>f \<in># flits_of b. fl_time f \<le> t)"
proof -
  have "fl_time (hd (fb_buffer b)) \<le> fl_time f" if "f \<in> set (fb_buffer b)" for f
    using fheap.heap_hd_least [of "fb_buffer b" f] that assms
    by (auto simp: buffer_inv_def less_eq_prod_def)
  then show ?thesis
    by (force simp: isReady_def flits_of_def intro: hd_in_set)
qed

lemma buffer_inv_update_top:
  assumes "buffer_inv b" and "\<And>f. fl_time (g f) = fl_time f" and "\<And>f. fl_id (g f) = fl_id f"
  shows "buffer_inv (update_top g b)"
proof (cases "fb_buffer b")
  case (Cons f fs)
  have "flit_greater ((g f # fs) ! i) ((g f # fs) ! j) = flit_greater ((f # fs) ! i) ((f # fs) ! j)" for i j
    using assms(2,3) by (cases i; cases j) (simp_all add: flit_greater_def)
  then show ?thesis using assms(1) Cons by (simp add: buffer_inv_def update_top_def is_heap_def)
qed (use assms in \<open>simp add: update_top_def buffer_inv_def\<close>)

lemma update_top_Cons [simp]:
  "fb_buffer b = f # fs \<Longrightarrow> fb_buffer (update_top g b) = g f # fs"
  by (simp add: update_top_def)

lemma flits_of_update_top_tag:
  assumes "\<And>f. tag (g f) = tag f"
  shows "image_mset tag (flits_of (update_top g b)) = image_mset tag (flits_of b)"
  using assms by (simp add: flits_of_def update_top_def split: list.splits)

section \<open>Properties\<close>

text \<open>Taking \<open>n\<close> flits out of a buffer, one \<open>getTopFlit\<close> after the other.\<close>

fun take_flits :: "nat \<Rightarrow> ('a flit_scheme) flit_buffer \<Rightarrow> ('a flit_scheme) list res" where
  "take_flits 0 b = Inr []"
| "take_flits (Suc n) b = bnd (getTopFlit b) (\<lambda>(f, b'). bnd (take_flits n b') (\<lambda>fs. Inr (f # fs)))"

lemma take_flits_drain: "take_flits n b = fbuf.drain n b"
  by (induction n arbitrary: b) simp_all

lemma fold_insert_flit: "buffer_inv b \<Longrightarrow> buffer_inv (fold insert_flit fs b) \<and>
    flits_of (fold insert_flit fs b) = mset fs + flits_of b"
  by (induction fs arbitrary: b) (simp_all add: fbuf.invar_ins)

text \<open>
  C39. A flit buffer is a priority queue: whatever flits are inserted into an empty buffer, in whatever
  order, taking out as many as were inserted always succeeds and returns exactly these flits, sorted
  by the cycle at which they become ready and, within a cycle, by their position in the packet.
\<close>

theorem flitBuffer_sorts:
  "\<exists>gs. take_flits (length fs) (fold insert_flit fs flitBuffer_new) = Inr gs \<and> mset gs = mset fs \<and>
     sorted (map (\<lambda>f. (fl_time f, fl_id f)) gs)"
  using fold_insert_flit [of flitBuffer_new fs] fbuf.drain_sorted [of "fold insert_flit fs flitBuffer_new"]
  by (simp add: take_flits_drain)

end
