(* ===== verification/Vc_State.thy ===== *)
theory Vc_State
  imports Flit
begin

text \<open>
  The network configuration (the members of \<open>GarnetNetwork\<close> that its constructor sets and nothing
  changes afterwards, GarnetNetwork.hh), the two ends of a virtual channel: \<open>OutVcState\<close>
  (OutVcState.hh, OutVcState.cc), the upstream view with its credit counter, and \<open>VirtualChannel\<close>
  (VirtualChannel.hh, VirtualChannel.cc), the downstream buffer and its state, all of
  src/gem5/src/mem/ruby/network/garnet2.0. \<open>nc_fresh_credit\<close> is a credit object as the default constructor
  \<open>flit::flit\<close> leaves it: the members that the constructor of \<open>Credit\<close> does not set.

  The lemmas: credits stay between 0 and the depth of the downstream buffer over every sequence
  of operations and the two assertions are exactly the two bounds; the branches of \<open>need_stage\<close>.
\<close>

section \<open>Configuration\<close>

record garnet_config =
  nc_num_rows :: int
  nc_num_cols :: int
  nc_vcs_per_vnet :: nat
  nc_virtual_networks :: nat
  nc_buffers_per_data_vc :: nat
  nc_buffers_per_ctrl_vc :: nat
  nc_routing_algorithm :: int
  nc_vnet_type :: "VNET_type list"
  nc_ordered :: "bool list"
  nc_spin :: bool
  nc_spin_thrshld :: nat
  nc_spin_mult :: nat
  nc_drain_all_vc :: nat
  nc_uTurn_crossbar :: int
  nc_fresh_credit :: credit

definition vnet_type_of_name :: "string \<Rightarrow> VNET_type" where
  "vnet_type_of_name name = (if name = ''response'' then DATA_VNET else CTRL_VNET)"

definition get_vnet_type :: "garnet_config \<Rightarrow> nat \<Rightarrow> VNET_type res" where
  "get_vnet_type C vc =
     (if nc_vcs_per_vnet C = 0 then Inl DivByZero
      else at (nc_vnet_type C) (int (vc div nc_vcs_per_vnet C)))"

definition isVNetOrdered :: "garnet_config \<Rightarrow> nat \<Rightarrow> bool res" where
  "isVNetOrdered C vnet = at (nc_ordered C) (int vnet)"

section \<open>OutVcState\<close>

record out_vc_state =
  ovc_id :: nat
  ovc_time :: cycles
  ovc_vc_state :: VC_state_type
  ovc_credit_count :: int
  ovc_max_credit_count :: int

definition OutVcState_new :: "garnet_config \<Rightarrow> nat \<Rightarrow> out_vc_state res" where
  "OutVcState_new C i =
     bnd (get_vnet_type C i) (\<lambda>ty.
     let m = (if ty = DATA_VNET then int (nc_buffers_per_data_vc C) else int (nc_buffers_per_ctrl_vc C))
     in bnd (assert_that (1 \<le> m)) (\<lambda>_.
        Inr \<lparr>ovc_id = i, ovc_time = 0, ovc_vc_state = IDLE, ovc_credit_count = m,
             ovc_max_credit_count = m\<rparr>))"

definition ovc_has_credit :: "out_vc_state \<Rightarrow> bool" where
  "ovc_has_credit s = (0 < ovc_credit_count s)"

definition ovc_increment_credit :: "out_vc_state \<Rightarrow> out_vc_state res" where
  "ovc_increment_credit s =
     (let s' = s\<lparr>ovc_credit_count := ovc_credit_count s + 1\<rparr>
      in bnd (assert_that (ovc_credit_count s' \<le> ovc_max_credit_count s')) (\<lambda>_. Inr s'))"

definition ovc_decrement_credit :: "out_vc_state \<Rightarrow> out_vc_state res" where
  "ovc_decrement_credit s =
     (let s' = s\<lparr>ovc_credit_count := ovc_credit_count s - 1\<rparr>
      in bnd (assert_that (0 \<le> ovc_credit_count s')) (\<lambda>_. Inr s'))"

definition ovc_isInState :: "out_vc_state \<Rightarrow> VC_state_type \<Rightarrow> cycles \<Rightarrow> bool" where
  "ovc_isInState s state request_time = (ovc_vc_state s = state \<and> ovc_time s \<le> request_time)"

definition ovc_setState :: "VC_state_type \<Rightarrow> cycles \<Rightarrow> out_vc_state \<Rightarrow> out_vc_state" where
  "ovc_setState state time s = s\<lparr>ovc_vc_state := state, ovc_time := time\<rparr>"

section \<open>VirtualChannel\<close>

record virtual_channel =
  vc_id :: nat
  vc_input_buffer :: "flit flit_buffer"
  vc_state :: "VC_state_type \<times> cycles"
  vc_output_port :: int
  vc_enqueue_time :: cycles
  vc_output_vc :: int

definition VirtualChannel_new :: "nat \<Rightarrow> virtual_channel" where
  "VirtualChannel_new i =
     \<lparr>vc_id = i, vc_input_buffer = flitBuffer_new, vc_state = (IDLE, 0), vc_output_port = -1,
      vc_enqueue_time = INFINITE, vc_output_vc = -1\<rparr>"

definition vc_set_idle :: "cycles \<Rightarrow> virtual_channel \<Rightarrow> virtual_channel" where
  "vc_set_idle curTime v =
     v\<lparr>vc_state := (IDLE, curTime), vc_enqueue_time := INFINITE, vc_output_port := -1,
       vc_output_vc := -1\<rparr>"

definition vc_set_active :: "cycles \<Rightarrow> virtual_channel \<Rightarrow> virtual_channel" where
  "vc_set_active curTime v = v\<lparr>vc_state := (ACTIVE, curTime), vc_enqueue_time := curTime\<rparr>"

definition vc_need_stage :: "flit_stage \<Rightarrow> cycles \<Rightarrow> virtual_channel \<Rightarrow> bool res" where
  "vc_need_stage stage time v =
     (if isReady (vc_input_buffer v) time then
        bnd (assert_that (fst (vc_state v) = ACTIVE \<and> snd (vc_state v) \<le> time)) (\<lambda>_.
        bnd (peekTopFlit (vc_input_buffer v)) (\<lambda>t_flit. Inr (is_stage t_flit stage time)))
      else Inr False)"

definition vc_isEmpty :: "virtual_channel \<Rightarrow> bool" where
  "vc_isEmpty v = isEmpty (vc_input_buffer v)"

definition vc_isReady :: "cycles \<Rightarrow> virtual_channel \<Rightarrow> bool" where
  "vc_isReady curTime v = isReady (vc_input_buffer v) curTime"

definition vc_insertFlit :: "flit \<Rightarrow> virtual_channel \<Rightarrow> virtual_channel" where
  "vc_insertFlit f v = v\<lparr>vc_input_buffer := insert_flit f (vc_input_buffer v)\<rparr>"

definition vc_peekTopFlit :: "virtual_channel \<Rightarrow> flit res" where
  "vc_peekTopFlit v = peekTopFlit (vc_input_buffer v)"

definition vc_getTopFlit :: "virtual_channel \<Rightarrow> (flit \<times> virtual_channel) res" where
  "vc_getTopFlit v =
     bnd (getTopFlit (vc_input_buffer v)) (\<lambda>(f, b). Inr (f, v\<lparr>vc_input_buffer := b\<rparr>))"

definition vc_update_top :: "(flit \<Rightarrow> flit) \<Rightarrow> virtual_channel \<Rightarrow> virtual_channel" where
  "vc_update_top g v = v\<lparr>vc_input_buffer := update_top g (vc_input_buffer v)\<rparr>"

definition vc_functionalWrite :: "(msg_ptr \<Rightarrow> bool) \<Rightarrow> virtual_channel \<Rightarrow> nat" where
  "vc_functionalWrite fw v = flitBuffer_functionalWrite fw (vc_input_buffer v)"

section \<open>Credits\<close>

definition credit_inv :: "out_vc_state \<Rightarrow> bool" where
  "credit_inv s = (0 \<le> ovc_credit_count s \<and> ovc_credit_count s \<le> ovc_max_credit_count s \<and>
     1 \<le> ovc_max_credit_count s)"

text \<open>What the router does to the state of an output virtual channel, one operation at a time.\<close>

datatype ovc_op = OvcIncrement | OvcDecrement | OvcSet VC_state_type cycles

fun ovc_apply :: "ovc_op \<Rightarrow> out_vc_state \<Rightarrow> out_vc_state res" where
  "ovc_apply OvcIncrement s = ovc_increment_credit s"
| "ovc_apply OvcDecrement s = ovc_decrement_credit s"
| "ovc_apply (OvcSet st t) s = Inr (ovc_setState st t s)"

lemma ovc_increment_Inr:
  "ovc_increment_credit s = Inr s' \<longleftrightarrow>
     ovc_credit_count s < ovc_max_credit_count s \<and>
     s' = s\<lparr>ovc_credit_count := ovc_credit_count s + 1\<rparr>"
  by (auto simp: ovc_increment_credit_def Let_def bnd_eq_Inr)

lemma ovc_decrement_Inr:
  "ovc_decrement_credit s = Inr s' \<longleftrightarrow>
     0 < ovc_credit_count s \<and> s' = s\<lparr>ovc_credit_count := ovc_credit_count s - 1\<rparr>"
  by (auto simp: ovc_decrement_credit_def Let_def bnd_eq_Inr)

lemma OutVcState_new_inv: "OutVcState_new C i = Inr s \<Longrightarrow> credit_inv s"
  by (auto simp: OutVcState_new_def credit_inv_def Let_def)

lemma ovc_apply_inv: "ovc_apply op s = Inr s' \<Longrightarrow> credit_inv s \<Longrightarrow> credit_inv s'"
  by (cases op) (auto simp: ovc_increment_Inr ovc_decrement_Inr credit_inv_def ovc_setState_def)

lemma ovc_apply_max: "ovc_apply op s = Inr s' \<Longrightarrow> ovc_max_credit_count s' = ovc_max_credit_count s"
  by (cases op) (auto simp: ovc_increment_Inr ovc_decrement_Inr ovc_setState_def)

fun net_credits :: "ovc_op list \<Rightarrow> int" where
  "net_credits [] = 0"
| "net_credits (OvcIncrement # ops) = 1 + net_credits ops"
| "net_credits (OvcDecrement # ops) = net_credits ops - 1"
| "net_credits (OvcSet st t # ops) = net_credits ops"

lemma foldM_ovc_credits:
  "foldM ovc_apply ops s = Inr s' \<Longrightarrow> ovc_credit_count s' = ovc_credit_count s + net_credits ops"
proof (induction ops arbitrary: s)
  case (Cons op ops)
  then show ?case
    by (cases op) (fastforce simp: ovc_increment_Inr ovc_decrement_Inr ovc_setState_def)+
qed simp

lemma foldM_ovc_inv:
  assumes "foldM ovc_apply ops s = Inr s'" and "credit_inv s"
  shows "credit_inv s' \<and> ovc_max_credit_count s' = ovc_max_credit_count s"
  using foldM_invariant [OF assms(1), of "\<lambda>t. credit_inv t \<and> ovc_max_credit_count t = ovc_max_credit_count s"]
    assms(2) ovc_apply_inv ovc_apply_max by auto

section \<open>Virtual channels\<close>

definition vc_flits :: "virtual_channel \<Rightarrow> flit multiset" where
  "vc_flits v = flits_of (vc_input_buffer v)"

text \<open>
  Between operations a channel is a heap, and it is \<open>ACTIVE\<close> whenever it holds a flit: what
  \<open>need_stage\<close> asserts.
\<close>

definition vc_inv :: "virtual_channel \<Rightarrow> bool" where
  "vc_inv v = (buffer_inv (vc_input_buffer v) \<and>
     (vc_flits v \<noteq> {#} \<longrightarrow> fst (vc_state v) = ACTIVE))"

lemma vc_new_inv [simp]: "vc_inv (VirtualChannel_new i)" "vc_flits (VirtualChannel_new i) = {#}"
  by (simp_all add: vc_inv_def VirtualChannel_new_def vc_flits_def)

lemma vc_flits_insert [simp]: "vc_flits (vc_insertFlit f v) = add_mset f (vc_flits v)"
  by (simp add: vc_flits_def vc_insertFlit_def)

lemma vc_flits_set_active [simp]: "vc_flits (vc_set_active t v) = vc_flits v"
  by (simp add: vc_flits_def vc_set_active_def)

lemma vc_flits_set_idle [simp]: "vc_flits (vc_set_idle t v) = vc_flits v"
  by (simp add: vc_flits_def vc_set_idle_def)

lemma vc_isEmpty_iff: "vc_isEmpty v \<longleftrightarrow> vc_flits v = {#}"
  by (simp add: vc_isEmpty_def isEmpty_def vc_flits_def flits_of_def)

lemma vc_getTopFlit_flits:
  assumes "vc_getTopFlit v = Inr (f, v')"
  shows "add_mset f (vc_flits v') = vc_flits v" and "vc_peekTopFlit v = Inr f"
    and "vc_state v' = vc_state v" and "vc_output_vc v' = vc_output_vc v"
    and "vc_output_port v' = vc_output_port v"
  using assms fbuf.take_Inr fbuf.peek_take
  by (auto simp: vc_getTopFlit_def vc_flits_def vc_peekTopFlit_def)

lemma vc_insert_inv:
  "vc_inv v \<Longrightarrow> vc_inv (vc_insertFlit f (vc_set_active t v))"
  by (simp add: vc_inv_def vc_insertFlit_def vc_set_active_def vc_flits_def fbuf.invar_ins)

lemma vc_getTopFlit_inv: "vc_inv v \<Longrightarrow> vc_getTopFlit v = Inr (f, v') \<Longrightarrow> vc_inv v'"
  using vc_getTopFlit_flits(1) [of v f v']
  by (auto simp: vc_inv_def vc_getTopFlit_def vc_flits_def intro: fbuf.invar_take)

lemma vc_need_stage_total:
  assumes "vc_inv v" and "snd (vc_state v) \<le> time"
  shows "vc_need_stage stage time v =
    Inr (isReady (vc_input_buffer v) time \<and> is_stage (hd (fb_buffer (vc_input_buffer v))) stage time)"
  using assms
  by (auto simp: vc_need_stage_def vc_inv_def isReady_def peekTopFlit_def vc_flits_def flits_of_def)

lemma vc_need_stage_Inr_True:
  "vc_need_stage stage time v = Inr True \<Longrightarrow>
     \<exists>f. vc_peekTopFlit v = Inr f \<and> is_stage f stage time \<and> fl_time f \<le> time"
  by (auto simp: vc_need_stage_def vc_peekTopFlit_def peekTopFlit_def isReady_def split: if_splits)

section \<open>Properties\<close>

text \<open>The number of credits before every operation of a sequence and after the last.\<close>

fun credit_levels :: "int \<Rightarrow> ovc_op list \<Rightarrow> int list" where
  "credit_levels c [] = [c]"
| "credit_levels c (op # ops) = c # credit_levels (c + net_credits [op]) ops"

lemma foldM_ovc_runs:
  assumes "credit_inv s"
  shows "(\<exists>s'. foldM ovc_apply ops s = Inr s') \<longleftrightarrow>
    list_all (\<lambda>c. 0 \<le> c \<and> c \<le> ovc_max_credit_count s) (credit_levels (ovc_credit_count s) ops)"
  using assms
proof (induction ops arbitrary: s)
  case (Cons op ops)
  show ?case
  proof (cases "ovc_apply op s")
    case (Inl e)
    then have "\<not> (0 \<le> ovc_credit_count s + net_credits [op] \<and>
        ovc_credit_count s + net_credits [op] \<le> ovc_max_credit_count s)"
      by (cases op) (auto simp: ovc_increment_credit_def ovc_decrement_credit_def assert_that_def Let_def split: if_splits)
    moreover have "hd (credit_levels c ops) = c" "credit_levels c ops \<noteq> []" for c by (cases ops; simp)+
    ultimately show ?thesis using Inl by (auto simp: list_all_iff) (metis hd_in_set)+
  next
    case (Inr s1)
    have "ovc_credit_count s1 = ovc_credit_count s + net_credits [op]"
      using foldM_ovc_credits [of "[op]" s s1] Inr by simp
    then show ?thesis
      using Cons.IH [OF ovc_apply_inv [OF Inr Cons.prems]] ovc_apply_max [OF Inr] Inr Cons.prems
      by (simp add: credit_inv_def)
  qed
qed (simp add: credit_inv_def)

text \<open>
  C40. The assertions of \<open>increment_credit\<close> and \<open>decrement_credit\<close> are exactly the bounds of the credit
  counter: from the constructor on, a sequence of operations on an output channel runs without a failing
  assertion if and only if the number of credits never leaves the range from 0 to the depth of the
  downstream buffer.
\<close>

theorem credit_assertions_exact:
  assumes "OutVcState_new C i = Inr s"
  shows "(\<exists>s'. foldM ovc_apply ops s = Inr s') \<longleftrightarrow>
    list_all (\<lambda>c. 0 \<le> c \<and> c \<le> ovc_max_credit_count s) (credit_levels (ovc_max_credit_count s) ops)"
proof -
  have "ovc_credit_count s = ovc_max_credit_count s" using assms by (auto simp: OutVcState_new_def Let_def)
  then show ?thesis using foldM_ovc_runs [OF OutVcState_new_inv [OF assms], of ops] by simp
qed

end
