(* ===== verification/Network_State.thy ===== *)
theory Network_State
  imports Vc_State
begin

text \<open>
  The state of the network of src/gem5/src/mem/ruby/network/garnet2.0, one record per class:
  \<open>NetworkLink\<close> and \<open>CreditLink\<close>, \<open>InputUnit\<close>, \<open>OutputUnit\<close>, \<open>RoutingUnit\<close>, \<open>SwitchAllocator\<close>,
  \<open>CrossbarSwitch\<close>, \<open>Router\<close> and \<open>GarnetNetwork\<close>. Pointers between objects are indices into the
  vectors of \<open>GarnetNetwork\<close>: a port names its links by their position in \<open>m_networklinks\<close> and
  \<open>m_creditlinks\<close>, a link names its source queue and its consumer by \<open>flit_queue_ref\<close>, \<open>credit_queue_ref\<close> and \<open>consumer_ref\<close>.

  \<open>Consumer\<close> (src/gem5/src/mem/ruby/common/Consumer.cc) keeps the set of cycles at which an object
  is to be woken up (the controllers of the protocol, \<open>ProtocolConsumer\<close>, and the switches and throttles of the
  simple network are not part of the Garnet network and keep their own); \<open>consumer_schedule\<close> is its \<open>scheduleEventAbsolute\<close>. What an object schedules
  while it runs is collected as a list of \<open>event_req\<close> and entered afterwards, since nothing
  reads the sets in between.
\<close>

section \<open>Wakeup events\<close>

datatype consumer_ref =
    RouterConsumer nat
  | NIConsumer nat
  | NetLinkConsumer nat
  | CreditLinkConsumer nat
  | NetworkConsumer
  | ProtocolConsumer nat
  | SwitchConsumer nat
  | ThrottleConsumer nat nat

type_synonym event_req = "consumer_ref \<times> cycles"

definition consumer_schedule :: "cycles \<Rightarrow> cycles \<Rightarrow> cycles list \<Rightarrow> cycles list" where
  "consumer_schedule now evt_time wakeups =
     filter (\<lambda>t. now \<le> t) (if evt_time \<in> set wakeups then wakeups else evt_time # wakeups)"

lemma consumer_schedule_set:
  "set (consumer_schedule now t ws) = {u \<in> insert t (set ws). now \<le> u}"
  by (auto simp: consumer_schedule_def)

lemma consumer_schedule_distinct: "distinct ws \<Longrightarrow> distinct (consumer_schedule now t ws)"
  by (simp add: consumer_schedule_def)

section \<open>Links\<close>

text \<open>
  The queue a link reads from: the output buffer of a port of a router or of a network interface,
  or, for a credit link, the credit queue of one of them.
\<close>

datatype flit_queue_ref = RouterOut nat nat | NIOut nat
datatype credit_queue_ref = RouterCredit nat nat | NICredit nat

record ('f, 'q) network_link =
  nl_linkBuffer :: "'f flit_buffer"
  nl_id :: nat
  nl_type :: link_type
  nl_latency :: cycles
  nl_consumer :: "consumer_ref option"
  nl_srcQueue :: "'q option"
  nl_link_utilized :: nat
  nl_vc_load :: "nat list"
  nl_wakeups :: "cycles list"

type_synonym flit_link = "(flit, flit_queue_ref) network_link"
type_synonym credit_link = "(credit, credit_queue_ref) network_link"

section \<open>Ports\<close>

record input_unit =
  iu_id :: nat
  iu_direction :: port_direction
  iu_num_vcs :: nat
  iu_vc_per_vnet :: nat
  iu_in_link :: nat
  iu_credit_link :: nat
  iu_creditQueue :: "credit flit_buffer"
  iu_num_buffer_writes :: "nat list"
  iu_num_buffer_reads :: "nat list"
  iu_vcs :: "virtual_channel list"

record output_unit =
  ou_id :: nat
  ou_direction :: port_direction
  ou_num_vcs :: nat
  ou_vc_per_vnet :: nat
  ou_out_link :: nat
  ou_credit_link :: nat
  ou_out_buffer :: "flit flit_buffer"
  ou_outvc_state :: "out_vc_state list"

text \<open>The numbers of the links of a port, and the two ends of a link: what the construction sets once and for all.\<close>

abbreviation iu_wires :: "input_unit \<Rightarrow> nat \<times> nat" where
  "iu_wires u \<equiv> (iu_in_link u, iu_credit_link u)"

abbreviation ou_wires :: "output_unit \<Rightarrow> nat \<times> nat" where
  "ou_wires u \<equiv> (ou_out_link u, ou_credit_link u)"

abbreviation link_wires :: "('f, 'q) network_link \<Rightarrow> 'q option \<times> consumer_ref option" where
  "link_wires l \<equiv> (nl_srcQueue l, nl_consumer l)"

section \<open>Inside a router\<close>

record routing_unit =
  ru_inports_dirn2idx :: "port_direction \<rightharpoonup> int"
  ru_inports_idx2dirn :: "int \<rightharpoonup> port_direction"
  ru_outports_idx2dirn :: "int \<rightharpoonup> port_direction"
  ru_outports_dirn2idx :: "port_direction \<rightharpoonup> int"
  ru_routing_table :: "net_dest list"
  ru_weight_table :: "int list"

record switch_allocator =
  sa_num_inports :: nat
  sa_num_outports :: nat
  sa_num_vcs :: nat
  sa_vc_per_vnet :: nat
  sa_input_arbiter_activity :: nat
  sa_output_arbiter_activity :: nat
  sa_requested_uturn :: bool
  sa_round_robin_invc :: "nat list"
  sa_round_robin_inport :: "nat list"
  sa_port_requests :: "bool list list"
  sa_vc_winners :: "nat list list"

record crossbar_switch =
  cs_num_vcs :: nat
  cs_num_inports :: nat
  cs_crossbar_activity :: nat
  cs_switch_buffer :: "flit flit_buffer list"

record router =
  r_id :: nat
  r_latency :: cycles
  r_virtual_networks :: nat
  r_num_vcs :: nat
  r_vc_per_vnet :: nat
  r_halt :: bool
  r_mrkd_flt :: int
  r_routing_unit :: routing_unit
  r_input_unit :: "input_unit list"
  r_output_unit :: "output_unit list"
  r_sw_alloc :: switch_allocator
  r_switch :: crossbar_switch
  r_wakeups :: "cycles list"

section \<open>Network interfaces\<close>

record network_interface =
  ni_id :: nat
  ni_virtual_networks :: nat
  ni_vc_per_vnet :: nat
  ni_num_vcs :: nat
  ni_router_id :: int
  ni_out_vc_state :: "out_vc_state list"
  ni_vc_allocator :: "nat list"
  ni_vc_round_robin :: nat
  ni_outFlitQueue :: "flit flit_buffer"
  ni_outCreditQueue :: "credit flit_buffer"
  ni_deadlock_threshold :: int
  ni_inNetLink :: nat
  ni_outNetLink :: nat
  ni_inCreditLink :: nat
  ni_outCreditLink :: nat
  ni_stall_queue :: "flit list"
  ni_stall_count :: "int list"
  ni_out_vcs :: "flit flit_buffer list"
  ni_out_vcs_enqueue_time :: "cycles list"
  ni_vc_busy_counter :: "int list"
  ni_wakeups :: "cycles list"

section \<open>The network\<close>

record net_stats =
  st_total_uturn_request :: nat
  st_success_uturn :: nat
  st_total_misroute :: int
  st_total_spins :: nat
  st_fwd_progress :: nat
  st_misroute :: nat
  st_bubble :: nat
  st_num_drain :: nat

record spinStruct =
  ss_router_id :: int
  ss_inport_dir :: port_direction
  ss_flit :: "flit option"

record garnet_network =
  gn_config :: garnet_config
  gn_routers :: "router list"
  gn_nis :: "network_interface list"
  gn_networklinks :: "flit_link list"
  gn_creditlinks :: "credit_link list"
  gn_lock :: int
  gn_spinRing :: "spinStruct list"
  gn_stats :: net_stats
  gn_cycle :: cycles
  gn_random :: "nat \<Rightarrow> nat"
  gn_wakeups :: "cycles list"

text \<open>The router-local view: a router, the counters of the network and the wakeups it asks for.\<close>

record router_ctx =
  rc_router :: router
  rc_stats :: net_stats
  rc_events :: "event_req list"

definition get_router :: "garnet_network \<Rightarrow> int \<Rightarrow> router res" where
  "get_router net i = at (gn_routers net) i"

definition put_router :: "garnet_network \<Rightarrow> nat \<Rightarrow> router \<Rightarrow> garnet_network" where
  "put_router net i r = net\<lparr>gn_routers := (gn_routers net)[i := r]\<rparr>"

definition next_random :: "garnet_network \<Rightarrow> nat \<times> garnet_network" where
  "next_random net = (gn_random net 0, net\<lparr>gn_random := (\<lambda>n. gn_random net (Suc n))\<rparr>)"

definition schedule_one :: "event_req \<Rightarrow> garnet_network \<Rightarrow> garnet_network" where
  "schedule_one e net =
     (case e of
        (RouterConsumer i, t) \<Rightarrow>
          net\<lparr>gn_routers := count_up (gn_routers net) i
                 (\<lambda>r. r\<lparr>r_wakeups := consumer_schedule (gn_cycle net) t (r_wakeups r)\<rparr>)\<rparr>
      | (NetLinkConsumer i, t) \<Rightarrow>
          net\<lparr>gn_networklinks := count_up (gn_networklinks net) i
                 (\<lambda>l. l\<lparr>nl_wakeups := consumer_schedule (gn_cycle net) t (nl_wakeups l)\<rparr>)\<rparr>
      | (CreditLinkConsumer i, t) \<Rightarrow>
          net\<lparr>gn_creditlinks := count_up (gn_creditlinks net) i
                 (\<lambda>l. l\<lparr>nl_wakeups := consumer_schedule (gn_cycle net) t (nl_wakeups l)\<rparr>)\<rparr>
      | (NetworkConsumer, t) \<Rightarrow>
          net\<lparr>gn_wakeups := consumer_schedule (gn_cycle net) t (gn_wakeups net)\<rparr>
      | (NIConsumer i, t) \<Rightarrow>
          net\<lparr>gn_nis := count_up (gn_nis net) i
                 (\<lambda>n. n\<lparr>ni_wakeups := consumer_schedule (gn_cycle net) t (ni_wakeups n)\<rparr>)\<rparr>
      | _ \<Rightarrow> net)"

definition schedule_events :: "event_req list \<Rightarrow> garnet_network \<Rightarrow> garnet_network" where
  "schedule_events es net = fold schedule_one es net"

section \<open>Where the flits are\<close>

text \<open>
  The part of a flit that no router changes: what identifies a packet on its way.
\<close>

record flit_tag =
  tag_id :: int
  tag_vnet :: int
  tag_size :: int
  tag_type :: flit_type
  tag_enqueue_time :: cycles
  tag_msg_ptr :: msg_ptr
  tag_src_ni :: int
  tag_dest_ni :: int
  tag_dest_router :: int
  tag_marked :: bool

definition flit_tag_of :: "'a flit_scheme \<Rightarrow> flit_tag" where
  "flit_tag_of f =
     \<lparr>tag_id = fl_id f, tag_vnet = fl_vnet f, tag_size = fl_size f, tag_type = fl_type f,
      tag_enqueue_time = fl_enqueue_time f, tag_msg_ptr = fl_msg_ptr f,
      tag_src_ni = ri_src_ni (fl_route f), tag_dest_ni = ri_dest_ni (fl_route f),
      tag_dest_router = ri_dest_router (fl_route f), tag_marked = fl_marked f\<rparr>"

lemma flit_tag_setters [simp]:
  "flit_tag_of (advance_stage st t f) = flit_tag_of f"
  "flit_tag_of (set_time t f) = flit_tag_of f"
  "flit_tag_of (set_outport p f) = flit_tag_of f"
  "flit_tag_of (set_outport_dir d f) = flit_tag_of f"
  "flit_tag_of (set_vc v f) = flit_tag_of f"
  "flit_tag_of (increment_hops f) = flit_tag_of f"
  "flit_tag_of (f\<lparr>fl_request_uturn := b\<rparr>) = flit_tag_of f"
  "flit_tag_of (f\<lparr>fl_hops_needed_before_spin := h\<rparr>) = flit_tag_of f"
  "flit_tag_of (f\<lparr>fl_hops_needed_after_spin := h\<rparr>) = flit_tag_of f"
  by (simp_all add: flit_tag_of_def flit_setters)

definition buffer_tags :: "flit flit_buffer \<Rightarrow> flit_tag multiset" where
  "buffer_tags b = image_mset flit_tag_of (flits_of b)"

definition vc_tags :: "virtual_channel \<Rightarrow> flit_tag multiset" where
  "vc_tags v = buffer_tags (vc_input_buffer v)"

definition input_tags :: "input_unit \<Rightarrow> flit_tag multiset" where
  "input_tags u = contents vc_tags (iu_vcs u)"

definition router_tags :: "router \<Rightarrow> flit_tag multiset" where
  "router_tags r = contents input_tags (r_input_unit r)
     + contents buffer_tags (cs_switch_buffer (r_switch r))
     + contents (\<lambda>u. buffer_tags (ou_out_buffer u)) (r_output_unit r)"

definition ni_tags :: "network_interface \<Rightarrow> flit_tag multiset" where
  "ni_tags n = contents buffer_tags (ni_out_vcs n) + buffer_tags (ni_outFlitQueue n)
     + image_mset flit_tag_of (mset (ni_stall_queue n))"

definition network_tags :: "garnet_network \<Rightarrow> flit_tag multiset" where
  "network_tags net = contents router_tags (gn_routers net) + contents ni_tags (gn_nis net)
     + contents (\<lambda>l. buffer_tags (nl_linkBuffer l)) (gn_networklinks net)"

lemma buffer_tags_insert [simp]:
  "buffer_tags (insert_flit f b) = add_mset (flit_tag_of f) (buffer_tags b)"
  by (simp add: buffer_tags_def)

lemma buffer_tags_take:
  "getTopFlit b = Inr (f, b') \<Longrightarrow> add_mset (flit_tag_of f) (buffer_tags b') = buffer_tags b"
  unfolding buffer_tags_def by (drule fbuf.take_Inr [symmetric]) simp

lemma buffer_tags_update_top:
  "(\<And>f. flit_tag_of (g f) = flit_tag_of f) \<Longrightarrow> buffer_tags (update_top g b) = buffer_tags b"
  by (simp add: buffer_tags_def flits_of_update_top_tag)

lemma contents_count_up:
  "(\<And>c. f (g c) = f c) \<Longrightarrow> contents f (count_up cs i g) = contents f cs"
  by (simp add: count_up_def contents_update_same)

lemma schedule_one_tags [simp]: "network_tags (schedule_one e net) = network_tags net"
  by (auto simp: schedule_one_def network_tags_def contents_count_up router_tags_def ni_tags_def
      split: prod.splits consumer_ref.splits)

lemma schedule_events_tags [simp]: "network_tags (schedule_events es net) = network_tags net"
  unfolding schedule_events_def by (induction es arbitrary: net) auto

lemma put_router_tags:
  assumes "i < length (gn_routers net)" and "router_tags r = router_tags (gn_routers net ! i)"
  shows "network_tags (put_router net i r) = network_tags net"
  using assms by (simp add: network_tags_def put_router_def contents_update_same)

end
