(* ===== verification/Port_Units.thy ===== *)
theory Port_Units
  imports Network_State
begin

text \<open>
  The operations of \<open>InputUnit\<close> (InputUnit.hh, InputUnit.cc, apart from \<open>wakeup\<close>, which needs the
  routing unit) and of \<open>OutputUnit\<close> (OutputUnit.hh, OutputUnit.cc) of
  src/gem5/src/mem/ruby/network/garnet2.0. The channel index of the C++ code is an \<open>int\<close>; indexing
  outside the vectors is the error \<open>OutOfRange\<close>.

  The lemmas: \<open>has_free_vc\<close>, \<open>select_free_vc\<close> and \<open>getNumFreeVCs\<close> agree (there is a free channel
  exactly if one is selected, exactly if the count is positive), the one selected is the lowest
  idle channel of the virtual network and becomes \<open>ACTIVE\<close>, and a returned credit frees its channel.
\<close>

section \<open>InputUnit\<close>

definition InputUnit_new ::
    "input_unit \<Rightarrow> nat \<Rightarrow> port_direction \<Rightarrow> nat \<Rightarrow> nat \<Rightarrow> input_unit res" where
  "InputUnit_new u i direction num_vcs vc_per_vnet =
     (if vc_per_vnet = 0 then Inl DivByZero
      else Inr (u\<lparr>iu_id := i, iu_direction := direction, iu_num_vcs := num_vcs,
                  iu_vc_per_vnet := vc_per_vnet,
                  iu_num_buffer_reads := replicate (num_vcs div vc_per_vnet) 0,
                  iu_num_buffer_writes := replicate (num_vcs div vc_per_vnet) 0,
                  iu_creditQueue := flitBuffer_new,
                  iu_vcs := map VirtualChannel_new [0..<num_vcs]\<rparr>))"

definition iu_read :: "input_unit \<Rightarrow> int \<Rightarrow> (virtual_channel \<Rightarrow> 'a res) \<Rightarrow> 'a res" where
  "iu_read u vc f = bnd (at (iu_vcs u) vc) f"

definition iu_modify :: "input_unit \<Rightarrow> int \<Rightarrow> (virtual_channel \<Rightarrow> virtual_channel) \<Rightarrow> input_unit res" where
  "iu_modify u vc f =
     bnd (at (iu_vcs u) vc) (\<lambda>v. Inr (u\<lparr>iu_vcs := (iu_vcs u)[nat vc := f v]\<rparr>))"

definition iu_set_vc_idle :: "int \<Rightarrow> cycles \<Rightarrow> input_unit \<Rightarrow> input_unit res" where
  "iu_set_vc_idle vc curTime u = iu_modify u vc (vc_set_idle curTime)"

definition iu_set_vc_active :: "int \<Rightarrow> cycles \<Rightarrow> input_unit \<Rightarrow> input_unit res" where
  "iu_set_vc_active vc curTime u = iu_modify u vc (vc_set_active curTime)"

definition iu_grant_outvc :: "int \<Rightarrow> int \<Rightarrow> input_unit \<Rightarrow> input_unit res" where
  "iu_grant_outvc vc outvc u = iu_modify u vc (\<lambda>v. v\<lparr>vc_output_vc := outvc\<rparr>)"

definition iu_get_outport :: "input_unit \<Rightarrow> int \<Rightarrow> int res" where
  "iu_get_outport u vc = iu_read u vc (\<lambda>v. Inr (vc_output_port v))"

definition iu_get_outvc :: "input_unit \<Rightarrow> int \<Rightarrow> int res" where
  "iu_get_outvc u vc = iu_read u vc (\<lambda>v. Inr (vc_output_vc v))"

definition iu_get_enqueue_time :: "input_unit \<Rightarrow> int \<Rightarrow> cycles res" where
  "iu_get_enqueue_time u vc = iu_read u vc (\<lambda>v. Inr (vc_enqueue_time v))"

definition iu_peekTopFlit :: "input_unit \<Rightarrow> int \<Rightarrow> flit res" where
  "iu_peekTopFlit u vc = iu_read u vc vc_peekTopFlit"

definition iu_getTopFlit :: "input_unit \<Rightarrow> int \<Rightarrow> (flit \<times> input_unit) res" where
  "iu_getTopFlit u vc = bnd (at (iu_vcs u) vc) (\<lambda>v. bnd (vc_getTopFlit v)
     (\<lambda>(f, v'). Inr (f, u\<lparr>iu_vcs := (iu_vcs u)[nat vc := v']\<rparr>)))"

definition iu_need_stage :: "input_unit \<Rightarrow> int \<Rightarrow> flit_stage \<Rightarrow> cycles \<Rightarrow> bool res" where
  "iu_need_stage u vc stage time = iu_read u vc (vc_need_stage stage time)"

definition iu_isReady :: "input_unit \<Rightarrow> int \<Rightarrow> cycles \<Rightarrow> bool res" where
  "iu_isReady u vc curTime = iu_read u vc (\<lambda>v. Inr (vc_isReady curTime v))"

definition iu_vc_isEmpty :: "input_unit \<Rightarrow> int \<Rightarrow> bool res" where
  "iu_vc_isEmpty u vc = iu_read u vc (\<lambda>v. Inr (vc_isEmpty v))"

definition iu_get_numFreeVC :: "input_unit \<Rightarrow> port_direction \<Rightarrow> int res" where
  "iu_get_numFreeVC u dirn =
     bnd (assert_that (dirn = iu_direction u)) (\<lambda>_.
     foldM (\<lambda>vc freeVC. bnd (iu_vc_isEmpty u (int vc)) (\<lambda>b. Inr (if b then freeVC + 1 else freeVC)))
       [0..<iu_vc_per_vnet u] 0)"

text \<open>Sends a credit upstream: returns the unit and the wakeup of the credit link in the next cycle.\<close>

definition iu_increment_credit ::
    "credit \<Rightarrow> int \<Rightarrow> bool \<Rightarrow> cycles \<Rightarrow> input_unit \<Rightarrow> input_unit \<times> event_req list" where
  "iu_increment_credit raw in_vc free_signal curTime u =
     (u\<lparr>iu_creditQueue := insert_flit (Credit_new raw in_vc free_signal curTime) (iu_creditQueue u)\<rparr>,
      [(CreditLinkConsumer (iu_credit_link u), curTime + 1)])"

definition iu_functionalWrite :: "(msg_ptr \<Rightarrow> bool) \<Rightarrow> input_unit \<Rightarrow> nat" where
  "iu_functionalWrite fw u = sum_list (map (vc_functionalWrite fw) (iu_vcs u))"

definition iu_resetStats :: "input_unit \<Rightarrow> input_unit" where
  "iu_resetStats u =
     u\<lparr>iu_num_buffer_reads := map (\<lambda>_. 0) (iu_num_buffer_reads u),
       iu_num_buffer_writes := map (\<lambda>_. 0) (iu_num_buffer_writes u)\<rparr>"

section \<open>OutputUnit\<close>

definition OutputUnit_new ::
    "output_unit \<Rightarrow> garnet_config \<Rightarrow> nat \<Rightarrow> port_direction \<Rightarrow> nat \<Rightarrow> nat \<Rightarrow> output_unit res" where
  "OutputUnit_new u C i direction num_vcs vc_per_vnet =
     bnd (traverse (OutVcState_new C) [0..<num_vcs]) (\<lambda>vcs.
     Inr (u\<lparr>ou_id := i, ou_direction := direction, ou_num_vcs := num_vcs,
            ou_vc_per_vnet := vc_per_vnet, ou_out_buffer := flitBuffer_new,
            ou_outvc_state := vcs\<rparr>))"

definition ou_modify ::
    "output_unit \<Rightarrow> int \<Rightarrow> (out_vc_state \<Rightarrow> out_vc_state res) \<Rightarrow> output_unit res" where
  "ou_modify u vc f = bnd (at (ou_outvc_state u) vc) (\<lambda>s. bnd (f s)
     (\<lambda>s'. Inr (u\<lparr>ou_outvc_state := (ou_outvc_state u)[nat vc := s']\<rparr>)))"

definition ou_decrement_credit :: "int \<Rightarrow> output_unit \<Rightarrow> output_unit res" where
  "ou_decrement_credit out_vc u = ou_modify u out_vc ovc_decrement_credit"

definition ou_increment_credit :: "int \<Rightarrow> output_unit \<Rightarrow> output_unit res" where
  "ou_increment_credit out_vc u = ou_modify u out_vc ovc_increment_credit"

definition ou_has_credit :: "cycles \<Rightarrow> int \<Rightarrow> output_unit \<Rightarrow> bool res" where
  "ou_has_credit now out_vc u =
     bnd (at (ou_outvc_state u) out_vc) (\<lambda>s.
     bnd (assert_that (ovc_isInState s ACTIVE now)) (\<lambda>_. Inr (ovc_has_credit s)))"

definition ou_set_vc_state :: "VC_state_type \<Rightarrow> int \<Rightarrow> cycles \<Rightarrow> output_unit \<Rightarrow> output_unit res" where
  "ou_set_vc_state state vc curTime u = ou_modify u vc (\<lambda>s. Inr (ovc_setState state curTime s))"

definition ou_is_vc_idle :: "output_unit \<Rightarrow> int \<Rightarrow> cycles \<Rightarrow> bool res" where
  "ou_is_vc_idle u vc curTime =
     bnd (at (ou_outvc_state u) vc) (\<lambda>s. Inr (ovc_isInState s IDLE curTime))"

definition vnet_vcs :: "nat \<Rightarrow> nat \<Rightarrow> nat list" where
  "vnet_vcs vc_per_vnet vnet = [vnet * vc_per_vnet..<vnet * vc_per_vnet + vc_per_vnet]"

definition ou_getNumFreeVCs :: "cycles \<Rightarrow> nat \<Rightarrow> output_unit \<Rightarrow> int res" where
  "ou_getNumFreeVCs now vnet u =
     foldM (\<lambda>vc freeVC. bnd (ou_is_vc_idle u (int vc) now) (\<lambda>b. Inr (if b then freeVC + 1 else freeVC)))
       (vnet_vcs (ou_vc_per_vnet u) vnet) 0"

fun ou_scan_idle :: "output_unit \<Rightarrow> cycles \<Rightarrow> nat list \<Rightarrow> nat option res" where
  "ou_scan_idle u now [] = Inr None"
| "ou_scan_idle u now (vc # vcs) =
     bnd (ou_is_vc_idle u (int vc) now) (\<lambda>b. if b then Inr (Some vc) else ou_scan_idle u now vcs)"

definition ou_has_free_vc :: "cycles \<Rightarrow> nat \<Rightarrow> output_unit \<Rightarrow> bool res" where
  "ou_has_free_vc now vnet u =
     bnd (ou_scan_idle u now (vnet_vcs (ou_vc_per_vnet u) vnet)) (\<lambda>r. Inr (r \<noteq> None))"

definition ou_select_free_vc :: "cycles \<Rightarrow> nat \<Rightarrow> output_unit \<Rightarrow> (int \<times> output_unit) res" where
  "ou_select_free_vc now vnet u =
     bnd (ou_scan_idle u now (vnet_vcs (ou_vc_per_vnet u) vnet)) (\<lambda>r.
     (case r of
        Some vc \<Rightarrow> bnd (ou_modify u (int vc) (\<lambda>s. Inr (ovc_setState ACTIVE now s))) (\<lambda>u'. Inr (int vc, u'))
      | None \<Rightarrow> Inr (-1, u)))"

text \<open>Reads at most one credit from the credit link. Returns the unit and the credit link.\<close>

definition OutputUnit_wakeup ::
    "cycles \<Rightarrow> output_unit \<Rightarrow> credit_link \<Rightarrow> (output_unit \<times> credit_link) res" where
  "OutputUnit_wakeup now u cl =
     (if isReady (nl_linkBuffer cl) now then
        bnd (getTopFlit (nl_linkBuffer cl)) (\<lambda>(t_credit, b).
        bnd (ou_increment_credit (fl_vc t_credit) u) (\<lambda>u1.
        bnd (if cr_is_free_signal t_credit then ou_set_vc_state IDLE (fl_vc t_credit) now u1
             else Inr u1) (\<lambda>u2.
        Inr (u2, cl\<lparr>nl_linkBuffer := b\<rparr>))))
      else Inr (u, cl))"

text \<open>Hands a flit to the out link, which is woken up in the next cycle.\<close>

definition ou_insert_flit :: "cycles \<Rightarrow> flit \<Rightarrow> output_unit \<Rightarrow> output_unit \<times> event_req list" where
  "ou_insert_flit now t_flit u =
     (u\<lparr>ou_out_buffer := insert_flit t_flit (ou_out_buffer u)\<rparr>,
      [(NetLinkConsumer (ou_out_link u), now + 1)])"

definition ou_functionalWrite :: "(msg_ptr \<Rightarrow> bool) \<Rightarrow> output_unit \<Rightarrow> nat" where
  "ou_functionalWrite fw u = flitBuffer_functionalWrite fw (ou_out_buffer u)"

section \<open>Input ports keep their flits\<close>

lemma iu_modify_Inr:
  "iu_modify u vc f = Inr u' \<longleftrightarrow>
     0 \<le> vc \<and> nat vc < length (iu_vcs u) \<and> u' = u\<lparr>iu_vcs := (iu_vcs u)[nat vc := f (iu_vcs u ! nat vc)]\<rparr>"
  by (auto simp: iu_modify_def bnd_eq_Inr at_eq_Inr)

lemma iu_modify_tags:
  assumes "iu_modify u vc f = Inr u'" and "\<And>v. vc_tags (f v) = vc_tags v"
  shows "input_tags u' = input_tags u"
  using assms by (auto simp: iu_modify_Inr input_tags_def contents_update_same)

lemma vc_tags_simps [simp]:
  "vc_tags (vc_set_idle t v) = vc_tags v"
  "vc_tags (vc_set_active t v) = vc_tags v"
  "vc_tags (v\<lparr>vc_output_vc := x\<rparr>) = vc_tags v"
  "vc_tags (vc_insertFlit f v) = add_mset (flit_tag_of f) (vc_tags v)"
  by (simp_all add: vc_tags_def vc_set_idle_def vc_set_active_def vc_insertFlit_def)

lemma iu_set_vc_idle_tags: "iu_set_vc_idle vc t u = Inr u' \<Longrightarrow> input_tags u' = input_tags u"
  unfolding iu_set_vc_idle_def by (erule iu_modify_tags) simp

lemma iu_set_vc_active_tags: "iu_set_vc_active vc t u = Inr u' \<Longrightarrow> input_tags u' = input_tags u"
  unfolding iu_set_vc_active_def by (erule iu_modify_tags) simp

lemma iu_grant_outvc_tags: "iu_grant_outvc vc x u = Inr u' \<Longrightarrow> input_tags u' = input_tags u"
  unfolding iu_grant_outvc_def by (erule iu_modify_tags) simp

lemma iu_update_top_tags:
  assumes "iu_modify u vc (vc_update_top g) = Inr u'" and "\<And>f. flit_tag_of (g f) = flit_tag_of f"
  shows "input_tags u' = input_tags u"
  using assms(1) by (rule iu_modify_tags)
    (simp add: vc_tags_def vc_update_top_def buffer_tags_update_top assms(2))

lemma iu_increment_credit_tags [simp]:
  "input_tags (fst (iu_increment_credit raw vc b t u)) = input_tags u"
  by (simp add: iu_increment_credit_def input_tags_def)

lemma vc_getTopFlit_tags:
  "vc_getTopFlit v = Inr (f, v') \<Longrightarrow> add_mset (flit_tag_of f) (vc_tags v') = vc_tags v"
  by (auto simp: vc_getTopFlit_def vc_tags_def dest: buffer_tags_take)

lemma iu_getTopFlit_Inr:
  "iu_getTopFlit u vc = Inr (f, u') \<longleftrightarrow>
     (\<exists>v'. 0 \<le> vc \<and> nat vc < length (iu_vcs u) \<and> vc_getTopFlit (iu_vcs u ! nat vc) = Inr (f, v') \<and>
        u' = u\<lparr>iu_vcs := (iu_vcs u)[nat vc := v']\<rparr>)"
  by (auto simp: iu_getTopFlit_def bnd_eq_Inr at_eq_Inr split: prod.splits)

lemma iu_getTopFlit_tags:
  assumes "iu_getTopFlit u vc = Inr (f, u')"
  shows "add_mset (flit_tag_of f) (input_tags u') = input_tags u"
  using assms vc_getTopFlit_tags
  by (fastforce simp: iu_getTopFlit_Inr input_tags_def intro!: contents_update_remove)

section \<open>Free output channels\<close>

definition vc_free :: "output_unit \<Rightarrow> cycles \<Rightarrow> nat \<Rightarrow> bool" where
  "vc_free u now vc = ovc_isInState (ou_outvc_state u ! vc) IDLE now"

lemma ou_is_vc_idle_nat:
  "vc < length (ou_outvc_state u) \<Longrightarrow> ou_is_vc_idle u (int vc) now = Inr (vc_free u now vc)"
  by (simp add: ou_is_vc_idle_def vc_free_def)

lemma ou_scan_idle_find:
  "\<forall>vc \<in> set vcs. vc < length (ou_outvc_state u) \<Longrightarrow>
     ou_scan_idle u now vcs = Inr (find (vc_free u now) vcs)"
  by (induction vcs) (auto simp: ou_is_vc_idle_nat)

lemma ou_free_count:
  "\<forall>vc \<in> set vcs. vc < length (ou_outvc_state u) \<Longrightarrow>
     foldM (\<lambda>vc n. bnd (ou_is_vc_idle u (int vc) now) (\<lambda>b. Inr (if b then n + 1 else n))) vcs n
       = Inr (n + int (length (filter (vc_free u now) vcs)))"
  by (induction vcs arbitrary: n) (auto simp: ou_is_vc_idle_nat)

text \<open>A virtual network whose channels are all within the state vector.\<close>

definition vnet_ok :: "output_unit \<Rightarrow> nat \<Rightarrow> bool" where
  "vnet_ok u vnet = (vnet * ou_vc_per_vnet u + ou_vc_per_vnet u \<le> length (ou_outvc_state u))"

lemma vnet_ok_range:
  "vnet_ok u vnet \<Longrightarrow> \<forall>vc \<in> set (vnet_vcs (ou_vc_per_vnet u) vnet). vc < length (ou_outvc_state u)"
  by (auto simp: vnet_ok_def vnet_vcs_def)

lemma ou_has_free_vc_iff:
  "vnet_ok u vnet \<Longrightarrow>
     ou_has_free_vc now vnet u = Inr (\<exists>vc \<in> set (vnet_vcs (ou_vc_per_vnet u) vnet). vc_free u now vc)"
  using find_None_iff [of "vc_free u now" "vnet_vcs (ou_vc_per_vnet u) vnet"] vnet_ok_range [of u vnet]
  by (simp add: ou_has_free_vc_def ou_scan_idle_find del: not_None_eq) blast

lemma ou_getNumFreeVCs_eq:
  "vnet_ok u vnet \<Longrightarrow> ou_getNumFreeVCs now vnet u =
     Inr (int (card {vc \<in> set (vnet_vcs (ou_vc_per_vnet u) vnet). vc_free u now vc}))"
  using vnet_ok_range
  by (simp add: ou_getNumFreeVCs_def ou_free_count distinct_length_filter vnet_vcs_def Int_def conj_commute)

lemma find_upt_least:
  assumes "find P [a..<b] = Some i"
  shows "a \<le> i" "i < b" "P i" "\<And>j. a \<le> j \<Longrightarrow> j < i \<Longrightarrow> \<not> P j"
proof -
  from assms obtain k where k: "k < length [a..<b]" "P ([a..<b] ! k)" "i = [a..<b] ! k"
    "\<forall>j<k. \<not> P ([a..<b] ! j)" by (auto simp: find_Some_iff)
  then show "a \<le> i" "i < b" "P i" by auto
  fix j assume j: "a \<le> j" "j < i"
  with k have "j - a < k" by auto
  with k(4) have "\<not> P ([a..<b] ! (j - a))" by blast
  then show "\<not> P j" using j k \<open>i < b\<close> by simp
qed

lemma ou_select_free_vc_Some:
  assumes "vnet_ok u vnet" and "ou_select_free_vc now vnet u = Inr (vc, u')" and "vc \<noteq> -1"
  shows "0 \<le> vc" and "nat vc \<in> set (vnet_vcs (ou_vc_per_vnet u) vnet)" and "vc_free u now (nat vc)"
    and "\<And>j. j \<in> set (vnet_vcs (ou_vc_per_vnet u) vnet) \<Longrightarrow> j < nat vc \<Longrightarrow> \<not> vc_free u now j"
    and "u' = u\<lparr>ou_outvc_state := (ou_outvc_state u)
               [nat vc := ovc_setState ACTIVE now (ou_outvc_state u ! nat vc)]\<rparr>"
proof -
  obtain i where i: "find (vc_free u now) (vnet_vcs (ou_vc_per_vnet u) vnet) = Some i" "vc = int i"
    using assms vnet_ok_range [OF assms(1)]
    by (auto simp: ou_select_free_vc_def ou_scan_idle_find split: option.splits)
  note least = find_upt_least [OF i(1) [unfolded vnet_vcs_def]]
  show "0 \<le> vc" and "nat vc \<in> set (vnet_vcs (ou_vc_per_vnet u) vnet)" and "vc_free u now (nat vc)"
    using least i by (auto simp: vnet_vcs_def)
  show "\<not> vc_free u now j" if "j \<in> set (vnet_vcs (ou_vc_per_vnet u) vnet)" "j < nat vc" for j
    using least(4) [of j] that i by (auto simp: vnet_vcs_def)
  have "i < length (ou_outvc_state u)" using least(1,2) assms(1) by (auto simp: vnet_ok_def)
  then show "u' = u\<lparr>ou_outvc_state := (ou_outvc_state u)
      [nat vc := ovc_setState ACTIVE now (ou_outvc_state u ! nat vc)]\<rparr>"
    using assms vnet_ok_range [OF assms(1)] i
    by (auto simp: ou_select_free_vc_def ou_scan_idle_find ou_modify_def)
qed

lemma ou_select_free_vc_None:
  assumes "vnet_ok u vnet"
  shows "ou_select_free_vc now vnet u = Inr (-1, u) \<longleftrightarrow> ou_has_free_vc now vnet u = Inr False"
  using vnet_ok_range [OF assms]
  by (auto simp: ou_select_free_vc_def ou_has_free_vc_def ou_scan_idle_find ou_modify_def
      bnd_eq_Inr split: option.splits)

section \<open>Credits at an output port\<close>

definition ou_inv :: "output_unit \<Rightarrow> bool" where
  "ou_inv u = list_all credit_inv (ou_outvc_state u)"

lemma ou_modify_Inr:
  "ou_modify u vc f = Inr u' \<longleftrightarrow>
     (\<exists>s'. 0 \<le> vc \<and> nat vc < length (ou_outvc_state u) \<and> f (ou_outvc_state u ! nat vc) = Inr s' \<and>
        u' = u\<lparr>ou_outvc_state := (ou_outvc_state u)[nat vc := s']\<rparr>)"
  by (auto simp: ou_modify_def bnd_eq_Inr at_eq_Inr)

lemma ou_modify_inv:
  assumes "ou_modify u vc f = Inr u'" and "ou_inv u"
    and "\<And>s s'. f s = Inr s' \<Longrightarrow> credit_inv s \<Longrightarrow> credit_inv s'"
  shows "ou_inv u'"
proof -
  from assms(1) obtain s' where s': "f (ou_outvc_state u ! nat vc) = Inr s'" "nat vc < length (ou_outvc_state u)"
    "u' = u\<lparr>ou_outvc_state := (ou_outvc_state u)[nat vc := s']\<rparr>" by (auto simp: ou_modify_Inr)
  have "credit_inv s'" using assms(2,3) s' by (auto simp: ou_inv_def list_all_length)
  then show ?thesis using assms(2) s' by (auto simp: ou_inv_def list_all_length nth_list_update)
qed

lemma ou_ops_inv:
  "ou_inv u \<Longrightarrow> ou_decrement_credit vc u = Inr u' \<Longrightarrow> ou_inv u'"
  "ou_inv u \<Longrightarrow> ou_increment_credit vc u = Inr u' \<Longrightarrow> ou_inv u'"
  "ou_inv u \<Longrightarrow> ou_set_vc_state st vc t u = Inr u' \<Longrightarrow> ou_inv u'"
  using ovc_apply_inv [of OvcDecrement] ovc_apply_inv [of OvcIncrement] ovc_apply_inv [of "OvcSet st t"]
  by (auto simp: ou_decrement_credit_def ou_increment_credit_def ou_set_vc_state_def elim!: ou_modify_inv)

lemma ou_select_free_vc_inv:
  assumes "ou_select_free_vc now vnet u = Inr (vc, u')" and "ou_inv u"
  shows "ou_inv u'"
  using assms ou_ops_inv(3) [of u ACTIVE _ now]
  by (auto simp: ou_select_free_vc_def ou_set_vc_state_def split: option.splits)

lemma OutputUnit_wakeup_inv:
  assumes "OutputUnit_wakeup now u cl = Inr (u', cl')" and "ou_inv u"
  shows "ou_inv u'"
proof (cases "isReady (nl_linkBuffer cl) now")
  case True
  with assms(1) obtain c :: credit and u1 where u1: "ou_increment_credit (fl_vc c) u = Inr u1"
    and u': "(if cr_is_free_signal c then ou_set_vc_state IDLE (fl_vc c) now u1 else Inr u1) = Inr u'"
    by (auto simp: OutputUnit_wakeup_def)
  have "ou_inv u1" using assms(2) u1 by (rule ou_ops_inv(2))
  then show ?thesis using u' ou_ops_inv(3) by (auto split: if_splits)
qed (use assms in \<open>simp add: OutputUnit_wakeup_def\<close>)

end
