(* ===== verification/Routing_Unit.thy ===== *)
theory Routing_Unit
  imports Port_Units "HOL-Library.Signed_Division"
begin

text \<open>
  \<open>RoutingUnit\<close> (src/gem5/src/mem/ruby/network/garnet2.0/RoutingUnit.cc): the routing table, the maps
  between ports and directions, and the routing algorithms, with the functions of \<open>GarnetNetwork\<close>
  and \<open>Router\<close> they call to look at a neighbour. \<open>std::map::operator[]\<close> on a missing key inserts 0:
  \<open>map_index\<close> does the same, so routing changes the maps. C++ integer division truncates:
  \<open>sdiv\<close> and \<open>smod\<close>. \<open>random()\<close> reads the next value of the stream \<open>gn_random\<close>.

  The mesh algorithms first compute the same distances and flags (\<open>mesh_delta_of\<close>) and then pick
  a direction; the choice alone is \<open>XY_dirn\<close>, \<open>random_dirn\<close>, \<open>adapt_rand_dirn\<close>, \<open>west_first_dirn\<close> and
  \<open>adapt_west_first_dirn\<close>. Locale \<open>minimal_choice\<close> is their contract: the direction is productive.
  From it follow, once for all of them, that each hop brings the packet one hop closer and that
  the packet arrives after exactly as many hops as the Manhattan distance.
\<close>

section \<open>Tables and port maps\<close>

definition RoutingUnit_new :: routing_unit where
  "RoutingUnit_new = \<lparr>ru_inports_dirn2idx = Map.empty, ru_inports_idx2dirn = Map.empty,
     ru_outports_idx2dirn = Map.empty, ru_outports_dirn2idx = Map.empty,
     ru_routing_table = [], ru_weight_table = []\<rparr>"

definition addRoute :: "net_dest \<Rightarrow> routing_unit \<Rightarrow> routing_unit" where
  "addRoute entry ru = ru\<lparr>ru_routing_table := ru_routing_table ru @ [entry]\<rparr>"

definition addWeight :: "int \<Rightarrow> routing_unit \<Rightarrow> routing_unit" where
  "addWeight link_weight ru = ru\<lparr>ru_weight_table := ru_weight_table ru @ [link_weight]\<rparr>"

definition addInDirection :: "port_direction \<Rightarrow> int \<Rightarrow> routing_unit \<Rightarrow> routing_unit" where
  "addInDirection inport_dirn inport_idx ru =
     ru\<lparr>ru_inports_dirn2idx := (ru_inports_dirn2idx ru)(inport_dirn \<mapsto> inport_idx),
        ru_inports_idx2dirn := (ru_inports_idx2dirn ru)(inport_idx \<mapsto> inport_dirn)\<rparr>"

definition addOutDirection :: "port_direction \<Rightarrow> int \<Rightarrow> routing_unit \<Rightarrow> routing_unit" where
  "addOutDirection outport_dirn outport_idx ru =
     ru\<lparr>ru_outports_dirn2idx := (ru_outports_dirn2idx ru)(outport_dirn \<mapsto> outport_idx),
        ru_outports_idx2dirn := (ru_outports_idx2dirn ru)(outport_idx \<mapsto> outport_dirn)\<rparr>"

definition map_index :: "('k \<rightharpoonup> int) \<Rightarrow> 'k \<Rightarrow> int \<times> ('k \<rightharpoonup> int)" where
  "map_index m k = (case m k of Some i \<Rightarrow> (i, m) | None \<Rightarrow> (0, m(k \<mapsto> 0)))"

section \<open>Table routing\<close>

definition min_weight_step :: "routing_unit \<Rightarrow> net_dest \<Rightarrow> nat \<Rightarrow> int \<Rightarrow> int res" where
  "min_weight_step ru dest link min_weight =
     bnd (NetDest_intersectionIsNotEmpty dest (ru_routing_table ru ! link)) (\<lambda>hit.
     if hit then bnd (at (ru_weight_table ru) (int link)) (\<lambda>w.
       Inr (if w \<le> min_weight then w else min_weight))
     else Inr min_weight)"

definition candidate_step ::
    "routing_unit \<Rightarrow> net_dest \<Rightarrow> int \<Rightarrow> nat \<Rightarrow> nat list \<Rightarrow> nat list res" where
  "candidate_step ru dest min_weight link cands =
     bnd (NetDest_intersectionIsNotEmpty dest (ru_routing_table ru ! link)) (\<lambda>hit.
     if hit then bnd (at (ru_weight_table ru) (int link)) (\<lambda>w.
       Inr (if w = min_weight then cands @ [link] else cands))
     else Inr cands)"

definition lookupRoutingTable_pref_outport :: "routing_unit \<Rightarrow> net_dest \<Rightarrow> nat list res" where
  "lookupRoutingTable_pref_outport ru msg_destination =
     bnd (foldM (min_weight_step ru msg_destination) [0..<length (ru_routing_table ru)] (int INFINITE))
       (\<lambda>min_weight.
     bnd (foldM (candidate_step ru msg_destination min_weight) [0..<length (ru_routing_table ru)] [])
       (\<lambda>output_link_candidates.
     if output_link_candidates = [] then Inl (Fatal ''No Route exists from this Router.'')
     else Inr output_link_candidates))"

fun max_index :: "int list \<Rightarrow> nat \<Rightarrow> int \<Rightarrow> int \<Rightarrow> int" where
  "max_index [] i mx candidate = candidate"
| "max_index (c # cs) i mx candidate =
     (if mx < c then max_index cs (Suc i) c (int i) else max_index cs (Suc i) mx candidate)"

definition lookupRoutingTable ::
    "cycles \<Rightarrow> routing_unit \<Rightarrow> output_unit list \<Rightarrow> int \<Rightarrow> net_dest \<Rightarrow> int res" where
  "lookupRoutingTable now ru outs vnet msg_destination =
     bnd (lookupRoutingTable_pref_outport ru msg_destination) (\<lambda>output_link_candidates.
     bnd (traverse (\<lambda>outport_id. bnd (at outs (int outport_id)) (\<lambda>u.
              if vnet < 0 then Inl OutOfRange else ou_getNumFreeVCs now (nat vnet) u))
            output_link_candidates) (\<lambda>outport_credit_index.
     bnd (at output_link_candidates (max_index outport_credit_index 0 (-1) (-1))) (\<lambda>output_link.
     Inr (int output_link))))"

section \<open>Neighbours\<close>

definition get_upstreamId :: "garnet_config \<Rightarrow> port_direction \<Rightarrow> int \<Rightarrow> int res" where
  "get_upstreamId C inport_dir my_id =
     (if inport_dir = ''East'' then Inr (my_id + 1)
      else if inport_dir = ''West'' then Inr (my_id - 1)
      else if inport_dir = ''North'' then Inr (my_id + nc_num_cols C)
      else if inport_dir = ''South'' then Inr (my_id - nc_num_cols C)
      else if inport_dir = ''Local'' then Inr my_id
      else Inl AssertFail)"

text \<open>The index of the neighbouring router, \<open>None\<close> for \<open>NULL\<close>.\<close>

definition get_upstreamrouter ::
    "garnet_network \<Rightarrow> port_direction \<Rightarrow> int \<Rightarrow> nat option res" where
  "get_upstreamrouter net inport_dir upstream_id =
     bnd (get_upstreamId (gn_config net) inport_dir upstream_id) (\<lambda>router_id.
     Inr (if router_id < 0 \<or> int (length (gn_routers net)) \<le> router_id then None
          else Some (nat router_id)))"

definition get_upstreamOutportDirn :: "port_direction \<Rightarrow> port_direction res" where
  "get_upstreamOutportDirn inport_dir =
     (if inport_dir = ''East'' then Inr ''West''
      else if inport_dir = ''West'' then Inr ''East''
      else if inport_dir = ''North'' then Inr ''South''
      else if inport_dir = ''South'' then Inr ''North''
      else if inport_dir = ''Local'' then Inl AssertFail
      else Inr '''')"

definition Router_get_numFreeVC :: "port_direction \<Rightarrow> router \<Rightarrow> (int \<times> router) res" where
  "Router_get_numFreeVC dirn r =
     bnd (assert_that (dirn \<noteq> ''Local'')) (\<lambda>_.
     let (inport_id, m) = map_index (ru_inports_dirn2idx (r_routing_unit r)) dirn;
         r' = r\<lparr>r_routing_unit := (r_routing_unit r)\<lparr>ru_inports_dirn2idx := m\<rparr>\<rparr>
     in bnd (at (r_input_unit r) inport_id) (\<lambda>u.
        bnd (iu_get_numFreeVC u dirn) (\<lambda>n. Inr (n, r'))))"

text \<open>\<open>get_upstreamrouter(dirn, id)->get_numFreeVC(from)\<close> for the router at position \<open>rid\<close>.\<close>

definition neighbour_free ::
    "garnet_network \<Rightarrow> nat \<Rightarrow> port_direction \<Rightarrow> port_direction \<Rightarrow> (int \<times> garnet_network) res" where
  "neighbour_free net rid dirn from_dirn =
     bnd (get_router net (int rid)) (\<lambda>r.
     bnd (get_upstreamrouter net dirn (int (r_id r))) (\<lambda>nb.
     (case nb of
        None \<Rightarrow> Inl NullPointer
      | Some i \<Rightarrow> bnd (Router_get_numFreeVC from_dirn (gn_routers net ! i)) (\<lambda>(n, r').
          Inr (n, put_router net i r')))))"

definition numFreeVC :: "garnet_network \<Rightarrow> nat \<Rightarrow> port_direction \<Rightarrow> (int \<times> garnet_network) res" where
  "numFreeVC net rid dirn =
     bnd (get_router net (int rid)) (\<lambda>r.
     bnd (get_upstreamrouter net dirn (int (r_id r))) (\<lambda>nb.
     (case nb of
        None \<Rightarrow> Inr (0, net)
      | Some _ \<Rightarrow>
          if dirn = ''North'' then neighbour_free net rid dirn ''South''
          else if dirn = ''East'' then neighbour_free net rid dirn ''West''
          else if dirn = ''West'' then neighbour_free net rid dirn ''East''
          else if dirn = ''South'' then neighbour_free net rid dirn ''North''
          else Inl AssertFail)))"

section \<open>Mesh routing\<close>

text \<open>\<open>(x_hops, y_hops, x_dirn, y_dirn)\<close> of the C++ functions.\<close>

type_synonym mesh_delta = "int \<times> int \<times> bool \<times> bool"

definition mesh_delta_of :: "garnet_config \<Rightarrow> int \<Rightarrow> int \<Rightarrow> mesh_delta res" where
  "mesh_delta_of C my_id dest_id =
     bnd (assert_that (0 < nc_num_rows C \<and> 0 < nc_num_cols C)) (\<lambda>_.
     let my_x = my_id smod nc_num_cols C; my_y = my_id sdiv nc_num_cols C;
         dest_x = dest_id smod nc_num_cols C; dest_y = dest_id sdiv nc_num_cols C;
         x_hops = \<bar>dest_x - my_x\<bar>; y_hops = \<bar>dest_y - my_y\<bar>
     in bnd (assert_that (\<not> (x_hops = 0 \<and> y_hops = 0))) (\<lambda>_.
        Inr (x_hops, y_hops, my_x \<le> dest_x, my_y \<le> dest_y)))"

fun XY_dirn :: "mesh_delta \<Rightarrow> port_direction" where
  "XY_dirn (x_hops, y_hops, x_dirn, y_dirn) =
     (if 0 < x_hops then (if x_dirn then ''East'' else ''West'')
      else if 0 < y_hops then (if y_dirn then ''North'' else ''South'')
      else ''Unknown'')"

fun random_dirn :: "bool \<Rightarrow> mesh_delta \<Rightarrow> port_direction" where
  "random_dirn rnd (x_hops, y_hops, x_dirn, y_dirn) =
     (if x_hops = 0 then (if y_dirn then ''North'' else ''South'')
      else if y_hops = 0 then (if x_dirn then ''East'' else ''West'')
      else if x_dirn \<and> y_dirn then (if rnd then ''East'' else ''North'')
      else if \<not> x_dirn \<and> y_dirn then (if rnd then ''West'' else ''North'')
      else if \<not> x_dirn \<and> \<not> y_dirn then (if rnd then ''West'' else ''South'')
      else (if rnd then ''East'' else ''South''))"

text \<open>\<open>fx\<close> and \<open>fy\<close> are the free channels of the neighbour in the x and in the y direction.\<close>

definition more_free :: "int \<Rightarrow> int \<Rightarrow> bool \<Rightarrow> port_direction \<Rightarrow> port_direction \<Rightarrow> port_direction" where
  "more_free fx fy rnd xd yd = (if fy < fx then xd else if fx < fy then yd else if rnd then xd else yd)"

fun adapt_rand_dirn :: "int \<Rightarrow> int \<Rightarrow> bool \<Rightarrow> mesh_delta \<Rightarrow> port_direction" where
  "adapt_rand_dirn fx fy rnd (x_hops, y_hops, x_dirn, y_dirn) =
     (if x_hops = 0 then (if y_dirn then ''North'' else ''South'')
      else if y_hops = 0 then (if x_dirn then ''East'' else ''West'')
      else if x_dirn \<and> y_dirn then more_free fx fy rnd ''East'' ''North''
      else if \<not> x_dirn \<and> y_dirn then more_free fx fy rnd ''West'' ''North''
      else if \<not> x_dirn \<and> \<not> y_dirn then more_free fx fy rnd ''West'' ''South''
      else more_free fx fy rnd ''East'' ''South'')"

fun west_first_dirn :: "bool \<Rightarrow> mesh_delta \<Rightarrow> port_direction" where
  "west_first_dirn rnd (x_hops, y_hops, x_dirn, y_dirn) =
     (if x_hops = 0 then (if y_dirn then ''North'' else ''South'')
      else if y_hops = 0 then (if x_dirn then ''East'' else ''West'')
      else if \<not> x_dirn then ''West''
      else if y_dirn then (if rnd then ''East'' else ''North'')
      else (if rnd then ''East'' else ''South''))"

fun adapt_west_first_dirn :: "int \<Rightarrow> int \<Rightarrow> bool \<Rightarrow> mesh_delta \<Rightarrow> port_direction" where
  "adapt_west_first_dirn fx fy rnd (x_hops, y_hops, x_dirn, y_dirn) =
     (if x_hops = 0 then (if y_dirn then ''North'' else ''South'')
      else if y_hops = 0 then (if x_dirn then ''East'' else ''West'')
      else if \<not> x_dirn then ''West''
      else if y_dirn then more_free fx fy rnd ''East'' ''North''
      else more_free fx fy rnd ''East'' ''South'')"

text \<open>\<open>return m_outports_dirn2idx[outport_dirn]\<close>, which may insert the direction.\<close>

definition outport_of_dirn ::
    "garnet_network \<Rightarrow> nat \<Rightarrow> port_direction \<Rightarrow> (int \<times> garnet_network) res" where
  "outport_of_dirn net rid dirn =
     bnd (get_router net (int rid)) (\<lambda>r.
     let (i, m) = map_index (ru_outports_dirn2idx (r_routing_unit r)) dirn
     in Inr (i, put_router net rid (r\<lparr>r_routing_unit := (r_routing_unit r)\<lparr>ru_outports_dirn2idx := m\<rparr>\<rparr>)))"

definition mesh_delta_at :: "garnet_network \<Rightarrow> nat \<Rightarrow> RouteInfo \<Rightarrow> mesh_delta res" where
  "mesh_delta_at net rid route =
     bnd (get_router net (int rid)) (\<lambda>r. mesh_delta_of (gn_config net) (int (r_id r)) (ri_dest_router route))"

definition outportComputeXY ::
    "garnet_network \<Rightarrow> nat \<Rightarrow> RouteInfo \<Rightarrow> (int \<times> garnet_network) res" where
  "outportComputeXY net rid route =
     bnd (mesh_delta_at net rid route) (\<lambda>d. outport_of_dirn net rid (XY_dirn d))"

text \<open>\<open>random() % 2\<close> is drawn only when both distances are positive.\<close>

definition outportComputeRandom ::
    "garnet_network \<Rightarrow> nat \<Rightarrow> RouteInfo \<Rightarrow> (int \<times> garnet_network) res" where
  "outportComputeRandom net rid route =
     bnd (mesh_delta_at net rid route) (\<lambda>(x_hops, y_hops, x_dirn, y_dirn).
     let (rnd, net') = (if x_hops = 0 \<or> y_hops = 0 then (0, net) else next_random net)
     in outport_of_dirn net' rid (random_dirn (rnd mod 2 \<noteq> 0) (x_hops, y_hops, x_dirn, y_dirn)))"

definition outportComputeAdaptRand ::
    "garnet_network \<Rightarrow> nat \<Rightarrow> RouteInfo \<Rightarrow> (int \<times> garnet_network) res" where
  "outportComputeAdaptRand net rid route =
     bnd (mesh_delta_at net rid route) (\<lambda>(x_hops, y_hops, x_dirn, y_dirn).
     if x_hops = 0 \<or> y_hops = 0
     then outport_of_dirn net rid (adapt_rand_dirn 0 0 False (x_hops, y_hops, x_dirn, y_dirn))
     else
       let (rnd, net1) = next_random net in
       bnd (if x_dirn then neighbour_free net1 rid ''East'' ''West''
            else neighbour_free net1 rid ''West'' ''East'') (\<lambda>(fx, net2).
       bnd (if y_dirn then neighbour_free net2 rid ''North'' ''South''
            else neighbour_free net2 rid ''South'' ''North'') (\<lambda>(fy, net3).
       outport_of_dirn net3 rid (adapt_rand_dirn fx fy (rnd mod 2 \<noteq> 0) (x_hops, y_hops, x_dirn, y_dirn)))))"

definition outportComputeWestFirst ::
    "garnet_network \<Rightarrow> nat \<Rightarrow> RouteInfo \<Rightarrow> (int \<times> garnet_network) res" where
  "outportComputeWestFirst net rid route =
     bnd (mesh_delta_at net rid route) (\<lambda>d.
     let (rnd, net') = next_random net
     in outport_of_dirn net' rid (west_first_dirn (rnd mod 2 \<noteq> 0) d))"

definition outportComputeAdaptWestFirst ::
    "garnet_network \<Rightarrow> nat \<Rightarrow> RouteInfo \<Rightarrow> (int \<times> garnet_network) res" where
  "outportComputeAdaptWestFirst net rid route =
     bnd (mesh_delta_at net rid route) (\<lambda>(x_hops, y_hops, x_dirn, y_dirn).
     let (rnd, net1) = next_random net in
     if x_hops = 0 \<or> y_hops = 0 \<or> \<not> x_dirn
     then outport_of_dirn net1 rid
            (adapt_west_first_dirn 0 0 (rnd mod 2 \<noteq> 0) (x_hops, y_hops, x_dirn, y_dirn))
     else
       bnd (neighbour_free net1 rid ''East'' ''West'') (\<lambda>(fx, net2).
       bnd (if y_dirn then neighbour_free net2 rid ''North'' ''South''
            else neighbour_free net2 rid ''South'' ''North'') (\<lambda>(fy, net3).
       outport_of_dirn net3 rid
         (adapt_west_first_dirn fx fy (rnd mod 2 \<noteq> 0) (x_hops, y_hops, x_dirn, y_dirn)))))"

definition outportComputeCustom ::
    "garnet_network \<Rightarrow> nat \<Rightarrow> RouteInfo \<Rightarrow> (int \<times> garnet_network) res" where
  "outportComputeCustom net rid route = Inl AssertFail"

definition routing_algorithm_of :: "int \<Rightarrow> RoutingAlgorithm" where
  "routing_algorithm_of n =
     (if n = 0 then TABLE else if n = 1 then XY else if n = 2 then RANDOM
      else if n = 3 then ADAPT_RAND else if n = 4 then WestFirst
      else if n = 5 then ADAPT_WestFirst else if n = 6 then CUSTOM
      else NUM_ROUTING_ALGORITHM)"

definition route_by_table ::
    "garnet_network \<Rightarrow> nat \<Rightarrow> RouteInfo \<Rightarrow> (int \<times> garnet_network) res" where
  "route_by_table net rid route =
     bnd (get_router net (int rid)) (\<lambda>r.
     bnd (lookupRoutingTable (gn_cycle net) (r_routing_unit r) (r_output_unit r) (ri_vnet route)
            (ri_net_dest route)) (\<lambda>outport. Inr (outport, net)))"

definition outportCompute ::
    "garnet_network \<Rightarrow> nat \<Rightarrow> RouteInfo \<Rightarrow> (int \<times> garnet_network) res" where
  "outportCompute net rid route =
     bnd (get_router net (int rid)) (\<lambda>r.
     if ri_dest_router route = int (r_id r) then route_by_table net rid route
     else
       bnd (case routing_algorithm_of (nc_routing_algorithm (gn_config net)) of
              TABLE \<Rightarrow> route_by_table net rid route
            | XY \<Rightarrow> outportComputeXY net rid route
            | RANDOM \<Rightarrow> outportComputeRandom net rid route
            | ADAPT_RAND \<Rightarrow> outportComputeAdaptRand net rid route
            | WestFirst \<Rightarrow> outportComputeWestFirst net rid route
            | ADAPT_WestFirst \<Rightarrow> outportComputeAdaptWestFirst net rid route
            | CUSTOM \<Rightarrow> outportComputeCustom net rid route
            | NUM_ROUTING_ALGORITHM \<Rightarrow> route_by_table net rid route) (\<lambda>(outport, net').
       bnd (assert_that (outport \<noteq> -1)) (\<lambda>_. Inr (outport, net'))))"

definition compute_hops_remaining :: "garnet_config \<Rightarrow> int \<Rightarrow> int \<Rightarrow> int" where
  "compute_hops_remaining C my_id dest_id =
     \<bar>dest_id smod nc_num_cols C - my_id smod nc_num_cols C\<bar> +
     \<bar>dest_id sdiv nc_num_cols C - my_id sdiv nc_num_cols C\<bar>"

section \<open>Mesh geometry\<close>

definition in_mesh :: "garnet_config \<Rightarrow> int \<Rightarrow> bool" where
  "in_mesh C i = (0 < nc_num_rows C \<and> 0 < nc_num_cols C \<and> 0 \<le> i \<and> i < nc_num_rows C * nc_num_cols C)"

lemma in_mesh_trunc:
  assumes "in_mesh C i"
  shows "i smod nc_num_cols C = i mod nc_num_cols C" and "i sdiv nc_num_cols C = i div nc_num_cols C"
  using assms by (auto simp: in_mesh_def signed_divide_int_def signed_modulo_int_def
      zdiv_int minus_div_mult_eq_mod sgn_if)

fun productive :: "mesh_delta \<Rightarrow> port_direction set" where
  "productive (x_hops, y_hops, x_dirn, y_dirn) =
     (if 0 < x_hops then {if x_dirn then ''East'' else ''West''} else {}) \<union>
     (if 0 < y_hops then {if y_dirn then ''North'' else ''South''} else {})"

lemma row_step:
  fixes i c :: int
  assumes "0 < c" "0 \<le> i mod c + d" "i mod c + d < c"
  shows "(i + d) mod c = i mod c + d" and "(i + d) div c = i div c"
proof -
  have e: "i + d = c * (i div c) + (i mod c + d)" by simp
  show "(i + d) div c = i div c"
    using int_div_pos_eq [OF e assms(2,3)] .
  show "(i + d) mod c = i mod c + d"
    using int_mod_pos_eq [OF e assms(2,3)] .
qed

lemma column_step:
  fixes i c :: int
  assumes "0 < c"
  shows "(i + c) div c = i div c + 1" and "(i - c) div c = i div c - 1"
    and "(i + c) mod c = i mod c" and "(i - c) mod c = i mod c"
proof -
  show "(i + c) div c = i div c + 1" using assms by (simp add: div_add_self2)
  have "(i - c + c) div c = (i - c) div c + 1" using assms by (intro div_add_self2) simp
  then show "(i - c) div c = i div c - 1" by simp
qed simp_all

lemma mesh_div_bound:
  assumes "in_mesh C i"
  shows "0 \<le> i div nc_num_cols C" "i div nc_num_cols C < nc_num_rows C"
    "0 \<le> i mod nc_num_cols C" "i mod nc_num_cols C < nc_num_cols C"
proof -
  have c: "0 < nc_num_cols C" and i: "0 \<le> i" "i < nc_num_rows C * nc_num_cols C"
    using assms by (auto simp: in_mesh_def)
  have "i div nc_num_cols C * nc_num_cols C \<le> i" using c by (simp add: minus_mod_eq_div_mult [symmetric])
  then have "i div nc_num_cols C * nc_num_cols C < nc_num_rows C * nc_num_cols C" using i by linarith
  then show "i div nc_num_cols C < nc_num_rows C" using c by (simp add: mult_less_cancel_right)
  show "0 \<le> i div nc_num_cols C" using c i by (simp add: pos_imp_zdiv_nonneg_iff)
qed (use assms in \<open>auto simp: in_mesh_def\<close>)

lemma in_mesh_coords:
  assumes "0 < nc_num_cols C" "0 \<le> y" "y < nc_num_rows C" "i div nc_num_cols C = y"
  shows "in_mesh C i"
proof -
  have "i = i div nc_num_cols C * nc_num_cols C + i mod nc_num_cols C" by simp
  also have "\<dots> < i div nc_num_cols C * nc_num_cols C + nc_num_cols C"
    using pos_mod_bound [OF assms(1), of i] by linarith
  also have "\<dots> = (y + 1) * nc_num_cols C" by (simp add: assms(4) distrib_right)
  also have "\<dots> \<le> nc_num_rows C * nc_num_cols C" using assms by (intro mult_right_mono) auto
  finally show ?thesis using assms pos_imp_zdiv_nonneg_iff [of "nc_num_cols C" i] by (auto simp: in_mesh_def)
qed

lemma mesh_delta_of_Inr:
  assumes "in_mesh C a" "in_mesh C b" "mesh_delta_of C a b = Inr d"
  shows "d = (\<bar>b mod nc_num_cols C - a mod nc_num_cols C\<bar>, \<bar>b div nc_num_cols C - a div nc_num_cols C\<bar>,
    a mod nc_num_cols C \<le> b mod nc_num_cols C, a div nc_num_cols C \<le> b div nc_num_cols C)"
  using assms by (auto simp: mesh_delta_of_def Let_def in_mesh_trunc)

lemma compute_hops_remaining_mesh:
  assumes "in_mesh C a" "in_mesh C b"
  shows "compute_hops_remaining C a b =
    \<bar>b mod nc_num_cols C - a mod nc_num_cols C\<bar> + \<bar>b div nc_num_cols C - a div nc_num_cols C\<bar>"
  using assms by (simp add: compute_hops_remaining_def in_mesh_trunc)

text \<open>A productive hop stays in the mesh and is one hop closer.\<close>

lemma productive_step:
  assumes m: "in_mesh C a" "in_mesh C b" and d: "mesh_delta_of C a b = Inr d" and p: "dirn \<in> productive d"
  shows "\<exists>n. get_upstreamId C dirn a = Inr n \<and> in_mesh C n \<and>
    compute_hops_remaining C n b = compute_hops_remaining C a b - 1"
proof -
  let ?c = "nc_num_cols C"
  have c: "0 < ?c" using m(1) by (simp add: in_mesh_def)
  note bounds = mesh_div_bound [OF m(1)] mesh_div_bound [OF m(2)]
  note dd = mesh_delta_of_Inr [OF m d]
  have near: ?thesis if n: "get_upstreamId C dirn a = Inr n" and x: "n mod ?c = a mod ?c + dx" "0 \<le> a mod ?c + dx"
      and y: "n div ?c = a div ?c + dy" "0 \<le> a div ?c + dy" "a div ?c + dy < nc_num_rows C"
      and close: "\<bar>b mod ?c - (a mod ?c + dx)\<bar> + \<bar>b div ?c - (a div ?c + dy)\<bar> =
        \<bar>b mod ?c - a mod ?c\<bar> + \<bar>b div ?c - a div ?c\<bar> - 1" for n dx dy
  proof -
    have "in_mesh C n" using in_mesh_coords [OF c y(2,3)] y(1) by simp
    then show ?thesis using n x y close m compute_hops_remaining_mesh by auto
  qed
  from p dd consider "dirn = ''East''" "a mod ?c < b mod ?c" | "dirn = ''West''" "b mod ?c < a mod ?c"
    | "dirn = ''North''" "a div ?c < b div ?c" | "dirn = ''South''" "b div ?c < a div ?c"
    by (auto split: if_splits)
  then show ?thesis
  proof cases
    case 1
    then show ?thesis using row_step [OF c, of a 1] bounds
      by (intro near [of "a + 1" 1 0]) (auto simp: get_upstreamId_def)
  next
    case 2
    then show ?thesis using row_step [OF c, of a "-1"] bounds
      by (intro near [of "a - 1" "-1" 0]) (auto simp: get_upstreamId_def)
  next
    case 3
    then show ?thesis using bounds column_step [OF c, of a]
      by (intro near [of "a + ?c" 0 1]) (auto simp: get_upstreamId_def)
  next
    case 4
    then show ?thesis using bounds column_step [OF c, of a]
      by (intro near [of "a - ?c" 0 "-1"]) (auto simp: get_upstreamId_def)
  qed
qed

lemma hops_zero_iff:
  assumes "in_mesh C a" "in_mesh C b"
  shows "compute_hops_remaining C a b = 0 \<longleftrightarrow> a = b"
proof
  assume "compute_hops_remaining C a b = 0"
  then have "b mod nc_num_cols C = a mod nc_num_cols C" "b div nc_num_cols C = a div nc_num_cols C"
    unfolding compute_hops_remaining_mesh [OF assms] by linarith+
  then show "a = b" by (metis div_mult_mod_eq)
qed (simp add: compute_hops_remaining_def)

lemma mesh_delta_of_defined:
  assumes "in_mesh C a" "in_mesh C b" "a \<noteq> b"
  shows "\<exists>d. mesh_delta_of C a b = Inr d"
proof -
  have "\<not> (\<bar>b mod nc_num_cols C - a mod nc_num_cols C\<bar> = 0 \<and> \<bar>b div nc_num_cols C - a div nc_num_cols C\<bar> = 0)"
    using hops_zero_iff [OF assms(1,2)] assms(3) by (auto simp: compute_hops_remaining_mesh [OF assms(1,2)])
  then show ?thesis using assms by (auto simp: mesh_delta_of_def Let_def in_mesh_trunc in_mesh_def [of C a])
qed

text \<open>A direction choice, which may depend on the hop (random numbers, free channels).\<close>

fun route_walk ::
    "(nat \<Rightarrow> mesh_delta \<Rightarrow> port_direction) \<Rightarrow> garnet_config \<Rightarrow> nat \<Rightarrow> int \<Rightarrow> int \<Rightarrow> int res" where
  "route_walk pick C 0 my dest = Inr my"
| "route_walk pick C (Suc n) my dest =
     bnd (mesh_delta_of C my dest) (\<lambda>d.
     bnd (get_upstreamId C (pick n d) my) (\<lambda>nx. route_walk pick C n nx dest))"

definition mesh_delta_ok :: "mesh_delta \<Rightarrow> bool" where
  "mesh_delta_ok d = (case d of (xh, yh, xd, yd) \<Rightarrow> 0 \<le> xh \<and> 0 \<le> yh \<and> \<not> (xh = 0 \<and> yh = 0))"

lemma mesh_delta_of_ok: "mesh_delta_of C a b = Inr d \<Longrightarrow> mesh_delta_ok d"
  by (auto simp: mesh_delta_of_def mesh_delta_ok_def Let_def)

locale minimal_choice =
  fixes pick :: "nat \<Rightarrow> mesh_delta \<Rightarrow> port_direction"
  assumes pick_productive: "mesh_delta_ok d \<Longrightarrow> pick k d \<in> productive d"
begin

lemma walk_arrives:
  assumes "in_mesh C a" "in_mesh C b"
  shows "route_walk pick C (nat (compute_hops_remaining C a b)) a b = Inr b"
  using assms
proof (induction "nat (compute_hops_remaining C a b)" arbitrary: a)
  case 0
  then have "compute_hops_remaining C a b = 0" by (simp add: compute_hops_remaining_def)
  with hops_zero_iff [OF 0(2,3)] show ?case by (simp add: compute_hops_remaining_def)
next
  case (Suc n)
  then have "a \<noteq> b" using hops_zero_iff [OF Suc.prems] by auto
  then obtain d where d: "mesh_delta_of C a b = Inr d" using mesh_delta_of_defined [OF Suc.prems] by blast
  from productive_step [OF Suc.prems d pick_productive [OF mesh_delta_of_ok [OF d]], of n]
  obtain nx where nx: "get_upstreamId C (pick n d) a = Inr nx" "in_mesh C nx"
    "compute_hops_remaining C nx b = compute_hops_remaining C a b - 1" by blast
  then have "n = nat (compute_hops_remaining C nx b)" using Suc.hyps(2) by linarith
  from Suc.hyps(1) [OF this nx(2) Suc.prems(2)] have "route_walk pick C n nx b = Inr b"
    using \<open>n = _\<close> by simp
  then show ?case using Suc.hyps(2) d nx(1) by (metis route_walk.simps(2) bnd_Inr)
qed

end

interpretation xy: minimal_choice "\<lambda>k. XY_dirn"
proof unfold_locales
  fix d assume "mesh_delta_ok d"
  then show "XY_dirn d \<in> productive d" by (cases d rule: productive.cases) (auto simp: mesh_delta_ok_def)
qed

interpretation rndm: minimal_choice "\<lambda>k. random_dirn (rnd k)" for rnd
proof unfold_locales
  fix d k assume "mesh_delta_ok d"
  then show "random_dirn (rnd k) d \<in> productive d"
    by (cases d rule: productive.cases) (auto simp: mesh_delta_ok_def)
qed

interpretation adapt: minimal_choice "\<lambda>k. adapt_rand_dirn (fx k) (fy k) (rnd k)" for fx fy rnd
proof unfold_locales
  fix d k assume "mesh_delta_ok d"
  then show "adapt_rand_dirn (fx k) (fy k) (rnd k) d \<in> productive d"
    by (cases d rule: productive.cases) (auto simp: mesh_delta_ok_def more_free_def)
qed

interpretation wf: minimal_choice "\<lambda>k. west_first_dirn (rnd k)" for rnd
proof unfold_locales
  fix d k assume "mesh_delta_ok d"
  then show "west_first_dirn (rnd k) d \<in> productive d"
    by (cases d rule: productive.cases) (auto simp: mesh_delta_ok_def)
qed

interpretation awf: minimal_choice "\<lambda>k. adapt_west_first_dirn (fx k) (fy k) (rnd k)" for fx fy rnd
proof unfold_locales
  fix d k assume "mesh_delta_ok d"
  then show "adapt_west_first_dirn (fx k) (fy k) (rnd k) d \<in> productive d"
    by (cases d rule: productive.cases) (auto simp: mesh_delta_ok_def more_free_def)
qed

lemmas choice_productive = xy.pick_productive rndm.pick_productive adapt.pick_productive
  wf.pick_productive awf.pick_productive

end
