(* ===== verification/Switch_Allocator.thy ===== *)
theory Switch_Allocator
  imports Routing_Unit
begin

text \<open>
  \<open>SwitchAllocator\<close> (src/gem5/src/mem/ruby/network/garnet2.0/SwitchAllocator.cc): the two-stage
  separable allocation of the switch. It works on a \<open>router_ctx\<close>: its router, the counters of the
  network it increments, and the wakeups it schedules; \<open>C\<close> is the configuration and \<open>now\<close> the
  current cycle. The loops over channels and ports are \<open>rr_order\<close> lists, the \<open>break\<close> after a winner
  is the end of the recursion. \<open>update_sw_winner\<close> is the only function of the crossbar called here.
\<close>

section \<open>Access to the ports of the router\<close>

definition rc_input :: "router_ctx \<Rightarrow> nat \<Rightarrow> input_unit res" where
  "rc_input cx i = at (r_input_unit (rc_router cx)) (int i)"

definition rc_output :: "router_ctx \<Rightarrow> int \<Rightarrow> output_unit res" where
  "rc_output cx i = at (r_output_unit (rc_router cx)) i"

definition rc_put_input :: "nat \<Rightarrow> input_unit \<Rightarrow> router_ctx \<Rightarrow> router_ctx" where
  "rc_put_input i u cx =
     cx\<lparr>rc_router := (rc_router cx)\<lparr>r_input_unit := (r_input_unit (rc_router cx))[i := u]\<rparr>\<rparr>"

definition rc_put_output :: "nat \<Rightarrow> output_unit \<Rightarrow> router_ctx \<Rightarrow> router_ctx" where
  "rc_put_output i u cx =
     cx\<lparr>rc_router := (rc_router cx)\<lparr>r_output_unit := (r_output_unit (rc_router cx))[i := u]\<rparr>\<rparr>"

definition rc_map_alloc :: "(switch_allocator \<Rightarrow> switch_allocator) \<Rightarrow> router_ctx \<Rightarrow> router_ctx" where
  "rc_map_alloc f cx = cx\<lparr>rc_router := (rc_router cx)\<lparr>r_sw_alloc := f (r_sw_alloc (rc_router cx))\<rparr>\<rparr>"

definition rc_map_stats :: "(net_stats \<Rightarrow> net_stats) \<Rightarrow> router_ctx \<Rightarrow> router_ctx" where
  "rc_map_stats f cx = cx\<lparr>rc_stats := f (rc_stats cx)\<rparr>"

abbreviation rc_alloc :: "router_ctx \<Rightarrow> switch_allocator" where
  "rc_alloc cx \<equiv> r_sw_alloc (rc_router cx)"

section \<open>Construction\<close>

definition SwitchAllocator_new :: "switch_allocator \<Rightarrow> nat \<Rightarrow> nat \<Rightarrow> switch_allocator" where
  "SwitchAllocator_new u num_vcs vc_per_vnet =
     u\<lparr>sa_num_vcs := num_vcs, sa_vc_per_vnet := vc_per_vnet, sa_input_arbiter_activity := 0,
       sa_output_arbiter_activity := 0, sa_requested_uturn := False, sa_round_robin_invc := [],
       sa_round_robin_inport := [], sa_port_requests := [], sa_vc_winners := []\<rparr>"

definition SwitchAllocator_init :: "nat \<Rightarrow> nat \<Rightarrow> switch_allocator \<Rightarrow> switch_allocator" where
  "SwitchAllocator_init num_inports num_outports s =
     s\<lparr>sa_num_inports := num_inports, sa_num_outports := num_outports,
       sa_round_robin_inport := replicate num_outports 0,
       sa_round_robin_invc := replicate num_inports 0,
       sa_port_requests := replicate num_outports (replicate num_inports False),
       sa_vc_winners := map (resize num_inports 0) (resize num_outports [] (sa_vc_winners s))\<rparr>"

section \<open>May a flit be sent?\<close>

definition sa_get_vnet :: "router \<Rightarrow> nat \<Rightarrow> nat res" where
  "sa_get_vnet r invc =
     (if sa_vc_per_vnet (r_sw_alloc r) = 0 then Inl DivByZero
      else let vnet = invc div sa_vc_per_vnet (r_sw_alloc r)
           in bnd (assert_that (vnet < r_virtual_networks r)) (\<lambda>_. Inr vnet))"

text \<open>Is there an earlier flit for the same output port in the channels given?\<close>

fun sa_older_request :: "cycles \<Rightarrow> input_unit \<Rightarrow> int \<Rightarrow> cycles \<Rightarrow> nat list \<Rightarrow> bool res" where
  "sa_older_request now u outport t_enqueue_time [] = Inr False"
| "sa_older_request now u outport t_enqueue_time (temp_vc # vcs) =
     bnd (iu_need_stage u (int temp_vc) SA_stage now) (\<lambda>need.
     bnd (iu_get_outport u (int temp_vc)) (\<lambda>p.
     bnd (iu_get_enqueue_time u (int temp_vc)) (\<lambda>t.
     if need \<and> p = outport \<and> t < t_enqueue_time then Inr True
     else sa_older_request now u outport t_enqueue_time vcs)))"

definition send_allowed ::
    "garnet_config \<Rightarrow> cycles \<Rightarrow> router \<Rightarrow> nat \<Rightarrow> nat \<Rightarrow> int \<Rightarrow> int \<Rightarrow> bool res" where
  "send_allowed C now r inport invc outport outvc =
     bnd (sa_get_vnet r invc) (\<lambda>vnet.
     bnd (at (r_output_unit r) outport) (\<lambda>ou.
     bnd (if outvc = -1 then bnd (ou_has_free_vc now vnet ou) (\<lambda>b. Inr (b, b))
          else bnd (ou_has_credit now outvc ou) (\<lambda>c. Inr (True, c))) (\<lambda>(has_outvc, has_credit).
     if \<not> has_outvc \<or> \<not> has_credit then Inr False
     else bnd (isVNetOrdered C vnet) (\<lambda>ordered.
       if ordered then
         bnd (at (r_input_unit r) (int inport)) (\<lambda>u.
         bnd (iu_get_enqueue_time u (int invc)) (\<lambda>t_enqueue_time.
         bnd (sa_older_request now u outport t_enqueue_time
                (vnet_vcs (sa_vc_per_vnet (r_sw_alloc r)) vnet)) (\<lambda>older.
         Inr (\<not> older))))
       else Inr True))))"

section \<open>Deflection of u-turns\<close>

definition uturn_targets :: "port_direction \<Rightarrow> port_direction list" where
  "uturn_targets dirn =
     (if dirn = ''East'' \<or> dirn = ''West'' then [''North'', ''South'']
      else if dirn = ''North'' \<or> dirn = ''South'' then [''East'', ''West'']
      else [])"

fun first_outport :: "(port_direction \<rightharpoonup> int) \<Rightarrow> port_direction list \<Rightarrow> (int \<times> port_direction) res" where
  "first_outport m [] = Inl AssertFail"
| "first_outport m (d # ds) = (case m d of Some p \<Rightarrow> Inr (p, d) | None \<Rightarrow> first_outport m ds)"

definition disallow_uturn :: "nat \<Rightarrow> nat \<Rightarrow> port_direction \<Rightarrow> router_ctx \<Rightarrow> router_ctx res" where
  "disallow_uturn inputUnit_id invc inputUnit_dirn cx0 =
     (let cx = rc_map_stats (\<lambda>s. s\<lparr>st_total_misroute := st_total_misroute s + 1\<rparr>) cx0 in
      bnd (rc_input cx inputUnit_id) (\<lambda>u.
      bnd (iu_peekTopFlit u (int invc)) (\<lambda>_.
      bnd (first_outport (ru_outports_dirn2idx (r_routing_unit (rc_router cx)))
             (uturn_targets inputUnit_dirn)) (\<lambda>(new_outport, dirn).
      bnd (iu_modify u (int invc)
             (vc_update_top (\<lambda>f. set_outport_dir dirn (set_outport new_outport f)))) (\<lambda>u'.
      bnd (assert_that (new_outport \<noteq> -1)) (\<lambda>_.
      Inr (rc_put_input inputUnit_id u' cx)))))))"

section \<open>First stage: one channel of every input port\<close>

definition sa_is_uturn :: "input_unit \<Rightarrow> flit \<Rightarrow> bool" where
  "sa_is_uturn u f = (fl_outport_dir f = iu_direction u \<and> iu_direction u \<noteq> ''Local'')"

definition sa_set_uturn :: "nat \<Rightarrow> nat \<Rightarrow> bool \<Rightarrow> router_ctx \<Rightarrow> router_ctx res" where
  "sa_set_uturn inport invc b cx =
     bnd (rc_input cx inport) (\<lambda>u.
     bnd (iu_peekTopFlit u (int invc)) (\<lambda>_.
     bnd (iu_modify u (int invc) (vc_update_top (\<lambda>f. f\<lparr>fl_request_uturn := b\<rparr>))) (\<lambda>u'.
     Inr (rc_put_input inport u' cx))))"

definition sa_check_uturn :: "garnet_config \<Rightarrow> nat \<Rightarrow> nat \<Rightarrow> router_ctx \<Rightarrow> router_ctx res" where
  "sa_check_uturn C inport invc cx0 =
     bnd (sa_set_uturn inport invc False cx0) (\<lambda>cx1.
     bnd (rc_input cx1 inport) (\<lambda>u.
     bnd (iu_peekTopFlit u (int invc)) (\<lambda>f.
     if sa_is_uturn u f then
       bnd (sa_set_uturn inport invc True cx1) (\<lambda>cx2.
       let cx3 = rc_map_stats (\<lambda>s. s\<lparr>st_total_uturn_request := st_total_uturn_request s + 1\<rparr>) cx2
       in if nc_uTurn_crossbar C = 0 then disallow_uturn inport invc (iu_direction u) cx3
          else Inr cx3)
     else Inr cx1)))"

definition sa_request :: "nat \<Rightarrow> nat \<Rightarrow> nat \<Rightarrow> switch_allocator \<Rightarrow> switch_allocator res" where
  "sa_request outport inport invc s =
     bnd (put_at2 (sa_port_requests s) outport inport True) (\<lambda>reqs.
     bnd (put_at2 (sa_vc_winners s) outport inport invc) (\<lambda>wins.
     Inr (s\<lparr>sa_input_arbiter_activity := sa_input_arbiter_activity s + 1,
            sa_port_requests := reqs, sa_vc_winners := wins\<rparr>)))"

text \<open>One channel: \<open>True\<close> if it makes the request of its port.\<close>

definition sa_try_invc ::
    "garnet_config \<Rightarrow> cycles \<Rightarrow> nat \<Rightarrow> nat \<Rightarrow> router_ctx \<Rightarrow> (bool \<times> router_ctx) res" where
  "sa_try_invc C now inport invc cx0 =
     bnd (rc_input cx0 inport) (\<lambda>u0.
     bnd (iu_need_stage u0 (int invc) SA_stage now) (\<lambda>need.
     if \<not> need then Inr (False, cx0)
     else
       bnd (sa_check_uturn C inport invc cx0) (\<lambda>cx.
       bnd (rc_input cx inport) (\<lambda>u.
       bnd (iu_peekTopFlit u (int invc)) (\<lambda>f.
       let outport = fl_outport f in
       if outport < 0 \<or> int (length (r_output_unit (rc_router cx))) \<le> outport
       then Inl (Fatal ''outport >= m_output_unit.size()'')
       else
         bnd (send_allowed C now (rc_router cx) inport invc outport (-1)) (\<lambda>make_request.
         if make_request then
           bnd (sa_request (nat outport) inport invc (rc_alloc cx)) (\<lambda>s.
           Inr (True, rc_map_alloc (\<lambda>_. s) cx))
         else Inr (False, cx)))))))"

fun sa_scan_invcs ::
    "garnet_config \<Rightarrow> cycles \<Rightarrow> nat \<Rightarrow> nat list \<Rightarrow> router_ctx \<Rightarrow> router_ctx res" where
  "sa_scan_invcs C now inport [] cx = Inr cx"
| "sa_scan_invcs C now inport (invc # invcs) cx =
     bnd (sa_try_invc C now inport invc cx) (\<lambda>(won, cx').
     if won then Inr cx' else sa_scan_invcs C now inport invcs cx')"

definition sa_arbitrate_inport ::
    "garnet_config \<Rightarrow> cycles \<Rightarrow> nat \<Rightarrow> router_ctx \<Rightarrow> router_ctx res" where
  "sa_arbitrate_inport C now inport cx =
     bnd (at (sa_round_robin_invc (rc_alloc cx)) (int inport)) (\<lambda>invc.
     sa_scan_invcs C now inport
       (rr_order (sa_num_vcs (rc_alloc cx)) invc (sa_num_vcs (rc_alloc cx))) cx)"

definition arbitrate_inports :: "garnet_config \<Rightarrow> cycles \<Rightarrow> router_ctx \<Rightarrow> router_ctx res" where
  "arbitrate_inports C now cx =
     (if r_halt (rc_router cx) then Inr cx
      else foldM (sa_arbitrate_inport C now) [0..<sa_num_inports (rc_alloc cx)] cx)"

section \<open>Second stage: one input port for every output port\<close>

definition vc_allocate :: "cycles \<Rightarrow> nat \<Rightarrow> nat \<Rightarrow> nat \<Rightarrow> router_ctx \<Rightarrow> (int \<times> router_ctx) res" where
  "vc_allocate now outport inport invc cx =
     bnd (rc_output cx (int outport)) (\<lambda>ou.
     bnd (sa_get_vnet (rc_router cx) invc) (\<lambda>vnet.
     bnd (ou_select_free_vc now vnet ou) (\<lambda>(outvc, ou').
     bnd (assert_that (outvc \<noteq> -1)) (\<lambda>_.
     bnd (rc_input cx inport) (\<lambda>u.
     bnd (iu_grant_outvc (int invc) outvc u) (\<lambda>u'.
     Inr (outvc, rc_put_input inport u' (rc_put_output outport ou' cx))))))))"

definition update_sw_winner :: "nat \<Rightarrow> flit \<Rightarrow> crossbar_switch \<Rightarrow> crossbar_switch res" where
  "update_sw_winner inport t_flit s =
     bnd (at (cs_switch_buffer s) (int inport)) (\<lambda>b.
     Inr (s\<lparr>cs_switch_buffer := (cs_switch_buffer s)[inport := insert_flit t_flit b]\<rparr>))"

definition grant_switch :: "nat \<Rightarrow> flit \<Rightarrow> router \<Rightarrow> router res" where
  "grant_switch inport t_flit r =
     bnd (update_sw_winner inport t_flit (r_switch r)) (\<lambda>s. Inr (r\<lparr>r_switch := s\<rparr>))"

text \<open>The statistics of a u-turn that wins.\<close>

definition sa_uturn_won :: "nat \<Rightarrow> nat \<Rightarrow> router_ctx \<Rightarrow> router_ctx res" where
  "sa_uturn_won inport invc cx =
     bnd (rc_input cx inport) (\<lambda>u.
     bnd (iu_peekTopFlit u (int invc)) (\<lambda>f.
     if sa_is_uturn u f then
       bnd (assert_that (fl_request_uturn f)) (\<lambda>_.
       sa_set_uturn inport invc False
         (rc_map_stats (\<lambda>s. s\<lparr>st_success_uturn := st_success_uturn s + 1\<rparr>) cx))
     else Inr cx))"

text \<open>The winning flit leaves its channel for the crossbar and takes a credit of the output channel.\<close>

definition sa_send :: "cycles \<Rightarrow> nat \<Rightarrow> nat \<Rightarrow> nat \<Rightarrow> int \<Rightarrow> router_ctx \<Rightarrow> (flit \<times> router_ctx) res" where
  "sa_send now outport inport invc outvc cx =
     bnd (rc_input cx inport) (\<lambda>u.
     bnd (iu_getTopFlit u (int invc)) (\<lambda>(f, u').
     bnd (rc_output cx (int outport)) (\<lambda>ou.
     let f1 = set_vc outvc (set_outport_dir (ou_direction ou) (set_outport (int outport) f)) in
     bnd (ou_decrement_credit outvc ou) (\<lambda>ou'.
     let f2 = advance_stage ST_stage now f1;
         cx1 = rc_put_output outport ou' (rc_put_input inport u' cx) in
     bnd (grant_switch inport f2 (rc_router cx1)) (\<lambda>r.
     Inr (f2, cx1\<lparr>rc_router := r\<rparr>))))))"

text \<open>A credit for the upstream router; after the tail the channel becomes idle.\<close>

definition sa_return_credit :: "garnet_config \<Rightarrow> cycles \<Rightarrow> nat \<Rightarrow> nat \<Rightarrow> flit \<Rightarrow> router_ctx \<Rightarrow> router_ctx res" where
  "sa_return_credit C now inport invc t_flit cx =
     bnd (rc_input cx inport) (\<lambda>u.
     bnd (if is_tail t_flit then
            bnd (iu_isReady u (int invc) now) (\<lambda>ready.
            bnd (assert_that (\<not> ready)) (\<lambda>_. iu_set_vc_idle (int invc) now u))
          else Inr u) (\<lambda>u1.
     let (u2, es) = iu_increment_credit (nc_fresh_credit C) (int invc) (is_tail t_flit) now u1
     in Inr ((rc_put_input inport u2 cx)\<lparr>rc_events := rc_events cx @ es\<rparr>)))"

definition sa_next_invc :: "nat \<Rightarrow> switch_allocator \<Rightarrow> switch_allocator res" where
  "sa_next_invc inport s =
     bnd (at (sa_round_robin_invc s) (int inport)) (\<lambda>i.
     Inr (s\<lparr>sa_round_robin_invc := (sa_round_robin_invc s)[inport := rr_next (sa_num_vcs s) i]\<rparr>))"

definition sa_end_grant :: "nat \<Rightarrow> nat \<Rightarrow> switch_allocator \<Rightarrow> switch_allocator res" where
  "sa_end_grant outport inport s =
     bnd (put_at2 (sa_port_requests s) outport inport False) (\<lambda>reqs.
     bnd (at (sa_round_robin_inport s) (int outport)) (\<lambda>i.
     Inr (s\<lparr>sa_port_requests := reqs,
            sa_round_robin_inport := (sa_round_robin_inport s)[outport := rr_next (sa_num_inports s) i]\<rparr>)))"

definition sa_grant ::
    "garnet_config \<Rightarrow> cycles \<Rightarrow> nat \<Rightarrow> nat \<Rightarrow> router_ctx \<Rightarrow> router_ctx res" where
  "sa_grant C now outport inport cx0 =
     bnd (at2 (sa_vc_winners (rc_alloc cx0)) outport inport) (\<lambda>invc.
     bnd (sa_next_invc inport (rc_alloc cx0)) (\<lambda>s1.
     let cx1 = rc_map_alloc (\<lambda>_. s1) cx0 in
     bnd (rc_input cx1 inport) (\<lambda>u.
     bnd (iu_get_outvc u (int invc)) (\<lambda>outvc0.
     bnd (if outvc0 = -1 then vc_allocate now outport inport invc cx1
          else Inr (outvc0, cx1)) (\<lambda>(outvc, cx2).
     bnd (sa_uturn_won inport invc cx2) (\<lambda>cx3.
     bnd (sa_send now outport inport invc outvc cx3) (\<lambda>(t_flit, cx4).
     let cx5 = rc_map_alloc (\<lambda>s. s\<lparr>sa_output_arbiter_activity := sa_output_arbiter_activity s + 1\<rparr>) cx4 in
     bnd (sa_return_credit C now inport invc t_flit cx5) (\<lambda>cx6.
     bnd (sa_end_grant outport inport (rc_alloc cx6)) (\<lambda>s2.
     Inr (rc_map_alloc (\<lambda>_. s2) cx6))))))))))"

fun sa_scan_inports ::
    "garnet_config \<Rightarrow> cycles \<Rightarrow> nat \<Rightarrow> nat list \<Rightarrow> router_ctx \<Rightarrow> router_ctx res" where
  "sa_scan_inports C now outport [] cx = Inr cx"
| "sa_scan_inports C now outport (inport # inports) cx =
     bnd (at2 (sa_port_requests (rc_alloc cx)) outport inport) (\<lambda>req.
     if req then sa_grant C now outport inport cx
     else sa_scan_inports C now outport inports cx)"

definition sa_arbitrate_outport ::
    "garnet_config \<Rightarrow> cycles \<Rightarrow> nat \<Rightarrow> router_ctx \<Rightarrow> router_ctx res" where
  "sa_arbitrate_outport C now outport cx =
     bnd (at (sa_round_robin_inport (rc_alloc cx)) (int outport)) (\<lambda>inport.
     sa_scan_inports C now outport
       (rr_order (sa_num_inports (rc_alloc cx)) inport (sa_num_inports (rc_alloc cx))) cx)"

definition arbitrate_outports :: "garnet_config \<Rightarrow> cycles \<Rightarrow> router_ctx \<Rightarrow> router_ctx res" where
  "arbitrate_outports C now cx =
     (if r_halt (rc_router cx) then Inr cx
      else foldM (sa_arbitrate_outport C now) [0..<sa_num_outports (rc_alloc cx)] cx)"

section \<open>Wakeup\<close>

definition clear_request_vector :: "switch_allocator \<Rightarrow> switch_allocator res" where
  "clear_request_vector s =
     bnd (foldM (\<lambda>(i, j) reqs. put_at2 reqs i j False)
           (List.product [0..<sa_num_outports s] [0..<sa_num_inports s]) (sa_port_requests s)) (\<lambda>reqs.
     Inr (s\<lparr>sa_port_requests := reqs\<rparr>))"

text \<open>Is there a flit for switch allocation at time \<open>t\<close> in one of the channels given?\<close>

fun sa_any_ready :: "input_unit list \<Rightarrow> cycles \<Rightarrow> (nat \<times> nat) list \<Rightarrow> bool res" where
  "sa_any_ready us t [] = Inr False"
| "sa_any_ready us t ((i, j) # ijs) =
     bnd (at us (int i)) (\<lambda>u.
     bnd (iu_need_stage u (int j) SA_stage t) (\<lambda>need.
     if need then Inr True else sa_any_ready us t ijs))"

definition check_for_wakeup :: "cycles \<Rightarrow> router_ctx \<Rightarrow> router_ctx res" where
  "check_for_wakeup now cx =
     bnd (sa_any_ready (r_input_unit (rc_router cx)) (now + 1)
            (List.product [0..<sa_num_inports (rc_alloc cx)] [0..<sa_num_vcs (rc_alloc cx)])) (\<lambda>b.
     Inr (if b then cx\<lparr>rc_events := rc_events cx @ [(RouterConsumer (r_id (rc_router cx)), now + 1)]\<rparr>
          else cx))"

definition SwitchAllocator_wakeup :: "garnet_config \<Rightarrow> cycles \<Rightarrow> router_ctx \<Rightarrow> router_ctx res" where
  "SwitchAllocator_wakeup C now cx0 =
     bnd (arbitrate_inports C now cx0) (\<lambda>cx1.
     bnd (arbitrate_outports C now cx1) (\<lambda>cx2.
     bnd (clear_request_vector (rc_alloc cx2)) (\<lambda>s.
     check_for_wakeup now (rc_map_alloc (\<lambda>_. s) cx2))))"

definition SwitchAllocator_resetStats :: "switch_allocator \<Rightarrow> switch_allocator" where
  "SwitchAllocator_resetStats s =
     s\<lparr>sa_input_arbiter_activity := 0, sa_output_arbiter_activity := 0\<rparr>"

end
