(* ===== verification/Links.thy ===== *)
theory Links
  imports Switch_Allocator
begin

text \<open>
  \<open>CrossbarSwitch\<close> (CrossbarSwitch.cc), which moves the winners of switch allocation to the output
  ports, and \<open>NetworkLink\<close> and \<open>CreditLink\<close> (NetworkLink.cc, NetworkLink.hh), which move flits and
  credits from the queue of one object to the link buffer that the next one reads, all of
  src/gem5/src/mem/ruby/network/garnet2.0. A credit link is a network link of credits.
\<close>

section \<open>CrossbarSwitch\<close>

definition CrossbarSwitch_new :: "crossbar_switch \<Rightarrow> nat \<Rightarrow> crossbar_switch" where
  "CrossbarSwitch_new u num_vcs =
     u\<lparr>cs_num_vcs := num_vcs, cs_crossbar_activity := 0, cs_switch_buffer := []\<rparr>"

definition CrossbarSwitch_init :: "nat \<Rightarrow> crossbar_switch \<Rightarrow> crossbar_switch" where
  "CrossbarSwitch_init num_inports s =
     s\<lparr>cs_num_inports := num_inports, cs_switch_buffer := replicate num_inports flitBuffer_new\<rparr>"

text \<open>
  One input port. The flit is updated while it is still at the front of its buffer, inserted at
  the output port and then taken out of the buffer.
\<close>

definition xbar_stamp :: "cycles \<Rightarrow> flit \<Rightarrow> flit" where
  "xbar_stamp now f = set_time (now + 1) (advance_stage LT_stage (now + 1) f)"

definition xbar_move :: "cycles \<Rightarrow> nat \<Rightarrow> nat \<Rightarrow> flit \<Rightarrow> flit flit_buffer \<Rightarrow> router_ctx \<Rightarrow> router_ctx" where
  "xbar_move now inport outport t_flit b' cx =
     (let r = rc_router cx; (ou', es) = ou_insert_flit now t_flit (r_output_unit r ! outport) in
      cx\<lparr>rc_router := r
           \<lparr>r_output_unit := (r_output_unit r)[outport := ou'],
            r_switch := (r_switch r)
              \<lparr>cs_switch_buffer := (cs_switch_buffer (r_switch r))[inport := b'],
               cs_crossbar_activity := cs_crossbar_activity (r_switch r) + 1\<rparr>\<rparr>,
         rc_events := rc_events cx @ es\<rparr>)"

definition xbar_inport :: "cycles \<Rightarrow> nat \<Rightarrow> router_ctx \<Rightarrow> router_ctx res" where
  "xbar_inport now inport cx =
     bnd (at (cs_switch_buffer (r_switch (rc_router cx))) (int inport)) (\<lambda>b.
     if \<not> isReady b now then Inr cx
     else
       bnd (peekTopFlit b) (\<lambda>t0.
       if is_stage t0 ST_stage now then
         bnd (at (r_output_unit (rc_router cx)) (fl_outport t0)) (\<lambda>_.
         bnd (getTopFlit (update_top (xbar_stamp now) b)) (\<lambda>(_, b').
         Inr (xbar_move now inport (nat (fl_outport t0)) (xbar_stamp now t0) b' cx)))
       else Inr cx))"

definition CrossbarSwitch_wakeup :: "cycles \<Rightarrow> router_ctx \<Rightarrow> router_ctx res" where
  "CrossbarSwitch_wakeup now cx =
     foldM (xbar_inport now) [0..<cs_num_inports (r_switch (rc_router cx))] cx"

definition CrossbarSwitch_functionalWrite :: "(msg_ptr \<Rightarrow> bool) \<Rightarrow> crossbar_switch \<Rightarrow> nat" where
  "CrossbarSwitch_functionalWrite fw s = sum_list (map (flitBuffer_functionalWrite fw) (cs_switch_buffer s))"

definition CrossbarSwitch_resetStats :: "crossbar_switch \<Rightarrow> crossbar_switch" where
  "CrossbarSwitch_resetStats s = s\<lparr>cs_crossbar_activity := 0\<rparr>"

section \<open>NetworkLink\<close>

definition NetworkLink_new :: "nat \<Rightarrow> cycles \<Rightarrow> nat \<Rightarrow> nat \<Rightarrow> ('f, 'q) network_link" where
  "NetworkLink_new link_id link_latency vcs_per_vnet virt_nets =
     \<lparr>nl_linkBuffer = flitBuffer_new, nl_id = link_id, nl_type = NUM_LINK_TYPES,
      nl_latency = link_latency, nl_consumer = None, nl_srcQueue = None, nl_link_utilized = 0,
      nl_vc_load = replicate (vcs_per_vnet * virt_nets) 0, nl_wakeups = []\<rparr>"

definition setLinkConsumer :: "consumer_ref \<Rightarrow> ('f, 'q) network_link \<Rightarrow> ('f, 'q) network_link" where
  "setLinkConsumer consumer l = l\<lparr>nl_consumer := Some consumer\<rparr>"

definition setSourceQueue :: "'q \<Rightarrow> ('f, 'q) network_link \<Rightarrow> ('f, 'q) network_link" where
  "setSourceQueue srcQueue l = l\<lparr>nl_srcQueue := Some srcQueue\<rparr>"

definition consumeLink ::
    "('a flit_scheme, 'q) network_link \<Rightarrow> ('a flit_scheme \<times> ('a flit_scheme, 'q) network_link) res" where
  "consumeLink l = bnd (getTopFlit (nl_linkBuffer l)) (\<lambda>(f, b). Inr (f, l\<lparr>nl_linkBuffer := b\<rparr>))"

text \<open>The body of \<open>NetworkLink::wakeup\<close> on the contents of its source queue.\<close>

definition link_transfer ::
    "cycles \<Rightarrow> ('a flit_scheme) flit_buffer \<Rightarrow> ('a flit_scheme, 'q) network_link \<Rightarrow>
     (('a flit_scheme) flit_buffer \<times> ('a flit_scheme, 'q) network_link \<times> event_req list) res" where
  "link_transfer now src l =
     (if isReady src now then
        bnd (getTopFlit src) (\<lambda>(t, src').
        let t_flit = set_time (now + nl_latency l) t in
        (case nl_consumer l of
           None \<Rightarrow> Inl NullPointer
         | Some c \<Rightarrow>
             bnd (at (nl_vc_load l) (fl_vc t_flit)) (\<lambda>n.
             Inr (src',
               l\<lparr>nl_linkBuffer := insert_flit t_flit (nl_linkBuffer l),
                 nl_link_utilized := nl_link_utilized l + 1,
                 nl_vc_load := (nl_vc_load l)[nat (fl_vc t_flit) := n + 1]\<rparr>,
               [(c, now + nl_latency l)]))))
      else Inr (src, l, []))"

definition read_flit_queue :: "garnet_network \<Rightarrow> flit_queue_ref \<Rightarrow> flit flit_buffer res" where
  "read_flit_queue net q =
     (case q of
        RouterOut i p \<Rightarrow> bnd (at (gn_routers net) (int i)) (\<lambda>r.
          bnd (at (r_output_unit r) (int p)) (\<lambda>u. Inr (ou_out_buffer u)))
      | NIOut i \<Rightarrow> bnd (at (gn_nis net) (int i)) (\<lambda>n. Inr (ni_outFlitQueue n)))"

definition write_flit_queue :: "flit_queue_ref \<Rightarrow> flit flit_buffer \<Rightarrow> garnet_network \<Rightarrow> garnet_network" where
  "write_flit_queue q b net =
     (case q of
        RouterOut i p \<Rightarrow>
          net\<lparr>gn_routers := count_up (gn_routers net) i
                (\<lambda>r. r\<lparr>r_output_unit := count_up (r_output_unit r) p (\<lambda>u. u\<lparr>ou_out_buffer := b\<rparr>)\<rparr>)\<rparr>
      | NIOut i \<Rightarrow> net\<lparr>gn_nis := count_up (gn_nis net) i (\<lambda>n. n\<lparr>ni_outFlitQueue := b\<rparr>)\<rparr>)"

definition read_credit_queue :: "garnet_network \<Rightarrow> credit_queue_ref \<Rightarrow> credit flit_buffer res" where
  "read_credit_queue net q =
     (case q of
        RouterCredit i p \<Rightarrow> bnd (at (gn_routers net) (int i)) (\<lambda>r.
          bnd (at (r_input_unit r) (int p)) (\<lambda>u. Inr (iu_creditQueue u)))
      | NICredit i \<Rightarrow> bnd (at (gn_nis net) (int i)) (\<lambda>n. Inr (ni_outCreditQueue n)))"

definition write_credit_queue :: "credit_queue_ref \<Rightarrow> credit flit_buffer \<Rightarrow> garnet_network \<Rightarrow> garnet_network" where
  "write_credit_queue q b net =
     (case q of
        RouterCredit i p \<Rightarrow>
          net\<lparr>gn_routers := count_up (gn_routers net) i
                (\<lambda>r. r\<lparr>r_input_unit := count_up (r_input_unit r) p (\<lambda>u. u\<lparr>iu_creditQueue := b\<rparr>)\<rparr>)\<rparr>
      | NICredit i \<Rightarrow> net\<lparr>gn_nis := count_up (gn_nis net) i (\<lambda>n. n\<lparr>ni_outCreditQueue := b\<rparr>)\<rparr>)"

definition NetworkLink_wakeup :: "nat \<Rightarrow> garnet_network \<Rightarrow> garnet_network res" where
  "NetworkLink_wakeup k net =
     bnd (at (gn_networklinks net) (int k)) (\<lambda>l.
     (case nl_srcQueue l of
        None \<Rightarrow> Inl NullPointer
      | Some q \<Rightarrow>
          bnd (read_flit_queue net q) (\<lambda>src.
          bnd (link_transfer (gn_cycle net) src l) (\<lambda>(src', l', es).
          Inr (schedule_events es ((write_flit_queue q src' net)
                 \<lparr>gn_networklinks := (gn_networklinks net)[k := l']\<rparr>))))))"

definition CreditLink_wakeup :: "nat \<Rightarrow> garnet_network \<Rightarrow> garnet_network res" where
  "CreditLink_wakeup k net =
     bnd (at (gn_creditlinks net) (int k)) (\<lambda>l.
     (case nl_srcQueue l of
        None \<Rightarrow> Inl NullPointer
      | Some q \<Rightarrow>
          bnd (read_credit_queue net q) (\<lambda>src.
          bnd (link_transfer (gn_cycle net) src l) (\<lambda>(src', l', es).
          Inr (schedule_events es ((write_credit_queue q src' net)
                 \<lparr>gn_creditlinks := (gn_creditlinks net)[k := l']\<rparr>))))))"

definition NetworkLink_resetStats :: "('f, 'q) network_link \<Rightarrow> ('f, 'q) network_link" where
  "NetworkLink_resetStats l = l\<lparr>nl_vc_load := map (\<lambda>_. 0) (nl_vc_load l), nl_link_utilized := 0\<rparr>"

definition NetworkLink_functionalWrite :: "(msg_ptr \<Rightarrow> bool) \<Rightarrow> ('a flit_scheme, 'q) network_link \<Rightarrow> nat" where
  "NetworkLink_functionalWrite fw l = flitBuffer_functionalWrite fw (nl_linkBuffer l)"

section \<open>The crossbar\<close>

lemma isReady_Cons: "isReady b t \<Longrightarrow> peekTopFlit b = Inr f \<Longrightarrow> \<exists>fs. fb_buffer b = f # fs"
  by (cases "fb_buffer b") (auto simp: isReady_def peekTopFlit_def)

text \<open>Updating the front before taking it is taking it and updating what was taken.\<close>

lemma getTopFlit_update_top:
  assumes "fb_buffer b = f # fs"
  shows "\<exists>b'. getTopFlit b = Inr (f, b') \<and> getTopFlit (update_top g b) = Inr (g f, b')"
  using assms pop_heap_front [of flit_greater "g f" fs f] by (simp add: getTopFlit_def update_top_def)

lemma xbar_inport_cases:
  assumes "xbar_inport now i cx = Inr cx'"
  obtains "cx' = cx" | f b' where
    "i < length (cs_switch_buffer (r_switch (rc_router cx)))" "0 \<le> fl_outport f"
    "nat (fl_outport f) < length (r_output_unit (rc_router cx))"
    "getTopFlit (cs_switch_buffer (r_switch (rc_router cx)) ! i) = Inr (f, b')"
    "is_stage f ST_stage now" "fl_time f \<le> now"
    "cx' = xbar_move now i (nat (fl_outport f)) (xbar_stamp now f) b' cx"
proof (cases "cx' = cx")
  case False
  let ?b = "cs_switch_buffer (r_switch (rc_router cx)) ! i"
  from assms False obtain f x b' where f: "i < length (cs_switch_buffer (r_switch (rc_router cx)))"
      "isReady ?b now" "peekTopFlit ?b = Inr f" "is_stage f ST_stage now" "0 \<le> fl_outport f"
      "nat (fl_outport f) < length (r_output_unit (rc_router cx))"
    and top: "getTopFlit (update_top (xbar_stamp now) ?b) = Inr (x, b')"
    and cx': "cx' = xbar_move now i (nat (fl_outport f)) (xbar_stamp now f) b' cx"
    by (auto simp: xbar_inport_def at_eq_Inr split: if_splits)
  from isReady_Cons [OF f(2,3)] obtain fs where fs: "fb_buffer ?b = f # fs" ..
  from getTopFlit_update_top [OF fs, of "xbar_stamp now"] top have "getTopFlit ?b = Inr (f, b')" by auto
  moreover have "fl_time f \<le> now" using f(2) fs by (simp add: isReady_def)
  ultimately show thesis using that(2) f cx' by blast
qed (rule that)

lemma xbar_stamp_tag [simp]: "flit_tag_of (xbar_stamp now f) = flit_tag_of f"
  by (simp add: xbar_stamp_def)

lemma xbar_inport_tags:
  assumes "xbar_inport now i cx = Inr cx'"
  shows "router_tags (rc_router cx') = router_tags (rc_router cx)"
  using assms
proof (cases rule: xbar_inport_cases)
  case (2 f b')
  let ?r = "rc_router cx" and ?p = "nat (fl_outport f)"
  let ?ou = "fst (ou_insert_flit now (xbar_stamp now f) (r_output_unit ?r ! ?p))"
  have "add_mset (flit_tag_of f) (contents buffer_tags ((cs_switch_buffer (r_switch ?r))[i := b'])) =
      contents buffer_tags (cs_switch_buffer (r_switch ?r))"
    using 2 by (intro contents_update_remove buffer_tags_take) auto
  moreover have "contents (\<lambda>u. buffer_tags (ou_out_buffer u)) ((r_output_unit ?r)[?p := ?ou]) =
      add_mset (flit_tag_of f) (contents (\<lambda>u. buffer_tags (ou_out_buffer u)) (r_output_unit ?r))"
    using 2(3) by (simp add: contents_update_add ou_insert_flit_def)
  ultimately show ?thesis using 2(7) by (simp add: xbar_move_def Let_def router_tags_def case_prod_beta)
qed simp

interpretation xbar: conserved "xbar_inport now" "\<lambda>cx. router_tags (rc_router cx)" for now
  by unfold_locales (rule xbar_inport_tags)

lemma CrossbarSwitch_wakeup_tags:
  "CrossbarSwitch_wakeup now cx = Inr cx' \<Longrightarrow> router_tags (rc_router cx') = router_tags (rc_router cx)"
  unfolding CrossbarSwitch_wakeup_def by (rule xbar.loop_conserves)

section \<open>Links\<close>

lemma link_transfer_tags:
  assumes "link_transfer now src l = Inr (src', l', es)"
  shows "image_mset flit_tag_of (flits_of src') + image_mset flit_tag_of (flits_of (nl_linkBuffer l')) =
    image_mset flit_tag_of (flits_of src) + image_mset flit_tag_of (flits_of (nl_linkBuffer l))"
  using assms
  by (auto simp: link_transfer_def Let_def split: if_splits option.splits dest!: fbuf.take_Inr [symmetric])

text \<open>A flit that enters a link leaves it \<open>nl_latency\<close> cycles later, when its reader is woken up.\<close>

lemma link_transfer_ready:
  assumes "link_transfer now src l = Inr (src', l', es)" and "isReady src now"
  shows "\<exists>f c. getTopFlit src = Inr (f, src') \<and> nl_consumer l = Some c \<and> es = [(c, now + nl_latency l)] \<and>
    nl_linkBuffer l' = insert_flit (set_time (now + nl_latency l) f) (nl_linkBuffer l) \<and>
    nl_link_utilized l' = nl_link_utilized l + 1"
  using assms by (auto simp: link_transfer_def Let_def split: option.splits)

lemma contents_count_up_at:
  assumes "i < length cs"
  shows "contents f (count_up cs i g) + f (cs ! i) = contents f cs + f (g (cs ! i))"
  using assms by (simp add: count_up_def contents_update)

text \<open>Two exchanges of the same things against each other change nothing.\<close>

lemma multiset_exchange:
  fixes x y z a b c d :: "'a multiset"
  assumes "x + a = y + b" and "y + c = z + d" and "d + b = c + a"
  shows "x = z"
proof -
  have "(x + a) + c = (y + c) + b" using assms(1) by (simp add: ac_simps)
  also have "\<dots> = z + (c + a)" using assms(2,3) by (simp add: add.assoc)
  finally have "x + (a + c) = z + (a + c)" by (simp add: ac_simps)
  then show ?thesis by (simp only: add_right_cancel)
qed

lemma nested_exchange:
  fixes x y r r' a b :: "'a multiset"
  assumes "r' + a = r + b" and "x + r = y + r'"
  shows "x + a = y + b"
proof -
  have "(x + a) + r = (y + r') + a" using assms(2) by (simp add: ac_simps)
  also have "\<dots> = y + (r + b)" using assms(1) by (simp add: add.assoc)
  finally have "(x + a) + r = (y + b) + r" by (simp add: ac_simps)
  then show ?thesis by (simp only: add_right_cancel)
qed

lemma write_flit_queue_tags:
  assumes "read_flit_queue net q = Inr src"
  shows "network_tags (write_flit_queue q b net) + buffer_tags src = network_tags net + buffer_tags b"
proof (cases q)
  case (RouterOut i p)
  with assms have i: "i < length (gn_routers net)" and p: "p < length (r_output_unit (gn_routers net ! i))"
    and src: "src = ou_out_buffer (r_output_unit (gn_routers net ! i) ! p)"
    by (auto simp: read_flit_queue_def at_eq_Inr)
  let ?r = "gn_routers net ! i"
  let ?r' = "?r\<lparr>r_output_unit := count_up (r_output_unit ?r) p (\<lambda>u. u\<lparr>ou_out_buffer := b\<rparr>)\<rparr>"
  have "router_tags ?r' + buffer_tags src = router_tags ?r + buffer_tags b"
    using contents_count_up_at [OF p, of "\<lambda>u. buffer_tags (ou_out_buffer u)" "\<lambda>u. u\<lparr>ou_out_buffer := b\<rparr>"]
    by (simp add: router_tags_def src ac_simps)
  moreover have "contents router_tags ((gn_routers net)[i := ?r']) + router_tags ?r = contents router_tags (gn_routers net) + router_tags ?r'"
    using i by (rule contents_update)
  ultimately have "contents router_tags ((gn_routers net)[i := ?r']) + buffer_tags src = contents router_tags (gn_routers net) + buffer_tags b"
    by (rule nested_exchange)
  then show ?thesis using RouterOut i
    by (simp add: write_flit_queue_def network_tags_def count_up_def [of "gn_routers net"] ac_simps)
next
  case (NIOut i)
  with assms have i: "i < length (gn_nis net)" and src: "src = ni_outFlitQueue (gn_nis net ! i)"
    by (auto simp: read_flit_queue_def at_eq_Inr)
  let ?n = "gn_nis net ! i" and ?n' = "(gn_nis net ! i)\<lparr>ni_outFlitQueue := b\<rparr>"
  have "ni_tags ?n' + buffer_tags src = ni_tags ?n + buffer_tags b" by (simp add: ni_tags_def src ac_simps)
  moreover have "contents ni_tags ((gn_nis net)[i := ?n']) + ni_tags ?n = contents ni_tags (gn_nis net) + ni_tags ?n'"
    using i by (rule contents_update)
  ultimately have "contents ni_tags ((gn_nis net)[i := ?n']) + buffer_tags src = contents ni_tags (gn_nis net) + buffer_tags b"
    by (rule nested_exchange)
  then show ?thesis using NIOut i
    by (simp add: write_flit_queue_def network_tags_def count_up_def ac_simps)
qed

lemma NetworkLink_wakeup_tags:
  assumes "NetworkLink_wakeup k net = Inr net'"
  shows "network_tags net' = network_tags net"
proof -
  from assms obtain q src src' l' es where k: "k < length (gn_networklinks net)"
    and src: "read_flit_queue net q = Inr src" and tr: "link_transfer (gn_cycle net) src (gn_networklinks net ! k) = Inr (src', l', es)"
    and net': "net' = schedule_events es ((write_flit_queue q src' net)\<lparr>gn_networklinks := (gn_networklinks net)[k := l']\<rparr>)"
    by (auto simp: NetworkLink_wakeup_def at_eq_Inr split: option.splits)
  let ?lt = "\<lambda>l :: flit_link. buffer_tags (nl_linkBuffer l)"
  let ?net1 = "write_flit_queue q src' net"
  have links: "gn_networklinks ?net1 = gn_networklinks net"
    by (simp add: write_flit_queue_def split: flit_queue_ref.splits)
  have t: "buffer_tags src' + ?lt l' = buffer_tags src + ?lt (gn_networklinks net ! k)"
    using link_transfer_tags [OF tr] by (simp add: buffer_tags_def)
  have "network_tags (?net1\<lparr>gn_networklinks := (gn_networklinks net)[k := l']\<rparr>) + ?lt (gn_networklinks net ! k)
      = network_tags ?net1 + ?lt l'"
    using contents_update [OF k, of ?lt l'] links by (simp add: network_tags_def ac_simps)
  then have "network_tags net' + ?lt (gn_networklinks net ! k) = network_tags ?net1 + ?lt l'"
    using net' by simp
  then show ?thesis
    using multiset_exchange [OF _ write_flit_queue_tags [OF src, of src'] t] by blast
qed

end
