(* ===== verification/Spin_Ring.thy ===== *)
theory Spin_Ring
  imports Links
begin

text \<open>
  \<open>GarnetNetwork::init_spinRing\<close> (src/gem5/src/mem/ruby/network/garnet2.0/GarnetNetwork.cc): the drain
  ring is read from a text file of router numbers and directions. The file is a \<open>std::ifstream\<close>,
  modelled by the characters left and its \<open>eof\<close> flag (the only flag the loop tests; \<open>fail\<close> is set
  only together with it): \<open>operator>>\<close> skips white space and reads up to the next one, and it leaves
  its argument as it is when nothing is left to read.

  The lemmas: what is written one entry per line, with no white space after the last, is read
  back as it was; with white space at the end of the file the simulator stops with
  \<open>Illegal direction name or format\<close>, since the variable still holds the direction already spelt out.
\<close>

section \<open>Input streams\<close>

definition is_space :: "char \<Rightarrow> bool" where
  "is_space c = (let n = (of_char c :: nat) in n = 32 \<or> 9 \<le> n \<and> n \<le> 13)"

record istream =
  is_rest :: string
  is_eof :: bool

definition open_stream :: "string \<Rightarrow> istream" where
  "open_stream content = \<lparr>is_rest = content, is_eof = False\<rparr>"

text \<open>\<open>infile >> data\<close>: the new value of \<open>data\<close> and the stream.\<close>

definition read_token :: "string \<Rightarrow> istream \<Rightarrow> string \<times> istream" where
  "read_token data s =
     (if is_eof s then (data, s)
      else let rest = dropWhile is_space (is_rest s) in
        if rest = [] then (data, \<lparr>is_rest = [], is_eof = True\<rparr>)
        else let rest' = dropWhile (\<lambda>c. \<not> is_space c) rest in
          (takeWhile (\<lambda>c. \<not> is_space c) rest, \<lparr>is_rest = rest', is_eof = (rest' = [])\<rparr>))"

section \<open>Numbers\<close>

definition is_digit :: "char \<Rightarrow> bool" where
  "is_digit c = (48 \<le> (of_char c :: nat) \<and> (of_char c :: nat) \<le> 57)"

fun digits_value :: "int \<Rightarrow> string \<Rightarrow> int" where
  "digits_value acc [] = acc"
| "digits_value acc (c # cs) = (if is_digit c then digits_value (acc * 10 + (of_char c - 48)) cs else acc)"

text \<open>\<open>std::stoi\<close> in base 10: it throws when there is no number and when it does not fit an \<open>int\<close>.\<close>

definition stoi :: "string \<Rightarrow> int res" where
  "stoi str =
     (let s = dropWhile is_space str;
          neg = (s \<noteq> [] \<and> hd s = CHR ''-'');
          ds = (if s \<noteq> [] \<and> (hd s = CHR ''-'' \<or> hd s = CHR ''+'') then tl s else s);
          v = (if neg then - digits_value 0 ds else digits_value 0 ds)
      in if ds = [] \<or> \<not> is_digit (hd ds) then Inl (Panic ''invalid_argument'')
         else if v < - (2 ^ 31) \<or> 2 ^ 31 \<le> v then Inl (Panic ''out_of_range'')
         else Inr v)"

section \<open>Reading the ring\<close>

definition spinStruct_new :: "int \<Rightarrow> port_direction \<Rightarrow> spinStruct" where
  "spinStruct_new i dirn = \<lparr>ss_router_id = i, ss_inport_dir = dirn, ss_flit = None\<rparr>"

definition dirn_of_letter :: "string \<Rightarrow> port_direction res" where
  "dirn_of_letter data =
     (if data = ''N'' \<or> data = ''n'' then Inr ''North''
      else if data = ''E'' \<or> data = ''e'' then Inr ''East''
      else if data = ''S'' \<or> data = ''s'' then Inr ''South''
      else if data = ''W'' \<or> data = ''w'' then Inr ''West''
      else Inl (Fatal ''Illegal direction name or format''))"

lemma read_token_shorter:
  assumes "\<not> is_eof s" and "\<not> is_eof (snd (read_token d s))"
  shows "length (is_rest (snd (read_token d s))) < length (is_rest s)"
proof -
  let ?rest = "dropWhile is_space (is_rest s)"
  have ne: "?rest \<noteq> []" using assms by (auto simp: read_token_def Let_def simp del: dropWhile_eq_Nil_conv split: if_splits)
  then have "\<not> is_space (hd ?rest)" by (rule hd_dropWhile)
  then have "length (dropWhile (\<lambda>c. \<not> is_space c) ?rest) < length ?rest"
    using ne length_dropWhile_le [of "\<lambda>c. \<not> is_space c" "tl ?rest"] by (cases ?rest) (auto simp: le_imp_less_Suc)
  then show ?thesis using ne assms(1) length_dropWhile_le [of is_space "is_rest s"]
    by (simp add: read_token_def Let_def del: dropWhile_eq_Nil_conv)
qed

lemma read_token_eof: "is_eof s \<Longrightarrow> read_token d s = (d, s)"
  by (simp add: read_token_def)

function read_ring :: "string \<Rightarrow> string \<Rightarrow> istream \<Rightarrow> spinStruct list \<Rightarrow> spinStruct list res" where
  "read_ring data data1 s ring =
     (if is_eof s then Inr ring
      else let (data', s1) = read_token data s; (data1', s2) = read_token data1 s1 in
        bnd (dirn_of_letter data1') (\<lambda>dirn.
        bnd (stoi data') (\<lambda>i. read_ring data' dirn s2 (ring @ [spinStruct_new i dirn]))))"
  by pat_completeness auto
termination
proof (relation "measure (\<lambda>(data, data1, s, ring). if is_eof s then 0 else Suc (length (is_rest s)))")
  fix data data1 :: string and s :: istream and ring :: "spinStruct list" and x data' s1 y data1' s2 dirn i
  assume e: "\<not> is_eof s" and x: "x = read_token data s" "(data', s1) = x"
    and y: "y = read_token data1 s1" "(data1', s2) = y"
  have "is_eof s2 \<or> length (is_rest s2) < length (is_rest s)"
  proof (cases "is_eof s1")
    case True
    then show ?thesis using y by (auto simp: read_token_eof)
  next
    case False
    have s1: "s1 = snd (read_token data s)" and s2: "s2 = snd (read_token data1 s1)"
      using x y by (metis snd_conv)+
    have "length (is_rest s1) < length (is_rest s)" using read_token_shorter [OF e] False s1 by simp
    then show ?thesis using read_token_shorter [OF False, of data1] s2 by fastforce
  qed
  then show "((data', dirn, s2, ring @ [spinStruct_new i dirn]), data, data1, s, ring)
      \<in> measure (\<lambda>(data, data1, s, ring). if is_eof s then 0 else Suc (length (is_rest s)))"
    using e by auto
qed simp

text \<open>\<open>content\<close> is the file, or \<open>None\<close> when it cannot be opened.\<close>

definition init_spinRing :: "int \<Rightarrow> string option \<Rightarrow> spinStruct list res" where
  "init_spinRing num_rows content =
     (case content of
        None \<Rightarrow> Inl (Fatal ''Couldn't open the file'')
      | Some text \<Rightarrow>
          bnd (read_ring [] [] (open_stream text) [spinStruct_new (-1) ''Unknown'']) (\<lambda>ring.
          bnd (if ss_router_id (last ring) = 1 then Inr (ring[0 := spinStruct_new 0 ''East''])
               else if ss_router_id (last ring) = num_rows then Inr (ring[0 := spinStruct_new 0 ''North''])
               else Inl AssertFail) (\<lambda>ring'.
          Inr (ring' @ [ring' ! 0]))))"

declare read_ring.simps [simp del]

section \<open>Reading back a ring\<close>

text \<open>How the shipped configuration files are written.\<close>

fun show_nat :: "nat \<Rightarrow> string" where
  "show_nat n = (if n < 10 then [char_of (48 + n)] else show_nat (n div 10) @ [char_of (48 + n mod 10)])"

declare show_nat.simps [simp del]

definition letter_of_dirn :: "port_direction \<Rightarrow> string" where
  "letter_of_dirn d = take 1 d"

definition compass :: "port_direction list" where
  "compass = [''North'', ''East'', ''South'', ''West'']"

fun show_ring :: "(nat \<times> port_direction) list \<Rightarrow> string" where
  "show_ring [] = []"
| "show_ring [(i, d)] = show_nat i @ '' '' @ letter_of_dirn d"
| "show_ring ((i, d) # e # es) = show_nat i @ '' '' @ letter_of_dirn d @ [CHR 0x0A] @ show_ring (e # es)"

lemma digits_value_append:
  "list_all is_digit ds \<Longrightarrow> digits_value a (ds @ es) = digits_value (digits_value a ds) es"
  by (induction ds arbitrary: a) auto

lemma digit_char: "n < 10 \<Longrightarrow> is_digit (char_of (48 + n))" "n < 10 \<Longrightarrow> \<not> is_space (char_of (48 + n))"
  "n < 10 \<Longrightarrow> (of_char (char_of (48 + n) :: char) :: int) = int (48 + n)"
proof -
  assume n: "n < 10"
  then have v: "(of_char (char_of (48 + n) :: char) :: nat) = 48 + n" by simp
  then show "is_digit (char_of (48 + n))" "\<not> is_space (char_of (48 + n))"
    using n by (simp_all add: is_digit_def is_space_def)
  show "(of_char (char_of (48 + n) :: char) :: int) = int (48 + n)" using v by (metis of_nat_of_char)
qed

lemma show_nat_digits: "list_all is_digit (show_nat n) \<and> list_all (\<lambda>c. \<not> is_space c) (show_nat n) \<and>
    show_nat n \<noteq> [] \<and> digits_value 0 (show_nat n) = int n"
proof (induction n rule: show_nat.induct)
  case (1 n)
  show ?case
  proof (cases "n < 10")
    case True
    then show ?thesis using digit_char [of n] by (simp add: show_nat.simps [of n])
  next
    case False
    have "n mod 10 < 10" by simp
    moreover have "int (n div 10) * 10 + int (n mod 10) = int n"
      by (metis div_mult_mod_eq of_nat_add of_nat_mult of_nat_numeral)
    ultimately show ?thesis using 1 [OF False] digit_char [of "n mod 10"] False
      by (simp add: show_nat.simps [of n] digits_value_append)
  qed
qed

lemma stoi_show_nat: "n < 2 ^ 31 \<Longrightarrow> stoi (show_nat n) = Inr (int n)"
proof -
  assume n: "n < 2 ^ 31"
  obtain c cs where c: "show_nat n = c # cs" using show_nat_digits [of n] by (cases "show_nat n") auto
  have d: "is_digit c" "\<not> is_space c" "digits_value 0 (c # cs) = int n"
    using show_nat_digits [of n] c by auto
  have "c \<noteq> CHR ''-''" "c \<noteq> CHR ''+''" using d(1) by (auto simp: is_digit_def)
  moreover have "int n < 2 ^ 31" using n by (metis of_nat_less_iff of_nat_numeral of_nat_power)
  ultimately show ?thesis using d by (simp add: stoi_def c Let_def)
qed

lemma read_token_word:
  assumes "w \<noteq> []" "list_all (\<lambda>c. \<not> is_space c) w" "rest = [] \<or> is_space (hd rest)"
    and "list_all is_space ws" "is_rest s = ws @ w @ rest" "\<not> is_eof s"
  shows "read_token d s = (w, \<lparr>is_rest = rest, is_eof = (rest = [])\<rparr>)"
proof -
  have "dropWhile is_space (ws @ w @ rest) = w @ rest"
    using assms(1,2,4) by (cases w) (auto simp: list_all_iff dropWhile_append2)
  moreover have "takeWhile (\<lambda>c. \<not> is_space c) (w @ rest) = w" "dropWhile (\<lambda>c. \<not> is_space c) (w @ rest) = rest"
    using assms(2,3) by (cases rest; simp add: list_all_iff takeWhile_append2 dropWhile_append2)+
  ultimately show ?thesis using assms(1,5,6) by (simp add: read_token_def Let_def)
qed

definition ring_entry_ok :: "nat \<times> port_direction \<Rightarrow> bool" where
  "ring_entry_ok e = (fst e < 2 ^ 31 \<and> snd e \<in> set compass)"

lemma compassE:
  assumes "d \<in> set compass"
  obtains "d = ''North''" | "d = ''East''" | "d = ''South''" | "d = ''West''"
  using assms unfolding compass_def by auto

lemma letter_ok:
  "d \<in> set compass \<Longrightarrow> letter_of_dirn d \<noteq> [] \<and> list_all (\<lambda>c. \<not> is_space c) (letter_of_dirn d) \<and>
     dirn_of_letter (letter_of_dirn d) = Inr d \<and> dirn_of_letter d = Inl (Fatal ''Illegal direction name or format'')"
  by (elim compassE) (simp_all add: letter_of_dirn_def dirn_of_letter_def is_space_def)

text \<open>One entry of the file, and what follows it.\<close>

lemma read_ring_entry:
  assumes e: "ring_entry_ok (i, d)" and rest: "rest = [] \<or> is_space (hd rest)" and ws: "list_all is_space ws"
  shows "read_ring dt dt1 \<lparr>is_rest = ws @ show_nat i @ '' '' @ letter_of_dirn d @ rest, is_eof = False\<rparr> ring =
    read_ring (show_nat i) d \<lparr>is_rest = rest, is_eof = (rest = [])\<rparr> (ring @ [spinStruct_new (int i) d])"
proof -
  have d: "d \<in> set compass" and i: "i < 2 ^ 31" using e by (simp_all add: ring_entry_ok_def)
  note l = letter_ok [OF d] and n = show_nat_digits [of i]
  let ?s1 = "\<lparr>is_rest = '' '' @ letter_of_dirn d @ rest, is_eof = False\<rparr>"
  have t1: "read_token dt \<lparr>is_rest = ws @ show_nat i @ '' '' @ letter_of_dirn d @ rest, is_eof = False\<rparr> = (show_nat i, ?s1)"
    using n ws by (subst read_token_word [where w = "show_nat i" and rest = "'' '' @ letter_of_dirn d @ rest"])
      (auto simp: is_space_def)
  have t2: "read_token dt1 ?s1 = (letter_of_dirn d, \<lparr>is_rest = rest, is_eof = (rest = [])\<rparr>)"
    using l rest by (subst read_token_word [where ws = "'' ''" and w = "letter_of_dirn d" and rest = rest])
      (auto simp: is_space_def)
  show ?thesis using t1 t2 l stoi_show_nat [OF i]
    by (subst read_ring.simps) (simp only: istream.simps if_False Let_def case_prod_conv bnd_Inr)
qed

lemma read_ring_show:
  assumes "es \<noteq> []" "list_all ring_entry_ok es" "tail = [] \<or> is_space (hd tail)" "list_all is_space ws"
  shows "read_ring dt dt1 \<lparr>is_rest = ws @ show_ring es @ tail, is_eof = False\<rparr> ring =
    read_ring (show_nat (fst (last es))) (snd (last es)) \<lparr>is_rest = tail, is_eof = (tail = [])\<rparr>
      (ring @ map (\<lambda>(i, d). spinStruct_new (int i) d) es)"
  using assms
proof (induction es arbitrary: dt dt1 ws ring rule: show_ring.induct)
  case (2 i d)
  then show ?case using read_ring_entry [of i d tail ws dt dt1 ring] by simp
next
  case (3 i d e es)
  have nl: "is_space (CHR 0x0A)" by (simp add: is_space_def)
  have "read_ring dt dt1 \<lparr>is_rest = ws @ show_nat i @ '' '' @ letter_of_dirn d @ ([CHR 0x0A] @ show_ring (e # es) @ tail),
      is_eof = False\<rparr> ring =
    read_ring (show_nat i) d \<lparr>is_rest = [CHR 0x0A] @ show_ring (e # es) @ tail, is_eof = False\<rparr>
      (ring @ [spinStruct_new (int i) d])"
    using 3(3,5) nl by (subst read_ring_entry) auto
  then show ?case
    using 3(1) [of "[CHR 0x0A]" "show_nat i" d "ring @ [spinStruct_new (int i) d]"] 3(3-) nl by simp
qed simp

lemma init_spinRing_show:
  assumes "es \<noteq> []" "list_all ring_entry_ok es" and "int (fst (last es)) = 1 \<or> int (fst (last es)) = rows"
  shows "init_spinRing rows (Some (show_ring es)) =
    (let first = spinStruct_new 0 (if fst (last es) = 1 then ''East'' else ''North'')
     in Inr (first # map (\<lambda>(i, d). spinStruct_new (int i) d) es @ [first]))"
proof -
  let ?m = "map (\<lambda>(i, d). spinStruct_new (int i) d) es" and ?u = "spinStruct_new (-1) ''Unknown''"
  have "read_ring [] [] (open_stream (show_ring es)) [?u] =
      read_ring (show_nat (fst (last es))) (snd (last es)) \<lparr>is_rest = [], is_eof = True\<rparr> ([?u] @ ?m)"
    using read_ring_show [OF assms(1,2), of "[]" "[]" "[]" "[]" "[?u]"] by (simp add: open_stream_def)
  then have "read_ring [] [] (open_stream (show_ring es)) [?u] = Inr (?u # ?m)"
    by (simp add: read_ring.simps)
  moreover have "ss_router_id (last (?u # ?m)) = int (fst (last es))"
    using assms(1) by (simp add: last_map spinStruct_new_def case_prod_beta)
  ultimately show ?thesis using assms(3) by (auto simp: init_spinRing_def Let_def)
qed

lemma init_spinRing_trailing_space:
  assumes "es \<noteq> []" "list_all ring_entry_ok es" and "ws \<noteq> []" "list_all is_space ws"
  shows "init_spinRing rows (Some (show_ring es @ ws)) = Inl (Fatal ''Illegal direction name or format'')"
proof -
  let ?u = "spinStruct_new (-1) ''Unknown''" and ?d = "snd (last es)"
  have sp: "is_space (hd ws)" using assms(3,4) by (cases ws) auto
  have d: "?d \<in> set compass" using assms(1,2) last_in_set [of es] by (auto simp: list_all_iff ring_entry_ok_def)
  have dw: "dropWhile is_space ws = []" using assms(4) by (simp add: dropWhile_eq_Nil_conv list_all_iff)
  have "read_ring [] [] (open_stream (show_ring es @ ws)) [?u] =
      read_ring (show_nat (fst (last es))) ?d \<lparr>is_rest = ws, is_eof = False\<rparr>
        ([?u] @ map (\<lambda>(i, d). spinStruct_new (int i) d) es)"
    using read_ring_show [OF assms(1,2), of ws "[]" "[]" "[]" "[?u]"] sp assms(3) by (simp add: open_stream_def)
  also have "\<dots> = Inl (Fatal ''Illegal direction name or format'')"
    using letter_ok [OF d] dw by (subst read_ring.simps) (simp add: read_token_def Let_def)
  finally show ?thesis by (simp add: init_spinRing_def)
qed

end
