(* ===== verification/Routing_Correct.thy ===== *)
theory Routing_Correct
  imports Routing_Unit
begin

text \<open>
  What the routing functions of \<open>RoutingUnit.cc\<close> guarantee: the routing table yields a link of
  minimal weight among those that lead to the destination and, among these, the first with the
  most free channels; the mesh algorithms return the port of a productive direction; the turn
  restrictions of XY and of west-first routing; and routing changes nothing of the network but the
  direction maps (where \<open>operator[]\<close> may add a key) and the random stream.
\<close>

section \<open>The routing table\<close>

definition leads_to :: "routing_unit \<Rightarrow> net_dest \<Rightarrow> nat \<Rightarrow> bool" where
  "leads_to ru dest link = (nd_elems dest \<inter> nd_elems (ru_routing_table ru ! link) \<noteq> {})"

text \<open>Every entry has as many sets as the destination, and every link has a weight.\<close>

definition table_ok :: "routing_unit \<Rightarrow> net_dest \<Rightarrow> bool" where
  "table_ok ru dest =
     (length (ru_weight_table ru) = length (ru_routing_table ru) \<and>
      list_all (\<lambda>e. length (nd_bits e) = length (nd_bits dest)) (ru_routing_table ru))"

lemma table_ok_hit:
  assumes "table_ok ru dest" and "l < length (ru_routing_table ru)"
  shows "NetDest_intersectionIsNotEmpty dest (ru_routing_table ru ! l) = Inr (leads_to ru dest l)"
proof -
  have "length (nd_bits dest) = length (nd_bits (ru_routing_table ru ! l))"
    using assms by (auto simp: table_ok_def list_all_length)
  then obtain b where b: "NetDest_intersectionIsNotEmpty dest (ru_routing_table ru ! l) = Inr b"
    by (simp add: NetDest_intersectionIsNotEmpty_def)
  with NetDest_intersectionIsNotEmpty_iff [OF b] show ?thesis by (simp add: leads_to_def)
qed

lemma min_weight_step_ok:
  assumes "table_ok ru dest" and "l < length (ru_routing_table ru)"
  shows "min_weight_step ru dest l m = Inr (if leads_to ru dest l then min (ru_weight_table ru ! l) m else m)"
proof -
  have "l < length (ru_weight_table ru)" using assms by (simp add: table_ok_def)
  then show ?thesis using table_ok_hit [OF assms] by (simp add: min_weight_step_def min_def)
qed

lemma candidate_step_ok:
  assumes "table_ok ru dest" and "l < length (ru_routing_table ru)"
  shows "candidate_step ru dest m l cs =
    Inr (cs @ (if leads_to ru dest l \<and> ru_weight_table ru ! l = m then [l] else []))"
proof -
  have "l < length (ru_weight_table ru)" using assms by (simp add: table_ok_def)
  then show ?thesis using table_ok_hit [OF assms] by (simp add: candidate_step_def)
qed

lemma min_weight_fold:
  assumes "table_ok ru dest" and "\<forall>l \<in> set ls. l < length (ru_routing_table ru)"
  shows "\<exists>m. foldM (min_weight_step ru dest) ls m0 = Inr m \<and> m \<le> m0 \<and>
    (\<forall>l \<in> set ls. leads_to ru dest l \<longrightarrow> m \<le> ru_weight_table ru ! l) \<and>
    (m = m0 \<or> (\<exists>l \<in> set ls. leads_to ru dest l \<and> ru_weight_table ru ! l = m))"
  using assms(2)
proof (induction ls arbitrary: m0)
  case (Cons l ls)
  let ?m1 = "if leads_to ru dest l then min (ru_weight_table ru ! l) m0 else m0"
  have l: "min_weight_step ru dest l m0 = Inr ?m1" using min_weight_step_ok [OF assms(1)] Cons.prems by simp
  from Cons.IH [of ?m1] Cons.prems obtain m where m: "foldM (min_weight_step ru dest) ls ?m1 = Inr m" "m \<le> ?m1"
    "\<forall>l \<in> set ls. leads_to ru dest l \<longrightarrow> m \<le> ru_weight_table ru ! l"
    "m = ?m1 \<or> (\<exists>l \<in> set ls. leads_to ru dest l \<and> ru_weight_table ru ! l = m)" by auto
  have "foldM (min_weight_step ru dest) (l # ls) m0 = Inr m" using l m(1) by simp
  moreover have "m \<le> m0" and "leads_to ru dest l \<Longrightarrow> m \<le> ru_weight_table ru ! l"
    using m(2) by (auto split: if_splits)
  moreover have "m = m0 \<or> (\<exists>k \<in> set (l # ls). leads_to ru dest k \<and> ru_weight_table ru ! k = m)"
    using m(4) by (auto simp: min_def split: if_splits)
  ultimately show ?case using m(3) by (intro exI [of _ m]) auto
qed simp

lemma candidate_fold:
  assumes "table_ok ru dest" and "\<forall>l \<in> set ls. l < length (ru_routing_table ru)"
  shows "foldM (candidate_step ru dest m) ls cs =
    Inr (cs @ filter (\<lambda>l. leads_to ru dest l \<and> ru_weight_table ru ! l = m) ls)"
  using assms(2) by (induction ls arbitrary: cs) (auto simp: candidate_step_ok [OF assms(1)])

text \<open>The candidates: the lightest links that lead to the destination, in port order.\<close>

definition best_links :: "routing_unit \<Rightarrow> net_dest \<Rightarrow> nat list" where
  "best_links ru dest =
     filter (\<lambda>l. leads_to ru dest l \<and> ru_weight_table ru ! l \<le> int INFINITE \<and>
               (\<forall>k < length (ru_routing_table ru). leads_to ru dest k \<longrightarrow>
                  ru_weight_table ru ! l \<le> ru_weight_table ru ! k))
       [0..<length (ru_routing_table ru)]"

lemma pref_outport_eq:
  assumes "table_ok ru dest"
  shows "lookupRoutingTable_pref_outport ru dest =
    (if best_links ru dest = [] then Inl (Fatal ''No Route exists from this Router.'')
     else Inr (best_links ru dest))"
proof -
  let ?ls = "[0..<length (ru_routing_table ru)]"
  from min_weight_fold [OF assms, of ?ls "int INFINITE"] obtain m where
    m: "foldM (min_weight_step ru dest) ?ls (int INFINITE) = Inr m" "m \<le> int INFINITE"
      "\<forall>l \<in> set ?ls. leads_to ru dest l \<longrightarrow> m \<le> ru_weight_table ru ! l"
      "m = int INFINITE \<or> (\<exists>l \<in> set ?ls. leads_to ru dest l \<and> ru_weight_table ru ! l = m)" by auto
  have "(leads_to ru dest l \<and> ru_weight_table ru ! l = m) \<longleftrightarrow>
      (leads_to ru dest l \<and> ru_weight_table ru ! l \<le> int INFINITE \<and>
       (\<forall>k < length (ru_routing_table ru). leads_to ru dest k \<longrightarrow> ru_weight_table ru ! l \<le> ru_weight_table ru ! k))"
    if "l \<in> set ?ls" for l
    using m(2-4) that by (auto intro: antisym)
  then have "filter (\<lambda>l. leads_to ru dest l \<and> ru_weight_table ru ! l = m) ?ls = best_links ru dest"
    unfolding best_links_def by (rule filter_cong [OF refl])
  then show ?thesis
    using m(1) candidate_fold [OF assms, of ?ls m "[]"] by (simp add: lookupRoutingTable_pref_outport_def)
qed

lemma max_index_spec:
  assumes "\<forall>c \<in> set cs. 0 \<le> c"
  shows "(cs = [] \<and> max_index cs i mx cand = cand) \<or>
    (\<forall>c \<in> set cs. c \<le> mx) \<and> max_index cs i mx cand = cand \<or>
    (\<exists>j < length cs. max_index cs i mx cand = int (i + j) \<and> mx < cs ! j \<and>
       (\<forall>c \<in> set cs. c \<le> cs ! j) \<and> (\<forall>k < j. cs ! k < cs ! j))"
  using assms
proof (induction cs arbitrary: i mx cand)
  case (Cons c cs)
  show ?case
  proof (cases "mx < c")
    case True
    from Cons.IH [of "Suc i" c "int i"] Cons.prems consider
      (stays) "\<forall>d \<in> set cs. d \<le> c" "max_index cs (Suc i) c (int i) = int i"
      | (later) j where "j < length cs" "max_index cs (Suc i) c (int i) = int (Suc i + j)" "c < cs ! j"
          "\<forall>d \<in> set cs. d \<le> cs ! j" "\<forall>k<j. cs ! k < cs ! j" by auto
    then show ?thesis
    proof cases
      case stays
      then show ?thesis using True by (intro disjI2 exI [of _ 0]) auto
    next
      case later
      then show ?thesis using True
        by (intro disjI2 exI [of _ "Suc j"]) (auto simp: less_Suc_eq_0_disj)
    qed
  next
    case False
    from Cons.IH [of "Suc i" mx cand] Cons.prems consider
      (none) "\<forall>d \<in> set cs. d \<le> mx" "max_index cs (Suc i) mx cand = cand"
      | (some) j where "j < length cs" "max_index cs (Suc i) mx cand = int (Suc i + j)" "mx < cs ! j"
          "\<forall>d \<in> set cs. d \<le> cs ! j" "\<forall>k<j. cs ! k < cs ! j" by auto
    then show ?thesis
    proof cases
      case none
      then show ?thesis using False by auto
    next
      case some
      then show ?thesis using False
        by (intro disjI2 exI [of _ "Suc j"]) (auto simp: less_Suc_eq_0_disj)
    qed
  qed
qed simp

lemma traverse_Inr:
  "traverse f xs = Inr ys \<Longrightarrow> length ys = length xs \<and> (\<forall>i < length xs. f (xs ! i) = Inr (ys ! i))"
proof (induction xs arbitrary: ys)
  case (Cons x xs)
  then show ?case by (force simp: less_Suc_eq_0_disj)
qed simp

lemma ou_getNumFreeVCs_nonneg: "ou_getNumFreeVCs now vnet u = Inr n \<Longrightarrow> 0 \<le> n"
  unfolding ou_getNumFreeVCs_def
  by (erule foldM_invariant [where I = "\<lambda>n. 0 \<le> n"]) (auto split: if_splits)

lemma lookupRoutingTable_spec:
  assumes t: "table_ok ru dest" and l: "lookupRoutingTable now ru outs vnet dest = Inr link"
  shows "\<exists>j free. link = int (best_links ru dest ! j) \<and> j < length (best_links ru dest) \<and>
    length free = length (best_links ru dest) \<and>
    (\<forall>k < length free. best_links ru dest ! k < length outs \<and>
       ou_getNumFreeVCs now (nat vnet) (outs ! (best_links ru dest ! k)) = Inr (free ! k)) \<and>
    (\<forall>k < length free. free ! k \<le> free ! j) \<and> (\<forall>k < j. free ! k < free ! j)"
proof -
  let ?bl = "best_links ru dest"
  from l pref_outport_eq [OF t] obtain free out where ne: "?bl \<noteq> []"
    and tr: "traverse (\<lambda>l. bnd (at outs (int l)) (\<lambda>u.
        if vnet < 0 then Inl OutOfRange else ou_getNumFreeVCs now (nat vnet) u)) ?bl = Inr free"
    and out: "at ?bl (max_index free 0 (-1) (-1)) = Inr out" "link = int out"
    by (auto simp: lookupRoutingTable_def split: if_splits)
  from traverse_Inr [OF tr] have len: "length free = length ?bl"
    and fr: "\<forall>k < length ?bl. ?bl ! k < length outs \<and>
      ou_getNumFreeVCs now (nat vnet) (outs ! (?bl ! k)) = Inr (free ! k)"
    by (auto simp: at_def split: if_splits)
  have nonneg: "\<forall>c \<in> set free. 0 \<le> c"
    using fr len ou_getNumFreeVCs_nonneg by (metis in_set_conv_nth)
  have "free \<noteq> []" using ne len by auto
  then have "\<not> (\<forall>c \<in> set free. c \<le> -1)" using nonneg by (cases free) auto
  with max_index_spec [OF nonneg, of 0 "-1" "-1"] \<open>free \<noteq> []\<close> obtain j where
    j: "j < length free" "max_index free 0 (-1) (-1) = int j" "\<forall>c \<in> set free. c \<le> free ! j"
      "\<forall>k < j. free ! k < free ! j" by auto
  then have "link = int (?bl ! j)" using out len by (simp add: at_def)
  then show ?thesis using j len fr by (intro exI [of _ j] exI [of _ free]) auto
qed

section \<open>Turn restrictions\<close>

text \<open>XY routing never turns from the y dimension back to the x dimension.\<close>

definition vertical :: "port_direction \<Rightarrow> bool" where
  "vertical d = (d = ''North'' \<or> d = ''South'')"

lemma XY_dirn_vertical: "mesh_delta_ok d \<Longrightarrow> vertical (XY_dirn d) \<longleftrightarrow> fst d = 0"
  by (cases d) (auto simp: vertical_def mesh_delta_ok_def)

lemma vertical_hop_column:
  assumes "in_mesh C a" "vertical dirn" "get_upstreamId C dirn a = Inr n"
  shows "n mod nc_num_cols C = a mod nc_num_cols C"
  using assms by (auto simp: vertical_def get_upstreamId_def in_mesh_def column_step)

lemma XY_no_turn_into_row:
  assumes mesh: "in_mesh C a" "in_mesh C b" and d: "mesh_delta_of C a b = Inr d" "vertical (XY_dirn d)"
    and n: "get_upstreamId C (XY_dirn d) a = Inr n" and next_hop: "mesh_delta_of C n b = Inr d'"
  shows "vertical (XY_dirn d')"
proof -
  have ok: "mesh_delta_ok d" "mesh_delta_ok d'" using d(1) next_hop by (auto intro: mesh_delta_of_ok)
  from productive_step [OF mesh d(1) xy.pick_productive [OF ok(1)]] n have m: "in_mesh C n" by auto
  have "fst d = 0" using XY_dirn_vertical [OF ok(1)] d(2) by simp
  then have "b mod nc_num_cols C = a mod nc_num_cols C" using mesh_delta_of_Inr [OF mesh d(1)] by simp
  moreover have "n mod nc_num_cols C = a mod nc_num_cols C" by (rule vertical_hop_column [OF mesh(1) d(2) n])
  ultimately have "fst d' = 0" using mesh_delta_of_Inr [OF m mesh(2) next_hop] by simp
  then show ?thesis using XY_dirn_vertical [OF ok(2)] by simp
qed

text \<open>
  West-first routing goes west only as long as the destination is to the west; a hop that is not
  to the west leaves nothing to the west.
\<close>

lemma west_first_west:
  "mesh_delta_ok (xh, yh, xd, yd) \<Longrightarrow> xh = 0 \<longrightarrow> xd \<Longrightarrow>
     west_first_dirn rnd (xh, yh, xd, yd) = ''West'' \<longleftrightarrow> \<not> xd"
  by (auto simp: mesh_delta_ok_def)

lemma adapt_west_first_west:
  "mesh_delta_ok (xh, yh, xd, yd) \<Longrightarrow> xh = 0 \<longrightarrow> xd \<Longrightarrow>
     adapt_west_first_dirn fx fy rnd (xh, yh, xd, yd) = ''West'' \<longleftrightarrow> \<not> xd"
  by (auto simp: mesh_delta_ok_def more_free_def)

section \<open>Routing changes only the direction maps\<close>

definition forget_maps :: "router \<Rightarrow> router" where
  "forget_maps r = r\<lparr>r_routing_unit := (r_routing_unit r)
     \<lparr>ru_inports_dirn2idx := Map.empty, ru_outports_dirn2idx := Map.empty\<rparr>\<rparr>"

definition net_core :: "garnet_network \<Rightarrow> garnet_network" where
  "net_core net = net\<lparr>gn_routers := map forget_maps (gn_routers net), gn_random := (\<lambda>_. 0)\<rparr>"

definition maps_le :: "router \<Rightarrow> router \<Rightarrow> bool" where
  "maps_le r r' = (ru_inports_dirn2idx (r_routing_unit r) \<subseteq>\<^sub>m ru_inports_dirn2idx (r_routing_unit r') \<and>
     ru_outports_dirn2idx (r_routing_unit r) \<subseteq>\<^sub>m ru_outports_dirn2idx (r_routing_unit r'))"

definition route_frame :: "garnet_network \<Rightarrow> garnet_network \<Rightarrow> bool" where
  "route_frame net net' = (net_core net' = net_core net \<and> list_all2 maps_le (gn_routers net) (gn_routers net'))"

lemma maps_le_refl [simp]: "maps_le r r"
  by (simp add: maps_le_def)

lemma maps_le_trans: "maps_le a b \<Longrightarrow> maps_le b c \<Longrightarrow> maps_le a c"
  by (auto simp: maps_le_def intro: map_le_trans)

lemma route_frame_refl [simp]: "route_frame net net"
  by (simp add: route_frame_def list_all2_refl)

lemma route_frame_trans: "route_frame a b \<Longrightarrow> route_frame b c \<Longrightarrow> route_frame a c"
  unfolding route_frame_def by (auto intro: list_all2_trans [OF maps_le_trans])

lemma route_frame_put:
  assumes "i < length (gn_routers net)" and "forget_maps r = forget_maps (gn_routers net ! i)"
    and "maps_le (gn_routers net ! i) r"
  shows "route_frame net (put_router net i r)"
proof -
  have "map forget_maps ((gn_routers net)[i := r]) = map forget_maps (gn_routers net)"
    using assms(1,2) by (simp add: map_update list_update_same_conv)
  then show ?thesis using assms
    by (auto simp: route_frame_def net_core_def put_router_def list_all2_conv_all_nth nth_list_update)
qed

lemma map_index_le: "m \<subseteq>\<^sub>m snd (map_index m k)"
  by (auto simp: map_index_def map_le_def split: option.splits)

lemma route_frame_put_maps:
  assumes "i < length (gn_routers net)" and "maps_le (gn_routers net ! i) ((gn_routers net ! i)\<lparr>r_routing_unit := ru\<rparr>)"
    and "ru\<lparr>ru_inports_dirn2idx := Map.empty, ru_outports_dirn2idx := Map.empty\<rparr> =
      (r_routing_unit (gn_routers net ! i))\<lparr>ru_inports_dirn2idx := Map.empty, ru_outports_dirn2idx := Map.empty\<rparr>"
  shows "route_frame net (put_router net i ((gn_routers net ! i)\<lparr>r_routing_unit := ru\<rparr>))"
  using assms by (intro route_frame_put) (simp_all add: forget_maps_def)

lemma route_frame_random: "next_random net = (rnd, net') \<Longrightarrow> route_frame net net'"
  by (auto simp: next_random_def route_frame_def net_core_def list_all2_refl)

lemma route_frame_outport_of_dirn:
  assumes "outport_of_dirn net rid dirn = Inr (p, net')"
  shows "route_frame net net'"
  using assms
  by (auto simp: outport_of_dirn_def get_router_def at_eq_Inr Let_def maps_le_def case_prod_beta
      map_index_le intro!: route_frame_put_maps)

lemma route_frame_neighbour_free:
  assumes "neighbour_free net rid d1 d2 = Inr (n, net')"
  shows "route_frame net net'"
  using assms
  by (auto simp: neighbour_free_def get_upstreamrouter_def Router_get_numFreeVC_def Let_def maps_le_def
      case_prod_beta map_index_le nat_less_iff split: option.splits if_splits intro!: route_frame_put_maps)

lemma route_frame_XY: "outportComputeXY net rid route = Inr (p, net') \<Longrightarrow> route_frame net net'"
  by (auto simp: outportComputeXY_def dest: route_frame_outport_of_dirn)

lemma route_frame_Random:
  assumes "outportComputeRandom net rid route = Inr (p, net')"
  shows "route_frame net net'"
proof -
  obtain xh yh xd yd where d: "mesh_delta_at net rid route = Inr (xh, yh, xd, yd)"
    using assms by (auto simp: outportComputeRandom_def)
  obtain rnd net1 where r: "next_random net = (rnd, net1)" by force
  show ?thesis using assms
    by (auto simp: outportComputeRandom_def Let_def d r split: if_splits
        dest: route_frame_outport_of_dirn intro: route_frame_trans [OF route_frame_random [OF r]])
qed

lemma route_frame_WestFirst:
  assumes "outportComputeWestFirst net rid route = Inr (p, net')"
  shows "route_frame net net'"
proof -
  from assms obtain rnd net1 dirn where "outport_of_dirn net1 rid dirn = Inr (p, net')"
    and "next_random net = (rnd, net1)"
    by (auto simp: outportComputeWestFirst_def Let_def split: prod.splits)
  then show ?thesis
    by (metis route_frame_outport_of_dirn route_frame_random route_frame_trans)
qed

text \<open>The adaptive algorithms look at two neighbours before they look up the port.\<close>

lemma route_frame_two_neighbours:
  assumes "next_random net = (rnd, net1)" and "neighbour_free net1 rid d1 d2 = Inr (fx, net2)"
    and "neighbour_free net2 rid e1 e2 = Inr (fy, net3)" and "outport_of_dirn net3 rid dirn = Inr (p, net')"
  shows "route_frame net net'"
  using route_frame_random [OF assms(1)] route_frame_neighbour_free [OF assms(2)]
    route_frame_neighbour_free [OF assms(3)] route_frame_outport_of_dirn [OF assms(4)]
  by (blast intro: route_frame_trans)

lemma route_frame_AdaptRand:
  assumes "outportComputeAdaptRand net rid route = Inr (p, net')"
  shows "route_frame net net'"
proof -
  obtain xh yh xd yd where d: "mesh_delta_at net rid route = Inr (xh, yh, xd, yd)"
    using assms by (auto simp: outportComputeAdaptRand_def)
  obtain rnd net1 where r: "next_random net = (rnd, net1)" by force
  show ?thesis using assms
    by (auto simp: outportComputeAdaptRand_def Let_def d r split: if_splits
        dest: route_frame_outport_of_dirn route_frame_two_neighbours [OF r])
qed

lemma route_frame_AdaptWestFirst:
  assumes "outportComputeAdaptWestFirst net rid route = Inr (p, net')"
  shows "route_frame net net'"
proof -
  obtain xh yh xd yd where d: "mesh_delta_at net rid route = Inr (xh, yh, xd, yd)"
    using assms by (auto simp: outportComputeAdaptWestFirst_def)
  obtain rnd net1 where r: "next_random net = (rnd, net1)" by force
  show ?thesis using assms
    by (auto simp: outportComputeAdaptWestFirst_def Let_def d r split: if_splits
        dest: route_frame_outport_of_dirn route_frame_two_neighbours [OF r]
        intro: route_frame_trans [OF route_frame_random [OF r]])
qed

lemma route_frame_table: "route_by_table net rid route = Inr (p, net') \<Longrightarrow> route_frame net net'"
  by (auto simp: route_by_table_def)

lemma route_frame_outportCompute:
  assumes "outportCompute net rid route = Inr (p, net')"
  shows "route_frame net net'"
  using assms
  by (auto simp: outportCompute_def outportComputeCustom_def split: if_splits RoutingAlgorithm.splits
      dest: route_frame_XY route_frame_Random route_frame_WestFirst route_frame_AdaptRand
        route_frame_AdaptWestFirst route_frame_table)

lemma route_frame_routers:
  assumes "route_frame net net'"
  shows "length (gn_routers net') = length (gn_routers net)"
    and "i < length (gn_routers net) \<Longrightarrow> forget_maps (gn_routers net' ! i) = forget_maps (gn_routers net ! i)"
    and "i < length (gn_routers net) \<Longrightarrow> maps_le (gn_routers net ! i) (gn_routers net' ! i)"
proof -
  have m: "map forget_maps (gn_routers net') = map forget_maps (gn_routers net)"
  proof -
    have "gn_routers (net_core net') = gn_routers (net_core net)" using assms by (simp add: route_frame_def)
    then show ?thesis by (simp add: net_core_def)
  qed
  show len: "length (gn_routers net') = length (gn_routers net)" using m by (rule map_eq_imp_length_eq)
  show "forget_maps (gn_routers net' ! i) = forget_maps (gn_routers net ! i)" if "i < length (gn_routers net)"
    using m that len by (metis nth_map)
  show "maps_le (gn_routers net ! i) (gn_routers net' ! i)" if "i < length (gn_routers net)"
    using assms that by (auto simp: route_frame_def list_all2_conv_all_nth)
qed

lemma forget_maps_fields:
  assumes "forget_maps r' = forget_maps r"
  shows "r_id r' = r_id r" "r_latency r' = r_latency r" "r_virtual_networks r' = r_virtual_networks r"
    "r_num_vcs r' = r_num_vcs r" "r_vc_per_vnet r' = r_vc_per_vnet r" "r_halt r' = r_halt r"
    "r_input_unit r' = r_input_unit r" "r_output_unit r' = r_output_unit r"
    "r_sw_alloc r' = r_sw_alloc r" "r_switch r' = r_switch r" "r_wakeups r' = r_wakeups r"
    "ru_routing_table (r_routing_unit r') = ru_routing_table (r_routing_unit r)"
    "ru_weight_table (r_routing_unit r') = ru_weight_table (r_routing_unit r)"
  using arg_cong [OF assms, of r_id]
    arg_cong [OF assms, of r_latency]
    arg_cong [OF assms, of r_virtual_networks]
    arg_cong [OF assms, of r_num_vcs]
    arg_cong [OF assms, of r_vc_per_vnet]
    arg_cong [OF assms, of r_halt]
    arg_cong [OF assms, of r_input_unit]
    arg_cong [OF assms, of r_output_unit]
    arg_cong [OF assms, of r_sw_alloc]
    arg_cong [OF assms, of r_switch]
    arg_cong [OF assms, of r_wakeups]
    arg_cong [OF assms, of "\<lambda>r. ru_routing_table (r_routing_unit r)"]
    arg_cong [OF assms, of "\<lambda>r. ru_weight_table (r_routing_unit r)"]
  by (simp_all add: forget_maps_def)

lemma route_frame_net:
  assumes "route_frame net net'"
  shows "gn_config net' = gn_config net" "gn_networklinks net' = gn_networklinks net"
    "gn_creditlinks net' = gn_creditlinks net" "gn_lock net' = gn_lock net"
    "gn_spinRing net' = gn_spinRing net" "gn_stats net' = gn_stats net" "gn_cycle net' = gn_cycle net"
    "gn_wakeups net' = gn_wakeups net" "gn_nis net' = gn_nis net"
proof -
  have e: "net_core net' = net_core net" using assms by (simp add: route_frame_def)
  show "gn_config net' = gn_config net" "gn_networklinks net' = gn_networklinks net" "gn_creditlinks net' = gn_creditlinks net"
    "gn_lock net' = gn_lock net" "gn_spinRing net' = gn_spinRing net" "gn_stats net' = gn_stats net"
    "gn_cycle net' = gn_cycle net" "gn_wakeups net' = gn_wakeups net" "gn_nis net' = gn_nis net"
    using arg_cong [OF e, of gn_config] arg_cong [OF e, of gn_networklinks] arg_cong [OF e, of gn_creditlinks]
      arg_cong [OF e, of gn_lock] arg_cong [OF e, of gn_spinRing] arg_cong [OF e, of gn_stats]
      arg_cong [OF e, of gn_cycle] arg_cong [OF e, of gn_wakeups] arg_cong [OF e, of gn_nis]
    by (simp_all add: net_core_def)
qed

lemma route_frame_tags:
  assumes "route_frame net net'"
  shows "network_tags net' = network_tags net"
proof -
  have "router_tags (gn_routers net' ! i) = router_tags (gn_routers net ! i)" if "i < length (gn_routers net)" for i
    using forget_maps_fields [OF route_frame_routers(2) [OF assms that]] by (simp add: router_tags_def)
  then have "map router_tags (gn_routers net') = map router_tags (gn_routers net)"
    using route_frame_routers(1) [OF assms] by (intro nth_equalityI) auto
  then show ?thesis using route_frame_net [OF assms] by (simp add: network_tags_def contents_def)
qed

section \<open>Minimal routing in the network\<close>

text \<open>Every router knows the port of every direction that leads towards the destination.\<close>

definition knows_outports :: "router \<Rightarrow> mesh_delta \<Rightarrow> bool" where
  "knows_outports r d = (\<forall>dirn \<in> productive d. ru_outports_dirn2idx (r_routing_unit r) dirn \<noteq> None)"

lemma outport_of_dirn_frame:
  assumes "outport_of_dirn net1 rid dirn = Inr (p, net')" and "route_frame net net1"
    and "rid < length (gn_routers net)" and "ru_outports_dirn2idx (r_routing_unit (gn_routers net ! rid)) dirn = Some q"
  shows "p = q"
proof -
  have "ru_outports_dirn2idx (r_routing_unit (gn_routers net1 ! rid)) dirn = Some q"
    using route_frame_routers(3) [OF assms(2,3)] assms(4) by (force simp: maps_le_def map_le_def)
  then show ?thesis using assms(1)
    by (auto simp: outport_of_dirn_def get_router_def at_eq_Inr map_index_def)
qed

text \<open>Each mesh algorithm ends with the look-up of a productive direction.\<close>

lemma mesh_algorithm_dirn:
  assumes "outportComputeXY net rid route = Inr (p, net') \<or> outportComputeRandom net rid route = Inr (p, net') \<or>
      outportComputeAdaptRand net rid route = Inr (p, net') \<or> outportComputeWestFirst net rid route = Inr (p, net') \<or>
      outportComputeAdaptWestFirst net rid route = Inr (p, net')"
    and d: "mesh_delta_at net rid route = Inr d" and ok: "mesh_delta_ok d"
  shows "\<exists>net1 dirn. dirn \<in> productive d \<and> route_frame net net1 \<and> outport_of_dirn net1 rid dirn = Inr (p, net')"
proof -
  obtain xh yh xd yd where dd: "d = (xh, yh, xd, yd)" by (cases d) auto
  obtain rnd net1 where r: "next_random net = (rnd, net1)" by force
  note r1 = route_frame_random [OF r]
  have r3: "route_frame net net3" if "neighbour_free net1 rid d1 d2 = Inr (fx, net2)"
      "neighbour_free net2 rid e1 e2 = Inr (fy, net3)" for fx fy net2 net3 d1 d2 e1 e2
    using r1 route_frame_neighbour_free that by (blast intro: route_frame_trans)
  have prod: "XY_dirn d \<in> productive d" "random_dirn b d \<in> productive d"
      "adapt_rand_dirn fx fy b d \<in> productive d" "west_first_dirn b d \<in> productive d"
      "adapt_west_first_dirn fx fy b d \<in> productive d" for b fx fy
    using xy.pick_productive [OF ok] rndm.pick_productive [OF ok, where rnd = "\<lambda>_. b"] wf.pick_productive [OF ok, where rnd = "\<lambda>_. b"]
      adapt.pick_productive [OF ok, where fx = "\<lambda>_. fx" and fy = "\<lambda>_. fy" and rnd = "\<lambda>_. b"]
      awf.pick_productive [OF ok, where fx = "\<lambda>_. fx" and fy = "\<lambda>_. fy" and rnd = "\<lambda>_. b"] by simp_all
  note prod = prod [unfolded dd]
  have fin: ?thesis if "outport_of_dirn net1 rid dirn = Inr (p, net')" "route_frame net net1"
      "dirn \<in> productive (xh, yh, xd, yd)" for net1 dirn
    using that dd by blast
  note simps = Let_def r dd
  from assms(1) show ?thesis
  proof (elim disjE)
    assume "outportComputeXY net rid route = Inr (p, net')"
    then show ?thesis using d fin [OF _ route_frame_refl prod(1)] by (simp add: outportComputeXY_def dd del: XY_dirn.simps productive.simps)
  next
    assume "outportComputeRandom net rid route = Inr (p, net')"
    then show ?thesis
      using d fin [OF _ route_frame_refl prod(2)] fin [OF _ r1 prod(2)]
      by (simp add: outportComputeRandom_def simps del: random_dirn.simps productive.simps split: if_splits)
  next
    assume "outportComputeAdaptRand net rid route = Inr (p, net')"
    then show ?thesis
      using d fin [OF _ route_frame_refl prod(3)] fin [OF _ r3 prod(3)]
      by (auto simp: outportComputeAdaptRand_def simps simp del: adapt_rand_dirn.simps productive.simps split: if_splits)
  next
    assume "outportComputeWestFirst net rid route = Inr (p, net')"
    then show ?thesis using d fin [OF _ r1 prod(4)]
      by (simp add: outportComputeWestFirst_def simps del: west_first_dirn.simps productive.simps)
  next
    assume "outportComputeAdaptWestFirst net rid route = Inr (p, net')"
    then show ?thesis
      using d fin [OF _ r1 prod(5)] fin [OF _ r3 prod(5)]
      by (auto simp: outportComputeAdaptWestFirst_def simps simp del: adapt_west_first_dirn.simps productive.simps
          split: if_splits)
  qed
qed

lemma outportCompute_productive:
  assumes out: "outportCompute net rid route = Inr (p, net')"
    and alg: "nc_routing_algorithm (gn_config net) \<in> {1..5}"
    and rid: "rid < length (gn_routers net)" and far: "ri_dest_router route \<noteq> int (r_id (gn_routers net ! rid))"
    and d: "mesh_delta_of (gn_config net) (int (r_id (gn_routers net ! rid))) (ri_dest_router route) = Inr d"
    and knows: "knows_outports (gn_routers net ! rid) d"
  shows "\<exists>dirn \<in> productive d. ru_outports_dirn2idx (r_routing_unit (gn_routers net ! rid)) dirn = Some p"
proof -
  have da: "mesh_delta_at net rid route = Inr d" using d rid by (simp add: mesh_delta_at_def get_router_def)
  have "outportComputeXY net rid route = Inr (p, net') \<or> outportComputeRandom net rid route = Inr (p, net') \<or>
      outportComputeAdaptRand net rid route = Inr (p, net') \<or> outportComputeWestFirst net rid route = Inr (p, net') \<or>
      outportComputeAdaptWestFirst net rid route = Inr (p, net')"
    using out alg far rid
    by (auto simp: outportCompute_def get_router_def routing_algorithm_of_def split: if_splits)
  from mesh_algorithm_dirn [OF this da mesh_delta_of_ok [OF d]] obtain net1 dirn where
    n: "dirn \<in> productive d" "route_frame net net1" "outport_of_dirn net1 rid dirn = Inr (p, net')" by blast
  obtain q where "ru_outports_dirn2idx (r_routing_unit (gn_routers net ! rid)) dirn = Some q"
    using knows n(1) by (auto simp: knows_outports_def)
  then show ?thesis using outport_of_dirn_frame [OF n(3,2) rid] n(1) by auto
qed

end
