(* ===== verification/Drain.thy ===== *)
theory Drain
  imports Spin_Ring Routing_Correct
begin

text \<open>
  The drain mechanism of \<open>GarnetNetwork\<close> (src/gem5/src/mem/ruby/network/garnet2.0/GarnetNetwork.cc).
  \<open>doSpin\<close> moves, for one virtual channel, the packet in the channel of every position of the ring
  one position further: a first loop takes the flits out, frees their channels and returns the
  credits, a second loop puts them into the channels of the next positions. The other functions
  prepare and finish a drain: \<open>set_halt\<close>, \<open>chck_link_state\<close>, \<open>set_flit_time\<close>, the wakeup calls.

  A pointer in \<open>spinRing[i].flit_\<close> is modelled by the flit it points to when it is stored. After the
  second loop the program keeps these pointers (its loop that resets them works on copies); the
  entries that are read have been written before in the same call.
\<close>

section \<open>Ports along the ring\<close>

definition gn_input :: "garnet_network \<Rightarrow> nat \<Rightarrow> int \<Rightarrow> input_unit res" where
  "gn_input net rid inport = bnd (get_router net (int rid)) (\<lambda>r. at (r_input_unit r) inport)"

definition gn_put_input :: "nat \<Rightarrow> nat \<Rightarrow> input_unit \<Rightarrow> garnet_network \<Rightarrow> garnet_network" where
  "gn_put_input rid inport u net =
     (let r = gn_routers net ! rid in put_router net rid (r\<lparr>r_input_unit := (r_input_unit r)[inport := u]\<rparr>))"

definition gn_map_stats :: "(net_stats \<Rightarrow> net_stats) \<Rightarrow> garnet_network \<Rightarrow> garnet_network" where
  "gn_map_stats f net = net\<lparr>gn_stats := f (gn_stats net)\<rparr>"

text \<open>\<open>m_routers[id]->m_routing_unit->m_inports_dirn2idx[dirn]\<close> and the same for output ports.\<close>

definition inport_index :: "garnet_network \<Rightarrow> int \<Rightarrow> port_direction \<Rightarrow> (nat \<times> int \<times> garnet_network) res" where
  "inport_index net router_id dirn =
     bnd (get_router net router_id) (\<lambda>r.
     let (i, m) = map_index (ru_inports_dirn2idx (r_routing_unit r)) dirn
     in Inr (nat router_id, i, put_router net (nat router_id)
          (r\<lparr>r_routing_unit := (r_routing_unit r)\<lparr>ru_inports_dirn2idx := m\<rparr>\<rparr>)))"

text \<open>
  The output port that feeds an input port: that of the upstream router, with the credit and the
  state of its channel changed by \<open>f\<close>.
\<close>

definition upstream_update ::
    "port_direction \<Rightarrow> int \<Rightarrow> (output_unit \<Rightarrow> output_unit res) \<Rightarrow> garnet_network \<Rightarrow> garnet_network res" where
  "upstream_update inport_dir router_id f net =
     bnd (get_upstreamrouter net inport_dir router_id) (\<lambda>up.
     (case up of
        None \<Rightarrow> Inl AssertFail
      | Some k \<Rightarrow>
          bnd (get_upstreamOutportDirn inport_dir) (\<lambda>outportDirn.
          bnd (assert_that (outportDirn \<noteq> ''Local'')) (\<lambda>_.
          bnd (outport_of_dirn net k outportDirn) (\<lambda>(outport, net1).
          bnd (at (r_output_unit (gn_routers net1 ! k)) outport) (\<lambda>ou.
          bnd (f ou) (\<lambda>ou'.
          let r = gn_routers net1 ! k in
          Inr (put_router net1 k (r\<lparr>r_output_unit := (r_output_unit r)[nat outport := ou']\<rparr>)))))))))"

section \<open>doSpin\<close>

text \<open>The packets that are to be moved: every occupied channel of a port that is not local.\<close>

definition count_spun_inport :: "nat \<Rightarrow> input_unit \<Rightarrow> nat \<Rightarrow> nat \<Rightarrow> nat res" where
  "count_spun_inport vc u inport n =
     bnd (assert_that (inport = iu_id u)) (\<lambda>_.
     if iu_direction u \<noteq> ''Local'' then
       bnd (iu_vc_isEmpty u (int vc)) (\<lambda>e. Inr (if e then n else n + 1))
     else Inr n)"

definition count_spun :: "nat \<Rightarrow> router list \<Rightarrow> nat res" where
  "count_spun vc rs =
     foldM (\<lambda>r n. foldM (\<lambda>inport n. count_spun_inport vc (r_input_unit r ! inport) inport n)
                    [0..<length (r_input_unit r)] n) rs 0"

definition set_ring_flit :: "nat \<Rightarrow> flit option \<Rightarrow> garnet_network \<Rightarrow> garnet_network" where
  "set_ring_flit i f net =
     net\<lparr>gn_spinRing := (gn_spinRing net)[i := (gn_spinRing net ! i)\<lparr>ss_flit := f\<rparr>]\<rparr>"

text \<open>Does one of the preferred output ports lead to the next router of the ring?\<close>

fun leads_forward :: "garnet_config \<Rightarrow> router \<Rightarrow> int \<Rightarrow> nat list \<Rightarrow> bool res" where
  "leads_forward C r next_id [] = Inr False"
| "leads_forward C r next_id (p # ps) =
     bnd (at (r_output_unit r) (int p)) (\<lambda>ou.
     bnd (get_upstreamId C (ou_direction ou) (int (r_id r))) (\<lambda>pref_router_id.
     bnd (assert_that (pref_router_id \<noteq> -1)) (\<lambda>_.
     if pref_router_id = next_id then Inr True else leads_forward C r next_id ps)))"

definition spin_take_flit ::
    "nat \<Rightarrow> nat \<Rightarrow> nat \<Rightarrow> nat \<Rightarrow> garnet_network \<Rightarrow> garnet_network res" where
  "spin_take_flit vc idx rid inport net =
     (let r = gn_routers net ! rid; u = r_input_unit r ! inport; C = gn_config net;
          node = gn_spinRing net ! idx in
      bnd (iu_peekTopFlit u (int vc)) (\<lambda>t.
      bnd (lookupRoutingTable_pref_outport (r_routing_unit r) (ri_net_dest (fl_route t))) (\<lambda>pref_outport.
      bnd (iu_getTopFlit u (int vc)) (\<lambda>(t_flit, u1).
      bnd (leads_forward C r (ss_router_id (gn_spinRing net ! (idx + 1))) pref_outport) (\<lambda>fwd.
      bnd (assert_that (fl_hops_needed_before_spin t_flit = -1)) (\<lambda>_.
      bnd (iu_set_vc_idle (int vc) (gn_cycle net) u1) (\<lambda>u2.
      let t1 = t_flit\<lparr>fl_hops_needed_before_spin :=
                 compute_hops_remaining C (int (r_id r)) (ri_dest_router (fl_route t_flit))\<rparr>;
          net1 = gn_put_input rid inport u2 (set_ring_flit (idx + 1) (Some t1)
            (gn_map_stats (\<lambda>s. if fwd then s\<lparr>st_fwd_progress := st_fwd_progress s + 1\<rparr>
                               else s\<lparr>st_misroute := st_misroute s + 1\<rparr>) net)) in
      upstream_update (ss_inport_dir node) (int (r_id r))
        (\<lambda>ou. bnd (ou_increment_credit (int vc) ou) (ou_set_vc_state IDLE (int vc) (gn_cycle net))) net1)))))))"

text \<open>One iteration of the first loop, with the number of packets taken out.\<close>

definition spin_take :: "nat \<Rightarrow> nat \<Rightarrow> garnet_network \<times> nat \<Rightarrow> (garnet_network \<times> nat) res" where
  "spin_take vc idx s =
     (case s of (net0, num_pkts) \<Rightarrow>
      bnd (at (gn_spinRing net0) (int idx)) (\<lambda>node.
      bnd (inport_index net0 (ss_router_id node) (ss_inport_dir node)) (\<lambda>(rid, inport, net).
      bnd (gn_input net rid inport) (\<lambda>u.
      bnd (iu_vc_isEmpty u (int vc)) (\<lambda>empty.
      if empty then
        Inr (gn_map_stats (\<lambda>s. s\<lparr>st_bubble := st_bubble s + 1\<rparr>) (set_ring_flit (idx + 1) None net), num_pkts)
      else
        bnd (spin_take_flit vc idx rid (nat inport) net) (\<lambda>net'. Inr (net', num_pkts + 1)))))))"

text \<open>
  The flit as it is put back: with its new output port, one hop more and the two counters reset.
\<close>

definition spin_flit :: "int \<Rightarrow> port_direction \<Rightarrow> flit \<Rightarrow> flit" where
  "spin_flit outport outdir t =
     (increment_hops (set_outport_dir outdir (set_outport outport t)))
       \<lparr>fl_hops_needed_after_spin := -1, fl_hops_needed_before_spin := -1\<rparr>"

definition spin_insert_flit ::
    "nat \<Rightarrow> port_direction \<Rightarrow> nat \<Rightarrow> nat \<Rightarrow> flit \<Rightarrow> garnet_network \<Rightarrow> garnet_network res" where
  "spin_insert_flit vc dirn rid inport t net0 =
     bnd (outportCompute net0 rid (fl_route t)) (\<lambda>(outport, net).
     let r = gn_routers net ! rid; u = r_input_unit r ! inport; C = gn_config net in
     bnd (assert_that (0 \<le> outport \<and> nat outport < length (r_output_unit r))) (\<lambda>_.
     let t_flit = spin_flit outport (ou_direction (r_output_unit r ! nat outport)) t;
         after_spin = compute_hops_remaining C (int (r_id r)) (ri_dest_router (fl_route t_flit));
         misroute = (if fl_hops_needed_before_spin t < after_spin
                     then after_spin - fl_hops_needed_before_spin t else 0) in
     bnd (at (iu_vcs u) (int vc)) (\<lambda>v.
     bnd (assert_that (fl_hops_needed_after_spin t = -1)) (\<lambda>_.
     bnd (assert_that (fst (vc_state v) = IDLE)) (\<lambda>_.
     let v' = vc_set_active (gn_cycle net) (vc_insertFlit t_flit v);
         net1 = gn_put_input rid inport (u\<lparr>iu_vcs := (iu_vcs u)[vc := v']\<rparr>)
           (gn_map_stats (\<lambda>s. s\<lparr>st_total_misroute := st_total_misroute s + misroute\<rparr>) net) in
     upstream_update dirn (int (r_id r))
       (\<lambda>ou. bnd (ou_decrement_credit (int vc) ou) (ou_set_vc_state ACTIVE (int vc) (gn_cycle net))) net1)))))"

text \<open>One iteration of the second loop.\<close>

definition spin_insert :: "nat \<Rightarrow> nat \<Rightarrow> garnet_network \<times> int \<Rightarrow> (garnet_network \<times> int) res" where
  "spin_insert vc idx s =
     (case s of (net0, num_pkts) \<Rightarrow>
      bnd (at (gn_spinRing net0) (int idx)) (\<lambda>node.
      (case ss_flit node of
         None \<Rightarrow> Inr (net0, num_pkts)
       | Some t \<Rightarrow>
           bnd (inport_index net0 (ss_router_id node) (ss_inport_dir node)) (\<lambda>(rid, inport, net).
           bnd (assert_that (0 \<le> inport \<and> nat inport < length (r_input_unit (gn_routers net ! rid)))) (\<lambda>_.
           bnd (spin_insert_flit vc (ss_inport_dir node) rid (nat inport) t net) (\<lambda>net'.
           Inr (net', num_pkts - 1)))))))"

text \<open>\<open>spinRing.size() - 1\<close> is unsigned: with an empty ring the first loop leaves the vector.\<close>

definition doSpin :: "nat \<Rightarrow> garnet_network \<Rightarrow> garnet_network res" where
  "doSpin vc net0 =
     bnd (count_spun vc (gn_routers net0)) (\<lambda>spun_pkt_num.
     let net1 = gn_map_stats (\<lambda>s. s\<lparr>st_total_spins := st_total_spins s + 1\<rparr>) net0;
         n = length (gn_spinRing net1) in
     if n = 0 then Inl OutOfRange
     else
       bnd (foldM (spin_take vc) [0..<n - 1] (net1, 0)) (\<lambda>(net2, num_pkts).
       bnd (assert_that (spun_pkt_num = num_pkts)) (\<lambda>_.
       bnd (foldM (spin_insert vc) [1..<n] (net2, int num_pkts)) (\<lambda>(net3, left).
       bnd (assert_that (left = 0)) (\<lambda>_. Inr net3)))))"

section \<open>Before and after a drain\<close>

definition flit_time_inport :: "nat \<Rightarrow> cycles \<Rightarrow> nat \<Rightarrow> input_unit \<Rightarrow> input_unit res" where
  "flit_time_inport vc now spin_mult u =
     bnd (iu_vc_isEmpty u (int vc)) (\<lambda>e.
     if \<not> e \<and> iu_direction u \<in> set compass then
       iu_modify u (int vc) (vc_update_top (advance_stage SA_stage (now + 2 * spin_mult)))
     else Inr u)"

definition set_flit_time :: "nat \<Rightarrow> garnet_network \<Rightarrow> garnet_network res" where
  "set_flit_time vc net =
     bnd (traverse (\<lambda>r. bnd (traverse (flit_time_inport vc (gn_cycle net) (nc_spin_mult (gn_config net)))
                                (r_input_unit r))
                       (\<lambda>us. Inr (r\<lparr>r_input_unit := us\<rparr>)))
            (gn_routers net)) (\<lambda>rs.
     Inr (net\<lparr>gn_routers := rs\<rparr>))"

definition set_halt :: "bool \<Rightarrow> garnet_network \<Rightarrow> garnet_network" where
  "set_halt val net = net\<lparr>gn_routers := map (\<lambda>r. r\<lparr>r_halt := val\<rparr>) (gn_routers net)\<rparr>"

definition scheduleAll_wakeup :: "nat \<Rightarrow> garnet_network \<Rightarrow> garnet_network" where
  "scheduleAll_wakeup k net =
     schedule_events (map (\<lambda>i. (RouterConsumer i, gn_cycle net + k)) [0..<length (gn_routers net)]) net"

definition scheduleAll_wakeup_next_k_cycles :: "nat \<Rightarrow> garnet_network \<Rightarrow> garnet_network" where
  "scheduleAll_wakeup_next_k_cycles k net =
     schedule_events (concat (map (\<lambda>i. map (\<lambda>ii. (RouterConsumer i, gn_cycle net + ii)) [0..<k])
                                [0..<length (gn_routers net)])) net"

definition link_state_outport :: "garnet_network \<Rightarrow> router \<Rightarrow> nat \<Rightarrow> bool \<Rightarrow> bool res" where
  "link_state_outport net r outport spin_safe =
     (let u = r_output_unit r ! outport in
      bnd (assert_that (outport = ou_id u)) (\<lambda>_.
      bnd (at (gn_networklinks net) (int (ou_out_link u))) (\<lambda>l.
      Inr (if isEmpty (nl_linkBuffer l) then spin_safe else False))))"

definition chck_link_state :: "garnet_network \<Rightarrow> bool res" where
  "chck_link_state net =
     foldM (\<lambda>r safe. foldM (link_state_outport net r) [0..<length (r_output_unit r)] safe)
       (gn_routers net) True"

definition check_mrkd_flt :: "nat \<Rightarrow> nat \<Rightarrow> garnet_network \<Rightarrow> bool" where
  "check_mrkd_flt marked_flt_received marked_flt_injected net =
     (list_all (\<lambda>r. r_mrkd_flt r \<le> 0) (gn_routers net) \<and>
      \<not> marked_flt_received < marked_flt_injected)"

definition gn_schedule_wakeup :: "nat \<Rightarrow> garnet_network \<Rightarrow> garnet_network" where
  "gn_schedule_wakeup time net = schedule_events [(NetworkConsumer, gn_cycle net + time)] net"

end
