(* ===== verification/Switch_Correct.thy ===== *)
theory Switch_Correct
  imports Switch_Allocator
begin

text \<open>
  What the switch allocator guarantees: it moves flits from the channels to the crossbar and loses
  none; a halted router moves none at all; in one cycle every input port sends at most one flit and
  every output port accepts at most one; no request survives the cycle; and the credit counters
  stay within their bounds. The loops are handled by the interpretations of locale \<open>conserved\<close>.
\<close>

section \<open>Flits are conserved\<close>

abbreviation cx_tags :: "router_ctx \<Rightarrow> flit_tag multiset" where
  "cx_tags cx \<equiv> router_tags (rc_router cx)"

lemma rc_input_Inr:
  "rc_input cx i = Inr u \<longleftrightarrow> i < length (r_input_unit (rc_router cx)) \<and> u = r_input_unit (rc_router cx) ! i"
  by (auto simp: rc_input_def at_eq_Inr)

lemma rc_output_Inr:
  "rc_output cx p = Inr u \<longleftrightarrow>
     0 \<le> p \<and> nat p < length (r_output_unit (rc_router cx)) \<and> u = r_output_unit (rc_router cx) ! nat p"
  by (auto simp: rc_output_def at_eq_Inr)

lemma rc_map_tags [simp]:
  "cx_tags (rc_map_alloc f cx) = cx_tags cx"
  "cx_tags (rc_map_stats g cx) = cx_tags cx"
  "cx_tags (cx\<lparr>rc_events := es\<rparr>) = cx_tags cx"
  by (simp_all add: rc_map_alloc_def rc_map_stats_def router_tags_def)

lemma rc_map_fields [simp]:
  "rc_router (rc_map_stats g cx) = rc_router cx"
  "r_input_unit (rc_router (rc_map_alloc f cx)) = r_input_unit (rc_router cx)"
  "r_output_unit (rc_router (rc_map_alloc f cx)) = r_output_unit (rc_router cx)"
  "r_switch (rc_router (rc_map_alloc f cx)) = r_switch (rc_router cx)"
  "r_halt (rc_router (rc_map_alloc f cx)) = r_halt (rc_router cx)"
  "r_sw_alloc (rc_router (rc_map_alloc f cx)) = f (rc_alloc cx)"
  by (simp_all add: rc_map_alloc_def rc_map_stats_def)

lemma rc_put_fields [simp]:
  "r_input_unit (rc_router (rc_put_input i u cx)) = (r_input_unit (rc_router cx))[i := u]"
  "r_output_unit (rc_router (rc_put_input i u cx)) = r_output_unit (rc_router cx)"
  "r_switch (rc_router (rc_put_input i u cx)) = r_switch (rc_router cx)"
  "r_halt (rc_router (rc_put_input i u cx)) = r_halt (rc_router cx)"
  "rc_alloc (rc_put_input i u cx) = rc_alloc cx"
  "r_input_unit (rc_router (rc_put_output j w cx)) = r_input_unit (rc_router cx)"
  "r_output_unit (rc_router (rc_put_output j w cx)) = (r_output_unit (rc_router cx))[j := w]"
  "r_switch (rc_router (rc_put_output j w cx)) = r_switch (rc_router cx)"
  "r_halt (rc_router (rc_put_output j w cx)) = r_halt (rc_router cx)"
  "rc_alloc (rc_put_output j w cx) = rc_alloc cx"
  by (simp_all add: rc_put_input_def rc_put_output_def)

lemma rc_put_input_tags:
  assumes "i < length (r_input_unit (rc_router cx))"
    and "input_tags u = input_tags (r_input_unit (rc_router cx) ! i)"
  shows "cx_tags (rc_put_input i u cx) = cx_tags cx"
  using assms by (simp add: router_tags_def contents_update_same)

lemma rc_put_output_tags:
  assumes "i < length (r_output_unit (rc_router cx))"
    and "ou_out_buffer u = ou_out_buffer (r_output_unit (rc_router cx) ! i)"
  shows "cx_tags (rc_put_output i u cx) = cx_tags cx"
  using assms by (simp add: router_tags_def contents_update_same)

lemma ou_out_buffer_ops:
  "ou_modify u vc f = Inr u' \<Longrightarrow> ou_out_buffer u' = ou_out_buffer u"
  "ou_decrement_credit vc u = Inr u' \<Longrightarrow> ou_out_buffer u' = ou_out_buffer u"
  "ou_select_free_vc now vnet u = Inr (v, u') \<Longrightarrow> ou_out_buffer u' = ou_out_buffer u"
  by (auto simp: ou_modify_Inr ou_decrement_credit_def ou_select_free_vc_def split: option.splits)

lemma sa_set_uturn_tags: "sa_set_uturn inport invc b cx = Inr cx' \<Longrightarrow> cx_tags cx' = cx_tags cx"
  by (auto simp: sa_set_uturn_def rc_input_Inr intro!: rc_put_input_tags elim!: iu_update_top_tags)

lemma disallow_uturn_tags: "disallow_uturn inport invc d cx = Inr cx' \<Longrightarrow> cx_tags cx' = cx_tags cx"
  by (auto simp: disallow_uturn_def rc_input_Inr Let_def
      intro!: rc_put_input_tags [where cx = "rc_map_stats _ _", simplified] elim!: iu_update_top_tags)

lemma sa_check_uturn_tags: "sa_check_uturn C inport invc cx = Inr cx' \<Longrightarrow> cx_tags cx' = cx_tags cx"
  by (auto simp: sa_check_uturn_def Let_def dest!: sa_set_uturn_tags disallow_uturn_tags split: if_splits)

lemma sa_try_invc_tags: "sa_try_invc C now inport invc cx = Inr (b, cx') \<Longrightarrow> cx_tags cx' = cx_tags cx"
  by (auto simp: sa_try_invc_def Let_def dest!: sa_check_uturn_tags split: if_splits)

lemma sa_scan_invcs_tags: "sa_scan_invcs C now inport invcs cx = Inr cx' \<Longrightarrow> cx_tags cx' = cx_tags cx"
  by (induction invcs arbitrary: cx) (auto dest!: sa_try_invc_tags split: if_splits)

interpretation sa_in: conserved "sa_arbitrate_inport C now" cx_tags for C now
  by unfold_locales (auto simp: sa_arbitrate_inport_def dest: sa_scan_invcs_tags)

lemma vc_allocate_tags: "vc_allocate now outport inport invc cx = Inr (v, cx') \<Longrightarrow> cx_tags cx' = cx_tags cx"
proof -
  assume "vc_allocate now outport inport invc cx = Inr (v, cx')"
  then obtain ou vnet ou' u u' where o: "rc_output cx (int outport) = Inr ou"
    "ou_select_free_vc now vnet ou = Inr (v, ou')" and i: "rc_input cx inport = Inr u" "iu_grant_outvc (int invc) v u = Inr u'"
    and cx': "cx' = rc_put_input inport u' (rc_put_output outport ou' cx)"
    by (auto simp: vc_allocate_def)
  have "cx_tags (rc_put_output outport ou' cx) = cx_tags cx"
    using o ou_out_buffer_ops(3) [OF o(2)] by (intro rc_put_output_tags) (auto simp: rc_output_Inr)
  moreover have "cx_tags cx' = cx_tags (rc_put_output outport ou' cx)"
    unfolding cx' using i iu_grant_outvc_tags [OF i(2)] by (intro rc_put_input_tags) (auto simp: rc_input_Inr)
  ultimately show ?thesis by simp
qed

lemma sa_uturn_won_tags: "sa_uturn_won inport invc cx = Inr cx' \<Longrightarrow> cx_tags cx' = cx_tags cx"
  by (auto simp: sa_uturn_won_def dest!: sa_set_uturn_tags split: if_splits)

lemma sa_send_cases:
  assumes "sa_send now outport inport invc outvc cx = Inr (f, cx')"
  obtains g u' ou' b where
    "inport < length (r_input_unit (rc_router cx))" "iu_getTopFlit (r_input_unit (rc_router cx) ! inport) (int invc) = Inr (g, u')"
    "outport < length (r_output_unit (rc_router cx))"
    "ou_decrement_credit outvc (r_output_unit (rc_router cx) ! outport) = Inr ou'"
    "inport < length (cs_switch_buffer (r_switch (rc_router cx)))"
    "f = advance_stage ST_stage now (set_vc outvc (set_outport_dir (ou_direction (r_output_unit (rc_router cx) ! outport))
           (set_outport (int outport) g)))"
    "cx' = (let cx1 = rc_put_output outport ou' (rc_put_input inport u' cx) in
       cx1\<lparr>rc_router := (rc_router cx1)\<lparr>r_switch := (r_switch (rc_router cx))\<lparr>cs_switch_buffer :=
         (cs_switch_buffer (r_switch (rc_router cx)))[inport :=
            insert_flit f (cs_switch_buffer (r_switch (rc_router cx)) ! inport)]\<rparr>\<rparr>\<rparr>)"
  using assms
  by (auto simp: sa_send_def Let_def rc_input_Inr rc_output_Inr grant_switch_def update_sw_winner_def at_eq_Inr)

lemma sa_send_tags:
  assumes "sa_send now outport inport invc outvc cx = Inr (f, cx')"
  shows "cx_tags cx' = cx_tags cx"
proof -
  from assms show ?thesis
  proof (rule sa_send_cases)
    fix g u' ou' b
    let ?r = "rc_router cx"
    assume i: "inport < length (r_input_unit ?r)" and t: "iu_getTopFlit (r_input_unit ?r ! inport) (int invc) = Inr (g, u')"
      and o: "outport < length (r_output_unit ?r)" "ou_decrement_credit outvc (r_output_unit ?r ! outport) = Inr ou'"
      and s: "inport < length (cs_switch_buffer (r_switch ?r))"
      and f: "f = advance_stage ST_stage now (set_vc outvc (set_outport_dir (ou_direction (r_output_unit ?r ! outport))
           (set_outport (int outport) g)))"
      and cx': "cx' = (let cx1 = rc_put_output outport ou' (rc_put_input inport u' cx) in
       cx1\<lparr>rc_router := (rc_router cx1)\<lparr>r_switch := (r_switch ?r)\<lparr>cs_switch_buffer :=
         (cs_switch_buffer (r_switch ?r))[inport := insert_flit f (cs_switch_buffer (r_switch ?r) ! inport)]\<rparr>\<rparr>\<rparr>)"
    have tag: "flit_tag_of f = flit_tag_of g" by (simp add: f)
    have "add_mset (flit_tag_of g) (contents input_tags ((r_input_unit ?r)[inport := u'])) = contents input_tags (r_input_unit ?r)"
      using contents_update_remove [OF i iu_getTopFlit_tags [OF t]] .
    moreover have "contents (\<lambda>u. buffer_tags (ou_out_buffer u)) ((r_output_unit ?r)[outport := ou'])
        = contents (\<lambda>u. buffer_tags (ou_out_buffer u)) (r_output_unit ?r)"
      using o ou_out_buffer_ops(2) [OF o(2)] by (simp add: contents_update_same)
    moreover have "contents buffer_tags ((cs_switch_buffer (r_switch ?r))[inport := insert_flit f (cs_switch_buffer (r_switch ?r) ! inport)])
        = add_mset (flit_tag_of g) (contents buffer_tags (cs_switch_buffer (r_switch ?r)))"
      using s tag by (simp add: contents_update_add)
    ultimately show ?thesis unfolding cx' Let_def router_tags_def
      by (simp flip: add_mset_add_single)
  qed
qed

lemma sa_return_credit_tags: "sa_return_credit C now inport invc f cx = Inr cx' \<Longrightarrow> cx_tags cx' = cx_tags cx"
  by (auto simp: sa_return_credit_def rc_input_Inr Let_def iu_increment_credit_def case_prod_beta
      dest!: iu_set_vc_idle_tags intro!: rc_put_input_tags simp: input_tags_def split: if_splits)

lemma sa_grant_tags: "sa_grant C now outport inport cx = Inr cx' \<Longrightarrow> cx_tags cx' = cx_tags cx"
  by (auto simp: sa_grant_def Let_def dest!: vc_allocate_tags sa_uturn_won_tags sa_send_tags sa_return_credit_tags
      split: if_splits)

lemma sa_scan_inports_tags: "sa_scan_inports C now outport inports cx = Inr cx' \<Longrightarrow> cx_tags cx' = cx_tags cx"
  by (induction inports) (auto dest!: sa_grant_tags split: if_splits)

interpretation sa_out: conserved "sa_arbitrate_outport C now" cx_tags for C now
  by unfold_locales (auto simp: sa_arbitrate_outport_def dest: sa_scan_inports_tags)

lemma SwitchAllocator_wakeup_tags:
  assumes "SwitchAllocator_wakeup C now cx = Inr cx'"
  shows "cx_tags cx' = cx_tags cx"
  using assms
  by (auto simp: SwitchAllocator_wakeup_def arbitrate_inports_def arbitrate_outports_def check_for_wakeup_def
      dest!: sa_in.loop_conserves sa_out.loop_conserves split: if_splits)

section \<open>One flit per input port and per output port\<close>

text \<open>What an input port has in the switch, and the output ports it still asks for.\<close>

definition sw_size :: "router_ctx \<Rightarrow> nat \<Rightarrow> nat" where
  "sw_size cx i = getSize (cs_switch_buffer (r_switch (rc_router cx)) ! i)"

definition pending :: "router_ctx \<Rightarrow> nat \<Rightarrow> nat" where
  "pending cx i = length (filter (\<lambda>row. row ! i) (sa_port_requests (rc_alloc cx)))"

text \<open>The request matrix has a row for every output port, as long as there are input ports.\<close>

definition requests_ok :: "switch_allocator \<Rightarrow> bool" where
  "requests_ok s = (length (sa_port_requests s) = sa_num_outports s \<and>
     (\<forall>row \<in> set (sa_port_requests s). length row = sa_num_inports s))"

lemma length_filter_update:
  assumes "n < length xs" and "P (xs ! n) \<noteq> P x"
  shows "length (filter P (xs[n := x])) + (if P (xs ! n) then 1 else 0) =
    length (filter P xs) + (if P x then 1 else 0)"
  using assms
proof (induction xs arbitrary: n)
  case (Cons y xs)
  then show ?case by (cases n) auto
qed simp

lemma length_filter_update_same:
  assumes "n < length xs" and "P (xs ! n) = P x"
  shows "length (filter P (xs[n := x])) = length (filter P xs)"
  using assms
proof (induction xs arbitrary: n)
  case (Cons y xs)
  then show ?case by (cases n) auto
qed simp

text \<open>The parts of a router that the steps before the grant leave alone.\<close>

definition sa_view :: "router_ctx \<Rightarrow> bool list list \<times> nat list list \<times> flit flit_buffer list" where
  "sa_view cx = (sa_port_requests (rc_alloc cx), sa_vc_winners (rc_alloc cx), cs_switch_buffer (r_switch (rc_router cx)))"

lemma sa_view_sizes: "sa_view cx' = sa_view cx \<Longrightarrow> sw_size cx' i = sw_size cx i \<and> pending cx' i = pending cx i"
  by (simp add: sa_view_def sw_size_def pending_def)

lemma sa_set_uturn_view: "sa_set_uturn inport invc b cx = Inr cx' \<Longrightarrow> sa_view cx' = sa_view cx"
  by (auto simp: sa_set_uturn_def sa_view_def)

lemma disallow_uturn_view: "disallow_uturn inport invc d cx = Inr cx' \<Longrightarrow> sa_view cx' = sa_view cx"
  by (auto simp: disallow_uturn_def Let_def sa_view_def)

lemma rc_map_stats_view [simp]: "sa_view (rc_map_stats g cx) = sa_view cx"
  by (simp add: sa_view_def)

lemma sa_check_uturn_view: "sa_check_uturn C inport invc cx = Inr cx' \<Longrightarrow> sa_view cx' = sa_view cx"
  by (auto simp: sa_check_uturn_def Let_def dest!: sa_set_uturn_view disallow_uturn_view split: if_splits)

lemma vc_allocate_view: "vc_allocate now outport inport invc cx = Inr (v, cx') \<Longrightarrow> sa_view cx' = sa_view cx"
  by (auto simp: vc_allocate_def sa_view_def)

lemma sa_uturn_won_view: "sa_uturn_won inport invc cx = Inr cx' \<Longrightarrow> sa_view cx' = sa_view cx"
  by (auto simp: sa_uturn_won_def dest!: sa_set_uturn_view split: if_splits)

lemma sa_return_credit_view: "sa_return_credit C now inport invc f cx = Inr cx' \<Longrightarrow> sa_view cx' = sa_view cx"
  by (auto simp: sa_return_credit_def Let_def case_prod_beta sa_view_def)

text \<open>First stage: an input port asks for at most one output port.\<close>

lemma sa_try_invc_pending:
  assumes "sa_try_invc C now inport invc cx = Inr (won, cx')"
  shows "sw_size cx' i = sw_size cx i"
    and "pending cx' i \<le> pending cx i + (if won \<and> i = inport then 1 else 0)"
    and "\<not> won \<Longrightarrow> sa_view cx' = sa_view cx"
proof -
  show v: "sa_view cx' = sa_view cx" if "\<not> won"
    using assms that by (auto simp: sa_try_invc_def Let_def dest!: sa_check_uturn_view split: if_splits)
  have "sw_size cx' i = sw_size cx i \<and> pending cx' i \<le> pending cx i + (if i = inport then 1 else 0)" if w: won
  proof -
    from assms w obtain cx1 op s where c: "sa_view cx1 = sa_view cx" "sa_request op inport invc (rc_alloc cx1) = Inr s"
      and cx': "cx' = rc_map_alloc (\<lambda>_. s) cx1"
      by (auto simp: sa_try_invc_def Let_def dest!: sa_check_uturn_view split: if_splits)
    let ?rs = "sa_port_requests (rc_alloc cx1)"
    from c(2) have s: "op < length ?rs" "inport < length (?rs ! op)" "sa_port_requests s = ?rs[op := (?rs ! op)[inport := True]]"
      by (auto simp: sa_request_def put_at2_eq_Inr)
    have "pending cx' i \<le> pending cx1 i + (if i = inport then 1 else 0)"
      using length_filter_update [OF s(1), of "\<lambda>row. row ! i" "(?rs ! op)[inport := True]"]
        length_filter_update_same [OF s(1), of "\<lambda>row. row ! i" "(?rs ! op)[inport := True]"] s(2,3)
      by (cases "i = inport"; cases "?rs ! op ! i") (simp_all add: pending_def cx')
    then show ?thesis using sa_view_sizes [OF c(1)] by (simp add: sw_size_def cx')
  qed
  then show "sw_size cx' i = sw_size cx i" "pending cx' i \<le> pending cx i + (if won \<and> i = inport then 1 else 0)"
    using v sa_view_sizes [of cx' cx i] by (cases won; auto)+
qed

lemma sa_scan_invcs_pending:
  "sa_scan_invcs C now inport invcs cx = Inr cx' \<Longrightarrow>
     sw_size cx' i = sw_size cx i \<and> pending cx' i \<le> pending cx i + (if i = inport then 1 else 0)"
proof (induction invcs arbitrary: cx)
  case (Cons v vs)
  then obtain won cx1 where t: "sa_try_invc C now inport v cx = Inr (won, cx1)"
    and r: "if won then cx' = cx1 else sa_scan_invcs C now inport vs cx1 = Inr cx'" by (auto split: if_splits)
  show ?case
  proof (cases won)
    case True
    then show ?thesis using sa_try_invc_pending(1,2) [OF t, of i] r by (auto split: if_splits)
  next
    case False
    then show ?thesis using Cons.IH [of cx1] r sa_view_sizes [OF sa_try_invc_pending(3) [OF t False], of i] by simp
  qed
qed simp

lemma sa_inports_pending:
  assumes "foldM (sa_arbitrate_inport C now) ps cx = Inr cx'" and "distinct ps"
  shows "sw_size cx' i = sw_size cx i \<and> pending cx' i \<le> pending cx i + (if i \<in> set ps then 1 else 0)"
  using assms
proof (induction ps arbitrary: cx)
  case (Cons p ps)
  then obtain cx1 where c: "sa_arbitrate_inport C now p cx = Inr cx1" "foldM (sa_arbitrate_inport C now) ps cx1 = Inr cx'"
    by auto
  have "sw_size cx1 i = sw_size cx i \<and> pending cx1 i \<le> pending cx i + (if i = p then 1 else 0)"
    using c(1) by (auto simp: sa_arbitrate_inport_def dest!: sa_scan_invcs_pending [where i = i] split: if_splits)
  then show ?case using Cons.IH [OF c(2)] Cons.prems(2) by (auto split: if_splits)
qed simp

lemma sa_grant_cases:
  assumes "sa_grant C now outport inport cx = Inr cx'"
  obtains invc s1 u outvc0 outvc cx2 cx3 f cx4 cx6 s2 where
    "at2 (sa_vc_winners (rc_alloc cx)) outport inport = Inr invc" "sa_next_invc inport (rc_alloc cx) = Inr s1"
    "rc_input (rc_map_alloc (\<lambda>_. s1) cx) inport = Inr u" "iu_get_outvc u (int invc) = Inr outvc0"
    "if outvc0 = -1 then vc_allocate now outport inport invc (rc_map_alloc (\<lambda>_. s1) cx) = Inr (outvc, cx2)
     else outvc = outvc0 \<and> cx2 = rc_map_alloc (\<lambda>_. s1) cx"
    "sa_uturn_won inport invc cx2 = Inr cx3" "sa_send now outport inport invc outvc cx3 = Inr (f, cx4)"
    "sa_return_credit C now inport invc f
       (rc_map_alloc (\<lambda>s. s\<lparr>sa_output_arbiter_activity := sa_output_arbiter_activity s + 1\<rparr>) cx4) = Inr cx6"
    "sa_end_grant outport inport (rc_alloc cx6) = Inr s2" "cx' = rc_map_alloc (\<lambda>_. s2) cx6"
  using assms by (auto simp: sa_grant_def Let_def split: if_splits)

text \<open>Second stage: a grant turns a pending request of the port into a flit in the switch.\<close>

lemma sa_grant_balance:
  assumes g: "sa_grant C now outport inport cx = Inr cx'"
    and r: "at2 (sa_port_requests (rc_alloc cx)) outport inport = Inr True"
  shows "sw_size cx' i + pending cx' i = sw_size cx i + pending cx i"
proof -
  from g obtain s1 invc cx2 outvc cx3 f cx4 cx5 cx6 s2 where
    s1: "sa_next_invc inport (rc_alloc cx) = Inr s1"
    and v2: "sa_view cx2 = sa_view (rc_map_alloc (\<lambda>_. s1) cx)"
    and v3: "sa_view cx3 = sa_view cx2"
    and send: "sa_send now outport inport invc outvc cx3 = Inr (f, cx4)"
    and cx5: "cx5 = rc_map_alloc (\<lambda>s. s\<lparr>sa_output_arbiter_activity := sa_output_arbiter_activity s + 1\<rparr>) cx4"
    and v6: "sa_view cx6 = sa_view cx5" and s2: "sa_end_grant outport inport (rc_alloc cx6) = Inr s2"
    and cx': "cx' = rc_map_alloc (\<lambda>_. s2) cx6"
    by (auto simp: sa_grant_def Let_def dest!: vc_allocate_view sa_uturn_won_view sa_return_credit_view split: if_splits)
  let ?rs = "sa_port_requests (rc_alloc cx)" and ?sb = "cs_switch_buffer (r_switch (rc_router cx))"
  have v: "sa_port_requests (rc_alloc cx3) = ?rs" "cs_switch_buffer (r_switch (rc_router cx3)) = ?sb"
    using v2 v3 s1 by (auto simp: sa_view_def sa_next_invc_def)
  from send have s: "inport < length ?sb" "sa_port_requests (rc_alloc cx4) = ?rs"
      "cs_switch_buffer (r_switch (rc_router cx4)) = ?sb[inport := insert_flit f (?sb ! inport)]"
    using v by (auto elim!: sa_send_cases simp: Let_def)
  have q: "outport < length ?rs" "inport < length (?rs ! outport)" "?rs ! outport ! inport"
    using r by (auto simp: at2_eq_Inr)
  have p': "sa_port_requests s2 = ?rs[outport := (?rs ! outport)[inport := False]]"
    using s2 v6 s(2) cx5 by (auto simp: sa_end_grant_def put_at2_eq_Inr sa_view_def)
  have b': "cs_switch_buffer (r_switch (rc_router cx')) = ?sb[inport := insert_flit f (?sb ! inport)]"
    using cx' v6 s(3) cx5 by (simp add: sa_view_def)
  have "pending cx' i + (if i = inport then 1 else 0) = pending cx i"
    using length_filter_update [OF q(1), of "\<lambda>row. row ! i" "(?rs ! outport)[inport := False]"]
      length_filter_update_same [OF q(1), of "\<lambda>row. row ! i" "(?rs ! outport)[inport := False]"] q p'
    by (cases "i = inport") (simp_all add: pending_def cx')
  moreover have "sw_size cx' i = sw_size cx i + (if i = inport then 1 else 0)"
    using s(1) b' by (cases "i = inport") (simp_all add: sw_size_def getSize_def insert_flit_def)
  ultimately show ?thesis by auto
qed

lemma sa_scan_inports_balance:
  "sa_scan_inports C now outport ps cx = Inr cx' \<Longrightarrow> sw_size cx' i + pending cx' i = sw_size cx i + pending cx i"
  by (induction ps) (auto dest: sa_grant_balance split: if_splits)

interpretation sa_bal: conserved "sa_arbitrate_outport C now" "\<lambda>cx. sw_size cx i + pending cx i" for C now i
  by unfold_locales (auto simp: sa_arbitrate_outport_def dest: sa_scan_inports_balance)

lemma SwitchAllocator_one_per_inport:
  assumes w: "SwitchAllocator_wakeup C now cx = Inr cx'" and p: "pending cx i = 0"
  shows "sw_size cx' i \<le> sw_size cx i + 1"
proof -
  from w obtain cx1 cx2 s where a: "arbitrate_inports C now cx = Inr cx1" "arbitrate_outports C now cx1 = Inr cx2"
    and c: "check_for_wakeup now (rc_map_alloc (\<lambda>_. s) cx2) = Inr cx'"
    by (auto simp: SwitchAllocator_wakeup_def)
  have 1: "sw_size cx1 i = sw_size cx i \<and> pending cx1 i \<le> 1"
    using a(1) p sa_inports_pending [of C now "[0..<sa_num_inports (rc_alloc cx)]" cx cx1 i]
    by (auto simp: arbitrate_inports_def split: if_splits)
  have 2: "sw_size cx2 i + pending cx2 i = sw_size cx1 i + pending cx1 i"
    using a(2) sa_bal.loop_conserves by (auto simp: arbitrate_outports_def split: if_splits)
  have "sw_size cx' i = sw_size cx2 i" using c by (auto simp: check_for_wakeup_def sw_size_def)
  then show ?thesis using 1 2 by linarith
qed

text \<open>An output port gives away at most one credit.\<close>

definition credit_sum :: "output_unit \<Rightarrow> int" where
  "credit_sum u = sum_list (map ovc_credit_count (ou_outvc_state u))"

abbreviation cx_outs :: "router_ctx \<Rightarrow> output_unit list" where
  "cx_outs cx \<equiv> r_output_unit (rc_router cx)"

lemma sum_list_update_diff:
  fixes xs :: "int list"
  shows "n < length xs \<Longrightarrow> sum_list (xs[n := x]) = sum_list xs + x - xs ! n"
  by (induction xs arbitrary: n) (auto split: nat.splits)

lemma ou_modify_credit_sum:
  assumes "ou_modify u vc f = Inr u'" and "\<And>s s'. f s = Inr s' \<Longrightarrow> ovc_credit_count s' = ovc_credit_count s + d"
  shows "credit_sum u' = credit_sum u + d"
  using assms by (auto simp: ou_modify_Inr credit_sum_def map_update sum_list_update_diff)

lemma ou_decrement_credit_sum: "ou_decrement_credit vc u = Inr u' \<Longrightarrow> credit_sum u' = credit_sum u - 1"
  unfolding ou_decrement_credit_def by (drule ou_modify_credit_sum [where d = "-1"]) (auto simp: ovc_decrement_Inr)

lemma ou_select_free_vc_sum: "ou_select_free_vc now vnet u = Inr (v, u') \<Longrightarrow> credit_sum u' = credit_sum u"
  by (auto simp: ou_select_free_vc_def ovc_setState_def split: option.splits dest!: ou_modify_credit_sum [where d = 0])

lemma sa_quiet_outs:
  "sa_set_uturn inport invc b cx = Inr cx' \<Longrightarrow> cx_outs cx' = cx_outs cx"
  "disallow_uturn inport invc d cx = Inr cx' \<Longrightarrow> cx_outs cx' = cx_outs cx"
  "sa_return_credit C now inport invc f cx = Inr cx' \<Longrightarrow> cx_outs cx' = cx_outs cx"
  by (auto simp: sa_set_uturn_def disallow_uturn_def sa_return_credit_def Let_def case_prod_beta)

lemma sa_uturn_outs:
  "sa_uturn_won inport invc cx = Inr cx' \<Longrightarrow> cx_outs cx' = cx_outs cx"
  "sa_check_uturn C inport invc cx = Inr cx' \<Longrightarrow> cx_outs cx' = cx_outs cx"
  by (auto simp: sa_uturn_won_def sa_check_uturn_def Let_def dest!: sa_quiet_outs split: if_splits)

lemma sa_scan_invcs_outs: "sa_scan_invcs C now inport vs cx = Inr cx' \<Longrightarrow> cx_outs cx' = cx_outs cx"
proof (induction vs arbitrary: cx)
  case (Cons v vs)
  have "cx_outs cx1 = cx_outs cx" if "sa_try_invc C now inport v cx = Inr (won, cx1)" for won cx1
    using that by (auto simp: sa_try_invc_def Let_def dest!: sa_uturn_outs split: if_splits)
  then show ?case using Cons by (fastforce split: if_splits)
qed simp

interpretation sa_in_outs: conserved "sa_arbitrate_inport C now" cx_outs for C now
  by unfold_locales (auto simp: sa_arbitrate_inport_def dest: sa_scan_invcs_outs)

lemma vc_allocate_outs:
  assumes "vc_allocate now outport inport invc cx = Inr (v, cx')"
  obtains ou' where "outport < length (cx_outs cx)" "cx_outs cx' = (cx_outs cx)[outport := ou']"
    "credit_sum ou' = credit_sum (cx_outs cx ! outport)" "ou_inv (cx_outs cx ! outport) \<Longrightarrow> ou_inv ou'"
  using assms ou_select_free_vc_sum ou_select_free_vc_inv by (auto simp: vc_allocate_def rc_output_Inr)

lemma sa_send_outs:
  assumes "sa_send now outport inport invc outvc cx = Inr (f, cx')"
  obtains ou' where "outport < length (cx_outs cx)" "cx_outs cx' = (cx_outs cx)[outport := ou']"
    "credit_sum ou' = credit_sum (cx_outs cx ! outport) - 1" "ou_inv (cx_outs cx ! outport) \<Longrightarrow> ou_inv ou'"
  using assms ou_decrement_credit_sum ou_ops_inv(1) by (auto elim!: sa_send_cases simp: Let_def)

lemma sa_grant_outs:
  assumes "sa_grant C now outport inport cx = Inr cx'"
  obtains ou' where "outport < length (cx_outs cx)" "cx_outs cx' = (cx_outs cx)[outport := ou']"
    "credit_sum ou' = credit_sum (cx_outs cx ! outport) - 1" "ou_inv (cx_outs cx ! outport) \<Longrightarrow> ou_inv ou'"
proof -
  from assms obtain invc s1 u outvc0 outvc cx2 cx3 f cx4 cx6 s2 where
    cx2: "if outvc0 = -1 then vc_allocate now outport inport invc (rc_map_alloc (\<lambda>_. s1) cx) = Inr (outvc, cx2)
       else outvc = outvc0 \<and> cx2 = rc_map_alloc (\<lambda>_. s1) cx"
    and u: "sa_uturn_won inport invc cx2 = Inr cx3"
    and send: "sa_send now outport inport invc outvc cx3 = Inr (f, cx4)"
    and rt: "sa_return_credit C now inport invc f
       (rc_map_alloc (\<lambda>s. s\<lparr>sa_output_arbiter_activity := sa_output_arbiter_activity s + 1\<rparr>) cx4) = Inr cx6"
    and cx': "cx' = rc_map_alloc (\<lambda>_. s2) cx6"
    by (rule sa_grant_cases)
  have v3: "cx_outs cx3 = cx_outs cx2" and v6: "cx_outs cx6 = cx_outs cx4"
    using sa_uturn_outs(1) [OF u] sa_quiet_outs(3) [OF rt] by simp_all
  obtain ou1 where o1: "cx_outs cx2 = (cx_outs cx)[outport := ou1]"
    "credit_sum ou1 = credit_sum (cx_outs cx ! outport)" "ou_inv (cx_outs cx ! outport) \<Longrightarrow> ou_inv ou1"
  proof (cases "outvc0 = -1")
    case True
    then have "vc_allocate now outport inport invc (rc_map_alloc (\<lambda>_. s1) cx) = Inr (outvc, cx2)" using cx2 by simp
    then show ?thesis by (rule vc_allocate_outs) (auto intro: that)
  qed (use cx2 that [of "cx_outs cx ! outport"] in simp)
  obtain ou2 where o2: "outport < length (cx_outs cx3)" "cx_outs cx4 = (cx_outs cx3)[outport := ou2]"
    "credit_sum ou2 = credit_sum (cx_outs cx3 ! outport) - 1" "ou_inv (cx_outs cx3 ! outport) \<Longrightarrow> ou_inv ou2"
    by (rule sa_send_outs [OF send that])
  show thesis using that [of ou2] o1 o2 v3 v6 cx' by simp
qed

lemma sa_scan_inports_outs:
  "sa_scan_inports C now outport ps cx = Inr cx' \<Longrightarrow> cx_outs cx' = cx_outs cx \<or>
     (\<exists>ou'. outport < length (cx_outs cx) \<and> cx_outs cx' = (cx_outs cx)[outport := ou'] \<and>
        credit_sum ou' = credit_sum (cx_outs cx ! outport) - 1 \<and> (ou_inv (cx_outs cx ! outport) \<longrightarrow> ou_inv ou'))"
proof (induction ps)
  case (Cons p ps)
  from Cons.prems consider "sa_grant C now outport p cx = Inr cx'" | "sa_scan_inports C now outport ps cx = Inr cx'"
    by (auto split: if_splits)
  then show ?case
  proof cases
    case 1
    then show ?thesis by (elim sa_grant_outs) blast
  qed (rule Cons.IH)
qed simp

lemma sa_outports_outs:
  assumes "foldM (sa_arbitrate_outport C now) ps cx = Inr cx'" and "distinct ps"
  shows "length (cx_outs cx') = length (cx_outs cx) \<and>
    (\<forall>q < length (cx_outs cx). credit_sum (cx_outs cx ! q) - (if q \<in> set ps then 1 else 0) \<le> credit_sum (cx_outs cx' ! q) \<and>
       (ou_inv (cx_outs cx ! q) \<longrightarrow> ou_inv (cx_outs cx' ! q)))"
  using assms
proof (induction ps arbitrary: cx)
  case (Cons p ps)
  then obtain cx1 where c: "sa_arbitrate_outport C now p cx = Inr cx1" "foldM (sa_arbitrate_outport C now) ps cx1 = Inr cx'"
    by auto
  have 1: "length (cx_outs cx1) = length (cx_outs cx)"
    "q < length (cx_outs cx) \<Longrightarrow> credit_sum (cx_outs cx ! q) - (if q = p then 1 else 0) \<le> credit_sum (cx_outs cx1 ! q) \<and>
       (ou_inv (cx_outs cx ! q) \<longrightarrow> ou_inv (cx_outs cx1 ! q))" for q
    using c(1) by (auto simp: sa_arbitrate_outport_def nth_list_update dest!: sa_scan_inports_outs)
  show ?case
  proof (intro conjI allI impI)
    show "length (cx_outs cx') = length (cx_outs cx)" using Cons.IH [OF c(2)] Cons.prems(2) 1(1) by simp
    fix q assume q: "q < length (cx_outs cx)"
    then have IH: "credit_sum (cx_outs cx1 ! q) - (if q \<in> set ps then 1 else 0) \<le> credit_sum (cx_outs cx' ! q)"
      "ou_inv (cx_outs cx1 ! q) \<longrightarrow> ou_inv (cx_outs cx' ! q)"
      using Cons.IH [OF c(2)] Cons.prems(2) 1(1) by auto
    show "credit_sum (cx_outs cx ! q) - (if q \<in> set (p # ps) then 1 else 0) \<le> credit_sum (cx_outs cx' ! q)"
      using IH(1) 1(2) [OF q] Cons.prems(2) by (auto split: if_splits)
    assume "ou_inv (cx_outs cx ! q)"
    then show "ou_inv (cx_outs cx' ! q)" using IH(2) 1(2) [OF q] by simp
  qed
qed simp

lemma SwitchAllocator_one_per_outport:
  assumes "SwitchAllocator_wakeup C now cx = Inr cx'" and "q < length (cx_outs cx)"
  shows "length (cx_outs cx') = length (cx_outs cx)" and "credit_sum (cx_outs cx ! q) - 1 \<le> credit_sum (cx_outs cx' ! q)"
    and "ou_inv (cx_outs cx ! q) \<Longrightarrow> ou_inv (cx_outs cx' ! q)"
proof -
  from assms(1) obtain cx1 cx2 s where a: "arbitrate_inports C now cx = Inr cx1" "arbitrate_outports C now cx1 = Inr cx2"
    and c: "check_for_wakeup now (rc_map_alloc (\<lambda>_. s) cx2) = Inr cx'"
    by (auto simp: SwitchAllocator_wakeup_def)
  have e1: "cx_outs cx1 = cx_outs cx"
    using a(1) sa_in_outs.loop_conserves by (auto simp: arbitrate_inports_def split: if_splits)
  have e2: "cx_outs cx' = cx_outs cx2" using c by (auto simp: check_for_wakeup_def)
  have "length (cx_outs cx') = length (cx_outs cx) \<and> credit_sum (cx_outs cx ! q) - 1 \<le> credit_sum (cx_outs cx' ! q) \<and>
      (ou_inv (cx_outs cx ! q) \<longrightarrow> ou_inv (cx_outs cx' ! q))"
    using a(2) assms(2) e1 e2 sa_outports_outs [of C now "[0..<sa_num_outports (rc_alloc cx1)]" cx1 cx2]
    by (auto simp: arbitrate_outports_def split: if_splits)
  then show "length (cx_outs cx') = length (cx_outs cx)" "credit_sum (cx_outs cx ! q) - 1 \<le> credit_sum (cx_outs cx' ! q)"
    "ou_inv (cx_outs cx ! q) \<Longrightarrow> ou_inv (cx_outs cx' ! q)" by auto
qed

lemma SwitchAllocator_outs_length:
  assumes "SwitchAllocator_wakeup C now cx = Inr cx'"
  shows "length (cx_outs cx') = length (cx_outs cx)"
proof -
  from assms obtain cx1 cx2 s where a: "arbitrate_inports C now cx = Inr cx1" "arbitrate_outports C now cx1 = Inr cx2"
    and c: "check_for_wakeup now (rc_map_alloc (\<lambda>_. s) cx2) = Inr cx'"
    by (auto simp: SwitchAllocator_wakeup_def)
  have "cx_outs cx1 = cx_outs cx"
    using a(1) sa_in_outs.loop_conserves by (auto simp: arbitrate_inports_def split: if_splits)
  moreover have "cx_outs cx' = cx_outs cx2" using c by (auto simp: check_for_wakeup_def)
  ultimately show ?thesis using a(2) sa_outports_outs [of C now "[0..<sa_num_outports (rc_alloc cx1)]" cx1 cx2]
    by (auto simp: arbitrate_outports_def split: if_splits)
qed

section \<open>Requests, halted routers and ordering\<close>

lemma clear_requests_fold:
  assumes "foldM (\<lambda>(i, j) reqs. put_at2 reqs i j False) ijs rs = Inr rs'"
  shows "map length rs' = map length rs \<and>
    (\<forall>i < length rs. \<forall>j < length (rs ! i). rs' ! i ! j = (rs ! i ! j \<and> (i, j) \<notin> set ijs))"
  using assms
proof (induction ijs arbitrary: rs)
  case (Cons ij ijs)
  obtain a b where ij: "ij = (a, b)" by force
  with Cons.prems obtain rs1 where r1: "put_at2 rs a b False = Inr rs1"
    "foldM (\<lambda>(i, j) reqs. put_at2 reqs i j False) ijs rs1 = Inr rs'" by auto
  from r1(1) have e: "rs1 = rs[a := (rs ! a)[b := False]]" "a < length rs" "b < length (rs ! a)"
    by (auto simp: put_at2_eq_Inr)
  have len: "map length rs1 = map length rs" using e by (simp add: map_update list_update_same_conv)
  then have l2: "length rs1 = length rs" "i < length rs \<Longrightarrow> length (rs1 ! i) = length (rs ! i)" for i
    by (metis length_map, metis length_map nth_map)
  have v: "rs1 ! i ! j = (rs ! i ! j \<and> (i, j) \<noteq> (a, b))" if "i < length rs" "j < length (rs ! i)" for i j
    using that e by (cases "i = a"; cases "j = b") simp_all
  show ?case using Cons.IH [OF r1(2)] len l2 v ij by auto
qed simp

lemma clear_request_vector_all:
  assumes "clear_request_vector s = Inr s'" and "requests_ok s"
  shows "\<forall>row \<in> set (sa_port_requests s'). True \<notin> set row" and "requests_ok s'"
    and "s' = s\<lparr>sa_port_requests := sa_port_requests s'\<rparr>"
proof -
  let ?rs = "sa_port_requests s" and ?rs' = "sa_port_requests s'"
  from assms(1) show s': "s' = s\<lparr>sa_port_requests := ?rs'\<rparr>" by (auto simp: clear_request_vector_def)
  from assms(1) have f: "foldM (\<lambda>(i, j) reqs. put_at2 reqs i j False)
      (List.product [0..<sa_num_outports s] [0..<sa_num_inports s]) ?rs = Inr ?rs'"
    by (auto simp: clear_request_vector_def)
  from clear_requests_fold [OF f] have m: "map length ?rs' = map length ?rs" by blast
  then have l: "length ?rs' = length ?rs" "i < length ?rs \<Longrightarrow> length (?rs' ! i) = length (?rs ! i)" for i
    by (metis length_map, metis length_map nth_map)
  have "sa_num_outports s' = sa_num_outports s" "sa_num_inports s' = sa_num_inports s" by (subst s', simp)+
  moreover have "length row = sa_num_inports s" if row: "row \<in> set ?rs'" for row
  proof -
    obtain i where "i < length ?rs'" "row = ?rs' ! i" using row by (auto simp: in_set_conv_nth)
    then show ?thesis using l assms(2) by (simp add: requests_ok_def)
  qed
  ultimately show "requests_ok s'" using assms(2) l(1) by (simp add: requests_ok_def)
  have "\<not> ?rs' ! i ! j" if "i < length ?rs'" "j < length (?rs' ! i)" for i j
    using clear_requests_fold [OF f] that l assms(2) by (auto simp: requests_ok_def)
  then show "\<forall>row \<in> set ?rs'. True \<notin> set row" by (metis in_set_conv_nth)
qed

lemma SwitchAllocator_wakeup_halted:
  assumes "r_halt (rc_router cx)" and "SwitchAllocator_wakeup C now cx = Inr cx'"
  shows "\<exists>reqs. rc_router cx' = (rc_router cx)\<lparr>r_sw_alloc := (rc_alloc cx)\<lparr>sa_port_requests := reqs\<rparr>\<rparr>"
    and "rc_stats cx' = rc_stats cx"
  using assms
  by (auto simp: SwitchAllocator_wakeup_def arbitrate_inports_def arbitrate_outports_def clear_request_vector_def
      check_for_wakeup_def rc_map_alloc_def)

text \<open>
  No operation of the program sets the output port of a channel: it is \<open>-1\<close> from the constructor
  and from \<open>set_idle\<close> on. So the search for an older flit of an ordered virtual network finds none.
\<close>

definition no_vc_outport :: "input_unit \<Rightarrow> bool" where
  "no_vc_outport u = list_all (\<lambda>v. vc_output_port v = -1) (iu_vcs u)"

lemma sa_older_request_False:
  assumes "no_vc_outport u" and "0 \<le> outport" and "sa_older_request now u outport t vcs = Inr b"
  shows "\<not> b"
  using assms(3)
proof (induction vcs)
  case (Cons v vcs)
  have "p = -1" if "iu_get_outport u (int v) = Inr p" for p
    using that assms(1) by (auto simp: iu_get_outport_def iu_read_def at_eq_Inr no_vc_outport_def list_all_length)
  then show ?case using Cons assms(2) by (auto split: if_splits)
qed simp

lemma send_allowed_free_vc:
  assumes s: "send_allowed C now r inport invc outport (-1) = Inr b" and u: "inport < length (r_input_unit r)"
    and no: "no_vc_outport (r_input_unit r ! inport)"
  shows "\<exists>vnet. sa_get_vnet r invc = Inr vnet \<and> ou_has_free_vc now vnet (r_output_unit r ! nat outport) = Inr b"
proof -
  from s obtain vnet ou free where v: "sa_get_vnet r invc = Inr vnet" "at (r_output_unit r) outport = Inr ou"
    "ou_has_free_vc now vnet ou = Inr free" by (auto simp: send_allowed_def)
  then have p: "0 \<le> outport" "ou = r_output_unit r ! nat outport" by (auto simp: at_eq_Inr)
  have "\<not> older" if "sa_older_request now (r_input_unit r ! inport) outport t vcs = Inr older" for t vcs older
    using sa_older_request_False [OF no p(1) that] .
  then have "b = free"
    using s v u by (fastforce simp: send_allowed_def split: if_splits)
  then show ?thesis using v p by auto
qed

section \<open>The request matrix\<close>

text \<open>Only the request and the end of a grant change the allocator's request matrix, and not its shape.\<close>

lemma rc_alloc_kept:
  "sa_set_uturn inport invc b cx = Inr cx' \<Longrightarrow> rc_alloc cx' = rc_alloc cx"
  "disallow_uturn inport invc d cx = Inr cx' \<Longrightarrow> rc_alloc cx' = rc_alloc cx"
  "vc_allocate now outport inport invc cx = Inr (v, cx') \<Longrightarrow> rc_alloc cx' = rc_alloc cx"
  "sa_return_credit C now inport invc f cx = Inr cx' \<Longrightarrow> rc_alloc cx' = rc_alloc cx"
  by (auto simp: sa_set_uturn_def disallow_uturn_def vc_allocate_def sa_return_credit_def Let_def case_prod_beta)

lemma rc_alloc_kept2:
  "sa_check_uturn C inport invc cx = Inr cx' \<Longrightarrow> rc_alloc cx' = rc_alloc cx"
  "sa_uturn_won inport invc cx = Inr cx' \<Longrightarrow> rc_alloc cx' = rc_alloc cx"
  "sa_send now outport inport invc outvc cx = Inr (f, cx') \<Longrightarrow> rc_alloc cx' = rc_alloc cx"
  by (auto simp: sa_check_uturn_def sa_uturn_won_def Let_def dest!: rc_alloc_kept elim!: sa_send_cases split: if_splits)

definition sa_shape :: "switch_allocator \<Rightarrow> nat list \<times> nat \<times> nat" where
  "sa_shape s = (map length (sa_port_requests s), sa_num_outports s, sa_num_inports s)"

lemma map_length_put_at2: "put_at2 xss i j x = Inr yss \<Longrightarrow> map length yss = map length xss"
  by (auto simp: put_at2_eq_Inr map_update list_update_same_conv)

lemma sa_shape_ops:
  "sa_request outport inport invc s = Inr s' \<Longrightarrow> sa_shape s' = sa_shape s"
  "sa_next_invc inport s = Inr s' \<Longrightarrow> sa_shape s' = sa_shape s"
  "sa_end_grant outport inport s = Inr s' \<Longrightarrow> sa_shape s' = sa_shape s"
  "sa_shape (s\<lparr>sa_output_arbiter_activity := n\<rparr>) = sa_shape s"
  by (auto simp: sa_shape_def sa_request_def sa_next_invc_def sa_end_grant_def dest: map_length_put_at2)

lemma sa_scan_invcs_shape:
  "sa_scan_invcs C now inport vs cx = Inr cx' \<Longrightarrow> sa_shape (rc_alloc cx') = sa_shape (rc_alloc cx)"
  by (induction vs arbitrary: cx)
    (auto simp: sa_try_invc_def Let_def dest!: rc_alloc_kept2(1) sa_shape_ops(1) split: if_splits)

interpretation sa_in_shape: conserved "sa_arbitrate_inport C now" "\<lambda>cx. sa_shape (rc_alloc cx)" for C now
  by unfold_locales (auto simp: sa_arbitrate_inport_def dest: sa_scan_invcs_shape)

lemma sa_grant_shape:
  assumes "sa_grant C now outport inport cx = Inr cx'"
  shows "sa_shape (rc_alloc cx') = sa_shape (rc_alloc cx)"
  using assms
  by (auto elim!: sa_grant_cases dest!: rc_alloc_kept(3,4) rc_alloc_kept2(2,3) sa_shape_ops(2,3) simp: sa_shape_ops(4)
      split: if_splits)

lemma sa_scan_inports_shape:
  "sa_scan_inports C now outport ps cx = Inr cx' \<Longrightarrow> sa_shape (rc_alloc cx') = sa_shape (rc_alloc cx)"
  by (induction ps) (auto dest: sa_grant_shape split: if_splits)

interpretation sa_out_shape: conserved "sa_arbitrate_outport C now" "\<lambda>cx. sa_shape (rc_alloc cx)" for C now
  by unfold_locales (auto simp: sa_arbitrate_outport_def dest: sa_scan_inports_shape)

lemma requests_ok_shape: "sa_shape s' = sa_shape s \<Longrightarrow> requests_ok s' = requests_ok s"
proof -
  assume a: "sa_shape s' = sa_shape s"
  have "requests_ok s = (case sa_shape s of (ls, m, n) \<Rightarrow> length ls = m \<and> (\<forall>l \<in> set ls. l = n))" for s
    by (simp add: requests_ok_def sa_shape_def)
  then show ?thesis using a by (simp only:)
qed

lemma SwitchAllocator_wakeup_clears:
  assumes "SwitchAllocator_wakeup C now cx = Inr cx'" and "requests_ok (rc_alloc cx)"
  shows "requests_ok (rc_alloc cx') \<and> (\<forall>row \<in> set (sa_port_requests (rc_alloc cx')). True \<notin> set row)"
proof -
  from assms(1) obtain cx1 cx2 s where a: "arbitrate_inports C now cx = Inr cx1" "arbitrate_outports C now cx1 = Inr cx2"
    and s: "clear_request_vector (rc_alloc cx2) = Inr s" and c: "check_for_wakeup now (rc_map_alloc (\<lambda>_. s) cx2) = Inr cx'"
    by (auto simp: SwitchAllocator_wakeup_def)
  have "sa_shape (rc_alloc cx1) = sa_shape (rc_alloc cx)"
    using a(1) sa_in_shape.loop_conserves by (auto simp: arbitrate_inports_def split: if_splits)
  moreover have "sa_shape (rc_alloc cx2) = sa_shape (rc_alloc cx1)"
    using a(2) sa_out_shape.loop_conserves by (auto simp: arbitrate_outports_def split: if_splits)
  ultimately have "requests_ok (rc_alloc cx2)" using requests_ok_shape assms(2) by metis
  moreover have "rc_alloc cx' = s" using c by (auto simp: check_for_wakeup_def)
  ultimately show ?thesis using clear_request_vector_all(1,2) [OF s] by simp
qed

lemma pending_0: "requests_ok (rc_alloc cx) \<Longrightarrow> \<forall>row \<in> set (sa_port_requests (rc_alloc cx)). True \<notin> set row \<Longrightarrow>
    i < sa_num_inports (rc_alloc cx) \<Longrightarrow> pending cx i = 0"
  by (auto simp: pending_def requests_ok_def filter_empty_conv) (metis nth_mem)

end
