(* ===== verification/Router_Model.thy ===== *)
theory Router_Model
  imports Drain Switch_Correct
begin

text \<open>
  \<open>Router\<close> (src/gem5/src/mem/ruby/network/garnet2.0/Router.cc), \<open>InputUnit::wakeup\<close> (InputUnit.cc) and the
  functions of \<open>GarnetNetwork\<close> that connect routers and links (GarnetNetwork.cc). A router is named by
  its position in \<open>m_routers\<close>. \<open>Router_wakeup\<close> is the whole handler: read the links, read the credits,
  the halt and drain protocol, switch allocation, switch traversal.

  In the drain branch the source has \<open>assert(halt_ = true)\<close>: an assignment. With assertions enabled,
  as modelled here, the router is halted from there on and the test that follows always holds.
\<close>

section \<open>Construction\<close>

definition Router_new :: "router \<Rightarrow> nat \<Rightarrow> cycles \<Rightarrow> nat \<Rightarrow> nat \<Rightarrow> int \<Rightarrow> router" where
  "Router_new u i latency virt_nets vcs_per_vnet marked_flit =
     (let num_vcs = virt_nets * vcs_per_vnet in
      u\<lparr>r_id := i, r_latency := latency, r_virtual_networks := virt_nets, r_vc_per_vnet := vcs_per_vnet,
        r_num_vcs := num_vcs, r_mrkd_flt := marked_flit, r_routing_unit := RoutingUnit_new,
        r_sw_alloc := SwitchAllocator_new (r_sw_alloc u) num_vcs vcs_per_vnet,
        r_switch := CrossbarSwitch_new (r_switch u) num_vcs,
        r_input_unit := [], r_output_unit := [], r_halt := False, r_wakeups := []\<rparr>)"

definition Router_init :: "router \<Rightarrow> router" where
  "Router_init r =
     r\<lparr>r_sw_alloc := SwitchAllocator_init (length (r_input_unit r)) (length (r_output_unit r)) (r_sw_alloc r),
       r_switch := CrossbarSwitch_init (length (r_input_unit r)) (r_switch r)\<rparr>"

definition map_flit_link :: "nat \<Rightarrow> (flit_link \<Rightarrow> flit_link) \<Rightarrow> garnet_network \<Rightarrow> garnet_network" where
  "map_flit_link k f net = net\<lparr>gn_networklinks := count_up (gn_networklinks net) k f\<rparr>"

definition map_credit_link :: "nat \<Rightarrow> (credit_link \<Rightarrow> credit_link) \<Rightarrow> garnet_network \<Rightarrow> garnet_network" where
  "map_credit_link k f net = net\<lparr>gn_creditlinks := count_up (gn_creditlinks net) k f\<rparr>"

definition Router_addInPort ::
    "input_unit \<Rightarrow> nat \<Rightarrow> port_direction \<Rightarrow> nat \<Rightarrow> nat \<Rightarrow> garnet_network \<Rightarrow> garnet_network res" where
  "Router_addInPort raw rid inport_dirn in_link credit_link net =
     bnd (get_router net (int rid)) (\<lambda>r.
     let port_num = length (r_input_unit r) in
     bnd (InputUnit_new raw port_num inport_dirn (r_num_vcs r) (r_vc_per_vnet r)) (\<lambda>u0.
     let u = u0\<lparr>iu_in_link := in_link, iu_credit_link := credit_link\<rparr>;
         net1 = map_credit_link credit_link (setSourceQueue (RouterCredit rid port_num))
                  (map_flit_link in_link (setLinkConsumer (RouterConsumer rid)) net) in
     Inr (put_router net1 rid (r\<lparr>r_input_unit := r_input_unit r @ [u],
            r_routing_unit := addInDirection inport_dirn (int port_num) (r_routing_unit r)\<rparr>))))"

definition Router_addOutPort ::
    "output_unit \<Rightarrow> nat \<Rightarrow> port_direction \<Rightarrow> nat \<Rightarrow> net_dest \<Rightarrow> int \<Rightarrow> nat \<Rightarrow> garnet_network \<Rightarrow>
     garnet_network res" where
  "Router_addOutPort raw rid outport_dirn out_link routing_table_entry link_weight credit_link net =
     bnd (get_router net (int rid)) (\<lambda>r.
     let port_num = length (r_output_unit r) in
     bnd (OutputUnit_new raw (gn_config net) port_num outport_dirn (r_num_vcs r) (r_vc_per_vnet r)) (\<lambda>u0.
     let u = u0\<lparr>ou_out_link := out_link, ou_credit_link := credit_link\<rparr>;
         net1 = map_flit_link out_link (setSourceQueue (RouterOut rid port_num))
                  (map_credit_link credit_link (setLinkConsumer (RouterConsumer rid)) net) in
     Inr (put_router net1 rid (r\<lparr>r_output_unit := r_output_unit r @ [u],
            r_routing_unit := addOutDirection outport_dirn (int port_num)
              (addWeight link_weight (addRoute routing_table_entry (r_routing_unit r)))\<rparr>))))"

text \<open>
  \<open>NetworkInterface::addInPort\<close> and \<open>addOutPort\<close> (NetworkInterface.cc): the ends of the external links.
\<close>

definition NI_addInPort :: "nat \<Rightarrow> nat \<Rightarrow> nat \<Rightarrow> garnet_network \<Rightarrow> garnet_network res" where
  "NI_addInPort i in_link credit_link net =
     bnd (at (gn_nis net) (int i)) (\<lambda>n.
     let net1 = map_credit_link credit_link (setSourceQueue (NICredit i))
                  (map_flit_link in_link (setLinkConsumer (NIConsumer i)) net) in
     Inr (net1\<lparr>gn_nis := (gn_nis net)[i := n\<lparr>ni_inNetLink := in_link, ni_outCreditLink := credit_link\<rparr>]\<rparr>))"

definition NI_addOutPort :: "nat \<Rightarrow> nat \<Rightarrow> nat \<Rightarrow> nat \<Rightarrow> garnet_network \<Rightarrow> garnet_network res" where
  "NI_addOutPort i out_link credit_link router_id net =
     bnd (at (gn_nis net) (int i)) (\<lambda>n.
     let net1 = map_flit_link out_link (setSourceQueue (NIOut i))
                  (map_credit_link credit_link (setLinkConsumer (NIConsumer i)) net) in
     Inr (net1\<lparr>gn_nis := (gn_nis net)[i := n\<lparr>ni_inCreditLink := credit_link, ni_outNetLink := out_link,
            ni_outFlitQueue := flitBuffer_new, ni_router_id := int router_id\<rparr>]\<rparr>))"

text \<open>The links of a \<open>GarnetExtLink\<close> or \<open>GarnetIntLink\<close> are appended to the vectors of the network.\<close>

definition push_links :: "link_type \<Rightarrow> flit_link \<Rightarrow> credit_link \<Rightarrow> garnet_network \<Rightarrow> nat \<times> nat \<times> garnet_network" where
  "push_links ty nl cl net =
     (length (gn_networklinks net), length (gn_creditlinks net),
      net\<lparr>gn_networklinks := gn_networklinks net @ [nl\<lparr>nl_type := ty\<rparr>],
          gn_creditlinks := gn_creditlinks net @ [cl]\<rparr>)"

definition makeExtInLink ::
    "input_unit \<Rightarrow> nat \<Rightarrow> nat \<Rightarrow> flit_link \<Rightarrow> credit_link \<Rightarrow> garnet_network \<Rightarrow> garnet_network res" where
  "makeExtInLink raw src dest nl cl net =
     bnd (assert_that (src < length (gn_nis net))) (\<lambda>_.
     let (k, c, net1) = push_links EXT_IN nl cl net in
     bnd (Router_addInPort raw dest ''Local'' k c net1) (\<lambda>net2.
     NI_addOutPort src k c dest net2))"

definition makeExtOutLink ::
    "output_unit \<Rightarrow> nat \<Rightarrow> nat \<Rightarrow> flit_link \<Rightarrow> credit_link \<Rightarrow> net_dest \<Rightarrow> int \<Rightarrow> garnet_network \<Rightarrow>
     garnet_network res" where
  "makeExtOutLink raw src dest nl cl routing_table_entry weight net =
     bnd (assert_that (dest < length (gn_nis net))) (\<lambda>_.
     bnd (assert_that (src < length (gn_routers net))) (\<lambda>_.
     let (k, c, net1) = push_links EXT_OUT nl cl net in
     bnd (Router_addOutPort raw src ''Local'' k routing_table_entry weight c net1) (\<lambda>net2.
     NI_addInPort dest k c net2)))"

definition makeInternalLink ::
    "input_unit \<Rightarrow> output_unit \<Rightarrow> nat \<Rightarrow> nat \<Rightarrow> flit_link \<Rightarrow> credit_link \<Rightarrow> net_dest \<Rightarrow> int \<Rightarrow>
     port_direction \<Rightarrow> port_direction \<Rightarrow> garnet_network \<Rightarrow> garnet_network res" where
  "makeInternalLink rawi rawo src dest nl cl routing_table_entry weight src_outport_dirn dst_inport_dirn net =
     (let (k, c, net1) = push_links INT_link nl cl net in
      bnd (Router_addInPort rawi dest dst_inport_dirn k c net1) (\<lambda>net2.
      Router_addOutPort rawo src src_outport_dirn k routing_table_entry weight c net2))"

section \<open>Reading the links\<close>

text \<open>The flit as it is buffered: its stage is set last.\<close>

definition pipe_stage :: "router \<Rightarrow> cycles \<Rightarrow> flit \<Rightarrow> (flit \<times> event_req list) res" where
  "pipe_stage r now t =
     (if r_latency r = 1 then Inr (advance_stage SA_stage now t, [])
      else bnd (assert_that (1 < r_latency r)) (\<lambda>_.
        let wait_time = r_latency r - 1 in
        Inr (advance_stage SA_stage (now + wait_time) t, [(RouterConsumer (r_id r), now + wait_time)])))"

text \<open>A head flit activates its channel and gets its output port.\<close>

definition iu_head_flit :: "nat \<Rightarrow> nat \<Rightarrow> flit \<Rightarrow> garnet_network \<Rightarrow> (flit \<times> garnet_network) res" where
  "iu_head_flit rid inport t net =
     bnd (gn_input net rid (int inport)) (\<lambda>u.
     bnd (at (iu_vcs u) (fl_vc t)) (\<lambda>v.
     if is_head t then
       bnd (assert_that (fst (vc_state v) = IDLE)) (\<lambda>_.
       bnd (iu_set_vc_active (fl_vc t) (gn_cycle net) u) (\<lambda>u1.
       bnd (outportCompute (gn_put_input rid inport u1 net) rid (fl_route t)) (\<lambda>(outport, net1).
       bnd (at (r_output_unit (gn_routers net1 ! rid)) outport) (\<lambda>ou.
       Inr (set_outport_dir (ou_direction ou) (set_outport outport t), net1)))))
     else
       bnd (assert_that (fst (vc_state v) = ACTIVE)) (\<lambda>_. Inr (t, net))))"

definition iu_buffer_flit :: "nat \<Rightarrow> nat \<Rightarrow> flit \<Rightarrow> garnet_network \<Rightarrow> garnet_network res" where
  "iu_buffer_flit rid inport t net =
     bnd (gn_input net rid (int inport)) (\<lambda>u.
     bnd (pipe_stage (gn_routers net ! rid) (gn_cycle net) t) (\<lambda>(t1, es).
     bnd (iu_modify u (fl_vc t) (vc_insertFlit t1)) (\<lambda>u1.
     if iu_vc_per_vnet u = 0 then Inl DivByZero
     else let vnet = fl_vc t div int (iu_vc_per_vnet u) in
       bnd (at (iu_num_buffer_writes u1) vnet) (\<lambda>w.
       bnd (at (iu_num_buffer_reads u1) vnet) (\<lambda>rd.
       Inr (schedule_events es (gn_put_input rid inport
         (u1\<lparr>iu_num_buffer_writes := (iu_num_buffer_writes u1)[nat vnet := w + 1],
             iu_num_buffer_reads := (iu_num_buffer_reads u1)[nat vnet := rd + 1]\<rparr>) net)))))))"

definition InputUnit_wakeup :: "nat \<Rightarrow> nat \<Rightarrow> garnet_network \<Rightarrow> garnet_network res" where
  "InputUnit_wakeup rid inport net =
     bnd (gn_input net rid (int inport)) (\<lambda>u.
     bnd (at (gn_networklinks net) (int (iu_in_link u))) (\<lambda>l.
     if isReady (nl_linkBuffer l) (gn_cycle net) then
       bnd (consumeLink l) (\<lambda>(t, l').
       bnd (iu_head_flit rid inport (increment_hops t)
              (net\<lparr>gn_networklinks := (gn_networklinks net)[iu_in_link u := l']\<rparr>)) (\<lambda>(t1, net1).
       iu_buffer_flit rid inport t1 net1))
     else Inr net))"

text \<open>One output port reads its credit link.\<close>

definition Router_read_credit :: "nat \<Rightarrow> nat \<Rightarrow> garnet_network \<Rightarrow> garnet_network res" where
  "Router_read_credit rid outport net =
     bnd (get_router net (int rid)) (\<lambda>r.
     bnd (at (r_output_unit r) (int outport)) (\<lambda>ou.
     bnd (at (gn_creditlinks net) (int (ou_credit_link ou))) (\<lambda>cl.
     bnd (OutputUnit_wakeup (gn_cycle net) ou cl) (\<lambda>(ou', cl').
     Inr ((put_router net rid (r\<lparr>r_output_unit := (r_output_unit r)[outport := ou']\<rparr>))
            \<lparr>gn_creditlinks := (gn_creditlinks net)[ou_credit_link ou := cl']\<rparr>)))))"

section \<open>Halt and drain\<close>

definition count_and_spin :: "nat \<Rightarrow> garnet_network \<Rightarrow> garnet_network res" where
  "count_and_spin vc net = doSpin vc (gn_map_stats (\<lambda>s. s\<lparr>st_num_drain := st_num_drain s + 1\<rparr>) net)"

text \<open>The channels that are drained: all, or the first of every virtual network.\<close>

definition drain_vcs :: "garnet_config \<Rightarrow> router \<Rightarrow> nat list" where
  "drain_vcs C r =
     (if nc_drain_all_vc C = 1 then [0..<r_num_vcs r]
      else map (\<lambda>vnet. vnet * r_vc_per_vnet r) [0..<r_virtual_networks r])"

definition spin_rounds :: "nat \<Rightarrow> nat list \<Rightarrow> garnet_network \<Rightarrow> garnet_network res" where
  "spin_rounds n vcs net = foldM (\<lambda>_. foldM count_and_spin vcs) [0..<n] net"

text \<open>With \<open>m_spin_mult = 0\<close> the number of rounds is random and only base channels are drained.\<close>

definition drain_rounds :: "router \<Rightarrow> garnet_network \<Rightarrow> garnet_network res" where
  "drain_rounds r net =
     (if nc_spin_mult (gn_config net) = 0 then
        let (rnd, net1) = next_random net in
        spin_rounds (rnd mod 10) (map (\<lambda>vnet. vnet * r_vc_per_vnet r) [0..<r_virtual_networks r]) net1
      else spin_rounds (nc_spin_mult (gn_config net)) (drain_vcs (gn_config net) r) net)"

definition begin_halt :: "nat \<Rightarrow> garnet_network \<Rightarrow> garnet_network res" where
  "begin_halt rid net =
     bnd (get_router net (int rid)) (\<lambda>r.
     bnd (if \<not> r_halt r then
            let net1 = set_halt True net in
            bnd (assert_that (gn_lock net1 = -1)) (\<lambda>_. Inr (scheduleAll_wakeup 3 net1))
          else Inr net) (\<lambda>net2.
     if gn_lock net2 = -1 then
       bnd (chck_link_state (net2\<lparr>gn_lock := int (r_id r)\<rparr>)) (\<lambda>_. Inr (net2\<lparr>gn_lock := int (r_id r)\<rparr>))
     else Inr net2))"

definition end_halt :: "nat \<Rightarrow> garnet_network \<Rightarrow> garnet_network res" where
  "end_halt rid net =
     bnd (get_router net (int rid)) (\<lambda>r.
     let net1 = set_halt False (put_router net rid (r\<lparr>r_halt := True\<rparr>)) in
     bnd (chck_link_state net1) (\<lambda>spin_safe.
     bnd (assert_that spin_safe) (\<lambda>_.
     bnd (drain_rounds r net1) (\<lambda>net2.
     bnd (foldM set_flit_time (drain_vcs (gn_config net2) r) net2) (\<lambda>net3.
     let net4 = gn_schedule_wakeup 3 (net3\<lparr>gn_lock := -1\<rparr>) in
     Inr (scheduleAll_wakeup (2 * nc_spin_mult (gn_config net4)) net4))))))"

definition Router_spin :: "nat \<Rightarrow> garnet_network \<Rightarrow> garnet_network res" where
  "Router_spin rid net =
     (let C = gn_config net; now = gn_cycle net; thr = nc_spin_thrshld C in
      if \<not> nc_spin C then Inr net
      else if thr = 0 then Inl DivByZero
      else if 0 < now \<and> now mod thr = 0 then begin_halt rid net
      else if thr < now \<and> 2 < now mod thr \<and> gn_lock net \<noteq> -1 then end_halt rid net
      else if now mod thr < 3 then
        bnd (get_router net (int rid)) (\<lambda>r.
        if int (r_id r) = gn_lock net then
          bnd (chck_link_state net) (\<lambda>spin_safe.
          bnd (assert_that (now mod thr = 2 \<longrightarrow> spin_safe)) (\<lambda>_. Inr net))
        else Inr net)
      else Inr net)"

section \<open>Wakeup\<close>

definition Router_switch :: "nat \<Rightarrow> garnet_network \<Rightarrow> garnet_network res" where
  "Router_switch rid net =
     bnd (get_router net (int rid)) (\<lambda>r.
     bnd (SwitchAllocator_wakeup (gn_config net) (gn_cycle net)
            \<lparr>rc_router = r, rc_stats = gn_stats net, rc_events = []\<rparr>) (\<lambda>cx1.
     bnd (CrossbarSwitch_wakeup (gn_cycle net) cx1) (\<lambda>cx2.
     Inr (schedule_events (rc_events cx2)
            ((put_router net rid (rc_router cx2))\<lparr>gn_stats := rc_stats cx2\<rparr>)))))"

definition Router_wakeup :: "nat \<Rightarrow> garnet_network \<Rightarrow> garnet_network res" where
  "Router_wakeup rid net =
     bnd (get_router net (int rid)) (\<lambda>r.
     bnd (foldM (InputUnit_wakeup rid) [0..<length (r_input_unit r)] net) (\<lambda>net1.
     bnd (foldM (Router_read_credit rid) [0..<length (r_output_unit r)] net1) (\<lambda>net2.
     bnd (Router_spin rid net2) (Router_switch rid))))"

section \<open>Functional writes and statistics\<close>

definition Router_functionalWrite :: "(msg_ptr \<Rightarrow> bool) \<Rightarrow> router \<Rightarrow> nat" where
  "Router_functionalWrite fw r =
     CrossbarSwitch_functionalWrite fw (r_switch r)
     + sum_list (map (iu_functionalWrite fw) (r_input_unit r))
     + sum_list (map (ou_functionalWrite fw) (r_output_unit r))"

definition NI_functionalWrite :: "(msg_ptr \<Rightarrow> bool) \<Rightarrow> network_interface \<Rightarrow> nat" where
  "NI_functionalWrite fw n =
     sum_list (map (flitBuffer_functionalWrite fw) (ni_out_vcs n))
     + flitBuffer_functionalWrite fw (ni_outFlitQueue n)"

definition Garnet_functionalWrite :: "(msg_ptr \<Rightarrow> bool) \<Rightarrow> garnet_network \<Rightarrow> nat" where
  "Garnet_functionalWrite fw net =
     sum_list (map (Router_functionalWrite fw) (gn_routers net))
     + sum_list (map (NI_functionalWrite fw) (gn_nis net))
     + sum_list (map (NetworkLink_functionalWrite fw) (gn_networklinks net))"

definition Router_resetStats :: "router \<Rightarrow> router" where
  "Router_resetStats r =
     r\<lparr>r_input_unit := (if r_virtual_networks r = 0 then r_input_unit r else map iu_resetStats (r_input_unit r)),
       r_switch := CrossbarSwitch_resetStats (r_switch r),
       r_sw_alloc := SwitchAllocator_resetStats (r_sw_alloc r)\<rparr>"

end
