(* ===== verification/Drain_Correct.thy ===== *)
theory Drain_Correct
  imports Drain
begin

text \<open>
  Correctness of \<open>doSpin\<close>. It loses no packet, whatever the ring. On a well-formed ring, whose
  channels hold at most one packet each, it is a rotation: what was in the channel at position \<open>i\<close>
  is afterwards in the channel at position \<open>i + 1\<close> (modulo the length), and no other channel changes.
\<close>

section \<open>What a step of the drain may change\<close>

abbreviation gn_ins :: "garnet_network \<Rightarrow> input_unit list list" where
  "gn_ins net \<equiv> map r_input_unit (gn_routers net)"

definition router_rest :: "router \<Rightarrow> router \<Rightarrow> bool" where
  "router_rest r r' = (maps_le r r' \<and> r_id r' = r_id r \<and> r_switch r' = r_switch r \<and>
     r_halt r' = r_halt r \<and> r_vc_per_vnet r' = r_vc_per_vnet r \<and> r_num_vcs r' = r_num_vcs r \<and>
     r_virtual_networks r' = r_virtual_networks r \<and> r_latency r' = r_latency r \<and>
     ru_routing_table (r_routing_unit r') = ru_routing_table (r_routing_unit r) \<and>
     ru_weight_table (r_routing_unit r') = ru_weight_table (r_routing_unit r) \<and>
     map ou_out_buffer (r_output_unit r') = map ou_out_buffer (r_output_unit r) \<and>
     map ou_wires (r_output_unit r') = map ou_wires (r_output_unit r) \<and> map iu_wires (r_input_unit r') = map iu_wires (r_input_unit r) \<and>
     map iu_direction (r_input_unit r') = map iu_direction (r_input_unit r))"

definition spin_frame :: "garnet_network \<Rightarrow> garnet_network \<Rightarrow> bool" where
  "spin_frame net net' = (gn_config net' = gn_config net \<and> gn_cycle net' = gn_cycle net \<and> gn_lock net' = gn_lock net \<and>
     gn_nis net' = gn_nis net \<and> gn_networklinks net' = gn_networklinks net \<and> gn_creditlinks net' = gn_creditlinks net \<and>
     list_all2 router_rest (gn_routers net) (gn_routers net'))"

lemma router_rest_refl [simp]: "router_rest r r"
  by (simp add: router_rest_def)

lemma router_rest_maps: "router_rest r r' \<Longrightarrow> maps_le r r'"
  by (simp add: router_rest_def)

lemma router_rest_trans: "router_rest a b \<Longrightarrow> router_rest b c \<Longrightarrow> router_rest a c"
  by (auto simp: router_rest_def intro: maps_le_trans)

lemma spin_frame_refl [simp]: "spin_frame net net"
  by (simp add: spin_frame_def list_all2_refl)

lemma spin_frame_trans: "spin_frame a b \<Longrightarrow> spin_frame b c \<Longrightarrow> spin_frame a c"
  unfolding spin_frame_def by (auto intro: list_all2_trans [OF router_rest_trans])

lemma spin_frame_length: "spin_frame net net' \<Longrightarrow> length (gn_routers net') = length (gn_routers net)"
  by (auto simp: spin_frame_def dest: list_all2_lengthD)

lemma spin_frame_router:
  "spin_frame net net' \<Longrightarrow> i < length (gn_routers net) \<Longrightarrow> router_rest (gn_routers net ! i) (gn_routers net' ! i)"
  by (auto simp: spin_frame_def list_all2_conv_all_nth)

lemma spin_frame_put:
  "i < length (gn_routers net) \<Longrightarrow> router_rest (gn_routers net ! i) r \<Longrightarrow> spin_frame net (put_router net i r)"
  by (auto simp: spin_frame_def put_router_def list_all2_conv_all_nth nth_list_update)

lemma spin_frame_net [simp]:
  "spin_frame net (gn_map_stats f net)" "spin_frame net (set_ring_flit i x net)"
  by (simp_all add: gn_map_stats_def set_ring_flit_def spin_frame_def list_all2_refl)

lemma route_frame_spin_frame:
  assumes "route_frame net net'"
  shows "spin_frame net net'"
proof -
  have "router_rest (gn_routers net ! i) (gn_routers net' ! i)" if i: "i < length (gn_routers net)" for i
    using forget_maps_fields [OF route_frame_routers(2) [OF assms i]] route_frame_routers(3) [OF assms i]
    by (simp add: router_rest_def)
  then show ?thesis
    using route_frame_net [OF assms] route_frame_routers(1) [OF assms] by (simp add: spin_frame_def list_all2_conv_all_nth)
qed

lemma route_frame_ins:
  assumes "route_frame net net'"
  shows "gn_ins net' = gn_ins net"
proof (rule nth_equalityI)
  show "length (gn_ins net') = length (gn_ins net)" using route_frame_routers(1) [OF assms] by simp
  fix i assume "i < length (gn_ins net')"
  then have i: "i < length (gn_routers net)" using route_frame_routers(1) [OF assms] by simp
  then show "gn_ins net' ! i = gn_ins net ! i"
    using forget_maps_fields(7) [OF route_frame_routers(2) [OF assms i]] route_frame_routers(1) [OF assms] by simp
qed

lemma inport_index_frame:
  assumes "inport_index net router_id dirn = Inr (rid, p, net')"
  shows "route_frame net net'" and "rid = nat router_id" and "rid < length (gn_routers net)"
    and "ru_inports_dirn2idx (r_routing_unit (gn_routers net ! rid)) dirn = Some q \<Longrightarrow> p = q"
proof -
  let ?m = "map_index (ru_inports_dirn2idx (r_routing_unit (gn_routers net ! rid))) dirn"
  have e: "rid = nat router_id" "rid < length (gn_routers net)" "p = fst ?m"
    "net' = put_router net rid ((gn_routers net ! rid)\<lparr>r_routing_unit :=
       (r_routing_unit (gn_routers net ! rid))\<lparr>ru_inports_dirn2idx := snd ?m\<rparr>\<rparr>)"
    using assms by (auto simp: inport_index_def get_router_def at_eq_Inr Let_def case_prod_beta)
  show "rid = nat router_id" "rid < length (gn_routers net)" by fact+
  show "route_frame net net'" unfolding e(4) using e(2)
    by (intro route_frame_put_maps) (simp_all add: maps_le_def map_index_le)
  show "p = q" if "ru_inports_dirn2idx (r_routing_unit (gn_routers net ! rid)) dirn = Some q"
    using e(3) that by (simp add: map_index_def)
qed

lemma upstream_update_cases:
  assumes "upstream_update dirn i f net = Inr net'"
  obtains k net1 p ou' where "route_frame net net1" "k < length (gn_routers net)"
    "p < length (r_output_unit (gn_routers net1 ! k))" "f (r_output_unit (gn_routers net1 ! k) ! p) = Inr ou'"
    "net' = put_router net1 k ((gn_routers net1 ! k)\<lparr>r_output_unit := (r_output_unit (gn_routers net1 ! k))[p := ou']\<rparr>)"
proof -
  from assms obtain k dd p net1 ou' where k: "get_upstreamrouter net dirn i = Inr (Some k)"
    and o: "outport_of_dirn net k dd = Inr (p, net1)" "0 \<le> p" "nat p < length (r_output_unit (gn_routers net1 ! k))"
      "f (r_output_unit (gn_routers net1 ! k) ! nat p) = Inr ou'"
      "net' = put_router net1 k ((gn_routers net1 ! k)\<lparr>r_output_unit := (r_output_unit (gn_routers net1 ! k))[nat p := ou']\<rparr>)"
    by (auto simp: upstream_update_def at_eq_Inr Let_def split: option.splits)
  from k have "k < length (gn_routers net)"
    by (auto simp: get_upstreamrouter_def nat_less_iff split: if_splits)
  then show thesis using that [OF route_frame_outport_of_dirn [OF o(1)]] o(3-5) by blast
qed

lemma upstream_update_frame:
  assumes "upstream_update dirn i f net = Inr net'"
    and "\<And>u u'. f u = Inr u' \<Longrightarrow> ou_out_buffer u' = ou_out_buffer u \<and> ou_wires u' = ou_wires u"
  shows "spin_frame net net'" and "gn_ins net' = gn_ins net" and "gn_spinRing net' = gn_spinRing net"
    and "gn_stats net' = gn_stats net"
proof -
  from assms(1) obtain k net1 p ou' where rf: "route_frame net net1" and k: "k < length (gn_routers net)"
    and p: "p < length (r_output_unit (gn_routers net1 ! k))" "f (r_output_unit (gn_routers net1 ! k) ! p) = Inr ou'"
    and net': "net' = put_router net1 k ((gn_routers net1 ! k)\<lparr>r_output_unit := (r_output_unit (gn_routers net1 ! k))[p := ou']\<rparr>)"
    by (rule upstream_update_cases)
  have k1: "k < length (gn_routers net1)" using k route_frame_routers(1) [OF rf] by simp
  have "router_rest (gn_routers net1 ! k) ((gn_routers net1 ! k)\<lparr>r_output_unit := (r_output_unit (gn_routers net1 ! k))[p := ou']\<rparr>)"
    using assms(2) [OF p(2)] p(1) by (simp add: router_rest_def maps_le_def map_update list_update_same_conv)
  then have "spin_frame net1 net'" unfolding net' using k1 by (intro spin_frame_put)
  then show "spin_frame net net'" using route_frame_spin_frame [OF rf] spin_frame_trans by blast
  show "gn_ins net' = gn_ins net"
  proof -
    have "gn_ins net1 ! k = r_input_unit (gn_routers net1 ! k)" using k1 by simp
    then have "(gn_ins net1)[k := r_input_unit (gn_routers net1 ! k)] = gn_ins net1" using k1 by (metis list_update_id)
    then show ?thesis unfolding net' using route_frame_ins [OF rf] by (simp add: put_router_def map_update)
  qed
  show "gn_spinRing net' = gn_spinRing net" "gn_stats net' = gn_stats net"
    unfolding net' using route_frame_net [OF rf] by (simp_all add: put_router_def)
qed

lemma credit_ops_buffer:
  "bnd (ou_increment_credit vc u) (ou_set_vc_state st vc t) = Inr u' \<Longrightarrow> ou_out_buffer u' = ou_out_buffer u \<and> ou_wires u' = ou_wires u"
  "bnd (ou_decrement_credit vc u) (ou_set_vc_state st vc t) = Inr u' \<Longrightarrow> ou_out_buffer u' = ou_out_buffer u \<and> ou_wires u' = ou_wires u"
  by (auto simp: ou_increment_credit_def ou_decrement_credit_def ou_set_vc_state_def ou_modify_Inr)

section \<open>Channels\<close>

text \<open>The channel \<open>vc\<close> of the input port \<open>p\<close> of router \<open>i\<close>, and the input ports with it replaced.\<close>

definition chan :: "garnet_network \<Rightarrow> nat \<Rightarrow> nat \<times> nat \<Rightarrow> virtual_channel" where
  "chan net vc s = iu_vcs (gn_ins net ! fst s ! snd s) ! vc"

definition chan_ok :: "garnet_network \<Rightarrow> nat \<Rightarrow> nat \<times> nat \<Rightarrow> bool" where
  "chan_ok net vc s = (fst s < length (gn_ins net) \<and> snd s < length (gn_ins net ! fst s) \<and>
     vc < length (iu_vcs (gn_ins net ! fst s ! snd s)))"

definition ins_update :: "nat \<Rightarrow> nat \<times> nat \<Rightarrow> virtual_channel \<Rightarrow> input_unit list list \<Rightarrow> input_unit list list" where
  "ins_update vc s v uss = uss[fst s := (uss ! fst s)[snd s :=
     (uss ! fst s ! snd s)\<lparr>iu_vcs := (iu_vcs (uss ! fst s ! snd s))[vc := v]\<rparr>]]"

lemma chan_ins_update:
  assumes u: "gn_ins net' = ins_update vc s v (gn_ins net)" and ok: "chan_ok net vc s"
  shows "chan net' w t = (if t = s \<and> w = vc then v else chan net w t)"
    and "chan_ok net' w t = chan_ok net w t"
proof -
  obtain i p j q where st: "s = (i, p)" "t = (j, q)" by force
  let ?u = "gn_ins net ! i ! p" and ?ins = "gn_ins net"
  have len: "i < length ?ins" "p < length (?ins ! i)" "vc < length (iu_vcs ?u)" using ok st by (simp_all add: chan_ok_def del: length_map nth_map)
  have e: "gn_ins net' = ?ins[i := (?ins ! i)[p := ?u\<lparr>iu_vcs := (iu_vcs ?u)[vc := v]\<rparr>]]"
    using u st by (simp add: ins_update_def)
  have l: "length (gn_ins net') = length ?ins" "length (gn_ins net' ! j) = length (?ins ! j)"
      "length (iu_vcs (gn_ins net' ! j ! q)) = length (iu_vcs (?ins ! j ! q))"
    using len unfolding e by (cases "j = i"; cases "q = p"; simp del: length_map nth_map)+
  show "chan_ok net' w t = chan_ok net w t" unfolding chan_ok_def st using l by simp
  have "iu_vcs (gn_ins net' ! j ! q) ! w = (if j = i \<and> q = p \<and> w = vc then v else iu_vcs (?ins ! j ! q) ! w)"
    using len unfolding e by (cases "j = i"; cases "q = p"; cases "w = vc"; simp del: length_map nth_map)
  then show "chan net' w t = (if t = s \<and> w = vc then v else chan net w t)" by (simp add: chan_def st)
qed

lemma gn_put_input_ins:
  assumes "rid < length (gn_routers net)"
  shows "gn_ins (gn_put_input rid p u net) = (gn_ins net)[rid := (gn_ins net ! rid)[p := u]]"
  using assms by (simp add: gn_put_input_def put_router_def Let_def map_update)

lemma gn_put_input_frame:
  assumes "rid < length (gn_routers net)" and "p < length (r_input_unit (gn_routers net ! rid))"
    and "iu_direction u = iu_direction (r_input_unit (gn_routers net ! rid) ! p)" and "iu_wires u = iu_wires (r_input_unit (gn_routers net ! rid) ! p)"
  shows "spin_frame net (gn_put_input rid p u net)" and "gn_spinRing (gn_put_input rid p u net) = gn_spinRing net"
  using assms
  by (auto simp: gn_put_input_def Let_def router_rest_def maps_le_def map_update list_update_same_conv
      intro!: spin_frame_put) (simp add: put_router_def)

section \<open>One iteration of each loop\<close>

abbreviation ring_dir :: "garnet_network \<Rightarrow> nat \<Rightarrow> port_direction" where
  "ring_dir net i \<equiv> ss_inport_dir (gn_spinRing net ! i)"

abbreviation ring_rid :: "garnet_network \<Rightarrow> nat \<Rightarrow> nat" where
  "ring_rid net i \<equiv> nat (ss_router_id (gn_spinRing net ! i))"

text \<open>The router and input port of a position of the ring.\<close>

definition ring_slot :: "garnet_network \<Rightarrow> nat \<Rightarrow> nat \<times> nat" where
  "ring_slot net i = (ring_rid net i, nat (fst (map_index
     (ru_inports_dirn2idx (r_routing_unit (gn_routers net ! ring_rid net i))) (ring_dir net i))))"

lemma inport_index_slot:
  assumes "inport_index net (ss_router_id (gn_spinRing net ! i)) (ring_dir net i) = Inr (rid, p, net')"
  shows "ring_slot net i = (rid, nat p)"
  using assms by (auto simp: inport_index_def get_router_def ring_slot_def at_eq_Inr Let_def case_prod_beta)

lemma spin_take_flit_effect:
  assumes t: "spin_take_flit vc idx rid p net = Inr net'"
    and rid: "rid < length (gn_routers net)" and p: "p < length (r_input_unit (gn_routers net ! rid))"
  obtains f f1 v1 where "vc_getTopFlit (chan net vc (rid, p)) = Inr (f, v1)" "flit_tag_of f1 = flit_tag_of f"
    "fl_hops_needed_after_spin f1 = fl_hops_needed_after_spin f"
    "chan_ok net vc (rid, p)" "spin_frame net net'"
    "gn_ins net' = ins_update vc (rid, p) (vc_set_idle (gn_cycle net) v1) (gn_ins net)"
    "gn_spinRing net' = (gn_spinRing net)[idx + 1 := (gn_spinRing net ! (idx + 1))\<lparr>ss_flit := Some f1\<rparr>]"
proof -
  let ?r = "gn_routers net ! rid"
  let ?u = "r_input_unit ?r ! p"
  from t obtain f u1 g u2 f1 where
    g: "iu_getTopFlit ?u (int vc) = Inr (f, u1)" and i: "iu_set_vc_idle (int vc) (gn_cycle net) u1 = Inr u2"
    and f1: "f1 = f\<lparr>fl_hops_needed_before_spin := compute_hops_remaining (gn_config net) (int (r_id ?r)) (ri_dest_router (fl_route f))\<rparr>"
    and up: "upstream_update (ring_dir net idx) (int (r_id ?r))
        (\<lambda>ou. bnd (ou_increment_credit (int vc) ou) (ou_set_vc_state IDLE (int vc) (gn_cycle net)))
        (gn_put_input rid p u2 (set_ring_flit (idx + 1) (Some f1) (gn_map_stats g net))) = Inr net'"
    unfolding spin_take_flit_def Let_def by (elim bnd_InrE) (auto elim!: bnd_InrE)
  let ?net0 = "set_ring_flit (idx + 1) (Some f1) (gn_map_stats g net)"
  from g obtain v1 where v1: "vc < length (iu_vcs ?u)" "vc_getTopFlit (iu_vcs ?u ! vc) = Inr (f, v1)"
    "u1 = ?u\<lparr>iu_vcs := (iu_vcs ?u)[vc := v1]\<rparr>" by (auto simp: iu_getTopFlit_Inr)
  have u2: "u2 = ?u\<lparr>iu_vcs := (iu_vcs ?u)[vc := vc_set_idle (gn_cycle net) v1]\<rparr>"
    using i v1 by (auto simp: iu_set_vc_idle_def iu_modify_Inr)
  have ins0: "gn_routers ?net0 = gn_routers net" by (simp add: set_ring_flit_def gn_map_stats_def)
  note uf = upstream_update_frame [OF up credit_ops_buffer(1)]
  have pf: "spin_frame ?net0 (gn_put_input rid p u2 ?net0)" "gn_spinRing (gn_put_input rid p u2 ?net0) = gn_spinRing ?net0"
    using rid p ins0 u2 by (intro gn_put_input_frame; simp)+
  have "spin_frame net net'"
    using spin_frame_trans [OF spin_frame_net(1) [of net g] spin_frame_trans [OF spin_frame_net(2) spin_frame_trans [OF pf(1) uf(1)]]] .
  moreover have "gn_ins net' = ins_update vc (rid, p) (vc_set_idle (gn_cycle net) v1) (gn_ins net)"
    using uf(2) gn_put_input_ins [of rid ?net0 p u2] rid ins0 u2 by (simp add: ins_update_def)
  moreover have "gn_spinRing net' = (gn_spinRing net)[idx + 1 := (gn_spinRing net ! (idx + 1))\<lparr>ss_flit := Some f1\<rparr>]"
    using uf(3) pf(2) by (simp add: set_ring_flit_def gn_map_stats_def)
  moreover have "chan net vc (rid, p) = iu_vcs ?u ! vc" "chan_ok net vc (rid, p)"
    using rid p v1 by (simp_all add: chan_def chan_ok_def)
  ultimately show thesis using that [of f v1 f1] v1(2) f1 by simp
qed

lemma route_frame_chan:
  assumes "route_frame net net'"
  shows "chan net' vc s = chan net vc s" and "chan_ok net' vc s = chan_ok net vc s" and "gn_cycle net' = gn_cycle net"
    and "gn_spinRing net' = gn_spinRing net"
proof -
  have e: "gn_ins net' = gn_ins net" by (rule route_frame_ins [OF assms])
  show "chan net' vc s = chan net vc s" "chan_ok net' vc s = chan_ok net vc s"
    unfolding chan_def chan_ok_def e by (rule refl)+
  show "gn_cycle net' = gn_cycle net" "gn_spinRing net' = gn_spinRing net" using route_frame_net [OF assms] by simp_all
qed

lemma spin_take_effect:
  assumes "spin_take vc idx (net, k) = Inr (net', k')"
  obtains
    (bubble) "vc_flits (chan net vc (ring_slot net idx)) = {#}" "chan_ok net vc (ring_slot net idx)" "idx < length (gn_spinRing net)"
      "spin_frame net net'" "gn_ins net' = gn_ins net" "k' = k"
      "gn_spinRing net' = (gn_spinRing net)[idx + 1 := (gn_spinRing net ! (idx + 1))\<lparr>ss_flit := None\<rparr>]"
  | (packet) f f1 v1 where "vc_getTopFlit (chan net vc (ring_slot net idx)) = Inr (f, v1)" "flit_tag_of f1 = flit_tag_of f"
      "fl_hops_needed_after_spin f1 = fl_hops_needed_after_spin f" "idx < length (gn_spinRing net)"
      "chan_ok net vc (ring_slot net idx)" "spin_frame net net'" "k' = k + 1"
      "gn_ins net' = ins_update vc (ring_slot net idx) (vc_set_idle (gn_cycle net) v1) (gn_ins net)"
      "gn_spinRing net' = (gn_spinRing net)[idx + 1 := (gn_spinRing net ! (idx + 1))\<lparr>ss_flit := Some f1\<rparr>]"
proof -
  from assms obtain rid p net1 u e where idx: "idx < length (gn_spinRing net)"
    and ii: "inport_index net (ss_router_id (gn_spinRing net ! idx)) (ring_dir net idx) = Inr (rid, p, net1)"
    and u: "gn_input net1 rid p = Inr u" and e: "iu_vc_isEmpty u (int vc) = Inr e"
    and rest: "if e then net' = gn_map_stats (\<lambda>s. s\<lparr>st_bubble := st_bubble s + 1\<rparr>) (set_ring_flit (idx + 1) None net1) \<and> k' = k
       else spin_take_flit vc idx rid (nat p) net1 = Inr net' \<and> k' = k + 1"
    by (auto simp: spin_take_def at_eq_Inr split: if_splits)
  note f1 = inport_index_frame(1) [OF ii] and sl = inport_index_slot [OF ii]
  note c1 = route_frame_chan [OF f1]
  from u have r: "rid < length (gn_routers net1)" "nat p < length (r_input_unit (gn_routers net1 ! rid))"
    "u = r_input_unit (gn_routers net1 ! rid) ! nat p"
    by (auto simp: gn_input_def get_router_def at_eq_Inr)
  have ch: "chan net1 vc (rid, nat p) = iu_vcs u ! vc" "vc < length (iu_vcs u)" "e = vc_isEmpty (iu_vcs u ! vc)"
    using r e by (auto simp: chan_def iu_vc_isEmpty_def iu_read_def at_eq_Inr)
  show thesis
  proof (cases e)
    case True
    have "gn_ins net' = gn_ins net" using rest True route_frame_ins [OF f1] by (simp add: gn_map_stats_def set_ring_flit_def)
    moreover have "spin_frame net net'" using rest True route_frame_spin_frame [OF f1]
      by (auto intro: spin_frame_trans [OF _ spin_frame_trans [OF spin_frame_net(2) spin_frame_net(1)]])
    moreover have "chan_ok net1 vc (rid, nat p)" using r ch(2) by (simp add: chan_ok_def)
    moreover have "vc_flits (chan net vc (ring_slot net idx)) = {#}" using True ch c1 sl by (simp add: vc_isEmpty_iff)
    moreover have "gn_spinRing net' = (gn_spinRing net)[idx + 1 := (gn_spinRing net ! (idx + 1))\<lparr>ss_flit := None\<rparr>]"
      using rest True c1(4) by (simp add: gn_map_stats_def set_ring_flit_def)
    ultimately show thesis using rest True c1 sl idx by (intro bubble) simp_all
  next
    case False
    then have "spin_take_flit vc idx rid (nat p) net1 = Inr net'" "k' = k + 1" using rest by auto
    from spin_take_flit_effect [OF this(1) r(1,2)] obtain f g v1 where
      x: "vc_getTopFlit (chan net1 vc (rid, nat p)) = Inr (f, v1)" "flit_tag_of g = flit_tag_of f"
      "fl_hops_needed_after_spin g = fl_hops_needed_after_spin f"
      "chan_ok net1 vc (rid, nat p)" "spin_frame net1 net'"
      "gn_ins net' = ins_update vc (rid, nat p) (vc_set_idle (gn_cycle net1) v1) (gn_ins net1)"
      "gn_spinRing net' = (gn_spinRing net1)[idx + 1 := (gn_spinRing net1 ! (idx + 1))\<lparr>ss_flit := Some g\<rparr>]" .
    show thesis using packet [of f v1 g] x c1 sl idx \<open>k' = k + 1\<close> route_frame_ins [OF f1]
        spin_frame_trans [OF route_frame_spin_frame [OF f1] x(5)] by simp
  qed
qed

lemma spin_flit_simps [simp]:
  "flit_tag_of (spin_flit op d t) = flit_tag_of t"
  "fl_hops_needed_before_spin (spin_flit op d t) = -1" "fl_hops_needed_after_spin (spin_flit op d t) = -1"
  by (simp_all add: spin_flit_def)

lemma spin_insert_flit_effect:
  assumes t: "spin_insert_flit vc dirn rid p t net = Inr net'"
    and rid: "rid < length (gn_routers net)" and p: "p < length (r_input_unit (gn_routers net ! rid))"
  obtains f where "flit_tag_of f = flit_tag_of t" "fl_hops_needed_before_spin f = -1" "fl_hops_needed_after_spin f = -1"
    "chan_ok net vc (rid, p)" "fst (vc_state (chan net vc (rid, p))) = IDLE" "spin_frame net net'"
    "gn_ins net' = ins_update vc (rid, p) (vc_set_active (gn_cycle net) (vc_insertFlit f (chan net vc (rid, p)))) (gn_ins net)"
    "gn_spinRing net' = gn_spinRing net"
proof -
  from t obtain op net1 where oc: "outportCompute net rid (fl_route t) = Inr (op, net1)"
    by (auto simp: spin_insert_flit_def)
  note rf = route_frame_outportCompute [OF oc]
  note c1 = route_frame_chan [OF rf]
  let ?r = "gn_routers net1 ! rid"
  let ?u = "r_input_unit ?r ! p"
  have r1: "rid < length (gn_routers net1)" "p < length (r_input_unit ?r)"
    using rid p route_frame_routers(1) [OF rf] forget_maps_fields(7) [OF route_frame_routers(2) [OF rf rid]] by simp_all
  define f where "f = spin_flit op (ou_direction (r_output_unit ?r ! nat op)) t"
  have f: "flit_tag_of f = flit_tag_of t" "fl_hops_needed_before_spin f = -1" "fl_hops_needed_after_spin f = -1"
    by (simp_all add: f_def)
  from t oc obtain m where vc: "vc < length (iu_vcs ?u)" and st: "fst (vc_state (iu_vcs ?u ! vc)) = IDLE"
    and up: "upstream_update dirn (int (r_id ?r))
        (\<lambda>ou. bnd (ou_decrement_credit (int vc) ou) (ou_set_vc_state ACTIVE (int vc) (gn_cycle net1)))
        (gn_put_input rid p (?u\<lparr>iu_vcs := (iu_vcs ?u)[vc := vc_set_active (gn_cycle net1) (vc_insertFlit f (iu_vcs ?u ! vc))]\<rparr>)
          (gn_map_stats m net1)) = Inr net'"
    by (auto simp: spin_insert_flit_def Let_def at_eq_Inr f_def)
  let ?u' = "?u\<lparr>iu_vcs := (iu_vcs ?u)[vc := vc_set_active (gn_cycle net1) (vc_insertFlit f (iu_vcs ?u ! vc))]\<rparr>"
  let ?net0 = "gn_map_stats m net1"
  have ins0: "gn_routers ?net0 = gn_routers net1" "gn_spinRing ?net0 = gn_spinRing net1" by (simp_all add: gn_map_stats_def)
  note uf = upstream_update_frame [OF up credit_ops_buffer(2)]
  have pf: "spin_frame ?net0 (gn_put_input rid p ?u' ?net0)" "gn_spinRing (gn_put_input rid p ?u' ?net0) = gn_spinRing ?net0"
    using r1 ins0 by (intro gn_put_input_frame; simp)+
  have "spin_frame net net'"
    using spin_frame_trans [OF route_frame_spin_frame [OF rf] spin_frame_trans [OF spin_frame_net(1) [of net1 m] spin_frame_trans [OF pf(1) uf(1)]]] .
  moreover have ch: "chan net1 vc (rid, p) = iu_vcs ?u ! vc" "chan_ok net1 vc (rid, p)"
    using r1 vc by (simp_all add: chan_def chan_ok_def)
  moreover have "gn_ins net' = ins_update vc (rid, p) (vc_set_active (gn_cycle net1) (vc_insertFlit f (iu_vcs ?u ! vc))) (gn_ins net1)"
    using uf(2) gn_put_input_ins [of rid ?net0 p ?u'] r1 ins0 by (simp add: ins_update_def)
  ultimately show thesis
    using that [of f] f c1 st route_frame_ins [OF rf] uf(3) pf(2) ins0 by simp
qed

lemma spin_insert_effect:
  assumes "spin_insert vc idx (net, k) = Inr (net', k')"
  obtains
    (empty) "ss_flit (gn_spinRing net ! idx) = None" "idx < length (gn_spinRing net)" "net' = net" "k' = k"
  | (packet) t f where "ss_flit (gn_spinRing net ! idx) = Some t" "idx < length (gn_spinRing net)" "k' = k - 1"
      "flit_tag_of f = flit_tag_of t" "fl_hops_needed_before_spin f = -1" "fl_hops_needed_after_spin f = -1"
      "chan_ok net vc (ring_slot net idx)" "fst (vc_state (chan net vc (ring_slot net idx))) = IDLE" "spin_frame net net'"
      "gn_ins net' = ins_update vc (ring_slot net idx)
         (vc_set_active (gn_cycle net) (vc_insertFlit f (chan net vc (ring_slot net idx)))) (gn_ins net)"
      "gn_spinRing net' = gn_spinRing net"
proof (cases "ss_flit (gn_spinRing net ! idx)")
  case None
  then have "idx < length (gn_spinRing net) \<and> net' = net \<and> k' = k"
    using assms by (auto simp: spin_insert_def at_eq_Inr)
  then show thesis using None by (intro empty) simp_all
next
  case (Some t)
  from assms Some obtain rid p net1 where idx: "idx < length (gn_spinRing net)"
    and ii: "inport_index net (ss_router_id (gn_spinRing net ! idx)) (ring_dir net idx) = Inr (rid, p, net1)"
    and p: "nat p < length (r_input_unit (gn_routers net1 ! rid))"
    and si: "spin_insert_flit vc (ring_dir net idx) rid (nat p) t net1 = Inr net'" "k' = k - 1"
    by (auto simp: spin_insert_def at_eq_Inr)
  note f1 = inport_index_frame(1) [OF ii] and sl = inport_index_slot [OF ii]
  note c1 = route_frame_chan [OF f1]
  have rid: "rid < length (gn_routers net1)" using inport_index_frame(3) [OF ii] route_frame_routers(1) [OF f1] by simp
  from spin_insert_flit_effect [OF si(1) rid p] obtain f where
    x: "flit_tag_of f = flit_tag_of t" "fl_hops_needed_before_spin f = -1" "fl_hops_needed_after_spin f = -1"
    "chan_ok net1 vc (rid, nat p)" "fst (vc_state (chan net1 vc (rid, nat p))) = IDLE" "spin_frame net1 net'"
    "gn_ins net' = ins_update vc (rid, nat p) (vc_set_active (gn_cycle net1) (vc_insertFlit f (chan net1 vc (rid, nat p)))) (gn_ins net1)"
    "gn_spinRing net' = gn_spinRing net1" .
  show thesis using packet [of t f] Some idx si(2) x c1 sl route_frame_ins [OF f1]
      spin_frame_trans [OF route_frame_spin_frame [OF f1] x(6)] by simp
qed

section \<open>No packet is lost\<close>

definition ins_tags :: "input_unit list list \<Rightarrow> flit_tag multiset" where
  "ins_tags uss = contents (contents input_tags) uss"

definition node_tags :: "spinStruct \<Rightarrow> flit_tag multiset" where
  "node_tags node = (case ss_flit node of None \<Rightarrow> {#} | Some f \<Rightarrow> {#flit_tag_of f#})"

definition rest_tags :: "router \<Rightarrow> flit_tag multiset" where
  "rest_tags r = contents buffer_tags (cs_switch_buffer (r_switch r)) + contents buffer_tags (map ou_out_buffer (r_output_unit r))"

lemma contents_map: "contents f (map g xs) = contents (\<lambda>x. f (g x)) xs"
  by (simp add: contents_def comp_def)

lemma network_tags_split:
  "network_tags net = ins_tags (gn_ins net) + contents rest_tags (gn_routers net) + contents ni_tags (gn_nis net)
     + contents (\<lambda>l. buffer_tags (nl_linkBuffer l)) (gn_networklinks net)"
proof -
  have r: "router_tags r = contents input_tags (r_input_unit r) + rest_tags r" for r
    by (simp add: router_tags_def rest_tags_def contents_map add.assoc)
  have "contents router_tags rs = contents (contents input_tags) (map r_input_unit rs) + contents rest_tags rs" for rs
    by (induction rs) (simp_all add: r ac_simps)
  then have "contents router_tags (gn_routers net) = ins_tags (gn_ins net) + contents rest_tags (gn_routers net)"
    by (simp add: ins_tags_def)
  then show ?thesis by (simp add: network_tags_def)
qed

lemma spin_frame_rest:
  assumes "spin_frame net net'"
  shows "contents rest_tags (gn_routers net') = contents rest_tags (gn_routers net)"
proof -
  have "rest_tags (gn_routers net' ! i) = rest_tags (gn_routers net ! i)" if "i < length (gn_routers net)" for i
    using spin_frame_router [OF assms that] by (simp add: rest_tags_def router_rest_def)
  then have "map rest_tags (gn_routers net') = map rest_tags (gn_routers net)"
    using spin_frame_length [OF assms] by (intro nth_equalityI) auto
  then show ?thesis by (simp add: contents_def)
qed

lemma spin_frame_tags:
  assumes "spin_frame net net'"
  shows "network_tags net' + ins_tags (gn_ins net) = network_tags net + ins_tags (gn_ins net')"
  using assms spin_frame_rest [OF assms] unfolding network_tags_split spin_frame_def by (simp add: ac_simps)

lemma ins_update_tags:
  assumes "chan_ok net vc s"
  shows "ins_tags (ins_update vc s v (gn_ins net)) + vc_tags (chan net vc s) = ins_tags (gn_ins net) + vc_tags v"
proof -
  obtain i p where s: "s = (i, p)" by force
  let ?uss = "gn_ins net"
  have l: "i < length ?uss" "p < length (?uss ! i)" "vc < length (iu_vcs (?uss ! i ! p))"
    using assms s by (simp_all add: chan_ok_def del: length_map nth_map)
  let ?u = "?uss ! i ! p"
  have "input_tags (?u\<lparr>iu_vcs := (iu_vcs ?u)[vc := v]\<rparr>) + vc_tags (iu_vcs ?u ! vc) = input_tags ?u + vc_tags v"
    using contents_update [OF l(3), of vc_tags v] by (simp add: input_tags_def del: length_map nth_map)
  from nested_exchange [OF this contents_update [OF l(2)]]
  have "contents input_tags ((?uss ! i)[p := ?u\<lparr>iu_vcs := (iu_vcs ?u)[vc := v]\<rparr>]) + vc_tags (iu_vcs ?u ! vc)
      = contents input_tags (?uss ! i) + vc_tags v" .
  from nested_exchange [OF this contents_update [OF l(1)]] show ?thesis
    unfolding ins_tags_def ins_update_def chan_def s by (simp del: length_map nth_map)
qed

lemma spin_frame_update_tags:
  assumes "spin_frame net net'" and "chan_ok net vc s" and "gn_ins net' = ins_update vc s v (gn_ins net)"
  shows "network_tags net' + vc_tags (chan net vc s) = network_tags net + vc_tags v"
proof -
  have "network_tags net' + ins_tags (gn_ins net) = network_tags net + ins_tags (ins_update vc s v (gn_ins net))"
    using spin_frame_tags [OF assms(1)] assms(3) by simp
  from nested_exchange [OF ins_update_tags [OF assms(2), of v] this] show ?thesis .
qed

lemma spin_take_tags:
  assumes "spin_take vc idx (net, k) = Inr (net', k')" and "idx + 1 < length (gn_spinRing net)"
  shows "network_tags net' + node_tags (gn_spinRing net' ! (idx + 1)) = network_tags net"
  using assms(1)
proof (cases rule: spin_take_effect)
  case bubble
  then have "node_tags (gn_spinRing net' ! (idx + 1)) = {#}" using assms(2) by (simp add: node_tags_def)
  moreover have "network_tags net' = network_tags net"
    using spin_frame_tags [OF bubble(4)] unfolding bubble(5) by (simp only: add_right_cancel)
  ultimately show ?thesis by simp
next
  case (packet f f1 v1)
  have "node_tags (gn_spinRing net' ! (idx + 1)) = {#flit_tag_of f#}"
    using packet(2,9) assms(2) by (simp add: node_tags_def)
  moreover have "vc_tags (chan net vc (ring_slot net idx)) = add_mset (flit_tag_of f) (vc_tags v1)"
    using vc_getTopFlit_tags [OF packet(1)] by simp
  ultimately have "(network_tags net' + node_tags (gn_spinRing net' ! (idx + 1))) + vc_tags v1 = network_tags net + vc_tags v1"
    using spin_frame_update_tags [OF packet(6,5,8)] by simp
  then show ?thesis by (simp only: add_right_cancel)
qed

lemma spin_insert_tags:
  assumes "spin_insert vc idx (net, k) = Inr (net', k')"
  shows "network_tags net' = network_tags net + node_tags (gn_spinRing net ! idx)" and "gn_spinRing net' = gn_spinRing net"
    and "spin_frame net net'"
proof -
  have "network_tags net' = network_tags net + node_tags (gn_spinRing net ! idx) \<and> gn_spinRing net' = gn_spinRing net \<and> spin_frame net net'"
    using assms
  proof (cases rule: spin_insert_effect)
    case empty
    then show ?thesis by (simp add: node_tags_def)
  next
    case (packet t f)
    have "network_tags net' + vc_tags (chan net vc (ring_slot net idx)) =
        (network_tags net + {#flit_tag_of t#}) + vc_tags (chan net vc (ring_slot net idx))"
      using spin_frame_update_tags [OF packet(9,7,10)] packet(4) by simp
    then show ?thesis using packet by (simp add: node_tags_def)
  qed
  then show "network_tags net' = network_tags net + node_tags (gn_spinRing net ! idx)"
    "gn_spinRing net' = gn_spinRing net" "spin_frame net net'" by simp_all
qed

text \<open>The routers and ports of the ring stay as they are; only the flits in it change.\<close>

abbreviation ring_shape :: "garnet_network \<Rightarrow> (int \<times> port_direction) list" where
  "ring_shape net \<equiv> map (\<lambda>node. (ss_router_id node, ss_inport_dir node)) (gn_spinRing net)"

lemma spin_take_ring:
  assumes "spin_take vc idx (net, k) = Inr (net', k')" and "idx + 1 < length (gn_spinRing net)"
  shows "ring_shape net' = ring_shape net" and "spin_frame net net'"
    and "i \<noteq> idx + 1 \<Longrightarrow> gn_spinRing net' ! i = gn_spinRing net ! i"
  using assms(1)
  by (cases rule: spin_take_effect; use assms(2) in \<open>simp add: map_update list_update_same_conv\<close>)+

lemma spin_take_loop:
  assumes "foldM (spin_take vc) [0..<b] (net, k) = Inr (net', k')" and "b < length (gn_spinRing net)"
  shows "spin_frame net net' \<and> ring_shape net' = ring_shape net \<and>
    network_tags net' + contents node_tags (map (\<lambda>i. gn_spinRing net' ! (i + 1)) [0..<b]) = network_tags net"
  using assms
proof (induction b arbitrary: net' k')
  case (Suc b)
  then obtain net1 k1 where 1: "foldM (spin_take vc) [0..<b] (net, k) = Inr (net1, k1)" "spin_take vc b (net1, k1) = Inr (net', k')"
    by (auto simp: foldM_append)
  note IH = Suc.IH [OF 1(1) Suc_lessD [OF Suc.prems(2)]]
  have len: "b + 1 < length (gn_spinRing net1)" using IH Suc.prems(2) by (metis Suc_eq_plus1 length_map)
  have same: "map (\<lambda>i. gn_spinRing net' ! (i + 1)) [0..<b] = map (\<lambda>i. gn_spinRing net1 ! (i + 1)) [0..<b]"
    using spin_take_ring(3) [OF 1(2) len] by (intro map_cong) auto
  have "network_tags net' + contents node_tags (map (\<lambda>i. gn_spinRing net' ! (i + 1)) [0..<Suc b]) =
      (network_tags net' + node_tags (gn_spinRing net' ! (b + 1))) + contents node_tags (map (\<lambda>i. gn_spinRing net1 ! (i + 1)) [0..<b])"
    unfolding upt_Suc_append [OF le0] map_append contents_append same by (simp add: ac_simps)
  also have "\<dots> = network_tags net" using spin_take_tags [OF 1(2) len] IH by simp
  finally show ?case using IH spin_take_ring(1,2) [OF 1(2) len] spin_frame_trans by auto
qed simp

lemma spin_insert_loop:
  assumes "foldM (spin_insert vc) [1..<b] (net, k) = Inr (net', k')"
  shows "spin_frame net net' \<and> gn_spinRing net' = gn_spinRing net \<and>
    network_tags net' = network_tags net + contents node_tags (map (\<lambda>i. gn_spinRing net ! (i + 1)) [0..<b - 1])"
  using assms
proof (induction b arbitrary: net' k')
  case (Suc b)
  show ?case
  proof (cases b)
    case 0
    then show ?thesis using Suc.prems by simp
  next
    case (Suc c)
    with Suc.prems obtain net1 k1 where 1: "foldM (spin_insert vc) [1..<b] (net, k) = Inr (net1, k1)"
      "spin_insert vc b (net1, k1) = Inr (net', k')" by (auto simp: foldM_append)
    note IH = Suc.IH [OF 1(1)]
    have "network_tags net' = network_tags net + contents node_tags (map (\<lambda>i. gn_spinRing net ! (i + 1)) [0..<c])
        + node_tags (gn_spinRing net ! (c + 1))"
      using IH spin_insert_tags(1) [OF 1(2)] Suc by simp
    then show ?thesis using IH spin_insert_tags(2,3) [OF 1(2)] spin_frame_trans Suc by (auto simp: ac_simps)
  qed
qed simp

lemma doSpin_cases:
  assumes "doSpin vc net = Inr net'"
  obtains net2 k where "0 < length (gn_spinRing net)" "count_spun vc (gn_routers net) = Inr k"
    "foldM (spin_take vc) [0..<length (gn_spinRing net) - 1]
       (gn_map_stats (\<lambda>s. s\<lparr>st_total_spins := st_total_spins s + 1\<rparr>) net, 0) = Inr (net2, k)"
    "foldM (spin_insert vc) [1..<length (gn_spinRing net)] (net2, int k) = Inr (net', 0)"
  using assms by (auto simp: doSpin_def Let_def gn_map_stats_def split: if_splits)

lemma gn_map_stats_fields [simp]:
  "gn_spinRing (gn_map_stats f net) = gn_spinRing net" "gn_routers (gn_map_stats f net) = gn_routers net"
  "gn_networklinks (gn_map_stats f net) = gn_networklinks net" "gn_nis (gn_map_stats f net) = gn_nis net"
  "gn_cycle (gn_map_stats f net) = gn_cycle net" "gn_lock (gn_map_stats f net) = gn_lock net" "gn_config (gn_map_stats f net) = gn_config net"
  by (simp_all add: gn_map_stats_def)

lemma doSpin_tags:
  assumes "doSpin vc net = Inr net'"
  shows "network_tags net' = network_tags net" and "spin_frame net net'" and "ring_shape net' = ring_shape net"
proof -
  let ?net1 = "gn_map_stats (\<lambda>s. s\<lparr>st_total_spins := st_total_spins s + 1\<rparr>) net"
  from assms obtain net2 k where n: "0 < length (gn_spinRing net)"
    and t: "foldM (spin_take vc) [0..<length (gn_spinRing net) - 1] (?net1, 0) = Inr (net2, k)"
    and i: "foldM (spin_insert vc) [1..<length (gn_spinRing net)] (net2, int k) = Inr (net', 0)"
    by (rule doSpin_cases)
  have len: "length (gn_spinRing net) - 1 < length (gn_spinRing ?net1)" using n by simp
  note T = spin_take_loop [OF t len] and I = spin_insert_loop [OF i]
  have "network_tags ?net1 = network_tags net" by (simp add: network_tags_def)
  then show "network_tags net' = network_tags net" using T I by simp
  show "spin_frame net net'" using T I spin_frame_trans [OF spin_frame_net(1)] spin_frame_trans by blast
  show "ring_shape net' = ring_shape net" using T I by simp
qed

end
