(* ===== verification/Drain_Rotation.thy ===== *)
theory Drain_Rotation
  imports Drain_Correct
begin

text \<open>
  On a well-formed ring, \<open>doSpin\<close> is a rotation of the contents of the channels along the ring. The
  refinement is stated on \<open>ring_contents\<close>, the list of what the channels of the positions hold, and
  the abstract operation is \<open>rotate1\<close> taken backwards: the last element becomes the first.
\<close>

section \<open>Well-formed rings\<close>

abbreviation ring_len :: "garnet_network \<Rightarrow> nat" where
  "ring_len net \<equiv> length (gn_spinRing net) - 1"

text \<open>
  The ring is closed (its last node repeats the first), every node names an input port that its
  router has, and no port occurs twice.
\<close>

definition ring_wf :: "garnet_network \<Rightarrow> bool" where
  "ring_wf net = (0 < ring_len net \<and>
     ring_shape net ! ring_len net = ring_shape net ! 0 \<and>
     (\<forall>i < length (gn_spinRing net). ring_rid net i < length (gn_routers net) \<and>
        ru_inports_dirn2idx (r_routing_unit (gn_routers net ! ring_rid net i)) (ring_dir net i) \<noteq> None) \<and>
     distinct (map (ring_slot net) [0..<ring_len net]))"

lemma ring_shape_nth:
  assumes "ring_shape net' = ring_shape net" and "i < length (gn_spinRing net)"
  shows "ring_rid net' i = ring_rid net i" and "ring_dir net' i = ring_dir net i"
    and "length (gn_spinRing net') = length (gn_spinRing net)"
proof -
  show l: "length (gn_spinRing net') = length (gn_spinRing net)" using assms(1) by (rule map_eq_imp_length_eq)
  have "ring_shape net' ! i = ring_shape net ! i" using assms(1) by simp
  then show "ring_rid net' i = ring_rid net i" "ring_dir net' i = ring_dir net i" using assms(2) l by simp_all
qed

lemma ring_slot_stable:
  assumes "ring_wf net" "spin_frame net net'" "ring_shape net' = ring_shape net" "i < length (gn_spinRing net)"
  shows "ring_slot net' i = ring_slot net i"
    and "ru_inports_dirn2idx (r_routing_unit (gn_routers net' ! ring_rid net' i)) (ring_dir net' i) \<noteq> None"
proof -
  note sh = ring_shape_nth [OF assms(3,4)]
  obtain p where p: "ru_inports_dirn2idx (r_routing_unit (gn_routers net ! ring_rid net i)) (ring_dir net i) = Some p"
    and rid: "ring_rid net i < length (gn_routers net)"
    using assms(1,4) by (force simp: ring_wf_def)
  have p': "ru_inports_dirn2idx (r_routing_unit (gn_routers net' ! ring_rid net i)) (ring_dir net i) = Some p"
    using router_rest_maps [OF spin_frame_router [OF assms(2) rid]] p by (force simp: maps_le_def map_le_def)
  show "ring_slot net' i = ring_slot net i" using p p' sh by (simp add: ring_slot_def map_index_def)
  show "ru_inports_dirn2idx (r_routing_unit (gn_routers net' ! ring_rid net' i)) (ring_dir net' i) \<noteq> None"
    using p' sh by simp
qed

lemma ring_wf_stable:
  assumes "ring_wf net" "spin_frame net net'" "ring_shape net' = ring_shape net"
  shows "ring_wf net'"
proof -
  have l: "length (gn_spinRing net') = length (gn_spinRing net)" using assms(3) by (rule map_eq_imp_length_eq)
  have "map (ring_slot net') [0..<ring_len net] = map (ring_slot net) [0..<ring_len net]"
    using ring_slot_stable(1) [OF assms] by (intro map_cong) auto
  then have "distinct (map (ring_slot net') [0..<ring_len net])" using assms(1) by (simp only: ring_wf_def)
  moreover have "\<forall>i < length (gn_spinRing net). ring_rid net' i < length (gn_routers net')"
    using assms(1) ring_shape_nth(1) [OF assms(3)] spin_frame_length [OF assms(2)] by (simp add: ring_wf_def)
  ultimately show ?thesis
    using assms(1,3) l ring_slot_stable(2) [OF assms] unfolding ring_wf_def by simp
qed

lemma ring_slot_closed:
  assumes "ring_wf net"
  shows "ring_slot net (ring_len net) = ring_slot net 0"
proof -
  have "ring_shape net ! ring_len net = ring_shape net ! 0" using assms by (simp add: ring_wf_def)
  moreover have "ring_len net < length (gn_spinRing net)" "0 < length (gn_spinRing net)"
    using assms by (auto simp: ring_wf_def)
  ultimately have "ss_router_id (gn_spinRing net ! ring_len net) = ss_router_id (gn_spinRing net ! 0)"
    "ring_dir net (ring_len net) = ring_dir net 0" by simp_all
  then show ?thesis by (simp add: ring_slot_def)
qed

lemma ring_slot_inj:
  assumes "ring_wf net" "i < ring_len net" "j < ring_len net" "ring_slot net i = ring_slot net j"
  shows "i = j"
proof -
  have "distinct (map (ring_slot net) [0..<ring_len net])" using assms(1) by (simp add: ring_wf_def)
  then show ?thesis using assms(2-4) by (auto simp: distinct_conv_nth)
qed

text \<open>The positions \<open>1, ..., n\<close> are distinct as well, since \<open>n\<close> is \<open>0\<close> again.\<close>

lemma ring_slot_inj1:
  assumes "ring_wf net" "1 \<le> i" "i \<le> ring_len net" "1 \<le> j" "j \<le> ring_len net" "ring_slot net i = ring_slot net j"
  shows "i = j"
proof -
  let ?n = "ring_len net"
  have n: "0 < ?n" using assms(1) by (simp add: ring_wf_def)
  have z: "ring_slot net ?n = ring_slot net 0" by (rule ring_slot_closed [OF assms(1)])
  consider "i = ?n" "j = ?n" | "i = ?n" "j < ?n" | "i < ?n" "j = ?n" | "i < ?n" "j < ?n" using assms(3,5) by linarith
  then show ?thesis
  proof cases
    case 2
    then have "0 = j" using z assms(6) n by (intro ring_slot_inj [OF assms(1)]) simp_all
    then show ?thesis using assms(4) by simp
  next
    case 3
    then have "i = 0" using z assms(6) n by (intro ring_slot_inj [OF assms(1)]) simp_all
    then show ?thesis using assms(2) by simp
  next
    case 4
    then show ?thesis using assms(6) by (intro ring_slot_inj [OF assms(1)])
  qed simp
qed

section \<open>The two loops\<close>

text \<open>Every position holds at most one packet, as a drained channel does.\<close>

definition single_packets :: "nat \<Rightarrow> garnet_network \<Rightarrow> bool" where
  "single_packets vc net = (\<forall>i < ring_len net. size (vc_flits (chan net vc (ring_slot net i))) \<le> 1)"

lemma vc_tags_flits: "vc_tags v = image_mset flit_tag_of (vc_flits v)"
  by (simp add: vc_tags_def buffer_tags_def vc_flits_def)

lemma getTopFlit_single:
  assumes "vc_getTopFlit v = Inr (f, v')" and "size (vc_flits v) \<le> 1"
  shows "vc_flits v' = {#}" and "vc_tags v = {#flit_tag_of f#}"
proof -
  have e: "vc_flits v = add_mset f (vc_flits v')" using vc_getTopFlit_flits(1) [OF assms(1)] by simp
  then show "vc_flits v' = {#}" using assms(2) by (cases "vc_flits v'") auto
  then show "vc_tags v = {#flit_tag_of f#}" using e by (simp add: vc_tags_flits)
qed

lemma spin_take_slots:
  assumes s: "spin_take vc idx (net, k) = Inr (net', k')" and len: "idx + 1 < length (gn_spinRing net)"
    and single: "size (vc_flits (chan net vc (ring_slot net idx))) \<le> 1"
  shows "node_tags (gn_spinRing net' ! (idx + 1)) = vc_tags (chan net vc (ring_slot net idx))"
    and "vc_flits (chan net' vc (ring_slot net idx)) = {#}"
    and "w \<noteq> vc \<or> t \<noteq> ring_slot net idx \<Longrightarrow> chan net' w t = chan net w t"
proof -
  have "node_tags (gn_spinRing net' ! (idx + 1)) = vc_tags (chan net vc (ring_slot net idx)) \<and>
      vc_flits (chan net' vc (ring_slot net idx)) = {#} \<and>
      (w \<noteq> vc \<or> t \<noteq> ring_slot net idx \<longrightarrow> chan net' w t = chan net w t)"
    using s
  proof (cases rule: spin_take_effect)
    case bubble
    have "chan net' w t = chan net w t" for w t using bubble(5) unfolding chan_def by simp
    then show ?thesis using bubble(1,7) len by (simp add: node_tags_def vc_tags_flits)
  next
    case (packet f f1 v1)
    note single1 = getTopFlit_single [OF packet(1) single]
    note ch = chan_ins_update(1) [OF packet(8,5)]
    show ?thesis using single1 ch packet(2,9) len by (simp add: node_tags_def)
  qed
  then show "node_tags (gn_spinRing net' ! (idx + 1)) = vc_tags (chan net vc (ring_slot net idx))"
    "vc_flits (chan net' vc (ring_slot net idx)) = {#}"
    "w \<noteq> vc \<or> t \<noteq> ring_slot net idx \<Longrightarrow> chan net' w t = chan net w t" by auto
qed

lemma spin_insert_slots:
  assumes "spin_insert vc idx (net, k) = Inr (net', k')"
  shows "vc_tags (chan net' vc (ring_slot net idx)) = vc_tags (chan net vc (ring_slot net idx)) + node_tags (gn_spinRing net ! idx)"
    and "w \<noteq> vc \<or> t \<noteq> ring_slot net idx \<Longrightarrow> chan net' w t = chan net w t"
proof -
  have "vc_tags (chan net' vc (ring_slot net idx)) = vc_tags (chan net vc (ring_slot net idx)) + node_tags (gn_spinRing net ! idx) \<and>
      (w \<noteq> vc \<or> t \<noteq> ring_slot net idx \<longrightarrow> chan net' w t = chan net w t)"
    using assms
  proof (cases rule: spin_insert_effect)
    case empty
    then show ?thesis by (simp add: node_tags_def)
  next
    case (packet u f)
    show ?thesis using chan_ins_update(1) [OF packet(10,7)] packet(1,4) by (simp add: node_tags_def)
  qed
  then show "vc_tags (chan net' vc (ring_slot net idx)) = vc_tags (chan net vc (ring_slot net idx)) + node_tags (gn_spinRing net ! idx)"
    "w \<noteq> vc \<or> t \<noteq> ring_slot net idx \<Longrightarrow> chan net' w t = chan net w t" by auto
qed

lemma take_loop_slots:
  assumes "foldM (spin_take vc) [0..<b] (net, k) = Inr (net', k')" and "b \<le> ring_len net"
    and wf: "ring_wf net" and single: "single_packets vc net"
  shows "(\<forall>i < b. node_tags (gn_spinRing net' ! (i + 1)) = vc_tags (chan net vc (ring_slot net i)) \<and>
        vc_flits (chan net' vc (ring_slot net i)) = {#}) \<and>
    (\<forall>w t. (w \<noteq> vc \<or> t \<notin> ring_slot net ` {..<b}) \<longrightarrow> chan net' w t = chan net w t)"
  using assms(1,2)
proof (induction b arbitrary: net' k')
  case (Suc b)
  then obtain net1 k1 where 1: "foldM (spin_take vc) [0..<b] (net, k) = Inr (net1, k1)" "spin_take vc b (net1, k1) = Inr (net', k')"
    by (auto simp: foldM_append)
  have b: "b < ring_len net" "b < length (gn_spinRing net)" using Suc.prems(2) by simp_all
  note IH = Suc.IH [OF 1(1) less_imp_le [OF b(1)]] and L = spin_take_loop [OF 1(1) b(2)]
  have sl: "ring_slot net1 b = ring_slot net b" using ring_slot_stable(1) [OF wf] L b(2) by blast
  have len: "b + 1 < length (gn_spinRing net1)" using L b(1) by (metis length_map less_diff_conv)
  have fresh: "ring_slot net b \<notin> ring_slot net ` {..<b}"
  proof
    assume "ring_slot net b \<in> ring_slot net ` {..<b}"
    then obtain i where i: "i < b" "ring_slot net i = ring_slot net b" by auto
    from ring_slot_inj [OF wf less_trans [OF i(1) b(1)] b(1) i(2)] i(1) show False by simp
  qed
  then have same: "chan net1 vc (ring_slot net b) = chan net vc (ring_slot net b)" using IH by blast
  have sg: "size (vc_flits (chan net1 vc (ring_slot net1 b))) \<le> 1"
    using single b(1) same sl by (simp add: single_packets_def)
  note S = spin_take_slots [OF 1(2) len sg]
  show ?case
  proof (intro conjI allI impI)
    fix i assume i: "i < Suc b"
    show "node_tags (gn_spinRing net' ! (i + 1)) = vc_tags (chan net vc (ring_slot net i))"
    proof (cases "i = b")
      case False
      then show ?thesis using IH i spin_take_ring(3) [OF 1(2) len, of "i + 1"] by simp
    qed (use S(1) sl same in simp)
    show "vc_flits (chan net' vc (ring_slot net i)) = {#}"
    proof (cases "i = b")
      case False
      then have "i < b" using i by simp
      then have "ring_slot net i \<in> ring_slot net ` {..<b}" by blast
      then have "ring_slot net i \<noteq> ring_slot net1 b" using fresh sl by metis
      then show ?thesis using IH i S(3) False by simp
    qed (use S(2) sl in simp)
  next
    fix w t assume t: "w \<noteq> vc \<or> t \<notin> ring_slot net ` {..<Suc b}"
    then have "w \<noteq> vc \<or> t \<noteq> ring_slot net1 b" "w \<noteq> vc \<or> t \<notin> ring_slot net ` {..<b}" using sl by auto
    then show "chan net' w t = chan net w t" using S(3) IH by metis
  qed
qed simp

lemma insert_loop_slots:
  assumes "foldM (spin_insert vc) [1..<b] (net, k) = Inr (net', k')" and "b \<le> length (gn_spinRing net)"
    and wf: "ring_wf net"
  shows "(\<forall>i. 1 \<le> i \<and> i < b \<longrightarrow> vc_tags (chan net' vc (ring_slot net i)) =
        vc_tags (chan net vc (ring_slot net i)) + node_tags (gn_spinRing net ! i)) \<and>
    (\<forall>w t. (w \<noteq> vc \<or> t \<notin> ring_slot net ` {1..<b}) \<longrightarrow> chan net' w t = chan net w t)"
  using assms(1,2)
proof (induction b arbitrary: net' k')
  case (Suc b)
  show ?case
  proof (cases "b = 0")
    case True
    then show ?thesis using Suc.prems by simp
  next
    case False
    with Suc.prems obtain net1 k1 where 1: "foldM (spin_insert vc) [1..<b] (net, k) = Inr (net1, k1)"
      "spin_insert vc b (net1, k1) = Inr (net', k')" by (auto simp: foldM_append)
    have b: "1 \<le> b" "b < length (gn_spinRing net)" "b \<le> ring_len net" using Suc.prems(2) False by simp_all
    note IH = Suc.IH [OF 1(1) less_imp_le [OF b(2)]] and L = spin_insert_loop [OF 1(1)]
    have sl: "ring_slot net1 b = ring_slot net b" and ring: "gn_spinRing net1 = gn_spinRing net"
      using ring_slot_stable(1) [OF wf _ _ b(2), of net1] L by auto
    have fresh: "ring_slot net i \<noteq> ring_slot net b" if "1 \<le> i" "i < b" for i
      using ring_slot_inj1 [OF wf that(1) _ b(1,3)] that(2) b(3) by (metis less_imp_le_nat less_irrefl_nat less_le_trans)
    then have "ring_slot net b \<notin> ring_slot net ` {1..<b}" by (metis atLeastLessThan_iff imageE)
    then have same: "chan net1 vc (ring_slot net b) = chan net vc (ring_slot net b)" using IH by blast
    note S = spin_insert_slots [OF 1(2)]
    show ?thesis
    proof (intro conjI allI impI)
      fix i assume i: "1 \<le> i \<and> i < Suc b"
      show "vc_tags (chan net' vc (ring_slot net i)) = vc_tags (chan net vc (ring_slot net i)) + node_tags (gn_spinRing net ! i)"
      proof (cases "i = b")
        case True
        then show ?thesis using S(1) sl ring same by simp
      next
        case False
        then have "ring_slot net i \<noteq> ring_slot net1 b" using fresh [of i] sl i by auto
        then show ?thesis using IH S(2) [of vc "ring_slot net i"] i False by simp
      qed
    next
      fix w t assume t: "w \<noteq> vc \<or> t \<notin> ring_slot net ` {1..<Suc b}"
      then have "w \<noteq> vc \<or> t \<noteq> ring_slot net1 b" "w \<noteq> vc \<or> t \<notin> ring_slot net ` {1..<b}" using sl b(1) by auto
      then show "chan net' w t = chan net w t" using S(2) IH by metis
    qed
  qed
qed simp

section \<open>Rotation\<close>

definition ring_contents :: "nat \<Rightarrow> garnet_network \<Rightarrow> flit_tag multiset list" where
  "ring_contents vc net = map (\<lambda>i. vc_tags (chan net vc (ring_slot net i))) [0..<ring_len net]"

lemma doSpin_slots:
  assumes d: "doSpin vc net = Inr net'" and wf: "ring_wf net" and single: "single_packets vc net"
  shows "1 \<le> i \<Longrightarrow> i \<le> ring_len net \<Longrightarrow>
      vc_tags (chan net' vc (ring_slot net' i)) = vc_tags (chan net vc (ring_slot net (i - 1)))"
    and "w \<noteq> vc \<or> t \<notin> ring_slot net ` {..<ring_len net} \<Longrightarrow> chan net' w t = chan net w t"
proof -
  let ?net1 = "gn_map_stats (\<lambda>s. s\<lparr>st_total_spins := st_total_spins s + 1\<rparr>) net" and ?n = "ring_len net"
  from d obtain net2 k where n: "0 < length (gn_spinRing net)"
    and tk: "foldM (spin_take vc) [0..<?n] (?net1, 0) = Inr (net2, k)"
    and ins: "foldM (spin_insert vc) [1..<length (gn_spinRing net)] (net2, int k) = Inr (net', 0)"
    by (rule doSpin_cases)
  have e1: "ring_slot ?net1 = ring_slot net" "chan ?net1 = chan net"
    by (simp_all add: ring_slot_def chan_def fun_eq_iff)
  have wf1: "ring_wf ?net1" and sg1: "single_packets vc ?net1"
    using wf single e1 by (simp_all add: ring_wf_def single_packets_def)
  have len: "?n < length (gn_spinRing ?net1)" using n by simp
  note TL = spin_take_loop [OF tk len] and IL = spin_insert_loop [OF ins]
  have wf2: "ring_wf net2" using ring_wf_stable [OF wf1] TL by blast
  have l2: "length (gn_spinRing net2) = length (gn_spinRing net)"
  proof -
    have "ring_shape net2 = ring_shape ?net1" using TL by blast
    from map_eq_imp_length_eq [OF this] show ?thesis by simp
  qed
  have sl2: "ring_slot net2 i = ring_slot net i" if "i < length (gn_spinRing net)" for i
    using ring_slot_stable(1) [OF wf1 _ _, of net2 i] TL that e1 by simp
  have sl': "ring_slot net' i = ring_slot net i" if "i < length (gn_spinRing net)" for i
    using ring_slot_stable(1) [OF wf doSpin_tags(2,3) [OF d] that] .
  have T: "\<forall>i < ?n. node_tags (gn_spinRing net2 ! (i + 1)) = vc_tags (chan net vc (ring_slot net i)) \<and>
        vc_flits (chan net2 vc (ring_slot net i)) = {#}"
    "\<forall>w t. (w \<noteq> vc \<or> t \<notin> ring_slot net ` {..<?n}) \<longrightarrow> chan net2 w t = chan net w t"
    using take_loop_slots [OF tk _ wf1 sg1] e1 by simp_all
  have I: "\<forall>i. 1 \<le> i \<and> i < length (gn_spinRing net) \<longrightarrow> vc_tags (chan net' vc (ring_slot net2 i)) =
        vc_tags (chan net2 vc (ring_slot net2 i)) + node_tags (gn_spinRing net2 ! i)"
    "\<forall>w t. (w \<noteq> vc \<or> t \<notin> ring_slot net2 ` {1..<length (gn_spinRing net)}) \<longrightarrow> chan net' w t = chan net2 w t"
    using insert_loop_slots [OF ins _ wf2] l2 by simp_all
  show "vc_tags (chan net' vc (ring_slot net' i)) = vc_tags (chan net vc (ring_slot net (i - 1)))"
    if i: "1 \<le> i" "i \<le> ?n"
  proof -
    have il: "i < length (gn_spinRing net)" using i n by simp
    have "vc_flits (chan net2 vc (ring_slot net i)) = {#}"
      using T(1) i ring_slot_closed [OF wf] by (cases "i = ?n") auto
    then have "vc_tags (chan net2 vc (ring_slot net i)) = {#}" by (simp add: vc_tags_flits)
    moreover have "node_tags (gn_spinRing net2 ! i) = vc_tags (chan net vc (ring_slot net (i - 1)))"
      using T(1) [rule_format, of "i - 1"] i by simp
    ultimately show ?thesis using I(1) [rule_format, of i] i il sl2 [OF il] sl' [OF il] by simp
  qed
  show "chan net' w t = chan net w t" if t: "w \<noteq> vc \<or> t \<notin> ring_slot net ` {..<?n}"
  proof -
    have "ring_slot net2 i \<in> ring_slot net ` {..<?n}" if "1 \<le> i" "i < length (gn_spinRing net)" for i
      using that sl2 [of i] ring_slot_closed [OF wf] wf by (cases "i = ?n") (auto simp: ring_wf_def)
    then have "w \<noteq> vc \<or> t \<notin> ring_slot net2 ` {1..<length (gn_spinRing net)}" using t by auto
    then show ?thesis using I(2) T(2) t by metis
  qed
qed

lemma doSpin_rotates:
  assumes "doSpin vc net = Inr net'" and "ring_wf net" and "single_packets vc net"
  shows "rotate1 (ring_contents vc net') = ring_contents vc net" and "ring_wf net'" and "single_packets vc net'"
    and "ring_len net' = ring_len net"
proof -
  note S = doSpin_slots(1) [OF assms] and F = doSpin_tags(2,3) [OF assms(1)]
  show wf': "ring_wf net'" using ring_wf_stable [OF assms(2) F] .
  have l: "length (gn_spinRing net') = length (gn_spinRing net)" using map_eq_imp_length_eq [OF F(2)] .
  then show len: "ring_len net' = ring_len net" by simp
  let ?n = "ring_len net"
  have n: "0 < ?n" using assms(2) by (simp add: ring_wf_def)
  have pos: "vc_tags (chan net' vc (ring_slot net' ((i + 1) mod ?n))) = vc_tags (chan net vc (ring_slot net i))" if "i < ?n" for i
  proof (cases "i + 1 = ?n")
    case True
    then have "?n - 1 = i" "(i + 1) mod ?n = 0" by simp_all
    then show ?thesis using S [of ?n] ring_slot_closed [OF wf'] len n by simp
  next
    case False
    then show ?thesis using S [of "i + 1"] that by simp
  qed
  show "rotate1 (ring_contents vc net') = ring_contents vc net"
  proof (rule nth_equalityI)
    show "length (rotate1 (ring_contents vc net')) = length (ring_contents vc net)" by (simp add: ring_contents_def l)
    fix i assume "i < length (rotate1 (ring_contents vc net'))"
    then have i: "i < ?n" by (simp add: ring_contents_def l)
    then have "(i + 1) mod ?n < ?n" using n by simp
    then show "rotate1 (ring_contents vc net') ! i = ring_contents vc net ! i"
      using pos [OF i] i nth_rotate1 [of i "ring_contents vc net'"] by (simp add: ring_contents_def l)
  qed
  have "size (vc_flits (chan net' vc (ring_slot net' j))) \<le> 1" if j: "j < ?n" for j
  proof -
    obtain i where "i < ?n" "(i + 1) mod ?n = j"
    proof (cases j)
      case 0
      have e: "?n - 1 + 1 = ?n" using n by linarith
      have "?n - 1 < ?n" "(?n - 1 + 1) mod ?n = j" unfolding e using 0 n by simp_all
      then show ?thesis by (rule that)
    next
      case (Suc m)
      then show ?thesis using j by (intro that [of m]) simp_all
    qed
    then have "size (vc_tags (chan net' vc (ring_slot net' j))) = size (vc_tags (chan net vc (ring_slot net i)))"
      using pos by metis
    moreover have "size (vc_flits (chan net vc (ring_slot net i))) \<le> 1"
      using assms(3) \<open>i < ?n\<close> by (simp add: single_packets_def)
    ultimately show ?thesis by (simp add: vc_tags_flits)
  qed
  then show "single_packets vc net'" using l by (simp add: single_packets_def)
qed

text \<open>Any number of drains in a row.\<close>

fun spin_times :: "nat \<Rightarrow> nat \<Rightarrow> garnet_network \<Rightarrow> garnet_network res" where
  "spin_times vc 0 net = Inr net"
| "spin_times vc (Suc k) net = bnd (doSpin vc net) (spin_times vc k)"

lemma spin_times_rotates:
  assumes "spin_times vc k net = Inr net'" and "ring_wf net" and "single_packets vc net"
  shows "rotate k (ring_contents vc net') = ring_contents vc net \<and> ring_wf net' \<and> single_packets vc net'"
  using assms
proof (induction k arbitrary: net)
  case (Suc k)
  then obtain net1 where n1: "doSpin vc net = Inr net1" "spin_times vc k net1 = Inr net'" by auto
  note R = doSpin_rotates [OF n1(1) Suc.prems(2,3)]
  have IH: "rotate k (ring_contents vc net') = ring_contents vc net1 \<and> ring_wf net' \<and> single_packets vc net'"
    using Suc.IH [OF n1(2)] R by blast
  have "rotate (Suc k) (ring_contents vc net') = rotate1 (rotate k (ring_contents vc net'))" by (simp add: rotate_def)
  then show ?case using IH R(1) by simp
qed simp

end
