(* ===== verification/Router_Correct.thy ===== *)
theory Router_Correct
  imports Router_Model Drain_Rotation
begin

text \<open>
  The wakeup handlers of the network as steps of a transition system. No step loses or duplicates a
  flit, and no step takes a credit counter out of its bounds: both hold in every reachable state.
  A drain happens only when no flit is on a link.
\<close>

section \<open>Flits\<close>

lemma gn_input_Inr:
  "gn_input net rid p = Inr u \<longleftrightarrow> rid < length (gn_routers net) \<and> 0 \<le> p \<and>
     nat p < length (r_input_unit (gn_routers net ! rid)) \<and> u = r_input_unit (gn_routers net ! rid) ! nat p"
  by (auto simp: gn_input_def get_router_def bnd_eq_Inr at_eq_Inr)

lemma gn_put_input_tags:
  assumes "rid < length (gn_routers net)" "p < length (r_input_unit (gn_routers net ! rid))"
  shows "network_tags (gn_put_input rid p u net) + input_tags (r_input_unit (gn_routers net ! rid) ! p) =
    network_tags net + input_tags u"
proof -
  let ?r = "gn_routers net ! rid"
  let ?r' = "?r\<lparr>r_input_unit := (r_input_unit ?r)[p := u]\<rparr>"
  have "router_tags ?r' + input_tags (r_input_unit ?r ! p) = router_tags ?r + input_tags u"
    using contents_update [OF assms(2), of input_tags u] by (simp add: router_tags_def ac_simps)
  from nested_exchange [OF this contents_update [OF assms(1)]]
  have "contents router_tags ((gn_routers net)[rid := ?r']) + input_tags (r_input_unit ?r ! p) =
      contents router_tags (gn_routers net) + input_tags u" .
  then show ?thesis by (simp add: gn_put_input_def put_router_def Let_def network_tags_def ac_simps)
qed

lemma gn_put_input_tags_same:
  assumes "rid < length (gn_routers net)" "p < length (r_input_unit (gn_routers net ! rid))"
    and "input_tags u = input_tags (r_input_unit (gn_routers net ! rid) ! p)"
  shows "network_tags (gn_put_input rid p u net) = network_tags net"
  using gn_put_input_tags [OF assms(1,2), of u] assms(3) by simp

lemma iu_head_flit_tags:
  assumes "iu_head_flit rid inport t net = Inr (t1, net1)"
  shows "network_tags net1 = network_tags net" and "flit_tag_of t1 = flit_tag_of t"
proof -
  have "network_tags net1 = network_tags net \<and> flit_tag_of t1 = flit_tag_of t"
  proof (cases "is_head t")
    case True
    with assms obtain u u1 op where u: "gn_input net rid (int inport) = Inr u"
      and u1: "iu_set_vc_active (fl_vc t) (gn_cycle net) u = Inr u1"
      and oc: "outportCompute (gn_put_input rid inport u1 net) rid (fl_route t) = Inr (op, net1)"
      and t1: "flit_tag_of t1 = flit_tag_of t" by (auto simp: iu_head_flit_def)
    have "network_tags (gn_put_input rid inport u1 net) = network_tags net"
      using u iu_set_vc_active_tags [OF u1] by (intro gn_put_input_tags_same) (auto simp: gn_input_Inr)
    then show ?thesis using route_frame_tags [OF route_frame_outportCompute [OF oc]] t1 by simp
  qed (use assms in \<open>auto simp: iu_head_flit_def\<close>)
  then show "network_tags net1 = network_tags net" "flit_tag_of t1 = flit_tag_of t" by simp_all
qed

lemma pipe_stage_tag: "pipe_stage r now t = Inr (t1, es) \<Longrightarrow> flit_tag_of t1 = flit_tag_of t"
  by (auto simp: pipe_stage_def Let_def split: if_splits)

lemma iu_insert_tags:
  assumes "iu_modify u vc (vc_insertFlit f) = Inr u'"
  shows "input_tags u' = add_mset (flit_tag_of f) (input_tags u)"
  using assms by (auto simp: iu_modify_Inr input_tags_def contents_update_add)

lemma iu_buffer_flit_tags:
  assumes "iu_buffer_flit rid inport t net = Inr net'"
  shows "network_tags net' = add_mset (flit_tag_of t) (network_tags net)"
proof -
  from assms obtain u t1 es u1 u2 where u: "gn_input net rid (int inport) = Inr u"
    and t1: "flit_tag_of t1 = flit_tag_of t" and u1: "iu_modify u (fl_vc t) (vc_insertFlit t1) = Inr u1"
    and u2: "iu_vcs u2 = iu_vcs u1" and net': "net' = schedule_events es (gn_put_input rid inport u2 net)"
  proof -
    from assms obtain u t1 es u1 w rd where u: "gn_input net rid (int inport) = Inr u"
      and ps: "pipe_stage (gn_routers net ! rid) (gn_cycle net) t = Inr (t1, es)"
      and u1: "iu_modify u (fl_vc t) (vc_insertFlit t1) = Inr u1"
      and net': "net' = schedule_events es (gn_put_input rid inport (u1\<lparr>iu_num_buffer_writes := w, iu_num_buffer_reads := rd\<rparr>) net)"
      by (auto simp: iu_buffer_flit_def Let_def split: if_splits)
    show thesis by (rule that [OF u pipe_stage_tag [OF ps] u1 _ net']) simp
  qed
  then have u2: "input_tags u2 = input_tags u1" by (simp add: input_tags_def)
  have "network_tags net' + input_tags u = network_tags net + input_tags u2"
    unfolding net' using u gn_put_input_tags [of rid net inport u2] by (simp add: gn_input_Inr)
  then have "network_tags net' + input_tags u = add_mset (flit_tag_of t) (network_tags net) + input_tags u"
    using iu_insert_tags [OF u1] u2 t1 by simp
  then show ?thesis by (simp only: add_right_cancel)
qed

lemma InputUnit_wakeup_tags:
  assumes "InputUnit_wakeup rid inport net = Inr net'"
  shows "network_tags net' = network_tags net"
proof -
  from assms obtain u l where u: "gn_input net rid (int inport) = Inr u"
    and l: "at (gn_networklinks net) (int (iu_in_link u)) = Inr l" by (auto simp: InputUnit_wakeup_def)
  let ?k = "iu_in_link u"
  have k: "?k < length (gn_networklinks net)" "l = gn_networklinks net ! ?k" using l by (auto simp: at_eq_Inr)
  show ?thesis
  proof (cases "isReady (nl_linkBuffer l) (gn_cycle net)")
    case True
    with assms u l obtain t b t1 net1 where g: "getTopFlit (nl_linkBuffer l) = Inr (t, b)"
      and h: "iu_head_flit rid inport (increment_hops t)
          (net\<lparr>gn_networklinks := (gn_networklinks net)[?k := l\<lparr>nl_linkBuffer := b\<rparr>]\<rparr>) = Inr (t1, net1)"
      and f: "iu_buffer_flit rid inport t1 net1 = Inr net'"
      by (auto simp: InputUnit_wakeup_def consumeLink_def)
    have "add_mset (flit_tag_of t) (contents (\<lambda>l. buffer_tags (nl_linkBuffer l)) ((gn_networklinks net)[?k := l\<lparr>nl_linkBuffer := b\<rparr>]))
        = contents (\<lambda>l. buffer_tags (nl_linkBuffer l)) (gn_networklinks net)"
      using k buffer_tags_take [OF g] by (intro contents_update_remove) simp_all
    then have "add_mset (flit_tag_of t) (network_tags (net\<lparr>gn_networklinks := (gn_networklinks net)[?k := l\<lparr>nl_linkBuffer := b\<rparr>]\<rparr>))
        = network_tags net" by (simp add: network_tags_def)
    then show ?thesis using iu_buffer_flit_tags [OF f] iu_head_flit_tags [OF h] by simp
  qed (use assms u l in \<open>simp add: InputUnit_wakeup_def\<close>)
qed

interpretation inputs: conserved "InputUnit_wakeup rid" network_tags for rid
  by unfold_locales (rule InputUnit_wakeup_tags)

lemma OutputUnit_wakeup_buffer: "OutputUnit_wakeup now u cl = Inr (u', cl') \<Longrightarrow> ou_out_buffer u' = ou_out_buffer u"
  by (auto simp: OutputUnit_wakeup_def ou_increment_credit_def ou_set_vc_state_def ou_modify_Inr split: if_splits)

lemma Router_read_credit_tags:
  assumes "Router_read_credit rid p net = Inr net'"
  shows "network_tags net' = network_tags net"
proof -
  from assms obtain ou' cl' k where rid: "rid < length (gn_routers net)" and p: "p < length (r_output_unit (gn_routers net ! rid))"
    and ou: "ou_out_buffer ou' = ou_out_buffer (r_output_unit (gn_routers net ! rid) ! p)"
    and net': "net' = (put_router net rid ((gn_routers net ! rid)
      \<lparr>r_output_unit := (r_output_unit (gn_routers net ! rid))[p := ou']\<rparr>))\<lparr>gn_creditlinks := (gn_creditlinks net)[k := cl']\<rparr>"
    by (auto simp: Router_read_credit_def get_router_def at_eq_Inr dest!: OutputUnit_wakeup_buffer)
  let ?net1 = "put_router net rid ((gn_routers net ! rid)\<lparr>r_output_unit := (r_output_unit (gn_routers net ! rid))[p := ou']\<rparr>)"
  have "network_tags ?net1 = network_tags net"
    using rid p ou by (intro put_router_tags) (simp_all add: router_tags_def contents_update_same)
  moreover have "network_tags net' = network_tags ?net1" by (simp add: net' network_tags_def)
  ultimately show ?thesis by simp
qed

interpretation credits: conserved "Router_read_credit rid" network_tags for rid
  by unfold_locales (rule Router_read_credit_tags)

lemma gn_map_stats_tags [simp]: "network_tags (gn_map_stats f net) = network_tags net"
  by (simp add: network_tags_def)

interpretation spins: conserved count_and_spin network_tags
  by unfold_locales (simp add: count_and_spin_def doSpin_tags(1))

interpretation rounds: conserved "\<lambda>_ :: nat. foldM count_and_spin vcs" network_tags for vcs
  by unfold_locales (rule spins.loop_conserves)

lemma traverse_map_same:
  "traverse f xs = Inr ys \<Longrightarrow> (\<And>x y. f x = Inr y \<Longrightarrow> g y = g x) \<Longrightarrow> map g ys = map g xs"
  by (induction xs arbitrary: ys) auto

lemma flit_time_inport_tags: "flit_time_inport vc now m u = Inr u' \<Longrightarrow> input_tags u' = input_tags u"
  by (auto simp: flit_time_inport_def split: if_splits elim!: iu_update_top_tags)

lemma set_flit_time_tags:
  assumes "set_flit_time vc net = Inr net'"
  shows "network_tags net' = network_tags net"
proof -
  from assms obtain rs where rs: "traverse (\<lambda>r. bnd (traverse (flit_time_inport vc (gn_cycle net) (nc_spin_mult (gn_config net)))
      (r_input_unit r)) (\<lambda>us. Inr (r\<lparr>r_input_unit := us\<rparr>))) (gn_routers net) = Inr rs" and net': "net' = net\<lparr>gn_routers := rs\<rparr>"
    by (auto simp: set_flit_time_def)
  have "router_tags r' = router_tags r"
    if "bnd (traverse (flit_time_inport vc (gn_cycle net) (nc_spin_mult (gn_config net))) (r_input_unit r))
      (\<lambda>us. Inr (r\<lparr>r_input_unit := us\<rparr>)) = Inr r'" for r r'
  proof -
    from that obtain us where us: "traverse (flit_time_inport vc (gn_cycle net) (nc_spin_mult (gn_config net))) (r_input_unit r) = Inr us"
      and r': "r' = r\<lparr>r_input_unit := us\<rparr>" by auto
    have "map input_tags us = map input_tags (r_input_unit r)"
      using traverse_map_same [OF us] flit_time_inport_tags by blast
    then show ?thesis by (simp add: router_tags_def contents_def r')
  qed
  then have "map router_tags rs = map router_tags (gn_routers net)" using traverse_map_same [OF rs] by blast
  then show ?thesis by (simp add: network_tags_def contents_def net')
qed

interpretation flit_times: conserved set_flit_time network_tags
  by unfold_locales (rule set_flit_time_tags)

lemma set_halt_tags [simp]: "network_tags (set_halt b net) = network_tags net"
proof -
  have "router_tags \<circ> r_halt_update (\<lambda>_. b) = router_tags" by (rule ext) (simp add: router_tags_def)
  then show ?thesis by (simp add: network_tags_def set_halt_def contents_def)
qed

lemma gn_lock_tags [simp]: "network_tags (net\<lparr>gn_lock := k\<rparr>) = network_tags net"
  by (simp add: network_tags_def)

lemma schedule_tags [simp]:
  "network_tags (scheduleAll_wakeup k net) = network_tags net" "network_tags (gn_schedule_wakeup k net) = network_tags net"
  by (simp_all add: scheduleAll_wakeup_def gn_schedule_wakeup_def)

lemma put_router_halt_tags:
  "rid < length (gn_routers net) \<Longrightarrow> network_tags (put_router net rid ((gn_routers net ! rid)\<lparr>r_halt := b\<rparr>)) = network_tags net"
  by (rule put_router_tags) (simp_all add: router_tags_def)

lemma next_random_tags: "next_random net = (x, net') \<Longrightarrow> network_tags net' = network_tags net"
  by (auto simp: next_random_def network_tags_def)

lemma drain_rounds_tags: "drain_rounds r net = Inr net' \<Longrightarrow> network_tags net' = network_tags net"
  by (auto simp: drain_rounds_def spin_rounds_def Let_def dest!: rounds.loop_conserves next_random_tags
      split: if_splits prod.splits)

lemma end_halt_cases:
  assumes "end_halt rid net = Inr net'"
  obtains net2 net3 where "rid < length (gn_routers net)"
    "chck_link_state (set_halt False (put_router net rid ((gn_routers net ! rid)\<lparr>r_halt := True\<rparr>))) = Inr True"
    "drain_rounds (gn_routers net ! rid) (set_halt False (put_router net rid ((gn_routers net ! rid)\<lparr>r_halt := True\<rparr>))) = Inr net2"
    "foldM set_flit_time (drain_vcs (gn_config net2) (gn_routers net ! rid)) net2 = Inr net3"
    "net' = scheduleAll_wakeup (2 * nc_spin_mult (gn_config (gn_schedule_wakeup 3 (net3\<lparr>gn_lock := -1\<rparr>))))
       (gn_schedule_wakeup 3 (net3\<lparr>gn_lock := -1\<rparr>))"
  using assms by (auto simp: end_halt_def get_router_def at_eq_Inr Let_def)

lemma Router_spin_tags:
  assumes "Router_spin rid net = Inr net'"
  shows "network_tags net' = network_tags net"
proof -
  have "network_tags net' = network_tags net" if "begin_halt rid net = Inr net'"
    using that by (auto simp: begin_halt_def Let_def split: if_splits)
  moreover have "network_tags net' = network_tags net" if "end_halt rid net = Inr net'"
    using that
  proof (rule end_halt_cases)
    fix net2 net3
    assume "rid < length (gn_routers net)"
      and d: "drain_rounds (gn_routers net ! rid) (set_halt False (put_router net rid ((gn_routers net ! rid)\<lparr>r_halt := True\<rparr>))) = Inr net2"
      and f: "foldM set_flit_time (drain_vcs (gn_config net2) (gn_routers net ! rid)) net2 = Inr net3"
      and n: "net' = scheduleAll_wakeup (2 * nc_spin_mult (gn_config (gn_schedule_wakeup 3 (net3\<lparr>gn_lock := -1\<rparr>))))
       (gn_schedule_wakeup 3 (net3\<lparr>gn_lock := -1\<rparr>))"
    then show ?thesis using drain_rounds_tags [OF d] flit_times.loop_conserves [OF f]
      by (simp add: put_router_halt_tags)
  qed
  ultimately show ?thesis using assms by (auto simp: Router_spin_def Let_def split: if_splits)
qed

lemma Router_switch_tags:
  assumes "Router_switch rid net = Inr net'"
  shows "network_tags net' = network_tags net"
proof -
  from assms obtain cx1 cx2 where rid: "rid < length (gn_routers net)"
    and sa: "SwitchAllocator_wakeup (gn_config net) (gn_cycle net) \<lparr>rc_router = gn_routers net ! rid, rc_stats = gn_stats net, rc_events = []\<rparr> = Inr cx1"
    and xb: "CrossbarSwitch_wakeup (gn_cycle net) cx1 = Inr cx2"
    and net': "net' = schedule_events (rc_events cx2) ((put_router net rid (rc_router cx2))\<lparr>gn_stats := rc_stats cx2\<rparr>)"
    by (auto simp: Router_switch_def get_router_def at_eq_Inr)
  have "router_tags (rc_router cx2) = router_tags (gn_routers net ! rid)"
    using SwitchAllocator_wakeup_tags [OF sa] CrossbarSwitch_wakeup_tags [OF xb] by simp
  then have "network_tags (put_router net rid (rc_router cx2)) = network_tags net" using rid by (intro put_router_tags)
  moreover have "network_tags (x\<lparr>gn_stats := s\<rparr>) = network_tags x" for x s by (simp add: network_tags_def)
  ultimately show ?thesis by (simp add: net')
qed

lemma Router_wakeup_tags:
  assumes "Router_wakeup rid net = Inr net'"
  shows "network_tags net' = network_tags net"
  using assms
  by (auto simp: Router_wakeup_def dest!: inputs.loop_conserves credits.loop_conserves Router_spin_tags Router_switch_tags)

end
