(* ===== verification/Network_Steps.thy ===== *)
theory Network_Steps
  imports Router_Correct
begin

text \<open>
  The network as a transition system: \<open>net_step\<close> is the wakeup of a router or of a link at a cycle
  for which it was scheduled, or the clock. (\<open>Consumer\<close> creates one event per scheduled time; the
  relation allows the same wakeup more than once in a cycle, so it has all behaviours of the program
  and more.) Network interfaces, which inject and eject flits, are not steps of this relation: it
  describes what the routers and links do with the flits that are in the network.
\<close>

inductive net_step :: "garnet_network \<Rightarrow> garnet_network \<Rightarrow> bool" where
  router_step: "Router_wakeup i net = Inr net' \<Longrightarrow> gn_cycle net \<in> set (r_wakeups (gn_routers net ! i)) \<Longrightarrow>
    net_step net net'"
| link_step: "NetworkLink_wakeup k net = Inr net' \<Longrightarrow> gn_cycle net \<in> set (nl_wakeups (gn_networklinks net ! k)) \<Longrightarrow>
    net_step net net'"
| credit_step: "CreditLink_wakeup k net = Inr net' \<Longrightarrow> gn_cycle net \<in> set (nl_wakeups (gn_creditlinks net ! k)) \<Longrightarrow>
    net_step net net'"
| clock_step: "net_step net (net\<lparr>gn_cycle := Suc (gn_cycle net)\<rparr>)"

inductive_cases net_stepE: "net_step net net'"

section \<open>Flits in every reachable state\<close>

lemma CreditLink_wakeup_tags:
  assumes "CreditLink_wakeup k net = Inr net'"
  shows "network_tags net' = network_tags net"
proof -
  from assms obtain q b ls es where net': "net' = schedule_events es ((write_credit_queue q b net)\<lparr>gn_creditlinks := ls\<rparr>)"
    by (auto simp: CreditLink_wakeup_def split: option.splits)
  have "network_tags ((write_credit_queue q b net)\<lparr>gn_creditlinks := ls\<rparr>) = network_tags net"
    by (simp add: write_credit_queue_def network_tags_def contents_count_up router_tags_def input_tags_def ni_tags_def
        split: credit_queue_ref.splits)
  then show ?thesis by (simp add: net')
qed

lemma clock_tags [simp]: "network_tags (net\<lparr>gn_cycle := t\<rparr>) = network_tags net"
  by (simp add: network_tags_def)

lemma net_step_tags: "net_step net net' \<Longrightarrow> network_tags net' = network_tags net"
  by (erule net_stepE) (auto dest: Router_wakeup_tags NetworkLink_wakeup_tags CreditLink_wakeup_tags)

lemma net_steps_tags: "net_step\<^sup>*\<^sup>* net net' \<Longrightarrow> network_tags net' = network_tags net"
  by (induction rule: rtranclp_induct) (simp_all add: net_step_tags)

section \<open>Credits in every reachable state\<close>

definition gn_outvcs :: "garnet_network \<Rightarrow> out_vc_state list list list" where
  "gn_outvcs net = map (\<lambda>r. map ou_outvc_state (r_output_unit r)) (gn_routers net)"

definition net_credit_inv :: "garnet_network \<Rightarrow> bool" where
  "net_credit_inv net = list_all (list_all (list_all credit_inv)) (gn_outvcs net)"

lemma net_credit_inv_alt: "net_credit_inv net = (\<forall>r \<in> set (gn_routers net). \<forall>u \<in> set (r_output_unit r). ou_inv u)"
  by (simp add: net_credit_inv_def gn_outvcs_def ou_inv_def list_all_iff)

lemma net_credit_inv_router:
  "net_credit_inv net \<Longrightarrow> i < length (gn_routers net) \<Longrightarrow> \<forall>u \<in> set (r_output_unit (gn_routers net ! i)). ou_inv u"
  unfolding net_credit_inv_alt by (metis nth_mem)

lemma map_count_up: "(\<And>c. f (g c) = f c) \<Longrightarrow> map f (count_up cs i g) = map f cs"
  by (simp add: count_up_def map_update list_update_same_conv)

lemma schedule_one_outvcs: "gn_outvcs (schedule_one e net) = gn_outvcs net"
  by (auto simp: schedule_one_def gn_outvcs_def map_count_up split: prod.splits consumer_ref.splits)

lemma schedule_events_outvcs [simp]: "gn_outvcs (schedule_events es net) = gn_outvcs net"
  unfolding schedule_events_def by (induction es arbitrary: net) (auto simp: schedule_one_outvcs)

lemma route_frame_outvcs:
  assumes "route_frame net net'"
  shows "gn_outvcs net' = gn_outvcs net"
proof -
  have "r_output_unit (gn_routers net' ! i) = r_output_unit (gn_routers net ! i)" if "i < length (gn_routers net)" for i
    using forget_maps_fields(8) [OF route_frame_routers(2) [OF assms that]] .
  then show ?thesis unfolding gn_outvcs_def using route_frame_routers(1) [OF assms] by (intro nth_equalityI) auto
qed

lemma put_input_outvcs [simp]: "rid < length (gn_routers net) \<Longrightarrow> gn_outvcs (gn_put_input rid p u net) = gn_outvcs net"
  by (simp add: gn_outvcs_def gn_put_input_def put_router_def Let_def map_update list_update_same_conv)

lemma net_fields_outvcs [simp]:
  "gn_outvcs (net\<lparr>gn_networklinks := ls\<rparr>) = gn_outvcs net" "gn_outvcs (net\<lparr>gn_creditlinks := cs\<rparr>) = gn_outvcs net"
  "gn_outvcs (net\<lparr>gn_lock := k\<rparr>) = gn_outvcs net" "gn_outvcs (net\<lparr>gn_stats := s\<rparr>) = gn_outvcs net"
  "gn_outvcs (net\<lparr>gn_cycle := t\<rparr>) = gn_outvcs net" "gn_outvcs (gn_map_stats f net) = gn_outvcs net"
  "gn_outvcs (set_ring_flit i x net) = gn_outvcs net" "gn_outvcs (scheduleAll_wakeup n net) = gn_outvcs net"
  "gn_outvcs (gn_schedule_wakeup n net) = gn_outvcs net"
  by (simp_all add: gn_outvcs_def gn_map_stats_def set_ring_flit_def scheduleAll_wakeup_def gn_schedule_wakeup_def
      schedule_events_outvcs [unfolded gn_outvcs_def])

lemma set_halt_outvcs [simp]: "gn_outvcs (set_halt b net) = gn_outvcs net"
  by (simp add: gn_outvcs_def set_halt_def)

lemma put_router_credit_inv:
  assumes "net_credit_inv net" and "\<forall>u \<in> set (r_output_unit r). ou_inv u"
  shows "net_credit_inv (put_router net i r)"
  using assms set_update_subset_insert [of "gn_routers net" i r] by (auto simp: net_credit_inv_alt put_router_def)

lemma upstream_update_credit_inv:
  assumes "upstream_update dirn i f net = Inr net'" and "net_credit_inv net"
    and "\<And>u u'. f u = Inr u' \<Longrightarrow> ou_inv u \<Longrightarrow> ou_inv u'"
  shows "net_credit_inv net'"
  using assms(1)
proof (rule upstream_update_cases)
  fix k net1 p ou'
  assume rf: "route_frame net net1" and k: "k < length (gn_routers net)"
    and p: "p < length (r_output_unit (gn_routers net1 ! k))" "f (r_output_unit (gn_routers net1 ! k) ! p) = Inr ou'"
    and net': "net' = put_router net1 k ((gn_routers net1 ! k)\<lparr>r_output_unit := (r_output_unit (gn_routers net1 ! k))[p := ou']\<rparr>)"
  have i1: "net_credit_inv net1" using assms(2) route_frame_outvcs [OF rf] by (simp add: net_credit_inv_def)
  have outs: "\<forall>u \<in> set (r_output_unit (gn_routers net1 ! k)). ou_inv u"
    using net_credit_inv_router [OF i1] k route_frame_routers(1) [OF rf] by simp
  then have "ou_inv ou'" using assms(3) [OF p(2)] p(1) by simp
  then show ?thesis unfolding net' using outs set_update_subset_insert [of "r_output_unit (gn_routers net1 ! k)" p ou']
    by (intro put_router_credit_inv [OF i1]) auto
qed

lemma credit_then_state_inv:
  "bnd (ou_increment_credit vc u) (ou_set_vc_state st vc t) = Inr u' \<Longrightarrow> ou_inv u \<Longrightarrow> ou_inv u'"
  "bnd (ou_decrement_credit vc u) (ou_set_vc_state st vc t) = Inr u' \<Longrightarrow> ou_inv u \<Longrightarrow> ou_inv u'"
  using ou_ops_inv by blast+

lemma inport_index_outvcs: "inport_index net i d = Inr (rid, p, net') \<Longrightarrow> gn_outvcs net' = gn_outvcs net"
  using route_frame_outvcs inport_index_frame(1) by blast

lemma spin_take_cases:
  assumes "spin_take vc idx (net, k) = Inr (net', k')"
  obtains rid p net1 u where
    "inport_index net (ss_router_id (gn_spinRing net ! idx)) (ring_dir net idx) = Inr (rid, p, net1)" "gn_input net1 rid p = Inr u"
    "net' = gn_map_stats (\<lambda>s. s\<lparr>st_bubble := st_bubble s + 1\<rparr>) (set_ring_flit (idx + 1) None net1) \<or>
     spin_take_flit vc idx rid (nat p) net1 = Inr net'"
  using assms by (auto simp: spin_take_def at_eq_Inr split: if_splits)

lemma spin_take_flit_cases:
  assumes "spin_take_flit vc idx rid p net = Inr net'"
  obtains i u f g where "upstream_update (ring_dir net idx) i
      (\<lambda>ou. bnd (ou_increment_credit (int vc) ou) (ou_set_vc_state IDLE (int vc) (gn_cycle net)))
      (gn_put_input rid p u (set_ring_flit (idx + 1) (Some f) (gn_map_stats g net))) = Inr net'"
  using assms unfolding spin_take_flit_def Let_def by (elim bnd_InrE) (auto elim!: bnd_InrE)

lemma spin_take_credit_inv:
  assumes "spin_take vc idx s = Inr s'" and "net_credit_inv (fst s)"
  shows "net_credit_inv (fst s')"
proof -
  obtain net k net' k' where s: "s = (net, k)" "s' = (net', k')" by fastforce
  from spin_take_cases [OF assms(1) [unfolded s]] obtain rid p net1 u where
    ii: "inport_index net (ss_router_id (gn_spinRing net ! idx)) (ring_dir net idx) = Inr (rid, p, net1)" and u: "gn_input net1 rid p = Inr u"
    and rest: "net' = gn_map_stats (\<lambda>s. s\<lparr>st_bubble := st_bubble s + 1\<rparr>) (set_ring_flit (idx + 1) None net1) \<or>
       spin_take_flit vc idx rid (nat p) net1 = Inr net'" .
  have i1: "net_credit_inv net1" using assms(2) s inport_index_outvcs [OF ii] by (simp add: net_credit_inv_def)
  have rid: "rid < length (gn_routers net1)" using u by (simp add: gn_input_Inr)
  from rest show ?thesis
  proof
    assume "spin_take_flit vc idx rid (nat p) net1 = Inr net'"
    then obtain i u f g where up: "upstream_update (ring_dir net1 idx) i
        (\<lambda>ou. bnd (ou_increment_credit (int vc) ou) (ou_set_vc_state IDLE (int vc) (gn_cycle net1)))
        (gn_put_input rid (nat p) u (set_ring_flit (idx + 1) (Some f) (gn_map_stats g net1))) = Inr net'"
      by (rule spin_take_flit_cases)
    have r: "rid < length (gn_routers (set_ring_flit (idx + 1) (Some f) (gn_map_stats g net1)))"
      using rid by (simp add: set_ring_flit_def)
    have "net_credit_inv (gn_put_input rid (nat p) u (set_ring_flit (idx + 1) (Some f) (gn_map_stats g net1)))"
      using i1 unfolding net_credit_inv_def put_input_outvcs [OF r] by simp
    then show ?thesis unfolding s fst_conv by (rule upstream_update_credit_inv [OF up]) (rule credit_then_state_inv(1))
  qed (use i1 s in \<open>simp add: net_credit_inv_def\<close>)
qed

lemma spin_insert_flit_cases:
  assumes "spin_insert_flit vc d rid p t net = Inr net'"
  obtains op net1 i u g where "outportCompute net rid (fl_route t) = Inr (op, net1)"
    "upstream_update d i (\<lambda>ou. bnd (ou_decrement_credit (int vc) ou) (ou_set_vc_state ACTIVE (int vc) (gn_cycle net1)))
       (gn_put_input rid p u (gn_map_stats g net1)) = Inr net'"
  using assms by (auto simp: spin_insert_flit_def Let_def)

lemma spin_insert_credit_inv:
  assumes "spin_insert vc idx s = Inr s'" and "net_credit_inv (fst s)"
  shows "net_credit_inv (fst s')"
proof -
  obtain net k net' k' where s: "s = (net, k)" "s' = (net', k')" by fastforce
  show ?thesis
  proof (cases "net' = net")
    case False
    with assms(1) s obtain t rid p net1 where
      ii: "inport_index net (ss_router_id (gn_spinRing net ! idx)) (ring_dir net idx) = Inr (rid, p, net1)"
      and si: "spin_insert_flit vc (ring_dir net idx) rid (nat p) t net1 = Inr net'"
      by (auto simp: spin_insert_def at_eq_Inr split: option.splits)
    from spin_insert_flit_cases [OF si] obtain op net2 i u g where oc: "outportCompute net1 rid (fl_route t) = Inr (op, net2)"
      and up: "upstream_update (ring_dir net idx) i
        (\<lambda>ou. bnd (ou_decrement_credit (int vc) ou) (ou_set_vc_state ACTIVE (int vc) (gn_cycle net2)))
        (gn_put_input rid (nat p) u (gn_map_stats g net2)) = Inr net'" .
    note rf = route_frame_outportCompute [OF oc]
    have "gn_outvcs net2 = gn_outvcs net" using route_frame_outvcs [OF rf] inport_index_outvcs [OF ii] by simp
    moreover have r: "rid < length (gn_routers (gn_map_stats g net2))"
      using inport_index_frame(1,3) [OF ii] route_frame_routers(1) rf by fastforce
    ultimately have "net_credit_inv (gn_put_input rid (nat p) u (gn_map_stats g net2))"
      using assms(2) s unfolding net_credit_inv_def put_input_outvcs [OF r] by simp
    then show ?thesis unfolding s fst_conv by (rule upstream_update_credit_inv [OF up]) (rule credit_then_state_inv(2))
  qed (use assms s in simp)
qed

lemma doSpin_credit_inv:
  assumes "doSpin vc net = Inr net'" and "net_credit_inv net"
  shows "net_credit_inv net'"
  using assms(1)
proof (rule doSpin_cases)
  fix net2 k
  assume t: "foldM (spin_take vc) [0..<ring_len net]
       (gn_map_stats (\<lambda>s. s\<lparr>st_total_spins := st_total_spins s + 1\<rparr>) net, 0) = Inr (net2, k)"
    and i: "foldM (spin_insert vc) [1..<length (gn_spinRing net)] (net2, int k) = Inr (net', 0)"
  have "net_credit_inv (fst (net2, k))"
    by (rule foldM_invariant [OF t, where I = "\<lambda>s. net_credit_inv (fst s)"])
      (use assms(2) spin_take_credit_inv in \<open>auto simp: net_credit_inv_def\<close>)
  then have "net_credit_inv (fst (net', 0 :: int))"
    by (intro foldM_invariant [OF i, where I = "\<lambda>s. net_credit_inv (fst s)"]) (auto intro: spin_insert_credit_inv)
  then show ?thesis by simp
qed

lemma set_flit_time_outvcs:
  assumes "set_flit_time vc net = Inr net'"
  shows "gn_outvcs net' = gn_outvcs net"
proof -
  from assms obtain rs where rs: "traverse (\<lambda>r. bnd (traverse (flit_time_inport vc (gn_cycle net) (nc_spin_mult (gn_config net)))
      (r_input_unit r)) (\<lambda>us. Inr (r\<lparr>r_input_unit := us\<rparr>))) (gn_routers net) = Inr rs" and net': "net' = net\<lparr>gn_routers := rs\<rparr>"
    by (auto simp: set_flit_time_def)
  have "map (\<lambda>r. map ou_outvc_state (r_output_unit r)) rs = map (\<lambda>r. map ou_outvc_state (r_output_unit r)) (gn_routers net)"
    by (rule traverse_map_same [OF rs]) auto
  then show ?thesis by (simp add: gn_outvcs_def net')
qed

lemma drain_rounds_credit_inv:
  assumes "drain_rounds r net = Inr net'" and "net_credit_inv net"
  shows "net_credit_inv net'"
proof -
  have one: "net_credit_inv b" if "count_and_spin v a = Inr b" "net_credit_inv a" for v a b
    using doSpin_credit_inv [of v _ b] that by (auto simp: count_and_spin_def net_credit_inv_def)
  have row: "net_credit_inv b" if "foldM count_and_spin vcs a = Inr b" "net_credit_inv a" for vcs a b
    using foldM_invariant [OF that(1), of net_credit_inv] that(2) one by blast
  have all: "net_credit_inv b" if "spin_rounds n vcs a = Inr b" "net_credit_inv a" for n vcs a b
    using foldM_invariant [of "\<lambda>_. foldM count_and_spin vcs" "[0..<n]" a b net_credit_inv] that row
    by (auto simp: spin_rounds_def)
  have "net_credit_inv (net\<lparr>gn_random := f\<rparr>)" for f using assms(2) by (simp add: net_credit_inv_alt)
  then show ?thesis using assms all
    by (auto simp: drain_rounds_def Let_def next_random_def split: if_splits)
qed

lemma iu_head_flit_outvcs:
  assumes "iu_head_flit rid p t net = Inr (t1, net1)"
  shows "gn_outvcs net1 = gn_outvcs net"
proof (cases "is_head t")
  case True
  with assms obtain u u1 op where u: "gn_input net rid (int p) = Inr u"
    and oc: "outportCompute (gn_put_input rid p u1 net) rid (fl_route t) = Inr (op, net1)"
    by (auto simp: iu_head_flit_def)
  have "rid < length (gn_routers net)" using u by (simp add: gn_input_Inr)
  then show ?thesis using route_frame_outvcs [OF route_frame_outportCompute [OF oc]] by simp
qed (use assms in \<open>auto simp: iu_head_flit_def\<close>)

lemma InputUnit_wakeup_outvcs:
  assumes "InputUnit_wakeup rid p net = Inr net'"
  shows "gn_outvcs net' = gn_outvcs net"
proof -
  have buf: "gn_outvcs b = gn_outvcs a" if "iu_buffer_flit rid p t a = Inr b" for a b t
  proof -
    from that obtain u u2 es where "gn_input a rid (int p) = Inr u" "b = schedule_events es (gn_put_input rid p u2 a)"
      by (auto simp: iu_buffer_flit_def Let_def split: if_splits)
    then show ?thesis by (simp add: gn_input_Inr)
  qed
  show ?thesis using assms
    by (auto simp: InputUnit_wakeup_def dest!: buf iu_head_flit_outvcs split: if_splits)
qed

interpretation inputs_out: conserved "InputUnit_wakeup rid" gn_outvcs for rid
  by unfold_locales (rule InputUnit_wakeup_outvcs)

interpretation flit_times_out: conserved set_flit_time gn_outvcs
  by unfold_locales (rule set_flit_time_outvcs)

lemma Router_read_credit_inv:
  assumes "Router_read_credit rid p net = Inr net'" and "net_credit_inv net"
  shows "net_credit_inv net'"
proof -
  from assms(1) obtain ou' cls cl cl' where r: "rid < length (gn_routers net)" and p: "p < length (r_output_unit (gn_routers net ! rid))"
    and w: "OutputUnit_wakeup (gn_cycle net) (r_output_unit (gn_routers net ! rid) ! p) cl = Inr (ou', cl')"
    and net': "net' = (put_router net rid ((gn_routers net ! rid)
      \<lparr>r_output_unit := (r_output_unit (gn_routers net ! rid))[p := ou']\<rparr>))\<lparr>gn_creditlinks := cls\<rparr>"
    by (auto simp: Router_read_credit_def get_router_def at_eq_Inr)
  let ?outs = "r_output_unit (gn_routers net ! rid)"
  have outs: "\<forall>u \<in> set ?outs. ou_inv u" using net_credit_inv_router [OF assms(2) r] .
  then have "ou_inv ou'" using OutputUnit_wakeup_inv [OF w] p by simp
  then have "\<forall>u \<in> set (?outs[p := ou']). ou_inv u" using outs set_update_subset_insert [of ?outs p ou'] by auto
  then have "net_credit_inv (put_router net rid ((gn_routers net ! rid)\<lparr>r_output_unit := ?outs[p := ou']\<rparr>))"
    by (intro put_router_credit_inv [OF assms(2)]) simp
  then show ?thesis by (simp add: net' net_credit_inv_def)
qed

lemma begin_halt_outvcs: "begin_halt rid net = Inr net' \<Longrightarrow> gn_outvcs net' = gn_outvcs net"
  by (auto simp: begin_halt_def Let_def split: if_splits)

lemma Router_spin_credit_inv:
  assumes "Router_spin rid net = Inr net'" and "net_credit_inv net"
  shows "net_credit_inv net'"
proof -
  have "net_credit_inv net'" if "end_halt rid net = Inr net'"
    using that
  proof (rule end_halt_cases)
    fix net2 net3
    let ?net1 = "set_halt False (put_router net rid ((gn_routers net ! rid)\<lparr>r_halt := True\<rparr>))"
    assume r: "rid < length (gn_routers net)" and d: "drain_rounds (gn_routers net ! rid) ?net1 = Inr net2"
      and f: "foldM set_flit_time (drain_vcs (gn_config net2) (gn_routers net ! rid)) net2 = Inr net3"
      and n: "net' = scheduleAll_wakeup (2 * nc_spin_mult (gn_config (gn_schedule_wakeup 3 (net3\<lparr>gn_lock := -1\<rparr>))))
       (gn_schedule_wakeup 3 (net3\<lparr>gn_lock := -1\<rparr>))"
    have "net_credit_inv (put_router net rid ((gn_routers net ! rid)\<lparr>r_halt := True\<rparr>))"
      using net_credit_inv_router [OF assms(2) r] by (intro put_router_credit_inv [OF assms(2)]) simp
    then have "net_credit_inv ?net1" by (simp add: net_credit_inv_def)
    then show ?thesis using drain_rounds_credit_inv [OF d] flit_times_out.loop_conserves [OF f] n
      by (simp add: net_credit_inv_def)
  qed
  moreover have "net_credit_inv net'" if "begin_halt rid net = Inr net'"
    using begin_halt_outvcs [OF that] assms(2) by (simp add: net_credit_inv_def)
  ultimately show ?thesis using assms by (auto simp: Router_spin_def Let_def split: if_splits)
qed

lemma xbar_inport_outvcs:
  assumes "xbar_inport now i cx = Inr cx'"
  shows "map ou_outvc_state (r_output_unit (rc_router cx')) = map ou_outvc_state (r_output_unit (rc_router cx))"
  using assms
  by (cases rule: xbar_inport_cases)
    (simp_all add: xbar_move_def Let_def ou_insert_flit_def map_update list_update_same_conv)

interpretation xbar_out: conserved "xbar_inport now" "\<lambda>cx. map ou_outvc_state (r_output_unit (rc_router cx))" for now
  by unfold_locales (rule xbar_inport_outvcs)

lemma Router_switch_credit_inv:
  assumes "Router_switch rid net = Inr net'" and "net_credit_inv net"
  shows "net_credit_inv net'"
proof -
  from assms(1) obtain cx1 cx2 where rid: "rid < length (gn_routers net)"
    and sa: "SwitchAllocator_wakeup (gn_config net) (gn_cycle net) \<lparr>rc_router = gn_routers net ! rid, rc_stats = gn_stats net, rc_events = []\<rparr> = Inr cx1"
    and xb: "CrossbarSwitch_wakeup (gn_cycle net) cx1 = Inr cx2"
    and net': "net' = schedule_events (rc_events cx2) ((put_router net rid (rc_router cx2))\<lparr>gn_stats := rc_stats cx2\<rparr>)"
    by (auto simp: Router_switch_def get_router_def at_eq_Inr)
  have outs: "\<forall>u \<in> set (r_output_unit (gn_routers net ! rid)). ou_inv u"
    using net_credit_inv_router [OF assms(2) rid] .
  have "\<forall>u \<in> set (r_output_unit (rc_router cx1)). ou_inv u"
  proof
    fix u assume "u \<in> set (r_output_unit (rc_router cx1))"
    then obtain q where q: "q < length (r_output_unit (rc_router cx1))" "u = r_output_unit (rc_router cx1) ! q"
      by (auto simp: in_set_conv_nth)
    have len: "length (r_output_unit (rc_router cx1)) = length (r_output_unit (gn_routers net ! rid))"
      using SwitchAllocator_outs_length [OF sa] by simp
    then have "ou_inv (r_output_unit (gn_routers net ! rid) ! q)" using outs q(1) by simp
    then show "ou_inv u" using SwitchAllocator_one_per_outport(3) [OF sa, of q] q len by simp
  qed
  then have "list_all (list_all credit_inv) (map ou_outvc_state (r_output_unit (rc_router cx1)))"
    by (simp add: list_all_iff ou_inv_def)
  then have "list_all (list_all credit_inv) (map ou_outvc_state (r_output_unit (rc_router cx2)))"
    using xbar_out.loop_conserves [OF xb [unfolded CrossbarSwitch_wakeup_def]] by simp
  then have "net_credit_inv (put_router net rid (rc_router cx2))"
    by (intro put_router_credit_inv [OF assms(2)]) (simp add: list_all_iff ou_inv_def)
  then show ?thesis by (simp add: net' net_credit_inv_def)
qed

lemma Router_wakeup_cases:
  assumes "Router_wakeup rid net = Inr net'"
  obtains net1 net2 net3 where
    "foldM (InputUnit_wakeup rid) [0..<length (r_input_unit (gn_routers net ! rid))] net = Inr net1"
    "foldM (Router_read_credit rid) [0..<length (r_output_unit (gn_routers net ! rid))] net1 = Inr net2"
    "Router_spin rid net2 = Inr net3" "Router_switch rid net3 = Inr net'"
  using assms by (auto simp: Router_wakeup_def get_router_def at_eq_Inr)

lemma Router_wakeup_credit_inv:
  assumes "Router_wakeup rid net = Inr net'" and "net_credit_inv net"
  shows "net_credit_inv net'"
proof -
  from assms(1) obtain net1 net2 net3 where
    i: "foldM (InputUnit_wakeup rid) [0..<length (r_input_unit (gn_routers net ! rid))] net = Inr net1"
    and o: "foldM (Router_read_credit rid) [0..<length (r_output_unit (gn_routers net ! rid))] net1 = Inr net2"
    and s: "Router_spin rid net2 = Inr net3" "Router_switch rid net3 = Inr net'"
    by (rule Router_wakeup_cases)
  have "net_credit_inv net1" using inputs_out.loop_conserves [OF i] assms(2) by (simp add: net_credit_inv_def)
  then have "net_credit_inv net2" by (rule foldM_invariant [OF o]) (rule Router_read_credit_inv)
  then show ?thesis using Router_switch_credit_inv [OF s(2)] Router_spin_credit_inv [OF s(1)] by blast
qed

lemma write_flit_queue_outvcs [simp]: "gn_outvcs (write_flit_queue q b net) = gn_outvcs net"
proof -
  have "map ou_outvc_state (count_up us p (\<lambda>u. u\<lparr>ou_out_buffer := b\<rparr>)) = map ou_outvc_state us" for us :: "output_unit list" and p
    by (simp add: map_count_up)
  then show ?thesis by (auto simp: write_flit_queue_def gn_outvcs_def map_count_up split: flit_queue_ref.splits)
qed

lemma write_credit_queue_outvcs [simp]: "gn_outvcs (write_credit_queue q b net) = gn_outvcs net"
  by (auto simp: write_credit_queue_def gn_outvcs_def map_count_up split: credit_queue_ref.splits)

lemma link_wakeup_outvcs:
  "NetworkLink_wakeup k net = Inr net' \<Longrightarrow> gn_outvcs net' = gn_outvcs net"
  "CreditLink_wakeup k net = Inr net' \<Longrightarrow> gn_outvcs net' = gn_outvcs net"
  by (auto simp: NetworkLink_wakeup_def CreditLink_wakeup_def split: option.splits)

lemma net_step_credit_inv: "net_step net net' \<Longrightarrow> net_credit_inv net \<Longrightarrow> net_credit_inv net'"
  by (erule net_stepE) (auto dest: Router_wakeup_credit_inv link_wakeup_outvcs simp: net_credit_inv_def)

end
