(* ===== verification/Halt_Protocol.thy ===== *)
theory Halt_Protocol
  imports Network_Steps
begin

text \<open>
  The protocol that surrounds a drain: at a multiple of the threshold the first router that wakes up
  halts all routers and takes the lock; later the first router that wakes up checks that the links
  are empty, drains, releases the lock and restarts all routers. Invariant of every reachable state:
  either the lock is free and no router is halted, or it is taken and all are.
\<close>

definition halt_state :: "garnet_network \<Rightarrow> bool list \<times> int" where
  "halt_state net = (map r_halt (gn_routers net), gn_lock net)"

definition halt_inv :: "garnet_network \<Rightarrow> bool" where
  "halt_inv net = (\<forall>h \<in> set (map r_halt (gn_routers net)). h = (gn_lock net \<noteq> -1))"

lemma halt_inv_state: "halt_state net' = halt_state net \<Longrightarrow> halt_inv net' = halt_inv net"
  by (simp add: halt_state_def halt_inv_def del: set_map)

section \<open>Steps that leave the protocol alone\<close>

lemma spin_frame_halt:
  assumes "spin_frame net net'"
  shows "halt_state net' = halt_state net"
proof -
  have "map r_halt (gn_routers net') = map r_halt (gn_routers net)"
    using spin_frame_router [OF assms] spin_frame_length [OF assms]
    by (intro nth_equalityI) (auto simp: router_rest_def)
  then show ?thesis using assms by (simp add: halt_state_def spin_frame_def)
qed

lemma schedule_one_halt: "halt_state (schedule_one e net) = halt_state net"
  by (auto simp: schedule_one_def halt_state_def map_count_up split: prod.splits consumer_ref.splits)

lemma schedule_events_halt [simp]: "halt_state (schedule_events es net) = halt_state net"
  unfolding schedule_events_def by (induction es arbitrary: net) (auto simp: schedule_one_halt)

lemma put_input_halt [simp]: "rid < length (gn_routers net) \<Longrightarrow> halt_state (gn_put_input rid p u net) = halt_state net"
  by (simp add: halt_state_def gn_put_input_def put_router_def Let_def map_update list_update_same_conv)

lemma net_fields_halt [simp]:
  "halt_state (net\<lparr>gn_networklinks := ls\<rparr>) = halt_state net" "halt_state (net\<lparr>gn_creditlinks := cs\<rparr>) = halt_state net"
  "halt_state (net\<lparr>gn_stats := s\<rparr>) = halt_state net" "halt_state (net\<lparr>gn_cycle := t\<rparr>) = halt_state net"
  "halt_state (net\<lparr>gn_random := f\<rparr>) = halt_state net" "halt_state (gn_map_stats g net) = halt_state net"
  by (simp_all add: halt_state_def)

lemma InputUnit_wakeup_halt:
  assumes "InputUnit_wakeup rid p net = Inr net'"
  shows "halt_state net' = halt_state net"
proof -
  have head: "halt_state b = halt_state a" if "iu_head_flit rid p t a = Inr (t1, b)" for a b t t1
  proof (cases "is_head t")
    case True
    with that obtain u u1 op where "gn_input a rid (int p) = Inr u"
      and oc: "outportCompute (gn_put_input rid p u1 a) rid (fl_route t) = Inr (op, b)" by (auto simp: iu_head_flit_def)
    then show ?thesis using spin_frame_halt [OF route_frame_spin_frame [OF route_frame_outportCompute [OF oc]]]
      by (simp add: gn_input_Inr)
  qed (use that in \<open>auto simp: iu_head_flit_def\<close>)
  have buf: "halt_state b = halt_state a" if "iu_buffer_flit rid p t a = Inr b" for a b t
  proof -
    from that obtain u u2 es where "gn_input a rid (int p) = Inr u" "b = schedule_events es (gn_put_input rid p u2 a)"
      by (auto simp: iu_buffer_flit_def Let_def split: if_splits)
    then show ?thesis by (simp add: gn_input_Inr)
  qed
  show ?thesis using assms by (auto simp: InputUnit_wakeup_def dest!: buf head split: if_splits)
qed

interpretation inputs_halt: conserved "InputUnit_wakeup rid" halt_state for rid
  by unfold_locales (rule InputUnit_wakeup_halt)

lemma put_router_halt:
  "rid < length (gn_routers net) \<Longrightarrow> r_halt r = r_halt (gn_routers net ! rid) \<Longrightarrow> halt_state (put_router net rid r) = halt_state net"
  by (simp add: halt_state_def put_router_def map_update list_update_same_conv)

interpretation credits_halt: conserved "Router_read_credit rid" halt_state for rid
  by unfold_locales (auto simp: Router_read_credit_def get_router_def at_eq_Inr intro!: put_router_halt)

interpretation spins_halt: conserved count_and_spin halt_state
  by unfold_locales (auto simp: count_and_spin_def dest!: doSpin_tags(2) spin_frame_halt)

interpretation rounds_halt: conserved "\<lambda>_ :: nat. foldM count_and_spin vcs" halt_state for vcs
  by unfold_locales (rule spins_halt.loop_conserves)

lemma drain_rounds_halt: "drain_rounds r net = Inr net' \<Longrightarrow> halt_state net' = halt_state net"
  by (auto simp: drain_rounds_def spin_rounds_def Let_def next_random_def dest!: rounds_halt.loop_conserves split: if_splits)

lemma set_flit_time_halt:
  assumes "set_flit_time vc net = Inr net'"
  shows "halt_state net' = halt_state net"
proof -
  from assms obtain rs where rs: "traverse (\<lambda>r. bnd (traverse (flit_time_inport vc (gn_cycle net) (nc_spin_mult (gn_config net)))
      (r_input_unit r)) (\<lambda>us. Inr (r\<lparr>r_input_unit := us\<rparr>))) (gn_routers net) = Inr rs" and net': "net' = net\<lparr>gn_routers := rs\<rparr>"
    by (auto simp: set_flit_time_def)
  have "map r_halt rs = map r_halt (gn_routers net)" by (rule traverse_map_same [OF rs]) auto
  then show ?thesis by (simp add: halt_state_def net')
qed

interpretation flit_times_halt: conserved set_flit_time halt_state
  by unfold_locales (rule set_flit_time_halt)

text \<open>Switch allocation and traversal do not touch the flag.\<close>

abbreviation cx_halt :: "router_ctx \<Rightarrow> bool" where
  "cx_halt cx \<equiv> r_halt (rc_router cx)"

lemma sa_small_halt:
  "sa_set_uturn inport invc b cx = Inr cx' \<Longrightarrow> cx_halt cx' = cx_halt cx"
  "disallow_uturn inport invc d cx = Inr cx' \<Longrightarrow> cx_halt cx' = cx_halt cx"
  "sa_return_credit C now inport invc f cx = Inr cx' \<Longrightarrow> cx_halt cx' = cx_halt cx"
  "vc_allocate now outport inport invc cx = Inr (v, cx') \<Longrightarrow> cx_halt cx' = cx_halt cx"
  "sa_send now outport inport invc outvc cx = Inr (f, cx') \<Longrightarrow> cx_halt cx' = cx_halt cx"
  by (auto simp: sa_set_uturn_def disallow_uturn_def sa_return_credit_def vc_allocate_def Let_def case_prod_beta
      elim!: sa_send_cases)

lemma sa_uturn_halt:
  "sa_uturn_won inport invc cx = Inr cx' \<Longrightarrow> cx_halt cx' = cx_halt cx"
  "sa_check_uturn C inport invc cx = Inr cx' \<Longrightarrow> cx_halt cx' = cx_halt cx"
  by (auto simp: sa_uturn_won_def sa_check_uturn_def Let_def dest!: sa_small_halt split: if_splits)

lemma sa_try_invc_halt: "sa_try_invc C now inport v cx = Inr (won, cx') \<Longrightarrow> cx_halt cx' = cx_halt cx"
  by (auto simp: sa_try_invc_def Let_def dest!: sa_uturn_halt split: if_splits)

lemma sa_scan_invcs_halt: "sa_scan_invcs C now inport vs cx = Inr cx' \<Longrightarrow> cx_halt cx' = cx_halt cx"
  by (induction vs arbitrary: cx) (auto dest!: sa_try_invc_halt split: if_splits)

lemma sa_scan_inports_halt: "sa_scan_inports C now outport ps cx = Inr cx' \<Longrightarrow> cx_halt cx' = cx_halt cx"
proof (induction ps)
  case (Cons p ps)
  have "cx_halt cx' = cx_halt cx" if "sa_grant C now outport p cx = Inr cx'"
    using that by (rule sa_grant_cases) (auto dest!: sa_small_halt sa_uturn_halt split: if_splits)
  then show ?case using Cons by (auto split: if_splits)
qed simp

interpretation sa_in_halt: conserved "sa_arbitrate_inport C now" cx_halt for C now
  by unfold_locales (auto simp: sa_arbitrate_inport_def dest: sa_scan_invcs_halt)

interpretation sa_out_halt: conserved "sa_arbitrate_outport C now" cx_halt for C now
  by unfold_locales (auto simp: sa_arbitrate_outport_def dest: sa_scan_inports_halt)

interpretation xbar_halt: conserved "xbar_inport now" cx_halt for now
  by unfold_locales (auto elim!: xbar_inport_cases simp: xbar_move_def Let_def case_prod_beta)

lemma Router_switch_halt:
  assumes "Router_switch rid net = Inr net'"
  shows "halt_state net' = halt_state net"
proof -
  from assms obtain cx1 cx2 where rid: "rid < length (gn_routers net)"
    and sa: "SwitchAllocator_wakeup (gn_config net) (gn_cycle net) \<lparr>rc_router = gn_routers net ! rid, rc_stats = gn_stats net, rc_events = []\<rparr> = Inr cx1"
    and xb: "CrossbarSwitch_wakeup (gn_cycle net) cx1 = Inr cx2"
    and net': "net' = schedule_events (rc_events cx2) ((put_router net rid (rc_router cx2))\<lparr>gn_stats := rc_stats cx2\<rparr>)"
    by (auto simp: Router_switch_def get_router_def at_eq_Inr)
  have "cx_halt cx1 = r_halt (gn_routers net ! rid)"
    using sa by (auto simp: SwitchAllocator_wakeup_def arbitrate_inports_def arbitrate_outports_def check_for_wakeup_def
        dest!: sa_in_halt.loop_conserves sa_out_halt.loop_conserves split: if_splits)
  then have "cx_halt cx2 = r_halt (gn_routers net ! rid)"
    using xbar_halt.loop_conserves [OF xb [unfolded CrossbarSwitch_wakeup_def]] by simp
  then show ?thesis using rid by (simp add: net' put_router_halt)
qed

lemma link_wakeup_halt:
  "NetworkLink_wakeup k net = Inr net' \<Longrightarrow> halt_state net' = halt_state net"
  "CreditLink_wakeup k net = Inr net' \<Longrightarrow> halt_state net' = halt_state net"
  by (auto simp: NetworkLink_wakeup_def CreditLink_wakeup_def write_flit_queue_def write_credit_queue_def halt_state_def
      map_count_up schedule_events_halt [unfolded halt_state_def prod.inject]
      split: option.splits flit_queue_ref.splits credit_queue_ref.splits)

section \<open>Halting and draining\<close>

lemma set_halt_inv:
  "halt_inv (scheduleAll_wakeup n (gn_schedule_wakeup m net)) = halt_inv net" "halt_inv (scheduleAll_wakeup n net) = halt_inv net"
  by (rule halt_inv_state; simp add: scheduleAll_wakeup_def gn_schedule_wakeup_def)+

lemma begin_halt_inv:
  assumes "begin_halt rid net = Inr net'" and "halt_inv net"
  shows "halt_inv net'" and "gn_lock net' \<noteq> -1"
proof -
  from assms(1) have rid: "rid < length (gn_routers net)" by (auto simp: begin_halt_def get_router_def at_eq_Inr)
  have "gn_lock net' \<noteq> -1 \<and> halt_inv net'"
  proof (cases "r_halt (gn_routers net ! rid)")
    case True
    then have "gn_lock net \<noteq> -1" using assms(2) rid by (auto simp: halt_inv_def)
    then show ?thesis using assms True rid by (simp add: begin_halt_def get_router_def)
  next
    case False
    let ?net1 = "scheduleAll_wakeup 3 (set_halt True net)"
    have h: "halt_state ?net1 = (map (\<lambda>_. True) (gn_routers net), gn_lock net)"
      by (simp add: scheduleAll_wakeup_def) (simp add: halt_state_def set_halt_def)
    have "gn_lock ?net1 = gn_lock net" using h by (simp add: halt_state_def)
    then have net': "net' = ?net1\<lparr>gn_lock := int (r_id (gn_routers net ! rid))\<rparr>"
      using assms(1) False rid by (auto simp: begin_halt_def get_router_def Let_def set_halt_def split: if_splits)
    then show ?thesis using h by (auto simp: halt_inv_def halt_state_def)
  qed
  then show "halt_inv net'" "gn_lock net' \<noteq> -1" by simp_all
qed

lemma end_halt_inv:
  assumes "end_halt rid net = Inr net'"
  shows "halt_inv net'" and "gn_lock net' = -1"
proof -
  have "halt_state net' = (map (\<lambda>_. False) (gn_routers net), -1)"
    using assms
  proof (rule end_halt_cases)
    fix net2 net3
    let ?net1 = "set_halt False (put_router net rid ((gn_routers net ! rid)\<lparr>r_halt := True\<rparr>))"
    assume r: "rid < length (gn_routers net)" and d: "drain_rounds (gn_routers net ! rid) ?net1 = Inr net2"
      and f: "foldM set_flit_time (drain_vcs (gn_config net2) (gn_routers net ! rid)) net2 = Inr net3"
      and n: "net' = scheduleAll_wakeup (2 * nc_spin_mult (gn_config (gn_schedule_wakeup 3 (net3\<lparr>gn_lock := -1\<rparr>))))
       (gn_schedule_wakeup 3 (net3\<lparr>gn_lock := -1\<rparr>))"
    have "map r_halt (gn_routers net3) = map r_halt (gn_routers ?net1)"
      using drain_rounds_halt [OF d] flit_times_halt.loop_conserves [OF f] by (simp add: halt_state_def)
    then have "map r_halt (gn_routers net3) = map (\<lambda>_. False) (gn_routers net)"
      using r by (auto simp: set_halt_def put_router_def intro!: nth_equalityI)
    then show ?thesis
      by (simp add: n scheduleAll_wakeup_def gn_schedule_wakeup_def) (simp add: halt_state_def)
  qed
  then show "halt_inv net'" "gn_lock net' = -1" by (auto simp: halt_inv_def halt_state_def)
qed

lemma Router_spin_halt_inv:
  assumes "Router_spin rid net = Inr net'" and "halt_inv net"
  shows "halt_inv net'"
  using assms begin_halt_inv(1) end_halt_inv(1) by (auto simp: Router_spin_def Let_def split: if_splits)

lemma Router_wakeup_halt_inv:
  assumes "Router_wakeup rid net = Inr net'" and "halt_inv net"
  shows "halt_inv net'"
  using assms(1)
proof (rule Router_wakeup_cases)
  fix net1 net2 net3
  assume i: "foldM (InputUnit_wakeup rid) [0..<length (r_input_unit (gn_routers net ! rid))] net = Inr net1"
    and o: "foldM (Router_read_credit rid) [0..<length (r_output_unit (gn_routers net ! rid))] net1 = Inr net2"
    and s: "Router_spin rid net2 = Inr net3" "Router_switch rid net3 = Inr net'"
  have "halt_inv net2"
    using inputs_halt.loop_conserves [OF i] credits_halt.loop_conserves [OF o] assms(2) halt_inv_state by metis
  then show ?thesis using Router_spin_halt_inv [OF s(1)] halt_inv_state [OF Router_switch_halt [OF s(2)]] by simp
qed

lemma net_step_halt_inv: "net_step net net' \<Longrightarrow> halt_inv net \<Longrightarrow> halt_inv net'"
  by (erule net_stepE) (auto dest: Router_wakeup_halt_inv link_wakeup_halt [THEN halt_inv_state] simp: halt_inv_def)

lemma net_steps_halt_inv: "net_step\<^sup>*\<^sup>* net net' \<Longrightarrow> halt_inv net \<Longrightarrow> halt_inv net'"
  by (induction rule: rtranclp_induct) (auto dest: net_step_halt_inv)

section \<open>A drain needs empty links\<close>

lemma link_state_fold:
  assumes "foldM (link_state_outport net r) ps safe = Inr True"
  shows "safe \<and> (\<forall>p \<in> set ps. ou_out_link (r_output_unit r ! p) < length (gn_networklinks net) \<and>
    isEmpty (nl_linkBuffer (gn_networklinks net ! ou_out_link (r_output_unit r ! p))))"
  using assms
proof (induction ps arbitrary: safe)
  case (Cons p ps)
  then obtain safe1 where 1: "link_state_outport net r p safe = Inr safe1" "foldM (link_state_outport net r) ps safe1 = Inr True"
    by auto
  then show ?case using Cons.IH [OF 1(2)] by (auto simp: link_state_outport_def Let_def at_eq_Inr split: if_splits)
qed simp

lemma link_state_routers:
  assumes "foldM (\<lambda>r safe. foldM (link_state_outport net r) [0..<length (r_output_unit r)] safe) rs safe = Inr True"
  shows "safe \<and> (\<forall>r \<in> set rs. \<forall>p < length (r_output_unit r). ou_out_link (r_output_unit r ! p) < length (gn_networklinks net) \<and>
      isEmpty (nl_linkBuffer (gn_networklinks net ! ou_out_link (r_output_unit r ! p))))"
  using assms
proof (induction rs arbitrary: safe)
  case (Cons r rs)
  then obtain safe1 where 1: "foldM (link_state_outport net r) [0..<length (r_output_unit r)] safe = Inr safe1"
    "foldM (\<lambda>r safe. foldM (link_state_outport net r) [0..<length (r_output_unit r)] safe) rs safe1 = Inr True"
    by auto
  note 2 = Cons.IH [OF 1(2)]
  then have "safe1" by simp
  with 1(1) have "foldM (link_state_outport net r) [0..<length (r_output_unit r)] safe = Inr True" by simp
  from link_state_fold [OF this] 2 show ?case by simp
qed simp

lemma chck_link_state_True:
  assumes "chck_link_state net = Inr True" and "r \<in> set (gn_routers net)" and "u \<in> set (r_output_unit r)"
  shows "ou_out_link u < length (gn_networklinks net)" and "isEmpty (nl_linkBuffer (gn_networklinks net ! ou_out_link u))"
proof -
  from assms(3) obtain p where p: "p < length (r_output_unit r)" "u = r_output_unit r ! p" by (auto simp: in_set_conv_nth)
  from link_state_routers [OF assms(1) [unfolded chck_link_state_def]] assms(2) p
  show "ou_out_link u < length (gn_networklinks net)" "isEmpty (nl_linkBuffer (gn_networklinks net ! ou_out_link u))"
    by simp_all
qed

lemma end_halt_links_empty:
  assumes "end_halt rid net = Inr net'" and "r \<in> set (gn_routers net)" and "u \<in> set (r_output_unit r)"
  shows "ou_out_link u < length (gn_networklinks net) \<and> isEmpty (nl_linkBuffer (gn_networklinks net ! ou_out_link u))"
  using assms(1)
proof (rule end_halt_cases)
  fix net2 net3
  let ?net1 = "set_halt False (put_router net rid ((gn_routers net ! rid)\<lparr>r_halt := True\<rparr>))"
  assume rid: "rid < length (gn_routers net)" and c: "chck_link_state ?net1 = Inr True"
  from assms(2) obtain i where i: "i < length (gn_routers net)" "r = gn_routers net ! i" by (auto simp: in_set_conv_nth)
  have l: "i < length (gn_routers ?net1)" using i by (simp add: set_halt_def put_router_def)
  have "r_output_unit (gn_routers ?net1 ! i) = r_output_unit r"
    using i rid by (cases "i = rid") (simp_all add: set_halt_def put_router_def)
  then have u: "u \<in> set (r_output_unit (gn_routers ?net1 ! i))" using assms(3) by simp
  have n: "gn_networklinks ?net1 = gn_networklinks net" by (simp add: set_halt_def put_router_def)
  from chck_link_state_True [OF c nth_mem [OF l] u] show ?thesis unfolding n by simp
qed

end
