(* ===== verification/Mesh_Example.thy ===== *)
theory Mesh_Example
  imports Halt_Protocol
begin

text \<open>
  A concrete network on which the statements of the development are instantiated: two routers in a
  row, one network interface each, built with the constructors of the model (\<open>Router_new\<close>,
  \<open>makeExtInLink\<close>, \<open>makeExtOutLink\<close>, \<open>makeInternalLink\<close>, \<open>Router_init\<close>) and with the drain ring read from
  the configuration text \<open>1 W\<close>. One virtual network with one channel, one machine type with two
  machines, table routing.
\<close>

definition ex_machines :: machine_types where
  "ex_machines = \<lparr>mt_num = 1, mt_base_level = (\<lambda>i. i), mt_base_count = (\<lambda>_. 2),
     mt_base_number = (\<lambda>i. 2 * i), mt_from_base_level = (\<lambda>i. i)\<rparr>"

definition ex_dest :: "nat list \<Rightarrow> net_dest" where
  "ex_dest ns = \<lparr>nd_bits = [\<lparr>set_size = 2, set_bits = fold set_bit ns 0\<rparr>]\<rparr>"

definition ex_route :: "nat \<Rightarrow> nat \<Rightarrow> RouteInfo" where
  "ex_route s d = \<lparr>ri_vnet = 0, ri_net_dest = ex_dest [d], ri_src_ni = int s, ri_src_router = int s,
     ri_dest_ni = int d, ri_dest_router = int d, ri_hops_traversed = -1\<rparr>"

text \<open>An object before its constructor runs.\<close>

definition ex_raw_flit :: flit where
  "ex_raw_flit = \<lparr>fl_marked = False, fl_request_uturn = False, fl_hops_needed_before_spin = 0,
     fl_hops_needed_after_spin = 0, fl_id = 0, fl_vnet = 0, fl_vc = 0, fl_route = ex_route 0 0, fl_size = 0,
     fl_enqueue_time = 0, fl_dequeue_time = 0, fl_time = 0, fl_type = HEAD, fl_msg_ptr = None, fl_outport = 0,
     fl_outport_dir = [], fl_src_delay = 0, fl_stage = (I_stage, 0)\<rparr>"

definition ex_flit :: "nat \<Rightarrow> nat \<Rightarrow> nat \<Rightarrow> flit" where
  "ex_flit m s d = flit_new ex_raw_flit 0 0 0 (ex_route s d) 1 (Some m) 0 False"

definition ex_credit :: credit where
  "ex_credit = flit.extend ex_raw_flit \<lparr>cr_is_free_signal = False\<rparr>"

definition ex_config :: "int \<Rightarrow> garnet_config" where
  "ex_config algorithm = \<lparr>nc_num_rows = 1, nc_num_cols = 2, nc_vcs_per_vnet = 1, nc_virtual_networks = 1,
     nc_buffers_per_data_vc = 4, nc_buffers_per_ctrl_vc = 1, nc_routing_algorithm = algorithm,
     nc_vnet_type = [CTRL_VNET], nc_ordered = [False], nc_spin = True, nc_spin_thrshld = 10,
     nc_spin_mult = 1, nc_drain_all_vc = 0, nc_uTurn_crossbar = 1, nc_fresh_credit = ex_credit\<rparr>"

definition ex_raw_input :: input_unit where
  "ex_raw_input = \<lparr>iu_id = 0, iu_direction = [], iu_num_vcs = 0, iu_vc_per_vnet = 0, iu_in_link = 0,
     iu_credit_link = 0, iu_creditQueue = flitBuffer_new, iu_num_buffer_writes = [], iu_num_buffer_reads = [],
     iu_vcs = []\<rparr>"

definition ex_raw_output :: output_unit where
  "ex_raw_output = \<lparr>ou_id = 0, ou_direction = [], ou_num_vcs = 0, ou_vc_per_vnet = 0, ou_out_link = 0,
     ou_credit_link = 0, ou_out_buffer = flitBuffer_new, ou_outvc_state = []\<rparr>"

definition ex_raw_router :: router where
  "ex_raw_router = \<lparr>r_id = 0, r_latency = 0, r_virtual_networks = 0, r_num_vcs = 0, r_vc_per_vnet = 0,
     r_halt = False, r_mrkd_flt = 0, r_routing_unit = RoutingUnit_new, r_input_unit = [], r_output_unit = [],
     r_sw_alloc = \<lparr>sa_num_inports = 0, sa_num_outports = 0, sa_num_vcs = 0, sa_vc_per_vnet = 0,
       sa_input_arbiter_activity = 0, sa_output_arbiter_activity = 0, sa_requested_uturn = False,
       sa_round_robin_invc = [], sa_round_robin_inport = [], sa_port_requests = [], sa_vc_winners = []\<rparr>,
     r_switch = \<lparr>cs_num_vcs = 0, cs_num_inports = 0, cs_crossbar_activity = 0, cs_switch_buffer = []\<rparr>,
     r_wakeups = []\<rparr>"

definition ex_ni :: "nat \<Rightarrow> network_interface" where
  "ex_ni i = \<lparr>ni_id = i, ni_virtual_networks = 1, ni_vc_per_vnet = 1, ni_num_vcs = 1, ni_router_id = -1,
     ni_out_vc_state = [], ni_vc_allocator = [0], ni_vc_round_robin = 0, ni_outFlitQueue = flitBuffer_new,
     ni_outCreditQueue = flitBuffer_new, ni_deadlock_threshold = 50000, ni_inNetLink = 0, ni_outNetLink = 0,
     ni_inCreditLink = 0, ni_outCreditLink = 0, ni_stall_queue = [], ni_stall_count = [0],
     ni_out_vcs = [flitBuffer_new], ni_out_vcs_enqueue_time = [INFINITE], ni_vc_busy_counter = [0],
     ni_wakeups = []\<rparr>"

definition ex_stats :: net_stats where
  "ex_stats = \<lparr>st_total_uturn_request = 0, st_success_uturn = 0, st_total_misroute = 0, st_total_spins = 0,
     st_fwd_progress = 0, st_misroute = 0, st_bubble = 0, st_num_drain = 0\<rparr>"

definition ex_unlinked :: "int \<Rightarrow> spinStruct list \<Rightarrow> garnet_network" where
  "ex_unlinked algorithm ring = \<lparr>gn_config = ex_config algorithm,
     gn_routers = map (\<lambda>i. Router_new ex_raw_router i 1 1 1 0) [0, 1], gn_nis = map ex_ni [0, 1],
     gn_networklinks = [], gn_creditlinks = [], gn_lock = -1, gn_spinRing = ring, gn_stats = ex_stats,
     gn_cycle = 0, gn_random = (\<lambda>_. 0), gn_wakeups = []\<rparr>"

definition ex_ext :: "nat \<Rightarrow> garnet_network \<Rightarrow> garnet_network res" where
  "ex_ext i net =
     bnd (makeExtInLink ex_raw_input i i (NetworkLink_new 0 1 1 1) (NetworkLink_new 0 1 1 1) net)
       (makeExtOutLink ex_raw_output i i (NetworkLink_new 0 1 1 1) (NetworkLink_new 0 1 1 1) (ex_dest [i]) 1)"

definition ex_int :: "nat \<Rightarrow> nat \<Rightarrow> port_direction \<Rightarrow> port_direction \<Rightarrow> garnet_network \<Rightarrow> garnet_network res" where
  "ex_int s d out_dirn in_dirn net =
     makeInternalLink ex_raw_input ex_raw_output s d (NetworkLink_new 0 1 1 1) (NetworkLink_new 0 1 1 1)
       (ex_dest [d]) 1 out_dirn in_dirn net"

definition ex_mesh :: "int \<Rightarrow> garnet_network res" where
  "ex_mesh algorithm =
     bnd (init_spinRing 1 (Some ''1 W'')) (\<lambda>ring.
     bnd (foldM ex_ext [0, 1] (ex_unlinked algorithm ring)) (\<lambda>net1.
     bnd (ex_int 0 1 ''East'' ''West'' net1) (\<lambda>net2.
     bnd (ex_int 1 0 ''West'' ''East'' net2) (\<lambda>net3.
     Inr (net3\<lparr>gn_routers := map Router_init (gn_routers net3)\<rparr>)))))"

text \<open>
  The same network written out, as a function of what the witnesses vary: the cycle, the lock, the
  halt flags, the channel of every port between the routers and the upstream view of it.
\<close>

definition ex_in :: "nat \<Rightarrow> port_direction \<Rightarrow> nat \<Rightarrow> virtual_channel \<Rightarrow> input_unit" where
  "ex_in i dirn k v = \<lparr>iu_id = i, iu_direction = dirn, iu_num_vcs = 1, iu_vc_per_vnet = 1, iu_in_link = k,
     iu_credit_link = k, iu_creditQueue = flitBuffer_new, iu_num_buffer_writes = [0], iu_num_buffer_reads = [0],
     iu_vcs = [v]\<rparr>"

definition ex_out :: "nat \<Rightarrow> port_direction \<Rightarrow> nat \<Rightarrow> out_vc_state \<Rightarrow> output_unit" where
  "ex_out i dirn k s = \<lparr>ou_id = i, ou_direction = dirn, ou_num_vcs = 1, ou_vc_per_vnet = 1, ou_out_link = k,
     ou_credit_link = k, ou_out_buffer = flitBuffer_new, ou_outvc_state = [s]\<rparr>"

definition ex_router ::
    "nat \<Rightarrow> nat \<Rightarrow> port_direction \<Rightarrow> nat \<Rightarrow> nat \<Rightarrow> bool \<Rightarrow> virtual_channel \<Rightarrow> out_vc_state \<Rightarrow> cycles list \<Rightarrow> router" where
  "ex_router i other dirn k_in k_out halt v s ws = \<lparr>r_id = i, r_latency = 1, r_virtual_networks = 1, r_num_vcs = 1,
     r_vc_per_vnet = 1, r_halt = halt, r_mrkd_flt = 0,
     r_routing_unit = \<lparr>ru_inports_dirn2idx = [''Local'' \<mapsto> 0, dirn \<mapsto> 1],
       ru_inports_idx2dirn = [0 \<mapsto> ''Local'', 1 \<mapsto> dirn], ru_outports_idx2dirn = [0 \<mapsto> ''Local'', 1 \<mapsto> dirn],
       ru_outports_dirn2idx = [''Local'' \<mapsto> 0, dirn \<mapsto> 1],
       ru_routing_table = [ex_dest [i], ex_dest [other]], ru_weight_table = [1, 1]\<rparr>,
     r_input_unit = [ex_in 0 ''Local'' (2 * i) (VirtualChannel_new 0), ex_in 1 dirn k_in v],
     r_output_unit = [ex_out 0 ''Local'' (2 * i + 1) \<lparr>ovc_id = 0, ovc_time = 0, ovc_vc_state = IDLE,
         ovc_credit_count = 1, ovc_max_credit_count = 1\<rparr>, ex_out 1 dirn k_out s],
     r_sw_alloc = \<lparr>sa_num_inports = 2, sa_num_outports = 2, sa_num_vcs = 1, sa_vc_per_vnet = 1,
       sa_input_arbiter_activity = 0, sa_output_arbiter_activity = 0, sa_requested_uturn = False,
       sa_round_robin_invc = [0, 0], sa_round_robin_inport = [0, 0],
       sa_port_requests = [[False, False], [False, False]], sa_vc_winners = [[0, 0], [0, 0]]\<rparr>,
     r_switch = \<lparr>cs_num_vcs = 1, cs_num_inports = 2, cs_crossbar_activity = 0,
       cs_switch_buffer = [flitBuffer_new, flitBuffer_new]\<rparr>,
     r_wakeups = ws\<rparr>"

definition ex_link :: "link_type \<Rightarrow> consumer_ref \<Rightarrow> 'q \<Rightarrow> 'f flit_buffer \<Rightarrow> ('f, 'q) network_link" where
  "ex_link ty c q b = \<lparr>nl_linkBuffer = b, nl_id = 0, nl_type = ty, nl_latency = 1, nl_consumer = Some c,
     nl_srcQueue = Some q, nl_link_utilized = 0, nl_vc_load = [0], nl_wakeups = []\<rparr>"

definition ex_ovc :: "bool \<Rightarrow> out_vc_state" where
  "ex_ovc free = \<lparr>ovc_id = 0, ovc_time = 0, ovc_vc_state = (if free then IDLE else ACTIVE),
     ovc_credit_count = (if free then 1 else 0), ovc_max_credit_count = 1\<rparr>"

text \<open>A channel that holds a packet that was routed at cycle 0 and the empty channel.\<close>

definition ex_held :: "port_direction \<Rightarrow> int \<Rightarrow> flit \<Rightarrow> virtual_channel" where
  "ex_held dirn p f = vc_set_active 0 (vc_insertFlit
     (advance_stage SA_stage 0 (set_outport_dir dirn (set_outport p f))) (VirtualChannel_new 0))"

definition ex_vc :: "port_direction \<Rightarrow> int \<Rightarrow> flit option \<Rightarrow> virtual_channel" where
  "ex_vc dirn p fo = (case fo of None \<Rightarrow> VirtualChannel_new 0 | Some f \<Rightarrow> ex_held dirn p f)"

definition ex_net :: "int \<Rightarrow> cycles \<Rightarrow> int \<Rightarrow> bool \<Rightarrow> flit option \<Rightarrow> flit option \<Rightarrow> garnet_network" where
  "ex_net algorithm now lock halt f0 f1 = \<lparr>gn_config = ex_config algorithm,
     gn_routers = [ex_router 0 1 ''East'' 5 4 halt (ex_vc ''East'' 1 f0) (ex_ovc (f1 = None)) [now],
                   ex_router 1 0 ''West'' 4 5 halt (ex_vc ''West'' 1 f1) (ex_ovc (f0 = None)) [now]],
     gn_nis = map (\<lambda>i. (ex_ni i)\<lparr>ni_router_id := int i, ni_inNetLink := 2 * i + 1, ni_outNetLink := 2 * i,
                      ni_inCreditLink := 2 * i, ni_outCreditLink := 2 * i + 1\<rparr>) [0, 1],
     gn_networklinks =
       [ex_link EXT_IN (RouterConsumer 0) (NIOut 0) flitBuffer_new,
        ex_link EXT_OUT (NIConsumer 0) (RouterOut 0 0) flitBuffer_new,
        ex_link EXT_IN (RouterConsumer 1) (NIOut 1) flitBuffer_new,
        ex_link EXT_OUT (NIConsumer 1) (RouterOut 1 0) flitBuffer_new,
        ex_link INT_link (RouterConsumer 1) (RouterOut 0 1) flitBuffer_new,
        ex_link INT_link (RouterConsumer 0) (RouterOut 1 1) flitBuffer_new],
     gn_creditlinks =
       [ex_link NUM_LINK_TYPES (NIConsumer 0) (RouterCredit 0 0) flitBuffer_new,
        ex_link NUM_LINK_TYPES (RouterConsumer 0) (NICredit 0) flitBuffer_new,
        ex_link NUM_LINK_TYPES (NIConsumer 1) (RouterCredit 1 0) flitBuffer_new,
        ex_link NUM_LINK_TYPES (RouterConsumer 1) (NICredit 1) flitBuffer_new,
        ex_link NUM_LINK_TYPES (RouterConsumer 0) (RouterCredit 1 1) flitBuffer_new,
        ex_link NUM_LINK_TYPES (RouterConsumer 1) (RouterCredit 0 1) flitBuffer_new],
     gn_lock = lock,
     gn_spinRing = [spinStruct_new 0 ''East'', spinStruct_new 1 ''West'', spinStruct_new 0 ''East''],
     gn_stats = ex_stats, gn_cycle = now, gn_random = (\<lambda>_. 0), gn_wakeups = []\<rparr>"

lemmas ex_defs = ex_mesh_def ex_ext_def ex_int_def ex_unlinked_def ex_raw_router_def ex_raw_input_def
  ex_raw_output_def ex_ni_def ex_config_def ex_net_def ex_router_def ex_in_def ex_out_def ex_link_def ex_ovc_def ex_vc_def

lemmas construction = makeExtInLink_def makeExtOutLink_def makeInternalLink_def push_links_def Router_addInPort_def
  Router_addOutPort_def NI_addInPort_def NI_addOutPort_def map_credit_link_def map_flit_link_def count_up_def
  NetworkLink_new_def setLinkConsumer_def setSourceQueue_def get_router_def put_router_def Router_new_def
  RoutingUnit_new_def SwitchAllocator_new_def CrossbarSwitch_new_def InputUnit_new_def OutputUnit_new_def
  OutVcState_new_def at_def VirtualChannel_new_def get_vnet_type_def Router_init_def SwitchAllocator_init_def
  CrossbarSwitch_init_def addRoute_def addWeight_def addInDirection_def addOutDirection_def flitBuffer_new_def
  assert_that_def resize_def

lemma bnd_weak_cong: "m = m' \<Longrightarrow> bnd m f = bnd m' f"
  by simp

lemma push_up_0: "push_up gt xs 0 v = xs[0 := v]"
  by (subst push_up.simps) simp

lemma ex_ring: "init_spinRing 1 (Some ''1 W'')
  = Inr [spinStruct_new 0 ''East'', spinStruct_new 1 ''West'', spinStruct_new 0 ''East'']"
  by code_simp

text \<open>The constructors build the network that is written out above, empty and with no wakeup scheduled.\<close>

lemma ex_mesh_built:
  "ex_mesh algorithm = Inr (let net = ex_net algorithm 0 (-1) False None None in
     net\<lparr>gn_routers := map (\<lambda>r. r\<lparr>r_wakeups := []\<rparr>) (gn_routers net)\<rparr>)"
  by (simp add: ex_defs construction ex_ring upt_rec numeral_2_eq_2 Let_def cong: bnd_weak_cong)

end
