(* ===== verification/Component_Properties.thy ===== *)
theory Component_Properties
  imports Mesh_Example
begin

text \<open>
  What the components of a router guarantee, stated over the operations of the model, each with an
  instance on the network of \<open>Mesh_Example\<close>: the assertions on
  credits, and routing.
\<close>

section \<open>Credits\<close>

theorem credit_assertions_exact_witness:
  "\<exists>s. OutVcState_new (ex_config 0) 0 = Inr s \<and>
    (\<exists>s'. foldM ovc_apply [OvcDecrement, OvcIncrement] s = Inr s') \<and>
    \<not> (\<exists>s'. foldM ovc_apply [OvcDecrement, OvcDecrement] s = Inr s')"
proof -
  obtain s where s: "OutVcState_new (ex_config 0) 0 = Inr s" "ovc_max_credit_count s = 1"
    by (simp add: OutVcState_new_def ex_config_def get_vnet_type_def at_def Let_def)
  then show ?thesis
    using credit_assertions_exact [OF s(1), of "[OvcDecrement, OvcIncrement]"]
      credit_assertions_exact [OF s(1), of "[OvcDecrement, OvcDecrement]"] by simp
qed

section \<open>Routing\<close>

text \<open>
  C22. Every mesh algorithm (XY, random, adaptive random, west-first, adaptive west-first) is minimal: the
  port that \<open>outportCompute\<close> returns at a router other than the destination belongs to a direction in which
  the neighbour lies inside the mesh and is exactly one hop closer to the destination.
\<close>

theorem outportCompute_minimal:
  assumes "outportCompute net rid route = Inr (p, net')"
    and "nc_routing_algorithm (gn_config net) \<in> {1..5}" and "rid < length (gn_routers net)"
    and far: "ri_dest_router route \<noteq> int (r_id (gn_routers net ! rid))"
    and mesh: "in_mesh (gn_config net) (int (r_id (gn_routers net ! rid)))" "in_mesh (gn_config net) (ri_dest_router route)"
    and "mesh_delta_of (gn_config net) (int (r_id (gn_routers net ! rid))) (ri_dest_router route) = Inr d"
    and "knows_outports (gn_routers net ! rid) d"
  shows "\<exists>dirn n. ru_outports_dirn2idx (r_routing_unit (gn_routers net ! rid)) dirn = Some p \<and>
    get_upstreamId (gn_config net) dirn (int (r_id (gn_routers net ! rid))) = Inr n \<and> in_mesh (gn_config net) n \<and>
    compute_hops_remaining (gn_config net) n (ri_dest_router route) =
      compute_hops_remaining (gn_config net) (int (r_id (gn_routers net ! rid))) (ri_dest_router route) - 1"
proof -
  from outportCompute_productive [OF assms(1-4) assms(7,8)] obtain dirn where
    d: "dirn \<in> productive d" "ru_outports_dirn2idx (r_routing_unit (gn_routers net ! rid)) dirn = Some p" by blast
  with productive_step [OF mesh assms(7) d(1)] show ?thesis by blast
qed

text \<open>
  XY, random and west-first routing always produce a port: at a router inside the mesh, for another
  router inside the mesh, \<open>outportCompute\<close> returns the port of some direction and no assertion fails, as
  long as no direction map holds -1.
\<close>

lemma outportCompute_returns:
  assumes alg: "nc_routing_algorithm (gn_config net) \<in> {1, 2, 4}" and rid: "rid < length (gn_routers net)"
    and far: "ri_dest_router route \<noteq> int (r_id (gn_routers net ! rid))"
    and mesh: "in_mesh (gn_config net) (int (r_id (gn_routers net ! rid)))" "in_mesh (gn_config net) (ri_dest_router route)"
    and ports: "-1 \<notin> ran (ru_outports_dirn2idx (r_routing_unit (gn_routers net ! rid)))"
  shows "\<exists>p net'. outportCompute net rid route = Inr (p, net')"
proof -
  obtain d where d: "mesh_delta_of (gn_config net) (int (r_id (gn_routers net ! rid))) (ri_dest_router route) = Inr d"
    using mesh_delta_of_defined [OF mesh] far by metis
  have port: "\<exists>p net'. bnd (outport_of_dirn (net\<lparr>gn_random := s\<rparr>) rid dirn)
      (\<lambda>(outport, net'). bnd (assert_that (outport \<noteq> -1)) (\<lambda>_. Inr (outport, net'))) = Inr (p, net')" for s dirn
    using rid ports by (auto simp: outport_of_dirn_def get_router_def at_def map_index_def ran_def assert_that_def split: option.splits)
  obtain xh yh xd yd where dd: "d = (xh, yh, xd, yd)" by (cases d) auto
  have "net\<lparr>gn_random := gn_random net\<rparr> = net" by simp
  then show ?thesis using alg far rid d dd port port [of "gn_random net"]
    by (auto simp: outportCompute_def routing_algorithm_of_def get_router_def at_def mesh_delta_at_def next_random_def
        outportComputeXY_def outportComputeRandom_def outportComputeWestFirst_def Let_def
        simp del: XY_dirn.simps random_dirn.simps west_first_dirn.simps)
qed

lemmas mesh_eval = ex_defs in_mesh_def mesh_delta_of_def signed_divide_int_def signed_modulo_int_def
  compute_hops_remaining_def knows_outports_def outportCompute_def outportComputeXY_def mesh_delta_at_def
  routing_algorithm_of_def outport_of_dirn_def map_index_def get_router_def at_def ex_route_def

theorem outportCompute_minimal_witness:
  "\<exists>p net'. outportCompute (ex_net 1 0 (-1) False None None) 0 (ex_route 0 1) = Inr (p, net') \<and>
    (\<exists>dirn n. ru_outports_dirn2idx (r_routing_unit (gn_routers (ex_net 1 0 (-1) False None None) ! 0)) dirn = Some p \<and>
       get_upstreamId (ex_config 1) dirn 0 = Inr n \<and> in_mesh (ex_config 1) n \<and>
       compute_hops_remaining (ex_config 1) n 1 = compute_hops_remaining (ex_config 1) 0 1 - 1)"
proof -
  let ?net = "ex_net 1 0 (-1) False None None"
  obtain p net' where o: "outportCompute ?net 0 (ex_route 0 1) = Inr (p, net')"
    by (simp add: mesh_eval Let_def cong: bnd_weak_cong)
  have h: "nc_routing_algorithm (gn_config ?net) \<in> {1..5}" "0 < length (gn_routers ?net)"
      "ri_dest_router (ex_route 0 1) \<noteq> int (r_id (gn_routers ?net ! 0))"
      "in_mesh (gn_config ?net) (int (r_id (gn_routers ?net ! 0)))" "in_mesh (gn_config ?net) (ri_dest_router (ex_route 0 1))"
      "mesh_delta_of (gn_config ?net) (int (r_id (gn_routers ?net ! 0))) (ri_dest_router (ex_route 0 1)) = Inr (1, 0, True, True)"
      "knows_outports (gn_routers ?net ! 0) (1, 0, True, True)"
    by (simp_all add: mesh_eval)
  have e: "gn_config ?net = ex_config 1" "int (r_id (gn_routers ?net ! 0)) = 0" "ri_dest_router (ex_route 0 1) = 1"
    by (simp_all add: ex_net_def ex_router_def ex_route_def)
  from outportCompute_minimal [OF o h] o show ?thesis unfolding e by blast
qed

lemma outportCompute_returns_witness:
  "\<exists>p net'. outportCompute (ex_net 4 0 (-1) False None None) 1 (ex_route 1 0) = Inr (p, net')"
  by (rule outportCompute_returns) (auto simp: mesh_eval ran_def)

text \<open>
  C23. Following the directions of any of the mesh algorithms, whatever random numbers and free channel
  counts each hop sees, a packet is at its destination after exactly as many hops as the distance.
\<close>

theorem mesh_routes_arrive:
  assumes "in_mesh C a" "in_mesh C b"
    and "pick \<in> {\<lambda>k. XY_dirn, \<lambda>k. random_dirn (rnd k), \<lambda>k. adapt_rand_dirn (fx k) (fy k) (rnd k),
      \<lambda>k. west_first_dirn (rnd k), \<lambda>k. adapt_west_first_dirn (fx k) (fy k) (rnd k)}"
  shows "route_walk pick C (nat (compute_hops_remaining C a b)) a b = Inr b"
  using assms(3) xy.walk_arrives [OF assms(1,2)] rndm.walk_arrives [OF assms(1,2)] adapt.walk_arrives [OF assms(1,2)]
    wf.walk_arrives [OF assms(1,2)] awf.walk_arrives [OF assms(1,2)] by auto

theorem mesh_routes_arrive_witness: "route_walk (\<lambda>k. XY_dirn) (ex_config 1) 1 0 1 = Inr 1"
  using mesh_routes_arrive [of "ex_config 1" 0 1 "\<lambda>k. XY_dirn"]
  by (simp add: in_mesh_def ex_config_def compute_hops_remaining_def signed_divide_int_def signed_modulo_int_def)

text \<open>
  C24. Table routing: the output link that \<open>lookupRoutingTable\<close> returns leads to the destination, no link
  that leads there is lighter, and among the lightest ones it has the most free output channels of the
  packet's virtual network, the first in port order if several have as many.
\<close>

theorem lookupRoutingTable_best:
  assumes "table_ok ru dest" and "lookupRoutingTable now ru outs vnet dest = Inr link"
  shows "\<exists>j free. link = int (best_links ru dest ! j) \<and> j < length (best_links ru dest) \<and>
    leads_to ru dest (nat link) \<and>
    (\<forall>k < length (ru_routing_table ru). leads_to ru dest k \<longrightarrow> ru_weight_table ru ! nat link \<le> ru_weight_table ru ! k) \<and>
    (\<forall>k < length (best_links ru dest). ou_getNumFreeVCs now (nat vnet) (outs ! (best_links ru dest ! k)) = Inr (free ! k) \<and>
       free ! k \<le> free ! j \<and> (k < j \<longrightarrow> free ! k < free ! j))"
proof -
  from lookupRoutingTable_spec [OF assms] obtain j free where
    j: "link = int (best_links ru dest ! j)" "j < length (best_links ru dest)" "length free = length (best_links ru dest)"
      "\<forall>k < length free. best_links ru dest ! k < length outs \<and>
         ou_getNumFreeVCs now (nat vnet) (outs ! (best_links ru dest ! k)) = Inr (free ! k)"
      "\<forall>k < length free. free ! k \<le> free ! j" "\<forall>k < j. free ! k < free ! j" by blast
  from j(2) have "best_links ru dest ! j \<in> set (best_links ru dest)" by (rule nth_mem)
  then have "leads_to ru dest (nat link) \<and> (\<forall>k < length (ru_routing_table ru). leads_to ru dest k \<longrightarrow>
      ru_weight_table ru ! nat link \<le> ru_weight_table ru ! k)"
    using j(1) by (simp add: best_links_def)
  then show ?thesis using j by (intro exI [of _ j] exI [of _ free]) simp
qed

theorem lookupRoutingTable_best_witness:
  "\<exists>link. lookupRoutingTable 0 (r_routing_unit (ex_router 0 1 ''East'' 5 4 False (VirtualChannel_new 0) (ex_ovc True) []))
       (r_output_unit (ex_router 0 1 ''East'' 5 4 False (VirtualChannel_new 0) (ex_ovc True) [])) 0 (ex_dest [1]) = Inr link \<and>
     leads_to (r_routing_unit (ex_router 0 1 ''East'' 5 4 False (VirtualChannel_new 0) (ex_ovc True) [])) (ex_dest [1]) (nat link)"
proof -
  let ?r = "ex_router 0 1 ''East'' 5 4 False (VirtualChannel_new 0) (ex_ovc True) []"
  have t: "table_ok (r_routing_unit ?r) (ex_dest [1])" by (simp add: table_ok_def ex_router_def ex_dest_def)
  obtain link where l: "lookupRoutingTable 0 (r_routing_unit ?r) (r_output_unit ?r) 0 (ex_dest [1]) = Inr link"
    by (simp add: lookupRoutingTable_def lookupRoutingTable_pref_outport_def min_weight_step_def candidate_step_def
        NetDest_intersectionIsNotEmpty_def Set_intersectionIsEmpty_def ex_defs ex_dest_def at_def INFINITE_def
        ou_getNumFreeVCs_def vnet_vcs_def ou_is_vc_idle_def ovc_isInState_def upt_rec numeral_2_eq_2 Let_def cong: bnd_weak_cong)
  from lookupRoutingTable_best [OF t l] l show ?thesis by blast
qed

end
