(* ===== verification/Switch_Total.thy ===== *)
theory Switch_Total
  imports Switch_Correct
begin

text \<open>
  The first stage of switch allocation returns and misses no candidate. In a router whose tables have the sizes that
  \<open>init\<close> gives them, whose channels hold at most one flit, as a packet has one flit, and whose idle output channels have
  a credit, no assertion of the first stage fails; every input port asks for at most one output port, the channel it puts
  forward could be granted that port, and an input port that holds a flit which may be sent does ask for one.
\<close>

section \<open>Routers that are ready for allocation\<close>

definition chan_ready :: "cycles \<Rightarrow> virtual_channel \<Rightarrow> bool" where
  "chan_ready now v \<longleftrightarrow> length (fb_buffer (vc_input_buffer v)) \<le> 1 \<and> vc_output_vc v = -1 \<and> vc_output_port v = -1 \<and>
     (fb_buffer (vc_input_buffer v) \<noteq> [] \<longrightarrow> fst (vc_state v) = ACTIVE \<and> snd (vc_state v) \<le> now)"

definition in_ready :: "nat \<Rightarrow> cycles \<Rightarrow> input_unit \<Rightarrow> bool" where
  "in_ready n now u \<longleftrightarrow> length (iu_vcs u) = n \<and> (\<forall>v \<in> set (iu_vcs u). chan_ready now v)"

definition out_ready :: "nat \<Rightarrow> nat \<Rightarrow> output_unit \<Rightarrow> bool" where
  "out_ready n vpv u \<longleftrightarrow> length (ou_outvc_state u) = n \<and> ou_vc_per_vnet u = vpv \<and>
     (\<forall>s \<in> set (ou_outvc_state u). ovc_vc_state s = IDLE \<longrightarrow> 0 < ovc_credit_count s)"

definition sa_sizes_ok :: "switch_allocator \<Rightarrow> bool" where
  "sa_sizes_ok s \<longleftrightarrow> length (sa_round_robin_invc s) = sa_num_inports s \<and> (\<forall>x \<in> set (sa_round_robin_invc s). x < sa_num_vcs s) \<and>
     length (sa_round_robin_inport s) = sa_num_outports s \<and> (\<forall>x \<in> set (sa_round_robin_inport s). x < sa_num_inports s) \<and>
     requests_ok s \<and> length (sa_vc_winners s) = sa_num_outports s \<and> (\<forall>row \<in> set (sa_vc_winners s). length row = sa_num_inports s)"

definition router_ready :: "garnet_config \<Rightarrow> cycles \<Rightarrow> router \<Rightarrow> bool" where
  "router_ready C now r \<longleftrightarrow>
     (let s = r_sw_alloc r in
      sa_sizes_ok s \<and> 0 < sa_vc_per_vnet s \<and> sa_num_vcs s = r_virtual_networks r * sa_vc_per_vnet s \<and>
      r_virtual_networks r \<le> length (nc_ordered C) \<and> length (r_input_unit r) = sa_num_inports s \<and>
      length (r_output_unit r) = sa_num_outports s \<and> length (cs_switch_buffer (r_switch r)) = sa_num_inports s \<and>
      (\<forall>u \<in> set (r_input_unit r). in_ready (sa_num_vcs s) now u) \<and>
      (\<forall>u \<in> set (r_output_unit r). out_ready (sa_num_vcs s) (sa_vc_per_vnet s) u))"

lemma router_readyD:
  assumes "router_ready C now r"
  shows "sa_sizes_ok (r_sw_alloc r)" "0 < sa_vc_per_vnet (r_sw_alloc r)"
    "sa_num_vcs (r_sw_alloc r) = r_virtual_networks r * sa_vc_per_vnet (r_sw_alloc r)" "r_virtual_networks r \<le> length (nc_ordered C)"
    "length (r_input_unit r) = sa_num_inports (r_sw_alloc r)" "length (r_output_unit r) = sa_num_outports (r_sw_alloc r)"
    "length (cs_switch_buffer (r_switch r)) = sa_num_inports (r_sw_alloc r)"
    "i < length (r_input_unit r) \<Longrightarrow> in_ready (sa_num_vcs (r_sw_alloc r)) now (r_input_unit r ! i)"
    "p < length (r_output_unit r) \<Longrightarrow> out_ready (sa_num_vcs (r_sw_alloc r)) (sa_vc_per_vnet (r_sw_alloc r)) (r_output_unit r ! p)"
  using assms nth_mem unfolding router_ready_def Let_def by blast+

text \<open>
  A flit that is routed has an output port of the router; where u-turns are deflected, it either makes none or there is
  a port to the side.
\<close>

definition flit_routed :: "garnet_config \<Rightarrow> router \<Rightarrow> input_unit \<Rightarrow> flit \<Rightarrow> bool" where
  "flit_routed C r u f \<longleftrightarrow> is_tail f \<and> 0 \<le> fl_outport f \<and> nat (fl_outport f) < length (r_output_unit r) \<and>
     (nc_uTurn_crossbar C = 0 \<and> sa_is_uturn u f \<longrightarrow>
        (\<exists>p d. first_outport (ru_outports_dirn2idx (r_routing_unit r)) (uturn_targets (iu_direction u)) = Inr (p, d) \<and>
           0 \<le> p \<and> nat p < length (r_output_unit r)))"

definition flits_routed :: "garnet_config \<Rightarrow> router \<Rightarrow> bool" where
  "flits_routed C r \<longleftrightarrow> (\<forall>u \<in> set (r_input_unit r). \<forall>v \<in> set (iu_vcs u). \<forall>f \<in> set (fb_buffer (vc_input_buffer v)). flit_routed C r u f)"

section \<open>Single calls\<close>

text \<open>The unit with \<open>f\<close> as the only flit of channel \<open>w\<close>.\<close>

definition put_top :: "nat \<Rightarrow> flit \<Rightarrow> input_unit \<Rightarrow> input_unit" where
  "put_top w f u = u\<lparr>iu_vcs := (iu_vcs u)[w := (iu_vcs u ! w)\<lparr>vc_input_buffer := (vc_input_buffer (iu_vcs u ! w))\<lparr>fb_buffer := [f]\<rparr>\<rparr>]\<rparr>"

abbreviation chan_flits :: "input_unit \<Rightarrow> nat \<Rightarrow> flit list" where
  "chan_flits u w \<equiv> fb_buffer (vc_input_buffer (iu_vcs u ! w))"

lemma put_top_simps [simp]:
  "length (iu_vcs (put_top w f u)) = length (iu_vcs u)" "iu_direction (put_top w f u) = iu_direction u"
  "w < length (iu_vcs u) \<Longrightarrow> chan_flits (put_top w f u) w = [f]"
  "w < length (iu_vcs u) \<Longrightarrow> put_top w g (put_top w f u) = put_top w g u"
  by (simp_all add: put_top_def)

lemma put_top_same: "w < length (iu_vcs u) \<Longrightarrow> chan_flits u w = [f] \<Longrightarrow> put_top w f u = u"
  by (simp add: put_top_def list_update_same_conv)

lemma modify_top: "w < length (iu_vcs u) \<Longrightarrow> chan_flits u w = [f] \<Longrightarrow> iu_modify u (int w) (vc_update_top g) = Inr (put_top w (g f) u)"
  by (simp add: iu_modify_Inr vc_update_top_def update_top_def put_top_def)

lemma peek_top: "w < length (iu_vcs u) \<Longrightarrow> chan_flits u w = [f] \<Longrightarrow> iu_peekTopFlit u (int w) = Inr f"
  by (simp add: iu_peekTopFlit_def iu_read_def at_def vc_peekTopFlit_def peekTopFlit_def assert_that_def)

lemma put_top_ready: "in_ready n now u \<Longrightarrow> w < n \<Longrightarrow> chan_flits u w = [f] \<Longrightarrow> in_ready n now (put_top w g u)"
  by (auto simp: in_ready_def put_top_def chan_ready_def dest!: set_update_subset_insert [THEN subsetD])

lemma vc_need_stage_ready:
  assumes "chan_ready now v" and "now \<le> t"
  shows "vc_need_stage st t v = Inr (case fb_buffer (vc_input_buffer v) of [] \<Rightarrow> False | f # _ \<Rightarrow> fl_time f \<le> t \<and> is_stage f st t)"
  using assms by (auto simp: vc_need_stage_def isReady_def chan_ready_def assert_that_def peekTopFlit_def split: list.splits)

lemma need_stage_ready:
  assumes "in_ready n now u" and "w < n" and "now \<le> t"
  shows "iu_need_stage u (int w) st t = Inr (case chan_flits u w of [] \<Rightarrow> False | f # _ \<Rightarrow> fl_time f \<le> t \<and> is_stage f st t)"
  using assms vc_need_stage_ready [of now "iu_vcs u ! w" t st] by (auto simp: iu_need_stage_def iu_read_def at_def in_ready_def)

lemma ready_single: "in_ready n now u \<Longrightarrow> w < n \<Longrightarrow> chan_flits u w \<noteq> [] \<Longrightarrow> \<exists>f. chan_flits u w = [f]"
  by (cases "chan_flits u w") (force simp: in_ready_def chan_ready_def dest: nth_mem)+

lemma scan_idle_ready:
  assumes "\<forall>v \<in> set vs. v < length (ou_outvc_state u)"
  shows "\<exists>x. ou_scan_idle u now vs = Inr x \<and> (\<forall>v. x = Some v \<longrightarrow> v \<in> set vs \<and> ovc_isInState (ou_outvc_state u ! v) IDLE now)"
  using assms by (induction vs) (auto simp: ou_is_vc_idle_def at_def)

lemma vnet_range:
  assumes "w < m * k" and "0 < (k :: nat)"
  shows "w div k < m" and "\<forall>v \<in> set (vnet_vcs k (w div k)). v < m * k"
proof -
  show d: "w div k < m" using assms by (simp add: less_mult_imp_div_less)
  then have "w div k * k + k \<le> m * k" by (metis Suc_leI add.commute mult_Suc mult_le_mono1)
  then show "\<forall>v \<in> set (vnet_vcs k (w div k)). v < m * k" by (auto simp: vnet_vcs_def)
qed

lemma free_vc_ready:
  assumes "out_ready (m * k) k u" and "w < m * k" and "0 < k"
  shows "\<exists>b. ou_has_free_vc now (w div k) u = Inr b"
  using scan_idle_ready [of "vnet_vcs k (w div k)" u now] vnet_range(2) [OF assms(2,3)] assms(1)
  by (auto simp: ou_has_free_vc_def out_ready_def)

text \<open>Condition (3) of \<open>send_allowed\<close> is evaluated without an error.\<close>

lemma older_request_ready:
  assumes "in_ready n now u" and "\<forall>w \<in> set ws. w < n"
  shows "\<exists>b. sa_older_request now u p t ws = Inr b"
  using assms(2)
proof (induction ws)
  case (Cons w ws)
  have "\<exists>b. iu_need_stage u (int w) SA_stage now = Inr b" using need_stage_ready [OF assms(1), of w now SA_stage] Cons.prems by auto
  moreover have "\<exists>p. iu_get_outport u (int w) = Inr p" "\<exists>t. iu_get_enqueue_time u (int w) = Inr t"
    using assms(1) Cons.prems by (simp_all add: iu_get_outport_def iu_get_enqueue_time_def iu_read_def at_def in_ready_def)
  ultimately show ?case using Cons by auto
qed auto

lemma send_allowed_ready:
  assumes "router_ready C now r" and i: "i < length (r_input_unit r)" and w: "w < sa_num_vcs (r_sw_alloc r)"
    and p: "0 \<le> p" "nat p < length (r_output_unit r)"
  shows "\<exists>b. send_allowed C now r i w p (-1) = Inr b \<and>
    ou_has_free_vc now (w div sa_vc_per_vnet (r_sw_alloc r)) (r_output_unit r ! nat p) = Inr b"
proof -
  let ?s = "r_sw_alloc r" let ?k = "sa_vc_per_vnet ?s" let ?vn = "w div ?k"
  note r = router_readyD(2-4) [OF assms(1)] router_readyD(8) [OF assms(1) i] router_readyD(9) [OF assms(1) p(2)]
  note v = vnet_range [OF w [unfolded r(2)] r(1)]
  have vn: "sa_get_vnet r w = Inr ?vn" using r(1) v(1) by (simp add: sa_get_vnet_def assert_that_def Let_def)
  obtain b where b: "ou_has_free_vc now ?vn (r_output_unit r ! nat p) = Inr b"
    using free_vc_ready [OF r(5) [unfolded r(2)] w [unfolded r(2)] r(1)] by blast
  have "\<exists>t. iu_get_enqueue_time (r_input_unit r ! i) (int w) = Inr t"
    using r(4) w by (simp add: iu_get_enqueue_time_def iu_read_def at_def in_ready_def)
  moreover have o: "\<exists>c. sa_older_request now (r_input_unit r ! i) p t (vnet_vcs ?k ?vn) = Inr c" for t
    using older_request_ready [OF r(4)] v(2) r(2) by simp
  have "no_vc_outport (r_input_unit r ! i)"
    using r(4) by (simp add: no_vc_outport_def in_ready_def chan_ready_def list_all_iff)
  then have "sa_older_request now (r_input_unit r ! i) p t (vnet_vcs ?k ?vn) = Inr False" for t
    using o [of t] sa_older_request_False [OF _ p(1)] by fastforce
  ultimately have "send_allowed C now r i w p (-1) = Inr b"
    using vn b p i v(1) r(3) by (cases b) (auto simp: send_allowed_def at_def isVNetOrdered_def nat_less_iff)
  with b show ?thesis by blast
qed

section \<open>First stage\<close>

text \<open>The context with other input ports and other statistics.\<close>

definition with_inputs :: "router_ctx \<Rightarrow> input_unit list \<Rightarrow> net_stats \<Rightarrow> router_ctx" where
  "with_inputs cx us st = cx\<lparr>rc_router := (rc_router cx)\<lparr>r_input_unit := us\<rparr>, rc_stats := st\<rparr>"

lemma with_inputs_simps [simp]:
  "rc_router (with_inputs cx us st) = (rc_router cx)\<lparr>r_input_unit := us\<rparr>" "rc_events (with_inputs cx us st) = rc_events cx"
  "rc_put_input i u (with_inputs cx us st) = with_inputs cx (us[i := u]) st" "rc_map_stats g (with_inputs cx us st) = with_inputs cx us (g st)"
  by (simp_all add: with_inputs_def rc_put_input_def rc_map_stats_def)

lemma with_inputs_same: "with_inputs cx (r_input_unit (rc_router cx)) (rc_stats cx) = cx"
  by (simp add: with_inputs_def)

lemma set_uturn_ready:
  assumes "i < length us" and "w < length (iu_vcs (us ! i))" and "chan_flits (us ! i) w = [f]"
  shows "sa_set_uturn i w b (with_inputs cx us st) = Inr (with_inputs cx (us[i := put_top w (f\<lparr>fl_request_uturn := b\<rparr>) (us ! i)]) st)"
  using assms by (simp add: sa_set_uturn_def rc_input_def at_def peek_top modify_top)

lemma first_outport_in: "first_outport m ds = Inr (p, d) \<Longrightarrow> d \<in> set ds"
  by (induction ds) (auto split: option.splits)

lemma uturn_targets_turn: "d \<in> set (uturn_targets x) \<Longrightarrow> d \<noteq> x"
  unfolding uturn_targets_def by (cases "x = ''East'' \<or> x = ''West''"; cases "x = ''North'' \<or> x = ''South''") force+

lemma disallow_ready:
  assumes "i < length us" and "w < length (iu_vcs (us ! i))" and "chan_flits (us ! i) w = [f]"
    and "first_outport (ru_outports_dirn2idx (r_routing_unit (rc_router cx))) (uturn_targets x) = Inr (p, d)" and "0 \<le> p"
  shows "disallow_uturn i w x (with_inputs cx us st) =
    Inr (with_inputs cx (us[i := put_top w (set_outport_dir d (set_outport p f)) (us ! i)]) (st\<lparr>st_total_misroute := st_total_misroute st + 1\<rparr>))"
  using assms by (simp add: disallow_uturn_def rc_input_def at_def peek_top modify_top Let_def assert_that_def)

lemma check_uturn_ready:
  fixes cx
  defines "r \<equiv> rc_router cx" and "us \<equiv> r_input_unit (rc_router cx)"
  assumes i: "i < length us" and w: "w < length (iu_vcs (us ! i))" and f: "chan_flits (us ! i) w = [f]"
    and routed: "flit_routed C r (us ! i) f"
  shows "\<exists>f' st. sa_check_uturn C i w cx = Inr (with_inputs cx (us[i := put_top w f' (us ! i)]) st) \<and>
    flit_routed C r (us ! i) f' \<and> (sa_is_uturn (us ! i) f' \<longrightarrow> fl_request_uturn f') \<and> fl_time f' = fl_time f \<and> fl_stage f' = fl_stage f \<and>
    (nc_uTurn_crossbar C \<noteq> 0 \<or> \<not> sa_is_uturn (us ! i) f \<longrightarrow> fl_outport f' = fl_outport f)"
proof -
  let ?u = "us ! i" let ?f1 = "f\<lparr>fl_request_uturn := False\<rparr>" let ?f2 = "f\<lparr>fl_request_uturn := True\<rparr>"
  let ?us = "\<lambda>g. us[i := put_top w g ?u]"
  have 1: "sa_set_uturn i w False cx = Inr (with_inputs cx (?us ?f1) (rc_stats cx))"
    using set_uturn_ready [OF i w f, of False cx "rc_stats cx"] by (simp add: us_def with_inputs_same)
  have 2: "sa_set_uturn i w True (with_inputs cx (?us ?f1) st) = Inr (with_inputs cx (?us ?f2) st)" for st
    using set_uturn_ready [of i "?us ?f1" w ?f1 True cx st] i w by simp
  have p: "rc_input (with_inputs cx (?us ?f1) st) i = Inr (put_top w ?f1 ?u)" "iu_peekTopFlit (put_top w ?f1 ?u) (int w) = Inr ?f1" for st
    using i w by (simp_all add: rc_input_def at_def peek_top)
  have t: "sa_is_uturn (put_top w g ?u) h = sa_is_uturn ?u h" for g h by (simp add: sa_is_uturn_def)
  have t12: "sa_is_uturn ?u ?f1 = sa_is_uturn ?u f" "sa_is_uturn ?u ?f2 = sa_is_uturn ?u f" by (simp_all add: sa_is_uturn_def)
  have rt: "flit_routed C r ?u ?f1" "flit_routed C r ?u ?f2" using routed by (simp_all add: flit_routed_def t12 is_tail_def)
  consider (straight) "\<not> sa_is_uturn ?u f" | (turn) "sa_is_uturn ?u f" "nc_uTurn_crossbar C \<noteq> 0" | (deflect) "sa_is_uturn ?u f" "nc_uTurn_crossbar C = 0"
    by blast
  then show ?thesis
  proof cases
    case straight
    then show ?thesis using rt(1) 
      by (intro exI [of _ ?f1] exI [of _ "rc_stats cx"]) (simp add: sa_check_uturn_def 1 p t t12)
  next
    case turn
    then show ?thesis using rt(2) 
      by (intro exI [of _ ?f2] exI [of _ "(rc_stats cx)\<lparr>st_total_uturn_request := st_total_uturn_request (rc_stats cx) + 1\<rparr>"])
        (simp add: sa_check_uturn_def 1 2 p t t12 Let_def)
  next
    case deflect
    then obtain q d where q: "first_outport (ru_outports_dirn2idx (r_routing_unit r)) (uturn_targets (iu_direction ?u)) = Inr (q, d)"
      "0 \<le> q" "nat q < length (r_output_unit r)" using routed by (auto simp: flit_routed_def)
    let ?f3 = "set_outport_dir d (set_outport q ?f2)"
    have "d \<noteq> iu_direction ?u" using first_outport_in [OF q(1)] uturn_targets_turn by blast
    then have n: "\<not> sa_is_uturn ?u ?f3" by (simp add: sa_is_uturn_def flit_setters)
    have 3: "disallow_uturn i w (iu_direction ?u) (with_inputs cx (?us ?f2) st) =
        Inr (with_inputs cx (?us ?f3) (st\<lparr>st_total_misroute := st_total_misroute st + 1\<rparr>))" for st
      using disallow_ready [of i "?us ?f2" w ?f2 cx "iu_direction ?u" q d st] i w q(1,2) by (simp add: r_def)
    have "flit_routed C r ?u ?f3" using routed n q by (simp add: flit_routed_def is_tail_def flit_setters)
    then show ?thesis using deflect n
      by (intro exI [of _ ?f3] exI [of _ "(rc_stats cx)\<lparr>st_total_uturn_request := st_total_uturn_request (rc_stats cx) + 1,
          st_total_misroute := st_total_misroute (rc_stats cx) + 1\<rparr>"]) (simp add: sa_check_uturn_def 1 2 3 p t t12 Let_def flit_setters)
  qed
qed

text \<open>A channel that can be granted output port \<open>p\<close>.\<close>

definition sendable :: "cycles \<Rightarrow> router \<Rightarrow> nat \<Rightarrow> nat \<Rightarrow> nat \<Rightarrow> bool" where
  "sendable now r p i w \<longleftrightarrow> w < sa_num_vcs (r_sw_alloc r) \<and>
     (\<exists>f. chan_flits (r_input_unit r ! i) w = [f] \<and> fl_time f \<le> now \<and> (sa_is_uturn (r_input_unit r ! i) f \<longrightarrow> fl_request_uturn f)) \<and>
     ou_has_free_vc now (w div sa_vc_per_vnet (r_sw_alloc r)) (r_output_unit r ! p) = Inr True"

text \<open>A channel whose flit is ready and, unless it is deflected, may be sent.\<close>

definition wants :: "garnet_config \<Rightarrow> cycles \<Rightarrow> router \<Rightarrow> nat \<Rightarrow> nat \<Rightarrow> bool" where
  "wants C now r i w \<longleftrightarrow> w < sa_num_vcs (r_sw_alloc r) \<and>
     (\<exists>f. chan_flits (r_input_unit r ! i) w = [f] \<and> fl_time f \<le> now \<and> is_stage f SA_stage now \<and>
        (nc_uTurn_crossbar C \<noteq> 0 \<or> \<not> sa_is_uturn (r_input_unit r ! i) f) \<and>
        ou_has_free_vc now (w div sa_vc_per_vnet (r_sw_alloc r)) (r_output_unit r ! nat (fl_outport f)) = Inr True)"

text \<open>What the first stage leaves alone.\<close>

definition stage1_frame :: "nat \<Rightarrow> router \<Rightarrow> router \<Rightarrow> bool" where
  "stage1_frame i r r' \<longleftrightarrow> r_output_unit r' = r_output_unit r \<and> r_switch r' = r_switch r \<and> r_halt r' = r_halt r \<and>
     length (r_input_unit r') = length (r_input_unit r) \<and> (\<forall>j. j \<noteq> i \<longrightarrow> r_input_unit r' ! j = r_input_unit r ! j) \<and>
     sa_num_vcs (r_sw_alloc r') = sa_num_vcs (r_sw_alloc r) \<and> sa_vc_per_vnet (r_sw_alloc r') = sa_vc_per_vnet (r_sw_alloc r)"

definition requested :: "router \<Rightarrow> nat \<Rightarrow> nat \<Rightarrow> bool" where
  "requested r p i \<longleftrightarrow> p < length (r_output_unit r) \<and> i < length (r_input_unit r) \<and> sa_port_requests (r_sw_alloc r) ! p ! i"

abbreviation winner :: "router \<Rightarrow> nat \<Rightarrow> nat \<Rightarrow> nat" where
  "winner r p i \<equiv> sa_vc_winners (r_sw_alloc r) ! p ! i"

lemma with_put_top_ready:
  assumes "router_ready C now r" and "flits_routed C r" and i: "i < length (r_input_unit r)" and w: "w < sa_num_vcs (r_sw_alloc r)"
    and f: "chan_flits (r_input_unit r ! i) w = [f]" and f': "flit_routed C r (r_input_unit r ! i) f'"
  shows "router_ready C now (r\<lparr>r_input_unit := (r_input_unit r)[i := put_top w f' (r_input_unit r ! i)]\<rparr>)"
    and "flits_routed C (r\<lparr>r_input_unit := (r_input_unit r)[i := put_top w f' (r_input_unit r ! i)]\<rparr>)"
proof -
  let ?u = "r_input_unit r ! i" let ?u' = "put_top w f' ?u"
  have u: "in_ready (sa_num_vcs (r_sw_alloc r)) now ?u" by (rule router_readyD(8) [OF assms(1) i])
  have "in_ready (sa_num_vcs (r_sw_alloc r)) now ?u'" by (rule put_top_ready [OF u w f])
  then show "router_ready C now (r\<lparr>r_input_unit := (r_input_unit r)[i := ?u']\<rparr>)"
    using assms(1) by (auto simp: router_ready_def Let_def dest!: set_update_subset_insert [THEN subsetD])
  have fr: "flit_routed C (r\<lparr>r_input_unit := us\<rparr>) x g = flit_routed C r y g" if "iu_direction x = iu_direction y" for us x y g
    using that by (simp add: flit_routed_def sa_is_uturn_def)
  have new: "flit_routed C r ?u g" if "v \<in> set (iu_vcs ?u')" "g \<in> set (fb_buffer (vc_input_buffer v))" for v g
    using that f' assms(2) i by (auto simp: put_top_def flits_routed_def dest!: set_update_subset_insert [THEN subsetD])
  show "flits_routed C (r\<lparr>r_input_unit := (r_input_unit r)[i := ?u']\<rparr>)"
    unfolding flits_routed_def
  proof (intro ballI)
    fix x v g assume a: "x \<in> set (r_input_unit (r\<lparr>r_input_unit := (r_input_unit r)[i := ?u']\<rparr>))" "v \<in> set (iu_vcs x)"
      "g \<in> set (fb_buffer (vc_input_buffer v))"
    then have "x = ?u' \<or> x \<in> set (r_input_unit r)" using set_update_subset_insert [of "r_input_unit r" i ?u'] by auto
    then show "flit_routed C (r\<lparr>r_input_unit := (r_input_unit r)[i := ?u']\<rparr>) x g"
      using a(2,3) new fr [of ?u' ?u] fr [of x x] assms(2) unfolding flits_routed_def by (metis put_top_simps(2))
  qed
qed

lemma request_ready:
  assumes "sa_sizes_ok s" and "p < sa_num_outports s" and "i < sa_num_inports s" and "w < sa_num_vcs s"
  shows "\<exists>s'. sa_request p i w s = Inr s' \<and> sa_sizes_ok s' \<and> sa_port_requests s' = (sa_port_requests s)[p := (sa_port_requests s ! p)[i := True]] \<and>
    sa_vc_winners s' = (sa_vc_winners s)[p := (sa_vc_winners s ! p)[i := w]] \<and> sa_num_inports s' = sa_num_inports s \<and>
    sa_num_outports s' = sa_num_outports s \<and> sa_num_vcs s' = sa_num_vcs s \<and> sa_vc_per_vnet s' = sa_vc_per_vnet s"
proof -
  have l: "length (sa_port_requests s) = sa_num_outports s" "length (sa_vc_winners s) = sa_num_outports s"
    "length (sa_port_requests s ! p) = sa_num_inports s" "length (sa_vc_winners s ! p) = sa_num_inports s"
    using assms(1,2) by (simp_all add: sa_sizes_ok_def requests_ok_def)
  have "put_at2 (sa_port_requests s) p i True = Inr ((sa_port_requests s)[p := (sa_port_requests s ! p)[i := True]])"
    "put_at2 (sa_vc_winners s) p i w = Inr ((sa_vc_winners s)[p := (sa_vc_winners s ! p)[i := w]])"
    using assms l by (simp_all add: put_at2_eq_Inr)
  then show ?thesis using assms l
    by (auto simp: sa_request_def sa_sizes_ok_def requests_ok_def dest!: set_update_subset_insert [THEN subsetD])
qed

lemma try_invc_ready:
  fixes cx
  defines "r \<equiv> rc_router cx"
  assumes ok: "router_ready C now r" "flits_routed C r" and i: "i < length (r_input_unit r)" and w: "w < sa_num_vcs (r_sw_alloc r)"
  shows "\<exists>won cx'. sa_try_invc C now i w cx = Inr (won, cx') \<and> router_ready C now (rc_router cx') \<and> flits_routed C (rc_router cx') \<and>
    stage1_frame i r (rc_router cx') \<and> rc_events cx' = rc_events cx \<and> (wants C now r i w \<longrightarrow> won) \<and>
    (\<not> won \<longrightarrow> r_sw_alloc (rc_router cx') = r_sw_alloc r \<and>
       (\<forall>x. x \<noteq> w \<longrightarrow> iu_vcs (r_input_unit (rc_router cx') ! i) ! x = iu_vcs (r_input_unit r ! i) ! x) \<and>
       iu_direction (r_input_unit (rc_router cx') ! i) = iu_direction (r_input_unit r ! i)) \<and>
    (won \<longrightarrow> (\<exists>p. p < length (r_output_unit r) \<and> sendable now (rc_router cx') p i w \<and>
       sa_port_requests (rc_alloc cx') = (sa_port_requests (rc_alloc cx))[p := (sa_port_requests (rc_alloc cx) ! p)[i := True]] \<and>
       sa_vc_winners (rc_alloc cx') = (sa_vc_winners (rc_alloc cx))[p := (sa_vc_winners (rc_alloc cx) ! p)[i := w]]))"
    (is "\<exists>won cx'. ?P won cx'")
proof -
  let ?u = "r_input_unit r ! i" let ?n = "sa_num_vcs (r_sw_alloc r)"
  note rd = router_readyD [OF ok(1)]
  have u: "in_ready ?n now ?u" by (rule rd(8) [OF i])
  have ui: "rc_input cx i = Inr ?u" using i by (simp add: rc_input_def at_def r_def)
  note need = need_stage_ready [OF u w order_refl, of SA_stage]
  show ?thesis
  proof (cases "\<exists>f. chan_flits ?u w = [f] \<and> fl_time f \<le> now \<and> is_stage f SA_stage now")
    case False
    then have "iu_need_stage ?u (int w) SA_stage now = Inr False"
      using need ready_single [OF u w] by (auto split: list.splits)
    then have "?P False cx" using ok ui False by (auto simp: sa_try_invc_def stage1_frame_def wants_def r_def)
    then show ?thesis by blast
  next
    case True
    then obtain f where f: "chan_flits ?u w = [f]" "fl_time f \<le> now" "is_stage f SA_stage now" by blast
    then have n: "iu_need_stage ?u (int w) SA_stage now = Inr True" using need by simp
    have wl: "w < length (iu_vcs ?u)" using u w by (simp add: in_ready_def)
    have fr: "flit_routed C r ?u f" using ok(2) i wl f(1) unfolding flits_routed_def by (metis list.set_intros(1) nth_mem)
    from check_uturn_ready [of i cx w f C] i wl f(1) fr obtain f' st where
      c: "sa_check_uturn C i w cx = Inr (with_inputs cx ((r_input_unit r)[i := put_top w f' ?u]) st)"
      and f': "flit_routed C r ?u f'" "sa_is_uturn ?u f' \<longrightarrow> fl_request_uturn f'" "fl_time f' = fl_time f" "fl_stage f' = fl_stage f"
      "nc_uTurn_crossbar C \<noteq> 0 \<or> \<not> sa_is_uturn ?u f \<longrightarrow> fl_outport f' = fl_outport f" unfolding r_def by blast
    define cx1 where "cx1 = with_inputs cx ((r_input_unit r)[i := put_top w f' ?u]) st"
    have r1: "rc_router cx1 = r\<lparr>r_input_unit := (r_input_unit r)[i := put_top w f' ?u]\<rparr>" by (simp add: cx1_def r_def)
    have ok1: "router_ready C now (rc_router cx1)" "flits_routed C (rc_router cx1)"
      unfolding r1 by (rule with_put_top_ready [OF ok i w f(1) f'(1)])+
    have p: "0 \<le> fl_outport f'" "nat (fl_outport f') < length (r_output_unit r)" using f'(1) by (simp_all add: flit_routed_def)
    have top: "rc_input cx1 i = Inr (put_top w f' ?u)" "iu_peekTopFlit (put_top w f' ?u) (int w) = Inr f'"
      using i wl by (simp_all add: rc_input_def at_def r1 peek_top)
    obtain b where b: "send_allowed C now (rc_router cx1) i w (fl_outport f') (-1) = Inr b"
      "ou_has_free_vc now (w div sa_vc_per_vnet (r_sw_alloc r)) (r_output_unit r ! nat (fl_outport f')) = Inr b"
      using send_allowed_ready [OF ok1(1), of i w "fl_outport f'"] i w p by (auto simp: r1)
    have wants: "wants C now r i w \<Longrightarrow> b" using f(1) f'(5) b(2) by (auto simp: wants_def)
    have fr1: "stage1_frame i r (rc_router cx1)" "rc_events cx1 = rc_events cx" by (auto simp: stage1_frame_def r1) (simp add: cx1_def)
    have tr: "sa_try_invc C now i w cx = (if b then bnd (sa_request (nat (fl_outport f')) i w (rc_alloc cx1)) (\<lambda>s. Inr (True, rc_map_alloc (\<lambda>_. s) cx1))
        else Inr (False, cx1))"
      using ui n c top b(1) p by (simp add: sa_try_invc_def cx1_def [symmetric] r1 Let_def nat_less_iff not_less [symmetric])
    show ?thesis
    proof (cases b)
      case False
      have "?P False cx1" using tr False ok1 fr1 wants i by (auto simp: r1 put_top_def)
      then show ?thesis by blast
    next
      case True
      have "\<exists>s'. sa_request (nat (fl_outport f')) i w (rc_alloc cx1) = Inr s' \<and> sa_sizes_ok s' \<and>
        sa_port_requests s' = (sa_port_requests (r_sw_alloc r))[nat (fl_outport f') := (sa_port_requests (r_sw_alloc r) ! nat (fl_outport f'))[i := True]] \<and>
        sa_vc_winners s' = (sa_vc_winners (r_sw_alloc r))[nat (fl_outport f') := (sa_vc_winners (r_sw_alloc r) ! nat (fl_outport f'))[i := w]] \<and>
        sa_num_inports s' = sa_num_inports (r_sw_alloc r) \<and> sa_num_outports s' = sa_num_outports (r_sw_alloc r) \<and>
        sa_num_vcs s' = ?n \<and> sa_vc_per_vnet s' = sa_vc_per_vnet (r_sw_alloc r)"
        using request_ready [OF rd(1), of "nat (fl_outport f')" i w] i w p rd(5,6) by (simp add: r1)
      then obtain s' where s': "sa_request (nat (fl_outport f')) i w (rc_alloc cx1) = Inr s'" "sa_sizes_ok s'"
        "sa_port_requests s' = (sa_port_requests (r_sw_alloc r))[nat (fl_outport f') := (sa_port_requests (r_sw_alloc r) ! nat (fl_outport f'))[i := True]]"
        "sa_vc_winners s' = (sa_vc_winners (r_sw_alloc r))[nat (fl_outport f') := (sa_vc_winners (r_sw_alloc r) ! nat (fl_outport f'))[i := w]]"
        "sa_num_inports s' = sa_num_inports (r_sw_alloc r)" "sa_num_outports s' = sa_num_outports (r_sw_alloc r)"
        "sa_num_vcs s' = ?n" "sa_vc_per_vnet s' = sa_vc_per_vnet (r_sw_alloc r)" by blast
      let ?cx = "rc_map_alloc (\<lambda>_. s') cx1"
      have r2: "rc_router ?cx = (rc_router cx1)\<lparr>r_sw_alloc := s'\<rparr>" by (simp add: rc_map_alloc_def)
      have "router_ready C now (rc_router ?cx)" using ok1(1) s' unfolding r2 by (auto simp: router_ready_def Let_def r1)
      moreover have "flits_routed C (rc_router ?cx)" using ok1(2) unfolding r2 by (simp add: flits_routed_def flit_routed_def)
      moreover have "stage1_frame i r (rc_router ?cx)" using fr1(1) s' unfolding r2 by (simp add: stage1_frame_def r1)
      moreover have "sendable now (rc_router ?cx) (nat (fl_outport f')) i w"
        using f(2) f' b(2) True s' i w wl unfolding r2 by (simp add: sendable_def r1 sa_is_uturn_def)
      moreover have "rc_events ?cx = rc_events cx" using fr1(2) by (simp add: rc_map_alloc_def)
      ultimately have "?P True ?cx" using tr True s' p by (auto simp: r_def)
      then show ?thesis by blast
    qed
  qed
qed

text \<open>The requests for the output ports from \<open>lo\<close> on: each comes from an input port below \<open>hi\<close>, each input port asks for
  one output port only, and its channel can be granted that port.\<close>

definition requests_sound :: "cycles \<Rightarrow> nat \<Rightarrow> nat \<Rightarrow> router \<Rightarrow> bool" where
  "requests_sound now lo hi r \<longleftrightarrow> (\<forall>p i. lo \<le> p \<and> requested r p i \<longrightarrow> i < hi \<and> sendable now r p i (winner r p i) \<and>
     (\<forall>q. lo \<le> q \<and> requested r q i \<longrightarrow> q = p))"

definition alloc_inv :: "garnet_config \<Rightarrow> cycles \<Rightarrow> nat \<Rightarrow> nat \<Rightarrow> router \<Rightarrow> bool" where
  "alloc_inv C now lo hi r \<longleftrightarrow> router_ready C now r \<and> flits_routed C r \<and> requests_sound now lo hi r"

text \<open>Input port \<open>i\<close> asks for an output port.\<close>

definition made :: "cycles \<Rightarrow> nat \<Rightarrow> router \<Rightarrow> router \<Rightarrow> bool" where
  "made now i r r' \<longleftrightarrow> (\<exists>p w. p < length (r_output_unit r) \<and> sendable now r' p i w \<and>
     sa_port_requests (r_sw_alloc r') = (sa_port_requests (r_sw_alloc r))[p := (sa_port_requests (r_sw_alloc r) ! p)[i := True]] \<and>
     sa_vc_winners (r_sw_alloc r') = (sa_vc_winners (r_sw_alloc r))[p := (sa_vc_winners (r_sw_alloc r) ! p)[i := w]])"

lemma frame_trans: "stage1_frame i r r' \<Longrightarrow> stage1_frame i r' r'' \<Longrightarrow> stage1_frame i r r''"
  by (simp add: stage1_frame_def)

lemma wants_kept:
  assumes "wants C now r i x" and "stage1_frame i r r'" and "iu_vcs (r_input_unit r' ! i) ! x = iu_vcs (r_input_unit r ! i) ! x"
    and "iu_direction (r_input_unit r' ! i) = iu_direction (r_input_unit r ! i)"
  shows "wants C now r' i x"
  using assms by (simp add: wants_def stage1_frame_def sa_is_uturn_def)

lemma scan_invcs_ready:
  assumes "router_ready C now (rc_router cx)" "flits_routed C (rc_router cx)" "i < length (r_input_unit (rc_router cx))"
    "\<forall>w \<in> set ws. w < sa_num_vcs (rc_alloc cx)"
  shows "\<exists>cx'. sa_scan_invcs C now i ws cx = Inr cx' \<and> router_ready C now (rc_router cx') \<and> flits_routed C (rc_router cx') \<and>
    stage1_frame i (rc_router cx) (rc_router cx') \<and>
    (rc_alloc cx' = rc_alloc cx \<and> (\<forall>w \<in> set ws. \<not> wants C now (rc_router cx) i w) \<or> made now i (rc_router cx) (rc_router cx'))"
  using assms
proof (induction ws arbitrary: cx)
  case Nil
  then show ?case by (simp add: stage1_frame_def)
next
  case (Cons w ws)
  let ?r = "rc_router cx"
  have w: "w < sa_num_vcs (r_sw_alloc ?r)" using Cons.prems(4) by simp
  from try_invc_ready [OF Cons.prems(1-3) w] obtain won cx1 where t: "sa_try_invc C now i w cx = Inr (won, cx1)"
    "router_ready C now (rc_router cx1)" "flits_routed C (rc_router cx1)" "stage1_frame i ?r (rc_router cx1)"
    "wants C now ?r i w \<longrightarrow> won"
    and no: "\<not> won \<Longrightarrow> rc_alloc cx1 = rc_alloc cx \<and> (\<forall>x. x \<noteq> w \<longrightarrow> iu_vcs (r_input_unit (rc_router cx1) ! i) ! x = iu_vcs (r_input_unit ?r ! i) ! x) \<and>
       iu_direction (r_input_unit (rc_router cx1) ! i) = iu_direction (r_input_unit ?r ! i)"
    and yes: "won \<Longrightarrow> made now i ?r (rc_router cx1)" unfolding made_def by blast
  show ?case
  proof (cases won)
    case True
    then show ?thesis using t yes by simp
  next
    case False
    note n = no [OF False]
    have "i < length (r_input_unit (rc_router cx1))" "\<forall>w \<in> set ws. w < sa_num_vcs (rc_alloc cx1)"
      using Cons.prems(3,4) t(4) n by (simp_all add: stage1_frame_def)
    from Cons.IH [OF t(2,3) this] obtain cx' where c: "sa_scan_invcs C now i ws cx1 = Inr cx'" "router_ready C now (rc_router cx')"
      "flits_routed C (rc_router cx')" "stage1_frame i (rc_router cx1) (rc_router cx')"
      "rc_alloc cx' = rc_alloc cx1 \<and> (\<forall>w \<in> set ws. \<not> wants C now (rc_router cx1) i w) \<or> made now i (rc_router cx1) (rc_router cx')" by blast
    have "\<not> wants C now ?r i x" if "\<not> wants C now (rc_router cx1) i x" for x
      using that wants_kept [OF _ t(4)] n t(5) False by (cases "x = w") auto
    moreover have "made now i ?r (rc_router cx')" if "made now i (rc_router cx1) (rc_router cx')"
      using that n t(4) by (simp add: made_def stage1_frame_def)
    ultimately have "rc_alloc cx' = rc_alloc cx \<and> (\<forall>x \<in> set (w # ws). \<not> wants C now ?r i x) \<or> made now i ?r (rc_router cx')"
      using c(5) n t(5) False by auto
    then show ?thesis using t(1) c frame_trans [OF t(4)] False by auto
  qed
qed

lemma sendable_frame: "sendable now r p j w \<Longrightarrow> stage1_frame i r r' \<Longrightarrow> j \<noteq> i \<Longrightarrow> sendable now r' p j w"
  by (simp add: sendable_def stage1_frame_def)

lemma made_requests:
  assumes "made now i r r'" and "router_ready C now r" and "stage1_frame i r r'" and "i < length (r_input_unit r)"
  obtains p w where "p < length (r_output_unit r)" "sendable now r' p i w" "winner r' p i = w"
    "\<And>q j. requested r' q j \<longleftrightarrow> requested r q j \<or> q = p \<and> j = i" "\<And>q j. j \<noteq> i \<Longrightarrow> winner r' q j = winner r q j"
proof -
  from assms(1) obtain p w where p: "p < length (r_output_unit r)" "sendable now r' p i w"
     "sa_port_requests (r_sw_alloc r') = (sa_port_requests (r_sw_alloc r))[p := (sa_port_requests (r_sw_alloc r) ! p)[i := True]]"
     "sa_vc_winners (r_sw_alloc r') = (sa_vc_winners (r_sw_alloc r))[p := (sa_vc_winners (r_sw_alloc r) ! p)[i := w]]"
    unfolding made_def by blast
  let ?s = "r_sw_alloc r"
  have l: "length (sa_port_requests ?s) = length (r_output_unit r)" "length (sa_vc_winners ?s) = length (r_output_unit r)"
    "length (sa_port_requests ?s ! p) = length (r_input_unit r)" "length (sa_vc_winners ?s ! p) = length (r_input_unit r)"
    using router_readyD(1,5,6) [OF assms(2)] p(1) by (simp_all add: sa_sizes_ok_def requests_ok_def)
  show thesis
  proof (rule that [OF p(1,2)])
    show "winner r' p i = w" using p(1,4) l assms(4) by simp
    show "requested r' q j \<longleftrightarrow> requested r q j \<or> q = p \<and> j = i" for q j
      using p(1,3) l assms(3,4) by (cases "q = p"; cases "j = i") (auto simp: requested_def stage1_frame_def)
    show "winner r' q j = winner r q j" if "j \<noteq> i" for q j
      using that p(1,4) l by (cases "q = p") (auto simp: nth_list_update)
  qed
qed

lemma arbitrate_inport_ready:
  assumes inv: "alloc_inv C now 0 k (rc_router cx)" and k: "k < length (r_input_unit (rc_router cx))"
  shows "\<exists>cx'. sa_arbitrate_inport C now k cx = Inr cx' \<and> alloc_inv C now 0 (Suc k) (rc_router cx') \<and>
    stage1_frame k (rc_router cx) (rc_router cx') \<and> (\<forall>p i. requested (rc_router cx) p i \<longrightarrow> requested (rc_router cx') p i) \<and>
    (\<forall>w. wants C now (rc_router cx) k w \<longrightarrow> (\<exists>p. requested (rc_router cx') p k))"
proof -
  let ?r = "rc_router cx" let ?n = "sa_num_vcs (rc_alloc cx)"
  have ok: "router_ready C now ?r" "flits_routed C ?r" "requests_sound now 0 k ?r" using inv by (simp_all add: alloc_inv_def)
  have rr: "k < length (sa_round_robin_invc (rc_alloc cx))" "sa_round_robin_invc (rc_alloc cx) ! k < ?n"
    using router_readyD(1,5) [OF ok(1)] k by (simp_all add: sa_sizes_ok_def)
  let ?ws = "rr_order ?n (sa_round_robin_invc (rc_alloc cx) ! k) ?n"
  have ws: "set ?ws = {..<?n}" using rr(2) by (rule rr_order_set)
  from scan_invcs_ready [OF ok(1,2) k, of ?ws] ws obtain cx' where c: "sa_scan_invcs C now k ?ws cx = Inr cx'"
    "router_ready C now (rc_router cx')" "flits_routed C (rc_router cx')" and f: "stage1_frame k ?r (rc_router cx')"
    and m: "rc_alloc cx' = rc_alloc cx \<and> (\<forall>w \<in> set ?ws. \<not> wants C now ?r k w) \<or> made now k ?r (rc_router cx')" by auto
  have a: "sa_arbitrate_inport C now k cx = Inr cx'" using c(1) rr(1) by (simp add: sa_arbitrate_inport_def)
  show ?thesis
  proof (cases "made now k ?r (rc_router cx')")
    case True
    from made_requests [OF this ok(1) f k] obtain p w where p: "p < length (r_output_unit ?r)" "sendable now (rc_router cx') p k w"
      "winner (rc_router cx') p k = w"
      and rq: "\<And>q j. requested (rc_router cx') q j \<longleftrightarrow> requested ?r q j \<or> q = p \<and> j = k"
      and wi: "\<And>q j. j \<noteq> k \<Longrightarrow> winner (rc_router cx') q j = winner ?r q j" by blast
    have old: "j < k \<and> sendable now (rc_router cx') q j (winner (rc_router cx') q j) \<and> (\<forall>q'. requested ?r q' j \<longrightarrow> q' = q)"
      if "requested ?r q j" for q j
      using that ok(3) sendable_frame [OF _ f] wi unfolding requests_sound_def by (metis less_imp_neq zero_le)
    then have "requests_sound now 0 (Suc k) (rc_router cx')"
      unfolding requests_sound_def rq using p by (metis less_SucI less_irrefl lessI)
    then show ?thesis using a c f rq by (auto simp: alloc_inv_def)
  next
    case False
    then have same: "rc_alloc cx' = rc_alloc cx" "\<forall>w \<in> set ?ws. \<not> wants C now ?r k w" using m by auto
    have rq: "requested (rc_router cx') = requested ?r" using same f by (simp add: requested_def stage1_frame_def fun_eq_iff)
    have "requests_sound now 0 (Suc k) (rc_router cx')"
      using ok(3) sendable_frame [OF _ f] unfolding requests_sound_def rq same(1) by (metis less_SucI less_imp_neq)
    moreover have "\<not> wants C now ?r k w" for w using same(2) ws by (cases "w < ?n") (auto simp: wants_def)
    ultimately show ?thesis using a c f rq by (auto simp: alloc_inv_def)
  qed
qed

text \<open>The first stage after the input ports below \<open>k\<close>.\<close>

definition stage1_inv :: "garnet_config \<Rightarrow> cycles \<Rightarrow> nat \<Rightarrow> router \<Rightarrow> router \<Rightarrow> bool" where
  "stage1_inv C now k r r' \<longleftrightarrow> alloc_inv C now 0 k r' \<and> r_output_unit r' = r_output_unit r \<and> r_switch r' = r_switch r \<and> r_halt r' = r_halt r \<and>
     length (r_input_unit r') = length (r_input_unit r) \<and> (\<forall>j \<ge> k. r_input_unit r' ! j = r_input_unit r ! j) \<and>
     sa_num_vcs (r_sw_alloc r') = sa_num_vcs (r_sw_alloc r) \<and> sa_vc_per_vnet (r_sw_alloc r') = sa_vc_per_vnet (r_sw_alloc r) \<and>
     (\<forall>i < k. \<forall>w. wants C now r i w \<longrightarrow> (\<exists>p. requested r' p i))"

lemma stage1_loop:
  assumes "alloc_inv C now 0 0 (rc_router cx)" and "k \<le> length (r_input_unit (rc_router cx))"
  shows "\<exists>cx'. foldM (sa_arbitrate_inport C now) [0..<k] cx = Inr cx' \<and> stage1_inv C now k (rc_router cx) (rc_router cx')"
  using assms(2)
proof (induction k)
  case 0
  then show ?case using assms(1) by (simp add: stage1_inv_def)
next
  case (Suc k)
  let ?r = "rc_router cx"
  from Suc obtain cx1 where c: "foldM (sa_arbitrate_inport C now) [0..<k] cx = Inr cx1" and i: "stage1_inv C now k ?r (rc_router cx1)" by auto
  have k: "k < length (r_input_unit (rc_router cx1))" using Suc.prems i by (simp add: stage1_inv_def)
  from arbitrate_inport_ready [of C now k cx1] i k obtain cx' where a: "sa_arbitrate_inport C now k cx1 = Inr cx'"
    "alloc_inv C now 0 (Suc k) (rc_router cx')" "stage1_frame k (rc_router cx1) (rc_router cx')"
    and rq: "\<forall>p i. requested (rc_router cx1) p i \<longrightarrow> requested (rc_router cx') p i"
    "\<forall>w. wants C now (rc_router cx1) k w \<longrightarrow> (\<exists>p. requested (rc_router cx') p k)" by (auto simp: stage1_inv_def)
  have "wants C now (rc_router cx1) k w = wants C now ?r k w" for w using i by (simp add: wants_def stage1_inv_def)
  then have "\<forall>j < Suc k. \<forall>w. wants C now ?r j w \<longrightarrow> (\<exists>p. requested (rc_router cx') p j)"
    using i rq by (simp add: stage1_inv_def less_Suc_eq) blast
  then have "stage1_inv C now (Suc k) ?r (rc_router cx')" using a(2,3) i by (simp add: stage1_inv_def stage1_frame_def)
  then show ?case using c a(1) by (simp add: foldM_append)
qed

end
