(* ===== verification/Switch_Progress.thy ===== *)
theory Switch_Progress
  imports Switch_Total
begin

text \<open>
  The second stage of switch allocation, and the whole wakeup: in a router that is ready for allocation no assertion
  fails. A winner of the first stage still has a free output channel with a credit when it is granted, because another
  grant takes channels of another output port only, and another request of the same input port does not exist. If a flit
  may be sent, some flit is sent.
\<close>

section \<open>Second stage\<close>

lemma select_free_ready:
  assumes "out_ready (m * k) k u" and "w < m * k" and "0 < k" and "ou_has_free_vc now (w div k) u = Inr True"
  obtains v where "v < m * k" "ovc_vc_state (ou_outvc_state u ! v) = IDLE"
    "ou_select_free_vc now (w div k) u = Inr (int v, u\<lparr>ou_outvc_state := (ou_outvc_state u)[v := ovc_setState ACTIVE now (ou_outvc_state u ! v)]\<rparr>)"
proof -
  have l: "\<forall>v \<in> set (vnet_vcs k (w div k)). v < length (ou_outvc_state u)" "length (ou_outvc_state u) = m * k" "ou_vc_per_vnet u = k"
    using vnet_range(2) [OF assms(2,3)] assms(1) by (simp_all add: out_ready_def)
  from scan_idle_ready [OF l(1)] obtain x where x: "ou_scan_idle u now (vnet_vcs k (w div k)) = Inr x"
    "\<forall>v. x = Some v \<longrightarrow> v \<in> set (vnet_vcs k (w div k)) \<and> ovc_isInState (ou_outvc_state u ! v) IDLE now" by blast
  from x(1) assms(4) l(3) obtain v where v: "x = Some v" by (cases x) (auto simp: ou_has_free_vc_def)
  show thesis
    by (rule that [of v]) (use x v l in \<open>auto simp: ou_select_free_vc_def ou_modify_def ovc_isInState_def\<close>)
qed

abbreviation put_chan :: "nat \<Rightarrow> virtual_channel \<Rightarrow> input_unit \<Rightarrow> input_unit" where
  "put_chan w v u \<equiv> u\<lparr>iu_vcs := (iu_vcs u)[w := v]\<rparr>"

abbreviation put_ovc :: "nat \<Rightarrow> out_vc_state \<Rightarrow> output_unit \<Rightarrow> output_unit" where
  "put_ovc v s u \<equiv> u\<lparr>ou_outvc_state := (ou_outvc_state u)[v := s]\<rparr>"

lemma vc_allocate_ready:
  fixes cx
  defines "r \<equiv> rc_router cx"
  assumes ok: "router_ready C now r" and i: "i < length (r_input_unit r)" and p: "p < length (r_output_unit r)"
    and s: "sendable now r p i w"
  obtains v where "v < sa_num_vcs (r_sw_alloc r)" "ovc_vc_state (ou_outvc_state (r_output_unit r ! p) ! v) = IDLE"
    "vc_allocate now p i w cx = Inr (int v, rc_put_input i (put_chan w ((iu_vcs (r_input_unit r ! i) ! w)\<lparr>vc_output_vc := int v\<rparr>) (r_input_unit r ! i))
       (rc_put_output p (put_ovc v (ovc_setState ACTIVE now (ou_outvc_state (r_output_unit r ! p) ! v)) (r_output_unit r ! p)) cx))"
proof -
  let ?k = "sa_vc_per_vnet (r_sw_alloc r)" let ?u = "r_output_unit r ! p"
  note rd = router_readyD(2,3) [OF ok] router_readyD(9) [OF ok p] router_readyD(8) [OF ok i]
  have w: "w < r_virtual_networks r * ?k" "ou_has_free_vc now (w div ?k) ?u = Inr True"
    using s rd(2) by (simp_all add: sendable_def)
  have vn: "sa_get_vnet r w = Inr (w div ?k)" using rd(1) vnet_range(1) [OF w(1) rd(1)] by (simp add: sa_get_vnet_def assert_that_def Let_def)
  from select_free_ready [OF rd(3) [unfolded rd(2)] w(1) rd(1) w(2)] obtain v where v: "v < r_virtual_networks r * ?k"
    "ovc_vc_state (ou_outvc_state ?u ! v) = IDLE"
    "ou_select_free_vc now (w div ?k) ?u = Inr (int v, put_ovc v (ovc_setState ACTIVE now (ou_outvc_state ?u ! v)) ?u)" by blast
  have g: "iu_grant_outvc (int w) (int v) (r_input_unit r ! i) = Inr (put_chan w ((iu_vcs (r_input_unit r ! i) ! w)\<lparr>vc_output_vc := int v\<rparr>) (r_input_unit r ! i))"
    using rd(2,4) w(1) by (simp add: iu_grant_outvc_def iu_modify_Inr in_ready_def)
  have io: "rc_input cx i = Inr (r_input_unit r ! i)" "rc_output cx (int p) = Inr ?u"
    using i p by (simp_all add: rc_input_def rc_output_def r_def)
  show thesis
    by (rule that [of v]) (use v vn g io rd(2) in \<open>simp_all add: vc_allocate_def r_def assert_that_def\<close>)
qed

lemma uturn_won_ready:
  assumes "i < length (r_input_unit (rc_router cx))" and "u = r_input_unit (rc_router cx) ! i" and "w < length (iu_vcs u)"
    and "chan_flits u w = [f]" and "sa_is_uturn u f \<longrightarrow> fl_request_uturn f"
  obtains f' g where "sa_uturn_won i w cx = Inr (rc_put_input i (put_top w f' u) (rc_map_stats g cx))" "is_tail f' = is_tail f"
    "fl_time f' = fl_time f"
proof (cases "sa_is_uturn u f")
  case True
  show thesis
    by (rule that [of "f\<lparr>fl_request_uturn := False\<rparr>" "\<lambda>s. s\<lparr>st_success_uturn := st_success_uturn s + 1\<rparr>"])
      (use True assms in \<open>simp_all add: sa_uturn_won_def rc_input_def peek_top assert_that_def sa_set_uturn_def modify_top is_tail_def\<close>)
next
  case False
  show thesis
    by (rule that [of f id])
      (use False assms in \<open>simp_all add: sa_uturn_won_def rc_input_def peek_top put_top_same rc_put_input_def rc_map_stats_def\<close>)
qed

lemma send_ready:
  assumes u: "i < length (r_input_unit (rc_router cx))" "r_input_unit (rc_router cx) ! i = u"
    and sw: "i < length (cs_switch_buffer (r_switch (rc_router cx)))" and w: "w < length (iu_vcs u)" "chan_flits u w = [f]"
    and o: "p < length (r_output_unit (rc_router cx))" "r_output_unit (rc_router cx) ! p = ou"
    and z: "v < length (ou_outvc_state ou)" "ou_outvc_state ou ! v = z" "0 < ovc_credit_count z"
  obtains g cx' where "sa_send now p i w (int v) cx = Inr (g, cx')" "is_tail g = is_tail f"
    "rc_router cx' = (rc_router cx)\<lparr>r_input_unit := (r_input_unit (rc_router cx))[i := put_chan w ((iu_vcs u ! w)\<lparr>vc_input_buffer :=
          (vc_input_buffer (iu_vcs u ! w))\<lparr>fb_buffer := []\<rparr>\<rparr>) u],
       r_output_unit := (r_output_unit (rc_router cx))[p := put_ovc v (z\<lparr>ovc_credit_count := ovc_credit_count z - 1\<rparr>) ou],
       r_switch := (r_switch (rc_router cx))\<lparr>cs_switch_buffer :=
          (cs_switch_buffer (r_switch (rc_router cx)))[i := insert_flit g (cs_switch_buffer (r_switch (rc_router cx)) ! i)]\<rparr>\<rparr>"
proof -
  have io: "rc_input cx i = Inr u" "rc_output cx (int p) = Inr ou"
    using u o by (simp_all add: rc_input_def rc_output_def)
  have t: "iu_getTopFlit u (int w) = Inr (f, put_chan w ((iu_vcs u ! w)\<lparr>vc_input_buffer := (vc_input_buffer (iu_vcs u ! w))\<lparr>fb_buffer := []\<rparr>\<rparr>) u)"
    using w by (simp add: iu_getTopFlit_def vc_getTopFlit_def getTopFlit_def pop_heap_def)
  have d: "ou_decrement_credit (int v) ou = Inr (put_ovc v (z\<lparr>ovc_credit_count := ovc_credit_count z - 1\<rparr>) ou)"
    using z by (simp add: ou_decrement_credit_def ou_modify_def ovc_decrement_credit_def assert_that_def Let_def)
  let ?g = "advance_stage ST_stage now (set_vc (int v) (set_outport_dir (ou_direction ou) (set_outport (int p) f)))"
  have "is_tail ?g = is_tail f" by (simp add: is_tail_def flit_setters)
  then show thesis using that [of ?g] io t d sw
    by (simp add: sa_send_def Let_def grant_switch_def update_sw_winner_def rc_put_input_def rc_put_output_def)
qed

lemma return_credit_ready:
  assumes u: "i < length (r_input_unit (rc_router cx))" "r_input_unit (rc_router cx) ! i = u"
    and w: "w < length (iu_vcs u)" "iu_vcs u ! w = x" "fb_buffer (vc_input_buffer x) = []" and g: "is_tail g"
  obtains c cx' where "sa_return_credit C now i w g cx = Inr cx'"
    "rc_router cx' = (rc_router cx)\<lparr>r_input_unit := (r_input_unit (rc_router cx))[i := (put_chan w (vc_set_idle now x) u)\<lparr>iu_creditQueue := c\<rparr>]\<rparr>"
proof -
  have io: "rc_input cx i = Inr u" using u by (simp add: rc_input_def)
  have "iu_isReady u (int w) now = Inr False" using w by (simp add: iu_isReady_def iu_read_def vc_isReady_def isReady_def)
  moreover have "iu_set_vc_idle (int w) now u = Inr (put_chan w (vc_set_idle now x) u)"
    using w by (simp add: iu_set_vc_idle_def iu_modify_Inr)
  ultimately show thesis
    using that g io by (simp add: sa_return_credit_def iu_increment_credit_def assert_that_def rc_put_input_def)
qed

text \<open>The allocator around a grant.\<close>

lemma next_invc_ready:
  assumes "sa_sizes_ok s" and "i < sa_num_inports s" and "0 < sa_num_vcs s"
  obtains x where "sa_next_invc i s = Inr (s\<lparr>sa_round_robin_invc := x\<rparr>)" "sa_sizes_ok (s\<lparr>sa_round_robin_invc := x\<rparr>)"
  by (rule that) (use assms in \<open>auto simp: sa_next_invc_def sa_sizes_ok_def requests_ok_def dest!: set_update_subset_insert [THEN subsetD]\<close>)

lemma end_grant_ready:
  assumes "sa_sizes_ok s" and "i < sa_num_inports s" and "p < sa_num_outports s"
  obtains x where "sa_end_grant p i s = Inr (s\<lparr>sa_port_requests := (sa_port_requests s)[p := (sa_port_requests s ! p)[i := False]], sa_round_robin_inport := x\<rparr>)"
    "sa_sizes_ok (s\<lparr>sa_port_requests := (sa_port_requests s)[p := (sa_port_requests s ! p)[i := False]], sa_round_robin_inport := x\<rparr>)"
proof -
  have l: "length (sa_port_requests s) = sa_num_outports s" "length (sa_port_requests s ! p) = sa_num_inports s"
    using assms(1,3) by (simp_all add: sa_sizes_ok_def requests_ok_def)
  have "put_at2 (sa_port_requests s) p i False = Inr ((sa_port_requests s)[p := (sa_port_requests s ! p)[i := False]])"
    using assms l by (simp add: put_at2_eq_Inr)
  then show thesis
    by (intro that) (use assms l in \<open>auto simp: sa_end_grant_def sa_sizes_ok_def requests_ok_def dest!: set_update_subset_insert [THEN subsetD]\<close>)
qed

text \<open>What a grant leaves: the channel empty and released, the output channel taken, the flit in the switch, the request withdrawn.\<close>

definition grant_result :: "nat \<Rightarrow> nat \<Rightarrow> nat \<Rightarrow> router \<Rightarrow> virtual_channel \<Rightarrow> credit flit_buffer \<Rightarrow> nat \<Rightarrow> out_vc_state \<Rightarrow> flit \<Rightarrow> switch_allocator \<Rightarrow> router" where
  "grant_result p i w r x c v z g a = r\<lparr>r_input_unit := (r_input_unit r)[i := (put_chan w x (r_input_unit r ! i))\<lparr>iu_creditQueue := c\<rparr>],
     r_output_unit := (r_output_unit r)[p := put_ovc v z (r_output_unit r ! p)],
     r_switch := (r_switch r)\<lparr>cs_switch_buffer := (cs_switch_buffer (r_switch r))[i := insert_flit g (cs_switch_buffer (r_switch r) ! i)]\<rparr>, r_sw_alloc := a\<rparr>"

definition granted :: "nat \<Rightarrow> nat \<Rightarrow> nat \<Rightarrow> router \<Rightarrow> router \<Rightarrow> bool" where
  "granted p i w r r' \<longleftrightarrow> (\<exists>x c v z g a. r' = grant_result p i w r x c v z g a \<and>
     fb_buffer (vc_input_buffer x) = [] \<and> vc_output_vc x = -1 \<and> vc_output_port x = -1 \<and> ovc_vc_state z = ACTIVE \<and>
     sa_sizes_ok a \<and> sa_num_inports a = sa_num_inports (r_sw_alloc r) \<and> sa_num_outports a = sa_num_outports (r_sw_alloc r) \<and>
     sa_num_vcs a = sa_num_vcs (r_sw_alloc r) \<and> sa_vc_per_vnet a = sa_vc_per_vnet (r_sw_alloc r) \<and>
     sa_vc_winners a = sa_vc_winners (r_sw_alloc r) \<and>
     sa_port_requests a = (sa_port_requests (r_sw_alloc r))[p := (sa_port_requests (r_sw_alloc r) ! p)[i := False]])"

lemma router_ready_alloc:
  assumes "router_ready C now r" and "sa_sizes_ok s" and "sa_num_vcs s = sa_num_vcs (r_sw_alloc r)" "sa_vc_per_vnet s = sa_vc_per_vnet (r_sw_alloc r)"
    "sa_num_inports s = sa_num_inports (r_sw_alloc r)" "sa_num_outports s = sa_num_outports (r_sw_alloc r)"
  shows "router_ready C now (r\<lparr>r_sw_alloc := s\<rparr>)"
  using assms by (auto simp: router_ready_def Let_def)

text \<open>The grant up to the output channel and the end of the u-turn.\<close>

lemma grant_front:
  fixes cx
  defines "r \<equiv> rc_router cx"
  assumes ok: "router_ready C now r" and i: "i < length (r_input_unit r)" and p: "p < length (r_output_unit r)"
    and s: "sendable now r p i w" and f: "chan_flits (r_input_unit r ! i) w = [f]"
  obtains a v f' u cx2 cx3 where "sa_next_invc i (r_sw_alloc r) = Inr ((r_sw_alloc r)\<lparr>sa_round_robin_invc := a\<rparr>)"
    "sa_sizes_ok ((r_sw_alloc r)\<lparr>sa_round_robin_invc := a\<rparr>)"
    "vc_allocate now p i w (rc_map_alloc (\<lambda>_. (r_sw_alloc r)\<lparr>sa_round_robin_invc := a\<rparr>) cx) = Inr (int v, cx2)"
    "v < sa_num_vcs (r_sw_alloc r)" "ovc_vc_state (ou_outvc_state (r_output_unit r ! p) ! v) = IDLE"
    "sa_uturn_won i w cx2 = Inr cx3" "is_tail f' = is_tail f" "u = put_top w f' (put_chan w ((iu_vcs (r_input_unit r ! i) ! w)\<lparr>vc_output_vc := int v\<rparr>) (r_input_unit r ! i))"
    "rc_router cx3 = r\<lparr>r_input_unit := (r_input_unit r)[i := u],
      r_output_unit := (r_output_unit r)[p := put_ovc v (ovc_setState ACTIVE now (ou_outvc_state (r_output_unit r ! p) ! v)) (r_output_unit r ! p)],
      r_sw_alloc := (r_sw_alloc r)\<lparr>sa_round_robin_invc := a\<rparr>\<rparr>"
proof -
  let ?s = "r_sw_alloc r" let ?u = "r_input_unit r ! i" let ?o = "r_output_unit r ! p"
  note rd = router_readyD [OF ok]
  have wl: "w < length (iu_vcs ?u)" using rd(8) [OF i] s by (simp add: in_ready_def sendable_def)
  from s f have ft: "sa_is_uturn ?u f \<longrightarrow> fl_request_uturn f" by (auto simp: sendable_def)
  from next_invc_ready [OF rd(1), of i] i s rd(5) obtain a where n: "sa_next_invc i ?s = Inr (?s\<lparr>sa_round_robin_invc := a\<rparr>)"
    "sa_sizes_ok (?s\<lparr>sa_round_robin_invc := a\<rparr>)" by (auto simp: sendable_def)
  define cx1 where "cx1 = rc_map_alloc (\<lambda>_. ?s\<lparr>sa_round_robin_invc := a\<rparr>) cx"
  have r1: "rc_router cx1 = r\<lparr>r_sw_alloc := ?s\<lparr>sa_round_robin_invc := a\<rparr>\<rparr>" by (simp add: cx1_def rc_map_alloc_def r_def)
  have ok1: "router_ready C now (rc_router cx1)" "sendable now (rc_router cx1) p i w"
    using router_ready_alloc [OF ok n(2)] s unfolding r1 by (simp_all add: sendable_def)
  from vc_allocate_ready [OF ok1(1) _ _ ok1(2)] i p obtain v cx2 where v: "v < sa_num_vcs ?s" "ovc_vc_state (ou_outvc_state ?o ! v) = IDLE"
    and c2: "vc_allocate now p i w cx1 = Inr (int v, cx2)"
    and cx2: "cx2 = rc_put_input i (put_chan w ((iu_vcs ?u ! w)\<lparr>vc_output_vc := int v\<rparr>) ?u)
       (rc_put_output p (put_ovc v (ovc_setState ACTIVE now (ou_outvc_state ?o ! v)) ?o) cx1)" unfolding r1 by (simp add: r1) metis
  let ?u2 = "put_chan w ((iu_vcs ?u ! w)\<lparr>vc_output_vc := int v\<rparr>) ?u"
  have i2: "i < length (r_input_unit (rc_router cx2))" "r_input_unit (rc_router cx2) ! i = ?u2" using i by (simp_all add: cx2 r1)
  have u2: "w < length (iu_vcs ?u2)" "chan_flits ?u2 w = [f]" "sa_is_uturn ?u2 f \<longrightarrow> fl_request_uturn f"
    using wl f ft by (simp_all add: sa_is_uturn_def)
  from uturn_won_ready [OF i2(1) i2(2) [symmetric] u2] obtain f' h where
    c3: "sa_uturn_won i w cx2 = Inr (rc_put_input i (put_top w f' ?u2) (rc_map_stats h cx2))" "is_tail f' = is_tail f" by blast
  have "rc_router (rc_put_input i (put_top w f' ?u2) (rc_map_stats h cx2)) = r\<lparr>r_input_unit := (r_input_unit r)[i := put_top w f' ?u2],
      r_output_unit := (r_output_unit r)[p := put_ovc v (ovc_setState ACTIVE now (ou_outvc_state ?o ! v)) ?o], r_sw_alloc := ?s\<lparr>sa_round_robin_invc := a\<rparr>\<rparr>"
    by (simp add: cx2 r1 rc_put_input_def rc_put_output_def rc_map_stats_def)
  with that n c2 v c3 show thesis unfolding cx1_def by blast
qed

text \<open>The grant from the crossbar to the end of the request.\<close>

lemma grant_back:
  fixes cx
  defines "r \<equiv> rc_router cx"
  assumes u: "i < length (r_input_unit r)" "r_input_unit r ! i = u" "i < length (cs_switch_buffer (r_switch r))"
    and w: "w < length (iu_vcs u)" "chan_flits u w = [f]"
    and o: "p < length (r_output_unit r)" "r_output_unit r ! p = ou" "v < length (ou_outvc_state ou)" "ou_outvc_state ou ! v = z" "0 < ovc_credit_count z"
    and tail: "is_tail f" and s: "sa_sizes_ok (r_sw_alloc r)" "i < sa_num_inports (r_sw_alloc r)" "p < sa_num_outports (r_sw_alloc r)"
  obtains g cx4 cx6 a c x b where "sa_send now p i w (int v) cx = Inr (g, cx4)"
    "sa_return_credit C now i w g (rc_map_alloc (\<lambda>s. s\<lparr>sa_output_arbiter_activity := sa_output_arbiter_activity s + 1\<rparr>) cx4) = Inr cx6"
    "sa_end_grant p i (rc_alloc cx6) = Inr a" "fb_buffer (vc_input_buffer x) = []"
    "rc_router cx6 = r\<lparr>r_input_unit := (r_input_unit r)[i := (put_chan w (vc_set_idle now x) u)\<lparr>iu_creditQueue := c\<rparr>],
       r_output_unit := (r_output_unit r)[p := put_ovc v (z\<lparr>ovc_credit_count := ovc_credit_count z - 1\<rparr>) ou],
       r_switch := (r_switch r)\<lparr>cs_switch_buffer := (cs_switch_buffer (r_switch r))[i := insert_flit g (cs_switch_buffer (r_switch r) ! i)]\<rparr>,
       r_sw_alloc := (r_sw_alloc r)\<lparr>sa_output_arbiter_activity := sa_output_arbiter_activity (r_sw_alloc r) + 1\<rparr>\<rparr>"
    "a = (r_sw_alloc r)\<lparr>sa_output_arbiter_activity := sa_output_arbiter_activity (r_sw_alloc r) + 1,
       sa_port_requests := (sa_port_requests (r_sw_alloc r))[p := (sa_port_requests (r_sw_alloc r) ! p)[i := False]], sa_round_robin_inport := b\<rparr>"
    "sa_sizes_ok a"
proof -
  let ?s = "(r_sw_alloc r)\<lparr>sa_output_arbiter_activity := sa_output_arbiter_activity (r_sw_alloc r) + 1\<rparr>"
  define x where "x = (iu_vcs u ! w)\<lparr>vc_input_buffer := (vc_input_buffer (iu_vcs u ! w))\<lparr>fb_buffer := []\<rparr>\<rparr>"
  obtain g cx4 where c4: "sa_send now p i w (int v) cx = Inr (g, cx4)" "is_tail g = is_tail f"
    and r4: "rc_router cx4 = r\<lparr>r_input_unit := (r_input_unit r)[i := put_chan w x u],
       r_output_unit := (r_output_unit r)[p := put_ovc v (z\<lparr>ovc_credit_count := ovc_credit_count z - 1\<rparr>) ou],
       r_switch := (r_switch r)\<lparr>cs_switch_buffer := (cs_switch_buffer (r_switch r))[i := insert_flit g (cs_switch_buffer (r_switch r) ! i)]\<rparr>\<rparr>"
    unfolding x_def r_def by (rule send_ready [OF u [unfolded r_def] w o [unfolded r_def]])
  define cx5 where "cx5 = rc_map_alloc (\<lambda>s. s\<lparr>sa_output_arbiter_activity := sa_output_arbiter_activity s + 1\<rparr>) cx4"
  have i5: "i < length (r_input_unit (rc_router cx5))" "r_input_unit (rc_router cx5) ! i = put_chan w x u" "w < length (iu_vcs (put_chan w x u))"
    "iu_vcs (put_chan w x u) ! w = x" "fb_buffer (vc_input_buffer x) = []" "is_tail g"
    using u w c4 tail by (simp_all add: cx5_def r4 x_def)
  obtain c cx6 where c6: "sa_return_credit C now i w g cx5 = Inr cx6"
    and r6: "rc_router cx6 = (rc_router cx5)\<lparr>r_input_unit := (r_input_unit (rc_router cx5))[i := (put_chan w (vc_set_idle now x) (put_chan w x u))\<lparr>iu_creditQueue := c\<rparr>]\<rparr>"
    by (rule return_credit_ready [OF i5])
  have s6: "rc_alloc cx6 = ?s" by (simp add: r6 cx5_def r4)
  have "sa_sizes_ok ?s" "i < sa_num_inports ?s" "p < sa_num_outports ?s" using s by (simp_all add: sa_sizes_ok_def requests_ok_def)
  from end_grant_ready [OF this] obtain b where
    e: "sa_end_grant p i ?s = Inr (?s\<lparr>sa_port_requests := (sa_port_requests ?s)[p := (sa_port_requests ?s ! p)[i := False]], sa_round_robin_inport := b\<rparr>)"
    "sa_sizes_ok (?s\<lparr>sa_port_requests := (sa_port_requests ?s)[p := (sa_port_requests ?s ! p)[i := False]], sa_round_robin_inport := b\<rparr>)" by blast
  show thesis
    by (rule that [of g cx4 cx6 _ x c b, OF c4(1) c6 [unfolded cx5_def] e(1) [folded s6] i5(5)])
      (use e(2) in \<open>simp_all add: r6 cx5_def rc_map_alloc_def r4\<close>)
qed

lemma grant_total:
  fixes cx
  defines "r \<equiv> rc_router cx"
  assumes ok: "router_ready C now r" "flits_routed C r" and i: "i < length (r_input_unit r)" and p: "p < length (r_output_unit r)"
    and s: "sendable now r p i (winner r p i)"
  shows "\<exists>cx'. sa_grant C now p i cx = Inr cx' \<and> granted p i (winner r p i) r (rc_router cx')"
proof -
  let ?s = "r_sw_alloc r" let ?w = "winner r p i" let ?u = "r_input_unit r ! i" let ?o = "r_output_unit r ! p"
  note rd = router_readyD [OF ok(1)]
  have i': "i < sa_num_inports ?s" "i < length (cs_switch_buffer (r_switch r))" and p': "p < sa_num_outports ?s" using i p rd(5-7) by auto
  have u: "in_ready (sa_num_vcs ?s) now ?u" and o: "out_ready (sa_num_vcs ?s) (sa_vc_per_vnet ?s) ?o" using rd(8) [OF i] rd(9) [OF p] .
  from s obtain f where f: "?w < sa_num_vcs ?s" "chan_flits ?u ?w = [f]" by (auto simp: sendable_def)
  have wl: "?w < length (iu_vcs ?u)" using u f(1) by (simp add: in_ready_def)
  have tail: "is_tail f" using ok(2) i wl f(2) nth_mem unfolding flits_routed_def flit_routed_def by (metis list.set_intros(1))
  have win: "at2 (sa_vc_winners ?s) p i = Inr ?w" using rd(1) i' p' by (simp add: at2_eq_Inr sa_sizes_ok_def)
  have outvc: "iu_get_outvc ?u (int ?w) = Inr (-1)"
    using u wl f(1) nth_mem by (fastforce simp: iu_get_outvc_def iu_read_def in_ready_def chan_ready_def)
  obtain a v f' u3 cx2 cx3 where n: "sa_next_invc i ?s = Inr (?s\<lparr>sa_round_robin_invc := a\<rparr>)" "sa_sizes_ok (?s\<lparr>sa_round_robin_invc := a\<rparr>)"
    and c2: "vc_allocate now p i ?w (rc_map_alloc (\<lambda>_. ?s\<lparr>sa_round_robin_invc := a\<rparr>) cx) = Inr (int v, cx2)"
    and v: "v < sa_num_vcs ?s" "ovc_vc_state (ou_outvc_state ?o ! v) = IDLE" and c3: "sa_uturn_won i ?w cx2 = Inr cx3" "is_tail f' = is_tail f"
    and u3: "u3 = put_top ?w f' (put_chan ?w ((iu_vcs ?u ! ?w)\<lparr>vc_output_vc := int v\<rparr>) ?u)"
    and r3: "rc_router cx3 = r\<lparr>r_input_unit := (r_input_unit r)[i := u3],
      r_output_unit := (r_output_unit r)[p := put_ovc v (ovc_setState ACTIVE now (ou_outvc_state ?o ! v)) ?o], r_sw_alloc := ?s\<lparr>sa_round_robin_invc := a\<rparr>\<rparr>"
    by (rule grant_front [OF ok(1) [unfolded r_def] i [unfolded r_def] p [unfolded r_def] s [unfolded r_def] f(2) [unfolded r_def], folded r_def])
  have v': "v < length (ou_outvc_state ?o)" "0 < ovc_credit_count (ou_outvc_state ?o ! v)"
    using o v nth_mem by (auto simp: out_ready_def)
  have h: "i < length (r_input_unit (rc_router cx3))" "r_input_unit (rc_router cx3) ! i = u3" "i < length (cs_switch_buffer (r_switch (rc_router cx3)))"
    "?w < length (iu_vcs u3)" "chan_flits u3 ?w = [f']"
    "p < length (r_output_unit (rc_router cx3))" "r_output_unit (rc_router cx3) ! p = put_ovc v (ovc_setState ACTIVE now (ou_outvc_state ?o ! v)) ?o"
    "v < length (ou_outvc_state (put_ovc v (ovc_setState ACTIVE now (ou_outvc_state ?o ! v)) ?o))"
    "ou_outvc_state (put_ovc v (ovc_setState ACTIVE now (ou_outvc_state ?o ! v)) ?o) ! v = ovc_setState ACTIVE now (ou_outvc_state ?o ! v)"
    "0 < ovc_credit_count (ovc_setState ACTIVE now (ou_outvc_state ?o ! v))" "is_tail f'"
    "sa_sizes_ok (rc_alloc cx3)" "i < sa_num_inports (rc_alloc cx3)" "p < sa_num_outports (rc_alloc cx3)"
    using i i' p p' wl v' tail c3(2) n(2) by (simp_all add: r3 u3 ovc_setState_def)
  show ?thesis
  proof (rule grant_back [OF h, of now C])
    fix g cx4 cx6 a' c x b
    let ?z = "ovc_setState ACTIVE now (ou_outvc_state ?o ! v)"
    assume b: "sa_send now p i ?w (int v) cx3 = Inr (g, cx4)"
      "sa_return_credit C now i ?w g (rc_map_alloc (\<lambda>s. s\<lparr>sa_output_arbiter_activity := sa_output_arbiter_activity s + 1\<rparr>) cx4) = Inr cx6"
      "sa_end_grant p i (rc_alloc cx6) = Inr a'" "fb_buffer (vc_input_buffer x) = []"
      and r6: "rc_router cx6 = rc_router cx3\<lparr>r_input_unit := (r_input_unit (rc_router cx3))[i := (put_chan ?w (vc_set_idle now x) u3)\<lparr>iu_creditQueue := c\<rparr>],
         r_output_unit := (r_output_unit (rc_router cx3))[p := put_ovc v (?z\<lparr>ovc_credit_count := ovc_credit_count ?z - 1\<rparr>) (put_ovc v ?z ?o)],
         r_switch := (r_switch (rc_router cx3))\<lparr>cs_switch_buffer := (cs_switch_buffer (r_switch (rc_router cx3)))[i := insert_flit g (cs_switch_buffer (r_switch (rc_router cx3)) ! i)]\<rparr>,
         r_sw_alloc := (rc_alloc cx3)\<lparr>sa_output_arbiter_activity := sa_output_arbiter_activity (rc_alloc cx3) + 1\<rparr>\<rparr>"
      and a': "a' = (rc_alloc cx3)\<lparr>sa_output_arbiter_activity := sa_output_arbiter_activity (rc_alloc cx3) + 1,
         sa_port_requests := (sa_port_requests (rc_alloc cx3))[p := (sa_port_requests (rc_alloc cx3) ! p)[i := False]], sa_round_robin_inport := b\<rparr>"
      and ok': "sa_sizes_ok a'"
    have "sa_grant C now p i cx = Inr (rc_map_alloc (\<lambda>_. a') cx6)"
      using win n outvc c2 c3 b i by (simp add: sa_grant_def r_def [symmetric] rc_input_def)
    moreover have "rc_router (rc_map_alloc (\<lambda>_. a') cx6) =
      grant_result p i ?w r (vc_set_idle now x) c v (?z\<lparr>ovc_credit_count := ovc_credit_count ?z - 1\<rparr>) g a'"
      by (simp add: rc_map_alloc_def r6 r3 u3 put_top_def grant_result_def)
    moreover have "granted p i ?w r (grant_result p i ?w r (vc_set_idle now x) c v (?z\<lparr>ovc_credit_count := ovc_credit_count ?z - 1\<rparr>) g a')"
      unfolding granted_def by (rule exI conjI refl)+ (use b(4) ok' in \<open>simp_all add: a' r3 vc_set_idle_def ovc_setState_def\<close>)
    ultimately show ?thesis by simp
  qed
qed

lemma granted_ready:
  assumes g: "granted p i w r r'" and ok: "router_ready C now r" "flits_routed C r"
    and i: "i < length (r_input_unit r)" and p: "p < length (r_output_unit r)"
  shows "router_ready C now r'" and "flits_routed C r'"
proof -
  let ?s = "r_sw_alloc r" let ?u = "r_input_unit r ! i" let ?o = "r_output_unit r ! p"
  from g obtain x c v z g a where r': "r' = grant_result p i w r x c v z g a"
     and x: "fb_buffer (vc_input_buffer x) = []" "vc_output_vc x = -1" "vc_output_port x = -1" and z: "ovc_vc_state z = ACTIVE"
     and a: "sa_sizes_ok a" "sa_num_inports a = sa_num_inports ?s" "sa_num_outports a = sa_num_outports ?s"
       "sa_num_vcs a = sa_num_vcs ?s" "sa_vc_per_vnet a = sa_vc_per_vnet ?s" unfolding granted_def by blast
  define u' where "u' = (put_chan w x ?u)\<lparr>iu_creditQueue := c\<rparr>"
  note rd = router_readyD [OF ok(1)]
  have "chan_ready now x" using x by (simp add: chan_ready_def)
  then have u: "in_ready (sa_num_vcs ?s) now u'"
    using rd(8) [OF i] by (auto simp: in_ready_def u'_def dest!: set_update_subset_insert [THEN subsetD])
  have o: "out_ready (sa_num_vcs ?s) (sa_vc_per_vnet ?s) (put_ovc v z ?o)"
    using rd(9) [OF p] z by (auto simp: out_ready_def dest!: set_update_subset_insert [THEN subsetD])
  have in': "y = u' \<or> y \<in> set (r_input_unit r)" if "y \<in> set ((r_input_unit r)[i := u'])" for y
    using that set_update_subset_insert [of "r_input_unit r" i u'] by auto
  have out': "y = put_ovc v z ?o \<or> y \<in> set (r_output_unit r)" if "y \<in> set ((r_output_unit r)[p := put_ovc v z ?o])" for y
    using that set_update_subset_insert [of "r_output_unit r" p] by auto
  have r'': "r' = r\<lparr>r_input_unit := (r_input_unit r)[i := u'], r_output_unit := (r_output_unit r)[p := put_ovc v z ?o],
     r_switch := (r_switch r)\<lparr>cs_switch_buffer := (cs_switch_buffer (r_switch r))[i := insert_flit g (cs_switch_buffer (r_switch r) ! i)]\<rparr>, r_sw_alloc := a\<rparr>"
    by (simp add: r' grant_result_def u'_def)
  show "router_ready C now r'"
    using ok(1) a u o in' out' unfolding r'' router_ready_def Let_def by simp metis
  have fr: "flit_routed C r' y f" if "flit_routed C r y' f" "iu_direction y = iu_direction y'" for y y' f
    using that by (simp add: r'' flit_routed_def sa_is_uturn_def)
  have "flit_routed C r' y f" if y: "y \<in> set (r_input_unit r')" and v: "v \<in> set (iu_vcs y)" and f: "f \<in> set (fb_buffer (vc_input_buffer v))" for y v f
  proof (cases "y = u'")
    case True
    then have "v \<in> set (iu_vcs ?u)" using v f x(1) set_update_subset_insert [of "iu_vcs ?u" w x] by (auto simp: u'_def)
    then have "flit_routed C r ?u f" using ok(2) i f unfolding flits_routed_def by (meson nth_mem)
    then show ?thesis by (rule fr) (simp add: True u'_def)
  next
    case False
    then have "y \<in> set (r_input_unit r)" using y in' [of y] by (simp add: r'')
    then show ?thesis using ok(2) v f by (intro fr [OF _ refl]) (simp add: flits_routed_def)
  qed
  then show "flits_routed C r'" unfolding flits_routed_def by blast
qed

lemma granted_inv:
  assumes g: "granted p i w r r'" and inv: "alloc_inv C now p hi r" and rq: "requested r p i"
    and i: "i < length (r_input_unit r)" and p: "p < length (r_output_unit r)"
  shows "alloc_inv C now (Suc p) hi r'"
proof -
  have ok: "router_ready C now r" "flits_routed C r" "requests_sound now p hi r" using inv by (simp_all add: alloc_inv_def)
  note ok' = granted_ready [OF g ok(1,2) i p]
  from g obtain x c v z g a where r': "r' = grant_result p i w r x c v z g a" and a: "sa_num_vcs a = sa_num_vcs (r_sw_alloc r)"
      "sa_vc_per_vnet a = sa_vc_per_vnet (r_sw_alloc r)" "sa_vc_winners a = sa_vc_winners (r_sw_alloc r)"
      "sa_port_requests a = (sa_port_requests (r_sw_alloc r))[p := (sa_port_requests (r_sw_alloc r) ! p)[i := False]]"
    unfolding granted_def by blast
  have rq': "requested r' q j = requested r q j" "winner r' q j = winner r q j" if "Suc p \<le> q" for q j
    using that a by (simp_all add: requested_def r' grant_result_def)
  have ne: "j \<noteq> i" if "Suc p \<le> q" "requested r q j" for q j
    using ok(3) rq that unfolding requests_sound_def by (metis Suc_n_not_le_n le_refl Suc_leD)
  have "sendable now r' q j y" if "Suc p \<le> q" "requested r q j" "sendable now r q j y" for q j y
    using that a ne [OF that(1,2)] by (simp add: sendable_def r' grant_result_def)
  then have "requests_sound now (Suc p) hi r'"
    using ok(3) unfolding requests_sound_def by (metis rq' Suc_leD)
  then show ?thesis using ok' by (simp add: alloc_inv_def)
qed

text \<open>The flits that wait in the crossbar.\<close>

definition xbar_size :: "router \<Rightarrow> nat" where
  "xbar_size r = sum_list (map getSize (cs_switch_buffer (r_switch r)))"

lemma granted_effects:
  assumes "granted p i w r r'" and "i < length (cs_switch_buffer (r_switch r))"
  shows "length (r_input_unit r') = length (r_input_unit r)" "length (r_output_unit r') = length (r_output_unit r)" "r_halt r' = r_halt r"
    "Suc p \<le> q \<Longrightarrow> requested r' q j = requested r q j" "xbar_size r' = Suc (xbar_size r)"
proof -
  let ?b = "cs_switch_buffer (r_switch r)"
  from assms(1) obtain x c v z g a where r': "r' = grant_result p i w r x c v z g a"
    and a: "sa_port_requests a = (sa_port_requests (r_sw_alloc r))[p := (sa_port_requests (r_sw_alloc r) ! p)[i := False]]"
    unfolding granted_def by blast
  show "length (r_input_unit r') = length (r_input_unit r)" "length (r_output_unit r') = length (r_output_unit r)" "r_halt r' = r_halt r"
    by (simp_all add: r' grant_result_def)
  show "requested r' q j = requested r q j" if "Suc p \<le> q" using that a by (simp add: requested_def r' grant_result_def)
  have "getSize (insert_flit g (?b ! i)) = Suc (getSize (?b ! i))" by (simp add: getSize_def insert_flit_def)
  then show "xbar_size r' = Suc (xbar_size r)" using assms(2) elem_le_sum_list [of i "map getSize ?b"]
    by (simp add: xbar_size_def r' grant_result_def map_update sum_list_update)
qed

lemma alloc_inv_Suc: "alloc_inv C now p hi r \<Longrightarrow> alloc_inv C now (Suc p) hi r"
  unfolding alloc_inv_def requests_sound_def by (meson Suc_leD)

lemma scan_inports_ready:
  assumes inv: "alloc_inv C now p hi (rc_router cx)" and p: "p < length (r_output_unit (rc_router cx))" and hi: "hi = length (r_input_unit (rc_router cx))"
    and js: "\<forall>j \<in> set js. j < hi"
  shows "\<exists>cx'. sa_scan_inports C now p js cx = Inr cx' \<and> alloc_inv C now (Suc p) hi (rc_router cx') \<and>
    (cx' = cx \<and> (\<forall>j \<in> set js. \<not> requested (rc_router cx) p j) \<or> (\<exists>i w. i < hi \<and> granted p i w (rc_router cx) (rc_router cx')))"
  using js
proof (induction js)
  case Nil
  then show ?case using alloc_inv_Suc [OF inv] by simp
next
  case (Cons j js)
  let ?r = "rc_router cx"
  have ok: "router_ready C now ?r" "flits_routed C ?r" "requests_sound now p hi ?r" using inv by (simp_all add: alloc_inv_def)
  have j: "j < length (r_input_unit ?r)" using Cons.prems hi by simp
  have rq: "at2 (sa_port_requests (rc_alloc cx)) p j = Inr (requested ?r p j)"
    using router_readyD(1,5,6) [OF ok(1)] p j by (simp add: at2_eq_Inr requested_def sa_sizes_ok_def requests_ok_def)
  show ?case
  proof (cases "requested ?r p j")
    case True
    then have "sendable now ?r p j (winner ?r p j)" using ok(3) unfolding requests_sound_def by blast
    from grant_total [OF ok(1,2) j p this] obtain cx' where g: "sa_grant C now p j cx = Inr cx'" "granted p j (winner ?r p j) ?r (rc_router cx')" by blast
    then show ?thesis using rq True granted_inv [OF g(2) inv True j p] j hi by auto
  next
    case False
    then show ?thesis using rq Cons by simp
  qed
qed

lemma arbitrate_outport_ready:
  assumes inv: "alloc_inv C now p hi (rc_router cx)" and p: "p < length (r_output_unit (rc_router cx))" and hi: "hi = length (r_input_unit (rc_router cx))"
  shows "\<exists>cx'. sa_arbitrate_outport C now p cx = Inr cx' \<and> alloc_inv C now (Suc p) hi (rc_router cx') \<and>
    (cx' = cx \<and> (\<forall>j. \<not> requested (rc_router cx) p j) \<or> (\<exists>i w. i < hi \<and> granted p i w (rc_router cx) (rc_router cx')))"
proof -
  let ?s = "rc_alloc cx"
  have ok: "router_ready C now (rc_router cx)" "requests_sound now p hi (rc_router cx)" using inv by (simp_all add: alloc_inv_def)
  have rr: "p < length (sa_round_robin_inport ?s)" "sa_round_robin_inport ?s ! p < hi" "sa_num_inports ?s = hi"
    using router_readyD(1,5,6) [OF ok(1)] p hi by (simp_all add: sa_sizes_ok_def)
  have js: "set (rr_order hi (sa_round_robin_inport ?s ! p) hi) = {..<hi}" by (rule rr_order_set [OF rr(2)])
  have "\<not> requested (rc_router cx) p j" if "\<forall>j<hi. \<not> requested (rc_router cx) p j" for j
    using that ok(2) unfolding requests_sound_def by blast
  then show ?thesis using scan_inports_ready [OF inv p hi, of "rr_order hi (sa_round_robin_inport ?s ! p) hi"] js rr
    by (auto simp: sa_arbitrate_outport_def)
qed

text \<open>The second stage after the output ports below \<open>k\<close>.\<close>

definition stage2_inv :: "garnet_config \<Rightarrow> cycles \<Rightarrow> nat \<Rightarrow> router \<Rightarrow> router \<Rightarrow> bool" where
  "stage2_inv C now k r r' \<longleftrightarrow> alloc_inv C now k (length (r_input_unit r)) r' \<and> length (r_input_unit r') = length (r_input_unit r) \<and>
     length (r_output_unit r') = length (r_output_unit r) \<and> (\<forall>q \<ge> k. \<forall>j. requested r' q j = requested r q j) \<and>
     xbar_size r \<le> xbar_size r' \<and> ((\<exists>q < k. \<exists>j. requested r q j) \<longrightarrow> xbar_size r < xbar_size r')"

lemma stage2_loop:
  assumes "alloc_inv C now 0 (length (r_input_unit (rc_router cx))) (rc_router cx)" and "k \<le> length (r_output_unit (rc_router cx))"
  shows "\<exists>cx'. foldM (sa_arbitrate_outport C now) [0..<k] cx = Inr cx' \<and> stage2_inv C now k (rc_router cx) (rc_router cx')"
  using assms(2)
proof (induction k)
  case 0
  then show ?case using assms(1) by (simp add: stage2_inv_def)
next
  case (Suc k)
  let ?r = "rc_router cx" let ?hi = "length (r_input_unit (rc_router cx))"
  from Suc obtain cx1 where c: "foldM (sa_arbitrate_outport C now) [0..<k] cx = Inr cx1" and inv: "stage2_inv C now k ?r (rc_router cx1)" by auto
  have k: "k < length (r_output_unit (rc_router cx1))" "?hi = length (r_input_unit (rc_router cx1))" "alloc_inv C now k ?hi (rc_router cx1)"
    using Suc.prems inv by (simp_all add: stage2_inv_def)
  from arbitrate_outport_ready [OF k(3,1,2)] obtain cx' where a: "sa_arbitrate_outport C now k cx1 = Inr cx'" "alloc_inv C now (Suc k) ?hi (rc_router cx')"
    and g: "cx' = cx1 \<and> (\<forall>j. \<not> requested (rc_router cx1) k j) \<or> (\<exists>i w. i < ?hi \<and> granted k i w (rc_router cx1) (rc_router cx'))" by blast
  have sw: "length (cs_switch_buffer (r_switch (rc_router cx1))) = ?hi" using k(2,3) by (simp add: alloc_inv_def router_ready_def Let_def)
  from g have "stage2_inv C now (Suc k) ?r (rc_router cx')"
  proof
    assume s: "cx' = cx1 \<and> (\<forall>j. \<not> requested (rc_router cx1) k j)"
    then have "\<not> requested ?r k j" for j using inv by (simp add: stage2_inv_def)
    then show ?thesis using s inv a(2) by (auto simp: stage2_inv_def less_Suc_eq)
  next
    assume "\<exists>i w. i < ?hi \<and> granted k i w (rc_router cx1) (rc_router cx')"
    then obtain i w where "i < length (cs_switch_buffer (r_switch (rc_router cx1)))" "granted k i w (rc_router cx1) (rc_router cx')" using sw by auto
    note e = granted_effects [OF this(2,1)]
    show ?thesis using inv a(2) e by (simp add: stage2_inv_def)
  qed
  then show ?case using c a(1) by (simp add: foldM_append)
qed

section \<open>Wakeup\<close>

lemma clear_requests_total: "requests_ok s \<Longrightarrow> \<exists>s'. clear_request_vector s = Inr s'"
proof -
  assume ok: "requests_ok s"
  have "\<exists>rs. foldM (\<lambda>(i, j) reqs. put_at2 reqs i j False) (List.product [0..<sa_num_outports s] [0..<sa_num_inports s]) (sa_port_requests s) = Inr rs \<and>
      map length rs = map length (sa_port_requests s)"
  proof (rule foldM_total)
    fix ij and rs :: "bool list list" assume ij: "ij \<in> set (List.product [0..<sa_num_outports s] [0..<sa_num_inports s])" and m: "map length rs = map length (sa_port_requests s)"
    obtain i j where [simp]: "ij = (i, j)" by (cases ij)
    have "length rs = sa_num_outports s" using ok m by (metis length_map requests_ok_def)
    moreover have "length (rs ! i) = sa_num_inports s"
      using ij ok m calculation by (metis (no_types) requests_ok_def nth_map nth_mem length_map mem_Sigma_iff set_product set_upt atLeastLessThan_iff \<open>ij = (i, j)\<close>)
    ultimately have "put_at2 rs i j False = Inr (rs[i := (rs ! i)[j := False]])" using ij by (simp add: put_at2_eq_Inr)
    then show "\<exists>rs'. (case ij of (i, j) \<Rightarrow> \<lambda>reqs. put_at2 reqs i j False) rs = Inr rs' \<and> map length rs' = map length (sa_port_requests s)"
      using m map_length_put_at2 by fastforce
  qed simp
  then show ?thesis by (auto simp: clear_request_vector_def)
qed

lemma any_ready_total:
  assumes "\<forall>u \<in> set us. in_ready n now u" and "\<forall>(i, j) \<in> set ijs. i < length us \<and> j < n" and "now \<le> t"
  shows "\<exists>b. sa_any_ready us t ijs = Inr b"
  using assms(2)
proof (induction ijs)
  case (Cons ij ijs)
  obtain i j where [simp]: "ij = (i, j)" by (cases ij)
  have "\<exists>b. iu_need_stage (us ! i) (int j) SA_stage t = Inr b" using need_stage_ready [of n now "us ! i" j t] assms(1,3) Cons.prems by auto
  then show ?case using Cons by auto
qed auto

lemma no_requested:
  assumes "router_ready C now r" and "\<forall>row \<in> set (sa_port_requests (r_sw_alloc r)). True \<notin> set row"
  shows "\<not> requested r p i"
proof
  assume "requested r p i"
  moreover have "length (sa_port_requests (r_sw_alloc r)) = length (r_output_unit r)"
    "p < length (r_output_unit r) \<Longrightarrow> length (sa_port_requests (r_sw_alloc r) ! p) = length (r_input_unit r)"
    using router_readyD(1,5,6) [OF assms(1)] by (simp_all add: sa_sizes_ok_def requests_ok_def)
  ultimately show False using assms(2) by (metis (full_types) nth_mem requested_def)
qed

lemma SwitchAllocator_total:
  fixes cx
  defines "r \<equiv> rc_router cx"
  assumes ok: "router_ready C now r" "flits_routed C r" "\<And>p i. \<not> requested r p i"
  shows "\<exists>cx'. SwitchAllocator_wakeup C now cx = Inr cx' \<and> router_ready C now (rc_router cx') \<and> flits_routed C (rc_router cx') \<and>
    (\<forall>i w. \<not> r_halt r \<and> i < length (r_input_unit r) \<and> wants C now r i w \<longrightarrow> xbar_size r < xbar_size (rc_router cx'))"
proof -
  have inv: "alloc_inv C now 0 0 r" using ok by (simp add: alloc_inv_def requests_sound_def)
  have n: "sa_num_inports (r_sw_alloc r) = length (r_input_unit r)" using router_readyD(5) [OF ok(1)] by simp
  have "\<exists>cx1 cx2. arbitrate_inports C now cx = Inr cx1 \<and> arbitrate_outports C now cx1 = Inr cx2 \<and> router_ready C now (rc_router cx2) \<and>
    flits_routed C (rc_router cx2) \<and> (\<forall>i w. \<not> r_halt r \<and> i < length (r_input_unit r) \<and> wants C now r i w \<longrightarrow> xbar_size r < xbar_size (rc_router cx2))"
  proof (cases "r_halt r")
    case True
    then show ?thesis using ok(1,2) by (simp add: arbitrate_inports_def arbitrate_outports_def r_def)
  next
    case False
    from stage1_loop [OF inv [unfolded r_def] order_refl] obtain cx1 where 1: "arbitrate_inports C now cx = Inr cx1"
      and i1: "stage1_inv C now (length (r_input_unit r)) r (rc_router cx1)" using False n by (auto simp: arbitrate_inports_def r_def)
    then have h: "\<not> r_halt (rc_router cx1)" "length (r_input_unit (rc_router cx1)) = length (r_input_unit r)"
      "alloc_inv C now 0 (length (r_input_unit (rc_router cx1))) (rc_router cx1)" "xbar_size (rc_router cx1) = xbar_size r"
      using False by (simp_all add: stage1_inv_def xbar_size_def)
    have m: "sa_num_outports (rc_alloc cx1) = length (r_output_unit (rc_router cx1))"
      using h(3) by (simp add: alloc_inv_def router_ready_def Let_def)
    from stage2_loop [OF h(3) order_refl] obtain cx2 where 2: "arbitrate_outports C now cx1 = Inr cx2"
      and i2: "stage2_inv C now (length (r_output_unit (rc_router cx1))) (rc_router cx1) (rc_router cx2)" using h(1) m by (auto simp: arbitrate_outports_def)
    have "xbar_size r < xbar_size (rc_router cx2)" if "i < length (r_input_unit r)" "wants C now r i w" for i w
      using that i1 i2 h(4) by (simp add: stage1_inv_def stage2_inv_def requested_def) metis
    then show ?thesis using 1 2 i2 by (auto simp: stage2_inv_def alloc_inv_def)
  qed
  then obtain cx1 cx2 where a: "arbitrate_inports C now cx = Inr cx1" "arbitrate_outports C now cx1 = Inr cx2"
    and ok2: "router_ready C now (rc_router cx2)" "flits_routed C (rc_router cx2)"
    and x: "\<forall>i w. \<not> r_halt r \<and> i < length (r_input_unit r) \<and> wants C now r i w \<longrightarrow> xbar_size r < xbar_size (rc_router cx2)" by blast
  have rq: "requests_ok (rc_alloc cx2)" using router_readyD(1) [OF ok2(1)] by (simp add: sa_sizes_ok_def)
  from clear_requests_total [OF rq] obtain s where s: "clear_request_vector (rc_alloc cx2) = Inr s" by blast
  define cx3 where "cx3 = rc_map_alloc (\<lambda>_. s) cx2"
  have r3: "rc_router cx3 = (rc_router cx2)\<lparr>r_sw_alloc := s\<rparr>" by (simp add: cx3_def rc_map_alloc_def)
  obtain qs where qs: "s = (rc_alloc cx2)\<lparr>sa_port_requests := qs\<rparr>" using clear_request_vector_all(3) [OF s rq] by blast
  have "sa_sizes_ok s" using router_readyD(1) [OF ok2(1)] clear_request_vector_all(2) [OF s rq] by (simp add: sa_sizes_ok_def qs)
  then have ok3: "router_ready C now (rc_router cx3)" "flits_routed C (rc_router cx3)" "xbar_size (rc_router cx3) = xbar_size (rc_router cx2)"
    using router_ready_alloc [OF ok2(1)] ok2(2) unfolding r3 by (simp_all add: qs flits_routed_def flit_routed_def xbar_size_def)
  have "\<exists>b. sa_any_ready (r_input_unit (rc_router cx3)) (now + 1)
      (List.product [0..<sa_num_inports (rc_alloc cx3)] [0..<sa_num_vcs (rc_alloc cx3)]) = Inr b"
    by (rule any_ready_total [where n = "sa_num_vcs (rc_alloc cx3)" and now = now]) (use ok3(1) in \<open>auto simp: router_ready_def Let_def\<close>)
  then obtain cx' where c: "check_for_wakeup now cx3 = Inr cx'" "rc_router cx' = rc_router cx3" by (auto simp: check_for_wakeup_def)
  have "SwitchAllocator_wakeup C now cx = Inr cx'" using a s c(1) by (simp add: SwitchAllocator_wakeup_def cx3_def)
  then show ?thesis using c(2) ok3 x by auto
qed

end
