(* ===== verification/Router_Properties.thy ===== *)
theory Router_Properties
  imports Component_Properties Switch_Progress
begin

text \<open>
  What switch allocation and the links guarantee, stated over the operations of the
  model, each with an instance on the network of \<open>Mesh_Example\<close>; and the configuration of the ring.
\<close>

section \<open>Switch allocation\<close>

definition ex_cx :: "bool \<Rightarrow> router_ctx" where
  "ex_cx halt = \<lparr>rc_router = ex_router 0 1 ''East'' 5 4 halt (ex_vc ''East'' 1 (Some (ex_flit 7 0 1))) (ex_ovc True) [],
     rc_stats = ex_stats, rc_events = []\<rparr>"

lemmas sa_eval = SwitchAllocator_wakeup_def arbitrate_inports_def arbitrate_outports_def sa_arbitrate_inport_def
  sa_try_invc_def rc_input_def iu_need_stage_def iu_read_def vc_need_stage_def isReady_def peekTopFlit_def is_stage_def
  sa_check_uturn_def sa_set_uturn_def iu_peekTopFlit_def vc_peekTopFlit_def iu_modify_def vc_update_top_def update_top_def
  rc_put_input_def rc_put_output_def sa_is_uturn_def rc_map_stats_def send_allowed_def sa_get_vnet_def ou_has_free_vc_def
  vnet_vcs_def ou_is_vc_idle_def ovc_isInState_def isVNetOrdered_def sa_request_def put_at2_def at2_def rc_map_alloc_def
  sa_arbitrate_outport_def sa_grant_def sa_next_invc_def iu_get_outvc_def vc_allocate_def rc_output_def
  ou_select_free_vc_def ou_modify_def iu_grant_outvc_def sa_uturn_won_def sa_send_def iu_getTopFlit_def vc_getTopFlit_def
  getTopFlit_def pop_heap_def ou_decrement_credit_def ovc_decrement_credit_def grant_switch_def update_sw_winner_def
  sa_return_credit_def is_tail_def iu_isReady_def vc_isReady_def iu_set_vc_idle_def vc_set_idle_def iu_increment_credit_def
  Credit_new_def insert_flit_def push_heap_def push_up_0 sa_end_grant_def clear_request_vector_def check_for_wakeup_def
  ex_cx_def ex_held_def ex_flit_def flit_new_def ex_raw_flit_def ovc_setState_def flit_setters vc_insertFlit_def vc_set_active_def
  VirtualChannel_new_def flitBuffer_new_def rr_next_def ex_defs at_def put_at_def assert_that_def

lemma ex_cx_runs: "\<exists>cx'. SwitchAllocator_wakeup (ex_config 0) 0 (ex_cx False) = Inr cx'"
  by (simp add: sa_eval upt_rec numeral_2_eq_2 Let_def cong: bnd_weak_cong)

text \<open>
  C20. If no request is left over when switch allocation starts, then afterwards none is left over either
  (so this holds in every cycle), and in between every input port has put at most one flit into the
  crossbar.
\<close>

theorem one_flit_per_input_port:
  assumes "SwitchAllocator_wakeup C now cx = Inr cx'" and "requests_ok (rc_alloc cx)"
    and "\<forall>row \<in> set (sa_port_requests (rc_alloc cx)). True \<notin> set row" and "i < sa_num_inports (rc_alloc cx)"
  shows "sw_size cx' i \<le> sw_size cx i + 1 \<and> requests_ok (rc_alloc cx') \<and>
    (\<forall>row \<in> set (sa_port_requests (rc_alloc cx')). True \<notin> set row)"
  using SwitchAllocator_one_per_inport [OF assms(1) pending_0 [OF assms(2-4)]] SwitchAllocator_wakeup_clears [OF assms(1,2)]
  by blast

theorem one_flit_per_input_port_witness:
  "\<exists>cx'. SwitchAllocator_wakeup (ex_config 0) 0 (ex_cx False) = Inr cx' \<and> sw_size cx' 1 \<le> sw_size (ex_cx False) 1 + 1"
proof -
  have h: "requests_ok (rc_alloc (ex_cx False))" "\<forall>row \<in> set (sa_port_requests (rc_alloc (ex_cx False))). True \<notin> set row"
      "1 < sa_num_inports (rc_alloc (ex_cx False))"
    by (simp_all add: ex_cx_def ex_router_def requests_ok_def)
  from ex_cx_runs one_flit_per_input_port [OF _ h, of "ex_config 0" 0] show ?thesis by blast
qed

text \<open>
  C21. Every output port accepts at most one flit per cycle: over all its channels it gives away at most
  one credit, and every credit counter that was within its bounds stays within them.
\<close>

theorem one_flit_per_output_port:
  assumes "SwitchAllocator_wakeup C now cx = Inr cx'" and "p < length (r_output_unit (rc_router cx))"
    and "ou_inv (r_output_unit (rc_router cx) ! p)"
  shows "credit_sum (r_output_unit (rc_router cx) ! p) - 1 \<le> credit_sum (r_output_unit (rc_router cx') ! p) \<and>
    ou_inv (r_output_unit (rc_router cx') ! p)"
  using SwitchAllocator_one_per_outport(2,3) [OF assms(1,2)] assms(3) by blast

theorem one_flit_per_output_port_witness:
  "\<exists>cx'. SwitchAllocator_wakeup (ex_config 0) 0 (ex_cx False) = Inr cx' \<and>
     0 \<le> credit_sum (r_output_unit (rc_router cx') ! 1)"
proof -
  have h: "1 < length (r_output_unit (rc_router (ex_cx False)))" "ou_inv (r_output_unit (rc_router (ex_cx False)) ! 1)"
      and c: "credit_sum (r_output_unit (rc_router (ex_cx False)) ! 1) = 1"
    by (simp_all add: ex_cx_def ex_router_def ou_inv_def ex_out_def ex_ovc_def credit_inv_def credit_sum_def)
  from ex_cx_runs one_flit_per_output_port [OF _ h, of "ex_config 0" 0] c show ?thesis by auto
qed

text \<open>
  C6. Switch allocation never fails and never stalls. In a router whose tables have the sizes that \<open>init\<close> gives them, whose
  channels hold at most one flit and that flit is the tail of its packet and routed to an existing port, whose idle output
  channels have a credit and whose request matrix is empty, the whole wakeup returns: no index is out of range and no
  assertion fails, in particular a winner of the first stage finds a free output channel with a credit when it is granted.
  The router it leaves is again of this kind. And if the router is not halted and some channel holds a flit which is ready
  and has a free channel at its output port (and is not to be deflected), then at least one flit enters the crossbar.
\<close>

theorem switch_allocation_never_fails:
  assumes "router_ready C now (rc_router cx)" and "flits_routed C (rc_router cx)"
    and "\<forall>row \<in> set (sa_port_requests (rc_alloc cx)). True \<notin> set row"
  shows "\<exists>cx'. SwitchAllocator_wakeup C now cx = Inr cx' \<and> router_ready C now (rc_router cx') \<and> flits_routed C (rc_router cx') \<and>
    (\<forall>row \<in> set (sa_port_requests (rc_alloc cx')). True \<notin> set row) \<and>
    (\<forall>i w. \<not> r_halt (rc_router cx) \<and> i < length (r_input_unit (rc_router cx)) \<and> wants C now (rc_router cx) i w \<longrightarrow>
       xbar_size (rc_router cx) < xbar_size (rc_router cx'))"
proof -
  have "\<not> requested (rc_router cx) p i" for p i by (rule no_requested [OF assms(1,3)])
  from SwitchAllocator_total [OF assms(1,2) this] obtain cx' where c: "SwitchAllocator_wakeup C now cx = Inr cx'"
    "router_ready C now (rc_router cx')" "flits_routed C (rc_router cx')"
    "\<forall>i w. \<not> r_halt (rc_router cx) \<and> i < length (r_input_unit (rc_router cx)) \<and> wants C now (rc_router cx) i w \<longrightarrow>
       xbar_size (rc_router cx) < xbar_size (rc_router cx')" by blast
  have "requests_ok (rc_alloc cx)" using router_readyD(1) [OF assms(1)] by (simp add: sa_sizes_ok_def)
  then show ?thesis using c SwitchAllocator_wakeup_clears [OF c(1)] by blast
qed

lemma ex_cx_ready:
  "router_ready (ex_config 0) 0 (rc_router (ex_cx False))" "flits_routed (ex_config 0) (rc_router (ex_cx False))"
  "wants (ex_config 0) 0 (rc_router (ex_cx False)) 1 0"
  by (simp_all add: router_ready_def sa_sizes_ok_def requests_ok_def in_ready_def chan_ready_def out_ready_def flits_routed_def flit_routed_def
      wants_def sa_eval upt_rec numeral_2_eq_2 Let_def cong: bnd_weak_cong)

theorem switch_allocation_never_fails_witness:
  "\<exists>cx'. SwitchAllocator_wakeup (ex_config 0) 0 (ex_cx False) = Inr cx' \<and> xbar_size (rc_router (ex_cx False)) = 0 \<and>
     0 < xbar_size (rc_router cx')"
proof -
  have h: "\<forall>row \<in> set (sa_port_requests (rc_alloc (ex_cx False))). True \<notin> set row" "\<not> r_halt (rc_router (ex_cx False))"
    "1 < length (r_input_unit (rc_router (ex_cx False)))" "xbar_size (rc_router (ex_cx False)) = 0"
    by (simp_all add: ex_cx_def ex_router_def xbar_size_def flitBuffer_new_def getSize_def)
  from switch_allocation_never_fails [OF ex_cx_ready(1,2) h(1)] ex_cx_ready(3) h(2-4) show ?thesis by metis
qed

text \<open>
  In a halted router switch allocation moves nothing: nothing of the router changes but the request
  matrix, and no statistic.
\<close>

lemma halted_router_allocates_nothing:
  assumes "r_halt (rc_router cx)" and "SwitchAllocator_wakeup C now cx = Inr cx'"
  shows "(\<exists>reqs. rc_router cx' = (rc_router cx)\<lparr>r_sw_alloc := (rc_alloc cx)\<lparr>sa_port_requests := reqs\<rparr>\<rparr>) \<and>
    rc_stats cx' = rc_stats cx"
  using SwitchAllocator_wakeup_halted [OF assms] by blast

lemma halted_router_allocates_nothing_witness:
  "\<exists>cx' reqs. SwitchAllocator_wakeup (ex_config 0) 0 (ex_cx True) = Inr cx' \<and>
     rc_router cx' = (rc_router (ex_cx True))\<lparr>r_sw_alloc := (rc_alloc (ex_cx True))\<lparr>sa_port_requests := reqs\<rparr>\<rparr>"
proof -
  have "r_halt (rc_router (ex_cx True))" by (simp add: ex_cx_def ex_router_def)
  moreover have "\<exists>cx'. SwitchAllocator_wakeup (ex_config 0) 0 (ex_cx True) = Inr cx'"
    by (simp add: sa_eval upt_rec numeral_2_eq_2 Let_def cong: bnd_weak_cong)
  ultimately show ?thesis using halted_router_allocates_nothing [of "ex_cx True" "ex_config 0" 0] by blast
qed

text \<open>A flit of an ordered virtual network that may be sent.\<close>

lemma ex_ordered_send: "send_allowed ((ex_config 0)\<lparr>nc_ordered := [True]\<rparr>) 0 (rc_router (ex_cx False)) 1 0 1 (-1) = Inr True"
  by (simp add: sa_eval iu_get_enqueue_time_def iu_get_outport_def upt_rec Let_def cong: bnd_weak_cong)

section \<open>Links\<close>

text \<open>
  A link delivers with its latency: if a flit of the source queue is due, the link takes the first
  one, puts it into its buffer stamped with the current cycle plus the latency and schedules its consumer
  for exactly that cycle; nothing else is moved, and no flit is lost.
\<close>

lemma link_delivers_after_latency:
  assumes "link_transfer now src l = Inr (src', l', es)" and "isReady src now"
  shows "\<exists>f c. getTopFlit src = Inr (f, src') \<and> nl_consumer l = Some c \<and> es = [(c, now + nl_latency l)] \<and>
    nl_linkBuffer l' = insert_flit (set_time (now + nl_latency l) f) (nl_linkBuffer l) \<and>
    image_mset flit_tag_of (flits_of src') + image_mset flit_tag_of (flits_of (nl_linkBuffer l')) =
      image_mset flit_tag_of (flits_of src) + image_mset flit_tag_of (flits_of (nl_linkBuffer l))"
  using link_transfer_ready [OF assms] link_transfer_tags [OF assms(1)] by blast

lemma link_delivers_after_latency_witness:
  "\<exists>src' l'. link_transfer 3 (insert_flit (ex_flit 7 0 1) flitBuffer_new)
     (ex_link INT_link (RouterConsumer 1) (RouterOut 0 1) flitBuffer_new) = Inr (src', l', [(RouterConsumer 1, 4)])"
proof -
  let ?src = "insert_flit (ex_flit 7 0 1) flitBuffer_new" and ?l = "ex_link INT_link (RouterConsumer 1) (RouterOut 0 1) flitBuffer_new"
  have r: "isReady ?src 3" by (simp add: sa_eval)
  obtain src' l' es where t: "link_transfer 3 ?src ?l = Inr (src', l', es)"
    by (simp add: link_transfer_def sa_eval Let_def cong: bnd_weak_cong)
  from link_delivers_after_latency [OF t r] have "es = [(RouterConsumer 1, 4)]" by (auto simp: ex_link_def)
  with t show ?thesis by blast
qed

section \<open>The configuration of the ring\<close>

text \<open>
  C25. Reading back what was written: for every list of ring entries (router number and direction, the
  last router being the neighbour of router 0 in its row or column), written with one entry per line,
  \<open>init_spinRing\<close> builds the ring with exactly these nodes, preceded and followed by the port of router 0
  that closes it.
\<close>

theorem ring_file_roundtrip:
  assumes "es \<noteq> []" "list_all ring_entry_ok es" and "int (fst (last es)) = 1 \<or> int (fst (last es)) = rows"
  shows "init_spinRing rows (Some (show_ring es)) =
    (let first = spinStruct_new 0 (if fst (last es) = 1 then ''East'' else ''North'')
     in Inr (first # map (\<lambda>(i, d). spinStruct_new (int i) d) es @ [first]))"
  by (rule init_spinRing_show [OF assms])

theorem ring_file_roundtrip_witness:
  "init_spinRing 2 (Some (show_ring [(1, ''West''), (3, ''South''), (2, ''East'')])) =
    Inr [spinStruct_new 0 ''North'', spinStruct_new 1 ''West'', spinStruct_new 3 ''South'', spinStruct_new 2 ''East'',
         spinStruct_new 0 ''North'']"
  using ring_file_roundtrip [of "[(1, ''West''), (3, ''South''), (2, ''East'')]" 2]
  by (simp add: ring_entry_ok_def compass_def Let_def)

text \<open>
  C26. A configuration file that ends in white space, such as a final newline, is refused: the loop tests
  for the end of the file before it reads, so it reads past the last entry, keeps the last direction name
  and takes it for an illegal letter.
\<close>

theorem ring_file_trailing_newline_refused:
  assumes "es \<noteq> []" "list_all ring_entry_ok es" and "ws \<noteq> []" "list_all is_space ws"
  shows "init_spinRing rows (Some (show_ring es @ ws)) = Inl (Fatal ''Illegal direction name or format'')"
  by (rule init_spinRing_trailing_space [OF assms])

theorem ring_file_trailing_newline_refused_witness:
  "init_spinRing 1 (Some (show_ring [(1, ''West'')] @ [CHR 0x0A])) = Inl (Fatal ''Illegal direction name or format'')"
  using ring_file_trailing_newline_refused [of "[(1, ''West'')]" "[CHR 0x0A]" 1]
  by (simp add: ring_entry_ok_def compass_def is_space_def)

end
