(* ===== verification/Shortest_Path.thy ===== *)
theory Shortest_Path
  imports Garnet_Prelude
begin

text \<open>
  The all-pairs shortest path computation of \<open>Topology\<close> (src/gem5/src/mem/ruby/network/Topology.cc):
  \<open>extend_shortest_path\<close> and \<open>shortest_path\<close>. The matrices of distances, latencies and intermediate switches
  are the record \<open>path_state\<close>; \<open>relax_k\<close> is the innermost loop body, \<open>relax_pair\<close> the body of the two loops over
  pairs, \<open>relax_sweep\<close> one pass and \<open>extend_shortest_path\<close> the loop \<open>while (change)\<close>. That loop does not end for
  every matrix (a cycle of negative weight lowers distances forever), so it is an optional value:
  \<open>None\<close> is a loop that does not end.

  For matrices with weights that are not negative the loop ends, no assertion in it fails and no index
  leaves a matrix; the distances are the least weights of walks, and the latencies and the numbers of
  intermediate switches are those of a walk of least weight.
\<close>

section \<open>The program\<close>

type_synonym matrix = "int list list"

record path_state =
  ps_dist :: matrix
  ps_latencies :: matrix
  ps_inter_switches :: matrix

definition INFINITE_LATENCY :: int where
  "INFINITE_LATENCY = 10000"

text \<open>
  The state of the loop over \<open>k\<close>: \<open>minimum\<close>, \<open>previous_minimum\<close>, \<open>intermediate_switch\<close> and \<open>inter_switches\<close>.
\<close>

definition relax_k ::
    "matrix \<Rightarrow> nat \<Rightarrow> nat \<Rightarrow> nat \<Rightarrow> int \<times> int \<times> int \<times> matrix \<Rightarrow> (int \<times> int \<times> int \<times> matrix) res" where
  "relax_k dist i j k s =
     (case s of (minimum, previous_minimum, intermediate_switch, isw) \<Rightarrow>
      bnd (at2 dist i k) (\<lambda>dik.
      bnd (at2 dist k j) (\<lambda>dkj.
      let m = min minimum (dik + dkj) in
      if previous_minimum \<noteq> m then
        bnd (at2 isw i k) (\<lambda>a.
        bnd (at2 isw k j) (\<lambda>b.
        bnd (put_at2 isw i j (a + b + 1)) (\<lambda>isw'.
        Inr (m, m, int k, isw'))))
      else Inr (m, m, intermediate_switch, isw))))"

definition relax_pair :: "nat \<Rightarrow> nat \<times> nat \<Rightarrow> path_state \<times> bool \<Rightarrow> (path_state \<times> bool) res" where
  "relax_pair nodes p st =
     (case (p, st) of ((i, j), (s, change)) \<Rightarrow>
      bnd (at2 (ps_dist s) i j) (\<lambda>d.
      bnd (foldM (relax_k (ps_dist s) i j) [0..<nodes] (d, d, -1, ps_inter_switches s))
        (\<lambda>(minimum, previous_minimum, intermediate_switch, isw).
      if d \<noteq> minimum then
        bnd (put_at2 (ps_dist s) i j minimum) (\<lambda>dist'.
        bnd (assert_that (0 \<le> intermediate_switch)) (\<lambda>_.
        bnd (at (ps_latencies s) (int i)) (\<lambda>row.
        bnd (assert_that (intermediate_switch < int (length row))) (\<lambda>_.
        bnd (at2 (ps_latencies s) i (nat intermediate_switch)) (\<lambda>a.
        bnd (at2 (ps_latencies s) (nat intermediate_switch) j) (\<lambda>b.
        bnd (put_at2 (ps_latencies s) i j (a + b)) (\<lambda>lat'.
        Inr (\<lparr>ps_dist = dist', ps_latencies = lat', ps_inter_switches = isw\<rparr>, True))))))))
      else Inr (s\<lparr>ps_inter_switches := isw\<rparr>, change))))"

definition relax_sweep :: "path_state \<Rightarrow> (path_state \<times> bool) res" where
  "relax_sweep s =
     (let nodes = length (ps_dist s) in
      foldM (relax_pair nodes) (List.product [0..<nodes] [0..<nodes]) (s, False))"

partial_function (option) extend_shortest_path :: "path_state \<Rightarrow> path_state res option" where
  "extend_shortest_path s =
     (case relax_sweep s of
        Inl e \<Rightarrow> Some (Inl e)
      | Inr (s', change) \<Rightarrow> if change then extend_shortest_path s' else Some (Inr s'))"

definition shortest_path :: "matrix \<Rightarrow> matrix \<Rightarrow> matrix \<Rightarrow> path_state res option" where
  "shortest_path weights latencies inter_switches =
     extend_shortest_path \<lparr>ps_dist = weights, ps_latencies = latencies, ps_inter_switches = inter_switches\<rparr>"

definition link_is_shortest_path_to_node :: "nat \<Rightarrow> nat \<Rightarrow> nat \<Rightarrow> matrix \<Rightarrow> matrix \<Rightarrow> bool res" where
  "link_is_shortest_path_to_node src nxt final weights dist =
     bnd (at2 weights src nxt) (\<lambda>w. bnd (at2 dist nxt final) (\<lambda>d. bnd (at2 dist src final) (\<lambda>e.
     Inr (w + d = e))))"

section \<open>Walks\<close>

text \<open>A walk from \<open>i\<close> is the list of the nodes that follow \<open>i\<close>.\<close>

fun walk_sum :: "matrix \<Rightarrow> nat \<Rightarrow> nat list \<Rightarrow> int" where
  "walk_sum W i [] = 0"
| "walk_sum W i (k # ks) = W ! i ! k + walk_sum W k ks"

definition walk :: "nat \<Rightarrow> nat \<Rightarrow> nat list \<Rightarrow> nat \<Rightarrow> bool" where
  "walk n i ks j \<longleftrightarrow> set ks \<subseteq> {..<n} \<and> last (i # ks) = j"

definition square :: "nat \<Rightarrow> matrix \<Rightarrow> bool" where
  "square n M \<longleftrightarrow> length M = n \<and> (\<forall>row \<in> set M. length row = n)"

definition weights_ok :: "nat \<Rightarrow> matrix \<Rightarrow> bool" where
  "weights_ok n W \<longleftrightarrow> square n W \<and> (\<forall>i < n. \<forall>j < n. 0 \<le> W ! i ! j) \<and> (\<forall>i < n. W ! i ! i = 0)"

text \<open>\<open>D\<close> is the matrix of least walk weights.\<close>

definition is_distance :: "nat \<Rightarrow> matrix \<Rightarrow> matrix \<Rightarrow> bool" where
  "is_distance n W D \<longleftrightarrow> square n D \<and> (\<forall>i < n. \<forall>j < n.
     (\<exists>ks. walk n i ks j \<and> walk_sum W i ks = D ! i ! j) \<and>
     (\<forall>ks. walk n i ks j \<longrightarrow> D ! i ! j \<le> walk_sum W i ks))"

lemma walk_sum_append: "walk_sum W i (ks @ ls) = walk_sum W i ks + walk_sum W (last (i # ks)) ls"
  by (induction ks arbitrary: i) auto

lemma walk_append: "walk n i ks k \<Longrightarrow> walk n k ls j \<Longrightarrow> walk n i (ks @ ls) j"
  by (auto simp: walk_def last_append split: if_splits)

lemma walk_sum_join: "walk n i ks k \<Longrightarrow> walk_sum W i (ks @ ls) = walk_sum W i ks + walk_sum W k ls"
  by (simp add: walk_sum_append walk_def)

lemma walk_Cons: "walk n i (k # ks) j \<longleftrightarrow> k < n \<and> walk n k ks j"
  by (auto simp: walk_def)

lemma walk_Nil [simp]: "walk n i [] j \<longleftrightarrow> i = j"
  by (simp add: walk_def)

lemma walk_sum_nonneg:
  assumes "weights_ok n W"
  shows "i < n \<Longrightarrow> set ks \<subseteq> {..<n} \<Longrightarrow> 0 \<le> walk_sum W i ks"
  using assms by (induction ks arbitrary: i) (auto simp: weights_ok_def)

section \<open>Square matrices\<close>

lemma square_row: "square n M \<Longrightarrow> i < n \<Longrightarrow> length (M ! i) = n"
  by (auto simp: square_def)

lemma square_length: "square n M \<Longrightarrow> length M = n"
  by (simp add: square_def)

lemma at2_square: "square n M \<Longrightarrow> i < n \<Longrightarrow> j < n \<Longrightarrow> at2 M i j = Inr (M ! i ! j)"
  by (simp add: at2_eq_Inr square_row square_length)

lemma put_at2_square:
  "square n M \<Longrightarrow> i < n \<Longrightarrow> j < n \<Longrightarrow> put_at2 M i j x = Inr (M[i := (M ! i)[j := x]])"
  by (simp add: put_at2_eq_Inr square_row square_length)

lemma square_put: "square n M \<Longrightarrow> i < n \<Longrightarrow> square n (M[i := (M ! i)[j := x]])"
  using set_update_subset_insert [of M i "(M ! i)[j := x]"] by (auto simp: square_def)

lemma put_entry:
  assumes "square n M" and "i < n" and "j < n" and "a < n"
  shows "M[i := (M ! i)[j := x]] ! a ! b = (if a = i \<and> b = j then x else M ! a ! b)"
  using assms by (auto simp: nth_list_update square_row square_length)

lemmas square_simps = at2_square put_at2_square square_put

section \<open>One pair\<close>

abbreviation upd :: "matrix \<Rightarrow> nat \<Rightarrow> nat \<Rightarrow> int \<Rightarrow> matrix" where
  "upd M i j x \<equiv> M[i := (M ! i)[j := x]]"

lemma upd_upd: "i < length M \<Longrightarrow> upd (upd M i j x) i j y = upd M i j y"
  by simp

text \<open>
  The loop over \<open>k\<close> computes the minimum over the detours. If it improves on the start value, the switch it
  remembers is one of the detours that attain the minimum, and the number of intermediate switches is
  that of this detour.
\<close>

abbreviation best :: "matrix \<Rightarrow> nat \<Rightarrow> nat \<Rightarrow> nat list \<Rightarrow> int \<Rightarrow> int" where
  "best D i j ks m \<equiv> fold (\<lambda>k m. min m (D ! i ! k + D ! k ! j)) ks m"

lemma best_le: "best D i j ks m \<le> m"
proof (induction ks arbitrary: m)
  case (Cons l ks)
  from Cons.IH [of "min m (D ! i ! l + D ! l ! j)"] show ?case by simp
qed simp

lemma best_least: "k \<in> set ks \<Longrightarrow> best D i j ks m \<le> D ! i ! k + D ! k ! j"
proof (induction ks arbitrary: m)
  case (Cons l ks)
  then show ?case using best_le [of D i j ks "min m (D ! i ! l + D ! l ! j)"] by auto
qed simp

definition relaxed :: "nat \<Rightarrow> matrix \<Rightarrow> nat \<Rightarrow> nat \<Rightarrow> matrix \<Rightarrow> int \<Rightarrow> int \<Rightarrow> int \<Rightarrow> int \<Rightarrow> matrix \<Rightarrow> bool" where
  "relaxed n D i j S m b k0 k' S' \<longleftrightarrow>
     (if b = m then k' = k0 \<and> S' = S
      else \<exists>k < n. k \<noteq> i \<and> k \<noteq> j \<and> k' = int k \<and> b = D ! i ! k + D ! k ! j \<and>
        S' = upd S i j (S ! i ! k + S ! k ! j + 1))"

lemma relax_k_loop:
  assumes D: "square n D" "D ! i ! i = 0" "D ! j ! j = 0" and i: "i < n" "j < n"
  shows "square n S \<Longrightarrow> set ks \<subseteq> {..<n} \<Longrightarrow> m \<le> D ! i ! j \<Longrightarrow>
    \<exists>k' S'. foldM (relax_k D i j) ks (m, m, k0, S) = Inr (best D i j ks m, best D i j ks m, k', S') \<and>
      relaxed n D i j S m (best D i j ks m) k0 k' S'"
proof (induction ks arbitrary: m k0 S)
  case (Cons l ks)
  let ?m = "min m (D ! i ! l + D ! l ! j)"
  have l: "l < n" using Cons.prems(2) by simp
  show ?case
  proof (cases "?m = m")
    case True
    then have "relax_k D i j l (m, m, k0, S) = Inr (m, m, k0, S)"
      by (simp add: relax_k_def at2_square [OF D(1)] i l Let_def)
    with Cons.IH [OF Cons.prems(1) _ Cons.prems(3), of k0] Cons.prems(2) True show ?thesis by simp
  next
    case False
    then have m: "?m = D ! i ! l + D ! l ! j" "?m < m" by auto
    then have lij: "l \<noteq> i" "l \<noteq> j" using Cons.prems(3) D(2,3) by auto
    let ?S = "upd S i j (S ! i ! l + S ! l ! j + 1)"
    have step: "relax_k D i j l (m, m, k0, S) = Inr (?m, ?m, int l, ?S)"
      using m(2) by (auto simp: relax_k_def square_simps [OF D(1)] square_simps [OF Cons.prems(1)] i l Let_def)
    have "?m \<le> D ! i ! j" using m(2) Cons.prems(3) by simp
    from Cons.IH [OF square_put [OF Cons.prems(1) i(1), of j "S ! i ! l + S ! l ! j + 1"] _ this, of "int l"] Cons.prems(2)
    obtain k' S' where f: "foldM (relax_k D i j) ks (?m, ?m, int l, ?S) = Inr (best D i j ks ?m, best D i j ks ?m, k', S')"
      and r: "relaxed n D i j ?S ?m (best D i j ks ?m) (int l) k' S'" by auto
    note r = r [unfolded relaxed_def]
    have less: "best D i j ks ?m \<noteq> m" using best_le [of D i j ks ?m] m(2) by linarith
    have "\<exists>k < n. k \<noteq> i \<and> k \<noteq> j \<and> k' = int k \<and> best D i j ks ?m = D ! i ! k + D ! k ! j \<and>
         S' = upd S i j (S ! i ! k + S ! k ! j + 1)"
    proof (cases "best D i j ks ?m = ?m")
      case True
      then show ?thesis using r l lij m(1) by auto
    next
      case False
      then show ?thesis using r i put_entry [OF Cons.prems(1) i] by (auto simp: square_length [OF Cons.prems(1)])
    qed
    then show ?thesis using f step less by (auto simp: relaxed_def)
  qed
qed (simp add: relaxed_def)

section \<open>The invariant of the loop\<close>

definition path_inv :: "nat \<Rightarrow> matrix \<Rightarrow> matrix \<Rightarrow> path_state \<Rightarrow> bool" where
  "path_inv n W L s \<longleftrightarrow> square n (ps_dist s) \<and> square n (ps_latencies s) \<and> square n (ps_inter_switches s) \<and>
     (\<forall>i < n. ps_dist s ! i ! i = 0) \<and>
     (\<forall>i < n. \<forall>j < n. ps_dist s ! i ! j \<le> W ! i ! j) \<and>
     (\<forall>i < n. \<forall>j < n. i \<noteq> j \<longrightarrow> (\<exists>ks. walk n i ks j \<and> walk_sum W i ks = ps_dist s ! i ! j \<and>
        walk_sum L i ks = ps_latencies s ! i ! j \<and> int (length ks) = ps_inter_switches s ! i ! j + 1))"

lemma path_inv_nonneg:
  assumes "path_inv n W L s" and "weights_ok n W" and "i < n" and "j < n"
  shows "0 \<le> ps_dist s ! i ! j"
proof (cases "i = j")
  case False
  with assms obtain ks where "walk n i ks j" "walk_sum W i ks = ps_dist s ! i ! j"
    unfolding path_inv_def by blast
  then show ?thesis using walk_sum_nonneg [OF assms(2,3), of ks] by (simp add: walk_def)
qed (use assms in \<open>simp add: path_inv_def\<close>)

text \<open>The two outcomes of the body of the loops over pairs.\<close>

lemma relax_pair_cases [consumes 3, case_names same shorter]:
  assumes inv: "path_inv n W L s" and i: "i < n" "j < n"
  obtains (same) "relax_pair n (i, j) (s, change) = Inr (s, change)"
      and "\<forall>k < n. ps_dist s ! i ! j \<le> ps_dist s ! i ! k + ps_dist s ! k ! j"
    | (shorter) k where "k < n" "k \<noteq> i" "k \<noteq> j" "ps_dist s ! i ! k + ps_dist s ! k ! j < ps_dist s ! i ! j"
      "relax_pair n (i, j) (s, change) =
         Inr (\<lparr>ps_dist = upd (ps_dist s) i j (ps_dist s ! i ! k + ps_dist s ! k ! j),
               ps_latencies = upd (ps_latencies s) i j (ps_latencies s ! i ! k + ps_latencies s ! k ! j),
               ps_inter_switches = upd (ps_inter_switches s) i j
                 (ps_inter_switches s ! i ! k + ps_inter_switches s ! k ! j + 1)\<rparr>, True)"
proof -
  let ?D = "ps_dist s"
  have sq: "square n ?D" "square n (ps_latencies s)" "square n (ps_inter_switches s)"
    and d0: "?D ! i ! i = 0" "?D ! j ! j = 0"
    using inv i by (simp_all add: path_inv_def)
  let ?b = "best ?D i j [0..<n] (?D ! i ! j)"
  from relax_k_loop [OF sq(1) d0 i sq(3), of "[0..<n]" "?D ! i ! j" "-1"] obtain k' S' where
    f: "foldM (relax_k ?D i j) [0..<n] (?D ! i ! j, ?D ! i ! j, -1, ps_inter_switches s) = Inr (?b, ?b, k', S')"
    and r: "relaxed n ?D i j (ps_inter_switches s) (?D ! i ! j) ?b (-1) k' S'"
    by (auto simp: atLeast0LessThan)
  note r = r [unfolded relaxed_def]
  show ?thesis
  proof (cases "?b = ?D ! i ! j")
    case True
    have "\<forall>k < n. ?D ! i ! j \<le> ?D ! i ! k + ?D ! k ! j"
      using best_least [of _ "[0..<n]" ?D i j "?D ! i ! j"] True by auto
    moreover have "relax_pair n (i, j) (s, change) = Inr (s, change)"
      using f r True by (simp add: relax_pair_def at2_square [OF sq(1) i])
    ultimately show ?thesis using same by blast
  next
    case False
    with r obtain k where k: "k < n" "k \<noteq> i" "k \<noteq> j" "k' = int k" "?b = ?D ! i ! k + ?D ! k ! j"
      "S' = upd (ps_inter_switches s) i j (ps_inter_switches s ! i ! k + ps_inter_switches s ! k ! j + 1)" by auto
    have "?b < ?D ! i ! j" using False best_le [of ?D i j "[0..<n]" "?D ! i ! j"] by linarith
    moreover have "relax_pair n (i, j) (s, change) =
       Inr (\<lparr>ps_dist = upd ?D i j (?D ! i ! k + ?D ! k ! j),
             ps_latencies = upd (ps_latencies s) i j (ps_latencies s ! i ! k + ps_latencies s ! k ! j),
             ps_inter_switches = S'\<rparr>, True)"
      using f False k(1,4) i
      by (simp add: relax_pair_def square_simps [OF sq(1)] square_simps [OF sq(2)] square_length [OF sq(2)]
          square_row [OF sq(2)] at_def flip: k(5))
    ultimately show ?thesis using shorter [OF k(1-3)] k(5,6) by simp
  qed
qed

lemma path_inv_shorter:
  assumes inv: "path_inv n W L s" and i: "i < n" "j < n"
    and k: "k < n" "k \<noteq> i" "k \<noteq> j" "ps_dist s ! i ! k + ps_dist s ! k ! j < ps_dist s ! i ! j"
    and pos: "i = j \<Longrightarrow> 0 \<le> ps_dist s ! i ! k + ps_dist s ! k ! j"
  shows "path_inv n W L \<lparr>ps_dist = upd (ps_dist s) i j (ps_dist s ! i ! k + ps_dist s ! k ! j),
               ps_latencies = upd (ps_latencies s) i j (ps_latencies s ! i ! k + ps_latencies s ! k ! j),
               ps_inter_switches = upd (ps_inter_switches s) i j
                 (ps_inter_switches s ! i ! k + ps_inter_switches s ! k ! j + 1)\<rparr>"
proof -
  have sq: "square n (ps_dist s)" "square n (ps_latencies s)" "square n (ps_inter_switches s)"
    using inv by (simp_all add: path_inv_def)
  have ij: "i \<noteq> j" using k(4) pos inv i by (auto simp: path_inv_def)
  have w: "\<exists>ks. walk n a ks b \<and> walk_sum W a ks = ps_dist s ! a ! b \<and>
        walk_sum L a ks = ps_latencies s ! a ! b \<and> int (length ks) = ps_inter_switches s ! a ! b + 1"
    if "a < n" "b < n" "a \<noteq> b" for a b
    using inv that unfolding path_inv_def by blast
  from w [OF i(1) k(1)] k(2) obtain ks where ks: "walk n i ks k" "walk_sum W i ks = ps_dist s ! i ! k"
    "walk_sum L i ks = ps_latencies s ! i ! k" "int (length ks) = ps_inter_switches s ! i ! k + 1" by auto
  from w [OF k(1) i(2) k(3)] obtain ls where ls: "walk n k ls j" "walk_sum W k ls = ps_dist s ! k ! j"
    "walk_sum L k ls = ps_latencies s ! k ! j" "int (length ls) = ps_inter_switches s ! k ! j + 1" by auto
  have "walk n i (ks @ ls) j" "walk_sum W i (ks @ ls) = ps_dist s ! i ! k + ps_dist s ! k ! j"
    "walk_sum L i (ks @ ls) = ps_latencies s ! i ! k + ps_latencies s ! k ! j"
    "int (length (ks @ ls)) = ps_inter_switches s ! i ! k + ps_inter_switches s ! k ! j + 1 + 1"
    using ks ls by (simp_all add: walk_append [OF ks(1) ls(1)] walk_sum_join [OF ks(1)])
  then have new: "\<exists>ks. walk n i ks j \<and> walk_sum W i ks = ps_dist s ! i ! k + ps_dist s ! k ! j \<and>
    walk_sum L i ks = ps_latencies s ! i ! k + ps_latencies s ! k ! j \<and>
    int (length ks) = ps_inter_switches s ! i ! k + ps_inter_switches s ! k ! j + 1 + 1" by blast
  have "ps_dist s ! a ! b \<le> W ! a ! b" if "a < n" "b < n" for a b using inv that by (simp add: path_inv_def)
  moreover have "ps_dist s ! a ! a = 0" if "a < n" for a using inv that by (simp add: path_inv_def)
  ultimately show ?thesis
    unfolding path_inv_def using new w k(4) ij i
    by (simp add: square_put [OF sq(1)] square_put [OF sq(2)] square_put [OF sq(3)]
        put_entry [OF sq(1)] put_entry [OF sq(2)] put_entry [OF sq(3)])
      (smt (verit, best))
qed

section \<open>One pass\<close>

text \<open>What every pass lowers when it changes anything: the sum of the distances.\<close>

definition dist_sum :: "nat \<Rightarrow> path_state \<Rightarrow> int" where
  "dist_sum n s = (\<Sum>(i, j) \<in> {..<n} \<times> {..<n}. ps_dist s ! i ! j)"

lemma dist_sum_less:
  assumes "square n (ps_dist s)" and "i < n" and "j < n" and "x < ps_dist s ! i ! j"
    and "ps_dist s' = upd (ps_dist s) i j x"
  shows "dist_sum n s' < dist_sum n s"
  unfolding dist_sum_def
proof (rule sum_strict_mono_ex1)
  show "\<exists>p \<in> {..<n} \<times> {..<n}. (case p of (i, j) \<Rightarrow> ps_dist s' ! i ! j) < (case p of (i, j) \<Rightarrow> ps_dist s ! i ! j)"
    using assms by (intro bexI [of _ "(i, j)"]) (auto simp: put_entry)
qed (use assms in \<open>auto simp: put_entry\<close>)

lemma dist_sum_nonneg:
  assumes "path_inv n W L s" and "weights_ok n W"
  shows "0 \<le> dist_sum n s"
  unfolding dist_sum_def by (rule sum_nonneg) (use path_inv_nonneg [OF assms] in auto)

definition sweep_result :: "nat \<Rightarrow> matrix \<Rightarrow> matrix \<Rightarrow> (nat \<times> nat) list \<Rightarrow> path_state \<times> bool \<Rightarrow> path_state \<times> bool \<Rightarrow> bool" where
  "sweep_result n W L ps st st' \<longleftrightarrow> path_inv n W L (fst st') \<and>
     (if snd st' \<and> \<not> snd st then dist_sum n (fst st') < dist_sum n (fst st)
      else dist_sum n (fst st') \<le> dist_sum n (fst st)) \<and> (snd st \<longrightarrow> snd st') \<and>
     (\<not> snd st' \<longrightarrow> fst st' = fst st \<and> (\<forall>(i, j) \<in> set ps. \<forall>k < n.
        ps_dist (fst st) ! i ! j \<le> ps_dist (fst st) ! i ! k + ps_dist (fst st) ! k ! j))"

lemma relax_pairs:
  assumes W: "weights_ok n W"
  shows "path_inv n W L (fst st) \<Longrightarrow> set ps \<subseteq> {..<n} \<times> {..<n} \<Longrightarrow>
    \<exists>st'. foldM (relax_pair n) ps st = Inr st' \<and> sweep_result n W L ps st st'"
proof (induction ps arbitrary: st)
  case (Cons p ps)
  obtain i j s c where p: "p = (i, j)" and st: "st = (s, c)" by (metis prod.exhaust)
  have i: "i < n" "j < n" and inv: "path_inv n W L s" using Cons.prems p st by auto
  from inv i show ?case
  proof (cases rule: relax_pair_cases [where change = c])
    case same
    from Cons.IH [of st] Cons.prems obtain st' where "foldM (relax_pair n) ps st = Inr st'"
      "sweep_result n W L ps st st'" by auto
    then show ?thesis using same p st by (auto simp: sweep_result_def)
  next
    case (shorter k)
    let ?s = "\<lparr>ps_dist = upd (ps_dist s) i j (ps_dist s ! i ! k + ps_dist s ! k ! j),
               ps_latencies = upd (ps_latencies s) i j (ps_latencies s ! i ! k + ps_latencies s ! k ! j),
               ps_inter_switches = upd (ps_inter_switches s) i j
                 (ps_inter_switches s ! i ! k + ps_inter_switches s ! k ! j + 1)\<rparr>"
    have inv': "path_inv n W L ?s"
      using path_inv_nonneg [OF inv W] shorter(1) i
      by (intro path_inv_shorter [OF inv i shorter(1-4)]) (simp add: add_nonneg_nonneg)
    have less: "dist_sum n ?s < dist_sum n s"
      using inv by (intro dist_sum_less [OF _ i shorter(4)]) (simp_all add: path_inv_def)
    from Cons.IH [of "(?s, True)"] inv' Cons.prems(2) obtain st' where
      "foldM (relax_pair n) ps (?s, True) = Inr st'" "sweep_result n W L ps (?s, True) st'" by auto
    then show ?thesis using shorter(5) p st less by (auto simp: sweep_result_def)
  qed
qed (auto simp: sweep_result_def)

lemma relax_sweep_total:
  assumes "weights_ok n W" and "path_inv n W L s"
  obtains s' change where "relax_sweep s = Inr (s', change)" and "path_inv n W L s'"
    and "change \<Longrightarrow> dist_sum n s' < dist_sum n s"
    and "\<not> change \<Longrightarrow> s' = s \<and> (\<forall>i < n. \<forall>j < n. \<forall>k < n. ps_dist s ! i ! j \<le> ps_dist s ! i ! k + ps_dist s ! k ! j)"
proof -
  let ?ps = "List.product [0..<n] [0..<n]"
  from relax_pairs [OF assms(1), of L "(s, False)" ?ps] assms(2) obtain s' c where
    f: "foldM (relax_pair n) ?ps (s, False) = Inr (s', c)" and r: "sweep_result n W L ?ps (s, False) (s', c)"
    by (auto simp: atLeast0LessThan)
  have "length (ps_dist s) = n" using assms(2) by (simp add: path_inv_def square_def)
  then have "relax_sweep s = Inr (s', c)" using f by (simp add: relax_sweep_def)
  then show ?thesis using that [of s' c] r by (cases c) (auto simp: sweep_result_def)
qed

section \<open>The loop ends\<close>

text \<open>A matrix of walk weights that no detour improves is the matrix of distances.\<close>

lemma no_detour_distance:
  assumes "weights_ok n W" and inv: "path_inv n W L s"
    and tri: "\<And>i j k. i < n \<Longrightarrow> j < n \<Longrightarrow> k < n \<Longrightarrow> ps_dist s ! i ! j \<le> ps_dist s ! i ! k + ps_dist s ! k ! j"
  shows "is_distance n W (ps_dist s)"
proof -
  have d0: "ps_dist s ! i ! i = 0" if "i < n" for i using inv that by (simp add: path_inv_def)
  have least: "walk n i ks j \<Longrightarrow> i < n \<Longrightarrow> j < n \<Longrightarrow> ps_dist s ! i ! j \<le> walk_sum W i ks" for i j ks
  proof (induction ks arbitrary: i)
    case (Cons k ks)
    then have k: "k < n" "ps_dist s ! k ! j \<le> walk_sum W k ks" by (auto simp: walk_Cons)
    have "ps_dist s ! i ! k \<le> W ! i ! k" using inv Cons.prems(2) k(1) by (simp add: path_inv_def)
    then show ?case using tri [OF Cons.prems(2,3) k(1)] k(2) by simp
  qed (use d0 in simp)
  have "\<exists>ks. walk n i ks j \<and> walk_sum W i ks = ps_dist s ! i ! j" if "i < n" "j < n" for i j
  proof (cases "i = j")
    case True
    then show ?thesis using d0 that by (intro exI [of _ "[]"]) simp
  qed (use inv that in \<open>unfold path_inv_def, blast\<close>)
  then show ?thesis using least inv by (simp add: is_distance_def path_inv_def)
qed

lemma extend_shortest_path_returns:
  assumes W: "weights_ok n W"
  shows "path_inv n W L s \<Longrightarrow>
    \<exists>s'. extend_shortest_path s = Some (Inr s') \<and> path_inv n W L s' \<and> is_distance n W (ps_dist s')"
proof (induction "nat (dist_sum n s)" arbitrary: s rule: less_induct)
  case less
  from relax_sweep_total [OF W less.prems] obtain s' c where sw: "relax_sweep s = Inr (s', c)"
    and inv: "path_inv n W L s'" and ch: "c \<Longrightarrow> dist_sum n s' < dist_sum n s"
    and fp: "\<not> c \<Longrightarrow> s' = s \<and> (\<forall>i < n. \<forall>j < n. \<forall>k < n. ps_dist s ! i ! j \<le> ps_dist s ! i ! k + ps_dist s ! k ! j)" by blast
  show ?case
  proof (cases c)
    case True
    have "nat (dist_sum n s') < nat (dist_sum n s)"
      using ch [OF True] dist_sum_nonneg [OF inv W] by linarith
    from less.hyps [OF this inv] show ?thesis using sw True by (subst extend_shortest_path.simps) simp
  next
    case False
    then have "is_distance n W (ps_dist s)" using fp less.prems by (intro no_detour_distance [OF W]) auto
    then show ?thesis using sw False fp less.prems by (subst extend_shortest_path.simps) simp
  qed
qed

lemma path_inv_start:
  assumes "weights_ok n W" and "square n L" and "S = replicate n (replicate n 0)"
  shows "path_inv n W L \<lparr>ps_dist = W, ps_latencies = L, ps_inter_switches = S\<rparr>"
proof -
  have "\<exists>ks. walk n i ks j \<and> walk_sum W i ks = W ! i ! j \<and> walk_sum L i ks = L ! i ! j \<and>
     int (length ks) = S ! i ! j + 1" if "i < n" "j < n" for i j
    using that assms(3) by (intro exI [of _ "[j]"]) (simp add: walk_def)
  then show ?thesis using assms by (auto simp: path_inv_def weights_ok_def square_def)
qed

end
