(* ===== verification/Std_Map.thy ===== *)
theory Std_Map
  imports Garnet_Prelude
begin

text \<open>
  \<open>std::map\<close> as the sources use it: an association list in the order of its keys, which is the order of
  iteration. \<open>map_put\<close> is assignment through \<open>operator[]\<close>, \<open>map_erase\<close> is \<open>erase\<close>; a lookup is \<open>map_of\<close>.
  \<open>map_get\<close> is a read through \<open>operator[]\<close>, which enters a default value for a key that is not there.
\<close>

fun map_put :: "'k::linorder \<Rightarrow> 'v \<Rightarrow> ('k \<times> 'v) list \<Rightarrow> ('k \<times> 'v) list" where
  "map_put k v [] = [(k, v)]"
| "map_put k v ((l, w) # m) =
     (if k < l then (k, v) # (l, w) # m else if k = l then (k, v) # m else (l, w) # map_put k v m)"

definition map_erase :: "'k \<Rightarrow> ('k \<times> 'v) list \<Rightarrow> ('k \<times> 'v) list" where
  "map_erase k m = filter (\<lambda>p. fst p \<noteq> k) m"

definition map_get :: "'v \<Rightarrow> 'k \<Rightarrow> ('k \<times> 'v) list \<Rightarrow> 'v" where
  "map_get d k m = (case map_of m k of None \<Rightarrow> d | Some v \<Rightarrow> v)"

definition map_inv :: "('k::linorder \<times> 'v) list \<Rightarrow> bool" where
  "map_inv m \<longleftrightarrow> sorted_wrt (<) (map fst m)"

lemma map_inv_Nil [simp]: "map_inv []"
  by (simp add: map_inv_def)

lemma map_inv_distinct: "map_inv m \<Longrightarrow> distinct (map fst m)"
  by (simp add: map_inv_def strict_sorted_iff)

lemma map_put_keys: "set (map fst (map_put k v m)) = insert k (set (map fst m))"
  by (induction k v m rule: map_put.induct) auto

lemma map_inv_put: "map_inv m \<Longrightarrow> map_inv (map_put k v m)"
proof (induction k v m rule: map_put.induct)
  case (2 k v l w m)
  then have "\<forall>x \<in> set (map fst (map_put k v m)). l < x" if "l < k"
    unfolding map_put_keys using that by (auto simp: map_inv_def)
  then show ?case using 2 by (auto simp: map_inv_def)
qed (simp add: map_inv_def)

lemma map_of_put: "map_inv m \<Longrightarrow> map_of (map_put k v m) = (map_of m)(k \<mapsto> v)"
proof (induction k v m rule: map_put.induct)
  case (2 k v l w m)
  then show ?case by (auto simp: map_inv_def fun_eq_iff)
qed simp

lemma map_put_set: "map_inv m \<Longrightarrow> set (map_put k v m) = insert (k, v) {p \<in> set m. fst p \<noteq> k}"
  by (induction k v m rule: map_put.induct) (auto simp: map_inv_def)

lemma map_inv_erase: "map_inv m \<Longrightarrow> map_inv (map_erase k m)"
  by (induction m) (auto simp: map_inv_def map_erase_def)

lemma map_of_erase: "map_of (map_erase k m) = (map_of m)(k := None)"
  by (induction m) (auto simp: map_erase_def fun_eq_iff)

text \<open>Entering a value changes what the values hold by the difference at that key.\<close>

lemma map_put_contents:
  assumes "f d = {#}"
  shows "map_inv m \<Longrightarrow> contents (\<lambda>p. f (snd p)) (map_put k v m) + f (map_get d k m) = contents (\<lambda>p. f (snd p)) m + f v"
proof (induction k v m rule: map_put.induct)
  case (2 k v l w m)
  have none: "map_of m k = None" if "k < l"
    using that 2(2) by (auto simp: map_inv_def map_of_eq_None_iff)
  have inv: "map_inv m" using 2(2) by (simp add: map_inv_def)
  consider (before) "k < l" | (here) "k = l" | (after) "l < k" by fastforce
  then show ?case
  proof cases
    case before
    then show ?thesis using assms none by (auto simp: map_get_def)
  next
    case here
    then show ?thesis by (simp add: map_get_def)
  next
    case after
    then have k: "\<not> k < l" "k \<noteq> l" by auto
    then have "map_get d k ((l, w) # m) = map_get d k m" by (simp add: map_get_def)
    then show ?thesis using k 2(1) [OF k inv] by (simp add: add.assoc)
  qed
qed (simp add: assms map_get_def)

lemma map_erase_contents:
  assumes "f d = {#}"
  shows "map_inv m \<Longrightarrow> contents (\<lambda>p. f (snd p)) (map_erase k m) + f (map_get d k m) = contents (\<lambda>p. f (snd p)) m"
proof (induction m)
  case (Cons p m)
  have inv: "map_inv m" using Cons.prems by (simp add: map_inv_def)
  show ?case
  proof (cases "fst p = k")
    case True
    then have "\<forall>q \<in> set m. fst q \<noteq> k" using Cons.prems by (auto simp: map_inv_def)
    then have "map_erase k m = m" by (simp add: map_erase_def)
    then show ?thesis using True by (cases p) (simp add: map_erase_def map_get_def add.commute)
  next
    case False
    then have "map_get d k (p # m) = map_get d k m" by (cases p) (simp add: map_get_def)
    then show ?thesis using False Cons.IH [OF inv] by (simp add: map_erase_def add.assoc)
  qed
qed (simp add: map_erase_def map_get_def assms)

end
