(* ===== verification/Topology.thy ===== *)
theory Topology
  imports Shortest_Path Std_Map Router_Model
begin

text \<open>
  \<open>Topology\<close> (src/gem5/src/mem/ruby/network/Topology.cc, Topology.hh) with the link objects it is given
  (BasicLink.cc, GarnetLink.cc). The constructor enters every link of the configuration into a map from
  pairs of switches to links; \<open>createLinks\<close> fills the weight matrix from it, computes the distances and
  connects the network: one \<open>makeExtInLink\<close>, \<open>makeExtOutLink\<close> or \<open>makeInternalLink\<close> of \<open>GarnetNetwork\<close> per link, with
  the set of destinations to which the link is on a shortest path as its routing table entry.

  Switches \<open>0 .. m_nodes - 1\<close> stand for the inputs of the network, \<open>m_nodes .. 2 * m_nodes - 1\<close> for its outputs,
  and \<open>2 * m_nodes + r\<close> for router \<open>r\<close>. The machine types are a parameter, as in \<open>Net_Dest\<close>.
\<close>

section \<open>Links\<close>

record basic_link =
  bl_latency :: cycles
  bl_bandwidth_factor :: int
  bl_weight :: int

text \<open>
  \<open>GarnetExtLink\<close> with the parameters \<open>ext_node\<close> (machine type and version) and \<open>int_node\<close> (a router), and
  \<open>GarnetIntLink\<close> with its two routers and port names. Position 0 of the link vectors is the direction into
  the network, position 1 the direction out of it.
\<close>

record ext_link = basic_link +
  el_ext_type :: nat
  el_ext_version :: nat
  el_int_node :: nat
  el_network_links :: "flit_link list"
  el_credit_links :: "credit_link list"

record int_link = basic_link +
  il_src_node :: nat
  il_dst_node :: nat
  il_src_outport :: port_direction
  il_dst_inport :: port_direction
  il_network_link :: flit_link
  il_credit_link :: credit_link

datatype link = ExtLink ext_link | IntLink int_link

fun link_weight :: "link \<Rightarrow> int" where
  "link_weight (ExtLink l) = bl_weight l"
| "link_weight (IntLink l) = bl_weight l"

fun link_latency :: "link \<Rightarrow> cycles" where
  "link_latency (ExtLink l) = bl_latency l"
| "link_latency (IntLink l) = bl_latency l"

record link_entry =
  le_link :: link
  le_src_outport_dirn :: port_direction
  le_dst_inport_dirn :: port_direction

section \<open>The constructor\<close>

record topology =
  tp_nodes :: nat
  tp_number_of_switches :: nat
  tp_ext_link_vector :: "ext_link list"
  tp_int_link_vector :: "int_link list"
  tp_link_map :: "((nat \<times> nat) \<times> link_entry) list"

definition addLink ::
    "nat \<Rightarrow> nat \<Rightarrow> link \<Rightarrow> port_direction \<Rightarrow> port_direction \<Rightarrow> topology \<Rightarrow> topology res" where
  "addLink src dest l src_outport_dirn dst_inport_dirn T =
     bnd (assert_that (src \<le> tp_number_of_switches T + tp_nodes T + tp_nodes T)) (\<lambda>_.
     bnd (assert_that (dest \<le> tp_number_of_switches T + tp_nodes T + tp_nodes T)) (\<lambda>_.
     Inr (T\<lparr>tp_link_map := map_put (src, dest)
            \<lparr>le_link = l, le_src_outport_dirn = src_outport_dirn, le_dst_inport_dirn = dst_inport_dirn\<rparr>
            (tp_link_map T)\<rparr>)))"

definition add_ext_link :: "machine_types \<Rightarrow> ext_link \<Rightarrow> topology \<Rightarrow> topology res" where
  "add_ext_link M l T =
     (let machine_base_idx = mt_base_number M (el_ext_type l);
          ext_idx1 = machine_base_idx + el_ext_version l;
          ext_idx2 = ext_idx1 + tp_nodes T;
          int_idx = el_int_node l + 2 * tp_nodes T in
      bnd (addLink ext_idx1 int_idx (ExtLink l) [] [] T)
        (addLink int_idx ext_idx2 (ExtLink l) [] []))"

text \<open>The vector was initialised with all internal links already: each is in it twice afterwards.\<close>

definition add_int_link :: "int_link \<Rightarrow> topology \<Rightarrow> topology res" where
  "add_int_link l T =
     (let T1 = T\<lparr>tp_int_link_vector := tp_int_link_vector T @ [l]\<rparr>;
          src = il_src_node l + 2 * tp_nodes T;
          dst = il_dst_node l + 2 * tp_nodes T in
      addLink src dst (IntLink l) (il_src_outport l) (il_dst_inport l) T1)"

definition Topology_new :: "machine_types \<Rightarrow> nat \<Rightarrow> ext_link list \<Rightarrow> int_link list \<Rightarrow> topology res" where
  "Topology_new M num_routers ext_links int_links =
     (let T0 = \<lparr>tp_nodes = length ext_links, tp_number_of_switches = num_routers,
                tp_ext_link_vector = ext_links, tp_int_link_vector = int_links, tp_link_map = []\<rparr> in
      bnd (assert_that (1 < tp_nodes T0)) (\<lambda>_.
      bnd (foldM (add_ext_link M) ext_links T0)
        (foldM add_int_link int_links)))"

section \<open>The matrices\<close>

definition max_switch_id :: "topology \<Rightarrow> nat" where
  "max_switch_id T = fold (\<lambda>((src, dest), _) m. max (max m src) dest) (tp_link_map T) 0"

definition identity_weights :: "nat \<Rightarrow> matrix" where
  "identity_weights n =
     fold (\<lambda>i W. W[i := (W ! i)[i := 0]]) [0..<n] (replicate n (replicate n INFINITE_LATENCY))"

text \<open>\<open>link->m_latency\<close> is a 64-bit count that is stored in an \<open>int\<close>.\<close>

definition fill_link :: "(nat \<times> nat) \<times> link_entry \<Rightarrow> matrix \<times> matrix \<Rightarrow> (matrix \<times> matrix) res" where
  "fill_link p m =
     (case (p, m) of (((src, dst), e), (weights, latencies)) \<Rightarrow>
      bnd (put_at2 latencies src dst (int (link_latency (le_link e)))) (\<lambda>latencies'.
      bnd (put_at2 weights src dst (link_weight (le_link e))) (\<lambda>weights'.
      Inr (weights', latencies'))))"

definition topology_matrices :: "topology \<Rightarrow> (matrix \<times> matrix) res" where
  "topology_matrices T =
     (let num_switches = max_switch_id T + 1 in
      foldM fill_link (tp_link_map T)
        (identity_weights num_switches, replicate num_switches (replicate num_switches (-1))))"

section \<open>Routing table entries\<close>

definition node_step ::
    "machine_types \<Rightarrow> nat \<Rightarrow> nat \<Rightarrow> matrix \<Rightarrow> matrix \<Rightarrow> nat \<Rightarrow> nat \<Rightarrow> nat \<times> net_dest \<Rightarrow> (nat \<times> net_dest) res" where
  "node_step M src nxt weights dist m i s =
     (case s of (d, result) \<Rightarrow>
      bnd (link_is_shortest_path_to_node src nxt (d + mt_base_number M (mt_num M)) weights dist) (\<lambda>b.
      bnd (if b then NetDest_add M result \<lparr>mach_type = m, mach_num = i\<rparr> else Inr result) (\<lambda>result'.
      Inr (d + 1, result'))))"

definition shortest_path_to_node :: "machine_types \<Rightarrow> nat \<Rightarrow> nat \<Rightarrow> matrix \<Rightarrow> matrix \<Rightarrow> net_dest res" where
  "shortest_path_to_node M src nxt weights dist =
     bnd (NetDest_new M) (\<lambda>result0.
     bnd (foldM (\<lambda>m. foldM (node_step M src nxt weights dist m) [0..<mt_base_count M m])
           [0..<mt_num M] (0, result0)) (\<lambda>(d, result).
     Inr result))"

section \<open>Connecting the network\<close>

text \<open>
  \<open>makeLink\<close> calls virtual functions of \<open>Network\<close>; \<open>network_class\<close> is the table of the three it needs. \<open>garnet_class\<close> is
  the table of \<open>GarnetNetwork\<close>, whose functions first cast the link (\<open>raw\<close> is the memory of the ports to be
  constructed); that of \<open>SimpleNetwork\<close> is in \<open>Simple_Network\<close>.
\<close>

record 'n network_class =
  nc_makeExtInLink :: "nat \<Rightarrow> nat \<Rightarrow> link \<Rightarrow> net_dest \<Rightarrow> 'n \<Rightarrow> 'n res"
  nc_makeExtOutLink :: "nat \<Rightarrow> nat \<Rightarrow> link \<Rightarrow> net_dest \<Rightarrow> 'n \<Rightarrow> 'n res"
  nc_makeInternalLink :: "nat \<Rightarrow> nat \<Rightarrow> link \<Rightarrow> net_dest \<Rightarrow> port_direction \<Rightarrow> port_direction \<Rightarrow> 'n \<Rightarrow> 'n res"

definition garnet_class :: "input_unit \<times> output_unit \<Rightarrow> garnet_network network_class" where
  "garnet_class raw =
     \<lparr>nc_makeExtInLink = (\<lambda>src dest link entry net.
        (case link of
           IntLink _ \<Rightarrow> Inl (Panic ''safe_cast'')
         | ExtLink l \<Rightarrow>
             bnd (at (el_network_links l) 0) (\<lambda>nl. bnd (at (el_credit_links l) 0) (\<lambda>cl.
             makeExtInLink (fst raw) src dest nl cl net)))),
      nc_makeExtOutLink = (\<lambda>src dest link entry net.
        (case link of
           IntLink _ \<Rightarrow> Inl (Panic ''safe_cast'')
         | ExtLink l \<Rightarrow>
             bnd (at (el_network_links l) 1) (\<lambda>nl. bnd (at (el_credit_links l) 1) (\<lambda>cl.
             makeExtOutLink (snd raw) src dest nl cl entry (bl_weight l) net)))),
      nc_makeInternalLink = (\<lambda>src dest link entry src_outport dst_inport net.
        (case link of
           ExtLink _ \<Rightarrow> Inl (Panic ''safe_cast'')
         | IntLink l \<Rightarrow>
             makeInternalLink (fst raw) (snd raw) src dest (il_network_link l) (il_credit_link l) entry (bl_weight l)
               src_outport dst_inport net))\<rparr>"

definition makeLink ::
    "'n network_class \<Rightarrow> topology \<Rightarrow> nat \<Rightarrow> nat \<Rightarrow> net_dest \<Rightarrow> 'n \<Rightarrow> 'n res" where
  "makeLink cls T src dest routing_table_entry net =
     (let nodes = tp_nodes T in
      bnd (assert_that (2 * nodes \<le> src \<or> 2 * nodes \<le> dest)) (\<lambda>_.
      case map_of (tp_link_map T) (src, dest) of
        None \<Rightarrow> Inl NullPointer
      | Some e \<Rightarrow>
          if src < nodes then
            nc_makeExtInLink cls src (dest - 2 * nodes) (le_link e) routing_table_entry net
          else if dest < 2 * nodes then
            bnd (assert_that (nodes \<le> dest)) (\<lambda>_.
            nc_makeExtOutLink cls (src - 2 * nodes) (dest - nodes) (le_link e) routing_table_entry net)
          else
            bnd (assert_that (2 * nodes \<le> src \<and> 2 * nodes \<le> dest)) (\<lambda>_.
            nc_makeInternalLink cls (src - 2 * nodes) (dest - 2 * nodes) (le_link e) routing_table_entry
              (le_src_outport_dirn e) (le_dst_inport_dirn e) net)))"

definition connect_pair ::
    "'n network_class \<Rightarrow> machine_types \<Rightarrow> topology \<Rightarrow> matrix \<Rightarrow> matrix \<Rightarrow> nat \<times> nat \<Rightarrow> 'n \<Rightarrow> 'n res" where
  "connect_pair cls M T weights dist p net =
     (case p of (i, j) \<Rightarrow>
      bnd (at2 weights i j) (\<lambda>weight.
      if 0 < weight \<and> weight \<noteq> INFINITE_LATENCY then
        bnd (shortest_path_to_node M i j weights dist) (\<lambda>destination_set.
        makeLink cls T i j destination_set net)
      else Inr net))"

definition createLinks ::
    "'n network_class \<Rightarrow> machine_types \<Rightarrow> topology \<Rightarrow> 'n \<Rightarrow> 'n res option" where
  "createLinks cls M T net =
     (case topology_matrices T of
        Inl e \<Rightarrow> Some (Inl e)
      | Inr (weights, latencies) \<Rightarrow>
          (let n = length weights in
           case shortest_path weights latencies (replicate n (replicate n 0)) of
             None \<Rightarrow> None
           | Some r \<Rightarrow> Some (bnd r (\<lambda>s.
               foldM (connect_pair cls M T weights (ps_dist s)) (List.product [0..<n] [0..<n]) net))))"

end
