(* ===== verification/Machine_Dest.thy ===== *)
theory Machine_Dest
  imports Net_Dest
begin

text \<open>
  Destinations as sets of machines. The functions on \<open>MachineType\<close> are generated from the coherence
  protocol; \<open>machines_ok\<close> says what the sources rely on: every type has its own set, the machines are
  numbered consecutively, type after type, and a type has at most as many machines as a set has bits.
  Under it a destination with one set per type (\<open>dest_ok\<close>) is the set \<open>nd_elems\<close> of its machines, and
  \<open>getAllDest\<close> lists their node numbers, each once.
\<close>

definition machines_ok :: "machine_types \<Rightarrow> bool" where
  "machines_ok M \<longleftrightarrow> (\<forall>m \<le> mt_num M. mt_base_level M m = m) \<and> mt_base_number M 0 = 0 \<and>
     (\<forall>m < mt_num M. mt_base_number M (Suc m) = mt_base_number M m + mt_base_count M m \<and>
        mt_base_count M m \<le> NUMBER_BITS_PER_SET)"

definition valid_machine :: "machine_types \<Rightarrow> nat \<times> nat \<Rightarrow> bool" where
  "valid_machine M p \<longleftrightarrow> fst p < mt_num M \<and> snd p < mt_base_count M (fst p)"

definition node_of :: "machine_types \<Rightarrow> nat \<times> nat \<Rightarrow> nat" where
  "node_of M p = mt_base_number M (fst p) + snd p"

definition dest_ok :: "machine_types \<Rightarrow> net_dest \<Rightarrow> bool" where
  "dest_ok M nd \<longleftrightarrow> length (nd_bits nd) = mt_num M \<and>
     (\<forall>v < mt_num M. set_size (nd_bits nd ! v) = mt_base_count M v \<and>
        set_elems (nd_bits nd ! v) \<subseteq> {..<mt_base_count M v})"

unbundle bit_operations_syntax

section \<open>Node numbers\<close>

lemma base_number_mono:
  assumes "machines_ok M"
  shows "m \<le> k \<Longrightarrow> k \<le> mt_num M \<Longrightarrow> mt_base_number M m \<le> mt_base_number M k"
proof (induction k)
  case (Suc k)
  show ?case
  proof (cases "m = Suc k")
    case False
    then have "mt_base_number M m \<le> mt_base_number M k" using Suc by simp
    then show ?thesis using Suc.prems(2) assms by (simp add: machines_ok_def)
  qed simp
qed simp

text \<open>The machines of a type have the numbers from its base to the base of the next type.\<close>

lemma node_of_range:
  assumes "machines_ok M" and "valid_machine M p"
  shows "mt_base_number M (fst p) \<le> node_of M p" and "node_of M p < mt_base_number M (Suc (fst p))"
  using assms by (simp_all add: machines_ok_def valid_machine_def node_of_def)

lemma node_of_less:
  assumes "machines_ok M" and "valid_machine M p"
  shows "node_of M p < mt_base_number M (mt_num M)"
  using node_of_range(2) [OF assms] base_number_mono [OF assms(1), of "Suc (fst p)" "mt_num M"] assms(2)
  by (simp add: valid_machine_def)

lemma node_of_type:
  assumes M: "machines_ok M" "valid_machine M p" and m: "m < mt_num M"
    and r: "mt_base_number M m \<le> node_of M p" "node_of M p < mt_base_number M (Suc m)"
  shows "m = fst p"
proof (rule ccontr)
  assume "m \<noteq> fst p"
  then consider "Suc m \<le> fst p" | "Suc (fst p) \<le> m" by linarith
  then show False
  proof cases
    case 1
    then show ?thesis using base_number_mono [OF M(1) 1] node_of_range(1) [OF M] M(2) r(2)
      by (simp add: valid_machine_def)
  next
    case 2
    then show ?thesis using base_number_mono [OF M(1) 2] node_of_range(2) [OF M] m r(1) by simp
  qed
qed

lemma node_of_inj:
  assumes M: "machines_ok M" and v: "valid_machine M p" "valid_machine M q" and "node_of M p = node_of M q"
  shows "p = q"
proof -
  have "fst p = fst q"
    using node_of_type [OF M v(2), of "fst p"] node_of_range [OF M v(1)] v(1) assms(4)
    by (simp add: valid_machine_def)
  then show ?thesis using assms(4) by (simp add: node_of_def prod_eq_iff)
qed

section \<open>Destinations\<close>

lemma dest_ok_elems: "dest_ok M nd \<Longrightarrow> p \<in> nd_elems nd \<Longrightarrow> valid_machine M p"
  by (force simp: dest_ok_def nd_elems_def valid_machine_def)

lemma NetDest_new_ok:
  assumes "machines_ok M"
  shows "\<exists>nd. NetDest_new M = Inr nd \<and> dest_ok M nd \<and> nd_elems nd = {}"
proof -
  let ?bs = "map (\<lambda>i. \<lparr>set_size = mt_base_count M i, set_bits = 0\<rparr>) [0..<mt_num M]"
  have "traverse (\<lambda>i. Set_setSize (mt_base_count M i)) [0..<mt_num M] = Inr ?bs"
    using assms by (intro traverse_map) (auto simp: machines_ok_def Set_setSize_def not_less)
  then have "NetDest_new M = Inr \<lparr>nd_bits = ?bs\<rparr>"
    using assms by (simp add: NetDest_new_def NetDest_resize_def machines_ok_def)
  then show ?thesis by (auto simp: dest_ok_def nd_elems_def set_elems_def)
qed

lemma NetDest_add_ok:
  assumes "machines_ok M" and "dest_ok M nd" and "valid_machine M (mach_type m, mach_num m)"
  shows "\<exists>nd'. NetDest_add M nd m = Inr nd' \<and> dest_ok M nd' \<and>
    nd_elems nd' = insert (mach_type m, mach_num m) (nd_elems nd)"
proof -
  let ?v = "mach_type m"
  have v: "?v < mt_num M" "mach_num m < mt_base_count M ?v" "mt_base_level M ?v = ?v"
    "mt_base_count M ?v \<le> NUMBER_BITS_PER_SET"
    using assms(1,3) by (simp_all add: machines_ok_def valid_machine_def)
  have sz: "length (nd_bits nd) = mt_num M" "set_size (nd_bits nd ! ?v) = mt_base_count M ?v"
    using assms(2) v(1) by (simp_all add: dest_ok_def)
  obtain s where s: "Set_add (nd_bits nd ! ?v) (mach_num m) = Inr s" "set_size s = mt_base_count M ?v"
    using v sz by (auto simp: Set_add_def)
  have nd': "NetDest_add M nd m = Inr (nd\<lparr>nd_bits := (nd_bits nd)[?v := s]\<rparr>)"
    using v sz s by (simp add: NetDest_add_def NetDest_vecIndex_def)
  moreover have "dest_ok M (nd\<lparr>nd_bits := (nd_bits nd)[?v := s]\<rparr>)"
    using assms(2) v sz s(2) Set_add_elems [OF s(1)] by (auto simp: dest_ok_def nth_list_update)
  ultimately show ?thesis using NetDest_add_elems [OF nd'] v(3) by simp
qed

lemma NetDest_clear_ok: "dest_ok M nd \<Longrightarrow> dest_ok M (NetDest_clear nd)"
  by (auto simp: dest_ok_def NetDest_clear_def Set_clear_def set_elems_def)

lemma zip_with_total:
  assumes "length xs = length ys" and "\<And>i. i < length xs \<Longrightarrow> f (xs ! i) (ys ! i) = Inr (g (xs ! i) (ys ! i))"
  shows "zip_with f xs ys = Inr (map2 g xs ys)"
  using assms
proof (induction xs ys rule: list_induct2)
  case (Cons x xs y ys)
  then have "zip_with f xs ys = Inr (map2 g xs ys)" using Cons.prems [of "Suc i" for i] by fastforce
  then show ?case using Cons.prems [of 0] by simp
qed simp

lemma NetDest_removeNetDest_ok:
  assumes "dest_ok M nd" and "dest_ok M other"
  shows "\<exists>nd'. NetDest_removeNetDest nd other = Inr nd' \<and> dest_ok M nd' \<and> nd_elems nd' = nd_elems nd - nd_elems other"
proof -
  let ?g = "\<lambda>s t. s\<lparr>set_bits := set_bits s AND NOT (set_bits t)\<rparr>"
  let ?bs = "map2 ?g (nd_bits nd) (nd_bits other)"
  have len: "length (nd_bits nd) = length (nd_bits other)" using assms by (simp add: dest_ok_def)
  have "zip_with Set_removeSet (nd_bits nd) (nd_bits other) = Inr ?bs"
    using assms by (intro zip_with_total [OF len]) (auto simp: dest_ok_def Set_removeSet_def)
  then have r: "NetDest_removeNetDest nd other = Inr (nd\<lparr>nd_bits := ?bs\<rparr>)"
    using len by (simp add: NetDest_removeNetDest_def)
  have "set_elems (?g s t) \<subseteq> set_elems s" for s t :: node_set
    by (auto simp: set_elems_def bit_simps)
  then have "dest_ok M (nd\<lparr>nd_bits := ?bs\<rparr>)"
    using assms by (force simp: dest_ok_def)
  then show ?thesis using r NetDest_removeNetDest_elems [OF r] by blast
qed

text \<open>\<open>getAllDest\<close> lists the node numbers of the machines, each once and in order.\<close>

lemma getAllDest_set:
  assumes "machines_ok M" and "dest_ok M nd"
  shows "set (NetDest_getAllDest M nd) = node_of M ` nd_elems nd"
proof -
  have "v < mt_num M \<Longrightarrow> {j. j < set_size (nd_bits nd ! v) \<and> bit (set_bits (nd_bits nd ! v)) j} = set_elems (nd_bits nd ! v)" for v
    using assms(2) by (auto simp: dest_ok_def set_elems_def)
  then show ?thesis using assms(2)
    by (auto simp: NetDest_getAllDest_def node_of_def nd_elems_def dest_ok_def image_iff set_elems_def) blast+
qed

lemma getAllDest_sorted:
  assumes M: "machines_ok M" "dest_ok M nd"
  shows "sorted_wrt (<) (NetDest_getAllDest M nd)"
proof -
  let ?row = "\<lambda>i. map (\<lambda>j. mt_base_number M i + j)
      (filter (bit (set_bits (nd_bits nd ! i))) [0..<set_size (nd_bits nd ! i)])"
  have "k \<le> mt_num M \<Longrightarrow> sorted_wrt (<) (concat (map ?row [0..<k])) \<and>
      (\<forall>x \<in> set (concat (map ?row [0..<k])). x < mt_base_number M k)" for k
  proof (induction k)
    case (Suc k)
    have k: "mt_base_number M (Suc k) = mt_base_number M k + mt_base_count M k"
      "set_size (nd_bits nd ! k) = mt_base_count M k"
      using M Suc.prems by (simp_all add: machines_ok_def dest_ok_def)
    have "sorted_wrt (<) (?row k)"
      by (simp add: sorted_wrt_map sorted_wrt_filter)
    moreover have "\<forall>x \<in> set (?row k). mt_base_number M k \<le> x \<and> x < mt_base_number M (Suc k)"
      by (auto simp: k)
    ultimately show ?case using Suc k by (auto simp: sorted_wrt_append) force+
  qed simp
  from this [of "mt_num M"] show ?thesis using M(2) by (simp add: NetDest_getAllDest_def dest_ok_def)
qed

lemma getAllDest_distinct: "machines_ok M \<Longrightarrow> dest_ok M nd \<Longrightarrow> distinct (NetDest_getAllDest M nd)"
  using getAllDest_sorted strict_sorted_iff by blast

end
