(* ===== verification/Topology_Correct.thy ===== *)
theory Topology_Correct
  imports Topology Machine_Dest
begin

text \<open>
  What \<open>Topology\<close> computes: the weight matrix is the link map, the entry of a link is the set of machines
  to which the link is the first step of a shortest path, and whoever follows these entries arrives.
\<close>

section \<open>The weight matrix\<close>

definition links_ok :: "topology \<Rightarrow> bool" where
  "links_ok T \<longleftrightarrow> map_inv (tp_link_map T) \<and>
     list_all (\<lambda>((src, dest), e). src \<noteq> dest \<and> 0 < link_weight (le_link e)) (tp_link_map T)"

lemma max_switch_id_ge:
  assumes "((src, dest), e) \<in> set (tp_link_map T)"
  shows "src \<le> max_switch_id T" and "dest \<le> max_switch_id T"
proof -
  let ?f = "\<lambda>((src, dest), _) m. max (max m src) dest"
  have "m \<le> fold ?f ps m \<and> (((src, dest), e) \<in> set ps \<longrightarrow> src \<le> fold ?f ps m \<and> dest \<le> fold ?f ps m)"
    for ps :: "((nat \<times> nat) \<times> link_entry) list" and m
  proof (induction ps arbitrary: m)
    case (Cons p ps)
    obtain s d x where p: "p = ((s, d), x)" by (metis prod.exhaust)
    from Cons.IH [of "max (max m s) d"] show ?case by (auto simp: p)
  qed simp
  then show "src \<le> max_switch_id T" and "dest \<le> max_switch_id T"
    using assms unfolding max_switch_id_def by blast+
qed

lemma identity_weights_entries:
  "square n (identity_weights n) \<and>
     (\<forall>i < n. \<forall>j < n. identity_weights n ! i ! j = (if i = j then 0 else INFINITE_LATENCY))"
proof -
  let ?f = "\<lambda>i W. W[i := (W ! i)[i := 0]] :: matrix"
  have "k \<le> n \<Longrightarrow> square n (fold ?f [0..<k] (replicate n (replicate n INFINITE_LATENCY))) \<and>
     (\<forall>i < n. \<forall>j < n. fold ?f [0..<k] (replicate n (replicate n INFINITE_LATENCY)) ! i ! j =
        (if i = j \<and> i < k then 0 else INFINITE_LATENCY))" for k
  proof (induction k)
    case 0
    show ?case by (simp add: square_def)
  next
    case (Suc k)
    then have k: "k < n" and sq: "square n (fold ?f [0..<k] (replicate n (replicate n INFINITE_LATENCY)))" by simp_all
    show ?case using Suc k by (simp add: square_put [OF sq k] put_entry [OF sq k k])
  qed
  from this [of n] show ?thesis unfolding identity_weights_def by simp
qed

lemma fill_links:
  assumes "distinct (map fst ps)" and "\<forall>((s, d), e) \<in> set ps. s < n \<and> d < n"
    and "square n W" and "square n L"
  shows "\<exists>W' L'. foldM fill_link ps (W, L) = Inr (W', L') \<and> square n W' \<and> square n L' \<and>
    (\<forall>a < n. \<forall>b < n. W' ! a ! b = (case map_of ps (a, b) of None \<Rightarrow> W ! a ! b | Some e \<Rightarrow> link_weight (le_link e)))"
  using assms
proof (induction ps arbitrary: W L)
  case (Cons p ps)
  obtain s d e where p: "p = ((s, d), e)" by (metis prod.exhaust)
  have sd: "s < n" "d < n" using Cons.prems(2) p by auto
  let ?W = "upd W s d (link_weight (le_link e))"
  have step: "fill_link p (W, L) = Inr (?W, upd L s d (int (link_latency (le_link e))))"
    using sd Cons.prems by (simp add: fill_link_def p put_at2_square)
  have "\<forall>((s, d), e) \<in> set ps. s < n \<and> d < n" "distinct (map fst ps)" using Cons.prems(1,2) by auto
  from Cons.IH [OF this(2,1) square_put [OF Cons.prems(3) sd(1)] square_put [OF Cons.prems(4) sd(1)]]
  obtain W' L' where W': "foldM fill_link ps (?W, upd L s d (int (link_latency (le_link e)))) = Inr (W', L')"
    "square n W'" "square n L'"
    "\<forall>a < n. \<forall>b < n. W' ! a ! b = (case map_of ps (a, b) of None \<Rightarrow> ?W ! a ! b | Some e \<Rightarrow> link_weight (le_link e))"
    by blast
  have "map_of ps (s, d) = None" using Cons.prems(1) p by (simp add: map_of_eq_None_iff)
  then have "\<forall>a < n. \<forall>b < n. W' ! a ! b = (case map_of (p # ps) (a, b) of None \<Rightarrow> W ! a ! b | Some e \<Rightarrow> link_weight (le_link e))"
    using W'(4) sd by (auto simp: p put_entry [OF Cons.prems(3) sd] split: option.splits)
  then show ?case using W'(1-3) step by auto
qed auto

lemma topology_matrices_returns:
  assumes "links_ok T"
  shows "\<exists>W L. topology_matrices T = Inr (W, L) \<and> square (max_switch_id T + 1) W \<and> square (max_switch_id T + 1) L \<and>
    (\<forall>a \<le> max_switch_id T. \<forall>b \<le> max_switch_id T. W ! a ! b = (case map_of (tp_link_map T) (a, b) of
        None \<Rightarrow> (if a = b then 0 else INFINITE_LATENCY) | Some e \<Rightarrow> link_weight (le_link e)))"
proof -
  let ?n = "max_switch_id T + 1"
  have rng: "\<forall>((s, d), e) \<in> set (tp_link_map T). s < ?n \<and> d < ?n"
    using max_switch_id_ge by (fastforce simp: less_Suc_eq_le)
  have dist: "distinct (map fst (tp_link_map T))" using assms by (simp add: links_ok_def map_inv_distinct)
  have sq: "square ?n (replicate ?n (replicate ?n (- 1)))" by (simp add: square_def)
  from fill_links [OF dist rng conjunct1 [OF identity_weights_entries] sq] obtain W L where
    f: "foldM fill_link (tp_link_map T) (identity_weights ?n, replicate ?n (replicate ?n (- 1))) = Inr (W, L)"
    and "square ?n W" "square ?n L"
    and e: "\<forall>a < ?n. \<forall>b < ?n. W ! a ! b = (case map_of (tp_link_map T) (a, b) of
        None \<Rightarrow> identity_weights ?n ! a ! b | Some e \<Rightarrow> link_weight (le_link e))" by blast
  moreover have "W ! a ! b = (case map_of (tp_link_map T) (a, b) of
      None \<Rightarrow> (if a = b then 0 else INFINITE_LATENCY) | Some e \<Rightarrow> link_weight (le_link e))"
    if "a \<le> max_switch_id T" "b \<le> max_switch_id T" for a b
  proof -
    have ab: "a < ?n" "b < ?n" using that by simp_all
    show ?thesis using e ab identity_weights_entries [of ?n] by (simp split: option.split)
  qed
  moreover have "topology_matrices T = Inr (W, L)" unfolding topology_matrices_def Let_def by (rule f)
  ultimately show ?thesis by blast
qed

lemma topology_matrices_ok:
  assumes T: "links_ok T" and m: "topology_matrices T = Inr (W, L)"
  shows "weights_ok (length W) W" and "square (length W) L" and "length W = max_switch_id T + 1"
    and "\<And>a b. a < length W \<Longrightarrow> b < length W \<Longrightarrow> a \<noteq> b \<Longrightarrow> 0 < W ! a ! b"
    and "\<And>a b. a < length W \<Longrightarrow> b < length W \<Longrightarrow> 0 < W ! a ! b \<Longrightarrow> W ! a ! b \<noteq> INFINITE_LATENCY \<Longrightarrow>
      (a, b) \<in> dom (map_of (tp_link_map T))"
proof -
  from topology_matrices_returns [OF T] m have sq: "square (max_switch_id T + 1) W" "square (max_switch_id T + 1) L"
    and e: "\<And>a b. a \<le> max_switch_id T \<Longrightarrow> b \<le> max_switch_id T \<Longrightarrow> W ! a ! b = (case map_of (tp_link_map T) (a, b) of
        None \<Rightarrow> (if a = b then 0 else INFINITE_LATENCY) | Some e \<Rightarrow> link_weight (le_link e))" by auto
  then show n: "length W = max_switch_id T + 1" by (simp add: square_def)
  show "square (length W) L" using sq n by simp
  have ok: "s \<noteq> d \<and> 0 < link_weight (le_link x)" if "map_of (tp_link_map T) (s, d) = Some x" for s d x
    using T map_of_SomeD [OF that] by (auto simp: links_ok_def list_all_iff)
  then have nd: "map_of (tp_link_map T) (a, a) = None" for a by (cases "map_of (tp_link_map T) (a, a)") auto
  have pos: "0 < W ! a ! b" if "a < length W" "b < length W" "a \<noteq> b" for a b
    using e [of a b] ok [of a b] that n by (auto simp: INFINITE_LATENCY_def less_Suc_eq_le split: option.splits)
  then show "\<And>a b. a < length W \<Longrightarrow> b < length W \<Longrightarrow> a \<noteq> b \<Longrightarrow> 0 < W ! a ! b" .
  have zero: "W ! a ! a = 0" if "a < length W" for a using e [of a a] nd that n by (simp add: less_Suc_eq_le)
  have "0 \<le> W ! a ! b" if "a < length W" "b < length W" for a b
    using pos [OF that] zero [OF that(1)] by (cases "a = b") auto
  then show "weights_ok (length W) W" using sq n zero by (simp add: weights_ok_def)
  show "(a, b) \<in> dom (map_of (tp_link_map T))" if "a < length W" "b < length W" "0 < W ! a ! b" "W ! a ! b \<noteq> INFINITE_LATENCY" for a b
    using e [of a b] that n by (auto simp: less_Suc_eq_le split: option.splits if_splits)
qed

section \<open>Routing table entries\<close>

lemma node_steps:
  assumes M: "machines_ok M" "m < mt_num M" and W: "square n W" "square n D" "src < n" "nxt < n"
    and n: "2 * mt_base_number M (mt_num M) \<le> n"
  shows "k \<le> mt_base_count M m \<Longrightarrow> dest_ok M nd \<Longrightarrow>
    \<exists>nd'. foldM (node_step M src nxt W D m) [0..<k] (mt_base_number M m, nd) = Inr (mt_base_number M m + k, nd') \<and>
      dest_ok M nd' \<and> nd_elems nd' = nd_elems nd \<union> {(m, i) | i. i < k \<and>
        W ! src ! nxt + D ! nxt ! (node_of M (m, i) + mt_base_number M (mt_num M)) =
          D ! src ! (node_of M (m, i) + mt_base_number M (mt_num M))}"
proof (induction k)
  case (Suc k)
  let ?B = "mt_base_number M (mt_num M)"
  from Suc obtain nd1 where nd1: "foldM (node_step M src nxt W D m) [0..<k] (mt_base_number M m, nd) = Inr (mt_base_number M m + k, nd1)"
    "dest_ok M nd1" and el: "nd_elems nd1 = nd_elems nd \<union> {(m, i) | i. i < k \<and>
        W ! src ! nxt + D ! nxt ! (node_of M (m, i) + ?B) = D ! src ! (node_of M (m, i) + ?B)}" by auto
  have v: "valid_machine M (m, k)" using Suc.prems(1) M(2) by (simp add: valid_machine_def)
  have d: "node_of M (m, k) + ?B < n" using node_of_less [OF M(1) v] n by simp
  let ?b = "W ! src ! nxt + D ! nxt ! (node_of M (m, k) + ?B) = D ! src ! (node_of M (m, k) + ?B)"
  have b: "link_is_shortest_path_to_node src nxt (mt_base_number M m + k + ?B) W D = Inr ?b"
    using at2_square [OF W(1,3,4)] at2_square [OF W(2,4) d] at2_square [OF W(2,3) d]
    by (simp add: link_is_shortest_path_to_node_def node_of_def)
  from NetDest_add_ok [OF M(1) nd1(2), of "\<lparr>mach_type = m, mach_num = k\<rparr>"] v obtain nd2 where
    nd2: "NetDest_add M nd1 \<lparr>mach_type = m, mach_num = k\<rparr> = Inr nd2" "dest_ok M nd2" "nd_elems nd2 = insert (m, k) (nd_elems nd1)"
    by auto
  have "node_step M src nxt W D m k (mt_base_number M m + k, nd1) =
      Inr (mt_base_number M m + Suc k, if ?b then nd2 else nd1)"
    using b nd2(1) by (simp add: node_step_def)
  moreover have "nd_elems (if ?b then nd2 else nd1) = nd_elems nd \<union> {(m, i) | i. i < Suc k \<and>
        W ! src ! nxt + D ! nxt ! (node_of M (m, i) + ?B) = D ! src ! (node_of M (m, i) + ?B)}"
    using el nd2(3) by (auto simp: less_Suc_eq)
  moreover have "dest_ok M (if ?b then nd2 else nd1)" using nd1(2) nd2(2) by simp
  ultimately show ?case using nd1(1) by (simp add: foldM_append)
qed simp

text \<open>The routing table entry of a link is exactly the set of machines behind a shortest path over it.\<close>

lemma shortest_path_to_node_elems:
  assumes M: "machines_ok M" and W: "square n W" "square n D" "src < n" "nxt < n"
    and n: "2 * mt_base_number M (mt_num M) \<le> n"
  shows "\<exists>nd. shortest_path_to_node M src nxt W D = Inr nd \<and> dest_ok M nd \<and>
    nd_elems nd = {p. valid_machine M p \<and>
      W ! src ! nxt + D ! nxt ! (node_of M p + mt_base_number M (mt_num M)) =
        D ! src ! (node_of M p + mt_base_number M (mt_num M))}"
proof -
  let ?on = "\<lambda>p. W ! src ! nxt + D ! nxt ! (node_of M p + mt_base_number M (mt_num M)) =
        D ! src ! (node_of M p + mt_base_number M (mt_num M))"
  let ?row = "\<lambda>m. foldM (node_step M src nxt W D m) [0..<mt_base_count M m]"
  obtain nd0 where nd0: "NetDest_new M = Inr nd0" "dest_ok M nd0" "nd_elems nd0 = {}"
    using NetDest_new_ok [OF M] by blast
  have "k \<le> mt_num M \<Longrightarrow> \<exists>nd. foldM ?row [0..<k] (0, nd0) = Inr (mt_base_number M k, nd) \<and> dest_ok M nd \<and>
      nd_elems nd = {p. fst p < k \<and> snd p < mt_base_count M (fst p) \<and> ?on p}" for k
  proof (induction k)
    case 0
    then show ?case using nd0 M by (simp add: machines_ok_def)
  next
    case (Suc k)
    then obtain nd where nd: "foldM ?row [0..<k] (0, nd0) = Inr (mt_base_number M k, nd)" "dest_ok M nd"
      "nd_elems nd = {p. fst p < k \<and> snd p < mt_base_count M (fst p) \<and> ?on p}" by auto
    have k: "k < mt_num M" "mt_base_number M (Suc k) = mt_base_number M k + mt_base_count M k"
      using Suc.prems M by (simp_all add: machines_ok_def)
    from node_steps [OF M k(1) W n order_refl nd(2)] nd(3) obtain nd' where
      nd': "?row k (mt_base_number M k, nd) = Inr (mt_base_number M (Suc k), nd')" "dest_ok M nd'"
      "nd_elems nd' = {p. fst p < k \<and> snd p < mt_base_count M (fst p) \<and> ?on p} \<union>
         {(k, i) | i. i < mt_base_count M k \<and> ?on (k, i)}" by (auto simp: k(2))
    have "nd_elems nd' = {p. fst p < Suc k \<and> snd p < mt_base_count M (fst p) \<and> ?on p}"
      unfolding nd'(3) by (auto simp: less_Suc_eq)
    then show ?case using nd(1) nd'(1,2) by (simp add: foldM_append)
  qed
  from this [of "mt_num M"] show ?thesis
    using nd0(1) by (auto simp: shortest_path_to_node_def valid_machine_def)
qed

section \<open>Following the entries\<close>

lemma distance_triangle:
  assumes D: "is_distance n W D" and "i < n" "j < n" "k < n"
  shows "D ! i ! j \<le> W ! i ! k + D ! k ! j"
proof -
  from D assms(3,4) obtain ks where "walk n k ks j" "walk_sum W k ks = D ! k ! j"
    unfolding is_distance_def by blast
  then have "walk n i (k # ks) j" "walk_sum W i (k # ks) = W ! i ! k + D ! k ! j"
    using assms(4) by (auto simp: walk_Cons)
  then show ?thesis using D assms(2,3) unfolding is_distance_def by metis
qed

text \<open>From every switch but the destination some first step is on a shortest path.\<close>

lemma shortest_first_step:
  assumes W: "weights_ok n W" and pos: "\<And>a b. a < n \<Longrightarrow> b < n \<Longrightarrow> a \<noteq> b \<Longrightarrow> 0 < W ! a ! b"
    and D: "is_distance n W D" and i: "i < n" "d < n" "i \<noteq> d"
  shows "\<exists>j < n. 0 < W ! i ! j \<and> W ! i ! j + D ! j ! d = D ! i ! d"
proof -
  have step: "walk n i ks d \<Longrightarrow> walk_sum W i ks = D ! i ! d \<Longrightarrow> ?thesis" for ks
  proof (induction ks)
    case Nil
    then show ?case using i(3) by simp
  next
    case (Cons k ks)
    then have k: "k < n" "walk n k ks d" by (auto simp: walk_Cons)
    show ?case
    proof (cases "k = i")
      case True
      then show ?thesis using Cons W i(1) k by (simp add: weights_ok_def)
    next
      case False
      have "D ! k ! d \<le> walk_sum W k ks" using D k i(2) unfolding is_distance_def by blast
      moreover have "D ! i ! d \<le> W ! i ! k + D ! k ! d" by (rule distance_triangle [OF D i(1,2) k(1)])
      ultimately show ?thesis using Cons.prems(2) k(1) pos [OF i(1) k(1)] False by (intro exI [of _ k]) simp
    qed
  qed
  from D i obtain ks where "walk n i ks d" "walk_sum W i ks = D ! i ! d" unfolding is_distance_def by blast
  then show ?thesis by (rule step)
qed

lemma distance_nonneg:
  assumes "weights_ok n W" and "is_distance n W D" and "i < n" and "j < n"
  shows "0 \<le> D ! i ! j"
proof -
  from assms obtain ks where "walk n i ks j" "walk_sum W i ks = D ! i ! j" unfolding is_distance_def by blast
  then show ?thesis using walk_sum_nonneg [OF assms(1,3), of ks] by (simp add: walk_def)
qed

text \<open>Every step lowers the distance, so a route ends after at most as many steps as the distance says.\<close>

lemma steps_arrive:
  assumes W: "weights_ok n W" and D: "is_distance n W D" and d: "d < n"
    and f: "\<And>t. f t \<noteq> d \<Longrightarrow> f t < n \<Longrightarrow> f (Suc t) < n \<and> 0 < W ! f t ! f (Suc t) \<and>
      W ! f t ! f (Suc t) + D ! f (Suc t) ! d = D ! f t ! d"
    and start: "f 0 < n"
  shows "\<exists>t. int t \<le> D ! f 0 ! d \<and> f t = d"
proof (rule ccontr)
  assume no: "\<not> (\<exists>t. int t \<le> D ! f 0 ! d \<and> f t = d)"
  have "int t \<le> D ! f 0 ! d + 1 \<Longrightarrow> f t < n \<and> int t + D ! f t ! d \<le> D ! f 0 ! d" for t
  proof (induction t)
    case 0
    then show ?case using start by simp
  next
    case (Suc t)
    then have t: "f t < n" "int t + D ! f t ! d \<le> D ! f 0 ! d" by simp_all
    have "int t \<le> D ! f 0 ! d" using Suc.prems by simp
    then have "f t \<noteq> d" using no by blast
    from f [OF this t(1)] t(2) show ?case by simp
  qed
  from this [of "Suc (nat (D ! f 0 ! d))"] show False
    using distance_nonneg [OF W D _ d, of "f (Suc (nat (D ! f 0 ! d)))"] distance_nonneg [OF W D start d] by simp
qed

lemma shortest_path_returns:
  assumes "weights_ok n W" and "square n L"
  shows "\<exists>s. shortest_path W L (replicate n (replicate n 0)) = Some (Inr s) \<and> path_inv n W L s \<and> is_distance n W (ps_dist s)"
  unfolding shortest_path_def
  by (rule extend_shortest_path_returns [OF assms(1) path_inv_start [OF assms refl]])

section \<open>The constructor\<close>

definition config_ok :: "machine_types \<Rightarrow> nat \<Rightarrow> ext_link list \<Rightarrow> int_link list \<Rightarrow> bool" where
  "config_ok M num_routers ext_links int_links \<longleftrightarrow> 1 < length ext_links \<and>
     list_all (\<lambda>l. mt_base_number M (el_ext_type l) + el_ext_version l < length ext_links \<and>
       el_int_node l < num_routers \<and> 0 < bl_weight l) ext_links \<and>
     list_all (\<lambda>l. il_src_node l < num_routers \<and> il_dst_node l < num_routers \<and> il_src_node l \<noteq> il_dst_node l \<and>
       0 < bl_weight l) int_links"

text \<open>The two switches a configured link connects, for \<open>N\<close> machines.\<close>

definition ext_keys :: "machine_types \<Rightarrow> nat \<Rightarrow> ext_link \<Rightarrow> (nat \<times> nat) set" where
  "ext_keys M N l = {(mt_base_number M (el_ext_type l) + el_ext_version l, el_int_node l + 2 * N),
     (el_int_node l + 2 * N, mt_base_number M (el_ext_type l) + el_ext_version l + N)}"

definition int_keys :: "nat \<Rightarrow> int_link \<Rightarrow> (nat \<times> nat) set" where
  "int_keys N l = {(il_src_node l + 2 * N, il_dst_node l + 2 * N)}"

text \<open>The entries the constructor makes for a configured link; a later entry replaces an earlier one of the same pair.\<close>

definition ext_entries :: "machine_types \<Rightarrow> nat \<Rightarrow> ext_link \<Rightarrow> ((nat \<times> nat) \<times> link_entry) list" where
  "ext_entries M N l =
     (let i = mt_base_number M (el_ext_type l) + el_ext_version l; r = el_int_node l + 2 * N;
          e = \<lparr>le_link = ExtLink l, le_src_outport_dirn = [], le_dst_inport_dirn = []\<rparr> in
      [((i, r), e), ((r, i + N), e)])"

definition int_entry :: "nat \<Rightarrow> int_link \<Rightarrow> (nat \<times> nat) \<times> link_entry" where
  "int_entry N l = ((il_src_node l + 2 * N, il_dst_node l + 2 * N),
     \<lparr>le_link = IntLink l, le_src_outport_dirn = il_src_outport l, le_dst_inport_dirn = il_dst_inport l\<rparr>)"

definition config_entries :: "machine_types \<Rightarrow> ext_link list \<Rightarrow> int_link list \<Rightarrow> ((nat \<times> nat) \<times> link_entry) list" where
  "config_entries M ext_links int_links =
     concat (map (ext_entries M (length ext_links)) ext_links) @ map (int_entry (length ext_links)) int_links"

lemma entry_keys:
  "fst ` set (ext_entries M N l) = ext_keys M N l" "{fst (int_entry N k)} = int_keys N k"
  by (simp_all add: ext_entries_def ext_keys_def int_entry_def int_keys_def Let_def)

lemma config_entries_keys:
  "fst ` set (config_entries M exts ints) =
     (\<Union>l \<in> set exts. ext_keys M (length exts) l) \<union> (\<Union>l \<in> set ints. int_keys (length exts) l)"
  by (auto simp: config_entries_def image_UN image_Un simp flip: entry_keys)

definition topology_shape :: "nat \<Rightarrow> nat \<Rightarrow> ((nat \<times> nat) \<times> link_entry) list \<Rightarrow> topology \<Rightarrow> bool" where
  "topology_shape N R es T \<longleftrightarrow> links_ok T \<and> tp_nodes T = N \<and> tp_number_of_switches T = R \<and>
     map_of (tp_link_map T) = map_of (rev es)"

lemma addLink_shape:
  assumes T: "topology_shape N R es T" and "src \<noteq> dest" and "0 < link_weight l" and "src \<le> R + 2 * N" and "dest \<le> R + 2 * N"
  shows "\<exists>T'. addLink src dest l od idn T = Inr T' \<and>
    topology_shape N R (es @ [((src, dest), \<lparr>le_link = l, le_src_outport_dirn = od, le_dst_inport_dirn = idn\<rparr>)]) T' \<and>
    tp_ext_link_vector T' = tp_ext_link_vector T \<and> tp_int_link_vector T' = tp_int_link_vector T"
proof -
  let ?e = "\<lparr>le_link = l, le_src_outport_dirn = od, le_dst_inport_dirn = idn\<rparr>"
  have inv: "map_inv (tp_link_map T)" using T by (simp add: topology_shape_def links_ok_def)
  have "links_ok (T\<lparr>tp_link_map := map_put (src, dest) ?e (tp_link_map T)\<rparr>)"
    using T assms(2,3) map_inv_put [OF inv] map_put_set [OF inv, of "(src, dest)" ?e]
    by (auto simp: topology_shape_def links_ok_def list_all_iff)
  then show ?thesis using T assms(4,5) map_of_put [OF inv, of "(src, dest)" ?e] by (simp add: addLink_def topology_shape_def)
qed

lemma add_ext_link_shape:
  assumes T: "topology_shape N R es T"
    and l: "mt_base_number M (el_ext_type l) + el_ext_version l < N" "el_int_node l < R" "0 < bl_weight l"
  shows "\<exists>T'. add_ext_link M l T = Inr T' \<and> topology_shape N R (es @ ext_entries M N l) T' \<and>
    tp_ext_link_vector T' = tp_ext_link_vector T \<and> tp_int_link_vector T' = tp_int_link_vector T @ []"
proof -
  let ?i = "mt_base_number M (el_ext_type l) + el_ext_version l"
  let ?r = "el_int_node l + 2 * N" and ?e = "\<lparr>le_link = ExtLink l, le_src_outport_dirn = [], le_dst_inport_dirn = []\<rparr>"
  from addLink_shape [OF T, of ?i ?r "ExtLink l" "[]" "[]"] l obtain T1 where
    T1: "addLink ?i ?r (ExtLink l) [] [] T = Inr T1" "topology_shape N R (es @ [((?i, ?r), ?e)]) T1"
      "tp_ext_link_vector T1 = tp_ext_link_vector T \<and> tp_int_link_vector T1 = tp_int_link_vector T" by auto
  from addLink_shape [OF T1(2), of ?r "?i + N" "ExtLink l" "[]" "[]"] l obtain T2 where
    T2: "addLink ?r (?i + N) (ExtLink l) [] [] T1 = Inr T2" "topology_shape N R ((es @ [((?i, ?r), ?e)]) @ [((?r, ?i + N), ?e)]) T2"
      "tp_ext_link_vector T2 = tp_ext_link_vector T1 \<and> tp_int_link_vector T2 = tp_int_link_vector T1" by auto
  have "add_ext_link M l T = Inr T2" using T T1(1) T2(1) by (simp add: add_ext_link_def topology_shape_def Let_def)
  then show ?thesis using T1(3) T2(2,3) by (simp add: ext_entries_def Let_def)
qed

lemma add_int_link_shape:
  assumes T: "topology_shape N R es T"
    and l: "il_src_node l < R" "il_dst_node l < R" "il_src_node l \<noteq> il_dst_node l" "0 < bl_weight l"
  shows "\<exists>T'. add_int_link l T = Inr T' \<and> topology_shape N R (es @ [int_entry N l]) T' \<and>
    tp_ext_link_vector T' = tp_ext_link_vector T \<and> tp_int_link_vector T' = tp_int_link_vector T @ [l]"
proof -
  let ?T = "T\<lparr>tp_int_link_vector := tp_int_link_vector T @ [l]\<rparr>"
  have "topology_shape N R es ?T" using T by (simp add: topology_shape_def links_ok_def)
  from addLink_shape [OF this, of "il_src_node l + 2 * N" "il_dst_node l + 2 * N" "IntLink l" "il_src_outport l" "il_dst_inport l"] T l
  show ?thesis by (auto simp: topology_shape_def add_int_link_def int_entry_def Let_def)
qed

lemma foldM_collect:
  assumes step: "\<And>x es T. x \<in> set xs \<Longrightarrow> topology_shape N R es T \<Longrightarrow>
      \<exists>T'. f x T = Inr T' \<and> topology_shape N R (es @ g x) T' \<and>
        tp_ext_link_vector T' = tp_ext_link_vector T \<and> tp_int_link_vector T' = tp_int_link_vector T @ h x"
  shows "topology_shape N R es T \<Longrightarrow> \<exists>T'. foldM f xs T = Inr T' \<and> topology_shape N R (es @ concat (map g xs)) T' \<and>
    tp_ext_link_vector T' = tp_ext_link_vector T \<and> tp_int_link_vector T' = tp_int_link_vector T @ concat (map h xs)"
  using step
proof (induction xs arbitrary: es T)
  case (Cons x xs)
  from Cons.prems(2) [of x, OF _ Cons.prems(1)] obtain T1 where
    T1: "f x T = Inr T1" "topology_shape N R (es @ g x) T1" "tp_ext_link_vector T1 = tp_ext_link_vector T"
      "tp_int_link_vector T1 = tp_int_link_vector T @ h x" by auto
  from Cons.IH [OF T1(2)] Cons.prems(2) show ?case using T1 by simp
qed simp

lemma Topology_new_map:
  assumes "config_ok M num_routers ext_links int_links"
  shows "\<exists>T. Topology_new M num_routers ext_links int_links = Inr T \<and> links_ok T \<and> tp_nodes T = length ext_links \<and>
    map_of (tp_link_map T) = map_of (rev (config_entries M ext_links int_links)) \<and>
    tp_ext_link_vector T = ext_links \<and> tp_int_link_vector T = int_links @ int_links"
proof -
  let ?N = "length ext_links"
  let ?T0 = "\<lparr>tp_nodes = ?N, tp_number_of_switches = num_routers, tp_ext_link_vector = ext_links,
     tp_int_link_vector = int_links, tp_link_map = []\<rparr>"
  let ?es = "concat (map (ext_entries M ?N) ext_links)"
  have ext: "1 < ?N" "\<And>l. l \<in> set ext_links \<Longrightarrow> mt_base_number M (el_ext_type l) + el_ext_version l < ?N \<and>
      el_int_node l < num_routers \<and> 0 < bl_weight l"
    and int: "\<And>l. l \<in> set int_links \<Longrightarrow> il_src_node l < num_routers \<and> il_dst_node l < num_routers \<and>
      il_src_node l \<noteq> il_dst_node l \<and> 0 < bl_weight l"
    using assms by (auto simp: config_ok_def list_all_iff)
  have "topology_shape ?N num_routers [] ?T0" by (simp add: topology_shape_def links_ok_def)
  from foldM_collect [where f = "add_ext_link M" and h = "\<lambda>_. []", OF add_ext_link_shape this] ext obtain T1 where
    T1: "foldM (add_ext_link M) ext_links ?T0 = Inr T1" "topology_shape ?N num_routers ?es T1"
      "tp_ext_link_vector T1 = ext_links" "tp_int_link_vector T1 = int_links" by fastforce
  from foldM_collect [where f = add_int_link and h = "\<lambda>l. [l]", OF add_int_link_shape T1(2), of int_links] int obtain T2 where
    T2: "foldM add_int_link int_links T1 = Inr T2" "topology_shape ?N num_routers (?es @ map (int_entry ?N) int_links) T2"
      "tp_ext_link_vector T2 = tp_ext_link_vector T1" "tp_int_link_vector T2 = tp_int_link_vector T1 @ int_links" by auto
  show ?thesis using T1(1,3,4) T2 ext(1) by (simp add: Topology_new_def topology_shape_def config_entries_def Let_def)
qed

lemma Topology_new_shape:
  assumes "config_ok M num_routers ext_links int_links"
  shows "\<exists>T. Topology_new M num_routers ext_links int_links = Inr T \<and> links_ok T \<and> tp_nodes T = length ext_links \<and>
    fst ` set (tp_link_map T) = (\<Union>l \<in> set ext_links. ext_keys M (length ext_links) l) \<union>
      (\<Union>l \<in> set int_links. int_keys (length ext_links) l)"
proof -
  from Topology_new_map [OF assms] obtain T where T: "Topology_new M num_routers ext_links int_links = Inr T" "links_ok T"
    "tp_nodes T = length ext_links" "map_of (tp_link_map T) = map_of (rev (config_entries M ext_links int_links))" by blast
  have "fst ` set (tp_link_map T) = fst ` set (config_entries M ext_links int_links)"
    using arg_cong [OF T(4), of dom] by (simp add: dom_map_of_conv_image_fst)
  then show ?thesis using T(1-3) by (simp add: config_entries_keys)
qed

section \<open>Network models\<close>

text \<open>
  What \<open>Topology\<close> relies on of a network model: the three functions that make a link keep the invariant, for the
  links that the model accepts.
\<close>

locale link_maker =
  fixes cls :: "'n network_class" and accepts :: "link \<Rightarrow> bool" and I :: "'n \<Rightarrow> bool"
  assumes ext_in: "accepts l \<Longrightarrow> I net \<Longrightarrow> nc_makeExtInLink cls src dest l entry net = Inr net' \<Longrightarrow> I net'"
    and ext_out: "accepts l \<Longrightarrow> I net \<Longrightarrow> nc_makeExtOutLink cls src dest l entry net = Inr net' \<Longrightarrow> I net'"
    and internal: "accepts l \<Longrightarrow> I net \<Longrightarrow> nc_makeInternalLink cls src dest l entry a b net = Inr net' \<Longrightarrow> I net'"
begin

lemma connect_pair_keeps:
  assumes c: "connect_pair cls M T W D p net = Inr net'" and I: "I net" and l: "\<forall>(k, e) \<in> set (tp_link_map T). accepts (le_link e)"
  shows "I net'"
proof (cases "net' = net")
  case False
  obtain i j where p: "p = (i, j)" by fastforce
  with c False obtain nd where m: "makeLink cls T i j nd net = Inr net'" by (auto simp: connect_pair_def split: if_splits)
  then obtain e where e: "map_of (tp_link_map T) (i, j) = Some e" by (auto simp: makeLink_def Let_def split: option.splits)
  have "(\<exists>a b. nc_makeExtInLink cls a b (le_link e) nd net = Inr net') \<or> (\<exists>a b. nc_makeExtOutLink cls a b (le_link e) nd net = Inr net') \<or>
      (\<exists>a b x y. nc_makeInternalLink cls a b (le_link e) nd x y net = Inr net')"
    using m by (auto simp: makeLink_def Let_def e split: if_splits)
  moreover have "accepts (le_link e)" using l map_of_SomeD [OF e] by auto
  ultimately show ?thesis using I ext_in ext_out internal by blast
qed (use I in simp)

lemma createLinks_keeps:
  assumes c: "createLinks cls M T net = Some (Inr net')" and I: "I net" and l: "\<forall>(k, e) \<in> set (tp_link_map T). accepts (le_link e)"
  shows "I net'"
proof -
  from c obtain W D where "foldM (connect_pair cls M T W D) (List.product [0..<length W] [0..<length W]) net = Inr net'"
    by (auto simp: createLinks_def Let_def split: sum.splits option.splits prod.splits)
  then show ?thesis by (rule foldM_invariant) (use I l connect_pair_keeps in blast)+
qed

end

end
