(* ===== verification/Topology_Properties.thy ===== *)
theory Topology_Properties
  imports Topology_Correct Mesh_Example
begin

text \<open>
  The properties of the topology: the shortest paths, the link map the constructor builds, and routing
  by the tables that come out. The instances are on the links of the two-router mesh.
\<close>

section \<open>Shortest paths\<close>

text \<open>
  C29. For every square matrix of weights that are not negative, with zeros on the diagonal, the loop of
  \<open>extend_shortest_path\<close> ends, without a failed assertion or an index out of range. The distances are the
  least weights of walks between two switches, and between different switches the latency and the number of
  intermediate switches that are returned are those of a walk of least weight.
\<close>

theorem shortest_path_correct:
  assumes "weights_ok n W" and "square n L"
  shows "\<exists>s. shortest_path W L (replicate n (replicate n 0)) = Some (Inr s) \<and> is_distance n W (ps_dist s) \<and>
    (\<forall>i < n. \<forall>j < n. i \<noteq> j \<longrightarrow> (\<exists>ks. walk n i ks j \<and> walk_sum W i ks = ps_dist s ! i ! j \<and>
       walk_sum L i ks = ps_latencies s ! i ! j \<and> int (length ks) = ps_inter_switches s ! i ! j + 1))"
  using shortest_path_returns [OF assms] unfolding path_inv_def by blast

definition ex_weights :: matrix where
  "ex_weights = [[0, 1, 10000], [10000, 0, 2], [1, 10000, 0]]"

lemma ex_weights_ok: "weights_ok 3 ex_weights"
  by (simp add: weights_ok_def square_def ex_weights_def numeral_3_eq_3 less_Suc_eq all_conj_distrib)

theorem shortest_path_correct_witness:
  "\<exists>s. shortest_path ex_weights ex_weights (replicate 3 (replicate 3 0)) = Some (Inr s) \<and>
    is_distance 3 ex_weights (ps_dist s) \<and>
    (\<forall>i < 3. \<forall>j < 3. i \<noteq> j \<longrightarrow> (\<exists>ks. walk 3 i ks j \<and> walk_sum ex_weights i ks = ps_dist s ! i ! j \<and>
       walk_sum ex_weights i ks = ps_latencies s ! i ! j \<and> int (length ks) = ps_inter_switches s ! i ! j + 1))"
  using shortest_path_correct [OF ex_weights_ok, of ex_weights] ex_weights_ok by (simp add: weights_ok_def)

section \<open>The constructor\<close>

text \<open>
  C30. With at least two external links, machines and routers within their ranges, positive weights and no
  internal link from a router to itself, the constructor succeeds. The link map then holds, in the order of the keys,
  exactly the configured links: for every external link the link itself in both directions, without port names, for
  every internal link the link itself with the names of its ports; where several links have the same two ends, the
  last one. The vector of external links is the configured one, and that of the internal links has every link twice.
\<close>

theorem Topology_new_links:
  assumes "config_ok M num_routers ext_links int_links"
  shows "\<exists>T. Topology_new M num_routers ext_links int_links = Inr T \<and> links_ok T \<and>
    map_of (tp_link_map T) = map_of (rev (config_entries M ext_links int_links)) \<and>
    tp_ext_link_vector T = ext_links \<and> tp_int_link_vector T = int_links @ int_links"
  using Topology_new_map [OF assms] by blast

definition ex_ext_link :: "nat \<Rightarrow> ext_link" where
  "ex_ext_link i = \<lparr>bl_latency = 1, bl_bandwidth_factor = 16, bl_weight = 1, el_ext_type = 0, el_ext_version = i,
     el_int_node = i, el_network_links = replicate 2 (NetworkLink_new 0 1 1 1),
     el_credit_links = replicate 2 (NetworkLink_new 0 1 1 1)\<rparr>"

definition ex_int_link :: "nat \<Rightarrow> nat \<Rightarrow> port_direction \<Rightarrow> port_direction \<Rightarrow> int_link" where
  "ex_int_link s d out_dirn in_dirn = \<lparr>bl_latency = 1, bl_bandwidth_factor = 16, bl_weight = 1, il_src_node = s,
     il_dst_node = d, il_src_outport = out_dirn, il_dst_inport = in_dirn,
     il_network_link = NetworkLink_new 0 1 1 1, il_credit_link = NetworkLink_new 0 1 1 1\<rparr>"

abbreviation ex_ext_links :: "ext_link list" where
  "ex_ext_links \<equiv> [ex_ext_link 0, ex_ext_link 1]"

abbreviation ex_int_links :: "int_link list" where
  "ex_int_links \<equiv> [ex_int_link 0 1 ''East'' ''West'', ex_int_link 1 0 ''West'' ''East'']"

lemma ex_config_ok: "config_ok ex_machines 2 ex_ext_links ex_int_links"
  by (simp add: config_ok_def ex_machines_def ex_ext_link_def ex_int_link_def)

theorem Topology_new_links_witness:
  "\<exists>T. Topology_new ex_machines 2 ex_ext_links ex_int_links = Inr T \<and> links_ok T \<and>
    map_of (tp_link_map T) (4, 5) = Some \<lparr>le_link = IntLink (ex_int_link 0 1 ''East'' ''West''),
      le_src_outport_dirn = ''East'', le_dst_inport_dirn = ''West''\<rparr> \<and>
    map_of (tp_link_map T) (1, 5) = Some \<lparr>le_link = ExtLink (ex_ext_link 1), le_src_outport_dirn = [], le_dst_inport_dirn = []\<rparr>"
  using Topology_new_links [OF ex_config_ok]
  by (auto simp: config_entries_def ext_entries_def int_entry_def ex_int_link_def ex_ext_link_def ex_machines_def Let_def)

section \<open>Routing by the tables\<close>

text \<open>
  C28. Routing by the tables that \<open>createLinks\<close> computes arrives. Let the destination be the output of
  machine \<open>p\<close>. From every other switch that is connected to it there is a link whose table entry has \<open>p\<close>;
  and whoever, at every switch but the destination, takes a link whose entry has \<open>p\<close>, whichever it is, is at
  the destination after at most as many links as the distance says.
\<close>

theorem topology_routes_arrive:
  assumes M: "machines_ok M" and T: "links_ok T" and m: "topology_matrices T = Inr (W, L)"
    and N: "2 * mt_base_number M (mt_num M) \<le> length W" and p: "valid_machine M p"
    and d: "d = node_of M p + mt_base_number M (mt_num M)"
  shows "\<exists>s. shortest_path W L (replicate (length W) (replicate (length W) 0)) = Some (Inr s) \<and>
    (\<forall>i < length W. i \<noteq> d \<and> ps_dist s ! i ! d < INFINITE_LATENCY \<longrightarrow>
       (\<exists>j nd. (i, j) \<in> dom (map_of (tp_link_map T)) \<and> shortest_path_to_node M i j W (ps_dist s) = Inr nd \<and>
          p \<in> nd_elems nd)) \<and>
    (\<forall>f. f 0 < length W \<and> (\<forall>t. f t \<noteq> d \<longrightarrow> f (Suc t) < length W \<and> 0 < W ! f t ! f (Suc t) \<and>
         (\<exists>nd. shortest_path_to_node M (f t) (f (Suc t)) W (ps_dist s) = Inr nd \<and> p \<in> nd_elems nd)) \<longrightarrow>
       (\<exists>t. int t \<le> ps_dist s ! f 0 ! d \<and> f t = d))"
proof -
  note ok = topology_matrices_ok [OF T m]
  from shortest_path_returns [OF ok(1,2)] obtain s where
    s: "shortest_path W L (replicate (length W) (replicate (length W) 0)) = Some (Inr s)"
    and D: "is_distance (length W) W (ps_dist s)" by blast
  have sq: "square (length W) W" "square (length W) (ps_dist s)" using ok(1) D by (simp_all add: weights_ok_def is_distance_def)
  have dn: "d < length W" using node_of_less [OF M p] N d by simp
  have entry: "\<exists>nd. shortest_path_to_node M i j W (ps_dist s) = Inr nd \<and>
      (p \<in> nd_elems nd \<longleftrightarrow> W ! i ! j + ps_dist s ! j ! d = ps_dist s ! i ! d)"
    if "i < length W" "j < length W" for i j
    using shortest_path_to_node_elems [OF M sq that N] p by (auto simp: d)
  have "\<exists>j nd. (i, j) \<in> dom (map_of (tp_link_map T)) \<and> shortest_path_to_node M i j W (ps_dist s) = Inr nd \<and> p \<in> nd_elems nd"
    if i: "i < length W" "i \<noteq> d" "ps_dist s ! i ! d < INFINITE_LATENCY" for i
  proof -
    from shortest_first_step [OF ok(1) ok(4) D i(1) dn i(2)] obtain j where
      j: "j < length W" "0 < W ! i ! j" "W ! i ! j + ps_dist s ! j ! d = ps_dist s ! i ! d" by blast
    have "W ! i ! j \<noteq> INFINITE_LATENCY" using j(3) i(3) distance_nonneg [OF ok(1) D j(1) dn] by simp
    then show ?thesis using ok(5) [OF i(1) j(1,2)] entry [OF i(1) j(1)] j(3) by blast
  qed
  moreover have "\<exists>t. int t \<le> ps_dist s ! f 0 ! d \<and> f t = d"
    if f: "f 0 < length W" "\<forall>t. f t \<noteq> d \<longrightarrow> f (Suc t) < length W \<and> 0 < W ! f t ! f (Suc t) \<and>
         (\<exists>nd. shortest_path_to_node M (f t) (f (Suc t)) W (ps_dist s) = Inr nd \<and> p \<in> nd_elems nd)" for f
    by (rule steps_arrive [where f = f, OF ok(1) D dn _ f(1)]) (use f(2) entry in fastforce)
  ultimately show ?thesis using s by blast
qed

text \<open>The link map of the mesh, written out.\<close>

definition ex_entry :: "link \<Rightarrow> port_direction \<Rightarrow> port_direction \<Rightarrow> link_entry" where
  "ex_entry l od idn = \<lparr>le_link = l, le_src_outport_dirn = od, le_dst_inport_dirn = idn\<rparr>"

definition ex_topology :: topology where
  "ex_topology = \<lparr>tp_nodes = 2, tp_number_of_switches = 2, tp_ext_link_vector = ex_ext_links,
     tp_int_link_vector = ex_int_links @ ex_int_links,
     tp_link_map = [((0, 4), ex_entry (ExtLink (ex_ext_link 0)) [] []), ((1, 5), ex_entry (ExtLink (ex_ext_link 1)) [] []),
       ((4, 2), ex_entry (ExtLink (ex_ext_link 0)) [] []), ((4, 5), ex_entry (IntLink (ex_int_link 0 1 ''East'' ''West'')) ''East'' ''West''),
       ((5, 3), ex_entry (ExtLink (ex_ext_link 1)) [] []), ((5, 4), ex_entry (IntLink (ex_int_link 1 0 ''West'' ''East'')) ''West'' ''East'')]\<rparr>"

lemma ex_topology_built: "Topology_new ex_machines 2 ex_ext_links ex_int_links = Inr ex_topology"
  by (simp add: Topology_new_def add_ext_link_def add_int_link_def addLink_def ex_topology_def ex_machines_def
      ex_ext_link_def ex_int_link_def ex_entry_def Let_def assert_that_def)

lemma ex_links_ok: "links_ok ex_topology"
  by (simp add: links_ok_def ex_topology_def ex_entry_def ex_ext_link_def ex_int_link_def map_inv_def less_prod_def)

definition ex_topology_weights :: matrix where
  "ex_topology_weights =
     [[0, 10000, 10000, 10000, 1, 10000], [10000, 0, 10000, 10000, 10000, 1], [10000, 10000, 0, 10000, 10000, 10000],
      [10000, 10000, 10000, 0, 10000, 10000], [10000, 10000, 1, 10000, 0, 1], [10000, 10000, 10000, 1, 1, 0]]"

definition ex_topology_latencies :: matrix where
  "ex_topology_latencies =
     [[-1, -1, -1, -1, 1, -1], [-1, -1, -1, -1, -1, 1], [-1, -1, -1, -1, -1, -1],
      [-1, -1, -1, -1, -1, -1], [-1, -1, 1, -1, -1, 1], [-1, -1, -1, 1, 1, -1]]"

lemma ex_matrices: "topology_matrices ex_topology = Inr (ex_topology_weights, ex_topology_latencies)"
  by (simp add: topology_matrices_def ex_topology_def max_switch_id_def identity_weights_def fill_link_def
      ex_entry_def ex_ext_link_def ex_int_link_def ex_topology_weights_def ex_topology_latencies_def Let_def upt_rec
      put_at2_def at_def put_at_def INFINITE_LATENCY_def eval_nat_numeral)

lemma ex_machines_ok: "machines_ok ex_machines"
  by (simp add: machines_ok_def ex_machines_def NUMBER_BITS_PER_SET_def)

theorem topology_routes_arrive_witness:
  "\<exists>s. shortest_path ex_topology_weights ex_topology_latencies (replicate 6 (replicate 6 0)) = Some (Inr s) \<and>
    (\<forall>i < 6. i \<noteq> 3 \<and> ps_dist s ! i ! 3 < INFINITE_LATENCY \<longrightarrow>
       (\<exists>j nd. (i, j) \<in> dom (map_of (tp_link_map ex_topology)) \<and>
          shortest_path_to_node ex_machines i j ex_topology_weights (ps_dist s) = Inr nd \<and> (0, 1) \<in> nd_elems nd)) \<and>
    (\<forall>f. f 0 < 6 \<and> (\<forall>t. f t \<noteq> 3 \<longrightarrow> f (Suc t) < 6 \<and> 0 < ex_topology_weights ! f t ! f (Suc t) \<and>
         (\<exists>nd. shortest_path_to_node ex_machines (f t) (f (Suc t)) ex_topology_weights (ps_dist s) = Inr nd \<and>
            (0, 1) \<in> nd_elems nd)) \<longrightarrow>
       (\<exists>t. int t \<le> ps_dist s ! f 0 ! 3 \<and> f t = 3))"
proof -
  have len: "length ex_topology_weights = 6" by (simp add: ex_topology_weights_def)
  have N: "2 * mt_base_number ex_machines (mt_num ex_machines) \<le> length ex_topology_weights"
    and p: "valid_machine ex_machines (0, 1)"
    and d: "3 = node_of ex_machines (0, 1) + mt_base_number ex_machines (mt_num ex_machines)"
    by (simp_all add: len ex_machines_def valid_machine_def node_of_def)
  show ?thesis by (rule topology_routes_arrive [OF ex_machines_ok ex_links_ok ex_matrices N p d, unfolded len])
qed

end
