(* ===== verification/Flow_Stats.thy ===== *)
theory Flow_Stats
  imports Drain
begin

text \<open>
  The counters of \<open>GarnetNetwork\<close> that a network interface updates when a flit enters or leaves the network
  (src/gem5/src/mem/ruby/network/garnet2.0/GarnetNetwork.hh), as \<open>regStats\<close> creates them (GarnetNetwork.cc). A
  \<open>Stats::Vector\<close> asserts that its index is in range; a \<open>Stats::Histogram\<close> is the list of its samples, the latest
  first. Counters are natural numbers and sums exact: the 64-bit wrap-around, the rounding of the statistics
  package's doubles and what is printed are left out. \<open>exitSimLoop\<close> asks the simulator to stop after the current
  event; the messages it was called with are \<open>fs_exits\<close>.
\<close>

section \<open>Latency statistics\<close>

text \<open>
  The three families \<open>*_flit_latency\<close>, \<open>*_flit_network_latency\<close> and \<open>*_flit_queueing_latency\<close>: the running extremes,
  the samples, and the scalars of the report that the extremes are copied to.
\<close>

record latency_stats =
  ls_max :: cycles
  ls_min :: cycles
  ls_marked :: cycles
  ls_hist :: "cycles list"
  ls_marked_hist :: "cycles list"
  ls_stat_max :: cycles
  ls_stat_min :: cycles
  ls_stat_max_marked :: cycles

definition latency_stats_new :: latency_stats where
  "latency_stats_new =
     \<lparr>ls_max = 0, ls_min = 999999, ls_marked = 0, ls_hist = [], ls_marked_hist = [], ls_stat_max = 0,
      ls_stat_min = 0, ls_stat_max_marked = 0\<rparr>"

definition sample_latency :: "cycles \<Rightarrow> bool \<Rightarrow> latency_stats \<Rightarrow> latency_stats" where
  "sample_latency latency marked s =
     (if marked then
        s\<lparr>ls_marked_hist := latency # ls_marked_hist s,
          ls_marked := if ls_marked s < latency then latency else ls_marked s\<rparr>
      else
        s\<lparr>ls_hist := latency # ls_hist s,
          ls_max := if ls_max s < latency then latency else ls_max s,
          ls_min := if latency < ls_min s then latency else ls_min s\<rparr>)"

section \<open>The counters\<close>

record flow_stats =
  fs_flits_injected :: "nat list"
  fs_flits_received :: "nat list"
  fs_packets_injected :: "nat list"
  fs_packets_received :: "nat list"
  fs_marked_flt_injected :: "nat list"
  fs_marked_flt_received :: "nat list"
  fs_marked_pkt_injected :: "nat list"
  fs_marked_pkt_received :: "nat list"
  fs_flit_network_latency :: "nat list"
  fs_flit_queueing_latency :: "nat list"
  fs_packet_network_latency :: "nat list"
  fs_packet_queueing_latency :: "nat list"
  fs_marked_flt_network_latency :: "nat list"
  fs_marked_flt_queueing_latency :: "nat list"
  fs_marked_pkt_network_latency :: "nat list"
  fs_marked_pkt_queueing_latency :: "nat list"
  fs_flt_dist :: "nat list"
  fs_marked_flt_dist :: "nat list"
  fs_network_latency_histogram :: "nat list"
  fs_flit_latency :: latency_stats
  fs_network_latency :: latency_stats
  fs_queueing_latency :: latency_stats
  fs_marked_injected :: nat
  fs_marked_received :: nat
  fs_total_marked_latency :: nat
  fs_total_marked_received :: nat
  fs_total_hops :: int
  fs_marked_total_hops :: int
  fs_pre_mature_exit :: nat
  fs_exits :: "string list"

definition flow_stats_new :: "nat \<Rightarrow> nat \<Rightarrow> flow_stats" where
  "flow_stats_new virtual_networks num_routers =
     (let v = replicate virtual_networks 0; d = replicate num_routers 0 in
      \<lparr>fs_flits_injected = v, fs_flits_received = v, fs_packets_injected = v, fs_packets_received = v,
       fs_marked_flt_injected = v, fs_marked_flt_received = v, fs_marked_pkt_injected = v,
       fs_marked_pkt_received = v, fs_flit_network_latency = v, fs_flit_queueing_latency = v,
       fs_packet_network_latency = v, fs_packet_queueing_latency = v, fs_marked_flt_network_latency = v,
       fs_marked_flt_queueing_latency = v, fs_marked_pkt_network_latency = v,
       fs_marked_pkt_queueing_latency = v, fs_flt_dist = d, fs_marked_flt_dist = d,
       fs_network_latency_histogram = replicate 21 0, fs_flit_latency = latency_stats_new,
       fs_network_latency = latency_stats_new, fs_queueing_latency = latency_stats_new,
       fs_marked_injected = 0, fs_marked_received = 0, fs_total_marked_latency = 0,
       fs_total_marked_received = 0, fs_total_hops = 0, fs_marked_total_hops = 0, fs_pre_mature_exit = 0,
       fs_exits = []\<rparr>)"

text \<open>\<open>v[i] += k\<close> on a \<open>Stats::Vector\<close>.\<close>

definition stat_add :: "int \<Rightarrow> nat \<Rightarrow> nat list \<Rightarrow> nat list res" where
  "stat_add i k v =
     bnd (assert_that (0 \<le> i \<and> i < int (length v))) (\<lambda>_. Inr (v[nat i := v ! nat i + k]))"

definition stat_add_if :: "bool \<Rightarrow> int \<Rightarrow> nat \<Rightarrow> nat list \<Rightarrow> nat list res" where
  "stat_add_if marked i k v = (if marked then stat_add i k v else Inr v)"

section \<open>Updates\<close>

definition update_flit_latency_histogram :: "cycles \<Rightarrow> bool \<Rightarrow> flow_stats \<Rightarrow> flow_stats" where
  "update_flit_latency_histogram latency marked s =
     s\<lparr>fs_flit_latency := sample_latency latency marked (fs_flit_latency s)\<rparr>"

definition update_flit_network_latency_histogram :: "cycles \<Rightarrow> bool \<Rightarrow> flow_stats \<Rightarrow> flow_stats" where
  "update_flit_network_latency_histogram latency marked s =
     s\<lparr>fs_network_latency := sample_latency latency marked (fs_network_latency s)\<rparr>"

definition update_flit_queueing_latency_histogram :: "cycles \<Rightarrow> bool \<Rightarrow> flow_stats \<Rightarrow> flow_stats" where
  "update_flit_queueing_latency_histogram latency marked s =
     s\<lparr>fs_queueing_latency := sample_latency latency marked (fs_queueing_latency s)\<rparr>"

definition increment_injected_packets :: "int \<Rightarrow> bool \<Rightarrow> flow_stats \<Rightarrow> flow_stats res" where
  "increment_injected_packets vnet marked s =
     bnd (stat_add_if marked vnet 1 (fs_marked_pkt_injected s)) (\<lambda>m.
     bnd (stat_add vnet 1 (fs_packets_injected s)) (\<lambda>v.
     Inr (s\<lparr>fs_marked_pkt_injected := m, fs_packets_injected := v\<rparr>)))"

definition increment_received_packets :: "int \<Rightarrow> bool \<Rightarrow> flow_stats \<Rightarrow> flow_stats res" where
  "increment_received_packets vnet marked s =
     bnd (stat_add_if marked vnet 1 (fs_marked_pkt_received s)) (\<lambda>m.
     bnd (stat_add vnet 1 (fs_packets_received s)) (\<lambda>v.
     Inr (s\<lparr>fs_marked_pkt_received := m, fs_packets_received := v\<rparr>)))"

text \<open>The quotient is converted to a signed 32-bit \<open>int\<close>; a latency of \<open>5 * 2 ^ 31\<close> cycles or more does not occur.\<close>

definition update_network_latency_histogram :: "cycles \<Rightarrow> flow_stats \<Rightarrow> flow_stats res" where
  "update_network_latency_histogram latency s =
     bnd (stat_add (if latency div 5 < 20 then int (latency div 5) else 20) 1 (fs_network_latency_histogram s)) (\<lambda>v.
     Inr (s\<lparr>fs_network_latency_histogram := v\<rparr>))"

definition increment_packet_network_latency :: "cycles \<Rightarrow> int \<Rightarrow> bool \<Rightarrow> flow_stats \<Rightarrow> flow_stats res" where
  "increment_packet_network_latency latency vnet marked s =
     bnd (stat_add vnet latency (fs_packet_network_latency s)) (\<lambda>v.
     bnd (stat_add_if marked vnet latency (fs_marked_pkt_network_latency s)) (\<lambda>m.
     Inr (s\<lparr>fs_packet_network_latency := v, fs_marked_pkt_network_latency := m\<rparr>)))"

definition increment_packet_queueing_latency :: "cycles \<Rightarrow> int \<Rightarrow> bool \<Rightarrow> flow_stats \<Rightarrow> flow_stats res" where
  "increment_packet_queueing_latency latency vnet marked s =
     bnd (stat_add vnet latency (fs_packet_queueing_latency s)) (\<lambda>v.
     bnd (stat_add_if marked vnet latency (fs_marked_pkt_queueing_latency s)) (\<lambda>m.
     Inr (s\<lparr>fs_packet_queueing_latency := v, fs_marked_pkt_queueing_latency := m\<rparr>)))"

definition increment_injected_flits :: "int \<Rightarrow> bool \<Rightarrow> int \<Rightarrow> flow_stats \<Rightarrow> flow_stats res" where
  "increment_injected_flits vnet marked router_id s =
     bnd (stat_add vnet 1 (fs_flits_injected s)) (\<lambda>v.
     bnd (stat_add router_id 1 (fs_flt_dist s)) (\<lambda>d.
     bnd (stat_add_if marked vnet 1 (fs_marked_flt_injected s)) (\<lambda>mv.
     bnd (stat_add_if marked router_id 1 (fs_marked_flt_dist s)) (\<lambda>md.
     Inr (s\<lparr>fs_flits_injected := v, fs_flt_dist := d, fs_marked_flt_injected := mv, fs_marked_flt_dist := md,
            fs_marked_injected := fs_marked_injected s + (if marked then 1 else 0)\<rparr>)))))"

definition copy_extremes :: "latency_stats \<Rightarrow> latency_stats" where
  "copy_extremes s = s\<lparr>ls_stat_max := ls_max s, ls_stat_min := ls_min s\<rparr>"

definition copy_marked :: "latency_stats \<Rightarrow> latency_stats" where
  "copy_marked s = s\<lparr>ls_stat_max_marked := ls_marked s\<rparr>"

definition copy_all_extremes :: "flow_stats \<Rightarrow> flow_stats" where
  "copy_all_extremes s =
     s\<lparr>fs_flit_latency := copy_extremes (fs_flit_latency s),
       fs_network_latency := copy_extremes (fs_network_latency s),
       fs_queueing_latency := copy_extremes (fs_queueing_latency s)\<rparr>"

definition copy_all_marked :: "flow_stats \<Rightarrow> flow_stats" where
  "copy_all_marked s =
     s\<lparr>fs_flit_latency := copy_marked (fs_flit_latency s),
       fs_network_latency := copy_marked (fs_network_latency s),
       fs_queueing_latency := copy_marked (fs_queueing_latency s)\<rparr>"

text \<open>When the last marked flit has arrived, the simulation is asked to stop.\<close>

definition marked_flit_arrived :: "int \<Rightarrow> garnet_network \<Rightarrow> flow_stats \<Rightarrow> flow_stats res" where
  "marked_flit_arrived vnet net s =
     bnd (stat_add vnet 1 (fs_marked_flt_received s)) (\<lambda>m.
     let s1 = s\<lparr>fs_marked_flt_received := m, fs_marked_received := fs_marked_received s + 1,
                fs_total_marked_received := fs_total_marked_received s + 1\<rparr> in
     if check_mrkd_flt (fs_marked_received s1) (fs_marked_injected s1) net then
       bnd (assert_that (fs_marked_injected s1 = fs_marked_received s1)) (\<lambda>_.
       Inr ((copy_all_marked s1)\<lparr>fs_exits := fs_exits s1 @ [''All marked packet received.'']\<rparr>))
     else Inr s1)"

definition increment_received_flits :: "int \<Rightarrow> bool \<Rightarrow> garnet_network \<Rightarrow> flow_stats \<Rightarrow> flow_stats res" where
  "increment_received_flits vnet marked net s =
     bnd (stat_add vnet 1 (fs_flits_received s)) (\<lambda>v.
     let s1 = copy_all_extremes (s\<lparr>fs_flits_received := v\<rparr>) in
     if marked then marked_flit_arrived vnet net s1 else Inr s1)"

definition increment_flit_network_latency :: "cycles \<Rightarrow> int \<Rightarrow> bool \<Rightarrow> flow_stats \<Rightarrow> flow_stats res" where
  "increment_flit_network_latency latency vnet marked s =
     bnd (stat_add vnet latency (fs_flit_network_latency s)) (\<lambda>v.
     bnd (stat_add_if marked vnet latency (fs_marked_flt_network_latency s)) (\<lambda>m.
     Inr (s\<lparr>fs_flit_network_latency := v, fs_marked_flt_network_latency := m,
            fs_total_marked_latency := fs_total_marked_latency s + (if marked then latency else 0)\<rparr>)))"

definition increment_flit_queueing_latency :: "cycles \<Rightarrow> int \<Rightarrow> bool \<Rightarrow> flow_stats \<Rightarrow> flow_stats res" where
  "increment_flit_queueing_latency latency vnet marked s =
     bnd (stat_add vnet latency (fs_flit_queueing_latency s)) (\<lambda>v.
     bnd (stat_add_if marked vnet latency (fs_marked_flt_queueing_latency s)) (\<lambda>m.
     Inr (s\<lparr>fs_flit_queueing_latency := v, fs_marked_flt_queueing_latency := m,
            fs_total_marked_latency := fs_total_marked_latency s + (if marked then latency else 0)\<rparr>)))"

definition increment_total_hops :: "int \<Rightarrow> bool \<Rightarrow> flow_stats \<Rightarrow> flow_stats" where
  "increment_total_hops hops marked s =
     s\<lparr>fs_total_hops := fs_total_hops s + hops,
       fs_marked_total_hops := fs_marked_total_hops s + (if marked then hops else 0)\<rparr>"

text \<open>
  The average is compared as a fraction; before the first marked flit has arrived it is 0/0, not a number, or
  infinite.
\<close>

definition check_network_saturation :: "cycles \<Rightarrow> flow_stats \<Rightarrow> flow_stats" where
  "check_network_saturation now s =
     (let s1 = (if (if fs_total_marked_received s = 0 then 0 < fs_total_marked_latency s
                    else 1000 * fs_total_marked_received s < fs_total_marked_latency s)
                then s\<lparr>fs_exits := fs_exits s @ [''avg flit latency exceeded threshold!.'']\<rparr> else s) in
      if 1000000 < now then
        s1\<lparr>fs_pre_mature_exit := fs_pre_mature_exit s1 + 1,
           fs_exits := fs_exits s1 @ [''Simulation exceed its cycle quota!'']\<rparr>
      else s1)"

end
