(* ===== verification/Message_Buffer.thy ===== *)
theory Message_Buffer
  imports Network_State Std_Map
begin

text \<open>
  \<open>Message\<close> (src/gem5/src/mem/ruby/slicc_interface/Message.hh) and \<open>MessageBuffer\<close>
  (src/gem5/src/mem/ruby/network/MessageBuffer.cc, MessageBuffer.hh): the queues between the coherence
  protocol and a network interface. A buffer is a heap of messages ordered by the tick at which they may
  be taken and, within a tick, by a counter of the buffer; messages that the receiver has stalled wait in
  a map from line addresses to lists. Times are ticks.

  Buffers hold messages by value: a message is in one container at a time. The subclasses of \<open>Message\<close> are
  generated from the protocol; what the network uses of them, the destination and the size class, are
  fields of the record. \<open>RubySystem\<close>'s switches and the random numbers are the record \<open>ruby_state\<close>. The wakeups a
  buffer asks for are returned as a list; \<open>m_dequeue_callback\<close>, which only network interfaces register, is the
  number of the interface. The averages for the statistics report are left out.
\<close>

section \<open>Messages\<close>

type_synonym tick = nat

datatype MessageSizeType =
    MessageSizeType_Control
  | MessageSizeType_Data
  | MessageSizeType_Request_Control
  | MessageSizeType_Reissue_Control
  | MessageSizeType_Response_Data
  | MessageSizeType_ResponseL2hit_Data
  | MessageSizeType_ResponseLocal_Data
  | MessageSizeType_Response_Control
  | MessageSizeType_Writeback_Data
  | MessageSizeType_Writeback_Control
  | MessageSizeType_Broadcast_Control
  | MessageSizeType_Multicast_Control
  | MessageSizeType_Forwarded_Control
  | MessageSizeType_Invalidate_Control
  | MessageSizeType_Unblock_Control
  | MessageSizeType_Persistent_Control
  | MessageSizeType_Completion_Control

record message =
  msg_id :: nat
  msg_time :: tick
  msg_LastEnqueueTime :: tick
  msg_DelayedTicks :: tick
  msg_counter :: nat
  msg_destination :: net_dest
  msg_size :: MessageSizeType

definition updateDelayedTicks :: "tick \<Rightarrow> message \<Rightarrow> message res" where
  "updateDelayedTicks curTime m =
     bnd (assert_that (msg_LastEnqueueTime m \<le> curTime)) (\<lambda>_.
     let delta = curTime - msg_LastEnqueueTime m in
     Inr (m\<lparr>msg_DelayedTicks := msg_DelayedTicks m + delta\<rparr>))"

definition msg_greater :: "message \<Rightarrow> message \<Rightarrow> bool" where
  "msg_greater l r =
     (if msg_LastEnqueueTime l = msg_LastEnqueueTime r then msg_counter r < msg_counter l
      else msg_LastEnqueueTime r < msg_LastEnqueueTime l)"

section \<open>The buffer\<close>

record message_buffer =
  mb_consumer :: "consumer_ref option"
  mb_prio_heap :: "message list"
  mb_dequeue_callback :: "nat option"
  mb_stall_msg_map :: "(nat \<times> message list) list"
  mb_stall_map_size :: int
  mb_max_size :: nat
  mb_time_last_time_size_checked :: tick
  mb_size_last_time_size_checked :: nat
  mb_time_last_time_enqueue :: tick
  mb_time_last_time_pop :: tick
  mb_last_arrival_time :: tick
  mb_size_at_cycle_start :: nat
  mb_msgs_this_cycle :: nat
  mb_not_avail_count :: nat
  mb_msg_counter :: nat
  mb_priority_rank :: int
  mb_strict_fifo :: bool
  mb_randomization :: bool
  mb_input_link_id :: int
  mb_vnet_id :: int
  mb_buf_msgs :: int
  mb_stall_count :: nat

type_synonym tick_req = "consumer_ref \<times> tick"

record ruby_state =
  rs_randomization :: bool
  rs_warmup_enabled :: bool
  rs_random :: "nat \<Rightarrow> nat"

definition MessageBuffer_new :: "nat \<Rightarrow> bool \<Rightarrow> bool \<Rightarrow> message_buffer" where
  "MessageBuffer_new buffer_size ordered randomization =
     \<lparr>mb_consumer = None, mb_prio_heap = [], mb_dequeue_callback = None, mb_stall_msg_map = [],
      mb_stall_map_size = 0, mb_max_size = buffer_size, mb_time_last_time_size_checked = 0,
      mb_size_last_time_size_checked = 0, mb_time_last_time_enqueue = 0, mb_time_last_time_pop = 0,
      mb_last_arrival_time = 0, mb_size_at_cycle_start = 0, mb_msgs_this_cycle = 0, mb_not_avail_count = 0,
      mb_msg_counter = 0, mb_priority_rank = 0, mb_strict_fifo = ordered, mb_randomization = randomization,
      mb_input_link_id = 0, mb_vnet_id = 0, mb_buf_msgs = 0, mb_stall_count = 0\<rparr>"

text \<open>The heap calls that all operations share.\<close>

definition mb_push :: "message \<Rightarrow> message_buffer \<Rightarrow> message_buffer" where
  "mb_push m b = b\<lparr>mb_prio_heap := push_heap msg_greater (mb_prio_heap b) m\<rparr>"

definition mb_peekMsgPtr :: "message_buffer \<Rightarrow> message res" where
  "mb_peekMsgPtr b = (case mb_prio_heap b of [] \<Rightarrow> Inl OutOfRange | m # _ \<Rightarrow> Inr m)"

definition mb_pop :: "message_buffer \<Rightarrow> (message \<times> message_buffer) res" where
  "mb_pop b =
     (case mb_prio_heap b of
        [] \<Rightarrow> Inl OutOfRange
      | m # _ \<Rightarrow> Inr (m, b\<lparr>mb_prio_heap := pop_heap msg_greater (mb_prio_heap b)\<rparr>))"

definition mb_getSize :: "tick \<Rightarrow> message_buffer \<Rightarrow> nat \<times> message_buffer" where
  "mb_getSize curTime b =
     (let b1 = (if mb_time_last_time_size_checked b \<noteq> curTime
                then b\<lparr>mb_time_last_time_size_checked := curTime,
                       mb_size_last_time_size_checked := length (mb_prio_heap b)\<rparr>
                else b) in
      (mb_size_last_time_size_checked b1, b1))"

definition mb_current_size :: "tick \<Rightarrow> message_buffer \<Rightarrow> nat" where
  "mb_current_size current_time b =
     (if mb_time_last_time_pop b < current_time then length (mb_prio_heap b)
      else if mb_time_last_time_enqueue b < current_time then mb_size_at_cycle_start b
      else mb_size_at_cycle_start b + mb_msgs_this_cycle b)"

definition areNSlotsAvailable :: "nat \<Rightarrow> tick \<Rightarrow> message_buffer \<Rightarrow> bool \<times> message_buffer" where
  "areNSlotsAvailable n current_time b =
     (if mb_max_size b = 0 then (True, b)
      else if int (mb_current_size current_time b) + mb_stall_map_size b + int n \<le> int (mb_max_size b) then (True, b)
      else (False, b\<lparr>mb_not_avail_count := mb_not_avail_count b + 1\<rparr>))"

definition mb_isReady :: "tick \<Rightarrow> message_buffer \<Rightarrow> bool" where
  "mb_isReady current_time b =
     (0 < length (mb_prio_heap b) \<and> msg_LastEnqueueTime (hd (mb_prio_heap b)) \<le> current_time)"

definition mb_setConsumer :: "consumer_ref \<Rightarrow> message_buffer \<Rightarrow> message_buffer res" where
  "mb_setConsumer c b =
     (if mb_consumer b \<noteq> None then Inl (Fatal ''already connected'') else Inr (b\<lparr>mb_consumer := Some c\<rparr>))"

definition mb_schedule :: "message_buffer \<Rightarrow> tick \<Rightarrow> tick_req list res" where
  "mb_schedule b t = (case mb_consumer b of None \<Rightarrow> Inl NullPointer | Some c \<Rightarrow> Inr [(c, t)])"

section \<open>Random arrival times\<close>

definition random_in :: "nat \<Rightarrow> nat \<Rightarrow> ruby_state \<Rightarrow> nat \<times> ruby_state" where
  "random_in lo hi R = (lo + rs_random R 0 mod (hi - lo + 1), R\<lparr>rs_random := (\<lambda>n. rs_random R (Suc n))\<rparr>)"

definition random_time :: "ruby_state \<Rightarrow> tick \<times> ruby_state" where
  "random_time R =
     (let (a, R1) = random_in 0 3 R; (b, R2) = random_in 0 7 R1 in
      if b = 0 then let (c, R3) = random_in 1 15 R2 in (1 + a + (100 + c), R3)
      else (1 + a, R2))"

section \<open>Enqueue and dequeue\<close>

text \<open>The first cycle at which the message can be taken, and \<open>m_last_arrival_time\<close> as it is raised on the way.\<close>

definition mb_arrival :: "ruby_state \<Rightarrow> tick \<Rightarrow> tick \<Rightarrow> message_buffer \<Rightarrow> tick \<times> tick \<times> ruby_state" where
  "mb_arrival R current_time delta b =
     (if \<not> rs_randomization R \<or> \<not> mb_randomization b then (current_time + delta, mb_last_arrival_time b, R)
      else
        let (t, R') = random_time R;
            last = (if mb_strict_fifo b \<and> mb_last_arrival_time b < current_time then current_time
                    else mb_last_arrival_time b) in
        if mb_strict_fifo b then (last + t, last, R')
        else (current_time + t, last, R'))"

definition mb_enqueue ::
    "message \<Rightarrow> tick \<Rightarrow> tick \<Rightarrow> ruby_state \<times> message_buffer \<Rightarrow> (ruby_state \<times> message_buffer \<times> tick_req list) res" where
  "mb_enqueue m current_time delta s =
     (case s of (R, b0) \<Rightarrow>
      let b1 = (if mb_time_last_time_enqueue b0 < current_time
                then b0\<lparr>mb_msgs_this_cycle := 0, mb_time_last_time_enqueue := current_time\<rparr> else b0);
          b2 = b1\<lparr>mb_msg_counter := mb_msg_counter b1 + 1, mb_msgs_this_cycle := mb_msgs_this_cycle b1 + 1\<rparr> in
      bnd (assert_that (0 < delta)) (\<lambda>_.
      let (arrival_time, last, R') = mb_arrival R current_time delta b2 in
      bnd (assert_that (current_time < arrival_time)) (\<lambda>_.
      if mb_strict_fifo b2 \<and> arrival_time < last then Inl (Panic ''FIFO ordering violated'')
      else
        let b3 = b2\<lparr>mb_last_arrival_time := if rs_warmup_enabled R then last else arrival_time\<rparr> in
        bnd (assert_that (msg_LastEnqueueTime m \<le> current_time)) (\<lambda>_.
        bnd (updateDelayedTicks current_time m) (\<lambda>m1.
        let m2 = m1\<lparr>msg_LastEnqueueTime := arrival_time, msg_counter := mb_msg_counter b3\<rparr>;
            b4 = mb_push m2 b3;
            b5 = b4\<lparr>mb_buf_msgs := mb_buf_msgs b4 + 1\<rparr> in
        bnd (assert_that (mb_consumer b5 \<noteq> None)) (\<lambda>_.
        bnd (mb_schedule b5 arrival_time) (\<lambda>evs.
        Inr (R', b5, evs))))))))"

text \<open>
  The result is the delay of the message, the message as it left, the buffer, and the interface whose
  callback is to be run.
\<close>

definition mb_dequeue ::
    "tick \<Rightarrow> bool \<Rightarrow> message_buffer \<Rightarrow> (tick \<times> message \<times> message_buffer \<times> nat option) res" where
  "mb_dequeue current_time decrement_messages b =
     bnd (assert_that (mb_isReady current_time b)) (\<lambda>_.
     bnd (mb_peekMsgPtr b) (\<lambda>m.
     bnd (updateDelayedTicks current_time m) (\<lambda>m1.
     let b1 = (if mb_time_last_time_pop b < current_time
               then b\<lparr>mb_size_at_cycle_start := length (mb_prio_heap b), mb_time_last_time_pop := current_time\<rparr>
               else b) in
     bnd (mb_pop b1) (\<lambda>(_, b2).
     let b3 = (if decrement_messages then b2\<lparr>mb_buf_msgs := mb_buf_msgs b2 - 1\<rparr> else b2) in
     Inr (msg_DelayedTicks m1, m1, b3, mb_dequeue_callback b3)))))"

definition registerDequeueCallback :: "nat \<Rightarrow> message_buffer \<Rightarrow> message_buffer" where
  "registerDequeueCallback cb b = b\<lparr>mb_dequeue_callback := Some cb\<rparr>"

definition unregisterDequeueCallback :: "message_buffer \<Rightarrow> message_buffer" where
  "unregisterDequeueCallback b = b\<lparr>mb_dequeue_callback := None\<rparr>"

definition mb_clear :: "message_buffer \<Rightarrow> message_buffer" where
  "mb_clear b = b\<lparr>mb_prio_heap := [], mb_msg_counter := 0, mb_time_last_time_enqueue := 0,
     mb_time_last_time_pop := 0, mb_size_at_cycle_start := 0, mb_msgs_this_cycle := 0\<rparr>"

definition mb_clearStats :: "message_buffer \<Rightarrow> message_buffer" where
  "mb_clearStats b = b\<lparr>mb_not_avail_count := 0, mb_msg_counter := 0\<rparr>"

text \<open>
  \<open>recycle\<close> leaves the front in the last slot of the vector, overwrites that slot with the message and its
  new time and pushes it up again: a pop followed by a push.
\<close>

definition mb_recycle :: "tick \<Rightarrow> tick \<Rightarrow> message_buffer \<Rightarrow> (message_buffer \<times> tick_req list) res" where
  "mb_recycle current_time recycle_latency b =
     bnd (assert_that (mb_isReady current_time b)) (\<lambda>_.
     bnd (mb_pop b) (\<lambda>(node, b1).
     let future_time = current_time + recycle_latency;
         b2 = mb_push (node\<lparr>msg_LastEnqueueTime := future_time\<rparr>) b1 in
     bnd (mb_schedule b2 future_time) (\<lambda>evs. Inr (b2, evs))))"

definition mb_delayHead ::
    "tick \<Rightarrow> tick \<Rightarrow> ruby_state \<times> message_buffer \<Rightarrow> (ruby_state \<times> message_buffer \<times> tick_req list) res" where
  "mb_delayHead current_time delta s =
     (case s of (R, b) \<Rightarrow> bnd (mb_pop b) (\<lambda>(m, b1). mb_enqueue m current_time delta (R, b1)))"

section \<open>Stalling\<close>

definition mb_reanalyze_one :: "tick \<Rightarrow> message \<Rightarrow> message_buffer \<times> tick_req list \<Rightarrow> (message_buffer \<times> tick_req list) res" where
  "mb_reanalyze_one schdTick m s =
     (case s of (b, evs) \<Rightarrow>
      let b1 = b\<lparr>mb_msg_counter := mb_msg_counter b + 1\<rparr>;
          b2 = mb_push (m\<lparr>msg_LastEnqueueTime := schdTick, msg_counter := mb_msg_counter b1\<rparr>) b1 in
      bnd (mb_schedule b2 schdTick) (\<lambda>evs'. Inr (b2, evs @ evs')))"

definition mb_reanalyzeList ::
    "message list \<Rightarrow> tick \<Rightarrow> message_buffer \<times> tick_req list \<Rightarrow> (message_buffer \<times> tick_req list) res" where
  "mb_reanalyzeList lt schdTick s = foldM (mb_reanalyze_one schdTick) lt s"

definition mb_reanalyzeMessages :: "nat \<Rightarrow> tick \<Rightarrow> message_buffer \<Rightarrow> (message_buffer \<times> tick_req list) res" where
  "mb_reanalyzeMessages addr current_time b =
     bnd (assert_that (map_of (mb_stall_msg_map b) addr \<noteq> None)) (\<lambda>_.
     let lt = map_get [] addr (mb_stall_msg_map b);
         b1 = b\<lparr>mb_stall_map_size := mb_stall_map_size b - int (length lt)\<rparr> in
     bnd (assert_that (0 \<le> mb_stall_map_size b1)) (\<lambda>_.
     bnd (mb_reanalyzeList lt current_time (b1, [])) (\<lambda>(b2, evs).
     Inr (b2\<lparr>mb_stall_msg_map := map_erase addr (mb_stall_msg_map b2)\<rparr>, evs))))"

definition mb_reanalyze_entry ::
    "tick \<Rightarrow> nat \<times> message list \<Rightarrow> message_buffer \<times> tick_req list \<Rightarrow> (message_buffer \<times> tick_req list) res" where
  "mb_reanalyze_entry current_time p s =
     (case s of (b, evs) \<Rightarrow>
      let b1 = b\<lparr>mb_stall_map_size := mb_stall_map_size b - int (length (snd p))\<rparr> in
      bnd (assert_that (0 \<le> mb_stall_map_size b1)) (\<lambda>_.
      mb_reanalyzeList (snd p) current_time (b1, evs)))"

definition mb_reanalyzeAllMessages :: "tick \<Rightarrow> message_buffer \<Rightarrow> (message_buffer \<times> tick_req list) res" where
  "mb_reanalyzeAllMessages current_time b =
     bnd (foldM (mb_reanalyze_entry current_time) (mb_stall_msg_map b) (b, [])) (\<lambda>(b1, evs).
     Inr (b1\<lparr>mb_stall_msg_map := []\<rparr>, evs))"

text \<open>
  \<open>getOffset\<close> selects the low \<open>block_bits\<close> bits of a 64-bit address (src/gem5/src/mem/ruby/common/Address.cc); the
  last bit, \<open>block_bits - 1\<close>, is computed without a sign.
\<close>

definition getOffset :: "nat \<Rightarrow> nat \<Rightarrow> nat" where
  "getOffset block_bits addr = (if block_bits = 0 \<or> 64 \<le> block_bits then addr else addr mod 2 ^ block_bits)"

definition mb_stallMessage :: "nat \<Rightarrow> nat \<Rightarrow> tick \<Rightarrow> message_buffer \<Rightarrow> (message_buffer \<times> nat option) res" where
  "mb_stallMessage block_bits addr current_time b =
     bnd (assert_that (mb_isReady current_time b)) (\<lambda>_.
     bnd (assert_that (getOffset block_bits addr = 0)) (\<lambda>_.
     bnd (mb_dequeue current_time False b) (\<lambda>(_, m, b1, cb).
     let lt = map_get [] addr (mb_stall_msg_map b1) in
     Inr (b1\<lparr>mb_stall_msg_map := map_put addr (lt @ [m]) (mb_stall_msg_map b1),
             mb_stall_map_size := mb_stall_map_size b1 + 1, mb_stall_count := mb_stall_count b1 + 1\<rparr>, cb))))"

definition mb_functionalWrite :: "(message \<Rightarrow> bool) \<Rightarrow> message_buffer \<Rightarrow> nat" where
  "mb_functionalWrite fw b = length (filter fw (mb_prio_heap b)) +
     sum_list (map (\<lambda>p. length (filter fw (snd p))) (mb_stall_msg_map b))"

section \<open>Sequences of operations\<close>

text \<open>
  The calls that the protocol and the network make on a buffer. \<open>mb_run\<close> performs one at a given tick; the
  last component of the state is the list of the messages taken out so far.
\<close>

datatype buffer_op =
    Enqueue message tick
  | Dequeue
  | Recycle tick
  | DelayHead tick
  | Stall nat
  | Reanalyze nat
  | ReanalyzeAll
  | Slots nat

type_synonym buffer_run = "ruby_state \<times> message_buffer \<times> message list"

fun mb_run :: "nat \<Rightarrow> tick \<times> buffer_op \<Rightarrow> buffer_run \<Rightarrow> buffer_run res" where
  "mb_run bits (t, Enqueue m delta) (R, b, out) = bnd (mb_enqueue m t delta (R, b)) (\<lambda>(R', b', _). Inr (R', b', out))"
| "mb_run bits (t, Dequeue) (R, b, out) = bnd (mb_dequeue t True b) (\<lambda>(_, m, b', _). Inr (R, b', out @ [m]))"
| "mb_run bits (t, Recycle latency) (R, b, out) = bnd (mb_recycle t latency b) (\<lambda>(b', _). Inr (R, b', out))"
| "mb_run bits (t, DelayHead delta) (R, b, out) = bnd (mb_delayHead t delta (R, b)) (\<lambda>(R', b', _). Inr (R', b', out))"
| "mb_run bits (t, Stall addr) (R, b, out) = bnd (mb_stallMessage bits addr t b) (\<lambda>(b', _). Inr (R, b', out))"
| "mb_run bits (t, Reanalyze addr) (R, b, out) = bnd (mb_reanalyzeMessages addr t b) (\<lambda>(b', _). Inr (R, b', out))"
| "mb_run bits (t, ReanalyzeAll) (R, b, out) = bnd (mb_reanalyzeAllMessages t b) (\<lambda>(b', _). Inr (R, b', out))"
| "mb_run bits (t, Slots n) (R, b, out) = Inr (R, snd (areNSlotsAvailable n t b), out)"

fun op_enqueues :: "tick \<times> buffer_op \<Rightarrow> nat list" where
  "op_enqueues (t, Enqueue m delta) = [msg_id m]"
| "op_enqueues _ = []"

fun op_reanalyzes :: "buffer_op \<Rightarrow> bool" where
  "op_reanalyzes (Reanalyze addr) = True"
| "op_reanalyzes ReanalyzeAll = True"
| "op_reanalyzes _ = False"

end
