(* ===== verification/Network_Interface.thy ===== *)
theory Network_Interface
  imports Flow_Stats Message_Buffer Machine_Dest Router_Model
begin

text \<open>
  \<open>NetworkInterface\<close> (src/gem5/src/mem/ruby/network/garnet2.0/NetworkInterface.cc): it takes messages from the buffers of
  the protocol, turns each into one flit per destination and injects them; it takes arriving flits off its link
  and hands their messages to the protocol, or stalls them until there is room.

  \<open>garnet_system\<close> is the network with the message buffers of its nodes, the messages that flits carry (a flit
  holds a key of \<open>gs_msgs\<close>) and the counters. A wakeup runs on \<open>ni_ctx\<close>, the interface and what it can reach; the
  entry of the interface in \<open>nx_net\<close> is written back at the end. \<open>ni_params\<close> holds the parameters of \<open>GarnetNetwork\<close> that only
  interfaces read, the clock period in ticks, the machine types and the bytes that \<open>new flit\<close> finds.
\<close>

section \<open>State\<close>

record ni_params =
  np_ni_inj :: string
  np_inj_single_vnet :: int
  np_sim_type :: int
  np_warmup_cycles :: cycles
  np_clockPeriod :: tick
  np_machines :: machine_types
  np_fresh_flit :: flit

type_synonym node_ptr = "message_buffer option list"

record garnet_system =
  gs_net :: garnet_network
  gs_nodes :: "(node_ptr \<times> node_ptr) list"
  gs_ruby :: ruby_state
  gs_msgs :: "nat \<rightharpoonup> message"
  gs_next_msg :: nat
  gs_stats :: flow_stats
  gs_requests :: "tick_req list"

record ni_ctx =
  nx_ni :: network_interface
  nx_net :: garnet_network
  nx_inNode :: node_ptr
  nx_outNode :: node_ptr
  nx_ruby :: ruby_state
  nx_msgs :: "nat \<rightharpoonup> message"
  nx_next_msg :: nat
  nx_stats :: flow_stats
  nx_events :: "event_req list"
  nx_requests :: "tick_req list"

abbreviation nx_now :: "ni_ctx \<Rightarrow> cycles" where
  "nx_now cx \<equiv> gn_cycle (nx_net cx)"

section \<open>Clock\<close>

definition cycles_minus :: "cycles \<Rightarrow> cycles \<Rightarrow> cycles res" where
  "cycles_minus c b = (if b \<le> c then Inr (c - b) else Inl (Exception ''RHS cycle value larger than LHS''))"

definition cyclesToTicks :: "ni_params \<Rightarrow> cycles \<Rightarrow> tick" where
  "cyclesToTicks P c = np_clockPeriod P * c"

definition ticksToCycles :: "ni_params \<Rightarrow> tick \<Rightarrow> cycles res" where
  "ticksToCycles P t =
     (if np_clockPeriod P = 0 then Inl DivByZero else Inr ((t + np_clockPeriod P - 1) div np_clockPeriod P))"

text \<open>\<open>clockEdge()\<close> in a wakeup, which happens on a clock edge.\<close>

definition curTime :: "ni_params \<Rightarrow> ni_ctx \<Rightarrow> tick" where
  "curTime P cx = cyclesToTicks P (nx_now cx)"

section \<open>Construction\<close>

definition NetworkInterface_new :: "network_interface \<Rightarrow> nat \<Rightarrow> nat \<Rightarrow> nat \<Rightarrow> int \<Rightarrow> network_interface" where
  "NetworkInterface_new u i virt_nets vcs_per_vnet deadlock_threshold =
     u\<lparr>ni_id := i, ni_virtual_networks := virt_nets, ni_vc_per_vnet := vcs_per_vnet,
       ni_num_vcs := vcs_per_vnet * virt_nets, ni_router_id := -1, ni_out_vc_state := [],
       ni_vc_allocator := replicate virt_nets 0, ni_vc_round_robin := 0, ni_outCreditQueue := flitBuffer_new,
       ni_deadlock_threshold := deadlock_threshold, ni_stall_queue := [], ni_stall_count := replicate virt_nets 0,
       ni_out_vcs := replicate (vcs_per_vnet * virt_nets) flitBuffer_new,
       ni_out_vcs_enqueue_time := replicate (vcs_per_vnet * virt_nets) INFINITE,
       ni_vc_busy_counter := replicate virt_nets 0, ni_wakeups := []\<rparr>"

definition NetworkInterface_init :: "garnet_config \<Rightarrow> network_interface \<Rightarrow> network_interface res" where
  "NetworkInterface_init C n =
     bnd (traverse (OutVcState_new C) [0..<ni_num_vcs n]) (\<lambda>states.
     Inr (n\<lparr>ni_out_vc_state := ni_out_vc_state n @ states\<rparr>))"

definition set_node_consumer :: "nat \<Rightarrow> message_buffer option \<Rightarrow> message_buffer option res" where
  "set_node_consumer i b =
     (case b of None \<Rightarrow> Inr None | Some b \<Rightarrow> bnd (mb_setConsumer (NIConsumer i) b) (\<lambda>b'. Inr (Some b')))"

definition NI_addNode :: "nat \<Rightarrow> node_ptr \<Rightarrow> node_ptr \<Rightarrow> garnet_system \<Rightarrow> garnet_system res" where
  "NI_addNode i ins outs S =
     bnd (traverse (set_node_consumer i) ins) (\<lambda>ins'.
     bnd (put_at (gs_nodes S) (int i) (ins', outs)) (\<lambda>nodes. Inr (S\<lparr>gs_nodes := nodes\<rparr>)))"

definition dequeueCallback :: "cycles \<Rightarrow> nat \<Rightarrow> event_req" where
  "dequeueCallback now i = (NIConsumer i, now + 1)"

definition get_router_id :: "garnet_network \<Rightarrow> int \<Rightarrow> int res" where
  "get_router_id net ni = bnd (at (gn_nis net) ni) (\<lambda>n. Inr (ni_router_id n))"

section \<open>Statistics of a flit that leaves\<close>

definition set_dequeue_time :: "cycles \<Rightarrow> flit \<Rightarrow> flit" where
  "set_dequeue_time time f = f\<lparr>fl_dequeue_time := time\<rparr>"

definition set_src_delay :: "cycles \<Rightarrow> flit \<Rightarrow> flit" where
  "set_src_delay delay f = f\<lparr>fl_src_delay := delay\<rparr>"

definition flit_delays :: "cycles \<Rightarrow> flit \<Rightarrow> (cycles \<times> cycles) res" where
  "flit_delays now f =
     bnd (cycles_minus (fl_dequeue_time f) (fl_enqueue_time f)) (\<lambda>d.
     bnd (cycles_minus d 1) (\<lambda>network_delay.
     bnd (cycles_minus now (fl_dequeue_time f)) (\<lambda>dest_queueing_delay.
     Inr (network_delay, fl_src_delay f + dest_queueing_delay))))"

definition incrementStats :: "ni_params \<Rightarrow> flit \<Rightarrow> garnet_network \<Rightarrow> flow_stats \<Rightarrow> flow_stats res" where
  "incrementStats P f net s0 =
     (let vnet = fl_vnet f; marked = fl_marked f; now = gn_cycle net in
      bnd (assert_that (np_sim_type P = 2 \<or> np_sim_type P = 1)) (\<lambda>_.
      bnd (increment_received_flits vnet marked net s0) (\<lambda>s1.
      bnd (flit_delays now f) (\<lambda>(network_delay, queueing_delay).
      bnd (increment_flit_network_latency network_delay vnet marked s1) (\<lambda>s2.
      bnd (increment_flit_queueing_latency queueing_delay vnet marked s2) (\<lambda>s3.
      let s4 = update_flit_latency_histogram (queueing_delay + network_delay) marked s3;
          s5 = update_flit_network_latency_histogram network_delay marked s4;
          s6 = update_flit_queueing_latency_histogram queueing_delay marked s5 in
      bnd (update_network_latency_histogram network_delay s6) (\<lambda>s7.
      let s8 = (if np_sim_type P = 2 \<and> np_warmup_cycles P < now then check_network_saturation now s7 else s7) in
      bnd (if is_tail f then
             bnd (increment_received_packets vnet marked s8) (\<lambda>s.
             bnd (increment_packet_network_latency network_delay vnet marked s) (\<lambda>s.
             increment_packet_queueing_latency queueing_delay vnet marked s))
           else Inr s8) (\<lambda>s9.
      Inr (increment_total_hops (ri_hops_traversed (fl_route f)) marked s9)))))))))"

section \<open>A free virtual channel\<close>

text \<open>\<open>i++; if (i == n) i = 0;\<close>\<close>

definition wrap_next :: "nat \<Rightarrow> nat \<Rightarrow> nat" where
  "wrap_next n i = (if i + 1 = n then 0 else i + 1)"

fun findM :: "('a \<Rightarrow> bool res) \<Rightarrow> 'a list \<Rightarrow> 'a option res" where
  "findM p [] = Inr None"
| "findM p (x # xs) = bnd (p x) (\<lambda>b. if b then Inr (Some x) else findM p xs)"

definition ni_vc_idle :: "cycles \<Rightarrow> network_interface \<Rightarrow> nat \<Rightarrow> bool res" where
  "ni_vc_idle now n vc = bnd (at (ni_out_vc_state n) (int vc)) (\<lambda>s. Inr (ovc_isInState s IDLE now))"

fun calculateVC_rr :: "cycles \<Rightarrow> nat \<Rightarrow> nat \<Rightarrow> network_interface \<Rightarrow> (nat option \<times> network_interface) res" where
  "calculateVC_rr now vnet 0 n = Inr (None, n)"
| "calculateVC_rr now vnet (Suc i) n =
     bnd (at (ni_vc_allocator n) (int vnet)) (\<lambda>delta.
     let n1 = n\<lparr>ni_vc_allocator := (ni_vc_allocator n)[vnet := wrap_next (ni_vc_per_vnet n) delta]\<rparr>;
         vc = vnet * ni_vc_per_vnet n + delta in
     bnd (ni_vc_idle now n1 vc) (\<lambda>idle.
     if idle then Inr (Some vc, n1) else calculateVC_rr now vnet i n1))"

definition calculateVC_fcfs :: "cycles \<Rightarrow> nat \<Rightarrow> network_interface \<Rightarrow> (nat option \<times> network_interface) res" where
  "calculateVC_fcfs now vnet n =
     bnd (findM (ni_vc_idle now n) (map (\<lambda>k. vnet * ni_vc_per_vnet n + k) [0..<ni_vc_per_vnet n])) (\<lambda>r.
     Inr (r, n))"

text \<open>The result \<open>-1\<close> of the code is \<open>None\<close>.\<close>

definition calculateVC :: "ni_params \<Rightarrow> cycles \<Rightarrow> nat \<Rightarrow> network_interface \<Rightarrow> (nat option \<times> network_interface) res" where
  "calculateVC P now vnet n =
     bnd (if np_ni_inj P = ''rr'' then calculateVC_rr now vnet (ni_vc_per_vnet n) n
          else if np_ni_inj P = ''fcfs'' then calculateVC_fcfs now vnet n
          else Inl AssertFail) (\<lambda>(r, n1).
     bnd (at (ni_vc_busy_counter n1) (int vnet)) (\<lambda>busy.
     Inr (r, n1\<lparr>ni_vc_busy_counter := (ni_vc_busy_counter n1)[vnet := (if r = None then busy + 1 else 0)]\<rparr>)))"

section \<open>Flits of a message\<close>

text \<open>
  The destination of one copy of a multicast message: the machine whose number is \<open>destID\<close>. The result is the
  destination of the copy and the set that is removed from the message.
\<close>

definition personal_dest :: "machine_types \<Rightarrow> nat \<Rightarrow> net_dest \<Rightarrow> (net_dest \<times> net_dest) res" where
  "personal_dest M destID dest =
     bnd (NetDest_new M) (\<lambda>p.
     (case find (\<lambda>m. mt_base_number M m \<le> destID \<and> destID < mt_base_number M (m + 1)) [0..<mt_num M] of
        None \<Rightarrow> Inr (dest, p)
      | Some m \<Rightarrow>
          bnd (NetDest_add M (NetDest_clear p) \<lparr>mach_type = m, mach_num = destID - mt_base_number M m\<rparr>) (\<lambda>p'.
          Inr (p', p'))))"

definition injection_vnet :: "ni_params \<Rightarrow> nat \<Rightarrow> nat res" where
  "injection_vnet P vnet =
     (if np_inj_single_vnet P = 0 then Inr vnet
      else if np_inj_single_vnet P = 1 then Inr 0
      else Inl AssertFail)"

text \<open>Whether the flit is one of the marked ones, and the routers with the remaining number of marked flits.\<close>

definition mark_flit :: "ni_params \<Rightarrow> int \<Rightarrow> garnet_network \<Rightarrow> (bool \<times> garnet_network) res" where
  "mark_flit P router_id net =
     (if np_sim_type P = 2 \<and> np_warmup_cycles P < gn_cycle net then
        bnd (at (gn_routers net) router_id) (\<lambda>r.
        if 0 < r_mrkd_flt r then
          Inr (True, net\<lparr>gn_routers := (gn_routers net)[nat router_id := r\<lparr>r_mrkd_flt := r_mrkd_flt r - 1\<rparr>]\<rparr>)
        else Inr (False, net))
      else Inr (False, net))"

definition flit_route_of :: "ni_params \<Rightarrow> ni_ctx \<Rightarrow> nat \<Rightarrow> nat \<Rightarrow> net_dest \<Rightarrow> RouteInfo res" where
  "flit_route_of P cx vnet destID dest =
     bnd (RouteInfo_new (np_machines P)) (\<lambda>route.
     bnd (get_router_id (nx_net cx) (int destID)) (\<lambda>dest_router.
     Inr (route\<lparr>ri_vnet := int vnet, ri_net_dest := dest, ri_src_ni := int (ni_id (nx_ni cx)),
                ri_src_router := ni_router_id (nx_ni cx), ri_dest_ni := int destID,
                ri_dest_router := dest_router, ri_hops_traversed := -1\<rparr>)))"

definition injected_flit ::
    "ni_params \<Rightarrow> nat \<Rightarrow> nat \<Rightarrow> RouteInfo \<Rightarrow> nat \<Rightarrow> cycles \<Rightarrow> bool \<Rightarrow> cycles \<Rightarrow> flit" where
  "injected_flit P vnet vc route key now marked delay =
     set_src_delay delay (flit_new (np_fresh_flit P) 0 (int vc) (int vnet) route 1 (Some key) now marked)"

definition count_injection :: "flit \<Rightarrow> int \<Rightarrow> flow_stats \<Rightarrow> flow_stats res" where
  "count_injection fl router_id s =
     bnd (increment_injected_flits (fl_vnet fl) (fl_marked fl) router_id s) (\<lambda>s1.
     if is_tail fl then increment_injected_packets (fl_vnet fl) (fl_marked fl) s1 else Inr s1)"

definition ni_put_flit :: "cycles \<Rightarrow> nat \<Rightarrow> flit \<Rightarrow> network_interface \<Rightarrow> network_interface res" where
  "ni_put_flit now vc fl n =
     bnd (at (ni_out_vcs n) (int vc)) (\<lambda>b.
     bnd (put_at (ni_out_vcs_enqueue_time n) (int vc) now) (\<lambda>ets.
     bnd (at (ni_out_vc_state n) (int vc)) (\<lambda>s.
     Inr (n\<lparr>ni_out_vcs := (ni_out_vcs n)[vc := insert_flit fl b], ni_out_vcs_enqueue_time := ets,
            ni_out_vc_state := (ni_out_vc_state n)[vc := ovc_setState ACTIVE now s]\<rparr>))))"

text \<open>One flit, in virtual channel \<open>vc\<close>, for the copy of \<open>m\<close> with destination \<open>dest\<close>: packets have one flit.\<close>

definition inject_flit ::
    "ni_params \<Rightarrow> nat \<Rightarrow> nat \<Rightarrow> nat \<Rightarrow> net_dest \<Rightarrow> message \<Rightarrow> ni_ctx \<Rightarrow> ni_ctx res" where
  "inject_flit P vnet vc destID dest m cx =
     bnd (flit_route_of P cx vnet destID dest) (\<lambda>route.
     bnd (mark_flit P (ni_router_id (nx_ni cx)) (nx_net cx)) (\<lambda>(marked, net).
     bnd (ticksToCycles P (msg_time m)) (\<lambda>created.
     bnd (cycles_minus (nx_now cx) created) (\<lambda>delay.
     let fl = injected_flit P vnet vc route (nx_next_msg cx) (nx_now cx) marked delay in
     bnd (count_injection fl (ni_router_id (nx_ni cx)) (nx_stats cx)) (\<lambda>st.
     bnd (ni_put_flit (nx_now cx) vc fl (nx_ni cx)) (\<lambda>n.
     Inr (cx\<lparr>nx_ni := n, nx_net := net, nx_stats := st,
             nx_msgs := (nx_msgs cx)(nx_next_msg cx \<mapsto> m\<lparr>msg_destination := dest\<rparr>),
             nx_next_msg := nx_next_msg cx + 1\<rparr>)))))))"

text \<open>One destination: the result tells whether there was a virtual channel for it.\<close>

definition flitisize_dest ::
    "ni_params \<Rightarrow> nat \<Rightarrow> bool \<Rightarrow> nat \<Rightarrow> message \<times> ni_ctx \<Rightarrow> (bool \<times> message \<times> ni_ctx) res" where
  "flitisize_dest P vnet multicast destID s =
     (case s of (m, cx) \<Rightarrow>
      bnd (injection_vnet P vnet) (\<lambda>v.
      bnd (calculateVC P (nx_now cx) v (nx_ni cx)) (\<lambda>(r, n).
      (case r of
         None \<Rightarrow> Inr (False, m, cx\<lparr>nx_ni := n\<rparr>)
       | Some vc \<Rightarrow>
           bnd (if multicast then personal_dest (np_machines P) destID (msg_destination m)
                else Inr (msg_destination m, msg_destination m)) (\<lambda>(dest, gone).
           bnd (if multicast then NetDest_removeNetDest (msg_destination m) gone
                else Inr (msg_destination m)) (\<lambda>rest.
           bnd (inject_flit P vnet vc destID dest m (cx\<lparr>nx_ni := n\<rparr>)) (\<lambda>cx'.
           Inr (True, m\<lparr>msg_destination := rest\<rparr>, cx'))))))))"

fun flitisize_loop ::
    "ni_params \<Rightarrow> nat \<Rightarrow> bool \<Rightarrow> nat list \<Rightarrow> message \<times> ni_ctx \<Rightarrow> (bool \<times> message \<times> ni_ctx) res" where
  "flitisize_loop P vnet multicast [] (m, cx) = Inr (True, m, cx)"
| "flitisize_loop P vnet multicast (d # ds) (m, cx) =
     bnd (flitisize_dest P vnet multicast d (m, cx)) (\<lambda>(sent, s).
     if sent then flitisize_loop P vnet multicast ds s else Inr (False, s))"

definition flitisizeMessage ::
    "ni_params \<Rightarrow> message \<Rightarrow> nat \<Rightarrow> ni_ctx \<Rightarrow> (bool \<times> message \<times> ni_ctx) res" where
  "flitisizeMessage P m vnet cx =
     (let dest_nodes = NetDest_getAllDest (np_machines P) (msg_destination m) in
      flitisize_loop P vnet (1 < length dest_nodes) dest_nodes (m, cx))"

section \<open>The output link\<close>

definition ni_get_vnet :: "network_interface \<Rightarrow> nat \<Rightarrow> nat res" where
  "ni_get_vnet n vc =
     (case find (\<lambda>i. i * ni_vc_per_vnet n \<le> vc \<and> vc < (i + 1) * ni_vc_per_vnet n) [0..<ni_virtual_networks n] of
        Some i \<Rightarrow> Inr i
      | None \<Rightarrow> Inl (Fatal ''Could not determine vc''))"

text \<open>In an ordered virtual network a channel waits for one whose packet was enqueued earlier.\<close>

definition older_packet :: "cycles \<Rightarrow> network_interface \<Rightarrow> nat \<Rightarrow> nat \<Rightarrow> bool res" where
  "older_packet now n vc t_vc =
     bnd (at (ni_out_vcs n) (int t_vc)) (\<lambda>b.
     if isReady b now then
       bnd (at (ni_out_vcs_enqueue_time n) (int t_vc)) (\<lambda>t.
       bnd (at (ni_out_vcs_enqueue_time n) (int vc)) (\<lambda>u. Inr (t < u)))
     else Inr False)"

definition is_candidate_vc :: "garnet_config \<Rightarrow> cycles \<Rightarrow> network_interface \<Rightarrow> nat \<Rightarrow> bool res" where
  "is_candidate_vc C now n vc =
     bnd (at (ni_out_vcs n) (int vc)) (\<lambda>b.
     if \<not> isReady b now then Inr False
     else
       bnd (at (ni_out_vc_state n) (int vc)) (\<lambda>s.
       if \<not> ovc_has_credit s then Inr False
       else
         bnd (ni_get_vnet n vc) (\<lambda>t_vnet.
         bnd (isVNetOrdered C t_vnet) (\<lambda>ordered.
         if ordered then
           bnd (findM (older_packet now n vc)
                  (map (\<lambda>k. t_vnet * ni_vc_per_vnet n + k) [0..<ni_vc_per_vnet n])) (\<lambda>older.
           Inr (older = None))
         else Inr True))))"

definition ni_send_flit :: "cycles \<Rightarrow> nat \<Rightarrow> network_interface \<Rightarrow> (network_interface \<times> event_req list) res" where
  "ni_send_flit now vc n =
     bnd (at (ni_out_vc_state n) (int vc)) (\<lambda>s.
     bnd (ovc_decrement_credit s) (\<lambda>s'.
     bnd (at (ni_out_vcs n) (int vc)) (\<lambda>b.
     bnd (getTopFlit b) (\<lambda>(f, b').
     let t_flit = set_time (now + 1) f;
         n1 = n\<lparr>ni_out_vc_state := (ni_out_vc_state n)[vc := s'], ni_out_vcs := (ni_out_vcs n)[vc := b'],
                ni_outFlitQueue := insert_flit t_flit (ni_outFlitQueue n)\<rparr> in
     bnd (if is_tail t_flit then put_at (ni_out_vcs_enqueue_time n) (int vc) INFINITE
          else Inr (ni_out_vcs_enqueue_time n)) (\<lambda>ets.
     Inr (n1\<lparr>ni_out_vcs_enqueue_time := ets\<rparr>, [(NetLinkConsumer (ni_outNetLink n), now + 1)]))))))"

text \<open>The channels in the order in which they are tried: the one after \<open>m_vc_round_robin\<close> comes first.\<close>

fun vc_ring :: "nat \<Rightarrow> nat \<Rightarrow> nat \<Rightarrow> nat list" where
  "vc_ring num_vcs vc 0 = []"
| "vc_ring num_vcs vc (Suc i) = (let vc' = wrap_next num_vcs vc in vc' # vc_ring num_vcs vc' i)"

definition scheduleOutputLink :: "garnet_config \<Rightarrow> cycles \<Rightarrow> network_interface \<Rightarrow> (network_interface \<times> event_req list) res" where
  "scheduleOutputLink C now n =
     (let n1 = n\<lparr>ni_vc_round_robin := wrap_next (ni_num_vcs n) (ni_vc_round_robin n)\<rparr> in
      bnd (findM (is_candidate_vc C now n1) (vc_ring (ni_num_vcs n) (ni_vc_round_robin n) (ni_num_vcs n))) (\<lambda>r.
      (case r of
         None \<Rightarrow> Inr (n1, [])
       | Some vc \<Rightarrow> ni_send_flit now vc n1)))"

definition checkReschedule :: "ni_params \<Rightarrow> ni_ctx \<Rightarrow> event_req list res" where
  "checkReschedule P cx =
     (let n = nx_ni cx; now = nx_now cx; again = [(NIConsumer (ni_id n), now + 1)] in
      if list_ex (\<lambda>b. case b of None \<Rightarrow> False | Some b \<Rightarrow> mb_isReady (curTime P cx) b) (nx_inNode cx) then Inr again
      else
        bnd (findM (\<lambda>vc. bnd (at (ni_out_vcs n) (int vc)) (\<lambda>b. Inr (isReady b (now + 1)))) [0..<ni_num_vcs n]) (\<lambda>r.
        Inr (if r = None then [] else again)))"

section \<open>Ejection\<close>

definition sendCredit :: "garnet_config \<Rightarrow> cycles \<Rightarrow> flit \<Rightarrow> bool \<Rightarrow> network_interface \<Rightarrow> network_interface" where
  "sendCredit C now f is_free n =
     n\<lparr>ni_outCreditQueue := insert_flit (Credit_new (nc_fresh_credit C) (fl_vc f) is_free now) (ni_outCreditQueue n)\<rparr>"

definition out_node :: "ni_ctx \<Rightarrow> int \<Rightarrow> message_buffer res" where
  "out_node cx vnet =
     bnd (at (nx_outNode cx) vnet) (\<lambda>b. case b of None \<Rightarrow> Inl NullPointer | Some b \<Rightarrow> Inr b)"

definition put_out_node :: "int \<Rightarrow> message_buffer \<Rightarrow> ni_ctx \<Rightarrow> ni_ctx" where
  "put_out_node vnet b cx = cx\<lparr>nx_outNode := (nx_outNode cx)[nat vnet := Some b]\<rparr>"

definition flit_message :: "(nat \<rightharpoonup> message) \<Rightarrow> flit \<Rightarrow> (nat \<times> message) res" where
  "flit_message msgs f =
     (case fl_msg_ptr f of
        None \<Rightarrow> Inl NullPointer
      | Some k \<Rightarrow> (case msgs k of None \<Rightarrow> Inl NullPointer | Some m \<Rightarrow> Inr (k, m)))"

text \<open>The flit's message goes to the protocol, a credit with the free signal back to the router.\<close>

definition eject_flit :: "ni_params \<Rightarrow> flit \<Rightarrow> ni_ctx \<Rightarrow> ni_ctx res" where
  "eject_flit P f cx =
     bnd (out_node cx (fl_vnet f)) (\<lambda>b.
     bnd (flit_message (nx_msgs cx) f) (\<lambda>(k, m).
     bnd (mb_enqueue m (curTime P cx) (cyclesToTicks P 1) (nx_ruby cx, b)) (\<lambda>(R, b', reqs).
     let n = sendCredit (gn_config (nx_net cx)) (nx_now cx) f True (nx_ni cx) in
     bnd (incrementStats P f (nx_net cx) (nx_stats cx)) (\<lambda>st.
     Inr ((put_out_node (fl_vnet f) b' cx)
            \<lparr>nx_ni := n, nx_ruby := R, nx_msgs := (nx_msgs cx)(k := None), nx_stats := st,
             nx_requests := nx_requests cx @ reqs\<rparr>)))))"

definition slot_available :: "ni_params \<Rightarrow> int \<Rightarrow> ni_ctx \<Rightarrow> (bool \<times> ni_ctx) res" where
  "slot_available P vnet cx =
     bnd (out_node cx vnet) (\<lambda>b.
     let (free, b') = areNSlotsAvailable 1 (curTime P cx) b in Inr (free, put_out_node vnet b' cx))"

text \<open>What happens to the bookkeeping when a stalled flit has been ejected.\<close>

definition unstall :: "flit list \<Rightarrow> int \<Rightarrow> ni_ctx \<Rightarrow> ni_ctx res" where
  "unstall queue vnet cx =
     bnd (at (ni_stall_count (nx_ni cx)) vnet) (\<lambda>c.
     let cx1 = cx\<lparr>nx_ni := (nx_ni cx)\<lparr>ni_stall_queue := queue,
                    ni_stall_count := (ni_stall_count (nx_ni cx))[nat vnet := c - 1]\<rparr>\<rparr> in
     if c - 1 = 0 then
       bnd (out_node cx1 vnet) (\<lambda>b. Inr (put_out_node vnet (unregisterDequeueCallback b) cx1))
     else Inr cx1)"

fun stall_scan :: "ni_params \<Rightarrow> flit list \<Rightarrow> flit list \<Rightarrow> ni_ctx \<Rightarrow> (bool \<times> ni_ctx) res" where
  "stall_scan P before [] cx = Inr (False, cx)"
| "stall_scan P before (f # after) cx =
     bnd (slot_available P (fl_vnet f) cx) (\<lambda>(free, cx1).
     if free then
       bnd (eject_flit P f cx1) (\<lambda>cx2.
       bnd (unstall (before @ after) (fl_vnet f) cx2) (\<lambda>cx3. Inr (True, cx3)))
     else stall_scan P (before @ [f]) after cx1)"

definition checkStallQueue :: "ni_params \<Rightarrow> ni_ctx \<Rightarrow> (bool \<times> ni_ctx) res" where
  "checkStallQueue P cx = stall_scan P [] (ni_stall_queue (nx_ni cx)) cx"

definition stall_flit :: "flit \<Rightarrow> ni_ctx \<Rightarrow> ni_ctx res" where
  "stall_flit f cx =
     (let n = nx_ni cx in
      bnd (at (ni_stall_count n) (fl_vnet f)) (\<lambda>c.
      let cx1 = cx\<lparr>nx_ni := n\<lparr>ni_stall_queue := ni_stall_queue n @ [f],
                     ni_stall_count := (ni_stall_count n)[nat (fl_vnet f) := c + 1]\<rparr>\<rparr> in
      bnd (out_node cx1 (fl_vnet f)) (\<lambda>b.
      Inr (put_out_node (fl_vnet f) (registerDequeueCallback (ni_id n) b) cx1))))"

definition receive_flit :: "ni_params \<Rightarrow> bool \<Rightarrow> flit \<Rightarrow> ni_ctx \<Rightarrow> ni_ctx res" where
  "receive_flit P messageEnqueuedThisCycle f cx =
     (if is_tail f then
        bnd (if messageEnqueuedThisCycle then Inr (False, cx) else slot_available P (fl_vnet f) cx) (\<lambda>(free, cx1).
        if free then eject_flit P f cx1 else stall_flit f cx1)
      else
        bnd (incrementStats P f (nx_net cx) (nx_stats cx)) (\<lambda>_. Inl AssertFail))"

section \<open>Wakeup\<close>

text \<open>The message at the front of the buffer of a virtual network, unless a drain holds the lock.\<close>

definition set_head :: "message \<Rightarrow> message_buffer \<Rightarrow> message_buffer" where
  "set_head m b = b\<lparr>mb_prio_heap := (case mb_prio_heap b of [] \<Rightarrow> [] | _ # ms \<Rightarrow> m # ms)\<rparr>"

definition ni_inject_vnet :: "ni_params \<Rightarrow> nat \<Rightarrow> ni_ctx \<Rightarrow> ni_ctx res" where
  "ni_inject_vnet P vnet cx =
     bnd (at (nx_inNode cx) (int vnet)) (\<lambda>ob.
     (case ob of
        None \<Rightarrow> Inr cx
      | Some b \<Rightarrow>
          if mb_isReady (curTime P cx) b \<and> gn_lock (nx_net cx) = -1 then
            bnd (mb_peekMsgPtr b) (\<lambda>m.
            bnd (flitisizeMessage P m vnet cx) (\<lambda>(all_sent, m', cx1).
            let b1 = set_head m' b in
            if all_sent then
              bnd (mb_dequeue (curTime P cx) True b1) (\<lambda>(_, _, b2, cb).
              Inr (cx1\<lparr>nx_inNode := (nx_inNode cx1)[vnet := Some b2],
                       nx_events := nx_events cx1 @
                         (case cb of None \<Rightarrow> [] | Some i \<Rightarrow> [dequeueCallback (nx_now cx) i])\<rparr>))
            else Inr (cx1\<lparr>nx_inNode := (nx_inNode cx1)[vnet := Some b1]\<rparr>)))
          else Inr cx))"

definition ni_inject :: "ni_params \<Rightarrow> ni_ctx \<Rightarrow> ni_ctx res" where
  "ni_inject P cx =
     bnd (foldM (ni_inject_vnet P) [0..<length (nx_inNode cx)] cx) (\<lambda>cx1.
     bnd (scheduleOutputLink (gn_config (nx_net cx1)) (nx_now cx1) (nx_ni cx1)) (\<lambda>(n, es).
     let cx2 = cx1\<lparr>nx_ni := n, nx_events := nx_events cx1 @ es\<rparr> in
     bnd (checkReschedule P cx2) (\<lambda>es'. Inr (cx2\<lparr>nx_events := nx_events cx2 @ es'\<rparr>))))"

definition ni_read_link :: "ni_params \<Rightarrow> bool \<Rightarrow> ni_ctx \<Rightarrow> ni_ctx res" where
  "ni_read_link P messageEnqueuedThisCycle cx =
     (let net = nx_net cx; k = ni_inNetLink (nx_ni cx) in
      bnd (at (gn_networklinks net) (int k)) (\<lambda>l.
      if isReady (nl_linkBuffer l) (nx_now cx) then
        bnd (consumeLink l) (\<lambda>(f, l').
        receive_flit P messageEnqueuedThisCycle (set_dequeue_time (nx_now cx) f)
          (cx\<lparr>nx_net := net\<lparr>gn_networklinks := (gn_networklinks net)[k := l']\<rparr>\<rparr>))
      else Inr cx))"

definition ni_read_credit :: "ni_ctx \<Rightarrow> ni_ctx res" where
  "ni_read_credit cx =
     (let net = nx_net cx; n = nx_ni cx; k = ni_inCreditLink n in
      bnd (at (gn_creditlinks net) (int k)) (\<lambda>l.
      if isReady (nl_linkBuffer l) (nx_now cx) then
        bnd (consumeLink l) (\<lambda>(c, l').
        bnd (at (ni_out_vc_state n) (fl_vc c)) (\<lambda>s.
        bnd (ovc_increment_credit s) (\<lambda>s1.
        let s2 = (if cr_is_free_signal c then ovc_setState IDLE (nx_now cx) s1 else s1) in
        Inr (cx\<lparr>nx_ni := n\<lparr>ni_out_vc_state := (ni_out_vc_state n)[nat (fl_vc c) := s2]\<rparr>,
                nx_net := net\<lparr>gn_creditlinks := (gn_creditlinks net)[k := l']\<rparr>\<rparr>))))
      else Inr cx))"

definition ni_credit_event :: "ni_ctx \<Rightarrow> ni_ctx" where
  "ni_credit_event cx =
     (if 0 < getSize (ni_outCreditQueue (nx_ni cx))
      then cx\<lparr>nx_events := nx_events cx @ [(CreditLinkConsumer (ni_outCreditLink (nx_ni cx)), nx_now cx + 1)]\<rparr>
      else cx)"

definition ni_wakeup_ctx :: "ni_params \<Rightarrow> ni_ctx \<Rightarrow> ni_ctx res" where
  "ni_wakeup_ctx P cx =
     bnd (ni_inject P cx) (\<lambda>cx1.
     bnd (checkStallQueue P cx1) (\<lambda>(messageEnqueuedThisCycle, cx2).
     bnd (ni_read_link P messageEnqueuedThisCycle cx2) (\<lambda>cx3.
     bnd (ni_read_credit cx3) (\<lambda>cx4.
     Inr (ni_credit_event cx4)))))"

definition load_ni :: "nat \<Rightarrow> garnet_system \<Rightarrow> ni_ctx res" where
  "load_ni i S =
     bnd (at (gn_nis (gs_net S)) (int i)) (\<lambda>n.
     bnd (at (gs_nodes S) (int i)) (\<lambda>(ins, outs).
     Inr \<lparr>nx_ni = n, nx_net = gs_net S, nx_inNode = ins, nx_outNode = outs, nx_ruby = gs_ruby S,
          nx_msgs = gs_msgs S, nx_next_msg = gs_next_msg S, nx_stats = gs_stats S, nx_events = [],
          nx_requests = gs_requests S\<rparr>))"

definition store_ni :: "nat \<Rightarrow> ni_ctx \<Rightarrow> garnet_system \<Rightarrow> garnet_system" where
  "store_ni i cx S =
     S\<lparr>gs_net := schedule_events (nx_events cx) ((nx_net cx)\<lparr>gn_nis := (gn_nis (nx_net cx))[i := nx_ni cx]\<rparr>),
       gs_nodes := (gs_nodes S)[i := (nx_inNode cx, nx_outNode cx)], gs_ruby := nx_ruby cx, gs_msgs := nx_msgs cx,
       gs_next_msg := nx_next_msg cx, gs_stats := nx_stats cx, gs_requests := nx_requests cx\<rparr>"

definition NetworkInterface_wakeup :: "ni_params \<Rightarrow> nat \<Rightarrow> garnet_system \<Rightarrow> garnet_system res" where
  "NetworkInterface_wakeup P i S =
     bnd (load_ni i S) (\<lambda>cx. bnd (ni_wakeup_ctx P cx) (\<lambda>cx'. Inr (store_ni i cx' S)))"

end
