(* ===== verification/Interface_Flow.thy ===== *)
theory Interface_Flow
  imports Network_Interface Network_Steps
begin

text \<open>
  What the interfaces promise of the traffic, and that they keep it. \<open>flow_step\<close> is the specification: a packet
  enters the network with a message of its own, and is counted, or leaves it, once, and is counted. The
  definitions of \<open>Network_Interface\<close> refine it: whatever a wakeup does, seen through \<open>flow_of\<close>, is a sequence of such steps.
  The whole system (\<open>sys_step\<close>: interfaces, routers, links, the clock, and a protocol that may do anything to its
  message buffers) refines it too, so what holds of all sequences of flow steps holds of the network.
\<close>

lemma bnd_prodE:
  assumes "bnd m (case_prod f) = Inr y"
  obtains a b where "m = Inr (a, b)" and "f a b = Inr y"
  using assms by auto

section \<open>The specification\<close>

record flow =
  fw_tags :: "flit_tag multiset"
  fw_keys :: "nat set"
  fw_next :: nat
  fw_stats :: flow_stats

inductive flow_step :: "ni_params \<Rightarrow> flow \<Rightarrow> flow \<Rightarrow> bool" for P where
  flow_inject: "\<lbrakk>tag_msg_ptr t = Some (fw_next w);
     increment_injected_flits (tag_vnet t) (tag_marked t) r (fw_stats w) = Inr s1;
     increment_injected_packets (tag_vnet t) (tag_marked t) s1 = Inr s2\<rbrakk> \<Longrightarrow>
   flow_step P w (w\<lparr>fw_tags := add_mset t (fw_tags w), fw_keys := insert (fw_next w) (fw_keys w),
                    fw_next := fw_next w + 1, fw_stats := s2\<rparr>)"
| flow_eject: "\<lbrakk>fw_tags w = add_mset (flit_tag_of f) T; fl_msg_ptr f = Some k; k \<in> fw_keys w;
     incrementStats P f net (fw_stats w) = Inr s\<rbrakk> \<Longrightarrow>
   flow_step P w (w\<lparr>fw_tags := T, fw_keys := fw_keys w - {k}, fw_stats := s\<rparr>)"

inductive_cases flow_stepE: "flow_step P w w'"

section \<open>The abstraction\<close>

text \<open>
  The flits that a wakeup can reach; \<open>R\<close> are those in the other interfaces, or in the hands of the code. The
  frame is what no operation of an interface changes.
\<close>

definition ctx_tags :: "ni_ctx \<Rightarrow> flit_tag multiset" where
  "ctx_tags cx = contents router_tags (gn_routers (nx_net cx)) + ni_tags (nx_ni cx)
     + contents (\<lambda>l. buffer_tags (nl_linkBuffer l)) (gn_networklinks (nx_net cx))"

definition flow_of :: "flit_tag multiset \<Rightarrow> ni_ctx \<Rightarrow> flow" where
  "flow_of R cx = \<lparr>fw_tags = R + ctx_tags cx, fw_keys = dom (nx_msgs cx), fw_next = nx_next_msg cx,
     fw_stats = nx_stats cx\<rparr>"

definition system_flow :: "garnet_system \<Rightarrow> flow" where
  "system_flow S = \<lparr>fw_tags = network_tags (gs_net S), fw_keys = dom (gs_msgs S), fw_next = gs_next_msg S,
     fw_stats = gs_stats S\<rparr>"

text \<open>What no interface changes of a router: all but the marked flits it may still inject and its scheduled wakeups.\<close>

definition router_core :: "router \<Rightarrow> router" where
  "router_core r = r\<lparr>r_mrkd_flt := 0, r_wakeups := []\<rparr>"

definition ctx_frame :: "ni_ctx \<Rightarrow> network_interface list \<times> garnet_config \<times> cycles \<times> int \<times> router list \<times>
    (flit_queue_ref option \<times> consumer_ref option) list \<times> (credit_queue_ref option \<times> consumer_ref option) list" where
  "ctx_frame cx = (gn_nis (nx_net cx), gn_config (nx_net cx), gn_cycle (nx_net cx), gn_lock (nx_net cx),
     map router_core (gn_routers (nx_net cx)), map link_wires (gn_networklinks (nx_net cx)), map link_wires (gn_creditlinks (nx_net cx)))"

definition flows :: "ni_params \<Rightarrow> flit_tag multiset \<times> ni_ctx \<Rightarrow> flit_tag multiset \<times> ni_ctx \<Rightarrow> bool" where
  "flows P a b \<longleftrightarrow> (flow_step P)\<^sup>*\<^sup>* (flow_of (fst a) (snd a)) (flow_of (fst b) (snd b)) \<and>
     ctx_frame (snd b) = ctx_frame (snd a)"

lemma flows_refl [simp]: "flows P a a"
  by (simp add: flows_def)

lemma flows_trans [trans]: "flows P a b \<Longrightarrow> flows P b c \<Longrightarrow> flows P a c"
  by (auto simp: flows_def)

lemma flows_same:
  "flow_of R' cx' = flow_of R cx \<Longrightarrow> ctx_frame cx' = ctx_frame cx \<Longrightarrow> flows P (R, cx) (R', cx')"
  by (simp add: flows_def)

lemma flows_step:
  "flow_step P (flow_of R cx) (flow_of R' cx') \<Longrightarrow> ctx_frame cx' = ctx_frame cx \<Longrightarrow> flows P (R, cx) (R', cx')"
  by (simp add: flows_def r_into_rtranclp)

lemma flows_foldM:
  assumes "foldM f xs cx = Inr cx'" and "\<And>x c c'. f x c = Inr c' \<Longrightarrow> flows P (R, c) (R, c')"
  shows "flows P (R, cx) (R, cx')"
  using foldM_invariant [OF assms(1), of "\<lambda>c. flows P (R, cx) (R, c)"] assms(2) flows_trans by (metis flows_refl)

text \<open>What only moves flits within the interface, or touches other parts of the state, is not seen.\<close>

lemma ni_only_flow:
  "ni_tags n = ni_tags (nx_ni cx) \<Longrightarrow> flow_of R (cx\<lparr>nx_ni := n\<rparr>) = flow_of R cx"
  by (simp add: flow_of_def ctx_tags_def)

lemma frame_simps [simp]:
  "ctx_frame (cx\<lparr>nx_ni := n\<rparr>) = ctx_frame cx" "ctx_frame (cx\<lparr>nx_inNode := i\<rparr>) = ctx_frame cx"
  "ctx_frame (cx\<lparr>nx_outNode := i\<rparr>) = ctx_frame cx" "ctx_frame (cx\<lparr>nx_events := es\<rparr>) = ctx_frame cx"
  "ctx_frame (put_out_node v b cx) = ctx_frame cx"
  by (simp_all add: ctx_frame_def put_out_node_def)

lemma flow_of_simps [simp]:
  "flow_of R (cx\<lparr>nx_inNode := i\<rparr>) = flow_of R cx" "flow_of R (cx\<lparr>nx_outNode := i\<rparr>) = flow_of R cx"
  "flow_of R (cx\<lparr>nx_events := es\<rparr>) = flow_of R cx" "flow_of R (put_out_node v b cx) = flow_of R cx"
  by (simp_all add: flow_of_def ctx_tags_def put_out_node_def)

section \<open>Injection\<close>

lemma calculateVC_rr_frame:
  "calculateVC_rr now vnet i n = Inr (r, n') \<Longrightarrow> \<exists>a. n' = n\<lparr>ni_vc_allocator := a\<rparr>"
proof (induction now vnet i n arbitrary: n' rule: calculateVC_rr.induct)
  case (1 now vnet n)
  then show ?case by (auto intro: exI [of _ "ni_vc_allocator n"])
next
  case (2 now vnet i n)
  then show ?case by (fastforce simp: Let_def split: if_splits)
qed

lemma calculateVC_frame:
  assumes "calculateVC P now vnet n = Inr (r, n')"
  shows "\<exists>a b. n' = n\<lparr>ni_vc_allocator := a, ni_vc_busy_counter := b\<rparr>"
proof -
  from assms obtain n1 b where n': "n' = n1\<lparr>ni_vc_busy_counter := b\<rparr>"
    and n1: "calculateVC_rr now vnet (ni_vc_per_vnet n) n = Inr (r, n1) \<or> n1 = n"
    by (auto simp: calculateVC_def calculateVC_fcfs_def split: if_splits)
  from n1 obtain a where "n1 = n\<lparr>ni_vc_allocator := a\<rparr>"
    using calculateVC_rr_frame [of now vnet "ni_vc_per_vnet n" n r n1] by (cases "n1 = n") (auto intro: that [of "ni_vc_allocator n"])
  with n' show ?thesis by blast
qed

lemma calculateVC_tags: "calculateVC P now vnet n = Inr (r, n') \<Longrightarrow> ni_tags n' = ni_tags n"
  by (drule calculateVC_frame) (auto simp: ni_tags_def)

lemma mark_flit_frame:
  assumes "mark_flit P r net = Inr (marked, net')"
  shows "\<exists>rs. net' = net\<lparr>gn_routers := rs\<rparr> \<and> contents router_tags rs = contents router_tags (gn_routers net) \<and>
    map router_core rs = map router_core (gn_routers net)"
proof (cases "net' = net")
  case True
  then show ?thesis by (intro exI [of _ "gn_routers net"]) simp
next
  case False
  with assms show ?thesis
    by (fastforce simp: mark_flit_def at_eq_Inr router_tags_def contents_update_same map_update list_update_same_conv router_core_def
        split: if_splits)
qed

text \<open>A flit of the network interface: its own key, and the only flit of its packet.\<close>

lemma injected_flit_fields [simp]:
  "is_tail (injected_flit P vnet vc route key now marked delay)"
  "fl_msg_ptr (injected_flit P vnet vc route key now marked delay) = Some key"
  "fl_vnet (injected_flit P vnet vc route key now marked delay) = int vnet"
  "fl_vc (injected_flit P vnet vc route key now marked delay) = int vc"
  "fl_marked (injected_flit P vnet vc route key now marked delay) = marked"
  "fl_route (injected_flit P vnet vc route key now marked delay) = route"
  by (simp_all add: injected_flit_def set_src_delay_def flit_new_def is_tail_def)

lemma ni_put_flit_effect:
  assumes "ni_put_flit now vc f n = Inr n'"
  shows "\<exists>a. vc < length (ni_out_vcs n) \<and> vc < length (ni_out_vc_state n) \<and>
    n' = n\<lparr>ni_out_vcs := (ni_out_vcs n)[vc := insert_flit f (ni_out_vcs n ! vc)], ni_out_vcs_enqueue_time := a,
           ni_out_vc_state := (ni_out_vc_state n)[vc := ovc_setState ACTIVE now (ni_out_vc_state n ! vc)]\<rparr>"
  using assms by (auto simp: ni_put_flit_def at_eq_Inr)

lemma ni_put_flit_tags: "ni_put_flit now vc f n = Inr n' \<Longrightarrow> ni_tags n' = add_mset (flit_tag_of f) (ni_tags n)"
  by (drule ni_put_flit_effect) (auto simp: ni_tags_def contents_update_add)

lemma inject_flit_effect:
  assumes "inject_flit P vnet vc destID dest m cx = Inr cx'"
  obtains f n net st where "flit_route_of P cx vnet destID dest = Inr (fl_route f)"
    "fl_msg_ptr f = Some (nx_next_msg cx)" "fl_vnet f = int vnet" "fl_vc f = int vc" "is_tail f"
    "mark_flit P (ni_router_id (nx_ni cx)) (nx_net cx) = Inr (fl_marked f, net)"
    "count_injection f (ni_router_id (nx_ni cx)) (nx_stats cx) = Inr st" "ni_put_flit (nx_now cx) vc f (nx_ni cx) = Inr n"
    "cx' = cx\<lparr>nx_ni := n, nx_net := net, nx_stats := st,
        nx_msgs := (nx_msgs cx)(nx_next_msg cx \<mapsto> m\<lparr>msg_destination := dest\<rparr>), nx_next_msg := nx_next_msg cx + 1\<rparr>"
proof -
  from assms obtain route mk net created d st n where
    "flit_route_of P cx vnet destID dest = Inr route" "mark_flit P (ni_router_id (nx_ni cx)) (nx_net cx) = Inr (mk, net)"
    "count_injection (injected_flit P vnet vc route (nx_next_msg cx) (nx_now cx) mk d) (ni_router_id (nx_ni cx)) (nx_stats cx) = Inr st"
    "ni_put_flit (nx_now cx) vc (injected_flit P vnet vc route (nx_next_msg cx) (nx_now cx) mk d) (nx_ni cx) = Inr n"
    "cx' = cx\<lparr>nx_ni := n, nx_net := net, nx_stats := st,
        nx_msgs := (nx_msgs cx)(nx_next_msg cx \<mapsto> m\<lparr>msg_destination := dest\<rparr>), nx_next_msg := nx_next_msg cx + 1\<rparr>"
    unfolding inject_flit_def Let_def
    by (elim bnd_prodE bnd_InrE) (drule sum.inject(2) [THEN iffD1, THEN sym], rule that)
  then show thesis by (intro that [of "injected_flit P vnet vc route (nx_next_msg cx) (nx_now cx) mk d"]) simp_all
qed

lemma inject_flit_flows:
  assumes "inject_flit P vnet vc destID dest m cx = Inr cx'"
  shows "flows P (R, cx) (R, cx')"
  using assms
proof (cases rule: inject_flit_effect)
  case (1 f n net st)
  from mark_flit_frame [OF 1(6)] obtain rs where rs: "net = (nx_net cx)\<lparr>gn_routers := rs\<rparr>"
    "contents router_tags rs = contents router_tags (gn_routers (nx_net cx))"
    "map router_core rs = map router_core (gn_routers (nx_net cx))" by blast
  let ?t = "flit_tag_of f" and ?w = "flow_of R cx"
  have "ctx_tags cx' = add_mset ?t (ctx_tags cx)"
    using ni_put_flit_tags [OF 1(8)] rs(2) by (simp add: 1(9) rs(1) ctx_tags_def)
  then have w: "flow_of R cx' = ?w\<lparr>fw_tags := add_mset ?t (fw_tags ?w), fw_keys := insert (fw_next ?w) (fw_keys ?w),
      fw_next := fw_next ?w + 1, fw_stats := st\<rparr>"
    by (simp add: flow_of_def 1(9))
  from 1(5,7) obtain s1 where st: "increment_injected_flits (fl_vnet f) (fl_marked f) (ni_router_id (nx_ni cx)) (nx_stats cx) = Inr s1"
      "increment_injected_packets (fl_vnet f) (fl_marked f) s1 = Inr st"
    by (auto simp: count_injection_def)
  have "flow_step P ?w (flow_of R cx')"
    unfolding w using st 1(2) by (intro flow_inject) (simp_all add: flow_of_def flit_tag_of_def)
  then show ?thesis by (rule flows_step) (simp add: ctx_frame_def 1(9) rs(1,3))
qed

lemma flitisize_dest_flows:
  assumes "flitisize_dest P vnet multicast d (m, cx) = Inr (sent, m', cx')"
  shows "flows P (R, cx) (R, cx')"
proof -
  from assms obtain v r n where n: "calculateVC P (nx_now cx) v (nx_ni cx) = Inr (r, n)"
    and c: "cx' = cx\<lparr>nx_ni := n\<rparr> \<or> (\<exists>vc dest. inject_flit P vnet vc d dest m (cx\<lparr>nx_ni := n\<rparr>) = Inr cx')"
    by (fastforce simp: flitisize_dest_def split: option.splits)
  have 1: "flows P (R, cx) (R, cx\<lparr>nx_ni := n\<rparr>)"
    using calculateVC_tags [OF n] by (intro flows_same) (simp_all add: ni_only_flow)
  from c show ?thesis using 1 inject_flit_flows flows_trans [OF 1] by auto
qed

lemma flitisize_loop_flows:
  "flitisize_loop P vnet multicast ds (m, cx) = Inr (sent, m', cx') \<Longrightarrow> flows P (R, cx) (R, cx')"
proof (induction ds arbitrary: m cx)
  case (Cons d ds)
  then obtain s m1 cx1 where "flitisize_dest P vnet multicast d (m, cx) = Inr (s, m1, cx1)"
    and "if s then flitisize_loop P vnet multicast ds (m1, cx1) = Inr (sent, m', cx') else cx' = cx1"
    by (auto split: if_splits)
  then show ?case using Cons.IH [of m1 cx1] flitisize_dest_flows [of P vnet multicast d m cx s m1 cx1 R] flows_trans
    by (cases s) auto
qed simp

lemma ni_inject_vnet_flows:
  assumes "ni_inject_vnet P vnet cx = Inr cx'"
  shows "flows P (R, cx) (R, cx')"
proof (cases "cx' = cx")
  case False
  with assms obtain m all_sent m' cx1 where fl: "flitisizeMessage P m vnet cx = Inr (all_sent, m', cx1)"
    and cx': "flow_of R cx' = flow_of R cx1" "ctx_frame cx' = ctx_frame cx1"
    by (fastforce simp: ni_inject_vnet_def Let_def split: option.splits if_splits)
  have "flows P (R, cx) (R, cx1)" using fl unfolding flitisizeMessage_def Let_def by (rule flitisize_loop_flows)
  moreover have "flows P (R, cx1) (R, cx')" using cx' by (rule flows_same)
  ultimately show ?thesis by (rule flows_trans)
qed simp

section \<open>The output link\<close>

text \<open>A flit goes from its virtual channel to the queue of the link, and a credit is spent for it.\<close>

lemma ni_send_flit_effect:
  assumes "ni_send_flit now vc n = Inr (n', es)"
  obtains f b s' ets where "vc < length (ni_out_vcs n)" "vc < length (ni_out_vc_state n)"
    "getTopFlit (ni_out_vcs n ! vc) = Inr (f, b)" "ovc_decrement_credit (ni_out_vc_state n ! vc) = Inr s'"
    "es = [(NetLinkConsumer (ni_outNetLink n), now + 1)]"
    "n' = n\<lparr>ni_out_vc_state := (ni_out_vc_state n)[vc := s'], ni_out_vcs := (ni_out_vcs n)[vc := b],
            ni_outFlitQueue := insert_flit (set_time (now + 1) f) (ni_outFlitQueue n), ni_out_vcs_enqueue_time := ets\<rparr>"
  using assms unfolding ni_send_flit_def Let_def
  by (elim bnd_prodE bnd_InrE) (auto simp: at_eq_Inr intro: that)

lemma scheduleOutputLink_cases:
  assumes "scheduleOutputLink C now n = Inr (n', es)"
  obtains "es = []" "n' = n\<lparr>ni_vc_round_robin := wrap_next (ni_num_vcs n) (ni_vc_round_robin n)\<rparr>"
  | vc where "findM (is_candidate_vc C now (n\<lparr>ni_vc_round_robin := wrap_next (ni_num_vcs n) (ni_vc_round_robin n)\<rparr>))
      (vc_ring (ni_num_vcs n) (ni_vc_round_robin n) (ni_num_vcs n)) = Inr (Some vc)"
    "ni_send_flit now vc (n\<lparr>ni_vc_round_robin := wrap_next (ni_num_vcs n) (ni_vc_round_robin n)\<rparr>) = Inr (n', es)"
  using assms by (auto simp: scheduleOutputLink_def Let_def split: option.splits)

lemma ni_send_flit_tags:
  assumes "ni_send_flit now vc n = Inr (n', es)"
  shows "ni_tags n' = ni_tags n"
  using assms
proof (cases rule: ni_send_flit_effect)
  case (1 f b s' ets)
  have "add_mset (flit_tag_of f) (contents buffer_tags ((ni_out_vcs n)[vc := b])) = contents buffer_tags (ni_out_vcs n)"
    using 1(1,3) by (intro contents_update_remove buffer_tags_take) auto
  then show ?thesis by (auto simp: 1(6) ni_tags_def)
qed

lemma scheduleOutputLink_tags:
  assumes "scheduleOutputLink C now n = Inr (n', es)"
  shows "ni_tags n' = ni_tags n"
  using assms
proof (cases rule: scheduleOutputLink_cases)
  case (2 vc)
  then show ?thesis using ni_send_flit_tags [OF 2(2)] by (simp add: ni_tags_def)
qed (simp add: ni_tags_def)

lemma ni_inject_flows:
  assumes "ni_inject P cx = Inr cx'"
  shows "flows P (R, cx) (R, cx')"
proof -
  from assms obtain cx1 n es es' where 1: "foldM (ni_inject_vnet P) [0..<length (nx_inNode cx)] cx = Inr cx1"
    and n: "scheduleOutputLink (gn_config (nx_net cx1)) (nx_now cx1) (nx_ni cx1) = Inr (n, es)"
    and cx': "cx' = cx1\<lparr>nx_ni := n, nx_events := es'\<rparr>"
    by (auto simp: ni_inject_def Let_def)
  have "flows P (R, cx) (R, cx1)" using 1 by (rule flows_foldM) (rule ni_inject_vnet_flows)
  also have "flows P (R, cx1) (R, cx')"
    using scheduleOutputLink_tags [OF n] by (intro flows_same) (simp_all add: cx' ni_only_flow)
  finally show ?thesis .
qed

section \<open>Ejection\<close>

lemma sendCredit_tags [simp]: "ni_tags (sendCredit C now f b n) = ni_tags n"
  by (simp add: sendCredit_def ni_tags_def)

lemma eject_flit_effect:
  assumes "eject_flit P f cx = Inr cx'"
  obtains b k m R b' reqs st where "out_node cx (fl_vnet f) = Inr b" "fl_msg_ptr f = Some k" "nx_msgs cx k = Some m"
    "mb_enqueue m (curTime P cx) (cyclesToTicks P 1) (nx_ruby cx, b) = Inr (R, b', reqs)"
    "incrementStats P f (nx_net cx) (nx_stats cx) = Inr st"
    "cx' = (put_out_node (fl_vnet f) b' cx)\<lparr>nx_ni := sendCredit (gn_config (nx_net cx)) (nx_now cx) f True (nx_ni cx),
       nx_ruby := R, nx_msgs := (nx_msgs cx)(k := None), nx_stats := st, nx_requests := nx_requests cx @ reqs\<rparr>"
proof -
  from assms obtain b k m R b' reqs st where e: "out_node cx (fl_vnet f) = Inr b" "flit_message (nx_msgs cx) f = Inr (k, m)"
    "mb_enqueue m (curTime P cx) (cyclesToTicks P 1) (nx_ruby cx, b) = Inr (R, b', reqs)"
    "incrementStats P f (nx_net cx) (nx_stats cx) = Inr st"
    "cx' = (put_out_node (fl_vnet f) b' cx)\<lparr>nx_ni := sendCredit (gn_config (nx_net cx)) (nx_now cx) f True (nx_ni cx),
       nx_ruby := R, nx_msgs := (nx_msgs cx)(k := None), nx_stats := st, nx_requests := nx_requests cx @ reqs\<rparr>"
    by (auto simp: eject_flit_def Let_def)
  from e(2) have "fl_msg_ptr f = Some k" "nx_msgs cx k = Some m"
    by (auto simp: flit_message_def split: option.splits)
  with e show thesis by (intro that) 
qed

lemma eject_flit_flows:
  assumes "eject_flit P f cx = Inr cx'"
  shows "flows P (add_mset (flit_tag_of f) R, cx) (R, cx')"
  using assms
proof (cases rule: eject_flit_effect)
  case (1 b k m Rb b' reqs st)
  let ?w = "flow_of (add_mset (flit_tag_of f) R) cx"
  have w: "flow_of R cx' = ?w\<lparr>fw_tags := R + ctx_tags cx, fw_keys := fw_keys ?w - {k}, fw_stats := st\<rparr>"
    by (simp add: flow_of_def 1(6) ctx_tags_def put_out_node_def)
  have "flow_step P ?w (flow_of R cx')"
    unfolding w using 1(2,3,5) by (intro flow_eject [where f = f and net = "nx_net cx"]) (auto simp: flow_of_def)
  then show ?thesis by (rule flows_step) (simp add: ctx_frame_def 1(6) put_out_node_def)
qed

lemma slot_available_flows: "slot_available P v cx = Inr (free, cx') \<Longrightarrow> \<exists>b. cx' = put_out_node v b cx"
  by (auto simp: slot_available_def split: prod.splits)

lemma unstall_effect:
  assumes "unstall q v cx = Inr cx'"
  shows "flow_of R cx' = flow_of R (cx\<lparr>nx_ni := (nx_ni cx)\<lparr>ni_stall_queue := q\<rparr>\<rparr>)" "ctx_frame cx' = ctx_frame cx"
  using assms by (auto simp: unstall_def Let_def flow_of_def ctx_tags_def ni_tags_def ctx_frame_def put_out_node_def split: if_splits)

lemma stall_scan_flows:
  "stall_scan P pre q cx = Inr (b, cx') \<Longrightarrow> ni_stall_queue (nx_ni cx) = pre @ q \<Longrightarrow> flows P (R, cx) (R, cx')"
proof (induction P pre q cx rule: stall_scan.induct)
  case (2 P pre f post cx)
  from "2.prems"(1) obtain free cx1 where sl: "slot_available P (fl_vnet f) cx = Inr (free, cx1)" by auto
  from slot_available_flows [OF sl] obtain bb where cx1: "cx1 = put_out_node (fl_vnet f) bb cx" ..
  have 1: "flows P (R, cx) (R, cx1)" by (rule flows_same) (simp_all add: cx1)
  have q1: "ni_stall_queue (nx_ni cx1) = pre @ f # post" using "2.prems"(2) by (simp add: cx1 put_out_node_def)
  show ?case
  proof (cases free)
    case False
    then show ?thesis using 2 sl q1 flows_trans [OF 1] by simp
  next
    case True
    then obtain cx2 where ej: "eject_flit P f cx1 = Inr cx2" and un: "unstall (pre @ post) (fl_vnet f) cx2 = Inr cx'"
      using "2.prems"(1) sl by auto
    from ej have q2: "ni_stall_queue (nx_ni cx2) = pre @ f # post"
      by (cases rule: eject_flit_effect) (simp add: q1 sendCredit_def put_out_node_def)
    let ?q = "\<lambda>c q. c\<lparr>nx_ni := (nx_ni c)\<lparr>ni_stall_queue := q\<rparr>\<rparr>"
    have "flow_step P (flow_of R cx1) (flow_of R (?q cx2 (pre @ post)))"
      using ej
    proof (cases rule: eject_flit_effect)
      case (1 b k m Rb b' reqs st)
      let ?w = "flow_of R cx1" and ?T = "fw_tags (flow_of R (?q cx2 (pre @ post)))"
      have w: "flow_of R (?q cx2 (pre @ post)) = ?w\<lparr>fw_tags := ?T, fw_keys := fw_keys ?w - {k}, fw_stats := st\<rparr>"
        by (simp add: flow_of_def 1(6) ctx_tags_def put_out_node_def)
      have T: "fw_tags ?w = add_mset (flit_tag_of f) ?T"
        by (simp add: flow_of_def ctx_tags_def ni_tags_def 1(6) put_out_node_def sendCredit_def q1)
      have k: "k \<in> fw_keys ?w" and st: "incrementStats P f (nx_net cx1) (fw_stats ?w) = Inr st"
        using 1(3,5) by (auto simp: flow_of_def)
      show ?thesis by (subst w) (rule flow_eject [OF T 1(2) k st])
    qed
    moreover have "ctx_frame cx2 = ctx_frame cx1"
      using ej by (cases rule: eject_flit_effect) (simp add: ctx_frame_def put_out_node_def)
    ultimately have "flows P (R, cx1) (R, cx')"
      using unstall_effect [OF un] by (intro flows_step) simp_all
    with 1 show ?thesis by (rule flows_trans)
  qed
qed simp

lemma checkStallQueue_flows: "checkStallQueue P cx = Inr (b, cx') \<Longrightarrow> flows P (R, cx) (R, cx')"
  unfolding checkStallQueue_def by (erule stall_scan_flows) simp

lemma receive_flit_flows:
  assumes "receive_flit P e f cx = Inr cx'"
  shows "flows P (add_mset (flit_tag_of f) R, cx) (R, cx')"
proof -
  let ?R = "add_mset (flit_tag_of f) R"
  from assms obtain cx1 where cx1: "cx1 = cx \<or> (\<exists>b. cx1 = put_out_node (fl_vnet f) b cx)"
    and end': "eject_flit P f cx1 = Inr cx' \<or> stall_flit f cx1 = Inr cx'"
    using slot_available_flows [of P "fl_vnet f" cx] unfolding receive_flit_def
    by (auto split: if_splits) blast+
  have 1: "flows P (?R, cx) (?R, cx1)" using cx1 by (auto intro: flows_same)
  from end' have "flows P (?R, cx1) (R, cx')"
  proof
    assume "stall_flit f cx1 = Inr cx'"
    then show ?thesis
      by (auto simp: stall_flit_def Let_def flow_of_def ctx_tags_def ni_tags_def ctx_frame_def put_out_node_def intro!: flows_same)
  qed (rule eject_flit_flows)
  with 1 show ?thesis by (rule flows_trans)
qed

section \<open>A wakeup\<close>

lemma set_dequeue_time_tag [simp]: "flit_tag_of (set_dequeue_time t f) = flit_tag_of f"
  by (simp add: set_dequeue_time_def flit_tag_of_def)

lemma ni_read_link_flows:
  assumes "ni_read_link P e cx = Inr cx'"
  shows "flows P (R, cx) (R, cx')"
proof (cases "cx' = cx")
  case False
  let ?net = "nx_net cx" and ?k = "ni_inNetLink (nx_ni cx)"
  from assms False obtain f l' where k: "?k < length (gn_networklinks ?net)"
    and l': "consumeLink (gn_networklinks ?net ! ?k) = Inr (f, l')"
    and re: "receive_flit P e (set_dequeue_time (nx_now cx) f)
      (cx\<lparr>nx_net := ?net\<lparr>gn_networklinks := (gn_networklinks ?net)[?k := l']\<rparr>\<rparr>) = Inr cx'"
    by (auto simp: ni_read_link_def Let_def at_eq_Inr split: if_splits)
  let ?lt = "\<lambda>l :: flit_link. buffer_tags (nl_linkBuffer l)"
  let ?cx1 = "cx\<lparr>nx_net := ?net\<lparr>gn_networklinks := (gn_networklinks ?net)[?k := l']\<rparr>\<rparr>"
  have "add_mset (flit_tag_of f) (?lt l') = ?lt (gn_networklinks ?net ! ?k)"
    using l' by (auto simp: consumeLink_def dest: buffer_tags_take)
  then have "add_mset (flit_tag_of f) (contents ?lt ((gn_networklinks ?net)[?k := l'])) = contents ?lt (gn_networklinks ?net)"
    using k by (intro contents_update_remove)
  moreover have "link_wires l' = link_wires (gn_networklinks ?net ! ?k)" using l' by (auto simp: consumeLink_def)
  ultimately have "flows P (R, cx) (add_mset (flit_tag_of f) R, ?cx1)"
    using k by (intro flows_same) (auto simp: flow_of_def ctx_tags_def ctx_frame_def map_update list_update_same_conv)
  also have "flows P (add_mset (flit_tag_of f) R, ?cx1) (R, cx')"
    using receive_flit_flows [OF re, of R] by simp
  finally show ?thesis .
qed simp

lemma ni_read_credit_flows:
  assumes "ni_read_credit cx = Inr cx'"
  shows "flows P (R, cx) (R, cx')"
  using assms
  by (auto simp: ni_read_credit_def Let_def flow_of_def ctx_tags_def ni_tags_def ctx_frame_def consumeLink_def at_eq_Inr
      map_update list_update_same_conv intro!: flows_same split: if_splits)

lemma ni_wakeup_ctx_flows:
  assumes "ni_wakeup_ctx P cx = Inr cx'"
  shows "flows P (R, cx) (R, cx')"
proof -
  from assms obtain cx1 e cx2 cx3 cx4 where s: "ni_inject P cx = Inr cx1" "checkStallQueue P cx1 = Inr (e, cx2)"
      "ni_read_link P e cx2 = Inr cx3" "ni_read_credit cx3 = Inr cx4" and cx': "cx' = ni_credit_event cx4"
    by (auto simp: ni_wakeup_ctx_def)
  have "flows P (R, cx) (R, cx1)" using s(1) by (rule ni_inject_flows)
  also have "flows P (R, cx1) (R, cx2)" using s(2) by (rule checkStallQueue_flows)
  also have "flows P (R, cx2) (R, cx3)" using s(3) by (rule ni_read_link_flows)
  also have "flows P (R, cx3) (R, cx4)" using s(4) by (rule ni_read_credit_flows)
  also have "flows P (R, cx4) (R, cx')" by (rule flows_same) (simp_all add: cx' ni_credit_event_def)
  finally show ?thesis .
qed

section \<open>The system\<close>

text \<open>
  A step of the system: a step of the network, the wakeup of an interface at a cycle for which it was scheduled, or
  anything that the controllers of the protocol do to the message buffers, with the wakeups they cause.
\<close>

inductive sys_step :: "ni_params \<Rightarrow> garnet_system \<Rightarrow> garnet_system \<Rightarrow> bool" for P where
  network_step: "net_step (gs_net S) net' \<Longrightarrow> sys_step P S (S\<lparr>gs_net := net'\<rparr>)"
| interface_step: "NetworkInterface_wakeup P i S = Inr S' \<Longrightarrow>
    gn_cycle (gs_net S) \<in> set (ni_wakeups (gn_nis (gs_net S) ! i)) \<Longrightarrow> sys_step P S S'"
| protocol_step: "sys_step P S (S\<lparr>gs_nodes := nodes, gs_ruby := R, gs_requests := reqs,
    gs_net := schedule_events es (gs_net S)\<rparr>)"

inductive_cases sys_stepE: "sys_step P S S'"

lemma contents_others:
  assumes "i < length cs"
  shows "contents f (cs[i := c]) = contents f (take i cs @ drop (Suc i) cs) + f c"
  using assms by (simp add: upd_conv_take_nth_drop ac_simps)

lemma NetworkInterface_wakeup_cases:
  assumes "NetworkInterface_wakeup P i S = Inr S'"
  obtains cx cx' where "load_ni i S = Inr cx" "ni_wakeup_ctx P cx = Inr cx'" "S' = store_ni i cx' S"
    "i < length (gn_nis (gs_net S))" "nx_ni cx = gn_nis (gs_net S) ! i" "nx_net cx = gs_net S" "nx_msgs cx = gs_msgs S"
    "nx_next_msg cx = gs_next_msg S" "nx_stats cx = gs_stats S"
  using assms by (auto simp: NetworkInterface_wakeup_def load_ni_def at_eq_Inr)

lemma NetworkInterface_wakeup_flow:
  assumes "NetworkInterface_wakeup P i S = Inr S'"
  shows "(flow_step P)\<^sup>*\<^sup>* (system_flow S) (system_flow S')"
  using assms
proof (cases rule: NetworkInterface_wakeup_cases)
  case (1 cx cx')
  let ?nis = "gn_nis (gs_net S)"
  let ?R = "contents ni_tags (take i ?nis @ drop (Suc i) ?nis)"
  have f: "flows P (?R, cx) (?R, cx')" using 1(2) by (rule ni_wakeup_ctx_flows)
  then have nis: "gn_nis (nx_net cx') = ?nis" by (simp add: flows_def ctx_frame_def 1(6))
  have "contents ni_tags ?nis = ?R + ni_tags (?nis ! i)"
    using contents_others [OF 1(4), of ni_tags "?nis ! i"] by simp
  then have "system_flow S = flow_of ?R cx"
    by (simp add: system_flow_def flow_of_def ctx_tags_def network_tags_def 1 ac_simps)
  moreover have "network_tags (gs_net S') = network_tags ((nx_net cx')\<lparr>gn_nis := ?nis[i := nx_ni cx']\<rparr>)"
    by (simp add: 1(3) store_ni_def nis)
  then have "system_flow S' = flow_of ?R cx'"
    using contents_others [OF 1(4), of ni_tags "nx_ni cx'"]
    by (simp add: system_flow_def flow_of_def ctx_tags_def network_tags_def [of "_\<lparr>gn_nis := _\<rparr>"] 1(3) store_ni_def ac_simps)
  ultimately show ?thesis using f by (simp add: flows_def)
qed

lemma sys_step_flow: "sys_step P S S' \<Longrightarrow> (flow_step P)\<^sup>*\<^sup>* (system_flow S) (system_flow S')"
  by (erule sys_stepE) (auto simp: system_flow_def dest: net_step_tags NetworkInterface_wakeup_flow)

lemma sys_steps_flow: "(sys_step P)\<^sup>*\<^sup>* S S' \<Longrightarrow> (flow_step P)\<^sup>*\<^sup>* (system_flow S) (system_flow S')"
  by (induction rule: rtranclp_induct) (auto dest: sys_step_flow)

end
