(* ===== verification/Flow_Balance.thy ===== *)
theory Flow_Balance
  imports Interface_Flow
begin

text \<open>
  The books of the network. \<open>flow_counter\<close> is the contract between the counters of \<open>GarnetNetwork\<close> and the traffic: a
  pair of counters that moves exactly with the selected packets. Every such pair is balanced in every state the
  system can reach: injected = received + in the network. The counters per virtual network and the counters of
  marked flits are instances. \<open>keys_inv\<close> says that the flits of the network own the messages in flight, one each.
\<close>

section \<open>What the counters count\<close>

definition counts :: "flow_stats \<Rightarrow> nat list \<times> nat list \<times> nat \<times> nat" where
  "counts s = (fs_flits_injected s, fs_flits_received s, fs_marked_injected s, fs_marked_received s)"

lemma stat_add_Inr:
  "stat_add i k v = Inr v' \<longleftrightarrow> 0 \<le> i \<and> nat i < length v \<and> v' = v[nat i := v ! nat i + k]"
  by (auto simp: stat_add_def bnd_eq_Inr nat_less_iff)

lemmas latency_updates = update_flit_latency_histogram_def update_flit_network_latency_histogram_def
  update_flit_queueing_latency_histogram_def update_network_latency_histogram_def increment_received_packets_def
  increment_packet_network_latency_def increment_packet_queueing_latency_def increment_flit_network_latency_def
  increment_flit_queueing_latency_def increment_total_hops_def

lemma pure_update_counts [simp]:
  "counts (update_flit_latency_histogram l m s) = counts s" "fs_exits (update_flit_latency_histogram l m s) = fs_exits s"
  "counts (update_flit_network_latency_histogram l m s) = counts s" "fs_exits (update_flit_network_latency_histogram l m s) = fs_exits s"
  "counts (update_flit_queueing_latency_histogram l m s) = counts s" "fs_exits (update_flit_queueing_latency_histogram l m s) = fs_exits s"
  "counts (increment_total_hops h m s) = counts s" "fs_exits (increment_total_hops h m s) = fs_exits s"
  "counts (check_network_saturation now s) = counts s" "fs_flit_latency (check_network_saturation now s) = fs_flit_latency s"
  "fs_flit_latency (update_flit_latency_histogram l m s) = sample_latency l m (fs_flit_latency s)"
  "fs_flit_latency (update_flit_network_latency_histogram l m s) = fs_flit_latency s"
  "fs_flit_latency (update_flit_queueing_latency_histogram l m s) = fs_flit_latency s"
  "fs_flit_latency (increment_total_hops h m s) = fs_flit_latency s"
  by (simp_all add: counts_def latency_updates check_network_saturation_def Let_def)

lemma update_counts:
  "update_network_latency_histogram l s = Inr s' \<Longrightarrow> counts s' = counts s \<and> fs_exits s' = fs_exits s \<and> fs_flit_latency s' = fs_flit_latency s"
  "increment_received_packets v m s = Inr s' \<Longrightarrow> counts s' = counts s \<and> fs_exits s' = fs_exits s \<and> fs_flit_latency s' = fs_flit_latency s"
  "increment_injected_packets v m s = Inr s' \<Longrightarrow> counts s' = counts s \<and> fs_exits s' = fs_exits s \<and> fs_flit_latency s' = fs_flit_latency s"
  "increment_packet_network_latency l v m s = Inr s' \<Longrightarrow> counts s' = counts s \<and> fs_exits s' = fs_exits s \<and> fs_flit_latency s' = fs_flit_latency s"
  "increment_packet_queueing_latency l v m s = Inr s' \<Longrightarrow> counts s' = counts s \<and> fs_exits s' = fs_exits s \<and> fs_flit_latency s' = fs_flit_latency s"
  "increment_flit_network_latency l v m s = Inr s' \<Longrightarrow> counts s' = counts s \<and> fs_exits s' = fs_exits s \<and> fs_flit_latency s' = fs_flit_latency s"
  "increment_flit_queueing_latency l v m s = Inr s' \<Longrightarrow> counts s' = counts s \<and> fs_exits s' = fs_exits s \<and> fs_flit_latency s' = fs_flit_latency s"
  by (auto simp: counts_def latency_updates increment_injected_packets_def)

lemma injected_counts:
  assumes "increment_injected_flits vnet marked r s = Inr s'"
  shows "0 \<le> vnet \<and> nat vnet < length (fs_flits_injected s)"
    and "counts s' = ((fs_flits_injected s)[nat vnet := fs_flits_injected s ! nat vnet + 1], fs_flits_received s,
      fs_marked_injected s + (if marked then 1 else 0), fs_marked_received s)"
    and "fs_exits s' = fs_exits s"
  using assms by (auto simp: increment_injected_flits_def counts_def stat_add_Inr)

text \<open>The request to stop, and what \<open>check_mrkd_flt\<close> has established by then.\<close>

definition all_received :: string where
  "all_received = ''All marked packet received.''"

lemma received_counts:
  assumes "increment_received_flits vnet marked net s = Inr s'"
  shows "0 \<le> vnet \<and> nat vnet < length (fs_flits_received s)"
    and "counts s' = (fs_flits_injected s, (fs_flits_received s)[nat vnet := fs_flits_received s ! nat vnet + 1],
      fs_marked_injected s, fs_marked_received s + (if marked then 1 else 0))"
    and "fs_exits s' = fs_exits s \<or> (fs_exits s' = fs_exits s @ [all_received] \<and> marked \<and>
      fs_marked_injected s' = fs_marked_received s' \<and> (\<forall>r \<in> set (gn_routers net). r_mrkd_flt r \<le> 0))"
  using assms
  by (auto simp: increment_received_flits_def marked_flit_arrived_def counts_def stat_add_Inr copy_all_extremes_def
      copy_all_marked_def all_received_def check_mrkd_flt_def list_all_iff Let_def split: if_splits)

lemma check_network_saturation_exits:
  "\<exists>xs. fs_exits (check_network_saturation now s) = fs_exits s @ xs \<and> all_received \<notin> set xs"
  by (auto simp: check_network_saturation_def all_received_def Let_def)

lemma incrementStats_steps:
  assumes "incrementStats P f net s = Inr s'"
  obtains s1 xs nd qd where "increment_received_flits (fl_vnet f) (fl_marked f) net s = Inr s1" "counts s' = counts s1"
    "fs_exits s' = fs_exits s1 @ xs" "all_received \<notin> set xs" "flit_delays (gn_cycle net) f = Inr (nd, qd)"
    "fs_flit_latency s' = sample_latency (qd + nd) (fl_marked f) (fs_flit_latency s1)"
proof -
  let ?sat = "\<lambda>s7. if np_sim_type P = 2 \<and> np_warmup_cycles P < gn_cycle net then check_network_saturation (gn_cycle net) s7 else s7"
  from assms obtain s1 nd qd s2 s3 s7 s9 where
    s1: "increment_received_flits (fl_vnet f) (fl_marked f) net s = Inr s1"
    and fd: "flit_delays (gn_cycle net) f = Inr (nd, qd)"
    and s2: "increment_flit_network_latency nd (fl_vnet f) (fl_marked f) s1 = Inr s2"
    and s3: "increment_flit_queueing_latency qd (fl_vnet f) (fl_marked f) s2 = Inr s3"
    and s7: "update_network_latency_histogram nd (update_flit_queueing_latency_histogram qd (fl_marked f)
        (update_flit_network_latency_histogram nd (fl_marked f) (update_flit_latency_histogram (qd + nd) (fl_marked f) s3))) = Inr s7"
    and s9: "(if is_tail f then
             bnd (increment_received_packets (fl_vnet f) (fl_marked f) (?sat s7)) (\<lambda>s.
             bnd (increment_packet_network_latency nd (fl_vnet f) (fl_marked f) s) (\<lambda>s.
             increment_packet_queueing_latency qd (fl_vnet f) (fl_marked f) s))
           else Inr (?sat s7)) = Inr s9"
    and s': "s' = increment_total_hops (ri_hops_traversed (fl_route f)) (fl_marked f) s9"
    unfolding incrementStats_def Let_def
    by (elim bnd_prodE bnd_InrE) (drule sum.inject(2) [THEN iffD1, THEN sym], rule that)
  have 9: "counts s9 = counts (?sat s7) \<and> fs_exits s9 = fs_exits (?sat s7) \<and> fs_flit_latency s9 = fs_flit_latency s7"
    using s9 by (auto dest!: update_counts split: if_splits)
  have 7: "counts s7 = counts s1 \<and> fs_exits s7 = fs_exits s1 \<and>
      fs_flit_latency s7 = sample_latency (qd + nd) (fl_marked f) (fs_flit_latency s1)"
    using update_counts(1) [OF s7] update_counts(6) [OF s2] update_counts(7) [OF s3] by simp
  obtain xs where "fs_exits (?sat s7) = fs_exits s7 @ xs" "all_received \<notin> set xs"
    using check_network_saturation_exits [of "gn_cycle net" s7]
    by (cases "np_sim_type P = 2 \<and> np_warmup_cycles P < gn_cycle net") (auto intro: that [of "[]"])
  with 7 9 s1 fd s' show thesis by (intro that [of s1 xs nd qd]) auto
qed

text \<open>The request to stop copies the maximum of the marked flits that were received before.\<close>

lemma received_maximum:
  assumes "increment_received_flits vnet marked net s = Inr s'"
  shows "ls_marked (fs_flit_latency s') = ls_marked (fs_flit_latency s)"
    and "fs_exits s' \<noteq> fs_exits s \<Longrightarrow> ls_stat_max_marked (fs_flit_latency s') = ls_marked (fs_flit_latency s)"
  using assms
  by (auto simp: increment_received_flits_def marked_flit_arrived_def copy_all_extremes_def copy_all_marked_def
      copy_extremes_def copy_marked_def Let_def split: if_splits)

section \<open>Balanced counters\<close>

definition selected :: "(int \<Rightarrow> bool \<Rightarrow> bool) \<Rightarrow> flit_tag multiset \<Rightarrow> nat" where
  "selected sel T = size (filter_mset (\<lambda>t. sel (tag_vnet t) (tag_marked t)) T)"

lemma selected_add [simp]:
  "selected sel (add_mset t T) = selected sel T + (if sel (tag_vnet t) (tag_marked t) then 1 else 0)"
  by (simp add: selected_def)

lemma selected_empty [simp]: "selected sel {#} = 0"
  by (simp add: selected_def)

lemma tag_fields [simp]:
  "tag_vnet (flit_tag_of f) = fl_vnet f" "tag_marked (flit_tag_of f) = fl_marked f" "tag_msg_ptr (flit_tag_of f) = fl_msg_ptr f"
  by (simp_all add: flit_tag_of_def)

locale flow_counter =
  fixes sel :: "int \<Rightarrow> bool \<Rightarrow> bool" and ins :: "flow_stats \<Rightarrow> nat" and outs :: "flow_stats \<Rightarrow> nat"
  assumes count_in: "increment_injected_flits vnet marked r s = Inr s' \<Longrightarrow>
      ins s' = ins s + (if sel vnet marked then 1 else 0) \<and> outs s' = outs s"
    and count_packet: "increment_injected_packets vnet marked s = Inr s' \<Longrightarrow> ins s' = ins s \<and> outs s' = outs s"
    and count_out: "incrementStats P f net s = Inr s' \<Longrightarrow>
      ins s' = ins s \<and> outs s' = outs s + (if sel (fl_vnet f) (fl_marked f) then 1 else 0)"
begin

lemma step_balance:
  assumes "flow_step P w w'" and "ins (fw_stats w) = outs (fw_stats w) + selected sel (fw_tags w)"
  shows "ins (fw_stats w') = outs (fw_stats w') + selected sel (fw_tags w')"
  using assms by (cases rule: flow_step.cases) (auto dest!: count_in count_packet count_out split: if_splits)

lemma flow_balance:
  assumes "(flow_step P)\<^sup>*\<^sup>* w w'" and "ins (fw_stats w) = outs (fw_stats w) + selected sel (fw_tags w)"
  shows "ins (fw_stats w') = outs (fw_stats w') + selected sel (fw_tags w')"
  using assms by (induction rule: rtranclp_induct) (auto intro: step_balance)

lemma system_balance:
  assumes "(sys_step P)\<^sup>*\<^sup>* S S'"
    and "ins (gs_stats S) = outs (gs_stats S) + selected sel (network_tags (gs_net S))"
  shows "ins (gs_stats S') = outs (gs_stats S') + selected sel (network_tags (gs_net S'))"
  using flow_balance [OF sys_steps_flow [OF assms(1)]] assms(2) by (simp add: system_flow_def)

end

interpretation vnet_flow: flow_counter "\<lambda>vnet _. vnet = int v" "\<lambda>s. fs_flits_injected s ! v" "\<lambda>s. fs_flits_received s ! v" for v
proof unfold_locales
  fix vnet marked r s s'
  show "fs_flits_injected s' ! v = fs_flits_injected s ! v + (if vnet = int v then 1 else 0) \<and> fs_flits_received s' ! v = fs_flits_received s ! v"
    if "increment_injected_flits vnet marked r s = Inr s'"
    using injected_counts [OF that] by (auto simp: counts_def nth_list_update)
  show "fs_flits_injected s' ! v = fs_flits_injected s ! v \<and> fs_flits_received s' ! v = fs_flits_received s ! v"
    if "increment_injected_packets vnet marked s = Inr s'"
    using update_counts(3) [OF that] by (simp add: counts_def)
next
  fix P f net s s'
  assume "incrementStats P f net s = Inr s'"
  then show "fs_flits_injected s' ! v = fs_flits_injected s ! v \<and>
      fs_flits_received s' ! v = fs_flits_received s ! v + (if fl_vnet f = int v then 1 else 0)"
  proof (cases rule: incrementStats_steps)
    case (1 s1 xs nd qd)
    then show ?thesis using received_counts(1,2) [OF 1(1)] by (auto simp: counts_def nth_list_update)
  qed
qed

interpretation marked_flow: flow_counter "\<lambda>_ marked. marked" fs_marked_injected fs_marked_received
proof unfold_locales
  fix vnet marked r s s'
  show "fs_marked_injected s' = fs_marked_injected s + (if marked then 1 else 0) \<and> fs_marked_received s' = fs_marked_received s"
    if "increment_injected_flits vnet marked r s = Inr s'"
    using injected_counts(2) [OF that] by (simp add: counts_def)
  show "fs_marked_injected s' = fs_marked_injected s \<and> fs_marked_received s' = fs_marked_received s"
    if "increment_injected_packets vnet marked s = Inr s'"
    using update_counts(3) [OF that] by (simp add: counts_def)
next
  fix P f net s s'
  assume "incrementStats P f net s = Inr s'"
  then show "fs_marked_injected s' = fs_marked_injected s \<and>
      fs_marked_received s' = fs_marked_received s + (if fl_marked f then 1 else 0)"
  proof (cases rule: incrementStats_steps)
    case (1 s1 xs nd qd)
    then show ?thesis using received_counts(2) [OF 1(1)] by (simp add: counts_def)
  qed
qed

section \<open>Messages in flight\<close>

definition keys_inv :: "flow \<Rightarrow> bool" where
  "keys_inv w \<longleftrightarrow> finite (fw_keys w) \<and> (\<forall>k \<in> fw_keys w. k < fw_next w) \<and>
     image_mset tag_msg_ptr (fw_tags w) = image_mset Some (mset_set (fw_keys w))"

lemma flow_step_keys:
  assumes "flow_step P w w'" and "keys_inv w"
  shows "keys_inv w'"
  using assms
proof (cases rule: flow_step.cases)
  case (flow_inject t r s1 s2)
  have "fw_next w \<notin> fw_keys w" using assms(2) by (auto simp: keys_inv_def)
  then show ?thesis using assms(2) flow_inject by (auto simp: keys_inv_def mset_set.insert less_Suc_eq)
next
  case (flow_eject f T k net s)
  have fin: "finite (fw_keys w)" using assms(2) by (simp add: keys_inv_def)
  have "add_mset (Some k) (image_mset tag_msg_ptr T) = image_mset Some (mset_set (fw_keys w))"
    using assms(2) flow_eject by (simp add: keys_inv_def)
  also have "mset_set (fw_keys w) = add_mset k (mset_set (fw_keys w - {k}))"
    using fin flow_eject(4) by (rule mset_set.remove)
  finally have "image_mset tag_msg_ptr T = image_mset Some (mset_set (fw_keys w - {k}))" by simp
  then show ?thesis using assms(2) flow_eject by (auto simp: keys_inv_def)
qed

lemma flow_keys: "(flow_step P)\<^sup>*\<^sup>* w w' \<Longrightarrow> keys_inv w \<Longrightarrow> keys_inv w'"
  by (induction rule: rtranclp_induct) (auto intro: flow_step_keys)

end
