(* ===== verification/Message_Buffer_Correct.thy ===== *)
theory Message_Buffer_Correct
  imports Message_Buffer
begin

text \<open>
  What a message buffer promises. The heap is a priority queue (an interpretation of \<open>flit_queue\<close>, the
  contract of the flit buffers); no operation but \<open>enqueue\<close> and \<open>dequeue\<close> adds or removes a message; the size
  of the stall map is counted exactly; an ordered buffer is first in, first out; the slots that are reported
  free are free unless stalled messages came back in the same cycle.
\<close>

section \<open>The heap of a buffer\<close>

abbreviation msg_key :: "message \<Rightarrow> tick \<times> nat" where
  "msg_key m \<equiv> (msg_LastEnqueueTime m, msg_counter m)"

interpretation mheap: heap_order msg_greater msg_key
  by unfold_locales (auto simp: msg_greater_def less_prod_def)

definition mb_msgs :: "message_buffer \<Rightarrow> message multiset" where
  "mb_msgs b = mset (mb_prio_heap b)"

definition mb_heap_inv :: "message_buffer \<Rightarrow> bool" where
  "mb_heap_inv b = is_heap msg_greater (mb_prio_heap b)"

lemma mb_popE:
  assumes "mb_pop b = Inr (m, b')"
  obtains ms where "mb_prio_heap b = m # ms" and "b' = b\<lparr>mb_prio_heap := pop_heap msg_greater (m # ms)\<rparr>"
  using assms by (auto simp: mb_pop_def split: list.splits)

interpretation mbuf: flit_queue mb_push mb_peekMsgPtr mb_pop mb_msgs mb_heap_inv msg_key
proof unfold_locales
  fix q q' f g
  show "mb_msgs (mb_push f q) = add_mset f (mb_msgs q)" by (simp add: mb_msgs_def mb_push_def)
  show "mb_heap_inv (mb_push f q)" if "mb_heap_inv q"
    using that by (simp add: mb_heap_inv_def mb_push_def mheap.is_heap_push_heap)
  show "\<exists>f q'. mb_pop q = Inr (f, q')" if "mb_msgs q \<noteq> {#}"
    using that by (auto simp: mb_msgs_def mb_pop_def split: list.splits)
  assume p: "mb_pop q = Inr (f, q')"
  then show "mb_peekMsgPtr q = Inr f" by (auto simp: mb_peekMsgPtr_def elim: mb_popE)
  from p show "add_mset f (mb_msgs q') = mb_msgs q"
    by (rule mb_popE) (use mset_pop_heap [of "mb_prio_heap q" msg_greater] in \<open>simp add: mb_msgs_def\<close>)
  assume i: "mb_heap_inv q"
  show "mb_heap_inv q'"
    using p by (rule mb_popE) (use i mheap.is_heap_pop_heap [of "mb_prio_heap q"] in \<open>simp add: mb_heap_inv_def\<close>)
  assume "g \<in># mb_msgs q"
  then show "msg_key f \<le> msg_key g"
    using p i mheap.heap_hd_least [of "mb_prio_heap q" g]
    by (auto simp: mb_msgs_def mb_heap_inv_def elim!: mb_popE)
qed

lemma mb_push_fields [simp]:
  "mb_stall_msg_map (mb_push m b) = mb_stall_msg_map b" "mb_stall_map_size (mb_push m b) = mb_stall_map_size b"
  "mb_msg_counter (mb_push m b) = mb_msg_counter b" "mb_time_last_time_enqueue (mb_push m b) = mb_time_last_time_enqueue b"
  "mb_time_last_time_pop (mb_push m b) = mb_time_last_time_pop b" "mb_size_at_cycle_start (mb_push m b) = mb_size_at_cycle_start b"
  "mb_msgs_this_cycle (mb_push m b) = mb_msgs_this_cycle b" "mb_max_size (mb_push m b) = mb_max_size b"
  "mb_consumer (mb_push m b) = mb_consumer b" "mb_strict_fifo (mb_push m b) = mb_strict_fifo b"
  "mb_last_arrival_time (mb_push m b) = mb_last_arrival_time b"
  "length (mb_prio_heap (mb_push m b)) = Suc (length (mb_prio_heap b))"
  by (simp_all add: mb_push_def)

section \<open>Where the messages are\<close>

definition heap_ids :: "message_buffer \<Rightarrow> nat multiset" where
  "heap_ids b = image_mset msg_id (mb_msgs b)"

definition stalled_ids :: "message_buffer \<Rightarrow> nat multiset" where
  "stalled_ids b = contents (\<lambda>p. image_mset msg_id (mset (snd p))) (mb_stall_msg_map b)"

definition mb_ids :: "message_buffer \<Rightarrow> nat multiset" where
  "mb_ids b = heap_ids b + stalled_ids b"

lemma heap_ids_push [simp]: "heap_ids (mb_push m b) = add_mset (msg_id m) (heap_ids b)"
  by (simp add: heap_ids_def mbuf.elems_ins)

lemma stalled_ids_push [simp]: "stalled_ids (mb_push m b) = stalled_ids b"
  by (simp add: stalled_ids_def)

lemma heap_ids_pop: "mb_pop b = Inr (m, b') \<Longrightarrow> heap_ids b = add_mset (msg_id m) (heap_ids b')"
  unfolding heap_ids_def by (drule mbuf.take_Inr [symmetric]) simp

lemma size_heap_ids: "size (heap_ids b) = length (mb_prio_heap b)"
  by (simp add: heap_ids_def mb_msgs_def)

lemma mb_ids_more [simp]:
  "heap_ids (b\<lparr>mb_stall_msg_map := x1\<rparr>) = heap_ids b" "heap_ids (b\<lparr>mb_stall_map_size := x2\<rparr>) = heap_ids b"
  "heap_ids (b\<lparr>mb_msg_counter := x3\<rparr>) = heap_ids b" "heap_ids (b\<lparr>mb_msgs_this_cycle := x3\<rparr>) = heap_ids b"
  "heap_ids (b\<lparr>mb_time_last_time_enqueue := x3\<rparr>) = heap_ids b" "heap_ids (b\<lparr>mb_last_arrival_time := x3\<rparr>) = heap_ids b"
  "heap_ids (b\<lparr>mb_buf_msgs := x2\<rparr>) = heap_ids b" "heap_ids (b\<lparr>mb_size_at_cycle_start := x3\<rparr>) = heap_ids b"
  "heap_ids (b\<lparr>mb_time_last_time_pop := x3\<rparr>) = heap_ids b" "heap_ids (b\<lparr>mb_stall_count := x3\<rparr>) = heap_ids b"
  "heap_ids (b\<lparr>mb_not_avail_count := x3\<rparr>) = heap_ids b"
  "stalled_ids (b\<lparr>mb_prio_heap := x4\<rparr>) = stalled_ids b" "stalled_ids (b\<lparr>mb_stall_map_size := x2\<rparr>) = stalled_ids b"
  "stalled_ids (b\<lparr>mb_msg_counter := x3\<rparr>) = stalled_ids b" "stalled_ids (b\<lparr>mb_msgs_this_cycle := x3\<rparr>) = stalled_ids b"
  "stalled_ids (b\<lparr>mb_time_last_time_enqueue := x3\<rparr>) = stalled_ids b" "stalled_ids (b\<lparr>mb_last_arrival_time := x3\<rparr>) = stalled_ids b"
  "stalled_ids (b\<lparr>mb_buf_msgs := x2\<rparr>) = stalled_ids b" "stalled_ids (b\<lparr>mb_size_at_cycle_start := x3\<rparr>) = stalled_ids b"
  "stalled_ids (b\<lparr>mb_time_last_time_pop := x3\<rparr>) = stalled_ids b" "stalled_ids (b\<lparr>mb_stall_count := x3\<rparr>) = stalled_ids b"
  "stalled_ids (b\<lparr>mb_not_avail_count := x3\<rparr>) = stalled_ids b"
  by (simp_all add: heap_ids_def stalled_ids_def mb_msgs_def)

section \<open>The operations, case by case\<close>

text \<open>The buffer with the counters of \<open>enqueue\<close> advanced, before the message is pushed.\<close>

definition enq_counters :: "tick \<Rightarrow> tick \<Rightarrow> message_buffer \<Rightarrow> message_buffer" where
  "enq_counters now arrival b =
     b\<lparr>mb_msgs_this_cycle := (if mb_time_last_time_enqueue b < now then 1 else mb_msgs_this_cycle b + 1),
       mb_time_last_time_enqueue := max now (mb_time_last_time_enqueue b),
       mb_msg_counter := mb_msg_counter b + 1, mb_last_arrival_time := arrival\<rparr>"

lemma mb_arrival_cong:
  "mb_randomization b' = mb_randomization b \<Longrightarrow> mb_last_arrival_time b' = mb_last_arrival_time b \<Longrightarrow>
   mb_strict_fifo b' = mb_strict_fifo b \<Longrightarrow> mb_arrival R t d b' = mb_arrival R t d b"
  by (simp add: mb_arrival_def)

lemma mb_enqueueE:
  assumes "mb_enqueue m now delta (R, b) = Inr (R', b', evs)"
  obtains arrival last d where "mb_arrival R now delta b = (arrival, last, R')" and "now < arrival"
    and "mb_strict_fifo b \<Longrightarrow> last \<le> arrival" and "mb_consumer b \<noteq> None"
    and "b' = (mb_push (m\<lparr>msg_DelayedTicks := d, msg_LastEnqueueTime := arrival, msg_counter := mb_msg_counter b + 1\<rparr>)
       (enq_counters now (if rs_warmup_enabled R then last else arrival) b))\<lparr>mb_buf_msgs := mb_buf_msgs b + 1\<rparr>"
proof -
  obtain arrival last R1 where a: "mb_arrival R now delta b = (arrival, last, R1)" by (metis prod.exhaust)
  let ?b2 = "\<lambda>b1. b1\<lparr>mb_msg_counter := mb_msg_counter b1 + 1, mb_msgs_this_cycle := mb_msgs_this_cycle b1 + 1\<rparr>"
  have a2: "mb_arrival R now delta (?b2 b) = (arrival, last, R1)"
    "mb_arrival R now delta (?b2 (b\<lparr>mb_msgs_this_cycle := 0, mb_time_last_time_enqueue := now\<rparr>)) = (arrival, last, R1)"
    using a by (simp_all cong: mb_arrival_cong add: mb_arrival_def)
  let ?m = "m\<lparr>msg_DelayedTicks := msg_DelayedTicks m + (now - msg_LastEnqueueTime m),
      msg_LastEnqueueTime := arrival, msg_counter := mb_msg_counter b + 1\<rparr>"
  have "R1 = R' \<and> now < arrival \<and> (mb_strict_fifo b \<longrightarrow> last \<le> arrival) \<and> mb_consumer b \<noteq> None \<and>
      b' = (mb_push ?m (enq_counters now (if rs_warmup_enabled R then last else arrival) b))\<lparr>mb_buf_msgs := mb_buf_msgs b + 1\<rparr>"
    using assms a2
    by (cases "mb_time_last_time_enqueue b < now")
      (auto simp: mb_enqueue_def Let_def updateDelayedTicks_def enq_counters_def mb_push_def max_def split: if_splits)
  then show ?thesis using that [of arrival last "msg_DelayedTicks m + (now - msg_LastEnqueueTime m)"] a by blast
qed

lemma mb_dequeueE:
  assumes "mb_dequeue now decr b = Inr (delay, m', b', cb)"
  obtains m b1 where "mb_pop b = Inr (m, b1)" and "msg_LastEnqueueTime m \<le> now"
    and "m' = m\<lparr>msg_DelayedTicks := msg_DelayedTicks m + (now - msg_LastEnqueueTime m)\<rparr>" and "delay = msg_DelayedTicks m'"
    and "b' = b1\<lparr>mb_size_at_cycle_start := if mb_time_last_time_pop b < now then length (mb_prio_heap b) else mb_size_at_cycle_start b,
        mb_time_last_time_pop := max now (mb_time_last_time_pop b),
        mb_buf_msgs := if decr then mb_buf_msgs b - 1 else mb_buf_msgs b\<rparr>"
proof -
  from assms obtain m ms where h: "mb_prio_heap b = m # ms" and le: "msg_LastEnqueueTime m \<le> now"
    by (auto simp: mb_dequeue_def mb_isReady_def mb_peekMsgPtr_def split: list.splits)
  have "mb_pop b = Inr (m, b\<lparr>mb_prio_heap := pop_heap msg_greater (mb_prio_heap b)\<rparr>)" by (simp add: mb_pop_def h)
  then show ?thesis
    by (rule that) (use assms h le in \<open>auto simp: mb_dequeue_def mb_isReady_def mb_peekMsgPtr_def mb_pop_def
        updateDelayedTicks_def Let_def max_def split: if_splits\<close>)
qed

lemma mb_recycleE:
  assumes "mb_recycle now latency b = Inr (b', evs)"
  obtains m b1 where "mb_pop b = Inr (m, b1)" and "b' = mb_push (m\<lparr>msg_LastEnqueueTime := now + latency\<rparr>) b1"
  using assms by (auto simp: mb_recycle_def Let_def)

lemma mb_stallMessageE:
  assumes "mb_stallMessage bits addr now b = Inr (b', cb)"
  obtains delay m b1 where "mb_dequeue now False b = Inr (delay, m, b1, cb)"
    and "b' = b1\<lparr>mb_stall_msg_map := map_put addr (map_get [] addr (mb_stall_msg_map b1) @ [m]) (mb_stall_msg_map b1),
             mb_stall_map_size := mb_stall_map_size b1 + 1, mb_stall_count := mb_stall_count b1 + 1\<rparr>"
  using assms by (auto simp: mb_stallMessage_def Let_def)

text \<open>The messages of a list put back, in order, with consecutive counters.\<close>

fun requeued :: "tick \<Rightarrow> nat \<Rightarrow> message list \<Rightarrow> message list" where
  "requeued now c [] = []"
| "requeued now c (m # lt) = m\<lparr>msg_LastEnqueueTime := now, msg_counter := Suc c\<rparr> # requeued now (Suc c) lt"

lemma mb_push_counter [simp]: "(mb_push m b)\<lparr>mb_msg_counter := c\<rparr> = mb_push m (b\<lparr>mb_msg_counter := c\<rparr>)"
  by (cases b) (simp add: mb_push_def)

lemma mb_reanalyzeListE:
  assumes "mb_reanalyzeList lt now (b, evs) = Inr (b', evs')"
  shows "b' = fold mb_push (requeued now (mb_msg_counter b) lt) (b\<lparr>mb_msg_counter := mb_msg_counter b + length lt\<rparr>)"
  using assms unfolding mb_reanalyzeList_def
proof (induction lt arbitrary: b evs)
  case (Cons m lt)
  let ?b = "mb_push (m\<lparr>msg_LastEnqueueTime := now, msg_counter := Suc (mb_msg_counter b)\<rparr>) (b\<lparr>mb_msg_counter := Suc (mb_msg_counter b)\<rparr>)"
  have "\<exists>evs1. mb_reanalyze_one now m (b, evs) = Inr (?b, evs1)" if "mb_reanalyze_one now m (b, evs) = Inr s" for s
    using that by (auto simp: mb_reanalyze_one_def Let_def)
  with Cons.prems obtain evs1 where "foldM (mb_reanalyze_one now) lt (?b, evs1) = Inr (b', evs')" by fastforce
  from Cons.IH [OF this] show ?case by simp
qed simp

lemma requeued_ids: "map msg_id (requeued now c lt) = map msg_id lt"
  by (induction lt arbitrary: c) simp_all

lemma length_requeued [simp]: "length (requeued now c lt) = length lt"
  by (induction lt arbitrary: c) simp_all

lemma requeued_keys:
  "m \<in> set (requeued now c lt) \<Longrightarrow> msg_LastEnqueueTime m = now \<and> c < msg_counter m \<and> msg_counter m \<le> c + length lt"
  by (induction lt arbitrary: c) force+

lemma requeued_sorted: "sorted_wrt (<) (map msg_key (requeued now c lt))"
proof (induction lt arbitrary: c)
  case (Cons m lt)
  have "\<forall>x \<in> set (requeued now (Suc c) lt). (now, Suc c) < msg_key x"
    using requeued_keys [of _ now "Suc c" lt] by (auto simp: less_prod_def)
  then show ?case using Cons by simp
qed simp

section \<open>The invariant\<close>

definition mb_inv :: "message_buffer \<Rightarrow> bool" where
  "mb_inv b \<longleftrightarrow> mb_heap_inv b \<and> (\<forall>m \<in># mb_msgs b. msg_counter m \<le> mb_msg_counter b) \<and>
     map_inv (mb_stall_msg_map b) \<and> mb_stall_map_size b = int (size (stalled_ids b))"

lemma mb_inv_new: "mb_inv (MessageBuffer_new n ordered rnd)"
  by (simp add: mb_inv_def MessageBuffer_new_def mb_heap_inv_def is_heap_def mb_msgs_def stalled_ids_def)

lemma heap_eq_inv: "mb_prio_heap b' = mb_prio_heap b \<Longrightarrow> mb_heap_inv b' = mb_heap_inv b \<and> mb_msgs b' = mb_msgs b \<and> heap_ids b' = heap_ids b"
  by (simp add: mb_heap_inv_def mb_msgs_def heap_ids_def)

lemma stall_eq: "mb_stall_msg_map b' = mb_stall_msg_map b \<Longrightarrow> stalled_ids b' = stalled_ids b"
  by (simp add: stalled_ids_def)

lemma mb_inv_fields:
  assumes "mb_inv b" and "mb_prio_heap b' = mb_prio_heap b" and "mb_msg_counter b \<le> mb_msg_counter b'"
    and "mb_stall_msg_map b' = mb_stall_msg_map b" and "mb_stall_map_size b' = mb_stall_map_size b"
  shows "mb_inv b'" and "heap_ids b' = heap_ids b" and "stalled_ids b' = stalled_ids b"
  using assms heap_eq_inv [OF assms(2)] stall_eq [OF assms(4)] by (auto simp: mb_inv_def intro: order_trans)

lemma mb_inv_push: "mb_inv b \<Longrightarrow> msg_counter m \<le> mb_msg_counter b \<Longrightarrow> mb_inv (mb_push m b)"
  by (auto simp: mb_inv_def mbuf.invar_ins mbuf.elems_ins)

lemma mb_inv_pop:
  assumes "mb_inv b" and "mb_pop b = Inr (m, b')"
  shows "mb_inv b'" and "msg_counter m \<le> mb_msg_counter b'" and "heap_ids b = add_mset (msg_id m) (heap_ids b')"
    and "stalled_ids b' = stalled_ids b" and "length (mb_prio_heap b) = Suc (length (mb_prio_heap b'))"
    and "mb_msg_counter b' = mb_msg_counter b" and "mb_stall_msg_map b' = mb_stall_msg_map b"
    and "mb_time_last_time_enqueue b' = mb_time_last_time_enqueue b" and "mb_time_last_time_pop b' = mb_time_last_time_pop b"
    and "mb_size_at_cycle_start b' = mb_size_at_cycle_start b" and "mb_msgs_this_cycle b' = mb_msgs_this_cycle b"
    and "mb_max_size b' = mb_max_size b"
proof -
  from assms(2) obtain ms where h: "mb_prio_heap b = m # ms" and b': "b' = b\<lparr>mb_prio_heap := pop_heap msg_greater (m # ms)\<rparr>"
    by (rule mb_popE)
  show f: "stalled_ids b' = stalled_ids b" "mb_msg_counter b' = mb_msg_counter b" "mb_stall_msg_map b' = mb_stall_msg_map b"
    "mb_time_last_time_enqueue b' = mb_time_last_time_enqueue b" "mb_time_last_time_pop b' = mb_time_last_time_pop b"
    "mb_size_at_cycle_start b' = mb_size_at_cycle_start b" "mb_msgs_this_cycle b' = mb_msgs_this_cycle b" "mb_max_size b' = mb_max_size b"
    by (simp_all add: b')
  note e = mbuf.take_Inr [OF assms(2), symmetric]
  show "mb_inv b'" using assms(1) mbuf.invar_take [OF _ assms(2)] f e by (auto simp: mb_inv_def b')
  show "msg_counter m \<le> mb_msg_counter b'" using assms(1) e f by (auto simp: mb_inv_def)
  show "heap_ids b = add_mset (msg_id m) (heap_ids b')" by (rule heap_ids_pop [OF assms(2)])
  show "length (mb_prio_heap b) = Suc (length (mb_prio_heap b'))" by (simp add: h b' length_pop_heap)
qed

lemma fold_push:
  "mb_inv b \<Longrightarrow> \<forall>m \<in> set ms. msg_counter m \<le> mb_msg_counter b \<Longrightarrow> mb_inv (fold mb_push ms b)"
  "heap_ids (fold mb_push ms b) = image_mset msg_id (mset ms) + heap_ids b"
  "mb_msgs (fold mb_push ms b) = mset ms + mb_msgs b"
  by (induction ms arbitrary: b) (simp_all add: mb_inv_push mbuf.elems_ins)

lemma fold_push_fields [simp]:
  "mb_stall_msg_map (fold mb_push ms b) = mb_stall_msg_map b" "mb_stall_map_size (fold mb_push ms b) = mb_stall_map_size b"
  "mb_msg_counter (fold mb_push ms b) = mb_msg_counter b" "mb_time_last_time_enqueue (fold mb_push ms b) = mb_time_last_time_enqueue b"
  "mb_time_last_time_pop (fold mb_push ms b) = mb_time_last_time_pop b" "mb_max_size (fold mb_push ms b) = mb_max_size b"
  "mb_consumer (fold mb_push ms b) = mb_consumer b" "mb_size_at_cycle_start (fold mb_push ms b) = mb_size_at_cycle_start b"
  "mb_msgs_this_cycle (fold mb_push ms b) = mb_msgs_this_cycle b"
  "length (mb_prio_heap (fold mb_push ms b)) = length ms + length (mb_prio_heap b)"
  by (induction ms arbitrary: b) simp_all

section \<open>What every operation keeps\<close>

lemma enqueue_effect:
  assumes "mb_enqueue m now delta (R, b) = Inr (R', b', evs)" and "mb_inv b"
  shows "mb_inv b'" and "mb_ids b' = add_mset (msg_id m) (mb_ids b)"
proof -
  from assms(1) obtain arrival last d where b': "b' = (mb_push (m\<lparr>msg_DelayedTicks := d, msg_LastEnqueueTime := arrival,
      msg_counter := mb_msg_counter b + 1\<rparr>) (enq_counters now (if rs_warmup_enabled R then last else arrival) b))
      \<lparr>mb_buf_msgs := mb_buf_msgs b + 1\<rparr>" by (rule mb_enqueueE)
  define b1 where "b1 = enq_counters now (if rs_warmup_enabled R then last else arrival) b"
  have e: "mb_inv b1" "heap_ids b1 = heap_ids b" "stalled_ids b1 = stalled_ids b" "mb_msg_counter b1 = mb_msg_counter b + 1"
    using mb_inv_fields [OF assms(2), of b1] by (simp_all add: b1_def enq_counters_def)
  define m1 where "m1 = m\<lparr>msg_DelayedTicks := d, msg_LastEnqueueTime := arrival, msg_counter := mb_msg_counter b + 1\<rparr>"
  have p: "mb_inv (mb_push m1 b1)" using mb_inv_push [OF e(1), of m1] e(4) by (simp add: m1_def)
  have b'': "b' = (mb_push m1 b1)\<lparr>mb_buf_msgs := mb_buf_msgs b + 1\<rparr>" by (simp add: b' b1_def m1_def)
  show "mb_inv b'" "mb_ids b' = add_mset (msg_id m) (mb_ids b)"
    using mb_inv_fields [OF p, of b'] e by (simp_all add: b'' mb_ids_def m1_def)
qed

lemma dequeue_effect:
  assumes "mb_dequeue now decr b = Inr (delay, m, b', cb)" and "mb_inv b"
  shows "mb_inv b'" and "mb_ids b = add_mset (msg_id m) (mb_ids b')" and "mb_stall_msg_map b' = mb_stall_msg_map b"
    and "heap_ids b = add_mset (msg_id m) (heap_ids b')"
proof -
  from assms(1) obtain m0 b1 where pop: "mb_pop b = Inr (m0, b1)" and m: "msg_id m = msg_id m0"
    and b': "b' = b1\<lparr>mb_size_at_cycle_start := if mb_time_last_time_pop b < now then length (mb_prio_heap b) else mb_size_at_cycle_start b,
        mb_time_last_time_pop := max now (mb_time_last_time_pop b), mb_buf_msgs := if decr then mb_buf_msgs b - 1 else mb_buf_msgs b\<rparr>"
    by (rule mb_dequeueE) simp
  note e = mb_inv_pop [OF assms(2) pop]
  show "mb_inv b'" "mb_ids b = add_mset (msg_id m) (mb_ids b')" "mb_stall_msg_map b' = mb_stall_msg_map b"
    "heap_ids b = add_mset (msg_id m) (heap_ids b')"
    using mb_inv_fields [OF e(1), of b'] e m by (simp_all add: b' mb_ids_def)
qed

lemma recycle_effect:
  assumes "mb_recycle now latency b = Inr (b', evs)" and "mb_inv b"
  shows "mb_inv b'" and "mb_ids b' = mb_ids b"
proof -
  from assms(1) obtain m b1 where pop: "mb_pop b = Inr (m, b1)" and b': "b' = mb_push (m\<lparr>msg_LastEnqueueTime := now + latency\<rparr>) b1"
    by (rule mb_recycleE)
  note e = mb_inv_pop [OF assms(2) pop]
  show "mb_inv b'" "mb_ids b' = mb_ids b" using mb_inv_push [OF e(1)] e by (simp_all add: b' mb_ids_def)
qed

lemma delayHead_effect:
  assumes "mb_delayHead now delta (R, b) = Inr (R', b', evs)" and "mb_inv b"
  shows "mb_inv b'" and "mb_ids b' = mb_ids b"
proof -
  from assms(1) obtain m b1 where pop: "mb_pop b = Inr (m, b1)" and enq: "mb_enqueue m now delta (R, b1) = Inr (R', b', evs)"
    by (auto simp: mb_delayHead_def)
  note e = mb_inv_pop [OF assms(2) pop]
  show "mb_inv b'" "mb_ids b' = mb_ids b"
    using enqueue_effect [OF enq e(1)] e by (simp_all add: mb_ids_def)
qed

lemma stallMessage_effect:
  assumes "mb_stallMessage bits addr now b = Inr (b', cb)" and "mb_inv b"
  shows "mb_inv b'" and "mb_ids b' = mb_ids b"
proof -
  from assms(1) obtain delay m b1 where d: "mb_dequeue now False b = Inr (delay, m, b1, cb)"
    and b': "b' = b1\<lparr>mb_stall_msg_map := map_put addr (map_get [] addr (mb_stall_msg_map b1) @ [m]) (mb_stall_msg_map b1),
             mb_stall_map_size := mb_stall_map_size b1 + 1, mb_stall_count := mb_stall_count b1 + 1\<rparr>"
    by (rule mb_stallMessageE)
  note e = dequeue_effect [OF d assms(2)]
  let ?f = "\<lambda>ms. image_mset msg_id (mset ms)"
  have inv: "map_inv (mb_stall_msg_map b1)" using e(1) by (simp add: mb_inv_def)
  have "contents (\<lambda>p. ?f (snd p)) (mb_stall_msg_map b') + ?f (map_get [] addr (mb_stall_msg_map b1)) =
      contents (\<lambda>p. ?f (snd p)) (mb_stall_msg_map b1) + ?f (map_get [] addr (mb_stall_msg_map b1) @ [m])"
    using map_put_contents [of ?f "[]", OF _ inv] by (simp add: b')
  then have s: "stalled_ids b' = add_mset (msg_id m) (stalled_ids b1)" by (simp add: stalled_ids_def)
  have h: "mb_prio_heap b' = mb_prio_heap b1" "mb_msg_counter b' = mb_msg_counter b1" by (simp_all add: b')
  show "mb_inv b'" using e(1) s heap_eq_inv [OF h(1)] h(2) map_inv_put [OF inv] by (simp add: mb_inv_def b')
  show "mb_ids b' = mb_ids b" using e(2) s heap_eq_inv [OF h(1)] by (simp add: mb_ids_def)
qed

lemma reanalyzeList_effect:
  assumes "mb_reanalyzeList lt now (b, evs) = Inr (b', evs')" and "mb_heap_inv b"
    and "\<forall>m \<in># mb_msgs b. msg_counter m \<le> mb_msg_counter b"
  shows "mb_heap_inv b'" and "\<forall>m \<in># mb_msgs b'. msg_counter m \<le> mb_msg_counter b'"
    and "heap_ids b' = image_mset msg_id (mset lt) + heap_ids b"
    and "mb_stall_msg_map b' = mb_stall_msg_map b" and "mb_stall_map_size b' = mb_stall_map_size b"
proof -
  let ?b = "b\<lparr>mb_msg_counter := mb_msg_counter b + length lt\<rparr>"
  let ?ms = "requeued now (mb_msg_counter b) lt"
  have b': "b' = fold mb_push ?ms ?b" by (rule mb_reanalyzeListE [OF assms(1)])
  show "mb_stall_msg_map b' = mb_stall_msg_map b" "mb_stall_map_size b' = mb_stall_map_size b" by (simp_all add: b')
  have "mb_heap_inv (fold mb_push ms c)" if "mb_heap_inv c" for ms c
    using that by (induction ms arbitrary: c) (simp_all add: mbuf.invar_ins)
  then show "mb_heap_inv b'" using assms(2) by (simp add: b' mb_heap_inv_def)
  have "mb_msgs b' = mset ?ms + mb_msgs b" unfolding b' fold_push(3) by (simp add: mb_msgs_def)
  then show "\<forall>m \<in># mb_msgs b'. msg_counter m \<le> mb_msg_counter b'"
    using assms(3) requeued_keys [of _ now "mb_msg_counter b" lt] by (auto simp: b')
  show "heap_ids b' = image_mset msg_id (mset lt) + heap_ids b"
    using requeued_ids [of now "mb_msg_counter b" lt] unfolding b' fold_push(2)
    by (metis heap_ids_def mb_ids_more(3) mset_map)
qed

lemma reanalyzeMessages_effect:
  assumes "mb_reanalyzeMessages addr now b = Inr (b', evs)" and "mb_inv b"
  shows "mb_inv b'" and "mb_ids b' = mb_ids b"
proof -
  define lt where "lt = map_get [] addr (mb_stall_msg_map b)"
  from assms(1) obtain b2 where
    r: "mb_reanalyzeList lt now (b\<lparr>mb_stall_map_size := mb_stall_map_size b - int (length lt)\<rparr>, []) = Inr (b2, evs)"
    and b': "b' = b2\<lparr>mb_stall_msg_map := map_erase addr (mb_stall_msg_map b2)\<rparr>"
    by (auto simp: mb_reanalyzeMessages_def Let_def lt_def)
  let ?b = "b\<lparr>mb_stall_map_size := mb_stall_map_size b - int (length lt)\<rparr>"
  have pre: "mb_heap_inv ?b" "\<forall>m \<in># mb_msgs ?b. msg_counter m \<le> mb_msg_counter ?b"
    using assms(2) by (auto simp: mb_inv_def mb_heap_inv_def mb_msgs_def)
  note e = reanalyzeList_effect [OF r pre]
  have inv: "map_inv (mb_stall_msg_map b)" using assms(2) by (simp add: mb_inv_def)
  have s: "stalled_ids b' + image_mset msg_id (mset lt) = stalled_ids b"
    using map_erase_contents [of "\<lambda>ms. image_mset msg_id (mset ms)" "[]", OF _ inv, of addr]
    by (simp add: stalled_ids_def b' e(4) lt_def)
  have "int (size (stalled_ids b)) = int (size (stalled_ids b')) + int (length lt)" by (simp flip: s)
  then show "mb_inv b'" using e assms(2) map_inv_erase [OF inv] by (simp add: mb_inv_def b' mb_heap_inv_def mb_msgs_def)
  show "mb_ids b' = mb_ids b" using e(3) s by (simp add: mb_ids_def b' ac_simps flip: s)
qed

lemma reanalyze_entries:
  assumes "foldM (mb_reanalyze_entry now) ps (b, evs) = Inr (b', evs')" and "mb_heap_inv b"
    and "\<forall>m \<in># mb_msgs b. msg_counter m \<le> mb_msg_counter b"
  shows "mb_heap_inv b' \<and> (\<forall>m \<in># mb_msgs b'. msg_counter m \<le> mb_msg_counter b') \<and>
    heap_ids b' = contents (\<lambda>p. image_mset msg_id (mset (snd p))) ps + heap_ids b \<and>
    mb_stall_map_size b' = mb_stall_map_size b - int (size (contents (\<lambda>p. image_mset msg_id (mset (snd p))) ps))"
  using assms
proof (induction ps arbitrary: b evs)
  case (Cons p ps)
  let ?b = "b\<lparr>mb_stall_map_size := mb_stall_map_size b - int (length (snd p))\<rparr>"
  from Cons.prems(1) obtain b1 evs1 where s: "mb_reanalyze_entry now p (b, evs) = Inr (b1, evs1)"
    and f: "foldM (mb_reanalyze_entry now) ps (b1, evs1) = Inr (b', evs')" by auto
  from s have r: "mb_reanalyzeList (snd p) now (?b, evs) = Inr (b1, evs1)"
    by (auto simp: mb_reanalyze_entry_def Let_def)
  have pre: "mb_heap_inv ?b" "\<forall>m \<in># mb_msgs ?b. msg_counter m \<le> mb_msg_counter ?b"
    using Cons.prems(2,3) by (simp_all add: mb_heap_inv_def mb_msgs_def)
  note e = reanalyzeList_effect [OF r pre]
  from Cons.IH [OF f e(1,2)] show ?case using e(3,5) by simp
qed simp

lemma reanalyzeAll_effect:
  assumes "mb_reanalyzeAllMessages now b = Inr (b', evs)" and "mb_inv b"
  shows "mb_inv b'" and "mb_ids b' = mb_ids b"
proof -
  from assms(1) obtain b1 where f: "foldM (mb_reanalyze_entry now) (mb_stall_msg_map b) (b, []) = Inr (b1, evs)"
    and b': "b' = b1\<lparr>mb_stall_msg_map := []\<rparr>" by (auto simp: mb_reanalyzeAllMessages_def)
  have "mb_heap_inv b" "\<forall>m \<in># mb_msgs b. msg_counter m \<le> mb_msg_counter b" using assms(2) by (simp_all add: mb_inv_def)
  note e = reanalyze_entries [OF f this]
  show "mb_inv b'" "mb_ids b' = mb_ids b"
    using e assms(2) by (simp_all add: mb_inv_def mb_ids_def b' stalled_ids_def mb_heap_inv_def mb_msgs_def heap_ids_def)
qed

lemma areNSlots_effect:
  assumes "mb_inv b"
  shows "mb_inv (snd (areNSlotsAvailable n t b))" and "mb_ids (snd (areNSlotsAvailable n t b)) = mb_ids b"
  using mb_inv_fields [OF assms, of "snd (areNSlotsAvailable n t b)"] by (simp_all add: areNSlotsAvailable_def mb_ids_def)

text \<open>Every call keeps the invariant, and what is in the buffer or was taken out is what was put in.\<close>

lemma mb_run_effect:
  assumes "mb_run bits (t, op) (R, b, out) = Inr (R', b', out')" and "mb_inv b"
  shows "mb_inv b' \<and> mb_ids b' + mset (map msg_id out') = mset (op_enqueues (t, op)) + mb_ids b + mset (map msg_id out)"
proof (cases op)
  case (Enqueue m delta)
  then obtain R1 evs where d: "mb_enqueue m t delta (R, b) = Inr (R1, b', evs)" and o: "out' = out" using assms by auto
  then show ?thesis using enqueue_effect [OF d assms(2)] Enqueue by simp
next
  case Dequeue
  then obtain delay m cb where d: "mb_dequeue t True b = Inr (delay, m, b', cb)" and o: "out' = out @ [m]"
    using assms by auto
  then show ?thesis using dequeue_effect(1,2) [OF d assms(2)] Dequeue by simp
qed (use assms in \<open>auto dest: recycle_effect delayHead_effect stallMessage_effect reanalyzeMessages_effect
    reanalyzeAll_effect simp: areNSlots_effect\<close>)

lemma mb_runs_effect:
  assumes "foldM (mb_run bits) ops (R, b, out) = Inr (R', b', out')" and "mb_inv b"
  shows "mb_inv b' \<and> mb_ids b' + mset (map msg_id out') =
    mset (concat (map op_enqueues ops)) + mb_ids b + mset (map msg_id out)"
  using assms
proof (induction ops arbitrary: R b out)
  case (Cons x ops)
  obtain t op where x: "x = (t, op)" by fastforce
  from Cons.prems(1) obtain R1 b1 out1 where s: "mb_run bits (t, op) (R, b, out) = Inr (R1, b1, out1)"
    and f: "foldM (mb_run bits) ops (R1, b1, out1) = Inr (R', b', out')" by (auto simp: x)
  note e = mb_run_effect [OF s Cons.prems(2)]
  from Cons.IH [OF f conjunct1 [OF e]] e show ?case by (simp add: x ac_simps)
qed simp

section \<open>The slots that are reported free\<close>

text \<open>
  \<open>now\<close> is the cycle of the question. If something was taken out in this cycle, the heap is not larger than
  it was at the first such call plus the messages entered since.
\<close>

definition slots_inv :: "tick \<Rightarrow> tick \<Rightarrow> message_buffer \<Rightarrow> bool" where
  "slots_inv now t b \<longleftrightarrow> mb_time_last_time_pop b \<le> t \<and> mb_time_last_time_enqueue b \<le> t \<and>
     (mb_time_last_time_pop b = now \<longrightarrow>
        length (mb_prio_heap b) \<le> mb_size_at_cycle_start b +
          (if mb_time_last_time_enqueue b = now then mb_msgs_this_cycle b else 0))"

lemma slots_inv_later: "slots_inv now t b \<Longrightarrow> t \<le> t' \<Longrightarrow> slots_inv now t' b"
  by (auto simp: slots_inv_def)

lemma slots_inv_answer:
  assumes "slots_inv now now b" and "mb_stall_map_size b = int (size (stalled_ids b))" and "0 < mb_max_size b"
    and "fst (areNSlotsAvailable n now b)"
  shows "length (mb_prio_heap b) + size (stalled_ids b) + n \<le> mb_max_size b"
proof -
  have "length (mb_prio_heap b) \<le> mb_current_size now b"
    using assms(1) by (auto simp: slots_inv_def mb_current_size_def split: if_splits)
  then show ?thesis using assms(2-4) by (simp add: areNSlotsAvailable_def split: if_splits)
qed

lemma slots_enqueue:
  assumes "mb_enqueue m t delta (R, b) = Inr (R', b', evs)" and "slots_inv now t b" and "t \<le> now"
  shows "slots_inv now t b' \<and> mb_max_size b' = mb_max_size b"
  using assms(1) by (rule mb_enqueueE) (use assms(2,3) in \<open>auto simp: slots_inv_def enq_counters_def split: if_splits\<close>)

lemma slots_pop_push:
  assumes "mb_inv b" and "mb_pop b = Inr (m, b1)" and "slots_inv now t b"
  shows "slots_inv now t b1 \<and> slots_inv now t (mb_push m' b1) \<and> mb_max_size b1 = mb_max_size b"
  using assms(3) mb_inv_pop [OF assms(1,2)] by (auto simp: slots_inv_def)

lemma slots_dequeue:
  assumes "mb_dequeue t decr b = Inr (delay, m, b', cb)" and "mb_inv b" and "slots_inv now t b" and "t \<le> now"
  shows "slots_inv now t b' \<and> mb_max_size b' = mb_max_size b"
  using assms(1)
proof (rule mb_dequeueE)
  fix m0 b1
  assume pop: "mb_pop b = Inr (m0, b1)"
    and b': "b' = b1\<lparr>mb_size_at_cycle_start := if mb_time_last_time_pop b < t then length (mb_prio_heap b) else mb_size_at_cycle_start b,
        mb_time_last_time_pop := max t (mb_time_last_time_pop b), mb_buf_msgs := if decr then mb_buf_msgs b - 1 else mb_buf_msgs b\<rparr>"
  show ?thesis using assms(3,4) mb_inv_pop [OF assms(2) pop] by (auto simp: slots_inv_def b' max_def)
qed

lemma slots_early:
  assumes "slots_inv now t b" and "t < now" and "mb_time_last_time_pop b' = mb_time_last_time_pop b"
    and "mb_time_last_time_enqueue b' = mb_time_last_time_enqueue b"
  shows "slots_inv now t b'"
  using assms by (simp add: slots_inv_def)

lemma reanalyze_times:
  "mb_reanalyzeMessages addr t b = Inr (b', evs) \<Longrightarrow> mb_time_last_time_pop b' = mb_time_last_time_pop b \<and>
     mb_time_last_time_enqueue b' = mb_time_last_time_enqueue b \<and> mb_max_size b' = mb_max_size b"
  "mb_reanalyzeAllMessages t b = Inr (b', evs) \<Longrightarrow> mb_time_last_time_pop b' = mb_time_last_time_pop b \<and>
     mb_time_last_time_enqueue b' = mb_time_last_time_enqueue b \<and> mb_max_size b' = mb_max_size b"
proof -
  have l: "mb_time_last_time_pop c' = mb_time_last_time_pop c \<and> mb_time_last_time_enqueue c' = mb_time_last_time_enqueue c \<and>
      mb_max_size c' = mb_max_size c" if "mb_reanalyzeList lt t (c, e) = Inr (c', e')" for lt c c' e e'
    using mb_reanalyzeListE [OF that] by simp
  then show "mb_reanalyzeMessages addr t b = Inr (b', evs) \<Longrightarrow> mb_time_last_time_pop b' = mb_time_last_time_pop b \<and>
     mb_time_last_time_enqueue b' = mb_time_last_time_enqueue b \<and> mb_max_size b' = mb_max_size b"
    by (fastforce simp: mb_reanalyzeMessages_def Let_def)
  have "mb_time_last_time_pop (fst s') = mb_time_last_time_pop b \<and> mb_time_last_time_enqueue (fst s') = mb_time_last_time_enqueue b \<and>
      mb_max_size (fst s') = mb_max_size b" if "foldM (mb_reanalyze_entry t) ps (b, []) = Inr s'" for ps s'
    by (rule foldM_invariant [OF that]) (auto simp: mb_reanalyze_entry_def Let_def split: prod.splits dest!: l)
  then show "mb_reanalyzeAllMessages t b = Inr (b', evs) \<Longrightarrow> mb_time_last_time_pop b' = mb_time_last_time_pop b \<and>
     mb_time_last_time_enqueue b' = mb_time_last_time_enqueue b \<and> mb_max_size b' = mb_max_size b"
    by (fastforce simp: mb_reanalyzeAllMessages_def)
qed

lemma slots_run:
  assumes r: "mb_run bits (t, op) (R, b, out) = Inr (R', b', out')" and inv: "mb_inv b" and s: "slots_inv now t0 b"
    and t: "t0 \<le> t" "t \<le> now" "t = now \<Longrightarrow> \<not> op_reanalyzes op"
  shows "slots_inv now t b' \<and> mb_max_size b' = mb_max_size b"
proof -
  have st: "slots_inv now t b" by (rule slots_inv_later [OF s t(1)])
  show ?thesis
  proof (cases op)
    case (Enqueue m delta)
    then show ?thesis using r slots_enqueue [OF _ st t(2)] by auto
  next
    case Dequeue
    then show ?thesis using r slots_dequeue [OF _ inv st t(2)] by auto
  next
    case (Recycle latency)
    then show ?thesis using r slots_pop_push [OF inv _ st] by (fastforce elim: mb_recycleE)
  next
    case (DelayHead delta)
    with r obtain m b1 evs where pop: "mb_pop b = Inr (m, b1)" and enq: "mb_enqueue m t delta (R, b1) = Inr (R', b', evs)"
      by (auto simp: mb_delayHead_def)
    show ?thesis using slots_enqueue [OF enq _ t(2)] slots_pop_push [OF inv pop st] by simp
  next
    case (Stall addr)
    with r obtain cb where "mb_stallMessage bits addr t b = Inr (b', cb)" by auto
    then show ?thesis
      by (rule mb_stallMessageE) (use slots_dequeue [OF _ inv st t(2)] in \<open>fastforce simp: slots_inv_def\<close>)
  next
    case (Slots n)
    then have "b' = b \<or> b' = b\<lparr>mb_not_avail_count := mb_not_avail_count b + 1\<rparr>"
      using r by (auto simp: areNSlotsAvailable_def)
    then show ?thesis using st by (auto simp: slots_inv_def)
  next
    case (Reanalyze addr)
    then have "t < now" using t by (auto simp: less_le)
    then show ?thesis using r Reanalyze reanalyze_times(1) slots_early [OF st] by auto
  next
    case ReanalyzeAll
    then have "t < now" using t by (auto simp: less_le)
    then show ?thesis using r ReanalyzeAll reanalyze_times(2) slots_early [OF st] by auto
  qed
qed

lemma slots_runs:
  assumes "foldM (mb_run bits) ops (R, b, out) = Inr (R', b', out')" and "mb_inv b" and "slots_inv now t0 b" and "t0 \<le> now"
    and "sorted (map fst ops)" and "\<forall>(t, op) \<in> set ops. t0 \<le> t \<and> t \<le> now \<and> (t = now \<longrightarrow> \<not> op_reanalyzes op)"
  shows "slots_inv now now b' \<and> mb_max_size b' = mb_max_size b"
  using assms
proof (induction ops arbitrary: R b out t0)
  case Nil
  then show ?case using slots_inv_later by auto
next
  case (Cons x ops)
  obtain t op where x: "x = (t, op)" by fastforce
  from Cons.prems(1) obtain R1 b1 out1 where s: "mb_run bits (t, op) (R, b, out) = Inr (R1, b1, out1)"
    and f: "foldM (mb_run bits) ops (R1, b1, out1) = Inr (R', b', out')" by (auto simp: x)
  have t: "t0 \<le> t" "t \<le> now" "t = now \<Longrightarrow> \<not> op_reanalyzes op" using Cons.prems(6) x by auto
  have rest: "\<forall>(u, op) \<in> set ops. t \<le> u \<and> u \<le> now \<and> (u = now \<longrightarrow> \<not> op_reanalyzes op)" "sorted (map fst ops)"
    using Cons.prems(5,6) x by auto
  note e = slots_run [OF s Cons.prems(2,3) t]
  from Cons.IH [OF f _ conjunct1 [OF e] t(2) rest(2,1)] e mb_run_effect [OF s Cons.prems(2)] show ?case by auto
qed

text \<open>
  Messages that are put back after something was taken out in the same cycle: the check sees them neither in the
  size of the cycle's start nor in the stall map.
\<close>

lemma reanalyze_slots:
  assumes "mb_reanalyzeMessages addr now b = Inr (b', evs)" and "now \<le> mb_time_last_time_pop b" and "0 < mb_max_size b"
  shows "fst (areNSlotsAvailable (n + length (map_get [] addr (mb_stall_msg_map b))) now b') = fst (areNSlotsAvailable n now b)"
proof -
  define lt where "lt = map_get [] addr (mb_stall_msg_map b)"
  from assms(1) obtain b2 where
    r: "mb_reanalyzeList lt now (b\<lparr>mb_stall_map_size := mb_stall_map_size b - int (length lt)\<rparr>, []) = Inr (b2, evs)"
    and b': "b' = b2\<lparr>mb_stall_msg_map := map_erase addr (mb_stall_msg_map b2)\<rparr>"
    by (auto simp: mb_reanalyzeMessages_def Let_def lt_def)
  have "mb_stall_map_size b' = mb_stall_map_size b - int (length lt)" "mb_max_size b' = mb_max_size b"
    "mb_current_size now b' = mb_current_size now b"
    using assms(2) by (simp_all add: b' mb_reanalyzeListE [OF r] mb_current_size_def)
  then show ?thesis using assms(3) by (auto simp: areNSlotsAvailable_def lt_def)
qed

lemma mb_run_max_size: "mb_run bits (t, op) (R, b, out) = Inr (R', b', out') \<Longrightarrow> mb_max_size b' = mb_max_size b"
  by (cases op) (auto dest: reanalyze_times simp: areNSlotsAvailable_def mb_delayHead_def enq_counters_def
    elim!: mb_enqueueE mb_dequeueE mb_recycleE mb_stallMessageE mb_popE)

lemma mb_runs_max_size:
  assumes "foldM (mb_run bits) ops (R, b, out) = Inr (R', b', out')"
  shows "mb_max_size b' = mb_max_size b"
proof -
  have "mb_max_size (fst (snd (R', b', out'))) = mb_max_size b"
    by (rule foldM_invariant [OF assms]) (auto dest: mb_run_max_size)
  then show ?thesis by simp
qed

section \<open>The order in which messages leave\<close>

text \<open>Taking \<open>n\<close> messages from the front, one after the other.\<close>

fun take_messages :: "nat \<Rightarrow> message_buffer \<Rightarrow> message list res" where
  "take_messages 0 b = Inr []"
| "take_messages (Suc n) b = bnd (mb_pop b) (\<lambda>(m, b'). bnd (take_messages n b') (\<lambda>ms. Inr (m # ms)))"

lemma take_messages_drain: "take_messages n b = mbuf.drain n b"
  by (induction n arbitrary: b) simp_all

lemma take_messages_sorted:
  assumes "mb_heap_inv b"
  shows "\<exists>ms. take_messages (length (mb_prio_heap b)) b = Inr ms \<and> mset ms = mb_msgs b \<and> sorted (map msg_key ms)"
  using mbuf.drain_sorted [OF assms] by (simp add: take_messages_drain mb_msgs_def)

lemma sorted_unique:
  fixes k :: "'a \<Rightarrow> 'k::linorder"
  assumes "sorted_wrt (<) (map k xs)" and "sorted (map k ys)" and "mset xs = mset ys"
  shows "xs = ys"
proof (rule map_inj_on)
  have s: "sorted (map k xs)" "distinct (map k xs)" using assms(1) by (simp_all add: strict_sorted_iff)
  have "mset (map k xs) = mset (map k ys)" using assms(3) by simp
  then show "map k xs = map k ys" using s(1) assms(2) by (metis properties_for_sort)
  have "set xs = set ys" by (rule mset_eq_setD [OF assms(3)])
  then show "inj_on k (set xs \<union> set ys)" using s(2) by (simp add: distinct_map)
qed

text \<open>A buffer whose messages, in the order of their arrival, are \<open>L\<close>.\<close>

definition fifo_inv :: "message list \<Rightarrow> message_buffer \<Rightarrow> bool" where
  "fifo_inv L b \<longleftrightarrow> mb_heap_inv b \<and> mset L = mb_msgs b \<and> sorted_wrt (<) (map msg_key L) \<and>
     (\<forall>m \<in> set L. msg_LastEnqueueTime m \<le> mb_last_arrival_time b \<and> msg_counter m \<le> mb_msg_counter b) \<and> mb_strict_fifo b"

lemma fifo_enqueue:
  assumes e: "mb_enqueue m now delta (R, b) = Inr (R', b', evs)" and f: "fifo_inv L b" and w: "\<not> rs_warmup_enabled R"
  shows "\<exists>m'. msg_id m' = msg_id m \<and> fifo_inv (L @ [m']) b'" and "\<not> rs_warmup_enabled R'"
proof -
  from e obtain arrival last d where a: "mb_arrival R now delta b = (arrival, last, R')"
    and le: "mb_strict_fifo b \<Longrightarrow> last \<le> arrival"
    and b': "b' = (mb_push (m\<lparr>msg_DelayedTicks := d, msg_LastEnqueueTime := arrival, msg_counter := mb_msg_counter b + 1\<rparr>)
       (enq_counters now (if rs_warmup_enabled R then last else arrival) b))\<lparr>mb_buf_msgs := mb_buf_msgs b + 1\<rparr>"
    by (elim mb_enqueueE) blast
  have "mb_last_arrival_time b \<le> last" using a by (auto simp: mb_arrival_def split_beta Let_def split: if_splits)
  then have la: "mb_last_arrival_time b \<le> arrival" using le f by (simp add: fifo_inv_def)
  show "\<not> rs_warmup_enabled R'" using a w
    by (auto simp: mb_arrival_def random_time_def random_in_def Let_def split: if_splits)
  let ?m = "m\<lparr>msg_DelayedTicks := d, msg_LastEnqueueTime := arrival, msg_counter := mb_msg_counter b + 1\<rparr>"
  let ?c = "enq_counters now arrival b"
  have c: "mb_prio_heap ?c = mb_prio_heap b" "mb_msg_counter ?c = Suc (mb_msg_counter b)" "mb_last_arrival_time ?c = arrival"
    "mb_strict_fifo ?c = mb_strict_fifo b" by (simp_all add: enq_counters_def)
  have h: "mb_heap_inv b' \<and> mb_msgs b' = add_mset ?m (mb_msgs b)"
    using f w mbuf.invar_ins [of ?c ?m] mbuf.elems_ins [of ?m ?c] heap_eq_inv [OF c(1)]
      heap_eq_inv [of b' "mb_push ?m ?c"] by (simp add: b' fifo_inv_def)
  have "msg_key x < msg_key ?m" if "x \<in> set L" for x
    using f that la by (force simp: fifo_inv_def less_prod_def)
  then have "fifo_inv (L @ [?m]) b'"
    using f h w c la by (fastforce simp: fifo_inv_def sorted_wrt_append b' intro: order_trans)
  then show "\<exists>m'. msg_id m' = msg_id m \<and> fifo_inv (L @ [m']) b'" by (intro exI [of _ ?m]) simp
qed

lemma fifo_dequeue:
  assumes d: "mb_dequeue now decr b = Inr (delay, m, b', cb)" and f: "fifo_inv L b"
  shows "\<exists>x L'. L = x # L' \<and> msg_id m = msg_id x \<and> fifo_inv L' b'"
proof -
  from d obtain x b1 where pop: "mb_pop b = Inr (x, b1)" and m: "msg_id m = msg_id x"
    and b': "b' = b1\<lparr>mb_size_at_cycle_start := if mb_time_last_time_pop b < now then length (mb_prio_heap b) else mb_size_at_cycle_start b,
        mb_time_last_time_pop := max now (mb_time_last_time_pop b), mb_buf_msgs := if decr then mb_buf_msgs b - 1 else mb_buf_msgs b\<rparr>"
    by (rule mb_dequeueE) simp
  have e: "add_mset x (mb_msgs b1) = mset L" using mbuf.take_Inr [OF pop] f by (simp add: fifo_inv_def)
  then have "x \<in># mset L" by (metis union_single_eq_member)
  then have x: "x \<in> set L" by simp
  then obtain y L' where L: "L = y # L'" by (cases L) auto
  have "y \<in># mb_msgs b" using f L by (metis fifo_inv_def list.set_intros(1) set_mset_mset)
  then have "msg_key x \<le> msg_key y" using mbuf.take_least [OF _ pop] f by (simp add: fifo_inv_def)
  then have "y = x" using f x by (auto simp: fifo_inv_def L)
  have "b1 = b\<lparr>mb_prio_heap := mb_prio_heap b1\<rparr>" using pop by (auto elim: mb_popE)
  then have "mb_last_arrival_time b1 = mb_last_arrival_time b" "mb_msg_counter b1 = mb_msg_counter b" "mb_strict_fifo b1 = mb_strict_fifo b"
    by (metis message_buffer.select_convs message_buffer.surjective message_buffer.update_convs(2))+
  moreover have "mset L' = mb_msgs b1" using e \<open>y = x\<close> by (simp add: L)
  ultimately have "fifo_inv L' b1" using f mbuf.invar_take [OF _ pop] by (simp add: fifo_inv_def L)
  then have "fifo_inv L' b'" using heap_eq_inv [of b' b1] by (simp add: fifo_inv_def b')
  then show ?thesis using L m \<open>y = x\<close> by blast
qed

text \<open>From the last arrival time on the front can be taken.\<close>

lemma fifo_ready:
  assumes "fifo_inv (x # L) b" and "mb_last_arrival_time b \<le> now"
  shows "\<exists>delay m b' cb. mb_dequeue now decr b = Inr (delay, m, b', cb)"
proof -
  have "mb_msgs b \<noteq> {#}" using assms(1) by (metis fifo_inv_def mset_zero_iff list.distinct(1))
  then obtain h hs where h: "mb_prio_heap b = h # hs" by (cases "mb_prio_heap b") (auto simp: mb_msgs_def)
  then have "h \<in> set (x # L)" using assms(1) by (metis fifo_inv_def list.set_intros(1) mb_msgs_def set_mset_mset)
  then have "msg_LastEnqueueTime h \<le> now" using assms by (force simp: fifo_inv_def)
  then show ?thesis by (simp add: mb_dequeue_def mb_isReady_def mb_peekMsgPtr_def updateDelayedTicks_def mb_pop_def h Let_def)
qed

fun fifo_op :: "buffer_op \<Rightarrow> bool" where
  "fifo_op (Enqueue m delta) = True"
| "fifo_op Dequeue = True"
| "fifo_op (Slots n) = True"
| "fifo_op _ = False"

lemma fifo_run:
  assumes "mb_run bits (t, op) (R, b, out) = Inr (R', b', out')" and "fifo_inv L b" and "\<not> rs_warmup_enabled R" and "fifo_op op"
  shows "\<exists>L'. fifo_inv L' b' \<and> map msg_id (out' @ L') = map msg_id (out @ L) @ op_enqueues (t, op) \<and> \<not> rs_warmup_enabled R'"
proof (cases op)
  case (Enqueue m delta)
  then obtain evs where e: "mb_enqueue m t delta (R, b) = Inr (R', b', evs)" and o: "out' = out" using assms(1) by auto
  from fifo_enqueue [OF e assms(2,3)] show ?thesis using Enqueue o by auto
next
  case Dequeue
  then obtain delay m cb where d: "mb_dequeue t True b = Inr (delay, m, b', cb)" and o: "out' = out @ [m]" "R' = R"
    using assms(1) by auto
  from fifo_dequeue [OF d assms(2)] show ?thesis using Dequeue o assms(3) by fastforce
next
  case (Slots n)
  then have o: "out' = out" "R' = R" and "b' = b \<or> b' = b\<lparr>mb_not_avail_count := mb_not_avail_count b + 1\<rparr>"
    using assms(1) by (auto simp: areNSlotsAvailable_def)
  then have "fifo_inv L b'" using assms(2) heap_eq_inv [of b' b] by (auto simp: fifo_inv_def)
  then show ?thesis using Slots o assms(3) by auto
qed (use assms(4) in auto)

lemma fifo_runs:
  assumes "foldM (mb_run bits) ops (R, b, out) = Inr (R', b', out')" and "fifo_inv L b" and "\<not> rs_warmup_enabled R"
    and "\<forall>(t, op) \<in> set ops. fifo_op op"
  shows "\<exists>L'. fifo_inv L' b' \<and> map msg_id (out' @ L') = map msg_id (out @ L) @ concat (map op_enqueues ops)"
  using assms
proof (induction ops arbitrary: R b out L)
  case (Cons x ops)
  obtain t op where x: "x = (t, op)" by fastforce
  from Cons.prems(1) obtain R1 b1 out1 where s: "mb_run bits (t, op) (R, b, out) = Inr (R1, b1, out1)"
    and f: "foldM (mb_run bits) ops (R1, b1, out1) = Inr (R', b', out')" by (auto simp: x)
  from Cons.prems(4) have "fifo_op op" by (auto simp: x)
  from fifo_run [OF s Cons.prems(2,3) this] obtain L1 where L1: "fifo_inv L1 b1" "\<not> rs_warmup_enabled R1"
    "map msg_id (out1 @ L1) = map msg_id (out @ L) @ op_enqueues (t, op)" by blast
  from Cons.IH [OF f L1(1,2)] Cons.prems(4) L1(3) show ?case by (auto simp: x)
qed auto

text \<open>
  Messages that come back from the stall map: what was due goes first, then they, in the order in which
  they were stalled, then the rest.
\<close>

lemma sorted_split3:
  fixes k :: "'a \<Rightarrow> 'k::linorder"
  assumes "sorted (map k xs)" and "u \<le> v"
  shows "xs = filter (\<lambda>x. k x \<le> u) xs @ filter (\<lambda>x. u < k x \<and> k x \<le> v) xs @ filter (\<lambda>x. v < k x) xs"
  using assms
proof (induction xs)
  case (Cons x xs)
  have "\<forall>y \<in> set xs. k x \<le> k y" using Cons.prems(1) by simp
  then have "u < k x \<Longrightarrow> filter (\<lambda>y. k y \<le> u) xs = []" "v < k x \<Longrightarrow> filter (\<lambda>y. u < k y \<and> k y \<le> v) xs = []"
    by (auto simp: filter_empty_conv dest: order.strict_trans2 leD)
  then show ?case using Cons by (auto simp: not_le)
qed simp

lemma reanalyzeMessages_order:
  assumes r: "mb_reanalyzeMessages addr now b = Inr (b', evs)" and inv: "mb_inv b"
  shows "\<exists>pre post. take_messages (length (mb_prio_heap b')) b' =
      Inr (pre @ requeued now (mb_msg_counter b) (map_get [] addr (mb_stall_msg_map b)) @ post) \<and>
    mset (pre @ post) = mb_msgs b \<and>
    (\<forall>m \<in> set pre. msg_LastEnqueueTime m \<le> now) \<and> (\<forall>m \<in> set post. now < msg_LastEnqueueTime m)"
proof -
  define lt where "lt = map_get [] addr (mb_stall_msg_map b)"
  define ms where "ms = requeued now (mb_msg_counter b) lt"
  from r obtain b2 where l: "mb_reanalyzeList lt now (b\<lparr>mb_stall_map_size := mb_stall_map_size b - int (length lt)\<rparr>, []) = Inr (b2, evs)"
    and b': "b' = b2\<lparr>mb_stall_msg_map := map_erase addr (mb_stall_msg_map b2)\<rparr>"
    by (auto simp: mb_reanalyzeMessages_def Let_def lt_def)
  have msgs: "mb_msgs b' = mset ms + mb_msgs b"
    using mb_reanalyzeListE [OF l] by (simp add: b' ms_def mb_msgs_def fold_push(3) [unfolded mb_msgs_def])
  have old: "\<forall>m \<in># mb_msgs b. msg_counter m \<le> mb_msg_counter b" using inv by (simp add: mb_inv_def)
  have "mb_heap_inv b'" using reanalyzeMessages_effect(1) [OF r inv] by (simp add: mb_inv_def)
  then obtain xs where xs: "take_messages (length (mb_prio_heap b')) b' = Inr xs" "mset xs = mb_msgs b'" "sorted (map msg_key xs)"
    using take_messages_sorted by blast
  let ?u = "(now, mb_msg_counter b)" and ?v = "(now, mb_msg_counter b + length lt)"
  let ?mid = "\<lambda>m. ?u < msg_key m \<and> msg_key m \<le> ?v"
  have newk: "?mid m" "?u < msg_key m" "msg_key m \<le> ?v" if "m \<in> set ms" for m
    using requeued_keys [of m now "mb_msg_counter b" lt] that by (auto simp: ms_def less_prod_def less_eq_prod_def)
  have oldk: "\<not> ?mid m" "msg_key m \<le> ?u \<longleftrightarrow> msg_LastEnqueueTime m \<le> now" "?v < msg_key m \<longleftrightarrow> now < msg_LastEnqueueTime m"
    if "m \<in># mb_msgs b" for m
    using old that by (fastforce simp: less_prod_def less_eq_prod_def)+
  have "filter_mset ?mid (mb_msgs b) = {#}" "filter_mset ?mid (mset ms) = mset ms"
    using newk(1) oldk(1) by (auto simp: filter_mset_eq_conv filter_mset_False)
  then have "mset (filter ?mid xs) = mset ms" unfolding mset_filter xs(2) msgs by simp
  then have mid: "filter ?mid xs = ms"
    using sorted_unique [of msg_key ms "filter ?mid xs"] requeued_sorted [of now "mb_msg_counter b" lt] sorted_filter [OF xs(3)]
    by (simp add: ms_def)
  define pre where "pre = filter (\<lambda>m. msg_key m \<le> ?u) xs"
  define post where "post = filter (\<lambda>m. ?v < msg_key m) xs"
  have split: "xs = pre @ ms @ post"
    using sorted_split3 [OF xs(3), of ?u ?v] mid by (simp add: pre_def post_def less_eq_prod_def)
  have "mset pre + mset post + mset ms = mb_msgs b + mset ms"
    using xs(2) msgs split by (simp add: ac_simps)
  then have m: "mset (pre @ post) = mb_msgs b" by simp
  have "\<forall>m \<in> set pre. m \<in># mb_msgs b \<and> msg_key m \<le> ?u" "\<forall>m \<in> set post. m \<in># mb_msgs b \<and> ?v < msg_key m"
    unfolding m [symmetric] by (simp_all add: pre_def post_def)
  then have "\<forall>m \<in> set pre. msg_LastEnqueueTime m \<le> now" "\<forall>m \<in> set post. now < msg_LastEnqueueTime m"
    using oldk(2,3) by blast+
  then show ?thesis using xs(1) split m unfolding ms_def lt_def by metis
qed

end
