(* ===== verification/Interface_Correct.thy ===== *)
theory Interface_Correct
  imports Flow_Balance Message_Buffer_Correct
begin

text \<open>
  What a wakeup of a network interface does to the two ends it serves: it hands at most one message to the protocol
  and returns one credit, with the free signal, for it; while a drain holds the lock it takes no message from the
  protocol; and a message with several destinations is sent to each of them exactly once, over as many wakeups as
  it takes to find virtual channels.
\<close>

section \<open>One ejection per wakeup\<close>

abbreviation nx_credits :: "ni_ctx \<Rightarrow> credit flit_buffer" where
  "nx_credits cx \<equiv> ni_outCreditQueue (nx_ni cx)"

text \<open>The messages that the protocol finds in its buffers, for every virtual network.\<close>

definition node_msgs :: "node_ptr \<Rightarrow> message multiset option list" where
  "node_msgs bs = map (map_option mb_msgs) bs"

text \<open>The flits that can leave in a wakeup: those that were stalled, and the one that the link delivers.\<close>

definition can_leave :: "network_interface \<Rightarrow> garnet_network \<Rightarrow> flit \<Rightarrow> bool" where
  "can_leave n net f \<longleftrightarrow> f \<in> set (ni_stall_queue n) \<or>
     (\<exists>g l'. ni_inNetLink n < length (gn_networklinks net) \<and>
        isReady (nl_linkBuffer (gn_networklinks net ! ni_inNetLink n)) (gn_cycle net) \<and>
        consumeLink (gn_networklinks net ! ni_inNetLink n) = Inr (g, l') \<and> f = set_dequeue_time (gn_cycle net) g)"

definition none_ejected :: "ni_ctx \<Rightarrow> ni_ctx \<Rightarrow> bool" where
  "none_ejected cx cx' \<longleftrightarrow> nx_stats cx' = nx_stats cx \<and> nx_credits cx' = nx_credits cx \<and> nx_msgs cx' = nx_msgs cx \<and>
     node_msgs (nx_outNode cx') = node_msgs (nx_outNode cx)"

definition one_ejected :: "ni_params \<Rightarrow> flit \<Rightarrow> ni_ctx \<Rightarrow> ni_ctx \<Rightarrow> bool" where
  "one_ejected P f cx cx' \<longleftrightarrow> (\<exists>net k m d a c M. incrementStats P f net (nx_stats cx) = Inr (nx_stats cx') \<and>
     nx_credits cx' = insert_flit (Credit_new (nc_fresh_credit (gn_config (nx_net cx))) (fl_vc f) True (nx_now cx)) (nx_credits cx) \<and>
     fl_msg_ptr f = Some k \<and> nx_msgs cx k = Some m \<and> nx_msgs cx' = (nx_msgs cx)(k := None) \<and>
     0 \<le> fl_vnet f \<and> nat (fl_vnet f) < length (nx_outNode cx) \<and> node_msgs (nx_outNode cx) ! nat (fl_vnet f) = Some M \<and>
     node_msgs (nx_outNode cx') = (node_msgs (nx_outNode cx))[nat (fl_vnet f) :=
       Some (add_mset (m\<lparr>msg_DelayedTicks := d, msg_LastEnqueueTime := a, msg_counter := c\<rparr>) M)])"

lemma none_ejected_refl [simp]: "none_ejected cx cx"
  by (simp add: none_ejected_def)

lemma none_ejected_trans: "none_ejected a b \<Longrightarrow> none_ejected b c \<Longrightarrow> none_ejected a c"
  by (simp add: none_ejected_def)

lemma none_ejected_length: "none_ejected a b \<Longrightarrow> length (nx_outNode b) = length (nx_outNode a)"
  unfolding none_ejected_def node_msgs_def by (metis length_map)

lemma one_ejected_before:
  "none_ejected a b \<Longrightarrow> ctx_frame b = ctx_frame a \<Longrightarrow> one_ejected P f b c \<Longrightarrow> one_ejected P f a c"
  using none_ejected_length [of a b] by (simp add: none_ejected_def one_ejected_def ctx_frame_def)

lemma one_ejected_after: "one_ejected P f a b \<Longrightarrow> none_ejected b c \<Longrightarrow> one_ejected P f a c"
  by (auto simp: none_ejected_def one_ejected_def)

lemma out_node_Inr: "out_node cx v = Inr b \<longleftrightarrow> 0 \<le> v \<and> nat v < length (nx_outNode cx) \<and> nx_outNode cx ! nat v = Some b"
  by (auto simp: out_node_def at_eq_Inr at_def split: option.splits)

text \<open>Putting back a buffer with the same messages is no ejection.\<close>

lemma put_out_node_same:
  assumes "out_node cx v = Inr b" and "mb_prio_heap b' = mb_prio_heap b"
  shows "node_msgs (nx_outNode (put_out_node v b' cx)) = node_msgs (nx_outNode cx)" and "none_ejected cx (put_out_node v b' cx)"
proof -
  show m: "node_msgs (nx_outNode (put_out_node v b' cx)) = node_msgs (nx_outNode cx)"
    using assms by (auto simp: out_node_Inr node_msgs_def put_out_node_def map_update mb_msgs_def intro!: list_update_same_conv [THEN iffD2])
  then show "none_ejected cx (put_out_node v b' cx)" by (simp add: none_ejected_def) (simp add: put_out_node_def)
qed

lemma slot_available_none:
  assumes "slot_available P v cx = Inr (free, cx')"
  shows "none_ejected cx cx'" "ctx_frame cx' = ctx_frame cx" "\<exists>outs. cx' = cx\<lparr>nx_outNode := outs\<rparr>"
proof -
  from assms obtain b b' where b: "out_node cx v = Inr b" and cx': "cx' = put_out_node v b' cx" and "mb_prio_heap b' = mb_prio_heap b"
    by (auto simp: slot_available_def areNSlotsAvailable_def split: if_splits prod.splits)
  then show "none_ejected cx cx'" by (simp add: put_out_node_same(2))
  show "ctx_frame cx' = ctx_frame cx" "\<exists>outs. cx' = cx\<lparr>nx_outNode := outs\<rparr>" by (auto simp: cx' put_out_node_def ctx_frame_def)
qed

lemma eject_flit_one:
  assumes "eject_flit P f cx = Inr cx'"
  shows "one_ejected P f cx cx'"
  using assms
proof (rule eject_flit_effect)
  fix b k m R b' reqs st
  assume b: "out_node cx (fl_vnet f) = Inr b" and m: "fl_msg_ptr f = Some k" "nx_msgs cx k = Some m"
    and e: "mb_enqueue m (curTime P cx) (cyclesToTicks P 1) (nx_ruby cx, b) = Inr (R, b', reqs)"
    and st: "incrementStats P f (nx_net cx) (nx_stats cx) = Inr st"
    and cx': "cx' = (put_out_node (fl_vnet f) b' cx)\<lparr>nx_ni := sendCredit (gn_config (nx_net cx)) (nx_now cx) f True (nx_ni cx),
       nx_ruby := R, nx_msgs := (nx_msgs cx)(k := None), nx_stats := st, nx_requests := nx_requests cx @ reqs\<rparr>"
  from e obtain a last d where
    b': "b' = (mb_push (m\<lparr>msg_DelayedTicks := d, msg_LastEnqueueTime := a, msg_counter := mb_msg_counter b + 1\<rparr>)
       (enq_counters (curTime P cx) (if rs_warmup_enabled (nx_ruby cx) then last else a) b))\<lparr>mb_buf_msgs := mb_buf_msgs b + 1\<rparr>"
    by (rule mb_enqueueE)
  then have "mb_msgs b' = add_mset (m\<lparr>msg_DelayedTicks := d, msg_LastEnqueueTime := a, msg_counter := mb_msg_counter b + 1\<rparr>) (mb_msgs b)"
    by (simp add: mb_msgs_def mb_push_def enq_counters_def)
  then have "node_msgs (nx_outNode cx') = (node_msgs (nx_outNode cx))[nat (fl_vnet f) :=
      Some (add_mset (m\<lparr>msg_DelayedTicks := d, msg_LastEnqueueTime := a, msg_counter := mb_msg_counter b + 1\<rparr>) (mb_msgs b))]"
    by (simp add: cx' put_out_node_def node_msgs_def map_update)
  moreover have "node_msgs (nx_outNode cx) ! nat (fl_vnet f) = Some (mb_msgs b)" "0 \<le> fl_vnet f" "nat (fl_vnet f) < length (nx_outNode cx)"
    using b by (simp_all add: out_node_Inr node_msgs_def)
  moreover have "nx_stats cx' = st" "nx_msgs cx' = (nx_msgs cx)(k := None)"
    "nx_credits cx' = insert_flit (Credit_new (nc_fresh_credit (gn_config (nx_net cx))) (fl_vc f) True (nx_now cx)) (nx_credits cx)"
    by (simp_all add: cx' sendCredit_def)
  ultimately show ?thesis using st m unfolding one_ejected_def by blast
qed

lemma unstall_none:
  assumes "unstall q v cx = Inr cx'"
  shows "none_ejected cx cx'"
proof -
  from assms obtain cs where "cx' = cx\<lparr>nx_ni := (nx_ni cx)\<lparr>ni_stall_queue := q, ni_stall_count := cs\<rparr>\<rparr> \<or>
      (\<exists>b. out_node (cx\<lparr>nx_ni := (nx_ni cx)\<lparr>ni_stall_queue := q, ni_stall_count := cs\<rparr>\<rparr>) v = Inr b \<and>
        cx' = put_out_node v (unregisterDequeueCallback b) (cx\<lparr>nx_ni := (nx_ni cx)\<lparr>ni_stall_queue := q, ni_stall_count := cs\<rparr>\<rparr>))"
    unfolding unstall_def Let_def by (elim bnd_InrE) (fastforce split: if_splits)
  moreover have n: "none_ejected cx (cx\<lparr>nx_ni := (nx_ni cx)\<lparr>ni_stall_queue := q, ni_stall_count := cs\<rparr>\<rparr>)" by (simp add: none_ejected_def)
  ultimately show ?thesis using none_ejected_trans [OF n put_out_node_same(2)] by (auto simp: unregisterDequeueCallback_def)
qed

lemma stall_scan_ejected:
  "stall_scan P pre q cx = Inr (b, cx') \<Longrightarrow>
    if b then \<exists>f \<in> set q. one_ejected P f cx cx' else none_ejected cx cx' \<and> (\<exists>outs. cx' = cx\<lparr>nx_outNode := outs\<rparr>)"
proof (induction P pre q cx rule: stall_scan.induct)
  case (2 P pre f post cx)
  from "2.prems" obtain free cx1 where sl: "slot_available P (fl_vnet f) cx = Inr (free, cx1)" by auto
  note n1 = slot_available_none [OF sl]
  show ?case
  proof (cases free)
    case True
    then obtain cx2 where "eject_flit P f cx1 = Inr cx2" "unstall (pre @ post) (fl_vnet f) cx2 = Inr cx'" and b: "b"
      using "2.prems" sl by auto
    then have "one_ejected P f cx1 cx'" by (blast intro: one_ejected_after eject_flit_one unstall_none)
    with n1 b show ?thesis by (auto intro: one_ejected_before)
  next
    case False
    then have "if b then \<exists>f \<in> set post. one_ejected P f cx1 cx' else none_ejected cx1 cx' \<and> (\<exists>outs. cx' = cx1\<lparr>nx_outNode := outs\<rparr>)"
      using 2 sl by simp
    then show ?thesis using n1 one_ejected_before none_ejected_trans by (cases b) fastforce+
  qed
next
  case (1 P pre cx)
  then show ?case by (auto intro!: exI [of _ "nx_outNode cx"])
qed

lemma stall_flit_none:
  assumes "stall_flit f cx = Inr cx'"
  shows "none_ejected cx cx'"
proof -
  from assms obtain n b where b: "out_node (cx\<lparr>nx_ni := n\<rparr>) (fl_vnet f) = Inr b" and n: "ni_outCreditQueue n = nx_credits cx"
    and cx': "cx' = put_out_node (fl_vnet f) (registerDequeueCallback (ni_id (nx_ni cx)) b) (cx\<lparr>nx_ni := n\<rparr>)"
    unfolding stall_flit_def Let_def by (elim bnd_InrE) (fastforce)
  have "none_ejected cx (cx\<lparr>nx_ni := n\<rparr>)" by (simp add: none_ejected_def n)
  from none_ejected_trans [OF this put_out_node_same(2) [OF b]] show ?thesis by (simp add: cx' registerDequeueCallback_def)
qed

lemma receive_flit_ejected:
  assumes "receive_flit P e f cx = Inr cx'"
  shows "none_ejected cx cx' \<or> (\<not> e \<and> one_ejected P f cx cx')"
proof (cases e)
  case True
  then have "stall_flit f cx = Inr cx'" using assms by (auto simp: receive_flit_def split: if_splits)
  then show ?thesis by (blast intro: stall_flit_none)
next
  case False
  with assms obtain free cx1 where sl: "slot_available P (fl_vnet f) cx = Inr (free, cx1)"
    and r: "if free then eject_flit P f cx1 = Inr cx' else stall_flit f cx1 = Inr cx'"
    by (auto simp: receive_flit_def split: if_splits)
  note n1 = slot_available_none [OF sl]
  show ?thesis using r False n1 one_ejected_before none_ejected_trans eject_flit_one stall_flit_none by (metis (full_types))
qed

lemma ni_read_link_ejected:
  assumes "ni_read_link P e cx = Inr cx'"
  shows "none_ejected cx cx' \<or> (\<not> e \<and> (\<exists>f. can_leave (nx_ni cx) (nx_net cx) f \<and> one_ejected P f cx cx'))"
proof (cases "cx' = cx")
  case False
  let ?k = "ni_inNetLink (nx_ni cx)" and ?ls = "gn_networklinks (nx_net cx)"
  from False assms obtain g l' where k: "?k < length ?ls" "isReady (nl_linkBuffer (?ls ! ?k)) (nx_now cx)"
      "consumeLink (?ls ! ?k) = Inr (g, l')" and
    r: "receive_flit P e (set_dequeue_time (nx_now cx) g) (cx\<lparr>nx_net := (nx_net cx)\<lparr>gn_networklinks := ?ls[?k := l']\<rparr>\<rparr>) = Inr cx'"
    by (auto simp: ni_read_link_def Let_def at_eq_Inr split: if_splits)
  have "can_leave (nx_ni cx) (nx_net cx) (set_dequeue_time (nx_now cx) g)" using k by (auto simp: can_leave_def)
  moreover have "none_ejected (cx\<lparr>nx_net := (nx_net cx)\<lparr>gn_networklinks := ls\<rparr>\<rparr>) cx' = none_ejected cx cx'"
    "one_ejected P f (cx\<lparr>nx_net := (nx_net cx)\<lparr>gn_networklinks := ls\<rparr>\<rparr>) cx' = one_ejected P f cx cx'" for ls f
    by (simp_all add: none_ejected_def one_ejected_def)
  ultimately show ?thesis using receive_flit_ejected [OF r] by blast
qed simp

lemma ni_read_credit_none: "ni_read_credit cx = Inr cx' \<Longrightarrow> none_ejected cx cx'"
  by (auto simp: ni_read_credit_def Let_def none_ejected_def split: if_splits)

section \<open>Injection and the protocol's side\<close>

text \<open>
  Injection changes neither the counters of received flits nor the credit queue, the buffers to the protocol or what
  waits to leave; and it changes no message that is in the network already.
\<close>

definition eject_view :: "ni_ctx \<Rightarrow> (nat list \<times> nat \<times> string list) \<times> credit flit_buffer \<times> node_ptr \<times> flit list \<times> nat \<times> flit_link list" where
  "eject_view cx = ((fs_flits_received (nx_stats cx), fs_marked_received (nx_stats cx), fs_exits (nx_stats cx)), nx_credits cx,
     nx_outNode cx, ni_stall_queue (nx_ni cx), ni_inNetLink (nx_ni cx), gn_networklinks (nx_net cx))"

definition keeps_msgs :: "ni_ctx \<Rightarrow> ni_ctx \<Rightarrow> bool" where
  "keeps_msgs cx cx' \<longleftrightarrow> nx_next_msg cx \<le> nx_next_msg cx' \<and> (\<forall>k < nx_next_msg cx. nx_msgs cx' k = nx_msgs cx k)"

lemma keeps_msgs_refl [simp]: "nx_next_msg cx' = nx_next_msg cx \<Longrightarrow> nx_msgs cx' = nx_msgs cx \<Longrightarrow> keeps_msgs cx cx'"
  by (simp add: keeps_msgs_def)

lemma keeps_msgs_trans: "keeps_msgs a b \<Longrightarrow> keeps_msgs b c \<Longrightarrow> keeps_msgs a c"
  by (simp add: keeps_msgs_def)

lemma count_injection_counts:
  assumes "count_injection f r s = Inr s'"
  shows "fs_flits_received s' = fs_flits_received s" "fs_marked_received s' = fs_marked_received s" "fs_exits s' = fs_exits s"
proof -
  from assms obtain s1 where "increment_injected_flits (fl_vnet f) (fl_marked f) r s = Inr s1"
    and "increment_injected_packets (fl_vnet f) (fl_marked f) s1 = Inr s' \<or> s' = s1"
    by (auto simp: count_injection_def split: if_splits)
  then show "fs_flits_received s' = fs_flits_received s" "fs_marked_received s' = fs_marked_received s" "fs_exits s' = fs_exits s"
    using injected_counts(2,3) update_counts(3) by (fastforce simp: counts_def)+
qed

lemma flitisize_dest_view:
  assumes "flitisize_dest P vnet multicast d (m, cx) = Inr (sent, m', cx')"
  shows "eject_view cx' = eject_view cx \<and> keeps_msgs cx cx'"
proof -
  from assms obtain v r n where n: "calculateVC P (nx_now cx) v (nx_ni cx) = Inr (r, n)"
    and c: "cx' = cx\<lparr>nx_ni := n\<rparr> \<or> (\<exists>vc dest. inject_flit P vnet vc d dest m (cx\<lparr>nx_ni := n\<rparr>) = Inr cx')"
    by (fastforce simp: flitisize_dest_def split: option.splits)
  have q: "ni_outCreditQueue n = nx_credits cx" "ni_stall_queue n = ni_stall_queue (nx_ni cx)" "ni_inNetLink n = ni_inNetLink (nx_ni cx)"
    using calculateVC_frame [OF n] by auto
  from c show ?thesis
  proof
    assume "\<exists>vc dest. inject_flit P vnet vc d dest m (cx\<lparr>nx_ni := n\<rparr>) = Inr cx'"
    then obtain vc dest where "inject_flit P vnet vc d dest m (cx\<lparr>nx_ni := n\<rparr>) = Inr cx'" by blast
    then show ?thesis
    proof (cases rule: inject_flit_effect)
      case (1 f n' net st)
      then have "ni_outCreditQueue n' = nx_credits cx" "ni_stall_queue n' = ni_stall_queue (nx_ni cx)" "ni_inNetLink n' = ni_inNetLink (nx_ni cx)"
        using ni_put_flit_effect [OF 1(8)] q by auto
      moreover have "gn_networklinks net = gn_networklinks (nx_net cx)" using mark_flit_frame [OF 1(6)] by auto
      ultimately show ?thesis using count_injection_counts [OF 1(7)] by (simp add: eject_view_def keeps_msgs_def 1(9))
    qed
  qed (simp add: eject_view_def q)
qed

lemma flitisize_loop_view:
  "flitisize_loop P vnet multicast ds (m, cx) = Inr (sent, m', cx') \<Longrightarrow> eject_view cx' = eject_view cx \<and> keeps_msgs cx cx'"
proof (induction ds arbitrary: m cx)
  case (Cons d ds)
  then obtain s m1 cx1 where 1: "flitisize_dest P vnet multicast d (m, cx) = Inr (s, m1, cx1)"
    and "if s then flitisize_loop P vnet multicast ds (m1, cx1) = Inr (sent, m', cx') else cx' = cx1"
    by (auto split: if_splits)
  then show ?case using Cons.IH [of m1 cx1] flitisize_dest_view [OF 1] keeps_msgs_trans by (cases s) auto
qed simp

lemma ni_inject_vnet_view:
  assumes "ni_inject_vnet P vnet cx = Inr cx'"
  shows "eject_view cx' = eject_view cx \<and> keeps_msgs cx cx'"
proof (cases "cx' = cx")
  case False
  with assms obtain m all_sent m' cx1 where f: "flitisizeMessage P m vnet cx = Inr (all_sent, m', cx1)"
    and cx': "eject_view cx' = eject_view cx1" "keeps_msgs cx1 cx'"
    by (fastforce simp: ni_inject_vnet_def Let_def eject_view_def split: option.splits if_splits)
  from f have "eject_view cx1 = eject_view cx \<and> keeps_msgs cx cx1" unfolding flitisizeMessage_def Let_def by (rule flitisize_loop_view)
  then show ?thesis using cx' keeps_msgs_trans by auto
qed simp

lemma scheduleOutputLink_credits:
  assumes "scheduleOutputLink C now n = Inr (n', es)"
  shows "ni_outCreditQueue n' = ni_outCreditQueue n" "ni_stall_queue n' = ni_stall_queue n" "ni_inNetLink n' = ni_inNetLink n"
  using assms by (cases rule: scheduleOutputLink_cases; auto elim: ni_send_flit_effect)+

lemma ni_inject_cases:
  assumes "ni_inject P cx = Inr cx'"
  obtains cx1 n es es' where "foldM (ni_inject_vnet P) [0..<length (nx_inNode cx)] cx = Inr cx1"
    "scheduleOutputLink (gn_config (nx_net cx1)) (nx_now cx1) (nx_ni cx1) = Inr (n, es)"
    "cx' = cx1\<lparr>nx_ni := n, nx_events := es'\<rparr>"
  using assms by (auto simp: ni_inject_def Let_def)

lemma ni_inject_view:
  assumes "ni_inject P cx = Inr cx'"
  shows "eject_view cx' = eject_view cx" and "keeps_msgs cx cx'"
proof -
  from assms have "eject_view cx' = eject_view cx \<and> keeps_msgs cx cx'"
  proof (cases rule: ni_inject_cases)
    case (1 cx1 n es es')
    have "eject_view cx1 = eject_view cx \<and> keeps_msgs cx cx1"
      by (rule foldM_invariant [OF 1(1)]) (auto dest!: ni_inject_vnet_view intro: keeps_msgs_trans)
    then show ?thesis using scheduleOutputLink_credits [OF 1(2)] by (simp add: eject_view_def keeps_msgs_def 1(3))
  qed
  then show "eject_view cx' = eject_view cx" "keeps_msgs cx cx'" by simp_all
qed

text \<open>After the injections, a wakeup ejects nothing or one flit, which was stalled or has just arrived.\<close>

lemma ni_wakeup_ctx_ejects:
  assumes "ni_wakeup_ctx P cx = Inr cx'"
  obtains cx1 where "ni_inject P cx = Inr cx1" "ctx_frame cx1 = ctx_frame cx" "eject_view cx1 = eject_view cx" "keeps_msgs cx cx1"
    "none_ejected cx1 cx' \<or> (\<exists>f. can_leave (nx_ni cx) (nx_net cx) f \<and> one_ejected P f cx1 cx')"
proof -
  from assms obtain cx1 e cx2 cx3 cx4 where s: "ni_inject P cx = Inr cx1" "checkStallQueue P cx1 = Inr (e, cx2)"
      "ni_read_link P e cx2 = Inr cx3" "ni_read_credit cx3 = Inr cx4" and cx': "cx' = ni_credit_event cx4"
    by (auto simp: ni_wakeup_ctx_def)
  have f1: "ctx_frame cx1 = ctx_frame cx" using ni_inject_flows [OF s(1)] by (simp add: flows_def)
  have f2: "ctx_frame cx2 = ctx_frame cx1" using checkStallQueue_flows [OF s(2)] by (simp add: flows_def)
  have v: "can_leave (nx_ni cx1) (nx_net cx1) = can_leave (nx_ni cx) (nx_net cx)"
    using ni_inject_view(1) [OF s(1)] f1 by (simp add: can_leave_def fun_eq_iff eject_view_def ctx_frame_def)
  have 2: "if e then \<exists>f \<in> set (ni_stall_queue (nx_ni cx1)). one_ejected P f cx1 cx2
      else none_ejected cx1 cx2 \<and> (\<exists>outs. cx2 = cx1\<lparr>nx_outNode := outs\<rparr>)"
    using s(2) unfolding checkStallQueue_def by (rule stall_scan_ejected)
  have 3: "none_ejected cx2 cx3 \<or> (\<not> e \<and> (\<exists>f. can_leave (nx_ni cx2) (nx_net cx2) f \<and> one_ejected P f cx2 cx3))"
    using s(3) by (rule ni_read_link_ejected)
  have 4: "none_ejected cx3 cx'"
    using ni_read_credit_none [OF s(4)] by (simp add: cx' ni_credit_event_def none_ejected_def)
  have "none_ejected cx1 cx' \<or> (\<exists>f. can_leave (nx_ni cx1) (nx_net cx1) f \<and> one_ejected P f cx1 cx')"
  proof (cases e)
    case True
    with 2 obtain f where f: "f \<in> set (ni_stall_queue (nx_ni cx1))" "one_ejected P f cx1 cx2" by auto
    have "none_ejected cx2 cx'" using 3 4 True none_ejected_trans by blast
    with f show ?thesis by (auto simp: can_leave_def intro: one_ejected_after)
  next
    case False
    with 2 have n: "none_ejected cx1 cx2" and o: "nx_ni cx2 = nx_ni cx1" "nx_net cx2 = nx_net cx1" by auto
    from 3 show ?thesis
    proof (elim disjE conjE exE)
      fix f assume "can_leave (nx_ni cx2) (nx_net cx2) f" "one_ejected P f cx2 cx3"
      then have "can_leave (nx_ni cx1) (nx_net cx1) f" "one_ejected P f cx1 cx'"
        using o one_ejected_after [OF one_ejected_before [OF n f2] 4] by simp_all
      then show ?thesis by blast
    qed (use n 4 in \<open>blast intro: none_ejected_trans\<close>)
  qed
  then show thesis using that [OF s(1) f1 ni_inject_view [OF s(1)]] by (simp add: v)
qed

section \<open>Injection and the lock\<close>

text \<open>What injection alone changes: the protocol's buffers and the number of the next message.\<close>

definition inject_view :: "ni_ctx \<Rightarrow> node_ptr \<times> nat" where
  "inject_view cx = (nx_inNode cx, nx_next_msg cx)"

lemma inject_view_put [simp]: "inject_view (put_out_node v b cx) = inject_view cx"
  by (simp add: inject_view_def put_out_node_def)

lemma eject_flit_inject_view: "eject_flit P f cx = Inr cx' \<Longrightarrow> inject_view cx' = inject_view cx"
  by (erule eject_flit_effect) (simp add: inject_view_def put_out_node_def)

lemma slot_available_inject_view: "slot_available P v cx = Inr (free, cx') \<Longrightarrow> inject_view cx' = inject_view cx"
  by (drule slot_available_flows) auto

lemma unstall_inject_view: "unstall q v cx = Inr cx' \<Longrightarrow> inject_view cx' = inject_view cx"
  by (auto simp: unstall_def Let_def inject_view_def put_out_node_def split: if_splits)

lemma stall_flit_inject_view: "stall_flit f cx = Inr cx' \<Longrightarrow> inject_view cx' = inject_view cx"
  by (auto simp: stall_flit_def Let_def inject_view_def put_out_node_def)

lemma stall_scan_inject_view: "stall_scan P pre q cx = Inr (b, cx') \<Longrightarrow> inject_view cx' = inject_view cx"
proof (induction P pre q cx rule: stall_scan.induct)
  case (2 P pre f post cx)
  from "2.prems" obtain free cx1 where sl: "slot_available P (fl_vnet f) cx = Inr (free, cx1)" by auto
  show ?case
  proof (cases free)
    case True
    then show ?thesis using "2.prems" sl
      by (auto dest!: slot_available_inject_view eject_flit_inject_view unstall_inject_view)
  next
    case False
    then have "inject_view cx' = inject_view cx1" using 2 sl by simp
    then show ?thesis using slot_available_inject_view [OF sl] by simp
  qed
qed simp

lemma receive_flit_inject_view: "receive_flit P e f cx = Inr cx' \<Longrightarrow> inject_view cx' = inject_view cx"
  unfolding receive_flit_def
  by (auto dest!: slot_available_inject_view eject_flit_inject_view stall_flit_inject_view split: if_splits)

lemma ni_read_link_inject_view:
  assumes "ni_read_link P e cx = Inr cx'"
  shows "inject_view cx' = inject_view cx"
proof (cases "cx' = cx")
  case False
  with assms obtain ls f where "receive_flit P e f (cx\<lparr>nx_net := (nx_net cx)\<lparr>gn_networklinks := ls\<rparr>\<rparr>) = Inr cx'"
    by (auto simp: ni_read_link_def Let_def split: if_splits)
  from receive_flit_inject_view [OF this] show ?thesis by (simp add: inject_view_def)
qed simp

lemma ni_read_credit_inject_view: "ni_read_credit cx = Inr cx' \<Longrightarrow> inject_view cx' = inject_view cx"
  by (auto simp: ni_read_credit_def Let_def inject_view_def split: if_splits)

lemma locked_inject_vnet:
  assumes "ni_inject_vnet P vnet cx = Inr cx'" and "gn_lock (nx_net cx) \<noteq> -1"
  shows "cx' = cx"
  using assms by (auto simp: ni_inject_vnet_def split: option.splits)

lemma locked_wakeup_inject_view:
  assumes "ni_wakeup_ctx P cx = Inr cx'" and "gn_lock (nx_net cx) \<noteq> -1"
  shows "inject_view cx' = inject_view cx"
proof -
  from assms obtain cx1 e cx2 cx3 cx4 where s: "ni_inject P cx = Inr cx1" "checkStallQueue P cx1 = Inr (e, cx2)"
      "ni_read_link P e cx2 = Inr cx3" "ni_read_credit cx3 = Inr cx4" and cx': "cx' = ni_credit_event cx4"
    by (auto simp: ni_wakeup_ctx_def)
  have "inject_view cx1 = inject_view cx" using s(1)
  proof (cases rule: ni_inject_cases)
    case (1 cx0 n es es')
    have "cx0 = cx" using foldM_invariant [OF 1(1), of "\<lambda>c. c = cx"] assms(2) locked_inject_vnet by blast
    then show ?thesis by (simp add: 1(3) inject_view_def)
  qed
  moreover have "inject_view cx2 = inject_view cx1" using s(2) unfolding checkStallQueue_def by (rule stall_scan_inject_view)
  ultimately show ?thesis using ni_read_link_inject_view [OF s(3)] ni_read_credit_inject_view [OF s(4)]
    by (simp add: cx' ni_credit_event_def inject_view_def)
qed

text \<open>Flow steps that inject nothing only take packets out.\<close>

lemma flow_next:
  assumes "(flow_step P)\<^sup>*\<^sup>* w w'"
  shows "fw_next w \<le> fw_next w' \<and> (fw_next w' = fw_next w \<longrightarrow> fw_tags w' \<subseteq># fw_tags w \<and> fw_keys w' \<subseteq> fw_keys w \<and>
     fs_flits_injected (fw_stats w') = fs_flits_injected (fw_stats w))"
  using assms
proof (induction rule: rtranclp_induct)
  case (step w1 w2)
  from step(2) show ?case
  proof (cases rule: flow_step.cases)
    case (flow_inject t r s1 s2)
    then show ?thesis using step.IH by simp
  next
    case (flow_eject f T k net s)
    from flow_eject(5) have "fs_flits_injected s = fs_flits_injected (fw_stats w1)"
    proof (cases rule: incrementStats_steps)
      case (1 s1 xs nd qd)
      then show ?thesis using received_counts(2) [OF 1(1)] by (simp add: counts_def)
    qed
    moreover have "T \<subseteq># fw_tags w1" by (simp add: flow_eject(2))
    ultimately show ?thesis using step.IH flow_eject(1) by (auto intro: subset_mset.trans)
  qed
qed simp

section \<open>Searches\<close>

lemma findM_Some: "findM p xs = Inr (Some x) \<Longrightarrow> x \<in> set xs \<and> p x = Inr True"
  by (induction xs) (auto split: if_splits)

lemma findM_None: "findM p xs = Inr None \<Longrightarrow> x \<in> set xs \<Longrightarrow> p x = Inr False"
  by (induction xs) (auto split: if_splits)

lemma findM_find:
  assumes "\<And>x. x \<in> set xs \<Longrightarrow> p x = Inr (q x)"
  shows "findM p xs = Inr (find q xs)"
  using assms by (induction xs) auto

lemma wrap_next_mod: "i < n \<Longrightarrow> wrap_next n i = Suc i mod n"
  by (auto simp: wrap_next_def mod_Suc)

lemma vc_ring_order: "vc < n \<Longrightarrow> vc_ring n vc k = map (\<lambda>j. (vc + 1 + j) mod n) [0..<k]"
proof (induction k arbitrary: vc)
  case (Suc k)
  have "wrap_next n vc < n" using Suc.prems by (simp add: wrap_next_mod)
  moreover have "(Suc vc mod n + 1 + j) mod n = (vc + 1 + Suc j) mod n" for j
    by (metis add.commute add_Suc_right mod_add_left_eq plus_1_eq_Suc)
  moreover have "map (\<lambda>j. (vc + 1 + j) mod n) [0..<Suc k] = (vc + 1) mod n # map (\<lambda>j. (vc + 1 + Suc j) mod n) [0..<k]"
    by (simp add: upt_conv_Cons map_Suc_upt [symmetric] del: upt_Suc)
  ultimately show ?case using Suc by (simp add: Let_def wrap_next_mod del: upt_Suc)
qed simp

lemma vc_ring_set:
  assumes "vc < n"
  shows "set (vc_ring n vc n) = {..<n}"
proof -
  have "x \<in> (\<lambda>j. (vc + 1 + j) mod n) ` {0..<n}" if "x < n" for x
  proof (rule image_eqI)
    let ?j = "(x + n - (vc + 1) mod n) mod n"
    have "(vc + 1) mod n < n" using assms by (intro mod_less_divisor) simp
    then have "(vc + 1) mod n \<le> x + n" by linarith
    then have "((vc + 1) mod n + (x + n - (vc + 1) mod n)) mod n = x" using that by simp
    then show "x = (vc + 1 + ?j) mod n" by (simp only: mod_add_left_eq mod_add_right_eq)
    show "?j \<in> {0..<n}" using that by simp
  qed
  then show ?thesis using assms by (auto simp: vc_ring_order)
qed

section \<open>The virtual channel of a packet\<close>

abbreviation vnet_vcs :: "network_interface \<Rightarrow> nat \<Rightarrow> nat \<Rightarrow> nat list" where
  "vnet_vcs n vnet start \<equiv> map (\<lambda>k. vnet * ni_vc_per_vnet n + (start + k) mod ni_vc_per_vnet n) [0..<ni_vc_per_vnet n]"

abbreviation idle_vc :: "network_interface \<Rightarrow> cycles \<Rightarrow> nat \<Rightarrow> bool" where
  "idle_vc n now vc \<equiv> ovc_isInState (ni_out_vc_state n ! vc) IDLE now"

lemma ni_vc_idle_Inr: "vc < length (ni_out_vc_state n) \<Longrightarrow> ni_vc_idle now n vc = Inr (idle_vc n now vc)"
  by (simp add: ni_vc_idle_def)

lemma vnet_vc_bound:
  assumes "(vnet + 1) * V \<le> len" and "k < (V :: nat)"
  shows "vnet * V + k < len"
  using assms by simp

lemma calculateVC_rr_find:
  assumes "vnet < length (ni_vc_allocator n)" and "ni_vc_allocator n ! vnet < ni_vc_per_vnet n"
    and "(vnet + 1) * ni_vc_per_vnet n \<le> length (ni_out_vc_state n)"
  shows "\<exists>n'. calculateVC_rr now vnet i n = Inr (find (idle_vc n now) (map (\<lambda>k. vnet * ni_vc_per_vnet n +
      (ni_vc_allocator n ! vnet + k) mod ni_vc_per_vnet n) [0..<i]), n')"
  using assms
proof (induction i arbitrary: n)
  case (Suc i)
  let ?V = "ni_vc_per_vnet n" and ?a = "ni_vc_allocator n ! vnet"
  let ?n1 = "n\<lparr>ni_vc_allocator := (ni_vc_allocator n)[vnet := wrap_next ?V ?a]\<rparr>"
  have vc: "vnet * ?V + ?a < length (ni_out_vc_state n)" using Suc.prems(3,2) by (rule vnet_vc_bound)
  have w: "wrap_next ?V ?a = Suc ?a mod ?V" "wrap_next ?V ?a < ?V" using Suc.prems(2) by (simp_all add: wrap_next_mod)
  obtain n' where IH: "calculateVC_rr now vnet i ?n1 = Inr (find (idle_vc n now) (map (\<lambda>k. vnet * ?V + (Suc ?a mod ?V + k) mod ?V) [0..<i]), n')"
    using Suc.IH [of ?n1] Suc.prems w by auto
  have "map (\<lambda>k. vnet * ?V + (?a + k) mod ?V) [0..<Suc i] = (vnet * ?V + ?a) # map (\<lambda>k. vnet * ?V + (?a + Suc k) mod ?V) [0..<i]"
    using Suc.prems(2) by (simp add: upt_conv_Cons map_Suc_upt [symmetric] del: upt_Suc)
  moreover have "(?a + Suc k) mod ?V = (Suc ?a mod ?V + k) mod ?V" for k by (simp add: mod_add_left_eq)
  ultimately have order: "map (\<lambda>k. vnet * ?V + (?a + k) mod ?V) [0..<Suc i] =
      (vnet * ?V + ?a) # map (\<lambda>k. vnet * ?V + (Suc ?a mod ?V + k) mod ?V) [0..<i]" by simp
  have "ni_vc_idle now ?n1 (vnet * ?V + ?a) = Inr (idle_vc n now (vnet * ?V + ?a))"
    using ni_vc_idle_Inr [of "vnet * ?V + ?a" ?n1 now] vc by simp
  then show ?case unfolding order using IH Suc.prems(1) by (auto simp: Let_def)
qed simp

lemma calculateVC_find:
  assumes "vnet < length (ni_vc_allocator n)" and "ni_vc_allocator n ! vnet < ni_vc_per_vnet n"
    and "(vnet + 1) * ni_vc_per_vnet n \<le> length (ni_out_vc_state n)" and "vnet < length (ni_vc_busy_counter n)"
    and "np_ni_inj P = ''rr'' \<or> np_ni_inj P = ''fcfs''"
  shows "\<exists>n'. calculateVC P now vnet n = Inr (find (idle_vc n now)
    (vnet_vcs n vnet (if np_ni_inj P = ''rr'' then ni_vc_allocator n ! vnet else 0)), n')"
proof (cases "np_ni_inj P = ''rr''")
  case True
  obtain n' where n': "calculateVC_rr now vnet (ni_vc_per_vnet n) n = Inr (find (idle_vc n now) (vnet_vcs n vnet (ni_vc_allocator n ! vnet)), n')"
    using calculateVC_rr_find [OF assms(1-3)] by blast
  with calculateVC_rr_frame [OF n'] assms(4) True show ?thesis by (auto simp: calculateVC_def)
next
  case False
  have find: "findM (ni_vc_idle now n) (map (\<lambda>k. vnet * ni_vc_per_vnet n + k) [0..<ni_vc_per_vnet n]) =
      Inr (find (idle_vc n now) (map (\<lambda>k. vnet * ni_vc_per_vnet n + k) [0..<ni_vc_per_vnet n]))"
  proof (rule findM_find)
    fix x assume "x \<in> set (map (\<lambda>k. vnet * ni_vc_per_vnet n + k) [0..<ni_vc_per_vnet n])"
    then obtain k where "x = vnet * ni_vc_per_vnet n + k" "k < ni_vc_per_vnet n"
      by (fastforce simp del: set_upt map_add_upt simp: in_set_conv_nth)
    then show "ni_vc_idle now n x = Inr (idle_vc n now x)"
      using vnet_vc_bound [OF assms(3)] by (simp add: ni_vc_idle_Inr)
  qed
  have order: "vnet_vcs n vnet 0 = map (\<lambda>k. vnet * ni_vc_per_vnet n + k) [0..<ni_vc_per_vnet n]"
    by (rule map_cong) simp_all
  show ?thesis unfolding if_not_P [OF False] order calculateVC_def calculateVC_fcfs_def find
    using assms(4,5) False by auto
qed

end
