(* ===== verification/Interface_Multicast.thy ===== *)
theory Interface_Multicast
  imports Interface_Correct
begin

text \<open>
  \<open>flitisizeMessage\<close> on messages with several destinations. One call sends a flit to a prefix of the destinations, as many
  as there are free virtual channels, and takes them out of the message; the next call goes on with what is left.
  \<open>retry_message\<close> is the sequence of calls that \<open>wakeup\<close> makes for the message at the front of a buffer, each in whatever
  state the interface is by then.
\<close>

definition ni_flits :: "network_interface \<Rightarrow> flit multiset" where
  "ni_flits n = contents flits_of (ni_out_vcs n)"

definition addressed :: "machine_types \<Rightarrow> nat \<Rightarrow> net_dest \<Rightarrow> bool" where
  "addressed M d nd \<longleftrightarrow> (\<exists>p. valid_machine M p \<and> node_of M p = d \<and> nd_elems nd = {p})"

text \<open>A flit for node \<open>d\<close> with a copy of the message that is addressed to that node alone.\<close>

definition flit_for :: "machine_types \<Rightarrow> ni_ctx \<Rightarrow> message \<Rightarrow> nat \<Rightarrow> flit \<Rightarrow> bool" where
  "flit_for M cx m d f \<longleftrightarrow> ri_dest_ni (fl_route f) = int d \<and> addressed M d (ri_net_dest (fl_route f)) \<and>
     (\<exists>k < nx_next_msg cx. fl_msg_ptr f = Some k \<and>
        nx_msgs cx k = Some (m\<lparr>msg_destination := ri_net_dest (fl_route f)\<rparr>))"

fun retry_message :: "ni_params \<Rightarrow> nat \<Rightarrow> message \<Rightarrow> ni_ctx list \<Rightarrow> (bool \<times> flit multiset) res" where
  "retry_message P vnet m [] = Inr (False, {#})"
| "retry_message P vnet m (cx # cxs) =
     bnd (flitisizeMessage P m vnet cx) (\<lambda>(all_sent, m', cx').
     let new = ni_flits (nx_ni cx') - ni_flits (nx_ni cx) in
     if all_sent then Inr (True, new)
     else bnd (retry_message P vnet m' cxs) (\<lambda>(r, fs). Inr (r, new + fs)))"

section \<open>One destination\<close>

lemma personal_dest_correct:
  assumes M: "machines_ok M" and p: "valid_machine M p"
  shows "\<exists>nd. personal_dest M (node_of M p) dest = Inr (nd, nd) \<and> dest_ok M nd \<and> nd_elems nd = {p}"
proof -
  let ?in = "\<lambda>m. mt_base_number M m \<le> node_of M p \<and> node_of M p < mt_base_number M (m + 1)"
  have "?in (fst p)" and lt: "fst p < mt_num M"
    using node_of_range [OF M p] p by (simp_all add: valid_machine_def)
  then have "find ?in [0..<mt_num M] \<noteq> None"
    unfolding find_None_iff by (metis add_0 atLeastLessThan_iff set_upt zero_le)
  then obtain m where f: "find ?in [0..<mt_num M] = Some m" by blast
  then have "?in m" "m < mt_num M" by (auto simp: find_Some_iff)
  then have m: "m = fst p" using node_of_type [OF M p, of m] by simp
  obtain nd0 where nd0: "NetDest_new M = Inr nd0" "dest_ok M nd0" using NetDest_new_ok [OF M] by blast
  have "node_of M p - mt_base_number M m = snd p" by (simp add: node_of_def m)
  then show ?thesis
    using NetDest_add_ok [OF M NetDest_clear_ok [OF nd0(2)], of "\<lparr>mach_type = fst p, mach_num = snd p\<rparr>"] p
    by (auto simp: personal_dest_def nd0(1) f [simplified] m)
qed

lemma ni_put_flit_flits: "ni_put_flit now vc f n = Inr n' \<Longrightarrow> ni_flits n' = add_mset f (ni_flits n)"
  by (drule ni_put_flit_effect) (auto simp: ni_flits_def contents_update_add)

lemma inject_flit_sends:
  assumes i: "inject_flit P vnet vc d dest m cx = Inr cx'" and dest: "addressed M d dest"
  shows "\<exists>f. ni_flits (nx_ni cx') = add_mset f (ni_flits (nx_ni cx)) \<and> flit_for M cx' m d f \<and>
    nx_next_msg cx' = nx_next_msg cx + 1 \<and> (\<forall>k < nx_next_msg cx. nx_msgs cx' k = nx_msgs cx k)"
  using i
proof (cases rule: inject_flit_effect)
  case (1 f n net st)
  have "ri_net_dest (fl_route f) = dest \<and> ri_dest_ni (fl_route f) = int d"
    using 1(1) unfolding flit_route_of_def by (elim bnd_InrE) (drule sum.inject(2) [THEN iffD1, THEN sym], simp)
  then show ?thesis using 1(2) ni_put_flit_flits [OF 1(8)] dest
    by (intro exI [of _ f]) (simp add: 1(9) flit_for_def)
qed

text \<open>What is left of the message and what is in the virtual channels, after a call that was or was not served.\<close>

lemma flitisize_dest_failed:
  assumes "flitisize_dest P vnet multicast d (m, cx) = Inr (False, m', cx')"
  shows "m' = m" "ni_flits (nx_ni cx') = ni_flits (nx_ni cx)" "nx_msgs cx' = nx_msgs cx" "nx_next_msg cx' = nx_next_msg cx"
proof -
  from assms obtain v n where n: "calculateVC P (nx_now cx) v (nx_ni cx) = Inr (None, n)" and "m' = m" "cx' = cx\<lparr>nx_ni := n\<rparr>"
    by (fastforce simp: flitisize_dest_def split: option.splits)
  then show "m' = m" "ni_flits (nx_ni cx') = ni_flits (nx_ni cx)" "nx_msgs cx' = nx_msgs cx" "nx_next_msg cx' = nx_next_msg cx"
    using calculateVC_frame [OF n] by (auto simp: ni_flits_def)
qed

lemma flitisize_dest_Some:
  assumes "flitisize_dest P vnet multicast d (m, cx) = Inr (True, m', cx')"
  obtains v n vc dest gone rest where "calculateVC P (nx_now cx) v (nx_ni cx) = Inr (Some vc, n)"
    "(if multicast then personal_dest (np_machines P) d (msg_destination m)
                else Inr (msg_destination m, msg_destination m)) = Inr (dest, gone)"
    "(if multicast then NetDest_removeNetDest (msg_destination m) gone else Inr (msg_destination m)) = Inr rest"
    "inject_flit P vnet vc d dest m (cx\<lparr>nx_ni := n\<rparr>) = Inr cx'" "m' = m\<lparr>msg_destination := rest\<rparr>"
  using assms unfolding flitisize_dest_def
  by (auto split: option.splits)

lemma flitisize_dest_sent:
  assumes s: "flitisize_dest P vnet multicast d (m, cx) = Inr (True, m', cx')"
    and M: "machines_ok (np_machines P)" "dest_ok (np_machines P) (msg_destination m)"
    and p: "p \<in> nd_elems (msg_destination m)" "node_of (np_machines P) p = d"
    and uni: "\<not> multicast \<Longrightarrow> nd_elems (msg_destination m) = {p}"
  shows "\<exists>f. ni_flits (nx_ni cx') = add_mset f (ni_flits (nx_ni cx)) \<and> flit_for (np_machines P) cx' m d f"
    and "nx_next_msg cx' = nx_next_msg cx + 1" and "\<forall>k < nx_next_msg cx. nx_msgs cx' k = nx_msgs cx k"
    and "\<exists>rest. m' = m\<lparr>msg_destination := rest\<rparr> \<and> dest_ok (np_machines P) rest \<and>
      (multicast \<longrightarrow> nd_elems rest = nd_elems (msg_destination m) - {p})"
proof -
  let ?M = "np_machines P"
  have v: "valid_machine ?M p" using M(2) p(1) by (rule dest_ok_elems)
  from s obtain v n vc dest gone rest where c: "calculateVC P (nx_now cx) v (nx_ni cx) = Inr (Some vc, n)"
    and pd: "(if multicast then personal_dest ?M d (msg_destination m) else Inr (msg_destination m, msg_destination m)) = Inr (dest, gone)"
    and rm: "(if multicast then NetDest_removeNetDest (msg_destination m) gone else Inr (msg_destination m)) = Inr rest"
    and i: "inject_flit P vnet vc d dest m (cx\<lparr>nx_ni := n\<rparr>) = Inr cx'" and m': "m' = m\<lparr>msg_destination := rest\<rparr>"
    by (rule flitisize_dest_Some)
  have dest: "nd_elems dest = {p}" "dest_ok ?M dest"
    using pd uni M(2) personal_dest_correct [OF M(1) v, of "msg_destination m"] p(2) by (cases multicast; force)+
  have n: "ni_flits n = ni_flits (nx_ni cx)" using calculateVC_frame [OF c] by (auto simp: ni_flits_def)
  have "addressed ?M d dest" unfolding addressed_def using v p(2) dest(1) by blast
  from inject_flit_sends [OF i this] n
  show "\<exists>f. ni_flits (nx_ni cx') = add_mset f (ni_flits (nx_ni cx)) \<and> flit_for ?M cx' m d f"
    and "nx_next_msg cx' = nx_next_msg cx + 1" and "\<forall>k < nx_next_msg cx. nx_msgs cx' k = nx_msgs cx k"
    by auto
  have g: "multicast \<Longrightarrow> gone = dest"
    using pd personal_dest_correct [OF M(1) v, of "msg_destination m"] p(2) by auto
  have "dest_ok ?M rest \<and> (multicast \<longrightarrow> nd_elems rest = nd_elems (msg_destination m) - {p})"
    using rm M(2) NetDest_removeNetDest_ok [OF M(2) dest(2)] dest(1) g by (cases multicast) auto
  then show "\<exists>rest. m' = m\<lparr>msg_destination := rest\<rparr> \<and> dest_ok ?M rest \<and>
      (multicast \<longrightarrow> nd_elems rest = nd_elems (msg_destination m) - {p})"
    using m' by blast
qed

section \<open>All destinations\<close>

lemma flit_for_later:
  assumes "flit_for M cx m d f" and "nx_next_msg cx \<le> nx_next_msg cx'"
    and "\<forall>k < nx_next_msg cx. nx_msgs cx' k = nx_msgs cx k"
  shows "flit_for M cx' m d f"
  using assms unfolding flit_for_def by (metis order_less_le_trans)

lemma flit_for_message: "flit_for M cx (m\<lparr>msg_destination := rest\<rparr>) = flit_for M cx m"
  by (simp add: flit_for_def fun_eq_iff)

lemma flitisize_loop_multicast:
  assumes "flitisize_loop P vnet True ds (m, cx) = Inr (all_sent, m', cx')"
    and "machines_ok (np_machines P)" and "dest_ok (np_machines P) (msg_destination m)"
    and "distinct ds" and "set ds \<subseteq> node_of (np_machines P) ` nd_elems (msg_destination m)"
  shows "\<exists>k fs rest. k \<le> length ds \<and> (all_sent \<longleftrightarrow> k = length ds) \<and>
    list_all2 (flit_for (np_machines P) cx' m) (take k ds) fs \<and> ni_flits (nx_ni cx') = mset fs + ni_flits (nx_ni cx) \<and>
    m' = m\<lparr>msg_destination := rest\<rparr> \<and> dest_ok (np_machines P) rest \<and>
    node_of (np_machines P) ` nd_elems rest = node_of (np_machines P) ` nd_elems (msg_destination m) - set (take k ds) \<and>
    nx_next_msg cx \<le> nx_next_msg cx' \<and> (\<forall>j < nx_next_msg cx. nx_msgs cx' j = nx_msgs cx j)"
  using assms
proof (induction ds arbitrary: m cx)
  case Nil
  then show ?case by (intro exI [of _ 0] exI [of _ "[]"] exI [of _ "msg_destination m"]) simp
next
  case (Cons d ds)
  let ?M = "np_machines P" and ?E = "\<lambda>nd. node_of (np_machines P) ` nd_elems nd"
  from Cons.prems(1) obtain s m1 cx1 where 1: "flitisize_dest P vnet True d (m, cx) = Inr (s, m1, cx1)"
    and 2: "if s then flitisize_loop P vnet True ds (m1, cx1) = Inr (all_sent, m', cx') else \<not> all_sent \<and> m' = m1 \<and> cx' = cx1"
    by (auto split: if_splits)
  show ?case
  proof (cases s)
    case False
    then show ?thesis using flitisize_dest_failed [of P vnet True d m cx m1 cx1] 1 2 Cons.prems(3)
      by (intro exI [of _ 0] exI [of _ "[]"] exI [of _ "msg_destination m"]) simp
  next
    case True
    from Cons.prems(5) obtain p where p: "p \<in> nd_elems (msg_destination m)" "node_of ?M p = d" by auto
    have 1: "flitisize_dest P vnet True d (m, cx) = Inr (True, m1, cx1)" using 1 True by simp
    note sent = flitisize_dest_sent [OF this Cons.prems(2,3) p, simplified]
    from sent(1) obtain f where f: "ni_flits (nx_ni cx1) = add_mset f (ni_flits (nx_ni cx))" "flit_for ?M cx1 m d f" by blast
    from sent(4) obtain r1 where r1: "m1 = m\<lparr>msg_destination := r1\<rparr>" "dest_ok ?M r1" "nd_elems r1 = nd_elems (msg_destination m) - {p}"
      by blast
    have E1: "?E r1 = ?E (msg_destination m) - {d}"
    proof -
      have "inj_on (node_of ?M) (nd_elems (msg_destination m))"
        by (rule inj_onI) (use Cons.prems(2,3) node_of_inj dest_ok_elems in blast)
      then show ?thesis using p r1(3) by (simp add: inj_on_image_set_diff)
    qed
    have "set ds \<subseteq> ?E (msg_destination m1)" using Cons.prems(4,5) E1 by (auto simp: r1(1))
    then obtain k fs rest where IH: "k \<le> length ds" "all_sent \<longleftrightarrow> k = length ds" "list_all2 (flit_for ?M cx' m1) (take k ds) fs"
      "ni_flits (nx_ni cx') = mset fs + ni_flits (nx_ni cx1)" "m' = m1\<lparr>msg_destination := rest\<rparr>" "dest_ok ?M rest"
      "?E rest = ?E r1 - set (take k ds)" "nx_next_msg cx1 \<le> nx_next_msg cx'" "\<forall>j < nx_next_msg cx1. nx_msgs cx' j = nx_msgs cx1 j"
      using Cons.IH [of m1 cx1] 2 True Cons.prems(2,4) r1 by auto
    have f': "flit_for ?M cx' m d f" using f(2) IH(8,9) by (rule flit_for_later)
    have "list_all2 (flit_for ?M cx' m) (take (Suc k) (d # ds)) (f # fs)"
      using f' IH(3) by (simp add: r1(1) flit_for_message)
    then show ?thesis using IH f(1) E1 sent(2,3)
      by (intro exI [of _ "Suc k"] exI [of _ "f # fs"] exI [of _ rest]) (auto simp: r1(1))
  qed
qed

text \<open>
  One call: flits to a part of the destinations, to all of them if the call says so; the others stay in the message.
\<close>

lemma flitisizeMessage_sends:
  assumes c: "flitisizeMessage P m vnet cx = Inr (all_sent, m', cx')"
    and M: "machines_ok (np_machines P)" "dest_ok (np_machines P) (msg_destination m)"
  shows "\<exists>k fs. list_all2 (flit_for (np_machines P) cx' m) (take k (NetDest_getAllDest (np_machines P) (msg_destination m))) fs \<and>
    ni_flits (nx_ni cx') = mset fs + ni_flits (nx_ni cx) \<and>
    (if all_sent then length (NetDest_getAllDest (np_machines P) (msg_destination m)) \<le> k
     else dest_ok (np_machines P) (msg_destination m') \<and>
       NetDest_getAllDest (np_machines P) (msg_destination m') = drop k (NetDest_getAllDest (np_machines P) (msg_destination m)))"
proof -
  let ?M = "np_machines P" and ?all = "NetDest_getAllDest (np_machines P)"
  let ?ds = "?all (msg_destination m)"
  have set: "set ?ds = node_of ?M ` nd_elems (msg_destination m)" using M by (rule getAllDest_set)
  have dist: "distinct ?ds" and sorted: "sorted_wrt (<) ?ds"
    using getAllDest_distinct [OF M] getAllDest_sorted [OF M] by simp_all
  show ?thesis
  proof (cases "1 < length ?ds")
    case True
    then have "flitisize_loop P vnet True ?ds (m, cx) = Inr (all_sent, m', cx')" using c by (simp add: flitisizeMessage_def Let_def)
    from flitisize_loop_multicast [OF this M dist] set obtain k fs rest where
      k: "k \<le> length ?ds" "all_sent \<longleftrightarrow> k = length ?ds" "list_all2 (flit_for ?M cx' m) (take k ?ds) fs"
      "ni_flits (nx_ni cx') = mset fs + ni_flits (nx_ni cx)" and m': "m' = m\<lparr>msg_destination := rest\<rparr>" and ok: "dest_ok ?M rest"
      and rest: "node_of ?M ` nd_elems rest = set ?ds - set (take k ?ds)"
      by auto
    have "set (drop k ?ds) \<inter> set (take k ?ds) = {}" by (metis Int_commute append_take_drop_id dist distinct_append)
    then have "set (?all rest) = set (drop k ?ds)"
      using rest getAllDest_set [OF M(1) ok] by (metis Diff_cancel Diff_triv Un_Diff append_take_drop_id set_append sup_bot_left)
    moreover have "sorted_wrt (<) (drop k ?ds)" using sorted by (metis append_take_drop_id sorted_wrt_append)
    ultimately have "?all rest = drop k ?ds"
      using getAllDest_sorted [OF M(1) ok] by (simp add: strict_sorted_equal)
    then show ?thesis using k m' ok by (intro exI [of _ k] exI [of _ fs]) auto
  next
    case False
    then consider "?ds = []" | d where "?ds = [d]" by (cases ?ds) auto
    then show ?thesis
    proof cases
      case 1
      then show ?thesis using c by (intro exI [of _ 0] exI [of _ "[]"]) (auto simp: flitisizeMessage_def)
    next
      case (2 d)
      then obtain s where s: "flitisize_dest P vnet False d (m, cx) = Inr (s, m', cx')" and a: "all_sent = s"
        using c by (auto simp: flitisizeMessage_def split: if_splits)
      show ?thesis
      proof (cases s)
        case False
        then show ?thesis using flitisize_dest_failed [of P vnet False d m cx m' cx'] s a M(2)
          by (intro exI [of _ 0] exI [of _ "[]"]) simp
      next
        case True
        have inj: "inj_on (node_of ?M) (nd_elems (msg_destination m))"
          by (rule inj_onI) (use M node_of_inj dest_ok_elems in blast)
        have img: "node_of ?M ` nd_elems (msg_destination m) = {d}" using set 2 by simp
        then obtain p where p: "p \<in> nd_elems (msg_destination m)" "node_of ?M p = d" by blast
        have "q = p" if "q \<in> nd_elems (msg_destination m)" for q
          using inj_onD [OF inj _ that p(1)] img that p(2) by blast
        then have "nd_elems (msg_destination m) = {p}" using p(1) by blast
        then obtain f where "ni_flits (nx_ni cx') = add_mset f (ni_flits (nx_ni cx))" "flit_for ?M cx' m d f"
          using flitisize_dest_sent(1) [of P vnet False d m cx m' cx' p] s True M p by auto
        then show ?thesis using a True 2 by (intro exI [of _ 1] exI [of _ "[f]"]) simp
      qed
    qed
  qed
qed

lemma flit_for_dests:
  "list_all2 (flit_for M cx m) ds fs \<Longrightarrow> image_mset (\<lambda>f. ri_dest_ni (fl_route f)) (mset fs) = image_mset int (mset ds)"
  by (induction rule: list_all2_induct) (simp_all add: flit_for_def)

lemma retry_message_dests:
  assumes "retry_message P vnet m cxs = Inr (True, F)"
    and "machines_ok (np_machines P)" and "dest_ok (np_machines P) (msg_destination m)"
  shows "image_mset (\<lambda>f. ri_dest_ni (fl_route f)) F = image_mset int (mset (NetDest_getAllDest (np_machines P) (msg_destination m)))"
  using assms
proof (induction cxs arbitrary: m F)
  case (Cons cx cxs)
  let ?all = "NetDest_getAllDest (np_machines P)"
  from Cons.prems(1) obtain a m' cx' where c: "flitisizeMessage P m vnet cx = Inr (a, m', cx')" by auto
  from flitisizeMessage_sends [OF this Cons.prems(2,3)] obtain k fs where
    k: "list_all2 (flit_for (np_machines P) cx' m) (take k (?all (msg_destination m))) fs"
    "ni_flits (nx_ni cx') = mset fs + ni_flits (nx_ni cx)"
    "if a then length (?all (msg_destination m)) \<le> k
     else dest_ok (np_machines P) (msg_destination m') \<and> ?all (msg_destination m') = drop k (?all (msg_destination m))"
    by blast
  note dests = flit_for_dests [OF k(1)]
  show ?case
  proof (cases a)
    case True
    then show ?thesis using Cons.prems(1) c k dests by (auto simp: Let_def)
  next
    case False
    then obtain F' where F': "retry_message P vnet m' cxs = Inr (True, F')" and F: "F = mset fs + F'"
      using Cons.prems(1) c k(2) by (auto simp: Let_def)
    have "image_mset (\<lambda>f. ri_dest_ni (fl_route f)) F' = image_mset int (mset (drop k (?all (msg_destination m))))"
      using Cons.IH [OF F' Cons.prems(2)] False k(3) by simp
    then have "image_mset (\<lambda>f. ri_dest_ni (fl_route f)) F =
        image_mset int (mset (take k (?all (msg_destination m))) + mset (drop k (?all (msg_destination m))))"
      using dests F by simp
    then show ?thesis by (simp only: mset_append [symmetric] append_take_drop_id)
  qed
qed simp

end
