(* ===== verification/Buffer_Properties.thy ===== *)
theory Buffer_Properties
  imports Message_Buffer_Correct Mesh_Example
begin

text \<open>
  The properties of message buffers, for every sequence of calls on a new buffer that has a consumer.
\<close>

definition new_buffer :: "nat \<Rightarrow> bool \<Rightarrow> bool \<Rightarrow> message_buffer" where
  "new_buffer cap ordered rnd = (MessageBuffer_new cap ordered rnd)\<lparr>mb_consumer := Some (NIConsumer 0)\<rparr>"

lemma new_buffer_inv: "mb_inv (new_buffer cap ordered rnd)" "mb_ids (new_buffer cap ordered rnd) = {#}"
  "slots_inv now 0 (new_buffer cap ordered rnd)" "mb_max_size (new_buffer cap ordered rnd) = cap"
  by (simp_all add: mb_inv_def mb_ids_def new_buffer_def MessageBuffer_new_def mb_heap_inv_def is_heap_def mb_msgs_def
      stalled_ids_def heap_ids_def slots_inv_def)

definition ex_ruby :: ruby_state where
  "ex_ruby = \<lparr>rs_randomization = False, rs_warmup_enabled = False, rs_random = (\<lambda>_. 0)\<rparr>"

definition ex_message :: "nat \<Rightarrow> message" where
  "ex_message i = \<lparr>msg_id = i, msg_time = 0, msg_LastEnqueueTime = 0, msg_DelayedTicks = 0, msg_counter = 0,
     msg_destination = ex_dest [1], msg_size = MessageSizeType_Data\<rparr>"

lemmas buffer_eval = mb_enqueue_def mb_arrival_def mb_push_def push_heap_def updateDelayedTicks_def mb_schedule_def
  mb_dequeue_def mb_isReady_def mb_peekMsgPtr_def mb_pop_def pop_heap_def mb_stallMessage_def map_get_def getOffset_def
  mb_reanalyzeMessages_def mb_reanalyzeList_def mb_reanalyze_one_def map_erase_def areNSlotsAvailable_def mb_current_size_def
  push_up.simps adjust_down.simps smaller_child_def msg_greater_def ex_ruby_def ex_message_def new_buffer_def
  MessageBuffer_new_def assert_that_def

text \<open>
  C32. Whatever sequence of calls a message buffer executes, no message is lost or duplicated: the messages
  in the heap, those in the stall map and those that were dequeued are together exactly those that were
  enqueued. The counter of stalled messages is exact, so that the assertions that it is not negative hold.
\<close>

theorem message_buffer_conserves:
  assumes "foldM (mb_run bits) ops (R, new_buffer cap ordered rnd, []) = Inr (R', b, out)"
  shows "heap_ids b + stalled_ids b + mset (map msg_id out) = mset (concat (map op_enqueues ops)) \<and>
    mb_stall_map_size b = int (size (stalled_ids b))"
  using mb_runs_effect [OF assms new_buffer_inv(1)] by (simp add: mb_ids_def new_buffer_inv(2) [unfolded mb_ids_def] mb_inv_def)

definition ex_calls :: "(tick \<times> buffer_op) list" where
  "ex_calls = [(0, Enqueue (ex_message 1) 1), (0, Enqueue (ex_message 2) 1), (0, Enqueue (ex_message 3) 1),
     (1, Stall 0), (1, Stall 0), (2, Dequeue), (2, Reanalyze 0)]"

definition ex_requeued :: "nat \<Rightarrow> nat \<Rightarrow> message" where
  "ex_requeued i c = (ex_message i)\<lparr>msg_LastEnqueueTime := 2, msg_counter := c\<rparr>"

definition ex_called :: message_buffer where
  "ex_called = (new_buffer 3 True False)\<lparr>mb_prio_heap := [ex_requeued 1 4, ex_requeued 2 5], mb_time_last_time_pop := 2,
     mb_last_arrival_time := 1, mb_size_at_cycle_start := 1, mb_msgs_this_cycle := 3, mb_msg_counter := 5, mb_buf_msgs := 2,
     mb_stall_count := 2\<rparr>"

lemma ex_calls_run: "foldM (mb_run 6) ex_calls (ex_ruby, new_buffer 3 True False, []) =
    Inr (ex_ruby, ex_called, [(ex_message 3)\<lparr>msg_LastEnqueueTime := 1, msg_counter := 3, msg_DelayedTicks := 1\<rparr>])"
  by (simp add: ex_calls_def ex_called_def ex_requeued_def buffer_eval cong: bnd_weak_cong)

theorem message_buffer_conserves_witness:
  "heap_ids ex_called + stalled_ids ex_called + mset (map msg_id [(ex_message 3)\<lparr>msg_LastEnqueueTime := 1, msg_counter := 3,
      msg_DelayedTicks := 1\<rparr>]) = mset (concat (map op_enqueues ex_calls)) \<and>
    mb_stall_map_size ex_called = int (size (stalled_ids ex_called))"
  by (rule message_buffer_conserves [OF ex_calls_run])

text \<open>
  C33. An ordered buffer is first in, first out outside of the warm-up phase: for every sequence of \<open>enqueue\<close>, \<open>dequeue\<close>
  and \<open>areNSlotsAvailable\<close>, interleaved in any way, with whatever times, delays and random arrival times the buffer
  accepts, the messages that were dequeued are the first ones that were enqueued, in the same order. The others
  are in the buffer, and from the last arrival time on \<open>dequeue\<close> succeeds and returns the next one of them. (The calls
  that reorder on purpose, \<open>recycle\<close>, \<open>delayHead\<close> and those of the stall map, are not among them.)
\<close>

theorem ordered_buffer_fifo:
  assumes "foldM (mb_run bits) ops (R, new_buffer cap True rnd, []) = Inr (R', b, out)" and "\<not> rs_warmup_enabled R"
    and "\<forall>(t, op) \<in> set ops. fifo_op op"
  shows "\<exists>rest. concat (map op_enqueues ops) = map msg_id out @ rest \<and> mset rest = heap_ids b \<and>
    (\<forall>t \<ge> mb_last_arrival_time b. rest \<noteq> [] \<longrightarrow>
       (\<exists>delay m b' cb. mb_dequeue t True b = Inr (delay, m, b', cb) \<and> msg_id m = hd rest))"
proof -
  have "fifo_inv [] (new_buffer cap True rnd)"
    by (simp add: fifo_inv_def new_buffer_def MessageBuffer_new_def mb_heap_inv_def is_heap_def mb_msgs_def)
  from fifo_runs [OF assms(1) this assms(2,3)] obtain L where L: "fifo_inv L b"
    "map msg_id out @ map msg_id L = concat (map op_enqueues ops)" by auto
  have "\<exists>delay m b' cb. mb_dequeue t True b = Inr (delay, m, b', cb) \<and> msg_id m = hd (map msg_id L)"
    if t: "mb_last_arrival_time b \<le> t" and ne: "map msg_id L \<noteq> []" for t
  proof -
    obtain x L' where x: "L = x # L'" using ne by (cases L) auto
    obtain delay m b' cb where d: "mb_dequeue t True b = Inr (delay, m, b', cb)" using fifo_ready [OF L(1) [unfolded x] t] by blast
    from fifo_dequeue [OF d L(1)] d show ?thesis by (auto simp: x)
  qed
  moreover have "mset (map msg_id L) = heap_ids b" using L(1) by (simp add: fifo_inv_def heap_ids_def)
  ultimately show ?thesis using L(2) by (intro exI [of _ "map msg_id L"]) simp
qed

definition ex_fifo_calls :: "(tick \<times> buffer_op) list" where
  "ex_fifo_calls = [(0, Enqueue (ex_message 1) 1), (0, Enqueue (ex_message 2) 1), (1, Dequeue), (1, Slots 1),
     (1, Enqueue (ex_message 3) 2), (2, Dequeue)]"

theorem ordered_buffer_fifo_witness:
  "\<exists>R' b out rest. foldM (mb_run 6) ex_fifo_calls (ex_ruby, new_buffer 3 True False, []) = Inr (R', b, out) \<and>
    [1, 2, 3] = map msg_id out @ rest \<and> mset rest = heap_ids b \<and> length out = 2"
proof -
  obtain R' b out where r: "foldM (mb_run 6) ex_fifo_calls (ex_ruby, new_buffer 3 True False, []) = Inr (R', b, out)"
    and l: "length out = 2"
    by (simp add: ex_fifo_calls_def buffer_eval cong: bnd_weak_cong)
  have "\<not> rs_warmup_enabled ex_ruby" "\<forall>(t, op) \<in> set ex_fifo_calls. fifo_op op"
    by (simp_all add: ex_ruby_def ex_fifo_calls_def)
  note fifo = ordered_buffer_fifo [OF r this]
  have "concat (map op_enqueues ex_fifo_calls) = [1, 2, 3]" by (simp add: ex_fifo_calls_def ex_message_def)
  then show ?thesis using r l fifo by auto
qed

text \<open>
  C34. The slots that \<open>areNSlotsAvailable\<close> reports free in a cycle are free, for every sequence of calls in which
  no stalled message was put back in that cycle: heap, stall map and the \<open>n\<close> new messages together do not
  exceed the size of the buffer.
\<close>

theorem reported_slots_are_free:
  assumes "foldM (mb_run bits) ops (R, new_buffer cap ordered rnd, []) = Inr (R', b, out)" and "0 < cap"
    and "sorted (map fst ops)" and "\<forall>(t, op) \<in> set ops. t \<le> now \<and> (t = now \<longrightarrow> \<not> op_reanalyzes op)"
    and "fst (areNSlotsAvailable n now b)"
  shows "length (mb_prio_heap b) + size (stalled_ids b) + n \<le> cap"
proof -
  have "slots_inv now now b \<and> mb_max_size b = cap"
    using slots_runs [OF assms(1) new_buffer_inv(1,3) _ assms(3), of now] assms(4) by (auto simp: new_buffer_inv(4))
  moreover have "mb_inv b" using mb_runs_effect [OF assms(1) new_buffer_inv(1)] by simp
  ultimately show ?thesis using slots_inv_answer [of now b n] assms(2,5) by (simp add: mb_inv_def)
qed

theorem reported_slots_are_free_witness:
  "\<exists>R' b out. foldM (mb_run 6) (take 2 ex_calls) (ex_ruby, new_buffer 3 True False, []) = Inr (R', b, out) \<and>
    length (mb_prio_heap b) + size (stalled_ids b) + 1 \<le> 3"
proof -
  obtain R' b out where r: "foldM (mb_run 6) (take 2 ex_calls) (ex_ruby, new_buffer 3 True False, []) = Inr (R', b, out)"
    and s: "fst (areNSlotsAvailable 1 0 b)"
    by (simp add: ex_calls_def buffer_eval cong: bnd_weak_cong)
  have h: "(0::nat) < 3" "sorted (map fst (take 2 ex_calls))"
    "\<forall>(t, op) \<in> set (take 2 ex_calls). t \<le> 0 \<and> (t = 0 \<longrightarrow> \<not> op_reanalyzes op)"
    by (simp_all add: ex_calls_def)
  from reported_slots_are_free [OF r h s] r show ?thesis by blast
qed

text \<open>
  C35. The restriction is needed. When a message was dequeued and then, in the same cycle, the \<open>k\<close> messages stalled for an
  address are put back, as many messages are in the buffer as before, but \<open>areNSlotsAvailable\<close> reports exactly \<open>k\<close> slots
  more than before: the size at the start of the cycle does not count the messages that were stalled then, and
  \<open>m_stall_map_size\<close> does not count them any more.
\<close>

theorem requeued_messages_not_counted:
  assumes "foldM (mb_run bits) ops (R, new_buffer cap ordered rnd, []) = Inr (R', b0, out)" and "0 < cap"
    and "mb_dequeue now decr b0 = Inr (delay, m, b, cb)" and "mb_reanalyzeMessages addr now b = Inr (b', evs)"
  shows "length (mb_prio_heap b') + size (stalled_ids b') = length (mb_prio_heap b) + size (stalled_ids b) \<and>
    fst (areNSlotsAvailable (n + length (map_get [] addr (mb_stall_msg_map b))) now b') = fst (areNSlotsAvailable n now b)"
proof -
  note inv = mb_runs_effect [OF assms(1) new_buffer_inv(1), THEN conjunct1]
  have "mb_inv b" by (rule dequeue_effect(1) [OF assms(3) inv])
  from reanalyzeMessages_effect(2) [OF assms(4) this] have "size (mb_ids b') = size (mb_ids b)" by simp
  moreover have "now \<le> mb_time_last_time_pop b" using assms(3) by (rule mb_dequeueE) simp
  moreover have "mb_max_size b0 = cap" using mb_runs_max_size [OF assms(1)] by (simp add: new_buffer_inv(4))
  then have "mb_max_size b = cap" using assms(3) by (elim mb_dequeueE mb_popE) simp
  ultimately show ?thesis using reanalyze_slots [OF assms(4)] assms(2) by (simp add: mb_ids_def size_heap_ids)
qed

theorem requeued_messages_not_counted_witness:
  "\<exists>R' b0 out delay m b cb b' evs. foldM (mb_run 6) (take 5 ex_calls) (ex_ruby, new_buffer 3 True False, []) = Inr (R', b0, out) \<and>
    mb_dequeue 2 True b0 = Inr (delay, m, b, cb) \<and> mb_reanalyzeMessages 0 2 b = Inr (b', evs) \<and>
    length (mb_prio_heap b') + size (stalled_ids b') = length (mb_prio_heap b) + size (stalled_ids b) \<and>
    length (mb_prio_heap b') = 2 \<and> fst (areNSlotsAvailable 2 2 b')"
proof -
  obtain R' b0 out delay m b cb b' evs where r: "foldM (mb_run 6) (take 5 ex_calls) (ex_ruby, new_buffer 3 True False, []) = Inr (R', b0, out)"
    and d: "mb_dequeue 2 True b0 = Inr (delay, m, b, cb)" and a: "mb_reanalyzeMessages 0 2 b = Inr (b', evs)"
    and l: "length (map_get [] 0 (mb_stall_msg_map b)) = 2" "fst (areNSlotsAvailable 0 2 b)" "length (mb_prio_heap b') = 2"
    by (simp add: ex_calls_def buffer_eval cong: bnd_weak_cong)
  from requeued_messages_not_counted [OF r _ d a, of 0] r d a l show ?thesis by (auto simp: numeral_2_eq_2)
qed

text \<open>
  Messages that were stalled for an address come back in the order in which they were stalled: after
  \<open>reanalyzeMessages\<close> the buffer gives out first what was due in it before, then these messages, then what is
  due later, and nothing else changes.
\<close>

lemma reanalyzed_in_order:
  assumes "foldM (mb_run bits) ops (R, new_buffer cap ordered rnd, []) = Inr (R', b, out)"
    and "mb_reanalyzeMessages addr now b = Inr (b', evs)"
  shows "\<exists>pre back post. take_messages (length (mb_prio_heap b')) b' = Inr (pre @ back @ post) \<and>
    map msg_id back = map msg_id (map_get [] addr (mb_stall_msg_map b)) \<and> mset (pre @ post) = mset (mb_prio_heap b) \<and>
    (\<forall>m \<in> set pre. msg_LastEnqueueTime m \<le> now) \<and> (\<forall>m \<in> set post. now < msg_LastEnqueueTime m)"
  using reanalyzeMessages_order [OF assms(2)] mb_runs_effect [OF assms(1) new_buffer_inv(1)]
    requeued_ids [of now "mb_msg_counter b" "map_get [] addr (mb_stall_msg_map b)"]
  by (fastforce simp: mb_msgs_def)

lemma reanalyzed_in_order_witness:
  "\<exists>R' b out b' evs pre back post. foldM (mb_run 6) (take 6 ex_calls) (ex_ruby, new_buffer 3 True False, []) = Inr (R', b, out) \<and>
    mb_reanalyzeMessages 0 2 b = Inr (b', evs) \<and> take_messages (length (mb_prio_heap b')) b' = Inr (pre @ back @ post) \<and>
    map msg_id back = [1, 2]"
proof -
  obtain R' b out b' evs where r: "foldM (mb_run 6) (take 6 ex_calls) (ex_ruby, new_buffer 3 True False, []) = Inr (R', b, out)"
    and a: "mb_reanalyzeMessages 0 2 b = Inr (b', evs)" and i: "map msg_id (map_get [] 0 (mb_stall_msg_map b)) = [1, 2]"
    by (simp add: ex_calls_def buffer_eval cong: bnd_weak_cong)
  from reanalyzed_in_order [OF r a] r a i show ?thesis by metis
qed

end
