(* ===== verification/Interface_Properties.thy ===== *)
theory Interface_Properties
  imports Interface_Multicast Buffer_Properties
begin

text \<open>
  The properties of network interfaces and of the whole system, and their instances on the two-router network of
  \<open>Mesh_Example\<close>: interface 0 has a message for node 1, or a marked flit has reached interface 1.
\<close>

section \<open>A system\<close>

definition ex_params :: ni_params where
  "ex_params = \<lparr>np_ni_inj = ''rr'', np_inj_single_vnet = 0, np_sim_type = 2, np_warmup_cycles = 0, np_clockPeriod = 1,
     np_machines = ex_machines, np_fresh_flit = ex_raw_flit\<rparr>"

definition ex_ifs :: "cycles \<Rightarrow> network_interface list" where
  "ex_ifs now = map (\<lambda>i. (ex_ni i)\<lparr>ni_router_id := int i, ni_inNetLink := 2 * i + 1, ni_outNetLink := 2 * i,
     ni_inCreditLink := 2 * i, ni_outCreditLink := 2 * i + 1, ni_out_vc_state := [ex_ovc True], ni_wakeups := [now]\<rparr>) [0, 1]"

definition ex_network :: "int \<Rightarrow> flit list \<Rightarrow> garnet_network" where
  "ex_network lock fs =
     (let net = ex_net 0 3 lock False None None in
      net\<lparr>gn_nis := ex_ifs 3, gn_networklinks := (gn_networklinks net)
           [3 := ex_link EXT_OUT (NIConsumer 1) (RouterOut 1 0) \<lparr>fb_buffer = fs, fb_max_size = int INFINITE\<rparr>]\<rparr>)"

definition ex_system :: "int \<Rightarrow> message list \<Rightarrow> flit list \<Rightarrow> (nat \<rightharpoonup> message) \<Rightarrow> nat \<Rightarrow> flow_stats \<Rightarrow> garnet_system" where
  "ex_system lock ms fs msgs k st =
     \<lparr>gs_net = ex_network lock fs,
      gs_nodes = [([Some ((new_buffer 0 False False)\<lparr>mb_prio_heap := ms\<rparr>)], [Some (new_buffer 0 False False)]),
                  ([Some (new_buffer 0 False False)], [Some (new_buffer 0 False False)])],
      gs_ruby = ex_ruby, gs_msgs = msgs, gs_next_msg = k, gs_stats = st, gs_requests = []\<rparr>"

lemma ex_network_sel [simp]:
  "gn_cycle (ex_network lock fs) = 3" "gn_lock (ex_network lock fs) = lock" "gn_config (ex_network lock fs) = ex_config 0"
  "gn_nis (ex_network lock fs) = ex_ifs 3" "length (gn_networklinks (ex_network lock fs)) = 6"
  "length (gn_creditlinks (ex_network lock fs)) = 6"
  "nl_linkBuffer (gn_networklinks (ex_network lock fs) ! Suc 0) = flitBuffer_new" "gn_creditlinks (ex_network lock fs) \<noteq> []"
  "nl_linkBuffer (gn_networklinks (ex_network lock fs) ! 3) = \<lparr>fb_buffer = fs, fb_max_size = int INFINITE\<rparr>"
  "nl_linkBuffer (gn_creditlinks (ex_network lock fs) ! 0) = flitBuffer_new"
  "nl_linkBuffer (gn_creditlinks (ex_network lock fs) ! 2) = flitBuffer_new"
  by (simp_all add: ex_network_def Let_def ex_net_def ex_link_def)

lemma ex_network_routers [simp]:
  "length (gn_routers (ex_network lock fs)) = 2" "list_all (\<lambda>r. r_mrkd_flt r \<le> 0) (gn_routers (ex_network lock fs))"
  "r_mrkd_flt (gn_routers (ex_network lock fs) ! 0) = 0"
  by (simp_all add: ex_network_def Let_def ex_net_def ex_router_def)

definition ex_marked :: flit where
  "ex_marked = flit_new ex_raw_flit 0 0 0 (ex_route 0 1) 1 (Some 0) 0 True"

definition ex_sending :: "int \<Rightarrow> garnet_system" where
  "ex_sending lock = ex_system lock [ex_message 5] [] Map.empty 0 (flow_stats_new 1 2)"

definition ex_arriving :: garnet_system where
  "ex_arriving = ex_system (-1) [] [ex_marked] [0 \<mapsto> ex_message 5] 1
     ((flow_stats_new 1 2)\<lparr>fs_flits_injected := [1], fs_marked_injected := 1\<rparr>)"

definition succeeds :: "'a res \<Rightarrow> bool" where
  "succeeds r = (case r of Inl _ \<Rightarrow> False | Inr _ \<Rightarrow> True)"

lemmas system_eval = ex_system_def ex_params_def ex_ifs_def ex_ni_def ex_ovc_def ex_config_def

lemmas interface_eval = load_ni_def ni_wakeup_ctx_def ni_inject_def ni_inject_vnet_def curTime_def cyclesToTicks_def
  scheduleOutputLink_def is_candidate_vc_def checkReschedule_def checkStallQueue_def ni_read_link_def ni_read_credit_def
  ni_credit_event_def consumeLink_def getTopFlit_def isReady_def receive_flit_def slot_available_def out_node_def
  put_out_node_def eject_flit_def stall_flit_def flit_message_def sendCredit_def at_def put_at_def wrap_next_def getSize_def

lemmas stats_eval = incrementStats_def flit_delays_def cycles_minus_def latency_updates increment_received_flits_def
  marked_flit_arrived_def stat_add_def stat_add_if_def copy_all_extremes_def copy_all_marked_def copy_extremes_def
  copy_marked_def sample_latency_def check_network_saturation_def check_mrkd_flt_def flow_stats_new_def latency_stats_new_def

lemmas flit_eval = set_dequeue_time_def flit_new_def ex_raw_flit_def is_tail_def flitBuffer_new_def Credit_new_def

lemmas inject_eval = flitisizeMessage_def flitisize_dest_def injection_vnet_def calculateVC_def calculateVC_rr.simps
  ni_vc_idle_def ovc_isInState_def inject_flit_def flit_route_of_def RouteInfo_new_def
  get_router_id_def mark_flit_def ticksToCycles_def cycles_minus_def count_injection_def increment_injected_flits_def
  increment_injected_packets_def ni_put_flit_def injected_flit_def set_src_delay_def set_head_def ni_send_flit_def
  ovc_has_credit_def ovc_decrement_credit_def ovc_setState_def ni_get_vnet_def isVNetOrdered_def insert_flit_def set_time_def

lemma ex_getAllDest: "NetDest_getAllDest ex_machines (ex_dest [1]) = [1]" "NetDest_getAllDest ex_machines (ex_dest [0, 1]) = [0, 1]"
  by code_simp+

lemma ex_NetDest_new: "NetDest_new ex_machines = Inr (ex_dest [])"
  by code_simp

lemmas dest_eval = ex_getAllDest [simplified] ex_NetDest_new

lemma succeeds_Inr: "succeeds r \<Longrightarrow> \<exists>x. r = Inr x"
  by (auto simp: succeeds_def split: sum.splits)

lemma ex_arriving_runs: "\<exists>S'. NetworkInterface_wakeup ex_params 1 ex_arriving = Inr S'"
  by (rule succeeds_Inr) (simp add: succeeds_def NetworkInterface_wakeup_def ex_arriving_def system_eval interface_eval stats_eval
     buffer_eval ex_marked_def flit_eval Let_def cong: bnd_weak_cong)

lemma ex_sending_runs: "\<exists>S'. NetworkInterface_wakeup ex_params 0 (ex_sending (-1)) = Inr S'"
  by (rule succeeds_Inr) (simp add: succeeds_def NetworkInterface_wakeup_def ex_sending_def system_eval interface_eval stats_eval
     buffer_eval inject_eval flit_eval Let_def dest_eval cong: bnd_weak_cong)

lemma ex_locked_runs: "\<exists>S'. NetworkInterface_wakeup ex_params 0 (ex_sending 0) = Inr S'"
  by (rule succeeds_Inr) (simp add: succeeds_def NetworkInterface_wakeup_def ex_sending_def system_eval interface_eval stats_eval
     buffer_eval flit_eval Let_def cong: bnd_weak_cong)

lemma ex_network_empty: "network_tags (ex_network lock []) = {#}"
  by (simp add: ex_network_def Let_def ex_net_def ex_router_def ex_in_def ex_out_def ex_link_def ex_vc_def ex_ifs_def ex_ni_def
      network_tags_def router_tags_def ni_tags_def input_tags_def vc_tags_def buffer_tags_def VirtualChannel_new_def
      flitBuffer_new_def flits_of_def)

lemma ex_network_marked: "network_tags (ex_network lock [ex_marked]) = {#flit_tag_of ex_marked#}"
  by (simp add: ex_network_def Let_def ex_net_def ex_router_def ex_in_def ex_out_def ex_link_def ex_vc_def ex_ifs_def ex_ni_def
      network_tags_def router_tags_def ni_tags_def input_tags_def vc_tags_def buffer_tags_def VirtualChannel_new_def
      flitBuffer_new_def flits_of_def)

lemma ex_sending_step: "\<exists>S'. sys_step ex_params (ex_sending (-1)) S' \<and> NetworkInterface_wakeup ex_params 0 (ex_sending (-1)) = Inr S'"
proof -
  obtain S' where w: "NetworkInterface_wakeup ex_params 0 (ex_sending (-1)) = Inr S'" using ex_sending_runs by blast
  then have "sys_step ex_params (ex_sending (-1)) S'"
    by (rule interface_step) (simp add: ex_sending_def ex_system_def ex_ifs_def)
  then show ?thesis using w by blast
qed

section \<open>The traffic of the system\<close>

text \<open>
  C13. The system refines the flow specification: seen through the flits in the network, the messages in flight and
  the counters, every step of a router, a link, the clock, a network interface or the protocol is a sequence of
  steps in each of which one packet enters the network with a message of its own and is counted, or one packet
  leaves it and is counted.
\<close>

theorem system_refines_flow:
  assumes "sys_step P S S'"
  shows "(flow_step P)\<^sup>*\<^sup>* (system_flow S) (system_flow S')"
  using assms by (rule sys_step_flow)

theorem system_refines_flow_witness:
  "\<exists>S'. NetworkInterface_wakeup ex_params 0 (ex_sending (-1)) = Inr S' \<and>
     (flow_step ex_params)\<^sup>*\<^sup>* (system_flow (ex_sending (-1))) (system_flow S')"
  using ex_sending_step system_refines_flow by blast

text \<open>
  C12. The books balance. In every state that a system that starts empty can reach, for every virtual network the
  number of flits injected is the number of flits received plus the number of flits in routers, links and
  interfaces; the same holds of the marked flits.
\<close>

theorem network_accounts_for_flits:
  assumes "(sys_step P)\<^sup>*\<^sup>* S S'" and "network_tags (gs_net S) = {#}" and "gs_stats S = flow_stats_new vnets routers"
  shows "fs_flits_injected (gs_stats S') ! v =
      fs_flits_received (gs_stats S') ! v + size {#t \<in># network_tags (gs_net S'). tag_vnet t = int v#} \<and>
    fs_marked_injected (gs_stats S') =
      fs_marked_received (gs_stats S') + size (filter_mset tag_marked (network_tags (gs_net S')))"
  using vnet_flow.system_balance [OF assms(1), of v] marked_flow.system_balance [OF assms(1)] assms(2,3)
  by (simp add: selected_def flow_stats_new_def Let_def)

theorem network_accounts_for_flits_witness:
  "\<exists>S'. NetworkInterface_wakeup ex_params 0 (ex_sending (-1)) = Inr S' \<and> fs_flits_injected (gs_stats S') ! 0 =
     fs_flits_received (gs_stats S') ! 0 + size {#t \<in># network_tags (gs_net S'). tag_vnet t = int 0#}"
proof -
  obtain S' where s: "(sys_step ex_params)\<^sup>*\<^sup>* (ex_sending (-1)) S'" "NetworkInterface_wakeup ex_params 0 (ex_sending (-1)) = Inr S'"
    using ex_sending_step by blast
  have "network_tags (gs_net (ex_sending (-1))) = {#}" "gs_stats (ex_sending (-1)) = flow_stats_new 1 2"
    by (simp_all add: ex_sending_def ex_system_def ex_network_empty)
  from network_accounts_for_flits [OF s(1) this] s(2) show ?thesis by blast
qed

text \<open>
  Every flit in the network carries a message, no two flits share one, and every message in flight has its flit,
  in every state that a system that starts empty can reach: \<open>get_msg_ptr\<close> never returns a null or stale pointer.
\<close>

lemma flits_own_their_messages:
  assumes "(sys_step P)\<^sup>*\<^sup>* S S'" and "network_tags (gs_net S) = {#}" and "gs_msgs S = Map.empty"
  shows "finite (dom (gs_msgs S')) \<and>
    image_mset tag_msg_ptr (network_tags (gs_net S')) = image_mset Some (mset_set (dom (gs_msgs S')))"
proof -
  have "keys_inv (system_flow S)" using assms(2,3) by (simp add: keys_inv_def system_flow_def)
  from flow_keys [OF sys_steps_flow [OF assms(1)] this] show ?thesis by (simp add: keys_inv_def system_flow_def)
qed

lemma flits_own_their_messages_witness:
  "\<exists>S'. NetworkInterface_wakeup ex_params 0 (ex_sending (-1)) = Inr S' \<and>
     image_mset tag_msg_ptr (network_tags (gs_net S')) = image_mset Some (mset_set (dom (gs_msgs S')))"
proof -
  obtain S' where s: "(sys_step ex_params)\<^sup>*\<^sup>* (ex_sending (-1)) S'" "NetworkInterface_wakeup ex_params 0 (ex_sending (-1)) = Inr S'"
    using ex_sending_step by blast
  have "network_tags (gs_net (ex_sending (-1))) = {#}" "gs_msgs (ex_sending (-1)) = Map.empty"
    by (simp_all add: ex_sending_def ex_system_def ex_network_empty)
  from flits_own_their_messages [OF s(1) this] s(2) show ?thesis by blast
qed

section \<open>Ejection\<close>

lemma schedule_credits: "map ni_outCreditQueue (gn_nis (schedule_events es net)) = map ni_outCreditQueue (gn_nis net)"
proof -
  have "map ni_outCreditQueue (gn_nis (schedule_one e net)) = map ni_outCreditQueue (gn_nis net)" for e net
    by (auto simp: schedule_one_def map_count_up split: prod.splits consumer_ref.splits)
  then show ?thesis unfolding schedule_events_def by (induction es arbitrary: net) auto
qed

abbreviation credit_queue :: "garnet_system \<Rightarrow> nat \<Rightarrow> credit flit_buffer" where
  "credit_queue S i \<equiv> ni_outCreditQueue (gn_nis (gs_net S) ! i)"

abbreviation protocol_msgs :: "garnet_system \<Rightarrow> nat \<Rightarrow> message multiset option list" where
  "protocol_msgs S i \<equiv> node_msgs (snd (gs_nodes S ! i))"

lemma wakeup_ejects:
  assumes "NetworkInterface_wakeup P i S = Inr S'"
  obtains s1 where "fs_flits_received s1 = fs_flits_received (gs_stats S)" "fs_marked_received s1 = fs_marked_received (gs_stats S)"
    "fs_exits s1 = fs_exits (gs_stats S)"
    "(gs_stats S' = s1 \<and> credit_queue S' i = credit_queue S i \<and> protocol_msgs S' i = protocol_msgs S i) \<or>
     (\<exists>f net k m d a c M. can_leave (gn_nis (gs_net S) ! i) (gs_net S) f \<and> incrementStats P f net s1 = Inr (gs_stats S') \<and>
        credit_queue S' i =
          insert_flit (Credit_new (nc_fresh_credit (gn_config (gs_net S))) (fl_vc f) True (gn_cycle (gs_net S))) (credit_queue S i) \<and>
        fl_msg_ptr f = Some k \<and> (k < gs_next_msg S \<longrightarrow> gs_msgs S k = Some m) \<and> gs_msgs S' k = None \<and>
        0 \<le> fl_vnet f \<and> nat (fl_vnet f) < length (protocol_msgs S i) \<and> protocol_msgs S i ! nat (fl_vnet f) = Some M \<and>
        protocol_msgs S' i = (protocol_msgs S i)[nat (fl_vnet f) :=
          Some (add_mset (m\<lparr>msg_DelayedTicks := d, msg_LastEnqueueTime := a, msg_counter := c\<rparr>) M)])"
  using assms
proof (cases rule: NetworkInterface_wakeup_cases)
  case (1 cx cx')
  from 1(2) obtain cx1 where c: "ctx_frame cx1 = ctx_frame cx" "eject_view cx1 = eject_view cx" "keeps_msgs cx cx1"
    "none_ejected cx1 cx' \<or> (\<exists>f. can_leave (nx_ni cx) (nx_net cx) f \<and> one_ejected P f cx1 cx')" by (rule ni_wakeup_ctx_ejects)
  have "gn_nis (nx_net cx') = gn_nis (gs_net S)"
    using ni_wakeup_ctx_flows [OF 1(2), of "{#}"] 1(6) by (simp add: flows_def ctx_frame_def)
  then have "map ni_outCreditQueue (gn_nis (gs_net S')) = (map ni_outCreditQueue (gn_nis (gs_net S)))[i := nx_credits cx']"
    by (simp add: 1(3) store_ni_def schedule_credits map_update)
  then have q: "credit_queue S' i = nx_credits cx'"
    by (metis 1(4) length_list_update length_map nth_list_update_eq nth_map)
  have o: "i < length (gs_nodes S)" "nx_outNode cx = snd (gs_nodes S ! i)"
    using 1(1) by (auto simp: load_ni_def at_eq_Inr) (metis snd_conv)
  then have o': "protocol_msgs S' i = node_msgs (nx_outNode cx')" "gs_stats S' = nx_stats cx'" "gs_msgs S' = nx_msgs cx'"
    by (simp_all add: 1(3) store_ni_def)
  have v: "nx_outNode cx1 = nx_outNode cx" "nx_credits cx1 = credit_queue S i" "gn_config (nx_net cx1) = gn_config (gs_net S)"
    "gn_cycle (nx_net cx1) = gn_cycle (gs_net S)" using c(1,2) 1 by (simp_all add: eject_view_def ctx_frame_def)
  have k: "nx_msgs cx1 k = gs_msgs S k" if "k < gs_next_msg S" for k using c(3) that 1 by (simp add: keeps_msgs_def)
  have "(gs_stats S' = nx_stats cx1 \<and> credit_queue S' i = credit_queue S i \<and> protocol_msgs S' i = protocol_msgs S i) \<or>
     (\<exists>f net k m d a c M. can_leave (gn_nis (gs_net S) ! i) (gs_net S) f \<and> incrementStats P f net (nx_stats cx1) = Inr (gs_stats S') \<and>
        credit_queue S' i =
          insert_flit (Credit_new (nc_fresh_credit (gn_config (gs_net S))) (fl_vc f) True (gn_cycle (gs_net S))) (credit_queue S i) \<and>
        fl_msg_ptr f = Some k \<and> (k < gs_next_msg S \<longrightarrow> gs_msgs S k = Some m) \<and> gs_msgs S' k = None \<and>
        0 \<le> fl_vnet f \<and> nat (fl_vnet f) < length (protocol_msgs S i) \<and> protocol_msgs S i ! nat (fl_vnet f) = Some M \<and>
        protocol_msgs S' i = (protocol_msgs S i)[nat (fl_vnet f) :=
          Some (add_mset (m\<lparr>msg_DelayedTicks := d, msg_LastEnqueueTime := a, msg_counter := c\<rparr>) M)])"
    using c(4)
  proof (elim disjE exE conjE)
    assume "none_ejected cx1 cx'"
    then show ?thesis using q o(2) o' v by (simp add: none_ejected_def)
  next
    fix f assume f: "can_leave (nx_ni cx) (nx_net cx) f" and "one_ejected P f cx1 cx'"
    then obtain net k m d a c M where e: "incrementStats P f net (nx_stats cx1) = Inr (nx_stats cx')"
      "nx_credits cx' = insert_flit (Credit_new (nc_fresh_credit (gn_config (nx_net cx1))) (fl_vc f) True (nx_now cx1)) (nx_credits cx1)"
      "fl_msg_ptr f = Some k" "nx_msgs cx1 k = Some m" "nx_msgs cx' = (nx_msgs cx1)(k := None)"
      "0 \<le> fl_vnet f" "nat (fl_vnet f) < length (nx_outNode cx1)" "node_msgs (nx_outNode cx1) ! nat (fl_vnet f) = Some M"
      "node_msgs (nx_outNode cx') = (node_msgs (nx_outNode cx1))[nat (fl_vnet f) :=
         Some (add_mset (m\<lparr>msg_DelayedTicks := d, msg_LastEnqueueTime := a, msg_counter := c\<rparr>) M)]"
      unfolding one_ejected_def by blast
    show ?thesis
      by (rule disjI2, rule exI [of _ f], rule exI [of _ net], rule exI [of _ k], rule exI [of _ m], rule exI [of _ d],
          rule exI [of _ a], rule exI [of _ c], rule exI [of _ M])
        (use f e 1(5,6) q o(2) o' v k [of k] in \<open>simp add: node_msgs_def\<close>)
  qed
  then show thesis using c(2) 1 by (intro that [of "nx_stats cx1"]) (simp_all add: eject_view_def)
qed

text \<open>
  C36. In one wakeup an interface hands at most one message to the protocol. If it hands over none, the messages in the
  protocol's buffers, the counters of received flits and the queue of credits are unchanged. Otherwise there is a flit
  that was stalled or that the link has just delivered: its message is taken out of the network and is, apart from
  its times and its counter, the one message more in the buffer of the flit's virtual network, all other
  buffers being unchanged; the flit is counted for this virtual network; and exactly one credit is queued, with
  the free signal, for the virtual channel of this flit.
\<close>

theorem one_message_per_wakeup:
  assumes "NetworkInterface_wakeup P i S = Inr S'"
  shows "(fs_flits_received (gs_stats S') = fs_flits_received (gs_stats S) \<and> credit_queue S' i = credit_queue S i \<and>
     protocol_msgs S' i = protocol_msgs S i) \<or>
    (\<exists>f v k m d a c M. can_leave (gn_nis (gs_net S) ! i) (gs_net S) f \<and> fl_vnet f = int v \<and>
       v < length (fs_flits_received (gs_stats S)) \<and>
       fs_flits_received (gs_stats S') = (fs_flits_received (gs_stats S))[v := fs_flits_received (gs_stats S) ! v + 1] \<and>
       flits_of (credit_queue S' i) = add_mset
         (Credit_new (nc_fresh_credit (gn_config (gs_net S))) (fl_vc f) True (gn_cycle (gs_net S))) (flits_of (credit_queue S i)) \<and>
       fl_msg_ptr f = Some k \<and> (k < gs_next_msg S \<longrightarrow> gs_msgs S k = Some m) \<and> gs_msgs S' k = None \<and>
       v < length (protocol_msgs S i) \<and> protocol_msgs S i ! v = Some M \<and>
       protocol_msgs S' i = (protocol_msgs S i)[v :=
         Some (add_mset (m\<lparr>msg_DelayedTicks := d, msg_LastEnqueueTime := a, msg_counter := c\<rparr>) M)])"
  using assms
proof (rule wakeup_ejects)
  fix s1
  assume s1: "fs_flits_received s1 = fs_flits_received (gs_stats S)"
    and e: "(gs_stats S' = s1 \<and> credit_queue S' i = credit_queue S i \<and> protocol_msgs S' i = protocol_msgs S i) \<or>
     (\<exists>f net k m d a c M. can_leave (gn_nis (gs_net S) ! i) (gs_net S) f \<and> incrementStats P f net s1 = Inr (gs_stats S') \<and>
        credit_queue S' i =
          insert_flit (Credit_new (nc_fresh_credit (gn_config (gs_net S))) (fl_vc f) True (gn_cycle (gs_net S))) (credit_queue S i) \<and>
        fl_msg_ptr f = Some k \<and> (k < gs_next_msg S \<longrightarrow> gs_msgs S k = Some m) \<and> gs_msgs S' k = None \<and>
        0 \<le> fl_vnet f \<and> nat (fl_vnet f) < length (protocol_msgs S i) \<and> protocol_msgs S i ! nat (fl_vnet f) = Some M \<and>
        protocol_msgs S' i = (protocol_msgs S i)[nat (fl_vnet f) :=
          Some (add_mset (m\<lparr>msg_DelayedTicks := d, msg_LastEnqueueTime := a, msg_counter := c\<rparr>) M)])"
  from e show ?thesis
  proof (elim disjE exE conjE)
    fix f net k m d a c M
    assume i: "incrementStats P f net s1 = Inr (gs_stats S')" and v: "0 \<le> fl_vnet f"
      and h: "can_leave (gn_nis (gs_net S) ! i) (gs_net S) f" "fl_msg_ptr f = Some k" "k < gs_next_msg S \<longrightarrow> gs_msgs S k = Some m"
        "gs_msgs S' k = None" "nat (fl_vnet f) < length (protocol_msgs S i)" "protocol_msgs S i ! nat (fl_vnet f) = Some M"
        "protocol_msgs S' i = (protocol_msgs S i)[nat (fl_vnet f) :=
           Some (add_mset (m\<lparr>msg_DelayedTicks := d, msg_LastEnqueueTime := a, msg_counter := c\<rparr>) M)]"
      and q: "credit_queue S' i = insert_flit (Credit_new (nc_fresh_credit (gn_config (gs_net S))) (fl_vc f) True (gn_cycle (gs_net S))) (credit_queue S i)"
    from i have r: "nat (fl_vnet f) < length (fs_flits_received s1)"
      "fs_flits_received (gs_stats S') = (fs_flits_received s1)[nat (fl_vnet f) := fs_flits_received s1 ! nat (fl_vnet f) + 1]"
      by (auto elim!: incrementStats_steps dest: received_counts(1,2) simp: counts_def)
    show ?thesis
      by (rule disjI2, rule exI [of _ f], rule exI [of _ "nat (fl_vnet f)"], rule exI [of _ k], rule exI [of _ m],
          rule exI [of _ d], rule exI [of _ a], rule exI [of _ c], rule exI [of _ M])
        (use r h v q s1 in simp)
  qed (simp add: s1)
qed

lemma ex_arriving_received:
  "\<exists>S'. NetworkInterface_wakeup ex_params 1 ex_arriving = Inr S' \<and> fs_flits_received (gs_stats S') = [1]"
proof -
  have "case NetworkInterface_wakeup ex_params 1 ex_arriving of Inl _ \<Rightarrow> False | Inr S' \<Rightarrow> fs_flits_received (gs_stats S') = [1]"
    by (simp add: NetworkInterface_wakeup_def ex_arriving_def system_eval interface_eval stats_eval buffer_eval ex_marked_def
        flit_eval Let_def store_ni_def cong: bnd_weak_cong)
  then show ?thesis by (auto split: sum.splits)
qed

theorem one_message_per_wakeup_witness:
  "\<exists>S' f k M m'. NetworkInterface_wakeup ex_params 1 ex_arriving = Inr S' \<and> fs_flits_received (gs_stats S') = [1] \<and>
    can_leave (gn_nis (gs_net ex_arriving) ! 1) (gs_net ex_arriving) f \<and> fl_msg_ptr f = Some k \<and> gs_msgs S' k = None \<and>
    protocol_msgs ex_arriving 1 ! 0 = Some M \<and> protocol_msgs S' 1 ! 0 = Some (add_mset m' M) \<and>
    flits_of (credit_queue S' 1) = add_mset (Credit_new ex_credit (fl_vc f) True 3) (flits_of (credit_queue ex_arriving 1))"
proof -
  obtain S' where w: "NetworkInterface_wakeup ex_params 1 ex_arriving = Inr S'" "fs_flits_received (gs_stats S') = [1]"
    using ex_arriving_received by blast
  have x: "fs_flits_received (gs_stats ex_arriving) = [0]" "nc_fresh_credit (gn_config (gs_net ex_arriving)) = ex_credit"
    "gn_cycle (gs_net ex_arriving) = 3"
    by (simp_all add: ex_arriving_def ex_system_def flow_stats_new_def Let_def ex_config_def)
  from one_message_per_wakeup [OF w(1)] show ?thesis unfolding w(2) x
  proof (elim disjE conjE exE)
    fix f v k m d a c M
    assume "can_leave (gn_nis (gs_net ex_arriving) ! 1) (gs_net ex_arriving) f" "v < length [0]" "fl_msg_ptr f = Some k" "gs_msgs S' k = None"
      "v < length (protocol_msgs ex_arriving 1)" "protocol_msgs ex_arriving 1 ! v = Some M"
      "protocol_msgs S' 1 = (protocol_msgs ex_arriving 1)[v :=
         Some (add_mset (m\<lparr>msg_DelayedTicks := d, msg_LastEnqueueTime := a, msg_counter := c\<rparr>) M)]"
      "flits_of (credit_queue S' 1) = add_mset (Credit_new ex_credit (fl_vc f) True 3) (flits_of (credit_queue ex_arriving 1))"
    then show ?thesis using w by auto
  qed simp
qed

text \<open>
  The simulation is asked to stop because all marked packets were received only when that is so: in a state in
  which the books of the marked flits balance, as they do in every reachable one, after a wakeup that makes the
  request no marked flit is left in routers, links or interfaces.
\<close>

lemma stops_when_marked_received:
  assumes "NetworkInterface_wakeup P i S = Inr S'"
    and "fs_marked_injected (gs_stats S) =
      fs_marked_received (gs_stats S) + size (filter_mset tag_marked (network_tags (gs_net S)))"
    and "count_list (fs_exits (gs_stats S)) all_received < count_list (fs_exits (gs_stats S')) all_received"
  shows "\<forall>t \<in># network_tags (gs_net S'). \<not> tag_marked t"
proof -
  have "fs_marked_injected (gs_stats S) = fs_marked_received (gs_stats S) + selected (\<lambda>_ m. m) (network_tags (gs_net S))"
    using assms(2) by (simp add: selected_def)
  then have books: "fs_marked_injected (gs_stats S') = fs_marked_received (gs_stats S') + selected (\<lambda>_ m. m) (network_tags (gs_net S'))"
    using marked_flow.flow_balance [OF NetworkInterface_wakeup_flow [OF assms(1)]] by (simp add: system_flow_def)
  from assms(1) obtain s1 where x1: "fs_exits s1 = fs_exits (gs_stats S)"
    and e: "gs_stats S' = s1 \<or> (\<exists>f net. incrementStats P f net s1 = Inr (gs_stats S'))"
    by (rule wakeup_ejects) blast
  then obtain f net where i: "incrementStats P f net s1 = Inr (gs_stats S')" using assms(3) by auto
  from i have "fs_marked_injected (gs_stats S') = fs_marked_received (gs_stats S')"
  proof (cases rule: incrementStats_steps)
    case (1 s2 xs nd qd)
    have "fs_exits s2 \<noteq> fs_exits s1" using 1(3,4) assms(3) x1 by (auto simp: count_notin)
    then show ?thesis using received_counts(3) [OF 1(1)] 1(2) by (auto simp: counts_def)
  qed
  then show ?thesis using books by (simp add: selected_def)
qed

lemma ex_last_marked:
  "\<exists>S'. NetworkInterface_wakeup ex_params 1 ex_arriving = Inr S' \<and> fs_exits (gs_stats S') = [all_received]"
proof -
  have "case NetworkInterface_wakeup ex_params 1 ex_arriving of Inl _ \<Rightarrow> False | Inr S' \<Rightarrow> fs_exits (gs_stats S') = [all_received]"
    by (simp add: NetworkInterface_wakeup_def ex_arriving_def system_eval interface_eval stats_eval buffer_eval ex_marked_def
        flit_eval Let_def all_received_def store_ni_def cong: bnd_weak_cong)
  then show ?thesis by (auto split: sum.splits)
qed

lemma stops_when_marked_received_witness:
  "\<exists>S'. NetworkInterface_wakeup ex_params 1 ex_arriving = Inr S' \<and> (\<forall>t \<in># network_tags (gs_net S'). \<not> tag_marked t)"
proof -
  obtain S' where w: "NetworkInterface_wakeup ex_params 1 ex_arriving = Inr S'" "fs_exits (gs_stats S') = [all_received]"
    using ex_last_marked by blast
  have "fs_exits (gs_stats ex_arriving) = []" "fs_marked_injected (gs_stats ex_arriving) =
      fs_marked_received (gs_stats ex_arriving) + size (filter_mset tag_marked (network_tags (gs_net ex_arriving)))"
    by (simp_all add: ex_arriving_def ex_system_def ex_network_marked flow_stats_new_def Let_def)
      (simp add: ex_marked_def flit_new_def)
  with stops_when_marked_received [OF w(1)] w show ?thesis by auto
qed

section \<open>The lock\<close>

text \<open>
  C15. While a router holds the lock for a drain, a network interface takes nothing from the protocol and adds
  nothing to the network: its wakeup leaves the incoming message buffers as they are, counts no injection and
  leaves no flit and no message in flight that was not there before.
\<close>

theorem no_injection_during_drain:
  assumes "NetworkInterface_wakeup P i S = Inr S'" and "gn_lock (gs_net S) \<noteq> -1"
  shows "map fst (gs_nodes S') = map fst (gs_nodes S) \<and> network_tags (gs_net S') \<subseteq># network_tags (gs_net S) \<and>
    dom (gs_msgs S') \<subseteq> dom (gs_msgs S) \<and> fs_flits_injected (gs_stats S') = fs_flits_injected (gs_stats S)"
  using assms(1)
proof (cases rule: NetworkInterface_wakeup_cases)
  case (1 cx cx')
  have v: "inject_view cx' = inject_view cx" using 1(2) assms(2) by (intro locked_wakeup_inject_view) (simp_all add: 1(6))
  have "fw_next (system_flow S') = fw_next (system_flow S)"
    using v by (simp add: system_flow_def 1(3,8) store_ni_def inject_view_def)
  then have "fw_tags (system_flow S') \<subseteq># fw_tags (system_flow S) \<and> fw_keys (system_flow S') \<subseteq> fw_keys (system_flow S) \<and>
      fs_flits_injected (fw_stats (system_flow S')) = fs_flits_injected (fw_stats (system_flow S))"
    using flow_next [OF NetworkInterface_wakeup_flow [OF assms(1)]] by blast
  moreover have "i < length (gs_nodes S)" "nx_inNode cx = fst (gs_nodes S ! i)"
    using 1(1) by (auto simp: load_ni_def at_eq_Inr) (metis fst_conv)
  then have "map fst (gs_nodes S') = map fst (gs_nodes S)"
    using v by (simp add: 1(3) store_ni_def map_update inject_view_def)
      (metis length_map list_update_id nth_map)
  ultimately show ?thesis by (simp add: system_flow_def)
qed

theorem no_injection_during_drain_witness:
  "\<exists>S'. NetworkInterface_wakeup ex_params 0 (ex_sending 0) = Inr S' \<and> map fst (gs_nodes S') = map fst (gs_nodes (ex_sending 0)) \<and>
    fs_flits_injected (gs_stats S') = [0]"
proof -
  obtain S' where w: "NetworkInterface_wakeup ex_params 0 (ex_sending 0) = Inr S'" using ex_locked_runs by blast
  have "gn_lock (gs_net (ex_sending 0)) \<noteq> -1" "fs_flits_injected (gs_stats (ex_sending 0)) = [0]"
    by (simp_all add: ex_sending_def ex_system_def flow_stats_new_def Let_def)
  with no_injection_during_drain [OF w] w show ?thesis by auto
qed

section \<open>Multicast\<close>

text \<open>
  C14. A message with any set of destinations is sent exactly once to each of them. Whatever states the interface
  is in when it comes to the message again, because there was no free virtual channel for the rest of its
  destinations, the flits of all attempts up to the one that reports success have, together, each node of the
  destination exactly once as their destination.
\<close>

theorem multicast_exactly_once:
  assumes "retry_message P vnet m cxs = Inr (True, F)"
    and "machines_ok (np_machines P)" and "dest_ok (np_machines P) (msg_destination m)"
  shows "image_mset (\<lambda>f. ri_dest_ni (fl_route f)) F =
    image_mset int (mset (NetDest_getAllDest (np_machines P) (msg_destination m)))"
  using assms by (rule retry_message_dests)

definition ex_ni_cx :: ni_ctx where
  "ex_ni_cx = \<lparr>nx_ni = ex_ifs 3 ! 0, nx_net = ex_network (-1) [], nx_inNode = [], nx_outNode = [], nx_ruby = ex_ruby,
     nx_msgs = Map.empty, nx_next_msg = 0, nx_stats = flow_stats_new 1 2, nx_events = [], nx_requests = []\<rparr>"

definition ex_multicast :: message where
  "ex_multicast = (ex_message 5)\<lparr>msg_destination := ex_dest [0, 1]\<rparr>"

lemma ex_split_dest:
  "personal_dest ex_machines 0 (ex_dest [0, 1]) = Inr (ex_dest [0], ex_dest [0])"
  "NetDest_removeNetDest (ex_dest [0, 1]) (ex_dest [0]) = Inr (ex_dest [1])"
  by code_simp+

text \<open>The first attempt finds one channel, for node 0; the second one sends the message to node 1.\<close>

lemma ex_multicast_runs: "\<exists>F. retry_message ex_params 0 ex_multicast [ex_ni_cx, ex_ni_cx] = Inr (True, F)"
proof -
  have "case retry_message ex_params 0 ex_multicast [ex_ni_cx, ex_ni_cx] of Inl _ \<Rightarrow> False | Inr p \<Rightarrow> fst p"
    by (simp add: ex_ni_cx_def ex_multicast_def system_eval interface_eval stats_eval buffer_eval inject_eval flit_eval Let_def
        dest_eval ex_split_dest [simplified] cong: bnd_weak_cong)
  then show ?thesis by (auto split: sum.splits)
qed

lemma ex_multicast_ok: "machines_ok ex_machines" "dest_ok ex_machines (ex_dest [0, 1])"
  by (auto simp: machines_ok_def ex_machines_def NUMBER_BITS_PER_SET_def dest_ok_def ex_dest_def set_elems_def bit_simps)

theorem multicast_exactly_once_witness:
  "\<exists>F. retry_message ex_params 0 ex_multicast [ex_ni_cx, ex_ni_cx] = Inr (True, F) \<and>
     image_mset (\<lambda>f. ri_dest_ni (fl_route f)) F = {#0, 1#}"
proof -
  obtain F where r: "retry_message ex_params 0 ex_multicast [ex_ni_cx, ex_ni_cx] = Inr (True, F)" using ex_multicast_runs by blast
  have M: "np_machines ex_params = ex_machines" "msg_destination ex_multicast = ex_dest [0, 1]"
    by (simp_all add: ex_params_def ex_multicast_def)
  have "image_mset (\<lambda>f. ri_dest_ni (fl_route f)) F = {#0, 1#}"
    using multicast_exactly_once [OF r, unfolded M, OF ex_multicast_ok] unfolding ex_getAllDest by simp
  with r show ?thesis by blast
qed


section \<open>Virtual channels and the output link\<close>

text \<open>
  C38. \<open>calculateVC\<close> is a search: in a well-formed interface it always returns, and what it returns is the first idle
  channel of the virtual network in cyclic order from the allocator's pointer (\<open>rr\<close>) or from the lowest channel
  (\<open>fcfs\<close>), or nothing if no channel of the network is idle.
\<close>

theorem calculateVC_is_search:
  assumes "vnet < length (ni_vc_allocator n)" and "ni_vc_allocator n ! vnet < ni_vc_per_vnet n"
    and "(vnet + 1) * ni_vc_per_vnet n \<le> length (ni_out_vc_state n)" and "vnet < length (ni_vc_busy_counter n)"
    and "np_ni_inj P = ''rr'' \<or> np_ni_inj P = ''fcfs''"
  shows "\<exists>n'. calculateVC P now vnet n = Inr (find (\<lambda>vc. ovc_isInState (ni_out_vc_state n ! vc) IDLE now)
    (map (\<lambda>k. vnet * ni_vc_per_vnet n +
        ((if np_ni_inj P = ''rr'' then ni_vc_allocator n ! vnet else 0) + k) mod ni_vc_per_vnet n)
      [0..<ni_vc_per_vnet n]), n')"
  using calculateVC_find [OF assms] by simp

theorem calculateVC_is_search_witness: "\<exists>n'. calculateVC ex_params 3 0 (ex_ifs 3 ! 0) = Inr (Some 0, n')"
  using calculateVC_is_search [of 0 "ex_ifs 3 ! 0" ex_params 3] by (simp add: system_eval ovc_isInState_def)

lemma is_candidate_round_robin [simp]:
  "is_candidate_vc C now (n\<lparr>ni_vc_round_robin := r\<rparr>) = is_candidate_vc C now n"
proof -
  have "older_packet now (n\<lparr>ni_vc_round_robin := r\<rparr>) vc = older_packet now n vc" for vc
    by (rule ext) (simp add: older_packet_def cong: if_cong)
  then have older: "older_packet now (n\<lparr>ni_vc_round_robin := r\<rparr>) = older_packet now n" by (rule ext)
  show ?thesis by (rule ext) (simp add: is_candidate_vc_def ni_get_vnet_def older cong: if_cong)
qed

text \<open>What a candidate is: ready, with a credit, and in an ordered network not preceded by an older packet.\<close>

lemma is_candidate_True:
  assumes "is_candidate_vc C now n vc = Inr True"
  shows "isReady (ni_out_vcs n ! vc) now" "ovc_has_credit (ni_out_vc_state n ! vc)"
    and "ni_get_vnet n vc = Inr v \<Longrightarrow> isVNetOrdered C v = Inr True \<Longrightarrow> k < ni_vc_per_vnet n \<Longrightarrow>
      isReady (ni_out_vcs n ! (v * ni_vc_per_vnet n + k)) now \<Longrightarrow>
      ni_out_vcs_enqueue_time n ! vc \<le> ni_out_vcs_enqueue_time n ! (v * ni_vc_per_vnet n + k)"
proof -
  show "isReady (ni_out_vcs n ! vc) now" "ovc_has_credit (ni_out_vc_state n ! vc)"
    using assms by (auto simp: is_candidate_vc_def at_eq_Inr split: if_splits)
  assume o: "ni_get_vnet n vc = Inr v" "isVNetOrdered C v = Inr True" and k: "k < ni_vc_per_vnet n"
    and r: "isReady (ni_out_vcs n ! (v * ni_vc_per_vnet n + k)) now"
  let ?t = "v * ni_vc_per_vnet n + k"
  have f: "findM (older_packet now n vc) (map (\<lambda>k. v * ni_vc_per_vnet n + k) [0..<ni_vc_per_vnet n]) = Inr None"
    using assms o by (auto simp: is_candidate_vc_def split: if_splits)
  have "?t \<in> set (map (\<lambda>k. v * ni_vc_per_vnet n + k) [0..<ni_vc_per_vnet n])" using k by simp
  from findM_None [OF f this] r show "ni_out_vcs_enqueue_time n ! vc \<le> ni_out_vcs_enqueue_time n ! ?t"
    by (auto simp: older_packet_def at_eq_Inr simp flip: of_nat_mult of_nat_add split: if_splits)
qed

text \<open>
  C37. The output link of an interface is work-conserving and obeys the credits. In a wakeup either no channel is a
  candidate and nothing is sent, or exactly one flit is: the front of a channel that is ready and has a credit,
  which is spent; it enters the queue of the link for the next cycle, when the link is woken up. In an ordered
  virtual network no packet that is ready was enqueued before the one that is sent.
\<close>

theorem output_link_serves_one:
  assumes "scheduleOutputLink C now n = Inr (n', es)" and "ni_vc_round_robin n < ni_num_vcs n"
  shows "(es = [] \<and> ni_out_vcs n' = ni_out_vcs n \<and> ni_outFlitQueue n' = ni_outFlitQueue n \<and>
      (\<forall>vc < ni_num_vcs n. is_candidate_vc C now n vc = Inr False)) \<or>
    (\<exists>vc f b. vc < ni_num_vcs n \<and> es = [(NetLinkConsumer (ni_outNetLink n), now + 1)] \<and>
      getTopFlit (ni_out_vcs n ! vc) = Inr (f, b) \<and> fl_time f \<le> now \<and> ni_out_vcs n' = (ni_out_vcs n)[vc := b] \<and>
      flits_of (ni_outFlitQueue n') = add_mset (set_time (now + 1) f) (flits_of (ni_outFlitQueue n)) \<and>
      0 < ovc_credit_count (ni_out_vc_state n ! vc) \<and>
      ovc_credit_count (ni_out_vc_state n' ! vc) = ovc_credit_count (ni_out_vc_state n ! vc) - 1 \<and>
      (\<forall>v k. ni_get_vnet n vc = Inr v \<and> isVNetOrdered C v = Inr True \<and> k < ni_vc_per_vnet n \<and>
         isReady (ni_out_vcs n ! (v * ni_vc_per_vnet n + k)) now \<longrightarrow>
         ni_out_vcs_enqueue_time n ! vc \<le> ni_out_vcs_enqueue_time n ! (v * ni_vc_per_vnet n + k)))"
proof -
  let ?ring = "vc_ring (ni_num_vcs n) (ni_vc_round_robin n) (ni_num_vcs n)"
  have ring: "set ?ring = {..<ni_num_vcs n}" using assms(2) by (rule vc_ring_set)
  from assms(1) show ?thesis
  proof (cases rule: scheduleOutputLink_cases)
    case 1
    then have "findM (is_candidate_vc C now n) ?ring = Inr None"
      using assms(1) by (auto simp: scheduleOutputLink_def Let_def split: option.splits elim: ni_send_flit_effect)
    then have "is_candidate_vc C now n vc = Inr False" if "vc < ni_num_vcs n" for vc
      using findM_None ring that by (metis lessThan_iff)
    then show ?thesis using 1 by (intro disjI1) simp
  next
    case (2 vc)
    then have "vc < ni_num_vcs n" and c: "is_candidate_vc C now n vc = Inr True"
      using findM_Some [OF 2(1)] ring by auto
    note cand = is_candidate_True [OF c]
    from 2(2) obtain f b s' ets where s: "vc < length (ni_out_vc_state n)" "getTopFlit (ni_out_vcs n ! vc) = Inr (f, b)"
      "ovc_decrement_credit (ni_out_vc_state n ! vc) = Inr s'" "es = [(NetLinkConsumer (ni_outNetLink n), now + 1)]"
      "ni_out_vcs n' = (ni_out_vcs n)[vc := b]" "ni_outFlitQueue n' = insert_flit (set_time (now + 1) f) (ni_outFlitQueue n)"
      "ni_out_vc_state n' = (ni_out_vc_state n)[vc := s']"
      by (rule ni_send_flit_effect) simp
    have "fl_time f \<le> now" using cand(1) s(2) by (auto simp: isReady_def getTopFlit_def split: list.splits)
    moreover have "ovc_credit_count s' = ovc_credit_count (ni_out_vc_state n ! vc) - 1" "0 < ovc_credit_count (ni_out_vc_state n ! vc)"
      using s(3) cand(2) by (auto simp: ovc_decrement_credit_def ovc_has_credit_def Let_def)
    ultimately show ?thesis using s \<open>vc < ni_num_vcs n\<close> cand(3)
      by (intro disjI2 exI [of _ vc] exI [of _ f] exI [of _ b]) auto
  qed
qed

definition ex_loaded :: network_interface where
  "ex_loaded = (ex_ifs 3 ! 0)\<lparr>ni_out_vcs := [\<lparr>fb_buffer = [ex_flit 0 0 1], fb_max_size = int INFINITE\<rparr>], ni_out_vcs_enqueue_time := [0]\<rparr>"

theorem output_link_serves_one_witness:
  "\<exists>n' f. scheduleOutputLink (ex_config 0) 3 ex_loaded = Inr (n', [(NetLinkConsumer 0, 4)]) \<and>
     flits_of (ni_outFlitQueue n') = {#set_time 4 f#}"
proof -
  have "case scheduleOutputLink (ex_config 0) 3 ex_loaded of Inl _ \<Rightarrow> False | Inr p \<Rightarrow> snd p = [(NetLinkConsumer 0, 4)]"
    by (simp add: ex_loaded_def system_eval interface_eval inject_eval flit_eval buffer_eval ex_flit_def Let_def cong: bnd_weak_cong)
  then obtain n' where w: "scheduleOutputLink (ex_config 0) 3 ex_loaded = Inr (n', [(NetLinkConsumer 0, 4)])"
    by (auto split: sum.splits)
  have "ni_vc_round_robin ex_loaded < ni_num_vcs ex_loaded" "ni_outFlitQueue ex_loaded = flitBuffer_new"
    by (simp_all add: ex_loaded_def system_eval)
  with output_link_serves_one [OF w] w show ?thesis by auto
qed

section \<open>The report\<close>

text \<open>
  The maximum latency of marked flits in the report leaves out the last marked flit: when the statistics of
  the flit that ends the simulation are taken, the maximum is copied to the report before the latency of that
  flit is sampled, and nothing copies it again.
\<close>

lemma report_omits_last_marked_flit:
  assumes "incrementStats P f net s = Inr s'" and "flit_delays (gn_cycle net) f = Inr (network_delay, queueing_delay)"
    and "count_list (fs_exits s) all_received < count_list (fs_exits s') all_received"
  shows "ls_stat_max_marked (fs_flit_latency s') = ls_marked (fs_flit_latency s) \<and>
    ls_marked (fs_flit_latency s') = max (ls_marked (fs_flit_latency s)) (queueing_delay + network_delay)"
  using assms(1)
proof (cases rule: incrementStats_steps)
  case (1 s1 xs nd qd)
  have "fs_exits s1 \<noteq> fs_exits s" using 1(3,4) assms(3) by (auto simp: count_notin)
  moreover from this have "fl_marked f" using received_counts(3) [OF 1(1)] by blast
  ultimately show ?thesis using received_maximum [OF 1(1)] 1(5,6) assms(2) by (simp add: sample_latency_def)
qed

lemma ex_marked_stats:
  "\<exists>s'. incrementStats ex_params (set_dequeue_time 3 ex_marked) (ex_network (-1) []) (gs_stats ex_arriving) = Inr s' \<and>
     fs_exits s' = [all_received]"
proof -
  have "case incrementStats ex_params (set_dequeue_time 3 ex_marked) (ex_network (-1) []) (gs_stats ex_arriving) of
      Inl _ \<Rightarrow> False | Inr s' \<Rightarrow> fs_exits s' = [all_received]"
    by (simp add: ex_arriving_def system_eval stats_eval ex_marked_def flit_eval assert_that_def all_received_def Let_def cong: bnd_weak_cong)
  then show ?thesis by (auto split: sum.splits)
qed

text \<open>A single marked flit with a latency of two cycles: the report says zero.\<close>

lemma report_omits_last_marked_flit_witness:
  "\<exists>s'. incrementStats ex_params (set_dequeue_time 3 ex_marked) (ex_network (-1) []) (gs_stats ex_arriving) = Inr s' \<and>
     ls_stat_max_marked (fs_flit_latency s') = 0 \<and> ls_marked (fs_flit_latency s') = 2"
proof -
  obtain s' where s: "incrementStats ex_params (set_dequeue_time 3 ex_marked) (ex_network (-1) []) (gs_stats ex_arriving) = Inr s'"
    "fs_exits s' = [all_received]" using ex_marked_stats by blast
  have "flit_delays (gn_cycle (ex_network (-1) [])) (set_dequeue_time 3 ex_marked) = Inr (2, 0)"
    "fs_exits (gs_stats ex_arriving) = []" "ls_marked (fs_flit_latency (gs_stats ex_arriving)) = 0"
    by (simp_all add: flit_delays_def cycles_minus_def ex_marked_def flit_eval ex_arriving_def ex_system_def flow_stats_new_def
        latency_stats_new_def Let_def)
  with report_omits_last_marked_flit [OF s(1)] s show ?thesis by simp
qed

end
