(* ===== verification/Addr_Range.thy ===== *)
theory Addr_Range
  imports Garnet_Prelude "HOL-Library.Word"
begin

unbundle bit_operations_syntax

text \<open>
  \<open>AddrRange\<close> (src/gem5/src/base/addr_range.hh) with the bit functions it uses (src/gem5/src/base/bitfield.hh): an
  interval of 64-bit addresses, possibly interleaved: of the addresses of the interval the range holds those
  whose interleaving bits, hashed with another slice of the address if \<open>xorHighBit\<close> is set, have the value
  \<open>intlvMatch\<close>. The network maps addresses to the controllers of memory with them.

  The fields are of the C++ widths; positions of bits are computed as \<open>int\<close>. A shift by a negative amount or
  by 64 or more is undefined in C++ and is the error \<open>UndefinedShift\<close> here.
\<close>

type_synonym addr = "64 word"

section \<open>Bit fields\<close>

definition shift_ok :: "int \<Rightarrow> bool" where
  "shift_ok n \<longleftrightarrow> 0 \<le> n \<and> n < 64"

definition mask64 :: "int \<Rightarrow> addr res" where
  "mask64 nbits =
     (if nbits = 64 then Inr (- 1)
      else if shift_ok nbits then Inr (push_bit (nat nbits) 1 - 1) else Inl UndefinedShift)"

definition bits :: "addr \<Rightarrow> int \<Rightarrow> int \<Rightarrow> addr res" where
  "bits val hi lo =
     (let nbits = hi - lo + 1 in
      if shift_ok lo then bnd (mask64 nbits) (\<lambda>m. Inr (drop_bit (nat lo) val AND m))
      else Inl UndefinedShift)"

definition insertBits :: "addr \<Rightarrow> int \<Rightarrow> int \<Rightarrow> addr \<Rightarrow> addr res" where
  "insertBits val hi lo bit_val =
     bnd (mask64 (hi - lo + 1)) (\<lambda>m.
     if shift_ok lo then
       let bmask = push_bit (nat lo) m in
       Inr ((push_bit (nat lo) bit_val AND bmask) OR (val AND NOT bmask))
     else Inl UndefinedShift)"

section \<open>Ranges\<close>

record addr_range =
  ar_start :: addr
  ar_end :: addr
  ar_intlvHighBit :: "8 word"
  ar_xorHighBit :: "8 word"
  ar_intlvBits :: "8 word"
  ar_intlvMatch :: "8 word"

definition AddrRange_empty :: addr_range where
  "AddrRange_empty = \<lparr>ar_start = 1, ar_end = 0, ar_intlvHighBit = 0, ar_xorHighBit = 0, ar_intlvBits = 0, ar_intlvMatch = 0\<rparr>"

definition AddrRange_new ::
    "addr \<Rightarrow> addr \<Rightarrow> 8 word \<Rightarrow> 8 word \<Rightarrow> 8 word \<Rightarrow> 8 word \<Rightarrow> addr_range res" where
  "AddrRange_new s e intlv_high_bit xor_high_bit intlv_bits intlv_match =
     bnd (if intlv_bits = 0 then Inr ()
          else if \<not> shift_ok (uint intlv_bits) then Inl UndefinedShift
          else if 2 ^ unat intlv_bits \<le> uint intlv_match then Inl (Fatal ''Match value does not fit in interleaving bits'')
          else Inr ()) (\<lambda>_.
     bnd (if intlv_bits \<noteq> 0 \<and> xor_high_bit \<noteq> 0 then
            if xor_high_bit = intlv_high_bit then Inl (Fatal ''XOR and interleave high bit must be different'')
            else if intlv_high_bit < xor_high_bit then
              if uint xor_high_bit - uint intlv_high_bit < uint intlv_bits
              then Inl (Fatal ''XOR and interleave high bit must be apart'') else Inr ()
            else if uint intlv_high_bit - uint xor_high_bit < uint intlv_bits
              then Inl (Fatal ''Interleave and XOR high bit must be apart'') else Inr ()
          else Inr ()) (\<lambda>_.
     Inr \<lparr>ar_start = s, ar_end = e, ar_intlvHighBit = intlv_high_bit, ar_xorHighBit = xor_high_bit,
          ar_intlvBits = intlv_bits, ar_intlvMatch = intlv_match\<rparr>))"

definition AddrRange_plain :: "addr \<Rightarrow> addr \<Rightarrow> addr_range" where
  "AddrRange_plain s e = \<lparr>ar_start = s, ar_end = e, ar_intlvHighBit = 0, ar_xorHighBit = 0, ar_intlvBits = 0, ar_intlvMatch = 0\<rparr>"

definition interleaved :: "addr_range \<Rightarrow> bool" where
  "interleaved r \<longleftrightarrow> ar_intlvBits r \<noteq> 0"

definition hashed :: "addr_range \<Rightarrow> bool" where
  "hashed r \<longleftrightarrow> interleaved r \<and> ar_xorHighBit r \<noteq> 0"

definition ar_size :: "addr_range \<Rightarrow> addr res" where
  "ar_size r =
     (if shift_ok (uint (ar_intlvBits r)) then Inr (drop_bit (unat (ar_intlvBits r)) (ar_end r - ar_start r + 1))
      else Inl UndefinedShift)"

text \<open>The positions of the low bits are stored in a \<open>uint8_t\<close> here.\<close>

definition granularity :: "addr_range \<Rightarrow> addr res" where
  "granularity r =
     (if interleaved r then
        let intlv_low_bit = ar_intlvHighBit r - ar_intlvBits r + 1;
            xor_low_bit = ar_xorHighBit r - ar_intlvBits r + 1;
            low = (if hashed r then min intlv_low_bit xor_low_bit else intlv_low_bit) in
        if shift_ok (uint low) then Inr (push_bit (unat low) 1) else Inl UndefinedShift
      else ar_size r)"

definition stripes :: "addr_range \<Rightarrow> 32 word res" where
  "stripes r =
     (if shift_ok (uint (ar_intlvBits r)) then Inr (ucast (push_bit (unat (ar_intlvBits r)) (1 :: addr)))
      else Inl UndefinedShift)"

definition ar_valid :: "addr_range \<Rightarrow> bool" where
  "ar_valid r \<longleftrightarrow> ar_start r \<le> ar_end r"

definition mergesWith :: "addr_range \<Rightarrow> addr_range \<Rightarrow> bool" where
  "mergesWith t r \<longleftrightarrow> ar_start r = ar_start t \<and> ar_end r = ar_end t \<and> ar_intlvHighBit r = ar_intlvHighBit t \<and>
     ar_xorHighBit r = ar_xorHighBit t \<and> ar_intlvBits r = ar_intlvBits t"

text \<open>The interleaving value of an address, as \<open>contains\<close> computes it.\<close>

definition intlv_value :: "addr_range \<Rightarrow> addr \<Rightarrow> addr res" where
  "intlv_value r a =
     (let hi = uint (ar_intlvHighBit r); n = uint (ar_intlvBits r); x = uint (ar_xorHighBit r) in
      if \<not> hashed r then bits a hi (hi - n + 1)
      else bnd (bits a hi (hi - n + 1)) (\<lambda>v. bnd (bits a x (x - n + 1)) (\<lambda>w. Inr (v XOR w))))"

definition ar_contains :: "addr_range \<Rightarrow> addr \<Rightarrow> bool res" where
  "ar_contains r a =
     (let in_range = (ar_start r \<le> a \<and> a \<le> ar_end r) in
      if \<not> interleaved r then Inr in_range
      else if in_range then bnd (intlv_value r a) (\<lambda>v. Inr (v = ucast (ar_intlvMatch r)))
      else Inr False)"

definition ar_intersects :: "addr_range \<Rightarrow> addr_range \<Rightarrow> bool res" where
  "ar_intersects t r =
     (if ar_end r < ar_start t \<or> ar_end t < ar_start r then Inr False
      else if \<not> interleaved t \<and> \<not> interleaved r then Inr True
      else bnd (ar_size r) (\<lambda>size.
        if size = 1 then ar_contains t (ar_start r)
        else if mergesWith t r then Inr (ar_intlvMatch t = ar_intlvMatch r)
        else Inl (Panic ''Cannot test intersection'')))"

definition ar_isSubset :: "addr_range \<Rightarrow> addr_range \<Rightarrow> bool res" where
  "ar_isSubset t r =
     (if interleaved t then Inl (Panic ''Cannot test subset of interleaved range'')
      else if interleaved r then
        bnd (ar_contains r (ar_start t)) (\<lambda>b1.
        if \<not> b1 then Inr False
        else bnd (ar_contains r (ar_end t)) (\<lambda>b2.
        if \<not> b2 then Inr False
        else bnd (ar_size t) (\<lambda>s. bnd (granularity r) (\<lambda>g. Inr (s \<le> g)))))
      else Inr (ar_start r \<le> ar_start t \<and> ar_end t \<le> ar_end r))"

definition removeIntlvBits :: "addr_range \<Rightarrow> addr \<Rightarrow> addr res" where
  "removeIntlvBits r a =
     (let intlv_low_bit = uint (ar_intlvHighBit r) - uint (ar_intlvBits r) + 1 in
      if shift_ok (uint (ar_intlvBits r))
      then insertBits (drop_bit (unat (ar_intlvBits r)) a) (intlv_low_bit - 1) 0 a
      else Inl UndefinedShift)"

definition MaxAddr :: addr where
  "MaxAddr = - 1"

definition ar_getOffset :: "addr_range \<Rightarrow> addr \<Rightarrow> addr res" where
  "ar_getOffset r a =
     (if \<not> (ar_start r \<le> a \<and> a \<le> ar_end r) then Inr MaxAddr
      else if interleaved r then
        bnd (removeIntlvBits r a) (\<lambda>x. bnd (removeIntlvBits r (ar_start r)) (\<lambda>y. Inr (x - y)))
      else Inr (a - ar_start r))"

definition ar_less :: "addr_range \<Rightarrow> addr_range \<Rightarrow> bool" where
  "ar_less t r = (if ar_start t \<noteq> ar_start r then ar_start t < ar_start r else ar_intlvMatch t < ar_intlvMatch r)"

definition ar_equal :: "addr_range \<Rightarrow> addr_range \<Rightarrow> bool" where
  "ar_equal t r \<longleftrightarrow> ar_start t = ar_start r \<and> ar_end t = ar_end r \<and> ar_intlvBits t = ar_intlvBits r \<and>
     (ar_intlvBits t \<noteq> 0 \<longrightarrow> ar_intlvHighBit t = ar_intlvHighBit r \<and> ar_intlvMatch t = ar_intlvMatch r)"

text \<open>
  The constructor that merges the ranges of an interleaving: all ranges must agree and have the match
  values 0, 1, ... in order (the counter is a \<open>uint8_t\<close>); the result is not interleaved.
\<close>

fun merge_check :: "addr_range \<Rightarrow> 8 word \<Rightarrow> addr_range list \<Rightarrow> unit res" where
  "merge_check t match [] = Inr ()"
| "merge_check t match (r # rs) =
     (if \<not> mergesWith t r then Inl (Fatal ''Can only merge ranges with the same start, end and interleaving bits'')
      else if ar_intlvMatch r \<noteq> match then Inl (Fatal ''Unexpected interleave match when merging'')
      else merge_check t (match + 1) rs)"

definition AddrRange_merge :: "addr_range list \<Rightarrow> addr_range res" where
  "AddrRange_merge ranges =
     (case ranges of
        [] \<Rightarrow> Inr AddrRange_empty
      | f # _ \<Rightarrow>
          let t = f\<lparr>ar_intlvMatch := 0\<rparr> in
          if \<not> shift_ok (uint (ar_intlvBits f)) then Inl UndefinedShift
          else if length ranges \<noteq> 2 ^ unat (ar_intlvBits f) then Inl (Fatal ''Got ranges spanning other interleaving bits'')
          else bnd (merge_check t 0 ranges) (\<lambda>_.
            Inr (t\<lparr>ar_intlvHighBit := 0, ar_xorHighBit := 0, ar_intlvBits := 0\<rparr>)))"

end
