(* ===== verification/Ruby_Network.thy ===== *)
theory Ruby_Network
  imports Topology Message_Buffer Addr_Range
begin

text \<open>
  \<open>Network\<close> (src/gem5/src/mem/ruby/network/Network.cc, Network.hh), the base class of the network models: the queues
  of the nodes, the virtual networks, the sizes of messages and the map from addresses to controllers.

  Message buffers are shared by pointer between the protocol and the network; a \<open>MessageBuffer*\<close> is a position in
  the store of all buffers, or \<open>None\<close> for a null pointer. What the configuration and the generated code of the
  controllers contribute is the record \<open>network_params\<close>: the links, the machine and the addresses of every
  controller, and the calls its \<open>initNetQueues\<close> makes. A network model is an extension of \<open>network_base\<close>.
\<close>

section \<open>State\<close>

type_synonym buffer_ref = "nat option"

record addr_map_node =
  an_id :: nat
  an_ranges :: "addr_range list"

record network_base =
  nw_nodes :: nat
  nw_virtual_networks :: nat
  nw_control_msg_size :: nat
  nw_data_msg_size :: nat
  nw_vnet_type_names :: "string list"
  nw_topology :: topology
  nw_toNetQueues :: "buffer_ref list list"
  nw_fromNetQueues :: "buffer_ref list list"
  nw_ordered :: "bool list"
  nw_addrMap :: "(nat \<times> addr_map_node) list"

section \<open>Queues of the nodes\<close>

definition checkNetworkAllocation ::
    "nat \<Rightarrow> bool \<Rightarrow> nat \<Rightarrow> string \<Rightarrow> 'a network_base_scheme \<Rightarrow> 'a network_base_scheme res" where
  "checkNetworkAllocation i ordered network_num vnet_type N =
     (if nw_nodes N \<le> i then Inl (Fatal ''Node ID is out of range'')
      else if nw_virtual_networks N \<le> network_num then Inl (Fatal ''Network id is out of range'')
      else
        bnd (if ordered then put_at (nw_ordered N) (int network_num) True else Inr (nw_ordered N)) (\<lambda>os.
        bnd (put_at (nw_vnet_type_names N) (int network_num) vnet_type) (\<lambda>ns.
        Inr (N\<lparr>nw_ordered := os, nw_vnet_type_names := ns\<rparr>))))"

text \<open>\<open>while (q.size() <= n) q.push_back(nullptr); q[n] = b\<close>\<close>

definition set_queue :: "nat \<Rightarrow> buffer_ref \<Rightarrow> buffer_ref list \<Rightarrow> buffer_ref list" where
  "set_queue n b q = (q @ replicate (Suc n - length q) None)[n := b]"

definition setToNetQueue ::
    "nat \<Rightarrow> bool \<Rightarrow> nat \<Rightarrow> string \<Rightarrow> buffer_ref \<Rightarrow> 'a network_base_scheme \<Rightarrow> 'a network_base_scheme res" where
  "setToNetQueue i ordered network_num vnet_type b N =
     bnd (checkNetworkAllocation i ordered network_num vnet_type N) (\<lambda>N1.
     bnd (at (nw_toNetQueues N1) (int i)) (\<lambda>q.
     Inr (N1\<lparr>nw_toNetQueues := (nw_toNetQueues N1)[i := set_queue network_num b q]\<rparr>)))"

definition setFromNetQueue ::
    "nat \<Rightarrow> bool \<Rightarrow> nat \<Rightarrow> string \<Rightarrow> buffer_ref \<Rightarrow> 'a network_base_scheme \<Rightarrow> 'a network_base_scheme res" where
  "setFromNetQueue i ordered network_num vnet_type b N =
     bnd (checkNetworkAllocation i ordered network_num vnet_type N) (\<lambda>N1.
     bnd (at (nw_fromNetQueues N1) (int i)) (\<lambda>q.
     Inr (N1\<lparr>nw_fromNetQueues := (nw_fromNetQueues N1)[i := set_queue network_num b q]\<rparr>)))"

section \<open>Construction\<close>

datatype queue_call =
    SetToNetQueue nat bool nat string buffer_ref
  | SetFromNetQueue nat bool nat string buffer_ref

fun run_queue_call :: "queue_call \<Rightarrow> 'a network_base_scheme \<Rightarrow> 'a network_base_scheme res" where
  "run_queue_call (SetToNetQueue i ordered n vnet_type b) N = setToNetQueue i ordered n vnet_type b N"
| "run_queue_call (SetFromNetQueue i ordered n vnet_type b) N = setFromNetQueue i ordered n vnet_type b N"

record controller =
  ct_machine :: machine_id
  ct_ranges :: "addr_range list"
  ct_initNetQueues :: "queue_call list"

record network_params =
  pr_number_of_virtual_networks :: nat
  pr_control_msg_size :: nat
  pr_num_routers :: nat
  pr_ext_links :: "ext_link list"
  pr_int_links :: "int_link list"
  pr_controllers :: "controller list"

text \<open>
  The multimap keeps its entries in an order that the standard leaves open; here new entries come last.
\<close>

definition add_controller :: "controller \<Rightarrow> 'a network_base_scheme \<Rightarrow> 'a network_base_scheme" where
  "add_controller c N =
     (if ct_ranges c = [] then N
      else N\<lparr>nw_addrMap := nw_addrMap N @
              [(mach_type (ct_machine c), \<lparr>an_id = mach_num (ct_machine c), an_ranges = ct_ranges c\<rparr>)]\<rparr>)"

definition Network_new :: "machine_types \<Rightarrow> network_params \<Rightarrow> network_base res" where
  "Network_new M p =
     (let vnets = pr_number_of_virtual_networks p; nodes = mt_base_number M (mt_num M) in
      bnd (assert_that (nodes \<noteq> 0)) (\<lambda>_.
      bnd (assert_that (vnets \<noteq> 0)) (\<lambda>_.
      bnd (Topology_new M (pr_num_routers p) (pr_ext_links p) (pr_int_links p)) (\<lambda>T.
      let N0 = \<lparr>nw_nodes = nodes, nw_virtual_networks = vnets, nw_control_msg_size = pr_control_msg_size p,
                nw_data_msg_size = 0, nw_vnet_type_names = replicate vnets [], nw_topology = T,
                nw_toNetQueues = replicate nodes [], nw_fromNetQueues = replicate nodes [],
                nw_ordered = replicate vnets False, nw_addrMap = []\<rparr>;
          N1 = fold add_controller (pr_controllers p) N0 in
      foldM (\<lambda>c. foldM run_queue_call (ct_initNetQueues c)) (pr_controllers p) N1))))"

definition Network_init :: "nat \<Rightarrow> 'a network_base_scheme \<Rightarrow> 'a network_base_scheme" where
  "Network_init block_size N = N\<lparr>nw_data_msg_size := block_size + nw_control_msg_size N\<rparr>"

section \<open>Sizes and addresses\<close>

fun MessageSizeType_to_int :: "'a network_base_scheme \<Rightarrow> MessageSizeType \<Rightarrow> nat" where
  "MessageSizeType_to_int N MessageSizeType_Data = nw_data_msg_size N"
| "MessageSizeType_to_int N MessageSizeType_Response_Data = nw_data_msg_size N"
| "MessageSizeType_to_int N MessageSizeType_ResponseLocal_Data = nw_data_msg_size N"
| "MessageSizeType_to_int N MessageSizeType_ResponseL2hit_Data = nw_data_msg_size N"
| "MessageSizeType_to_int N MessageSizeType_Writeback_Data = nw_data_msg_size N"
| "MessageSizeType_to_int N _ = nw_control_msg_size N"

fun any_contains :: "addr_range list \<Rightarrow> addr \<Rightarrow> bool res" where
  "any_contains [] a = Inr False"
| "any_contains (r # rs) a = bnd (ar_contains r a) (\<lambda>b. if b then Inr True else any_contains rs a)"

fun find_node :: "addr_map_node list \<Rightarrow> addr \<Rightarrow> nat option res" where
  "find_node [] a = Inr None"
| "find_node (n # ns) a = bnd (any_contains (an_ranges n) a) (\<lambda>b. if b then Inr (Some (an_id n)) else find_node ns a)"

definition addressToNodeID :: "machine_types \<Rightarrow> addr \<Rightarrow> nat \<Rightarrow> 'a network_base_scheme \<Rightarrow> nat res" where
  "addressToNodeID M a mtype N =
     bnd (find_node (map snd (filter (\<lambda>e. fst e = mtype) (nw_addrMap N))) a) (\<lambda>found.
     Inr (case found of Some i \<Rightarrow> i | None \<Rightarrow> mt_base_count M mtype))"

end
