(* ===== verification/Garnet_Build.thy ===== *)
theory Garnet_Build
  imports Network_Interface Ruby_Network Spin_Ring
begin

text \<open>
  The construction of \<open>GarnetNetwork\<close> (src/gem5/src/mem/ruby/network/garnet2.0/GarnetNetwork.cc): the constructor, \<open>init\<close>, and
  the \<open>init\<close> of the routers and interfaces, which the simulator calls after that of the network they belong to.

  \<open>garnet_params\<close> holds the parameters of the configuration; \<open>gp_spin_file\<close> is the content of the ring file,
  \<open>gp_num_cols\<close> what \<open>m_num_cols\<close> happens to hold before \<open>init\<close> sets it, and \<open>gp_raw_ports\<close> the memory in which ports
  are constructed. The fault model is taken to be disabled, as it is by default, and the trace file, which only
  the trace reader looks at, is left out.
\<close>

section \<open>Parameters\<close>

record router_params =
  rp_router_id :: nat
  rp_latency :: cycles
  rp_virt_nets :: nat
  rp_vcs_per_vnet :: nat
  rp_marked_flit :: int

record netif_params =
  ip_id :: nat
  ip_virt_nets :: nat
  ip_vcs_per_vnet :: nat
  ip_deadlock_threshold :: int

record garnet_params =
  gp_machines :: machine_types
  gp_network :: network_params
  gp_routers :: "(router \<times> router_params) list"
  gp_netifs :: "(network_interface \<times> netif_params) list"
  gp_num_rows :: int
  gp_num_cols :: int
  gp_vcs_per_vnet :: nat
  gp_buffers_per_data_vc :: nat
  gp_buffers_per_ctrl_vc :: nat
  gp_routing_algorithm :: int
  gp_spin :: bool
  gp_spin_freq :: nat
  gp_spin_mult :: nat
  gp_uTurn_crossbar :: int
  gp_drain_all_vc :: nat
  gp_spin_file :: "string option"
  gp_fresh_credit :: credit
  gp_raw_ports :: "input_unit \<times> output_unit"
  gp_random :: "nat \<Rightarrow> nat"

section \<open>The constructor\<close>

definition new_router :: "router \<times> router_params \<Rightarrow> router" where
  "new_router p = (case p of (raw, q) \<Rightarrow>
     Router_new raw (rp_router_id q) (rp_latency q) (rp_virt_nets q) (rp_vcs_per_vnet q) (rp_marked_flit q))"

definition new_netif :: "network_interface \<times> netif_params \<Rightarrow> network_interface" where
  "new_netif p = (case p of (raw, q) \<Rightarrow>
     NetworkInterface_new raw (ip_id q) (ip_virt_nets q) (ip_vcs_per_vnet q) (ip_deadlock_threshold q))"

definition GarnetNetwork_config :: "garnet_params \<Rightarrow> network_base \<Rightarrow> garnet_config" where
  "GarnetNetwork_config p N =
     \<lparr>nc_num_rows = gp_num_rows p, nc_num_cols = gp_num_cols p, nc_vcs_per_vnet = gp_vcs_per_vnet p,
      nc_virtual_networks = nw_virtual_networks N, nc_buffers_per_data_vc = gp_buffers_per_data_vc p,
      nc_buffers_per_ctrl_vc = gp_buffers_per_ctrl_vc p, nc_routing_algorithm = gp_routing_algorithm p,
      nc_vnet_type = map vnet_type_of_name (nw_vnet_type_names N), nc_ordered = nw_ordered N,
      nc_spin = gp_spin p, nc_spin_thrshld = gp_spin_freq p, nc_spin_mult = gp_spin_mult p,
      nc_drain_all_vc = gp_drain_all_vc p, nc_uTurn_crossbar = gp_uTurn_crossbar p, nc_fresh_credit = gp_fresh_credit p\<rparr>"

definition net_stats_new :: net_stats where
  "net_stats_new =
     \<lparr>st_total_uturn_request = 0, st_success_uturn = 0, st_total_misroute = 0, st_total_spins = 0,
      st_fwd_progress = 0, st_misroute = 0, st_bubble = 0, st_num_drain = 0\<rparr>"

definition GarnetNetwork_new :: "garnet_params \<Rightarrow> (network_base \<times> garnet_network) res" where
  "GarnetNetwork_new p =
     bnd (Network_new (gp_machines p) (gp_network p)) (\<lambda>N.
     bnd (if gp_spin p then bnd (assert_that (gp_spin_freq p \<noteq> 0)) (\<lambda>_. init_spinRing (gp_num_rows p) (gp_spin_file p))
          else Inr []) (\<lambda>ring.
     Inr (N, \<lparr>gn_config = GarnetNetwork_config p N, gn_routers = map new_router (gp_routers p),
              gn_nis = map new_netif (gp_netifs p), gn_networklinks = [], gn_creditlinks = [], gn_lock = -1,
              gn_spinRing = ring, gn_stats = net_stats_new, gn_cycle = 0, gn_random = gp_random p, gn_wakeups = []\<rparr>)))"

section \<open>init\<close>

text \<open>The message buffers of a node; those of the protocol are in \<open>bufs\<close>.\<close>

definition load_queue :: "message_buffer list \<Rightarrow> buffer_ref list \<Rightarrow> node_ptr res" where
  "load_queue bufs q =
     traverse (\<lambda>b. case b of None \<Rightarrow> Inr None | Some k \<Rightarrow> bnd (at bufs (int k)) (\<lambda>B. Inr (Some B))) q"

definition attach_node :: "message_buffer list \<Rightarrow> network_base \<Rightarrow> nat \<Rightarrow> garnet_system \<Rightarrow> garnet_system res" where
  "attach_node bufs N i S =
     bnd (at (gn_nis (gs_net S)) (int i)) (\<lambda>_.
     bnd (at (nw_toNetQueues N) (int i)) (\<lambda>qi.
     bnd (at (nw_fromNetQueues N) (int i)) (\<lambda>qo.
     bnd (load_queue bufs qi) (\<lambda>ins.
     bnd (load_queue bufs qo) (\<lambda>outs.
     NI_addNode i ins outs S)))))"

definition set_mesh_size :: "garnet_network \<Rightarrow> garnet_network res" where
  "set_mesh_size net =
     (let C = gn_config net; n = int (length (gn_routers net)) in
      if 0 < nc_num_rows C then
        let cols = n div nc_num_rows C in
        bnd (assert_that (nc_num_rows C * cols = n)) (\<lambda>_. Inr (net\<lparr>gn_config := C\<lparr>nc_num_cols := cols\<rparr>\<rparr>))
      else Inr (net\<lparr>gn_config := C\<lparr>nc_num_rows := -1, nc_num_cols := -1\<rparr>\<rparr>))"

definition GarnetNetwork_init ::
    "garnet_params \<Rightarrow> nat \<Rightarrow> message_buffer list \<Rightarrow> network_base \<Rightarrow> garnet_system \<Rightarrow> garnet_system res option" where
  "GarnetNetwork_init p block_size bufs N S =
     (let N1 = Network_init block_size N in
      case foldM (attach_node bufs N1) [0..<nw_nodes N1] S of
        Inl e \<Rightarrow> Some (Inl e)
      | Inr S1 \<Rightarrow>
          map_option (\<lambda>r. bnd r (\<lambda>net. bnd (set_mesh_size net) (\<lambda>net'. Inr (S1\<lparr>gs_net := net'\<rparr>))))
            (createLinks (garnet_class (gp_raw_ports p)) (gp_machines p) (nw_topology N1) (gs_net S1)))"

definition init_parts :: "garnet_network \<Rightarrow> garnet_network res" where
  "init_parts net =
     bnd (traverse (NetworkInterface_init (gn_config net)) (gn_nis net)) (\<lambda>nis.
     Inr (net\<lparr>gn_routers := map Router_init (gn_routers net), gn_nis := nis\<rparr>))"

definition new_system :: "nat \<Rightarrow> ruby_state \<Rightarrow> garnet_network \<Rightarrow> garnet_system" where
  "new_system nodes R net =
     \<lparr>gs_net = net, gs_nodes = replicate nodes ([], []), gs_ruby = R, gs_msgs = Map.empty, gs_next_msg = 0,
      gs_stats = flow_stats_new (nc_virtual_networks (gn_config net)) (length (gn_routers net)), gs_requests = []\<rparr>"

definition build_system ::
    "garnet_params \<Rightarrow> nat \<Rightarrow> message_buffer list \<Rightarrow> ruby_state \<Rightarrow> garnet_system res option" where
  "build_system p block_size bufs R =
     (case GarnetNetwork_new p of
        Inl e \<Rightarrow> Some (Inl e)
      | Inr (N, net) \<Rightarrow>
          map_option (\<lambda>r. bnd r (\<lambda>S. bnd (init_parts (gs_net S)) (\<lambda>net'. Inr (S\<lparr>gs_net := net'\<rparr>))))
            (GarnetNetwork_init p block_size bufs N (new_system (nw_nodes N) R net)))"

section \<open>All units\<close>

definition wakeup_all_input_unit :: "garnet_network \<Rightarrow> garnet_network res" where
  "wakeup_all_input_unit net =
     foldM (\<lambda>rid net1.
       bnd (get_router net1 (int rid)) (\<lambda>r.
       foldM (InputUnit_wakeup rid) [0..<length (r_input_unit r)] net1)) [0..<length (gn_routers net)] net"

definition wakeup_all_output_unit :: "garnet_network \<Rightarrow> garnet_network res" where
  "wakeup_all_output_unit net =
     foldM (\<lambda>rid net1.
       bnd (get_router net1 (int rid)) (\<lambda>r.
       foldM (Router_read_credit rid) [0..<length (r_output_unit r)] net1)) [0..<length (gn_routers net)] net"

definition scheduleAll_wakeup_next :: "garnet_network \<Rightarrow> garnet_network" where
  "scheduleAll_wakeup_next net =
     schedule_events (map (\<lambda>i. (RouterConsumer i, gn_cycle net + 1)) [0..<length (gn_routers net)]) net"

definition getNumRouters :: "garnet_network \<Rightarrow> nat" where
  "getNumRouters net = length (gn_routers net)"

section \<open>Collecting the activity\<close>

text \<open>The counters that \<open>collateStats\<close> fills when the statistics are dumped; the averages, in \<open>double\<close>, are left out.\<close>

record router_activity =
  ra_buffer_reads :: nat
  ra_buffer_writes :: nat
  ra_sw_input_arbiter_activity :: nat
  ra_sw_output_arbiter_activity :: nat
  ra_crossbar_activity :: nat

definition collate_inport :: "nat \<Rightarrow> input_unit \<Rightarrow> router_activity \<Rightarrow> router_activity res" where
  "collate_inport vnet u a =
     bnd (at (iu_num_buffer_reads u) (int vnet)) (\<lambda>reads.
     bnd (at (iu_num_buffer_writes u) (int vnet)) (\<lambda>writes.
     Inr (a\<lparr>ra_buffer_reads := ra_buffer_reads a + reads, ra_buffer_writes := ra_buffer_writes a + writes\<rparr>)))"

definition Router_collateStats :: "router \<Rightarrow> router_activity \<Rightarrow> router_activity res" where
  "Router_collateStats r a =
     bnd (foldM (\<lambda>vnet. foldM (collate_inport vnet) (r_input_unit r)) [0..<r_virtual_networks r] a) (\<lambda>a1.
     Inr (a1\<lparr>ra_sw_input_arbiter_activity := sa_input_arbiter_activity (r_sw_alloc r),
             ra_sw_output_arbiter_activity := sa_output_arbiter_activity (r_sw_alloc r),
             ra_crossbar_activity := cs_crossbar_activity (r_switch r)\<rparr>))"

record link_activity =
  la_ext_in :: nat
  la_ext_out :: nat
  la_int :: nat

definition collate_link :: "flit_link \<Rightarrow> link_activity \<Rightarrow> link_activity" where
  "collate_link l a =
     (let activity = nl_link_utilized l in
      case nl_type l of
        EXT_IN \<Rightarrow> a\<lparr>la_ext_in := la_ext_in a + activity\<rparr>
      | EXT_OUT \<Rightarrow> a\<lparr>la_ext_out := la_ext_out a + activity\<rparr>
      | INT_link \<Rightarrow> a\<lparr>la_int := la_int a + activity\<rparr>
      | _ \<Rightarrow> a)"

definition GarnetNetwork_collateStats ::
    "garnet_network \<Rightarrow> link_activity \<times> router_activity list \<Rightarrow> (link_activity \<times> router_activity list) res" where
  "GarnetNetwork_collateStats net a =
     bnd (zip_with Router_collateStats (gn_routers net) (snd a)) (\<lambda>rs.
     Inr (fold collate_link (gn_networklinks net) (fst a), rs))"

end
