(* ===== verification/Wiring_Steps.thy ===== *)
theory Wiring_Steps
  imports Halt_Protocol
begin

text \<open>
  The wiring of a network, that is, the links of every port and the two ends of every link (\<open>gn_wires\<close>), is set when
  the network is built. No step of the network changes it.
\<close>

definition router_wires :: "router \<Rightarrow> (nat \<times> nat) list \<times> (nat \<times> nat) list" where
  "router_wires r = (map iu_wires (r_input_unit r), map ou_wires (r_output_unit r))"

definition gn_wires :: "garnet_network \<Rightarrow> ((nat \<times> nat) list \<times> (nat \<times> nat) list) list \<times>
    (flit_queue_ref option \<times> consumer_ref option) list \<times> (credit_queue_ref option \<times> consumer_ref option) list" where
  "gn_wires net = (map router_wires (gn_routers net), map link_wires (gn_networklinks net), map link_wires (gn_creditlinks net))"

section \<open>Frames\<close>

lemma spin_frame_wires:
  assumes "spin_frame net net'"
  shows "gn_wires net' = gn_wires net"
proof -
  have "map router_wires (gn_routers net') = map router_wires (gn_routers net)"
    using spin_frame_router [OF assms] spin_frame_length [OF assms]
    by (intro nth_equalityI) (auto simp: router_rest_def router_wires_def)
  then show ?thesis using assms by (simp add: gn_wires_def spin_frame_def)
qed

lemma schedule_one_wires: "gn_wires (schedule_one e net) = gn_wires net"
  by (auto simp: schedule_one_def gn_wires_def router_wires_def map_count_up split: prod.splits consumer_ref.splits)

lemma schedule_events_wires [simp]: "gn_wires (schedule_events es net) = gn_wires net"
  unfolding schedule_events_def by (induction es arbitrary: net) (auto simp: schedule_one_wires)

lemma map_same: "i < length xs \<Longrightarrow> f x = f (xs ! i) \<Longrightarrow> map f (xs[i := x]) = map f xs"
  by (simp add: map_update list_update_same_conv)

lemma put_router_wires:
  "rid < length (gn_routers net) \<Longrightarrow> router_wires r = router_wires (gn_routers net ! rid) \<Longrightarrow> gn_wires (put_router net rid r) = gn_wires net"
  by (simp add: gn_wires_def put_router_def map_same)

lemma put_input_wires:
  assumes "gn_input net rid (int p) = Inr u" and "iu_wires u' = iu_wires u"
  shows "gn_wires (gn_put_input rid p u' net) = gn_wires net"
  using assms unfolding gn_put_input_def Let_def
  by (intro put_router_wires) (auto simp: gn_input_Inr router_wires_def map_same)

lemma net_fields_wires [simp]:
  "gn_wires (net\<lparr>gn_lock := k\<rparr>) = gn_wires net" "gn_wires (net\<lparr>gn_stats := s\<rparr>) = gn_wires net" "gn_wires (net\<lparr>gn_cycle := t\<rparr>) = gn_wires net"
  "gn_wires (net\<lparr>gn_random := f\<rparr>) = gn_wires net" "gn_wires (gn_map_stats g net) = gn_wires net" "gn_wires (set_halt b net) = gn_wires net"
  by (simp_all add: gn_wires_def gn_map_stats_def set_halt_def router_wires_def comp_def)

lemma schedule_wires [simp]: "gn_wires (scheduleAll_wakeup n net) = gn_wires net" "gn_wires (gn_schedule_wakeup n net) = gn_wires net"
  by (simp_all add: scheduleAll_wakeup_def gn_schedule_wakeup_def)

section \<open>Reading the links\<close>

lemma InputUnit_wakeup_wires:
  assumes "InputUnit_wakeup rid p net = Inr net'"
  shows "gn_wires net' = gn_wires net"
proof -
  have head: "gn_wires b = gn_wires a" if "iu_head_flit rid p t a = Inr (t1, b)" for a b t t1
  proof (cases "is_head t")
    case True
    with that obtain u u1 op where u: "gn_input a rid (int p) = Inr u" "iu_set_vc_active (fl_vc t) (gn_cycle a) u = Inr u1"
      and oc: "outportCompute (gn_put_input rid p u1 a) rid (fl_route t) = Inr (op, b)" by (auto simp: iu_head_flit_def)
    then have "iu_wires u1 = iu_wires u" by (auto simp: iu_set_vc_active_def iu_modify_Inr)
    with u(1) show ?thesis using spin_frame_wires [OF route_frame_spin_frame [OF route_frame_outportCompute [OF oc]]] put_input_wires by simp
  qed (use that in \<open>auto simp: iu_head_flit_def\<close>)
  have buf: "gn_wires b = gn_wires a" if "iu_buffer_flit rid p t a = Inr b" for a b t
  proof -
    from that obtain u u2 es where "gn_input a rid (int p) = Inr u" "b = schedule_events es (gn_put_input rid p u2 a)" "iu_wires u2 = iu_wires u"
      by (auto simp: iu_buffer_flit_def Let_def iu_modify_Inr split: if_splits)
    then show ?thesis by (simp add: put_input_wires)
  qed
  have link: "gn_wires (net\<lparr>gn_networklinks := (gn_networklinks net)[k := l']\<rparr>) = gn_wires net"
    if "consumeLink (gn_networklinks net ! k) = Inr (t, l')" "k < length (gn_networklinks net)" for k t l'
    using that by (auto simp: gn_wires_def consumeLink_def map_same)
  show ?thesis using assms by (auto simp: InputUnit_wakeup_def at_eq_Inr link dest!: buf head split: if_splits)
qed

interpretation inputs_wires: conserved "InputUnit_wakeup rid" gn_wires for rid
  by unfold_locales (rule InputUnit_wakeup_wires)

lemma OutputUnit_wakeup_wires:
  "OutputUnit_wakeup now u cl = Inr (u', cl') \<Longrightarrow> ou_wires u' = ou_wires u \<and> link_wires cl' = link_wires cl"
  by (auto simp: OutputUnit_wakeup_def ou_increment_credit_def ou_set_vc_state_def ou_modify_Inr split: if_splits)

lemma Router_read_credit_wires:
  assumes "Router_read_credit rid p net = Inr net'"
  shows "gn_wires net' = gn_wires net"
proof -
  let ?r = "gn_routers net ! rid"
  from assms obtain ou' cl' where r: "rid < length (gn_routers net)" "p < length (r_output_unit ?r)"
    and c: "ou_credit_link (r_output_unit ?r ! p) < length (gn_creditlinks net)"
    and w: "OutputUnit_wakeup (gn_cycle net) (r_output_unit ?r ! p) (gn_creditlinks net ! ou_credit_link (r_output_unit ?r ! p)) = Inr (ou', cl')"
    and net': "net' = (put_router net rid (?r\<lparr>r_output_unit := (r_output_unit ?r)[p := ou']\<rparr>))
        \<lparr>gn_creditlinks := (gn_creditlinks net)[ou_credit_link (r_output_unit ?r ! p) := cl']\<rparr>"
    by (auto simp: Router_read_credit_def get_router_def at_eq_Inr)
  show ?thesis using r c OutputUnit_wakeup_wires [OF w] by (simp add: net' gn_wires_def put_router_def map_same router_wires_def)
qed

interpretation credits_wires: conserved "Router_read_credit rid" gn_wires for rid
  by unfold_locales (rule Router_read_credit_wires)

section \<open>Drains\<close>

interpretation spins_wires: conserved count_and_spin gn_wires
  by unfold_locales (auto simp: count_and_spin_def dest!: doSpin_tags(2) spin_frame_wires)

interpretation rounds_wires: conserved "\<lambda>_ :: nat. foldM count_and_spin vcs" gn_wires for vcs
  by unfold_locales (rule spins_wires.loop_conserves)

lemma drain_rounds_wires: "drain_rounds r net = Inr net' \<Longrightarrow> gn_wires net' = gn_wires net"
  by (auto simp: drain_rounds_def spin_rounds_def Let_def next_random_def dest!: rounds_wires.loop_conserves split: if_splits)

lemma set_flit_time_wires:
  assumes "set_flit_time vc net = Inr net'"
  shows "gn_wires net' = gn_wires net"
proof -
  from assms obtain rs where rs: "traverse (\<lambda>r. bnd (traverse (flit_time_inport vc (gn_cycle net) (nc_spin_mult (gn_config net)))
      (r_input_unit r)) (\<lambda>us. Inr (r\<lparr>r_input_unit := us\<rparr>))) (gn_routers net) = Inr rs" and net': "net' = net\<lparr>gn_routers := rs\<rparr>"
    by (auto simp: set_flit_time_def)
  have u: "iu_wires u' = iu_wires u" if "flit_time_inport vc (gn_cycle net) (nc_spin_mult (gn_config net)) u = Inr u'" for u u'
    using that by (auto simp: flit_time_inport_def iu_modify_Inr split: if_splits)
  have "map router_wires rs = map router_wires (gn_routers net)"
    by (rule traverse_map_same [OF rs]) (auto simp: router_wires_def dest!: traverse_map_same [of _ _ _ iu_wires, OF _ u])
  then show ?thesis by (simp add: gn_wires_def net')
qed

interpretation flit_times_wires: conserved set_flit_time gn_wires
  by unfold_locales (rule set_flit_time_wires)

lemma Router_spin_wires:
  assumes "Router_spin rid net = Inr net'"
  shows "gn_wires net' = gn_wires net"
proof -
  have "gn_wires net' = gn_wires net" if "end_halt rid net = Inr net'"
    using that
  proof (rule end_halt_cases)
    fix net2 net3
    let ?net1 = "set_halt False (put_router net rid ((gn_routers net ! rid)\<lparr>r_halt := True\<rparr>))"
    assume r: "rid < length (gn_routers net)" and d: "drain_rounds (gn_routers net ! rid) ?net1 = Inr net2"
      and f: "foldM set_flit_time (drain_vcs (gn_config net2) (gn_routers net ! rid)) net2 = Inr net3"
      and n: "net' = scheduleAll_wakeup (2 * nc_spin_mult (gn_config (gn_schedule_wakeup 3 (net3\<lparr>gn_lock := -1\<rparr>))))
       (gn_schedule_wakeup 3 (net3\<lparr>gn_lock := -1\<rparr>))"
    have "gn_wires ?net1 = gn_wires net" using r by (simp add: put_router_wires router_wires_def)
    then show ?thesis using drain_rounds_wires [OF d] flit_times_wires.loop_conserves [OF f] n by simp
  qed
  moreover have "gn_wires net' = gn_wires net" if "begin_halt rid net = Inr net'"
    using that by (auto simp: begin_halt_def Let_def split: if_splits)
  ultimately show ?thesis using assms by (auto simp: Router_spin_def Let_def split: if_splits)
qed

section \<open>The switch\<close>

abbreviation cx_wires :: "router_ctx \<Rightarrow> (nat \<times> nat) list \<times> (nat \<times> nat) list" where
  "cx_wires cx \<equiv> router_wires (rc_router cx)"

lemma rc_put_wires:
  "rc_input cx i = Inr u \<Longrightarrow> iu_wires u' = iu_wires u \<Longrightarrow> cx_wires (rc_put_input i u' cx) = cx_wires cx"
  "rc_output cx (int i) = Inr v \<Longrightarrow> ou_wires v' = ou_wires v \<Longrightarrow> cx_wires (rc_put_output i v' cx) = cx_wires cx"
  by (auto simp: rc_input_def rc_output_def rc_put_input_def rc_put_output_def at_eq_Inr router_wires_def map_same)

lemma rc_fields_wires [simp]:
  "cx_wires (rc_map_alloc f cx) = cx_wires cx" "cx_wires (rc_map_stats g cx) = cx_wires cx" "cx_wires (cx\<lparr>rc_events := es\<rparr>) = cx_wires cx"
  by (simp_all add: rc_map_alloc_def rc_map_stats_def router_wires_def)

lemma sa_small_wires:
  "sa_set_uturn inport invc b cx = Inr cx' \<Longrightarrow> cx_wires cx' = cx_wires cx"
  "disallow_uturn inport invc d cx = Inr cx' \<Longrightarrow> cx_wires cx' = cx_wires cx"
  "sa_return_credit C now inport invc f cx = Inr cx' \<Longrightarrow> cx_wires cx' = cx_wires cx"
  by (auto simp: sa_set_uturn_def disallow_uturn_def sa_return_credit_def Let_def case_prod_beta iu_modify_Inr iu_increment_credit_def
      iu_set_vc_idle_def rc_map_stats_def rc_put_wires split: if_splits)

lemma vc_allocate_wires:
  assumes "vc_allocate now outport inport invc cx = Inr (v, cx')"
  shows "cx_wires cx' = cx_wires cx"
proof -
  from assms obtain ou vnet ou' u u' where o: "rc_output cx (int outport) = Inr ou" "ou_select_free_vc now vnet ou = Inr (v, ou')"
    and u: "rc_input cx inport = Inr u" "iu_grant_outvc (int invc) v u = Inr u'"
    and cx': "cx' = rc_put_input inport u' (rc_put_output outport ou' cx)" by (auto simp: vc_allocate_def)
  have "ou_wires ou' = ou_wires ou" using o(2) by (auto simp: ou_select_free_vc_def ou_modify_Inr split: option.splits)
  moreover have "iu_wires u' = iu_wires u" using u(2) by (auto simp: iu_grant_outvc_def iu_modify_Inr)
  moreover have "rc_input (rc_put_output outport ou' cx) inport = Inr u" using u(1) by (simp add: rc_input_def rc_put_output_def)
  ultimately show ?thesis using o(1) by (simp add: cx' rc_put_wires)
qed

lemma sa_send_wires:
  assumes "sa_send now outport inport invc outvc cx = Inr (f, cx')"
  shows "cx_wires cx' = cx_wires cx"
  using assms
proof (rule sa_send_cases)
  fix g u' ou' b
  assume i: "inport < length (r_input_unit (rc_router cx))" "iu_getTopFlit (r_input_unit (rc_router cx) ! inport) (int invc) = Inr (g, u')"
    and o: "outport < length (r_output_unit (rc_router cx))" "ou_decrement_credit outvc (r_output_unit (rc_router cx) ! outport) = Inr ou'"
    and cx': "cx' = (let cx1 = rc_put_output outport ou' (rc_put_input inport u' cx) in
       cx1\<lparr>rc_router := (rc_router cx1)\<lparr>r_switch := (r_switch (rc_router cx))\<lparr>cs_switch_buffer :=
         (cs_switch_buffer (r_switch (rc_router cx)))[inport := insert_flit f (cs_switch_buffer (r_switch (rc_router cx)) ! inport)]\<rparr>\<rparr>\<rparr>)"
  have "iu_wires u' = iu_wires (r_input_unit (rc_router cx) ! inport)" using i(2) by (auto simp: iu_getTopFlit_def)
  moreover have "ou_wires ou' = ou_wires (r_output_unit (rc_router cx) ! outport)" using o(2) by (auto simp: ou_decrement_credit_def ou_modify_Inr)
  ultimately show ?thesis using i(1) o(1) by (simp add: cx' Let_def rc_put_output_def rc_put_input_def router_wires_def map_same)
qed

lemma sa_uturn_wires:
  "sa_uturn_won inport invc cx = Inr cx' \<Longrightarrow> cx_wires cx' = cx_wires cx"
  "sa_check_uturn C inport invc cx = Inr cx' \<Longrightarrow> cx_wires cx' = cx_wires cx"
  by (auto simp: sa_uturn_won_def sa_check_uturn_def Let_def dest!: sa_small_wires split: if_splits)

lemma sa_try_invc_wires: "sa_try_invc C now inport v cx = Inr (won, cx') \<Longrightarrow> cx_wires cx' = cx_wires cx"
  by (auto simp: sa_try_invc_def Let_def dest!: sa_uturn_wires split: if_splits)

lemma sa_scan_invcs_wires: "sa_scan_invcs C now inport vs cx = Inr cx' \<Longrightarrow> cx_wires cx' = cx_wires cx"
  by (induction vs arbitrary: cx) (auto dest!: sa_try_invc_wires split: if_splits)

lemma sa_grant_wires:
  assumes "sa_grant C now outport p cx = Inr cx'"
  shows "cx_wires cx' = cx_wires cx"
  using assms
  by (rule sa_grant_cases) (auto dest!: vc_allocate_wires sa_send_wires sa_small_wires sa_uturn_wires split: if_splits)

lemma sa_scan_inports_wires: "sa_scan_inports C now outport ps cx = Inr cx' \<Longrightarrow> cx_wires cx' = cx_wires cx"
  by (induction ps) (auto dest: sa_grant_wires split: if_splits)

interpretation sa_in_wires: conserved "sa_arbitrate_inport C now" cx_wires for C now
  by unfold_locales (auto simp: sa_arbitrate_inport_def dest: sa_scan_invcs_wires)

interpretation sa_out_wires: conserved "sa_arbitrate_outport C now" cx_wires for C now
  by unfold_locales (auto simp: sa_arbitrate_outport_def dest: sa_scan_inports_wires)

interpretation xbar_wires: conserved "xbar_inport now" cx_wires for now
  by unfold_locales (auto elim!: xbar_inport_cases simp: xbar_move_def Let_def ou_insert_flit_def router_wires_def map_same)

lemma Router_switch_wires:
  assumes "Router_switch rid net = Inr net'"
  shows "gn_wires net' = gn_wires net"
proof -
  from assms obtain cx1 cx2 where rid: "rid < length (gn_routers net)"
    and sa: "SwitchAllocator_wakeup (gn_config net) (gn_cycle net) \<lparr>rc_router = gn_routers net ! rid, rc_stats = gn_stats net, rc_events = []\<rparr> = Inr cx1"
    and xb: "CrossbarSwitch_wakeup (gn_cycle net) cx1 = Inr cx2"
    and net': "net' = schedule_events (rc_events cx2) ((put_router net rid (rc_router cx2))\<lparr>gn_stats := rc_stats cx2\<rparr>)"
    by (auto simp: Router_switch_def get_router_def at_eq_Inr)
  have "cx_wires cx1 = router_wires (gn_routers net ! rid)"
    using sa by (auto simp: SwitchAllocator_wakeup_def arbitrate_inports_def arbitrate_outports_def check_for_wakeup_def
        dest!: sa_in_wires.loop_conserves sa_out_wires.loop_conserves split: if_splits)
  then have "cx_wires cx2 = router_wires (gn_routers net ! rid)"
    using xbar_wires.loop_conserves [OF xb [unfolded CrossbarSwitch_wakeup_def]] by simp
  then show ?thesis using rid by (simp add: net' put_router_wires)
qed

section \<open>Steps\<close>

lemma Router_wakeup_wires:
  assumes "Router_wakeup rid net = Inr net'"
  shows "gn_wires net' = gn_wires net"
  using assms
proof (rule Router_wakeup_cases)
  fix net1 net2 net3
  assume "foldM (InputUnit_wakeup rid) [0..<length (r_input_unit (gn_routers net ! rid))] net = Inr net1"
    and "foldM (Router_read_credit rid) [0..<length (r_output_unit (gn_routers net ! rid))] net1 = Inr net2"
    and "Router_spin rid net2 = Inr net3" "Router_switch rid net3 = Inr net'"
  then show ?thesis
    by (auto dest!: inputs_wires.loop_conserves credits_wires.loop_conserves Router_spin_wires Router_switch_wires)
qed

lemma link_transfer_wires: "link_transfer now src l = Inr (src', l', es) \<Longrightarrow> link_wires l' = link_wires l"
  by (auto simp: link_transfer_def Let_def split: if_splits option.splits)

lemma write_queue_wires [simp]: "gn_wires (write_flit_queue q b net) = gn_wires net" "gn_wires (write_credit_queue r c net) = gn_wires net"
  by (auto simp: write_flit_queue_def write_credit_queue_def gn_wires_def router_wires_def map_count_up
      split: flit_queue_ref.splits credit_queue_ref.splits)

lemma set_link_wires:
  "k < length (gn_networklinks net) \<Longrightarrow> link_wires l = link_wires (gn_networklinks net ! k) \<Longrightarrow> gn_wires net' = gn_wires net \<Longrightarrow>
    gn_wires (net'\<lparr>gn_networklinks := (gn_networklinks net)[k := l]\<rparr>) = gn_wires net"
  "k < length (gn_creditlinks net) \<Longrightarrow> link_wires c = link_wires (gn_creditlinks net ! k) \<Longrightarrow> gn_wires net' = gn_wires net \<Longrightarrow>
    gn_wires (net'\<lparr>gn_creditlinks := (gn_creditlinks net)[k := c]\<rparr>) = gn_wires net"
  by (auto simp: gn_wires_def map_same)

lemma link_wakeup_wires:
  "NetworkLink_wakeup k net = Inr net' \<Longrightarrow> gn_wires net' = gn_wires net"
  "CreditLink_wakeup k net = Inr net' \<Longrightarrow> gn_wires net' = gn_wires net"
  by (auto simp: NetworkLink_wakeup_def CreditLink_wakeup_def at_eq_Inr dest!: link_transfer_wires intro!: set_link_wires
      split: option.splits)

lemma net_step_wires: "net_step net net' \<Longrightarrow> gn_wires net' = gn_wires net"
  by (erule net_stepE) (auto dest: Router_wakeup_wires link_wakeup_wires)

end
