(* ===== verification/Channel_Steps.thy ===== *)
theory Channel_Steps
  imports Wiring_Steps
begin

text \<open>
  Invariants of the virtual channels. What a router does to its channels are four things: it changes the buffer, it
  makes the channel active or idle, and it enters the output channel. A property of single channels that these keep
  (locale \<open>channel_property\<close>) is kept by every step of the network, drains included. The instance is that no channel
  has an output port: nothing calls \<open>grant_outport\<close>.
\<close>

definition unit_channels :: "(virtual_channel \<Rightarrow> bool) \<Rightarrow> input_unit \<Rightarrow> bool" where
  "unit_channels Q u \<longleftrightarrow> (\<forall>v \<in> set (iu_vcs u). Q v)"

definition router_channels :: "(virtual_channel \<Rightarrow> bool) \<Rightarrow> router \<Rightarrow> bool" where
  "router_channels Q r \<longleftrightarrow> (\<forall>u \<in> set (r_input_unit r). unit_channels Q u)"

definition net_channels :: "(virtual_channel \<Rightarrow> bool) \<Rightarrow> garnet_network \<Rightarrow> bool" where
  "net_channels Q net \<longleftrightarrow> (\<forall>us \<in> set (gn_ins net). \<forall>u \<in> set us. unit_channels Q u)"

lemma net_channels_routers: "net_channels Q net \<longleftrightarrow> (\<forall>r \<in> set (gn_routers net). router_channels Q r)"
  by (simp add: net_channels_def router_channels_def)

lemma in_update: "x \<in> set (xs[i := y]) \<Longrightarrow> x = y \<or> x \<in> set xs"
  using set_update_subset_insert [of xs i y] by auto

lemma all_update: "\<forall>x \<in> set xs. R x \<Longrightarrow> R y \<Longrightarrow> \<forall>x \<in> set (xs[i := y]). R x"
  by (auto dest!: in_update)

lemma foldM_keeps:
  assumes "foldM f xs s = Inr s'" and "\<And>x t t'. f x t = Inr t' \<Longrightarrow> I t \<Longrightarrow> I t'" and "I s"
  shows "I s'"
  using foldM_invariant [of f xs s s' I] assms by blast

lemma traverse_all:
  assumes "traverse f xs = Inr ys" and "\<And>x y. x \<in> set xs \<Longrightarrow> f x = Inr y \<Longrightarrow> R y"
  shows "\<forall>y \<in> set ys. R y"
  using traverse_Inr [OF assms(1)] assms(2) by (metis in_set_conv_nth)

lemma put_router_channels: "net_channels Q net \<Longrightarrow> router_channels Q r \<Longrightarrow> net_channels Q (put_router net i r)"
  by (auto simp: net_channels_routers put_router_def dest!: in_update)

lemma gn_input_channels: "net_channels Q net \<Longrightarrow> gn_input net rid p = Inr u \<Longrightarrow> unit_channels Q u"
  by (auto simp: net_channels_routers router_channels_def gn_input_def get_router_def at_eq_Inr) (metis nth_mem)

lemma router_at_channels: "net_channels Q net \<Longrightarrow> i < length (gn_routers net) \<Longrightarrow> router_channels Q (gn_routers net ! i)"
  by (simp add: net_channels_routers)

lemma router_fields_channels [simp]:
  "router_channels Q (r\<lparr>r_output_unit := us\<rparr>) = router_channels Q r" "router_channels Q (r\<lparr>r_halt := b\<rparr>) = router_channels Q r"
  by (simp_all add: router_channels_def)

lemma put_input_channels:
  assumes "net_channels Q net" and "gn_input net rid (int p) = Inr u" and "unit_channels Q u'"
  shows "net_channels Q (gn_put_input rid p u' net)"
proof -
  from assms(2) have "router_channels Q (gn_routers net ! rid)" using assms(1) by (auto simp: net_channels_routers gn_input_Inr)
  then show ?thesis unfolding gn_put_input_def Let_def using assms(1,3)
    by (intro put_router_channels) (auto simp: router_channels_def dest!: in_update)
qed

lemma route_frame_channels: "route_frame net net' \<Longrightarrow> net_channels Q net' = net_channels Q net"
  by (simp add: net_channels_def route_frame_ins del: set_map)

lemma ins_update_channels:
  assumes "gn_ins net' = ins_update vc s v (gn_ins net)" and "chan_ok net vc s" and "net_channels Q net" and "Q v"
  shows "net_channels Q net'"
proof -
  let ?us = "gn_ins net ! fst s" let ?u = "?us ! snd s"
  have m: "fst s < length (gn_ins net)" "snd s < length ?us" using assms(2) by (simp_all only: chan_ok_def)
  have us: "\<forall>u \<in> set ?us. unit_channels Q u" using assms(3) m(1) unfolding net_channels_def by (metis nth_mem)
  then have "unit_channels Q ?u" using m(2) nth_mem by blast
  then have "unit_channels Q (?u\<lparr>iu_vcs := (iu_vcs ?u)[vc := v]\<rparr>)" using assms(4) by (auto simp: unit_channels_def dest!: in_update)
  then show ?thesis using assms(3) us unfolding net_channels_def assms(1) ins_update_def by (intro all_update) auto
qed

lemma chan_holds: "net_channels Q net \<Longrightarrow> chan_ok net vc s \<Longrightarrow> Q (chan net vc s)"
  unfolding net_channels_def chan_ok_def chan_def unit_channels_def by (metis nth_mem)

lemma net_fields_channels [simp]:
  "net_channels Q (net\<lparr>gn_lock := k\<rparr>) = net_channels Q net" "net_channels Q (net\<lparr>gn_stats := s\<rparr>) = net_channels Q net"
  "net_channels Q (net\<lparr>gn_cycle := t\<rparr>) = net_channels Q net" "net_channels Q (net\<lparr>gn_random := f\<rparr>) = net_channels Q net"
  "net_channels Q (gn_map_stats g net) = net_channels Q net" "net_channels Q (set_halt b net) = net_channels Q net"
  "net_channels Q (net\<lparr>gn_networklinks := nl\<rparr>) = net_channels Q net" "net_channels Q (net\<lparr>gn_creditlinks := cl\<rparr>) = net_channels Q net"
  "net_channels Q (net\<lparr>gn_nis := ns\<rparr>) = net_channels Q net"
  by (auto simp: net_channels_def gn_map_stats_def set_halt_def)

lemma net_channels_vcs:
  "map (\<lambda>r. map iu_vcs (r_input_unit r)) (gn_routers net') = map (\<lambda>r. map iu_vcs (r_input_unit r)) (gn_routers net) \<Longrightarrow>
    net_channels Q net' = net_channels Q net"
proof -
  have "net_channels Q net \<longleftrightarrow> (\<forall>vss \<in> set (map (\<lambda>r. map iu_vcs (r_input_unit r)) (gn_routers net)). \<forall>vs \<in> set vss. \<forall>v \<in> set vs. Q v)" for net
    by (simp add: net_channels_def unit_channels_def)
  then show "map (\<lambda>r. map iu_vcs (r_input_unit r)) (gn_routers net') = map (\<lambda>r. map iu_vcs (r_input_unit r)) (gn_routers net) \<Longrightarrow>
    net_channels Q net' = net_channels Q net" by (simp only:)
qed

lemma write_queue_channels [simp]:
  "net_channels Q (write_flit_queue q b net) = net_channels Q net" "net_channels Q (write_credit_queue r c net) = net_channels Q net"
  by (rule net_channels_vcs; auto simp: write_flit_queue_def write_credit_queue_def map_count_up
      split: flit_queue_ref.splits credit_queue_ref.splits)+

lemma schedule_one_channels: "net_channels Q (schedule_one e net) = net_channels Q net"
  by (rule net_channels_vcs) (auto simp: schedule_one_def map_count_up split: prod.splits consumer_ref.splits)

lemma schedule_channels [simp]:
  "net_channels Q (schedule_events es net) = net_channels Q net" "net_channels Q (scheduleAll_wakeup n net) = net_channels Q net"
  "net_channels Q (gn_schedule_wakeup n net) = net_channels Q net"
proof -
  show s: "net_channels Q (schedule_events es net) = net_channels Q net" for es net
    unfolding schedule_events_def by (induction es arbitrary: net) (auto simp: schedule_one_channels)
  show "net_channels Q (scheduleAll_wakeup n net) = net_channels Q net" "net_channels Q (gn_schedule_wakeup n net) = net_channels Q net"
    by (simp_all add: scheduleAll_wakeup_def gn_schedule_wakeup_def s)
qed

abbreviation cx_channels :: "(virtual_channel \<Rightarrow> bool) \<Rightarrow> router_ctx \<Rightarrow> bool" where
  "cx_channels Q cx \<equiv> router_channels Q (rc_router cx)"

lemma rc_input_channels: "cx_channels Q cx \<Longrightarrow> rc_input cx i = Inr u \<Longrightarrow> unit_channels Q u"
  by (auto simp: router_channels_def rc_input_def at_eq_Inr)

lemma rc_put_channels [simp]:
  "cx_channels Q (rc_map_alloc f cx) = cx_channels Q cx" "cx_channels Q (rc_map_stats g cx) = cx_channels Q cx"
  "cx_channels Q (cx\<lparr>rc_events := es\<rparr>) = cx_channels Q cx" "cx_channels Q (rc_put_output j w cx) = cx_channels Q cx"
  by (simp_all add: rc_map_alloc_def rc_map_stats_def rc_put_output_def router_channels_def)

lemma rc_put_input_channels: "cx_channels Q cx \<Longrightarrow> unit_channels Q u \<Longrightarrow> cx_channels Q (rc_put_input i u cx)"
  by (auto simp: rc_put_input_def router_channels_def dest!: in_update)

section \<open>Properties of channels that every step keeps\<close>

locale channel_property =
  fixes Q :: "virtual_channel \<Rightarrow> bool"
  assumes keeps_buffer: "Q v \<Longrightarrow> Q (v\<lparr>vc_input_buffer := b\<rparr>)"
    and keeps_idle: "Q v \<Longrightarrow> Q (vc_set_idle t v)"
    and keeps_active: "Q v \<Longrightarrow> Q (vc_set_active t v)"
    and keeps_outvc: "Q v \<Longrightarrow> Q (v\<lparr>vc_output_vc := x\<rparr>)"
begin

lemma keeps_flits: "Q v \<Longrightarrow> Q (vc_insertFlit f v)" "Q v \<Longrightarrow> Q (vc_update_top g v)" "vc_getTopFlit v = Inr (f, v') \<Longrightarrow> Q v \<Longrightarrow> Q v'"
  by (auto simp: vc_insertFlit_def vc_update_top_def vc_getTopFlit_def keeps_buffer)

lemma modify:
  "iu_modify u vc g = Inr u' \<Longrightarrow> (\<And>v. Q v \<Longrightarrow> Q (g v)) \<Longrightarrow> unit_channels Q u \<Longrightarrow> unit_channels Q u'"
  by (auto simp: iu_modify_Inr unit_channels_def dest!: in_update)

lemma unit_ops:
  assumes "unit_channels Q u"
  shows "iu_set_vc_idle vc t u = Inr u' \<Longrightarrow> unit_channels Q u'" and "iu_set_vc_active vc t u = Inr u' \<Longrightarrow> unit_channels Q u'"
    and "iu_grant_outvc vc x u = Inr u' \<Longrightarrow> unit_channels Q u'" and "iu_getTopFlit u vc = Inr (f, u') \<Longrightarrow> unit_channels Q u'"
    and "iu_modify u vc (vc_update_top g) = Inr u' \<Longrightarrow> unit_channels Q u'" and "iu_modify u vc (vc_insertFlit f) = Inr u' \<Longrightarrow> unit_channels Q u'"
proof -
  show "iu_set_vc_idle vc t u = Inr u' \<Longrightarrow> unit_channels Q u'" "iu_set_vc_active vc t u = Inr u' \<Longrightarrow> unit_channels Q u'"
    "iu_grant_outvc vc x u = Inr u' \<Longrightarrow> unit_channels Q u'" "iu_modify u vc (vc_update_top g) = Inr u' \<Longrightarrow> unit_channels Q u'"
    "iu_modify u vc (vc_insertFlit f) = Inr u' \<Longrightarrow> unit_channels Q u'"
    unfolding iu_set_vc_idle_def iu_set_vc_active_def iu_grant_outvc_def
    using assms by (auto elim!: modify intro: keeps_idle keeps_active keeps_outvc keeps_flits)
  assume "iu_getTopFlit u vc = Inr (f, u')"
  then obtain v' where g: "nat vc < length (iu_vcs u)" "vc_getTopFlit (iu_vcs u ! nat vc) = Inr (f, v')"
    and u': "u' = u\<lparr>iu_vcs := (iu_vcs u)[nat vc := v']\<rparr>" by (auto simp: iu_getTopFlit_def at_eq_Inr)
  have "Q (iu_vcs u ! nat vc)" using assms g(1) by (simp add: unit_channels_def)
  from keeps_flits(3) [OF g(2) this] show "unit_channels Q u'" using assms by (auto simp: u' unit_channels_def dest!: in_update)
qed

lemma InputUnit_wakeup_keeps:
  assumes "InputUnit_wakeup rid p net = Inr net'" and "net_channels Q net"
  shows "net_channels Q net'"
proof -
  have head: "net_channels Q b" if "iu_head_flit rid p t a = Inr (t1, b)" "net_channels Q a" for a b t t1
  proof (cases "is_head t")
    case True
    with that obtain u u1 op where u: "gn_input a rid (int p) = Inr u" "iu_set_vc_active (fl_vc t) (gn_cycle a) u = Inr u1"
      and oc: "outportCompute (gn_put_input rid p u1 a) rid (fl_route t) = Inr (op, b)" by (auto simp: iu_head_flit_def)
    have "net_channels Q (gn_put_input rid p u1 a)"
      by (rule put_input_channels [OF that(2) u(1) unit_ops(2) [OF gn_input_channels [OF that(2) u(1)] u(2)]])
    then show ?thesis using route_frame_channels [OF route_frame_outportCompute [OF oc]] by simp
  qed (use that in \<open>auto simp: iu_head_flit_def\<close>)
  have buf: "net_channels Q b" if "iu_buffer_flit rid p t a = Inr b" "net_channels Q a" for a b t
  proof -
    from that(1) obtain u t1 u1 u2 es where u: "gn_input a rid (int p) = Inr u" "iu_modify u (fl_vc t) (vc_insertFlit t1) = Inr u1"
      and b: "b = schedule_events es (gn_put_input rid p u2 a)" "iu_vcs u2 = iu_vcs u1"
      by (auto simp: iu_buffer_flit_def Let_def split: if_splits)
    have "unit_channels Q u2" using unit_ops(6) [OF gn_input_channels [OF that(2) u(1)] u(2)] b(2) by (simp add: unit_channels_def)
    from put_input_channels [OF that(2) u(1) this] show ?thesis by (simp add: b(1))
  qed
  show ?thesis using assms by (auto simp: InputUnit_wakeup_def dest!: head elim!: buf split: if_splits)
qed

lemma Router_read_credit_keeps:
  assumes "Router_read_credit rid p net = Inr net'" and "net_channels Q net"
  shows "net_channels Q net'"
proof -
  from assms(1) obtain r us cl where "get_router net (int rid) = Inr r"
    and "net' = (put_router net rid (r\<lparr>r_output_unit := us\<rparr>))\<lparr>gn_creditlinks := cl\<rparr>"
    by (auto simp: Router_read_credit_def)
  then show ?thesis using assms(2) by (auto simp: get_router_def at_eq_Inr intro!: put_router_channels router_at_channels)
qed

lemma doSpin_keeps:
  assumes "doSpin vc net = Inr net'" and "net_channels Q net"
  shows "net_channels Q net'"
proof -
  have 1: "net_channels Q (fst s')" if "spin_take vc idx s = Inr s'" "net_channels Q (fst s)" for idx s s'
  proof -
    obtain a k b k' where s: "s = (a, k)" "s' = (b, k')" by fastforce
    from that(1) [unfolded s] show ?thesis
    proof (cases rule: spin_take_effect)
      case bubble
      then show ?thesis using that(2) by (simp add: s net_channels_def del: set_map)
    next
      case (packet f f1 v1)
      have "Q (chan a vc (ring_slot a idx))" using that(2) packet(5) by (simp add: s chan_holds)
      from keeps_idle [OF keeps_flits(3) [OF packet(1) this]] show ?thesis
        using ins_update_channels [OF packet(8,5)] that(2) by (simp add: s)
    qed
  qed
  have 2: "net_channels Q (fst s')" if "spin_insert vc idx s = Inr s'" "net_channels Q (fst s)" for idx s s'
  proof -
    obtain a k b k' where s: "s = (a, k)" "s' = (b, k')" by fastforce
    from that(1) [unfolded s] show ?thesis
    proof (cases rule: spin_insert_effect)
      case empty
      then show ?thesis using that(2) by (simp add: s)
    next
      case (packet t f)
      have "Q (chan a vc (ring_slot a idx))" using that(2) packet(7) by (simp add: s chan_holds)
      from keeps_active [OF keeps_flits(1) [OF this]] show ?thesis
        using ins_update_channels [OF packet(10,7)] that(2) by (simp add: s)
    qed
  qed
  from assms(1) obtain net2 k where t: "foldM (spin_take vc) [0..<length (gn_spinRing net) - 1]
       (gn_map_stats (\<lambda>s. s\<lparr>st_total_spins := st_total_spins s + 1\<rparr>) net, 0) = Inr (net2, k)"
    and i: "foldM (spin_insert vc) [1..<length (gn_spinRing net)] (net2, int k) = Inr (net', 0)" by (rule doSpin_cases)
  have "net_channels Q (fst (net2, k))" using assms(2) by (intro foldM_keeps [where I = "\<lambda>s. net_channels Q (fst s)", OF t 1]) simp_all
  then show ?thesis using foldM_keeps [where I = "\<lambda>s. net_channels Q (fst s)", OF i 2] by simp
qed

lemma drain_rounds_keeps:
  assumes "drain_rounds r net = Inr net'" and "net_channels Q net"
  shows "net_channels Q net'"
proof -
  have c: "net_channels Q b" if "count_and_spin vc a = Inr b" "net_channels Q a" for vc a b
    using that by (auto simp: count_and_spin_def intro: doSpin_keeps)
  have "net_channels Q b" if "foldM (\<lambda>_ :: nat. foldM count_and_spin vcs) ks a = Inr b" "net_channels Q a" for vcs ks a b
    using that(1) foldM_keeps [where I = "net_channels Q", OF _ c] that(2) by (rule foldM_keeps [where I = "net_channels Q"])
  then show ?thesis using assms by (auto simp: drain_rounds_def spin_rounds_def Let_def next_random_def split: if_splits)
qed

lemma set_flit_time_keeps:
  assumes "set_flit_time vc net = Inr net'" and "net_channels Q net"
  shows "net_channels Q net'"
proof -
  let ?f = "flit_time_inport vc (gn_cycle net) (nc_spin_mult (gn_config net))"
  from assms(1) obtain rs where rs: "traverse (\<lambda>r. bnd (traverse ?f (r_input_unit r)) (\<lambda>us. Inr (r\<lparr>r_input_unit := us\<rparr>))) (gn_routers net) = Inr rs"
    and net': "net' = net\<lparr>gn_routers := rs\<rparr>" by (auto simp: set_flit_time_def)
  have u: "unit_channels Q u'" if "?f u = Inr u'" "unit_channels Q u" for u u'
    using that by (auto simp: flit_time_inport_def intro: unit_ops(5) split: if_splits)
  have r: "router_channels Q r'" if r: "bnd (traverse ?f (r_input_unit r)) (\<lambda>us. Inr (r\<lparr>r_input_unit := us\<rparr>)) = Inr r'" "router_channels Q r" for r r'
  proof -
    from r(1) obtain us where us: "traverse ?f (r_input_unit r) = Inr us" and r': "r' = r\<lparr>r_input_unit := us\<rparr>" by auto
    have "\<forall>x \<in> set us. unit_channels Q x"
      by (rule traverse_all [OF us]) (use r(2) u in \<open>auto simp: router_channels_def\<close>)
    then show ?thesis by (simp add: router_channels_def r')
  qed
  have "\<forall>x \<in> set rs. router_channels Q x"
    by (rule traverse_all [OF rs]) (use assms(2) r in \<open>auto simp: net_channels_routers\<close>)
  then show ?thesis by (simp add: net_channels_routers net')
qed

lemma Router_spin_keeps:
  assumes "Router_spin rid net = Inr net'" and "net_channels Q net"
  shows "net_channels Q net'"
proof -
  have "net_channels Q net'" if "end_halt rid net = Inr net'"
    using that
  proof (rule end_halt_cases)
    fix net2 net3
    let ?net1 = "set_halt False (put_router net rid ((gn_routers net ! rid)\<lparr>r_halt := True\<rparr>))"
    assume r: "rid < length (gn_routers net)" and d: "drain_rounds (gn_routers net ! rid) ?net1 = Inr net2"
      and f: "foldM set_flit_time (drain_vcs (gn_config net2) (gn_routers net ! rid)) net2 = Inr net3"
      and n: "net' = scheduleAll_wakeup (2 * nc_spin_mult (gn_config (gn_schedule_wakeup 3 (net3\<lparr>gn_lock := -1\<rparr>))))
       (gn_schedule_wakeup 3 (net3\<lparr>gn_lock := -1\<rparr>))"
    have "net_channels Q ?net1" using r assms(2) by (simp add: put_router_channels router_at_channels)
    then have "net_channels Q net2" by (rule drain_rounds_keeps [OF d])
    then have "net_channels Q net3" by (rule foldM_keeps [where I = "net_channels Q", OF f, rotated]) (rule set_flit_time_keeps)
    then show ?thesis by (simp add: n)
  qed
  moreover have "net_channels Q net'" if "begin_halt rid net = Inr net'"
    using that assms(2) by (auto simp: begin_halt_def Let_def split: if_splits)
  ultimately show ?thesis using assms by (auto simp: Router_spin_def Let_def split: if_splits)
qed

lemma sa_small_keeps:
  assumes "cx_channels Q cx"
  shows "sa_set_uturn inport invc b cx = Inr cx' \<Longrightarrow> cx_channels Q cx'" and "disallow_uturn inport invc d cx = Inr cx' \<Longrightarrow> cx_channels Q cx'"
    and "sa_return_credit C now inport invc f cx = Inr cx' \<Longrightarrow> cx_channels Q cx'"
    and "vc_allocate now outport inport invc cx = Inr (x, cx') \<Longrightarrow> cx_channels Q cx'"
proof -
  show "sa_set_uturn inport invc b cx = Inr cx' \<Longrightarrow> cx_channels Q cx'"
    using assms by (auto simp: sa_set_uturn_def intro!: rc_put_input_channels elim: unit_ops(5) [OF rc_input_channels])
  show "disallow_uturn inport invc d cx = Inr cx' \<Longrightarrow> cx_channels Q cx'"
    using assms by (auto simp: disallow_uturn_def Let_def intro!: rc_put_input_channels elim: unit_ops(5) [OF rc_input_channels, rotated])
  show "sa_return_credit C now inport invc f cx = Inr cx' \<Longrightarrow> cx_channels Q cx'"
  proof -
    assume "sa_return_credit C now inport invc f cx = Inr cx'"
    then obtain u u1 q es where u: "rc_input cx inport = Inr u" "u1 = u \<or> iu_set_vc_idle (int invc) now u = Inr u1"
      and cx': "cx' = (rc_put_input inport (u1\<lparr>iu_creditQueue := q\<rparr>) cx)\<lparr>rc_events := es\<rparr>"
      by (cases "is_tail f") (auto simp: sa_return_credit_def Let_def iu_increment_credit_def split: if_splits)
    have "unit_channels Q u1" using u(2) rc_input_channels [OF assms u(1)] unit_ops(1) by auto
    then have "unit_channels Q (u1\<lparr>iu_creditQueue := q\<rparr>)" by (simp add: unit_channels_def)
    then show ?thesis using assms by (simp add: cx' rc_put_input_channels)
  qed
  show "vc_allocate now outport inport invc cx = Inr (x, cx') \<Longrightarrow> cx_channels Q cx'"
    using assms by (auto simp: vc_allocate_def intro!: rc_put_input_channels elim: unit_ops(3) [OF rc_input_channels])
qed

lemma sa_send_keeps:
  assumes "sa_send now outport inport invc outvc cx = Inr (f, cx')" and "cx_channels Q cx"
  shows "cx_channels Q cx'"
  using assms(1)
proof (rule sa_send_cases)
  fix g u' ou' b
  assume i: "inport < length (r_input_unit (rc_router cx))" "iu_getTopFlit (r_input_unit (rc_router cx) ! inport) (int invc) = Inr (g, u')"
    and cx': "cx' = (let cx1 = rc_put_output outport ou' (rc_put_input inport u' cx) in
       cx1\<lparr>rc_router := (rc_router cx1)\<lparr>r_switch := (r_switch (rc_router cx))\<lparr>cs_switch_buffer :=
         (cs_switch_buffer (r_switch (rc_router cx)))[inport := insert_flit f (cs_switch_buffer (r_switch (rc_router cx)) ! inport)]\<rparr>\<rparr>\<rparr>)"
  have "unit_channels Q (r_input_unit (rc_router cx) ! inport)" using assms(2) i(1) by (simp add: router_channels_def)
  from unit_ops(4) [OF this i(2)] have "unit_channels Q u'" .
  from rc_put_input_channels [OF assms(2) this, of inport] show ?thesis
    by (simp add: cx' Let_def rc_put_output_def router_channels_def)
qed

lemma stats_keeps:
  assumes "cx_channels Q cx"
  shows "sa_set_uturn inport invc b (rc_map_stats g cx) = Inr cx' \<Longrightarrow> cx_channels Q cx'"
    and "disallow_uturn inport invc d (rc_map_stats g cx) = Inr cx' \<Longrightarrow> cx_channels Q cx'"
  using sa_small_keeps(1,2) [of "rc_map_stats g cx"] assms by simp_all

lemma sa_uturn_keeps:
  assumes "cx_channels Q cx"
  shows "sa_uturn_won inport invc cx = Inr cx' \<Longrightarrow> cx_channels Q cx'" and "sa_check_uturn C inport invc cx = Inr cx' \<Longrightarrow> cx_channels Q cx'"
  using assms by (auto simp: sa_uturn_won_def sa_check_uturn_def Let_def dest!: sa_small_keeps(1) [rotated] stats_keeps [rotated] split: if_splits)

lemma sa_grant_keeps:
  assumes "sa_grant C now outport p cx = Inr cx'" and "cx_channels Q cx"
  shows "cx_channels Q cx'"
  using assms(1)
  by (rule sa_grant_cases) (use assms(2) in \<open>auto dest!: sa_small_keeps(3,4) [rotated] sa_send_keeps sa_uturn_keeps(1) [rotated] split: if_splits\<close>)

lemma scan_keeps:
  "sa_scan_invcs C now inport vs cx = Inr cx' \<Longrightarrow> cx_channels Q cx \<Longrightarrow> cx_channels Q cx'"
  "sa_scan_inports C now outport ps cx = Inr cx' \<Longrightarrow> cx_channels Q cx \<Longrightarrow> cx_channels Q cx'"
proof -
  have t: "cx_channels Q c'" if "sa_try_invc C now inport v c = Inr (won, c')" "cx_channels Q c" for v c won c'
    using that by (auto simp: sa_try_invc_def Let_def dest!: sa_uturn_keeps(2) [rotated] split: if_splits)
  show "sa_scan_invcs C now inport vs cx = Inr cx' \<Longrightarrow> cx_channels Q cx \<Longrightarrow> cx_channels Q cx'"
    by (induction vs arbitrary: cx) (auto dest!: t split: if_splits)
  show "sa_scan_inports C now outport ps cx = Inr cx' \<Longrightarrow> cx_channels Q cx \<Longrightarrow> cx_channels Q cx'"
    by (induction ps) (auto dest: sa_grant_keeps split: if_splits)
qed

lemma Router_switch_keeps:
  assumes "Router_switch rid net = Inr net'" and "net_channels Q net"
  shows "net_channels Q net'"
proof -
  from assms(1) obtain cx1 cx2 where rid: "rid < length (gn_routers net)"
    and sa: "SwitchAllocator_wakeup (gn_config net) (gn_cycle net) \<lparr>rc_router = gn_routers net ! rid, rc_stats = gn_stats net, rc_events = []\<rparr> = Inr cx1"
    and xb: "CrossbarSwitch_wakeup (gn_cycle net) cx1 = Inr cx2"
    and net': "net' = schedule_events (rc_events cx2) ((put_router net rid (rc_router cx2))\<lparr>gn_stats := rc_stats cx2\<rparr>)"
    by (auto simp: Router_switch_def get_router_def at_eq_Inr)
  have in_loop: "cx_channels Q b" if "foldM (sa_arbitrate_inport C now) is a = Inr b" "cx_channels Q a" for C now "is" a b
    by (rule foldM_keeps [where I = "cx_channels Q", OF that(1) _ that(2)]) (auto simp: sa_arbitrate_inport_def intro: scan_keeps(1))
  have out_loop: "cx_channels Q b" if "foldM (sa_arbitrate_outport C now) os a = Inr b" "cx_channels Q a" for C now os a b
    by (rule foldM_keeps [where I = "cx_channels Q", OF that(1) _ that(2)]) (auto simp: sa_arbitrate_outport_def intro: scan_keeps(2))
  have "router_channels Q (gn_routers net ! rid)" using assms(2) rid by (simp add: net_channels_routers)
  then have "cx_channels Q cx1"
    using sa by (auto simp: SwitchAllocator_wakeup_def arbitrate_inports_def arbitrate_outports_def check_for_wakeup_def
        dest!: in_loop out_loop split: if_splits)
  then have "cx_channels Q cx2"
    by (rule foldM_keeps [where I = "cx_channels Q", OF xb [unfolded CrossbarSwitch_wakeup_def], rotated]) (auto elim!: xbar_inport_cases simp: xbar_move_def Let_def router_channels_def split: prod.splits)
  then show ?thesis using assms(2) by (simp add: net' put_router_channels)
qed

lemma net_step_keeps:
  assumes "net_step net net'" and "net_channels Q net"
  shows "net_channels Q net'"
proof -
  have "net_channels Q net'" if "Router_wakeup rid net = Inr net'" for rid
    using that
  proof (rule Router_wakeup_cases)
    fix net1 net2 net3
    assume s: "foldM (InputUnit_wakeup rid) [0..<length (r_input_unit (gn_routers net ! rid))] net = Inr net1"
      "foldM (Router_read_credit rid) [0..<length (r_output_unit (gn_routers net ! rid))] net1 = Inr net2"
      "Router_spin rid net2 = Inr net3" "Router_switch rid net3 = Inr net'"
    have "net_channels Q net1" by (rule foldM_keeps [where I = "net_channels Q", OF s(1) _ assms(2)]) (rule InputUnit_wakeup_keeps)
    then have "net_channels Q net2" by (rule foldM_keeps [where I = "net_channels Q", OF s(2), rotated]) (rule Router_read_credit_keeps)
    then show ?thesis by (intro Router_switch_keeps [OF s(4)] Router_spin_keeps [OF s(3)])
  qed
  moreover have "net_channels Q net'" if "NetworkLink_wakeup k net = Inr net' \<or> CreditLink_wakeup k net = Inr net'" for k
    using that assms(2) by (auto simp: NetworkLink_wakeup_def CreditLink_wakeup_def split: option.splits)
  ultimately show ?thesis using assms by (elim net_stepE) auto
qed

end

section \<open>No channel has an output port\<close>

abbreviation outport_unset :: "virtual_channel \<Rightarrow> bool" where
  "outport_unset v \<equiv> vc_output_port v = -1"

interpretation unset: channel_property outport_unset
  by unfold_locales (simp_all add: vc_set_idle_def vc_set_active_def)

lemma no_vc_outport_channels: "no_vc_outport u = unit_channels outport_unset u"
  by (simp add: no_vc_outport_def unit_channels_def list_all_iff)

end
