(* ===== verification/Garnet_Wiring.thy ===== *)
theory Garnet_Wiring
  imports Garnet_Build Channel_Steps Topology_Correct Interface_Flow
begin

text \<open>
  What the construction of a network establishes. \<open>net_fresh\<close>: the lock is free, no router is halted, no flit is
  anywhere and every credit counter is within its bounds. \<open>net_wired\<close>: every port has its own link and the
  credit link of the same number, whose ends lead back to it; so a credit goes to the port from which the
  flit came. Both are invariants of the three functions that connect the network, hence of \<open>createLinks\<close>.
\<close>

section \<open>The links of a topology\<close>

text \<open>Every entry of the link map is a configured link, between the switches that it connects.\<close>

definition entry_ok :: "machine_types \<Rightarrow> ext_link list \<Rightarrow> int_link list \<Rightarrow> (nat \<times> nat) \<times> link_entry \<Rightarrow> bool" where
  "entry_ok M exts ints x \<longleftrightarrow>
     (\<exists>l \<in> set exts. le_link (snd x) = ExtLink l \<and> fst x \<in> ext_keys M (length exts) l) \<or>
     (\<exists>l \<in> set ints. le_link (snd x) = IntLink l \<and> fst x \<in> int_keys (length exts) l)"

lemma addLink_entries:
  assumes "addLink a b l x y T = Inr T'" and "\<forall>x \<in> set (tp_link_map T). q x"
    and "q ((a, b), \<lparr>le_link = l, le_src_outport_dirn = x, le_dst_inport_dirn = y\<rparr>)"
  shows "tp_nodes T' = tp_nodes T" and "\<forall>x \<in> set (tp_link_map T'). q x"
proof -
  have "set (map_put k v m) \<subseteq> insert (k, v) (set m)" for k :: "nat \<times> nat" and v :: link_entry and m
    by (induction k v m rule: map_put.induct) auto
  from this [of "(a, b)" "\<lparr>le_link = l, le_src_outport_dirn = x, le_dst_inport_dirn = y\<rparr>" "tp_link_map T"]
  show "tp_nodes T' = tp_nodes T" "\<forall>x \<in> set (tp_link_map T'). q x" using assms by (auto simp: addLink_def)
qed

lemma Topology_new_entries:
  assumes "Topology_new M n exts ints = Inr T"
  shows "tp_nodes T = length exts" and "\<forall>x \<in> set (tp_link_map T). entry_ok M exts ints x"
proof -
  let ?ok = "\<lambda>T. tp_nodes T = length exts \<and> (\<forall>x \<in> set (tp_link_map T). entry_ok M exts ints x)"
  from assms obtain T1 where a: "foldM (add_ext_link M) exts \<lparr>tp_nodes = length exts, tp_number_of_switches = n,
      tp_ext_link_vector = exts, tp_int_link_vector = ints, tp_link_map = []\<rparr> = Inr T1" and b: "foldM add_int_link ints T1 = Inr T"
    by (auto simp: Topology_new_def Let_def)
  from a have "?ok T1"
  proof (rule foldM_invariant)
    fix l T T' assume l: "l \<in> set exts" and T: "?ok T" and o: "add_ext_link M l T = Inr T'"
    let ?i = "mt_base_number M (el_ext_type l) + el_ext_version l" and ?r = "el_int_node l + 2 * length exts"
    from o T obtain T2 where T2: "addLink ?i ?r (ExtLink l) [] [] T = Inr T2" and T': "addLink ?r (?i + length exts) (ExtLink l) [] [] T2 = Inr T'"
      by (auto simp: add_ext_link_def Let_def)
    have k: "entry_ok M exts ints (k, \<lparr>le_link = ExtLink l, le_src_outport_dirn = [], le_dst_inport_dirn = []\<rparr>)"
      if "k \<in> {(?i, ?r), (?r, ?i + length exts)}" for k
      using l that by (auto simp: entry_ok_def ext_keys_def)
    from T have T0: "tp_nodes T = length exts" and e0: "\<forall>x \<in> set (tp_link_map T). entry_ok M exts ints x" by blast+
    note e2 = addLink_entries [OF T2 e0 k] and e' = addLink_entries [where q = "entry_ok M exts ints", OF T' _ k]
    have "\<forall>x \<in> set (tp_link_map T2). entry_ok M exts ints x" by (rule e2(2)) blast
    from e' [OF this] have "tp_nodes T' = tp_nodes T2" "\<forall>x \<in> set (tp_link_map T'). entry_ok M exts ints x" by blast+
    moreover have "tp_nodes T2 = length exts" using e2(1) T0 by simp
    ultimately show "?ok T'" by simp
  qed simp
  with b have "?ok T"
  proof (rule foldM_invariant)
    fix l T T' assume l: "l \<in> set ints" and T: "?ok T" and o: "add_int_link l T = Inr T'"
    let ?T = "T\<lparr>tp_int_link_vector := tp_int_link_vector T @ [l]\<rparr>"
    from o T have a: "addLink (il_src_node l + 2 * length exts) (il_dst_node l + 2 * length exts) (IntLink l) (il_src_outport l) (il_dst_inport l) ?T = Inr T'"
      by (simp add: add_int_link_def Let_def)
    have k: "entry_ok M exts ints ((il_src_node l + 2 * length exts, il_dst_node l + 2 * length exts), \<lparr>le_link = IntLink l,
        le_src_outport_dirn = il_src_outport l, le_dst_inport_dirn = il_dst_inport l\<rparr>)"
      using l by (auto simp: entry_ok_def int_keys_def)
    note e = addLink_entries [where q = "entry_ok M exts ints", OF a _ k]
    have "\<forall>x \<in> set (tp_link_map ?T). entry_ok M exts ints x" using T by simp
    from e [OF this] show "?ok T'" using T by simp
  qed
  then show "tp_nodes T = length exts" "\<forall>x \<in> set (tp_link_map T). entry_ok M exts ints x" by simp_all
qed

section \<open>A fresh network\<close>

definition router_fresh :: "router \<Rightarrow> bool" where
  "router_fresh r \<longleftrightarrow> \<not> r_halt r \<and> router_tags r = {#} \<and> (\<forall>u \<in> set (r_output_unit r). ou_inv u) \<and> router_channels outport_unset r"

definition net_fresh :: "garnet_network \<Rightarrow> bool" where
  "net_fresh net \<longleftrightarrow> gn_lock net = -1 \<and> (\<forall>r \<in> set (gn_routers net). router_fresh r) \<and>
     (\<forall>n \<in> set (gn_nis net). ni_tags n = {#}) \<and> (\<forall>l \<in> set (gn_networklinks net). buffer_tags (nl_linkBuffer l) = {#})"

lemma contents_empty: "contents f cs = {#} \<longleftrightarrow> (\<forall>c \<in> set cs. f c = {#})"
  by (induction cs) auto

lemma net_fresh_holds:
  assumes "net_fresh net"
  shows "network_tags net = {#}" and "halt_inv net" and "net_credit_inv net" and "net_channels outport_unset net"
  using assms by (auto simp: net_channels_routers net_fresh_def network_tags_def contents_empty halt_inv_def router_fresh_def net_credit_inv_alt)

lemma new_buffer_tags [simp]: "buffer_tags flitBuffer_new = {#}"
  by (simp add: buffer_tags_def flitBuffer_new_def flits_of_def)

lemma InputUnit_new_tags: "InputUnit_new raw i d n v = Inr u \<Longrightarrow> input_tags u = {#} \<and> unit_channels outport_unset u"
  by (auto simp: unit_channels_def InputUnit_new_def input_tags_def contents_empty vc_tags_def VirtualChannel_new_def split: if_splits)

lemma OutputUnit_new_fresh: "OutputUnit_new raw C i d n v = Inr u \<Longrightarrow> ou_inv u \<and> buffer_tags (ou_out_buffer u) = {#}"
  using OutVcState_new_inv
  by (fastforce simp: OutputUnit_new_def ou_inv_def list_all_iff in_set_conv_nth dest!: traverse_Inr)

lemma in_count_upE: "x \<in> set (count_up xs i f) \<Longrightarrow> x \<in> set xs \<or> (\<exists>y \<in> set xs. x = f y)"
  by (auto simp: count_up_def split: if_splits dest!: in_update)

lemma fresh_map_links:
  "net_fresh net \<Longrightarrow> net_fresh (map_flit_link k (setLinkConsumer c) net)"
  "net_fresh net \<Longrightarrow> net_fresh (map_flit_link k (setSourceQueue q) net)"
  "net_fresh net \<Longrightarrow> net_fresh (map_credit_link k g net)"
  by (auto simp: net_fresh_def map_flit_link_def map_credit_link_def setLinkConsumer_def setSourceQueue_def dest!: in_count_upE)

lemma fresh_push_links:
  "push_links ty nl cl net = (k, c, net') \<Longrightarrow> net_fresh net \<Longrightarrow> buffer_tags (nl_linkBuffer nl) = {#} \<Longrightarrow> net_fresh net'"
  by (auto simp: push_links_def net_fresh_def)

lemma fresh_put_router: "net_fresh net \<Longrightarrow> router_fresh r \<Longrightarrow> net_fresh (put_router net i r)"
  by (auto simp: net_fresh_def put_router_def dest!: in_update)

lemma Router_addInPort_fresh:
  assumes "Router_addInPort raw rid d l c net = Inr net'" and "net_fresh net"
  shows "net_fresh net'"
proof -
  from assms(1) obtain r u where r: "get_router net (int rid) = Inr r" and u: "InputUnit_new raw (length (r_input_unit r)) d (r_num_vcs r) (r_vc_per_vnet r) = Inr u"
    and net': "net' = put_router (map_credit_link c (setSourceQueue (RouterCredit rid (length (r_input_unit r))))
        (map_flit_link l (setLinkConsumer (RouterConsumer rid)) net)) rid
      (r\<lparr>r_input_unit := r_input_unit r @ [u\<lparr>iu_in_link := l, iu_credit_link := c\<rparr>],
         r_routing_unit := addInDirection d (int (length (r_input_unit r))) (r_routing_unit r)\<rparr>)"
    by (auto simp: Router_addInPort_def Let_def)
  have "router_fresh r" using r assms(2) by (auto simp: get_router_def at_eq_Inr net_fresh_def)
  then show ?thesis using InputUnit_new_tags [OF u] fresh_map_links assms(2) unfolding net'
    by (intro fresh_put_router) (auto simp: router_fresh_def router_tags_def input_tags_def router_channels_def unit_channels_def)
qed

lemma Router_addOutPort_fresh:
  assumes "Router_addOutPort raw rid d l nd w c net = Inr net'" and "net_fresh net"
  shows "net_fresh net'"
proof -
  from assms(1) obtain r u where r: "get_router net (int rid) = Inr r"
    and u: "OutputUnit_new raw (gn_config net) (length (r_output_unit r)) d (r_num_vcs r) (r_vc_per_vnet r) = Inr u"
    and net': "net' = put_router (map_flit_link l (setSourceQueue (RouterOut rid (length (r_output_unit r))))
        (map_credit_link c (setLinkConsumer (RouterConsumer rid)) net)) rid
      (r\<lparr>r_output_unit := r_output_unit r @ [u\<lparr>ou_out_link := l, ou_credit_link := c\<rparr>],
         r_routing_unit := addOutDirection d (int (length (r_output_unit r))) (addWeight w (addRoute nd (r_routing_unit r)))\<rparr>)"
    by (auto simp: Router_addOutPort_def Let_def)
  have "router_fresh r" using r assms(2) by (auto simp: get_router_def at_eq_Inr net_fresh_def)
  then show ?thesis using OutputUnit_new_fresh [OF u] fresh_map_links assms(2) unfolding net'
    by (intro fresh_put_router) (auto simp: router_fresh_def router_tags_def ou_inv_def router_channels_def)
qed

lemma NI_addPort_fresh:
  "NI_addInPort i l c net = Inr net' \<Longrightarrow> net_fresh net \<Longrightarrow> net_fresh net'"
  "NI_addOutPort i l c rid net = Inr net' \<Longrightarrow> net_fresh net \<Longrightarrow> net_fresh net'"
proof -
  have upd: "net_fresh (net\<lparr>gn_nis := ns\<rparr>)" if "net_fresh net" "\<forall>n \<in> set ns. ni_tags n = {#}" for net ns
    using that by (simp add: net_fresh_def)
  have tags: "\<forall>n \<in> set ((gn_nis net)[i := n']). ni_tags n = {#}" if "net_fresh net" "ni_tags n' = {#}" for n'
    using that by (auto simp: net_fresh_def dest!: in_update)
  show "net_fresh net'" if "NI_addInPort i l c net = Inr net'" and f: "net_fresh net"
  proof -
    from that(1) obtain n where n: "i < length (gn_nis net)" "n = gn_nis net ! i" and net': "net' = (map_credit_link c (setSourceQueue (NICredit i))
        (map_flit_link l (setLinkConsumer (NIConsumer i)) net))\<lparr>gn_nis := (gn_nis net)[i := n\<lparr>ni_inNetLink := l, ni_outCreditLink := c\<rparr>]\<rparr>"
      by (auto simp: NI_addInPort_def Let_def at_eq_Inr)
    have "ni_tags n = {#}" using n f by (simp add: net_fresh_def)
    then show ?thesis unfolding net' using f by (intro upd fresh_map_links tags) (simp_all add: ni_tags_def)
  qed
  show "net_fresh net'" if "NI_addOutPort i l c rid net = Inr net'" and f: "net_fresh net"
  proof -
    from that(1) obtain n where n: "i < length (gn_nis net)" "n = gn_nis net ! i" and net': "net' = (map_flit_link l (setSourceQueue (NIOut i))
        (map_credit_link c (setLinkConsumer (NIConsumer i)) net))\<lparr>gn_nis := (gn_nis net)[i := n\<lparr>ni_inCreditLink := c, ni_outNetLink := l,
            ni_outFlitQueue := flitBuffer_new, ni_router_id := int rid\<rparr>]\<rparr>"
      by (auto simp: NI_addOutPort_def Let_def at_eq_Inr)
    have "ni_tags n = {#}" using n f by (simp add: net_fresh_def)
    then show ?thesis unfolding net' using f by (intro upd fresh_map_links tags) (simp_all add: ni_tags_def)
  qed
qed


text \<open>The functions that connect the network, on links that hold no flits.\<close>

definition link_fresh :: "link \<Rightarrow> bool" where
  "link_fresh l \<longleftrightarrow>
     (case l of ExtLink e \<Rightarrow> (\<forall>nl \<in> set (el_network_links e). nl_srcQueue nl = None \<and> buffer_tags (nl_linkBuffer nl) = {#})
      | IntLink i \<Rightarrow> nl_srcQueue (il_network_link i) = None \<and> buffer_tags (nl_linkBuffer (il_network_link i)) = {#})"

lemma make_links_fresh:
  "makeExtInLink raw src dest nl cl net = Inr net' \<Longrightarrow> net_fresh net \<Longrightarrow> buffer_tags (nl_linkBuffer nl) = {#} \<Longrightarrow> net_fresh net'"
  "makeExtOutLink rawo src dest nl cl nd w net = Inr net' \<Longrightarrow> net_fresh net \<Longrightarrow> buffer_tags (nl_linkBuffer nl) = {#} \<Longrightarrow> net_fresh net'"
  "makeInternalLink raw rawo src dest nl cl nd w x y net = Inr net' \<Longrightarrow> net_fresh net \<Longrightarrow> buffer_tags (nl_linkBuffer nl) = {#} \<Longrightarrow> net_fresh net'"
  by (auto simp: makeExtInLink_def makeExtOutLink_def makeInternalLink_def split: prod.splits
      dest!: fresh_push_links NI_addPort_fresh Router_addInPort_fresh Router_addOutPort_fresh)

interpretation fresh_links: link_maker "garnet_class raw" link_fresh net_fresh for raw
  by unfold_locales (auto simp: garnet_class_def link_fresh_def at_eq_Inr split: link.splits intro: make_links_fresh)

section \<open>The wiring\<close>

text \<open>
  Port \<open>p\<close> of router \<open>i\<close> has link \<open>k\<close> and credit link \<open>k\<close>; the input port reads the one and writes to the other,
  the output port the other way round.
\<close>

definition input_wired :: "garnet_network \<Rightarrow> nat \<Rightarrow> nat \<Rightarrow> input_unit \<Rightarrow> bool" where
  "input_wired net i p u \<longleftrightarrow> iu_in_link u < length (gn_networklinks net) \<and> iu_credit_link u = iu_in_link u \<and>
     nl_consumer (gn_networklinks net ! iu_in_link u) = Some (RouterConsumer i) \<and>
     nl_srcQueue (gn_creditlinks net ! iu_in_link u) = Some (RouterCredit i p)"

definition output_wired :: "garnet_network \<Rightarrow> nat \<Rightarrow> nat \<Rightarrow> output_unit \<Rightarrow> bool" where
  "output_wired net i p u \<longleftrightarrow> ou_out_link u < length (gn_networklinks net) \<and> ou_credit_link u = ou_out_link u \<and>
     nl_srcQueue (gn_networklinks net ! ou_out_link u) = Some (RouterOut i p) \<and>
     nl_consumer (gn_creditlinks net ! ou_out_link u) = Some (RouterConsumer i)"

definition all_ports :: "(router \<Rightarrow> 'u list) \<Rightarrow> (nat \<Rightarrow> nat \<Rightarrow> 'u \<Rightarrow> bool) \<Rightarrow> garnet_network \<Rightarrow> bool" where
  "all_ports f q net \<longleftrightarrow> (\<forall>i < length (gn_routers net). \<forall>p < length (f (gn_routers net ! i)). q i p (f (gn_routers net ! i) ! p))"

definition source_wired :: "garnet_network \<Rightarrow> nat \<Rightarrow> flit_link \<Rightarrow> bool" where
  "source_wired net k l \<longleftrightarrow> (\<forall>i p. nl_srcQueue l = Some (RouterOut i p) \<longrightarrow>
     i < length (gn_routers net) \<and> p < length (r_output_unit (gn_routers net ! i)) \<and>
     ou_out_link (r_output_unit (gn_routers net ! i) ! p) = k)"

definition net_wired :: "garnet_network \<Rightarrow> bool" where
  "net_wired net \<longleftrightarrow> length (gn_creditlinks net) = length (gn_networklinks net) \<and>
     all_ports r_input_unit (input_wired net) net \<and> all_ports r_output_unit (output_wired net) net \<and>
     (\<forall>k < length (gn_networklinks net). source_wired net k (gn_networklinks net ! k))"

text \<open>Seen from an input port, with the other end of its links.\<close>

lemma wired_input_port:
  assumes W: "net_wired net" and i: "i < length (gn_routers net)" "p < length (r_input_unit (gn_routers net ! i))"
  defines "u \<equiv> r_input_unit (gn_routers net ! i) ! p"
  shows "iu_in_link u < length (gn_networklinks net)" and "iu_credit_link u = iu_in_link u"
    and "nl_consumer (gn_networklinks net ! iu_in_link u) = Some (RouterConsumer i)"
    and "nl_srcQueue (gn_creditlinks net ! iu_in_link u) = Some (RouterCredit i p)"
    and "nl_srcQueue (gn_networklinks net ! iu_in_link u) = Some (RouterOut j q) \<Longrightarrow>
      ou_out_link (r_output_unit (gn_routers net ! j) ! q) = iu_in_link u \<and>
      ou_credit_link (r_output_unit (gn_routers net ! j) ! q) = iu_in_link u \<and>
      nl_consumer (gn_creditlinks net ! iu_in_link u) = Some (RouterConsumer j)"
proof -
  have u: "input_wired net i p u" using W i by (simp add: net_wired_def all_ports_def u_def)
  then show k: "iu_in_link u < length (gn_networklinks net)" and "iu_credit_link u = iu_in_link u"
    "nl_consumer (gn_networklinks net ! iu_in_link u) = Some (RouterConsumer i)"
    "nl_srcQueue (gn_creditlinks net ! iu_in_link u) = Some (RouterCredit i p)" by (simp_all add: input_wired_def)
  assume s: "nl_srcQueue (gn_networklinks net ! iu_in_link u) = Some (RouterOut j q)"
  let ?o = "r_output_unit (gn_routers net ! j) ! q"
  have "source_wired net (iu_in_link u) (gn_networklinks net ! iu_in_link u)" using W k by (simp add: net_wired_def)
  with s have o: "j < length (gn_routers net)" "q < length (r_output_unit (gn_routers net ! j))" "ou_out_link ?o = iu_in_link u"
    by (simp_all add: source_wired_def)
  then have "output_wired net j q ?o" using W by (simp add: net_wired_def all_ports_def)
  with o(3) show "ou_out_link ?o = iu_in_link u \<and> ou_credit_link ?o = iu_in_link u \<and> nl_consumer (gn_creditlinks net ! iu_in_link u) = Some (RouterConsumer j)"
    by (simp add: output_wired_def)
qed

lemma all_ports_append:
  assumes "all_ports f q net" and "i < length (gn_routers net)" and "f r = f (gn_routers net ! i) @ [u]"
    and "q i (length (f (gn_routers net ! i))) u"
  shows "all_ports f q (put_router net i r)"
  using assms by (auto simp: all_ports_def put_router_def nth_list_update nth_append less_Suc_eq)

lemma all_ports_same:
  assumes "all_ports f q net" and "i < length (gn_routers net)" and "f r = f (gn_routers net ! i)"
  shows "all_ports f q (put_router net i r)"
  using assms by (auto simp: all_ports_def put_router_def nth_list_update)

lemma all_ports_mono: "all_ports f q net \<Longrightarrow> (\<And>i p u. q i p u \<Longrightarrow> q' i p u) \<Longrightarrow> all_ports f q' net"
  by (simp add: all_ports_def)

text \<open>Ports that do not use link \<open>k\<close>.\<close>

definition unused_in :: "nat \<Rightarrow> garnet_network \<Rightarrow> bool" where
  "unused_in k net \<longleftrightarrow> all_ports r_input_unit (\<lambda>i p u. iu_in_link u \<noteq> k) net"

definition unused_out :: "nat \<Rightarrow> garnet_network \<Rightarrow> bool" where
  "unused_out k net \<longleftrightarrow> all_ports r_output_unit (\<lambda>i p u. ou_out_link u \<noteq> k) net"

lemma all_ports_routers: "gn_routers net' = gn_routers net \<Longrightarrow> all_ports f q net' = all_ports f q net"
  by (simp add: all_ports_def)

lemma push_links_wired:
  assumes "push_links ty nl cl net = (k, c, net')" and "net_wired net" and "nl_srcQueue nl = None"
  shows "net_wired net'" and "c = k" and "k < length (gn_networklinks net')" and "unused_in k net'" and "unused_out k net'"
proof -
  have k: "k = length (gn_networklinks net)" "c = k"
    and net': "net' = net\<lparr>gn_networklinks := gn_networklinks net @ [nl\<lparr>nl_type := ty\<rparr>], gn_creditlinks := gn_creditlinks net @ [cl]\<rparr>"
    using assms(1,2) by (auto simp: push_links_def net_wired_def)
  have r: "gn_routers net' = gn_routers net" by (simp add: net')
  have w: "input_wired net i p u \<Longrightarrow> input_wired net' i p u" "output_wired net i p v \<Longrightarrow> output_wired net' i p v" for i p u v
    using assms(2) by (auto simp: input_wired_def output_wired_def net' nth_append net_wired_def)
  note W = assms(2) [unfolded net_wired_def]
  show "unused_in k net'" "unused_out k net'" unfolding unused_in_def unused_out_def all_ports_routers [OF r]
    by (rule all_ports_mono [of _ "input_wired net"] all_ports_mono [of _ "output_wired net"],
        use W k(1) in \<open>auto simp: input_wired_def output_wired_def\<close>)+
  show "c = k" "k < length (gn_networklinks net')" using k by (simp_all add: net')
  have "all_ports r_input_unit (input_wired net') net'" "all_ports r_output_unit (output_wired net') net'"
    unfolding all_ports_routers [OF r] using W w by (blast intro: all_ports_mono)+
  moreover have "\<forall>k < length (gn_networklinks net'). source_wired net' k (gn_networklinks net' ! k)"
    using W assms(3) by (auto simp: net' source_wired_def nth_append less_Suc_eq)
  ultimately show "net_wired net'" using W by (simp add: net_wired_def net')
qed

text \<open>Setting one end of a link that no port uses at that end.\<close>

lemma set_link_in_wired:
  assumes W: "net_wired net" and u: "unused_in k net"
  shows "net_wired (map_credit_link k (setSourceQueue q) (map_flit_link k (setLinkConsumer c) net))" (is "net_wired ?net")
proof -
  have r: "gn_routers ?net = gn_routers net" by (simp add: map_flit_link_def map_credit_link_def)
  have i: "iu_in_link x \<noteq> k \<and> input_wired net i p x \<Longrightarrow> input_wired ?net i p x" for i p x
    by (auto simp: input_wired_def map_flit_link_def map_credit_link_def count_up_def)
  have o: "output_wired net i p x \<Longrightarrow> output_wired ?net i p x" for i p x
    using W by (auto simp: output_wired_def map_flit_link_def map_credit_link_def count_up_def setLinkConsumer_def setSourceQueue_def
        net_wired_def nth_list_update)
  have s: "source_wired ?net j l = source_wired net j l" for j l by (simp add: source_wired_def r)
  have "all_ports r_input_unit (\<lambda>i p x. iu_in_link x \<noteq> k \<and> input_wired net i p x) net"
    using W u by (auto simp: net_wired_def unused_in_def all_ports_def)
  then have "all_ports r_input_unit (input_wired ?net) ?net" unfolding all_ports_routers [OF r] by (rule all_ports_mono) (rule i)
  moreover have "all_ports r_output_unit (output_wired ?net) ?net" unfolding all_ports_routers [OF r]
    using W by (intro all_ports_mono [where q = "output_wired net", OF _ o]) (simp_all add: net_wired_def)
  moreover have "\<forall>j < length (gn_networklinks ?net). source_wired ?net j (gn_networklinks ?net ! j)" unfolding s
    using W by (auto simp: net_wired_def source_wired_def map_flit_link_def map_credit_link_def count_up_def nth_list_update setLinkConsumer_def)
  ultimately show ?thesis using W by (simp add: net_wired_def map_flit_link_def map_credit_link_def)
qed


lemma set_link_out_ports:
  assumes W: "net_wired net" and u: "unused_out k net"
    and n: "net' = map_flit_link k (setSourceQueue q) (map_credit_link k (setLinkConsumer c) net)"
  shows "all_ports r_input_unit (input_wired net') net'" and "all_ports r_output_unit (output_wired net') net'"
    and "gn_routers net' = gn_routers net" and "length (gn_creditlinks net') = length (gn_networklinks net')"
    and "length (gn_networklinks net') = length (gn_networklinks net)"
proof -
  show r: "gn_routers net' = gn_routers net" and "length (gn_creditlinks net') = length (gn_networklinks net')"
    and "length (gn_networklinks net') = length (gn_networklinks net)"
    using W by (simp_all add: n map_flit_link_def map_credit_link_def net_wired_def)
  have o: "ou_out_link x \<noteq> k \<and> output_wired net i p x \<Longrightarrow> output_wired net' i p x" for i p x
    by (auto simp: n output_wired_def map_flit_link_def map_credit_link_def count_up_def)
  have i: "input_wired net i p x \<Longrightarrow> input_wired net' i p x" for i p x
    using W by (auto simp: n input_wired_def map_flit_link_def map_credit_link_def count_up_def setLinkConsumer_def setSourceQueue_def
        net_wired_def nth_list_update)
  have "all_ports r_output_unit (\<lambda>i p x. ou_out_link x \<noteq> k \<and> output_wired net i p x) net"
    using W u by (auto simp: net_wired_def unused_out_def all_ports_def)
  then show "all_ports r_output_unit (output_wired net') net'" unfolding all_ports_routers [OF r] by (rule all_ports_mono) (rule o)
  show "all_ports r_input_unit (input_wired net') net'" unfolding all_ports_routers [OF r]
    using W by (intro all_ports_mono [where q = "input_wired net", OF _ i]) (simp_all add: net_wired_def)
qed

lemma set_link_out_wired:
  assumes W: "net_wired net" and u: "unused_out k net" and c: "\<And>i p. q \<noteq> RouterOut i p"
  shows "net_wired (map_flit_link k (setSourceQueue q) (map_credit_link k (setLinkConsumer c) net))" (is "net_wired ?net")
proof -
  note f = set_link_out_ports [OF W u refl, of q c]
  have "source_wired ?net j l = source_wired net j l" for j l using f(3) by (simp add: source_wired_def)
  then have "\<forall>j < length (gn_networklinks ?net). source_wired ?net j (gn_networklinks ?net ! j)"
    using W c by (auto simp: net_wired_def source_wired_def map_flit_link_def map_credit_link_def count_up_def nth_list_update setSourceQueue_def)
  with f show ?thesis by (simp add: net_wired_def)
qed

lemma port_wired_put_router [simp]:
  "input_wired (put_router net rid r) = input_wired net" "output_wired (put_router net rid r) = output_wired net"
  by (simp_all add: fun_eq_iff input_wired_def output_wired_def put_router_def)

lemma source_wired_put_router:
  assumes "source_wired net k l" and "rid < length (gn_routers net)" and "\<exists>us. r_output_unit r = r_output_unit (gn_routers net ! rid) @ us"
  shows "source_wired (put_router net rid r) k l"
  using assms by (auto simp: source_wired_def put_router_def nth_list_update nth_append)

lemma put_router_fields [simp]:
  "gn_networklinks (put_router net rid r) = gn_networklinks net" "gn_creditlinks (put_router net rid r) = gn_creditlinks net"
  by (simp_all add: put_router_def)

lemma Router_addInPort_wired:
  assumes op: "Router_addInPort raw rid d k k net = Inr net'" and W: "net_wired net" and u: "unused_in k net" and k: "k < length (gn_networklinks net)"
  shows "net_wired net'" and "unused_out k net \<Longrightarrow> unused_out k net'" and "length (gn_networklinks net') = length (gn_networklinks net)"
proof -
  let ?net = "\<lambda>p. map_credit_link k (setSourceQueue (RouterCredit rid p)) (map_flit_link k (setLinkConsumer (RouterConsumer rid)) net)"
  from op obtain r u' where r: "rid < length (gn_routers net)" "r = gn_routers net ! rid" and n: "net' = put_router (?net (length (r_input_unit r))) rid
      (r\<lparr>r_input_unit := r_input_unit r @ [u'\<lparr>iu_in_link := k, iu_credit_link := k\<rparr>],
         r_routing_unit := addInDirection d (int (length (r_input_unit r))) (r_routing_unit r)\<rparr>)"
    by (auto simp: Router_addInPort_def Let_def get_router_def at_eq_Inr)
  define net1 where "net1 = ?net (length (r_input_unit r))"
  have W1: "net_wired net1" unfolding net1_def by (rule set_link_in_wired [OF W u])
  have r1: "rid < length (gn_routers net1)" "gn_routers net1 ! rid = r" "gn_routers net1 = gn_routers net"
    "length (gn_networklinks net1) = length (gn_networklinks net)"
    using r by (simp_all add: net1_def map_flit_link_def map_credit_link_def)
  have "input_wired net1 rid (length (r_input_unit r)) (u'\<lparr>iu_in_link := k, iu_credit_link := k\<rparr>)"
    using k W by (simp add: input_wired_def net1_def map_flit_link_def map_credit_link_def count_up_def setLinkConsumer_def setSourceQueue_def net_wired_def)
  then have "all_ports r_input_unit (input_wired net') net'" unfolding n net1_def [symmetric] port_wired_put_router
    using W1 r1 by (intro all_ports_append) (simp_all add: net_wired_def)
  moreover have "all_ports r_output_unit (output_wired net') net'" unfolding n net1_def [symmetric] port_wired_put_router
    using W1 r1 by (intro all_ports_same) (simp_all add: net_wired_def)
  moreover have "\<forall>j < length (gn_networklinks net'). source_wired net' j (gn_networklinks net' ! j)"
    using W1 r1 unfolding n net1_def [symmetric] put_router_fields by (auto simp: net_wired_def intro!: source_wired_put_router)
  ultimately show "net_wired net'" using W1 by (simp add: net_wired_def n net1_def)
  show "unused_out k net'" if "unused_out k net" unfolding n net1_def [symmetric] unused_out_def
    using that r1 by (intro all_ports_same) (simp_all add: unused_out_def all_ports_def)
  show "length (gn_networklinks net') = length (gn_networklinks net)" using r1 by (simp add: n net1_def)
qed

lemma Router_addOutPort_wired:
  assumes op: "Router_addOutPort raw rid d k nd w k net = Inr net'" and W: "net_wired net" and u: "unused_out k net" and k: "k < length (gn_networklinks net)"
  shows "net_wired net'" and "unused_in k net \<Longrightarrow> unused_in k net'"
proof -
  let ?net = "\<lambda>p. map_flit_link k (setSourceQueue (RouterOut rid p)) (map_credit_link k (setLinkConsumer (RouterConsumer rid)) net)"
  from op obtain r u' where r: "rid < length (gn_routers net)" "r = gn_routers net ! rid" and n: "net' = put_router (?net (length (r_output_unit r))) rid
      (r\<lparr>r_output_unit := r_output_unit r @ [u'\<lparr>ou_out_link := k, ou_credit_link := k\<rparr>],
         r_routing_unit := addOutDirection d (int (length (r_output_unit r))) (addWeight w (addRoute nd (r_routing_unit r)))\<rparr>)"
    by (auto simp: Router_addOutPort_def Let_def get_router_def at_eq_Inr)
  define net1 where "net1 = ?net (length (r_output_unit r))"
  note f = set_link_out_ports [OF W u net1_def]
  have "output_wired net1 rid (length (r_output_unit r)) (u'\<lparr>ou_out_link := k, ou_credit_link := k\<rparr>)"
    using k W by (simp add: output_wired_def net1_def map_flit_link_def map_credit_link_def count_up_def setLinkConsumer_def setSourceQueue_def net_wired_def)
  then have "all_ports r_output_unit (output_wired net') net'" unfolding n net1_def [symmetric] port_wired_put_router
    using f r by (intro all_ports_append) simp_all
  moreover have "all_ports r_input_unit (input_wired net') net'" unfolding n net1_def [symmetric] port_wired_put_router
    using f r by (intro all_ports_same) simp_all
  moreover have "source_wired net' j (gn_networklinks net' ! j)" if "j < length (gn_networklinks net')" for j
  proof (cases "j = k")
    case True
    then show ?thesis using r k unfolding n
      by (auto simp: source_wired_def put_router_def map_flit_link_def map_credit_link_def count_up_def setSourceQueue_def)
  next
    case False
    then have l: "gn_networklinks net' ! j = gn_networklinks net ! j"
      by (simp add: n map_flit_link_def map_credit_link_def count_up_def)
    have "source_wired net j (gn_networklinks net ! j)" using W that f(5) by (simp add: net_wired_def n net1_def)
    then have "source_wired net1 j (gn_networklinks net ! j)" using f(3) by (simp add: source_wired_def)
    then show ?thesis unfolding l unfolding n net1_def [symmetric] using r f(3) by (intro source_wired_put_router) simp_all
  qed
  ultimately show "net_wired net'" using f(4) by (simp add: net_wired_def n net1_def)
  show "unused_in k net'" if "unused_in k net" unfolding n net1_def [symmetric] unused_in_def
    using that r f(3) by (intro all_ports_same) (simp_all add: unused_in_def all_ports_def)
qed

lemma NI_addPort_wired:
  "NI_addInPort i k k net = Inr net' \<Longrightarrow> net_wired net \<Longrightarrow> unused_in k net \<Longrightarrow> net_wired net'"
  "NI_addOutPort i k k rid net = Inr net' \<Longrightarrow> net_wired net \<Longrightarrow> unused_out k net \<Longrightarrow> net_wired net'"
proof -
  have nis: "net_wired (net\<lparr>gn_nis := ns\<rparr>) = net_wired net" for net ns
    by (simp add: net_wired_def all_ports_def input_wired_def output_wired_def source_wired_def)
  show "net_wired net'" if "NI_addInPort i k k net = Inr net'" "net_wired net" "unused_in k net"
    using that set_link_in_wired [OF that(2,3)] by (auto simp: NI_addInPort_def Let_def nis)
  show "net_wired net'" if "NI_addOutPort i k k rid net = Inr net'" "net_wired net" "unused_out k net"
    using that set_link_out_wired [OF that(2,3)] by (auto simp: NI_addOutPort_def Let_def nis)
qed


lemma make_links_wired:
  "makeExtInLink raw src dest nl cl net = Inr net' \<Longrightarrow> net_wired net \<Longrightarrow> nl_srcQueue nl = None \<Longrightarrow> net_wired net'"
  "makeExtOutLink rawo src dest nl cl nd w net = Inr net' \<Longrightarrow> net_wired net \<Longrightarrow> nl_srcQueue nl = None \<Longrightarrow> net_wired net'"
  "makeInternalLink raw rawo src dest nl cl nd w x y net = Inr net' \<Longrightarrow> net_wired net \<Longrightarrow> nl_srcQueue nl = None \<Longrightarrow> net_wired net'"
proof -
  assume W: "net_wired net" and q: "nl_srcQueue nl = None"
  note P = push_links_wired [OF _ W q]
  show "net_wired net'" if "makeExtInLink raw src dest nl cl net = Inr net'"
  proof -
    from that obtain k c net1 net2 where "push_links EXT_IN nl cl net = (k, c, net1)" "Router_addInPort raw dest ''Local'' k c net1 = Inr net2"
      "NI_addOutPort src k c dest net2 = Inr net'" by (auto simp: makeExtInLink_def split: prod.splits)
    then show ?thesis using P [of EXT_IN] Router_addInPort_wired(1,2) NI_addPort_wired(2) by metis
  qed
  show "net_wired net'" if "makeExtOutLink rawo src dest nl cl nd w net = Inr net'"
  proof -
    from that obtain k c net1 net2 where "push_links EXT_OUT nl cl net = (k, c, net1)" "Router_addOutPort rawo src ''Local'' k nd w c net1 = Inr net2"
      "NI_addInPort dest k c net2 = Inr net'" by (auto simp: makeExtOutLink_def split: prod.splits)
    then show ?thesis using P [of EXT_OUT] Router_addOutPort_wired NI_addPort_wired(1) by metis
  qed
  show "net_wired net'" if "makeInternalLink raw rawo src dest nl cl nd w x y net = Inr net'"
  proof -
    from that obtain k c net1 net2 where "push_links INT_link nl cl net = (k, c, net1)" "Router_addInPort raw dest y k c net1 = Inr net2"
      "Router_addOutPort rawo src x k nd w c net2 = Inr net'" by (auto simp: makeInternalLink_def split: prod.splits)
    then show ?thesis using P [of INT_link] Router_addInPort_wired Router_addOutPort_wired(1) by metis
  qed
qed


interpretation wired_links: link_maker "garnet_class raw" link_fresh net_wired for raw
  by unfold_locales (auto simp: garnet_class_def link_fresh_def at_eq_Inr split: link.splits intro: make_links_wired)

section \<open>A system that was built\<close>

definition params_fresh :: "garnet_params \<Rightarrow> bool" where
  "params_fresh p \<longleftrightarrow> (\<forall>l \<in> set (pr_ext_links (gp_network p)). link_fresh (ExtLink l)) \<and>
     (\<forall>l \<in> set (pr_int_links (gp_network p)). link_fresh (IntLink l)) \<and>
     (\<forall>(raw, q) \<in> set (gp_netifs p). buffer_tags (ni_outFlitQueue raw) = {#})"

lemma Network_new_topology:
  assumes "Network_new M p = Inr N"
  shows "Topology_new M (pr_num_routers p) (pr_ext_links p) (pr_int_links p) = Inr (nw_topology N)"
proof -
  have call: "nw_topology N' = nw_topology N" if "run_queue_call q N = Inr N'" for q and N N' :: network_base
    using that by (cases q) (auto simp: setToNetQueue_def setFromNetQueue_def checkNetworkAllocation_def split: if_splits)
  have inner: "nw_topology N' = nw_topology N" if "foldM run_queue_call qs N = Inr N'" for qs and N N' :: network_base
    using that by (rule foldM_invariant [where I = "\<lambda>x. nw_topology x = nw_topology N"]) (auto dest: call)
  have calls: "nw_topology N' = nw_topology N" if "foldM (\<lambda>c. foldM run_queue_call (ct_initNetQueues c)) cs N = Inr N'"
    for cs and N N' :: network_base
    using that by (rule foldM_invariant [where I = "\<lambda>x. nw_topology x = nw_topology N"]) (auto dest: inner)
  have add: "nw_topology (fold add_controller cs N) = nw_topology N" for cs and N :: network_base
    by (induction cs arbitrary: N) (auto simp: add_controller_def)
  show ?thesis using assms by (auto simp: Network_new_def Let_def add dest!: calls)
qed

lemma new_network_ok:
  assumes "GarnetNetwork_new p = Inr (N, net)" and "params_fresh p"
  shows "net_fresh net" and "net_wired net" and "\<forall>(k, e) \<in> set (tp_link_map (nw_topology N)). link_fresh (le_link e)"
proof -
  from assms(1) have N: "Network_new (gp_machines p) (gp_network p) = Inr N" and r: "gn_routers net = map new_router (gp_routers p)"
    "gn_nis net = map new_netif (gp_netifs p)" "gn_networklinks net = []" "gn_creditlinks net = []" "gn_lock net = -1"
    by (auto simp: GarnetNetwork_new_def)
  have "ni_tags (new_netif x) = {#}" if "x \<in> set (gp_netifs p)" for x
    using assms(2) that by (auto simp: params_fresh_def new_netif_def NetworkInterface_new_def ni_tags_def contents_empty)
  then show "net_fresh net"
    using r by (auto simp: net_fresh_def router_fresh_def new_router_def Router_new_def Let_def router_tags_def CrossbarSwitch_new_def router_channels_def)
  show "net_wired net" using r by (auto simp: net_wired_def all_ports_def new_router_def Router_new_def Let_def split: prod.splits)
  show "\<forall>(k, e) \<in> set (tp_link_map (nw_topology N)). link_fresh (le_link e)"
    using Topology_new_entries(2) [OF Network_new_topology [OF N]] assms(2) by (fastforce simp: params_fresh_def entry_ok_def)
qed

lemma attach_node_frame:
  assumes "foldM (attach_node bufs N) ns S = Inr S'"
  shows "\<exists>nodes. S' = S\<lparr>gs_nodes := nodes\<rparr>"
  using assms
proof (rule foldM_invariant)
  show "\<exists>nodes. S = S\<lparr>gs_nodes := nodes\<rparr>" by (rule exI [of _ "gs_nodes S"]) simp
  show "\<exists>nodes. S2 = S\<lparr>gs_nodes := nodes\<rparr>" if "\<exists>nodes. S1 = S\<lparr>gs_nodes := nodes\<rparr>" "attach_node bufs N i S1 = Inr S2" for i S1 S2
    using that by (auto simp: attach_node_def NI_addNode_def)
qed

lemma set_mesh_size_ok:
  assumes "set_mesh_size net = Inr net'"
  shows "net_fresh net' = net_fresh net" and "net_wired net' = net_wired net"
  using assms by (auto simp: set_mesh_size_def Let_def net_fresh_def net_wired_def all_ports_def input_wired_def
      output_wired_def source_wired_def split: if_splits)

lemma Router_init_fresh: "router_fresh r \<Longrightarrow> router_fresh (Router_init r)"
  by (auto simp: router_fresh_def Router_init_def router_tags_def CrossbarSwitch_init_def contents_empty router_channels_def)

lemma NetworkInterface_init_tags: "NetworkInterface_init C n = Inr n' \<Longrightarrow> ni_tags n' = ni_tags n"
  by (auto simp: NetworkInterface_init_def ni_tags_def)

lemma init_parts_ok:
  assumes "init_parts net = Inr net'"
  shows "net_fresh net \<Longrightarrow> net_fresh net'" and "net_wired net \<Longrightarrow> net_wired net'"
proof -
  from assms obtain nis where nis: "traverse (NetworkInterface_init (gn_config net)) (gn_nis net) = Inr nis"
    and net': "net' = net\<lparr>gn_routers := map Router_init (gn_routers net), gn_nis := nis\<rparr>" by (auto simp: init_parts_def)
  have n: "length nis = length (gn_nis net)" "\<And>i. i < length nis \<Longrightarrow> ni_tags (nis ! i) = ni_tags (gn_nis net ! i)"
    using traverse_Inr [OF nis] by (auto intro: NetworkInterface_init_tags)
  show "net_fresh net'" if "net_fresh net"
    using that n unfolding net' by (auto simp: net_fresh_def in_set_conv_nth [of _ nis] Router_init_fresh)
  show "net_wired net'" if "net_wired net"
    using that unfolding net' by (auto simp: net_wired_def all_ports_def input_wired_def output_wired_def source_wired_def Router_init_def)
qed

lemma build_system_ok:
  assumes b: "build_system p block_size bufs R = Some (Inr S)" and f: "params_fresh p"
  shows "net_fresh (gs_net S)" and "net_wired (gs_net S)" and "gs_msgs S = Map.empty" and "\<exists>vnets routers. gs_stats S = flow_stats_new vnets routers"
proof -
  from b obtain N net S1 net' where new: "GarnetNetwork_new p = Inr (N, net)"
    and init: "GarnetNetwork_init p block_size bufs N (new_system (nw_nodes N) R net) = Some (Inr S1)"
    and parts: "init_parts (gs_net S1) = Inr net'" and S: "S = S1\<lparr>gs_net := net'\<rparr>"
    by (auto simp: build_system_def split: sum.splits)
  from init obtain S2 net1 net2 where att: "foldM (attach_node bufs (Network_init block_size N)) [0..<nw_nodes (Network_init block_size N)]
        (new_system (nw_nodes N) R net) = Inr S2"
    and links: "createLinks (garnet_class (gp_raw_ports p)) (gp_machines p) (nw_topology (Network_init block_size N)) (gs_net S2) = Some (Inr net1)"
    and mesh: "set_mesh_size net1 = Inr net2" and S1: "S1 = S2\<lparr>gs_net := net2\<rparr>"
    by (auto simp: GarnetNetwork_init_def Let_def split: sum.splits)
  from attach_node_frame [OF att] obtain nodes where S2: "S2 = (new_system (nw_nodes N) R net)\<lparr>gs_nodes := nodes\<rparr>" by blast
  note ok = new_network_ok [OF new f]
  have l: "createLinks (garnet_class (gp_raw_ports p)) (gp_machines p) (nw_topology N) net = Some (Inr net1)"
    using links S2 by (simp add: Network_init_def new_system_def)
  from parts S1 have parts': "init_parts net2 = Inr net'" by simp
  show "net_fresh (gs_net S)" "net_wired (gs_net S)"
    using fresh_links.createLinks_keeps [OF l ok(1,3)] wired_links.createLinks_keeps [OF l ok(2,3)] set_mesh_size_ok [OF mesh] init_parts_ok [OF parts'] S
    by simp_all
  show "gs_msgs S = Map.empty" "\<exists>vnets routers. gs_stats S = flow_stats_new vnets routers"
    using S S1 S2 by (auto simp: new_system_def)
qed

section \<open>What the steps of the system keep\<close>

text \<open>The wiring of a network in terms of what no step changes.\<close>

lemma wires_same:
  assumes "gn_wires net' = gn_wires net"
  shows "length (gn_routers net') = length (gn_routers net)" and "length (gn_networklinks net') = length (gn_networklinks net)"
    and "length (gn_creditlinks net') = length (gn_creditlinks net)"
    and "i < length (gn_routers net) \<Longrightarrow> router_wires (gn_routers net' ! i) = router_wires (gn_routers net ! i)"
    and "k < length (gn_networklinks net) \<Longrightarrow> link_wires (gn_networklinks net' ! k) = link_wires (gn_networklinks net ! k)"
    and "k < length (gn_creditlinks net) \<Longrightarrow> link_wires (gn_creditlinks net' ! k) = link_wires (gn_creditlinks net ! k)"
proof -
  have m: "map router_wires (gn_routers net') = map router_wires (gn_routers net)"
    "map link_wires (gn_networklinks net') = map link_wires (gn_networklinks net)"
    "map link_wires (gn_creditlinks net') = map link_wires (gn_creditlinks net)" using assms by (simp_all add: gn_wires_def)
  show l: "length (gn_routers net') = length (gn_routers net)" "length (gn_networklinks net') = length (gn_networklinks net)"
    "length (gn_creditlinks net') = length (gn_creditlinks net)" using m [THEN map_eq_imp_length_eq] by simp_all
  show "router_wires (gn_routers net' ! i) = router_wires (gn_routers net ! i)" if "i < length (gn_routers net)"
    using m(1) that l by (metis nth_map)
  show "link_wires (gn_networklinks net' ! k) = link_wires (gn_networklinks net ! k)" if "k < length (gn_networklinks net)"
    using arg_cong [OF m(2), of "\<lambda>xs. xs ! k"] that l by simp
  show "link_wires (gn_creditlinks net' ! k) = link_wires (gn_creditlinks net ! k)" if "k < length (gn_creditlinks net)"
    using arg_cong [OF m(3), of "\<lambda>xs. xs ! k"] that l by simp
qed

lemma router_wires_same:
  assumes "router_wires r' = router_wires r"
  shows "length (r_input_unit r') = length (r_input_unit r)" and "length (r_output_unit r') = length (r_output_unit r)"
    and "p < length (r_input_unit r) \<Longrightarrow> iu_wires (r_input_unit r' ! p) = iu_wires (r_input_unit r ! p)"
    and "p < length (r_output_unit r) \<Longrightarrow> ou_wires (r_output_unit r' ! p) = ou_wires (r_output_unit r ! p)"
proof -
  have m: "map iu_wires (r_input_unit r') = map iu_wires (r_input_unit r)" "map ou_wires (r_output_unit r') = map ou_wires (r_output_unit r)"
    using assms by (simp_all add: router_wires_def)
  show l: "length (r_input_unit r') = length (r_input_unit r)" "length (r_output_unit r') = length (r_output_unit r)"
    using m [THEN map_eq_imp_length_eq] by simp_all
  show "iu_wires (r_input_unit r' ! p) = iu_wires (r_input_unit r ! p)" if "p < length (r_input_unit r)"
    using arg_cong [OF m(1), of "\<lambda>xs. xs ! p"] that l by simp
  show "ou_wires (r_output_unit r' ! p) = ou_wires (r_output_unit r ! p)" if "p < length (r_output_unit r)"
    using arg_cong [OF m(2), of "\<lambda>xs. xs ! p"] that l by simp
qed

lemma net_wired_wires:
  assumes "gn_wires net' = gn_wires net" and W: "net_wired net"
  shows "net_wired net'"
proof -
  note w = wires_same [OF assms(1)]
  have c: "length (gn_creditlinks net) = length (gn_networklinks net)" using W by (simp add: net_wired_def)
  have "input_wired net' i p (r_input_unit (gn_routers net' ! i) ! p)"
    if "i < length (gn_routers net')" "p < length (r_input_unit (gn_routers net' ! i))" for i p
  proof -
    have i: "i < length (gn_routers net)" "p < length (r_input_unit (gn_routers net ! i))"
      using that w(1,4) router_wires_same(1) [OF w(4)] by simp_all
    then have "input_wired net i p (r_input_unit (gn_routers net ! i) ! p)" using W by (simp add: net_wired_def all_ports_def)
    then show ?thesis using router_wires_same(3) [OF w(4) [OF i(1)] i(2)] w(2,5,6) c by (simp add: input_wired_def)
  qed
  moreover have "output_wired net' i p (r_output_unit (gn_routers net' ! i) ! p)"
    if "i < length (gn_routers net')" "p < length (r_output_unit (gn_routers net' ! i))" for i p
  proof -
    have i: "i < length (gn_routers net)" "p < length (r_output_unit (gn_routers net ! i))"
      using that w(1,4) router_wires_same(2) [OF w(4)] by simp_all
    then have "output_wired net i p (r_output_unit (gn_routers net ! i) ! p)" using W by (simp add: net_wired_def all_ports_def)
    then show ?thesis using router_wires_same(4) [OF w(4) [OF i(1)] i(2)] w(2,5,6) c by (simp add: output_wired_def)
  qed
  moreover have "source_wired net' k (gn_networklinks net' ! k)" if "k < length (gn_networklinks net')" for k
  proof -
    have k: "k < length (gn_networklinks net)" using that w(2) by simp
    then have s: "source_wired net k (gn_networklinks net ! k)" using W by (simp add: net_wired_def)
    show ?thesis unfolding source_wired_def
    proof (intro allI impI)
      fix i p assume "nl_srcQueue (gn_networklinks net' ! k) = Some (RouterOut i p)"
      then have "nl_srcQueue (gn_networklinks net ! k) = Some (RouterOut i p)" using w(5) [OF k] by simp
      with s have i: "i < length (gn_routers net)" "p < length (r_output_unit (gn_routers net ! i))"
        "ou_out_link (r_output_unit (gn_routers net ! i) ! p) = k"
        by (simp_all add: source_wired_def)
      then show "i < length (gn_routers net') \<and> p < length (r_output_unit (gn_routers net' ! i)) \<and> ou_out_link (r_output_unit (gn_routers net' ! i) ! p) = k"
        using w(1) router_wires_same(2,4) [OF w(4)] by simp
    qed
  qed
  ultimately show ?thesis using w(2,3) c by (simp add: net_wired_def all_ports_def)
qed

definition sys_inv :: "garnet_system \<Rightarrow> bool" where
  "sys_inv S \<longleftrightarrow> halt_inv (gs_net S) \<and> net_credit_inv (gs_net S) \<and> net_wired (gs_net S) \<and> net_channels outport_unset (gs_net S)"

lemma interface_step_inv:
  assumes "NetworkInterface_wakeup P i S = Inr S'"
  shows "halt_state (gs_net S') = halt_state (gs_net S) \<and> gn_outvcs (gs_net S') = gn_outvcs (gs_net S) \<and> gn_wires (gs_net S') = gn_wires (gs_net S) \<and>
    net_channels Q (gs_net S') = net_channels Q (gs_net S)"
  using assms
proof (cases rule: NetworkInterface_wakeup_cases)
  case (1 cx cx')
  have f: "gn_lock (nx_net cx') = gn_lock (gs_net S)" "map router_core (gn_routers (nx_net cx')) = map router_core (gn_routers (gs_net S))"
    "map link_wires (gn_networklinks (nx_net cx')) = map link_wires (gn_networklinks (gs_net S))"
    "map link_wires (gn_creditlinks (nx_net cx')) = map link_wires (gn_creditlinks (gs_net S))"
    using ni_wakeup_ctx_flows [OF 1(2), of "{#}"] by (simp_all add: flows_def ctx_frame_def 1(6))
  have r: "map g (gn_routers (nx_net cx')) = map g (gn_routers (gs_net S))" if "\<And>r. g (router_core r) = g r" for g :: "router \<Rightarrow> 'x"
    using arg_cong [OF f(2), of "map g"] that by (simp add: comp_def)
  let ?net = "(nx_net cx')\<lparr>gn_nis := (gn_nis (nx_net cx'))[i := nx_ni cx']\<rparr>"
  have "net_channels Q ?net = net_channels Q (gs_net S)" by (rule net_channels_vcs) (simp add: r router_core_def)
  moreover have "map r_halt (gn_routers ?net) = map r_halt (gn_routers (gs_net S))"
    "map (\<lambda>r. map ou_outvc_state (r_output_unit r)) (gn_routers ?net) = map (\<lambda>r. map ou_outvc_state (r_output_unit r)) (gn_routers (gs_net S))"
    "map router_wires (gn_routers ?net) = map router_wires (gn_routers (gs_net S))"
    by (simp_all add: r router_core_def router_wires_def)
  ultimately have "halt_state ?net = halt_state (gs_net S)" "net_channels Q ?net = net_channels Q (gs_net S)" "gn_outvcs ?net = gn_outvcs (gs_net S)" "gn_wires ?net = gn_wires (gs_net S)"
    using f by (simp_all add: halt_state_def gn_outvcs_def gn_wires_def)
  then show ?thesis by (simp add: 1(3) store_ni_def)
qed

lemma sys_step_inv:
  assumes "sys_step P S S'" and "sys_inv S"
  shows "sys_inv S'"
  using assms(1)
proof (cases rule: sys_step.cases)
  case (network_step net')
  then show ?thesis using assms(2) net_step_halt_inv net_step_credit_inv net_wired_wires [OF net_step_wires] unset.net_step_keeps by (simp add: sys_inv_def)
next
  case (interface_step i)
  then have "halt_state (gs_net S') = halt_state (gs_net S)" "gn_outvcs (gs_net S') = gn_outvcs (gs_net S)" "gn_wires (gs_net S') = gn_wires (gs_net S)"
    "net_channels outport_unset (gs_net S') = net_channels outport_unset (gs_net S)"
    by (simp_all add: interface_step_inv)
  then show ?thesis using assms(2) halt_inv_state [of "gs_net S'" "gs_net S"] net_wired_wires by (auto simp: sys_inv_def net_credit_inv_def)
next
  case (protocol_step nodes R reqs es)
  then show ?thesis using assms(2) halt_inv_state [OF schedule_events_halt] net_wired_wires [OF schedule_events_wires] by (simp add: sys_inv_def net_credit_inv_def)
qed

lemma sys_steps_inv: "(sys_step P)\<^sup>*\<^sup>* S S' \<Longrightarrow> sys_inv S \<Longrightarrow> sys_inv S'"
  by (induction rule: rtranclp_induct) (auto intro: sys_step_inv)

lemma build_system_inv:
  "build_system p block_size bufs R = Some (Inr S) \<Longrightarrow> params_fresh p \<Longrightarrow> sys_inv S"
  using build_system_ok net_fresh_holds by (simp add: sys_inv_def)

end
