(* ===== verification/Garnet_Total.thy ===== *)
theory Garnet_Total
  imports Garnet_Wiring
begin

text \<open>
  The construction of a network does not fail. \<open>createLinks_total\<close> is for any network model: the matrices, the
  distances and the routing table entries are always computed, so \<open>createLinks\<close> returns if every single link can be
  made. For \<open>GarnetNetwork\<close> (\<open>sized\<close>: routers and interfaces in the configured numbers, with channels that the
  configuration knows) this is so for every configuration in which \<open>params_ok\<close> holds; the other steps of the
  construction return as well.
\<close>

section \<open>createLinks, for any network\<close>

lemma createLinks_total:
  assumes M: "machines_ok M" and T: "links_ok T" and n: "2 * mt_base_number M (mt_num M) \<le> max_switch_id T + 1"
    and I: "I net" and step: "\<And>i j e nd net. map_of (tp_link_map T) (i, j) = Some e \<Longrightarrow> I net \<Longrightarrow>
      \<exists>net'. makeLink cls T i j nd net = Inr net' \<and> I net'"
  shows "\<exists>net'. createLinks cls M T net = Some (Inr net') \<and> I net'"
proof -
  from topology_matrices_returns [OF T] obtain W L where m: "topology_matrices T = Inr (W, L)" by blast
  note ok = topology_matrices_ok [OF T m]
  from shortest_path_returns [OF ok(1,2)] obtain s where
    s: "shortest_path W L (replicate (length W) (replicate (length W) 0)) = Some (Inr s)"
    and D: "is_distance (length W) W (ps_dist s)" by blast
  have sq: "square (length W) W" "square (length W) (ps_dist s)" using ok(1) D by (simp_all add: weights_ok_def is_distance_def)
  have pair: "\<exists>net'. connect_pair cls M T W (ps_dist s) (i, j) net = Inr net' \<and> I net'"
    if ij: "i < length W" "j < length W" and "I net" for i j net
  proof (cases "0 < W ! i ! j \<and> W ! i ! j \<noteq> INFINITE_LATENCY")
    case True
    then obtain e where e: "map_of (tp_link_map T) (i, j) = Some e" using ok(5) [OF ij] by blast
    from shortest_path_to_node_elems [OF M sq ij] n ok(3) obtain nd where "shortest_path_to_node M i j W (ps_dist s) = Inr nd" by auto
    with step [OF e \<open>I net\<close>, of nd] True ij sq show ?thesis by (auto simp: connect_pair_def at2_square)
  qed (use that sq in \<open>auto simp: connect_pair_def at2_square\<close>)
  have "\<exists>net'. foldM (connect_pair cls M T W (ps_dist s)) (List.product [0..<length W] [0..<length W]) net = Inr net' \<and> I net'"
    by (rule foldM_total) (use I pair in auto)
  then show ?thesis using m s by (auto simp: createLinks_def Let_def)
qed

section \<open>Making one link\<close>

definition vcs_known :: "garnet_config \<Rightarrow> nat \<Rightarrow> bool" where
  "vcs_known C n \<longleftrightarrow> (\<exists>states. traverse (OutVcState_new C) [0..<n] = Inr states)"

definition sized :: "nat \<Rightarrow> nat \<Rightarrow> garnet_config \<Rightarrow> garnet_network \<Rightarrow> bool" where
  "sized R N C net \<longleftrightarrow> length (gn_routers net) = R \<and> length (gn_nis net) = N \<and> gn_config net = C \<and>
     (\<forall>r \<in> set (gn_routers net). r_vc_per_vnet r \<noteq> 0 \<and> vcs_known C (r_num_vcs r)) \<and>
     (\<forall>n \<in> set (gn_nis net). vcs_known C (ni_num_vcs n))"

lemma vcs_known:
  assumes "nc_vcs_per_vnet C \<noteq> 0" and "n \<le> length (nc_vnet_type C) * nc_vcs_per_vnet C"
    and "0 < nc_buffers_per_data_vc C" and "0 < nc_buffers_per_ctrl_vc C"
  shows "vcs_known C n"
  unfolding vcs_known_def
proof (rule traverse_defined, rule ballI)
  fix i assume "i \<in> set [0..<n]"
  then have "i div nc_vcs_per_vnet C < length (nc_vnet_type C)" using assms(1,2) by (simp add: div_less_iff_less_mult)
  then show "\<exists>s. OutVcState_new C i = Inr s" using assms by (auto simp: OutVcState_new_def get_vnet_type_def Let_def assert_that_def)
qed

lemma sized_links [simp]:
  "sized R N C (net\<lparr>gn_networklinks := ls\<rparr>) = sized R N C net" "sized R N C (net\<lparr>gn_creditlinks := cs\<rparr>) = sized R N C net"
  "sized R N C (map_flit_link k f net) = sized R N C net" "sized R N C (map_credit_link k g net) = sized R N C net"
  by (simp_all add: sized_def map_flit_link_def map_credit_link_def)

lemma sized_put_router:
  assumes "sized R N C net" and "i < R" and "r_vc_per_vnet r = r_vc_per_vnet (gn_routers net ! i)" and "r_num_vcs r = r_num_vcs (gn_routers net ! i)"
  shows "sized R N C (put_router net i r)"
  using assms by (auto simp: sized_def put_router_def dest!: in_update)

lemma Router_addInPort_total:
  assumes "sized R N C net" and "i < R"
  shows "\<exists>net'. Router_addInPort raw i d k c net = Inr net' \<and> sized R N C net'"
proof -
  have "i < length (gn_routers net)" "r_vc_per_vnet (gn_routers net ! i) \<noteq> 0" using assms by (auto simp: sized_def)
  then show ?thesis using assms
    by (auto simp: Router_addInPort_def get_router_def InputUnit_new_def Let_def map_flit_link_def [of _ _ net] map_credit_link_def
        intro!: sized_put_router)
qed

lemma Router_addOutPort_total:
  assumes "sized R N C net" and "i < R"
  shows "\<exists>net'. Router_addOutPort raw i d k nd w c net = Inr net' \<and> sized R N C net'"
proof -
  have "vcs_known C (r_num_vcs (gn_routers net ! i))" "i < length (gn_routers net)" "gn_config net = C" using assms by (auto simp: sized_def)
  then show ?thesis using assms
    by (auto simp: Router_addOutPort_def get_router_def OutputUnit_new_def vcs_known_def Let_def map_flit_link_def map_credit_link_def [of _ _ net]
        intro!: sized_put_router)
qed

lemma NI_addPort_total:
  assumes "sized R N C net" and "i < N"
  shows "\<exists>net'. NI_addInPort i k c net = Inr net' \<and> sized R N C net'" and "\<exists>net'. NI_addOutPort i k c rid net = Inr net' \<and> sized R N C net'"
  using assms by (auto simp: NI_addInPort_def NI_addOutPort_def Let_def sized_def map_flit_link_def map_credit_link_def dest!: in_update)

lemma make_links_total:
  assumes "sized R N C net"
  shows "src < N \<Longrightarrow> dest < R \<Longrightarrow> \<exists>net'. makeExtInLink raw src dest nl cl net = Inr net' \<and> sized R N C net'"
    and "src < R \<Longrightarrow> dest < N \<Longrightarrow> \<exists>net'. makeExtOutLink rawo src dest nl cl nd w net = Inr net' \<and> sized R N C net'"
    and "src < R \<Longrightarrow> dest < R \<Longrightarrow> \<exists>net'. makeInternalLink raw rawo src dest nl cl nd w x y net = Inr net' \<and> sized R N C net'"
proof -
  define pushed where "pushed ty = net\<lparr>gn_networklinks := gn_networklinks net @ [nl\<lparr>nl_type := ty\<rparr>], gn_creditlinks := gn_creditlinks net @ [cl]\<rparr>" for ty
  have P: "push_links ty nl cl net = (length (gn_networklinks net), length (gn_creditlinks net), pushed ty)" "sized R N C (pushed ty)" for ty
    using assms by (simp_all add: push_links_def pushed_def)
  have len: "length (gn_nis net) = N" "length (gn_routers net) = R" using assms by (simp_all add: sized_def)
  let ?k = "length (gn_networklinks net)" and ?c = "length (gn_creditlinks net)"
  show "\<exists>net'. makeExtInLink raw src dest nl cl net = Inr net' \<and> sized R N C net'" if "src < N" "dest < R"
  proof -
    from Router_addInPort_total [OF P(2) that(2)] obtain net2 where
      2: "Router_addInPort raw dest ''Local'' ?k ?c (pushed EXT_IN) = Inr net2" "sized R N C net2" by blast
    from NI_addPort_total(2) [OF 2(2) that(1)] show ?thesis using 2(1) that len by (simp add: makeExtInLink_def P(1))
  qed
  show "\<exists>net'. makeExtOutLink rawo src dest nl cl nd w net = Inr net' \<and> sized R N C net'" if "src < R" "dest < N"
  proof -
    from Router_addOutPort_total [OF P(2) that(1)] obtain net2 where
      2: "Router_addOutPort rawo src ''Local'' ?k nd w ?c (pushed EXT_OUT) = Inr net2" "sized R N C net2" by blast
    from NI_addPort_total(1) [OF 2(2) that(2)] show ?thesis using 2(1) that len by (simp add: makeExtOutLink_def P(1))
  qed
  show "\<exists>net'. makeInternalLink raw rawo src dest nl cl nd w x y net = Inr net' \<and> sized R N C net'" if "src < R" "dest < R"
  proof -
    from Router_addInPort_total [OF P(2) that(2)] obtain net2 where
      2: "Router_addInPort raw dest y ?k ?c (pushed INT_link) = Inr net2" "sized R N C net2" by blast
    from Router_addOutPort_total [OF 2(2) that(1)] show ?thesis using 2(1) by (simp add: makeInternalLink_def P(1))
  qed
qed

section \<open>The parameters\<close>

definition queue_call_ok :: "nat \<Rightarrow> nat \<Rightarrow> nat \<Rightarrow> queue_call \<Rightarrow> bool" where
  "queue_call_ok nodes vnets buffers q =
     (case q of SetToNetQueue i _ n _ b \<Rightarrow> i < nodes \<and> n < vnets \<and> (case b of None \<Rightarrow> True | Some k \<Rightarrow> k < buffers)
      | SetFromNetQueue i _ n _ b \<Rightarrow> i < nodes \<and> n < vnets \<and> (case b of None \<Rightarrow> True | Some k \<Rightarrow> k < buffers))"

text \<open>
  A configuration that fits together: as many external links as machines, every number within its range, one
  set of virtual channels for the whole network, at least one buffer per channel, a number of rows that
  divides the number of routers, message buffers that nobody reads yet, and a ring file that can be read.
\<close>

definition params_ok :: "garnet_params \<Rightarrow> message_buffer list \<Rightarrow> bool" where
  "params_ok p bufs \<longleftrightarrow>
     (let q = gp_network p; M = gp_machines p; n = length (pr_ext_links q); vnets = pr_number_of_virtual_networks q in
      machines_ok M \<and> mt_base_number M (mt_num M) = n \<and> config_ok M (pr_num_routers q) (pr_ext_links q) (pr_int_links q) \<and>
      list_all (\<lambda>l. 2 \<le> length (el_network_links l) \<and> 2 \<le> length (el_credit_links l)) (pr_ext_links q) \<and>
      vnets \<noteq> 0 \<and> list_all (\<lambda>c. list_all (queue_call_ok n vnets (length bufs)) (ct_initNetQueues c)) (pr_controllers q) \<and>
      list_all (\<lambda>b. mb_consumer b = None) bufs \<and>
      length (gp_routers p) = pr_num_routers q \<and> length (gp_netifs p) = n \<and>
      list_all (\<lambda>(_, r). rp_virt_nets r = vnets \<and> rp_vcs_per_vnet r = gp_vcs_per_vnet p) (gp_routers p) \<and>
      list_all (\<lambda>(_, i). ip_virt_nets i = vnets \<and> ip_vcs_per_vnet i = gp_vcs_per_vnet p) (gp_netifs p) \<and>
      gp_vcs_per_vnet p \<noteq> 0 \<and> 0 < gp_buffers_per_data_vc p \<and> 0 < gp_buffers_per_ctrl_vc p \<and>
      (0 < gp_num_rows p \<longrightarrow> gp_num_rows p dvd int (pr_num_routers q)) \<and>
      (gp_spin p \<longrightarrow> gp_spin_freq p \<noteq> 0 \<and> init_spinRing (gp_num_rows p) (gp_spin_file p) \<in> range Inr))"

lemma makeLink_total:
  assumes c: "config_ok M R exts ints" and n: "tp_nodes T = length exts" and e: "map_of (tp_link_map T) (i, j) = Some e"
    and ok: "entry_ok M exts ints ((i, j), e)" and s: "sized R (length exts) C net"
    and l: "\<forall>l \<in> set exts. 2 \<le> length (el_network_links l) \<and> 2 \<le> length (el_credit_links l)"
  shows "\<exists>net'. makeLink (garnet_class raw) T i j nd net = Inr net' \<and> sized R (length exts) C net'"
  using ok unfolding entry_ok_def
proof (elim disjE bexE conjE)
  fix x assume x: "x \<in> set exts" and le: "le_link (snd ((i, j), e)) = ExtLink x" and k: "fst ((i, j), e) \<in> ext_keys M (length exts) x"
  let ?i = "mt_base_number M (el_ext_type x) + el_ext_version x"
  have b: "?i < length exts" "el_int_node x < R" using c x by (auto simp: config_ok_def list_all_iff)
  have a: "0 < length (el_network_links x)" "0 < length (el_credit_links x)" "1 < length (el_network_links x)" "1 < length (el_credit_links x)"
    using l x by fastforce+
  have at: "at (el_network_links x) 0 = Inr (el_network_links x ! 0)" "at (el_credit_links x) 0 = Inr (el_credit_links x ! 0)"
    "at (el_network_links x) 1 = Inr (el_network_links x ! 1)" "at (el_credit_links x) 1 = Inr (el_credit_links x ! 1)"
    using at_int [OF a(1)] at_int [OF a(2)] at_int [OF a(3)] at_int [OF a(4)] by simp_all
  from k consider "i = ?i" "j = el_int_node x + 2 * length exts" | "i = el_int_node x + 2 * length exts" "j = ?i + length exts"
    by (auto simp: ext_keys_def)
  then show ?thesis
  proof cases
    case 1
    then show ?thesis using make_links_total(1) [OF s b] e le b at n by (simp add: makeLink_def garnet_class_def Let_def assert_that_def)
  next
    case 2
    then show ?thesis using make_links_total(2) [OF s b(2,1)] e le b at n by (simp add: makeLink_def garnet_class_def Let_def assert_that_def)
  qed
next
  fix x assume x: "x \<in> set ints" and le: "le_link (snd ((i, j), e)) = IntLink x" and k: "fst ((i, j), e) \<in> int_keys (length exts) x"
  have "il_src_node x < R" "il_dst_node x < R" using c x by (auto simp: config_ok_def list_all_iff)
  from make_links_total(3) [OF s this] show ?thesis using k e le n
    by (simp add: makeLink_def garnet_class_def Let_def assert_that_def int_keys_def)
qed

section \<open>The queues\<close>

text \<open>What the calls that hand over the queues keep.\<close>

definition refs_below :: "nat \<Rightarrow> buffer_ref list \<Rightarrow> bool" where
  "refs_below buffers q \<longleftrightarrow> (\<forall>k. Some k \<in> set q \<longrightarrow> k < buffers)"

definition base_ok :: "nat \<Rightarrow> nat \<Rightarrow> nat \<Rightarrow> topology \<Rightarrow> network_base \<Rightarrow> bool" where
  "base_ok n vnets buffers T N \<longleftrightarrow> nw_nodes N = n \<and> nw_virtual_networks N = vnets \<and> nw_topology N = T \<and>
     length (nw_ordered N) = vnets \<and> length (nw_vnet_type_names N) = vnets \<and>
     length (nw_toNetQueues N) = n \<and> length (nw_fromNetQueues N) = n \<and>
     list_all (refs_below buffers) (nw_toNetQueues N) \<and> list_all (refs_below buffers) (nw_fromNetQueues N)"

lemma set_queue_refs:
  "refs_below buffers q \<Longrightarrow> (case b of None \<Rightarrow> True | Some k \<Rightarrow> k < buffers) \<Longrightarrow> refs_below buffers (set_queue n b q)"
  by (auto simp: refs_below_def set_queue_def dest!: in_update)

lemma run_queue_call_total:
  assumes N: "base_ok n vnets buffers T N" and q: "queue_call_ok n vnets buffers q"
  shows "\<exists>N'. run_queue_call q N = Inr N' \<and> base_ok n vnets buffers T N'"
proof -
  show ?thesis
  proof (cases q)
    case (SetToNetQueue i ordered v ty b)
    then show ?thesis using N q
      by (auto simp: queue_call_ok_def base_ok_def setToNetQueue_def checkNetworkAllocation_def list_all_length nth_list_update intro!: set_queue_refs)
  next
    case (SetFromNetQueue i ordered v ty b)
    then show ?thesis using N q
      by (auto simp: queue_call_ok_def base_ok_def setFromNetQueue_def checkNetworkAllocation_def list_all_length nth_list_update intro!: set_queue_refs)
  qed
qed

lemma load_queue_total:
  assumes "refs_below (length bufs) q" and "\<forall>b \<in> set bufs. mb_consumer b = None"
  shows "\<exists>ns. load_queue bufs q = Inr ns \<and> (\<forall>b \<in> set ns. \<forall>B. b = Some B \<longrightarrow> mb_consumer B = None)"
proof -
  let ?f = "\<lambda>b. case b of None \<Rightarrow> Inr None | Some k \<Rightarrow> bnd (at bufs (int k)) (\<lambda>B. Inr (Some B))"
  have "\<exists>ns. traverse ?f q = Inr ns" by (rule traverse_defined) (use assms(1) in \<open>auto simp: refs_below_def split: option.splits\<close>)
  then obtain ns where ns: "traverse ?f q = Inr ns" by blast
  have "mb_consumer B = None" if "Some B \<in> set ns" for B
  proof -
    from that obtain j where "j < length ns" "ns ! j = Some B" by (auto simp: in_set_conv_nth)
    with traverse_Inr [OF ns] have "?f (q ! j) = Inr (Some B)" by force
    then show ?thesis using assms(2) by (auto simp: at_eq_Inr split: option.splits)
  qed
  with ns show ?thesis by (auto simp: load_queue_def)
qed

lemma attach_nodes_total:
  assumes N: "base_ok n vnets (length bufs) T N" and b: "\<forall>b \<in> set bufs. mb_consumer b = None"
    and S: "length (gn_nis (gs_net S)) = n" "length (gs_nodes S) = n"
  shows "\<exists>S'. foldM (attach_node bufs N) [0..<n] S = Inr S' \<and> length (gn_nis (gs_net S')) = n \<and> length (gs_nodes S') = n"
  using S
proof (rule foldM_total [where I = "\<lambda>S. length (gn_nis (gs_net S)) = n \<and> length (gs_nodes S) = n", OF conjI])
  fix i and S :: garnet_system assume i: "i \<in> set [0..<n]" and S: "length (gn_nis (gs_net S)) = n \<and> length (gs_nodes S) = n"
  from N i have q: "refs_below (length bufs) (nw_toNetQueues N ! i)" "refs_below (length bufs) (nw_fromNetQueues N ! i)"
    by (auto simp: base_ok_def list_all_length)
  from load_queue_total [OF q(1) b] obtain ins where ins: "load_queue bufs (nw_toNetQueues N ! i) = Inr ins"
    "\<forall>b \<in> set ins. \<forall>B. b = Some B \<longrightarrow> mb_consumer B = None" by blast
  from load_queue_total [OF q(2) b] obtain outs where outs: "load_queue bufs (nw_fromNetQueues N ! i) = Inr outs" by blast
  have "\<exists>ins'. traverse (set_node_consumer i) ins = Inr ins'"
    by (rule traverse_defined) (use ins(2) in \<open>auto simp: set_node_consumer_def mb_setConsumer_def split: option.splits\<close>)
  then show "\<exists>S'. attach_node bufs N i S = Inr S' \<and> length (gn_nis (gs_net S')) = n \<and> length (gs_nodes S') = n"
    using i S N ins(1) outs by (auto simp: attach_node_def NI_addNode_def base_ok_def)
qed

section \<open>The whole construction\<close>

lemma add_controllers_base: "base_ok n vnets buffers T N \<Longrightarrow> base_ok n vnets buffers T (fold add_controller cs N)"
  by (induction cs arbitrary: N) (auto simp: add_controller_def base_ok_def)

lemma Network_new_total:
  assumes p: "params_ok p bufs"
  shows "\<exists>N T. Network_new (gp_machines p) (gp_network p) = Inr N \<and>
    base_ok (length (pr_ext_links (gp_network p))) (pr_number_of_virtual_networks (gp_network p)) (length bufs) T N \<and> links_ok T \<and>
    tp_nodes T = length (pr_ext_links (gp_network p)) \<and>
    (\<forall>x \<in> set (tp_link_map T). entry_ok (gp_machines p) (pr_ext_links (gp_network p)) (pr_int_links (gp_network p)) x) \<and>
    2 * mt_base_number (gp_machines p) (mt_num (gp_machines p)) \<le> max_switch_id T + 1"
proof -
  let ?q = "gp_network p" and ?M = "gp_machines p"
  let ?n = "length (pr_ext_links ?q)" and ?v = "pr_number_of_virtual_networks ?q"
  from p have c: "config_ok ?M (pr_num_routers ?q) (pr_ext_links ?q) (pr_int_links ?q)" and n: "mt_base_number ?M (mt_num ?M) = ?n" "?v \<noteq> 0"
    and calls: "\<And>x y. x \<in> set (pr_controllers ?q) \<Longrightarrow> y \<in> set (ct_initNetQueues x) \<Longrightarrow> queue_call_ok ?n ?v (length bufs) y"
    by (auto simp: params_ok_def Let_def list_all_iff)
  have n0: "?n \<noteq> 0" using c by (auto simp: config_ok_def)
  from Topology_new_shape [OF c] obtain T where T: "Topology_new ?M (pr_num_routers ?q) (pr_ext_links ?q) (pr_int_links ?q) = Inr T" "links_ok T"
    "fst ` set (tp_link_map T) = (\<Union>l \<in> set (pr_ext_links ?q). ext_keys ?M ?n l) \<union> (\<Union>l \<in> set (pr_int_links ?q). int_keys ?n l)" by blast
  define N0 where "N0 = fold add_controller (pr_controllers ?q) \<lparr>nw_nodes = ?n, nw_virtual_networks = ?v,
      nw_control_msg_size = pr_control_msg_size ?q, nw_data_msg_size = 0, nw_vnet_type_names = replicate ?v [], nw_topology = T,
      nw_toNetQueues = replicate ?n [], nw_fromNetQueues = replicate ?n [], nw_ordered = replicate ?v False, nw_addrMap = []\<rparr>"
  have "base_ok ?n ?v (length bufs) T N0" unfolding N0_def
    by (rule add_controllers_base) (simp add: base_ok_def list_all_iff refs_below_def)
  then have "\<exists>N. foldM (\<lambda>c. foldM run_queue_call (ct_initNetQueues c)) (pr_controllers ?q) N0 = Inr N \<and> base_ok ?n ?v (length bufs) T N"
    by (rule foldM_total) (rule foldM_total, assumption, use run_queue_call_total calls in blast)
  then obtain N where "Network_new ?M ?q = Inr N" "base_ok ?n ?v (length bufs) T N"
    using n n0 T(1) by (auto simp: Network_new_def Let_def assert_that_def N0_def)
  moreover from n0 obtain l where "l \<in> set (pr_ext_links ?q)" by (metis length_0_conv list.set_sel(1))
  then have "(mt_base_number ?M (el_ext_type l) + el_ext_version l, el_int_node l + 2 * ?n) \<in> fst ` set (tp_link_map T)"
    unfolding T(3) by (auto simp: ext_keys_def)
  then have "2 * ?n \<le> max_switch_id T" using max_switch_id_ge(2) [of _ "el_int_node l + 2 * ?n" _ T] by fastforce
  ultimately show ?thesis using T(2) Topology_new_entries [OF T(1)] n(1) by fastforce
qed

lemma set_mesh_size_total:
  assumes "0 < nc_num_rows (gn_config net) \<Longrightarrow> nc_num_rows (gn_config net) dvd int (length (gn_routers net))"
  shows "\<exists>rows cols. set_mesh_size net = Inr (net\<lparr>gn_config := (gn_config net)\<lparr>nc_num_rows := rows, nc_num_cols := cols\<rparr>\<rparr>)"
proof (cases "0 < nc_num_rows (gn_config net)")
  case True
  then have "set_mesh_size net = Inr (net\<lparr>gn_config := (gn_config net)\<lparr>nc_num_rows := nc_num_rows (gn_config net),
      nc_num_cols := int (length (gn_routers net)) div nc_num_rows (gn_config net)\<rparr>\<rparr>)"
    using assms by (simp add: set_mesh_size_def Let_def assert_that_def)
  then show ?thesis by blast
next
  case False
  then have "set_mesh_size net = Inr (net\<lparr>gn_config := (gn_config net)\<lparr>nc_num_rows := -1, nc_num_cols := -1\<rparr>\<rparr>)"
    by (simp add: set_mesh_size_def Let_def)
  then show ?thesis by blast
qed

lemma vcs_known_mesh [simp]: "vcs_known (C\<lparr>nc_num_rows := rows, nc_num_cols := cols\<rparr>) n = vcs_known C n"
proof -
  have "OutVcState_new (C\<lparr>nc_num_rows := rows, nc_num_cols := cols\<rparr>) = OutVcState_new C"
    by (simp add: fun_eq_iff OutVcState_new_def get_vnet_type_def Let_def bnd_def split: sum.splits)
  then show ?thesis by (simp add: vcs_known_def)
qed

lemma init_parts_total:
  assumes "\<forall>n \<in> set (gn_nis net). vcs_known (gn_config net) (ni_num_vcs n)"
  shows "\<exists>nis. init_parts net = Inr (net\<lparr>gn_routers := map Router_init (gn_routers net), gn_nis := nis\<rparr>)"
proof -
  have "\<exists>nis. traverse (NetworkInterface_init (gn_config net)) (gn_nis net) = Inr nis"
    by (rule traverse_defined) (use assms in \<open>auto simp: NetworkInterface_init_def vcs_known_def\<close>)
  then show ?thesis by (auto simp: init_parts_def)
qed

lemma new_network_sized:
  assumes p: "params_ok p bufs" and N: "base_ok n (pr_number_of_virtual_networks (gp_network p)) buffers T N"
    and r: "gn_routers net = map new_router (gp_routers p)" "gn_nis net = map new_netif (gp_netifs p)" "gn_config net = GarnetNetwork_config p N"
  shows "sized (pr_num_routers (gp_network p)) (length (pr_ext_links (gp_network p))) (GarnetNetwork_config p N) net"
proof -
  let ?C = "GarnetNetwork_config p N" and ?v = "pr_number_of_virtual_networks (gp_network p)"
  have v: "vcs_known ?C (?v * gp_vcs_per_vnet p)"
    by (rule vcs_known) (use p N in \<open>auto simp: GarnetNetwork_config_def params_ok_def base_ok_def Let_def\<close>)
  have 1: "r_vc_per_vnet (new_router x) = gp_vcs_per_vnet p \<and> r_num_vcs (new_router x) = ?v * gp_vcs_per_vnet p"
    if "x \<in> set (gp_routers p)" for x
    using p that by (auto simp: params_ok_def Let_def list_all_iff new_router_def Router_new_def)
  have 2: "ni_num_vcs (new_netif x) = ?v * gp_vcs_per_vnet p" if "x \<in> set (gp_netifs p)" for x
    using p that by (auto simp: params_ok_def Let_def list_all_iff new_netif_def NetworkInterface_new_def)
  have "length (gp_routers p) = pr_num_routers (gp_network p)" "length (gp_netifs p) = length (pr_ext_links (gp_network p))" "gp_vcs_per_vnet p \<noteq> 0"
    using p by (simp_all add: params_ok_def Let_def)
  then show ?thesis using r v 1 2 by (auto simp: sized_def)
qed

lemma build_system_total:
  assumes p: "params_ok p bufs"
  shows "\<exists>S. build_system p block_size bufs R = Some (Inr S) \<and> length (gn_routers (gs_net S)) = pr_num_routers (gp_network p)"
proof -
  let ?q = "gp_network p" and ?M = "gp_machines p"
  let ?n = "length (pr_ext_links ?q)" and ?r = "pr_num_routers ?q" and ?v = "pr_number_of_virtual_networks (gp_network p)"
  from Network_new_total [OF p] obtain N T where N: "Network_new ?M ?q = Inr N" "base_ok ?n ?v (length bufs) T N"
    and T: "links_ok T" "tp_nodes T = ?n" "\<forall>x \<in> set (tp_link_map T). entry_ok ?M (pr_ext_links ?q) (pr_int_links ?q) x"
      "2 * mt_base_number ?M (mt_num ?M) \<le> max_switch_id T + 1" by blast
  let ?C = "GarnetNetwork_config p N"
  have "\<exists>ring. (if gp_spin p then bnd (assert_that (gp_spin_freq p \<noteq> 0)) (\<lambda>_. init_spinRing (gp_num_rows p) (gp_spin_file p)) else Inr []) = Inr ring"
    using p by (auto simp: params_ok_def Let_def assert_that_def)
  with N(1) obtain net where new: "GarnetNetwork_new p = Inr (N, net)" and net: "gn_routers net = map new_router (gp_routers p)"
      "gn_nis net = map new_netif (gp_netifs p)" "gn_config net = ?C"
    by (auto simp: GarnetNetwork_new_def)
  from p have c: "config_ok ?M ?r (pr_ext_links ?q) (pr_int_links ?q)" "machines_ok ?M"
      "\<forall>l \<in> set (pr_ext_links ?q). 2 \<le> length (el_network_links l) \<and> 2 \<le> length (el_credit_links l)"
      "\<forall>b \<in> set bufs. mb_consumer b = None" "0 < nc_num_rows ?C \<Longrightarrow> nc_num_rows ?C dvd int ?r"
    by (auto simp: params_ok_def Let_def list_all_iff GarnetNetwork_config_def)
  have sized: "sized ?r ?n ?C net" by (rule new_network_sized [OF p N(2) net])
  let ?N = "Network_init block_size N" and ?S = "new_system (nw_nodes N) R net"
  have Ni: "base_ok ?n ?v (length bufs) T ?N" using N(2) by (simp add: base_ok_def Network_init_def)
  have "length (gn_nis (gs_net ?S)) = ?n" "length (gs_nodes ?S) = ?n" using sized N(2) by (simp_all add: new_system_def sized_def base_ok_def)
  from attach_nodes_total [OF Ni c(4) this] obtain S1 where S1: "foldM (attach_node bufs ?N) [0..<?n] ?S = Inr S1" by blast
  have s1: "gs_net S1 = net" using attach_node_frame [OF S1] by (auto simp: new_system_def)
  have "\<exists>net1. createLinks (garnet_class (gp_raw_ports p)) ?M T net = Some (Inr net1) \<and> sized ?r ?n ?C net1"
  proof (rule createLinks_total [where I = "sized ?r ?n ?C", OF c(2) T(1) T(4) sized])
    fix i j e nd net assume e: "map_of (tp_link_map T) (i, j) = Some e" and s: "sized ?r ?n ?C net"
    have ok: "entry_ok ?M (pr_ext_links ?q) (pr_int_links ?q) ((i, j), e)" using T(3) map_of_SomeD [OF e] by blast
    show "\<exists>net'. makeLink (garnet_class (gp_raw_ports p)) T i j nd net = Inr net' \<and> sized ?r ?n ?C net'"
      by (rule makeLink_total [OF c(1) T(2) e ok s c(3)])
  qed
  then obtain net1 where net1: "createLinks (garnet_class (gp_raw_ports p)) ?M T net = Some (Inr net1)" "sized ?r ?n ?C net1" by blast
  have "0 < nc_num_rows (gn_config net1) \<Longrightarrow> nc_num_rows (gn_config net1) dvd int (length (gn_routers net1))"
    using c(5) net1(2) by (simp add: sized_def)
  from set_mesh_size_total [OF this] obtain rows cols where
    mesh: "set_mesh_size net1 = Inr (net1\<lparr>gn_config := (gn_config net1)\<lparr>nc_num_rows := rows, nc_num_cols := cols\<rparr>\<rparr>)" (is "_ = Inr ?net2") by blast
  have "\<forall>n \<in> set (gn_nis ?net2). vcs_known (gn_config ?net2) (ni_num_vcs n)" using net1(2) by (simp add: sized_def)
  from init_parts_total [OF this] obtain nis where
    parts: "init_parts ?net2 = Inr (?net2\<lparr>gn_routers := map Router_init (gn_routers ?net2), gn_nis := nis\<rparr>)" by blast
  have "nw_topology ?N = T" "nw_nodes ?N = ?n" using Ni by (simp_all add: base_ok_def)
  then have "GarnetNetwork_init p block_size bufs N ?S = Some (Inr (S1\<lparr>gs_net := ?net2\<rparr>))"
    using S1 s1 net1(1) mesh by (simp add: GarnetNetwork_init_def Let_def)
  then show ?thesis using new parts net1(2) by (simp add: build_system_def sized_def)
qed

end
