(* ===== verification/Build_Properties.thy ===== *)
theory Build_Properties
  imports Garnet_Total Topology_Properties Interface_Properties Router_Properties
begin

text \<open>
  The properties of a network that was built from its configuration, and the two-router network of the other
  theories as such a configuration.
\<close>

section \<open>A configuration\<close>

definition ex_build :: garnet_params where
  "ex_build = \<lparr>gp_machines = ex_machines,
     gp_network = \<lparr>pr_number_of_virtual_networks = 1, pr_control_msg_size = 8, pr_num_routers = 2,
       pr_ext_links = ex_ext_links, pr_int_links = ex_int_links,
       pr_controllers = map (\<lambda>i. \<lparr>ct_machine = \<lparr>mach_type = 0, mach_num = i\<rparr>, ct_ranges = [],
         ct_initNetQueues = [SetToNetQueue i False 0 ''request'' (Some (2 * i)),
           SetFromNetQueue i False 0 ''request'' (Some (2 * i + 1))]\<rparr>) [0, 1]\<rparr>,
     gp_routers = map (\<lambda>i. (ex_raw_router, \<lparr>rp_router_id = i, rp_latency = 1, rp_virt_nets = 1, rp_vcs_per_vnet = 1,
       rp_marked_flit = 0\<rparr>)) [0, 1],
     gp_netifs = map (\<lambda>i. (ex_ni i, \<lparr>ip_id = i, ip_virt_nets = 1, ip_vcs_per_vnet = 1, ip_deadlock_threshold = 50000\<rparr>)) [0, 1],
     gp_num_rows = 1, gp_num_cols = 0, gp_vcs_per_vnet = 1, gp_buffers_per_data_vc = 4, gp_buffers_per_ctrl_vc = 1,
     gp_routing_algorithm = 1, gp_spin = False, gp_spin_freq = 0, gp_spin_mult = 1, gp_uTurn_crossbar = 1, gp_drain_all_vc = 0,
     gp_spin_file = None, gp_fresh_credit = ex_credit, gp_raw_ports = (ex_raw_input, ex_raw_output), gp_random = (\<lambda>_. 0)\<rparr>"

definition ex_buffers :: "message_buffer list" where
  "ex_buffers = replicate 4 (MessageBuffer_new 0 False False)"

lemma ex_build_ok: "params_ok ex_build ex_buffers"
proof -
  have "list_all (\<lambda>b. mb_consumer b = None) ex_buffers" "length ex_buffers = 4"
    by (simp_all add: ex_buffers_def list_all_iff MessageBuffer_new_def)
  then show ?thesis unfolding params_ok_def using ex_config_ok ex_machines_ok
    by (simp add: ex_build_def Let_def queue_call_ok_def) (simp add: ex_machines_def ex_ext_link_def)
qed

lemma ex_build_fresh: "params_fresh ex_build"
  by (simp add: params_fresh_def link_fresh_def ex_build_def ex_ext_link_def ex_int_link_def ex_ni_def NetworkLink_new_def)

section \<open>Properties\<close>

text \<open>
  C11. A configuration whose parts fit together is built: no assertion fails and no index is out of range, and the
  system is connected as the flow control needs it, from its start on and in every state it can reach. Every input port
  of a router has a link and the credit link of the same number; flits on the link wake this router, and the credit
  link takes its credits from this port. If the link comes from an output port of a router, that port uses these
  two links as well, and the credits wake that router.
\<close>

theorem built_network_is_wired:
  assumes "params_ok p bufs" and "params_fresh p"
  shows "\<exists>S. build_system p block_size bufs R = Some (Inr S) \<and>
    length (gn_routers (gs_net S)) = pr_num_routers (gp_network p) \<and>
    (\<forall>S' i q. (sys_step P)\<^sup>*\<^sup>* S S' \<longrightarrow> i < length (gn_routers (gs_net S')) \<longrightarrow>
       q < length (r_input_unit (gn_routers (gs_net S') ! i)) \<longrightarrow>
       (let net = gs_net S'; u = r_input_unit (gn_routers net ! i) ! q; k = iu_in_link u in
        k < length (gn_networklinks net) \<and> iu_credit_link u = k \<and>
        nl_consumer (gn_networklinks net ! k) = Some (RouterConsumer i) \<and>
        nl_srcQueue (gn_creditlinks net ! k) = Some (RouterCredit i q) \<and>
        (\<forall>j o'. nl_srcQueue (gn_networklinks net ! k) = Some (RouterOut j o') \<longrightarrow>
           ou_out_link (r_output_unit (gn_routers net ! j) ! o') = k \<and>
           ou_credit_link (r_output_unit (gn_routers net ! j) ! o') = k \<and>
           nl_consumer (gn_creditlinks net ! k) = Some (RouterConsumer j))))"
proof -
  from build_system_total [OF assms(1)] obtain S where S: "build_system p block_size bufs R = Some (Inr S)"
    "length (gn_routers (gs_net S)) = pr_num_routers (gp_network p)" by blast
  have W: "net_wired (gs_net S')" if "(sys_step P)\<^sup>*\<^sup>* S S'" for S'
    using sys_steps_inv [OF that build_system_inv [OF S(1) assms(2)]] by (simp add: sys_inv_def)
  show ?thesis using S wired_input_port [OF W] by (intro exI [of _ S] conjI allI impI) (simp_all add: Let_def)
qed

theorem built_network_is_wired_witness:
  "\<exists>S. build_system ex_build 64 ex_buffers ex_ruby = Some (Inr S) \<and> length (gn_routers (gs_net S)) = 2 \<and>
    (\<forall>i < 2. \<forall>q < length (r_input_unit (gn_routers (gs_net S) ! i)).
       iu_credit_link (r_input_unit (gn_routers (gs_net S) ! i) ! q) = iu_in_link (r_input_unit (gn_routers (gs_net S) ! i) ! q))"
  using built_network_is_wired [OF ex_build_ok ex_build_fresh, of 64 ex_ruby ex_params] by (auto simp: Let_def ex_build_def)

text \<open>
  C3. A system that was built from its configuration, in every state it can reach by steps of its routers, links and
  interfaces, of the clock and of the protocol, with drains at any time: for every virtual network the flits
  injected are those received and those in the network; every flit has a message of its own and every
  message its flit; all routers are halted or none, as the lock says; and no credit counter leaves its bounds.
\<close>

theorem built_system_is_sound:
  assumes "build_system p block_size bufs R = Some (Inr S)" and "params_fresh p" and "(sys_step P)\<^sup>*\<^sup>* S S'"
  shows "fs_flits_injected (gs_stats S') ! v =
      fs_flits_received (gs_stats S') ! v + size {#t \<in># network_tags (gs_net S'). tag_vnet t = int v#} \<and>
    image_mset tag_msg_ptr (network_tags (gs_net S')) = image_mset Some (mset_set (dom (gs_msgs S'))) \<and>
    (\<forall>r \<in> set (gn_routers (gs_net S')). r_halt r = (gn_lock (gs_net S') \<noteq> -1) \<and>
       (\<forall>u \<in> set (r_output_unit r). \<forall>s \<in> set (ou_outvc_state u). 0 \<le> ovc_credit_count s \<and> ovc_credit_count s \<le> ovc_max_credit_count s))"
proof -
  note ok = build_system_ok [OF assms(1,2)]
  note fresh = net_fresh_holds [OF ok(1)]
  from ok(4) have stats: "fs_flits_injected (gs_stats S) ! v = fs_flits_received (gs_stats S) ! v"
    by (auto simp: flow_stats_new_def Let_def)
  have books: "fs_flits_injected (gs_stats S') ! v =
      fs_flits_received (gs_stats S') ! v + size {#t \<in># network_tags (gs_net S'). tag_vnet t = int v#}"
    using vnet_flow.system_balance [OF assms(3), of v] fresh(1) stats by (simp add: selected_def)
  have keys: "image_mset tag_msg_ptr (network_tags (gs_net S')) = image_mset Some (mset_set (dom (gs_msgs S')))"
    using flits_own_their_messages [OF assms(3) fresh(1) ok(3)] ..
  have "halt_inv (gs_net S')" "net_credit_inv (gs_net S')"
    using sys_steps_inv [OF assms(3) build_system_inv [OF assms(1,2)]] by (simp_all add: sys_inv_def)
  then show ?thesis using books keys
    by (auto simp: halt_inv_def net_credit_inv_alt ou_inv_def credit_inv_def list_all_iff)
qed

theorem built_system_is_sound_witness:
  "\<exists>S S'. build_system ex_build 64 ex_buffers ex_ruby = Some (Inr S) \<and> (sys_step ex_params)\<^sup>*\<^sup>* S S' \<and>
    (\<forall>r \<in> set (gn_routers (gs_net S')). r_halt r = (gn_lock (gs_net S') \<noteq> -1))"
proof -
  from build_system_total [OF ex_build_ok] obtain S where S: "build_system ex_build 64 ex_buffers ex_ruby = Some (Inr S)" by blast
  let ?S' = "S\<lparr>gs_nodes := gs_nodes S, gs_ruby := gs_ruby S, gs_requests := [], gs_net := schedule_events [(RouterConsumer 0, 1)] (gs_net S)\<rparr>"
  have step: "(sys_step ex_params)\<^sup>*\<^sup>* S ?S'" by (rule r_into_rtranclp) (rule sys_step.protocol_step)
  from built_system_is_sound [OF S ex_build_fresh step] S step show ?thesis by blast
qed

text \<open>
  C27. Condition (3) of \<open>send_allowed\<close>, that no older flit of an ordered virtual network asks for the same port, never
  holds a flit back. In no state that a built system can reach has a virtual channel an output port, since \<open>route_compute\<close>
  enters it in the flit and \<open>grant_outport\<close> is not called; so the search for an older request finds none, and a head flit may
  be sent exactly when its output port has a free channel, whether its virtual network is ordered or not.
\<close>

theorem ordered_vnet_check_vacuous:
  assumes "build_system p block_size bufs R = Some (Inr S)" and "params_fresh p" and "(sys_step P)\<^sup>*\<^sup>* S S'"
  shows "\<forall>r \<in> set (gn_routers (gs_net S')). (\<forall>u \<in> set (r_input_unit r). no_vc_outport u) \<and>
    (\<forall>C now inport invc outport b. inport < length (r_input_unit r) \<longrightarrow> send_allowed C now r inport invc outport (-1) = Inr b \<longrightarrow>
       (\<exists>vnet. sa_get_vnet r invc = Inr vnet \<and> ou_has_free_vc now vnet (r_output_unit r ! nat outport) = Inr b))"
proof -
  have "net_channels outport_unset (gs_net S')"
    using sys_steps_inv [OF assms(3) build_system_inv [OF assms(1,2)]] by (simp add: sys_inv_def)
  then have "\<forall>r \<in> set (gn_routers (gs_net S')). \<forall>u \<in> set (r_input_unit r). no_vc_outport u"
    by (simp add: net_channels_routers router_channels_def no_vc_outport_channels)
  then show ?thesis using send_allowed_free_vc by (blast intro: nth_mem)
qed

theorem ordered_vnet_check_vacuous_witness:
  "(\<exists>S S'. build_system ex_build 64 ex_buffers ex_ruby = Some (Inr S) \<and> (sys_step ex_params)\<^sup>*\<^sup>* S S' \<and>
     (\<forall>r \<in> set (gn_routers (gs_net S')). \<forall>u \<in> set (r_input_unit r). no_vc_outport u)) \<and>
   send_allowed ((ex_config 0)\<lparr>nc_ordered := [True]\<rparr>) 0 (rc_router (ex_cx False)) 1 0 1 (-1) = Inr True"
proof -
  from build_system_total [OF ex_build_ok] obtain S where S: "build_system ex_build 64 ex_buffers ex_ruby = Some (Inr S)" by blast
  let ?S' = "S\<lparr>gs_nodes := gs_nodes S, gs_ruby := gs_ruby S, gs_requests := [], gs_net := schedule_events [(RouterConsumer 0, 1)] (gs_net S)\<rparr>"
  have step: "(sys_step ex_params)\<^sup>*\<^sup>* S ?S'" by (rule r_into_rtranclp) (rule sys_step.protocol_step)
  from ordered_vnet_check_vacuous [OF S ex_build_fresh step] S step ex_ordered_send show ?thesis by blast
qed

section \<open>Collecting the activity twice\<close>

lemma link_utilization:
  "la_ext_in (fold collate_link ls a) = la_ext_in a + sum_list (map nl_link_utilized (filter (\<lambda>l. nl_type l = EXT_IN) ls))"
  "la_ext_out (fold collate_link ls a) = la_ext_out a + sum_list (map nl_link_utilized (filter (\<lambda>l. nl_type l = EXT_OUT) ls))"
  "la_int (fold collate_link ls a) = la_int a + sum_list (map nl_link_utilized (filter (\<lambda>l. nl_type l = INT_link) ls))"
  by (induction ls arbitrary: a) (auto simp: collate_link_def Let_def split: link_type.splits)

text \<open>
  The counters of the links are added to what an earlier dump of the statistics has collected, and the counters
  themselves go on counting: a second dump reports the utilization of the first one again.
\<close>

lemma second_dump_counts_again:
  assumes "GarnetNetwork_collateStats net (\<lparr>la_ext_in = 0, la_ext_out = 0, la_int = 0\<rparr>, rs) = Inr a"
    and "GarnetNetwork_collateStats net a = Inr a'"
  shows "la_int (fst a') = 2 * la_int (fst a)"
  using assms by (auto simp: GarnetNetwork_collateStats_def link_utilization)

end
