(* ===== verification/Address_Map.thy ===== *)
theory Address_Map
  imports Ruby_Network
begin

unbundle bit_operations_syntax

text \<open>
  The map from addresses to controllers. The ranges of a complete interleaving, that is, of one that the merging
  constructor of \<open>AddrRange\<close> accepts, divide the merged range among them, and \<open>Network::addressToNodeID\<close> finds the
  one controller that an address belongs to.
\<close>

section \<open>Interleaving values\<close>

text \<open>The interleaved and the hashed bits are bits of an address, and the match value can tell all stripes apart.\<close>

definition intlv_ok :: "addr_range \<Rightarrow> bool" where
  "intlv_ok r \<longleftrightarrow> unat (ar_intlvBits r) \<le> 8 \<and> (interleaved r \<longrightarrow>
     uint (ar_intlvBits r) \<le> uint (ar_intlvHighBit r) + 1 \<and> uint (ar_intlvHighBit r) < 64 \<and>
     (hashed r \<longrightarrow> uint (ar_intlvBits r) \<le> uint (ar_xorHighBit r) + 1 \<and> uint (ar_xorHighBit r) < 64))"

lemma mask64_eq: "n < 64 \<Longrightarrow> mask64 (int n) = Inr (mask n)"
  by (simp add: mask64_def shift_ok_def mask_eq_decr_exp push_bit_eq_mult)

lemma bits_eq:
  assumes "0 < n" and "int n \<le> hi + 1" and "hi < 64" and "n < 64"
  shows "bits a hi (hi - int n + 1) = Inr (take_bit n (drop_bit (nat (hi - int n + 1)) a))"
  using assms mask64_eq [of n] by (simp add: bits_def Let_def shift_ok_def take_bit_eq_mask)

lemma intlv_value_returns:
  assumes "intlv_ok r" and "interleaved r"
  shows "\<exists>v. intlv_value r a = Inr v \<and> unat v < 2 ^ unat (ar_intlvBits r)"
proof -
  let ?n = "unat (ar_intlvBits r)"
  have n: "0 < ?n" "?n < 64"
    using assms by (simp_all add: intlv_ok_def interleaved_def unat_gt_0)
  have less: "unat (take_bit ?n x) < 2 ^ ?n" for x :: addr
    by (simp add: unsigned_take_bit_eq)
  have "bits a (uint (ar_intlvHighBit r)) (uint (ar_intlvHighBit r) - int ?n + 1) =
      Inr (take_bit ?n (drop_bit (nat (uint (ar_intlvHighBit r) - int ?n + 1)) a))"
    using assms n by (intro bits_eq) (simp_all add: intlv_ok_def)
  moreover have "bits a (uint (ar_xorHighBit r)) (uint (ar_xorHighBit r) - int ?n + 1) =
      Inr (take_bit ?n (drop_bit (nat (uint (ar_xorHighBit r) - int ?n + 1)) a))" if "hashed r"
    using assms n that by (intro bits_eq) (simp_all add: intlv_ok_def)
  moreover have "unat (take_bit ?n x XOR take_bit ?n y) < 2 ^ ?n" for x y :: addr using less [of "x XOR y"] by (simp only: take_bit_xor)
  ultimately show ?thesis using less by (cases "hashed r") (auto simp: intlv_value_def Let_def)
qed

lemma eq_match_iff: "v = ucast (m :: 8 word) \<longleftrightarrow> unat m = unat (v :: addr)"
proof -
  have "unat m < 2 ^ 8" using unsigned_less [of m] by simp
  then have "unat (ucast m :: addr) = unat m" by (simp add: unsigned_ucast_eq take_bit_nat_eq_self)
  then show ?thesis by (metis word_unat_eq_iff)
qed

section \<open>Merged ranges\<close>

lemma merge_check_Inr:
  assumes "merge_check t m rs = Inr ()" and "i < length rs"
  shows "mergesWith t (rs ! i)" and "ar_intlvMatch (rs ! i) = m + of_nat i"
proof -
  from assms have "mergesWith t (rs ! i) \<and> ar_intlvMatch (rs ! i) = m + of_nat i"
  proof (induction rs arbitrary: m i)
    case (Cons r rs)
    then show ?case by (cases i) (auto split: if_splits simp: add.assoc)
  qed simp
  then show "mergesWith t (rs ! i)" "ar_intlvMatch (rs ! i) = m + of_nat i" by simp_all
qed

lemma merge_Inr:
  assumes "AddrRange_merge (r # rs) = Inr R"
  shows "length (r # rs) = 2 ^ unat (ar_intlvBits r)" and "merge_check (r\<lparr>ar_intlvMatch := 0\<rparr>) 0 (r # rs) = Inr ()"
    and "R = r\<lparr>ar_intlvMatch := 0, ar_intlvHighBit := 0, ar_xorHighBit := 0, ar_intlvBits := 0\<rparr>"
  using assms by (auto simp: AddrRange_merge_def Let_def split: if_splits)

text \<open>Of the ranges of an interleaving exactly that one holds an address whose number is the interleaving value.\<close>

lemma stripe_of_address:
  assumes m: "AddrRange_merge (r # rs) = Inr R" and ok: "intlv_ok r"
  shows "\<exists>v < length (r # rs). \<forall>i < length (r # rs). ar_contains ((r # rs) ! i) a = Inr (ar_start R \<le> a \<and> a \<le> ar_end R \<and> i = v)"
proof (cases "interleaved r")
  case True
  let ?rs = "r # rs" and ?n = "unat (ar_intlvBits r)"
  note mr = merge_Inr [OF m]
  from intlv_value_returns [OF ok True] obtain v where v: "intlv_value r a = Inr v" "unat v < 2 ^ ?n" by blast
  have "ar_contains (?rs ! i) a = Inr (ar_start R \<le> a \<and> a \<le> ar_end R \<and> i = unat v)" if i: "i < length ?rs" for i
  proof -
    note mc = merge_check_Inr [OF mr(2) i]
    have same: "ar_start (?rs ! i) = ar_start R" "ar_end (?rs ! i) = ar_end R" "interleaved (?rs ! i)" "intlv_value (?rs ! i) a = Inr v"
      using mc(1) True v(1) mr(3) by (simp_all add: mergesWith_def interleaved_def intlv_value_def hashed_def Let_def)
    have "2 ^ ?n \<le> (2 ^ 8 :: nat)" using ok by (intro power_increasing) (simp_all add: intlv_ok_def)
    then have "i < 2 ^ 8" using i mr(1) by linarith
    then have "unat (ar_intlvMatch (?rs ! i)) = i" using mc(2) by (simp add: unat_of_nat take_bit_eq_mod)
    then have "v = ucast (ar_intlvMatch (?rs ! i)) \<longleftrightarrow> i = unat v" by (simp add: eq_match_iff)
    then show ?thesis using same by (auto simp: ar_contains_def Let_def)
  qed
  moreover have "unat v < length ?rs" using v(2) mr(1) by simp
  ultimately show ?thesis by blast
next
  case False
  then show ?thesis using merge_Inr [OF m] by (auto simp: interleaved_def ar_contains_def Let_def)
qed

section \<open>The controller of an address\<close>

lemma find_node_single:
  assumes "length ids = length rs" and "\<forall>i < length rs. ar_contains (rs ! i) a = Inr (b \<and> i = v)"
  shows "find_node (map (\<lambda>(i, r). \<lparr>an_id = i, an_ranges = [r]\<rparr>) (zip ids rs)) a =
    Inr (if b \<and> v < length rs then Some (ids ! v) else None)"
  using assms
proof (induction ids rs arbitrary: v b rule: list_induct2)
  case (Cons i ids r rs)
  show ?case
  proof (cases "b \<and> v = 0")
    case True
    then show ?thesis using Cons.prems by force
  next
    case False
    have "ar_contains (rs ! j) a = Inr ((b \<and> v \<noteq> 0) \<and> j = v - 1)" if "j < length rs" for j
      using Cons.prems [rule_format, of "Suc j"] that by auto
    then have "\<forall>j < length rs. ar_contains (rs ! j) a = Inr ((b \<and> v \<noteq> 0) \<and> j = v - 1)" by blast
    from Cons.IH [OF this] show ?thesis using Cons.prems False by (auto dest!: spec [of _ 0])
  qed
qed simp

text \<open>
  C31. Every address of an interleaved memory has one controller. Let the controllers of a machine type have one range
  each, and let these ranges, in the order of the controllers, be a complete interleaving (with or without
  hashed bits) that merges to \<open>R\<close>. Then an address of \<open>R\<close> is in exactly one of the ranges, and \<open>addressToNodeID\<close>
  returns the controller of that range; for any other address it returns the number of controllers.
\<close>

theorem address_has_one_controller:
  assumes "AddrRange_merge rs = Inr R" and "rs \<noteq> []" and "intlv_ok (hd rs)" and "length ids = length rs"
    and map: "map snd (filter (\<lambda>e. fst e = mtype) (nw_addrMap N)) = map (\<lambda>(i, r). \<lparr>an_id = i, an_ranges = [r]\<rparr>) (zip ids rs)"
  shows "\<exists>v < length rs. (\<forall>i < length rs. ar_contains (rs ! i) a = Inr (ar_contains R a = Inr True \<and> i = v)) \<and>
    addressToNodeID M a mtype N = Inr (if ar_contains R a = Inr True then ids ! v else mt_base_count M mtype)"
proof -
  obtain r rs' where rs: "rs = r # rs'" using assms(2) by (cases rs) auto
  from stripe_of_address [of r rs' R a] assms(1,3) obtain v where v: "v < length rs"
    "\<forall>i < length rs. ar_contains (rs ! i) a = Inr ((ar_start R \<le> a \<and> a \<le> ar_end R) \<and> i = v)" by (auto simp: rs)
  have R: "ar_contains R a = Inr (ar_start R \<le> a \<and> a \<le> ar_end R)"
    using merge_Inr(3) [of r rs' R] assms(1) by (auto simp: rs ar_contains_def interleaved_def Let_def)
  show ?thesis using v R find_node_single [OF assms(4) v(2)]
    by (intro exI [of _ v]) (auto simp: addressToNodeID_def map)
qed

text \<open>Two controllers, bit 6 of the address hashed with bit 10.\<close>

definition ex_stripe :: "8 word \<Rightarrow> addr_range" where
  "ex_stripe i = \<lparr>ar_start = 0, ar_end = 4095, ar_intlvHighBit = 6, ar_xorHighBit = 10, ar_intlvBits = 1, ar_intlvMatch = i\<rparr>"

definition ex_memory :: network_base where
  "ex_memory = \<lparr>nw_nodes = 2, nw_virtual_networks = 1, nw_control_msg_size = 8, nw_data_msg_size = 72, nw_vnet_type_names = [''response''],
     nw_topology = \<lparr>tp_nodes = 0, tp_number_of_switches = 0, tp_ext_link_vector = [], tp_int_link_vector = [], tp_link_map = []\<rparr>,
     nw_toNetQueues = [], nw_fromNetQueues = [], nw_ordered = [False],
     nw_addrMap = [(0, \<lparr>an_id = 7, an_ranges = [ex_stripe 0]\<rparr>), (0, \<lparr>an_id = 8, an_ranges = [ex_stripe 1]\<rparr>)]\<rparr>"

theorem address_has_one_controller_witness:
  "AddrRange_merge [ex_stripe 0, ex_stripe 1] = Inr (AddrRange_plain 0 4095) \<and>
   (\<exists>v < 2. ar_contains ([ex_stripe 0, ex_stripe 1] ! v) 1088 = Inr True \<and>
      addressToNodeID \<lparr>mt_num = 1, mt_base_level = (\<lambda>i. i), mt_base_count = (\<lambda>_. 2), mt_base_number = (\<lambda>i. 2 * i),
        mt_from_base_level = (\<lambda>i. i)\<rparr> 1088 0 ex_memory = Inr ([7, 8] ! v))"
proof -
  let ?M = "\<lparr>mt_num = 1, mt_base_level = (\<lambda>i. i), mt_base_count = (\<lambda>_. 2), mt_base_number = (\<lambda>i. 2 * i), mt_from_base_level = (\<lambda>i. i)\<rparr>"
  have m: "AddrRange_merge [ex_stripe 0, ex_stripe 1] = Inr (AddrRange_plain 0 4095)"
    by (simp add: AddrRange_merge_def AddrRange_plain_def ex_stripe_def mergesWith_def shift_ok_def)
  have ok: "intlv_ok (hd [ex_stripe 0, ex_stripe 1])" by (simp add: intlv_ok_def ex_stripe_def interleaved_def hashed_def)
  have R: "ar_contains (AddrRange_plain 0 4095) 1088 = Inr True" by (simp add: ar_contains_def AddrRange_plain_def interleaved_def)
  from address_has_one_controller [OF m _ ok, of "[7, 8]" 0 ex_memory 1088 ?M] obtain v where
    "v < length [ex_stripe 0, ex_stripe 1]" "ar_contains ([ex_stripe 0, ex_stripe 1] ! v) 1088 = Inr True"
    "addressToNodeID ?M 1088 0 ex_memory = Inr ([7, 8] ! v)" by (auto simp: ex_memory_def R)
  with m show ?thesis by (metis length_Cons list.size(3) numeral_2_eq_2)
qed

end
