(* ===== verification/Drain_Frame.thy ===== *)
theory Drain_Frame
  imports Drain_Rotation
begin

text \<open>
  What a drain leaves as it is (\<open>drain_frame\<close>: the shape of all ports, the ring, the tables), the channels of the
  output ports, and when the look-up of an output port cannot fail (\<open>routable\<close>), which depends only on what a
  drain leaves as it is.
\<close>

section \<open>Output channels\<close>

abbreviation gn_outs :: "garnet_network \<Rightarrow> output_unit list list" where
  "gn_outs net \<equiv> map r_output_unit (gn_routers net)"

definition ochan :: "garnet_network \<Rightarrow> nat \<Rightarrow> nat \<times> nat \<Rightarrow> out_vc_state" where
  "ochan net vc s = ou_outvc_state (gn_outs net ! fst s ! snd s) ! vc"

definition ochan_ok :: "garnet_network \<Rightarrow> nat \<Rightarrow> nat \<times> nat \<Rightarrow> bool" where
  "ochan_ok net vc s = (fst s < length (gn_outs net) \<and> snd s < length (gn_outs net ! fst s) \<and>
     vc < length (ou_outvc_state (gn_outs net ! fst s ! snd s)))"

definition outs_update :: "nat \<Rightarrow> nat \<times> nat \<Rightarrow> out_vc_state \<Rightarrow> output_unit list list \<Rightarrow> output_unit list list" where
  "outs_update vc s v uss = uss[fst s := (uss ! fst s)[snd s :=
     (uss ! fst s ! snd s)\<lparr>ou_outvc_state := (ou_outvc_state (uss ! fst s ! snd s))[vc := v]\<rparr>]]"

lemma ochan_outs_update:
  assumes u: "gn_outs net' = outs_update vc s v (gn_outs net)" and ok: "ochan_ok net vc s"
  shows "ochan net' w t = (if t = s \<and> w = vc then v else ochan net w t)"
proof -
  obtain i p j q where st: "s = (i, p)" "t = (j, q)" by force
  let ?u = "gn_outs net ! i ! p" and ?outs = "gn_outs net"
  have len: "i < length ?outs" "p < length (?outs ! i)" "vc < length (ou_outvc_state ?u)"
    using ok st by (simp_all add: ochan_ok_def del: length_map nth_map)
  have e: "gn_outs net' = ?outs[i := (?outs ! i)[p := ?u\<lparr>ou_outvc_state := (ou_outvc_state ?u)[vc := v]\<rparr>]]"
    using u st by (simp add: outs_update_def)
  have "ou_outvc_state (gn_outs net' ! j ! q) ! w =
      (if j = i \<and> q = p \<and> w = vc then v else ou_outvc_state (?outs ! j ! q) ! w)"
    using len unfolding e by (cases "j = i"; cases "q = p"; cases "w = vc"; simp del: length_map nth_map)
  then show ?thesis by (simp add: ochan_def st)
qed

section \<open>What a drain leaves as it is\<close>

definition in_shape :: "input_unit \<Rightarrow> nat \<times> port_direction \<times> nat" where
  "in_shape u = (iu_id u, iu_direction u, length (iu_vcs u))"

definition out_shape :: "output_unit \<Rightarrow> port_direction \<times> nat \<times> nat" where
  "out_shape u = (ou_direction u, ou_vc_per_vnet u, length (ou_outvc_state u))"

abbreviation in_shapes :: "garnet_network \<Rightarrow> (nat \<times> port_direction \<times> nat) list list" where
  "in_shapes net \<equiv> map (map in_shape) (gn_ins net)"

abbreviation out_shapes :: "garnet_network \<Rightarrow> (port_direction \<times> nat \<times> nat) list list" where
  "out_shapes net \<equiv> map (map out_shape) (gn_outs net)"

definition router_static :: "router \<Rightarrow> router \<Rightarrow> bool" where
  "router_static r r' = (maps_le r r' \<and> r_id r' = r_id r \<and>
     ru_routing_table (r_routing_unit r') = ru_routing_table (r_routing_unit r) \<and>
     ru_weight_table (r_routing_unit r') = ru_weight_table (r_routing_unit r))"

definition drain_frame :: "garnet_network \<Rightarrow> garnet_network \<Rightarrow> bool" where
  "drain_frame net net' = (gn_config net' = gn_config net \<and> list_all2 router_static (gn_routers net) (gn_routers net') \<and>
     ring_shape net' = ring_shape net \<and> in_shapes net' = in_shapes net \<and> out_shapes net' = out_shapes net)"

lemma router_static_refl [simp]: "router_static r r"
  by (simp add: router_static_def)

lemma router_static_trans: "router_static a b \<Longrightarrow> router_static b c \<Longrightarrow> router_static a c"
  by (auto simp: router_static_def intro: maps_le_trans)

lemma drain_frame_refl [simp]: "drain_frame net net"
  by (simp add: drain_frame_def list_all2_refl)

lemma drain_frame_trans: "drain_frame a b \<Longrightarrow> drain_frame b c \<Longrightarrow> drain_frame a c"
  unfolding drain_frame_def by (auto intro: list_all2_trans [OF router_static_trans])

lemma drain_frameI:
  assumes "spin_frame net net'" "ring_shape net' = ring_shape net" "in_shapes net' = in_shapes net" "out_shapes net' = out_shapes net"
  shows "drain_frame net net'"
proof -
  have "list_all2 router_static (gn_routers net) (gn_routers net')"
    using assms(1) unfolding spin_frame_def by (auto simp: router_rest_def router_static_def elim: list_all2_mono)
  then show ?thesis using assms by (simp add: drain_frame_def spin_frame_def)
qed

lemma nested_shape_update:
  assumes "f c = f (xss ! i ! p)" "i < length xss" "p < length (xss ! i)"
  shows "map (map f) (xss[i := (xss ! i)[p := c]]) = map (map f) xss"
proof -
  have "map f ((xss ! i)[p := c]) = map f (xss ! i)"
    using assms by (simp add: map_update list_update_same_conv)
  then show ?thesis using assms(2) by (simp add: map_update list_update_same_conv)
qed

lemma ins_update_shape: "chan_ok net vc s \<Longrightarrow> map (map in_shape) (ins_update vc s v (gn_ins net)) = in_shapes net"
  unfolding ins_update_def by (rule nested_shape_update) (auto simp: chan_ok_def in_shape_def)

lemma outs_update_shape: "ochan_ok net vc s \<Longrightarrow> map (map out_shape) (outs_update vc s v (gn_outs net)) = out_shapes net"
  unfolding outs_update_def by (rule nested_shape_update) (auto simp: ochan_ok_def out_shape_def)

lemma drain_frame_lengths:
  assumes "drain_frame net net'"
  shows "length (gn_routers net') = length (gn_routers net)" and "length (gn_spinRing net') = length (gn_spinRing net)"
  using assms by (auto simp: drain_frame_def dest: list_all2_lengthD map_eq_imp_length_eq)

lemma drain_frame_router:
  "drain_frame net net' \<Longrightarrow> i < length (gn_routers net) \<Longrightarrow> router_static (gn_routers net ! i) (gn_routers net' ! i)"
  by (auto simp: drain_frame_def list_all2_conv_all_nth)

text \<open>The ports of a router, by position.\<close>

lemma drain_frame_ports:
  assumes "drain_frame net net'" "i < length (gn_routers net)"
  shows "length (r_input_unit (gn_routers net' ! i)) = length (r_input_unit (gn_routers net ! i))"
    and "length (r_output_unit (gn_routers net' ! i)) = length (r_output_unit (gn_routers net ! i))"
    and "p < length (r_input_unit (gn_routers net ! i)) \<Longrightarrow>
      in_shape (r_input_unit (gn_routers net' ! i) ! p) = in_shape (r_input_unit (gn_routers net ! i) ! p)"
    and "p < length (r_output_unit (gn_routers net ! i)) \<Longrightarrow>
      out_shape (r_output_unit (gn_routers net' ! i) ! p) = out_shape (r_output_unit (gn_routers net ! i) ! p)"
proof -
  note l = drain_frame_lengths(1) [OF assms(1)]
  have "in_shapes net' ! i = in_shapes net ! i" "out_shapes net' ! i = out_shapes net ! i"
    using assms(1) by (simp_all only: drain_frame_def)
  then have m: "map in_shape (r_input_unit (gn_routers net' ! i)) = map in_shape (r_input_unit (gn_routers net ! i))"
    "map out_shape (r_output_unit (gn_routers net' ! i)) = map out_shape (r_output_unit (gn_routers net ! i))"
    using assms(2) l by simp_all
  show li: "length (r_input_unit (gn_routers net' ! i)) = length (r_input_unit (gn_routers net ! i))"
    and lo: "length (r_output_unit (gn_routers net' ! i)) = length (r_output_unit (gn_routers net ! i))"
    using map_eq_imp_length_eq m by blast+
  show "in_shape (r_input_unit (gn_routers net' ! i) ! p) = in_shape (r_input_unit (gn_routers net ! i) ! p)"
    if "p < length (r_input_unit (gn_routers net ! i))" using m(1) that li by (metis nth_map)
  show "out_shape (r_output_unit (gn_routers net' ! i) ! p) = out_shape (r_output_unit (gn_routers net ! i) ! p)"
    if "p < length (r_output_unit (gn_routers net ! i))" using m(2) that lo by (metis nth_map)
qed

lemma drain_frame_chan_ok:
  assumes "drain_frame net net'"
  shows "chan_ok net' vc s = chan_ok net vc s" and "ochan_ok net' vc s = ochan_ok net vc s"
proof -
  show "chan_ok net' vc s = chan_ok net vc s"
  proof (cases "fst s < length (gn_routers net) \<and> snd s < length (r_input_unit (gn_routers net ! fst s))")
    case True
    then show ?thesis using drain_frame_ports [OF assms] drain_frame_lengths [OF assms] by (auto simp: chan_ok_def in_shape_def)
  next
    case False
    then show ?thesis using drain_frame_ports(1) [OF assms] drain_frame_lengths [OF assms] by (auto simp: chan_ok_def)
  qed
  show "ochan_ok net' vc s = ochan_ok net vc s"
  proof (cases "fst s < length (gn_routers net) \<and> snd s < length (r_output_unit (gn_routers net ! fst s))")
    case True
    then show ?thesis using drain_frame_ports [OF assms] drain_frame_lengths [OF assms] by (auto simp: ochan_ok_def out_shape_def)
  next
    case False
    then show ?thesis using drain_frame_ports(2) [OF assms] drain_frame_lengths [OF assms] by (auto simp: ochan_ok_def)
  qed
qed

section \<open>Routes\<close>

text \<open>
  What the look-up of a packet's output port needs at a router: a lightest link to its destination, ports with
  a channel per virtual network and with directions that are known; and, for the mesh algorithms, a port for
  every direction that brings the packet closer. The adaptive mesh algorithms, which also look at the channels of
  the neighbours, are left out.
\<close>

definition table_routes :: "garnet_config \<Rightarrow> router \<Rightarrow> RouteInfo \<Rightarrow> bool" where
  "table_routes C r route =
     (let ru = r_routing_unit r; dest = ri_net_dest route in
      table_ok ru dest \<and> best_links ru dest \<noteq> [] \<and> 0 \<le> ri_vnet route \<and>
      (\<forall>p \<in> set (best_links ru dest). p < length (r_output_unit r) \<and>
         vnet_ok (r_output_unit r ! p) (nat (ri_vnet route)) \<and>
         (case get_upstreamId C (ou_direction (r_output_unit r ! p)) (int (r_id r)) of Inl e \<Rightarrow> False | Inr n \<Rightarrow> n \<noteq> -1)))"

definition mesh_routes :: "garnet_config \<Rightarrow> router \<Rightarrow> RouteInfo \<Rightarrow> bool" where
  "mesh_routes C r route =
     (case mesh_delta_of C (int (r_id r)) (ri_dest_router route) of
        Inl e \<Rightarrow> False
      | Inr d \<Rightarrow> \<forall>dirn \<in> productive d. \<exists>q \<in> {..<length (r_output_unit r)}.
          ru_outports_dirn2idx (r_routing_unit r) dirn = Some (int q))"

definition routable :: "garnet_config \<Rightarrow> router \<Rightarrow> RouteInfo \<Rightarrow> bool" where
  "routable C r route = (table_routes C r route \<and>
     (ri_dest_router route = int (r_id r) \<or>
      routing_algorithm_of (nc_routing_algorithm C) \<in> {TABLE, NUM_ROUTING_ALGORITHM} \<or>
      routing_algorithm_of (nc_routing_algorithm C) \<in> {XY, RANDOM, WestFirst} \<and> mesh_routes C r route))"

lemma routable_hops [simp]: "routable C r (route\<lparr>ri_hops_traversed := h\<rparr>) = routable C r route"
  by (simp add: routable_def table_routes_def mesh_routes_def)

lemma drain_frame_routable:
  assumes f: "drain_frame net net'" and i: "i < length (gn_routers net)" and R: "routable (gn_config net) (gn_routers net ! i) route"
  shows "routable (gn_config net') (gn_routers net' ! i) route"
proof -
  have C: "gn_config net' = gn_config net" using f by (simp add: drain_frame_def)
  let ?r = "gn_routers net ! i" and ?r' = "gn_routers net' ! i"
  have rest: "router_static ?r ?r'" by (rule drain_frame_router [OF f i])
  note sh = drain_frame_ports [OF f i]
  have tab: "table_ok (r_routing_unit ?r') d = table_ok (r_routing_unit ?r) d"
    "best_links (r_routing_unit ?r') d = best_links (r_routing_unit ?r) d" for d
    using rest by (simp_all add: router_static_def table_ok_def best_links_def leads_to_def)
  have id: "r_id ?r' = r_id ?r" using rest by (simp add: router_static_def)
  have m: "ru_outports_dirn2idx (r_routing_unit ?r) d = Some q \<Longrightarrow> ru_outports_dirn2idx (r_routing_unit ?r') d = Some q" for d q
    using rest by (force simp: router_static_def maps_le_def map_le_def)
  have "table_routes (gn_config net') ?r' route"
    using R sh(2,4) by (auto simp: routable_def table_routes_def tab id C Let_def vnet_ok_def out_shape_def)
  moreover have "mesh_routes (gn_config net') ?r' route" if "mesh_routes (gn_config net) ?r route"
    using that sh(2) by (auto simp: mesh_routes_def id C split: sum.splits dest!: m)
  ultimately show ?thesis using R by (auto simp: routable_def id C)
qed

lemma table_routes_lookup:
  assumes "table_routes C r route"
  shows "\<exists>p < length (r_output_unit r).
    lookupRoutingTable now (r_routing_unit r) (r_output_unit r) (ri_vnet route) (ri_net_dest route) = Inr (int p)"
proof -
  let ?ru = "r_routing_unit r" and ?dest = "ri_net_dest route" and ?outs = "r_output_unit r"
  have t: "table_ok ?ru ?dest" "best_links ?ru ?dest \<noteq> []" "0 \<le> ri_vnet route"
    and b: "\<forall>p \<in> set (best_links ?ru ?dest). p < length ?outs \<and> vnet_ok (?outs ! p) (nat (ri_vnet route))"
    using assms by (auto simp: table_routes_def Let_def)
  let ?f = "\<lambda>l. bnd (at ?outs (int l)) (\<lambda>u. if ri_vnet route < 0 then Inl OutOfRange else ou_getNumFreeVCs now (nat (ri_vnet route)) u)"
  have f: "\<forall>l \<in> set (best_links ?ru ?dest). \<exists>y. ?f l = Inr y" using b t(3) by (auto simp: ou_getNumFreeVCs_eq)
  from traverse_defined [OF f] obtain free where free: "traverse ?f (best_links ?ru ?dest) = Inr free" by blast
  from traverse_Inr [OF free] have len: "length free = length (best_links ?ru ?dest)"
    and at: "\<forall>i < length free. ?f (best_links ?ru ?dest ! i) = Inr (free ! i)" by auto
  have nonneg: "\<forall>c \<in> set free. 0 \<le> c"
  proof
    fix c assume "c \<in> set free"
    then obtain i where i: "i < length free" "c = free ! i" by (metis in_set_conv_nth)
    then have "best_links ?ru ?dest ! i \<in> set (best_links ?ru ?dest)" using len by simp
    then show "0 \<le> c" using at i b t(3) ou_getNumFreeVCs_nonneg by fastforce
  qed
  have "free \<noteq> []" using t(2) len by auto
  then have "\<not> (\<forall>c \<in> set free. c \<le> -1)" using nonneg by (cases free) auto
  with max_index_spec [OF nonneg, of 0 "-1" "-1"] \<open>free \<noteq> []\<close> obtain j where
    j: "j < length free" "max_index free 0 (-1) (-1) = int j" by auto
  then have "lookupRoutingTable now ?ru ?outs (ri_vnet route) ?dest = Inr (int (best_links ?ru ?dest ! j))"
    using t free len by (simp add: lookupRoutingTable_def pref_outport_eq)
  then show ?thesis using b j len by (metis nth_mem)
qed

lemma outport_of_dirn_known:
  assumes "rid < length (gn_routers net)" "ru_outports_dirn2idx (r_routing_unit (gn_routers net ! rid)) dirn = Some q"
  shows "outport_of_dirn net rid dirn = Inr (q, net)"
  using assms by (simp add: outport_of_dirn_def get_router_def map_index_def put_router_def)

lemma routable_outport:
  assumes rid: "rid < length (gn_routers net)" and R: "routable (gn_config net) (gn_routers net ! rid) route"
  shows "\<exists>p net'. outportCompute net rid route = Inr (int p, net') \<and> p < length (r_output_unit (gn_routers net ! rid))"
proof -
  let ?r = "gn_routers net ! rid" and ?C = "gn_config net"
  have tr: "table_routes ?C ?r route" using R by (simp add: routable_def)
  from table_routes_lookup [OF tr, of "gn_cycle net"] obtain p where
    p: "p < length (r_output_unit ?r)" "route_by_table net rid route = Inr (int p, net)"
    using rid by (auto simp: route_by_table_def get_router_def)
  have mesh: ?thesis if far: "ri_dest_router route \<noteq> int (r_id ?r)"
    and alg: "routing_algorithm_of (nc_routing_algorithm ?C) \<in> {XY, RANDOM, WestFirst}" and M: "mesh_routes ?C ?r route"
  proof -
    obtain d where d: "mesh_delta_of ?C (int (r_id ?r)) (ri_dest_router route) = Inr d"
      and ports: "\<And>dirn. dirn \<in> productive d \<Longrightarrow>
        \<exists>q < length (r_output_unit ?r). ru_outports_dirn2idx (r_routing_unit ?r) dirn = Some (int q)"
      using M by (auto simp: mesh_routes_def split: sum.splits)
    have da: "mesh_delta_at net rid route = Inr d" using d rid by (simp add: mesh_delta_at_def get_router_def)
    obtain xh yh xd yd where dd: "d = (xh, yh, xd, yd)" by (cases d) auto
    have look: "\<exists>q < length (r_output_unit ?r). outport_of_dirn (net\<lparr>gn_random := s\<rparr>) rid dirn = Inr (int q, net\<lparr>gn_random := s\<rparr>)"
      if "dirn \<in> productive d" for dirn s
      using ports [OF that] outport_of_dirn_known [of rid "net\<lparr>gn_random := s\<rparr>"] rid by auto
    note ok = mesh_delta_of_ok [OF d]
    have prod: "XY_dirn d \<in> productive d" "random_dirn b d \<in> productive d" "west_first_dirn b d \<in> productive d" for b
      using xy.pick_productive [OF ok] rndm.pick_productive [OF ok, where rnd = "\<lambda>_. b"]
        wf.pick_productive [OF ok, where rnd = "\<lambda>_. b"] by simp_all
    have "net\<lparr>gn_random := gn_random net\<rparr> = net" by simp
    note look0 = look [where s = "gn_random net", unfolded this]
    from alg consider "routing_algorithm_of (nc_routing_algorithm ?C) = XY" | "routing_algorithm_of (nc_routing_algorithm ?C) = RANDOM"
      | "routing_algorithm_of (nc_routing_algorithm ?C) = WestFirst" by auto
    then show ?thesis
    proof cases
      case 1
      then show ?thesis using look0 [OF prod(1)] far rid da
        by (auto simp: outportCompute_def get_router_def outportComputeXY_def)
    next
      case 2
      obtain b s where "outportComputeRandom net rid route = outport_of_dirn (net\<lparr>gn_random := s\<rparr>) rid (random_dirn b d)"
      proof (cases "xh = 0 \<or> yh = 0")
        case True
        then show ?thesis using that [of "gn_random net" False] da dd by (simp add: outportComputeRandom_def)
      next
        case False
        then show ?thesis using that da dd by (simp add: outportComputeRandom_def next_random_def Let_def)
      qed
      moreover obtain q where "q < length (r_output_unit ?r)"
        "outport_of_dirn (net\<lparr>gn_random := s\<rparr>) rid (random_dirn b d) = Inr (int q, net\<lparr>gn_random := s\<rparr>)"
        using look [OF prod(2)] by blast
      ultimately show ?thesis using 2 far rid by (auto simp: outportCompute_def get_router_def)
    next
      case 3
      have "outportComputeWestFirst net rid route = outport_of_dirn (net\<lparr>gn_random := \<lambda>n. gn_random net (Suc n)\<rparr>) rid
          (west_first_dirn (gn_random net 0 mod 2 \<noteq> 0) d)"
        using da by (simp add: outportComputeWestFirst_def next_random_def Let_def)
      moreover obtain q net1 where "q < length (r_output_unit ?r)"
        "outport_of_dirn (net\<lparr>gn_random := \<lambda>n. gn_random net (Suc n)\<rparr>) rid
          (west_first_dirn (gn_random net 0 mod 2 \<noteq> 0) d) = Inr (int q, net1)"
        using look [OF prod(3)] by blast
      ultimately show ?thesis using 3 far rid by (auto simp: outportCompute_def get_router_def)
    qed
  qed
  show ?thesis
  proof (cases "ri_dest_router route = int (r_id ?r) \<or> routing_algorithm_of (nc_routing_algorithm ?C) \<in> {TABLE, NUM_ROUTING_ALGORITHM}")
    case True
    then show ?thesis using p rid by (auto simp: outportCompute_def get_router_def)
  next
    case False
    then show ?thesis using R mesh by (auto simp: routable_def)
  qed
qed

end
