(* ===== verification/Drain_Total.thy ===== *)
theory Drain_Total
  imports Drain_Frame
begin

text \<open>
  When a drain cannot fail. \<open>drain_ready\<close> collects what the assertions of \<open>doSpin\<close> ask for: a closed ring whose
  ports have an upstream output port each, a packet or a credit in every channel of the ring, no packet of the
  drained channel outside the ring, and a route for every packet from every router of the ring. Under it
  \<open>doSpin\<close> returns, and \<open>drain_ready\<close> holds again afterwards: progress and preservation for the drain.
\<close>

section \<open>Readiness\<close>

text \<open>The output port that feeds the input port of router \<open>rid\<close> from direction \<open>dirn\<close>.\<close>

definition up_port :: "garnet_network \<Rightarrow> nat \<Rightarrow> port_direction \<Rightarrow> (nat \<times> nat) option" where
  "up_port net rid dirn =
     (case (get_upstreamrouter net dirn (int rid), get_upstreamOutportDirn dirn) of
        (Inr (Some k), Inr od) \<Rightarrow>
          (case ru_outports_dirn2idx (r_routing_unit (gn_routers net ! k)) od of
             Some p \<Rightarrow> if 0 \<le> p then Some (k, nat p) else None
           | None \<Rightarrow> None)
      | _ \<Rightarrow> None)"

definition ring_up :: "garnet_network \<Rightarrow> nat \<Rightarrow> nat \<times> nat" where
  "ring_up net i = the (up_port net (ring_rid net i) (ring_dir net i))"

text \<open>A position of the ring: its router, its input port and the output port that feeds it exist.\<close>

definition position_ok :: "nat \<Rightarrow> garnet_network \<Rightarrow> nat \<Rightarrow> bool" where
  "position_ok vc net i = (0 \<le> ss_router_id (gn_spinRing net ! i) \<and>
     (case ru_inports_dirn2idx (r_routing_unit (gn_routers net ! ring_rid net i)) (ring_dir net i) of
        None \<Rightarrow> False | Some q \<Rightarrow> 0 \<le> q) \<and>
     chan_ok net vc (ring_slot net i) \<and>
     iu_direction (gn_ins net ! fst (ring_slot net i) ! snd (ring_slot net i)) \<noteq> ''Local'' \<and>
     (case up_port net (ring_rid net i) (ring_dir net i) of None \<Rightarrow> False | Some s \<Rightarrow> ochan_ok net vc s))"

definition ports_ok :: "nat \<Rightarrow> garnet_network \<Rightarrow> bool" where
  "ports_ok vc net = (\<forall>i < length (gn_routers net). r_id (gn_routers net ! i) = i \<and>
     (\<forall>p < length (gn_ins net ! i). iu_id (gn_ins net ! i ! p) = p \<and>
        (iu_direction (gn_ins net ! i ! p) \<noteq> ''Local'' \<longrightarrow> vc < length (iu_vcs (gn_ins net ! i ! p)))))"

definition ring_static :: "nat \<Rightarrow> garnet_network \<Rightarrow> bool" where
  "ring_static vc net = (ring_wf net \<and> ports_ok vc net \<and> (\<forall>i < length (gn_spinRing net). position_ok vc net i) \<and>
     distinct (map (ring_up net) [0..<ring_len net]))"

text \<open>A packet that can be put back anywhere on the ring.\<close>

definition packet_ok :: "garnet_network \<Rightarrow> flit \<Rightarrow> bool" where
  "packet_ok net f = (fl_hops_needed_after_spin f = -1 \<and>
     (\<forall>j < ring_len net. routable (gn_config net) (gn_routers net ! ring_rid net j) (fl_route f)))"

text \<open>
  An empty channel of the ring is idle and has a credit upstream; a channel that holds a packet holds one, and
  upstream there is room for the credit it will return.
\<close>

definition slot_free :: "virtual_channel \<Rightarrow> out_vc_state \<Rightarrow> bool" where
  "slot_free v s = (vc_flits v = {#} \<and> fst (vc_state v) = IDLE \<and>
     0 < ovc_credit_count s \<and> ovc_credit_count s \<le> ovc_max_credit_count s)"

definition slot_held :: "garnet_network \<Rightarrow> virtual_channel \<Rightarrow> out_vc_state \<Rightarrow> bool" where
  "slot_held net v s = (size (vc_flits v) = 1 \<and> 0 \<le> ovc_credit_count s \<and> ovc_credit_count s < ovc_max_credit_count s \<and>
     (\<forall>f \<in># vc_flits v. fl_hops_needed_before_spin f = -1 \<and> packet_ok net f))"

abbreviation ring_chan :: "nat \<Rightarrow> garnet_network \<Rightarrow> garnet_network \<Rightarrow> nat \<Rightarrow> virtual_channel" where
  "ring_chan vc net net' i \<equiv> chan net' vc (ring_slot net i)"

abbreviation ring_ochan :: "nat \<Rightarrow> garnet_network \<Rightarrow> garnet_network \<Rightarrow> nat \<Rightarrow> out_vc_state" where
  "ring_ochan vc net net' i \<equiv> ochan net' vc (ring_up net i)"

definition occupied :: "nat \<Rightarrow> garnet_network \<Rightarrow> (nat \<times> nat) set" where
  "occupied vc net = {(i, p). i < length (gn_routers net) \<and> p < length (gn_ins net ! i) \<and>
     iu_direction (gn_ins net ! i ! p) \<noteq> ''Local'' \<and> vc_flits (chan net vc (i, p)) \<noteq> {#}}"

definition drain_ready :: "nat \<Rightarrow> garnet_network \<Rightarrow> bool" where
  "drain_ready vc net = (ring_static vc net \<and>
     (\<forall>i < ring_len net. slot_free (ring_chan vc net net i) (ring_ochan vc net net i) \<or>
        slot_held net (ring_chan vc net net i) (ring_ochan vc net net i)) \<and>
     occupied vc net \<subseteq> ring_slot net ` {..<ring_len net})"

section \<open>Readiness and the frame\<close>

lemma drain_frame_ring:
  assumes "drain_frame net net'" "i < length (gn_spinRing net)"
  shows "ss_router_id (gn_spinRing net' ! i) = ss_router_id (gn_spinRing net ! i)" and "ring_dir net' i = ring_dir net i"
proof -
  note l = drain_frame_lengths [OF assms(1)]
  have "ring_shape net' ! i = ring_shape net ! i" using assms(1) by (simp add: drain_frame_def)
  then show "ss_router_id (gn_spinRing net' ! i) = ss_router_id (gn_spinRing net ! i)" "ring_dir net' i = ring_dir net i"
    using assms(2) l by simp_all
qed

lemma drain_frame_maps:
  assumes "drain_frame net net'" "i < length (gn_routers net)"
  shows "ru_inports_dirn2idx (r_routing_unit (gn_routers net ! i)) d = Some q \<Longrightarrow>
      ru_inports_dirn2idx (r_routing_unit (gn_routers net' ! i)) d = Some q"
    and "ru_outports_dirn2idx (r_routing_unit (gn_routers net ! i)) d = Some q \<Longrightarrow>
      ru_outports_dirn2idx (r_routing_unit (gn_routers net' ! i)) d = Some q"
    and "r_id (gn_routers net' ! i) = r_id (gn_routers net ! i)"
proof -
  have "router_static (gn_routers net ! i) (gn_routers net' ! i)" by (rule drain_frame_router [OF assms])
  then show "ru_inports_dirn2idx (r_routing_unit (gn_routers net ! i)) d = Some q \<Longrightarrow>
      ru_inports_dirn2idx (r_routing_unit (gn_routers net' ! i)) d = Some q"
    "ru_outports_dirn2idx (r_routing_unit (gn_routers net ! i)) d = Some q \<Longrightarrow>
      ru_outports_dirn2idx (r_routing_unit (gn_routers net' ! i)) d = Some q"
    "r_id (gn_routers net' ! i) = r_id (gn_routers net ! i)"
    by (force simp: router_static_def maps_le_def map_le_def)+
qed

lemma up_port_Some:
  "up_port net rid dirn = Some (k, p) \<longleftrightarrow>
     (\<exists>od. get_upstreamrouter net dirn (int rid) = Inr (Some k) \<and> get_upstreamOutportDirn dirn = Inr od \<and>
        ru_outports_dirn2idx (r_routing_unit (gn_routers net ! k)) od = Some (int p))"
  by (auto simp: up_port_def split: sum.splits option.splits if_splits)

lemma drain_frame_up_port:
  assumes "drain_frame net net'" "up_port net rid dirn = Some s"
  shows "up_port net' rid dirn = Some s"
proof -
  obtain k p where s: "s = (k, p)" by force
  from assms(2) s obtain od where u: "get_upstreamrouter net dirn (int rid) = Inr (Some k)" "get_upstreamOutportDirn dirn = Inr od"
    "ru_outports_dirn2idx (r_routing_unit (gn_routers net ! k)) od = Some (int p)" by (auto simp: up_port_Some)
  have c: "gn_config net' = gn_config net" "length (gn_routers net') = length (gn_routers net)"
    using assms(1) drain_frame_lengths [OF assms(1)] by (simp_all add: drain_frame_def)
  have "k < length (gn_routers net)" using u(1) by (auto simp: get_upstreamrouter_def nat_less_iff split: if_splits)
  then show ?thesis using u c drain_frame_maps(2) [OF assms(1)] unfolding s
    by (auto simp: up_port_Some get_upstreamrouter_def)
qed

lemma position_frame:
  assumes f: "drain_frame net net'" and i: "i < length (gn_spinRing net)" and P: "position_ok vc net i"
  shows "ring_slot net' i = ring_slot net i" and "ring_up net' i = ring_up net i" and "position_ok vc net' i"
proof -
  note R = drain_frame_ring [OF f i]
  have rid: "ring_rid net i < length (gn_routers net)" using P by (auto simp: position_ok_def chan_ok_def ring_slot_def)
  obtain q where q: "ru_inports_dirn2idx (r_routing_unit (gn_routers net ! ring_rid net i)) (ring_dir net i) = Some q" "0 \<le> q"
    using P by (auto simp: position_ok_def split: option.splits)
  have q': "ru_inports_dirn2idx (r_routing_unit (gn_routers net' ! ring_rid net i)) (ring_dir net i) = Some q"
    using drain_frame_maps(1) [OF f rid] q(1) by blast
  show sl: "ring_slot net' i = ring_slot net i" using q q' R by (simp add: ring_slot_def map_index_def)
  obtain s where s: "up_port net (ring_rid net i) (ring_dir net i) = Some s" "ochan_ok net vc s"
    using P by (auto simp: position_ok_def split: option.splits)
  note s' = drain_frame_up_port [OF f s(1)]
  show "ring_up net' i = ring_up net i" using s s' R by (simp add: ring_up_def)
  obtain k p where kp: "ring_slot net i = (k, p)" by force
  have "k < length (gn_routers net)" "p < length (r_input_unit (gn_routers net ! k))"
    using P kp by (auto simp: position_ok_def chan_ok_def)
  then have "iu_direction (gn_ins net' ! k ! p) = iu_direction (gn_ins net ! k ! p)"
    using drain_frame_ports(3) [OF f] drain_frame_lengths [OF f] by (simp add: in_shape_def)
  then show "position_ok vc net' i"
    using P q q' s s' R kp sl drain_frame_chan_ok [OF f] by (simp add: position_ok_def)
qed

lemma ring_static_frame:
  assumes f: "drain_frame net net'" and S: "ring_static vc net"
  shows "ring_static vc net'"
proof -
  note l = drain_frame_lengths [OF f]
  have P: "position_ok vc net i" if "i < length (gn_spinRing net)" for i using S that by (simp add: ring_static_def)
  have wf: "ring_wf net" using S by (simp add: ring_static_def)
  have "map (ring_slot net') [0..<ring_len net] = map (ring_slot net) [0..<ring_len net]"
    using position_frame(1) [OF f _ P] by (intro map_cong) auto
  then have "distinct (map (ring_slot net') [0..<ring_len net])" using wf by (simp only: ring_wf_def)
  moreover have "ring_rid net' i < length (gn_routers net') \<and>
      ru_inports_dirn2idx (r_routing_unit (gn_routers net' ! ring_rid net' i)) (ring_dir net' i) \<noteq> None" if "i < length (gn_spinRing net)" for i
    using position_frame(3) [OF f that P [OF that]] by (auto simp: position_ok_def chan_ok_def ring_slot_def split: option.splits)
  moreover have "ring_shape net' ! ring_len net = ring_shape net' ! 0" using wf f by (simp add: ring_wf_def drain_frame_def)
  ultimately have "ring_wf net'" using wf l unfolding ring_wf_def by simp
  moreover have "ports_ok vc net'" using S drain_frame_ports [OF f] drain_frame_maps(3) [OF f]
    by (auto simp: ring_static_def ports_ok_def in_shape_def l)
  moreover have "map (ring_up net') [0..<ring_len net] = map (ring_up net) [0..<ring_len net]"
    using position_frame(2) [OF f _ P] by (intro map_cong) auto
  ultimately show ?thesis using S l position_frame(3) [OF f _ P] unfolding ring_static_def by metis
qed

lemma packet_ok_frame:
  assumes f: "drain_frame net net'" and S: "ring_static vc net" and P: "packet_ok net g"
  shows "packet_ok net' g"
proof -
  note l = drain_frame_lengths [OF f]
  have "routable (gn_config net') (gn_routers net' ! ring_rid net' j) (fl_route g)" if j: "j < ring_len net" for j
  proof -
    have jl: "j < length (gn_spinRing net)" using j by simp
    have "ring_rid net j < length (gn_routers net)" using S jl by (auto simp: ring_static_def ring_wf_def)
    then show ?thesis using drain_frame_routable [OF f] P j drain_frame_ring(1) [OF f jl] by (simp add: packet_ok_def)
  qed
  then show ?thesis using P l by (simp add: packet_ok_def)
qed

lemma slot_held_frame:
  "drain_frame net net' \<Longrightarrow> ring_static vc net \<Longrightarrow> slot_held net v s \<Longrightarrow> slot_held net' v s"
  using packet_ok_frame by (auto simp: slot_held_def)

section \<open>One iteration of each loop returns\<close>

lemma inport_index_known:
  assumes "0 \<le> i" "nat i < length (gn_routers net)" "ru_inports_dirn2idx (r_routing_unit (gn_routers net ! nat i)) dirn = Some q"
  shows "inport_index net i dirn = Inr (nat i, q, net)"
  using assms by (simp add: inport_index_def get_router_def at_def nat_less_iff map_index_def put_router_def)

lemma upstream_update_run:
  assumes up: "up_port net rid dirn = Some s" and ok: "ochan_ok net vc s"
    and f: "f (gn_outs net ! fst s ! snd s) = Inr ((gn_outs net ! fst s ! snd s)\<lparr>ou_outvc_state :=
      (ou_outvc_state (gn_outs net ! fst s ! snd s))[vc := v]\<rparr>)"
  shows "\<exists>net'. upstream_update dirn (int rid) f net = Inr net' \<and> gn_outs net' = outs_update vc s v (gn_outs net)"
proof -
  obtain k p where s: "s = (k, p)" by force
  from up s obtain od where u: "get_upstreamrouter net dirn (int rid) = Inr (Some k)" "get_upstreamOutportDirn dirn = Inr od"
    "ru_outports_dirn2idx (r_routing_unit (gn_routers net ! k)) od = Some (int p)" by (auto simp: up_port_Some)
  have k: "k < length (gn_routers net)" "p < length (r_output_unit (gn_routers net ! k))" using ok s by (auto simp: ochan_ok_def)
  have "od \<noteq> ''Local''" using u(2) by (auto simp: get_upstreamOutportDirn_def split: if_splits)
  then show ?thesis using u k f outport_of_dirn_known [OF k(1) u(3)] unfolding s
    by (auto simp: upstream_update_def Let_def outs_update_def put_router_def map_update)
qed

text \<open>The updates of \<open>doSpin\<close> that leave the output ports alone.\<close>

lemma at_nat: "0 \<le> i \<Longrightarrow> nat i < length xs \<Longrightarrow> at xs i = Inr (xs ! nat i)"
  by (simp add: at_def nat_less_iff)

lemma spin_fields [simp]:
  "gn_routers (gn_map_stats g net) = gn_routers net" "gn_spinRing (gn_map_stats g net) = gn_spinRing net"
  "gn_config (gn_map_stats g net) = gn_config net" "gn_routers (set_ring_flit i x net) = gn_routers net"
  "gn_config (set_ring_flit i x net) = gn_config net"
  "gn_spinRing (set_ring_flit i x net) = (gn_spinRing net)[i := (gn_spinRing net ! i)\<lparr>ss_flit := x\<rparr>]"
  "gn_spinRing (gn_put_input rid p u net) = gn_spinRing net" "gn_config (gn_put_input rid p u net) = gn_config net"
  by (simp_all add: gn_map_stats_def set_ring_flit_def gn_put_input_def put_router_def Let_def)

lemma up_port_cong:
  assumes "gn_config net' = gn_config net" "length (gn_routers net') = length (gn_routers net)"
    and "\<And>k. r_routing_unit (gn_routers net' ! k) = r_routing_unit (gn_routers net ! k)"
  shows "up_port net' = up_port net"
  using assms by (intro ext) (simp add: up_port_def get_upstreamrouter_def split: sum.split option.split)

lemma gn_put_input_ports:
  assumes "rid < length (gn_routers net)"
  shows "gn_outs (gn_put_input rid p u net) = gn_outs net" and "up_port (gn_put_input rid p u net) = up_port net"
proof -
  have r: "gn_routers (gn_put_input rid p u net) = (gn_routers net)[rid := (gn_routers net ! rid)\<lparr>r_input_unit := (r_input_unit (gn_routers net ! rid))[p := u]\<rparr>]"
    by (simp add: gn_put_input_def put_router_def Let_def)
  show "gn_outs (gn_put_input rid p u net) = gn_outs net"
    using assms by (simp add: r map_update list_update_same_conv)
  have "r_routing_unit (gn_routers (gn_put_input rid p u net) ! k) = r_routing_unit (gn_routers net ! k)" for k
    using assms by (cases "k = rid") (simp_all add: r)
  then show "up_port (gn_put_input rid p u net) = up_port net" by (intro up_port_cong) (simp_all add: r)
qed

lemma take_credit_run:
  assumes "vc < length (ou_outvc_state u)" "ovc_credit_count (ou_outvc_state u ! vc) < ovc_max_credit_count (ou_outvc_state u ! vc)"
  shows "bnd (ou_increment_credit (int vc) u) (ou_set_vc_state st (int vc) now) = Inr (u\<lparr>ou_outvc_state :=
    (ou_outvc_state u)[vc := ovc_setState st now ((ou_outvc_state u ! vc)\<lparr>ovc_credit_count := ovc_credit_count (ou_outvc_state u ! vc) + 1\<rparr>)]\<rparr>)"
  using assms by (simp add: ou_increment_credit_def ou_set_vc_state_def ou_modify_def ovc_increment_credit_def Let_def)

lemma give_credit_run:
  assumes "vc < length (ou_outvc_state u)" "0 < ovc_credit_count (ou_outvc_state u ! vc)"
  shows "bnd (ou_decrement_credit (int vc) u) (ou_set_vc_state st (int vc) now) = Inr (u\<lparr>ou_outvc_state :=
    (ou_outvc_state u)[vc := ovc_setState st now ((ou_outvc_state u ! vc)\<lparr>ovc_credit_count := ovc_credit_count (ou_outvc_state u ! vc) - 1\<rparr>)]\<rparr>)"
  using assms by (simp add: ou_decrement_credit_def ou_set_vc_state_def ou_modify_def ovc_decrement_credit_def Let_def)

text \<open>Both loops: an input port is replaced, then the credit and the state of the channel upstream.\<close>

lemma put_and_credit:
  assumes rid: "rid < length (gn_routers net)" and up: "up_port net rid dirn = Some s" and ok: "ochan_ok net vc s"
    and same: "gn_routers net0 = gn_routers net" "gn_config net0 = gn_config net"
    and f: "f (gn_outs net ! fst s ! snd s) = Inr ((gn_outs net ! fst s ! snd s)\<lparr>ou_outvc_state :=
      (ou_outvc_state (gn_outs net ! fst s ! snd s))[vc := v]\<rparr>)"
    and buf: "\<And>u u'. f u = Inr u' \<Longrightarrow> ou_out_buffer u' = ou_out_buffer u \<and> ou_wires u' = ou_wires u"
  obtains net' where "upstream_update dirn (int rid) f (gn_put_input rid q u net0) = Inr net'"
    "gn_outs net' = outs_update vc s v (gn_outs net)"
    "gn_ins net' = (gn_ins net)[rid := (gn_ins net ! rid)[q := u]]" "gn_spinRing net' = gn_spinRing net0"
proof -
  let ?net1 = "gn_put_input rid q u net0"
  have rid0: "rid < length (gn_routers net0)" using rid same by simp
  have o: "gn_outs ?net1 = gn_outs net" using gn_put_input_ports(1) [OF rid0] same by simp
  have p: "up_port ?net1 rid dirn = Some s" using gn_put_input_ports(2) [OF rid0] up_port_cong [of net0 net] same up by simp
  have "ochan_ok ?net1 vc s" using ok unfolding ochan_ok_def o .
  from upstream_update_run [OF p this, of f v] f obtain net' where
    u: "upstream_update dirn (int rid) f ?net1 = Inr net'" and outs: "gn_outs net' = outs_update vc s v (gn_outs net)"
    unfolding o by blast
  note uf = upstream_update_frame(2,3) [OF u buf]
  show thesis using that [OF u outs] uf gn_put_input_ins [OF rid0] same by simp
qed

lemma leads_forward_total:
  assumes "\<forall>p \<in> set ps. p < length (r_output_unit r) \<and>
    (case get_upstreamId C (ou_direction (r_output_unit r ! p)) (int (r_id r)) of Inl e \<Rightarrow> False | Inr n \<Rightarrow> n \<noteq> -1)"
  shows "\<exists>b. leads_forward C r next_id ps = Inr b"
  using assms by (induction ps) (auto split: sum.splits)

lemma vc_single:
  assumes "size (vc_flits v) = 1"
  obtains f v1 where "vc_getTopFlit v = Inr (f, v1)" "vc_peekTopFlit v = Inr f" "vc_flits v = {#f#}" "vc_flits v1 = {#}"
proof -
  have "flits_of (vc_input_buffer v) \<noteq> {#}" using assms by (auto simp: vc_flits_def)
  from fbuf.take_defined [OF this] obtain f b where "getTopFlit (vc_input_buffer v) = Inr (f, b)" by force
  then have g: "vc_getTopFlit v = Inr (f, v\<lparr>vc_input_buffer := b\<rparr>)" by (simp add: vc_getTopFlit_def)
  note F = vc_getTopFlit_flits [OF g]
  have "size (vc_flits v) = Suc (size (vc_flits (v\<lparr>vc_input_buffer := b\<rparr>)))" using F(1) by (metis size_add_mset)
  then have "vc_flits (v\<lparr>vc_input_buffer := b\<rparr>) = {#}" using assms by simp
  then show thesis using that [OF g F(2)] F(1) [symmetric] by simp
qed

lemma position_unfold:
  assumes "position_ok vc net i"
  obtains q s where "0 \<le> ss_router_id (gn_spinRing net ! i)" "ring_rid net i < length (gn_routers net)"
    "ru_inports_dirn2idx (r_routing_unit (gn_routers net ! ring_rid net i)) (ring_dir net i) = Some (int q)"
    "ring_slot net i = (ring_rid net i, q)" "q < length (r_input_unit (gn_routers net ! ring_rid net i))"
    "vc < length (iu_vcs (r_input_unit (gn_routers net ! ring_rid net i) ! q))"
    "ring_chan vc net net i = iu_vcs (r_input_unit (gn_routers net ! ring_rid net i) ! q) ! vc"
    "up_port net (ring_rid net i) (ring_dir net i) = Some (ring_up net i)" "ochan_ok net vc (ring_up net i)"
    "chan_ok net vc (ring_slot net i)"
proof -
  obtain q0 where q0: "ru_inports_dirn2idx (r_routing_unit (gn_routers net ! ring_rid net i)) (ring_dir net i) = Some q0" "0 \<le> q0"
    using assms by (auto simp: position_ok_def split: option.splits)
  then have sl: "ring_slot net i = (ring_rid net i, nat q0)" by (simp add: ring_slot_def map_index_def)
  moreover have "chan_ok net vc (ring_slot net i)" using assms by (simp add: position_ok_def)
  ultimately show thesis using assms q0 that [of "nat q0"]
    by (auto simp: position_ok_def chan_ok_def chan_def ring_up_def split: option.splits)
qed

lemma drain_frame_take:
  assumes "spin_take vc idx (net, k) = Inr (net', k')" "idx + 1 < length (gn_spinRing net)"
    and "in_shapes net' = in_shapes net" "out_shapes net' = out_shapes net"
  shows "drain_frame net net'"
  using spin_take_ring(1,2) [OF assms(1,2)] assms(3,4) by (intro drain_frameI)

lemma spin_take_empty:
  assumes P: "position_ok vc net idx" and len: "idx + 1 < length (gn_spinRing net)" and e: "vc_flits (ring_chan vc net net idx) = {#}"
  shows "\<exists>net'. spin_take vc idx (net, k) = Inr (net', k) \<and> gn_ins net' = gn_ins net \<and> gn_outs net' = gn_outs net \<and>
    gn_spinRing net' = (gn_spinRing net)[idx + 1 := (gn_spinRing net ! (idx + 1))\<lparr>ss_flit := None\<rparr>] \<and> drain_frame net net'"
proof -
  from P obtain q s where q: "0 \<le> ss_router_id (gn_spinRing net ! idx)" "ring_rid net idx < length (gn_routers net)"
    "ru_inports_dirn2idx (r_routing_unit (gn_routers net ! ring_rid net idx)) (ring_dir net idx) = Some (int q)"
    "q < length (r_input_unit (gn_routers net ! ring_rid net idx))"
    "vc < length (iu_vcs (r_input_unit (gn_routers net ! ring_rid net idx) ! q))"
    "ring_chan vc net net idx = iu_vcs (r_input_unit (gn_routers net ! ring_rid net idx) ! q) ! vc"
    by (rule position_unfold)
  let ?net' = "gn_map_stats (\<lambda>s. s\<lparr>st_bubble := st_bubble s + 1\<rparr>) (set_ring_flit (idx + 1) None net)"
  have st: "spin_take vc idx (net, k) = Inr (?net', k)"
    using q len e inport_index_known [OF q(1-3)]
    by (simp add: spin_take_def gn_input_def get_router_def at_nat iu_vc_isEmpty_def iu_read_def vc_isEmpty_iff)
  moreover have "gn_ins ?net' = gn_ins net" "gn_outs ?net' = gn_outs net"
    "gn_spinRing ?net' = (gn_spinRing net)[idx + 1 := (gn_spinRing net ! (idx + 1))\<lparr>ss_flit := None\<rparr>]"
    by (simp_all add: gn_map_stats_def set_ring_flit_def)
  ultimately show ?thesis using drain_frame_take [OF st len] by auto
qed

lemma spin_take_held:
  assumes P: "position_ok vc net idx" and len: "idx + 1 < length (gn_spinRing net)"
    and H: "slot_held net (ring_chan vc net net idx) (ring_ochan vc net net idx)" and id: "r_id (gn_routers net ! ring_rid net idx) = ring_rid net idx"
  shows "\<exists>net' f g v1. spin_take vc idx (net, k) = Inr (net', k + 1) \<and> vc_flits v1 = {#} \<and> packet_ok net g \<and>
    gn_ins net' = ins_update vc (ring_slot net idx) (vc_set_idle (gn_cycle net) v1) (gn_ins net) \<and>
    gn_outs net' = outs_update vc (ring_up net idx) (ovc_setState IDLE (gn_cycle net)
      ((ring_ochan vc net net idx)\<lparr>ovc_credit_count := ovc_credit_count (ring_ochan vc net net idx) + 1\<rparr>)) (gn_outs net) \<and>
    gn_spinRing net' = (gn_spinRing net)[idx + 1 := (gn_spinRing net ! (idx + 1))\<lparr>ss_flit := Some g\<rparr>] \<and> drain_frame net net'"
proof -
  from P obtain q where q: "0 \<le> ss_router_id (gn_spinRing net ! idx)" "ring_rid net idx < length (gn_routers net)"
    "ru_inports_dirn2idx (r_routing_unit (gn_routers net ! ring_rid net idx)) (ring_dir net idx) = Some (int q)"
    "ring_slot net idx = (ring_rid net idx, q)" "q < length (r_input_unit (gn_routers net ! ring_rid net idx))"
    "vc < length (iu_vcs (r_input_unit (gn_routers net ! ring_rid net idx) ! q))"
    "ring_chan vc net net idx = iu_vcs (r_input_unit (gn_routers net ! ring_rid net idx) ! q) ! vc"
    and u: "up_port net (ring_rid net idx) (ring_dir net idx) = Some (ring_up net idx)" "ochan_ok net vc (ring_up net idx)"
    and ck: "chan_ok net vc (ring_slot net idx)"
    by (rule position_unfold)
  let ?rid = "ring_rid net idx" and ?C = "gn_config net"
  let ?r = "gn_routers net ! ?rid"
  let ?u = "r_input_unit ?r ! q"
  let ?v = "iu_vcs ?u ! vc" and ?o = "ring_ochan vc net net idx"
  from H have single: "size (vc_flits ?v) = 1" and cr: "ovc_credit_count ?o < ovc_max_credit_count ?o"
    using q(7) by (simp_all add: slot_held_def)
  from single obtain f v1 where f: "vc_getTopFlit ?v = Inr (f, v1)" "vc_peekTopFlit ?v = Inr f" "vc_flits ?v = {#f#}" "vc_flits v1 = {#}"
    by (rule vc_single)
  have hops: "fl_hops_needed_before_spin f = -1" and pk: "packet_ok net f" using H f(3) q(7) by (simp_all add: slot_held_def)
  have "idx < ring_len net" using len by simp
  then have R: "table_routes ?C ?r (fl_route f)" using pk by (simp add: packet_ok_def routable_def)
  then have pref: "lookupRoutingTable_pref_outport (r_routing_unit ?r) (ri_net_dest (fl_route f)) = Inr (best_links (r_routing_unit ?r) (ri_net_dest (fl_route f)))"
    by (simp add: table_routes_def pref_outport_eq Let_def)
  have "\<forall>p \<in> set (best_links (r_routing_unit ?r) (ri_net_dest (fl_route f))). p < length (r_output_unit ?r) \<and>
      (case get_upstreamId ?C (ou_direction (r_output_unit ?r ! p)) (int (r_id ?r)) of Inl e \<Rightarrow> False | Inr n \<Rightarrow> n \<noteq> -1)"
    using R by (simp add: table_routes_def Let_def)
  from leads_forward_total [OF this] obtain fwd where fwd: "leads_forward ?C ?r (ss_router_id (gn_spinRing net ! (idx + 1)))
      (best_links (r_routing_unit ?r) (ri_net_dest (fl_route f))) = Inr fwd" by blast
  let ?g = "f\<lparr>fl_hops_needed_before_spin := compute_hops_remaining ?C (int (r_id ?r)) (ri_dest_router (fl_route f))\<rparr>"
  let ?u2 = "?u\<lparr>iu_vcs := (iu_vcs ?u)[vc := vc_set_idle (gn_cycle net) v1]\<rparr>"
  let ?st = "\<lambda>s. if fwd then s\<lparr>st_fwd_progress := st_fwd_progress s + 1\<rparr> else s\<lparr>st_misroute := st_misroute s + 1\<rparr>"
  let ?net0 = "set_ring_flit (idx + 1) (Some ?g) (gn_map_stats ?st net)"
  have "vc < length (ou_outvc_state (gn_outs net ! fst (ring_up net idx) ! snd (ring_up net idx)))"
    using u(2) by (simp only: ochan_ok_def)
  note crd = take_credit_run [OF this, of IDLE "gn_cycle net", folded ochan_def, OF cr]
  let ?cr = "\<lambda>ou. bnd (ou_increment_credit (int vc) ou) (ou_set_vc_state IDLE (int vc) (gn_cycle net))"
  have same: "gn_routers ?net0 = gn_routers net" "gn_config ?net0 = ?C" by simp_all
  obtain net' where up: "upstream_update (ring_dir net idx) (int ?rid) ?cr (gn_put_input ?rid q ?u2 ?net0) = Inr net'"
    and outs: "gn_outs net' = outs_update vc (ring_up net idx) (ovc_setState IDLE (gn_cycle net)
      (?o\<lparr>ovc_credit_count := ovc_credit_count ?o + 1\<rparr>)) (gn_outs net)"
    and ins0: "gn_ins net' = (gn_ins net)[?rid := (gn_ins net ! ?rid)[q := ?u2]]" and ring: "gn_spinRing net' = gn_spinRing ?net0"
    by (rule put_and_credit [OF q(2) u same, where f = ?cr and q = q and u = ?u2, OF crd credit_ops_buffer(1)])
  have "iu_getTopFlit ?u (int vc) = Inr (f, ?u\<lparr>iu_vcs := (iu_vcs ?u)[vc := v1]\<rparr>)"
    "iu_set_vc_idle (int vc) (gn_cycle net) (?u\<lparr>iu_vcs := (iu_vcs ?u)[vc := v1]\<rparr>) = Inr ?u2" "iu_peekTopFlit ?u (int vc) = Inr f"
    using q(6) f by (simp_all add: iu_getTopFlit_def iu_set_vc_idle_def iu_modify_def iu_peekTopFlit_def iu_read_def)
  then have "spin_take_flit vc idx ?rid q net = Inr net'"
    using pref fwd hops up id by (simp add: spin_take_flit_def Let_def)
  then have st: "spin_take vc idx (net, k) = Inr (net', k + 1)"
    using q len f(3) inport_index_known [OF q(1-3)]
    by (simp add: spin_take_def gn_input_def get_router_def at_nat iu_vc_isEmpty_def iu_read_def vc_isEmpty_iff)
  have ins: "gn_ins net' = ins_update vc (ring_slot net idx) (vc_set_idle (gn_cycle net) v1) (gn_ins net)"
    unfolding ins0 q(4) using q(2) by (simp add: ins_update_def)
  have "gn_spinRing net' = (gn_spinRing net)[idx + 1 := (gn_spinRing net ! (idx + 1))\<lparr>ss_flit := Some ?g\<rparr>]"
    unfolding ring by simp
  moreover have "drain_frame net net'"
    using drain_frame_take [OF st len] ins_update_shape [OF ck] outs_update_shape [OF u(2)] unfolding ins outs by simp
  moreover have "packet_ok net ?g" using pk by (simp add: packet_ok_def)
  ultimately show ?thesis using st ins outs f(4) by blast
qed

lemma route_frame_outs:
  assumes "route_frame net net'"
  shows "gn_outs net' = gn_outs net"
proof (rule nth_equalityI)
  show "length (gn_outs net') = length (gn_outs net)" using route_frame_routers(1) [OF assms] by simp
  fix i assume "i < length (gn_outs net')"
  then have i: "i < length (gn_routers net)" using route_frame_routers(1) [OF assms] by simp
  then show "gn_outs net' ! i = gn_outs net ! i"
    using forget_maps_fields(8) [OF route_frame_routers(2) [OF assms i]] route_frame_routers(1) [OF assms] by simp
qed

lemma route_frame_drain_frame: "route_frame net net' \<Longrightarrow> drain_frame net net'"
  using route_frame_spin_frame [of net net'] route_frame_ins [of net net'] route_frame_outs [of net net'] route_frame_net(5) [of net net']
  by (intro drain_frameI) simp_all

lemma spin_insert_run:
  assumes P: "position_ok vc net idx" and len: "idx < length (gn_spinRing net)" and t: "ss_flit (gn_spinRing net ! idx) = Some t"
    and pk: "packet_ok net t" and R: "routable (gn_config net) (gn_routers net ! ring_rid net idx) (fl_route t)"
    and F: "slot_free (ring_chan vc net net idx) (ring_ochan vc net net idx)"
    and id: "r_id (gn_routers net ! ring_rid net idx) = ring_rid net idx"
  shows "\<exists>net' f. spin_insert vc idx (net, k) = Inr (net', k - 1) \<and> fl_hops_needed_before_spin f = -1 \<and> packet_ok net f \<and>
    gn_ins net' = ins_update vc (ring_slot net idx) (vc_set_active (gn_cycle net) (vc_insertFlit f (ring_chan vc net net idx))) (gn_ins net) \<and>
    gn_outs net' = outs_update vc (ring_up net idx) (ovc_setState ACTIVE (gn_cycle net)
      ((ring_ochan vc net net idx)\<lparr>ovc_credit_count := ovc_credit_count (ring_ochan vc net net idx) - 1\<rparr>)) (gn_outs net) \<and>
    gn_spinRing net' = gn_spinRing net \<and> drain_frame net net'"
proof -
  from P obtain q where q: "0 \<le> ss_router_id (gn_spinRing net ! idx)" "ring_rid net idx < length (gn_routers net)"
    "ru_inports_dirn2idx (r_routing_unit (gn_routers net ! ring_rid net idx)) (ring_dir net idx) = Some (int q)"
    "ring_slot net idx = (ring_rid net idx, q)" "q < length (r_input_unit (gn_routers net ! ring_rid net idx))"
    "vc < length (iu_vcs (r_input_unit (gn_routers net ! ring_rid net idx) ! q))"
    "ring_chan vc net net idx = iu_vcs (r_input_unit (gn_routers net ! ring_rid net idx) ! q) ! vc"
    and u: "up_port net (ring_rid net idx) (ring_dir net idx) = Some (ring_up net idx)" "ochan_ok net vc (ring_up net idx)"
    and ck: "chan_ok net vc (ring_slot net idx)"
    by (rule position_unfold)
  let ?rid = "ring_rid net idx" and ?o = "ring_ochan vc net net idx"
  obtain op net1 where oc: "outportCompute net ?rid (fl_route t) = Inr (int op, net1)" and op: "op < length (r_output_unit (gn_routers net ! ?rid))"
    using routable_outport [OF q(2) R] by blast
  note rf = route_frame_outportCompute [OF oc]
  note n1 = route_frame_net [OF rf] forget_maps_fields [OF route_frame_routers(2) [OF rf q(2)]] route_frame_routers(1) [OF rf]
  let ?r = "gn_routers net1 ! ?rid"
  let ?u = "r_input_unit ?r ! q"
  have rid1: "?rid < length (gn_routers net1)" using q(2) n1 by simp
  have u1: "up_port net1 ?rid (ring_dir net idx) = Some (ring_up net idx)" "ochan_ok net1 vc (ring_up net idx)"
    using drain_frame_up_port drain_frame_chan_ok(2) route_frame_drain_frame [OF rf] u by simp_all
  let ?f = "spin_flit (int op) (ou_direction (r_output_unit ?r ! op)) t"
  let ?v = "vc_set_active (gn_cycle net1) (vc_insertFlit ?f (iu_vcs ?u ! vc))"
  let ?hops = "compute_hops_remaining (gn_config net1) (int (r_id ?r)) (ri_dest_router (fl_route ?f))"
  let ?net0 = "gn_map_stats (\<lambda>s. s\<lparr>st_total_misroute := st_total_misroute s +
    (if fl_hops_needed_before_spin t < ?hops then ?hops - fl_hops_needed_before_spin t else 0)\<rparr>) net1"
  let ?u2 = "?u\<lparr>iu_vcs := (iu_vcs ?u)[vc := ?v]\<rparr>"
  let ?cr = "\<lambda>ou. bnd (ou_decrement_credit (int vc) ou) (ou_set_vc_state ACTIVE (int vc) (gn_cycle net))"
  have o1: "gn_outs net1 = gn_outs net" by (rule route_frame_outs [OF rf])
  have "vc < length (ou_outvc_state (gn_outs net1 ! fst (ring_up net idx) ! snd (ring_up net idx)))"
    using u1(2) by (simp only: ochan_ok_def)
  moreover have "0 < ovc_credit_count (ou_outvc_state (gn_outs net1 ! fst (ring_up net idx) ! snd (ring_up net idx)) ! vc)"
    using F unfolding slot_free_def ochan_def o1 by blast
  ultimately have crd: "?cr (gn_outs net1 ! fst (ring_up net idx) ! snd (ring_up net idx)) =
      Inr ((gn_outs net1 ! fst (ring_up net idx) ! snd (ring_up net idx))\<lparr>ou_outvc_state :=
        (ou_outvc_state (gn_outs net1 ! fst (ring_up net idx) ! snd (ring_up net idx)))
          [vc := ovc_setState ACTIVE (gn_cycle net) (?o\<lparr>ovc_credit_count := ovc_credit_count ?o - 1\<rparr>)]\<rparr>)"
    unfolding ochan_def o1 by (rule give_credit_run)
  have same: "gn_routers ?net0 = gn_routers net1" "gn_config ?net0 = gn_config net1" by simp_all
  obtain net' where up: "upstream_update (ring_dir net idx) (int ?rid) ?cr (gn_put_input ?rid q ?u2 ?net0) = Inr net'"
    and outs: "gn_outs net' = outs_update vc (ring_up net idx) (ovc_setState ACTIVE (gn_cycle net)
      (?o\<lparr>ovc_credit_count := ovc_credit_count ?o - 1\<rparr>)) (gn_outs net1)"
    and ins0: "gn_ins net' = (gn_ins net1)[?rid := (gn_ins net1 ! ?rid)[q := ?u2]]" and ring: "gn_spinRing net' = gn_spinRing ?net0"
    by (rule put_and_credit [OF rid1 u1 same, where f = ?cr and q = q and u = ?u2, OF crd credit_ops_buffer(2)])
  have up': "upstream_update (ring_dir net idx) (int (r_id ?r)) ?cr (gn_put_input ?rid q ?u2 ?net0) = Inr net'"
    and op1: "op < length (r_output_unit ?r)" using up op unfolding n1(10,17) id by simp_all
  have ch: "iu_vcs ?u ! vc = ring_chan vc net net idx" "vc < length (iu_vcs ?u)" using q(6,7) n1 by simp_all
  have "fst (vc_state (iu_vcs ?u ! vc)) = IDLE" using F ch by (simp add: slot_free_def)
  moreover have "fl_hops_needed_after_spin t = -1" using pk by (simp add: packet_ok_def)
  ultimately have "spin_insert_flit vc (ring_dir net idx) ?rid q t net = Inr net'"
    using oc op1 ch(2) up' by (simp add: spin_insert_flit_def Let_def n1(7) cong: if_cong split del: if_split)
  then have si: "spin_insert vc idx (net, k) = Inr (net', k - 1)"
    using t len q inport_index_known [OF q(1-3)] by (simp add: spin_insert_def)
  have ins: "gn_ins net' = ins_update vc (ring_slot net idx) (vc_set_active (gn_cycle net) (vc_insertFlit ?f (ring_chan vc net net idx))) (gn_ins net)"
    unfolding ins0 ch(1) [symmetric] q(4) route_frame_ins [OF rf] using q(2) by (simp add: ins_update_def n1(7,16) chan_def)
  have "gn_spinRing net' = gn_spinRing net" using ring n1 by simp
  moreover have "drain_frame net net'"
    using spin_insert_tags(2,3) [OF si] ins_update_shape [OF ck] outs_update_shape [OF u(2)]
    by (intro drain_frameI) (simp_all only: ins outs o1)
  moreover have "packet_ok net ?f" using pk by (simp add: packet_ok_def spin_flit_def flit_setters)
  moreover have "fl_hops_needed_before_spin ?f = -1" by simp
  ultimately show ?thesis using si ins outs unfolding o1 by blast
qed

end
