(* ===== verification/Drain_Progress.thy ===== *)
theory Drain_Progress
  imports Drain_Total
begin

text \<open>
  A drain of a ready network returns, and the network is ready again: the two loops of \<open>doSpin\<close> with the state
  of every position of the ring as their invariant, and the two counts of packets that \<open>doSpin\<close> compares.
\<close>

section \<open>Counting\<close>

lemma foldM_add:
  assumes "\<And>x n. x \<in> set xs \<Longrightarrow> f x n = Inr (n + g x)"
  shows "foldM f xs n = Inr (n + sum_list (map g xs))"
  using assms by (induction xs arbitrary: n) (auto simp: add.assoc)

lemma sum_list_card:
  "(\<Sum>p \<leftarrow> [0..<m]. if P p then 1 else 0) = card {p. p < m \<and> P p}"
proof (induction m)
  case (Suc m)
  have "{p. p < Suc m \<and> P p} = (if P m then insert m {p. p < m \<and> P p} else {p. p < m \<and> P p})" by (auto simp: less_Suc_eq)
  then show ?case using Suc by simp
qed simp

lemma card_less_Suc:
  "card {i. i < Suc b \<and> P i} = card {i. i < b \<and> P i} + (if P b then 1 else 0)"
  unfolding sum_list_card [symmetric] by simp

lemma count_spun_inports:
  assumes "\<And>p. p < length us \<Longrightarrow> iu_id (us ! p) = p \<and> (iu_direction (us ! p) \<noteq> ''Local'' \<longrightarrow> vc < length (iu_vcs (us ! p)))"
  shows "foldM (\<lambda>inport n. count_spun_inport vc (us ! inport) inport n) [0..<length us] n =
    Inr (n + card {p. p < length us \<and> iu_direction (us ! p) \<noteq> ''Local'' \<and> vc_flits (iu_vcs (us ! p) ! vc) \<noteq> {#}})"
proof -
  let ?P = "\<lambda>p. iu_direction (us ! p) \<noteq> ''Local'' \<and> vc_flits (iu_vcs (us ! p) ! vc) \<noteq> {#}"
  have "foldM (\<lambda>inport n. count_spun_inport vc (us ! inport) inport n) [0..<length us] n =
      Inr (n + (\<Sum>p \<leftarrow> [0..<length us]. if ?P p then 1 else 0))"
    using assms by (intro foldM_add)
      (auto simp: count_spun_inport_def iu_vc_isEmpty_def iu_read_def vc_isEmpty_iff)
  then show ?thesis by (simp only: sum_list_card)
qed

lemma count_spun_occupied:
  assumes "ports_ok vc net"
  shows "count_spun vc (gn_routers net) = Inr (card (occupied vc net))"
proof -
  let ?us = "\<lambda>i. r_input_unit (gn_routers net ! i)"
  let ?A = "\<lambda>us. {p. p < length us \<and> iu_direction (us ! p) \<noteq> ''Local'' \<and> vc_flits (iu_vcs (us ! p) ! vc) \<noteq> {#}}"
  have "foldM (\<lambda>inport n. count_spun_inport vc (r_input_unit r ! inport) inport n) [0..<length (r_input_unit r)] n =
      Inr (n + card (?A (r_input_unit r)))" if "r \<in> set (gn_routers net)" for r n
    using assms that by (intro count_spun_inports) (fastforce simp: ports_ok_def in_set_conv_nth)
  then have "count_spun vc (gn_routers net) = Inr (0 + sum_list (map (\<lambda>r. card (?A (r_input_unit r))) (gn_routers net)))"
    unfolding count_spun_def by (rule foldM_add)
  also have "sum_list (map (\<lambda>r. card (?A (r_input_unit r))) (gn_routers net)) = (\<Sum>i < length (gn_routers net). card (?A (?us i)))"
    by (simp add: sum_list_sum_nth atLeast0LessThan)
  also have "\<dots> = card (SIGMA i:{..<length (gn_routers net)}. ?A (?us i))" by (simp add: card_SigmaI)
  also have "(SIGMA i:{..<length (gn_routers net)}. ?A (?us i)) = occupied vc net"
    by (auto simp: occupied_def chan_def)
  finally show ?thesis by simp
qed

section \<open>Positions\<close>

lemma ring_static_positions:
  assumes "ring_static vc net"
  shows "i < length (gn_spinRing net) \<Longrightarrow> position_ok vc net i"
    and "i < length (gn_spinRing net) \<Longrightarrow> ring_rid net i < length (gn_routers net)"
    and "i < length (gn_spinRing net) \<Longrightarrow> r_id (gn_routers net ! ring_rid net i) = ring_rid net i"
    and "ring_wf net" and "0 < ring_len net"
  using assms by (auto simp: ring_static_def ring_wf_def ports_ok_def)

lemma ring_up_inj:
  assumes "ring_static vc net" "i < ring_len net" "j < ring_len net" "ring_up net i = ring_up net j"
  shows "i = j"
proof -
  have "distinct (map (ring_up net) [0..<ring_len net])" using assms(1) by (simp add: ring_static_def)
  then show ?thesis using assms(2-4) by (auto simp: distinct_conv_nth)
qed

lemma ring_closed:
  assumes "ring_wf net"
  shows "ring_rid net (ring_len net) = ring_rid net 0" and "ring_up net (ring_len net) = ring_up net 0"
proof -
  have "ring_shape net ! ring_len net = ring_shape net ! 0" using assms by (simp add: ring_wf_def)
  moreover have "ring_len net < length (gn_spinRing net)" "0 < length (gn_spinRing net)" using assms by (auto simp: ring_wf_def)
  ultimately have e: "ss_router_id (gn_spinRing net ! ring_len net) = ss_router_id (gn_spinRing net ! 0)"
    "ring_dir net (ring_len net) = ring_dir net 0" by simp_all
  then show "ring_rid net (ring_len net) = ring_rid net 0" "ring_up net (ring_len net) = ring_up net 0" by (simp_all add: ring_up_def)
qed

text \<open>The positions \<open>1, ..., n\<close> of the second loop are the positions \<open>0, ..., n - 1\<close> of the first.\<close>

definition ring_pos :: "garnet_network \<Rightarrow> nat \<Rightarrow> nat" where
  "ring_pos net i = (if i = ring_len net then 0 else i)"

lemma ring_pos:
  assumes "ring_wf net" "i \<le> ring_len net"
  shows "ring_pos net i < ring_len net" "ring_slot net i = ring_slot net (ring_pos net i)" "ring_up net i = ring_up net (ring_pos net i)"
    "ring_rid net i = ring_rid net (ring_pos net i)"
  using assms ring_slot_closed [OF assms(1)] ring_closed [OF assms(1)] by (auto simp: ring_pos_def ring_wf_def)

lemma ring_pos_inj: "1 \<le> i \<Longrightarrow> 1 \<le> j \<Longrightarrow> ring_pos net i = ring_pos net j \<Longrightarrow> i = j"
  by (auto simp: ring_pos_def split: if_splits)

lemma ring_slots_distinct:
  assumes S: "ring_static vc net" and i: "i < ring_len net" and j: "j < ring_len net" "i \<noteq> j"
  shows "ring_slot net i \<noteq> ring_slot net j" and "ring_up net i \<noteq> ring_up net j"
  using ring_slot_inj [OF ring_static_positions(4) [OF S] i j(1)] ring_up_inj [OF S i j(1)] j(2) by auto

section \<open>The first loop\<close>

definition taken :: "nat \<Rightarrow> garnet_network \<Rightarrow> nat \<Rightarrow> garnet_network \<Rightarrow> nat \<Rightarrow> bool" where
  "taken vc net b net' k = (drain_frame net net' \<and>
     (\<forall>i < ring_len net. if i < b then slot_free (ring_chan vc net net' i) (ring_ochan vc net net' i)
        else ring_chan vc net net' i = ring_chan vc net net i \<and> ring_ochan vc net net' i = ring_ochan vc net net i) \<and>
     (\<forall>i < b. case ss_flit (gn_spinRing net' ! Suc i) of
        None \<Rightarrow> vc_flits (ring_chan vc net net i) = {#}
      | Some g \<Rightarrow> vc_flits (ring_chan vc net net i) \<noteq> {#} \<and> packet_ok net' g) \<and>
     k = card {i. i < b \<and> vc_flits (ring_chan vc net net i) \<noteq> {#}})"

lemma chan_cong: "gn_ins net' = gn_ins net \<Longrightarrow> chan net' = chan net"
  by (simp add: chan_def fun_eq_iff)

lemma ochan_cong: "gn_outs net' = gn_outs net \<Longrightarrow> ochan net' = ochan net"
  by (simp add: ochan_def fun_eq_iff)

lemma taken_step:
  assumes R: "drain_ready vc net" and T: "taken vc net b net1 k" and b: "b < ring_len net"
  shows "\<exists>net' k'. spin_take vc b (net1, k) = Inr (net', k') \<and> taken vc net (Suc b) net' k'"
proof -
  have S: "ring_static vc net" and f1: "drain_frame net net1" using R T by (simp_all add: drain_ready_def taken_def)
  have S1: "ring_static vc net1" by (rule ring_static_frame [OF f1 S])
  have bl: "b < length (gn_spinRing net)" "b + 1 < length (gn_spinRing net1)" using b drain_frame_lengths [OF f1] by simp_all
  note P = ring_static_positions(1) [OF S bl(1)]
  note P1 = position_frame [OF f1 bl(1) P]
  have same: "ring_chan vc net net1 b = ring_chan vc net net b" "ring_ochan vc net net1 b = ring_ochan vc net net b"
    using T b by (simp_all add: taken_def)
  have ck: "chan_ok net1 vc (ring_slot net b)" "ochan_ok net1 vc (ring_up net b)"
    using P1(3) unfolding P1(1,2) [symmetric] by (elim position_unfold; simp)+
  have others: "i < ring_len net \<Longrightarrow> i \<noteq> b \<Longrightarrow> ring_slot net i \<noteq> ring_slot net b \<and> ring_up net i \<noteq> ring_up net b" for i
    using ring_slots_distinct [OF S _ b] by blast
  have flits: "\<forall>i < b. case ss_flit (gn_spinRing net1 ! Suc i) of None \<Rightarrow> vc_flits (ring_chan vc net net i) = {#}
      | Some g \<Rightarrow> vc_flits (ring_chan vc net net i) \<noteq> {#} \<and> packet_ok net' g" if "drain_frame net1 net'" for net'
    using T packet_ok_frame [OF that S1] by (fastforce simp: taken_def split: option.splits)
  show ?thesis
  proof (cases "vc_flits (ring_chan vc net net b) = {#}")
    case True
    then have "slot_free (ring_chan vc net net b) (ring_ochan vc net net b)" using R b by (auto simp: drain_ready_def slot_held_def)
    moreover from spin_take_empty [OF P1(3) bl(2), of k] True same P1(1) obtain net' where
      n: "spin_take vc b (net1, k) = Inr (net', k)" "gn_ins net' = gn_ins net1" "gn_outs net' = gn_outs net1"
      "gn_spinRing net' = (gn_spinRing net1)[b + 1 := (gn_spinRing net1 ! (b + 1))\<lparr>ss_flit := None\<rparr>]" "drain_frame net1 net'"
      by auto
    ultimately have "taken vc net (Suc b) net' k"
      using T True same drain_frame_trans [OF f1 n(5)] bl(2) flits [OF n(5)]
      unfolding taken_def card_less_Suc chan_cong [OF n(2)] ochan_cong [OF n(3)] n(4) by (auto simp: less_Suc_eq split: if_splits)
    then show ?thesis using n(1) by blast
  next
    case False
    then have "slot_held net (ring_chan vc net net b) (ring_ochan vc net net b)" using R b by (auto simp: drain_ready_def slot_free_def)
    then have H: "slot_held net1 (ring_chan vc net1 net1 b) (ring_ochan vc net1 net1 b)"
      and cr: "0 \<le> ovc_credit_count (ring_ochan vc net net1 b)" "ovc_credit_count (ring_ochan vc net net1 b) < ovc_max_credit_count (ring_ochan vc net net1 b)"
      using slot_held_frame [OF f1 S] same P1(1,2) by (simp_all add: slot_held_def)
    from spin_take_held [OF P1(3) bl(2) H ring_static_positions(3) [OF S1], of k] bl(2) obtain net' g v1 where
      n: "spin_take vc b (net1, k) = Inr (net', k + 1)" "vc_flits v1 = {#}" "packet_ok net1 g"
      "gn_ins net' = ins_update vc (ring_slot net b) (vc_set_idle (gn_cycle net1) v1) (gn_ins net1)"
      "gn_outs net' = outs_update vc (ring_up net b) (ovc_setState IDLE (gn_cycle net1)
         ((ring_ochan vc net net1 b)\<lparr>ovc_credit_count := ovc_credit_count (ring_ochan vc net net1 b) + 1\<rparr>)) (gn_outs net1)"
      "gn_spinRing net' = (gn_spinRing net1)[b + 1 := (gn_spinRing net1 ! (b + 1))\<lparr>ss_flit := Some g\<rparr>]" "drain_frame net1 net'"
      unfolding P1(1,2) by auto
    note C = chan_ins_update(1) [OF n(4) ck(1)] ochan_outs_update [OF n(5) ck(2)]
    have free: "slot_free (ring_chan vc net net' b) (ring_ochan vc net net' b)"
      using n(2) cr by (simp add: C slot_free_def vc_set_idle_def vc_flits_def ovc_setState_def)
    have rest: "ring_chan vc net net' i = ring_chan vc net net1 i" "ring_ochan vc net net' i = ring_ochan vc net net1 i"
      if "i < ring_len net" "i \<noteq> b" for i using others [OF that] by (simp_all add: C)
    have "taken vc net (Suc b) net' (k + 1)"
      using T False free rest drain_frame_trans [OF f1 n(7)] bl(2) b flits [OF n(7)] packet_ok_frame [OF n(7) S1 n(3)]
      unfolding taken_def card_less_Suc n(6) by (auto simp: less_Suc_eq split: if_splits)
    then show ?thesis using n(1) by blast
  qed
qed

lemma take_loop_returns:
  assumes R: "drain_ready vc net" and b: "b \<le> ring_len net"
  shows "\<exists>net' k. foldM (spin_take vc) [0..<b] (net, 0) = Inr (net', k) \<and> taken vc net b net' k"
  using b
proof (induction b)
  case 0
  show ?case by (simp add: taken_def)
next
  case (Suc b)
  then obtain net1 k where "foldM (spin_take vc) [0..<b] (net, 0) = Inr (net1, k)" "taken vc net b net1 k" by auto
  then show ?case using taken_step [OF R _, of b net1 k] Suc.prems by (auto simp: foldM_append)
qed

section \<open>The second loop\<close>

definition filled :: "garnet_network \<Rightarrow> nat \<Rightarrow> nat set" where
  "filled net b = {i. i < b \<and> 1 \<le> i \<and> ss_flit (gn_spinRing net ! i) \<noteq> None}"

text \<open>The state after the first loop: all positions are free, and the ring holds packets that can be put back.\<close>

definition all_taken :: "nat \<Rightarrow> garnet_network \<Rightarrow> bool" where
  "all_taken vc net = (ring_static vc net \<and> (\<forall>i < ring_len net. slot_free (ring_chan vc net net i) (ring_ochan vc net net i)) \<and>
     (\<forall>i \<in> filled net (length (gn_spinRing net)). packet_ok net (the (ss_flit (gn_spinRing net ! i)))))"

definition inserted :: "nat \<Rightarrow> garnet_network \<Rightarrow> int \<Rightarrow> nat \<Rightarrow> garnet_network \<Rightarrow> int \<Rightarrow> bool" where
  "inserted vc net k0 b net' k = (drain_frame net net' \<and> gn_spinRing net' = gn_spinRing net \<and>
     (\<forall>i. 1 \<le> i \<and> i \<le> ring_len net \<longrightarrow>
        (if i \<in> filled net b then slot_held net' (ring_chan vc net net' i) (ring_ochan vc net net' i)
         else slot_free (ring_chan vc net net' i) (ring_ochan vc net net' i))) \<and>
     k = k0 - int (card (filled net b)))"

lemma filled_Suc:
  "filled net (Suc b) = (if 1 \<le> b \<and> ss_flit (gn_spinRing net ! b) \<noteq> None then insert b (filled net b) else filled net b)"
  "finite (filled net b)" "b \<notin> filled net b"
  by (auto simp: filled_def less_Suc_eq)

lemma inserted_step:
  assumes A: "all_taken vc net" and I: "inserted vc net k0 b net1 k" and b: "1 \<le> b" "b \<le> ring_len net"
  shows "\<exists>net' k'. spin_insert vc b (net1, k) = Inr (net', k') \<and> inserted vc net k0 (Suc b) net' k'"
proof (cases "ss_flit (gn_spinRing net ! b)")
  case None
  have ring: "gn_spinRing net1 = gn_spinRing net" using I by (simp add: inserted_def)
  then have "spin_insert vc b (net1, k) = Inr (net1, k)" using None b by (simp add: spin_insert_def)
  moreover have "inserted vc net k0 (Suc b) net1 k" using I None by (simp add: inserted_def filled_Suc)
  ultimately show ?thesis by blast
next
  case (Some t)
  have S: "ring_static vc net" and f1: "drain_frame net net1" and ring: "gn_spinRing net1 = gn_spinRing net"
    using A I by (simp_all add: all_taken_def inserted_def)
  note S1 = ring_static_frame [OF f1 S] and wf = ring_static_positions(4) [OF S]
  have bl: "b < length (gn_spinRing net)" "b < length (gn_spinRing net1)" using b ring by simp_all
  note P1 = position_frame [OF f1 bl(1) ring_static_positions(1) [OF S bl(1)]]
  have ck: "chan_ok net1 vc (ring_slot net b)" "ochan_ok net1 vc (ring_up net b)"
    using P1(3) unfolding P1(1,2) [symmetric] by (elim position_unfold; simp)+
  have nb: "b \<in> filled net (length (gn_spinRing net))" "b \<notin> filled net b" using Some b bl by (auto simp: filled_def)
  have pk: "packet_ok net1 t" using A nb(1) Some packet_ok_frame [OF f1 S] by (auto simp: all_taken_def)
  have F: "slot_free (ring_chan vc net net1 b) (ring_ochan vc net net1 b)" using I b nb(2) by (simp add: inserted_def)
  have "ring_pos net b < ring_len net1" "ring_rid net1 b = ring_rid net1 (ring_pos net b)"
    using ring_pos(1,4) [OF wf b(2)] ring by simp_all
  then have R: "routable (gn_config net1) (gn_routers net1 ! ring_rid net1 b) (fl_route t)" using pk by (simp add: packet_ok_def)
  from spin_insert_run [OF P1(3) bl(2) _ pk R _ ring_static_positions(3) [OF S1 bl(2)], of k] Some ring F P1(1,2) obtain net' f where
    n: "spin_insert vc b (net1, k) = Inr (net', k - 1)" "fl_hops_needed_before_spin f = -1" "packet_ok net1 f"
    "gn_ins net' = ins_update vc (ring_slot net b) (vc_set_active (gn_cycle net1) (vc_insertFlit f (ring_chan vc net net1 b))) (gn_ins net1)"
    "gn_outs net' = outs_update vc (ring_up net b) (ovc_setState ACTIVE (gn_cycle net1)
       ((ring_ochan vc net net1 b)\<lparr>ovc_credit_count := ovc_credit_count (ring_ochan vc net net1 b) - 1\<rparr>)) (gn_outs net1)"
    "gn_spinRing net' = gn_spinRing net1" "drain_frame net1 net'" by auto
  note C = chan_ins_update(1) [OF n(4) ck(1)] ochan_outs_update [OF n(5) ck(2)]
  have held: "slot_held net' (ring_chan vc net net' b) (ring_ochan vc net net' b)"
    using F n(2) packet_ok_frame [OF n(7) S1 n(3)] by (simp add: C slot_held_def slot_free_def ovc_setState_def)
  have rest: "ring_chan vc net net' i = ring_chan vc net net1 i" "ring_ochan vc net net' i = ring_ochan vc net net1 i"
    if "1 \<le> i" "i \<le> ring_len net" "i \<noteq> b" for i
  proof -
    have "ring_pos net i \<noteq> ring_pos net b" using ring_pos_inj [OF that(1) b(1)] that(3) by blast
    then have "ring_slot net i \<noteq> ring_slot net b" "ring_up net i \<noteq> ring_up net b"
      using ring_slots_distinct [OF S ring_pos(1) [OF wf that(2)] ring_pos(1) [OF wf b(2)]]
      unfolding ring_pos(2,3) [OF wf that(2)] ring_pos(2,3) [OF wf b(2)] by blast+
    then show "ring_chan vc net net' i = ring_chan vc net net1 i" "ring_ochan vc net net' i = ring_ochan vc net net1 i"
      by (simp_all add: C)
  qed
  have "if i \<in> filled net (Suc b) then slot_held net' (ring_chan vc net net' i) (ring_ochan vc net net' i)
      else slot_free (ring_chan vc net net' i) (ring_ochan vc net net' i)" if i: "1 \<le> i" "i \<le> ring_len net" for i
  proof (cases "i = b")
    case True
    then show ?thesis using held Some b by (simp add: filled_Suc)
  next
    case False
    then show ?thesis using I i rest [OF i False] slot_held_frame [OF n(7) S1] Some b by (auto simp: filled_Suc inserted_def)
  qed
  then have "inserted vc net k0 (Suc b) net' (k - 1)"
    using I Some b n(6) ring drain_frame_trans [OF f1 n(7)] by (simp add: inserted_def filled_Suc)
  then show ?thesis using n(1) by blast
qed

lemma insert_loop_returns:
  assumes A: "all_taken vc net" and b: "1 \<le> b" "b \<le> length (gn_spinRing net)"
  shows "\<exists>net' k. foldM (spin_insert vc) [1..<b] (net, k0) = Inr (net', k) \<and> inserted vc net k0 b net' k"
  using b
proof (induction b)
  case (Suc b)
  show ?case
  proof (cases "b = 0")
    case True
    have "filled net (Suc 0) = {}" by (auto simp: filled_def)
    moreover have "slot_free (ring_chan vc net net i) (ring_ochan vc net net i)" if "i \<le> ring_len net" for i
      using A ring_pos [OF ring_static_positions(4) that] by (auto simp: all_taken_def)
    ultimately show ?thesis using True by (simp add: inserted_def)
  next
    case False
    then obtain net1 k where "foldM (spin_insert vc) [1..<b] (net, k0) = Inr (net1, k)" "inserted vc net k0 b net1 k"
      using Suc by auto
    moreover have "1 \<le> b" "b \<le> ring_len net" using Suc.prems False by linarith+
    moreover from inserted_step [OF A calculation(2) this] obtain net' k' where
      "spin_insert vc b (net1, k) = Inr (net', k')" "inserted vc net k0 (Suc b) net' k'" by blast
    ultimately show ?thesis using False by (auto simp: foldM_append)
  qed
qed simp

section \<open>Progress and preservation\<close>

lemma occupied_ring:
  assumes "drain_ready vc net"
  shows "occupied vc net = ring_slot net ` {i. i < ring_len net \<and> vc_flits (ring_chan vc net net i) \<noteq> {#}}"
    and "card (occupied vc net) = card {i. i < ring_len net \<and> vc_flits (ring_chan vc net net i) \<noteq> {#}}"
proof -
  have S: "ring_static vc net" and cover: "occupied vc net \<subseteq> ring_slot net ` {..<ring_len net}"
    using assms by (simp_all add: drain_ready_def)
  have "ring_slot net i \<in> occupied vc net" if "i < ring_len net" "vc_flits (ring_chan vc net net i) \<noteq> {#}" for i
  proof -
    have "position_ok vc net i" using ring_static_positions(1) [OF S] that(1) by simp
    then show ?thesis using that(2) by (cases "ring_slot net i") (auto simp: occupied_def position_ok_def chan_ok_def)
  qed
  moreover have occ: "vc_flits (chan net vc s) \<noteq> {#}" if "s \<in> occupied vc net" for s using that by (auto simp: occupied_def)
  ultimately show e: "occupied vc net = ring_slot net ` {i. i < ring_len net \<and> vc_flits (ring_chan vc net net i) \<noteq> {#}}"
    using cover occ by blast
  have "inj_on (ring_slot net) {i. i < ring_len net \<and> vc_flits (ring_chan vc net net i) \<noteq> {#}}"
    using ring_slot_inj [OF ring_static_positions(4) [OF S]] by (auto simp: inj_on_def)
  then show "card (occupied vc net) = card {i. i < ring_len net \<and> vc_flits (ring_chan vc net net i) \<noteq> {#}}"
    unfolding e by (rule card_image)
qed

lemma drain_ready_single: "drain_ready vc net \<Longrightarrow> ring_wf net \<and> single_packets vc net"
  by (auto simp: drain_ready_def ring_static_def single_packets_def slot_free_def slot_held_def)

text \<open>A network stays ready for a channel if the frame and that channel of all ports stay as they are.\<close>

lemma drain_ready_frame:
  assumes f: "drain_frame net net'" and c: "\<And>s. chan net' vc s = chan net vc s" "\<And>s. ochan net' vc s = ochan net vc s"
    and R: "drain_ready vc net"
  shows "drain_ready vc net'"
proof -
  have S: "ring_static vc net" using R by (simp add: drain_ready_def)
  note l = drain_frame_lengths [OF f]
  have p: "ring_slot net' i = ring_slot net i" "ring_up net' i = ring_up net i" if "i < ring_len net" for i
    using position_frame [OF f _ ring_static_positions(1) [OF S]] that by simp_all
  then have "ring_slot net' ` {..<ring_len net} = ring_slot net ` {..<ring_len net}" by (intro image_cong) auto
  moreover have "occupied vc net' = occupied vc net"
    using drain_frame_ports(1,3) [OF f] l by (auto simp: occupied_def c in_shape_def)
  ultimately show ?thesis
    using R ring_static_frame [OF f S] slot_held_frame [OF f S] p l by (auto simp: drain_ready_def c)
qed

lemma drain_ready_stats: "drain_ready vc net \<Longrightarrow> drain_ready vc (gn_map_stats g net)"
  by (rule drain_ready_frame [of net]) (simp_all add: drain_frameI chan_def ochan_def)

lemma all_taken_after_loop:
  assumes S: "ring_static vc net" and T: "taken vc net (ring_len net) net' k"
  shows "all_taken vc net'" and "card (filled net' (length (gn_spinRing net'))) = k"
proof -
  have f: "drain_frame net net'" using T by (simp add: taken_def)
  note l = drain_frame_lengths(2) [OF f] and S' = ring_static_frame [OF f S]
  have sl: "ring_slot net' i = ring_slot net i" "ring_up net' i = ring_up net i" if "i < ring_len net" for i
    using position_frame [OF f _ ring_static_positions(1) [OF S]] that by simp_all
  have n: "length (gn_spinRing net) = Suc (ring_len net)" using ring_static_positions(5) [OF S] by simp
  have at: "case ss_flit (gn_spinRing net' ! Suc i) of None \<Rightarrow> vc_flits (ring_chan vc net net i) = {#}
      | Some g \<Rightarrow> vc_flits (ring_chan vc net net i) \<noteq> {#} \<and> packet_ok net' g" if "i < ring_len net" for i
    using T that by (simp add: taken_def)
  have fill: "filled net' (length (gn_spinRing net')) = Suc ` {i. i < ring_len net \<and> vc_flits (ring_chan vc net net i) \<noteq> {#}}"
  proof (intro set_eqI iffI)
    fix j assume "j \<in> filled net' (length (gn_spinRing net'))"
    then obtain i where "j = Suc i" "i < ring_len net" "ss_flit (gn_spinRing net' ! Suc i) \<noteq> None"
      using n l by (cases j) (auto simp: filled_def)
    then show "j \<in> Suc ` {i. i < ring_len net \<and> vc_flits (ring_chan vc net net i) \<noteq> {#}}"
      using at [of i] by (auto split: option.splits)
  next
    fix j assume "j \<in> Suc ` {i. i < ring_len net \<and> vc_flits (ring_chan vc net net i) \<noteq> {#}}"
    then obtain i where "j = Suc i" "i < ring_len net" "vc_flits (ring_chan vc net net i) \<noteq> {#}" by auto
    then show "j \<in> filled net' (length (gn_spinRing net'))" using at [of i] n l by (auto simp: filled_def split: option.splits)
  qed
  have "packet_ok net' (the (ss_flit (gn_spinRing net' ! j)))" if "j \<in> filled net' (length (gn_spinRing net'))" for j
    using that at unfolding fill by (fastforce split: option.splits)
  moreover have "slot_free (ring_chan vc net' net' i) (ring_ochan vc net' net' i)" if "i < ring_len net" for i
    using T that sl by (simp add: taken_def)
  ultimately show "all_taken vc net'" using S' l by (simp add: all_taken_def)
  show "card (filled net' (length (gn_spinRing net'))) = k" using T unfolding fill by (simp add: card_image taken_def)
qed

lemma occupied_stays:
  assumes R: "drain_ready vc net" and d: "doSpin vc net = Inr net'" and f: "drain_frame net net'"
  shows "occupied vc net' \<subseteq> ring_slot net' ` {..<ring_len net}"
proof
  fix s assume s: "s \<in> occupied vc net'"
  have S: "ring_static vc net" using R by (simp add: drain_ready_def)
  have img: "ring_slot net' ` {..<ring_len net} = ring_slot net ` {..<ring_len net}"
    using position_frame(1) [OF f _ ring_static_positions(1) [OF S]] by (intro image_cong) auto
  show "s \<in> ring_slot net' ` {..<ring_len net}"
  proof (rule ccontr)
    assume out: "s \<notin> ring_slot net' ` {..<ring_len net}"
    then have "chan net' vc s = chan net vc s"
      using doSpin_slots(2) [OF d, where w = vc and t = s] drain_ready_single [OF R] unfolding img by blast
    then have "s \<in> occupied vc net"
      using s drain_frame_ports(1,3) [OF f] drain_frame_lengths [OF f] by (auto simp: occupied_def in_shape_def)
    then show False using R out unfolding img drain_ready_def by blast
  qed
qed

lemma doSpin_progress:
  assumes R: "drain_ready vc net"
  shows "\<exists>net'. doSpin vc net = Inr net' \<and> drain_ready vc net' \<and> drain_frame net net'"
proof -
  let ?net1 = "gn_map_stats (\<lambda>s. s\<lparr>st_total_spins := st_total_spins s + 1\<rparr>) net" and ?n = "ring_len net"
  note R1 = drain_ready_stats [OF R, of "\<lambda>s. s\<lparr>st_total_spins := st_total_spins s + 1\<rparr>"]
  have S: "ring_static vc net" and S1: "ring_static vc ?net1" using R R1 by (simp_all add: drain_ready_def)
  have n: "0 < length (gn_spinRing net)" using ring_static_positions(5) [OF S] by linarith
  obtain net2 k where t: "foldM (spin_take vc) [0..<?n] (?net1, 0) = Inr (net2, k)" "taken vc ?net1 ?n net2 k"
    using take_loop_returns [OF R1, of ?n] by auto
  have f2: "drain_frame ?net1 net2" using t(2) by (simp add: taken_def)
  have A: "all_taken vc net2" and k: "card (filled net2 (length (gn_spinRing net2))) = k"
    using all_taken_after_loop [OF S1] t(2) by auto
  have l2: "length (gn_spinRing net2) = length (gn_spinRing net)" using drain_frame_lengths [OF f2] by simp
  obtain net' k' where i: "foldM (spin_insert vc) [1..<length (gn_spinRing net)] (net2, int k) = Inr (net', k')"
    "inserted vc net2 (int k) (length (gn_spinRing net)) net' k'"
    using insert_loop_returns [OF A, of "length (gn_spinRing net)" "int k"] n l2 by auto
  have f3: "drain_frame net2 net'" and k': "k' = 0" using i(2) k l2 by (simp_all add: inserted_def)
  have "count_spun vc (gn_routers net) = Inr k"
    using count_spun_occupied [of vc ?net1] occupied_ring(2) [OF R1] S1 t(2) by (simp add: ring_static_def taken_def)
  then have d: "doSpin vc net = Inr net'" using t(1) i(1) k' n by (simp add: doSpin_def Let_def)
  have f: "drain_frame net net'" using drain_frame_trans [OF _ drain_frame_trans [OF f2 f3]] by (simp add: drain_frame_def list_all2_refl)
  note S' = ring_static_frame [OF f S] and l' = drain_frame_lengths [OF f] and S2 = ring_static_frame [OF f2 S1]
  have sl: "ring_slot net' i = ring_slot net2 i" "ring_up net' i = ring_up net2 i" if "i \<le> ?n" for i
  proof -
    have "i < length (gn_spinRing net2)" using that n l2 by linarith
    then show "ring_slot net' i = ring_slot net2 i" "ring_up net' i = ring_up net2 i"
      using position_frame [OF f3 _ ring_static_positions(1) [OF S2]] by simp_all
  qed
  have "slot_free (ring_chan vc net' net' i) (ring_ochan vc net' net' i) \<or> slot_held net' (ring_chan vc net' net' i) (ring_ochan vc net' net' i)"
    if i0: "i < ?n" for i
  proof -
    have "slot_free (ring_chan vc net' net' j) (ring_ochan vc net' net' j) \<or> slot_held net' (ring_chan vc net' net' j) (ring_ochan vc net' net' j)"
      if "1 \<le> j" "j \<le> ?n" for j using i(2) that l2 sl [OF that(2)] by (auto simp: inserted_def split: if_splits)
    from this [of i] this [of ?n] show ?thesis
      using i0 ring_slot_closed [OF ring_static_positions(4) [OF S']] ring_closed(2) [OF ring_static_positions(4) [OF S']] l' by (cases "i = 0") auto
  qed
  moreover have "occupied vc net' \<subseteq> ring_slot net' ` {..<?n}" by (rule occupied_stays [OF R d f])
  ultimately show ?thesis using d S' l' f by (auto simp: drain_ready_def)
qed

lemma spin_times_progress:
  "drain_ready vc net \<Longrightarrow> \<exists>net'. spin_times vc k net = Inr net' \<and> drain_ready vc net'"
proof (induction k arbitrary: net)
  case (Suc k)
  then show ?case using doSpin_progress [OF Suc.prems] by fastforce
qed simp

end
