(* ===== verification/Drain_Complete.thy ===== *)
theory Drain_Complete
  imports Drain_Progress Halt_Protocol
begin

text \<open>
  The end of a halt as a whole: \<open>end_halt\<close> checks the links, drains the chosen channels as often as configured, stamps
  the flits that were moved and restarts the routers. If the links are empty and the network is ready for the
  chosen channels it returns, and every chosen channel has been rotated by the number of rounds.
\<close>

section \<open>Other channels\<close>

lemma upstream_update_ochan:
  assumes "upstream_update dirn i f net = Inr net'"
    and "\<And>u u'. f u = Inr u' \<Longrightarrow> ou_outvc_state u' ! w = ou_outvc_state u ! w"
  shows "ochan net' w s = ochan net w s"
proof -
  from assms(1) obtain k net1 p ou' where rf: "route_frame net net1" and k: "k < length (gn_routers net)"
    and p: "p < length (r_output_unit (gn_routers net1 ! k))" "f (r_output_unit (gn_routers net1 ! k) ! p) = Inr ou'"
    and net': "net' = put_router net1 k ((gn_routers net1 ! k)\<lparr>r_output_unit := (r_output_unit (gn_routers net1 ! k))[p := ou']\<rparr>)"
    by (rule upstream_update_cases)
  have k1: "k < length (gn_routers net1)" using k route_frame_routers(1) [OF rf] by simp
  have "gn_outs net' = (gn_outs net1)[k := (gn_outs net1 ! k)[p := ou']]"
    unfolding net' using k1 by (simp add: put_router_def map_update)
  moreover have "ou_outvc_state ou' ! w = ou_outvc_state (gn_outs net1 ! k ! p) ! w" "p < length (gn_outs net1 ! k)" "k < length (gn_outs net1)"
    using assms(2) [OF p(2)] k1 p(1) by simp_all
  ultimately have "ochan net' w s = ochan net1 w s"
    unfolding ochan_def by (cases "fst s = k"; cases "snd s = p") (simp_all del: length_map nth_map)
  then show ?thesis using ochan_cong [OF route_frame_outs [OF rf]] by simp
qed

lemma credit_ops_other:
  assumes "w \<noteq> vc"
  shows "bnd (ou_increment_credit (int vc) u) (ou_set_vc_state st (int vc) t) = Inr u' \<Longrightarrow> ou_outvc_state u' ! w = ou_outvc_state u ! w"
    and "bnd (ou_decrement_credit (int vc) u) (ou_set_vc_state st (int vc) t) = Inr u' \<Longrightarrow> ou_outvc_state u' ! w = ou_outvc_state u ! w"
  using assms by (auto simp: ou_increment_credit_def ou_decrement_credit_def ou_set_vc_state_def ou_modify_Inr)

lemma gn_put_input_ochan: "rid < length (gn_routers net) \<Longrightarrow> ochan (gn_put_input rid p u net) = ochan net"
  using ochan_cong [OF gn_put_input_ports(1)] by blast

lemma spin_ochan_fields [simp]: "ochan (gn_map_stats g net) = ochan net" "ochan (set_ring_flit i x net) = ochan net"
  by (simp_all add: ochan_def fun_eq_iff)

lemma spin_take_ochan:
  assumes "spin_take vc idx (net, k) = Inr (net', k')" "w \<noteq> vc"
  shows "ochan net' w s = ochan net w s"
proof -
  from assms obtain rid p net1 u e where
    ii: "inport_index net (ss_router_id (gn_spinRing net ! idx)) (ring_dir net idx) = Inr (rid, p, net1)"
    and u: "gn_input net1 rid p = Inr u" "iu_vc_isEmpty u (int vc) = Inr e"
    and rest: "if e then net' = gn_map_stats (\<lambda>s. s\<lparr>st_bubble := st_bubble s + 1\<rparr>) (set_ring_flit (idx + 1) None net1)
       else spin_take_flit vc idx rid (nat p) net1 = Inr net'"
    by (auto simp: spin_take_def at_eq_Inr split: if_splits)
  have rid: "rid < length (gn_routers net1)" using u by (auto simp: gn_input_def get_router_def at_eq_Inr)
  have "ochan net1 = ochan net" using ochan_cong [OF route_frame_outs [OF inport_index_frame(1) [OF ii]]] .
  moreover have "ochan net' w s = ochan net1 w s"
  proof (cases e)
    case True
    then show ?thesis using rest by simp
  next
    case False
    then show ?thesis using rest assms(2) rid unfolding spin_take_flit_def Let_def
      by (auto simp: gn_put_input_ochan dest!: upstream_update_ochan [OF _ credit_ops_other(1) [OF assms(2)], where s = s])
  qed
  ultimately show ?thesis by simp
qed

lemma spin_insert_ochan:
  assumes "spin_insert vc idx (net, k) = Inr (net', k')" "w \<noteq> vc"
  shows "ochan net' w s = ochan net w s"
proof (cases "ss_flit (gn_spinRing net ! idx)")
  case None
  then show ?thesis using assms by (auto simp: spin_insert_def at_eq_Inr)
next
  case (Some t)
  with assms obtain rid p net1 op net2 where
    ii: "inport_index net (ss_router_id (gn_spinRing net ! idx)) (ring_dir net idx) = Inr (rid, p, net1)"
    and oc: "outportCompute net1 rid (fl_route t) = Inr (op, net2)" and si: "spin_insert_flit vc (ring_dir net idx) rid (nat p) t net1 = Inr net'"
    by (auto simp: spin_insert_def spin_insert_flit_def at_eq_Inr)
  note f1 = inport_index_frame [OF ii] and f2 = route_frame_outportCompute [OF oc]
  have rid: "rid < length (gn_routers net2)" using f1(3) route_frame_routers(1) [OF f1(1)] route_frame_routers(1) [OF f2] by simp
  have "ochan net2 = ochan net" using ochan_cong [OF route_frame_outs [OF f2]] ochan_cong [OF route_frame_outs [OF f1(1)]] by simp
  moreover have "ochan net' w s = ochan net2 w s"
    using si oc rid unfolding spin_insert_flit_def Let_def
    by (auto simp: gn_put_input_ochan dest!: upstream_update_ochan [OF _ credit_ops_other(2) [OF assms(2)], where s = s])
  ultimately show ?thesis by simp
qed

lemma doSpin_ochan:
  assumes "doSpin vc net = Inr net'" "w \<noteq> vc"
  shows "ochan net' w s = ochan net w s"
proof -
  from assms(1) obtain net2 k where
    tk: "foldM (spin_take vc) [0..<ring_len net] (gn_map_stats (\<lambda>s. s\<lparr>st_total_spins := st_total_spins s + 1\<rparr>) net, 0) = Inr (net2, k)"
    and ins: "foldM (spin_insert vc) [1..<length (gn_spinRing net)] (net2, int k) = Inr (net', 0)"
    by (rule doSpin_cases)
  have "ochan (fst (net2, k)) w = ochan net w"
  proof (rule foldM_invariant [OF tk])
    fix x a b assume "ochan (fst a) w = ochan net w" "spin_take vc x a = Inr b"
    then show "ochan (fst b) w = ochan net w"
      using spin_take_ochan [OF _ assms(2), of x "fst a" "snd a" "fst b" "snd b"] by (simp add: fun_eq_iff)
  qed simp
  moreover have "ochan (fst (net', 0 :: int)) w = ochan net2 w"
  proof (rule foldM_invariant [OF ins])
    fix x a b assume "ochan (fst a) w = ochan net2 w" "spin_insert vc x a = Inr b"
    then show "ochan (fst b) w = ochan net2 w"
      using spin_insert_ochan [OF _ assms(2), of x "fst a" "snd a" "fst b" "snd b"] by (simp add: fun_eq_iff)
  qed simp
  ultimately show ?thesis by simp
qed

section \<open>Rounds\<close>

abbreviation all_ready :: "nat list \<Rightarrow> garnet_network \<Rightarrow> bool" where
  "all_ready vcs net \<equiv> \<forall>vc \<in> set vcs. drain_ready vc net"

lemma ring_contents_frame:
  assumes f: "drain_frame net net'" and S: "ring_static vc net" and c: "\<And>i. i < ring_len net \<Longrightarrow> chan net' w (ring_slot net i) = chan net w (ring_slot net i)"
  shows "ring_contents w net' = ring_contents w net"
  using position_frame(1) [OF f _ ring_static_positions(1) [OF S]] drain_frame_lengths [OF f] c
  by (auto simp: ring_contents_def)

lemma count_and_spin_returns:
  assumes A: "all_ready vcs net" and vc: "vc \<in> set vcs"
  shows "\<exists>net'. count_and_spin vc net = Inr net' \<and> all_ready vcs net' \<and> drain_frame net net' \<and>
    (\<forall>w \<in> set vcs. rotate (if w = vc then 1 else 0) (ring_contents w net') = ring_contents w net)"
proof -
  let ?net0 = "gn_map_stats (\<lambda>s. s\<lparr>st_num_drain := st_num_drain s + 1\<rparr>) net"
  have A0: "all_ready vcs ?net0" using A drain_ready_stats by blast
  have f0: "drain_frame net ?net0" by (simp add: drain_frame_def list_all2_refl)
  have c0: "ring_contents w ?net0 = ring_contents w net" for w by (simp add: ring_contents_def ring_slot_def chan_def)
  obtain net' where d: "doSpin vc ?net0 = Inr net'" and R: "drain_ready vc net'" and f: "drain_frame ?net0 net'"
    using doSpin_progress A0 vc by blast
  note wf = drain_ready_single [of vc ?net0]
  have ch: "chan net' w s = chan ?net0 w s" if "w \<noteq> vc" for w s
    using doSpin_slots(2) [OF d, where w = w and t = s] wf A0 vc that by blast
  have "drain_ready w net'" if "w \<in> set vcs" for w
    using drain_ready_frame [OF f, of w] ch doSpin_ochan [OF d] A0 R that by (cases "w = vc") auto
  moreover have "rotate (if w = vc then 1 else 0) (ring_contents w net') = ring_contents w net" if "w \<in> set vcs" for w
  proof (cases "w = vc")
    case True
    then show ?thesis using doSpin_rotates(1) [OF d] wf A0 vc c0 by (simp add: rotate_def)
  next
    case False
    have "ring_static w ?net0" using A0 that by (simp add: drain_ready_def)
    then show ?thesis using False ring_contents_frame [OF f] ch c0 by simp
  qed
  ultimately show ?thesis using d drain_frame_trans [OF f0 f] by (auto simp: count_and_spin_def)
qed

lemma spins_return:
  assumes "all_ready vcs net" and "set xs \<subseteq> set vcs"
  shows "\<exists>net'. foldM count_and_spin xs net = Inr net' \<and> all_ready vcs net' \<and> drain_frame net net' \<and>
    (\<forall>w \<in> set vcs. rotate (count_list xs w) (ring_contents w net') = ring_contents w net)"
  using assms
proof (induction xs arbitrary: net)
  case (Cons x xs)
  then obtain net1 where n1: "count_and_spin x net = Inr net1" "all_ready vcs net1" "drain_frame net net1"
    "\<forall>w \<in> set vcs. rotate (if w = x then 1 else 0) (ring_contents w net1) = ring_contents w net"
    using count_and_spin_returns [OF Cons.prems(1), of x] by auto
  from Cons.IH [OF n1(2)] Cons.prems(2) obtain net' where n': "foldM count_and_spin xs net1 = Inr net'" "all_ready vcs net'"
    "drain_frame net1 net'" "\<forall>w \<in> set vcs. rotate (count_list xs w) (ring_contents w net') = ring_contents w net1" by auto
  have "rotate (count_list (x # xs) w) (ring_contents w net') = ring_contents w net" if "w \<in> set vcs" for w
  proof -
    have "rotate (count_list (x # xs) w) (ring_contents w net') =
        rotate (if w = x then 1 else 0) (rotate (count_list xs w) (ring_contents w net'))" by (auto simp: rotate_rotate)
    then show ?thesis using n1(4) n'(4) that by simp
  qed
  then show ?case using n1(1) n'(1,2) drain_frame_trans [OF n1(3) n'(3)] by auto
qed simp

lemma rounds_concat: "foldM (\<lambda>_. foldM f vcs) [0..<n] s = foldM f (concat (replicate n vcs)) s"
proof (induction n)
  case (Suc n)
  have "replicate (Suc n) vcs = replicate n vcs @ [vcs]" by (simp add: replicate_append_same)
  then have "concat (replicate (Suc n) vcs) = concat (replicate n vcs) @ vcs" by simp
  moreover have "foldM (\<lambda>_. foldM f vcs) [n] t = foldM f vcs t" for t by (cases "foldM f vcs t") auto
  then have "foldM (\<lambda>_. foldM f vcs) [n] = foldM f vcs" by (rule ext)
  ultimately show ?case using Suc by (simp add: foldM_append del: replicate_Suc foldM.simps)
qed simp

lemma count_list_rounds:
  assumes "distinct vcs" "w \<in> set vcs"
  shows "count_list (concat (replicate n vcs)) w = n"
proof -
  have "count_list vcs w = 1" using assms by (induction vcs) (auto simp: count_list_0_iff)
  then show ?thesis by (induction n) simp_all
qed

text \<open>The channels that are drained and how often: at random if the configured number of rounds is 0.\<close>

definition drained_vcs :: "garnet_config \<Rightarrow> router \<Rightarrow> nat list" where
  "drained_vcs C r = (if nc_spin_mult C = 0 then map (\<lambda>vnet. vnet * r_vc_per_vnet r) [0..<r_virtual_networks r] else drain_vcs C r)"

definition drain_count :: "garnet_network \<Rightarrow> nat" where
  "drain_count net = (if nc_spin_mult (gn_config net) = 0 then gn_random net 0 mod 10 else nc_spin_mult (gn_config net))"

lemma distinct_base: "0 < k \<Longrightarrow> distinct (map (\<lambda>v. v * k) [0..<n :: nat])"
  by (auto simp: distinct_map inj_on_def)

lemma drain_rounds_return:
  assumes A: "all_ready (drained_vcs (gn_config net) r) net" and k: "0 < r_vc_per_vnet r"
  shows "\<exists>net'. drain_rounds r net = Inr net' \<and> all_ready (drained_vcs (gn_config net) r) net' \<and> drain_frame net net' \<and>
    (\<forall>w \<in> set (drained_vcs (gn_config net) r). rotate (drain_count net) (ring_contents w net') = ring_contents w net)"
proof -
  let ?vcs = "drained_vcs (gn_config net) r" and ?n = "drain_count net"
  let ?net0 = "if nc_spin_mult (gn_config net) = 0 then net\<lparr>gn_random := \<lambda>n. gn_random net (Suc n)\<rparr> else net"
  have d: "distinct ?vcs" using distinct_base [OF k] by (simp add: drained_vcs_def drain_vcs_def)
  have f0: "drain_frame net ?net0" by (simp add: drain_frame_def list_all2_refl)
  have "drain_ready w ?net0" if "w \<in> set ?vcs" for w
    using A that by (intro drain_ready_frame [OF f0]) (simp_all add: chan_def ochan_def)
  then have A0: "all_ready ?vcs ?net0" by blast
  have c0: "ring_contents w ?net0 = ring_contents w net" for w by (simp add: ring_contents_def ring_slot_def chan_def)
  have "set (concat (replicate ?n ?vcs)) \<subseteq> set ?vcs" by auto
  from spins_return [OF A0 this] obtain net' where n: "foldM count_and_spin (concat (replicate ?n ?vcs)) ?net0 = Inr net'"
    "all_ready ?vcs net'" "drain_frame ?net0 net'"
    "\<forall>w \<in> set ?vcs. rotate (count_list (concat (replicate ?n ?vcs)) w) (ring_contents w net') = ring_contents w ?net0" by blast
  have "drain_rounds r net = foldM count_and_spin (concat (replicate ?n ?vcs)) ?net0"
    by (simp add: drain_rounds_def spin_rounds_def rounds_concat drain_count_def drained_vcs_def next_random_def)
  then show ?thesis using n drain_frame_trans [OF f0 n(3)] count_list_rounds [OF d] by (auto simp: c0)
qed

section \<open>Stamping the flits\<close>

text \<open>What stamping keeps: the ring, the maps, the shapes and the packets of every channel.\<close>

definition stamp_frame :: "garnet_network \<Rightarrow> garnet_network \<Rightarrow> bool" where
  "stamp_frame net net' = (gn_spinRing net' = gn_spinRing net \<and> gn_config net' = gn_config net \<and>
     map r_routing_unit (gn_routers net') = map r_routing_unit (gn_routers net) \<and> in_shapes net' = in_shapes net \<and>
     (\<forall>w s. chan_ok net w s \<longrightarrow> vc_tags (chan net' w s) = vc_tags (chan net w s)))"

definition stamp_port :: "nat \<Rightarrow> cycles \<Rightarrow> nat \<Rightarrow> input_unit \<Rightarrow> input_unit" where
  "stamp_port vc now m u = (if vc_isEmpty (iu_vcs u ! vc) \<or> iu_direction u \<notin> set compass then u
     else u\<lparr>iu_vcs := (iu_vcs u)[vc := vc_update_top (advance_stage SA_stage (now + 2 * m)) (iu_vcs u ! vc)]\<rparr>)"

lemma stamp_port_keeps:
  "in_shape (stamp_port vc now m u) = in_shape u"
  "w < length (iu_vcs u) \<Longrightarrow> vc_tags (iu_vcs (stamp_port vc now m u) ! w) = vc_tags (iu_vcs u ! w)"
  by (simp add: stamp_port_def in_shape_def)
    (cases "w = vc"; simp add: stamp_port_def vc_tags_def vc_update_top_def buffer_tags_update_top)

lemma set_flit_time_returns:
  assumes "\<forall>us \<in> set (gn_ins net). \<forall>u \<in> set us. vc < length (iu_vcs u)"
  shows "\<exists>net'. set_flit_time vc net = Inr net' \<and> stamp_frame net net'"
proof -
  let ?g = "stamp_port vc (gn_cycle net) (nc_spin_mult (gn_config net))"
  let ?f = "\<lambda>r. r\<lparr>r_input_unit := map ?g (r_input_unit r)\<rparr>"
  let ?net' = "net\<lparr>gn_routers := map ?f (gn_routers net)\<rparr>"
  have port: "flit_time_inport vc (gn_cycle net) (nc_spin_mult (gn_config net)) u = Inr (?g u)" if "vc < length (iu_vcs u)" for u
    using that by (simp add: flit_time_inport_def stamp_port_def iu_vc_isEmpty_def iu_read_def iu_modify_def)
  have "traverse (flit_time_inport vc (gn_cycle net) (nc_spin_mult (gn_config net))) (r_input_unit r) = Inr (map ?g (r_input_unit r))"
    if "r \<in> set (gn_routers net)" for r using assms that port by (intro traverse_map) auto
  then have "traverse (\<lambda>r. bnd (traverse (flit_time_inport vc (gn_cycle net) (nc_spin_mult (gn_config net))) (r_input_unit r))
      (\<lambda>us. Inr (r\<lparr>r_input_unit := us\<rparr>))) (gn_routers net) = Inr (map ?f (gn_routers net))" by (intro traverse_map) auto
  then have s: "set_flit_time vc net = Inr ?net'" by (simp add: set_flit_time_def)
  have "in_shapes ?net' = in_shapes net" by (simp add: comp_def stamp_port_keeps(1))
  moreover have "vc_tags (chan ?net' w s) = vc_tags (chan net w s)" if "chan_ok net w s" for w s
    using that by (auto simp: chan_ok_def chan_def stamp_port_keeps(2))
  ultimately have "stamp_frame net ?net'" by (simp add: stamp_frame_def comp_def)
  then show ?thesis using s by blast
qed

lemma in_shapes_vcs:
  assumes "in_shapes net' = in_shapes net" "\<forall>us \<in> set (gn_ins net). \<forall>u \<in> set us. vc < length (iu_vcs u)"
  shows "\<forall>us \<in> set (gn_ins net'). \<forall>u \<in> set us. vc < length (iu_vcs u)"
proof -
  have e: "(\<forall>us \<in> set uss. \<forall>u \<in> set us. vc < length (iu_vcs u)) = (\<forall>xs \<in> set (map (map in_shape) uss). \<forall>x \<in> set xs. vc < snd (snd x))"
    for uss by (simp add: in_shape_def)
  show ?thesis using assms unfolding e by simp
qed

lemma stamp_frame_trans:
  assumes "stamp_frame a b" "stamp_frame b c"
  shows "stamp_frame a c"
proof -
  have "chan_ok b w s" if "chan_ok a w s" for w s
  proof -
    have sh: "in_shapes b = in_shapes a" using assms(1) by (simp add: stamp_frame_def)
    have l: "length (gn_ins b) = length (gn_ins a)" using sh map_eq_imp_length_eq by blast
    obtain i p where s: "s = (i, p)" by force
    have i: "i < length (gn_ins a)" using that s by (simp add: chan_ok_def)
    have m: "map in_shape (gn_ins b ! i) = map in_shape (gn_ins a ! i)" using sh i l by (metis nth_map)
    have p: "p < length (gn_ins a ! i)" "length (gn_ins b ! i) = length (gn_ins a ! i)"
      using that s map_eq_imp_length_eq [OF m] by (simp_all only: chan_ok_def fst_conv snd_conv)
    then have "in_shape (gn_ins b ! i ! p) = in_shape (gn_ins a ! i ! p)" using m by (metis nth_map)
    then show ?thesis using that l p i s by (simp only: chan_ok_def in_shape_def fst_conv snd_conv prod.inject)
  qed
  then show ?thesis using assms unfolding stamp_frame_def by metis
qed

lemma stamps_return:
  assumes "\<forall>vc \<in> set vcs. \<forall>us \<in> set (gn_ins net). \<forall>u \<in> set us. vc < length (iu_vcs u)"
  shows "\<exists>net'. foldM set_flit_time vcs net = Inr net' \<and> stamp_frame net net'"
  using assms
proof (induction vcs arbitrary: net)
  case (Cons vc vcs)
  then obtain net1 where n1: "set_flit_time vc net = Inr net1" "stamp_frame net net1" using set_flit_time_returns [of net vc] by auto
  have "\<forall>vc \<in> set vcs. \<forall>us \<in> set (gn_ins net1). \<forall>u \<in> set us. vc < length (iu_vcs u)"
    using Cons.prems in_shapes_vcs [of net1 net] n1(2) unfolding stamp_frame_def by (metis list.set_intros(2))
  from Cons.IH [OF this] n1 show ?case using stamp_frame_trans by (metis bnd_Inr foldM.simps(2))
qed (simp add: stamp_frame_def)

lemma stamp_frame_contents:
  assumes f: "stamp_frame net net'" and S: "ring_static vc net"
  shows "ring_contents vc net' = ring_contents vc net"
proof -
  have r: "gn_spinRing net' = gn_spinRing net" "map r_routing_unit (gn_routers net') = map r_routing_unit (gn_routers net)"
    using f by (simp_all add: stamp_frame_def)
  have l: "length (gn_routers net') = length (gn_routers net)" using map_eq_imp_length_eq [OF r(2)] .
  have "vc_tags (chan net' vc (ring_slot net' i)) = vc_tags (chan net vc (ring_slot net i))" if i: "i < ring_len net" for i
  proof -
    have il: "i < length (gn_spinRing net)" using i by simp
    have "r_routing_unit (gn_routers net' ! ring_rid net i) = r_routing_unit (gn_routers net ! ring_rid net i)"
      using r(2) l ring_static_positions(2) [OF S il] by (metis nth_map)
    then have "ring_slot net' i = ring_slot net i" using r(1) by (simp add: ring_slot_def)
    moreover have "chan_ok net vc (ring_slot net i)" using ring_static_positions(1) [OF S il] by (simp add: position_ok_def)
    ultimately show ?thesis using f unfolding stamp_frame_def by metis
  qed
  then show ?thesis using r(1) by (simp add: ring_contents_def)
qed

section \<open>The end of a halt\<close>

lemma stamp_frame_refl [simp]: "stamp_frame net net"
  by (simp add: stamp_frame_def)

lemma stamp_frame_schedule: "stamp_frame net (schedule_events es net)"
proof -
  have "stamp_frame a (schedule_one e a)" for e a
    by (auto simp: schedule_one_def stamp_frame_def map_count_up chan_def split: prod.splits consumer_ref.splits)
  note one = this
  have "stamp_frame net b \<Longrightarrow> stamp_frame net (fold schedule_one es b)" for b
    by (induction es arbitrary: b) (auto intro: stamp_frame_trans [OF _ one])
  then show ?thesis by (simp add: schedule_events_def)
qed

lemma stamp_frame_lock: "stamp_frame net (net\<lparr>gn_lock := l\<rparr>)"
  by (simp add: stamp_frame_def chan_def)

definition links_idle :: "garnet_network \<Rightarrow> bool" where
  "links_idle net = (\<forall>us \<in> set (gn_outs net). \<forall>p < length us. ou_id (us ! p) = p \<and> ou_out_link (us ! p) < length (gn_networklinks net) \<and>
     isEmpty (nl_linkBuffer (gn_networklinks net ! ou_out_link (us ! p))))"

lemma foldM_fixed: "\<forall>x \<in> set xs. f x s = Inr s \<Longrightarrow> foldM f xs s = Inr s"
  by (induction xs) auto

lemma links_idle_check:
  assumes "links_idle net"
  shows "chck_link_state net = Inr True"
proof -
  have port: "link_state_outport net r p True = Inr True" if "r \<in> set (gn_routers net)" "p < length (r_output_unit r)" for r p
    using assms that by (auto simp: links_idle_def link_state_outport_def Let_def)
  have "foldM (link_state_outport net r) [0..<length (r_output_unit r)] True = Inr True" if "r \<in> set (gn_routers net)" for r
    using port that by (intro foldM_fixed) auto
  then show ?thesis unfolding chck_link_state_def by (intro foldM_fixed) auto
qed

lemma end_halt_returns:
  assumes rid: "rid < length (gn_routers net)" and k: "0 < r_vc_per_vnet (gn_routers net ! rid)"
    and A: "all_ready (drained_vcs (gn_config net) (gn_routers net ! rid)) net" and L: "links_idle net"
    and V: "\<forall>vc \<in> set (drain_vcs (gn_config net) (gn_routers net ! rid)). \<forall>us \<in> set (gn_ins net). \<forall>u \<in> set us. vc < length (iu_vcs u)"
  shows "\<exists>net'. end_halt rid net = Inr net' \<and>
    (\<forall>w \<in> set (drained_vcs (gn_config net) (gn_routers net ! rid)). rotate (drain_count net) (ring_contents w net') = ring_contents w net)"
proof -
  let ?r = "gn_routers net ! rid"
  let ?net1 = "set_halt False (put_router net rid (?r\<lparr>r_halt := True\<rparr>))"
  let ?vcs = "drained_vcs (gn_config net) ?r"
  have n1: "gn_routers ?net1 = map (\<lambda>r. r\<lparr>r_halt := False\<rparr>) (gn_routers net)" "gn_config ?net1 = gn_config net"
    "gn_spinRing ?net1 = gn_spinRing net" "gn_networklinks ?net1 = gn_networklinks net" "gn_random ?net1 = gn_random net"
    using rid by (simp_all add: set_halt_def put_router_def map_update list_update_same_conv)
  have io: "gn_ins ?net1 = gn_ins net" "gn_outs ?net1 = gn_outs net" unfolding n1 by (simp_all add: comp_def)
  have f1: "drain_frame net ?net1"
    by (simp add: drain_frame_def n1 comp_def list_all2_conv_all_nth router_static_def maps_le_def)
  have A1: "all_ready ?vcs ?net1" using A drain_ready_frame [OF f1] chan_cong [OF io(1)] ochan_cong [OF io(2)] by simp
  obtain net2 where d: "drain_rounds ?r ?net1 = Inr net2" "all_ready ?vcs net2" "drain_frame ?net1 net2"
    "\<forall>w \<in> set ?vcs. rotate (drain_count net) (ring_contents w net2) = ring_contents w ?net1"
  proof -
    have "drain_count ?net1 = drain_count net" unfolding drain_count_def n1 ..
    then show thesis using drain_rounds_return [of ?net1 ?r] A1 k that unfolding n1 by metis
  qed
  have C2: "gn_config net2 = gn_config net" "in_shapes net2 = in_shapes net" using d(3) io unfolding drain_frame_def n1 by simp_all
  then have "\<forall>vc \<in> set (drain_vcs (gn_config net2) ?r). \<forall>us \<in> set (gn_ins net2). \<forall>u \<in> set us. vc < length (iu_vcs u)"
    using V in_shapes_vcs [OF C2(2)] by simp
  from stamps_return [OF this] obtain net3 where s: "foldM set_flit_time (drain_vcs (gn_config net2) ?r) net2 = Inr net3" "stamp_frame net2 net3"
    by blast
  let ?net4 = "gn_schedule_wakeup 3 (net3\<lparr>gn_lock := -1\<rparr>)"
  let ?net' = "scheduleAll_wakeup (2 * nc_spin_mult (gn_config ?net4)) ?net4"
  have "links_idle ?net1" using L unfolding links_idle_def io n1(4) .
  then have e: "end_halt rid net = Inr ?net'"
    using rid d(1) s(1) links_idle_check by (simp add: end_halt_def get_router_def Let_def)
  have "stamp_frame net2 ?net4" unfolding gn_schedule_wakeup_def
    by (rule stamp_frame_trans [OF stamp_frame_trans [OF s(2) stamp_frame_lock] stamp_frame_schedule])
  then have "stamp_frame net2 ?net'" unfolding scheduleAll_wakeup_def by (rule stamp_frame_trans [OF _ stamp_frame_schedule])
  then have "ring_contents w ?net' = ring_contents w net2" if "w \<in> set ?vcs" for w
    using stamp_frame_contents d(2) that by (simp add: drain_ready_def)
  moreover have "ring_contents w ?net1 = ring_contents w net" if "w \<in> set ?vcs" for w
  proof -
    have "ring_static w net" using A that by (simp add: drain_ready_def)
    then show ?thesis using ring_contents_frame [OF f1] chan_cong [OF io(1)] by simp
  qed
  ultimately show ?thesis using e d(4) by auto
qed

end
