(* ===== verification/Simple_Network.thy ===== *)
theory Simple_Network
  imports Ruby_Network Machine_Dest Message_Buffer_Correct
begin

text \<open>
  The simple network (src/gem5/src/mem/ruby/network/simple): \<open>SimpleNetwork\<close>, \<open>Switch\<close>, \<open>PerfectSwitch\<close> and \<open>Throttle\<close>. A
  switch has a \<open>PerfectSwitch\<close>, which moves the messages of the input buffers to intermediate buffers and
  splits the set of destinations among its links, and per link a \<open>Throttle\<close>, which moves messages from the
  intermediate buffers to the buffers at the other end, as fast as the bandwidth of the link allows.

  All message buffers are in one store, since the output buffers of a throttle are the input buffers of the
  next switch; a \<open>MessageBuffer*\<close> is a position in it. Times are ticks, and a wakeup happens on a clock edge.
  \<open>simple_params\<close> holds the clock period, the machine types and \<open>std::sort\<close>, of which the standard leaves the
  order of equal elements open. \<open>m_link_utilization_proxy\<close> adds up, as a \<open>double\<close>, the fraction of the bandwidth used
  per wakeup; here it counts the units used, which is that sum times the bandwidth of the link.
\<close>

section \<open>State\<close>

record link_order =
  lo_link :: nat
  lo_value :: int

record perfect_switch =
  pf_switch_id :: nat
  pf_in :: "buffer_ref list list"
  pf_out :: "buffer_ref list list"
  pf_routing_table :: "net_dest list"
  pf_link_order :: "link_order list"
  pf_virtual_networks :: nat
  pf_round_robin_start :: nat
  pf_wakeups_wo_switch :: nat
  pf_pending_message_count :: "int list"
  pf_wakeups :: "tick list"

record throttle =
  th_in :: "buffer_ref list"
  th_out :: "buffer_ref list"
  th_vnets :: nat
  th_units_remaining :: "int list"
  th_switch_id :: nat
  th_node :: nat
  th_link_bandwidth_multiplier :: int
  th_link_latency :: cycles
  th_wakeups_wo_switch :: nat
  th_endpoint_bandwidth :: int
  th_msg_counts :: "MessageSizeType \<Rightarrow> nat \<Rightarrow> nat"
  th_link_utilization_proxy :: int
  th_wakeups :: "tick list"

record switch =
  sw_id :: nat
  sw_perfect_switch :: perfect_switch
  sw_throttles :: "throttle list"
  sw_port_buffers :: "buffer_ref list"
  sw_num_connected_buffers :: nat

record simple_network = network_base +
  sn_switches :: "switch list"
  sn_int_link_buffers :: "buffer_ref list"
  sn_num_connected_buffers :: nat
  sn_buffer_size :: int
  sn_endpoint_bandwidth :: int
  sn_adaptive_routing :: bool
  sn_buffers :: "message_buffer list"
  sn_ruby :: ruby_state
  sn_now :: tick

record simple_params =
  sp_machines :: machine_types
  sp_clockPeriod :: tick
  sp_sort :: "link_order list \<Rightarrow> link_order list"

definition PRIORITY_SWITCH_LIMIT :: nat where
  "PRIORITY_SWITCH_LIMIT = 128"

definition MESSAGE_SIZE_MULTIPLIER :: int where
  "MESSAGE_SIZE_MULTIPLIER = 1000"

text \<open>Access to the parts; a pointer to a throttle is the number of the switch and of the link.\<close>

definition get_switch :: "nat \<Rightarrow> simple_network \<Rightarrow> switch res" where
  "get_switch i S = at (sn_switches S) (int i)"

definition put_switch :: "nat \<Rightarrow> switch \<Rightarrow> simple_network \<Rightarrow> simple_network" where
  "put_switch i sw S = S\<lparr>sn_switches := (sn_switches S)[i := sw]\<rparr>"

definition get_perfect :: "nat \<Rightarrow> simple_network \<Rightarrow> perfect_switch res" where
  "get_perfect i S = bnd (get_switch i S) (\<lambda>sw. Inr (sw_perfect_switch sw))"

definition put_perfect :: "nat \<Rightarrow> perfect_switch \<Rightarrow> simple_network \<Rightarrow> simple_network" where
  "put_perfect i p S = put_switch i ((sn_switches S ! i)\<lparr>sw_perfect_switch := p\<rparr>) S"

definition get_throttle :: "nat \<Rightarrow> nat \<Rightarrow> simple_network \<Rightarrow> throttle res" where
  "get_throttle i k S = bnd (get_switch i S) (\<lambda>sw. at (sw_throttles sw) (int k))"

definition put_throttle :: "nat \<Rightarrow> nat \<Rightarrow> throttle \<Rightarrow> simple_network \<Rightarrow> simple_network" where
  "put_throttle i k t S =
     put_switch i ((sn_switches S ! i)\<lparr>sw_throttles := (sw_throttles (sn_switches S ! i))[k := t]\<rparr>) S"

definition deref :: "buffer_ref \<Rightarrow> simple_network \<Rightarrow> message_buffer res" where
  "deref b S = (case b of None \<Rightarrow> Inl NullPointer | Some i \<Rightarrow> at (sn_buffers S) (int i))"

definition assign :: "buffer_ref \<Rightarrow> message_buffer \<Rightarrow> simple_network \<Rightarrow> simple_network" where
  "assign b B S = (case b of None \<Rightarrow> S | Some i \<Rightarrow> S\<lparr>sn_buffers := (sn_buffers S)[i := B]\<rparr>)"

section \<open>Wakeups\<close>

definition sn_scheduleEventAbsolute :: "tick \<Rightarrow> consumer_ref \<Rightarrow> simple_network \<Rightarrow> simple_network" where
  "sn_scheduleEventAbsolute t c S =
     (case c of
        SwitchConsumer i \<Rightarrow>
          S\<lparr>sn_switches := count_up (sn_switches S) i (\<lambda>sw. sw\<lparr>sw_perfect_switch :=
              (sw_perfect_switch sw)\<lparr>pf_wakeups := consumer_schedule (sn_now S) t (pf_wakeups (sw_perfect_switch sw))\<rparr>\<rparr>)\<rparr>
      | ThrottleConsumer i k \<Rightarrow>
          S\<lparr>sn_switches := count_up (sn_switches S) i (\<lambda>sw. sw\<lparr>sw_throttles := count_up (sw_throttles sw) k
              (\<lambda>th. th\<lparr>th_wakeups := consumer_schedule (sn_now S) t (th_wakeups th)\<rparr>)\<rparr>)\<rparr>
      | _ \<Rightarrow> S)"

definition sn_scheduleEvent :: "simple_params \<Rightarrow> cycles \<Rightarrow> consumer_ref \<Rightarrow> simple_network \<Rightarrow> simple_network" where
  "sn_scheduleEvent P timeDelta c S = sn_scheduleEventAbsolute (sn_now S + sp_clockPeriod P * timeDelta) c S"

definition PerfectSwitch_storeEventInfo :: "int \<Rightarrow> perfect_switch \<Rightarrow> perfect_switch res" where
  "PerfectSwitch_storeEventInfo info p =
     bnd (at (pf_pending_message_count p) info) (\<lambda>c.
     bnd (put_at (pf_pending_message_count p) info (c + 1)) (\<lambda>cs.
     Inr (p\<lparr>pf_pending_message_count := cs\<rparr>)))"

definition storeEventInfo :: "int \<Rightarrow> consumer_ref \<Rightarrow> simple_network \<Rightarrow> simple_network res" where
  "storeEventInfo info c S =
     (case c of
        SwitchConsumer i \<Rightarrow>
          bnd (get_perfect i S) (\<lambda>p.
          bnd (PerfectSwitch_storeEventInfo info p) (\<lambda>p'. Inr (put_perfect i p' S)))
      | _ \<Rightarrow> Inr S)"

section \<open>Operations on the store\<close>

text \<open>\<open>MessageBuffer::enqueue\<close> with its calls of the consumer.\<close>

definition sn_enqueue :: "buffer_ref \<Rightarrow> message \<Rightarrow> tick \<Rightarrow> simple_network \<Rightarrow> simple_network res" where
  "sn_enqueue b m delta S =
     bnd (deref b S) (\<lambda>B.
     bnd (mb_enqueue m (sn_now S) delta (sn_ruby S, B)) (\<lambda>(R, B', evs).
     let S1 = assign b B' (S\<lparr>sn_ruby := R\<rparr>) in
     foldM (\<lambda>(c, t) S2. storeEventInfo (mb_vnet_id B') c (sn_scheduleEventAbsolute t c S2)) evs S1))"

text \<open>No callback is registered on the buffers of a simple network.\<close>

definition sn_dequeue :: "buffer_ref \<Rightarrow> simple_network \<Rightarrow> (message \<times> simple_network) res" where
  "sn_dequeue b S =
     bnd (deref b S) (\<lambda>B.
     bnd (mb_dequeue (sn_now S) True B) (\<lambda>(delay, m, B', cb).
     Inr (m, assign b B' S)))"

definition sn_isReady :: "buffer_ref \<Rightarrow> simple_network \<Rightarrow> bool res" where
  "sn_isReady b S = bnd (deref b S) (\<lambda>B. Inr (mb_isReady (sn_now S) B))"

definition sn_areNSlotsAvailable :: "nat \<Rightarrow> buffer_ref \<Rightarrow> simple_network \<Rightarrow> (bool \<times> simple_network) res" where
  "sn_areNSlotsAvailable n b S =
     bnd (deref b S) (\<lambda>B.
     let (r, B') = areNSlotsAvailable n (sn_now S) B in Inr (r, assign b B' S))"

definition sn_getSize :: "buffer_ref \<Rightarrow> simple_network \<Rightarrow> (nat \<times> simple_network) res" where
  "sn_getSize b S =
     bnd (deref b S) (\<lambda>B.
     let (n, B') = mb_getSize (sn_now S) B in Inr (n, assign b B' S))"

section \<open>PerfectSwitch\<close>

definition PerfectSwitch_new :: "nat \<Rightarrow> nat \<Rightarrow> perfect_switch" where
  "PerfectSwitch_new sid virt_nets =
     \<lparr>pf_switch_id = sid, pf_in = [], pf_out = [], pf_routing_table = [], pf_link_order = [],
      pf_virtual_networks = virt_nets, pf_round_robin_start = 0, pf_wakeups_wo_switch = 0,
      pf_pending_message_count = [], pf_wakeups = []\<rparr>"

definition PerfectSwitch_init :: "perfect_switch \<Rightarrow> perfect_switch" where
  "PerfectSwitch_init p =
     p\<lparr>pf_pending_message_count := pf_pending_message_count p @ replicate (pf_virtual_networks p) 0\<rparr>"

definition connect_in_buffer :: "nat \<Rightarrow> nat \<Rightarrow> nat \<times> buffer_ref \<Rightarrow> simple_network \<Rightarrow> simple_network res" where
  "connect_in_buffer i port vb S =
     (case vb of
        (v, None) \<Rightarrow> Inr S
      | (v, Some b) \<Rightarrow>
          bnd (deref (Some b) S) (\<lambda>B.
          bnd (mb_setConsumer (SwitchConsumer i) B) (\<lambda>B1.
          Inr (assign (Some b) (B1\<lparr>mb_input_link_id := int port, mb_vnet_id := int v\<rparr>) S))))"

definition PerfectSwitch_addInPort :: "nat \<Rightarrow> buffer_ref list \<Rightarrow> simple_network \<Rightarrow> simple_network res" where
  "PerfectSwitch_addInPort i ins S =
     bnd (get_perfect i S) (\<lambda>p.
     let port = length (pf_in p); S1 = put_perfect i (p\<lparr>pf_in := pf_in p @ [ins]\<rparr>) S in
     foldM (connect_in_buffer i port) (enumerate 0 ins) S1)"

definition PerfectSwitch_addOutPort :: "buffer_ref list \<Rightarrow> net_dest \<Rightarrow> perfect_switch \<Rightarrow> perfect_switch" where
  "PerfectSwitch_addOutPort out routing_table_entry p =
     p\<lparr>pf_link_order := pf_link_order p @ [\<lparr>lo_link = length (pf_out p), lo_value = 0\<rparr>],
       pf_out := pf_out p @ [out],
       pf_routing_table := pf_routing_table p @ [routing_table_entry]\<rparr>"

text \<open>The order in which the links are looked at.\<close>

definition add_queue_length :: "buffer_ref list \<Rightarrow> nat \<Rightarrow> nat \<times> simple_network \<Rightarrow> (nat \<times> simple_network) res" where
  "add_queue_length out v s =
     (case s of (out_queue_length, S) \<Rightarrow>
      bnd (at out (int v)) (\<lambda>b. bnd (sn_getSize b S) (\<lambda>(n, S'). Inr (out_queue_length + n, S'))))"

definition clogged_link :: "nat \<Rightarrow> nat \<Rightarrow> link_order list \<times> simple_network \<Rightarrow> (link_order list \<times> simple_network) res" where
  "clogged_link i out s =
     (case s of (order, S) \<Rightarrow>
      bnd (get_perfect i S) (\<lambda>p.
      bnd (at (pf_out p) (int out)) (\<lambda>bs.
      bnd (foldM (add_queue_length bs) [0..<pf_virtual_networks p] (0, S)) (\<lambda>(out_queue_length, S1).
      let (r, R) = random_in 0 255 (sn_ruby S1);
          value = or (push_bit 8 (int out_queue_length)) (int r) in
      bnd (put_at order (int out) \<lparr>lo_link = out, lo_value = value\<rparr>) (\<lambda>order'.
      Inr (order', S1\<lparr>sn_ruby := R\<rparr>))))))"

definition adapt_link_order :: "simple_params \<Rightarrow> nat \<Rightarrow> nat \<Rightarrow> simple_network \<Rightarrow> simple_network res" where
  "adapt_link_order P i vnet S =
     (if \<not> sn_adaptive_routing S then Inr S
      else
        bnd (get_perfect i S) (\<lambda>p.
        bnd (at (nw_ordered S) (int vnet)) (\<lambda>ordered.
        if ordered then
          bnd (foldM (\<lambda>out order. put_at order (int out) \<lparr>lo_link = out, lo_value = 0\<rparr>)
                [0..<length (pf_out p)] (pf_link_order p)) (\<lambda>order.
          Inr (put_perfect i (p\<lparr>pf_link_order := order\<rparr>) S))
        else
          bnd (foldM (clogged_link i) [0..<length (pf_out p)] (pf_link_order p, S)) (\<lambda>(order, S1).
          bnd (get_perfect i S1) (\<lambda>p1.
          Inr (put_perfect i (p1\<lparr>pf_link_order := sp_sort P order\<rparr>) S1))))))"

text \<open>The links for a set of destinations, each with its share, and the destinations that are left over.\<close>

fun route_links ::
    "machine_types \<Rightarrow> net_dest list \<Rightarrow> nat list \<Rightarrow> net_dest \<Rightarrow> ((nat \<times> net_dest) list \<times> net_dest) res" where
  "route_links M table [] msg_dsts = Inr ([], msg_dsts)"
| "route_links M table (link # links) msg_dsts =
     bnd (at table (int link)) (\<lambda>dst.
     bnd (NetDest_intersectionIsNotEmpty msg_dsts dst) (\<lambda>meets.
     if \<not> meets then route_links M table links msg_dsts
     else
       bnd (NetDest_AND M msg_dsts dst) (\<lambda>share.
       bnd (NetDest_removeNetDest msg_dsts dst) (\<lambda>msg_dsts'.
       bnd (route_links M table links msg_dsts') (\<lambda>(outs, left).
       Inr ((link, share) # outs, left))))))"

definition out_buffer :: "nat \<Rightarrow> nat \<Rightarrow> nat \<Rightarrow> simple_network \<Rightarrow> buffer_ref res" where
  "out_buffer i outgoing vnet S = bnd (get_perfect i S) (\<lambda>p. at2 (pf_out p) outgoing vnet)"

definition check_slot :: "nat \<Rightarrow> nat \<Rightarrow> nat \<times> net_dest \<Rightarrow> bool \<times> simple_network \<Rightarrow> (bool \<times> simple_network) res" where
  "check_slot i vnet out s =
     (case s of (enough, S) \<Rightarrow>
      bnd (out_buffer i (fst out) vnet S) (\<lambda>b.
      bnd (sn_areNSlotsAvailable 1 b S) (\<lambda>(r, S'). Inr (enough \<and> r, S'))))"

text \<open>
  The first link gets the message itself, which \<open>dequeue\<close> has changed, every further link a clone of the
  message as it was before.
\<close>

definition send_copy ::
    "simple_params \<Rightarrow> nat \<Rightarrow> nat \<Rightarrow> message \<Rightarrow> message \<Rightarrow> nat \<times> (nat \<times> net_dest) \<Rightarrow> simple_network \<Rightarrow> simple_network res" where
  "send_copy P i vnet msg unmodified out S =
     (case out of (n, outgoing, share) \<Rightarrow>
      let m = (if n = 0 then msg else unmodified) in
      bnd (out_buffer i outgoing vnet S) (\<lambda>b.
      sn_enqueue b (m\<lparr>msg_destination := share\<rparr>) (sp_clockPeriod P * 1) S))"

definition count_down :: "nat \<Rightarrow> nat \<Rightarrow> simple_network \<Rightarrow> simple_network res" where
  "count_down i vnet S =
     bnd (get_perfect i S) (\<lambda>p.
     bnd (at (pf_pending_message_count p) (int vnet)) (\<lambda>c.
     bnd (put_at (pf_pending_message_count p) (int vnet) (c - 1)) (\<lambda>cs.
     Inr (put_perfect i (p\<lparr>pf_pending_message_count := cs\<rparr>) S))))"

definition route_of :: "simple_params \<Rightarrow> perfect_switch \<Rightarrow> net_dest \<Rightarrow> ((nat \<times> net_dest) list \<times> net_dest) res" where
  "route_of P p d = route_links (sp_machines P) (pf_routing_table p)
     (map lo_link (take (length (pf_routing_table p)) (pf_link_order p))) d"

definition deliver ::
    "simple_params \<Rightarrow> nat \<Rightarrow> nat \<Rightarrow> nat \<Rightarrow> message \<Rightarrow> (nat \<times> net_dest) list \<Rightarrow> simple_network \<Rightarrow> simple_network res" where
  "deliver P i vnet b unmodified outs S =
     bnd (sn_dequeue (Some b) S) (\<lambda>(msg, S3).
     bnd (count_down i vnet S3) (\<lambda>S4.
     foldM (send_copy P i vnet msg unmodified) (enumerate 0 outs) S4))"

text \<open>One turn of the loop of \<open>operateMessageBuffer\<close>; the result says whether the loop goes on.\<close>

definition switch_message :: "simple_params \<Rightarrow> nat \<Rightarrow> nat \<Rightarrow> nat \<Rightarrow> simple_network \<Rightarrow> (bool \<times> simple_network) res" where
  "switch_message P i vnet b S =
     bnd (deref (Some b) S) (\<lambda>B.
     bnd (mb_peekMsgPtr B) (\<lambda>unmodified.
     bnd (get_perfect i S) (\<lambda>p.
     bnd (assert_that (length (pf_link_order p) = length (pf_routing_table p))) (\<lambda>_.
     bnd (assert_that (length (pf_link_order p) = length (pf_out p))) (\<lambda>_.
     bnd (adapt_link_order P i vnet S) (\<lambda>S1.
     bnd (get_perfect i S1) (\<lambda>p1.
     bnd (route_of P p1 (msg_destination unmodified)) (\<lambda>(outs, left).
     bnd (assert_that (NetDest_count left = 0)) (\<lambda>_.
     bnd (foldM (check_slot i vnet) outs (True, S1)) (\<lambda>(enough, S2).
     if \<not> enough then Inr (False, sn_scheduleEvent P 1 (SwitchConsumer i) S2)
     else bnd (deliver P i vnet b unmodified outs S2) (\<lambda>S3. Inr (True, S3))))))))))))"

text \<open>
  The loop of \<open>operateMessageBuffer\<close> ends: a turn that goes on takes a ready message from the buffer, and what
  it puts anywhere, even into the same buffer, is not ready before the next cycle.
\<close>

definition ready_count :: "nat \<Rightarrow> simple_network \<Rightarrow> nat" where
  "ready_count b S =
     (if b < length (sn_buffers S)
      then size {#m \<in># mb_msgs (sn_buffers S ! b). msg_LastEnqueueTime m \<le> sn_now S#} else 0)"

lemma put_fields [simp]:
  "sn_buffers (put_switch i sw S) = sn_buffers S" "sn_now (put_switch i sw S) = sn_now S"
  "sn_buffers (put_perfect i p S) = sn_buffers S" "sn_now (put_perfect i p S) = sn_now S"
  "sn_buffers (put_throttle i k th S) = sn_buffers S" "sn_now (put_throttle i k th S) = sn_now S"
  "sn_buffers (sn_scheduleEventAbsolute t c S) = sn_buffers S" "sn_now (sn_scheduleEventAbsolute t c S) = sn_now S"
  "sn_buffers (sn_scheduleEvent P d c S) = sn_buffers S" "sn_now (sn_scheduleEvent P d c S) = sn_now S"
  by (auto simp: put_switch_def put_perfect_def put_throttle_def sn_scheduleEventAbsolute_def sn_scheduleEvent_def
      split: consumer_ref.splits)

lemma deref_eq_Inr: "deref b S = Inr B \<longleftrightarrow> (\<exists>i. b = Some i \<and> i < length (sn_buffers S) \<and> B = sn_buffers S ! i)"
  by (auto simp: deref_def at_eq_Inr split: option.splits)

lemma assign_now [simp]: "sn_now (assign b B S) = sn_now S" "length (sn_buffers (assign b B S)) = length (sn_buffers S)"
  by (auto simp: assign_def split: option.splits)

lemma assign_Some: "sn_buffers (assign (Some i) B S) = (sn_buffers S)[i := B]"
  by (simp add: assign_def)

lemma storeEventInfo_fields: "storeEventInfo info c S = Inr S' \<Longrightarrow> sn_buffers S' = sn_buffers S \<and> sn_now S' = sn_now S"
  by (auto simp: storeEventInfo_def split: consumer_ref.splits)

lemma storeEvents_fields:
  assumes "foldM (\<lambda>(c, t) S2. storeEventInfo info c (sn_scheduleEventAbsolute t c S2)) evs S = Inr S'"
  shows "sn_buffers S' = sn_buffers S \<and> sn_now S' = sn_now S"
  by (rule foldM_invariant [OF assms]) (auto dest!: storeEventInfo_fields)

text \<open>What the operations on the store do to the buffers.\<close>

lemma sn_enqueueE:
  assumes "sn_enqueue b m delta S = Inr S'"
  obtains i R B' evs where "b = Some i" and "i < length (sn_buffers S)"
    and "mb_enqueue m (sn_now S) delta (sn_ruby S, sn_buffers S ! i) = Inr (R, B', evs)"
    and "sn_buffers S' = (sn_buffers S)[i := B']" and "sn_now S' = sn_now S"
proof -
  from assms obtain B R B' evs where B: "deref b S = Inr B" "mb_enqueue m (sn_now S) delta (sn_ruby S, B) = Inr (R, B', evs)"
    and ev: "foldM (\<lambda>(c, t) S2. storeEventInfo (mb_vnet_id B') c (sn_scheduleEventAbsolute t c S2)) evs
      (assign b B' (S\<lparr>sn_ruby := R\<rparr>)) = Inr S'"
    by (auto simp: sn_enqueue_def Let_def)
  from B(1) obtain i where i: "b = Some i" "i < length (sn_buffers S)" "B = sn_buffers S ! i" by (auto simp: deref_eq_Inr)
  show ?thesis
    by (rule that [OF i(1,2)]) (use B(2) i storeEvents_fields [OF ev] in \<open>simp_all add: assign_def\<close>)
qed

lemma sn_dequeueE:
  assumes "sn_dequeue b S = Inr (m, S')"
  obtains i delay B' cb where "b = Some i" and "i < length (sn_buffers S)"
    and "mb_dequeue (sn_now S) True (sn_buffers S ! i) = Inr (delay, m, B', cb)" and "S' = assign (Some i) B' S"
  using assms by (auto simp: sn_dequeue_def deref_eq_Inr)

lemma enqueue_msgs:
  assumes "mb_enqueue m now delta (R, B) = Inr (R', B', evs)"
  obtains arrival d where "now < arrival"
    and "mb_msgs B' = add_mset (m\<lparr>msg_DelayedTicks := d, msg_LastEnqueueTime := arrival, msg_counter := mb_msg_counter B + 1\<rparr>) (mb_msgs B)"
proof -
  from assms obtain arrival last d where "now < arrival" and
    B': "B' = (mb_push (m\<lparr>msg_DelayedTicks := d, msg_LastEnqueueTime := arrival, msg_counter := mb_msg_counter B + 1\<rparr>)
      (enq_counters now (if rs_warmup_enabled R then last else arrival) B))\<lparr>mb_buf_msgs := mb_buf_msgs B + 1\<rparr>"
    by (rule mb_enqueueE)
  show ?thesis by (rule that [OF \<open>now < arrival\<close>, of d]) (simp add: B' mb_msgs_def mb_push_def mset_push_heap enq_counters_def)
qed

lemma dequeue_msgs:
  assumes "mb_dequeue now decr B = Inr (delay, m', B', cb)"
  obtains m where "mb_msgs B = add_mset m (mb_msgs B')" and "msg_LastEnqueueTime m \<le> now" and "mb_peekMsgPtr B = Inr m"
    and "m' = m\<lparr>msg_DelayedTicks := msg_DelayedTicks m + (now - msg_LastEnqueueTime m)\<rparr>"
proof -
  from assms obtain m B1 where pop: "mb_pop B = Inr (m, B1)" and m: "msg_LastEnqueueTime m \<le> now"
    "m' = m\<lparr>msg_DelayedTicks := msg_DelayedTicks m + (now - msg_LastEnqueueTime m)\<rparr>"
    and B': "mb_prio_heap B' = mb_prio_heap B1" by (rule mb_dequeueE) simp
  show ?thesis
    by (rule that [OF _ m(1) _ m(2)])
      (use mbuf.take_Inr [OF pop] B' pop in \<open>auto simp: mb_msgs_def mb_pop_def mb_peekMsgPtr_def split: list.splits\<close>)
qed

definition sn_heaps :: "simple_network \<Rightarrow> tick \<times> message list list" where
  "sn_heaps S = (sn_now S, map mb_prio_heap (sn_buffers S))"

lemma ready_count_heaps:
  "ready_count b S = (case sn_heaps S of (now, hs) \<Rightarrow>
     if b < length hs then size {#m \<in># mset (hs ! b). msg_LastEnqueueTime m \<le> now#} else 0)"
  by (simp add: ready_count_def sn_heaps_def mb_msgs_def)

lemma heaps_ready_count: "sn_heaps S' = sn_heaps S \<Longrightarrow> ready_count b S' = ready_count b S"
  by (simp add: ready_count_heaps)

lemma sn_heaps_put [simp]:
  "sn_heaps (put_switch i sw S) = sn_heaps S" "sn_heaps (put_perfect i p S) = sn_heaps S"
  "sn_heaps (put_throttle i k th S) = sn_heaps S" "sn_heaps (sn_scheduleEventAbsolute t c S) = sn_heaps S"
  "sn_heaps (sn_scheduleEvent P d c S) = sn_heaps S" "sn_heaps (S\<lparr>sn_ruby := R\<rparr>) = sn_heaps S"
  by (simp_all add: sn_heaps_def)

lemma sn_heaps_assign: "deref b S = Inr B \<Longrightarrow> mb_prio_heap B' = mb_prio_heap B \<Longrightarrow> sn_heaps (assign b B' S) = sn_heaps S"
  by (auto simp: deref_eq_Inr sn_heaps_def assign_def map_update intro!: nth_equalityI simp: nth_list_update)

lemma sn_getSize_heaps: "sn_getSize b S = Inr (n, S') \<Longrightarrow> sn_heaps S' = sn_heaps S"
  by (auto simp: sn_getSize_def mb_getSize_def Let_def intro!: sn_heaps_assign)

lemma sn_areNSlotsAvailable_heaps: "sn_areNSlotsAvailable n b S = Inr (r, S') \<Longrightarrow> sn_heaps S' = sn_heaps S"
  by (auto simp: sn_areNSlotsAvailable_def areNSlotsAvailable_def Let_def split: if_splits intro!: sn_heaps_assign)

interpretation check_slots: conserved "check_slot i vnet" "\<lambda>s. sn_heaps (snd s)" for i vnet
  by unfold_locales (auto simp: check_slot_def dest!: sn_areNSlotsAvailable_heaps)

interpretation queue_lengths: conserved "add_queue_length bs" "\<lambda>s. sn_heaps (snd s)" for bs
  by unfold_locales (auto simp: add_queue_length_def dest!: sn_getSize_heaps)

interpretation clogged_links: conserved "clogged_link i" "\<lambda>s. sn_heaps (snd s)" for i
  by unfold_locales (auto simp: clogged_link_def Let_def split: prod.splits dest!: queue_lengths.loop_conserves)

lemma adapt_link_order_heaps: "adapt_link_order P i vnet S = Inr S' \<Longrightarrow> sn_heaps S' = sn_heaps S"
  by (auto simp: adapt_link_order_def split: if_splits dest!: clogged_links.loop_conserves)

lemma sn_enqueue_ready:
  assumes "sn_enqueue b m delta S = Inr S'"
  shows "ready_count j S' = ready_count j S"
proof -
  from assms obtain i R B' evs where i: "i < length (sn_buffers S)"
    and e: "mb_enqueue m (sn_now S) delta (sn_ruby S, sn_buffers S ! i) = Inr (R, B', evs)"
    and S': "sn_buffers S' = (sn_buffers S)[i := B']" "sn_now S' = sn_now S" by (rule sn_enqueueE)
  from e obtain a d where "sn_now S < a" "mb_msgs B' = add_mset (m\<lparr>msg_DelayedTicks := d, msg_LastEnqueueTime := a,
      msg_counter := mb_msg_counter (sn_buffers S ! i) + 1\<rparr>) (mb_msgs (sn_buffers S ! i))" by (rule enqueue_msgs)
  then show ?thesis using i by (auto simp: ready_count_def S' nth_list_update)
qed

interpretation copies_ready: conserved "send_copy P i vnet msg unmodified" "ready_count j" for P i vnet msg unmodified j
  by unfold_locales (auto simp: send_copy_def dest!: sn_enqueue_ready)

lemma sn_dequeue_ready:
  assumes "sn_dequeue (Some b) S = Inr (m, S')"
  shows "ready_count b S' < ready_count b S"
proof -
  from assms obtain B' delay cb where b: "b < length (sn_buffers S)"
    and d: "mb_dequeue (sn_now S) True (sn_buffers S ! b) = Inr (delay, m, B', cb)" and S': "S' = assign (Some b) B' S"
    by (rule sn_dequeueE) simp
  from d obtain m0 where "mb_msgs (sn_buffers S ! b) = add_mset m0 (mb_msgs B')" "msg_LastEnqueueTime m0 \<le> sn_now S"
    by (rule dequeue_msgs)
  then show ?thesis using b by (simp add: ready_count_def S' assign_Some)
qed

lemma switch_messageE:
  assumes "switch_message P i vnet b S = Inr (continue, S')"
  obtains m p S1 p1 outs left enough S2 where "b < length (sn_buffers S)" and "mb_peekMsgPtr (sn_buffers S ! b) = Inr m"
    and "get_perfect i S = Inr p" and "length (pf_link_order p) = length (pf_routing_table p)"
    and "length (pf_link_order p) = length (pf_out p)"
    and "adapt_link_order P i vnet S = Inr S1" and "get_perfect i S1 = Inr p1"
    and "route_of P p1 (msg_destination m) = Inr (outs, left)" and "NetDest_count left = 0"
    and "foldM (check_slot i vnet) outs (True, S1) = Inr (enough, S2)"
    and "if enough then continue \<and> deliver P i vnet b m outs S2 = Inr S'
         else \<not> continue \<and> S' = sn_scheduleEvent P 1 (SwitchConsumer i) S2"
  using assms unfolding switch_message_def
  by (elim bnd_InrE) (auto simp: deref_eq_Inr split: if_splits intro: that)

lemma deliver_ready:
  assumes "deliver P i vnet b m outs S = Inr S'"
  shows "ready_count b S' < ready_count b S"
proof -
  from assms obtain msg S3 S4 where d: "sn_dequeue (Some b) S = Inr (msg, S3)" and n: "count_down i vnet S3 = Inr S4"
    and e: "foldM (send_copy P i vnet msg m) (enumerate 0 outs) S4 = Inr S'" by (auto simp: deliver_def)
  have "ready_count b S' = ready_count b S4" by (rule copies_ready.loop_conserves [OF e])
  also have "\<dots> = ready_count b S3" using n by (auto simp: count_down_def intro!: heaps_ready_count)
  also have "\<dots> < ready_count b S" by (rule sn_dequeue_ready [OF d])
  finally show ?thesis .
qed

lemma switch_message_ready:
  assumes "switch_message P i vnet b S = Inr (True, S')"
  shows "ready_count b S' < ready_count b S"
  using assms
proof (rule switch_messageE)
  fix m p S1 p1 outs left enough S2
  assume a: "adapt_link_order P i vnet S = Inr S1" "foldM (check_slot i vnet) outs (True, S1) = Inr (enough, S2)"
    and "if enough then True \<and> deliver P i vnet b m outs S2 = Inr S'
       else \<not> True \<and> S' = sn_scheduleEvent P 1 (SwitchConsumer i) S2"
  then have "ready_count b S' < ready_count b S2" by (auto split: if_splits intro: deliver_ready)
  also have "\<dots> = ready_count b S"
    using adapt_link_order_heaps [OF a(1)] check_slots.loop_conserves [OF a(2)] by (intro heaps_ready_count) simp
  finally show ?thesis .
qed

function operateMessageBuffer :: "simple_params \<Rightarrow> nat \<Rightarrow> nat \<Rightarrow> nat \<Rightarrow> simple_network \<Rightarrow> simple_network res" where
  "operateMessageBuffer P i vnet b S =
     bnd (sn_isReady (Some b) S) (\<lambda>ready.
     if \<not> ready then Inr S
     else bnd (switch_message P i vnet b S) (\<lambda>(continue, S').
       if continue then operateMessageBuffer P i vnet b S' else Inr S'))"
  by pat_completeness auto
termination
  by (relation "measure (\<lambda>(P, i, vnet, b, S). ready_count b S)") (auto dest: switch_message_ready)

declare operateMessageBuffer.simps [simp del]

definition operate_inport :: "simple_params \<Rightarrow> nat \<Rightarrow> nat \<Rightarrow> nat \<Rightarrow> simple_network \<Rightarrow> simple_network res" where
  "operate_inport P i vnet incoming S =
     bnd (get_perfect i S) (\<lambda>p.
     bnd (at (pf_in p) (int incoming)) (\<lambda>ins.
     if length ins \<le> vnet then Inr S
     else (case ins ! vnet of None \<Rightarrow> Inr S | Some b \<Rightarrow> operateMessageBuffer P i vnet b S)))"

definition PerfectSwitch_operateVnet :: "simple_params \<Rightarrow> nat \<Rightarrow> nat \<Rightarrow> simple_network \<Rightarrow> simple_network res" where
  "PerfectSwitch_operateVnet P i vnet S =
     bnd (get_perfect i S) (\<lambda>p.
     let n = length (pf_in p); incoming = pf_round_robin_start p;
         S1 = put_perfect i (p\<lparr>pf_round_robin_start := rr_next n incoming\<rparr>) S in
     bnd (at (pf_pending_message_count p) (int vnet)) (\<lambda>c.
     if 0 < c then foldM (operate_inport P i vnet) (rr_order n (rr_next n incoming) n) S1 else Inr S1))"

definition PerfectSwitch_wakeup :: "simple_params \<Rightarrow> nat \<Rightarrow> simple_network \<Rightarrow> simple_network res" where
  "PerfectSwitch_wakeup P i S =
     bnd (get_perfect i S) (\<lambda>p.
     let wakeups = pf_wakeups_wo_switch p + 1; invert = (PRIORITY_SWITCH_LIMIT < wakeups);
         vnets = [0..<pf_virtual_networks p];
         S1 = put_perfect i (p\<lparr>pf_wakeups_wo_switch := if invert then 0 else wakeups\<rparr>) S in
     foldM (PerfectSwitch_operateVnet P i) (if invert then vnets else rev vnets) S1)"

section \<open>Throttle\<close>

definition Throttle_new :: "nat \<Rightarrow> nat \<Rightarrow> cycles \<Rightarrow> int \<Rightarrow> int \<Rightarrow> throttle res" where
  "Throttle_new sID node latency link_bandwidth_multiplier endpoint_bandwidth =
     bnd (assert_that (0 < link_bandwidth_multiplier)) (\<lambda>_.
     Inr \<lparr>th_in = [], th_out = [], th_vnets = 0, th_units_remaining = [], th_switch_id = sID, th_node = node,
          th_link_bandwidth_multiplier = link_bandwidth_multiplier, th_link_latency = latency,
          th_wakeups_wo_switch = 0, th_endpoint_bandwidth = endpoint_bandwidth, th_msg_counts = (\<lambda>_ _. 0),
          th_link_utilization_proxy = 0, th_wakeups = []\<rparr>)"

definition getLinkBandwidth :: "throttle \<Rightarrow> int" where
  "getLinkBandwidth t = th_endpoint_bandwidth t * th_link_bandwidth_multiplier t"

definition add_link :: "nat \<Rightarrow> nat \<Rightarrow> buffer_ref \<times> buffer_ref \<Rightarrow> simple_network \<Rightarrow> simple_network res" where
  "add_link i k p S =
     (case p of (in_ptr, out_ptr) \<Rightarrow>
      bnd (get_throttle i k S) (\<lambda>t.
      let S1 = put_throttle i k (t\<lparr>th_vnets := th_vnets t + 1, th_units_remaining := th_units_remaining t @ [0],
                 th_in := th_in t @ [in_ptr], th_out := th_out t @ [out_ptr]\<rparr>) S in
      bnd (deref in_ptr S1) (\<lambda>B.
      bnd (mb_setConsumer (ThrottleConsumer i k) B) (\<lambda>B'.
      Inr (assign in_ptr B' S1)))))"

definition Throttle_addLinks ::
    "nat \<Rightarrow> nat \<Rightarrow> buffer_ref list \<Rightarrow> buffer_ref list \<Rightarrow> simple_network \<Rightarrow> simple_network res" where
  "Throttle_addLinks i k in_vec out_vec S =
     bnd (assert_that (length in_vec = length out_vec)) (\<lambda>_. foldM (add_link i k) (zip in_vec out_vec) S)"

text \<open>\<open>BROADCAST_SCALING\<close> is 1.\<close>

definition network_message_to_size :: "message \<Rightarrow> simple_network \<Rightarrow> int" where
  "network_message_to_size m S = int (MessageSizeType_to_int S (msg_size m)) * MESSAGE_SIZE_MULTIPLIER"

definition units_remaining :: "nat \<Rightarrow> nat \<Rightarrow> nat \<Rightarrow> simple_network \<Rightarrow> int res" where
  "units_remaining i k vnet S = bnd (get_throttle i k S) (\<lambda>t. at (th_units_remaining t) (int vnet))"

definition set_units :: "nat \<Rightarrow> nat \<Rightarrow> nat \<Rightarrow> int \<Rightarrow> simple_network \<Rightarrow> simple_network res" where
  "set_units i k vnet u S =
     bnd (get_throttle i k S) (\<lambda>t.
     bnd (put_at (th_units_remaining t) (int vnet) u) (\<lambda>us.
     Inr (put_throttle i k (t\<lparr>th_units_remaining := us\<rparr>) S)))"

text \<open>
  The condition of the loop, \<open>bw_remaining > 0 && (in->isReady() || units > 0) && out->areNSlotsAvailable(1)\<close>: the
  buffer is asked only if the rest holds. The first result says whether it was asked, the second the answer.
\<close>

definition throttle_busy ::
    "nat \<Rightarrow> nat \<Rightarrow> nat \<Rightarrow> buffer_ref \<Rightarrow> buffer_ref \<Rightarrow> int \<Rightarrow> simple_network \<Rightarrow> (bool \<times> bool \<times> simple_network) res" where
  "throttle_busy i k vnet inb outb bw_remaining S =
     bnd (sn_isReady inb S) (\<lambda>ready.
     bnd (units_remaining i k vnet S) (\<lambda>units.
     if 0 < bw_remaining \<and> (ready \<or> 0 < units)
     then bnd (sn_areNSlotsAvailable 1 outb S) (\<lambda>(r, S'). Inr (True, r, S'))
     else Inr (False, False, S)))"

definition count_message :: "nat \<Rightarrow> nat \<Rightarrow> MessageSizeType \<Rightarrow> nat \<Rightarrow> simple_network \<Rightarrow> simple_network res" where
  "count_message i k ty vnet S =
     bnd (get_throttle i k S) (\<lambda>t.
     Inr (put_throttle i k (t\<lparr>th_msg_counts := (\<lambda>ty' v. if ty' = ty \<and> v = vnet then th_msg_counts t ty' v + 1
                                                       else th_msg_counts t ty' v)\<rparr>) S))"

definition start_message ::
    "simple_params \<Rightarrow> nat \<Rightarrow> nat \<Rightarrow> nat \<Rightarrow> buffer_ref \<Rightarrow> buffer_ref \<Rightarrow> simple_network \<Rightarrow> simple_network res" where
  "start_message P i k vnet inb outb S =
     bnd (deref inb S) (\<lambda>B.
     bnd (mb_peekMsgPtr B) (\<lambda>m.
     bnd (units_remaining i k vnet S) (\<lambda>units.
     bnd (set_units i k vnet (units + network_message_to_size m S) S) (\<lambda>S1.
     bnd (sn_dequeue inb S1) (\<lambda>(m', S2).
     bnd (get_throttle i k S2) (\<lambda>t.
     bnd (sn_enqueue outb m' (sp_clockPeriod P * th_link_latency t) S2) (\<lambda>S3.
     count_message i k (msg_size m') vnet S3)))))))"

definition throttle_turn ::
    "simple_params \<Rightarrow> nat \<Rightarrow> nat \<Rightarrow> nat \<Rightarrow> buffer_ref \<Rightarrow> buffer_ref \<Rightarrow> int \<Rightarrow> simple_network \<Rightarrow> (int \<times> simple_network) res" where
  "throttle_turn P i k vnet inb outb bw_remaining S =
     bnd (units_remaining i k vnet S) (\<lambda>units.
     bnd (sn_isReady inb S) (\<lambda>ready.
     bnd (if units = 0 \<and> ready then start_message P i k vnet inb outb S else Inr S) (\<lambda>S1.
     bnd (units_remaining i k vnet S1) (\<lambda>units1.
     let diff = units1 - bw_remaining in
     bnd (set_units i k vnet (max 0 diff) S1) (\<lambda>S2.
     Inr (max 0 (- diff), S2))))))"

text \<open>
  The loop of \<open>operateVnet\<close> ends: a turn either takes a ready message, or spends the bandwidth on the message that
  is on its way, after which one of the two is used up.
\<close>

definition ref_ready :: "buffer_ref \<Rightarrow> simple_network \<Rightarrow> nat" where
  "ref_ready b S = (case b of None \<Rightarrow> 0 | Some i \<Rightarrow> ready_count i S)"

definition throttle_measure :: "nat \<Rightarrow> nat \<Rightarrow> nat \<Rightarrow> buffer_ref \<Rightarrow> int \<Rightarrow> simple_network \<Rightarrow> nat" where
  "throttle_measure i k vnet inb bw S =
     2 * ref_ready inb S + (if 0 < bw \<and> units_remaining i k vnet S \<noteq> Inr 0 then 1 else 0)"

lemma heaps_ref_ready: "sn_heaps S' = sn_heaps S \<Longrightarrow> ref_ready b S' = ref_ready b S"
  by (auto simp: ref_ready_def intro: heaps_ready_count split: option.splits)

lemma get_throttle_eq_Inr:
  "get_throttle i k S = Inr t \<longleftrightarrow> i < length (sn_switches S) \<and> k < length (sw_throttles (sn_switches S ! i)) \<and>
     t = sw_throttles (sn_switches S ! i) ! k"
  by (auto simp: get_throttle_def get_switch_def bnd_eq_Inr at_eq_Inr)

lemma get_put_throttle:
  "i < length (sn_switches S) \<Longrightarrow> k < length (sw_throttles (sn_switches S ! i)) \<Longrightarrow> get_throttle i k (put_throttle i k t S) = Inr t"
  by (simp add: get_throttle_eq_Inr put_throttle_def put_switch_def)

lemma set_unitsE:
  assumes "set_units i k vnet u S = Inr S'"
  shows "sn_heaps S' = sn_heaps S" and "units_remaining i k vnet S' = Inr u"
  using assms
  by (auto simp: set_units_def units_remaining_def get_throttle_eq_Inr put_at_eq_Inr at_eq_Inr bnd_eq_Inr put_throttle_def put_switch_def
      sn_heaps_def)

lemma start_message_ready:
  assumes "start_message P i k vnet inb outb S = Inr S'"
  shows "ref_ready inb S' < ref_ready inb S"
proof -
  from assms obtain u S1 m S2 d S3 ty where s: "set_units i k vnet u S = Inr S1" and d: "sn_dequeue inb S1 = Inr (m, S2)"
    and e: "sn_enqueue outb m d S2 = Inr S3" and c: "count_message i k ty vnet S3 = Inr S'"
    by (auto simp: start_message_def)
  obtain b where b: "inb = Some b" using d by (rule sn_dequeueE)
  have "ready_count b S' = ready_count b S3" using c by (auto simp: count_message_def intro!: heaps_ready_count)
  also have "\<dots> = ready_count b S2" by (rule sn_enqueue_ready [OF e])
  also have "\<dots> < ready_count b S1" using d b sn_dequeue_ready by simp
  also have "\<dots> = ready_count b S" by (rule heaps_ready_count [OF set_unitsE(1) [OF s]])
  finally show ?thesis by (simp add: ref_ready_def b)
qed

lemma throttle_busyE:
  assumes "throttle_busy i k vnet inb outb bw S = Inr (True, r, S')"
  obtains u where "0 < bw" and "units_remaining i k vnet S = Inr u" and "sn_isReady inb S = Inr (u \<le> 0) \<or> 0 < u \<or> sn_isReady inb S = Inr True"
    and "sn_areNSlotsAvailable 1 outb S = Inr (r, S')"
  using assms by (auto simp: throttle_busy_def split: if_splits)

lemma sn_areNSlots_throttle:
  "sn_areNSlotsAvailable n b S = Inr (r, S') \<Longrightarrow> sn_switches S' = sn_switches S"
  by (auto simp: sn_areNSlotsAvailable_def assign_def Let_def split: prod.splits option.splits)

lemma throttle_turn_measure:
  assumes busy: "throttle_busy i k vnet inb outb bw S = Inr (True, True, S1)"
    and turn: "throttle_turn P i k vnet inb outb bw S1 = Inr (bw', S2)"
  shows "throttle_measure i k vnet inb bw' S2 < throttle_measure i k vnet inb bw S"
proof -
  from busy obtain u where bw: "0 < bw" and u: "units_remaining i k vnet S = Inr u"
    and a: "sn_areNSlotsAvailable 1 outb S = Inr (True, S1)" and rd: "u \<noteq> 0 \<or> sn_isReady inb S = Inr True"
    by (rule throttle_busyE) auto
  note h = sn_areNSlotsAvailable_heaps [OF a] sn_areNSlots_throttle [OF a]
  have u1: "units_remaining i k vnet S1 = Inr u"
    using u h(2) by (simp add: units_remaining_def get_throttle_def get_switch_def)
  have r1: "ref_ready inb S1 = ref_ready inb S" by (rule heaps_ref_ready [OF h(1)])
  from turn u1 obtain ready S3 u3 where "sn_isReady inb S1 = Inr ready"
    and s: "(if u = 0 \<and> ready then start_message P i k vnet inb outb S1 else Inr S1) = Inr S3"
    and u3: "units_remaining i k vnet S3 = Inr u3"
    and w: "set_units i k vnet (max 0 (u3 - bw)) S3 = Inr S2" and bw': "bw' = max 0 (bw - u3)"
    by (auto simp: throttle_turn_def Let_def)
  note e = set_unitsE [OF w] heaps_ref_ready [OF set_unitsE(1) [OF w]]
  show ?thesis
  proof (cases "u = 0 \<and> ready")
    case True
    with s have "ref_ready inb S3 < ref_ready inb S1" by (auto intro: start_message_ready)
    then show ?thesis using e r1 by (simp add: throttle_measure_def)
  next
    case False
    have "u \<noteq> 0"
    proof
      assume "u = 0"
      with rd have "sn_isReady inb S = Inr True" by simp
      then have "sn_isReady inb S1 = Inr True"
        using a by (auto simp: sn_isReady_def sn_areNSlotsAvailable_def deref_eq_Inr bnd_eq_Inr assign_def areNSlotsAvailable_def
            Let_def nth_list_update mb_isReady_def split: if_splits)
      with False \<open>u = 0\<close> \<open>sn_isReady inb S1 = Inr ready\<close> show False by simp
    qed
    with False s have "S3 = S1" "u3 = u" using u3 u1 by auto
    then show ?thesis using e r1 u bw bw' \<open>u \<noteq> 0\<close> by (auto simp: throttle_measure_def max_def)
  qed
qed

function throttle_loop ::
    "simple_params \<Rightarrow> nat \<Rightarrow> nat \<Rightarrow> nat \<Rightarrow> buffer_ref \<Rightarrow> buffer_ref \<Rightarrow> int \<Rightarrow> simple_network \<Rightarrow> (int \<times> simple_network) res" where
  "throttle_loop P i k vnet inb outb bw_remaining S =
     bnd (throttle_busy i k vnet inb outb bw_remaining S) (\<lambda>(asked, free, S1).
     if asked \<and> free then
       bnd (throttle_turn P i k vnet inb outb bw_remaining S1) (\<lambda>(bw', S2).
       throttle_loop P i k vnet inb outb bw' S2)
     else Inr (bw_remaining, S1))"
  by pat_completeness auto
termination
  by (relation "measure (\<lambda>(P, i, k, vnet, inb, outb, bw, S). throttle_measure i k vnet inb bw S)")
    (auto dest: throttle_turn_measure)

declare throttle_loop.simps [simp del]

definition Throttle_operateVnet ::
    "simple_params \<Rightarrow> nat \<Rightarrow> nat \<Rightarrow> nat \<Rightarrow> int \<times> bool \<times> simple_network \<Rightarrow> (int \<times> bool \<times> simple_network) res" where
  "Throttle_operateVnet P i k vnet s =
     (case s of (bw_remaining, schedule_wakeup, S) \<Rightarrow>
      bnd (get_throttle i k S) (\<lambda>t.
      bnd (at (th_in t) (int vnet)) (\<lambda>inb.
      bnd (at (th_out t) (int vnet)) (\<lambda>outb.
      if outb = None \<or> inb = None then Inr s
      else
        bnd (units_remaining i k vnet S) (\<lambda>units.
        bnd (assert_that (0 \<le> units)) (\<lambda>_.
        bnd (throttle_loop P i k vnet inb outb bw_remaining S) (\<lambda>(bw', S1).
        bnd (throttle_busy i k vnet inb outb bw' S1) (\<lambda>(asked, free, S2).
        Inr (bw', schedule_wakeup \<or> (asked \<and> \<not> free), S2)))))))))"

definition Throttle_wakeup :: "simple_params \<Rightarrow> nat \<Rightarrow> nat \<Rightarrow> simple_network \<Rightarrow> simple_network res" where
  "Throttle_wakeup P i k S =
     bnd (get_throttle i k S) (\<lambda>t.
     bnd (assert_that (0 < getLinkBandwidth t)) (\<lambda>_.
     let wakeups = th_wakeups_wo_switch t + 1; iteration_direction = (PRIORITY_SWITCH_LIMIT < wakeups);
         vnets = [0..<th_vnets t];
         S1 = put_throttle i k (t\<lparr>th_wakeups_wo_switch := if iteration_direction then 0 else wakeups\<rparr>) S in
     bnd (foldM (Throttle_operateVnet P i k) (if iteration_direction then vnets else rev vnets)
           (getLinkBandwidth t, False, S1)) (\<lambda>(bw_remaining, schedule_wakeup, S2).
     bnd (get_throttle i k S2) (\<lambda>t2.
     let S3 = put_throttle i k (t2\<lparr>th_link_utilization_proxy :=
                th_link_utilization_proxy t2 + (getLinkBandwidth t2 - bw_remaining)\<rparr>) S2 in
     Inr (if 0 < bw_remaining \<and> \<not> schedule_wakeup then S3
          else sn_scheduleEvent P 1 (ThrottleConsumer i k) S3)))))"

definition Throttle_clearStats :: "throttle \<Rightarrow> throttle" where
  "Throttle_clearStats t = t\<lparr>th_link_utilization_proxy := 0\<rparr>"

section \<open>Switch\<close>

definition Switch_new :: "nat \<Rightarrow> nat \<Rightarrow> buffer_ref list \<Rightarrow> switch" where
  "Switch_new sid virt_nets port_buffers =
     \<lparr>sw_id = sid, sw_perfect_switch = PerfectSwitch_new sid virt_nets, sw_throttles = [],
      sw_port_buffers = port_buffers, sw_num_connected_buffers = 0\<rparr>"

definition Switch_init :: "switch \<Rightarrow> switch" where
  "Switch_init sw = sw\<lparr>sw_perfect_switch := PerfectSwitch_init (sw_perfect_switch sw)\<rparr>"

definition Switch_addInPort :: "nat \<Rightarrow> buffer_ref list \<Rightarrow> simple_network \<Rightarrow> simple_network res" where
  "Switch_addInPort i ins S = PerfectSwitch_addInPort i ins S"

definition take_port_buffer :: "nat \<Rightarrow> switch \<times> buffer_ref list \<Rightarrow> (switch \<times> buffer_ref list) res" where
  "take_port_buffer n s =
     (case s of (sw, bufs) \<Rightarrow>
      bnd (assert_that (sw_num_connected_buffers sw < length (sw_port_buffers sw))) (\<lambda>_.
      Inr (sw\<lparr>sw_num_connected_buffers := sw_num_connected_buffers sw + 1\<rparr>,
           bufs @ [sw_port_buffers sw ! sw_num_connected_buffers sw])))"

definition Switch_addOutPort ::
    "nat \<Rightarrow> buffer_ref list \<Rightarrow> net_dest \<Rightarrow> cycles \<Rightarrow> int \<Rightarrow> simple_network \<Rightarrow> simple_network res" where
  "Switch_addOutPort i out routing_table_entry latency bw_multiplier S =
     bnd (get_switch i S) (\<lambda>sw.
     bnd (Throttle_new (sw_id sw) (length (sw_throttles sw)) latency bw_multiplier (sn_endpoint_bandwidth S)) (\<lambda>t.
     let sw1 = sw\<lparr>sw_throttles := sw_throttles sw @ [t]\<rparr> in
     bnd (foldM take_port_buffer [0..<length out] (sw1, [])) (\<lambda>(sw2, intermediateBuffers).
     let sw3 = sw2\<lparr>sw_perfect_switch := PerfectSwitch_addOutPort intermediateBuffers routing_table_entry (sw_perfect_switch sw2)\<rparr> in
     Throttle_addLinks i (length (sw_throttles sw)) intermediateBuffers out (put_switch i sw3 S))))"

definition Switch_resetStats :: "switch \<Rightarrow> switch" where
  "Switch_resetStats sw = sw\<lparr>sw_throttles := map Throttle_clearStats (sw_throttles sw)\<rparr>"

definition Switch_functionalWrite :: "(message \<Rightarrow> bool) \<Rightarrow> switch \<Rightarrow> simple_network \<Rightarrow> nat res" where
  "Switch_functionalWrite fw sw S =
     foldM (\<lambda>b n. bnd (deref b S) (\<lambda>B. Inr (n + mb_functionalWrite fw B))) (sw_port_buffers sw) 0"

section \<open>SimpleNetwork\<close>

definition SimpleNetwork_new ::
    "simple_params \<Rightarrow> network_params \<Rightarrow> switch list \<Rightarrow> buffer_ref list \<Rightarrow> int \<Rightarrow> int \<Rightarrow> bool \<Rightarrow> message_buffer list \<Rightarrow>
     ruby_state \<Rightarrow> simple_network res" where
  "SimpleNetwork_new P p routers int_link_buffers buffer_size endpoint_bandwidth adaptive_routing buffers R =
     bnd (Network_new (sp_machines P) p) (\<lambda>N.
     Inr (network_base.extend N
       \<lparr>sn_switches = routers, sn_int_link_buffers = int_link_buffers, sn_num_connected_buffers = 0,
        sn_buffer_size = buffer_size, sn_endpoint_bandwidth = endpoint_bandwidth, sn_adaptive_routing = adaptive_routing,
        sn_buffers = buffers, sn_ruby = R, sn_now = 0\<rparr>))"

definition SimpleNetwork_makeExtOutLink :: "nat \<Rightarrow> nat \<Rightarrow> link \<Rightarrow> net_dest \<Rightarrow> simple_network \<Rightarrow> simple_network res" where
  "SimpleNetwork_makeExtOutLink src dest link routing_table_entry S =
     bnd (assert_that (dest < nw_nodes S)) (\<lambda>_.
     bnd (assert_that (src < length (sn_switches S))) (\<lambda>_.
     (case link of
        IntLink _ \<Rightarrow> Inl (Panic ''safe_cast'')
      | ExtLink l \<Rightarrow>
          bnd (at (nw_fromNetQueues S) (int dest)) (\<lambda>out.
          Switch_addOutPort src out routing_table_entry (bl_latency l) (bl_bandwidth_factor l) S))))"

definition SimpleNetwork_makeExtInLink :: "nat \<Rightarrow> nat \<Rightarrow> link \<Rightarrow> net_dest \<Rightarrow> simple_network \<Rightarrow> simple_network res" where
  "SimpleNetwork_makeExtInLink src dest link routing_table_entry S =
     bnd (assert_that (src < nw_nodes S)) (\<lambda>_.
     bnd (at (nw_toNetQueues S) (int src)) (\<lambda>ins. Switch_addInPort dest ins S))"

definition take_link_buffer :: "nat \<Rightarrow> simple_network \<times> buffer_ref list \<Rightarrow> (simple_network \<times> buffer_ref list) res" where
  "take_link_buffer n s =
     (case s of (S, queues) \<Rightarrow>
      bnd (assert_that (sn_num_connected_buffers S < length (sn_int_link_buffers S))) (\<lambda>_.
      Inr (S\<lparr>sn_num_connected_buffers := sn_num_connected_buffers S + 1\<rparr>,
           queues @ [sn_int_link_buffers S ! sn_num_connected_buffers S])))"

definition SimpleNetwork_makeInternalLink ::
    "nat \<Rightarrow> nat \<Rightarrow> link \<Rightarrow> net_dest \<Rightarrow> port_direction \<Rightarrow> port_direction \<Rightarrow> simple_network \<Rightarrow> simple_network res" where
  "SimpleNetwork_makeInternalLink src dest link routing_table_entry src_outport dst_inport S =
     bnd (foldM take_link_buffer [0..<nw_virtual_networks S] (S, [])) (\<lambda>(S1, queues).
     (case link of
        ExtLink _ \<Rightarrow> Inl (Panic ''safe_cast'')
      | IntLink l \<Rightarrow>
          bnd (Switch_addInPort dest queues S1)
            (Switch_addOutPort src queues routing_table_entry (bl_latency l) (bl_bandwidth_factor l))))"

definition simple_class :: "simple_network network_class" where
  "simple_class =
     \<lparr>nc_makeExtInLink = SimpleNetwork_makeExtInLink, nc_makeExtOutLink = SimpleNetwork_makeExtOutLink,
      nc_makeInternalLink = SimpleNetwork_makeInternalLink\<rparr>"

definition SimpleNetwork_init :: "simple_params \<Rightarrow> nat \<Rightarrow> simple_network \<Rightarrow> simple_network res option" where
  "SimpleNetwork_init P block_size S =
     (let S1 = Network_init block_size S in createLinks simple_class (sp_machines P) (nw_topology S1) S1)"

definition SimpleNetwork_functionalWrite :: "(message \<Rightarrow> bool) \<Rightarrow> simple_network \<Rightarrow> nat res" where
  "SimpleNetwork_functionalWrite fw S =
     bnd (foldM (\<lambda>sw n. bnd (Switch_functionalWrite fw sw S) (\<lambda>k. Inr (n + k))) (sn_switches S) 0) (\<lambda>n.
     foldM (\<lambda>b n. bnd (deref b S) (\<lambda>B. Inr (n + mb_functionalWrite fw B))) (sn_int_link_buffers S) n)"

end
