(* ===== verification/Simple_Build.thy ===== *)
theory Simple_Build
  imports Simple_Network Topology_Correct
begin

text \<open>
  The construction of a simple network: the second network model that \<open>createLinks\<close> connects. Every output port of
  a switch gets its routing table entry, its place in the order of the links and its throttle.
\<close>

definition ports_match :: "switch \<Rightarrow> bool" where
  "ports_match sw \<longleftrightarrow>
     (let p = sw_perfect_switch sw; n = length (pf_out p) in
      length (pf_routing_table p) = n \<and> map lo_link (pf_link_order p) = [0..<n] \<and> length (sw_throttles sw) = n)"

definition switches_match :: "simple_network \<Rightarrow> bool" where
  "switches_match S \<longleftrightarrow> (\<forall>sw \<in> set (sn_switches S). ports_match sw)"

lemma switches_match_put: "switches_match S \<Longrightarrow> ports_match sw \<Longrightarrow> switches_match (put_switch i sw S)"
  using set_update_subset_insert [of "sn_switches S" i sw] by (auto simp: switches_match_def put_switch_def)

lemma switches_match_assign [simp]: "switches_match (assign b B S) = switches_match S"
  by (simp add: switches_match_def assign_def split: option.splits)

lemma PerfectSwitch_addInPort_match:
  assumes "PerfectSwitch_addInPort i ins S = Inr S'" and "switches_match S"
  shows "switches_match S'"
proof -
  from assms(1) obtain sw where sw: "get_switch i S = Inr sw"
    and S': "foldM (connect_in_buffer i (length (pf_in (sw_perfect_switch sw)))) (enumerate 0 ins)
      (put_perfect i ((sw_perfect_switch sw)\<lparr>pf_in := pf_in (sw_perfect_switch sw) @ [ins]\<rparr>) S) = Inr S'"
    by (auto simp: PerfectSwitch_addInPort_def get_perfect_def Let_def)
  have "ports_match sw" "sn_switches S ! i = sw" using sw assms(2) by (auto simp: get_switch_def at_eq_Inr switches_match_def)
  then have "switches_match (put_perfect i ((sw_perfect_switch sw)\<lparr>pf_in := pf_in (sw_perfect_switch sw) @ [ins]\<rparr>) S)"
    using assms(2) unfolding put_perfect_def by (intro switches_match_put) (simp_all add: ports_match_def Let_def)
  with S' show ?thesis by (rule foldM_invariant) (auto simp: connect_in_buffer_def split: option.splits)
qed

lemma add_link_match:
  assumes "add_link i k p S = Inr S'" and "switches_match S"
  shows "switches_match S'"
proof -
  from assms(1) obtain t sw in_ptr B where sw: "get_switch i S = Inr sw" and S': "S' = assign in_ptr B (put_throttle i k t S)"
    by (auto simp: add_link_def get_throttle_def Let_def split: prod.splits)
  have "ports_match sw" "sn_switches S ! i = sw" using sw assms(2) by (auto simp: get_switch_def at_eq_Inr switches_match_def)
  then show ?thesis using assms(2) by (auto simp: S' put_throttle_def ports_match_def intro!: switches_match_put)
qed

lemma take_port_buffers:
  assumes "foldM take_port_buffer ns (sw, bs) = Inr (sw', bs')"
  shows "sw_perfect_switch sw' = sw_perfect_switch sw" and "sw_throttles sw' = sw_throttles sw"
proof -
  from assms have "(\<lambda>(s, _). sw_perfect_switch s = sw_perfect_switch sw \<and> sw_throttles s = sw_throttles sw) (sw', bs')"
    by (rule foldM_invariant) (auto simp: take_port_buffer_def)
  then show "sw_perfect_switch sw' = sw_perfect_switch sw" "sw_throttles sw' = sw_throttles sw" by simp_all
qed

lemma Switch_addOutPort_match:
  assumes "Switch_addOutPort i out nd latency bw S = Inr S'" and "switches_match S"
  shows "switches_match S'"
proof -
  from assms(1) obtain sw t sw2 bs where sw: "get_switch i S = Inr sw"
    and bs: "foldM take_port_buffer [0..<length out] (sw\<lparr>sw_throttles := sw_throttles sw @ [t]\<rparr>, []) = Inr (sw2, bs)"
    and S': "foldM (add_link i (length (sw_throttles sw))) (zip bs out)
      (put_switch i (sw2\<lparr>sw_perfect_switch := PerfectSwitch_addOutPort bs nd (sw_perfect_switch sw2)\<rparr>) S) = Inr S'"
    by (auto simp: Switch_addOutPort_def Throttle_addLinks_def Let_def)
  have "ports_match sw" using sw assms(2) by (auto simp: get_switch_def at_eq_Inr switches_match_def)
  then have "switches_match (put_switch i (sw2\<lparr>sw_perfect_switch := PerfectSwitch_addOutPort bs nd (sw_perfect_switch sw2)\<rparr>) S)"
    using assms(2) take_port_buffers [OF bs]
    by (intro switches_match_put) (simp_all add: ports_match_def PerfectSwitch_addOutPort_def Let_def)
  with S' show ?thesis by (rule foldM_invariant) (rule add_link_match)
qed

lemma take_link_buffers:
  assumes "foldM take_link_buffer ns (S, qs) = Inr (S', qs')" and "switches_match S"
  shows "switches_match S'"
proof -
  from assms(1) have "(\<lambda>(S, _). switches_match S) (S', qs')"
    by (rule foldM_invariant) (use assms(2) in \<open>auto simp: take_link_buffer_def switches_match_def\<close>)
  then show ?thesis by simp
qed

interpretation simple_links: link_maker simple_class "\<lambda>_. True" switches_match
proof unfold_locales
  fix l S S' src dest entry a b
  assume m: "switches_match S"
  show "switches_match S'" if "nc_makeExtInLink simple_class src dest l entry S = Inr S'"
    using that m by (auto simp: simple_class_def SimpleNetwork_makeExtInLink_def Switch_addInPort_def intro: PerfectSwitch_addInPort_match)
  show "switches_match S'" if "nc_makeExtOutLink simple_class src dest l entry S = Inr S'"
    using that m by (auto simp: simple_class_def SimpleNetwork_makeExtOutLink_def split: link.splits intro: Switch_addOutPort_match)
  show "switches_match S'" if "nc_makeInternalLink simple_class src dest l entry a b S = Inr S'"
    using that m take_link_buffers PerfectSwitch_addInPort_match Switch_addOutPort_match
    by (fastforce simp: simple_class_def SimpleNetwork_makeInternalLink_def Switch_addInPort_def split: link.splits)
qed

lemma SimpleNetwork_init_match:
  assumes "SimpleNetwork_init P block_size S = Some (Inr S')" and "switches_match S"
  shows "switches_match S'"
  using assms(1) unfolding SimpleNetwork_init_def Let_def
  by (rule simple_links.createLinks_keeps) (use assms(2) in \<open>simp_all add: switches_match_def Network_init_def\<close>)

end
