(* ===== verification/Simple_Routing.thy ===== *)
theory Simple_Routing
  imports Simple_Network
begin

unbundle bit_operations_syntax

text \<open>
  How \<open>PerfectSwitch\<close> routes: the shares that \<open>route_links\<close> gives to the links are a partition of the set of
  destinations of the message, each within the routing table entry of its link.
\<close>

section \<open>Destinations\<close>

lemma NetDest_AND_ok:
  assumes M: "machines_ok M" and "dest_ok M nd" and "dest_ok M other"
  shows "\<exists>d. NetDest_AND M nd other = Inr d \<and> dest_ok M d \<and> nd_elems d = nd_elems nd \<inter> nd_elems other"
proof -
  let ?g = "\<lambda>s t. \<lparr>set_size = set_size s, set_bits = set_bits s AND set_bits t\<rparr>"
  let ?bs = "map2 ?g (nd_bits nd) (nd_bits other)"
  have len: "length (nd_bits nd) = mt_num M" "length (nd_bits other) = mt_num M" using assms by (simp_all add: dest_ok_def)
  have z: "zip_with Set_AND (nd_bits nd) (nd_bits other) = Inr ?bs"
    using assms len by (intro zip_with_total) (auto simp: dest_ok_def Set_AND_def)
  obtain r where r: "NetDest_new M = Inr r" "dest_ok M r" using NetDest_new_ok [OF M] by blast
  then have lr: "length (nd_bits r) = mt_num M" by (simp add: dest_ok_def)
  have d: "NetDest_AND M nd other = Inr (r\<lparr>nd_bits := ?bs\<rparr>)"
    using z r len lr by (simp add: NetDest_AND_def overwrite_prefix_def)
  have e: "set_elems (?g s t) = set_elems s \<inter> set_elems t" for s t :: node_set
    by (auto simp: set_elems_def bit_simps)
  have "dest_ok M (r\<lparr>nd_bits := ?bs\<rparr>)" using assms(2) len by (force simp: dest_ok_def set_elems_def bit_simps)
  moreover have "nd_elems (r\<lparr>nd_bits := ?bs\<rparr>) = nd_elems nd \<inter> nd_elems other"
    using len by (auto simp: nd_elems_def e)
  ultimately show ?thesis using d by blast
qed

lemma NetDest_intersection_ok:
  "dest_ok M nd \<Longrightarrow> dest_ok M other \<Longrightarrow>
   NetDest_intersectionIsNotEmpty nd other = Inr (nd_elems nd \<inter> nd_elems other \<noteq> {})"
  using NetDest_intersectionIsNotEmpty_iff [of nd other]
  by (simp add: NetDest_intersectionIsNotEmpty_def dest_ok_def)

lemma finite_nd_elems [simp]: "finite (nd_elems nd)"
proof (rule finite_subset)
  show "nd_elems nd \<subseteq> {..<length (nd_bits nd)} \<times> {..<NUMBER_BITS_PER_SET}"
    by (auto simp: nd_elems_def set_elems_def dest: bit_bound)
qed simp

lemma NetDest_count_0: "NetDest_count nd = 0 \<longleftrightarrow> nd_elems nd = {}"
proof -
  have "finite (set_elems s)" for s
    by (rule finite_subset [of _ "{..<NUMBER_BITS_PER_SET}"]) (auto simp: set_elems_def dest: bit_bound)
  then have "Set_count s = 0 \<longleftrightarrow> set_elems s = {}" for s by (simp add: Set_count_card)
  then show ?thesis by (force simp: NetDest_count_def nd_elems_def in_set_conv_nth)
qed

section \<open>Routing\<close>

lemma route_links_ok:
  assumes M: "machines_ok M" and table: "\<forall>d \<in> set table. dest_ok M d"
  shows "dest_ok M dsts \<Longrightarrow> set links \<subseteq> {..<length table} \<Longrightarrow>
    \<exists>outs left. route_links M table links dsts = Inr (outs, left) \<and> dest_ok M left \<and>
      nd_elems left = nd_elems dsts - (\<Union>l \<in> set links. nd_elems (table ! l)) \<and>
      (\<forall>(l, d) \<in> set outs. l \<in> set links \<and> dest_ok M d \<and> nd_elems d \<noteq> {} \<and> nd_elems d \<subseteq> nd_elems (table ! l)) \<and>
      mset_set (nd_elems dsts) = sum_list (map (\<lambda>(l, d). mset_set (nd_elems d)) outs) + mset_set (nd_elems left) \<and>
      (distinct links \<longrightarrow> distinct (map fst outs))"
proof (induction links arbitrary: dsts)
  case (Cons l links)
  have l: "l < length table" and dl: "dest_ok M (table ! l)" using Cons.prems(2) table by auto
  note int = NetDest_intersection_ok [OF Cons.prems(1) dl]
  show ?case
  proof (cases "nd_elems dsts \<inter> nd_elems (table ! l) = {}")
    case True
    have ls: "set links \<subseteq> {..<length table}" using Cons.prems(2) by simp
    from Cons.IH [OF Cons.prems(1) ls] obtain outs left where
      "route_links M table links dsts = Inr (outs, left)" "dest_ok M left"
      "nd_elems left = nd_elems dsts - (\<Union>l \<in> set links. nd_elems (table ! l))"
      "\<forall>(l, d) \<in> set outs. l \<in> set links \<and> dest_ok M d \<and> nd_elems d \<noteq> {} \<and> nd_elems d \<subseteq> nd_elems (table ! l)"
      "mset_set (nd_elems dsts) = sum_list (map (\<lambda>(l, d). mset_set (nd_elems d)) outs) + mset_set (nd_elems left)"
      "distinct links \<longrightarrow> distinct (map fst outs)" by blast
    then show ?thesis using True l int by (intro exI [of _ outs] exI [of _ left]) auto
  next
    case False
    obtain d where d: "NetDest_AND M dsts (table ! l) = Inr d" "dest_ok M d" "nd_elems d = nd_elems dsts \<inter> nd_elems (table ! l)"
      using NetDest_AND_ok [OF M Cons.prems(1) dl] by blast
    obtain dsts' where r: "NetDest_removeNetDest dsts (table ! l) = Inr dsts'" "dest_ok M dsts'"
      "nd_elems dsts' = nd_elems dsts - nd_elems (table ! l)"
      using NetDest_removeNetDest_ok [OF Cons.prems(1) dl] by blast
    have ls: "set links \<subseteq> {..<length table}" using Cons.prems(2) by simp
    from Cons.IH [OF r(2) ls] obtain outs left where o:
      "route_links M table links dsts' = Inr (outs, left)" "dest_ok M left"
      "nd_elems left = nd_elems dsts' - (\<Union>l \<in> set links. nd_elems (table ! l))"
      "\<forall>(l, d) \<in> set outs. l \<in> set links \<and> dest_ok M d \<and> nd_elems d \<noteq> {} \<and> nd_elems d \<subseteq> nd_elems (table ! l)"
      "mset_set (nd_elems dsts') = sum_list (map (\<lambda>(l, d). mset_set (nd_elems d)) outs) + mset_set (nd_elems left)"
      "distinct links \<longrightarrow> distinct (map fst outs)" by blast
    have "nd_elems dsts = nd_elems d \<union> nd_elems dsts'" "nd_elems d \<inter> nd_elems dsts' = {}" using d r by auto
    then have "mset_set (nd_elems dsts) = mset_set (nd_elems d) + mset_set (nd_elems dsts')"
      by (simp add: mset_set_Union)
    then show ?thesis using False l int d r o
      by (intro exI [of _ "(l, d) # outs"] exI [of _ left]) (auto simp: ac_simps)
  qed
qed simp

text \<open>A switch whose links cover a set of destinations finds the links for it, whatever the order of the links.\<close>

lemma route_of_ok:
  assumes M: "machines_ok (sp_machines P)" and table: "\<forall>d \<in> set (pf_routing_table p). dest_ok (sp_machines P) d"
    and order: "mset (map lo_link (pf_link_order p)) = mset [0..<length (pf_routing_table p)]"
    and d: "dest_ok (sp_machines P) d" "nd_elems d \<subseteq> (\<Union>e \<in> set (pf_routing_table p). nd_elems e)"
  shows "\<exists>outs left. route_of P p d = Inr (outs, left) \<and> NetDest_count left = 0 \<and> distinct (map fst outs) \<and>
      (\<forall>(l, s) \<in> set outs. l < length (pf_routing_table p) \<and> dest_ok (sp_machines P) s \<and> nd_elems s \<noteq> {} \<and>
         nd_elems s \<subseteq> nd_elems (pf_routing_table p ! l)) \<and>
      mset_set (nd_elems d) = sum_list (map (\<lambda>(l, s). mset_set (nd_elems s)) outs)"
proof -
  let ?links = "map lo_link (pf_link_order p)"
  have len: "length (pf_link_order p) = length (pf_routing_table p)" using order by (metis length_map length_upt minus_nat.diff_0 size_mset)
  have set: "set ?links = {..<length (pf_routing_table p)}" using order by (metis atLeast0LessThan set_mset_mset set_upt)
  have dist: "distinct ?links" using order by (metis distinct_upt mset_eq_imp_distinct_iff)
  have all: "nd_elems d - (\<Union>l \<in> set ?links. nd_elems (pf_routing_table p ! l)) = {}"
    using d(2) unfolding set by (force simp: in_set_conv_nth)
  from route_links_ok [OF M table d(1), of ?links] set obtain outs left where o:
    "route_links (sp_machines P) (pf_routing_table p) ?links d = Inr (outs, left)"
    "nd_elems left = nd_elems d - (\<Union>l \<in> set ?links. nd_elems (pf_routing_table p ! l))"
    "\<forall>(l, s) \<in> set outs. l \<in> set ?links \<and> dest_ok (sp_machines P) s \<and> nd_elems s \<noteq> {} \<and> nd_elems s \<subseteq> nd_elems (pf_routing_table p ! l)"
    "mset_set (nd_elems d) = sum_list (map (\<lambda>(l, s). mset_set (nd_elems s)) outs) + mset_set (nd_elems left)"
    "distinct (map fst outs)" using dist by blast
  moreover have "nd_elems left = {}" using o(2) all by simp
  ultimately show ?thesis using set len
    by (intro exI [of _ outs] exI [of _ left]) (auto simp: route_of_def NetDest_count_0)
qed

end
