(* ===== verification/Simple_Typing.thy ===== *)
theory Simple_Typing
  imports Simple_Routing
begin

text \<open>
  Types for the store of the simple network. A store type gives every message buffer the object that reads
  it, its virtual network, the latency with which the network writes to it (none if only the protocol does) and
  the machines that messages in it may be for. \<open>wired\<close> says that switches and throttles are connected as the
  types say and that the routing table of every switch covers what arrives; \<open>contents_ok\<close> says that the buffers
  and the counters are as they should be. Under both no wakeup of a switch or a throttle fails, and both are kept.
\<close>

section \<open>The part of the state that no wakeup changes\<close>

definition pf_static :: "perfect_switch \<Rightarrow> perfect_switch" where
  "pf_static p = p\<lparr>pf_link_order := [], pf_round_robin_start := 0, pf_wakeups_wo_switch := 0,
     pf_pending_message_count := [], pf_wakeups := []\<rparr>"

definition th_static :: "throttle \<Rightarrow> throttle" where
  "th_static t = t\<lparr>th_units_remaining := [], th_wakeups_wo_switch := 0, th_msg_counts := (\<lambda>_ _. 0),
     th_link_utilization_proxy := 0, th_wakeups := []\<rparr>"

definition sw_static :: "switch \<Rightarrow> switch" where
  "sw_static sw = sw\<lparr>sw_perfect_switch := pf_static (sw_perfect_switch sw), sw_throttles := map th_static (sw_throttles sw)\<rparr>"

definition sn_static :: "simple_network \<Rightarrow> simple_network" where
  "sn_static S = S\<lparr>sn_switches := map sw_static (sn_switches S), sn_buffers := [],
     sn_ruby := (sn_ruby S)\<lparr>rs_random := (\<lambda>_. 0)\<rparr>\<rparr>"

lemma static_sel [simp]:
  "pf_in (pf_static p) = pf_in p" "pf_out (pf_static p) = pf_out p" "pf_routing_table (pf_static p) = pf_routing_table p"
  "pf_virtual_networks (pf_static p) = pf_virtual_networks p"
  "th_in (th_static t) = th_in t" "th_out (th_static t) = th_out t" "th_vnets (th_static t) = th_vnets t"
  "th_link_latency (th_static t) = th_link_latency t" "getLinkBandwidth (th_static t) = getLinkBandwidth t"
  "sw_perfect_switch (sw_static sw) = pf_static (sw_perfect_switch sw)" "sw_throttles (sw_static sw) = map th_static (sw_throttles sw)"
  "sn_switches (sn_static S) = map sw_static (sn_switches S)" "sn_now (sn_static S) = sn_now S"
  "nw_ordered (sn_static S) = nw_ordered S" "MessageSizeType_to_int (sn_static S) ty = MessageSizeType_to_int S ty"
  "sn_adaptive_routing (sn_static S) = sn_adaptive_routing S"
  "rs_randomization (sn_ruby (sn_static S)) = rs_randomization (sn_ruby S)"
  by (simp_all add: pf_static_def th_static_def sw_static_def sn_static_def getLinkBandwidth_def)
    (cases ty; simp)

lemma static_upd [simp]:
  "pf_static (p\<lparr>pf_link_order := a\<rparr>) = pf_static p" "pf_static (p\<lparr>pf_round_robin_start := b\<rparr>) = pf_static p"
  "pf_static (p\<lparr>pf_wakeups_wo_switch := b\<rparr>) = pf_static p" "pf_static (p\<lparr>pf_pending_message_count := c\<rparr>) = pf_static p"
  "pf_static (p\<lparr>pf_wakeups := w\<rparr>) = pf_static p"
  "th_static (t\<lparr>th_units_remaining := c\<rparr>) = th_static t" "th_static (t\<lparr>th_wakeups_wo_switch := b\<rparr>) = th_static t"
  "th_static (t\<lparr>th_msg_counts := f\<rparr>) = th_static t" "th_static (t\<lparr>th_link_utilization_proxy := z\<rparr>) = th_static t"
  "th_static (t\<lparr>th_wakeups := w\<rparr>) = th_static t"
  by (simp_all add: pf_static_def th_static_def)

lemma get_perfect_eq_Inr: "get_perfect i S = Inr p \<longleftrightarrow> i < length (sn_switches S) \<and> p = sw_perfect_switch (sn_switches S ! i)"
  by (auto simp: get_perfect_def get_switch_def bnd_eq_Inr at_eq_Inr)

lemma static_put_switch: "sw_static sw = sw_static (sn_switches S ! i) \<Longrightarrow> sn_static (put_switch i sw S) = sn_static S"
  by (cases "i < length (sn_switches S)") (simp_all add: sn_static_def put_switch_def map_update list_update_same_conv list_update_beyond)

lemma static_put_perfect:
  "get_perfect i S = Inr p \<Longrightarrow> pf_static p' = pf_static p \<Longrightarrow> sn_static (put_perfect i p' S) = sn_static S"
  unfolding put_perfect_def by (rule static_put_switch) (simp add: get_perfect_eq_Inr sw_static_def)

lemma static_put_throttle:
  assumes "get_throttle i k S = Inr t" and "th_static t' = th_static t"
  shows "sn_static (put_throttle i k t' S) = sn_static S"
proof -
  have "map th_static ((sw_throttles (sn_switches S ! i))[k := t']) = map th_static (sw_throttles (sn_switches S ! i))"
    using assms by (simp add: get_throttle_eq_Inr map_update list_update_same_conv)
  then show ?thesis unfolding put_throttle_def by (intro static_put_switch) (simp add: sw_static_def)
qed

lemma static_assign [simp]: "sn_static (assign b B S) = sn_static S"
  by (simp add: assign_def sn_static_def split: option.splits)

lemma static_ruby: "rs_randomization R = rs_randomization (sn_ruby S) \<Longrightarrow> rs_warmup_enabled R = rs_warmup_enabled (sn_ruby S) \<Longrightarrow>
    sn_static (S\<lparr>sn_ruby := R\<rparr>) = sn_static S"
  by (cases R; cases "sn_ruby S") (simp add: sn_static_def)

lemma static_schedule [simp]:
  "sn_static (sn_scheduleEventAbsolute t c S) = sn_static S" "sn_static (sn_scheduleEvent P d c S) = sn_static S"
proof -
  have u: "map sw_static (count_up xs i f) = map sw_static xs" if "\<And>sw. sw_static (f sw) = sw_static sw" for xs i f
    using that by (simp add: count_up_def map_update list_update_same_conv)
  have v: "map th_static (count_up xs i f) = map th_static xs" if "\<And>t. th_static (f t) = th_static t" for xs i f
    using that by (simp add: count_up_def map_update list_update_same_conv)
  show "sn_static (sn_scheduleEventAbsolute t c S) = sn_static S" for t
    by (cases c) (simp_all add: sn_scheduleEventAbsolute_def sn_static_def u sw_static_def v)
  then show "sn_static (sn_scheduleEvent P d c S) = sn_static S" by (simp add: sn_scheduleEvent_def)
qed

lemma random_in_flags: "random_in lo hi R = (n, R') \<Longrightarrow> rs_randomization R' = rs_randomization R \<and> rs_warmup_enabled R' = rs_warmup_enabled R"
  by (auto simp: random_in_def)

lemma mb_arrival_flags:
  "mb_arrival R now d b = (a, l, R') \<Longrightarrow> rs_randomization R' = rs_randomization R \<and> rs_warmup_enabled R' = rs_warmup_enabled R"
  by (auto simp: mb_arrival_def random_time_def Let_def split: if_splits prod.splits dest!: random_in_flags)

text \<open>What follows from equal static parts.\<close>

lemma static_length: "sn_static S' = sn_static S \<Longrightarrow> length (sn_switches S') = length (sn_switches S)"
  by (drule arg_cong [of _ _ "\<lambda>S. length (sn_switches S)"]) simp

lemma static_switch:
  assumes "sn_static S' = sn_static S" and "i < length (sn_switches S)"
  shows "sw_static (sn_switches S' ! i) = sw_static (sn_switches S ! i)"
  using arg_cong [OF assms(1), of "\<lambda>S. sn_switches S ! i"] static_length [OF assms(1)] assms(2) by simp

lemma static_perfect:
  assumes "sn_static S' = sn_static S" and "get_perfect i S = Inr p"
  obtains p' where "get_perfect i S' = Inr p'" and "pf_static p' = pf_static p"
  using assms static_length [OF assms(1)] arg_cong [OF static_switch [OF assms(1)], of i sw_perfect_switch]
  by (auto simp: get_perfect_eq_Inr)

lemma static_throttle:
  assumes "sn_static S' = sn_static S" and "get_throttle i k S = Inr t"
  obtains t' where "get_throttle i k S' = Inr t'" and "th_static t' = th_static t"
proof -
  have i: "i < length (sn_switches S)" and k: "k < length (sw_throttles (sn_switches S ! i))"
    and t: "t = sw_throttles (sn_switches S ! i) ! k" using assms(2) by (auto simp: get_throttle_eq_Inr)
  have m: "map th_static (sw_throttles (sn_switches S' ! i)) = map th_static (sw_throttles (sn_switches S ! i))"
    using arg_cong [OF static_switch [OF assms(1) i], of sw_throttles] by simp
  then have k': "k < length (sw_throttles (sn_switches S' ! i))" using k by (metis length_map)
  have "th_static (sw_throttles (sn_switches S' ! i) ! k) = th_static t" using m k k' t by (metis nth_map)
  then show ?thesis using that k' i static_length [OF assms(1)] by (simp add: get_throttle_eq_Inr)
qed

lemma static_now: "sn_static S' = sn_static S \<Longrightarrow> sn_now S' = sn_now S"
  by (drule arg_cong [of _ _ sn_now]) simp

lemma static_randomization: "sn_static S' = sn_static S \<Longrightarrow> rs_randomization (sn_ruby S') = rs_randomization (sn_ruby S)"
  by (drule arg_cong [of _ _ "\<lambda>S. rs_randomization (sn_ruby S)"]) simp

lemma static_pf_eq: "pf_static p' = pf_static p \<Longrightarrow> pf_in p' = pf_in p \<and> pf_out p' = pf_out p \<and>
    pf_routing_table p' = pf_routing_table p \<and> pf_virtual_networks p' = pf_virtual_networks p"
  by (metis static_sel(1,2,3,4))

lemma static_th_eq: "th_static t' = th_static t \<Longrightarrow> th_in t' = th_in t \<and> th_out t' = th_out t \<and>
    th_vnets t' = th_vnets t \<and> th_link_latency t' = th_link_latency t \<and> getLinkBandwidth t' = getLinkBandwidth t"
  by (metis static_sel(5,6,7,8,9))

section \<open>Types\<close>

record buffer_type =
  bt_consumer :: consumer_ref
  bt_vnet :: nat
  bt_delta :: "tick option"
  bt_cover :: "(nat \<times> nat) set"

type_synonym store_type = "buffer_type list"

definition params_ok :: "simple_params \<Rightarrow> bool" where
  "params_ok P \<longleftrightarrow> machines_ok (sp_machines P) \<and> 0 < sp_clockPeriod P \<and>
     (\<forall>xs. mset (sp_sort P xs) = mset xs \<and> sorted (map lo_value (sp_sort P xs)))"

definition message_ok :: "simple_params \<Rightarrow> buffer_type \<Rightarrow> message \<Rightarrow> bool" where
  "message_ok P T m \<longleftrightarrow> dest_ok (sp_machines P) (msg_destination m) \<and> nd_elems (msg_destination m) \<subseteq> bt_cover T"

text \<open>
  A buffer that the network writes to with a fixed latency can always take a message that arrives after that
  latency in order, unless arrival times are randomised, and then the code keeps the order itself.
\<close>

definition fifo_ok :: "bool \<Rightarrow> tick \<Rightarrow> buffer_type \<Rightarrow> message_buffer \<Rightarrow> bool" where
  "fifo_ok randomization now T B \<longleftrightarrow>
     (\<forall>d. bt_delta T = Some d \<longrightarrow> 0 < d \<and>
        (\<not> (randomization \<and> mb_randomization B) \<longrightarrow> mb_last_arrival_time B \<le> now + d))"

definition buffer_ok :: "simple_params \<Rightarrow> bool \<Rightarrow> tick \<Rightarrow> buffer_type \<Rightarrow> message_buffer \<Rightarrow> bool" where
  "buffer_ok P randomization now T B \<longleftrightarrow>
     mb_inv B \<and> mb_consumer B = Some (bt_consumer T) \<and> mb_vnet_id B = int (bt_vnet T) \<and>
     (\<forall>m \<in># mb_msgs B. message_ok P T m) \<and> fifo_ok randomization now T B"

definition perfect_wired :: "simple_params \<Rightarrow> store_type \<Rightarrow> nat \<Rightarrow> perfect_switch \<Rightarrow> bool" where
  "perfect_wired P Ty i p \<longleftrightarrow>
     length (pf_routing_table p) = length (pf_out p) \<and>
     (\<forall>d \<in> set (pf_routing_table p). dest_ok (sp_machines P) d) \<and>
     (\<forall>ins \<in> set (pf_in p). \<forall>v < length ins. \<forall>b. ins ! v = Some b \<longrightarrow>
        b < length Ty \<and> bt_consumer (Ty ! b) = SwitchConsumer i \<and> bt_vnet (Ty ! b) = v \<and>
        bt_cover (Ty ! b) \<subseteq> (\<Union>d \<in> set (pf_routing_table p). nd_elems d)) \<and>
     (\<forall>l < length (pf_out p). length (pf_out p ! l) = pf_virtual_networks p \<and>
        (\<forall>v < pf_virtual_networks p. \<exists>b. pf_out p ! l ! v = Some b \<and> b < length Ty \<and>
           bt_delta (Ty ! b) = Some (sp_clockPeriod P) \<and> nd_elems (pf_routing_table p ! l) \<subseteq> bt_cover (Ty ! b)))"

definition throttle_wired :: "simple_params \<Rightarrow> store_type \<Rightarrow> nat \<Rightarrow> nat \<Rightarrow> throttle \<Rightarrow> bool" where
  "throttle_wired P Ty i k t \<longleftrightarrow>
     length (th_in t) = th_vnets t \<and> length (th_out t) = th_vnets t \<and> 0 < getLinkBandwidth t \<and>
     (\<forall>v < th_vnets t. \<forall>b. th_in t ! v = Some b \<longrightarrow> b < length Ty \<and> bt_consumer (Ty ! b) = ThrottleConsumer i k \<and>
        (\<forall>c. th_out t ! v = Some c \<longrightarrow> c < length Ty \<and>
           bt_delta (Ty ! c) = Some (sp_clockPeriod P * th_link_latency t) \<and> bt_cover (Ty ! b) \<subseteq> bt_cover (Ty ! c)))"

text \<open>A switch that is told of a message has a counter for its virtual network.\<close>

definition consumer_wired :: "switch list \<Rightarrow> buffer_type \<Rightarrow> bool" where
  "consumer_wired sws T \<longleftrightarrow>
     (\<forall>i. bt_consumer T = SwitchConsumer i \<longrightarrow> i < length sws \<and> bt_vnet T < pf_virtual_networks (sw_perfect_switch (sws ! i)))"

definition wired :: "simple_params \<Rightarrow> store_type \<Rightarrow> simple_network \<Rightarrow> bool" where
  "wired P Ty S \<longleftrightarrow> params_ok P \<and> (\<forall>T \<in> set Ty. consumer_wired (sn_switches S) T) \<and>
     (\<forall>i < length (sn_switches S).
        perfect_wired P Ty i (sw_perfect_switch (sn_switches S ! i)) \<and>
        pf_virtual_networks (sw_perfect_switch (sn_switches S ! i)) \<le> length (nw_ordered S) \<and>
        (\<forall>k < length (sw_throttles (sn_switches S ! i)). throttle_wired P Ty i k (sw_throttles (sn_switches S ! i) ! k)))"

definition perfect_ok :: "perfect_switch \<Rightarrow> bool" where
  "perfect_ok p \<longleftrightarrow> mset (map lo_link (pf_link_order p)) = mset [0..<length (pf_out p)] \<and>
     length (pf_pending_message_count p) = pf_virtual_networks p"

definition throttle_ok :: "throttle \<Rightarrow> bool" where
  "throttle_ok t \<longleftrightarrow> length (th_units_remaining t) = th_vnets t \<and> (\<forall>u \<in> set (th_units_remaining t). 0 \<le> u)"

definition switch_ok :: "switch \<Rightarrow> bool" where
  "switch_ok sw \<longleftrightarrow> perfect_ok (sw_perfect_switch sw) \<and> (\<forall>t \<in> set (sw_throttles sw). throttle_ok t)"

definition contents_ok :: "simple_params \<Rightarrow> store_type \<Rightarrow> simple_network \<Rightarrow> bool" where
  "contents_ok P Ty S \<longleftrightarrow>
     list_all2 (buffer_ok P (rs_randomization (sn_ruby S)) (sn_now S)) Ty (sn_buffers S) \<and>
     (\<forall>sw \<in> set (sn_switches S). switch_ok sw)"

definition typed :: "simple_params \<Rightarrow> store_type \<Rightarrow> simple_network \<Rightarrow> bool" where
  "typed P Ty S \<longleftrightarrow> wired P Ty S \<and> contents_ok P Ty S"

text \<open>Being wired depends on the static part alone.\<close>

lemma wired_static_iff: "wired P Ty (sn_static S) \<longleftrightarrow> wired P Ty S"
proof -
  have "consumer_wired (map sw_static (sn_switches S)) T = consumer_wired (sn_switches S) T" for T
    by (auto simp: consumer_wired_def)
  then show ?thesis by (simp add: wired_def perfect_wired_def throttle_wired_def)
qed

lemma wired_static: "sn_static S' = sn_static S \<Longrightarrow> wired P Ty S \<Longrightarrow> wired P Ty S'"
  by (metis wired_static_iff)

end
