(* ===== verification/Simple_Sound.thy ===== *)
theory Simple_Sound
  imports Simple_Typing
begin

text \<open>
  No wakeup of a typed simple network fails, and the state after it is typed again: progress and preservation,
  operation by operation. \<open>steady P Ty S0 S\<close> says that the contents of \<open>S\<close> are typed and that the wiring is that of \<open>S0\<close>,
  which is where an operation started.
\<close>

definition steady :: "simple_params \<Rightarrow> store_type \<Rightarrow> simple_network \<Rightarrow> simple_network \<Rightarrow> bool" where
  "steady P Ty S0 S \<longleftrightarrow> sn_static S = sn_static S0 \<and> contents_ok P Ty S"

lemma typed_steady: "typed P Ty S \<Longrightarrow> steady P Ty S S"
  by (simp add: typed_def steady_def)

lemma steady_typed: "typed P Ty S \<Longrightarrow> steady P Ty S S' \<Longrightarrow> typed P Ty S'"
  by (auto simp: typed_def steady_def intro: wired_static)

section \<open>Updates\<close>

lemma update_all: "\<forall>x \<in> set xs. Q x \<Longrightarrow> Q y \<Longrightarrow> \<forall>x \<in> set (xs[i := y]). Q x"
  by (auto dest!: set_update_subset_insert [THEN subsetD])

lemma count_up_all:
  assumes "\<forall>x \<in> set xs. Q x" and "\<And>x. Q x \<Longrightarrow> Q (f x)"
  shows "\<forall>x \<in> set (count_up xs i f). Q x"
proof (cases "i < length xs")
  case True
  then have "Q (f (xs ! i))" by (intro assms(2)) (rule assms(1) [rule_format, OF nth_mem])
  with True show ?thesis using update_all [OF assms(1)] by (simp only: count_up_def if_True)
qed (use assms(1) in \<open>simp add: count_up_def\<close>)

lemma steady_switch: "steady P Ty S0 S \<Longrightarrow> i < length (sn_switches S) \<Longrightarrow> switch_ok (sn_switches S ! i)"
  by (simp add: steady_def contents_ok_def)

lemma steady_put_switch:
  assumes "steady P Ty S0 S" and "sw_static sw = sw_static (sn_switches S ! i)" and "switch_ok sw"
  shows "steady P Ty S0 (put_switch i sw S)"
  using assms static_put_switch [OF assms(2)] update_all [of "sn_switches S" switch_ok sw i]
  by (simp add: steady_def contents_ok_def put_switch_def)

lemma steady_put_perfect:
  assumes "steady P Ty S0 S" and "get_perfect i S = Inr p" and "pf_static p' = pf_static p" and "perfect_ok p'"
  shows "steady P Ty S0 (put_perfect i p' S)"
  unfolding put_perfect_def
  by (rule steady_put_switch [OF assms(1)])
    (use assms steady_switch [OF assms(1), of i] in \<open>auto simp: get_perfect_eq_Inr sw_static_def switch_ok_def\<close>)

lemma steady_put_throttle:
  assumes "steady P Ty S0 S" and "get_throttle i k S = Inr t" and "th_static t' = th_static t" and "throttle_ok t'"
  shows "steady P Ty S0 (put_throttle i k t' S)"
proof -
  have "map th_static ((sw_throttles (sn_switches S ! i))[k := t']) = map th_static (sw_throttles (sn_switches S ! i))"
    using assms(2,3) by (simp add: get_throttle_eq_Inr map_update list_update_same_conv)
  then show ?thesis unfolding put_throttle_def
    by (intro steady_put_switch [OF assms(1)])
      (use assms steady_switch [OF assms(1), of i] update_all [of "sw_throttles (sn_switches S ! i)" throttle_ok t' k]
        in \<open>auto simp: get_throttle_eq_Inr sw_static_def switch_ok_def\<close>)
qed

lemma steady_buffer:
  assumes "steady P Ty S0 S" and "b < length Ty"
  shows "b < length (sn_buffers S)" and "buffer_ok P (rs_randomization (sn_ruby S)) (sn_now S) (Ty ! b) (sn_buffers S ! b)"
  using assms by (auto simp: steady_def contents_ok_def list_all2_conv_all_nth)

lemma steady_assign:
  assumes "steady P Ty S0 S" and "b < length Ty" and "buffer_ok P (rs_randomization (sn_ruby S)) (sn_now S) (Ty ! b) B"
  shows "steady P Ty S0 (assign (Some b) B S)"
proof -
  have "list_all2 (buffer_ok P (rs_randomization (sn_ruby S)) (sn_now S)) (Ty[b := Ty ! b]) ((sn_buffers S)[b := B])"
    using assms by (intro list_all2_update_cong) (auto simp: steady_def contents_ok_def)
  then show ?thesis using assms(1) static_assign [of "Some b" B S]
    by (auto simp: steady_def contents_ok_def assign_def)
qed

lemma steady_ruby:
  assumes "steady P Ty S0 S" and "rs_randomization R = rs_randomization (sn_ruby S)" "rs_warmup_enabled R = rs_warmup_enabled (sn_ruby S)"
  shows "steady P Ty S0 (S\<lparr>sn_ruby := R\<rparr>)"
  using assms static_ruby [OF assms(2,3)] by (simp add: steady_def contents_ok_def)

lemma steady_schedule:
  assumes "steady P Ty S0 S"
  shows "steady P Ty S0 (sn_scheduleEventAbsolute t c S)" and "steady P Ty S0 (sn_scheduleEvent P d c S)"
proof -
  have p: "switch_ok (sw\<lparr>sw_perfect_switch := (sw_perfect_switch sw)\<lparr>pf_wakeups := w\<rparr>\<rparr>)" if "switch_ok sw" for sw w
    using that by (simp add: switch_ok_def perfect_ok_def)
  have th: "switch_ok (sw\<lparr>sw_throttles := count_up (sw_throttles sw) k (\<lambda>t. t\<lparr>th_wakeups := w t\<rparr>)\<rparr>)" if "switch_ok sw" for sw w k
  proof -
    have "\<forall>t \<in> set (count_up (sw_throttles sw) k (\<lambda>t. t\<lparr>th_wakeups := w t\<rparr>)). throttle_ok t"
      by (rule count_up_all) (use that in \<open>simp_all add: switch_ok_def throttle_ok_def\<close>)
    then show ?thesis using that by (simp add: switch_ok_def)
  qed
  have s: "\<forall>sw \<in> set (sn_switches S). switch_ok sw" using assms by (simp add: steady_def contents_ok_def)
  have "sn_ruby (sn_scheduleEventAbsolute t c S) = sn_ruby S" for t
    by (simp add: sn_scheduleEventAbsolute_def split: consumer_ref.splits)
  moreover have "\<forall>sw \<in> set (sn_switches (sn_scheduleEventAbsolute t c S)). switch_ok sw" for t
    by (cases c) (simp_all add: sn_scheduleEventAbsolute_def s, (rule count_up_all [OF s], erule p th)+)
  ultimately show "steady P Ty S0 (sn_scheduleEventAbsolute t c S)" for t
    using assms by (simp add: steady_def contents_ok_def)
  then show "steady P Ty S0 (sn_scheduleEvent P d c S)" by (simp add: sn_scheduleEvent_def)
qed

section \<open>Buffers\<close>

lemma random_time_pos: "random_time R = (t, R') \<Longrightarrow> 0 < t"
  by (auto simp: random_time_def Let_def split: if_splits prod.splits)

lemma mb_arrival_ok:
  assumes "mb_arrival R now d B = (arrival, la, R')" and "0 < d"
    and "rs_randomization R \<and> mb_randomization B \<or> mb_last_arrival_time B \<le> now + d"
  shows "now < arrival" and "mb_strict_fifo B \<Longrightarrow> la \<le> arrival"
    and "\<not> (rs_randomization R \<and> mb_randomization B) \<Longrightarrow> arrival = now + d \<and> la = mb_last_arrival_time B"
  using assms by (auto simp: mb_arrival_def Let_def split: if_splits prod.splits dest: random_time_pos)

text \<open>A typed buffer takes a typed message.\<close>

lemma mb_enqueue_total:
  assumes "mb_arrival R now d B = (arrival, la, R')" and "0 < d" and "now < arrival" and "mb_strict_fifo B \<Longrightarrow> la \<le> arrival"
    and "msg_LastEnqueueTime m \<le> now" and "mb_consumer B = Some c"
  shows "\<exists>B'. mb_enqueue m now d (R, B) = Inr (R', B', [(c, arrival)])"
proof -
  let ?b2 = "\<lambda>b1. b1\<lparr>mb_msg_counter := mb_msg_counter b1 + 1, mb_msgs_this_cycle := mb_msgs_this_cycle b1 + 1\<rparr>"
  have "mb_arrival R now d (?b2 B) = (arrival, la, R')"
    "mb_arrival R now d (?b2 (B\<lparr>mb_msgs_this_cycle := 0, mb_time_last_time_enqueue := now\<rparr>)) = (arrival, la, R')"
    using assms(1) mb_arrival_cong [of "?b2 B" B R now d]
      mb_arrival_cong [of "?b2 (B\<lparr>mb_msgs_this_cycle := 0, mb_time_last_time_enqueue := now\<rparr>)" B R now d] by simp_all
  then show ?thesis using assms(2-)
    by (cases "mb_time_last_time_enqueue B < now")
      (auto simp: mb_enqueue_def Let_def updateDelayedTicks_def mb_schedule_def mb_push_def)
qed

lemma mb_enqueue_ok:
  assumes B: "buffer_ok P (rs_randomization R) now T B" and T: "bt_delta T = Some d"
    and m: "message_ok P T m" "msg_LastEnqueueTime m \<le> now"
  shows "\<exists>R' B' t. mb_enqueue m now d (R, B) = Inr (R', B', [(bt_consumer T, t)]) \<and>
      buffer_ok P (rs_randomization R) now T B' \<and> mb_vnet_id B' = int (bt_vnet T) \<and>
      rs_randomization R' = rs_randomization R \<and> rs_warmup_enabled R' = rs_warmup_enabled R"
proof -
  obtain arrival la R' where a: "mb_arrival R now d B = (arrival, la, R')" by (metis prod.exhaust)
  have d: "0 < d" "rs_randomization R \<and> mb_randomization B \<or> mb_last_arrival_time B \<le> now + d"
    using B T by (auto simp: buffer_ok_def fifo_ok_def)
  note ar = mb_arrival_ok [OF a d]
  have c: "mb_consumer B = Some (bt_consumer T)" using B by (simp add: buffer_ok_def)
  obtain B' where e: "mb_enqueue m now d (R, B) = Inr (R', B', [(bt_consumer T, arrival)])"
    using mb_enqueue_total [OF a d(1) ar(1,2) m(2) c] by blast
  from e obtain arrival' la' t where a': "mb_arrival R now d B = (arrival', la', R')" and
    B': "B' = (mb_push (m\<lparr>msg_DelayedTicks := t, msg_LastEnqueueTime := arrival', msg_counter := mb_msg_counter B + 1\<rparr>)
       (enq_counters now (if rs_warmup_enabled R then la' else arrival') B))\<lparr>mb_buf_msgs := mb_buf_msgs B + 1\<rparr>"
    by (rule mb_enqueueE)
  have eq: "arrival' = arrival" "la' = la" using a a' by simp_all
  have f: "mb_consumer B' = mb_consumer B" "mb_vnet_id B' = mb_vnet_id B" "mb_randomization B' = mb_randomization B"
    "mb_last_arrival_time B' = (if rs_warmup_enabled R then la else arrival)"
    by (simp_all add: B' eq enq_counters_def mb_push_def)
  have "mb_msgs B' = add_mset (m\<lparr>msg_DelayedTicks := t, msg_LastEnqueueTime := arrival', msg_counter := mb_msg_counter B + 1\<rparr>) (mb_msgs B)"
    by (simp add: B' mb_msgs_def mb_push_def enq_counters_def)
  then have "\<forall>x \<in># mb_msgs B'. message_ok P T x" using B m(1) by (auto simp: buffer_ok_def message_ok_def)
  moreover have "fifo_ok (rs_randomization R) now T B'"
    using B T ar(3) f by (auto simp: buffer_ok_def fifo_ok_def)
  moreover have "mb_inv B'" using enqueue_effect(1) [OF e] B by (simp add: buffer_ok_def)
  ultimately have "buffer_ok P (rs_randomization R) now T B'" using B f by (simp add: buffer_ok_def)
  then show ?thesis using e f B mb_arrival_flags [OF a] by (auto simp: buffer_ok_def)
qed

lemma mb_dequeue_ok:
  assumes B: "buffer_ok P r now T B" and "mb_isReady now B"
  shows "\<exists>delay m B' cb. mb_dequeue now True B = Inr (delay, m, B', cb) \<and> buffer_ok P r now T B' \<and>
      message_ok P T m \<and> msg_LastEnqueueTime m \<le> now"
proof -
  obtain m0 ms where h: "mb_prio_heap B = m0 # ms" "msg_LastEnqueueTime m0 \<le> now"
    using assms(2) by (auto simp: mb_isReady_def neq_Nil_conv)
  then have "\<exists>delay m B' cb. mb_dequeue now True B = Inr (delay, m, B', cb)"
    by (auto simp: mb_dequeue_def mb_isReady_def mb_peekMsgPtr_def updateDelayedTicks_def mb_pop_def Let_def)
  then obtain delay m B' cb where d: "mb_dequeue now True B = Inr (delay, m, B', cb)" by blast
  from d obtain m1 B1 where pop: "mb_pop B = Inr (m1, B1)" and m1: "msg_LastEnqueueTime m1 \<le> now"
    and m: "m = m1\<lparr>msg_DelayedTicks := msg_DelayedTicks m1 + (now - msg_LastEnqueueTime m1)\<rparr>"
    and B': "B' = B1\<lparr>mb_size_at_cycle_start := if mb_time_last_time_pop B < now then length (mb_prio_heap B) else mb_size_at_cycle_start B,
        mb_time_last_time_pop := max now (mb_time_last_time_pop B),
        mb_buf_msgs := if True then mb_buf_msgs B - 1 else mb_buf_msgs B\<rparr>" by (rule mb_dequeueE)
  have ms: "mb_msgs B = add_mset m1 (mb_msgs B')" using mbuf.take_Inr [OF pop] by (simp add: B' mb_msgs_def)
  have f: "mb_consumer B' = mb_consumer B" "mb_vnet_id B' = mb_vnet_id B" "mb_randomization B' = mb_randomization B"
    "mb_last_arrival_time B' = mb_last_arrival_time B" using pop by (auto simp: B' elim!: mb_popE)
  have "buffer_ok P r now T B'"
    using B ms f dequeue_effect(1) [OF d] by (auto simp: buffer_ok_def fifo_ok_def)
  moreover have "message_ok P T m" using B ms by (simp add: buffer_ok_def m message_ok_def)
  ultimately show ?thesis using d m m1 by auto
qed

lemma buffer_ok_fields:
  assumes "buffer_ok P r now T B" and "mb_prio_heap B' = mb_prio_heap B" and "mb_msg_counter B' = mb_msg_counter B"
    and "mb_stall_msg_map B' = mb_stall_msg_map B" and "mb_stall_map_size B' = mb_stall_map_size B"
    and "mb_consumer B' = mb_consumer B" and "mb_vnet_id B' = mb_vnet_id B" and "mb_randomization B' = mb_randomization B"
    and "mb_last_arrival_time B' = mb_last_arrival_time B"
  shows "buffer_ok P r now T B'"
  using assms mb_inv_fields(1) [of B B'] by (simp add: buffer_ok_def fifo_ok_def mb_msgs_def)

section \<open>The store\<close>

lemma perfect_facts:
  assumes "wired P Ty S0" and "steady P Ty S0 S" and "get_perfect i S = Inr p"
  shows "perfect_wired P Ty i p" and "perfect_ok p" and "pf_virtual_networks p \<le> length (nw_ordered S)"
proof -
  have "wired P Ty S" using assms by (auto simp: steady_def intro: wired_static)
  then show "perfect_wired P Ty i p" "pf_virtual_networks p \<le> length (nw_ordered S)"
    using assms(3) by (auto simp: wired_def get_perfect_eq_Inr)
  show "perfect_ok p" using assms(2,3) steady_switch by (auto simp: get_perfect_eq_Inr switch_ok_def)
qed

lemma throttle_facts:
  assumes "wired P Ty S0" and "steady P Ty S0 S" and "get_throttle i k S = Inr t"
  shows "throttle_wired P Ty i k t" and "throttle_ok t"
proof -
  have "wired P Ty S" using assms by (auto simp: steady_def intro: wired_static)
  then show "throttle_wired P Ty i k t" using assms(3) by (auto simp: wired_def get_throttle_eq_Inr)
  show "throttle_ok t" using assms(2,3) steady_switch by (auto simp: get_throttle_eq_Inr switch_ok_def)
qed

lemma storeEventInfo_ok:
  assumes W: "wired P Ty S0" and S: "steady P Ty S0 S" and T: "T \<in> set Ty"
  shows "\<exists>S'. storeEventInfo (int (bt_vnet T)) (bt_consumer T) S = Inr S' \<and> steady P Ty S0 S'"
proof (cases "bt_consumer T")
  case (SwitchConsumer i)
  have "wired P Ty S" using W S by (auto simp: steady_def intro: wired_static)
  then have i: "i < length (sn_switches S)" "bt_vnet T < pf_virtual_networks (sw_perfect_switch (sn_switches S ! i))"
    using T SwitchConsumer by (auto simp: wired_def consumer_wired_def)
  then obtain p where p: "get_perfect i S = Inr p" "bt_vnet T < pf_virtual_networks p" by (simp add: get_perfect_eq_Inr)
  have ok: "perfect_ok p" by (rule perfect_facts(2) [OF W S p(1)])
  let ?p = "p\<lparr>pf_pending_message_count := (pf_pending_message_count p)[bt_vnet T := pf_pending_message_count p ! bt_vnet T + 1]\<rparr>"
  have "PerfectSwitch_storeEventInfo (int (bt_vnet T)) p = Inr ?p"
    using ok p(2) by (simp add: PerfectSwitch_storeEventInfo_def perfect_ok_def)
  moreover have "steady P Ty S0 (put_perfect i ?p S)"
    by (rule steady_put_perfect [OF S p(1)]) (use ok in \<open>simp_all add: perfect_ok_def\<close>)
  ultimately show ?thesis using p(1) SwitchConsumer by (simp add: storeEventInfo_def)
qed (use S in \<open>simp_all add: storeEventInfo_def\<close>)

lemma sn_enqueue_ok:
  assumes W: "wired P Ty S0" and S: "steady P Ty S0 S" and b: "b < length Ty" "bt_delta (Ty ! b) = Some d"
    and m: "message_ok P (Ty ! b) m" "msg_LastEnqueueTime m \<le> sn_now S"
  shows "\<exists>S'. sn_enqueue (Some b) m d S = Inr S' \<and> steady P Ty S0 S'"
proof -
  note B = steady_buffer [OF S b(1)]
  obtain R B' t where e: "mb_enqueue m (sn_now S) d (sn_ruby S, sn_buffers S ! b) = Inr (R, B', [(bt_consumer (Ty ! b), t)])"
    and B': "buffer_ok P (rs_randomization (sn_ruby S)) (sn_now S) (Ty ! b) B'" "mb_vnet_id B' = int (bt_vnet (Ty ! b))"
    and R: "rs_randomization R = rs_randomization (sn_ruby S)" "rs_warmup_enabled R = rs_warmup_enabled (sn_ruby S)"
    using mb_enqueue_ok [OF B(2) b(2) m] by blast
  have "steady P Ty S0 (assign (Some b) B' (S\<lparr>sn_ruby := R\<rparr>))"
    by (rule steady_assign [OF steady_ruby [OF S R] b(1)]) (use B' R in simp)
  from storeEventInfo_ok [OF W steady_schedule(1) [OF this, of t "bt_consumer (Ty ! b)"] nth_mem [OF b(1)]] obtain S' where
    "storeEventInfo (int (bt_vnet (Ty ! b))) (bt_consumer (Ty ! b))
       (sn_scheduleEventAbsolute t (bt_consumer (Ty ! b)) (assign (Some b) B' (S\<lparr>sn_ruby := R\<rparr>))) = Inr S'"
    "steady P Ty S0 S'" by blast
  then show ?thesis using B(1) e B'(2) by (simp add: sn_enqueue_def deref_def)
qed

lemma sn_dequeue_ok:
  assumes S: "steady P Ty S0 S" and b: "b < length Ty" and r: "mb_isReady (sn_now S) (sn_buffers S ! b)"
  shows "\<exists>m S'. sn_dequeue (Some b) S = Inr (m, S') \<and> steady P Ty S0 S' \<and> message_ok P (Ty ! b) m \<and>
      msg_LastEnqueueTime m \<le> sn_now S"
proof -
  note B = steady_buffer [OF S b]
  from mb_dequeue_ok [OF B(2) r] steady_assign [OF S b] B(1) show ?thesis
    by (fastforce simp: sn_dequeue_def deref_def)
qed

lemma sn_slots_ok:
  assumes S: "steady P Ty S0 S" and b: "b < length Ty"
  shows "\<exists>r S'. sn_areNSlotsAvailable n (Some b) S = Inr (r, S') \<and> steady P Ty S0 S'"
    and "\<exists>k S'. sn_getSize (Some b) S = Inr (k, S') \<and> steady P Ty S0 S'"
proof -
  note B = steady_buffer [OF S b]
  let ?B = "snd (areNSlotsAvailable n (sn_now S) (sn_buffers S ! b))"
  have "steady P Ty S0 (assign (Some b) ?B S)"
    by (rule steady_assign [OF S b], rule buffer_ok_fields [OF B(2)]) (simp_all add: areNSlotsAvailable_def)
  then show "\<exists>r S'. sn_areNSlotsAvailable n (Some b) S = Inr (r, S') \<and> steady P Ty S0 S'"
    using B(1) by (simp add: sn_areNSlotsAvailable_def deref_def split_def Let_def)
  let ?C = "snd (mb_getSize (sn_now S) (sn_buffers S ! b))"
  have "steady P Ty S0 (assign (Some b) ?C S)"
    by (rule steady_assign [OF S b], rule buffer_ok_fields [OF B(2)]) (simp_all add: mb_getSize_def Let_def)
  then show "\<exists>k S'. sn_getSize (Some b) S = Inr (k, S') \<and> steady P Ty S0 S'"
    using B(1) by (simp add: sn_getSize_def deref_def split_def Let_def)
qed

section \<open>Switches\<close>

lemma out_buffer_ok:
  assumes W: "wired P Ty S0" and S: "steady P Ty S0 S" and p: "get_perfect i S = Inr p"
    and l: "l < length (pf_routing_table p)" and v: "vnet < pf_virtual_networks p"
  obtains b where "out_buffer i l vnet S = Inr (Some b)" and "b < length Ty" and "bt_delta (Ty ! b) = Some (sp_clockPeriod P)"
    and "nd_elems (pf_routing_table p ! l) \<subseteq> bt_cover (Ty ! b)"
proof -
  have w: "perfect_wired P Ty i p" by (rule perfect_facts(1) [OF W S p])
  then have "l < length (pf_out p)" using l by (simp add: perfect_wired_def)
  with w v obtain b where "length (pf_out p ! l) = pf_virtual_networks p" "pf_out p ! l ! vnet = Some b" "b < length Ty"
    "bt_delta (Ty ! b) = Some (sp_clockPeriod P)" "nd_elems (pf_routing_table p ! l) \<subseteq> bt_cover (Ty ! b)"
    unfolding perfect_wired_def by blast
  then show ?thesis using that p v \<open>l < length (pf_out p)\<close> by (simp add: out_buffer_def at2_def)
qed

lemma steady_perfect:
  assumes "get_perfect i S0 = Inr p0" and "steady P Ty S0 S"
  obtains p where "get_perfect i S = Inr p" and "pf_routing_table p = pf_routing_table p0" and "pf_out p = pf_out p0"
    and "pf_in p = pf_in p0" and "pf_virtual_networks p = pf_virtual_networks p0"
  using static_perfect [OF _ assms(1), of S] assms(2) static_pf_eq unfolding steady_def by metis

lemma check_slots_ok:
  assumes W: "wired P Ty S0" and S: "steady P Ty S0 S" and p: "get_perfect i S0 = Inr p0" and v: "vnet < pf_virtual_networks p0"
    and outs: "\<forall>(l, s) \<in> set outs. l < length (pf_routing_table p0)"
  shows "\<exists>e S'. foldM (check_slot i vnet) outs (enough, S) = Inr (e, S') \<and> steady P Ty S0 S'"
proof -
  have "\<exists>s. foldM (check_slot i vnet) outs (enough, S) = Inr s \<and> steady P Ty S0 (snd s)"
  proof (rule foldM_total)
    fix out and s :: "bool \<times> simple_network" assume o: "out \<in> set outs" and s: "steady P Ty S0 (snd s)"
    obtain p where p': "get_perfect i (snd s) = Inr p" "pf_routing_table p = pf_routing_table p0"
      "pf_virtual_networks p = pf_virtual_networks p0" using steady_perfect [OF p s] by metis
    obtain b where "out_buffer i (fst out) vnet (snd s) = Inr (Some b)" "b < length Ty"
      by (rule out_buffer_ok [OF W s p'(1), of "fst out" vnet]) (use o outs p' v in auto)
    then show "\<exists>s'. check_slot i vnet out s = Inr s' \<and> steady P Ty S0 (snd s')"
      using sn_slots_ok(1) [OF s, of b 1] by (auto simp: check_slot_def split_def)
  qed (use S in simp)
  then show ?thesis by auto
qed

lemma deliver_ok:
  assumes W: "wired P Ty S0" and S: "steady P Ty S0 S" and p: "get_perfect i S0 = Inr p0" and v: "vnet < pf_virtual_networks p0"
    and b: "b < length Ty" "mb_isReady (sn_now S) (sn_buffers S ! b)" and m: "mb_peekMsgPtr (sn_buffers S ! b) = Inr m"
    and outs: "\<forall>(l, s) \<in> set outs. l < length (pf_routing_table p0) \<and> dest_ok (sp_machines P) s \<and> nd_elems s \<subseteq> nd_elems (pf_routing_table p0 ! l)"
  shows "\<exists>S'. deliver P i vnet b m outs S = Inr S' \<and> steady P Ty S0 S'"
proof -
  have m': "msg_LastEnqueueTime m \<le> sn_now S"
    using b(2) m by (auto simp: mb_isReady_def mb_peekMsgPtr_def split: list.splits)
  obtain msg S1 where d: "sn_dequeue (Some b) S = Inr (msg, S1)" "steady P Ty S0 S1" "msg_LastEnqueueTime msg \<le> sn_now S"
    using sn_dequeue_ok [OF S b] by blast
  obtain p1 where p1: "get_perfect i S1 = Inr p1" "pf_virtual_networks p1 = pf_virtual_networks p0" using steady_perfect [OF p d(2)] by metis
  have ok: "perfect_ok p1" by (rule perfect_facts(2) [OF W d(2) p1(1)])
  let ?p = "p1\<lparr>pf_pending_message_count := (pf_pending_message_count p1)[vnet := pf_pending_message_count p1 ! vnet - 1]\<rparr>"
  have c: "count_down i vnet S1 = Inr (put_perfect i ?p S1)" using ok p1 v by (simp add: count_down_def perfect_ok_def)
  have S2: "steady P Ty S0 (put_perfect i ?p S1)"
    by (rule steady_put_perfect [OF d(2) p1(1)]) (use ok in \<open>simp_all add: perfect_ok_def\<close>)
  have "\<exists>S'. foldM (send_copy P i vnet msg m) (enumerate 0 outs) (put_perfect i ?p S1) = Inr S' \<and> steady P Ty S0 S'"
  proof (rule foldM_total [of "steady P Ty S0", OF S2])
    fix x S' assume x: "x \<in> set (enumerate 0 outs)" and S': "steady P Ty S0 S'"
    obtain n l s where x': "x = (n, l, s)" by (metis prod.exhaust)
    have ls: "l < length (pf_routing_table p0)" "dest_ok (sp_machines P) s" "nd_elems s \<subseteq> nd_elems (pf_routing_table p0 ! l)"
      using x outs nth_mem [of n outs] by (auto simp: x' in_set_enumerate_eq)
    obtain p' where p': "get_perfect i S' = Inr p'" "pf_routing_table p' = pf_routing_table p0"
      "pf_virtual_networks p' = pf_virtual_networks p0" using steady_perfect [OF p S'] by metis
    obtain c where c: "out_buffer i l vnet S' = Inr (Some c)" "c < length Ty" "bt_delta (Ty ! c) = Some (sp_clockPeriod P)"
      "nd_elems (pf_routing_table p' ! l) \<subseteq> bt_cover (Ty ! c)"
      by (rule out_buffer_ok [OF W S' p'(1), of l vnet]) (use ls p' v in auto)
    have now: "sn_now S' = sn_now S" using S S' by (metis static_now steady_def)
    let ?m = "(if n = 0 then msg else m)\<lparr>msg_destination := s\<rparr>"
    have "message_ok P (Ty ! c) ?m" "msg_LastEnqueueTime ?m \<le> sn_now S'"
      using ls c(4) p' d(3) m' now by (auto simp: message_ok_def)
    from sn_enqueue_ok [OF W S' c(2,3) this] show "\<exists>S''. send_copy P i vnet msg m x S' = Inr S'' \<and> steady P Ty S0 S''"
      using c(1) by (simp add: send_copy_def x')
  qed
  then show ?thesis using d(1) c by (simp add: deliver_def)
qed

text \<open>Looking at the links in another order.\<close>

lemma put_links:
  "n \<le> length xs \<Longrightarrow> foldM (\<lambda>out order. put_at order (int out) (f out)) [0..<n] xs = Inr (map f [0..<n] @ drop n xs)"
proof (induction n)
  case (Suc n)
  have "put_at (map f [0..<n] @ drop n xs) (int n) (f n) = Inr (map f [0..<Suc n] @ drop (Suc n) xs)"
    using Suc.prems by (simp add: list_update_append Cons_nth_drop_Suc [symmetric])
  then show ?case using Suc by (simp add: foldM_append)
qed simp

lemma clogged_link_ok:
  assumes W: "wired P Ty S0" and S: "steady P Ty S0 S" and p: "get_perfect i S0 = Inr p0" and n: "n < length (pf_out p0)" "n < length order"
  shows "\<exists>v S'. clogged_link i n (order, S) = Inr (order[n := \<lparr>lo_link = n, lo_value = v\<rparr>], S') \<and> steady P Ty S0 S'"
proof -
  obtain p1 where p1: "get_perfect i S = Inr p1" "pf_out p1 = pf_out p0" "pf_virtual_networks p1 = pf_virtual_networks p0"
    using steady_perfect [OF p S] by metis
  have w: "perfect_wired P Ty i p1" by (rule perfect_facts(1) [OF W S p1(1)])
  have "\<exists>s. foldM (add_queue_length (pf_out p1 ! n)) [0..<pf_virtual_networks p1] (0, S) = Inr s \<and> steady P Ty S0 (snd s)"
  proof (rule foldM_total)
    fix v and s :: "nat \<times> simple_network" assume v: "v \<in> set [0..<pf_virtual_networks p1]" and s: "steady P Ty S0 (snd s)"
    have "n < length (pf_out p1)" using n p1 by simp
    then have "length (pf_out p1 ! n) = pf_virtual_networks p1" "\<exists>b. pf_out p1 ! n ! v = Some b \<and> b < length Ty"
      using w v unfolding perfect_wired_def by (blast, metis atLeastLessThan_iff set_upt)
    then obtain b where "v < length (pf_out p1 ! n)" "pf_out p1 ! n ! v = Some b" "b < length Ty" using v by auto
    then show "\<exists>s'. add_queue_length (pf_out p1 ! n) v s = Inr s' \<and> steady P Ty S0 (snd s')"
      using sn_slots_ok(2) [OF s, of b] by (auto simp: add_queue_length_def split_def)
  qed (use S in simp)
  then obtain q S1 where q: "foldM (add_queue_length (pf_out p1 ! n)) [0..<pf_virtual_networks p1] (0, S) = Inr (q, S1)" "steady P Ty S0 S1"
    by auto
  obtain r R where r: "random_in 0 255 (sn_ruby S1) = (r, R)" by fastforce
  have "steady P Ty S0 (S1\<lparr>sn_ruby := R\<rparr>)" using steady_ruby [OF q(2)] random_in_flags [OF r] by simp
  then show ?thesis using q(1) r n p1 by (auto simp: clogged_link_def)
qed

lemma clogged_links_ok:
  assumes W: "wired P Ty S0" and S: "steady P Ty S0 S" and p: "get_perfect i S0 = Inr p0"
  shows "n \<le> length (pf_out p0) \<Longrightarrow> n \<le> length order \<Longrightarrow> \<exists>order' S'. foldM (clogged_link i) [0..<n] (order, S) = Inr (order', S') \<and>
     steady P Ty S0 S' \<and> map lo_link order' = [0..<n] @ drop n (map lo_link order)"
proof (induction n)
  case (Suc n)
  then obtain order' S' where o: "foldM (clogged_link i) [0..<n] (order, S) = Inr (order', S')" "steady P Ty S0 S'"
    "map lo_link order' = [0..<n] @ drop n (map lo_link order)" by auto
  have "length order' = length order" using arg_cong [OF o(3), of length] Suc.prems by simp
  then obtain v S'' where c: "clogged_link i n (order', S') = Inr (order'[n := \<lparr>lo_link = n, lo_value = v\<rparr>], S'')" "steady P Ty S0 S''"
    using clogged_link_ok [OF W o(2) p, of n order'] Suc.prems by auto
  have "map lo_link (order'[n := \<lparr>lo_link = n, lo_value = v\<rparr>]) = [0..<Suc n] @ drop (Suc n) (map lo_link order)"
    using Suc.prems by (simp add: map_update o(3) list_update_append Cons_nth_drop_Suc [symmetric])
  then show ?case using o(1) c by (simp add: foldM_append)
qed (use S in simp)

lemma adapt_link_order_ok:
  assumes W: "wired P Ty S0" and S: "steady P Ty S0 S" and p: "get_perfect i S0 = Inr p0" and v: "vnet < pf_virtual_networks p0"
  shows "\<exists>S'. adapt_link_order P i vnet S = Inr S' \<and> steady P Ty S0 S'"
proof -
  obtain p1 where p1: "get_perfect i S = Inr p1" "pf_out p1 = pf_out p0" "pf_virtual_networks p1 = pf_virtual_networks p0"
    using steady_perfect [OF p S] by metis
  note f = perfect_facts [OF W S p1(1)]
  let ?n = "length (pf_out p1)"
  have len: "length (pf_link_order p1) = ?n" using f(2) by (metis diff_zero length_map length_upt perfect_ok_def size_mset)
  have ordered: "at (nw_ordered S) (int vnet) = Inr (nw_ordered S ! vnet)" using f(3) p1 v by simp
  have ok: "perfect_ok (q\<lparr>pf_link_order := xs\<rparr>)"
    if "perfect_ok q" "mset (map lo_link xs) = mset [0..<length (pf_out q)]" for q xs
    using that by (simp add: perfect_ok_def)
  have "steady P Ty S0 (put_perfect i (p1\<lparr>pf_link_order := map (\<lambda>out. \<lparr>lo_link = out, lo_value = 0\<rparr>) [0..<?n]\<rparr>) S)"
    by (rule steady_put_perfect [OF S p1(1)], simp, rule ok [OF f(2)]) (simp only: map_map comp_def link_order.select_convs map_ident)
  moreover obtain order S1 where o: "foldM (clogged_link i) [0..<?n] (pf_link_order p1, S) = Inr (order, S1)" "steady P Ty S0 S1"
    "map lo_link order = [0..<?n]" using clogged_links_ok [OF W S p, of ?n "pf_link_order p1"] p1 len by auto
  moreover obtain p2 where p2: "get_perfect i S1 = Inr p2" "pf_out p2 = pf_out p0" using steady_perfect [OF p o(2)] by metis
  moreover have "mset (map lo_link (sp_sort P order)) = mset (map lo_link order)"
    using W by (simp add: wired_def params_ok_def)
  then have "steady P Ty S0 (put_perfect i (p2\<lparr>pf_link_order := sp_sort P order\<rparr>) S1)"
    by (intro steady_put_perfect [OF o(2) p2(1)] ok perfect_facts(2) [OF W o(2) p2(1)]) (use o(3) p1 p2 in simp_all)
  ultimately show ?thesis
    using S p1(1) ordered len put_links [of ?n "pf_link_order p1"] by (simp add: adapt_link_order_def)
qed

lemma switch_message_ok:
  assumes W: "wired P Ty S0" and S: "steady P Ty S0 S" and p: "get_perfect i S0 = Inr p0" and v: "vnet < pf_virtual_networks p0"
    and b: "b < length Ty" "bt_cover (Ty ! b) \<subseteq> (\<Union>d \<in> set (pf_routing_table p0). nd_elems d)"
    and r: "mb_isReady (sn_now S) (sn_buffers S ! b)"
  shows "\<exists>c S'. switch_message P i vnet b S = Inr (c, S') \<and> steady P Ty S0 S'"
proof -
  note B = steady_buffer [OF S b(1)]
  obtain m where m: "mb_peekMsgPtr (sn_buffers S ! b) = Inr m" "m \<in># mb_msgs (sn_buffers S ! b)"
    using r by (cases "mb_prio_heap (sn_buffers S ! b)") (auto simp: mb_isReady_def mb_peekMsgPtr_def mb_msgs_def)
  have mok: "message_ok P (Ty ! b) m" using B(2) m(2) by (simp add: buffer_ok_def)
  obtain p1 where p1: "get_perfect i S = Inr p1" using steady_perfect [OF p S] by metis
  note f1 = perfect_facts [OF W S p1]
  obtain S1 where a: "adapt_link_order P i vnet S = Inr S1" "steady P Ty S0 S1" using adapt_link_order_ok [OF W S p v] by blast
  obtain p2 where p2: "get_perfect i S1 = Inr p2" "pf_routing_table p2 = pf_routing_table p0" "pf_out p2 = pf_out p0"
    using steady_perfect [OF p a(2)] by metis
  note f2 = perfect_facts [OF W a(2) p2(1)]
  have M: "machines_ok (sp_machines P)" using W by (simp add: wired_def params_ok_def)
  have table: "\<forall>d \<in> set (pf_routing_table p2). dest_ok (sp_machines P) d"
    and order: "mset (map lo_link (pf_link_order p2)) = mset [0..<length (pf_routing_table p2)]"
    using f2 by (simp_all add: perfect_wired_def perfect_ok_def)
  have d: "dest_ok (sp_machines P) (msg_destination m)" "nd_elems (msg_destination m) \<subseteq> (\<Union>e \<in> set (pf_routing_table p2). nd_elems e)"
    using mok b(2) p2(2) by (auto simp: message_ok_def)
  obtain outs left where o: "route_of P p2 (msg_destination m) = Inr (outs, left)" "NetDest_count left = 0"
    "\<forall>(l, s) \<in> set outs. l < length (pf_routing_table p2) \<and> dest_ok (sp_machines P) s \<and> nd_elems s \<noteq> {} \<and>
         nd_elems s \<subseteq> nd_elems (pf_routing_table p2 ! l)"
    using route_of_ok [OF M table order d] by blast
  have outs: "\<forall>(l, s) \<in> set outs. l < length (pf_routing_table p0)" using o(3) p2(2) by auto
  obtain e S2 where c: "foldM (check_slot i vnet) outs (True, S1) = Inr (e, S2)" "steady P Ty S0 S2"
    using check_slots_ok [OF W a(2) p v outs] by blast
  have h: "sn_heaps S2 = sn_heaps S" using adapt_link_order_heaps [OF a(1)] check_slots.loop_conserves [OF c(1)] by simp
  then have h2: "mb_prio_heap (sn_buffers S2 ! b) = mb_prio_heap (sn_buffers S ! b)" "sn_now S2 = sn_now S"
    using B(1) steady_buffer(1) [OF c(2) b(1)] by (simp_all add: sn_heaps_def) (metis nth_map)
  have "\<exists>S'. deliver P i vnet b m outs S2 = Inr S' \<and> steady P Ty S0 S'"
    by (rule deliver_ok [OF W c(2) p v b(1)])
      (use h2 r m(1) o(3) p2(2) in \<open>auto simp: mb_isReady_def mb_peekMsgPtr_def\<close>)
  then obtain S3 where d: "deliver P i vnet b m outs S2 = Inr S3" "steady P Ty S0 S3" by blast
  have len: "length (pf_link_order p1) = length (pf_routing_table p1)" "length (pf_link_order p1) = length (pf_out p1)"
    using f1 by (simp_all add: perfect_wired_def) (metis diff_zero length_map length_upt perfect_ok_def size_mset)+
  show ?thesis using B(1) m(1) p1 len a(1) p2(1) o c steady_schedule(2) [OF c(2)] d
    by (cases e) (auto simp: switch_message_def deref_def)
qed

lemma operateMessageBuffer_ok:
  assumes W: "wired P Ty S0" and p: "get_perfect i S0 = Inr p0" and v: "vnet < pf_virtual_networks p0"
    and b: "b < length Ty" "bt_cover (Ty ! b) \<subseteq> (\<Union>d \<in> set (pf_routing_table p0). nd_elems d)"
  shows "steady P Ty S0 S \<Longrightarrow> \<exists>S'. operateMessageBuffer P i vnet b S = Inr S' \<and> steady P Ty S0 S'"
proof (induction "ready_count b S" arbitrary: S rule: less_induct)
  case less
  note B = steady_buffer(1) [OF less.prems b(1)]
  show ?case
  proof (cases "mb_isReady (sn_now S) (sn_buffers S ! b)")
    case True
    from switch_message_ok [OF W less.prems p v b True] obtain c S' where
      s: "switch_message P i vnet b S = Inr (c, S')" "steady P Ty S0 S'" by blast
    show ?thesis
    proof (cases c)
      case True
      with less.hyps [OF switch_message_ready s(2)] s(1) B \<open>mb_isReady (sn_now S) (sn_buffers S ! b)\<close> show ?thesis
        by (simp add: operateMessageBuffer.simps [of P i vnet b S] sn_isReady_def deref_def)
    qed (use s B True in \<open>simp add: operateMessageBuffer.simps [of P i vnet b S] sn_isReady_def deref_def\<close>)
  qed (use less.prems B in \<open>simp add: operateMessageBuffer.simps [of P i vnet b S] sn_isReady_def deref_def\<close>)
qed

lemma operate_inport_ok:
  assumes W: "wired P Ty S0" and S: "steady P Ty S0 S" and p: "get_perfect i S0 = Inr p0" and v: "vnet < pf_virtual_networks p0"
    and n: "n < length (pf_in p0)"
  shows "\<exists>S'. operate_inport P i vnet n S = Inr S' \<and> steady P Ty S0 S'"
proof -
  obtain p1 where p1: "get_perfect i S = Inr p1" "pf_in p1 = pf_in p0" using steady_perfect [OF p S] by metis
  have "perfect_wired P Ty i p0" using W p by (auto simp: wired_def get_perfect_eq_Inr)
  then have w: "\<forall>v < length (pf_in p0 ! n). \<forall>b. pf_in p0 ! n ! v = Some b \<longrightarrow>
      b < length Ty \<and> bt_cover (Ty ! b) \<subseteq> (\<Union>d \<in> set (pf_routing_table p0). nd_elems d)"
    using n unfolding perfect_wired_def by (meson nth_mem)
  show ?thesis
  proof (cases "length (pf_in p0 ! n) \<le> vnet \<or> pf_in p0 ! n ! vnet = None")
    case False
    then obtain b where b: "pf_in p0 ! n ! vnet = Some b" "vnet < length (pf_in p0 ! n)" by auto
    then show ?thesis using w operateMessageBuffer_ok [OF W p v, of b S] S p1 n by (simp add: operate_inport_def)
  qed (use S p1 n in \<open>auto simp: operate_inport_def\<close>)
qed

lemma rr_order_bounds: "0 < n \<Longrightarrow> start < n \<Longrightarrow> set (rr_order n start k) \<subseteq> {..<n}"
  by (induction k arbitrary: start) auto

lemma PerfectSwitch_operateVnet_ok:
  assumes W: "wired P Ty S0" and S: "steady P Ty S0 S" and p: "get_perfect i S0 = Inr p0" and v: "vnet < pf_virtual_networks p0"
  shows "\<exists>S'. PerfectSwitch_operateVnet P i vnet S = Inr S' \<and> steady P Ty S0 S'"
proof -
  obtain p1 where p1: "get_perfect i S = Inr p1" "pf_in p1 = pf_in p0" "pf_virtual_networks p1 = pf_virtual_networks p0"
    using steady_perfect [OF p S] by metis
  have ok: "perfect_ok p1" by (rule perfect_facts(2) [OF W S p1(1)])
  let ?n = "length (pf_in p1)"
  let ?S = "put_perfect i (p1\<lparr>pf_round_robin_start := rr_next ?n (pf_round_robin_start p1)\<rparr>) S"
  have S1: "steady P Ty S0 ?S" by (rule steady_put_perfect [OF S p1(1)]) (use ok in \<open>simp_all add: perfect_ok_def\<close>)
  have "set (rr_order ?n (rr_next ?n (pf_round_robin_start p1)) ?n) \<subseteq> {..<length (pf_in p0)}"
    using rr_order_bounds [of ?n "rr_next ?n (pf_round_robin_start p1)" ?n] p1(2) by (cases "?n = 0") auto
  then have "\<exists>S'. foldM (operate_inport P i vnet) (rr_order ?n (rr_next ?n (pf_round_robin_start p1)) ?n) ?S = Inr S' \<and> steady P Ty S0 S'"
    by (intro foldM_total [of "steady P Ty S0", OF S1] operate_inport_ok [OF W _ p v]) auto
  then show ?thesis using p1(1) S1 ok p1(3) v
    by (auto simp: PerfectSwitch_operateVnet_def Let_def perfect_ok_def)
qed

lemma PerfectSwitch_wakeup_ok:
  assumes T: "typed P Ty S" and i: "i < length (sn_switches S)"
  shows "\<exists>S'. PerfectSwitch_wakeup P i S = Inr S' \<and> typed P Ty S' \<and> sn_static S' = sn_static S"
proof -
  obtain p where p: "get_perfect i S = Inr p" using i by (simp add: get_perfect_eq_Inr)
  have W: "wired P Ty S" and S: "steady P Ty S S" using T typed_steady by (auto simp: typed_def)
  define vnets where "vnets = (if PRIORITY_SWITCH_LIMIT < pf_wakeups_wo_switch p + 1 then [0..<pf_virtual_networks p] else rev [0..<pf_virtual_networks p])"
  define S1 where "S1 = put_perfect i (p\<lparr>pf_wakeups_wo_switch :=
      if PRIORITY_SWITCH_LIMIT < pf_wakeups_wo_switch p + 1 then 0 else pf_wakeups_wo_switch p + 1\<rparr>) S"
  have "steady P Ty S S1" unfolding S1_def
    by (rule steady_put_perfect [OF S p]) (use perfect_facts(2) [OF W S p] in \<open>simp_all add: perfect_ok_def\<close>)
  then have "\<exists>S'. foldM (PerfectSwitch_operateVnet P i) vnets S1 = Inr S' \<and> steady P Ty S S'"
    by (rule foldM_total) (auto simp: vnets_def split: if_splits intro!: PerfectSwitch_operateVnet_ok [OF W _ p])
  then obtain S' where "foldM (PerfectSwitch_operateVnet P i) vnets S1 = Inr S'" "steady P Ty S S'" by blast
  then show ?thesis using p steady_typed [OF T]
    by (auto simp: PerfectSwitch_wakeup_def Let_def vnets_def S1_def steady_def)
qed

end
