(* ===== verification/Simple_Throttle.thy ===== *)
theory Simple_Throttle
  imports Simple_Sound
begin

text \<open>
  Throttles of a typed simple network: no wakeup fails, the state stays typed, and what a link moves is what its
  bandwidth pays for.
\<close>

section \<open>Progress and preservation\<close>

lemma steady_throttle:
  assumes "get_throttle i k S0 = Inr t0" and "steady P Ty S0 S"
  obtains t where "get_throttle i k S = Inr t" and "th_in t = th_in t0" and "th_out t = th_out t0" and "th_vnets t = th_vnets t0"
    and "th_link_latency t = th_link_latency t0" and "getLinkBandwidth t = getLinkBandwidth t0"
  using static_throttle [OF _ assms(1), of S] assms(2) static_th_eq unfolding steady_def by metis

text \<open>A virtual network of a throttle that is connected on both sides.\<close>

definition throttle_link :: "simple_params \<Rightarrow> store_type \<Rightarrow> simple_network \<Rightarrow> nat \<Rightarrow> nat \<Rightarrow> nat \<Rightarrow> nat \<Rightarrow> nat \<Rightarrow> throttle \<Rightarrow> bool" where
  "throttle_link P Ty S0 i k vnet b c t0 \<longleftrightarrow> wired P Ty S0 \<and> get_throttle i k S0 = Inr t0 \<and> vnet < th_vnets t0 \<and>
     th_in t0 ! vnet = Some b \<and> th_out t0 ! vnet = Some c"

lemma throttle_linkD:
  assumes "throttle_link P Ty S0 i k vnet b c t0"
  shows "wired P Ty S0" and "get_throttle i k S0 = Inr t0" and "vnet < th_vnets t0"
    and "th_in t0 ! vnet = Some b" and "th_out t0 ! vnet = Some c"
  using assms by (simp_all add: throttle_link_def)

lemma wires:
  assumes L: "throttle_link P Ty S0 i k vnet b c t0"
  shows "b < length Ty" "c < length Ty" "bt_delta (Ty ! c) = Some (sp_clockPeriod P * th_link_latency t0)"
    "bt_cover (Ty ! b) \<subseteq> bt_cover (Ty ! c)" "bt_consumer (Ty ! b) = ThrottleConsumer i k"
proof -
  note W = throttle_linkD(1) [OF L] and t0 = throttle_linkD(2) [OF L] and v = throttle_linkD(3) [OF L]
    and inb = throttle_linkD(4) [OF L] and outb = throttle_linkD(5) [OF L]
  have "throttle_wired P Ty i k t0" using W t0 by (auto simp: wired_def get_throttle_eq_Inr)
  then show "b < length Ty" "c < length Ty" "bt_delta (Ty ! c) = Some (sp_clockPeriod P * th_link_latency t0)"
    "bt_cover (Ty ! b) \<subseteq> bt_cover (Ty ! c)" "bt_consumer (Ty ! b) = ThrottleConsumer i k" using v inb outb by (auto simp: throttle_wired_def)
qed

lemma units_ok:
  assumes L: "throttle_link P Ty S0 i k vnet b c t0" and S: "steady P Ty S0 S"
  obtains u where "units_remaining i k vnet S = Inr u" and "0 \<le> u"
proof -
  note W = throttle_linkD(1) [OF L] and t0 = throttle_linkD(2) [OF L] and v = throttle_linkD(3) [OF L] and wires = wires [OF L]
  obtain t where t: "get_throttle i k S = Inr t" "th_vnets t = th_vnets t0" using steady_throttle [OF t0 S] by metis
  have "throttle_ok t" by (rule throttle_facts(2) [OF W S t(1)])
  then show ?thesis using that [of "th_units_remaining t ! vnet"] t v by (auto simp: units_remaining_def throttle_ok_def)
qed

lemma set_units_ok:
  assumes L: "throttle_link P Ty S0 i k vnet b c t0" and S: "steady P Ty S0 S" and u: "0 \<le> u"
  obtains S' where "set_units i k vnet u S = Inr S'" and "steady P Ty S0 S'" and "sn_heaps S' = sn_heaps S"
proof -
  note W = throttle_linkD(1) [OF L] and t0 = throttle_linkD(2) [OF L] and v = throttle_linkD(3) [OF L] and wires = wires [OF L]
  obtain t where t: "get_throttle i k S = Inr t" "th_vnets t = th_vnets t0" using steady_throttle [OF t0 S] by metis
  have ok: "throttle_ok t" by (rule throttle_facts(2) [OF W S t(1)])
  let ?t = "t\<lparr>th_units_remaining := (th_units_remaining t)[vnet := u]\<rparr>"
  have "throttle_ok ?t" using ok update_all [of "th_units_remaining t" "\<lambda>u. 0 \<le> u" u vnet] u by (simp add: throttle_ok_def)
  then have "steady P Ty S0 (put_throttle i k ?t S)" by (intro steady_put_throttle [OF S t(1)]) simp
  then show ?thesis using that [of "put_throttle i k ?t S"] ok t v by (simp add: set_units_def throttle_ok_def)
qed

lemma count_message_ok:
  assumes L: "throttle_link P Ty S0 i k vnet b c t0" and S: "steady P Ty S0 S"
  obtains S' where "count_message i k ty vnet S = Inr S'" and "steady P Ty S0 S'"
proof -
  note W = throttle_linkD(1) [OF L] and t0 = throttle_linkD(2) [OF L] and v = throttle_linkD(3) [OF L] and wires = wires [OF L]
  obtain t where t: "get_throttle i k S = Inr t" using steady_throttle [OF t0 S] by metis
  have "throttle_ok t" by (rule throttle_facts(2) [OF W S t])
  then have "steady P Ty S0 (put_throttle i k (t\<lparr>th_msg_counts := f\<rparr>) S)" for f
    by (intro steady_put_throttle [OF S t]) (simp_all add: throttle_ok_def)
  then show ?thesis using that t by (simp add: count_message_def)
qed

lemma heaps_ready:
  "throttle_link P Ty S0 i k vnet b c t0 \<Longrightarrow> steady P Ty S0 S \<Longrightarrow> steady P Ty S0 S' \<Longrightarrow> sn_heaps S' = sn_heaps S \<Longrightarrow> sn_isReady (Some b) S' = sn_isReady (Some b) S"
  using steady_buffer(1) [OF _ wires(1)] by (simp add: sn_isReady_def deref_def sn_heaps_def mb_isReady_def) (metis nth_map)

lemma start_message_ok:
  assumes L: "throttle_link P Ty S0 i k vnet b c t0" and S: "steady P Ty S0 S" and r: "sn_isReady (Some b) S = Inr True"
  shows "\<exists>S'. start_message P i k vnet (Some b) (Some c) S = Inr S' \<and> steady P Ty S0 S'"
proof -
  note W = throttle_linkD(1) [OF L] and t0 = throttle_linkD(2) [OF L] and v = throttle_linkD(3) [OF L] and wires = wires [OF L]
  note B = steady_buffer(1) [OF S wires(1)]
  have r': "mb_isReady (sn_now S) (sn_buffers S ! b)" using r B by (simp add: sn_isReady_def deref_def)
  then obtain m where m: "mb_peekMsgPtr (sn_buffers S ! b) = Inr m"
    by (cases "mb_prio_heap (sn_buffers S ! b)") (auto simp: mb_isReady_def mb_peekMsgPtr_def)
  obtain u where u: "units_remaining i k vnet S = Inr u" "0 \<le> u" by (rule units_ok [OF L S])
  have "0 \<le> u + network_message_to_size m S" using u(2) by (simp add: network_message_to_size_def MESSAGE_SIZE_MULTIPLIER_def)
  then obtain S1 where s: "set_units i k vnet (u + network_message_to_size m S) S = Inr S1" "steady P Ty S0 S1" "sn_heaps S1 = sn_heaps S"
    by (rule set_units_ok [OF L S])
  have "sn_isReady (Some b) S1 = Inr True" using heaps_ready [OF L S s(2,3)] r by simp
  then have "mb_isReady (sn_now S1) (sn_buffers S1 ! b)"
    using steady_buffer(1) [OF s(2) wires(1)] by (simp add: sn_isReady_def deref_def)
  from sn_dequeue_ok [OF s(2) wires(1) this] obtain m' S2 where d: "sn_dequeue (Some b) S1 = Inr (m', S2)" "steady P Ty S0 S2"
    "message_ok P (Ty ! b) m'" "msg_LastEnqueueTime m' \<le> sn_now S1" by blast
  obtain t where t: "get_throttle i k S2 = Inr t" "th_link_latency t = th_link_latency t0" using steady_throttle [OF t0 d(2)] by metis
  have "message_ok P (Ty ! c) m'" using d(3) wires(4) by (auto simp: message_ok_def)
  moreover have "msg_LastEnqueueTime m' \<le> sn_now S2" using d s(2) by (metis static_now steady_def)
  ultimately obtain S3 where e: "sn_enqueue (Some c) m' (sp_clockPeriod P * th_link_latency t0) S2 = Inr S3" "steady P Ty S0 S3"
    using sn_enqueue_ok [OF W d(2) wires(2,3)] by blast
  obtain S4 where "count_message i k (msg_size m') vnet S3 = Inr S4" "steady P Ty S0 S4" by (rule count_message_ok [OF L e(2)])
  then show ?thesis using B m u s d t e by (simp add: start_message_def deref_def)
qed

lemma throttle_busy_ok:
  assumes L: "throttle_link P Ty S0 i k vnet b c t0" and S: "steady P Ty S0 S"
  shows "\<exists>a r S'. throttle_busy i k vnet (Some b) (Some c) bw S = Inr (a, r, S') \<and> steady P Ty S0 S'"
proof -
  note W = throttle_linkD(1) [OF L] and t0 = throttle_linkD(2) [OF L] and v = throttle_linkD(3) [OF L] and wires = wires [OF L]
  obtain u where "units_remaining i k vnet S = Inr u" by (rule units_ok [OF L S])
  moreover obtain r S' where "sn_areNSlotsAvailable 1 (Some c) S = Inr (r, S')" "steady P Ty S0 S'"
    using sn_slots_ok(1) [OF S wires(2)] by blast
  ultimately show ?thesis using S steady_buffer(1) [OF S wires(1)] by (auto simp: throttle_busy_def sn_isReady_def deref_def)
qed

lemma throttle_turn_ok:
  assumes L: "throttle_link P Ty S0 i k vnet b c t0" and S: "steady P Ty S0 S"
  shows "\<exists>bw' S'. throttle_turn P i k vnet (Some b) (Some c) bw S = Inr (bw', S') \<and> steady P Ty S0 S'"
proof -
  note W = throttle_linkD(1) [OF L] and t0 = throttle_linkD(2) [OF L] and v = throttle_linkD(3) [OF L] and wires = wires [OF L]
  obtain u where u: "units_remaining i k vnet S = Inr u" by (rule units_ok [OF L S])
  obtain r where r: "sn_isReady (Some b) S = Inr r" using steady_buffer(1) [OF S wires(1)] by (simp add: sn_isReady_def deref_def)
  obtain S1 where s: "(if u = 0 \<and> r then start_message P i k vnet (Some b) (Some c) S else Inr S) = Inr S1" "steady P Ty S0 S1"
    using start_message_ok [OF L S] S r by (cases "u = 0 \<and> r") auto
  obtain u1 where u1: "units_remaining i k vnet S1 = Inr u1" by (rule units_ok [OF L s(2)])
  obtain S2 where "set_units i k vnet (max 0 (u1 - bw)) S1 = Inr S2" "steady P Ty S0 S2" by (rule set_units_ok [OF L s(2) max.cobounded1])
  then show ?thesis using u r s(1) u1 by (simp add: throttle_turn_def Let_def)
qed

text \<open>
  The loops of a throttle, once for all: a statement on the remaining bandwidth and the state that the
  condition of the loop and its turns keep, is kept by a wakeup up to the point where the throttle books the
  bandwidth it has used.
\<close>

definition kept_by_turns :: "simple_params \<Rightarrow> store_type \<Rightarrow> simple_network \<Rightarrow> nat \<Rightarrow> nat \<Rightarrow> (int \<times> simple_network \<Rightarrow> bool) \<Rightarrow> bool" where
  "kept_by_turns P Ty S0 i k I \<longleftrightarrow>
     (\<forall>vnet inb outb bw S a r S'. throttle_busy i k vnet inb outb bw S = Inr (a, r, S') \<longrightarrow> I (bw, S) \<longrightarrow> I (bw, S')) \<and>
     (\<forall>vnet b c t0 bw S bw' S'. throttle_link P Ty S0 i k vnet b c t0 \<longrightarrow> steady P Ty S0 S \<longrightarrow>
        throttle_turn P i k vnet (Some b) (Some c) bw S = Inr (bw', S') \<longrightarrow> I (bw, S) \<longrightarrow> I (bw', S'))"

lemma throttle_loop_rule:
  assumes L: "throttle_link P Ty S0 i k vnet b c t0" and K: "kept_by_turns P Ty S0 i k I"
  shows "steady P Ty S0 S \<Longrightarrow> I (bw, S) \<Longrightarrow>
    \<exists>bw' S'. throttle_loop P i k vnet (Some b) (Some c) bw S = Inr (bw', S') \<and> steady P Ty S0 S' \<and> I (bw', S')"
proof (induction "throttle_measure i k vnet (Some b) bw S" arbitrary: bw S rule: less_induct)
  case less
  obtain a r S1 where s: "throttle_busy i k vnet (Some b) (Some c) bw S = Inr (a, r, S1)" "steady P Ty S0 S1"
    using throttle_busy_ok [OF L less.prems(1)] by blast
  have I1: "I (bw, S1)" using K s(1) less.prems(2) by (auto simp: kept_by_turns_def)
  show ?case
  proof (cases "a \<and> r")
    case True
    obtain bw' S2 where t: "throttle_turn P i k vnet (Some b) (Some c) bw S1 = Inr (bw', S2)" "steady P Ty S0 S2"
      using throttle_turn_ok [OF L s(2)] by blast
    have "throttle_measure i k vnet (Some b) bw' S2 < throttle_measure i k vnet (Some b) bw S"
      by (rule throttle_turn_measure [OF _ t(1)]) (use s True in simp)
    moreover have "I (bw', S2)" using K L s(2) t(1) I1 unfolding kept_by_turns_def by blast
    ultimately show ?thesis using less.hyps [OF _ t(2)] True s t
      by (simp add: throttle_loop.simps [of P i k vnet "Some b" "Some c" bw S])
  next
    case False
    then show ?thesis using s I1 by (auto simp: throttle_loop.simps [of P i k vnet "Some b" "Some c" bw S])
  qed
qed

lemma Throttle_operateVnet_rule:
  assumes W: "wired P Ty S0" and S: "steady P Ty S0 S" and t0: "get_throttle i k S0 = Inr t0" and v: "vnet < th_vnets t0"
    and K: "kept_by_turns P Ty S0 i k I" and I: "I (bw, S)"
  shows "\<exists>bw' w' S'. Throttle_operateVnet P i k vnet (bw, w, S) = Inr (bw', w', S') \<and> steady P Ty S0 S' \<and> I (bw', S')"
proof -
  obtain t where t: "get_throttle i k S = Inr t" "th_in t = th_in t0" "th_out t = th_out t0" "th_vnets t = th_vnets t0"
    using steady_throttle [OF t0 S] by metis
  have w: "throttle_wired P Ty i k t" by (rule throttle_facts(1) [OF W S t(1)])
  then have at: "at (th_in t) (int vnet) = Inr (th_in t0 ! vnet)" "at (th_out t) (int vnet) = Inr (th_out t0 ! vnet)"
    using t v by (simp_all add: throttle_wired_def)
  show ?thesis
  proof (cases "th_out t0 ! vnet = None \<or> th_in t0 ! vnet = None")
    case False
    then obtain b c where bc: "th_in t0 ! vnet = Some b" "th_out t0 ! vnet = Some c" by auto
    then have L: "throttle_link P Ty S0 i k vnet b c t0" using W t0 v by (simp add: throttle_link_def)
    obtain u where u: "units_remaining i k vnet S = Inr u" "0 \<le> u" by (rule units_ok [OF L S])
    obtain bw' S1 where l: "throttle_loop P i k vnet (Some b) (Some c) bw S = Inr (bw', S1)" "steady P Ty S0 S1" "I (bw', S1)"
      using throttle_loop_rule [OF L K S I] by blast
    obtain a r S2 where q: "throttle_busy i k vnet (Some b) (Some c) bw' S1 = Inr (a, r, S2)" "steady P Ty S0 S2"
      using throttle_busy_ok [OF L l(2)] by blast
    have "I (bw', S2)" using K l(3) q(1) by (auto simp: kept_by_turns_def)
    then show ?thesis using t(1) at bc u l q by (simp add: Throttle_operateVnet_def)
  qed (use t(1) at S I in \<open>auto simp: Throttle_operateVnet_def\<close>)
qed

text \<open>The throttle after the first statements of a wakeup, and after the last.\<close>

definition th_begun :: "throttle \<Rightarrow> throttle" where
  "th_begun t = t\<lparr>th_wakeups_wo_switch := if PRIORITY_SWITCH_LIMIT < th_wakeups_wo_switch t + 1 then 0 else th_wakeups_wo_switch t + 1\<rparr>"

definition th_booked :: "int \<Rightarrow> throttle \<Rightarrow> throttle" where
  "th_booked bw t = t\<lparr>th_link_utilization_proxy := th_link_utilization_proxy t + (getLinkBandwidth t - bw)\<rparr>"

lemma th_begun_ok [simp]:
  "throttle_ok (th_begun t) = throttle_ok t" "throttle_ok (th_booked bw t) = throttle_ok t"
  "th_static (th_begun t) = th_static t" "th_static (th_booked bw t) = th_static t"
  by (simp_all add: throttle_ok_def th_begun_def th_booked_def)

lemma Throttle_wakeup_rule:
  assumes T: "typed P Ty S" and t: "get_throttle i k S = Inr t" and K: "kept_by_turns P Ty S i k I"
    and I: "I (getLinkBandwidth t, put_throttle i k (th_begun t) S)"
  obtains bw S2 t2 S' where "steady P Ty S S2" and "I (bw, S2)" and "get_throttle i k S2 = Inr t2"
    and "Throttle_wakeup P i k S = Inr S'" and "typed P Ty S'" and "sn_static S' = sn_static S"
    and "S' = put_throttle i k (th_booked bw t2) S2 \<or>
      S' = sn_scheduleEvent P 1 (ThrottleConsumer i k) (put_throttle i k (th_booked bw t2) S2)"
proof -
  have W: "wired P Ty S" and S: "steady P Ty S S" using T typed_steady by (auto simp: typed_def)
  note f = throttle_facts [OF W S t]
  define vnets where "vnets = (if PRIORITY_SWITCH_LIMIT < th_wakeups_wo_switch t + 1 then [0..<th_vnets t] else rev [0..<th_vnets t])"
  let ?I = "\<lambda>s. steady P Ty S (snd (snd s)) \<and> I (fst s, snd (snd s))"
  have "?I (getLinkBandwidth t, False, put_throttle i k (th_begun t) S)" unfolding fst_conv snd_conv
    by (intro conjI I steady_put_throttle [OF S t]) (simp_all add: f(2))
  then have "\<exists>s. foldM (Throttle_operateVnet P i k) vnets (getLinkBandwidth t, False, put_throttle i k (th_begun t) S) = Inr s \<and> ?I s"
  proof (rule foldM_total)
    fix v and s :: "int \<times> bool \<times> simple_network" assume "v \<in> set vnets" and s: "?I s"
    then have "v < th_vnets t" by (auto simp: vnets_def split: if_splits)
    from Throttle_operateVnet_rule [OF W conjunct1 [OF s] t this K conjunct2 [OF s], of "fst (snd s)"]
    show "\<exists>s'. Throttle_operateVnet P i k v s = Inr s' \<and> ?I s'" by auto
  qed
  then obtain bw w S2 where l: "foldM (Throttle_operateVnet P i k) vnets (getLinkBandwidth t, False, put_throttle i k (th_begun t) S) = Inr (bw, w, S2)"
    and S2: "steady P Ty S S2" and I2: "I (bw, S2)" by (metis prod.exhaust fst_conv snd_conv)
  obtain t2 where t2: "get_throttle i k S2 = Inr t2" using steady_throttle [OF t S2] by metis
  let ?S = "put_throttle i k (th_booked bw t2) S2"
  have S3: "steady P Ty S ?S"
    by (rule steady_put_throttle [OF S2 t2]) (simp_all add: throttle_facts(2) [OF W S2 t2])
  have e: "Throttle_wakeup P i k S = Inr (if 0 < bw \<and> \<not> w then ?S else sn_scheduleEvent P 1 (ThrottleConsumer i k) ?S)"
    using t f(1) l t2 unfolding vnets_def th_begun_def th_booked_def
    by (cases "PRIORITY_SWITCH_LIMIT < th_wakeups_wo_switch t + 1") (simp_all add: Throttle_wakeup_def Let_def throttle_wired_def)
  note c = steady_typed [OF T S3] S3 [unfolded steady_def] steady_typed [OF T steady_schedule(2) [OF S3]]
    steady_schedule(2) [OF S3, unfolded steady_def]
  show ?thesis by (rule that [OF S2 I2 t2 e]) (use c in \<open>simp_all add: split: if_splits\<close>)
qed

lemma Throttle_wakeup_ok:
  assumes "typed P Ty S" and "get_throttle i k S = Inr t"
  shows "\<exists>S'. Throttle_wakeup P i k S = Inr S' \<and> typed P Ty S' \<and> sn_static S' = sn_static S"
  by (rule Throttle_wakeup_rule [OF assms, of "\<lambda>_. True"]) (auto simp: kept_by_turns_def)

end
