(* ===== verification/Simple_Ledger.thy ===== *)
theory Simple_Ledger
  imports Simple_Throttle
begin

text \<open>
  What the simple network accounts for. \<open>sn_copies\<close> is the multiset of the deliveries that are still to be made, one
  per message and machine it is for; \<open>pending_gap\<close> compares the counter of pending messages of a switch with the
  messages that wait in its input buffers; \<open>balance\<close> compares the size of what a link has moved with the bandwidth
  it has used and the units it still owes. No wakeup changes any of the three (\<open>sn_ledger\<close>).
\<close>

section \<open>Definitions\<close>

definition msg_copies :: "message \<Rightarrow> (nat \<times> nat \<times> nat) multiset" where
  "msg_copies m = image_mset (Pair (msg_id m)) (mset_set (nd_elems (msg_destination m)))"

definition buffer_copies :: "message_buffer \<Rightarrow> (nat \<times> nat \<times> nat) multiset" where
  "buffer_copies B = sum_mset (image_mset msg_copies (mb_msgs B))"

definition sn_copies :: "simple_network \<Rightarrow> (nat \<times> nat \<times> nat) multiset" where
  "sn_copies S = contents buffer_copies (sn_buffers S)"

definition waits_for :: "nat \<Rightarrow> nat \<Rightarrow> message_buffer \<Rightarrow> int" where
  "waits_for i v B = (if mb_consumer B = Some (SwitchConsumer i) \<and> mb_vnet_id B = int v then int (length (mb_prio_heap B)) else 0)"

definition waiting :: "nat \<Rightarrow> nat \<Rightarrow> simple_network \<Rightarrow> int" where
  "waiting i v S = sum_list (map (waits_for i v) (sn_buffers S))"

definition pending_of :: "nat \<Rightarrow> nat \<Rightarrow> simple_network \<Rightarrow> int" where
  "pending_of i v S = (case bnd (get_perfect i S) (\<lambda>p. at (pf_pending_message_count p) (int v)) of Inl _ \<Rightarrow> 0 | Inr c \<Rightarrow> c)"

definition pending_gap :: "simple_network \<Rightarrow> nat \<Rightarrow> nat \<Rightarrow> int" where
  "pending_gap S i v = pending_of i v S - waiting i v S"

definition all_sizes :: "MessageSizeType list" where
  "all_sizes =
     [MessageSizeType_Control, MessageSizeType_Data, MessageSizeType_Request_Control, MessageSizeType_Reissue_Control,
      MessageSizeType_Response_Data, MessageSizeType_ResponseL2hit_Data, MessageSizeType_ResponseLocal_Data,
      MessageSizeType_Response_Control, MessageSizeType_Writeback_Data, MessageSizeType_Writeback_Control,
      MessageSizeType_Broadcast_Control, MessageSizeType_Multicast_Control, MessageSizeType_Forwarded_Control,
      MessageSizeType_Invalidate_Control, MessageSizeType_Unblock_Control, MessageSizeType_Persistent_Control,
      MessageSizeType_Completion_Control]"

definition size_units :: "'a network_base_scheme \<Rightarrow> MessageSizeType \<Rightarrow> int" where
  "size_units N ty = int (MessageSizeType_to_int N ty) * MESSAGE_SIZE_MULTIPLIER"

definition units_moved :: "simple_network \<Rightarrow> throttle \<Rightarrow> int" where
  "units_moved S t = (\<Sum>v < th_vnets t. \<Sum>ty \<in> set all_sizes. int (th_msg_counts t ty v) * size_units S ty)"

definition units_owed :: "throttle \<Rightarrow> int" where
  "units_owed t = sum_list (th_units_remaining t)"

definition th_balance :: "simple_network \<Rightarrow> throttle \<Rightarrow> int" where
  "th_balance S t = units_moved S t - units_owed t - th_link_utilization_proxy t"

definition balance :: "simple_network \<Rightarrow> nat \<Rightarrow> nat \<Rightarrow> int" where
  "balance S i k = (case get_throttle i k S of Inl _ \<Rightarrow> 0 | Inr t \<Rightarrow> th_balance S t)"

definition sn_ledger :: "simple_network \<Rightarrow> (nat \<times> nat \<times> nat) multiset \<times> (nat \<Rightarrow> nat \<Rightarrow> int) \<times> (nat \<Rightarrow> nat \<Rightarrow> int)" where
  "sn_ledger S = (sn_copies S, pending_gap S, balance S)"

lemma set_all_sizes: "ty \<in> set all_sizes"
  by (cases ty) (simp_all add: all_sizes_def)

section \<open>Updates that change nothing\<close>

lemma sum_list_map_update:
  "i < length xs \<Longrightarrow> sum_list (map f (xs[i := y])) = sum_list (map f xs) - f (xs ! i) + (f y :: int)"
  by (induction xs arbitrary: i) (auto split: nat.splits)

lemma size_units_upd [simp]:
  "size_units (S\<lparr>sn_switches := a\<rparr>) ty = size_units S ty" "size_units (S\<lparr>sn_buffers := b\<rparr>) ty = size_units S ty"
  "size_units (S\<lparr>sn_ruby := c\<rparr>) ty = size_units S ty" "size_units (S\<lparr>sn_now := d\<rparr>) ty = size_units S ty"
  by (cases ty; simp add: size_units_def)+

lemma ledger_ruby [simp]: "sn_ledger (S\<lparr>sn_ruby := R\<rparr>) = sn_ledger S"
  by (simp add: sn_ledger_def sn_copies_def pending_gap_def pending_of_def waiting_def balance_def get_perfect_def get_throttle_def
      get_switch_def th_balance_def units_moved_def fun_eq_iff split: sum.splits)

lemma assign_switches [simp]: "sn_switches (assign b B S) = sn_switches S" "size_units (assign b B S) ty = size_units S ty"
  by (simp_all add: assign_def split: option.splits)

lemma balance_cong:
  assumes "sn_switches S' = sn_switches S" and "\<And>ty. size_units S' ty = size_units S ty"
  shows "balance S' = balance S" and "pending_of i v S' = pending_of i v S"
  using assms by (auto simp: balance_def pending_of_def get_throttle_def get_perfect_def get_switch_def th_balance_def units_moved_def fun_eq_iff
      split: sum.splits)

lemma ledger_assign:
  assumes "deref b S = Inr B" and "mb_prio_heap B' = mb_prio_heap B" and "mb_consumer B' = mb_consumer B" and "mb_vnet_id B' = mb_vnet_id B"
  shows "sn_ledger (assign b B' S) = sn_ledger S"
proof -
  obtain j where j: "b = Some j" "j < length (sn_buffers S)" "B = sn_buffers S ! j" using assms(1) by (auto simp: deref_eq_Inr)
  have "sn_copies (assign b B' S) = sn_copies S"
    using j assms(2) by (simp add: sn_copies_def assign_Some contents_update_same buffer_copies_def mb_msgs_def)
  moreover have "waiting i v (assign b B' S) = waiting i v S" for i v
    using j assms by (simp add: waiting_def assign_Some sum_list_map_update waits_for_def)
  ultimately show ?thesis using balance_cong [of "assign b B' S" S]
    by (simp add: sn_ledger_def pending_gap_def fun_eq_iff)
qed

lemma slots_ledger:
  "sn_areNSlotsAvailable n b S = Inr (r, S') \<Longrightarrow> sn_ledger S' = sn_ledger S"
  "sn_getSize b S = Inr (k, S') \<Longrightarrow> sn_ledger S' = sn_ledger S"
  by (auto simp: sn_areNSlotsAvailable_def areNSlotsAvailable_def sn_getSize_def mb_getSize_def Let_def split: if_splits intro!: ledger_assign)

lemma put_perfect_parts:
  assumes p: "get_perfect i S = Inr p"
  shows "sn_copies (put_perfect i p' S) = sn_copies S" and "waiting j v (put_perfect i p' S) = waiting j v S"
    and "balance (put_perfect i p' S) = balance S"
    and "pending_of j v (put_perfect i p' S) = (if j = i then (if v < length (pf_pending_message_count p') then pf_pending_message_count p' ! v else 0)
      else pending_of j v S)"
proof -
  have i: "i < length (sn_switches S)" using p by (simp add: get_perfect_eq_Inr)
  show "sn_copies (put_perfect i p' S) = sn_copies S" "waiting j v (put_perfect i p' S) = waiting j v S"
    by (simp_all add: sn_copies_def waiting_def)
  have "get_throttle j k (put_perfect i p' S) = get_throttle j k S" for j k
    using i by (simp add: get_throttle_def get_switch_def put_perfect_def put_switch_def at_def nth_list_update bnd_def split: sum.splits)
  then show "balance (put_perfect i p' S) = balance S"
    by (simp add: balance_def th_balance_def units_moved_def put_perfect_def put_switch_def fun_eq_iff split: sum.splits)
  show "pending_of j v (put_perfect i p' S) = (if j = i then (if v < length (pf_pending_message_count p') then pf_pending_message_count p' ! v else 0)
      else pending_of j v S)"
    using i by (simp add: pending_of_def get_perfect_def get_switch_def put_perfect_def put_switch_def at_def)
qed

lemma pending_eq: "get_perfect i S = Inr p \<Longrightarrow> pending_of i v S = (if v < length (pf_pending_message_count p) then pf_pending_message_count p ! v else 0)"
  by (simp add: pending_of_def at_def)

lemma ledger_put_perfect:
  assumes "get_perfect i S = Inr p" and "pf_pending_message_count p' = pf_pending_message_count p"
  shows "sn_ledger (put_perfect i p' S) = sn_ledger S"
  using put_perfect_parts [OF assms(1), where p' = p'] pending_eq [OF assms(1)] assms(2)
  by (auto simp: sn_ledger_def pending_gap_def fun_eq_iff)

lemma schedule_perfect:
  assumes "get_perfect i S = Inr p"
  obtains w where "get_perfect i (sn_scheduleEventAbsolute t c S) = Inr (p\<lparr>pf_wakeups := w\<rparr>)"
proof -
  have "\<exists>w. get_perfect i (sn_scheduleEventAbsolute t c S) = Inr (p\<lparr>pf_wakeups := w\<rparr>)"
  proof (cases c)
    case (SwitchConsumer j)
    show ?thesis
    proof (cases "j = i")
      case True
      then show ?thesis using assms SwitchConsumer by (auto simp: get_perfect_eq_Inr sn_scheduleEventAbsolute_def count_up_def)
    qed (use assms SwitchConsumer in \<open>auto simp: get_perfect_eq_Inr sn_scheduleEventAbsolute_def count_up_def
        intro!: exI [of _ "pf_wakeups p"]\<close>)
  next
    case (ThrottleConsumer j k)
    then show ?thesis using assms
      by (intro exI [of _ "pf_wakeups p"])
        (auto simp: get_perfect_eq_Inr sn_scheduleEventAbsolute_def count_up_def nth_list_update)
  qed (use assms in \<open>auto simp: sn_scheduleEventAbsolute_def intro!: exI [of _ "pf_wakeups p"]\<close>)
  then show ?thesis using that by blast
qed

lemma schedule_length [simp]: "length (sn_switches (sn_scheduleEventAbsolute t c S)) = length (sn_switches S)"
  by (simp add: sn_scheduleEventAbsolute_def split: consumer_ref.splits)

lemma schedule_throttle:
  assumes "get_throttle i k S = Inr th"
  obtains w where "get_throttle i k (sn_scheduleEventAbsolute t c S) = Inr (th\<lparr>th_wakeups := w\<rparr>)"
proof -
  have "\<exists>w. get_throttle i k (sn_scheduleEventAbsolute t c S) = Inr (th\<lparr>th_wakeups := w\<rparr>)"
  proof (cases c)
    case (ThrottleConsumer j l)
    show ?thesis
    proof (cases "j = i \<and> l = k")
      case True
      then show ?thesis using assms ThrottleConsumer by (auto simp: get_throttle_eq_Inr sn_scheduleEventAbsolute_def count_up_def)
    next
      case False
      then have "get_throttle i k (sn_scheduleEventAbsolute t c S) = Inr th"
        using assms ThrottleConsumer by (cases "j = i") (auto simp: get_throttle_eq_Inr sn_scheduleEventAbsolute_def count_up_def)
      then show ?thesis by (intro exI [of _ "th_wakeups th"]) simp
    qed
  next
    case (SwitchConsumer j)
    then show ?thesis using assms
      by (intro exI [of _ "th_wakeups th"])
        (auto simp: get_throttle_eq_Inr sn_scheduleEventAbsolute_def count_up_def nth_list_update)
  qed (use assms in \<open>auto simp: sn_scheduleEventAbsolute_def intro!: exI [of _ "th_wakeups th"]\<close>)
  then show ?thesis using that by blast
qed

lemma static_get_Inl:
  assumes "sn_static S' = sn_static S"
  shows "get_throttle i k S = Inl e \<Longrightarrow> \<exists>e'. get_throttle i k S' = Inl e'" and "get_perfect i S = Inl e \<Longrightarrow> \<exists>e'. get_perfect i S' = Inl e'"
proof -
  show "\<exists>e'. get_throttle i k S' = Inl e'" if "get_throttle i k S = Inl e"
    using that static_throttle [OF assms [symmetric], of i k] by (cases "get_throttle i k S'") force+
  show "\<exists>e'. get_perfect i S' = Inl e'" if "get_perfect i S = Inl e"
    using that static_perfect [OF assms [symmetric], of i] by (cases "get_perfect i S'") force+
qed

text \<open>When two states with the same static part have the same ledger.\<close>

lemma static_size_units: "sn_static S' = sn_static S \<Longrightarrow> size_units S' ty = size_units S ty"
  unfolding size_units_def by (metis static_sel(15))

lemma balance_eqI:
  assumes "sn_static S' = sn_static S"
    and "\<And>i k t. get_throttle i k S = Inr t \<Longrightarrow> \<exists>t'. get_throttle i k S' = Inr t' \<and> th_vnets t' = th_vnets t \<and> th_msg_counts t' = th_msg_counts t \<and>
        th_units_remaining t' = th_units_remaining t \<and> th_link_utilization_proxy t' = th_link_utilization_proxy t"
  shows "balance S' = balance S"
proof (intro ext)
  fix i k
  show "balance S' i k = balance S i k"
  proof (cases "get_throttle i k S")
    case (Inl e)
    then show ?thesis using static_get_Inl(1) [OF assms(1) Inl] by (auto simp: balance_def)
  next
    case (Inr t)
    from assms(2) [OF Inr] show ?thesis
      by (auto simp: balance_def Inr th_balance_def units_moved_def units_owed_def static_size_units [OF assms(1)])
  qed
qed

lemma pending_eqI:
  assumes "sn_static S' = sn_static S"
    and "\<And>p. get_perfect i S = Inr p \<Longrightarrow> \<exists>p'. get_perfect i S' = Inr p' \<and> pf_pending_message_count p' = pf_pending_message_count p"
  shows "pending_of i v S' = pending_of i v S"
proof (cases "get_perfect i S")
  case (Inl e)
  then show ?thesis using static_get_Inl(2) [OF assms(1) Inl] by (auto simp: pending_of_def)
next
  case (Inr p)
  from assms(2) [OF Inr] show ?thesis by (auto simp: pending_of_def Inr)
qed

lemma ledger_schedule [simp]:
  "sn_ledger (sn_scheduleEventAbsolute t c S) = sn_ledger S" "sn_ledger (sn_scheduleEvent P d c S) = sn_ledger S"
proof -
  show "sn_ledger (sn_scheduleEventAbsolute t c S) = sn_ledger S" for t
  proof -
    let ?S = "sn_scheduleEventAbsolute t c S"
    have "balance ?S = balance S"
    proof (rule balance_eqI)
      fix i k th assume "get_throttle i k S = Inr th"
      then obtain w where "get_throttle i k ?S = Inr (th\<lparr>th_wakeups := w\<rparr>)" by (rule schedule_throttle)
      then show "\<exists>t'. get_throttle i k ?S = Inr t' \<and> th_vnets t' = th_vnets th \<and> th_msg_counts t' = th_msg_counts th \<and>
        th_units_remaining t' = th_units_remaining th \<and> th_link_utilization_proxy t' = th_link_utilization_proxy th" by simp
    qed simp
    moreover have "pending_of i v ?S = pending_of i v S" for i v
    proof (rule pending_eqI)
      fix p assume "get_perfect i S = Inr p"
      then obtain w where "get_perfect i ?S = Inr (p\<lparr>pf_wakeups := w\<rparr>)" by (rule schedule_perfect)
      then show "\<exists>p'. get_perfect i ?S = Inr p' \<and> pf_pending_message_count p' = pf_pending_message_count p" by simp
    qed simp
    ultimately show ?thesis by (simp add: sn_ledger_def pending_gap_def sn_copies_def waiting_def fun_eq_iff)
  qed
  then show "sn_ledger (sn_scheduleEvent P d c S) = sn_ledger S" by (simp add: sn_scheduleEvent_def)
qed

section \<open>Messages that come and go\<close>

definition one_at :: "bool \<Rightarrow> int" where
  "one_at b = (if b then 1 else 0)"

lemma pending_storeEventInfo:
  assumes "storeEventInfo info c S = Inr S'"
  shows "sn_copies S' = sn_copies S" and "waiting i v S' = waiting i v S" and "balance S' = balance S"
    and "pending_of i v S' = pending_of i v S + one_at (c = SwitchConsumer i \<and> info = int v)"
proof -
  have "sn_copies S' = sn_copies S \<and> waiting i v S' = waiting i v S \<and> balance S' = balance S \<and>
      pending_of i v S' = pending_of i v S + one_at (c = SwitchConsumer i \<and> info = int v)"
  proof (cases c)
    case (SwitchConsumer j)
    with assms obtain p where p: "get_perfect j S = Inr p" "nat info < length (pf_pending_message_count p)" "0 \<le> info"
      and S': "S' = put_perfect j (p\<lparr>pf_pending_message_count := (pf_pending_message_count p)[nat info := pf_pending_message_count p ! nat info + 1]\<rparr>) S"
      by (auto simp: storeEventInfo_def PerfectSwitch_storeEventInfo_def at_eq_Inr put_at_eq_Inr)
    show ?thesis using put_perfect_parts [OF p(1)] pending_eq [OF p(1)] p(2,3) SwitchConsumer
      by (auto simp: S' one_at_def nth_list_update)
  qed (use assms in \<open>simp_all add: storeEventInfo_def one_at_def\<close>)
  then show "sn_copies S' = sn_copies S" "waiting i v S' = waiting i v S" "balance S' = balance S"
    "pending_of i v S' = pending_of i v S + one_at (c = SwitchConsumer i \<and> info = int v)" by simp_all
qed

lemma mb_enqueue_events:
  assumes "mb_enqueue m now d (R, B) = Inr (R', B', evs)"
  obtains c t where "mb_consumer B = Some c" and "evs = [(c, t)]" and "mb_consumer B' = mb_consumer B" and "mb_vnet_id B' = mb_vnet_id B"
    and "length (mb_prio_heap B') = Suc (length (mb_prio_heap B))"
proof -
  from assms obtain arrival l t where B': "B' = (mb_push (m\<lparr>msg_DelayedTicks := t, msg_LastEnqueueTime := arrival, msg_counter := mb_msg_counter B + 1\<rparr>)
       (enq_counters now (if rs_warmup_enabled R then l else arrival) B))\<lparr>mb_buf_msgs := mb_buf_msgs B + 1\<rparr>" by (rule mb_enqueueE)
  then have f: "mb_consumer B' = mb_consumer B" "mb_vnet_id B' = mb_vnet_id B" "length (mb_prio_heap B') = Suc (length (mb_prio_heap B))"
    by (simp_all add: enq_counters_def mb_push_def)
  have "\<exists>c t. mb_consumer B' = Some c \<and> evs = [(c, t)]"
    using assms unfolding mb_enqueue_def Let_def
    by (auto simp: mb_schedule_def split: prod.splits if_splits option.splits)
  then show ?thesis using that f by auto
qed

lemma msg_copies_upd [simp]:
  "msg_copies (m\<lparr>msg_DelayedTicks := t\<rparr>) = msg_copies m" "msg_copies (m\<lparr>msg_LastEnqueueTime := t\<rparr>) = msg_copies m"
  "msg_copies (m\<lparr>msg_counter := c\<rparr>) = msg_copies m"
  by (simp_all add: msg_copies_def)

lemma sn_enqueue_ledger:
  assumes "sn_enqueue b m d S = Inr S'"
  shows "sn_copies S' = sn_copies S + msg_copies m" and "pending_gap S' = pending_gap S" and "balance S' = balance S"
proof -
  from assms obtain j R B' evs where j: "b = Some j" "j < length (sn_buffers S)"
    and e: "mb_enqueue m (sn_now S) d (sn_ruby S, sn_buffers S ! j) = Inr (R, B', evs)"
    and ev: "foldM (\<lambda>(c, t) S2. storeEventInfo (mb_vnet_id B') c (sn_scheduleEventAbsolute t c S2)) evs
      (assign b B' (S\<lparr>sn_ruby := R\<rparr>)) = Inr S'"
    by (auto simp: sn_enqueue_def Let_def deref_eq_Inr)
  from e obtain c t where c: "mb_consumer (sn_buffers S ! j) = Some c" "evs = [(c, t)]" "mb_consumer B' = mb_consumer (sn_buffers S ! j)"
    "mb_vnet_id B' = mb_vnet_id (sn_buffers S ! j)" "length (mb_prio_heap B') = Suc (length (mb_prio_heap (sn_buffers S ! j)))"
    by (rule mb_enqueue_events)
  from e obtain a d where "mb_msgs B' = add_mset (m\<lparr>msg_DelayedTicks := d, msg_LastEnqueueTime := a,
      msg_counter := mb_msg_counter (sn_buffers S ! j) + 1\<rparr>) (mb_msgs (sn_buffers S ! j))" by (rule enqueue_msgs)
  then have bc: "buffer_copies B' = buffer_copies (sn_buffers S ! j) + msg_copies m" by (simp add: buffer_copies_def)
  define S1 where "S1 = assign b B' (S\<lparr>sn_ruby := R\<rparr>)"
  have st: "storeEventInfo (mb_vnet_id B') c (sn_scheduleEventAbsolute t c S1) = Inr S'" using ev c(2) by (auto simp: S1_def)
  note s = pending_storeEventInfo [OF st]
  have l: "sn_ledger (sn_scheduleEventAbsolute t c S1) = sn_ledger S1" by simp
  have S1: "sn_buffers S1 = (sn_buffers S)[j := B']" using j by (simp add: S1_def assign_Some)
  show "sn_copies S' = sn_copies S + msg_copies m"
    using s(1) l contents_update [OF j(2), of buffer_copies B'] bc by (simp add: sn_ledger_def sn_copies_def S1)
  have "sn_switches S1 = sn_switches S" "\<And>ty. size_units S1 ty = size_units S ty" by (simp_all add: S1_def)
  note b1 = balance_cong [OF this]
  show "balance S' = balance S" using s(3) l b1 by (simp add: sn_ledger_def)
  show "pending_gap S' = pending_gap S"
  proof (intro ext)
    fix i v
    have "waiting i v S1 = waiting i v S + one_at (c = SwitchConsumer i \<and> mb_vnet_id B' = int v)"
      using j(2) c by (auto simp: waiting_def S1 sum_list_map_update waits_for_def one_at_def)
    moreover have "pending_gap (sn_scheduleEventAbsolute t c S1) i v = pending_gap S1 i v" using l by (simp add: sn_ledger_def)
    ultimately show "pending_gap S' i v = pending_gap S i v" using s(2,4) [of i v] b1(2) [of i v] by (simp add: pending_gap_def)
  qed
qed

lemma sn_dequeue_ledger:
  assumes "sn_dequeue (Some b) S = Inr (m, S')"
  shows "sn_copies S = sn_copies S' + msg_copies m" and "balance S' = balance S"
    and "pending_gap S' i v = pending_gap S i v +
      one_at (mb_consumer (sn_buffers S ! b) = Some (SwitchConsumer i) \<and> mb_vnet_id (sn_buffers S ! b) = int v)"
proof -
  from assms obtain delay B' cb where b: "b < length (sn_buffers S)"
    and d: "mb_dequeue (sn_now S) True (sn_buffers S ! b) = Inr (delay, m, B', cb)" and S': "S' = assign (Some b) B' S"
    by (rule sn_dequeueE) simp
  from d obtain m0 B1 where pop: "mb_pop (sn_buffers S ! b) = Inr (m0, B1)" and m0: "msg_copies m = msg_copies m0"
    and f: "mb_prio_heap B' = mb_prio_heap B1" "mb_consumer B' = mb_consumer B1" "mb_vnet_id B' = mb_vnet_id B1"
    by (rule mb_dequeueE) simp
  have ms: "mb_msgs (sn_buffers S ! b) = add_mset m0 (mb_msgs B')" using mbuf.take_Inr [OF pop] f(1) by (simp add: mb_msgs_def)
  have g: "mb_consumer B1 = mb_consumer (sn_buffers S ! b)" "mb_vnet_id B1 = mb_vnet_id (sn_buffers S ! b)"
    "length (mb_prio_heap (sn_buffers S ! b)) = Suc (length (mb_prio_heap B1))"
    using pop by (auto simp: length_pop_heap elim!: mb_popE)
  have "buffer_copies (sn_buffers S ! b) = buffer_copies B' + msg_copies m" by (simp add: buffer_copies_def ms m0)
  then show "sn_copies S = sn_copies S' + msg_copies m"
    using contents_update [OF b, of buffer_copies B'] by (simp add: sn_copies_def S' assign_Some)
  have "sn_switches S' = sn_switches S" "\<And>ty. size_units S' ty = size_units S ty" by (simp_all add: S')
  note b1 = balance_cong [OF this]
  show "balance S' = balance S" by (rule b1(1))
  show "pending_gap S' i v = pending_gap S i v +
      one_at (mb_consumer (sn_buffers S ! b) = Some (SwitchConsumer i) \<and> mb_vnet_id (sn_buffers S ! b) = int v)"
    using b f g b1(2) by (auto simp: pending_gap_def waiting_def S' assign_Some sum_list_map_update waits_for_def one_at_def)
qed

lemma count_down_ledger:
  assumes "count_down i vnet S = Inr S'"
  shows "sn_copies S' = sn_copies S" and "balance S' = balance S"
    and "pending_gap S' j v = pending_gap S j v - one_at (j = i \<and> v = vnet)"
proof -
  from assms obtain p where p: "get_perfect i S = Inr p" "vnet < length (pf_pending_message_count p)"
    and S': "S' = put_perfect i (p\<lparr>pf_pending_message_count := (pf_pending_message_count p)[vnet := pf_pending_message_count p ! vnet - 1]\<rparr>) S"
    by (auto simp: count_down_def at_eq_Inr put_at_eq_Inr)
  show "sn_copies S' = sn_copies S" "balance S' = balance S" using put_perfect_parts [OF p(1)] by (simp_all add: S')
  show "pending_gap S' j v = pending_gap S j v - one_at (j = i \<and> v = vnet)"
    using put_perfect_parts(2,4) [OF p(1)] pending_eq [OF p(1)] p(2)
    by (auto simp: S' pending_gap_def one_at_def nth_list_update)
qed

section \<open>Switches\<close>

interpretation check_ledger: conserved "check_slot i vnet" "\<lambda>s. sn_ledger (snd s)" for i vnet
  by unfold_locales (auto simp: check_slot_def dest!: slots_ledger(1))

interpretation queue_ledger: conserved "add_queue_length bs" "\<lambda>s. sn_ledger (snd s)" for bs
  by unfold_locales (auto simp: add_queue_length_def dest!: slots_ledger(2))

interpretation clogged_ledger: conserved "clogged_link i" "\<lambda>s. sn_ledger (snd s)" for i
  by unfold_locales (auto simp: clogged_link_def Let_def split: prod.splits dest!: queue_ledger.loop_conserves)

lemma adapt_link_order_ledger:
  assumes "adapt_link_order P i vnet S = Inr S'"
  shows "sn_ledger S' = sn_ledger S"
  using assms ledger_put_perfect
  by (auto simp: adapt_link_order_def split: if_splits dest!: clogged_ledger.loop_conserves)

lemma send_copies_ledger:
  assumes "foldM (send_copy P i vnet msg m) outs S = Inr S'" and "msg_id msg = msg_id m"
  shows "sn_copies S' = sn_copies S + sum_list (map (\<lambda>(n, l, s). image_mset (Pair (msg_id m)) (mset_set (nd_elems s))) outs) \<and>
    pending_gap S' = pending_gap S \<and> balance S' = balance S"
  using assms
proof (induction outs arbitrary: S)
  case (Cons x outs)
  obtain n l s where x: "x = (n, l, s)" by (metis prod.exhaust)
  from Cons.prems(1) obtain S1 where c: "send_copy P i vnet msg m x S = Inr S1" and f: "foldM (send_copy P i vnet msg m) outs S1 = Inr S'"
    by auto
  from c obtain b where e: "sn_enqueue b ((if n = 0 then msg else m)\<lparr>msg_destination := s\<rparr>) (sp_clockPeriod P) S = Inr S1"
    by (auto simp: x send_copy_def)
  have "msg_copies ((if n = 0 then msg else m)\<lparr>msg_destination := s\<rparr>) = image_mset (Pair (msg_id m)) (mset_set (nd_elems s))"
    using Cons.prems(2) by (simp add: msg_copies_def)
  with sn_enqueue_ledger [OF e] Cons.IH [OF f Cons.prems(2)] show ?case by (simp add: x ac_simps)
qed simp

lemma deliver_ledger:
  assumes "deliver P i vnet b m outs S = Inr S'" and peek: "mb_peekMsgPtr (sn_buffers S ! b) = Inr m"
    and B: "mb_consumer (sn_buffers S ! b) = Some (SwitchConsumer i)" "mb_vnet_id (sn_buffers S ! b) = int vnet"
    and part: "mset_set (nd_elems (msg_destination m)) = sum_list (map (\<lambda>(l, s). mset_set (nd_elems s)) outs)"
  shows "sn_ledger S' = sn_ledger S"
proof -
  from assms(1) obtain msg S1 S2 where d: "sn_dequeue (Some b) S = Inr (msg, S1)" and n: "count_down i vnet S1 = Inr S2"
    and e: "foldM (send_copy P i vnet msg m) (enumerate 0 outs) S2 = Inr S'" by (auto simp: deliver_def)
  from d obtain B' delay cb where "mb_dequeue (sn_now S) True (sn_buffers S ! b) = Inr (delay, msg, B', cb)" by (rule sn_dequeueE) simp
  then have msg: "msg_id msg = msg_id m" "msg_copies msg = msg_copies m" by (rule dequeue_msgs, use peek in simp)+
  have "sum_list (map (\<lambda>(n, l, s). image_mset (Pair (msg_id m)) (mset_set (nd_elems s))) (enumerate k outs))
      = image_mset (Pair (msg_id m)) (sum_list (map (\<lambda>(l, s). mset_set (nd_elems s)) outs))" for k
    by (induction outs arbitrary: k) (auto simp: enumerate_simps)
  then have "sn_copies S' = sn_copies S2 + msg_copies m" and g: "pending_gap S' = pending_gap S2" "balance S' = balance S2"
    using send_copies_ledger [OF e msg(1)] part by (simp_all add: msg_copies_def)
  then have "sn_copies S' = sn_copies S" using count_down_ledger(1) [OF n] sn_dequeue_ledger(1) [OF d] msg(2) by simp
  moreover have "pending_gap S' = pending_gap S"
    using g count_down_ledger(3) [OF n] sn_dequeue_ledger(3) [OF d] B by (auto simp: fun_eq_iff one_at_def)
  ultimately show ?thesis using g count_down_ledger(2) [OF n] sn_dequeue_ledger(2) [OF d] by (simp add: sn_ledger_def)
qed

text \<open>An input buffer of a switch, as the wiring types it.\<close>

definition in_buffer :: "store_type \<Rightarrow> simple_network \<Rightarrow> nat \<Rightarrow> nat \<Rightarrow> nat \<Rightarrow> bool" where
  "in_buffer Ty S0 i vnet b \<longleftrightarrow> (\<exists>p. get_perfect i S0 = Inr p \<and> vnet < pf_virtual_networks p \<and>
     bt_cover (Ty ! b) \<subseteq> (\<Union>d \<in> set (pf_routing_table p). nd_elems d)) \<and>
     b < length Ty \<and> bt_consumer (Ty ! b) = SwitchConsumer i \<and> bt_vnet (Ty ! b) = vnet"

lemma switch_message_ledger:
  assumes W: "wired P Ty S0" and S: "steady P Ty S0 S" and b: "in_buffer Ty S0 i vnet b"
    and "switch_message P i vnet b S = Inr (c, S')"
  shows "sn_ledger S' = sn_ledger S"
  using assms(4)
proof (rule switch_messageE)
  fix m p S1 p1 outs left enough S2
  assume m: "mb_peekMsgPtr (sn_buffers S ! b) = Inr m" and a: "adapt_link_order P i vnet S = Inr S1" "get_perfect i S1 = Inr p1"
    and r: "route_of P p1 (msg_destination m) = Inr (outs, left)"
    and ch: "foldM (check_slot i vnet) outs (True, S1) = Inr (enough, S2)"
    and d: "if enough then c \<and> deliver P i vnet b m outs S2 = Inr S' else \<not> c \<and> S' = sn_scheduleEvent P 1 (SwitchConsumer i) S2"
  from b obtain p0 where p0: "get_perfect i S0 = Inr p0" "vnet < pf_virtual_networks p0"
    and cov: "bt_cover (Ty ! b) \<subseteq> (\<Union>d \<in> set (pf_routing_table p0). nd_elems d)"
    and bT: "b < length Ty" "bt_consumer (Ty ! b) = SwitchConsumer i" "bt_vnet (Ty ! b) = vnet" by (auto simp: in_buffer_def)
  have S1: "steady P Ty S0 S1" using adapt_link_order_ok [OF W S p0] a(1) by auto
  have l: "sn_ledger S2 = sn_ledger S" using adapt_link_order_ledger [OF a(1)] check_ledger.loop_conserves [OF ch] by simp
  have h: "sn_heaps S2 = sn_heaps S" using adapt_link_order_heaps [OF a(1)] check_slots.loop_conserves [OF ch] by simp
  note B = steady_buffer [OF S bT(1)]
  have rt: "pf_routing_table p1 = pf_routing_table p0" using steady_perfect [OF p0(1) S1] a(2) by force
  note f = perfect_facts [OF W S1 a(2)]
  have M: "machines_ok (sp_machines P)" using W by (simp add: wired_def params_ok_def)
  have table: "\<forall>d \<in> set (pf_routing_table p1). dest_ok (sp_machines P) d"
    and order: "mset (map lo_link (pf_link_order p1)) = mset [0..<length (pf_routing_table p1)]"
    using f by (simp_all add: perfect_wired_def perfect_ok_def)
  have "message_ok P (Ty ! b) m"
    using B(2) m by (auto simp: buffer_ok_def mb_peekMsgPtr_def mb_msgs_def split: list.splits)
  then have dst: "dest_ok (sp_machines P) (msg_destination m)" "nd_elems (msg_destination m) \<subseteq> (\<Union>e \<in> set (pf_routing_table p1). nd_elems e)"
    using cov rt by (auto simp: message_ok_def)
  have o: "mset_set (nd_elems (msg_destination m)) = sum_list (map (\<lambda>(l, s). mset_set (nd_elems s)) outs)"
    and lens: "\<forall>(l, s) \<in> set outs. l < length (pf_routing_table p0)"
    using route_of_ok [OF M table order dst] r rt by auto
  have S2: "steady P Ty S0 S2" using check_slots_ok [OF W S1 p0 lens, of True] ch by auto
  note B2 = steady_buffer [OF S2 bT(1)]
  have peek: "mb_peekMsgPtr (sn_buffers S2 ! b) = Inr m"
    using h m B(1) B2(1) by (simp add: sn_heaps_def mb_peekMsgPtr_def) (metis nth_map)
  show ?thesis
  proof (cases enough)
    case True
    then have "sn_ledger S' = sn_ledger S2"
      by (intro deliver_ledger [OF _ peek _ _ o]) (use d B2(2) bT in \<open>auto simp: buffer_ok_def\<close>)
    then show ?thesis using l by simp
  qed (use d l in simp)
qed

lemma operateMessageBuffer_ledger:
  assumes W: "wired P Ty S0" and b: "in_buffer Ty S0 i vnet b"
  shows "steady P Ty S0 S \<Longrightarrow> operateMessageBuffer P i vnet b S = Inr S' \<Longrightarrow> sn_ledger S' = sn_ledger S"
proof (induction "ready_count b S" arbitrary: S rule: less_induct)
  case less
  from b obtain p0 where p0: "get_perfect i S0 = Inr p0" "vnet < pf_virtual_networks p0"
    and cov: "bt_cover (Ty ! b) \<subseteq> (\<Union>d \<in> set (pf_routing_table p0). nd_elems d)" and bT: "b < length Ty" by (auto simp: in_buffer_def)
  note B = steady_buffer(1) [OF less.prems(1) bT]
  show ?case
  proof (cases "mb_isReady (sn_now S) (sn_buffers S ! b)")
    case True
    from switch_message_ok [OF W less.prems(1) p0 bT cov True] obtain c S1 where
      s: "switch_message P i vnet b S = Inr (c, S1)" "steady P Ty S0 S1" by blast
    note l = switch_message_ledger [OF W less.prems(1) b s(1)]
    show ?thesis
    proof (cases c)
      case True
      then have "operateMessageBuffer P i vnet b S1 = Inr S'"
        using less.prems(2) s(1) B \<open>mb_isReady (sn_now S) (sn_buffers S ! b)\<close>
        by (simp add: operateMessageBuffer.simps [of P i vnet b S] sn_isReady_def deref_def)
      with less.hyps [OF switch_message_ready s(2)] s(1) l True show ?thesis by simp
    qed (use less.prems(2) s B l True in \<open>simp add: operateMessageBuffer.simps [of P i vnet b S] sn_isReady_def deref_def\<close>)
  qed (use less.prems B in \<open>simp add: operateMessageBuffer.simps [of P i vnet b S] sn_isReady_def deref_def\<close>)
qed

lemma operate_inport_ledger:
  assumes W: "wired P Ty S0" and S: "steady P Ty S0 S" and p: "get_perfect i S0 = Inr p0" and v: "vnet < pf_virtual_networks p0"
    and n: "n < length (pf_in p0)" and op: "operate_inport P i vnet n S = Inr S'"
  shows "sn_ledger S' = sn_ledger S"
proof -
  obtain p1 where p1: "get_perfect i S = Inr p1" "pf_in p1 = pf_in p0" using steady_perfect [OF p S] by metis
  have "perfect_wired P Ty i p0" using W p by (auto simp: wired_def get_perfect_eq_Inr)
  then have w: "\<forall>v < length (pf_in p0 ! n). \<forall>b. pf_in p0 ! n ! v = Some b \<longrightarrow>
      b < length Ty \<and> bt_consumer (Ty ! b) = SwitchConsumer i \<and> bt_vnet (Ty ! b) = v \<and>
      bt_cover (Ty ! b) \<subseteq> (\<Union>d \<in> set (pf_routing_table p0). nd_elems d)"
    using n unfolding perfect_wired_def by (meson nth_mem)
  show ?thesis
  proof (cases "length (pf_in p0 ! n) \<le> vnet \<or> pf_in p0 ! n ! vnet = None")
    case False
    then obtain b where b: "pf_in p0 ! n ! vnet = Some b" "vnet < length (pf_in p0 ! n)" by auto
    then have "in_buffer Ty S0 i vnet b" using w p v by (auto simp: in_buffer_def)
    then show ?thesis using operateMessageBuffer_ledger [OF W _ S] op b p1 n by (simp add: operate_inport_def)
  qed (use op p1 n in \<open>auto simp: operate_inport_def split: if_splits\<close>)
qed

text \<open>The rule for the loops of a wakeup: every turn keeps the types and the ledger.\<close>

lemma ledger_loop:
  assumes "foldM f xs S = Inr S'" and "steady P Ty S0 S"
    and "\<And>x S. x \<in> set xs \<Longrightarrow> steady P Ty S0 S \<Longrightarrow> \<exists>S'. f x S = Inr S' \<and> steady P Ty S0 S'"
    and "\<And>x S S'. x \<in> set xs \<Longrightarrow> steady P Ty S0 S \<Longrightarrow> f x S = Inr S' \<Longrightarrow> sn_ledger S' = sn_ledger S"
  shows "sn_ledger S' = sn_ledger S"
proof -
  have "steady P Ty S0 S' \<and> sn_ledger S' = sn_ledger S"
    by (rule foldM_invariant [OF assms(1), of "\<lambda>s. steady P Ty S0 s \<and> sn_ledger s = sn_ledger S"])
      (use assms(2,3,4) in fastforce)+
  then show ?thesis by simp
qed

lemma PerfectSwitch_operateVnet_ledger:
  assumes W: "wired P Ty S0" and S: "steady P Ty S0 S" and p: "get_perfect i S0 = Inr p0" and v: "vnet < pf_virtual_networks p0"
    and op: "PerfectSwitch_operateVnet P i vnet S = Inr S'"
  shows "sn_ledger S' = sn_ledger S"
proof -
  obtain p1 where p1: "get_perfect i S = Inr p1" "pf_in p1 = pf_in p0" using steady_perfect [OF p S] by metis
  have ok: "perfect_ok p1" by (rule perfect_facts(2) [OF W S p1(1)])
  let ?n = "length (pf_in p1)"
  let ?S = "put_perfect i (p1\<lparr>pf_round_robin_start := rr_next ?n (pf_round_robin_start p1)\<rparr>) S"
  let ?xs = "rr_order ?n (rr_next ?n (pf_round_robin_start p1)) ?n"
  have S1: "steady P Ty S0 ?S" by (rule steady_put_perfect [OF S p1(1)]) (use ok in \<open>simp_all add: perfect_ok_def\<close>)
  have l: "sn_ledger ?S = sn_ledger S" by (rule ledger_put_perfect [OF p1(1)]) simp
  have xs: "set ?xs \<subseteq> {..<length (pf_in p0)}"
    using rr_order_bounds [of ?n "rr_next ?n (pf_round_robin_start p1)" ?n] p1(2) by (cases "?n = 0") auto
  from op p1(1) have "S' = ?S \<or> foldM (operate_inport P i vnet) ?xs ?S = Inr S'"
    by (auto simp: PerfectSwitch_operateVnet_def Let_def split: if_splits)
  moreover have "sn_ledger S' = sn_ledger ?S" if "foldM (operate_inport P i vnet) ?xs ?S = Inr S'"
    by (rule ledger_loop [OF that S1]) (use xs operate_inport_ok [OF W _ p v] operate_inport_ledger [OF W _ p v] in auto)
  ultimately show ?thesis using l by auto
qed

lemma PerfectSwitch_wakeup_ledger:
  assumes T: "typed P Ty S" and op: "PerfectSwitch_wakeup P i S = Inr S'"
  shows "sn_ledger S' = sn_ledger S"
proof -
  obtain p where p: "get_perfect i S = Inr p" using op by (auto simp: PerfectSwitch_wakeup_def)
  have W: "wired P Ty S" and S: "steady P Ty S S" using T typed_steady by (auto simp: typed_def)
  define vnets where "vnets = (if PRIORITY_SWITCH_LIMIT < pf_wakeups_wo_switch p + 1 then [0..<pf_virtual_networks p] else rev [0..<pf_virtual_networks p])"
  define S1 where "S1 = put_perfect i (p\<lparr>pf_wakeups_wo_switch :=
      if PRIORITY_SWITCH_LIMIT < pf_wakeups_wo_switch p + 1 then 0 else pf_wakeups_wo_switch p + 1\<rparr>) S"
  have S1: "steady P Ty S S1" unfolding S1_def
    by (rule steady_put_perfect [OF S p]) (use perfect_facts(2) [OF W S p] in \<open>simp_all add: perfect_ok_def\<close>)
  have "sn_ledger S1 = sn_ledger S" unfolding S1_def by (rule ledger_put_perfect [OF p]) simp
  moreover have f: "foldM (PerfectSwitch_operateVnet P i) vnets S1 = Inr S'"
    using op p unfolding vnets_def S1_def
    by (cases "PRIORITY_SWITCH_LIMIT < pf_wakeups_wo_switch p + 1") (simp_all add: PerfectSwitch_wakeup_def Let_def)
  have "sn_ledger S' = sn_ledger S1"
    by (rule ledger_loop [OF f S1])
      (use PerfectSwitch_operateVnet_ok [OF W _ p] PerfectSwitch_operateVnet_ledger [OF W _ p] in \<open>auto simp: vnets_def split: if_splits\<close>)
  ultimately show ?thesis by simp
qed

section \<open>Throttles\<close>

text \<open>While a throttle runs, the bandwidth that is left of this cycle counts as well.\<close>

definition th_ledger :: "nat \<Rightarrow> nat \<Rightarrow> int \<times> simple_network \<Rightarrow>
    (nat \<times> nat \<times> nat) multiset \<times> (nat \<Rightarrow> nat \<Rightarrow> int) \<times> (nat \<Rightarrow> nat \<Rightarrow> int)" where
  "th_ledger i k s = (case s of (bw, S) \<Rightarrow>
     (sn_copies S, pending_gap S, (\<lambda>j l. balance S j l + (if j = i \<and> l = k then bw else 0))))"

lemma th_ledger_cong: "sn_ledger S' = sn_ledger S \<Longrightarrow> th_ledger i k (bw, S') = th_ledger i k (bw, S)"
  by (simp add: sn_ledger_def th_ledger_def)

lemma put_throttle_ledger:
  assumes t: "get_throttle i k S = Inr t" and bal: "th_balance S t' + bw' = th_balance S t + bw"
  shows "th_ledger i k (bw', put_throttle i k t' S) = th_ledger i k (bw, S)"
proof -
  have ik: "i < length (sn_switches S)" "k < length (sw_throttles (sn_switches S ! i))" "t = sw_throttles (sn_switches S ! i) ! k"
    using t by (auto simp: get_throttle_eq_Inr)
  let ?S = "put_throttle i k t' S"
  have "get_perfect j ?S = get_perfect j S" for j
    using ik by (simp add: get_perfect_def get_switch_def put_throttle_def put_switch_def at_def nth_list_update bnd_def split: sum.splits)
  then have p: "pending_of j v ?S = pending_of j v S" for j v by (simp add: pending_of_def)
  have th: "get_throttle j l ?S = (if j = i \<and> l = k then Inr t' else get_throttle j l S)" for j l
    using ik by (auto simp: get_throttle_def get_switch_def put_throttle_def put_switch_def at_def nth_list_update)
  have sz: "size_units ?S ty = size_units S ty" for ty by (simp add: put_throttle_def put_switch_def)
  have b: "balance ?S j l = (if j = i \<and> l = k then th_balance S t' else balance S j l)" for j l
    by (simp add: balance_def th th_balance_def units_moved_def sz split: sum.splits)
  have "balance S i k = th_balance S t" by (simp add: balance_def t)
  then show ?thesis using bal b p
    by (auto simp: th_ledger_def sn_copies_def pending_gap_def waiting_def fun_eq_iff)
qed

lemma units_owed_update: "v < length us \<Longrightarrow> sum_list (us[v := u]) = sum_list us - us ! v + (u :: int)"
  using sum_list_map_update [of v us "\<lambda>x. x" u] by simp

lemma set_units_ledger:
  assumes "set_units i k vnet u S = Inr S'" and "units_remaining i k vnet S = Inr u0"
  shows "th_ledger i k (bw + u - u0, S') = th_ledger i k (bw, S)"
proof -
  from assms obtain t where t: "get_throttle i k S = Inr t" "vnet < length (th_units_remaining t)" "u0 = th_units_remaining t ! vnet"
    and S': "S' = put_throttle i k (t\<lparr>th_units_remaining := (th_units_remaining t)[vnet := u]\<rparr>) S"
    by (auto simp: set_units_def units_remaining_def put_at_eq_Inr at_eq_Inr)
  show ?thesis unfolding S'
    by (rule put_throttle_ledger [OF t(1)]) (use t in \<open>simp add: th_balance_def units_owed_def units_owed_update units_moved_def\<close>)
qed

lemma units_moved_count:
  assumes "vnet < th_vnets t"
  shows "units_moved S (t\<lparr>th_msg_counts := (\<lambda>ty' v. if ty' = ty \<and> v = vnet then th_msg_counts t ty' v + 1 else th_msg_counts t ty' v)\<rparr>)
    = units_moved S t + size_units S ty"
proof -
  let ?c = "\<lambda>ty' v. if ty' = ty \<and> v = vnet then th_msg_counts t ty' v + 1 else th_msg_counts t ty' v"
  have "int (?c ty' v) * size_units S ty' = int (th_msg_counts t ty' v) * size_units S ty' + (if ty' = ty then (if v = vnet then size_units S ty else 0) else 0)" for ty' v
    by (simp add: algebra_simps)
  then have "(\<Sum>ty' \<in> set all_sizes. int (?c ty' v) * size_units S ty')
      = (\<Sum>ty' \<in> set all_sizes. int (th_msg_counts t ty' v) * size_units S ty') + (if v = vnet then size_units S ty else 0)" for v
    by (simp add: sum.distrib set_all_sizes)
  then show ?thesis using assms by (simp add: units_moved_def sum.distrib)
qed

lemma count_message_ledger:
  assumes "count_message i k ty vnet S = Inr S'" and "get_throttle i k S = Inr t" and "vnet < th_vnets t"
  shows "th_ledger i k (bw - size_units S ty, S') = th_ledger i k (bw, S)"
proof -
  let ?t = "t\<lparr>th_msg_counts := (\<lambda>ty' v. if ty' = ty \<and> v = vnet then th_msg_counts t ty' v + 1 else th_msg_counts t ty' v)\<rparr>"
  have S': "S' = put_throttle i k ?t S" using assms(1,2) by (simp add: count_message_def)
  show ?thesis unfolding S'
    by (rule put_throttle_ledger [OF assms(2)]) (use units_moved_count [OF assms(3), of S ty] in \<open>simp add: th_balance_def units_owed_def\<close>)
qed

lemma storeEventInfo_static: "storeEventInfo info c S = Inr S' \<Longrightarrow> sn_static S' = sn_static S"
  by (auto simp: storeEventInfo_def PerfectSwitch_storeEventInfo_def split: consumer_ref.splits intro!: static_put_perfect)

lemma sn_enqueue_static:
  assumes "sn_enqueue b m d S = Inr S'"
  shows "sn_static S' = sn_static S"
proof -
  from assms obtain B R B' evs where e: "mb_enqueue m (sn_now S) d (sn_ruby S, B) = Inr (R, B', evs)"
    and ev: "foldM (\<lambda>(c, t) S2. storeEventInfo (mb_vnet_id B') c (sn_scheduleEventAbsolute t c S2)) evs
      (assign b B' (S\<lparr>sn_ruby := R\<rparr>)) = Inr S'" by (auto simp: sn_enqueue_def Let_def)
  from e obtain x y where "mb_arrival (sn_ruby S) (sn_now S) d B = (x, y, R)" by (rule mb_enqueueE)
  then have "sn_static (S\<lparr>sn_ruby := R\<rparr>) = sn_static S" using mb_arrival_flags by (intro static_ruby) blast+
  moreover have "sn_static S' = sn_static (assign b B' (S\<lparr>sn_ruby := R\<rparr>))"
    by (rule foldM_invariant [OF ev, of "\<lambda>s. sn_static s = sn_static (assign b B' (S\<lparr>sn_ruby := R\<rparr>))"])
      (auto dest!: storeEventInfo_static)
  ultimately show ?thesis by simp
qed

lemma network_message_size: "network_message_to_size m S = size_units S (msg_size m)"
  by (simp add: network_message_to_size_def size_units_def)

lemma start_message_ledger:
  assumes L: "throttle_link P Ty S0 i k vnet b c t0" and S: "steady P Ty S0 S"
    and op: "start_message P i k vnet (Some b) (Some c) S = Inr S'"
  shows "th_ledger i k (bw, S') = th_ledger i k (bw, S)"
proof -
  from op obtain m u S1 m' S2 S3 d where p: "mb_peekMsgPtr (sn_buffers S ! b) = Inr m" and u: "units_remaining i k vnet S = Inr u"
    and s: "set_units i k vnet (u + network_message_to_size m S) S = Inr S1" and q: "sn_dequeue (Some b) S1 = Inr (m', S2)"
    and e: "sn_enqueue (Some c) m' d S2 = Inr S3" and n: "count_message i k (msg_size m') vnet S3 = Inr S'"
    by (auto simp: start_message_def deref_eq_Inr)
  note t0 = throttle_linkD(2) [OF L] and v = throttle_linkD(3) [OF L] and w = wires [OF L]
  obtain u' where "units_remaining i k vnet S = Inr u'" "0 \<le> u'" by (rule units_ok [OF L S])
  then have "0 \<le> u + network_message_to_size m S"
    using u by (simp add: network_message_to_size_def MESSAGE_SIZE_MULTIPLIER_def)
  then have st1: "steady P Ty S0 S1" and h1: "sn_heaps S1 = sn_heaps S" by (rule set_units_ok [OF L S], use s in simp)+
  note B1 = steady_buffer [OF st1 w(1)]
  from q obtain B' delay cb where dq: "mb_dequeue (sn_now S1) True (sn_buffers S1 ! b) = Inr (delay, m', B', cb)" by (rule sn_dequeueE) simp
  have "mb_peekMsgPtr (sn_buffers S1 ! b) = Inr m"
    using p h1 steady_buffer(1) [OF S w(1)] B1(1) by (simp add: sn_heaps_def mb_peekMsgPtr_def) (metis nth_map)
  with dq have m': "msg_size m' = msg_size m" by (auto elim: dequeue_msgs)
  have "sn_static S2 = sn_static S1" using q by (auto elim!: sn_dequeueE)
  then have static: "sn_static S3 = sn_static S0" using sn_enqueue_static [OF e] st1 by (simp add: steady_def)
  then obtain t where t: "get_throttle i k S3 = Inr t" "th_vnets t = th_vnets t0" using static_throttle [OF _ t0] static_th_eq by metis
  have sz: "size_units S3 ty = size_units S ty" for ty using static S by (metis static_size_units steady_def)
  have "mb_consumer (sn_buffers S1 ! b) = Some (ThrottleConsumer i k)" using B1(2) w(5) by (simp add: buffer_ok_def)
  then have "sn_ledger S3 = sn_ledger S1"
    using sn_dequeue_ledger [OF q] sn_enqueue_ledger [OF e] by (simp add: sn_ledger_def one_at_def fun_eq_iff)
  then have "th_ledger i k (bw + size_units S (msg_size m), S3) = th_ledger i k (bw, S)"
    using set_units_ledger [OF s u, of bw] th_ledger_cong [of S3 S1] by (simp add: network_message_size)
  then show ?thesis using count_message_ledger [OF n t(1), of "bw + size_units S (msg_size m)"] v t(2) m' sz by simp
qed

lemma throttle_turn_ledger:
  assumes L: "throttle_link P Ty S0 i k vnet b c t0" and S: "steady P Ty S0 S"
    and op: "throttle_turn P i k vnet (Some b) (Some c) bw S = Inr (bw', S')"
  shows "th_ledger i k (bw', S') = th_ledger i k (bw, S)"
proof -
  from op obtain u r S1 u1 where "units_remaining i k vnet S = Inr u" "sn_isReady (Some b) S = Inr r" and s: "(if u = 0 \<and> r then start_message P i k vnet (Some b) (Some c) S else Inr S) = Inr S1"
    and u1: "units_remaining i k vnet S1 = Inr u1" and w: "set_units i k vnet (max 0 (u1 - bw)) S1 = Inr S'"
    and bw': "bw' = max 0 (bw - u1)" by (auto simp: throttle_turn_def Let_def)
  have "th_ledger i k (bw, S1) = th_ledger i k (bw, S)"
    using s start_message_ledger [OF L S] by (auto split: if_splits)
  moreover have "bw' = bw + max 0 (u1 - bw) - u1" using bw' by (simp add: max_def)
  ultimately show ?thesis using set_units_ledger [OF w u1, of bw] by simp
qed

lemma throttle_busy_ledger:
  "throttle_busy i k vnet inb outb bw S = Inr (a, r, S') \<Longrightarrow> sn_ledger S' = sn_ledger S"
  by (auto simp: throttle_busy_def split: if_splits dest: slots_ledger(1))

lemma ledger_kept: "kept_by_turns P Ty S0 i k (\<lambda>s. th_ledger i k s = l)"
  using throttle_turn_ledger th_ledger_cong [OF throttle_busy_ledger] unfolding kept_by_turns_def by metis

lemma Throttle_wakeup_ledger:
  assumes T: "typed P Ty S" and op: "Throttle_wakeup P i k S = Inr S'"
  shows "sn_ledger S' = sn_ledger S"
proof -
  obtain t where t: "get_throttle i k S = Inr t" using op by (auto simp: Throttle_wakeup_def)
  let ?l = "th_ledger i k (getLinkBandwidth t, S)"
  have "th_ledger i k (getLinkBandwidth t, put_throttle i k (th_begun t) S) = ?l"
    by (rule put_throttle_ledger [OF t]) (simp add: th_balance_def units_moved_def units_owed_def th_begun_def)
  with T t ledger_kept obtain bw S2 t2 where st2: "steady P Ty S S2" and l2: "th_ledger i k (bw, S2) = ?l" and t2: "get_throttle i k S2 = Inr t2"
    and S': "S' = put_throttle i k (th_booked bw t2) S2 \<or> S' = sn_scheduleEvent P 1 (ThrottleConsumer i k) (put_throttle i k (th_booked bw t2) S2)"
    by (rule Throttle_wakeup_rule) (use op in auto)
  have "getLinkBandwidth t2 = getLinkBandwidth t" using steady_throttle [OF t st2] t2 by force
  then have "th_ledger i k (getLinkBandwidth t, put_throttle i k (th_booked bw t2) S2) = th_ledger i k (bw, S2)"
    by (intro put_throttle_ledger [OF t2]) (simp add: th_balance_def units_moved_def units_owed_def th_booked_def)
  then have "sn_ledger (put_throttle i k (th_booked bw t2) S2) = sn_ledger S"
    using l2 by (auto simp: th_ledger_def sn_ledger_def fun_eq_iff split: if_splits)
  then show ?thesis using S' by auto
qed

section \<open>The bandwidth of a link\<close>

text \<open>What the throttle has booked so far; only the last statement of a wakeup changes it.\<close>

definition booked :: "nat \<Rightarrow> nat \<Rightarrow> simple_network \<Rightarrow> int" where
  "booked i k S = (case get_throttle i k S of Inl _ \<Rightarrow> 0 | Inr t \<Rightarrow> th_link_utilization_proxy t)"

lemma booked_switches: "sn_switches S' = sn_switches S \<Longrightarrow> booked i k S' = booked i k S"
  by (simp add: booked_def get_throttle_def get_switch_def)

lemma booked_put_throttle:
  "get_throttle i k S = Inr t \<Longrightarrow> booked i k (put_throttle i k t' S) = th_link_utilization_proxy t'"
  using get_put_throttle [of i S k t'] by (simp add: booked_def get_throttle_eq_Inr [of i k S t])

lemma booked_storeEventInfo: "storeEventInfo info c S = Inr S' \<Longrightarrow> booked i k S' = booked i k S"
  by (auto simp: storeEventInfo_def PerfectSwitch_storeEventInfo_def booked_def get_throttle_def get_switch_def put_perfect_def put_switch_def
      get_perfect_eq_Inr at_def nth_list_update bnd_def split: consumer_ref.splits sum.splits if_splits)

lemma booked_schedule [simp]: "booked i k (sn_scheduleEventAbsolute t c S) = booked i k S"
proof (cases "get_throttle i k S")
  case (Inl e)
  then show ?thesis using static_get_Inl(1) [OF static_schedule(1) [of t c S] Inl] by (auto simp: booked_def)
next
  case (Inr th)
  then obtain w where "get_throttle i k (sn_scheduleEventAbsolute t c S) = Inr (th\<lparr>th_wakeups := w\<rparr>)" by (rule schedule_throttle)
  then show ?thesis by (simp add: booked_def Inr)
qed

lemma booked_enqueue:
  assumes "sn_enqueue b m d S = Inr S'"
  shows "booked i k S' = booked i k S"
proof -
  from assms obtain B R B' evs where "foldM (\<lambda>(c, t) S2. storeEventInfo (mb_vnet_id B') c (sn_scheduleEventAbsolute t c S2)) evs
      (assign b B' (S\<lparr>sn_ruby := R\<rparr>)) = Inr S'" by (auto simp: sn_enqueue_def Let_def)
  then show ?thesis
  proof (rule foldM_invariant)
    show "booked i k (assign b B' (S\<lparr>sn_ruby := R\<rparr>)) = booked i k S" by (rule booked_switches) simp
  qed (auto dest!: booked_storeEventInfo [where i = i and k = k])
qed

lemma booked_set_units: "set_units i k vnet u S = Inr S' \<Longrightarrow> booked i k S' = booked i k S"
  by (auto simp: set_units_def booked_put_throttle) (simp add: booked_def)

lemma booked_start_message: "start_message P i k vnet inb outb S = Inr S' \<Longrightarrow> booked i k S' = booked i k S"
proof -
  assume "start_message P i k vnet inb outb S = Inr S'"
  then obtain u S1 m S2 d S3 ty where s: "set_units i k vnet u S = Inr S1" and d: "sn_dequeue inb S1 = Inr (m, S2)"
    and e: "sn_enqueue outb m d S2 = Inr S3" and c: "count_message i k ty vnet S3 = Inr S'"
    by (auto simp: start_message_def)
  have "booked i k S' = booked i k S3" using c by (auto simp: count_message_def booked_put_throttle) (simp add: booked_def)
  moreover have "booked i k S2 = booked i k S1" using d by (auto elim!: sn_dequeueE intro: booked_switches)
  ultimately show ?thesis using booked_set_units [OF s] booked_enqueue [OF e] by simp
qed

lemma bandwidth_kept: "kept_by_turns P Ty S0 i k (\<lambda>s. 0 \<le> fst s \<and> fst s \<le> z \<and> booked i k (snd s) = w)"
proof -
  have busy: "booked i k S' = booked i k S" if "throttle_busy i k vnet inb outb bw S = Inr (a, r, S')" for vnet inb outb bw S a r S'
    using that by (auto simp: throttle_busy_def split: if_splits dest!: sn_areNSlots_throttle intro!: booked_switches)
  have turn: "0 \<le> bw' \<and> bw' \<le> z \<and> booked i k S' = w"
    if L: "throttle_link P Ty S0 i k vnet b c t0" and S: "steady P Ty S0 S" and bw: "0 \<le> bw" "bw \<le> z" "booked i k S = w"
      and op: "throttle_turn P i k vnet (Some b) (Some c) bw S = Inr (bw', S')" for vnet b c t0 bw S bw' S'
  proof -
    from op obtain u r S1 u1 where "units_remaining i k vnet S = Inr u" and r: "sn_isReady (Some b) S = Inr r"
      and s: "(if u = 0 \<and> r then start_message P i k vnet (Some b) (Some c) S else Inr S) = Inr S1"
      and u1: "units_remaining i k vnet S1 = Inr u1" and w: "set_units i k vnet (max 0 (u1 - bw)) S1 = Inr S'"
      and bw': "bw' = max 0 (bw - u1)" by (auto simp: throttle_turn_def Let_def)
    have "steady P Ty S0 S1" using s r start_message_ok [OF L S] S by (auto split: if_splits)
    then have "0 \<le> u1" using units_ok [OF L] u1 by (metis sum.inject(2))
    moreover have "booked i k S1 = booked i k S" using s booked_start_message by (auto split: if_splits)
    ultimately show ?thesis using bw bw' booked_set_units [OF w] by auto
  qed
  show ?thesis unfolding kept_by_turns_def fst_conv snd_conv by (intro conjI) (use busy in fastforce, use turn in blast)
qed

lemma Throttle_wakeup_bandwidth:
  assumes T: "typed P Ty S" and t: "get_throttle i k S = Inr t" and op: "Throttle_wakeup P i k S = Inr S'"
  shows "booked i k S \<le> booked i k S' \<and> booked i k S' \<le> booked i k S + getLinkBandwidth t"
proof -
  have "0 < getLinkBandwidth t" using op t by (auto simp: Throttle_wakeup_def)
  then have "(\<lambda>s. 0 \<le> fst s \<and> fst s \<le> getLinkBandwidth t \<and> booked i k (snd s) = booked i k S)
      (getLinkBandwidth t, put_throttle i k (th_begun t) S)"
    using t by (simp add: booked_put_throttle [OF t] th_begun_def) (simp add: booked_def)
  with T t bandwidth_kept obtain bw S2 t2 where st2: "steady P Ty S S2" and b: "0 \<le> bw" "bw \<le> getLinkBandwidth t" "booked i k S2 = booked i k S"
    and t2: "get_throttle i k S2 = Inr t2"
    and S': "S' = put_throttle i k (th_booked bw t2) S2 \<or> S' = sn_scheduleEvent P 1 (ThrottleConsumer i k) (put_throttle i k (th_booked bw t2) S2)"
    by (rule Throttle_wakeup_rule) (use op in auto)
  have "getLinkBandwidth t2 = getLinkBandwidth t" using steady_throttle [OF t st2] t2 by force
  moreover have "booked i k S' = th_link_utilization_proxy (th_booked bw t2)"
    using S' booked_put_throttle [OF t2] by (auto simp: sn_scheduleEvent_def)
  ultimately show ?thesis using b t2 by (simp add: th_booked_def booked_def)
qed

end
