(* ===== verification/Simple_Steps.thy ===== *)
theory Simple_Steps
  imports Simple_Ledger
begin

text \<open>
  The simple network as a transition system: wakeups of switches and throttles, the clock, and the protocol, which
  puts messages into the buffers to the network (any message that \<open>may_send\<close> allows) and takes messages out of
  the buffers from the network. A run carries the messages sent and received so far. The relation does not ask for
  scheduled times: it has all behaviours of the program and more.
\<close>

type_synonym simple_run = "simple_network \<times> message list \<times> message list"

definition queue_ref :: "buffer_ref list list \<Rightarrow> nat \<Rightarrow> bool" where
  "queue_ref qs b \<longleftrightarrow> (\<exists>q \<in> set qs. Some b \<in> set q)"

inductive sn_step :: "simple_params \<Rightarrow> (nat \<Rightarrow> message \<Rightarrow> bool) \<Rightarrow> simple_run \<Rightarrow> simple_run \<Rightarrow> bool"
  for P :: simple_params and may_send :: "nat \<Rightarrow> message \<Rightarrow> bool" where
  switch_step: "PerfectSwitch_wakeup P i S = Inr S' \<Longrightarrow> sn_step P may_send (S, sent, received) (S', sent, received)"
| throttle_step: "Throttle_wakeup P i k S = Inr S' \<Longrightarrow> sn_step P may_send (S, sent, received) (S', sent, received)"
| clock_step: "sn_step P may_send (S, sent, received) (S\<lparr>sn_now := sn_now S + sp_clockPeriod P\<rparr>, sent, received)"
| send_step: "queue_ref (nw_toNetQueues S) b \<Longrightarrow> may_send b m \<Longrightarrow> sn_enqueue (Some b) m delta S = Inr S' \<Longrightarrow>
    sn_step P may_send (S, sent, received) (S', sent @ [m], received)"
| receive_step: "queue_ref (nw_fromNetQueues S) b \<Longrightarrow> sn_dequeue (Some b) S = Inr (m, S') \<Longrightarrow>
    sn_step P may_send (S, sent, received) (S', sent, received @ [m])"

inductive_cases sn_stepE: "sn_step P may_send (S, sent, received) r"

text \<open>The buffers of the protocol: the network does not write to those it reads from, and switches do not read those it writes to.\<close>

definition ports_typed :: "store_type \<Rightarrow> simple_network \<Rightarrow> bool" where
  "ports_typed Ty S \<longleftrightarrow>
     (\<forall>b. queue_ref (nw_toNetQueues S) b \<longrightarrow> b < length Ty \<and> bt_delta (Ty ! b) = None) \<and>
     (\<forall>b. queue_ref (nw_fromNetQueues S) b \<longrightarrow> b < length Ty \<and> (\<forall>i. bt_consumer (Ty ! b) \<noteq> SwitchConsumer i))"

abbreviation protocol_ok :: "simple_params \<Rightarrow> store_type \<Rightarrow> nat \<Rightarrow> message \<Rightarrow> bool" where
  "protocol_ok P Ty \<equiv> (\<lambda>b m. message_ok P (Ty ! b) m)"

lemma ports_typed_static: "sn_static S' = sn_static S \<Longrightarrow> ports_typed Ty S \<Longrightarrow> ports_typed Ty S'"
proof -
  assume a: "sn_static S' = sn_static S" "ports_typed Ty S"
  have "nw_toNetQueues (sn_static S) = nw_toNetQueues S" "nw_fromNetQueues (sn_static S) = nw_fromNetQueues S" for S
    by (simp_all add: sn_static_def)
  then show ?thesis using a by (metis ports_typed_def)
qed

section \<open>Steps of the protocol and of the clock\<close>

lemma send_typed:
  assumes T: "typed P Ty S" and b: "b < length Ty" "bt_delta (Ty ! b) = None" and m: "message_ok P (Ty ! b) m"
    and e: "sn_enqueue (Some b) m delta S = Inr S'"
  shows "typed P Ty S'"
proof -
  have W: "wired P Ty S" and S: "steady P Ty S S" using T typed_steady by (auto simp: typed_def)
  note B = steady_buffer [OF S b(1)]
  from e obtain R B' evs where q: "mb_enqueue m (sn_now S) delta (sn_ruby S, sn_buffers S ! b) = Inr (R, B', evs)"
    and ev: "foldM (\<lambda>(c, t) S2. storeEventInfo (mb_vnet_id B') c (sn_scheduleEventAbsolute t c S2)) evs
      (assign (Some b) B' (S\<lparr>sn_ruby := R\<rparr>)) = Inr S'"
    by (auto simp: sn_enqueue_def Let_def deref_eq_Inr)
  from q obtain c t where c: "mb_consumer (sn_buffers S ! b) = Some c" "evs = [(c, t)]" "mb_consumer B' = mb_consumer (sn_buffers S ! b)"
    "mb_vnet_id B' = mb_vnet_id (sn_buffers S ! b)" by (rule mb_enqueue_events)
  from q obtain a d where ms: "mb_msgs B' = add_mset (m\<lparr>msg_DelayedTicks := d, msg_LastEnqueueTime := a,
      msg_counter := mb_msg_counter (sn_buffers S ! b) + 1\<rparr>) (mb_msgs (sn_buffers S ! b))" by (rule enqueue_msgs)
  have "buffer_ok P (rs_randomization (sn_ruby S)) (sn_now S) (Ty ! b) B'"
    using B(2) c ms m b(2) enqueue_effect(1) [OF q] by (auto simp: buffer_ok_def fifo_ok_def message_ok_def)
  moreover from q obtain x y where "mb_arrival (sn_ruby S) (sn_now S) delta (sn_buffers S ! b) = (x, y, R)" by (rule mb_enqueueE)
  then have R: "rs_randomization R = rs_randomization (sn_ruby S)" "rs_warmup_enabled R = rs_warmup_enabled (sn_ruby S)"
    using mb_arrival_flags by blast+
  ultimately have st: "steady P Ty S (assign (Some b) B' (S\<lparr>sn_ruby := R\<rparr>))" by (intro steady_assign [OF steady_ruby [OF S R] b(1)]) simp
  have "c = bt_consumer (Ty ! b)" "mb_vnet_id B' = int (bt_vnet (Ty ! b))" using B(2) c by (auto simp: buffer_ok_def)
  with storeEventInfo_ok [OF W steady_schedule(1) [OF st, of t c] nth_mem [OF b(1)]] ev c(2) have "steady P Ty S S'" by auto
  then show ?thesis by (rule steady_typed [OF T])
qed

lemma receive_typed:
  assumes T: "typed P Ty S" and b: "b < length Ty" and q: "sn_dequeue (Some b) S = Inr (m, S')"
  shows "typed P Ty S'"
proof -
  have S: "steady P Ty S S" using T by (rule typed_steady)
  from q obtain B' delay cb where d: "mb_dequeue (sn_now S) True (sn_buffers S ! b) = Inr (delay, m, B', cb)" by (rule sn_dequeueE) simp
  then have "mb_isReady (sn_now S) (sn_buffers S ! b)" by (auto simp: mb_dequeue_def)
  from sn_dequeue_ok [OF S b this] q have "steady P Ty S S'" by auto
  then show ?thesis by (rule steady_typed [OF T])
qed

lemma clock_typed: "typed P Ty S \<Longrightarrow> typed P Ty (S\<lparr>sn_now := sn_now S + d\<rparr>)"
  unfolding typed_def wired_def contents_ok_def
  by (auto simp: buffer_ok_def fifo_ok_def elim!: list_all2_mono)

lemma clock_ledger [simp]: "sn_ledger (S\<lparr>sn_now := t\<rparr>) = sn_ledger S"
  by (simp add: sn_ledger_def sn_copies_def pending_gap_def pending_of_def waiting_def balance_def get_perfect_def get_throttle_def
      get_switch_def th_balance_def units_moved_def fun_eq_iff split: sum.splits)

section \<open>Runs\<close>

definition run_copies :: "message list \<Rightarrow> (nat \<times> nat \<times> nat) multiset" where
  "run_copies ms = sum_list (map msg_copies ms)"

text \<open>What every state of a run satisfies, relative to the state \<open>S0\<close> in which it started.\<close>

definition run_inv :: "simple_params \<Rightarrow> store_type \<Rightarrow> simple_network \<Rightarrow> simple_run \<Rightarrow> bool" where
  "run_inv P Ty S0 r = (case r of (S, sent, received) \<Rightarrow>
     typed P Ty S \<and> ports_typed Ty S \<and>
     sn_copies S + run_copies received = sn_copies S0 + run_copies sent \<and>
     pending_gap S = pending_gap S0 \<and> balance S = balance S0)"

lemma sn_step_inv:
  assumes "sn_step P (protocol_ok P Ty) r r'" and "run_inv P Ty S0 r"
  shows "run_inv P Ty S0 r'"
  using assms
proof (cases rule: sn_step.cases)
  case (switch_step i S S' sent received)
  with assms(2) have T: "typed P Ty S" by (simp add: run_inv_def)
  have "i < length (sn_switches S)" using switch_step(3) by (auto simp: PerfectSwitch_wakeup_def get_perfect_eq_Inr)
  from PerfectSwitch_wakeup_ok [OF T this] switch_step(3) have "typed P Ty S'" "sn_static S' = sn_static S" by auto
  then show ?thesis using assms(2) switch_step(1,2) PerfectSwitch_wakeup_ledger [OF T switch_step(3)] ports_typed_static
    by (simp add: run_inv_def sn_ledger_def)
next
  case (throttle_step i k S S' sent received)
  with assms(2) have T: "typed P Ty S" by (simp add: run_inv_def)
  obtain t where "get_throttle i k S = Inr t" using throttle_step(3) by (auto simp: Throttle_wakeup_def)
  from Throttle_wakeup_ok [OF T this] throttle_step(3) have "typed P Ty S'" "sn_static S' = sn_static S" by auto
  then show ?thesis using assms(2) throttle_step(1,2) Throttle_wakeup_ledger [OF T throttle_step(3)] ports_typed_static
    by (simp add: run_inv_def sn_ledger_def)
next
  case (clock_step S sent received)
  then show ?thesis using assms(2) clock_typed [of P Ty S "sp_clockPeriod P"] clock_ledger [of "sn_now S + sp_clockPeriod P" S]
    by (simp add: run_inv_def ports_typed_def sn_ledger_def)
next
  case (send_step S b m delta S' sent received)
  with assms(2) have T: "typed P Ty S" and b: "b < length Ty" "bt_delta (Ty ! b) = None" by (auto simp: run_inv_def ports_typed_def)
  have "typed P Ty S'" by (rule send_typed [OF T b send_step(4,5)])
  then show ?thesis using assms(2) send_step(1,2) sn_enqueue_ledger [OF send_step(5)] ports_typed_static [OF sn_enqueue_static [OF send_step(5)]]
    by (simp add: run_inv_def run_copies_def)
next
  case (receive_step S b m S' sent received)
  with assms(2) have T: "typed P Ty S" and b: "b < length Ty" "\<forall>i. bt_consumer (Ty ! b) \<noteq> SwitchConsumer i"
    by (auto simp: run_inv_def ports_typed_def)
  have "mb_consumer (sn_buffers S ! b) = Some (bt_consumer (Ty ! b))"
    using steady_buffer(2) [OF typed_steady [OF T] b(1)] by (simp add: buffer_ok_def)
  then have g: "pending_gap S' = pending_gap S" using sn_dequeue_ledger(3) [OF receive_step(4)] b(2) by (simp add: fun_eq_iff one_at_def)
  have "typed P Ty S'" by (rule receive_typed [OF T b(1) receive_step(4)])
  moreover have "sn_static S' = sn_static S" using receive_step(4) by (auto elim!: sn_dequeueE)
  ultimately show ?thesis using assms(2) receive_step(1,2) sn_dequeue_ledger(1,2) [OF receive_step(4)] g ports_typed_static
    by (simp add: run_inv_def run_copies_def ac_simps)
qed

lemma sn_run_inv:
  assumes "(sn_step P (protocol_ok P Ty))\<^sup>*\<^sup>* (S0, [], []) r" and "typed P Ty S0" and "ports_typed Ty S0"
  shows "run_inv P Ty S0 r"
  using assms(1)
proof (induction rule: rtranclp_induct)
  case base
  show ?case using assms(2,3) by (simp add: run_inv_def run_copies_def)
qed (rule sn_step_inv)

end
