(* ===== verification/Simple_Properties.thy ===== *)
theory Simple_Properties
  imports Simple_Steps Buffer_Properties
begin

text \<open>
  The properties of the simple network, for every run from a state that is typed, and a network of one
  switch and two nodes, connected by the calls that \<open>createLinks\<close> makes, on which they are instantiated.
\<close>

section \<open>An example\<close>

definition ex_simple_params :: simple_params where
  "ex_simple_params = \<lparr>sp_machines = ex_machines, sp_clockPeriod = 1, sp_sort = sort_key lo_value\<rparr>"

definition ex_simple_link :: "nat \<Rightarrow> ext_link" where
  "ex_simple_link i = \<lparr>bl_latency = 1, bl_bandwidth_factor = 16, bl_weight = 1, el_ext_type = 0, el_ext_version = i,
     el_int_node = 0, el_network_links = [], el_credit_links = []\<rparr>"

definition ex_buffer :: "consumer_ref option \<Rightarrow> message_buffer" where
  "ex_buffer c = (MessageBuffer_new 0 False False)\<lparr>mb_consumer := c\<rparr>"

text \<open>Buffers 0 and 1 are to the network, 4 and 5 from the network, 2 and 3 belong to the switch.\<close>

definition ex_unwired :: simple_network where
  "ex_unwired = \<lparr>nw_nodes = 2, nw_virtual_networks = 1, nw_control_msg_size = 8, nw_data_msg_size = 72,
     nw_vnet_type_names = [''request''], nw_topology = \<lparr>tp_nodes = 2, tp_number_of_switches = 1, tp_ext_link_vector = [],
       tp_int_link_vector = [], tp_link_map = []\<rparr>,
     nw_toNetQueues = [[Some 0], [Some 1]], nw_fromNetQueues = [[Some 4], [Some 5]], nw_ordered = [False], nw_addrMap = [],
     sn_switches = [Switch_init (Switch_new 0 1 [Some 2, Some 3])], sn_int_link_buffers = [], sn_num_connected_buffers = 0,
     sn_buffer_size = 0, sn_endpoint_bandwidth = 1000, sn_adaptive_routing = True,
     sn_buffers = [ex_buffer None, ex_buffer None, ex_buffer None, ex_buffer None, ex_buffer (Some (ProtocolConsumer 0)), ex_buffer (Some (ProtocolConsumer 1))],
     sn_ruby = ex_ruby, sn_now = 0\<rparr>"

definition ex_throttle :: "nat \<Rightarrow> throttle" where
  "ex_throttle k = \<lparr>th_in = [Some (2 + k)], th_out = [Some (4 + k)], th_vnets = 1, th_units_remaining = [0], th_switch_id = 0,
     th_node = k, th_link_bandwidth_multiplier = 16, th_link_latency = 1, th_wakeups_wo_switch = 0, th_endpoint_bandwidth = 1000,
     th_msg_counts = (\<lambda>_ _. 0), th_link_utilization_proxy = 0, th_wakeups = []\<rparr>"

definition ex_perfect :: perfect_switch where
  "ex_perfect = \<lparr>pf_switch_id = 0, pf_in = [[Some 0], [Some 1]], pf_out = [[Some 2], [Some 3]],
     pf_routing_table = [ex_dest [0], ex_dest [1]], pf_link_order = [\<lparr>lo_link = 0, lo_value = 0\<rparr>, \<lparr>lo_link = 1, lo_value = 0\<rparr>],
     pf_virtual_networks = 1, pf_round_robin_start = 0, pf_wakeups_wo_switch = 0, pf_pending_message_count = [0], pf_wakeups = []\<rparr>"

definition ex_simple :: simple_network where
  "ex_simple = ex_unwired\<lparr>
     sn_switches := [\<lparr>sw_id = 0, sw_perfect_switch = ex_perfect, sw_throttles = [ex_throttle 0, ex_throttle 1],
       sw_port_buffers = [Some 2, Some 3], sw_num_connected_buffers = 2\<rparr>],
     sn_buffers := [ex_buffer (Some (SwitchConsumer 0)), (ex_buffer (Some (SwitchConsumer 0)))\<lparr>mb_input_link_id := 1\<rparr>,
       ex_buffer (Some (ThrottleConsumer 0 0)), ex_buffer (Some (ThrottleConsumer 0 1)),
       ex_buffer (Some (ProtocolConsumer 0)), ex_buffer (Some (ProtocolConsumer 1))]\<rparr>"

definition ex_types :: store_type where
  "ex_types =
     (let all = {(0, 0), (0, 1)}; T = (\<lambda>c d cover. \<lparr>bt_consumer = c, bt_vnet = 0, bt_delta = d, bt_cover = cover\<rparr>) in
      [T (SwitchConsumer 0) None all, T (SwitchConsumer 0) None all,
       T (ThrottleConsumer 0 0) (Some 1) {(0, 0)}, T (ThrottleConsumer 0 1) (Some 1) {(0, 1)},
       T (ProtocolConsumer 0) (Some 1) {(0, 0)}, T (ProtocolConsumer 1) (Some 1) {(0, 1)}])"

lemmas simple_eval = SimpleNetwork_makeExtInLink_def SimpleNetwork_makeExtOutLink_def Switch_addInPort_def Switch_addOutPort_def
  PerfectSwitch_addInPort_def PerfectSwitch_addOutPort_def connect_in_buffer_def take_port_buffer_def Throttle_addLinks_def
  add_link_def Throttle_new_def PerfectSwitch_new_def PerfectSwitch_init_def Switch_new_def Switch_init_def
  get_switch_def put_switch_def get_perfect_def put_perfect_def get_throttle_def put_throttle_def deref_def assign_def
  mb_setConsumer_def assert_that_def ex_simple_link_def ex_buffer_def MessageBuffer_new_def

lemma ex_simple_built:
  "bnd (SimpleNetwork_makeExtInLink 0 0 (ExtLink (ex_simple_link 0)) (ex_dest []) ex_unwired)
     (\<lambda>S. bnd (SimpleNetwork_makeExtInLink 1 0 (ExtLink (ex_simple_link 1)) (ex_dest []) S)
     (\<lambda>S. bnd (SimpleNetwork_makeExtOutLink 0 0 (ExtLink (ex_simple_link 0)) (ex_dest [0]) S)
     (\<lambda>S. SimpleNetwork_makeExtOutLink 0 1 (ExtLink (ex_simple_link 1)) (ex_dest [1]) S))) = Inr ex_simple"
  by (simp add: simple_eval at_def ex_unwired_def ex_simple_def ex_perfect_def ex_throttle_def cong: bnd_weak_cong)

lemma ex_params_ok: "params_ok ex_simple_params"
  by (auto simp: params_ok_def ex_simple_params_def machines_ok_def ex_machines_def NUMBER_BITS_PER_SET_def)

lemma ex_dest_ok: "dest_ok ex_machines (ex_dest [0])" "dest_ok ex_machines (ex_dest [1])" "dest_ok ex_machines (ex_dest [0, 1])"
  "nd_elems (ex_dest [0]) = {(0, 0)}" "nd_elems (ex_dest [1]) = {(0, 1)}" "nd_elems (ex_dest [0, 1]) = {(0, 0), (0, 1)}"
  by (auto simp: dest_ok_def ex_dest_def ex_machines_def set_elems_def nd_elems_def bit_simps less_Suc_eq)

lemma ex_typed: "typed ex_simple_params ex_types ex_simple" "ports_typed ex_types ex_simple"
proof -
  have "perfect_wired ex_simple_params ex_types 0 ex_perfect"
    using ex_dest_ok by (simp add: perfect_wired_def ex_perfect_def ex_types_def ex_simple_params_def Let_def less_Suc_eq numeral_2_eq_2)
  moreover have "throttle_wired ex_simple_params ex_types 0 k (ex_throttle k)" if "k < 2" for k
    using that by (auto simp: throttle_wired_def ex_throttle_def ex_types_def ex_simple_params_def Let_def getLinkBandwidth_def less_Suc_eq numeral_2_eq_2)
  ultimately have "wired ex_simple_params ex_types ex_simple"
    using ex_params_ok by (auto simp: wired_def ex_simple_def ex_unwired_def ex_types_def Let_def consumer_wired_def ex_perfect_def less_Suc_eq numeral_2_eq_2)
  moreover have "contents_ok ex_simple_params ex_types ex_simple"
    by (simp add: contents_ok_def buffer_ok_def fifo_ok_def ex_types_def ex_simple_def ex_unwired_def ex_ruby_def Let_def ex_buffer_def
        MessageBuffer_new_def mb_inv_def mb_heap_inv_def is_heap_def mb_msgs_def stalled_ids_def switch_ok_def perfect_ok_def throttle_ok_def ex_perfect_def ex_throttle_def)
  ultimately show "typed ex_simple_params ex_types ex_simple" by (simp add: typed_def)
  show "ports_typed ex_types ex_simple"
    by (auto simp: ports_typed_def queue_ref_def ex_types_def ex_simple_def ex_unwired_def Let_def)
qed

text \<open>
  A run: node 0 sends a message to both nodes, the switch wakes up, then both throttles. What the run does
  to buffers, counters and links is evaluated.
\<close>

definition ex_cast :: message where
  "ex_cast = (ex_message 5)\<lparr>msg_destination := ex_dest [0, 1]\<rparr>"

definition ex_clock :: "simple_network \<Rightarrow> simple_network" where
  "ex_clock S = S\<lparr>sn_now := sn_now S + sp_clockPeriod ex_simple_params\<rparr>"

definition ex_play :: "simple_network res" where
  "ex_play =
     bnd (sn_enqueue (Some 0) ex_cast 1 ex_simple) (\<lambda>S.
     bnd (PerfectSwitch_wakeup ex_simple_params 0 (ex_clock S)) (\<lambda>S.
     bnd (Throttle_wakeup ex_simple_params 0 0 (ex_clock S))
       (Throttle_wakeup ex_simple_params 0 1)))"

definition ex_heaps :: "simple_network \<Rightarrow> (nat \<times> net_dest) list list" where
  "ex_heaps S = map (\<lambda>B. map (\<lambda>m. (msg_id m, msg_destination m)) (mb_prio_heap B)) (sn_buffers S)"

definition ex_links :: "simple_network \<Rightarrow> (int list \<times> int) list list" where
  "ex_links S = map (\<lambda>sw. map (\<lambda>t. (th_units_remaining t, th_link_utilization_proxy t)) (sw_throttles sw)) (sn_switches S)"

lemma ex_play_heaps: "map_sum id ex_heaps ex_play = Inr [[], [], [], [], [(5, ex_dest [0])], [(5, ex_dest [1])]]"
  by code_simp

lemma ex_play_links: "map_sum id ex_links ex_play = Inr [[([56000], 16000), ([56000], 16000)]]"
  by code_simp

lemma ex_run:
  obtains S where "ex_play = Inr S" and "(sn_step ex_simple_params (protocol_ok ex_simple_params ex_types))\<^sup>*\<^sup>* (ex_simple, [], []) (S, [ex_cast], [])"
    and "ex_heaps S = [[], [], [], [], [(5, ex_dest [0])], [(5, ex_dest [1])]]" and "ex_links S = [[([56000], 16000), ([56000], 16000)]]"
proof -
  let ?step = "sn_step ex_simple_params (protocol_ok ex_simple_params ex_types)"
  obtain S where S: "ex_play = Inr S" using ex_play_heaps by (cases ex_play) (metis map_sum.simps(1) sum.distinct(2))
  then obtain S1 S2 S3 where 1: "sn_enqueue (Some 0) ex_cast 1 ex_simple = Inr S1"
    and 2: "PerfectSwitch_wakeup ex_simple_params 0 (ex_clock S1) = Inr S2"
    and 3: "Throttle_wakeup ex_simple_params 0 0 (ex_clock S2) = Inr S3" and 4: "Throttle_wakeup ex_simple_params 0 1 S3 = Inr S"
    by (auto simp: ex_play_def)
  have "protocol_ok ex_simple_params ex_types 0 ex_cast"
    using ex_dest_ok by (simp add: message_ok_def ex_cast_def ex_types_def ex_simple_params_def Let_def)
  then have a: "?step\<^sup>*\<^sup>* (ex_simple, [], []) (S1, [] @ [ex_cast], [])"
    by (intro r_into_rtranclp sn_step.send_step [OF _ _ 1]) (simp_all add: queue_ref_def ex_simple_def ex_unwired_def)
  have c: "?step (S, [ex_cast], []) (ex_clock S, [ex_cast], [])" for S unfolding ex_clock_def by (rule sn_step.clock_step)
  note steps = sn_step.switch_step [OF 2] sn_step.throttle_step [OF 3] sn_step.throttle_step [OF 4]
  have "?step\<^sup>*\<^sup>* (ex_simple, [], []) (ex_clock S1, [ex_cast], [])" using a c by (simp add: rtranclp.rtrancl_into_rtrancl)
  from this steps(1) have "?step\<^sup>*\<^sup>* (ex_simple, [], []) (S2, [ex_cast], [])" by (rule rtranclp.rtrancl_into_rtrancl)
  from this c have "?step\<^sup>*\<^sup>* (ex_simple, [], []) (ex_clock S2, [ex_cast], [])" by (rule rtranclp.rtrancl_into_rtrancl)
  from this steps(2) have "?step\<^sup>*\<^sup>* (ex_simple, [], []) (S3, [ex_cast], [])" by (rule rtranclp.rtrancl_into_rtrancl)
  from this steps(3) have "?step\<^sup>*\<^sup>* (ex_simple, [], []) (S, [ex_cast], [])" by (rule rtranclp.rtrancl_into_rtrancl)
  then show ?thesis using that [OF S] ex_play_heaps ex_play_links unfolding S by simp
qed

section \<open>Properties\<close>

text \<open>
  C17. Type soundness of the simple network. Let the store have a type: every buffer has one reader, every
  routing table covers what may arrive, every link leads to buffers that may hold what the link is for. Then
  every state that wakeups, the clock and the protocol lead to has the same type, and in each of them every
  wakeup of every switch and throttle returns: no assertion fails, no index leaves a vector, no null
  pointer is followed, no loop runs forever.
\<close>

theorem simple_network_type_sound:
  assumes "(sn_step P (protocol_ok P Ty))\<^sup>*\<^sup>* (S0, [], []) (S, sent, received)" and "typed P Ty S0" and "ports_typed Ty S0"
  shows "typed P Ty S \<and>
    (\<forall>i < length (sn_switches S). \<exists>S'. PerfectSwitch_wakeup P i S = Inr S' \<and> typed P Ty S') \<and>
    (\<forall>i < length (sn_switches S). \<forall>k < length (sw_throttles (sn_switches S ! i)).
       \<exists>S'. Throttle_wakeup P i k S = Inr S' \<and> typed P Ty S')"
proof -
  have T: "typed P Ty S" using sn_run_inv [OF assms] by (simp add: run_inv_def)
  have "get_throttle i k S = Inr (sw_throttles (sn_switches S ! i) ! k)"
    if "i < length (sn_switches S)" "k < length (sw_throttles (sn_switches S ! i))" for i k
    using that by (simp add: get_throttle_eq_Inr)
  then show ?thesis using T PerfectSwitch_wakeup_ok [OF T] Throttle_wakeup_ok [OF T] by blast
qed

theorem simple_network_type_sound_witness:
  "\<exists>S. ex_play = Inr S \<and> (\<exists>S'. PerfectSwitch_wakeup ex_simple_params 0 S = Inr S' \<and> typed ex_simple_params ex_types S')"
proof -
  from ex_run obtain S where S: "ex_play = Inr S"
    and r: "(sn_step ex_simple_params (protocol_ok ex_simple_params ex_types))\<^sup>*\<^sup>* (ex_simple, [], []) (S, [ex_cast], [])"
    and l: "ex_links S = [[([56000], 16000), ([56000], 16000)]]" by metis
  have "0 < length (sn_switches S)" using l by (cases "sn_switches S") (simp_all add: ex_links_def)
  with simple_network_type_sound [OF r ex_typed] show ?thesis using S by blast
qed

text \<open>
  C16. Multicast is exactly once. In every state, the deliveries that are still to be made, one per message
  and machine the message is for, together with those made, are those that were there and those that were
  asked for: no switch loses a destination or serves it twice, however it orders its links. And a message is
  only ever in a buffer that leads to all its destinations.
\<close>

theorem simple_network_exactly_once:
  assumes "(sn_step P (protocol_ok P Ty))\<^sup>*\<^sup>* (S0, [], []) (S, sent, received)" and "typed P Ty S0" and "ports_typed Ty S0"
  shows "sn_copies S + run_copies received = sn_copies S0 + run_copies sent \<and>
    (\<forall>b < length Ty. \<forall>m \<in># mb_msgs (sn_buffers S ! b). nd_elems (msg_destination m) \<subseteq> bt_cover (Ty ! b))"
proof -
  have I: "run_inv P Ty S0 (S, sent, received)" by (rule sn_run_inv [OF assms])
  then have "steady P Ty S S" by (intro typed_steady) (simp add: run_inv_def)
  from steady_buffer(2) [OF this] have "\<forall>b < length Ty. \<forall>m \<in># mb_msgs (sn_buffers S ! b). nd_elems (msg_destination m) \<subseteq> bt_cover (Ty ! b)"
    unfolding buffer_ok_def message_ok_def by blast
  with I show ?thesis by (simp add: run_inv_def)
qed

theorem simple_network_exactly_once_witness:
  "\<exists>S. ex_play = Inr S \<and> ex_heaps S = [[], [], [], [], [(5, ex_dest [0])], [(5, ex_dest [1])]] \<and>
    sn_copies S = {#(5, 0, 0), (5, 0, 1)#}"
proof -
  from ex_run obtain S where S: "ex_play = Inr S" "ex_heaps S = [[], [], [], [], [(5, ex_dest [0])], [(5, ex_dest [1])]]"
    and r: "(sn_step ex_simple_params (protocol_ok ex_simple_params ex_types))\<^sup>*\<^sup>* (ex_simple, [], []) (S, [ex_cast], [])" by metis
  have "sn_copies ex_simple = {#}"
    by (simp add: sn_copies_def contents_def buffer_copies_def ex_simple_def ex_buffer_def MessageBuffer_new_def mb_msgs_def)
  moreover have "run_copies [ex_cast] = {#(5, 0, 0), (5, 0, 1)#}"
    using ex_dest_ok by (simp add: run_copies_def msg_copies_def ex_cast_def ex_message_def)
  ultimately show ?thesis using simple_network_exactly_once [OF r ex_typed] S
    by (intro exI [of _ S]) (simp add: run_copies_def)
qed

text \<open>
  C18. The counters of pending messages are exact. If the counter of every switch and virtual network is the
  number of messages that wait in the input buffers of the switch, then it is so in every later state. A
  switch looks at its input ports only while the counter is positive, so no waiting message is overlooked.
\<close>

theorem pending_counters_exact:
  assumes "(sn_step P (protocol_ok P Ty))\<^sup>*\<^sup>* (S0, [], []) (S, sent, received)" and "typed P Ty S0" and "ports_typed Ty S0"
    and "pending_of i v S0 = waiting i v S0"
  shows "pending_of i v S = waiting i v S \<and> 0 \<le> pending_of i v S"
proof -
  have "pending_gap S = pending_gap S0" using sn_run_inv [OF assms(1,2,3)] by (simp add: run_inv_def)
  then have "pending_gap S i v = pending_gap S0 i v" by simp
  then have "pending_of i v S = waiting i v S" using assms(4) by (simp add: pending_gap_def)
  moreover have "0 \<le> waiting i v S" unfolding waiting_def waits_for_def by (rule sum_list_nonneg) auto
  ultimately show ?thesis by simp
qed

theorem pending_counters_exact_witness:
  "\<exists>S. ex_play = Inr S \<and> pending_of 0 0 S = waiting 0 0 S \<and> 0 \<le> pending_of 0 0 S"
proof -
  from ex_run obtain S where S: "ex_play = Inr S"
    and r: "(sn_step ex_simple_params (protocol_ok ex_simple_params ex_types))\<^sup>*\<^sup>* (ex_simple, [], []) (S, [ex_cast], [])" by metis
  have "pending_of 0 0 ex_simple = waiting 0 0 ex_simple"
    by (simp add: pending_of_def waiting_def waits_for_def get_perfect_def get_switch_def at_def ex_simple_def ex_perfect_def ex_buffer_def
        MessageBuffer_new_def)
  from pending_counters_exact [OF r ex_typed this] show ?thesis using S by blast
qed

text \<open>
  C19. A link pays for what it moves. In every state the size of the messages that a throttle has moved, in units
  of bandwidth, is what it has booked plus what it still owes for the message on the way, if that was so at
  the beginning; and its next wakeup books at least nothing and at most the bandwidth of the link.
\<close>

theorem link_pays_for_messages:
  assumes "(sn_step P (protocol_ok P Ty))\<^sup>*\<^sup>* (S0, [], []) (S, sent, received)" and "typed P Ty S0" and "ports_typed Ty S0"
    and t: "get_throttle i k S = Inr t" and "balance S0 i k = 0"
  shows "units_moved S t = th_link_utilization_proxy t + units_owed t \<and>
    (\<exists>S' t'. Throttle_wakeup P i k S = Inr S' \<and> get_throttle i k S' = Inr t' \<and>
       th_link_utilization_proxy t \<le> th_link_utilization_proxy t' \<and>
       th_link_utilization_proxy t' \<le> th_link_utilization_proxy t + getLinkBandwidth t)"
proof -
  have T: "typed P Ty S" and b: "balance S = balance S0" using sn_run_inv [OF assms(1,2,3)] by (simp_all add: run_inv_def)
  from Throttle_wakeup_ok [OF T t] obtain S' where S': "Throttle_wakeup P i k S = Inr S'" "sn_static S' = sn_static S" by blast
  obtain t' where t': "get_throttle i k S' = Inr t'" using static_throttle [OF S'(2) t] by blast
  have "th_balance S t = 0" using fun_cong [OF fun_cong [OF b], of i k] assms(5) t by (simp add: balance_def [of S])
  then show ?thesis using Throttle_wakeup_bandwidth [OF T t S'(1)] S'(1) t t' by (auto simp: booked_def th_balance_def)
qed

theorem link_pays_for_messages_witness:
  "\<exists>S t. ex_play = Inr S \<and> get_throttle 0 1 S = Inr t \<and> th_link_utilization_proxy t = 16000 \<and> units_owed t = 56000 \<and> units_moved S t = 72000"
proof -
  from ex_run obtain S where S: "ex_play = Inr S" and l: "ex_links S = [[([56000], 16000), ([56000], 16000)]]"
    and r: "(sn_step ex_simple_params (protocol_ok ex_simple_params ex_types))\<^sup>*\<^sup>* (ex_simple, [], []) (S, [ex_cast], [])" by metis
  from l obtain t where t: "get_throttle 0 1 S = Inr t" "th_units_remaining t = [56000]" "th_link_utilization_proxy t = 16000"
    by (auto simp: ex_links_def get_throttle_def get_switch_def at_def map_eq_Cons_conv)
  have "balance ex_simple 0 1 = 0"
    by (simp add: balance_def get_throttle_def get_switch_def at_def ex_simple_def th_balance_def units_moved_def units_owed_def ex_throttle_def)
  from link_pays_for_messages [OF r ex_typed t(1) this] show ?thesis using S t
    by (intro exI [of _ S] exI [of _ t]) (simp add: units_owed_def)
qed

end
