(* ===== verification/Spec2Isabelle.thy ===== *)
theory Spec2Isabelle
  imports Router_Properties Topology_Properties Interface_Properties Build_Properties Address_Map Drain_Complete Simple_Build Simple_Properties
begin

text \<open>
  DRAIN in gem5: the Garnet 2.0 network model of this repository (src/gem5/src/mem/ruby/network/garnet2.0),
  extended with a mechanism that breaks routing deadlocks. Periodically the whole network is halted and
  every packet that waits in a chosen virtual channel is moved one step along a ring that visits the input
  ports of all routers. A packet that is moved often enough reaches its destination or a port from which it
  can, so that no cyclic wait lasts.

  \<^bold>\<open>The program and its parts.\<close> A network (\<open>GarnetNetwork\<close>) consists of routers, network interfaces and links. A
  router (\<open>Router\<close>) has input ports (\<open>InputUnit\<close>, one \<open>VirtualChannel\<close> with a \<open>flitBuffer\<close> per channel), output ports
  (\<open>OutputUnit\<close>, one \<open>OutVcState\<close> with a credit counter per channel of the next router), a \<open>RoutingUnit\<close>, a
  \<open>SwitchAllocator\<close> and a \<open>CrossbarSwitch\<close>. \<open>Router::wakeup\<close> reads a flit from every input link and a credit from
  every credit link, runs the halt and drain protocol, allocates the switch and moves the winners to the
  output buffers, from which \<open>NetworkLink\<close> and \<open>CreditLink\<close> take them to the next router. At the edge of the network a
  \<open>NetworkInterface\<close> takes messages from the \<open>MessageBuffer\<close>s of the protocol, turns them into flits, injects them and
  ejects what arrives, counting both in the statistics of \<open>GarnetNetwork\<close>. \<open>Topology\<close> connects all of this once, at the
  start, and computes the routing tables from the shortest paths. \<open>Network\<close> is the base class of the network models: it
  keeps the queues of the nodes and the map from addresses to controllers. \<open>SimpleNetwork\<close> is the other model, without
  flits: switches (\<open>PerfectSwitch\<close>) copy messages from buffer to buffer, and a \<open>Throttle\<close> per link limits the bandwidth.

  \<^bold>\<open>How it is modelled.\<close> Objects are records, pointers to routers, ports and links are positions in the
  vectors of the network, and every method is a function from the state to the new state. A failing
  assertion, \<open>fatal\<close>, \<open>panic\<close>, an index out of range, a null pointer or a division by zero is a value of the type
  \<open>error\<close> (results are \<open>error + state\<close>); statements are sequenced by \<open>bnd\<close>, loops over index ranges are \<open>foldM\<close>.
  Uninitialised memory is a parameter (the object before its constructor), \<open>random()\<close> is a stream of numbers
  in the state, machine types and the effect of a functional write on a message are parameters because their
  code is generated. Cycles are natural numbers; counters that cannot overflow in practice are unbounded.

  \<^bold>\<open>Numbers that are wider than in the code.\<close> The matrices of \<open>Topology\<close> hold \<open>int\<close>s and the sums of \<open>extend_shortest_path\<close> are
  \<open>int\<close> sums: weights so close to the largest \<open>int\<close> that a sum overflows are outside of what \<open>relax_k\<close> describes. \<open>fill_link\<close> stores the
  64-bit latency of a link in an \<open>int\<close>; the model keeps the value. The link utilization of \<open>Throttle\<close> is a \<open>double\<close> to which a ratio is
  added; the model counts the units of bandwidth exactly. \<open>compute_hops_remaining\<close> is total where the code would divide by zero
  columns, which no built network has.

  \<^descr> \<open>Garnet_Prelude\<close>: errors, sequencing and loops, vector access, multisets of contents, round-robin order;
    locale \<open>conserved\<close>: what every iteration of a loop keeps, the loop keeps.
  \<^descr> \<open>Std_Heap\<close>: \<open>std::push_heap\<close> and \<open>std::pop_heap\<close> as the C++ library implements them, and that they keep the
    heap and its elements (locale \<open>heap_order\<close>).
  \<^descr> \<open>Net_Dest\<close>: Set.hh and NetDest.cc; the bit vectors are refined to sets of machines.
  \<^descr> \<open>Flit\<close>: CommonTypes.hh, flit, Credit, flitBuffer; locale \<open>flit_queue\<close> (the contract of a priority queue) and
    its interpretation on the flit buffer.
  \<^descr> \<open>Vc_State\<close>: configuration, OutVcState, VirtualChannel; the credit counter and its assertions.
  \<^descr> \<open>Network_State\<close>: the records of ports, routers, links, interfaces and the network, scheduling of wakeups
    (Consumer.cc), and where the flits are (\<open>network_tags\<close>).
  \<^descr> \<open>Port_Units\<close>: the operations of InputUnit and OutputUnit.
  \<^descr> \<open>Routing_Unit\<close>, \<open>Routing_Correct\<close>: table routing and the mesh algorithms; locale \<open>minimal_choice\<close>, interpreted on
    each of the five algorithms; minimality, turn restrictions, what routing may change.
  \<^descr> \<open>Switch_Allocator\<close>, \<open>Switch_Correct\<close>: the two stages of allocation; conservation, one flit per port, requests.
    \<open>Switch_Total\<close>, \<open>Switch_Progress\<close>: in a router that is ready for allocation (\<open>router_ready\<close>, \<open>flits_routed\<close>) no assertion of
    the two stages fails, and a flit is sent if one may be sent.
  \<^descr> \<open>Links\<close>: CrossbarSwitch, NetworkLink, CreditLink.
  \<^descr> \<open>Spin_Ring\<close>: \<open>init_spinRing\<close> with the C++ stream it reads from; round trip with the printed form.
  \<^descr> \<open>Drain\<close>, \<open>Drain_Correct\<close>, \<open>Drain_Rotation\<close>: \<open>doSpin\<close> and its loops; conservation, frame, rotation.
  \<^descr> \<open>Drain_Frame\<close>, \<open>Drain_Total\<close>, \<open>Drain_Progress\<close>, \<open>Drain_Complete\<close>: when no assertion of a drain fails. \<open>drain_ready\<close> collects
    what the assertions ask for (a closed ring of connected ports, a packet or a credit in every channel of the ring,
    no packet of the channel outside the ring, packets that can be routed from everywhere on it); a drain of a ready network returns and leaves it
    ready, and \<open>end_halt\<close> as a whole does its work. Routing is by tables or by the mesh algorithms that do not look at free
    channels; the adaptive ones are not covered by \<open>routable\<close>.
  \<^descr> \<open>Router_Model\<close>, \<open>Router_Correct\<close>: construction of routers and links, \<open>InputUnit::wakeup\<close>, \<open>Router::wakeup\<close>.
  \<^descr> \<open>Network_Steps\<close>, \<open>Halt_Protocol\<close>: the network as a transition system (wakeups of routers and links, the clock)
    and its invariants: flits, credits, halt and lock. \<open>Wiring_Steps\<close>: no step, a drain included, changes which link is
    connected to which port, so what \<open>Garnet_Wiring\<close> shows of a built network holds in every reachable state.
    \<open>Channel_Steps\<close>: locale \<open>channel_property\<close>, what every operation on a channel keeps, every step keeps in all channels;
    interpreted on the output port of the channel, which nothing enters.
  \<^descr> \<open>Shortest_Path\<close>, \<open>Std_Map\<close>, \<open>Topology\<close>, \<open>Machine_Dest\<close>, \<open>Topology_Correct\<close>: Topology.cc with the link objects;
    the all-pairs shortest paths, the map of links (exactly what is configured), the table entry of every link and the connection of the network;
    the distances are the least walk weights and whoever follows the tables arrives.
    Locale \<open>link_maker\<close> is what \<open>createLinks\<close> relies on of a network model; both models are interpretations of it.
  \<^descr> \<open>Addr_Range\<close>, \<open>Ruby_Network\<close>, \<open>Address_Map\<close>: addr_range.hh (64-bit words) with its bit functions, Network.cc; the ranges of
    an interleaving divide the memory, and every address has one controller.
  \<^descr> \<open>Message_Buffer\<close>, \<open>Message_Buffer_Correct\<close>: Message.hh and MessageBuffer.cc; the heap is a second interpretation of
    \<open>flit_queue\<close>; conservation, order, the slot count and the stall map, for every sequence of calls. The order of an
    ordered buffer is shown for warm-up off: during warm-up the last arrival time is not recorded.
  \<^descr> \<open>Flow_Stats\<close>, \<open>Network_Interface\<close>: the counters of GarnetNetwork.hh and the whole of NetworkInterface.cc, on the state
    \<open>garnet_system\<close> (the network, the buffers of the nodes, the messages in flight, the counters).
  \<^descr> \<open>Interface_Flow\<close>, \<open>Flow_Balance\<close>: the specification \<open>flow_step\<close> of what crosses the edge of the network, and that
    every step \<open>sys_step\<close> of the whole system refines it; locale \<open>flow_counter\<close>, interpreted on the counters per virtual
    network and on those of marked flits: injected = received + in the network.
  \<^descr> \<open>Interface_Correct\<close>, \<open>Interface_Multicast\<close>: one ejection per wakeup, with the message handed over and the credit returned, no injection under the lock, the choice of
    channels, one flit per destination over repeated attempts.
  \<^descr> \<open>Garnet_Build\<close>, \<open>Garnet_Wiring\<close>, \<open>Garnet_Total\<close>: the constructor and \<open>init\<close> of \<open>GarnetNetwork\<close>, \<open>collateStats\<close>; what a
    network that was built satisfies (nothing in it, lock free, credits in bounds, the two ends of every link agree), and
    that every configuration whose parts fit together (\<open>params_ok\<close>) is built. \<open>build_system\<close> is the order in which the simulator
    calls the constructors and the \<open>init\<close> functions. With \<open>sys_step\<close> this gives the properties of every reachable state.
  \<^descr> \<open>Simple_Network\<close>, \<open>Simple_Build\<close>: SimpleNetwork, Switch, PerfectSwitch and Throttle, with message buffers in a store that
    is shared by reference. \<open>Simple_Routing\<close>: the shares of a multicast are a partition of its destinations.
  \<^descr> \<open>Simple_Typing\<close>, \<open>Simple_Sound\<close>, \<open>Simple_Throttle\<close>: a type for every buffer of the store (its reader, its virtual network, its
    latency, the machines that can be reached from it); wakeups of a typed network return and keep it typed.
  \<^descr> \<open>Simple_Ledger\<close>, \<open>Simple_Steps\<close>: the simple network as a transition system and what it accounts for: deliveries still to be
    made, pending counters, bandwidth booked and used.
  \<^descr> \<open>Mesh_Example\<close>: a concrete network, built by the constructors of the model, for the instances.
  \<^descr> \<open>Component_Properties\<close>, \<open>Router_Properties\<close>, \<open>Topology_Properties\<close>, \<open>Buffer_Properties\<close>, \<open>Interface_Properties\<close>,
    \<open>Build_Properties\<close>, \<open>Simple_Properties\<close> and this theory: the properties, each with an instance.

  \<^bold>\<open>Loops and fuel.\<close> There is no fuel. Loops over an index range or a list are total functions; the heap loops and
  the loop that reads the ring file have termination proofs (the distance to the root or to the end of the
  heap; the length of the unread input). The loop of \<open>extend_shortest_path\<close> runs until nothing changes and need not
  end: it is an optional value, and it is proved to return for all weights that are not negative. The loops of
  \<open>PerfectSwitch::operateMessageBuffer\<close> and of \<open>Throttle::operateVnet\<close> end because every iteration takes a message that is
  ready from a buffer or spends bandwidth.

  \<^bold>\<open>Choices of the C++ library.\<close> \<open>std::sort\<close> leaves the order of equal elements open: what \<open>PerfectSwitch\<close> gets back is a
  parameter, constrained to be a sorted permutation. The multimap from machine types to ranges keeps new entries last.
  The controllers of \<open>Network\<close> are the \<open>ext_node\<close>s of the external links in their order; the calls of their generated
  \<open>initNetQueues\<close> are a parameter.

  \<^bold>\<open>Not modelled.\<close> The averages and formulas of the statistics report (in \<open>double\<close>), the registration of statistics, \<open>print\<close>,
  \<open>scanNetwork\<close> and the trace files, which only produce output; the fault model (a table of probabilities in floating point,
  disabled by default, that nothing in the drain network reads); \<open>BasicRouter\<close>, a parameter object with a number; destructors;
  the coherence protocols, which may do anything to their message buffers; and the rest of gem5, the environment in
  which the network runs.

  \<^bold>\<open>Order of the work.\<close> Router and drain first; then message buffers, topology and interfaces; then the completion of a
  drain, the simple network, the address map and the construction of the network.
\<close>

section \<open>Evaluation on the example network\<close>

lemmas spin_eval = doSpin_def count_spun_def count_spun_inport_def iu_vc_isEmpty_def vc_isEmpty_def isEmpty_def
  spin_take_def inport_index_def map_index_def gn_input_def spin_take_flit_def lookupRoutingTable_pref_outport_def
  min_weight_step_def candidate_step_def NetDest_intersectionIsNotEmpty_def get_upstreamId_def compute_hops_remaining_def
  gn_put_input_def set_ring_flit_def gn_map_stats_def upstream_update_def get_upstreamrouter_def
  get_upstreamOutportDirn_def ou_increment_credit_def ovc_increment_credit_def ou_set_vc_state_def spin_insert_def
  spin_insert_flit_def outportCompute_def route_by_table_def lookupRoutingTable_def spin_flit_def ex_route_def ex_dest_def
  spinStruct_new_def INFINITE_def Set_intersectionIsEmpty_def outport_of_dirn_def ou_getNumFreeVCs_def
  signed_divide_int_def signed_modulo_int_def get_router_def put_router_def ex_stats_def

text \<open>A packet for router 1 waits in the east input port of router 0.\<close>

abbreviation ex_drain :: "cycles \<Rightarrow> int \<Rightarrow> bool \<Rightarrow> garnet_network" where
  "ex_drain now lock halt \<equiv> ex_net 0 now lock halt (Some (ex_flit 7 0 1)) None"

lemma ex_doSpin_runs: "\<exists>net'. doSpin 0 (ex_drain 0 (-1) False) = Inr net'"
  by (simp add: spin_eval sa_eval upt_rec numeral_2_eq_2 Let_def cong: bnd_weak_cong)

lemma ex_ring_wf: "ring_wf (ex_drain now lock halt)" "single_packets 0 (ex_drain now lock halt)"
  by (simp_all add: ring_wf_def single_packets_def ring_slot_def chan_def sa_eval spinStruct_new_def vc_flits_def flits_of_def
      less_Suc_eq all_conj_distrib map_index_def upt_rec numeral_2_eq_2)

lemma ex_best_links:
  assumes "table_ok ru dest" and "lookupRoutingTable_pref_outport ru dest = Inr ls"
  shows "best_links ru dest = ls"
  using assms pref_outport_eq [OF assms(1)] by (simp split: if_splits)

text \<open>Both routers have a route to router 1.\<close>

lemma ex_routable:
  "routable (ex_config 0) (ex_router 0 1 ''East'' 5 4 h v s ws) (ex_route 0 1)"
  "routable (ex_config 0) (ex_router 1 0 ''West'' 4 5 h v s ws) (ex_route 0 1)"
proof -
  let ?r0 = "ex_router 0 1 ''East'' 5 4 h v s ws" and ?r1 = "ex_router 1 0 ''West'' 4 5 h v s ws"
  have t: "table_ok (r_routing_unit ?r0) (ex_dest [1])" "table_ok (r_routing_unit ?r1) (ex_dest [1])"
    by (simp_all add: table_ok_def ex_router_def ex_dest_def)
  have "best_links (r_routing_unit ?r0) (ex_dest [1]) = [1]"
    by (rule ex_best_links [OF t(1)]) (simp add: spin_eval ex_router_def at_def upt_rec numeral_2_eq_2 cong: bnd_weak_cong)
  moreover have "best_links (r_routing_unit ?r1) (ex_dest [1]) = [0]"
    by (rule ex_best_links [OF t(2)]) (simp add: spin_eval ex_router_def at_def upt_rec numeral_2_eq_2 cong: bnd_weak_cong)
  ultimately show "routable (ex_config 0) ?r0 (ex_route 0 1)" "routable (ex_config 0) ?r1 (ex_route 0 1)"
    using t by (simp_all add: routable_def table_routes_def ex_route_def Let_def vnet_ok_def get_upstreamId_def
        routing_algorithm_of_def ex_config_def) (simp_all add: ex_router_def ex_out_def)
qed

lemma ex_drain_fields:
  "gn_config (ex_net 0 now lock halt (Some f) None) = ex_config 0"
  "gn_spinRing (ex_net 0 now lock halt (Some f) None) = [spinStruct_new 0 ''East'', spinStruct_new 1 ''West'', spinStruct_new 0 ''East'']"
  "gn_routers (ex_net 0 now lock halt (Some f) None) =
     [ex_router 0 (Suc 0) ''East'' 5 4 halt (ex_held ''East'' 1 f) (ex_ovc True) [now],
      ex_router (Suc 0) 0 ''West'' 4 5 halt (VirtualChannel_new 0) (ex_ovc False) [now]]"
  "r_input_unit (ex_router i other dirn k_in k_out h v s ws) = [ex_in 0 ''Local'' (2 * i) (VirtualChannel_new 0), ex_in (Suc 0) dirn k_in v]"
  "iu_vcs (ex_in n d k v) = [v]" "iu_id (ex_in n d k v) = n" "iu_direction (ex_in n d k v) = d"
  "ou_outvc_state (ex_out n d k s) = [s]" "r_id (ex_router i other dirn k_in k_out h v s ws) = i"
  "length (r_output_unit (ex_router i other dirn k_in k_out h v s ws)) = 2"
  "r_output_unit (ex_router i other dirn k_in k_out h v s ws) ! Suc 0 = ex_out (Suc 0) dirn k_out s"
  "ru_inports_dirn2idx (r_routing_unit (ex_router i other dirn k_in k_out h v s ws)) = [''Local'' \<mapsto> 0, dirn \<mapsto> 1]"
  "ru_outports_dirn2idx (r_routing_unit (ex_router i other dirn k_in k_out h v s ws)) = [''Local'' \<mapsto> 0, dirn \<mapsto> 1]"
  "ss_router_id (spinStruct_new r dirn) = r" "ss_inport_dir (spinStruct_new r dirn) = dirn"
  by (simp_all add: ex_net_def ex_router_def ex_in_def ex_out_def ex_vc_def spinStruct_new_def)

lemma ex_ring_at:
  "ring_slot (ex_net 0 now lock halt (Some f) None) 0 = (0, Suc 0)" "ring_slot (ex_net 0 now lock halt (Some f) None) (Suc 0) = (Suc 0, Suc 0)"
  "ring_slot (ex_net 0 now lock halt (Some f) None) (Suc (Suc 0)) = (0, Suc 0)"
  "up_port (ex_net 0 now lock halt (Some f) None) 0 ''East'' = Some (Suc 0, Suc 0)" "up_port (ex_net 0 now lock halt (Some f) None) (Suc 0) ''West'' = Some (0, Suc 0)"
  "ring_up (ex_net 0 now lock halt (Some f) None) 0 = (Suc 0, Suc 0)" "ring_up (ex_net 0 now lock halt (Some f) None) (Suc 0) = (0, Suc 0)"
  by (simp_all add: ring_slot_def map_index_def up_port_def get_upstreamrouter_def get_upstreamId_def
      get_upstreamOutportDirn_def ring_up_def ex_drain_fields)

lemma ex_ring_static: "ring_static 0 (ex_drain now lock halt)"
proof -
  let ?net = "ex_drain now lock halt"
  have "ports_ok 0 ?net" by (simp add: ports_ok_def ex_drain_fields less_Suc_eq)
  moreover have "position_ok 0 ?net i" if "i < 3" for i
  proof -
    from that consider "i = 0" | "i = Suc 0" | "i = Suc (Suc 0)" by linarith
    then show ?thesis by cases (simp_all add: position_ok_def ex_ring_at ex_drain_fields chan_ok_def ochan_ok_def)
  qed
  ultimately show ?thesis using ex_ring_wf(1) by (simp add: ring_static_def ex_ring_at ex_drain_fields upt_rec)
qed

lemma ex_drain_ready: "drain_ready 0 (ex_drain now lock halt)"
proof -
  let ?net = "ex_drain now lock halt"
  have flits: "vc_flits (ex_held ''East'' 1 f) = {#advance_stage SA_stage 0 (set_outport_dir ''East'' (set_outport 1 f))#}" for f
    by (simp add: ex_held_def)
  have "fl_route (ex_flit 7 0 1) = ex_route 0 1" "fl_hops_needed_before_spin (ex_flit 7 0 1) = -1" "fl_hops_needed_after_spin (ex_flit 7 0 1) = -1"
    by (simp_all add: ex_flit_def flit_new_def)
  then have "slot_held ?net (ex_held ''East'' 1 (ex_flit 7 0 1)) (ex_ovc False)"
    using ex_routable by (simp add: slot_held_def flits packet_ok_def ex_drain_fields less_Suc_eq ex_ovc_def flit_setters)
  moreover have "slot_free (VirtualChannel_new 0) (ex_ovc True)" by (simp add: slot_free_def ex_ovc_def VirtualChannel_new_def vc_flits_def)
  moreover have "occupied 0 ?net \<subseteq> ring_slot ?net ` {..<2}"
    by (auto simp: occupied_def ex_drain_fields less_Suc_eq chan_def ex_ring_at numeral_2_eq_2 lessThan_Suc)
  ultimately show ?thesis using ex_ring_static
    by (simp add: drain_ready_def ex_ring_at ex_drain_fields chan_def ochan_def less_Suc_eq all_conj_distrib numeral_2_eq_2)
qed

lemmas router_eval = Router_wakeup_def InputUnit_wakeup_def Router_read_credit_def OutputUnit_wakeup_def Router_spin_def
  Router_switch_def CrossbarSwitch_wakeup_def xbar_inport_def xbar_move_def xbar_stamp_def ou_insert_flit_def
  schedule_events_def schedule_one_def consumer_schedule_def count_up_def end_halt_def begin_halt_def set_halt_def
  chck_link_state_def link_state_outport_def drain_rounds_def spin_rounds_def drain_vcs_def count_and_spin_def
  set_flit_time_def flit_time_inport_def compass_def gn_schedule_wakeup_def scheduleAll_wakeup_def

lemma ex_router_runs: "\<exists>net'. Router_wakeup 0 (ex_drain 5 (-1) False) = Inr net' \<and> 0 < length (gn_routers net') \<and>
    1 < length (r_output_unit (gn_routers net' ! 0)) \<and> 0 < length (ou_outvc_state (r_output_unit (gn_routers net' ! 0) ! 1))"
  by (simp add: router_eval spin_eval sa_eval upt_rec numeral_2_eq_2 Let_def cong: bnd_weak_cong)

lemma ex_end_halt_runs: "\<exists>net'. end_halt 0 (ex_drain 23 0 True) = Inr net'"
  by (simp add: router_eval spin_eval sa_eval upt_rec numeral_2_eq_2 Let_def cong: bnd_weak_cong)

section \<open>The drain\<close>

text \<open>
  C1. A drain of a ready network returns: no assertion of \<open>doSpin\<close> fails and no index leaves a vector. It moves every
  packet of the drained channel exactly one position forward along the ring, so that the packets after it are
  those before rotated by one, and the network is ready for the next drain.
\<close>

theorem drain_rotates_the_ring:
  assumes "drain_ready vc net"
  shows "\<exists>net'. doSpin vc net = Inr net' \<and> rotate1 (ring_contents vc net') = ring_contents vc net \<and> drain_ready vc net'"
  using doSpin_progress [OF assms] doSpin_rotates(1) drain_ready_single [OF assms] by blast

theorem drain_rotates_the_ring_witness:
  "\<exists>net'. doSpin 0 (ex_drain 0 (-1) False) = Inr net' \<and>
     rotate1 (ring_contents 0 net') = ring_contents 0 (ex_drain 0 (-1) False) \<and> drain_ready 0 net'"
  by (rule drain_rotates_the_ring [OF ex_drain_ready])

text \<open>
  C2. Repeated drains take every packet everywhere: any number \<open>k\<close> of drains in a row of a ready network returns, and
  the packet that was at position \<open>i\<close> of the ring is then at position \<open>i + k\<close>, counted around the ring. So every packet
  passes through every router port of the ring, which is what lets a deadlocked packet reach its destination.
\<close>

theorem drains_visit_every_position:
  assumes "drain_ready vc net" and "i < length (gn_spinRing net) - 1"
  shows "\<exists>net'. spin_times vc k net = Inr net' \<and>
    ring_contents vc net' ! ((i + k) mod (length (gn_spinRing net) - 1)) = ring_contents vc net ! i"
proof -
  let ?n = "length (gn_spinRing net) - 1"
  obtain net' where s: "spin_times vc k net = Inr net'" using spin_times_progress [OF assms(1)] by blast
  have R: "rotate k (ring_contents vc net') = ring_contents vc net"
    using spin_times_rotates [OF s] drain_ready_single [OF assms(1)] by blast
  have l: "length (ring_contents vc net') = ?n" using arg_cong [OF R, of length] by (simp add: ring_contents_def)
  have "ring_contents vc net ! i = rotate k (ring_contents vc net') ! i" using R by simp
  also have "\<dots> = ring_contents vc net' ! ((k + i) mod ?n)" using nth_rotate [of i "ring_contents vc net'" k] l assms(2) by simp
  finally show ?thesis using s by (auto simp: add.commute)
qed

theorem drains_visit_every_position_witness:
  "\<exists>net'. spin_times 0 5 (ex_drain 0 (-1) False) = Inr net' \<and>
     ring_contents 0 net' ! 1 = ring_contents 0 (ex_drain 0 (-1) False) ! 0"
proof -
  have "length (gn_spinRing (ex_drain 0 (-1) False)) = 3" by (simp add: ex_net_def)
  then show ?thesis using drains_visit_every_position [OF ex_drain_ready [of 0 "-1" False], of 0 5] by simp
qed

text \<open>
  C4. Whatever the ring looks like, a drain that returns neither loses nor duplicates nor invents a flit
  anywhere in the network, and leaves the nodes of the ring, the flit links and the lock alone.
\<close>

theorem drain_conserves_flits:
  assumes "doSpin vc net = Inr net'"
  shows "network_tags net' = network_tags net \<and>
    map (\<lambda>s. (ss_router_id s, ss_inport_dir s)) (gn_spinRing net') = map (\<lambda>s. (ss_router_id s, ss_inport_dir s)) (gn_spinRing net) \<and>
    gn_networklinks net' = gn_networklinks net \<and> gn_lock net' = gn_lock net"
  using doSpin_tags [OF assms] by (simp add: spin_frame_def)

theorem drain_conserves_flits_witness:
  "\<exists>net'. doSpin 0 (ex_drain 0 (-1) False) = Inr net' \<and> network_tags net' = network_tags (ex_drain 0 (-1) False)"
  using ex_doSpin_runs drain_conserves_flits by blast

text \<open>
  C9. A drain of one channel touches only that channel of the ports of the ring: every other channel of
  every input port, and that channel of every port that is not on the ring, is exactly as before.
\<close>

theorem drain_touches_only_the_ring:
  assumes "doSpin vc net = Inr net'" and "ring_wf net" and "single_packets vc net"
    and "w \<noteq> vc \<or> t \<notin> ring_slot net ` {..<length (gn_spinRing net) - 1}"
  shows "chan net' w t = chan net w t"
  by (rule doSpin_slots(2) [OF assms])

theorem drain_touches_only_the_ring_witness:
  "\<exists>net'. doSpin 0 (ex_drain 0 (-1) False) = Inr net' \<and> chan net' 0 (0, 0) = chan (ex_drain 0 (-1) False) 0 (0, 0)"
proof -
  obtain net' where d: "doSpin 0 (ex_drain 0 (-1) False) = Inr net'" using ex_doSpin_runs by blast
  have "(0, 0) \<notin> ring_slot (ex_drain 0 (-1) False) ` {..<length (gn_spinRing (ex_drain 0 (-1) False)) - 1}"
    by (auto simp: ring_slot_def ex_net_def ex_router_def spinStruct_new_def map_index_def less_Suc_eq numeral_2_eq_2)
  then show ?thesis using drain_touches_only_the_ring [OF d ex_ring_wf] d by blast
qed

section \<open>The network over time\<close>

text \<open>
  C5. In every run of the routers, the links and the clock, drains included, the flits in the network
  remain the same flits: none is lost, duplicated or invented between the network interfaces.
\<close>

theorem network_conserves_flits:
  assumes "net_step\<^sup>*\<^sup>* net net'"
  shows "network_tags net' = network_tags net"
  by (rule net_steps_tags [OF assms])

text \<open>
  C7. The halt protocol: in every run that starts so, the lock is free exactly when no router is halted
  and taken exactly when all routers are. No router is ever left halted after the lock is released.
\<close>

theorem halt_follows_lock:
  assumes "net_step\<^sup>*\<^sup>* net net'" and "\<forall>r \<in> set (gn_routers net). r_halt r = (gn_lock net \<noteq> -1)"
    and "r \<in> set (gn_routers net')"
  shows "r_halt r = (gn_lock net' \<noteq> -1)"
proof -
  have "halt_inv net" using assms(2) by (simp add: halt_inv_def)
  from net_steps_halt_inv [OF assms(1) this] assms(3) show ?thesis by (simp add: halt_inv_def)
qed

text \<open>
  C8. A drain happens only when nothing is on the way: if the router that ends the halt gets past its
  assertions, the link of every output port of every router was empty when it started.
\<close>

theorem drain_needs_empty_links:
  assumes "end_halt rid net = Inr net'" and "r \<in> set (gn_routers net)" and "u \<in> set (r_output_unit r)"
  shows "ou_out_link u < length (gn_networklinks net) \<and> isEmpty (nl_linkBuffer (gn_networklinks net ! ou_out_link u)) \<and>
    gn_lock net' = -1"
  using end_halt_links_empty [OF assms] end_halt_inv(2) [OF assms(1)] by blast

text \<open>
  C10. A drain completes: if the links are empty and the network is ready for the drained channels, the router that ends
  the halt gets to its end. The lock is free again, no router is halted, and the packets of every drained channel
  have moved as many positions along the ring as rounds are configured (or drawn at random).
\<close>

theorem drain_completes:
  assumes "rid < length (gn_routers net)" and "0 < r_vc_per_vnet (gn_routers net ! rid)"
    and "\<forall>vc \<in> set (drained_vcs (gn_config net) (gn_routers net ! rid)). drain_ready vc net" and "links_idle net"
    and "\<forall>vc \<in> set (drain_vcs (gn_config net) (gn_routers net ! rid)). \<forall>r \<in> set (gn_routers net). \<forall>u \<in> set (r_input_unit r). vc < length (iu_vcs u)"
  shows "\<exists>net'. end_halt rid net = Inr net' \<and> gn_lock net' = -1 \<and> list_all (\<lambda>r. \<not> r_halt r) (gn_routers net') \<and>
    (\<forall>vc \<in> set (drained_vcs (gn_config net) (gn_routers net ! rid)). rotate (drain_count net) (ring_contents vc net') = ring_contents vc net)"
proof -
  obtain net' where e: "end_halt rid net = Inr net'" and
    "\<forall>vc \<in> set (drained_vcs (gn_config net) (gn_routers net ! rid)). rotate (drain_count net) (ring_contents vc net') = ring_contents vc net"
    using end_halt_returns [OF assms(1-4)] assms(5) by auto
  moreover have "list_all (\<lambda>r. \<not> r_halt r) (gn_routers net')"
    using end_halt_inv [OF e] by (auto simp: halt_inv_def list_all_iff)
  ultimately show ?thesis using end_halt_inv(2) [OF e] by blast
qed

theorem drain_completes_witness:
  "\<exists>net'. end_halt 0 (ex_drain 23 0 True) = Inr net' \<and> rotate 1 (ring_contents 0 net') = ring_contents 0 (ex_drain 23 0 True)"
proof -
  let ?net = "ex_drain 23 0 True"
  have v: "drained_vcs (gn_config ?net) (gn_routers ?net ! 0) = [0]" "drain_vcs (gn_config ?net) (gn_routers ?net ! 0) = [0]" "drain_count ?net = 1"
    by (simp_all add: drained_vcs_def drain_vcs_def drain_count_def ex_drain_fields) (simp_all add: ex_config_def ex_router_def upt_rec)
  have "links_idle ?net"
    by (simp add: links_idle_def isEmpty_def ex_net_def ex_router_def ex_out_def ex_link_def flitBuffer_new_def less_Suc_eq)
  moreover have "0 < r_vc_per_vnet (gn_routers ?net ! 0)" "0 < length (gn_routers ?net)" by (simp_all add: ex_net_def ex_router_def)
  moreover have "\<forall>r \<in> set (gn_routers ?net). \<forall>u \<in> set (r_input_unit r). 0 < length (iu_vcs u)" by (simp add: ex_drain_fields)
  ultimately show ?thesis using drain_completes [of 0 ?net] ex_drain_ready unfolding v by auto
qed

lemma ex_steps: "\<exists>net'. net_step\<^sup>*\<^sup>* (ex_drain 5 (-1) False) net' \<and> Router_wakeup 0 (ex_drain 5 (-1) False) = Inr net'"
proof -
  obtain net' where w: "Router_wakeup 0 (ex_drain 5 (-1) False) = Inr net'" using ex_router_runs by blast
  then have "net_step (ex_drain 5 (-1) False) net'" by (rule router_step) (simp add: ex_net_def ex_router_def)
  then show ?thesis using w by blast
qed

theorem network_conserves_flits_witness:
  "\<exists>net'. Router_wakeup 0 (ex_drain 5 (-1) False) = Inr net' \<and> network_tags net' = network_tags (ex_drain 5 (-1) False)"
  using ex_steps network_conserves_flits by blast

theorem halt_follows_lock_witness:
  "\<exists>net'. Router_wakeup 0 (ex_drain 5 (-1) False) = Inr net' \<and> (\<forall>r \<in> set (gn_routers net'). r_halt r = (gn_lock net' \<noteq> -1))"
proof -
  have "\<forall>r \<in> set (gn_routers (ex_drain 5 (-1) False)). r_halt r = (gn_lock (ex_drain 5 (-1) False) \<noteq> -1)"
    by (simp add: ex_net_def ex_router_def)
  then show ?thesis using ex_steps halt_follows_lock [of "ex_drain 5 (-1) False"] by blast
qed

theorem drain_needs_empty_links_witness:
  "\<exists>net'. end_halt 0 (ex_drain 23 0 True) = Inr net' \<and> gn_lock net' = -1"
proof -
  obtain net' where e: "end_halt 0 (ex_drain 23 0 True) = Inr net'" using ex_end_halt_runs by blast
  have r: "gn_routers (ex_drain 23 0 True) ! 0 \<in> set (gn_routers (ex_drain 23 0 True))"
      "r_output_unit (gn_routers (ex_drain 23 0 True) ! 0) ! 0 \<in> set (r_output_unit (gn_routers (ex_drain 23 0 True) ! 0))"
    by (simp_all add: ex_net_def ex_router_def)
  from drain_needs_empty_links [OF e r] e show ?thesis by blast
qed

end
